(* ===== verification/Prelude.thy ===== *)
theory Prelude
  imports Main "HOL-Library.Sublist"
begin

section \<open>Prelude: machine integers, errors, text and step systems\<close>

text \<open>
  What every component of the model shares: Rust's 64-bit arithmetic written out on \<^typ>\<open>int\<close>,
  the error values of \<^verbatim>\<open>anyhow::Error\<close> with what a caller can downcast out of them, results and
  transactions, decimal printing, and reachable states of a step system with the invariant
  principle as a locale.
\<close>

named_theorems table_simps \<open>rewrite rules of the SQL table operations\<close>
named_theorems status_simps \<open>evaluation of the status and kind strings\<close>
named_theorems inv_intros \<open>preservation lemmas of the components' invariants\<close>

subsection \<open>Machine integers\<close>

text \<open>
  \<^verbatim>\<open>i64\<close> values are \<^typ>\<open>int\<close>s with the range written out. \<^verbatim>\<open>saturating_*\<close> clamps to the range and
  a plain \<^verbatim>\<open>+\<close> wraps (the release profile of Cargo, which this repository does not override).
  \<^verbatim>\<open>u32\<close> and \<^verbatim>\<open>usize\<close> values are \<^typ>\<open>nat\<close>s: their \<^verbatim>\<open>saturating_sub\<close> is subtraction on \<^typ>\<open>nat\<close>.
\<close>

definition i64_min :: int where "i64_min = - (2 ^ 63)"
definition i64_max :: int where "i64_max = 2 ^ 63 - 1"
definition u32_max :: nat where "u32_max = 2 ^ 32 - 1"

definition in_i64 :: "int \<Rightarrow> bool" where
  "in_i64 x \<longleftrightarrow> i64_min \<le> x \<and> x \<le> i64_max"

definition sat64 :: "int \<Rightarrow> int" where
  "sat64 x = max i64_min (min i64_max x)"

definition wrap64 :: "int \<Rightarrow> int" where
  "wrap64 x = (x - i64_min) mod 2 ^ 64 + i64_min"

definition as_u32 :: "int \<Rightarrow> nat" where
  "as_u32 x = nat (x mod 2 ^ 32)"

lemmas i64_defs = i64_min_def i64_max_def in_i64_def

lemma in_i64_sat64 [simp, intro]: "in_i64 (sat64 x)"
  by (simp add: sat64_def i64_defs)

lemma sat64_id [simp]: "in_i64 x \<Longrightarrow> sat64 x = x"
  by (simp add: sat64_def i64_defs)

lemma in_i64_wrap64 [simp, intro]: "in_i64 (wrap64 x)"
proof -
  have "0 \<le> (x - i64_min) mod 2 ^ 64" "(x - i64_min) mod 2 ^ 64 < 2 ^ 64"
    by simp_all
  then show ?thesis by (simp add: wrap64_def i64_defs)
qed

lemma wrap64_id [simp]: "in_i64 x \<Longrightarrow> wrap64 x = x"
  by (simp add: wrap64_def i64_defs)

lemma sat64_mono: "x \<le> y \<Longrightarrow> sat64 x \<le> sat64 y"
  by (simp add: sat64_def max_def min_def)

lemma as_u32_nat [simp]: "n \<le> u32_max \<Longrightarrow> as_u32 (int n) = n"
  by (simp add: as_u32_def u32_max_def nat_mod_as_int)

lemma as_u32_le: "as_u32 x \<le> u32_max"
proof -
  have "x mod 2 ^ 32 < 2 ^ 32" by simp
  then show ?thesis by (simp add: as_u32_def u32_max_def nat_le_iff)
qed

subsection \<open>Errors and results\<close>

text \<open>
  A failure raised with a machine-readable code and class
  (\<^verbatim>\<open>JobFailure\<close>, src/memory/queue/types.rs).
\<close>

record job_failure =
  jf_code :: string
  jf_class :: string

text \<open>
  The SQLite result codes the program distinguishes (\<^verbatim>\<open>rusqlite::ErrorCode\<close>); all others are
  \<^verbatim>\<open>OtherCode\<close>.
\<close>

datatype sqlite_code =
    DatabaseBusy | DatabaseLocked | CannotOpen | DiskFull | DatabaseCorrupt | NotADatabase
  | ConstraintViolation | OtherCode

text \<open>
  An \<^verbatim>\<open>anyhow::Error\<close> as its readers see it: the cause chain printed with \<^verbatim>\<open>{:#}\<close>, and for every
  type the program downcasts to, what \<^verbatim>\<open>downcast_ref\<close> returns: a SQLite failure (code and extended
  code), the OS code of an \<^verbatim>\<open>io::Error\<close>, a \<^verbatim>\<open>JobFailure\<close>, and the code and class of a
  \<^verbatim>\<open>PipelineFailure\<close>.
\<close>

record anyhow_error =
  err_msg :: string
  err_sqlite :: "(sqlite_code \<times> int) option"
  err_os :: "int option"
  err_job_failure :: "job_failure option"
  err_pipeline :: "job_failure option"

definition plain_error :: "string \<Rightarrow> anyhow_error" where
  "plain_error m = \<lparr>err_msg = m, err_sqlite = None, err_os = None,
     err_job_failure = None, err_pipeline = None\<rparr>"

definition sqlite_error :: "sqlite_code \<Rightarrow> int \<Rightarrow> string \<Rightarrow> anyhow_error" where
  "sqlite_error c x m = (plain_error m)\<lparr>err_sqlite := Some (c, x)\<rparr>"

text \<open>\<^verbatim>\<open>.context(m)\<close> prepends to the printed chain and keeps every downcast.\<close>

definition with_context :: "string \<Rightarrow> anyhow_error \<Rightarrow> anyhow_error" where
  "with_context m e = e\<lparr>err_msg := m @ '': '' @ err_msg e\<rparr>"

lemma with_context_simps [simp]:
  "err_sqlite (with_context m e) = err_sqlite e"
  "err_os (with_context m e) = err_os e"
  "err_job_failure (with_context m e) = err_job_failure e"
  "err_pipeline (with_context m e) = err_pipeline e"
  by (simp_all add: with_context_def)

lemma plain_error_simps [simp]:
  "err_msg (plain_error m) = m"
  "err_sqlite (plain_error m) = None"
  "err_os (plain_error m) = None"
  "err_job_failure (plain_error m) = None"
  "err_pipeline (plain_error m) = None"
  by (simp_all add: plain_error_def)

lemma sqlite_error_simps [simp]:
  "err_msg (sqlite_error c x m) = m"
  "err_sqlite (sqlite_error c x m) = Some (c, x)"
  "err_os (sqlite_error c x m) = None"
  "err_job_failure (sqlite_error c x m) = None"
  "err_pipeline (sqlite_error c x m) = None"
  by (simp_all add: sqlite_error_def)

type_synonym 'a result = "anyhow_error + 'a"

text \<open>
  A transaction body returns its result and the new state, or fails: \<^verbatim>\<open>unchecked_transaction\<close>
  rolls back when it is dropped without \<^verbatim>\<open>commit\<close>, so the state after a failure is the state
  before. \<^verbatim>\<open>run_tx\<close> is the closure handed to \<^verbatim>\<open>with_connection\<close>.
\<close>

type_synonym ('a, 's) tx = "'s \<Rightarrow> ('a \<times> 's) result"

definition run_tx :: "('a, 's) tx \<Rightarrow> 's \<Rightarrow> 'a result \<times> 's" where
  "run_tx f s = (case f s of Inl e \<Rightarrow> (Inl e, s) | Inr (a, s') \<Rightarrow> (Inr a, s'))"

text \<open>Sequencing inside a transaction: the first error ends it.\<close>

definition tx_bind :: "('a, 's) tx \<Rightarrow> ('a \<Rightarrow> ('b, 's) tx) \<Rightarrow> ('b, 's) tx" where
  "tx_bind m f s = (case m s of Inl e \<Rightarrow> Inl e | Inr (a, s') \<Rightarrow> f a s')"

definition tx_pure :: "('s \<Rightarrow> 's) \<Rightarrow> (unit, 's) tx" where
  "tx_pure f s = Inr ((), f s)"

lemma tx_bind_Inr_iff:
  "tx_bind m f s = Inr r \<longleftrightarrow> (\<exists>a s'. m s = Inr (a, s') \<and> f a s' = Inr r)"
  by (auto simp: tx_bind_def split: sum.splits)

lemma tx_bind_Inr [simp]: "m s = Inr (a, s') \<Longrightarrow> tx_bind m f s = f a s'"
  by (simp add: tx_bind_def)

lemma tx_bind_Inl [simp]: "m s = Inl e \<Longrightarrow> tx_bind m f s = Inl e"
  by (simp add: tx_bind_def)

lemma tx_pure_Inr [simp]: "tx_pure f s = Inr ((), f s)"
  by (simp add: tx_pure_def)

lemma run_tx_Inl [simp]: "f s = Inl e \<Longrightarrow> run_tx f s = (Inl e, s)"
  by (simp add: run_tx_def)

lemma run_tx_Inr [simp]: "f s = Inr (a, s') \<Longrightarrow> run_tx f s = (Inr a, s')"
  by (simp add: run_tx_def)

lemma run_tx_cases:
  obtains (rolled_back) e where "f s = Inl e" "run_tx f s = (Inl e, s)"
        | (committed) a s' where "f s = Inr (a, s')" "run_tx f s = (Inr a, s')"
  by (cases "f s") auto

subsection \<open>Decimal printing\<close>

text \<open>\<^verbatim>\<open>format!("{n}")\<close> of an unsigned and of a signed integer.\<close>

definition digit_char :: "nat \<Rightarrow> char" where
  "digit_char d = ''0123456789'' ! d"

fun show_nat :: "nat \<Rightarrow> string" where
  "show_nat n = (if n < 10 then [digit_char n] else show_nat (n div 10) @ [digit_char (n mod 10)])"

declare show_nat.simps [simp del]

definition show_int :: "int \<Rightarrow> string" where
  "show_int i = (if i < 0 then CHR ''-'' # show_nat (nat (- i)) else show_nat (nat i))"

lemma digit_char_inj: "a < 10 \<Longrightarrow> b < 10 \<Longrightarrow> digit_char a = digit_char b \<Longrightarrow> a = b"
proof -
  have "distinct ''0123456789''" and l: "length ''0123456789'' = 10" by simp_all
  then show "a < 10 \<Longrightarrow> b < 10 \<Longrightarrow> digit_char a = digit_char b \<Longrightarrow> a = b"
    unfolding digit_char_def using nth_eq_iff_index_eq by metis
qed

lemma digit_char_mem: "d < 10 \<Longrightarrow> digit_char d \<in> set ''0123456789''"
  unfolding digit_char_def by (rule nth_mem) simp

lemma show_nat_not_Nil [simp]: "show_nat n \<noteq> []"
  by (subst show_nat.simps) simp

lemma show_nat_digits: "set (show_nat n) \<subseteq> set ''0123456789''"
proof (induction n rule: show_nat.induct)
  case (1 n)
  show ?case
  proof (cases "n < 10")
    case True
    then show ?thesis using digit_char_mem [of n] by (subst show_nat.simps) simp
  next
    case False
    then show ?thesis using "1" digit_char_mem [of "n mod 10"]
      by (subst show_nat.simps) simp
  qed
qed

lemma show_nat_single: "show_nat m = [c] \<Longrightarrow> m < 10"
  by (subst (asm) show_nat.simps) (simp split: if_splits)

lemma show_nat_inj: "show_nat m = show_nat n \<Longrightarrow> m = n"
proof (induction m arbitrary: n rule: show_nat.induct)
  case (1 m)
  show ?case
  proof (cases "m < 10 \<or> n < 10")
    case True
    then have "m < 10" "n < 10"
      using "1.prems" show_nat_single show_nat.simps by metis+
    then show ?thesis using "1.prems" digit_char_inj
      by (simp add: show_nat.simps [of m] show_nat.simps [of n])
  next
    case False
    then have "show_nat (m div 10) = show_nat (n div 10)" and "m mod 10 = n mod 10"
      using "1.prems" digit_char_inj [of "m mod 10" "n mod 10"]
      by (simp_all add: show_nat.simps [of m] show_nat.simps [of n])
    moreover have "m div 10 = n div 10"
      using "1.IH" [of "n div 10"] False calculation by simp
    ultimately show ?thesis by (metis div_mult_mod_eq)
  qed
qed

lemma show_nat_inj_iff [simp]: "show_nat m = show_nat n \<longleftrightarrow> m = n"
  using show_nat_inj by blast

lemma show_nat_no_char: "c \<notin> set ''0123456789'' \<Longrightarrow> c \<notin> set (show_nat n)"
  using show_nat_digits by blast

lemma show_int_inj: "show_int a = show_int b \<Longrightarrow> a = b"
proof -
  have "CHR ''-'' \<notin> set (show_nat n)" for n
    by (rule show_nat_no_char) simp
  then have neg: "CHR ''-'' # xs \<noteq> show_nat n" for xs n
    by (metis list.set_intros(1))
  then show "show_int a = show_int b \<Longrightarrow> a = b"
    by (auto simp: show_int_def neg neg [symmetric] split: if_splits)
qed

lemma list_all2_member: "list_all2 P xs ys \<Longrightarrow> x \<in> set xs \<Longrightarrow> \<exists>y\<in>set ys. P x y"
  by (induction rule: list_all2_induct) auto

text \<open>A separator that does not occur in two words splits their concatenations uniquely.\<close>

lemma append_sep_eq:
  assumes "xs @ c # ys = xs' @ c # ys'" and "c \<notin> set xs" and "c \<notin> set xs'"
  shows "xs = xs' \<and> ys = ys'"
  using assms
proof (induction xs arbitrary: xs')
  case Nil
  then show ?case by (cases xs') auto
next
  case (Cons x xs)
  then show ?case by (cases xs') auto
qed

lemma append_sep_eq_right:
  assumes "xs @ c # ys = xs' @ c # ys'" and "c \<notin> set ys" and "c \<notin> set ys'"
  shows "xs = xs' \<and> ys = ys'"
proof -
  have "rev ys @ c # rev xs = rev ys' @ c # rev xs'"
    using arg_cong [OF assms(1), of rev] by simp
  with assms(2,3) show ?thesis using append_sep_eq [of "rev ys" c "rev xs"] by fastforce
qed

subsection \<open>Step systems\<close>

text \<open>Reachable states of a step relation, and the invariant principle as an interface.\<close>

inductive reach :: "('s \<Rightarrow> bool) \<Rightarrow> ('s \<Rightarrow> 's \<Rightarrow> bool) \<Rightarrow> 's \<Rightarrow> bool"
  for init :: "'s \<Rightarrow> bool" and step :: "'s \<Rightarrow> 's \<Rightarrow> bool" where
  reach_init: "init s \<Longrightarrow> reach init step s"
| reach_step: "reach init step s \<Longrightarrow> step s t \<Longrightarrow> reach init step t"

locale invariant_system =
  fixes init :: "'s \<Rightarrow> bool"
    and step :: "'s \<Rightarrow> 's \<Rightarrow> bool"
    and inv :: "'s \<Rightarrow> bool"
  assumes inv_init: "init s \<Longrightarrow> inv s"
    and inv_step: "inv s \<Longrightarrow> step s t \<Longrightarrow> inv t"
begin

lemma reach_inv: "reach init step s \<Longrightarrow> inv s"
  by (induction rule: reach.induct) (auto intro: inv_init inv_step)

lemma steps_inv: "step\<^sup>*\<^sup>* s t \<Longrightarrow> inv s \<Longrightarrow> inv t"
  by (induction rule: rtranclp_induct) (auto intro: inv_step)

end

end
