(* ===== verification/Sql_Table.thy ===== *)
theory Sql_Table
  imports Prelude
begin

section \<open>SQL tables\<close>

text \<open>
  A table is the list of its rows in rowid order. The statements the program issues are
  \<^verbatim>\<open>UPDATE \<dots> WHERE\<close>, \<^verbatim>\<open>DELETE \<dots> WHERE\<close>, \<^verbatim>\<open>SELECT \<dots> WHERE \<dots> ORDER BY \<dots> LIMIT 1\<close> and \<^verbatim>\<open>INSERT\<close>, whose
  semantics is written out here once, with \<^verbatim>\<open>PRIMARY KEY\<close>, \<^verbatim>\<open>UNIQUE\<close> and partial \<^verbatim>\<open>UNIQUE \<dots> WHERE\<close>
  indexes as one notion: a partial key, \<^term>\<open>None\<close> for a row the index does not hold.
\<close>

definition sql_update :: "('r \<Rightarrow> bool) \<Rightarrow> ('r \<Rightarrow> 'r) \<Rightarrow> 'r list \<Rightarrow> 'r list" where
  "sql_update p f t = map (\<lambda>r. if p r then f r else r) t"

definition sql_delete :: "('r \<Rightarrow> bool) \<Rightarrow> 'r list \<Rightarrow> 'r list" where
  "sql_delete p t = filter (\<lambda>r. \<not> p r) t"

definition sql_count :: "('r \<Rightarrow> bool) \<Rightarrow> 'r list \<Rightarrow> nat" where
  "sql_count p t = length (filter p t)"

definition sql_find :: "('r \<Rightarrow> bool) \<Rightarrow> 'r list \<Rightarrow> 'r option" where
  "sql_find p t = List.find p t"

text \<open>\<^verbatim>\<open>ORDER BY key LIMIT 1\<close>: rows with equal keys keep their table order.\<close>

definition sql_first :: "('r \<Rightarrow> 'k::linorder) \<Rightarrow> 'r list \<Rightarrow> 'r option" where
  "sql_first k t = (case sort_key k t of [] \<Rightarrow> None | r # _ \<Rightarrow> Some r)"

text \<open>
  \<^verbatim>\<open>INSERT \<dots> ON CONFLICT(key) DO UPDATE\<close> (the row that has the key is updated in place) and
  \<^verbatim>\<open>INSERT OR REPLACE\<close> (it is deleted and the new row inserted); the predicate selects the row with
  the key of the inserted one.
\<close>

definition sql_upsert :: "('r \<Rightarrow> bool) \<Rightarrow> ('r \<Rightarrow> 'r) \<Rightarrow> 'r \<Rightarrow> 'r list \<Rightarrow> 'r list" where
  "sql_upsert p f r t = (if sql_count p t = 0 then t @ [r] else sql_update p f t)"

definition sql_replace :: "('r \<Rightarrow> bool) \<Rightarrow> 'r \<Rightarrow> 'r list \<Rightarrow> 'r list" where
  "sql_replace p r t = sql_delete p t @ [r]"

text \<open>
  Batched reads: the ids are split into windows of at most \<^term>\<open>n\<close> (Rust's \<^verbatim>\<open>chunks\<close>), each
  window is one \<^verbatim>\<open>SELECT \<dots> WHERE key IN (\<dots>)\<close>, and the rows go into a map.
\<close>

function windows :: "nat \<Rightarrow> 'a list \<Rightarrow> 'a list list" where
  "windows n xs = (if xs = [] \<or> n = 0 then [] else take n xs # windows n (drop n xs))"
  by pat_completeness auto
termination by (relation "measure (\<lambda>(n, xs). length xs)") auto

declare windows.simps [simp del]

definition fetch_window :: "('r \<Rightarrow> 'k) \<Rightarrow> 'r list \<Rightarrow> 'k list \<Rightarrow> ('k \<rightharpoonup> 'r) \<Rightarrow> ('k \<rightharpoonup> 'r)" where
  "fetch_window key t w m = fold (\<lambda>r m. m(key r \<mapsto> r)) (filter (\<lambda>r. key r \<in> set w) t) m"

definition fetch_batch :: "('r \<Rightarrow> 'k) \<Rightarrow> nat \<Rightarrow> 'k list \<Rightarrow> 'r list \<Rightarrow> ('k \<rightharpoonup> 'r)" where
  "fetch_batch key n ids t =
    (if ids = [] then Map.empty else fold (fetch_window key t) (windows n ids) Map.empty)"

text \<open>The entries of a (partial) unique index.\<close>

definition index_keys :: "('r \<Rightarrow> 'k option) \<Rightarrow> 'r list \<Rightarrow> 'k list" where
  "index_keys k t = List.map_filter k t"

definition unique_on :: "('r \<Rightarrow> 'k option) \<Rightarrow> 'r list \<Rightarrow> bool" where
  "unique_on k t \<longleftrightarrow> distinct (index_keys k t)"

subsection \<open>Laws\<close>

lemma set_map_filter_Some: "set (List.map_filter f xs) = {y. \<exists>x\<in>set xs. f x = Some y}"
  by (induction xs) (auto simp: map_filter_simps split: option.splits)

lemma sql_update_Nil [table_simps]: "sql_update p f [] = []"
  by (simp add: sql_update_def)

lemma sql_update_Cons [table_simps]:
  "sql_update p f (r # t) = (if p r then f r else r) # sql_update p f t"
  by (simp add: sql_update_def)

lemma length_sql_update [simp]: "length (sql_update p f t) = length t"
  by (simp add: sql_update_def)

lemma set_sql_update: "set (sql_update p f t) = (\<lambda>r. if p r then f r else r) ` set t"
  by (simp add: sql_update_def)

lemma in_sql_updateE:
  assumes "r \<in> set (sql_update p f t)"
  obtains (hit) q where "q \<in> set t" "p q" "r = f q"
        | (miss) "r \<in> set t" "\<not> p r"
  using assms by (auto simp: set_sql_update split: if_splits)

lemma sql_update_none: "(\<forall>r\<in>set t. \<not> p r) \<Longrightarrow> sql_update p f t = t"
  by (simp add: sql_update_def map_idI)

lemma sql_count_0_iff: "sql_count p t = 0 \<longleftrightarrow> (\<forall>r\<in>set t. \<not> p r)"
  by (simp add: sql_count_def filter_empty_conv)

lemma sql_update_count_0: "sql_count p t = 0 \<Longrightarrow> sql_update p f t = t"
  by (simp add: sql_count_0_iff sql_update_none)

lemma map_sql_update:
  "(\<And>r. r \<in> set t \<Longrightarrow> p r \<Longrightarrow> g (f r) = g r) \<Longrightarrow> map g (sql_update p f t) = map g t"
  by (simp add: sql_update_def)

lemma set_sql_delete [simp]: "set (sql_delete p t) = {r \<in> set t. \<not> p r}"
  by (auto simp: sql_delete_def)

lemma sql_find_SomeD: "sql_find p t = Some r \<Longrightarrow> r \<in> set t \<and> p r"
  by (auto simp: sql_find_def find_Some_iff)

lemma sql_find_NoneD: "sql_find p t = None \<Longrightarrow> r \<in> set t \<Longrightarrow> \<not> p r"
  by (auto simp: sql_find_def find_None_iff)

lemma sql_find_unique:
  assumes "r \<in> set t" "p r" "\<And>q. q \<in> set t \<Longrightarrow> p q \<Longrightarrow> q = r"
  shows "sql_find p t = Some r"
proof (cases "sql_find p t")
  case None
  then have False using sql_find_NoneD [OF None assms(1)] assms(2) by simp
  then show ?thesis ..
next
  case (Some q)
  then have "q = r" using sql_find_SomeD [OF Some] by (intro assms(3)) simp_all
  with Some show ?thesis by simp
qed

lemma sql_first_None_iff [simp]: "sql_first k t = None \<longleftrightarrow> t = []"
proof (cases t)
  case Nil
  then show ?thesis by (simp add: sql_first_def)
next
  case (Cons r rs)
  then have "sort_key k t \<noteq> []" by (metis length_0_conv length_sort list.distinct(1))
  then show ?thesis using Cons by (auto simp: sql_first_def split: list.splits)
qed

lemma sql_first_SomeD:
  assumes "sql_first k t = Some r"
  shows "r \<in> set t" and "\<forall>q\<in>set t. k r \<le> k q"
proof -
  obtain rs where s: "sort_key k t = r # rs"
    using assms by (auto simp: sql_first_def split: list.splits)
  then have "set t = set (r # rs)" by (metis set_sort)
  then show "r \<in> set t" by simp
  have "sorted (map k (r # rs))" using s by (metis sorted_sort_key)
  then show "\<forall>q\<in>set t. k r \<le> k q" using \<open>set t = set (r # rs)\<close> by auto
qed

lemma index_keys_Nil [simp]: "index_keys k [] = []"
  by (simp add: index_keys_def map_filter_simps)

lemma index_keys_Cons [simp]:
  "index_keys k (r # t) = (case k r of None \<Rightarrow> index_keys k t | Some x \<Rightarrow> x # index_keys k t)"
  by (simp add: index_keys_def map_filter_simps split: option.splits)

lemma index_keys_append [simp]: "index_keys k (t @ u) = index_keys k t @ index_keys k u"
  by (induction t) (auto split: option.splits)

lemma set_index_keys: "set (index_keys k t) = {x. \<exists>r\<in>set t. k r = Some x}"
  by (induction t) (auto split: option.splits)

lemma unique_on_Nil [simp]: "unique_on k []"
  by (simp add: unique_on_def)

lemma unique_on_Cons [simp]:
  "unique_on k (r # t) \<longleftrightarrow>
    (\<forall>x. k r = Some x \<longrightarrow> (\<forall>q\<in>set t. k q \<noteq> Some x)) \<and> unique_on k t"
  by (auto simp: unique_on_def set_index_keys split: option.splits)

lemma unique_on_snoc:
  "unique_on k (t @ [r]) \<longleftrightarrow>
    unique_on k t \<and> (\<forall>x. k r = Some x \<longrightarrow> (\<forall>q\<in>set t. k q \<noteq> Some x))"
  by (auto simp: unique_on_def set_index_keys split: option.splits)

lemma unique_onD:
  "unique_on k t \<Longrightarrow> i < length t \<Longrightarrow> j < length t \<Longrightarrow> k (t ! i) = Some x \<Longrightarrow> k (t ! j) = Some x \<Longrightarrow> i = j"
proof (induction t arbitrary: i j)
  case Nil
  then show ?case by simp
next
  case (Cons r t)
  then show ?case by (cases i; cases j) (auto dest: nth_mem)
qed

lemma unique_on_sub:
  "unique_on k t \<Longrightarrow> (\<And>r. r \<in> set t \<Longrightarrow> k' (f r) = None \<or> k' (f r) = k r) \<Longrightarrow> unique_on k' (map f t)"
proof (induction t)
  case Nil
  then show ?case by simp
next
  case (Cons r t)
  have "unique_on k' (map f t)" using Cons by simp
  moreover have "\<forall>q\<in>set t. k' (f q) \<noteq> Some x" if "k' (f r) = Some x" for x
  proof
    fix q assume q: "q \<in> set t"
    have "k r = Some x" using that Cons.prems(2) [of r] by simp
    then have "k q \<noteq> Some x" using Cons.prems(1) q by simp
    then show "k' (f q) \<noteq> Some x" using Cons.prems(2) [of q] q by auto
  qed
  ultimately show ?case by simp
qed

lemma unique_on_update_sub [inv_intros]:
  assumes "unique_on k t"
    and "\<And>r. r \<in> set t \<Longrightarrow> p r \<Longrightarrow> k (f r) = None \<or> k (f r) = k r"
  shows "unique_on k (sql_update p f t)"
  unfolding sql_update_def by (rule unique_on_sub [OF assms(1)]) (use assms(2) in auto)

lemma unique_on_map: "unique_on k (map f t) \<longleftrightarrow> unique_on (\<lambda>r. k (f r)) t"
  by (induction t) auto

lemma unique_onI_pairwise:
  assumes "distinct t"
    and "\<And>r q x. r \<in> set t \<Longrightarrow> q \<in> set t \<Longrightarrow> k r = Some x \<Longrightarrow> k q = Some x \<Longrightarrow> r = q"
  shows "unique_on k t"
  using assms
proof (induction t)
  case (Cons r t)
  have "unique_on k t" by (rule Cons.IH) (use Cons.prems in auto)
  moreover have "\<forall>q\<in>set t. k q \<noteq> Some x" if "k r = Some x" for x
  proof
    fix q assume q: "q \<in> set t"
    show "k q \<noteq> Some x"
    proof
      assume "k q = Some x"
      then have "r = q" using Cons.prems(2) that q by simp
      then show False using Cons.prems(1) q by simp
    qed
  qed
  ultimately show ?case by simp
qed simp

lemma unique_on_pairwiseD:
  assumes "unique_on k t" "r \<in> set t" "q \<in> set t" "k r = Some x" "k q = Some x"
  shows "r = q"
proof -
  obtain i j where "i < length t" "t ! i = r" "j < length t" "t ! j = q"
    using assms(2,3) by (auto simp: in_set_conv_nth)
  then show ?thesis using unique_onD [OF assms(1)] assms(4,5) by auto
qed

lemma unique_on_delete [inv_intros]: "unique_on k t \<Longrightarrow> unique_on k (sql_delete p t)"
proof (induction t)
  case Nil
  then show ?case by (simp add: sql_delete_def)
next
  case (Cons r t)
  then show ?case by (auto simp: sql_delete_def)
qed

lemma distinct_map_update:
  assumes "distinct (map g t)" "\<And>r. r \<in> set t \<Longrightarrow> p r \<Longrightarrow> g (f r) = g r"
  shows "distinct (map g (sql_update p f t))"
  using assms by (simp add: map_sql_update)

lemma distinct_map_upsert:
  assumes "distinct (map g t)" "\<And>q. q \<in> set t \<Longrightarrow> p q \<Longrightarrow> g (f q) = g q"
    and "\<And>q. q \<in> set t \<Longrightarrow> g q = g r \<Longrightarrow> p q"
  shows "distinct (map g (sql_upsert p f r t))"
proof (cases "sql_count p t = 0")
  case True
  then have "\<forall>q\<in>set t. \<not> p q" by (simp add: sql_count_0_iff)
  then have "g r \<notin> g ` set t" using assms(3) by (metis image_iff)
  then show ?thesis using True assms(1) by (simp add: sql_upsert_def)
next
  case False
  then show ?thesis using distinct_map_update [OF assms(1,2)] by (simp add: sql_upsert_def)
qed

lemma distinct_map_delete: "distinct (map g t) \<Longrightarrow> distinct (map g (sql_delete p t))"
  by (simp add: sql_delete_def distinct_map_filter)

lemma distinct_map_replace:
  assumes "distinct (map g t)" "\<And>q. q \<in> set t \<Longrightarrow> g q = g r \<Longrightarrow> p q"
  shows "distinct (map g (sql_replace p r t))"
proof -
  have "g r \<notin> g ` set (sql_delete p t)" using assms(2) by (auto simp: image_iff)
  then show ?thesis using distinct_map_delete [OF assms(1), of p] by (simp add: sql_replace_def)
qed

lemma concat_windows: "0 < n \<Longrightarrow> concat (windows n xs) = xs"
  by (induction n xs rule: windows.induct) (subst windows.simps, simp)

lemma windows_bounded: "w \<in> set (windows n xs) \<Longrightarrow> length w \<le> n"
proof (induction n xs rule: windows.induct)
  case (1 n xs)
  then show ?case using windows.simps [of n xs] by (cases "xs = [] \<or> n = 0") auto
qed

subsection \<open>Tables with a primary key\<close>

text \<open>
  The contract every table of the program gives its users: the constraints of its schema imply
  that a key names at most one row. What follows from it for statements that select by key is
  proved once here; each table interprets the locale with its own constraints.
\<close>

locale keyed_table =
  fixes key :: "'r \<Rightarrow> 'k"
    and ok :: "'r list \<Rightarrow> bool"
  assumes ok_distinct: "ok t \<Longrightarrow> distinct (map key t)"
begin

lemma key_eq: "ok t \<Longrightarrow> r \<in> set t \<Longrightarrow> q \<in> set t \<Longrightarrow> key r = key q \<Longrightarrow> r = q"
  using ok_distinct [of t] by (auto simp: distinct_map dest: inj_onD)

lemma find_key: "ok t \<Longrightarrow> r \<in> set t \<Longrightarrow> sql_find (\<lambda>q. key q = key r) t = Some r"
  by (rule sql_find_unique) (auto intro: key_eq)

lemma find_key': "ok t \<Longrightarrow> r \<in> set t \<Longrightarrow> key r = k \<Longrightarrow> sql_find (\<lambda>q. key q = k) t = Some r"
  using find_key by blast

lemma count_key: "ok t \<Longrightarrow> r \<in> set t \<Longrightarrow> sql_count (\<lambda>q. key q = key r) t = 1"
proof -
  assume a: "ok t" and r: "r \<in> set t"
  have "distinct t" using ok_distinct [OF a] by (simp add: distinct_map)
  then have "length (filter (\<lambda>q. key q = key r) t) = card (set (filter (\<lambda>q. key q = key r) t))"
    by (metis distinct_card distinct_filter)
  also have "set (filter (\<lambda>q. key q = key r) t) = {r}"
    using r key_eq [OF a] by auto
  finally show ?thesis by (simp add: sql_count_def)
qed

lemma count_key_le_1: "ok t \<Longrightarrow> sql_count (\<lambda>q. key q = k \<and> P q) t \<le> 1"
proof -
  assume a: "ok t"
  show ?thesis
  proof (cases "\<exists>r\<in>set t. key r = k \<and> P r")
    case True
    then obtain r where r: "r \<in> set t" "key r = k" "P r" by blast
    have "length (filter (\<lambda>q. key q = k \<and> P q) t) \<le> length (filter (\<lambda>q. key q = k) t)"
      by (induction t) auto
    then show ?thesis using count_key [OF a r(1)] r(2) by (simp add: sql_count_def)
  next
    case False
    then have "sql_count (\<lambda>q. key q = k \<and> P q) t = 0" by (simp add: sql_count_0_iff)
    then show ?thesis by simp
  qed
qed

lemma find_no_key: "k \<notin> key ` set t \<Longrightarrow> sql_find (\<lambda>q. key q = k) t = None"
  by (auto simp: sql_find_def find_None_iff)

lemma fetch_window:
  assumes "ok t"
  shows "fetch_window key t w m k =
    (if k \<in> set w \<and> k \<in> key ` set t then sql_find (\<lambda>q. key q = k) t else m k)"
proof -
  have d: "distinct (map key t)" by (rule ok_distinct [OF assms])
  have "fold (\<lambda>r m. m(key r \<mapsto> r)) (filter (\<lambda>r. key r \<in> set w) u) m k =
      (if k \<in> set w \<and> k \<in> key ` set u then sql_find (\<lambda>q. key q = k) t else m k)"
    if "set u \<subseteq> set t" "distinct (map key u)" for u m
    using that
  proof (induction u arbitrary: m)
    case (Cons r u)
    then have "sql_find (\<lambda>q. key q = key r) t = Some r" using find_key [OF assms] by simp
    then show ?case using Cons by auto
  qed simp
  from this [of t] show ?thesis using d by (simp add: fetch_window_def)
qed

text \<open>The batched read is the per-key read on every requested key.\<close>

lemma fetch_batch:
  assumes "ok t" "0 < n"
  shows "fetch_batch key n ids t k = (if k \<in> set ids then sql_find (\<lambda>q. key q = k) t else None)"
proof -
  have "fold (fetch_window key t) ws m k =
      (if k \<in> set (concat ws) \<and> k \<in> key ` set t then sql_find (\<lambda>q. key q = k) t else m k)" for ws m
    by (induction ws arbitrary: m) (auto simp: fetch_window [OF assms(1)])
  from this [of "windows n ids" Map.empty] show ?thesis
    using concat_windows [OF assms(2), of ids] find_no_key [of k t]
    by (auto simp: fetch_batch_def)
qed

lemma update_key_set:
  assumes "ok t" "r \<in> set t"
  shows "set (sql_update (\<lambda>q. key q = key r) f t) = insert (f r) (set t - {r})"
proof -
  have "q \<in> set t \<Longrightarrow> key q = key r \<longleftrightarrow> q = r" for q
    using key_eq [OF assms(1) _ assms(2)] by auto
  then have "(\<lambda>q. if key q = key r then f q else q) ` set t = (\<lambda>q. if q = r then f q else q) ` set t"
    by (intro image_cong) simp_all
  then show ?thesis using assms(2) by (auto simp: set_sql_update image_iff)
qed

lemma update_key_other:
  assumes "ok t" "r \<in> set t" "q \<in> set t" "q \<noteq> r"
  shows "q \<in> set (sql_update (\<lambda>q. key q = key r) f t)"
  using assms by (simp add: update_key_set)

end

end
