(* ===== verification/Config.thy ===== *)
theory Config
  imports Prelude
begin

section \<open>Engine configuration (src/memory/config.rs, src/memory/config/policy.rs)\<close>

text \<open>
  The knobs the modelled components read: the queue policy and the tree budgets, their defaults
  and the checks \<^verbatim>\<open>validate\<close> makes on them. Every check is an \<^verbatim>\<open>anyhow::ensure!\<close>, so the first
  failing one is the error.
\<close>

record queue_config =
  qc_lock_duration_ms :: int
  qc_retry_base_ms :: int
  qc_retry_cap_ms :: int
  qc_max_attempts :: nat
  qc_llm_permits :: nat
  qc_max_defer_age_ms :: int

definition DEFAULT_MAX_DEFER_AGE_MS :: int where
  "DEFAULT_MAX_DEFER_AGE_MS = 7 * 24 * 60 * 60 * 1000"

definition queue_config_default :: queue_config where
  "queue_config_default = \<lparr>
     qc_lock_duration_ms = 5 * 60 * 1000,
     qc_retry_base_ms = 60 * 1000,
     qc_retry_cap_ms = 60 * 60 * 1000,
     qc_max_attempts = 5,
     qc_llm_permits = 1,
     qc_max_defer_age_ms = DEFAULT_MAX_DEFER_AGE_MS\<rparr>"

definition ensure :: "bool \<Rightarrow> string \<Rightarrow> unit result" where
  "ensure c m = (if c then Inr () else Inl (plain_error m))"

fun ensure_all :: "(bool \<times> string) list \<Rightarrow> unit result" where
  "ensure_all [] = Inr ()"
| "ensure_all ((c, m) # cs) = (case ensure c m of Inl e \<Rightarrow> Inl e | Inr _ \<Rightarrow> ensure_all cs)"

definition queue_config_validate :: "queue_config \<Rightarrow> unit result" where
  "queue_config_validate c = ensure_all [
     (qc_lock_duration_ms c > 0 \<and> qc_retry_base_ms c > 0 \<and> qc_retry_cap_ms c \<ge> qc_retry_base_ms c,
      ''queue timing policy is invalid''),
     (qc_max_attempts c > 0 \<and> qc_llm_permits c > 0 \<and> qc_max_defer_age_ms c > 0,
      ''queue limits must be positive'')]"

record tree_config =
  tc_input_token_budget :: nat
  tc_output_token_budget :: nat
  tc_summary_overhead_reserve_tokens :: nat
  tc_summary_fanout :: nat
  tc_flush_age_secs :: nat
  tc_flavour_root_token_budget :: nat

definition INPUT_TOKEN_BUDGET :: nat where "INPUT_TOKEN_BUDGET = 50000"
definition OUTPUT_TOKEN_BUDGET :: nat where "OUTPUT_TOKEN_BUDGET = 5000"
definition SUMMARY_OVERHEAD_RESERVE_TOKENS :: nat where "SUMMARY_OVERHEAD_RESERVE_TOKENS = 2048"
definition SUMMARY_FANOUT :: nat where "SUMMARY_FANOUT = 10"
definition DEFAULT_FLUSH_AGE_SECS :: nat where "DEFAULT_FLUSH_AGE_SECS = 7 * 24 * 60 * 60"
definition FLAVOUR_ROOT_TOKEN_BUDGET :: nat where "FLAVOUR_ROOT_TOKEN_BUDGET = 1000"

lemmas tree_budget_defs = INPUT_TOKEN_BUDGET_def OUTPUT_TOKEN_BUDGET_def
  SUMMARY_OVERHEAD_RESERVE_TOKENS_def SUMMARY_FANOUT_def DEFAULT_FLUSH_AGE_SECS_def
  FLAVOUR_ROOT_TOKEN_BUDGET_def

definition tree_config_default :: tree_config where
  "tree_config_default = \<lparr>
     tc_input_token_budget = INPUT_TOKEN_BUDGET,
     tc_output_token_budget = OUTPUT_TOKEN_BUDGET,
     tc_summary_overhead_reserve_tokens = SUMMARY_OVERHEAD_RESERVE_TOKENS,
     tc_summary_fanout = SUMMARY_FANOUT,
     tc_flush_age_secs = DEFAULT_FLUSH_AGE_SECS,
     tc_flavour_root_token_budget = FLAVOUR_ROOT_TOKEN_BUDGET\<rparr>"

text \<open>The tree part of \<^verbatim>\<open>MemoryConfig::validate\<close>; \<^verbatim>\<open>checked_add\<close> fails above the \<^verbatim>\<open>u32\<close> range.\<close>

definition tree_config_validate :: "tree_config \<Rightarrow> unit result" where
  "tree_config_validate c = ensure_all [
     (tc_input_token_budget c > 0, ''tree.input_token_budget must be greater than zero''),
     (tc_output_token_budget c > 0, ''tree.output_token_budget must be greater than zero''),
     (tc_summary_overhead_reserve_tokens c < tc_input_token_budget c,
      ''tree.summary_overhead_reserve_tokens must be smaller than tree.input_token_budget''),
     (tc_output_token_budget c + tc_summary_overhead_reserve_tokens c \<le> u32_max \<and>
      tc_output_token_budget c + tc_summary_overhead_reserve_tokens c < tc_input_token_budget c,
      ''tree output and summary overhead budgets must leave positive input headroom''),
     (tc_summary_fanout c > 0, ''tree.summary_fanout must be greater than zero''),
     (tc_flush_age_secs c > 0, ''tree.flush_age_secs must be greater than zero''),
     (tc_flavour_root_token_budget c > 0,
      ''tree.flavour_root_token_budget must be greater than zero'')]"

record memory_config =
  cfg_queue :: queue_config
  cfg_tree :: tree_config

definition memory_config_default :: memory_config where
  "memory_config_default = \<lparr>cfg_queue = queue_config_default, cfg_tree = tree_config_default\<rparr>"

lemma ensure_all_Inr_iff: "ensure_all cs = Inr u \<longleftrightarrow> (\<forall>(c, m)\<in>set cs. c)"
  by (induction cs) (auto simp: ensure_def split: if_splits)

lemma queue_config_validD:
  "queue_config_validate c = Inr u \<Longrightarrow>
    0 < qc_lock_duration_ms c \<and> 0 < qc_retry_base_ms c \<and> qc_retry_base_ms c \<le> qc_retry_cap_ms c \<and>
    0 < qc_max_attempts c \<and> 0 < qc_llm_permits c \<and> 0 < qc_max_defer_age_ms c"
  by (simp add: queue_config_validate_def ensure_all_Inr_iff del: ensure_all.simps)

lemma tree_config_validD:
  "tree_config_validate c = Inr u \<Longrightarrow>
    0 < tc_output_token_budget c \<and> 0 < tc_summary_fanout c \<and>
    tc_output_token_budget c + tc_summary_overhead_reserve_tokens c < tc_input_token_budget c"
  by (simp add: tree_config_validate_def ensure_all_Inr_iff del: ensure_all.simps)

lemma queue_config_default_valid: "queue_config_validate queue_config_default = Inr ()"
  by (simp add: queue_config_validate_def queue_config_default_def ensure_def
      DEFAULT_MAX_DEFER_AGE_MS_def)

lemma tree_config_default_valid: "tree_config_validate tree_config_default = Inr ()"
  by (simp add: tree_config_validate_def tree_config_default_def ensure_def tree_budget_defs
      u32_max_def)

end
