(* ===== verification/Queue_Types.thy ===== *)
theory Queue_Types
  imports Prelude
begin

section \<open>Job kinds, payloads and requests (src/memory/queue/types.rs, payloads.rs)\<close>

text \<open>
  The discriminators a job row stores, the typed payloads with their deduplication keys, and the
  enqueue requests the producers build. JSON encoding of payloads is serde's: a codec argument.
\<close>

datatype job_kind = ExtractChunk | AppendBuffer | Seal | FlushStale | ReembedBackfill | SealDocument

fun job_kind_as_str :: "job_kind \<Rightarrow> string" where
  "job_kind_as_str ExtractChunk = ''extract_chunk''"
| "job_kind_as_str AppendBuffer = ''append_buffer''"
| "job_kind_as_str Seal = ''seal''"
| "job_kind_as_str FlushStale = ''flush_stale''"
| "job_kind_as_str ReembedBackfill = ''reembed_backfill''"
| "job_kind_as_str SealDocument = ''seal_document''"

definition RETIRED_JOB_KINDS :: "string list" where
  "RETIRED_JOB_KINDS = [''topic_route'', ''digest_daily'']"

text \<open>A value between single quotes, as the error texts show it.\<close>

definition quoted :: "string \<Rightarrow> string" where
  "quoted s = [CHR 0x27] @ s @ [CHR 0x27]"

definition job_kind_parse :: "string \<Rightarrow> job_kind result" where
  "job_kind_parse s =
    (if s = ''extract_chunk'' then Inr ExtractChunk
     else if s = ''append_buffer'' then Inr AppendBuffer
     else if s = ''seal'' then Inr Seal
     else if s = ''flush_stale'' then Inr FlushStale
     else if s = ''topic_route'' \<or> s = ''digest_daily'' then
       Inl (plain_error (''retired JobKind '' @ quoted s @ '' (global/topic trees removed)''))
     else if s = ''reembed_backfill'' then Inr ReembedBackfill
     else if s = ''seal_document'' then Inr SealDocument
     else Inl (plain_error (''unknown JobKind '' @ quoted s)))"

fun is_llm_bound :: "job_kind \<Rightarrow> bool" where
  "is_llm_bound ExtractChunk = True"
| "is_llm_bound Seal = True"
| "is_llm_bound ReembedBackfill = True"
| "is_llm_bound SealDocument = True"
| "is_llm_bound AppendBuffer = False"
| "is_llm_bound FlushStale = False"

definition is_retired_kind :: "string \<Rightarrow> bool" where
  "is_retired_kind k \<longleftrightarrow> k \<in> set RETIRED_JOB_KINDS"

datatype job_status = Ready | Running | Done | Failed | Cancelled

fun job_status_as_str :: "job_status \<Rightarrow> string" where
  "job_status_as_str Ready = ''ready''"
| "job_status_as_str Running = ''running''"
| "job_status_as_str Done = ''done''"
| "job_status_as_str Failed = ''failed''"
| "job_status_as_str Cancelled = ''cancelled''"

definition job_status_parse :: "string \<Rightarrow> job_status result" where
  "job_status_parse s =
    (if s = ''ready'' then Inr Ready
     else if s = ''running'' then Inr Running
     else if s = ''done'' then Inr Done
     else if s = ''failed'' then Inr Failed
     else if s = ''cancelled'' then Inr Cancelled
     else Inl (plain_error (''unknown JobStatus '' @ quoted s)))"

fun is_terminal :: "job_status \<Rightarrow> bool" where
  "is_terminal Done = True"
| "is_terminal Failed = True"
| "is_terminal Cancelled = True"
| "is_terminal Ready = False"
| "is_terminal Running = False"

text \<open>Outcome of a successful handler run.\<close>

datatype job_outcome = Outcome_Done | Outcome_Defer (defer_until_ms: int) (defer_reason: string)

definition unrecoverable :: "string \<Rightarrow> job_failure" where
  "unrecoverable code = \<lparr>jf_code = code, jf_class = ''unrecoverable''\<rparr>"

definition transient :: "string \<Rightarrow> job_failure" where
  "transient code = \<lparr>jf_code = code, jf_class = ''transient''\<rparr>"

definition is_unrecoverable :: "job_failure \<Rightarrow> bool" where
  "is_unrecoverable f \<longleftrightarrow> jf_class f = ''unrecoverable''"

record job =
  job_id :: string
  job_kind :: job_kind
  job_payload_json :: string
  job_dedupe_key :: "string option"
  job_status :: job_status
  job_attempts :: nat
  job_max_attempts :: nat
  job_available_at_ms :: int
  job_locked_until_ms :: "int option"
  job_last_error :: "string option"
  job_failure_reason :: "string option"
  job_failure_class :: "string option"
  job_created_at_ms :: int
  job_started_at_ms :: "int option"
  job_completed_at_ms :: "int option"

subsection \<open>Payloads\<close>

datatype node_ref = Leaf (leaf_chunk_id: string) | Summary (ref_summary_id: string)

fun dedupe_fragment :: "node_ref \<Rightarrow> string" where
  "dedupe_fragment (Leaf chunk_id) = ''leaf:'' @ chunk_id"
| "dedupe_fragment (Summary summary_id) = ''summary:'' @ summary_id"

record extract_chunk_payload =
  ec_chunk_id :: string

definition extract_chunk_dedupe_key :: "extract_chunk_payload \<Rightarrow> string" where
  "extract_chunk_dedupe_key p = ''extract:'' @ ec_chunk_id p"

datatype append_target = Target_Source (target_source_id: string) | Target_Topic (topic_tree_id: string)

record append_buffer_payload =
  ab_node :: node_ref
  ab_target :: append_target

definition append_buffer_dedupe_key :: "append_buffer_payload \<Rightarrow> string" where
  "append_buffer_dedupe_key p =
    (let node = dedupe_fragment (ab_node p) in
     case ab_target p of
       Target_Source source_id \<Rightarrow> ''append:source:'' @ source_id @ '':'' @ node
     | Target_Topic tree_id \<Rightarrow> ''append:topic:'' @ tree_id @ '':'' @ node)"

record seal_payload =
  sp_tree_id :: string
  sp_level :: nat
  sp_force_now_ms :: "int option"

definition seal_dedupe_key :: "seal_payload \<Rightarrow> string" where
  "seal_dedupe_key p = ''seal:'' @ sp_tree_id p @ '':'' @ show_nat (sp_level p)"

record flush_stale_payload =
  fs_max_age_secs :: "int option"

definition flush_stale_dedupe_key :: "string \<Rightarrow> nat \<Rightarrow> string" where
  "flush_stale_dedupe_key date_iso hour_block =
    ''flush_stale:'' @ date_iso @ ''-h'' @ show_nat hour_block"

record reembed_backfill_payload =
  rb_signature :: string

definition reembed_backfill_dedupe_key :: "reembed_backfill_payload \<Rightarrow> string" where
  "reembed_backfill_dedupe_key p = ''reembed_backfill:'' @ rb_signature p"

record seal_document_payload =
  sd_tree_scope :: string
  sd_doc_id :: string
  sd_version_ms :: "int option"
  sd_chunk_ids :: "string list"

definition seal_document_dedupe_key :: "seal_document_payload \<Rightarrow> string" where
  "seal_document_dedupe_key p =
    (case sd_version_ms p of
       Some version \<Rightarrow> ''seal_doc:'' @ sd_doc_id p @ ''@'' @ show_int version
     | None \<Rightarrow> ''seal_doc:'' @ sd_doc_id p)"

text \<open>
  The JSON codec of the payloads. \<^verbatim>\<open>serde_json\<close> is not part of the repository: encoders and
  decoders are a record of functions, one pair per payload type; a decoder returns the parse
  error's text. That decoding inverts encoding is a named hypothesis where it is used.
\<close>

record json_codec =
  enc_extract_chunk :: "extract_chunk_payload \<Rightarrow> string"
  dec_extract_chunk :: "string \<Rightarrow> string + extract_chunk_payload"
  enc_append_buffer :: "append_buffer_payload \<Rightarrow> string"
  dec_append_buffer :: "string \<Rightarrow> string + append_buffer_payload"
  enc_seal :: "seal_payload \<Rightarrow> string"
  dec_seal :: "string \<Rightarrow> string + seal_payload"
  enc_flush_stale :: "flush_stale_payload \<Rightarrow> string"
  dec_flush_stale :: "string \<Rightarrow> string + flush_stale_payload"
  enc_reembed_backfill :: "reembed_backfill_payload \<Rightarrow> string"
  dec_reembed_backfill :: "string \<Rightarrow> string + reembed_backfill_payload"
  enc_seal_document :: "seal_document_payload \<Rightarrow> string"
  dec_seal_document :: "string \<Rightarrow> string + seal_document_payload"

text \<open>A codec for concrete runs: it writes empty objects and reads back seal payloads of one tree.\<close>

definition sample_codec :: json_codec where
  "sample_codec = \<lparr>
     enc_extract_chunk = (\<lambda>_. ''{}''), dec_extract_chunk = (\<lambda>_. Inl ''unreadable''),
     enc_append_buffer = (\<lambda>_. ''{}''), dec_append_buffer = (\<lambda>_. Inl ''unreadable''),
     enc_seal = (\<lambda>_. ''{}''), dec_seal = (\<lambda>_. Inr \<lparr>sp_tree_id = ''t'', sp_level = 0, sp_force_now_ms = None\<rparr>),
     enc_flush_stale = (\<lambda>_. ''{}''), dec_flush_stale = (\<lambda>_. Inr \<lparr>fs_max_age_secs = None\<rparr>),
     enc_reembed_backfill = (\<lambda>_. ''{}''), dec_reembed_backfill = (\<lambda>_. Inl ''unreadable''),
     enc_seal_document = (\<lambda>_. ''{}''), dec_seal_document = (\<lambda>_. Inl ''unreadable'')\<rparr>"

subsection \<open>Enqueue requests\<close>

record new_job =
  nj_kind :: job_kind
  nj_payload_json :: string
  nj_dedupe_key :: "string option"
  nj_available_at_ms :: "int option"
  nj_max_attempts :: "nat option"

definition new_extract_chunk :: "json_codec \<Rightarrow> extract_chunk_payload \<Rightarrow> new_job" where
  "new_extract_chunk js p = \<lparr>nj_kind = ExtractChunk, nj_payload_json = enc_extract_chunk js p,
     nj_dedupe_key = Some (extract_chunk_dedupe_key p), nj_available_at_ms = None,
     nj_max_attempts = None\<rparr>"

definition new_append_buffer :: "json_codec \<Rightarrow> append_buffer_payload \<Rightarrow> new_job" where
  "new_append_buffer js p = \<lparr>nj_kind = AppendBuffer, nj_payload_json = enc_append_buffer js p,
     nj_dedupe_key = Some (append_buffer_dedupe_key p), nj_available_at_ms = None,
     nj_max_attempts = None\<rparr>"

definition new_seal :: "json_codec \<Rightarrow> seal_payload \<Rightarrow> new_job" where
  "new_seal js p = \<lparr>nj_kind = Seal, nj_payload_json = enc_seal js p,
     nj_dedupe_key = Some (seal_dedupe_key p), nj_available_at_ms = None, nj_max_attempts = None\<rparr>"

definition new_flush_stale :: "json_codec \<Rightarrow> flush_stale_payload \<Rightarrow> string \<Rightarrow> nat \<Rightarrow> new_job" where
  "new_flush_stale js p date_iso hour_block = \<lparr>nj_kind = FlushStale,
     nj_payload_json = enc_flush_stale js p,
     nj_dedupe_key = Some (flush_stale_dedupe_key date_iso hour_block),
     nj_available_at_ms = None, nj_max_attempts = None\<rparr>"

definition new_reembed_backfill :: "json_codec \<Rightarrow> reembed_backfill_payload \<Rightarrow> new_job" where
  "new_reembed_backfill js p = \<lparr>nj_kind = ReembedBackfill,
     nj_payload_json = enc_reembed_backfill js p,
     nj_dedupe_key = Some (reembed_backfill_dedupe_key p), nj_available_at_ms = None,
     nj_max_attempts = Some 3\<rparr>"

definition new_seal_document :: "json_codec \<Rightarrow> seal_document_payload \<Rightarrow> new_job" where
  "new_seal_document js p = \<lparr>nj_kind = SealDocument, nj_payload_json = enc_seal_document js p,
     nj_dedupe_key = Some (seal_document_dedupe_key p), nj_available_at_ms = None,
     nj_max_attempts = None\<rparr>"

subsection \<open>Wire strings\<close>

lemma job_kind_parse_as_str [simp]: "job_kind_parse (job_kind_as_str k) = Inr k"
  by (cases k) (simp_all add: job_kind_parse_def)

lemma job_status_parse_as_str [simp]: "job_status_parse (job_status_as_str s) = Inr s"
  by (cases s) (simp_all add: job_status_parse_def)

lemma job_kind_parse_InrD: "job_kind_parse s = Inr k \<Longrightarrow> s = job_kind_as_str k"
  by (auto simp: job_kind_parse_def split: if_splits)

lemma job_status_parse_InrD: "job_status_parse s = Inr k \<Longrightarrow> s = job_status_as_str k"
  by (auto simp: job_status_parse_def split: if_splits)

lemma not_retired_as_str [simp]: "\<not> is_retired_kind (job_kind_as_str k)"
  by (cases k) (simp_all add: is_retired_kind_def RETIRED_JOB_KINDS_def)

lemma retired_parse_fails: "is_retired_kind s \<Longrightarrow> \<exists>e. job_kind_parse s = Inl e"
  by (auto simp: is_retired_kind_def RETIRED_JOB_KINDS_def job_kind_parse_def)

lemma is_unrecoverable_simps [simp]:
  "is_unrecoverable (unrecoverable c)" "\<not> is_unrecoverable (transient c)"
  by (simp_all add: is_unrecoverable_def unrecoverable_def transient_def)

text \<open>
  The kind strings of the job table are a faithful encoding: a string parses to a kind exactly
  when it is that kind's wire string, the retired kinds of the removed global and topic trees
  never parse, and neither does any other string.
\<close>

theorem job_kind_wire_roundtrip:
  "(job_kind_parse s = Inr k \<longleftrightarrow> s = job_kind_as_str k) \<and>
   (is_retired_kind s \<longrightarrow> (\<exists>e. job_kind_parse s = Inl e))"
  using job_kind_parse_InrD job_kind_parse_as_str retired_parse_fails by metis

theorem job_kind_wire_roundtrip_witness:
  "is_retired_kind ''topic_route'' \<and> (\<exists>e. job_kind_parse ''topic_route'' = Inl e)
   \<and> job_kind_parse ''seal'' = Inr Seal"
  using job_kind_wire_roundtrip [of "''topic_route''" Seal] job_kind_wire_roundtrip [of "''seal''" Seal]
  by (simp add: is_retired_kind_def RETIRED_JOB_KINDS_def)

subsection \<open>Deduplication keys\<close>

lemma seal_dedupe_key_inj:
  "seal_dedupe_key p = seal_dedupe_key q \<Longrightarrow> sp_tree_id p = sp_tree_id q \<and> sp_level p = sp_level q"
proof -
  assume "seal_dedupe_key p = seal_dedupe_key q"
  then have "sp_tree_id p @ CHR '':'' # show_nat (sp_level p)
      = sp_tree_id q @ CHR '':'' # show_nat (sp_level q)"
    by (simp add: seal_dedupe_key_def)
  then have "sp_tree_id p = sp_tree_id q \<and> show_nat (sp_level p) = show_nat (sp_level q)"
    by (rule append_sep_eq_right) (rule show_nat_no_char, simp)+
  then show ?thesis by simp
qed

lemma show_int_no_at: "CHR ''@'' \<notin> set (show_int v)"
  using show_nat_no_char [of "CHR ''@''"] by (simp add: show_int_def)

lemma seal_document_dedupe_key_inj:
  assumes eq: "seal_document_dedupe_key p = seal_document_dedupe_key q"
    and at: "CHR ''@'' \<notin> set (sd_doc_id p)" "CHR ''@'' \<notin> set (sd_doc_id q)"
  shows "sd_doc_id p = sd_doc_id q \<and> sd_version_ms p = sd_version_ms q"
proof -
  have key: "seal_document_dedupe_key r = ''seal_doc:'' @
      (case sd_version_ms r of Some v \<Rightarrow> sd_doc_id r @ CHR ''@'' # show_int v | None \<Rightarrow> sd_doc_id r)" for r
    by (simp add: seal_document_dedupe_key_def split: option.split)
  show ?thesis
  proof (cases "sd_version_ms p"; cases "sd_version_ms q")
    fix v w assume v: "sd_version_ms p = Some v" and w: "sd_version_ms q = Some w"
    then have "sd_doc_id p @ CHR ''@'' # show_int v = sd_doc_id q @ CHR ''@'' # show_int w"
      using eq by (simp add: key)
    then show ?thesis using append_sep_eq at show_int_inj v w by metis
  next
    fix v assume v: "sd_version_ms p = Some v" and w: "sd_version_ms q = None"
    then have "sd_doc_id q = sd_doc_id p @ CHR ''@'' # show_int v" using eq by (simp add: key)
    then show ?thesis using at(2) by simp
  next
    fix w assume v: "sd_version_ms p = None" and w: "sd_version_ms q = Some w"
    then have "sd_doc_id p = sd_doc_id q @ CHR ''@'' # show_int w" using eq by (simp add: key)
    then show ?thesis using at(1) by simp
  next
    assume "sd_version_ms p = None" and "sd_version_ms q = None"
    then show ?thesis using eq by (simp add: key)
  qed
qed

lemma seal_document_dedupe_key_cong:
  "sd_doc_id p = sd_doc_id q \<Longrightarrow> sd_version_ms p = sd_version_ms q \<Longrightarrow>
   seal_document_dedupe_key p = seal_document_dedupe_key q"
  by (simp add: seal_document_dedupe_key_def split: option.split)

text \<open>A unit of work, its job kind and its key: the six request constructors side by side.\<close>

datatype work =
    W_Extract extract_chunk_payload
  | W_Append append_buffer_payload
  | W_Seal seal_payload
  | W_Flush string nat
  | W_Reembed reembed_backfill_payload
  | W_SealDocument seal_document_payload

fun work_kind :: "work \<Rightarrow> job_kind" where
  "work_kind (W_Extract _) = ExtractChunk"
| "work_kind (W_Append _) = AppendBuffer"
| "work_kind (W_Seal _) = Seal"
| "work_kind (W_Flush _ _) = FlushStale"
| "work_kind (W_Reembed _) = ReembedBackfill"
| "work_kind (W_SealDocument _) = SealDocument"

fun work_key :: "work \<Rightarrow> string" where
  "work_key (W_Extract p) = extract_chunk_dedupe_key p"
| "work_key (W_Append p) = append_buffer_dedupe_key p"
| "work_key (W_Seal p) = seal_dedupe_key p"
| "work_key (W_Flush d h) = flush_stale_dedupe_key d h"
| "work_key (W_Reembed p) = reembed_backfill_dedupe_key p"
| "work_key (W_SealDocument p) = seal_document_dedupe_key p"

lemmas dedupe_key_defs = extract_chunk_dedupe_key_def append_buffer_dedupe_key_def
  seal_dedupe_key_def flush_stale_dedupe_key_def reembed_backfill_dedupe_key_def
  seal_document_dedupe_key_def

lemma work_key_kind: "work_key v = work_key w \<Longrightarrow> work_kind v = work_kind w"
  by (cases v; cases w)
    (auto simp: dedupe_key_defs Let_def split: option.splits append_target.splits)

text \<open>
  Deduplication keys identify the unit of work: the keys of different job kinds are always
  different, seal keys coincide exactly for the same tree and level whatever the tree id contains,
  and per-document seal keys coincide exactly for the same document and version when document ids
  have no \<^verbatim>\<open>@\<close>.
\<close>

theorem dedupe_keys_identify_work:
  "(work_key v = work_key w \<longrightarrow> work_kind v = work_kind w)
   \<and> (seal_dedupe_key p = seal_dedupe_key q \<longleftrightarrow>
      sp_tree_id p = sp_tree_id q \<and> sp_level p = sp_level q)
   \<and> (CHR ''@'' \<notin> set (sd_doc_id d) \<and> CHR ''@'' \<notin> set (sd_doc_id e) \<longrightarrow>
      (seal_document_dedupe_key d = seal_document_dedupe_key e \<longleftrightarrow>
       sd_doc_id d = sd_doc_id e \<and> sd_version_ms d = sd_version_ms e))"
proof (intro conjI)
  show "seal_dedupe_key p = seal_dedupe_key q \<longleftrightarrow>
      sp_tree_id p = sp_tree_id q \<and> sp_level p = sp_level q"
    using seal_dedupe_key_inj [of p q] by (auto simp: seal_dedupe_key_def)
qed (use work_key_kind seal_document_dedupe_key_inj seal_document_dedupe_key_cong in blast)+

theorem dedupe_keys_identify_work_witness:
  "work_key (W_Reembed \<lparr>rb_signature = ''m''\<rparr>) = work_key (W_Reembed \<lparr>rb_signature = ''m''\<rparr>)
   \<and> seal_document_dedupe_key \<lparr>sd_tree_scope = ''s'', sd_doc_id = ''a'', sd_version_ms = Some 5,
        sd_chunk_ids = []\<rparr>
     \<noteq> seal_document_dedupe_key \<lparr>sd_tree_scope = ''s'', sd_doc_id = ''a'', sd_version_ms = None,
        sd_chunk_ids = []\<rparr>"
  using dedupe_keys_identify_work [of "W_Reembed \<lparr>rb_signature = ''m''\<rparr>" "W_Reembed \<lparr>rb_signature = ''m''\<rparr>"
      undefined undefined
      "\<lparr>sd_tree_scope = ''s'', sd_doc_id = ''a'', sd_version_ms = Some 5, sd_chunk_ids = []\<rparr>"
      "\<lparr>sd_tree_scope = ''s'', sd_doc_id = ''a'', sd_version_ms = None, sd_chunk_ids = []\<rparr>"]
  by simp

text \<open>The restriction on \<^verbatim>\<open>@\<close> is needed: a versioned id and a longer plain id share a key.\<close>

lemma seal_document_dedupe_key_collision:
  "seal_document_dedupe_key \<lparr>sd_tree_scope = s, sd_doc_id = ''a'', sd_version_ms = Some 5, sd_chunk_ids = c\<rparr>
   = seal_document_dedupe_key \<lparr>sd_tree_scope = s, sd_doc_id = ''a@5'', sd_version_ms = None, sd_chunk_ids = c\<rparr>"
  by (simp add: seal_document_dedupe_key_def show_int_def show_nat.simps digit_char_def)

end
