(* ===== verification/Queue_Store.thy ===== *)
theory Queue_Store
  imports Sql_Table Config Queue_Types "HOL-Library.Char_ord" "HOL-Library.List_Lexorder"
begin

section \<open>The job table: enqueue and claim (src/memory/queue/store.rs)\<close>

text \<open>
  \<^verbatim>\<open>mem_tree_jobs\<close> as a list of rows, with its primary key and the partial unique index over the
  deduplication keys of active rows (src/memory/chunks/schema.rs). Each statement of the source
  is an operation on the table; the clock readings and fresh UUIDs of the source are arguments.
\<close>

subsection \<open>Rows and constraints\<close>

record job_row =
  row_id :: string
  row_kind :: string
  row_payload_json :: string
  row_dedupe_key :: "string option"
  row_status :: string
  row_attempts :: int
  row_max_attempts :: int
  row_available_at_ms :: int
  row_locked_until_ms :: "int option"
  row_last_error :: "string option"
  row_created_at_ms :: int
  row_started_at_ms :: "int option"
  row_completed_at_ms :: "int option"
  row_failure_reason :: "string option"
  row_failure_class :: "string option"

type_synonym jobs = "job_row list"

definition is_active :: "job_row \<Rightarrow> bool" where
  "is_active r \<longleftrightarrow> row_status r = ''ready'' \<or> row_status r = ''running''"

text \<open>The entry of \<^verbatim>\<open>idx_mem_tree_jobs_dedupe_active\<close> for a row.\<close>

definition active_key :: "job_row \<Rightarrow> string option" where
  "active_key r = (if is_active r then row_dedupe_key r else None)"

definition jobs_ok :: "jobs \<Rightarrow> bool" where
  "jobs_ok t \<longleftrightarrow> unique_on (\<lambda>r. Some (row_id r)) t \<and> unique_on active_key t"

definition unique_error :: anyhow_error where
  "unique_error = sqlite_error ConstraintViolation 2067
     ''UNIQUE constraint failed: mem_tree_jobs.dedupe_key''"

text \<open>
  An \<^verbatim>\<open>UPDATE\<close>: the number of rows it matched and the new table, or the constraint error and no
  change. Every update here touches one row, or moves rows from \<^verbatim>\<open>running\<close> to \<^verbatim>\<open>ready\<close>, which
  keeps their index entries, so that checking the resulting table is checking row by row.
\<close>

definition jobs_update :: "(job_row \<Rightarrow> bool) \<Rightarrow> (job_row \<Rightarrow> job_row) \<Rightarrow> (nat, jobs) tx" where
  "jobs_update p f t = (let t' = sql_update p f t in
     if jobs_ok t' then Inr (sql_count p t, t') else Inl unique_error)"

subsection \<open>Enqueue\<close>

definition DEFAULT_MAX_ATTEMPTS :: nat where "DEFAULT_MAX_ATTEMPTS = 5"

definition DEFAULT_LOCK_DURATION_MS :: int where "DEFAULT_LOCK_DURATION_MS = 5 * 60 * 1000"

definition conflicts :: "job_row \<Rightarrow> jobs \<Rightarrow> bool" where
  "conflicts r t \<longleftrightarrow> list_ex (\<lambda>q. row_id q = row_id r \<or>
     (active_key r \<noteq> None \<and> active_key q = active_key r)) t"

definition new_row :: "string \<Rightarrow> int \<Rightarrow> new_job \<Rightarrow> nat \<Rightarrow> job_row" where
  "new_row uuid now_ms j default_max_attempts = \<lparr>
     row_id = ''job:'' @ uuid,
     row_kind = job_kind_as_str (nj_kind j),
     row_payload_json = nj_payload_json j,
     row_dedupe_key = nj_dedupe_key j,
     row_status = ''ready'',
     row_attempts = 0,
     row_max_attempts = int (case nj_max_attempts j of Some m \<Rightarrow> m | None \<Rightarrow> default_max_attempts),
     row_available_at_ms = (case nj_available_at_ms j of Some a \<Rightarrow> a | None \<Rightarrow> now_ms),
     row_locked_until_ms = None,
     row_last_error = None,
     row_created_at_ms = now_ms,
     row_started_at_ms = None,
     row_completed_at_ms = None,
     row_failure_reason = None,
     row_failure_class = None\<rparr>"

text \<open>A UUID no row's id was made from.\<close>

definition fresh_uuid :: "string \<Rightarrow> jobs \<Rightarrow> bool" where
  "fresh_uuid u t \<longleftrightarrow> list_all (\<lambda>q. row_id q \<noteq> ''job:'' @ u) t"

text \<open>\<^verbatim>\<open>INSERT OR IGNORE\<close>: a row that violates a unique index is dropped without an error.\<close>

definition enqueue_conn ::
    "string \<Rightarrow> int \<Rightarrow> new_job \<Rightarrow> nat \<Rightarrow> jobs \<Rightarrow> string option \<times> jobs" where
  "enqueue_conn uuid now_ms j default_max_attempts t =
    (let r = new_row uuid now_ms j default_max_attempts in
     if conflicts r t then (None, t) else (Some (row_id r), t @ [r]))"

definition enqueue :: "queue_config \<Rightarrow> string \<Rightarrow> int \<Rightarrow> new_job \<Rightarrow> jobs \<Rightarrow> string option \<times> jobs" where
  "enqueue cfg uuid now_ms j t = enqueue_conn uuid now_ms j (qc_max_attempts cfg) t"

definition enqueue_tx :: "string \<Rightarrow> int \<Rightarrow> new_job \<Rightarrow> jobs \<Rightarrow> string option \<times> jobs" where
  "enqueue_tx uuid now_ms j t = enqueue_conn uuid now_ms j DEFAULT_MAX_ATTEMPTS t"

subsection \<open>Reading rows\<close>

definition row_to_job :: "job_row \<Rightarrow> job result" where
  "row_to_job r =
    (case job_kind_parse (row_kind r) of Inl e \<Rightarrow> Inl e | Inr kind \<Rightarrow>
     case job_status_parse (row_status r) of Inl e \<Rightarrow> Inl e | Inr status \<Rightarrow>
     Inr \<lparr>job_id = row_id r,
       job_kind = kind,
       job_payload_json = row_payload_json r,
       job_dedupe_key = row_dedupe_key r,
       job_status = status,
       job_attempts = as_u32 (max 0 (row_attempts r)),
       job_max_attempts = as_u32 (max 0 (row_max_attempts r)),
       job_available_at_ms = row_available_at_ms r,
       job_locked_until_ms = row_locked_until_ms r,
       job_last_error = row_last_error r,
       job_failure_reason = row_failure_reason r,
       job_failure_class = row_failure_class r,
       job_created_at_ms = row_created_at_ms r,
       job_started_at_ms = row_started_at_ms r,
       job_completed_at_ms = row_completed_at_ms r\<rparr>)"

definition get_job :: "string \<Rightarrow> jobs \<Rightarrow> job option result" where
  "get_job i t = (case sql_find (\<lambda>r. row_id r = i) t of
     None \<Rightarrow> Inr None
   | Some r \<Rightarrow> (case row_to_job r of Inl e \<Rightarrow> Inl e | Inr j \<Rightarrow> Inr (Some j)))"

definition count_by_status :: "job_status \<Rightarrow> jobs \<Rightarrow> nat" where
  "count_by_status s t = sql_count (\<lambda>r. row_status r = job_status_as_str s) t"

definition count_failed_unrecoverable :: "jobs \<Rightarrow> nat" where
  "count_failed_unrecoverable t =
    sql_count (\<lambda>r. row_status r = ''failed'' \<and> row_failure_class r = Some ''unrecoverable'') t"

definition count_total :: "jobs \<Rightarrow> nat" where
  "count_total t = length t"

definition purge_retired_jobs :: "jobs \<Rightarrow> nat \<times> jobs" where
  "purge_retired_jobs t =
    (let p = (\<lambda>r. row_kind r = ''topic_route'' \<or> row_kind r = ''digest_daily'')
     in (sql_count p t, sql_delete p t))"

subsection \<open>Claim\<close>

text \<open>The \<^verbatim>\<open>ORDER BY\<close> of the claim query: rank of the kind, then due time.\<close>

definition claim_rank :: "string \<Rightarrow> nat" where
  "claim_rank k = (if k = ''seal'' then 1 else if k = ''reembed_backfill'' then 2
     else if k = ''flush_stale'' then 3 else if k = ''append_buffer'' then 4 else 5)"

datatype claim_key = Claim_Key (ck_rank: nat) (ck_due: int)

instantiation claim_key :: linorder
begin

definition less_eq_claim_key :: "claim_key \<Rightarrow> claim_key \<Rightarrow> bool" where
  "less_eq_claim_key a b \<longleftrightarrow> ck_rank a < ck_rank b \<or> (ck_rank a = ck_rank b \<and> ck_due a \<le> ck_due b)"

definition less_claim_key :: "claim_key \<Rightarrow> claim_key \<Rightarrow> bool" where
  "less_claim_key a b \<longleftrightarrow> ck_rank a < ck_rank b \<or> (ck_rank a = ck_rank b \<and> ck_due a < ck_due b)"

instance
  by standard (auto simp: less_eq_claim_key_def less_claim_key_def claim_key.expand)

end

definition row_claim_key :: "job_row \<Rightarrow> claim_key" where
  "row_claim_key r = Claim_Key (claim_rank (row_kind r)) (row_available_at_ms r)"

definition claimable :: "int \<Rightarrow> job_row \<Rightarrow> bool" where
  "claimable now_ms r \<longleftrightarrow> row_status r = ''ready'' \<and> row_available_at_ms r \<le> now_ms \<and>
     row_kind r \<noteq> ''topic_route'' \<and> row_kind r \<noteq> ''digest_daily''"

definition claim_candidate :: "int \<Rightarrow> jobs \<Rightarrow> job_row option" where
  "claim_candidate now_ms t = sql_first row_claim_key (filter (claimable now_ms) t)"

definition claimed_row :: "int \<Rightarrow> int \<Rightarrow> job_row \<Rightarrow> job_row" where
  "claimed_row now_ms lock_until r = r\<lparr>row_status := ''running'',
     row_attempts := row_attempts r + 1,
     row_started_at_ms := Some now_ms,
     row_locked_until_ms := Some lock_until,
     row_last_error := None\<rparr>"

text \<open>
  \<^verbatim>\<open>UPDATE \<dots> WHERE id = (SELECT \<dots>) RETURNING \<dots>\<close> and \<^verbatim>\<open>row_to_job\<close> on the returned row. SQLite makes
  all changes of a \<^verbatim>\<open>RETURNING\<close> statement before its first row comes out, so a row that does not
  parse stays claimed although the caller gets the error.
\<close>

definition claim_next :: "int \<Rightarrow> int \<Rightarrow> jobs \<Rightarrow> job option result \<times> jobs" where
  "claim_next now_ms lock_duration_ms t =
    (let lock_until = sat64 (now_ms + lock_duration_ms) in
     case claim_candidate now_ms t of
       None \<Rightarrow> (Inr None, t)
     | Some r \<Rightarrow>
        (case jobs_update (\<lambda>q. row_id q = row_id r) (claimed_row now_ms lock_until) t of
           Inl e \<Rightarrow> (Inl (with_context ''Failed to claim next mem_tree_jobs row'' e), t)
         | Inr (n, t') \<Rightarrow>
            (case row_to_job (claimed_row now_ms lock_until r) of
               Inl e \<Rightarrow> (Inl (with_context ''Failed to claim next mem_tree_jobs row'' e), t')
             | Inr j \<Rightarrow> (Inr (Some j), t'))))"

subsection \<open>Retry backoff\<close>

definition backoff_ms_with_policy :: "nat \<Rightarrow> int \<Rightarrow> int \<Rightarrow> int" where
  "backoff_ms_with_policy attempts_so_far retry_base_ms retry_cap_ms =
    (let ex = min (attempts_so_far - 1) 20;
         mult = 2 ^ ex;
         raw = sat64 (retry_base_ms * mult)
     in min raw retry_cap_ms)"

subsection \<open>The constraints\<close>

lemma jobs_ok_distinct: "jobs_ok t \<Longrightarrow> distinct (map row_id t)"
proof -
  have "index_keys (\<lambda>r. Some (row_id r)) t = map row_id t" for t :: jobs
    by (induction t) simp_all
  moreover assume "jobs_ok t"
  ultimately show ?thesis by (simp add: jobs_ok_def unique_on_def)
qed

interpretation jobs: keyed_table row_id jobs_ok
  by unfold_locales (rule jobs_ok_distinct)

lemma jobs_ok_Nil [simp]: "jobs_ok []"
  by (simp add: jobs_ok_def)

lemma conflicts_iff: "jobs_ok t \<Longrightarrow> conflicts r t \<longleftrightarrow> \<not> jobs_ok (t @ [r])"
  by (auto simp: conflicts_def jobs_ok_def unique_on_snoc list_ex_iff)

lemma jobs_ok_update [inv_intros]:
  assumes "jobs_ok t"
    and "\<And>r. r \<in> set t \<Longrightarrow> p r \<Longrightarrow> row_id (f r) = row_id r"
    and "\<And>r. r \<in> set t \<Longrightarrow> p r \<Longrightarrow> active_key (f r) = None \<or> active_key (f r) = active_key r"
  shows "jobs_ok (sql_update p f t)"
  using assms unfolding jobs_ok_def by (auto intro!: unique_on_update_sub)

lemma jobs_ok_delete [inv_intros]: "jobs_ok t \<Longrightarrow> jobs_ok (sql_delete p t)"
  by (simp add: jobs_ok_def unique_on_delete)

lemma jobs_update_InrD:
  "jobs_update p f t = Inr (n, t') \<Longrightarrow> jobs_ok t' \<and> n = sql_count p t \<and> t' = sql_update p f t"
  by (auto simp: jobs_update_def Let_def split: if_splits)

lemma jobs_update_InlD: "jobs_update p f t = Inl e \<Longrightarrow> \<not> jobs_ok (sql_update p f t) \<and> e = unique_error"
  by (auto simp: jobs_update_def Let_def split: if_splits)

text \<open>An update that keeps ids and adds nothing to the index never fails.\<close>

lemma jobs_update_succeeds:
  assumes "jobs_ok t"
    and "\<And>r. r \<in> set t \<Longrightarrow> p r \<Longrightarrow> row_id (f r) = row_id r"
    and "\<And>r. r \<in> set t \<Longrightarrow> p r \<Longrightarrow> active_key (f r) = None \<or> active_key (f r) = active_key r"
  shows "jobs_update p f t = Inr (sql_count p t, sql_update p f t)"
  using jobs_ok_update [OF assms] by (simp add: jobs_update_def Let_def)

subsection \<open>Enqueue\<close>

lemma new_row_simps [simp]:
  "row_id (new_row u now j d) = ''job:'' @ u"
  "row_status (new_row u now j d) = ''ready''"
  "row_kind (new_row u now j d) = job_kind_as_str (nj_kind j)"
  "row_payload_json (new_row u now j d) = nj_payload_json j"
  "row_dedupe_key (new_row u now j d) = nj_dedupe_key j"
  "row_attempts (new_row u now j d) = 0"
  "row_started_at_ms (new_row u now j d) = None"
  "row_locked_until_ms (new_row u now j d) = None"
  "row_created_at_ms (new_row u now j d) = now"
  "row_failure_class (new_row u now j d) = None"
  "active_key (new_row u now j d) = nj_dedupe_key j"
  by (simp_all add: new_row_def active_key_def is_active_def)

lemma enqueue_conn_cases:
  obtains (suppressed) "conflicts (new_row u now j d) t" "enqueue_conn u now j d t = (None, t)"
  | (inserted) "\<not> conflicts (new_row u now j d) t"
      "enqueue_conn u now j d t = (Some (''job:'' @ u), t @ [new_row u now j d])"
  by (cases "conflicts (new_row u now j d) t") (simp_all add: enqueue_conn_def Let_def)

lemma enqueue_conn_ok [inv_intros]: "jobs_ok t \<Longrightarrow> jobs_ok (snd (enqueue_conn u now j d t))"
  by (rule enqueue_conn_cases [of u now j d t]) (simp_all add: conflicts_iff)

lemma enqueue_conn_key_active:
  assumes "nj_dedupe_key j = Some k" and "fresh_uuid u t"
  shows "\<exists>r\<in>set (snd (enqueue_conn u now j d t)). active_key r = Some k"
  using assms by (auto simp: enqueue_conn_def Let_def conflicts_def list_ex_iff fresh_uuid_def
      list_all_iff)

text \<open>
  C1: enqueueing is idempotent per deduplication key. A fresh request is dropped exactly when an
  active row already holds its key, and then nothing changes; otherwise one row is appended, ready
  with no attempts. Either way the table's constraints are kept, and asking again with any other
  fresh id inserts nothing.
\<close>

theorem enqueue_idempotent:
  assumes "jobs_ok t" and "fresh_uuid u t" and "nj_dedupe_key j = Some k"
  shows "jobs_ok (snd (enqueue_conn u now j d t))
    \<and> (fst (enqueue_conn u now j d t) = None \<longleftrightarrow> (\<exists>r\<in>set t. active_key r = Some k))
    \<and> snd (enqueue_conn u now j d t) =
        (if \<exists>r\<in>set t. active_key r = Some k then t else t @ [new_row u now j d])
    \<and> enqueue_conn u' now' j d' (snd (enqueue_conn u now j d t)) =
        (None, snd (enqueue_conn u now j d t))"
proof (intro conjI)
  have c: "conflicts (new_row u now j d) t \<longleftrightarrow> (\<exists>r\<in>set t. active_key r = Some k)"
    using assms(2,3) by (auto simp: conflicts_def list_ex_iff fresh_uuid_def list_all_iff)
  then show "fst (enqueue_conn u now j d t) = None \<longleftrightarrow> (\<exists>r\<in>set t. active_key r = Some k)"
    and "snd (enqueue_conn u now j d t) =
      (if \<exists>r\<in>set t. active_key r = Some k then t else t @ [new_row u now j d])"
    by (simp_all add: enqueue_conn_def Let_def)
  have "conflicts (new_row u' now' j d') (snd (enqueue_conn u now j d t))"
    using enqueue_conn_key_active [OF assms(3,2)] assms(3)
    by (auto simp: conflicts_def list_ex_iff)
  then show "enqueue_conn u' now' j d' (snd (enqueue_conn u now j d t)) =
      (None, snd (enqueue_conn u now j d t))"
    by (simp add: enqueue_conn_def Let_def)
qed (rule enqueue_conn_ok [OF assms(1)])

text \<open>A request used in examples.\<close>

definition sample_job :: "job_kind \<Rightarrow> string \<Rightarrow> new_job" where
  "sample_job kd k = \<lparr>nj_kind = kd, nj_payload_json = ''{}'', nj_dedupe_key = Some k,
     nj_available_at_ms = None, nj_max_attempts = None\<rparr>"

theorem enqueue_idempotent_witness:
  "snd (enqueue_conn ''a'' 7 (sample_job Seal ''k'') 5 []) = [new_row ''a'' 7 (sample_job Seal ''k'') 5]
   \<and> enqueue_conn ''b'' 8 (sample_job Seal ''k'') 5 (snd (enqueue_conn ''a'' 7 (sample_job Seal ''k'') 5 []))
     = (None, snd (enqueue_conn ''a'' 7 (sample_job Seal ''k'') 5 []))"
proof -
  have "jobs_ok []" "fresh_uuid ''a'' []" "nj_dedupe_key (sample_job Seal ''k'') = Some ''k''"
    by (simp_all add: fresh_uuid_def sample_job_def)
  from enqueue_idempotent [OF this, of 7 5 "''b''" 8 5] show ?thesis by auto
qed

subsection \<open>Claim\<close>

lemma claimed_row_simps [simp]:
  "row_id (claimed_row now l r) = row_id r"
  "row_kind (claimed_row now l r) = row_kind r"
  "row_dedupe_key (claimed_row now l r) = row_dedupe_key r"
  "row_payload_json (claimed_row now l r) = row_payload_json r"
  "row_status (claimed_row now l r) = ''running''"
  "row_attempts (claimed_row now l r) = row_attempts r + 1"
  "row_max_attempts (claimed_row now l r) = row_max_attempts r"
  "row_created_at_ms (claimed_row now l r) = row_created_at_ms r"
  "row_started_at_ms (claimed_row now l r) = Some now"
  "row_locked_until_ms (claimed_row now l r) = Some l"
  by (simp_all add: claimed_row_def)

lemma active_key_claimed [simp]:
  "row_status r = ''ready'' \<Longrightarrow> active_key (claimed_row now l r) = active_key r"
  by (simp add: active_key_def is_active_def)

lemma claim_candidate_SomeD:
  assumes "claim_candidate now t = Some r"
  shows "r \<in> set t" "claimable now r" "\<forall>q\<in>set t. claimable now q \<longrightarrow> row_claim_key r \<le> row_claim_key q"
  using sql_first_SomeD [OF assms [unfolded claim_candidate_def]] by auto

lemma claim_update_succeeds:
  assumes "jobs_ok t" "claim_candidate now t = Some r"
  shows "jobs_update (\<lambda>q. row_id q = row_id r) (claimed_row now l) t =
    Inr (1, sql_update (\<lambda>q. row_id q = row_id r) (claimed_row now l) t)"
proof -
  note r = claim_candidate_SomeD [OF assms(2)]
  have "row_status q = ''ready''" if "q \<in> set t" "row_id q = row_id r" for q
    using jobs.key_eq [OF assms(1) that(1) r(1) that(2)] r(2) by (simp add: claimable_def)
  then show ?thesis
    using jobs.count_key [OF assms(1) r(1)]
    by (subst jobs_update_succeeds [OF assms(1)]) auto
qed

lemma claim_next_None:
  "claim_candidate now t = None \<Longrightarrow> claim_next now d t = (Inr None, t)"
  by (simp add: claim_next_def Let_def)

lemma claim_next_Some:
  assumes "jobs_ok t" "claim_candidate now t = Some r"
  shows "snd (claim_next now d t) =
      sql_update (\<lambda>q. row_id q = row_id r) (claimed_row now (sat64 (now + d))) t"
    and "fst (claim_next now d t) =
      (case row_to_job (claimed_row now (sat64 (now + d)) r) of
         Inl e \<Rightarrow> Inl (with_context ''Failed to claim next mem_tree_jobs row'' e)
       | Inr j \<Rightarrow> Inr (Some j))"
  using claim_update_succeeds [OF assms] assms(2)
  by (simp_all add: claim_next_def Let_def split: sum.splits)

lemma claim_next_ok [inv_intros]: "jobs_ok t \<Longrightarrow> jobs_ok (snd (claim_next now d t))"
proof (cases "claim_candidate now t")
  case None
  then show "jobs_ok t \<Longrightarrow> ?thesis" by (simp add: claim_next_None)
next
  case (Some r)
  assume "jobs_ok t"
  from claim_update_succeeds [OF this Some, of "sat64 (now + d)"]
  have "jobs_ok (sql_update (\<lambda>q. row_id q = row_id r) (claimed_row now (sat64 (now + d))) t)"
    using jobs_update_InrD by blast
  then show ?thesis using claim_next_Some(1) [OF \<open>jobs_ok t\<close> Some] by simp
qed

lemma claim_next_step:
  assumes "jobs_ok t" "q \<in> set t" "claimable now q"
  obtains r where "r \<in> set t" "claimable now r"
    "\<forall>q\<in>set t. claimable now q \<longrightarrow> row_claim_key r \<le> row_claim_key q"
    "claim_candidate now t = Some r"
proof -
  have "claim_candidate now t \<noteq> None"
    using assms(2,3) by (auto simp: claim_candidate_def filter_empty_conv)
  then obtain r where c: "claim_candidate now t = Some r" by blast
  show ?thesis by (rule that [OF claim_candidate_SomeD [OF c] c])
qed

text \<open>A row whose kind is a live kind parses.\<close>

definition row_parses :: "job_row \<Rightarrow> bool" where
  "row_parses r \<longleftrightarrow> (case job_kind_parse (row_kind r) of Inl _ \<Rightarrow> False | Inr _ \<Rightarrow> True)"

lemma row_to_job_claimed:
  assumes "row_parses r"
  obtains j where "row_to_job (claimed_row now l r) = Inr j" "job_id j = row_id r"
    "row_kind r = job_kind_as_str (job_kind j)"
    "job_status j = Running" "job_attempts j = as_u32 (max 0 (row_attempts r + 1))"
    "job_max_attempts j = as_u32 (max 0 (row_max_attempts r))"
    "job_started_at_ms j = Some now" "job_payload_json j = row_payload_json r"
proof -
  obtain k where k: "job_kind_parse (row_kind r) = Inr k"
    using assms by (auto simp: row_parses_def split: sum.splits)
  have "job_status_parse ''running'' = Inr Running"
    using job_status_parse_as_str [of Running] by simp
  then show ?thesis using that k job_kind_parse_InrD [OF k] by (simp add: row_to_job_def)
qed

text \<open>The pipeline's drain order as a list, latest stage first.\<close>

definition drain_order :: "string list" where
  "drain_order = [''seal'', ''reembed_backfill'', ''flush_stale'', ''append_buffer'']"

definition drain_position :: "string \<Rightarrow> nat" where
  "drain_position k = length (takeWhile (\<lambda>x. x \<noteq> k) drain_order)"

definition drains_before :: "job_row \<Rightarrow> job_row \<Rightarrow> bool" where
  "drains_before r q \<longleftrightarrow> drain_position (row_kind r) < drain_position (row_kind q) \<or>
     drain_position (row_kind r) = drain_position (row_kind q) \<and> row_available_at_ms r \<le> row_available_at_ms q"

lemma claim_rank_position: "claim_rank k = Suc (drain_position k)"
  by (simp add: claim_rank_def drain_position_def drain_order_def)

lemma claim_key_drains: "row_claim_key r \<le> row_claim_key q \<longleftrightarrow> drains_before r q"
  by (simp add: row_claim_key_def less_eq_claim_key_def claim_rank_position drains_before_def)

text \<open>
  C2: \<^verbatim>\<open>claim_next\<close> drains forward. When some row is due, exactly one row changes: a due row of
  least rank (seal, re-embed, flush, append, the rest) and, within the rank, earliest due time,
  never of a retired kind; it becomes \<^verbatim>\<open>running\<close> with one more attempt, its lease and its start
  time, and the job handed out is that row. The constraints are kept, so the claim never fails on
  the index. When no row is due the queue reports none and is untouched.
\<close>

theorem claim_next_drains_forward:
  assumes "jobs_ok t" and "\<forall>r\<in>set t. claimable now r \<longrightarrow> row_parses r"
  shows "(if \<exists>q\<in>set t. claimable now q
     then \<exists>r\<in>set t. \<exists>j. claimable now r \<and> \<not> is_retired_kind (row_kind r)
       \<and> (\<forall>q\<in>set t. claimable now q \<longrightarrow> drains_before r q)
       \<and> fst (claim_next now d t) = Inr (Some j)
       \<and> row_to_job (claimed_row now (sat64 (now + d)) r) = Inr j
       \<and> set (snd (claim_next now d t)) =
           insert (claimed_row now (sat64 (now + d)) r) (set t - {r})
     else claim_next now d t = (Inr None, t))
   \<and> jobs_ok (snd (claim_next now d t))"
proof (intro conjI)
  show "jobs_ok (snd (claim_next now d t))" by (rule claim_next_ok [OF assms(1)])
  show "if \<exists>q\<in>set t. claimable now q
     then \<exists>r\<in>set t. \<exists>j. claimable now r \<and> \<not> is_retired_kind (row_kind r)
       \<and> (\<forall>q\<in>set t. claimable now q \<longrightarrow> drains_before r q)
       \<and> fst (claim_next now d t) = Inr (Some j)
       \<and> row_to_job (claimed_row now (sat64 (now + d)) r) = Inr j
       \<and> set (snd (claim_next now d t)) =
           insert (claimed_row now (sat64 (now + d)) r) (set t - {r})
     else claim_next now d t = (Inr None, t)"
  proof (cases "\<exists>q\<in>set t. claimable now q")
    case True
    then obtain r where r: "r \<in> set t" "claimable now r"
        "\<forall>q\<in>set t. claimable now q \<longrightarrow> row_claim_key r \<le> row_claim_key q"
      and c: "claim_candidate now t = Some r"
      using claim_next_step [OF assms(1)] by metis
    note first = r(3) [unfolded claim_key_drains]
    obtain j where "row_to_job (claimed_row now (sat64 (now + d)) r) = Inr j"
      using row_to_job_claimed assms(2) r(1,2) by metis
    then have "fst (claim_next now d t) = Inr (Some j)
        \<and> row_to_job (claimed_row now (sat64 (now + d)) r) = Inr j
        \<and> set (snd (claim_next now d t)) =
           insert (claimed_row now (sat64 (now + d)) r) (set t - {r})"
      using claim_next_Some [OF assms(1) c, of d] jobs.update_key_set [OF assms(1) r(1)] by simp
    moreover have "\<not> is_retired_kind (row_kind r)"
      using r(2) by (simp add: claimable_def is_retired_kind_def RETIRED_JOB_KINDS_def)
    ultimately show ?thesis using True r(1,2) first by auto
  next
    case False
    then have "claim_candidate now t = None" by (simp add: claim_candidate_def filter_empty_conv)
    then show ?thesis using False by (simp add: claim_next_None)
  qed
qed

definition sample_rows :: jobs where
  "sample_rows = [new_row ''a'' 5 (sample_job ExtractChunk ''x'') 5,
     new_row ''b'' 6 (sample_job Seal ''y'') 5]"

lemma sample_rows_ok: "jobs_ok sample_rows"
  by (simp add: sample_rows_def jobs_ok_def sample_job_def)

theorem claim_next_drains_forward_witness:
  "(\<exists>q\<in>set sample_rows. claimable 9 q)
   \<and> (\<exists>r\<in>set sample_rows. claimable 9 r \<and> (\<exists>j. fst (claim_next 9 300 sample_rows) = Inr (Some j)))"
proof -
  have p: "\<forall>r\<in>set sample_rows. claimable 9 r \<longrightarrow> row_parses r"
    by (simp add: sample_rows_def row_parses_def)
  have "\<exists>q\<in>set sample_rows. claimable 9 q"
    by (simp add: sample_rows_def claimable_def new_row_def sample_job_def)
  then show ?thesis
    using claim_next_drains_forward [OF sample_rows_ok p, of 300] by auto
qed

subsection \<open>Backoff\<close>

lemma backoff_mult_mono:
  "m \<le> n \<Longrightarrow> 0 \<le> b \<Longrightarrow> b * 2 ^ min (m - 1) 20 \<le> b * (2::int) ^ min (n - 1) 20"
  by (intro mult_left_mono power_increasing) auto

text \<open>
  The retry delay is always between the base and the cap of a validated policy, never decreases
  with the number of attempts, is the exact doubling \<^verbatim>\<open>base * 2^(attempts-1)\<close> as long as that stays
  under the cap, and the multiplication never overflows silently.
\<close>

theorem backoff_bounded_and_monotone:
  assumes "queue_config_validate c = Inr u" and "in_i64 (qc_retry_cap_ms c)"
  defines "b \<equiv> \<lambda>n. backoff_ms_with_policy n (qc_retry_base_ms c) (qc_retry_cap_ms c)"
  shows "qc_retry_base_ms c \<le> b n \<and> b n \<le> qc_retry_cap_ms c
    \<and> (m \<le> n \<longrightarrow> b m \<le> b n)
    \<and> (n \<le> 21 \<and> qc_retry_base_ms c * 2 ^ (n - 1) \<le> qc_retry_cap_ms c \<longrightarrow>
        b n = qc_retry_base_ms c * 2 ^ (n - 1))"
proof (intro conjI impI)
  note v = queue_config_validD [OF assms(1)]
  have base64: "in_i64 (qc_retry_base_ms c)" using v assms(2) by (simp add: i64_defs)
  have "qc_retry_base_ms c \<le> qc_retry_base_ms c * 2 ^ min (n - 1) 20"
    using v by (simp add: mult_le_cancel_left1)
  from sat64_mono [OF this] have "qc_retry_base_ms c \<le> sat64 (qc_retry_base_ms c * 2 ^ min (n - 1) 20)"
    using base64 by simp
  then show "qc_retry_base_ms c \<le> b n" using v by (simp add: b_def backoff_ms_with_policy_def Let_def)
  show "b n \<le> qc_retry_cap_ms c" by (simp add: b_def backoff_ms_with_policy_def Let_def)
  show "b m \<le> b n" if "m \<le> n"
  proof -
    have "sat64 (qc_retry_base_ms c * 2 ^ min (m - 1) 20)
        \<le> sat64 (qc_retry_base_ms c * 2 ^ min (n - 1) 20)"
      by (rule sat64_mono, rule backoff_mult_mono) (use that v in simp_all)
    then show ?thesis by (simp add: b_def backoff_ms_with_policy_def Let_def)
  qed
  assume n: "n \<le> 21 \<and> qc_retry_base_ms c * 2 ^ (n - 1) \<le> qc_retry_cap_ms c"
  have "0 \<le> qc_retry_base_ms c * 2 ^ (n - 1)" using v by simp
  then have "in_i64 (qc_retry_base_ms c * 2 ^ (n - 1))"
    using n assms(2) by (simp add: i64_defs)
  moreover have "min (n - 1) 20 = n - 1" using n by linarith
  ultimately show "b n = qc_retry_base_ms c * 2 ^ (n - 1)"
    using n by (simp add: b_def backoff_ms_with_policy_def Let_def)
qed

theorem backoff_bounded_and_monotone_witness:
  "backoff_ms_with_policy 3 (qc_retry_base_ms queue_config_default)
     (qc_retry_cap_ms queue_config_default) = qc_retry_base_ms queue_config_default * 2 ^ (3 - 1)
   \<and> backoff_ms_with_policy 9 (qc_retry_base_ms queue_config_default)
     (qc_retry_cap_ms queue_config_default) \<le> 3600000"
proof -
  have i: "in_i64 (qc_retry_cap_ms queue_config_default)"
    by (simp add: queue_config_default_def i64_defs)
  show ?thesis
    using backoff_bounded_and_monotone [OF queue_config_default_valid i, of 3 3]
      backoff_bounded_and_monotone [OF queue_config_default_valid i, of 9 9]
    by (simp add: queue_config_default_def)
qed

end
