(* ===== verification/Queue_Settle.thy ===== *)
theory Queue_Settle
  imports Queue_Store
begin

section \<open>Settlement, lease recovery and requeue (src/memory/queue/store_settle.rs)\<close>

text \<open>
  Each settle is one \<^verbatim>\<open>UPDATE\<close> gated on the claim token of the job the worker holds. Recovery,
  release and requeue work on all rows. The \<^verbatim>\<open>requeue\<close> helper is the three-way partition of
  the failed rows (requeue, cancel, skip) inside one transaction.
\<close>

subsection \<open>The claim token\<close>

definition token_match :: "job \<Rightarrow> job_row \<Rightarrow> bool" where
  "token_match j r \<longleftrightarrow> row_id r = job_id j \<and> row_attempts r = int (job_attempts j) \<and>
     row_started_at_ms r = job_started_at_ms j"

subsection \<open>Done\<close>

definition done_row :: "int \<Rightarrow> job_row \<Rightarrow> job_row" where
  "done_row now_ms r = r\<lparr>row_status := ''done'', row_completed_at_ms := Some now_ms,
     row_locked_until_ms := None, row_last_error := None\<rparr>"

text \<open>The follow-ups in order; \<^term>\<open>uuid i\<close> is the UUID drawn for the \<^term>\<open>i\<close>-th of them.\<close>

fun enqueue_all :: "(nat \<Rightarrow> string) \<Rightarrow> int \<Rightarrow> nat \<Rightarrow> new_job list \<Rightarrow> jobs \<Rightarrow> jobs" where
  "enqueue_all uuid now_ms d [] t = t"
| "enqueue_all uuid now_ms d (f # fs) t =
     enqueue_all (\<lambda>i. uuid (Suc i)) now_ms d fs (snd (enqueue_conn (uuid 0) now_ms f d t))"

definition mark_done_with_followups ::
    "queue_config \<Rightarrow> (nat \<Rightarrow> string) \<Rightarrow> int \<Rightarrow> job \<Rightarrow> new_job list \<Rightarrow> (bool, jobs) tx" where
  "mark_done_with_followups cfg uuid now_ms j follow_ups t =
    (case jobs_update (token_match j) (done_row now_ms) t of
       Inl e \<Rightarrow> Inl e
     | Inr (updated, t') \<Rightarrow>
        (if updated \<noteq> 0
         then Inr (True, enqueue_all uuid now_ms (qc_max_attempts cfg) follow_ups t')
         else Inr (False, t')))"

definition mark_done :: "queue_config \<Rightarrow> int \<Rightarrow> job \<Rightarrow> (unit, jobs) tx" where
  "mark_done cfg now_ms j t =
    (case mark_done_with_followups cfg (\<lambda>_. []) now_ms j [] t of
       Inl e \<Rightarrow> Inl e | Inr (_, t') \<Rightarrow> Inr ((), t'))"

subsection \<open>Failed\<close>

definition failed_row :: "int \<Rightarrow> string \<Rightarrow> job_failure option \<Rightarrow> job_row \<Rightarrow> job_row" where
  "failed_row now_ms err failure r = r\<lparr>row_status := ''failed'',
     row_completed_at_ms := Some now_ms,
     row_locked_until_ms := None,
     row_last_error := Some err,
     row_failure_reason := map_option jf_code failure,
     row_failure_class := map_option jf_class failure\<rparr>"

definition retry_row :: "int \<Rightarrow> string \<Rightarrow> job_row \<Rightarrow> job_row" where
  "retry_row next_at err r = r\<lparr>row_status := ''ready'', row_available_at_ms := next_at,
     row_locked_until_ms := None, row_last_error := Some err\<rparr>"

definition mark_failed_typed ::
    "queue_config \<Rightarrow> int \<Rightarrow> job \<Rightarrow> string \<Rightarrow> job_failure option \<Rightarrow> (unit, jobs) tx" where
  "mark_failed_typed cfg now_ms j err failure t =
    (let unrec = (case failure of Some f \<Rightarrow> is_unrecoverable f | None \<Rightarrow> False);
         u = (if job_max_attempts j \<le> job_attempts j \<or> unrec
              then failed_row now_ms err failure
              else retry_row (sat64 (now_ms + backoff_ms_with_policy (job_attempts j)
                     (qc_retry_base_ms cfg) (qc_retry_cap_ms cfg))) err)
     in case jobs_update (token_match j) u t of
          Inl e \<Rightarrow> Inl e | Inr (_, t') \<Rightarrow> Inr ((), t'))"

definition mark_failed :: "queue_config \<Rightarrow> int \<Rightarrow> job \<Rightarrow> string \<Rightarrow> (unit, jobs) tx" where
  "mark_failed cfg now_ms j err t = mark_failed_typed cfg now_ms j err None t"

subsection \<open>Deferred\<close>

definition deferred_row :: "int \<Rightarrow> int \<Rightarrow> int \<Rightarrow> int \<Rightarrow> string \<Rightarrow> job_row \<Rightarrow> job_row" where
  "deferred_row now_ms oldest_allowed_ms pre_claim_attempts until_ms why r =
    (let expired = row_created_at_ms r \<le> oldest_allowed_ms in
     r\<lparr>row_status := (if expired then ''failed'' else ''ready''),
       row_attempts := pre_claim_attempts,
       row_available_at_ms := until_ms,
       row_locked_until_ms := None,
       row_started_at_ms := None,
       row_completed_at_ms := (if expired then Some now_ms else None),
       row_last_error := Some why,
       row_failure_reason := (if expired then Some ''defer_age_exceeded'' else None),
       row_failure_class := (if expired then Some ''unrecoverable'' else None)\<rparr>)"

definition mark_deferred :: "queue_config \<Rightarrow> int \<Rightarrow> job \<Rightarrow> int \<Rightarrow> string \<Rightarrow> (unit, jobs) tx" where
  "mark_deferred cfg now_ms j until_ms why t =
    (let pre_claim_attempts = sat64 (int (job_attempts j) - 1);
         oldest_allowed_ms = sat64 (now_ms - qc_max_defer_age_ms cfg)
     in case jobs_update (token_match j)
               (deferred_row now_ms oldest_allowed_ms pre_claim_attempts until_ms why) t of
          Inl e \<Rightarrow> Inl e | Inr (_, t') \<Rightarrow> Inr ((), t'))"

subsection \<open>Lease recovery and graceful release\<close>

definition lease_expired :: "int \<Rightarrow> job_row \<Rightarrow> bool" where
  "lease_expired now_ms r \<longleftrightarrow> row_status r = ''running'' \<and>
     (case row_locked_until_ms r of None \<Rightarrow> False | Some l \<Rightarrow> l < now_ms)"

definition recovered_row :: "job_row \<Rightarrow> job_row" where
  "recovered_row r = r\<lparr>row_status := ''ready'',
     row_last_error := (case row_last_error r of Some e \<Rightarrow> Some e
                        | None \<Rightarrow> Some ''recovered_from_stale_lock'')\<rparr>"

definition recover_stale_locks :: "int \<Rightarrow> (nat, jobs) tx" where
  "recover_stale_locks now_ms t = jobs_update (lease_expired now_ms) recovered_row t"

definition released_row :: "job_row \<Rightarrow> job_row" where
  "released_row r = r\<lparr>row_status := ''ready'',
     row_attempts := (if row_attempts r > 0 then row_attempts r - 1 else 0),
     row_locked_until_ms := None, row_started_at_ms := None\<rparr>"

definition release_running_locks :: "(nat, jobs) tx" where
  "release_running_locks t = jobs_update (\<lambda>r. row_status r = ''running'') released_row t"

subsection \<open>Requeue\<close>

text \<open>\<^verbatim>\<open>ORDER BY COALESCE(completed_at_ms, created_at_ms) DESC, created_at_ms DESC, id DESC\<close>.\<close>

datatype requeue_key = Requeue_Key (rk_settled: int) (rk_created: int) (rk_id: string)

instantiation requeue_key :: linorder
begin

definition less_eq_requeue_key :: "requeue_key \<Rightarrow> requeue_key \<Rightarrow> bool" where
  "less_eq_requeue_key a b \<longleftrightarrow> rk_settled b < rk_settled a \<or> (rk_settled a = rk_settled b \<and>
     (rk_created b < rk_created a \<or> (rk_created a = rk_created b \<and> rk_id b \<le> rk_id a)))"

definition less_requeue_key :: "requeue_key \<Rightarrow> requeue_key \<Rightarrow> bool" where
  "less_requeue_key a b \<longleftrightarrow> rk_settled b < rk_settled a \<or> (rk_settled a = rk_settled b \<and>
     (rk_created b < rk_created a \<or> (rk_created a = rk_created b \<and> rk_id b < rk_id a)))"

instance
  by standard (auto simp: less_eq_requeue_key_def less_requeue_key_def requeue_key.expand)

end

definition row_requeue_key :: "job_row \<Rightarrow> requeue_key" where
  "row_requeue_key r = Requeue_Key
     (case row_completed_at_ms r of Some c \<Rightarrow> c | None \<Rightarrow> row_created_at_ms r)
     (row_created_at_ms r) (row_id r)"

definition requeue_candidates :: "(job_row \<Rightarrow> bool) \<Rightarrow> jobs \<Rightarrow> (string \<times> string option) list" where
  "requeue_candidates p t =
    map (\<lambda>r. (row_id r, row_dedupe_key r)) (sort_key row_requeue_key (filter p t))"

text \<open>
  The loop over the candidates: ids to requeue, ids to cancel and the number skipped, given the
  keys of live rows and the keys claimed so far.
\<close>

fun requeue_partition ::
    "string list \<Rightarrow> string list \<Rightarrow> (string \<times> string option) list \<Rightarrow> string list \<times> string list \<times> nat"
where
  "requeue_partition active claimed [] = ([], [], 0)"
| "requeue_partition active claimed ((i, None) # cs) =
     (case requeue_partition active claimed cs of (q, c, s) \<Rightarrow> (i # q, c, s))"
| "requeue_partition active claimed ((i, Some k) # cs) =
     (if k \<in> set active then
        (case requeue_partition active claimed cs of (q, c, s) \<Rightarrow> (q, c, Suc s))
      else if k \<notin> set claimed then
        (case requeue_partition active (k # claimed) cs of (q, c, s) \<Rightarrow> (i # q, c, s))
      else
        (case requeue_partition active claimed cs of (q, c, s) \<Rightarrow> (q, i # c, s)))"

definition cancelled_row :: "int \<Rightarrow> job_row \<Rightarrow> job_row" where
  "cancelled_row now_ms r = r\<lparr>row_status := ''cancelled'', row_locked_until_ms := None,
     row_completed_at_ms := Some now_ms,
     row_last_error := Some ''superseded by a newer job with the same dedupe_key''\<rparr>"

definition requeued_row :: "int \<Rightarrow> job_row \<Rightarrow> job_row" where
  "requeued_row now_ms r = r\<lparr>row_status := ''ready'', row_attempts := 0,
     row_available_at_ms := now_ms, row_locked_until_ms := None, row_started_at_ms := None,
     row_completed_at_ms := None, row_last_error := None, row_failure_reason := None,
     row_failure_class := None\<rparr>"

text \<open>One \<^verbatim>\<open>UPDATE \<dots> WHERE id = ?\<close> per id, summing the row counts; an error aborts the whole.\<close>

fun update_each :: "(job_row \<Rightarrow> job_row) \<Rightarrow> string list \<Rightarrow> (nat, jobs) tx" where
  "update_each f [] t = Inr (0, t)"
| "update_each f (i # is) t =
     (case jobs_update (\<lambda>r. row_id r = i) f t of
        Inl e \<Rightarrow> Inl e
      | Inr (n, t') \<Rightarrow> (case update_each f is t' of
            Inl e \<Rightarrow> Inl e | Inr (m, t'') \<Rightarrow> Inr (n + m, t'')))"

definition active_keys :: "jobs \<Rightarrow> string list" where
  "active_keys t = remdups (index_keys active_key t)"

definition requeue_failed_where :: "(job_row \<Rightarrow> bool) \<Rightarrow> int \<Rightarrow> (nat, jobs) tx" where
  "requeue_failed_where p now_ms t =
    (let candidates = requeue_candidates p t in
     if candidates = [] then Inr (0, t)
     else case requeue_partition (active_keys t) [] candidates of (to_requeue, to_cancel, _) \<Rightarrow>
       (case update_each (cancelled_row now_ms) to_cancel t of
          Inl e \<Rightarrow> Inl e
        | Inr (_, t') \<Rightarrow> update_each (requeued_row now_ms) to_requeue t'))"

definition is_failed :: "job_row \<Rightarrow> bool" where
  "is_failed r \<longleftrightarrow> row_status r = ''failed''"

definition is_transient_failed :: "job_row \<Rightarrow> bool" where
  "is_transient_failed r \<longleftrightarrow> row_status r = ''failed'' \<and>
     (case row_failure_class r of None \<Rightarrow> True | Some c \<Rightarrow> c \<noteq> ''unrecoverable'')"

definition requeue_failed :: "int \<Rightarrow> (nat, jobs) tx" where
  "requeue_failed now_ms t = requeue_failed_where is_failed now_ms t"

definition requeue_transient_failed :: "int \<Rightarrow> (nat, jobs) tx" where
  "requeue_transient_failed now_ms t = requeue_failed_where is_transient_failed now_ms t"

definition retry_all_failed :: "int \<Rightarrow> (nat, jobs) tx" where
  "retry_all_failed now_ms t = requeue_failed now_ms t"

subsection \<open>What each row update does to the index entry\<close>

lemma row_update_ids [simp]:
  "row_id (done_row n r) = row_id r"
  "row_id (failed_row n e f r) = row_id r"
  "row_id (retry_row a e r) = row_id r"
  "row_id (deferred_row n o' p u w r) = row_id r"
  "row_id (recovered_row r) = row_id r"
  "row_id (released_row r) = row_id r"
  "row_id (cancelled_row n r) = row_id r"
  "row_id (requeued_row n r) = row_id r"
  by (simp_all add: done_row_def failed_row_def retry_row_def deferred_row_def Let_def
      recovered_row_def released_row_def cancelled_row_def requeued_row_def)

lemma row_update_status [simp]:
  "row_status (done_row n r) = ''done''"
  "row_status (failed_row n e f r) = ''failed''"
  "row_status (retry_row a e r) = ''ready''"
  "row_status (deferred_row n o' p u w r) = (if row_created_at_ms r \<le> o' then ''failed'' else ''ready'')"
  "row_status (recovered_row r) = ''ready''"
  "row_status (released_row r) = ''ready''"
  "row_status (cancelled_row n r) = ''cancelled''"
  "row_status (requeued_row n r) = ''ready''"
  by (simp_all add: done_row_def failed_row_def retry_row_def deferred_row_def Let_def
      recovered_row_def released_row_def cancelled_row_def requeued_row_def)

lemma row_update_started [simp]:
  "row_started_at_ms (done_row n r) = row_started_at_ms r"
  "row_started_at_ms (failed_row n e f r) = row_started_at_ms r"
  "row_started_at_ms (retry_row a e r) = row_started_at_ms r"
  "row_started_at_ms (deferred_row n o' p u w r) = None"
  "row_started_at_ms (recovered_row r) = row_started_at_ms r"
  "row_started_at_ms (released_row r) = None"
  "row_started_at_ms (cancelled_row n r) = row_started_at_ms r"
  "row_started_at_ms (requeued_row n r) = None"
  by (simp_all add: done_row_def failed_row_def retry_row_def deferred_row_def Let_def
      recovered_row_def released_row_def cancelled_row_def requeued_row_def)

lemma row_update_attempts [simp]:
  "row_attempts (done_row n r) = row_attempts r"
  "row_attempts (failed_row n e f r) = row_attempts r"
  "row_attempts (retry_row a e r) = row_attempts r"
  "row_attempts (recovered_row r) = row_attempts r"
  "row_attempts (cancelled_row n r) = row_attempts r"
  "row_attempts (requeued_row n r) = 0"
  by (simp_all add: done_row_def failed_row_def retry_row_def
      recovered_row_def cancelled_row_def requeued_row_def)

text \<open>The columns that identify a job: what it is, its payload, its key, its creation and budget.\<close>

definition identity_of :: "job_row \<Rightarrow> string \<times> string \<times> string \<times> string option \<times> int \<times> int" where
  "identity_of r = (row_id r, row_kind r, row_payload_json r, row_dedupe_key r,
     row_created_at_ms r, row_max_attempts r)"

lemma row_update_identity [simp]:
  "identity_of (claimed_row n l r) = identity_of r"
  "identity_of (done_row n r) = identity_of r"
  "identity_of (failed_row n e f r) = identity_of r"
  "identity_of (retry_row a e r) = identity_of r"
  "identity_of (deferred_row n o' p u w r) = identity_of r"
  "identity_of (recovered_row r) = identity_of r"
  "identity_of (released_row r) = identity_of r"
  "identity_of (cancelled_row n r) = identity_of r"
  "identity_of (requeued_row n r) = identity_of r"
  by (simp_all add: identity_of_def claimed_row_def done_row_def failed_row_def retry_row_def
      deferred_row_def Let_def recovered_row_def released_row_def cancelled_row_def
      requeued_row_def)

lemma identity_dedupe: "identity_of r = identity_of q \<Longrightarrow> row_dedupe_key r = row_dedupe_key q"
  by (simp add: identity_of_def)

lemma row_update_dedupe [simp]:
  "row_dedupe_key (done_row n r) = row_dedupe_key r"
  "row_dedupe_key (failed_row n e f r) = row_dedupe_key r"
  "row_dedupe_key (retry_row a e r) = row_dedupe_key r"
  "row_dedupe_key (deferred_row n o' p u w r) = row_dedupe_key r"
  "row_dedupe_key (recovered_row r) = row_dedupe_key r"
  "row_dedupe_key (released_row r) = row_dedupe_key r"
  "row_dedupe_key (cancelled_row n r) = row_dedupe_key r"
  "row_dedupe_key (requeued_row n r) = row_dedupe_key r"
  by (rule identity_dedupe, simp)+

lemma active_key_status:
  "row_status r = ''ready'' \<or> row_status r = ''running'' \<Longrightarrow> active_key r = row_dedupe_key r"
  "row_status r \<noteq> ''ready'' \<Longrightarrow> row_status r \<noteq> ''running'' \<Longrightarrow> active_key r = None"
  by (auto simp: active_key_def is_active_def)

lemma row_update_active_key [simp]:
  "active_key (done_row n r) = None"
  "active_key (failed_row n e f r) = None"
  "active_key (retry_row a e r) = row_dedupe_key r"
  "active_key (recovered_row r) = row_dedupe_key r"
  "active_key (released_row r) = row_dedupe_key r"
  "active_key (cancelled_row n r) = None"
  "active_key (requeued_row n r) = row_dedupe_key r"
  by (simp_all add: active_key_def is_active_def)

lemma deferred_row_active_key:
  "active_key (deferred_row n o' p u w r) = None \<or>
   active_key (deferred_row n o' p u w r) = row_dedupe_key r"
  by (simp add: active_key_def is_active_def)

text \<open>The row update a settle applies, whichever of the three it is.\<close>

lemma jobs_update_run_tx:
  "run_tx (\<lambda>t. case jobs_update p f t of Inl e \<Rightarrow> Inl e | Inr (_, t') \<Rightarrow> Inr ((), t')) t =
    (if jobs_ok (sql_update p f t) then (Inr (), sql_update p f t) else (Inl unique_error, t))"
  by (simp add: run_tx_def jobs_update_def Let_def)

lemma enqueue_all_ok [inv_intros]: "jobs_ok t \<Longrightarrow> jobs_ok (enqueue_all us now d fs t)"
  by (induction fs arbitrary: t us) (simp_all add: enqueue_conn_ok)

lemma enqueue_conn_mono: "set t \<subseteq> set (snd (enqueue_conn u now j d t))"
  by (rule enqueue_conn_cases [of u now j d t]) auto

lemma enqueue_all_mono: "set t \<subseteq> set (enqueue_all us now d fs t)"
proof (induction fs arbitrary: t us)
  case (Cons f fs)
  show ?case using Cons [of "snd (enqueue_conn (us 0) now f d t)" "\<lambda>i. us (Suc i)"]
      enqueue_conn_mono [of t "us 0" now f d] by simp
qed simp

subsection \<open>Settles are no-ops without the token\<close>

lemma no_match_update:
  "(\<forall>r\<in>set t. \<not> token_match j r) \<Longrightarrow> jobs_ok t \<Longrightarrow> jobs_update (token_match j) f t = Inr (0, t)"
  by (simp add: jobs_update_def Let_def sql_update_none sql_count_0_iff)

lemma no_match_settles:
  assumes "jobs_ok t" and "\<forall>r\<in>set t. \<not> token_match j r"
  shows "mark_done_with_followups cfg us now j fs t = Inr (False, t)
    \<and> mark_failed_typed cfg now j err failure t = Inr ((), t)
    \<and> mark_deferred cfg now j until why t = Inr ((), t)"
  using no_match_update [OF assms(2,1)]
  by (simp add: mark_done_with_followups_def mark_failed_typed_def mark_deferred_def Let_def)

lemma no_token_iff:
  "(\<forall>r\<in>set t. row_id r = job_id j \<longrightarrow> row_attempts r \<noteq> int (job_attempts j) \<or>
      row_started_at_ms r \<noteq> job_started_at_ms j) \<longleftrightarrow> (\<forall>r\<in>set t. \<not> token_match j r)"
  by (auto simp: token_match_def)

text \<open>
  C3: a worker whose claim token no longer matches any row cannot change the queue: marking done
  (with follow-ups), failed or deferred succeeds silently, enqueues nothing and leaves the table as
  it was.
\<close>

theorem stale_settle_is_noop:
  assumes "jobs_ok t" and "\<forall>r\<in>set t. row_id r = job_id j \<longrightarrow> row_attempts r \<noteq> int (job_attempts j) \<or>
    row_started_at_ms r \<noteq> job_started_at_ms j"
  shows "mark_done_with_followups cfg us now j fs t = Inr (False, t)
    \<and> mark_failed_typed cfg now j err failure t = Inr ((), t)
    \<and> mark_deferred cfg now j until why t = Inr ((), t)"
  by (rule no_match_settles [OF assms(1) iffD1 [OF no_token_iff assms(2)]])

text \<open>The job of the sample queue's second row after a claim at time 9.\<close>

definition sample_claimed :: jobs where
  "sample_claimed = snd (claim_next 9 300 sample_rows)"

definition sample_held :: job where
  "sample_held = \<lparr>job_id = ''job:b'', job_kind = Seal, job_payload_json = ''{}'',
     job_dedupe_key = Some ''y'', job_status = Running, job_attempts = 1, job_max_attempts = 5,
     job_available_at_ms = 6, job_locked_until_ms = Some 309, job_last_error = None,
     job_failure_reason = None, job_failure_class = None, job_created_at_ms = 6,
     job_started_at_ms = Some 9, job_completed_at_ms = None\<rparr>"

theorem stale_settle_is_noop_witness:
  "jobs_ok sample_rows \<and> filter (token_match sample_held) sample_rows = []
   \<and> mark_done_with_followups queue_config_default (\<lambda>_. ''u'') 10 sample_held
       [sample_job Seal ''z''] sample_rows = Inr (False, sample_rows)"
proof -
  have m: "\<forall>r\<in>set sample_rows. row_id r = job_id sample_held \<longrightarrow> row_attempts r \<noteq> int (job_attempts sample_held) \<or>
      row_started_at_ms r \<noteq> job_started_at_ms sample_held"
    by (simp add: sample_rows_def sample_held_def)
  then have "filter (token_match sample_held) sample_rows = []"
    by (auto simp: filter_empty_conv token_match_def)
  then show ?thesis using stale_settle_is_noop [OF sample_rows_ok m] sample_rows_ok by blast
qed

subsection \<open>Settles of the current lessee\<close>

lemma token_match_unique:
  "jobs_ok t \<Longrightarrow> r \<in> set t \<Longrightarrow> token_match j r \<Longrightarrow> q \<in> set t \<Longrightarrow> token_match j q \<Longrightarrow> q = r"
  by (rule jobs.key_eq) (simp_all add: token_match_def)

lemma token_update_set:
  assumes "jobs_ok t" "r \<in> set t" "token_match j r"
  shows "set (sql_update (token_match j) f t) = insert (f r) (set t - {r})"
proof -
  have "token_match j q \<longleftrightarrow> q = r" if "q \<in> set t" for q
    using token_match_unique [OF assms that] assms(3) by blast
  then have "(\<lambda>q. if token_match j q then f q else q) ` set t = (\<lambda>q. if q = r then f q else q) ` set t"
    by (intro image_cong) simp_all
  then show ?thesis using assms(2) by (auto simp: set_sql_update image_iff)
qed

lemma token_update_succeeds:
  assumes "jobs_ok t" "r \<in> set t" "token_match j r" "is_active r"
    and "\<And>q. row_id (f q) = row_id q"
    and "\<And>q. active_key (f q) = None \<or> active_key (f q) = row_dedupe_key q"
  shows "\<exists>n. jobs_update (token_match j) f t = Inr (Suc n, sql_update (token_match j) f t)"
proof -
  have key: "active_key (f q) = None \<or> active_key (f q) = active_key q"
    if "q \<in> set t" "token_match j q" for q
    using token_match_unique [OF assms(1-3) that] assms(4,6) by (auto simp: active_key_def)
  have "sql_count (token_match j) t \<noteq> 0" using assms(2,3) by (auto simp: sql_count_0_iff)
  then obtain n where "sql_count (token_match j) t = Suc n" using not0_implies_Suc by blast
  then show ?thesis using jobs_update_succeeds [OF assms(1,5) key] by auto
qed

definition terminal_failure :: "job \<Rightarrow> job_failure option \<Rightarrow> bool" where
  "terminal_failure j failure \<longleftrightarrow> job_max_attempts j \<le> job_attempts j \<or>
     (case failure of Some f \<Rightarrow> is_unrecoverable f | None \<Rightarrow> False)"

definition retry_at :: "queue_config \<Rightarrow> int \<Rightarrow> job \<Rightarrow> int" where
  "retry_at cfg now j = sat64 (now + backoff_ms_with_policy (job_attempts j)
     (qc_retry_base_ms cfg) (qc_retry_cap_ms cfg))"

lemma settle_done:
  assumes "jobs_ok t" "r \<in> set t" "token_match j r" "is_active r"
  shows "mark_done_with_followups cfg us now j fs t = Inr (True,
    enqueue_all us now (qc_max_attempts cfg) fs (sql_update (token_match j) (done_row now) t))"
  using token_update_succeeds [OF assms, of "done_row now"]
  by (auto simp: mark_done_with_followups_def)

lemma settle_failed:
  assumes "jobs_ok t" "r \<in> set t" "token_match j r" "is_active r"
  shows "mark_failed_typed cfg now j err failure t = Inr ((), sql_update (token_match j)
    (if terminal_failure j failure then failed_row now err failure
     else retry_row (retry_at cfg now j) err) t)"
proof (cases "terminal_failure j failure")
  case True
  then show ?thesis using token_update_succeeds [OF assms, of "failed_row now err failure"]
    by (auto simp: mark_failed_typed_def Let_def terminal_failure_def)
next
  case False
  then show ?thesis using token_update_succeeds [OF assms, of "retry_row (retry_at cfg now j) err"]
    by (auto simp: mark_failed_typed_def Let_def terminal_failure_def retry_at_def)
qed

lemma settle_deferred:
  assumes "jobs_ok t" "r \<in> set t" "token_match j r" "is_active r"
  shows "mark_deferred cfg now j until why t = Inr ((), sql_update (token_match j)
    (deferred_row now (sat64 (now - qc_max_defer_age_ms cfg)) (sat64 (int (job_attempts j) - 1))
      until why) t)"
  using token_update_succeeds [OF assms, of "deferred_row now (sat64 (now - qc_max_defer_age_ms cfg))
      (sat64 (int (job_attempts j) - 1)) until why"] deferred_row_active_key
  by (auto simp: mark_deferred_def Let_def)

text \<open>
  The settle of a job whose row is still leased under its token always succeeds and rewrites
  that row only. Done: the row is terminal and its follow-ups are enqueued in the same
  transaction. Failed: terminal exactly when the attempts are used up or the failure is
  unrecoverable, else ready again after the backoff. Deferred: ready at the requested time with the
  claim's attempt given back, or parked as an unrecoverable failure once the row is older than the
  deferral limit.
\<close>

theorem settle_outcomes:
  assumes "jobs_ok t" and "r \<in> set t" and "token_match j r" and "is_active r"
  shows "mark_done_with_followups cfg us now j fs t = Inr (True,
      enqueue_all us now (qc_max_attempts cfg) fs (sql_update (token_match j) (done_row now) t))
    \<and> mark_failed_typed cfg now j err failure t = Inr ((), sql_update (token_match j)
      (if terminal_failure j failure then failed_row now err failure
       else retry_row (retry_at cfg now j) err) t)
    \<and> mark_deferred cfg now j until why t = Inr ((), sql_update (token_match j)
      (deferred_row now (sat64 (now - qc_max_defer_age_ms cfg)) (sat64 (int (job_attempts j) - 1))
        until why) t)
    \<and> set (sql_update (token_match j) f t) = insert (f r) (set t - {r})"
  using settle_done [OF assms] settle_failed [OF assms] settle_deferred [OF assms]
    token_update_set [OF assms(1-3)]
  by blast

definition sample_running :: job_row where
  "sample_running = claimed_row 9 309 (new_row ''b'' 6 (sample_job Seal ''y'') 5)"

theorem settle_outcomes_witness:
  "token_match sample_held sample_running \<and> is_active sample_running
   \<and> mark_done_with_followups queue_config_default (\<lambda>_. ''u'') 10 sample_held [] [sample_running]
     = Inr (True, [done_row 10 sample_running])
   \<and> mark_failed_typed queue_config_default 10 sample_held ''boom'' (Some (unrecoverable ''c''))
       [sample_running]
     = Inr ((), [failed_row 10 ''boom'' (Some (unrecoverable ''c'')) sample_running])"
proof -
  have m: "token_match sample_held sample_running" and a: "is_active sample_running"
    by (simp_all add: sample_running_def token_match_def sample_held_def is_active_def)
  have ok: "jobs_ok [sample_running]" by (simp add: jobs_ok_def)
  show ?thesis
    using m a settle_outcomes [OF ok _ m a, of queue_config_default "\<lambda>_. ''u''" 10 "[]" "''boom''"
        "Some (unrecoverable ''c'')" 0 "''w''" "done_row 0"]
    by (simp add: table_simps terminal_failure_def)
qed

subsection \<open>Requeue\<close>

text \<open>The partition: what ends in which list.\<close>

lemma requeue_partition_sub:
  "requeue_partition act cl cs = (q, c, s) \<Longrightarrow> set q \<union> set c \<subseteq> fst ` set cs"
  by (induction act cl cs arbitrary: q c s rule: requeue_partition.induct)
    (auto split: prod.splits if_splits)

lemma requeue_partition_distinct:
  "requeue_partition act cl cs = (q, c, s) \<Longrightarrow> distinct (map fst cs) \<Longrightarrow>
   distinct q \<and> distinct c \<and> set q \<inter> set c = {}"
proof (induction act cl cs arbitrary: q c s rule: requeue_partition.induct)
  case (2 act cl i cs)
  then show ?case using requeue_partition_sub by (fastforce split: prod.splits)
next
  case (3 act cl i k cs)
  then show ?case using requeue_partition_sub by (fastforce split: prod.splits if_splits)
qed simp

lemma requeue_partition_unkeyed:
  "requeue_partition act cl cs = (q, c, s) \<Longrightarrow> (i, None) \<in> set cs \<Longrightarrow> i \<in> set q"
  by (induction act cl cs arbitrary: q c s rule: requeue_partition.induct)
    (auto split: prod.splits if_splits)

lemma requeue_partition_active:
  "requeue_partition act cl cs = (q, c, s) \<Longrightarrow> distinct (map fst cs) \<Longrightarrow> (i, Some k) \<in> set cs \<Longrightarrow>
   k \<in> set act \<Longrightarrow> i \<notin> set q \<and> i \<notin> set c"
proof (induction act cl cs arbitrary: q c s rule: requeue_partition.induct)
  case (2 act cl i' cs)
  then show ?case by (force split: prod.splits)
next
  case (3 act cl i' k' cs)
  obtain q1 c1 s1 where e1: "requeue_partition act cl cs = (q1, c1, s1)"
    by (metis prod_cases3)
  obtain q2 c2 s2 where e2: "requeue_partition act (k' # cl) cs = (q2, c2, s2)"
    by (metis prod_cases3)
  show ?case
  proof (cases "(i, Some k) \<in> set cs")
    case True
    then have "i \<noteq> i'" using "3.prems"(2) by (auto simp: image_iff)
    then show ?thesis using 3 True e1 e2 by (auto split: if_splits)
  next
    case False
    then have "i = i'" "k = k'" using "3.prems"(3) by auto
    then show ?thesis
      using "3.prems" e1 requeue_partition_sub [OF e1] by (auto split: if_splits)
  qed
qed simp

text \<open>Among the candidates with one inactive key, the first wins and the others are cancelled.\<close>

lemma requeue_partition_claimed:
  "requeue_partition act cl cs = (q, c, s) \<Longrightarrow> distinct (map fst cs) \<Longrightarrow> (i, Some k) \<in> set cs \<Longrightarrow>
   k \<notin> set act \<Longrightarrow> k \<in> set cl \<Longrightarrow> i \<in> set c"
  by (induction act cl cs arbitrary: q c s rule: requeue_partition.induct)
    (auto split: prod.splits if_splits)

lemma requeue_partition_winner:
  assumes "requeue_partition act cl cs = (q, c, s)" "distinct (map fst cs)"
    and "cs = xs @ (i, Some k) # ys" "\<forall>j. (j, Some k) \<notin> set xs" "k \<notin> set act" "k \<notin> set cl"
  shows "i \<in> set q \<and> (\<forall>j. (j, Some k) \<in> set ys \<longrightarrow> j \<in> set c)"
  using assms
proof (induction act cl cs arbitrary: q c s xs rule: requeue_partition.induct)
  case (1 act cl)
  then show ?case by simp
next
  case (2 act cl i' cs)
  then obtain xs' where xs: "xs = (i', None) # xs'" "cs = xs' @ (i, Some k) # ys"
    by (cases xs) auto
  then show ?case using "2.IH" [OF _ _ xs(2)] "2.prems" by (auto split: prod.splits)
next
  case (3 act cl i' k' cs)
  show ?case
  proof (cases xs)
    case Nil
    then have eq: "i' = i" "k' = k" "cs = ys" using "3.prems"(3) by auto
    obtain q2 c2 s2 where e2: "requeue_partition act (k # cl) ys = (q2, c2, s2)"
      by (metis prod_cases3)
    have "\<forall>j. (j, Some k) \<in> set ys \<longrightarrow> j \<in> set c2"
      using requeue_partition_claimed [OF e2] "3.prems" eq by auto
    then show ?thesis using "3.prems" eq e2 by auto
  next
    case (Cons x xs')
    then have x: "x = (i', Some k')" and cs: "cs = xs' @ (i, Some k) # ys" and k: "k \<noteq> k'"
      using "3.prems"(3,4) by auto
    obtain q1 c1 s1 where e1: "requeue_partition act cl cs = (q1, c1, s1)"
      by (metis prod_cases3)
    obtain q2 c2 s2 where e2: "requeue_partition act (k' # cl) cs = (q2, c2, s2)"
      by (metis prod_cases3)
    have pre: "distinct (map fst cs)" "\<forall>j. (j, Some k) \<notin> set xs'"
      using "3.prems"(2,4) Cons by auto
    show ?thesis
    proof (cases "k' \<in> set act")
      case True
      then have "q = q1" "c = c1" using "3.prems"(1) e1 by simp_all
      then show ?thesis using "3.IH"(1) [OF True e1 pre(1) cs pre(2)] "3.prems"(5,6) by simp
    next
      case act: False
      show ?thesis
      proof (cases "k' \<in> set cl")
        case True
        then have "q = q1" "c = i' # c1" using "3.prems"(1) e1 act by simp_all
        then show ?thesis using "3.IH"(3) [OF act _ e1 pre(1) cs pre(2)] "3.prems"(5,6) True by simp
      next
        case False
        then have "q = i' # q2" "c = c2" using "3.prems"(1) e2 act by simp_all
        then show ?thesis using "3.IH"(2) [OF act False e2 pre(1) cs pre(2)] "3.prems"(5,6) k by simp
      qed
    qed
  qed
qed

lemma requeue_partition_unique:
  assumes part: "requeue_partition act [] cs = (q, c, s)" and d: "distinct (map fst cs)"
    and i: "(i, Some k) \<in> set cs" "i \<in> set q" and j: "(j, Some k) \<in> set cs" "j \<in> set q"
  shows "i = j"
proof -
  have k: "k \<notin> set act" using requeue_partition_active [OF part d i(1)] i(2) by blast
  have "\<exists>x\<in>set cs. snd x = Some k" using i(1) by force
  from split_list_first_prop [OF this] obtain xs x ys where cs: "cs = xs @ x # ys"
    and x: "snd x = Some k" and first: "\<forall>y\<in>set xs. snd y \<noteq> Some k" by blast
  obtain w where w: "x = (w, Some k)" using x by (cases x) auto
  have "\<forall>j. (j, Some k) \<notin> set xs" using first by force
  then have win: "\<forall>j. (j, Some k) \<in> set ys \<longrightarrow> j \<in> set c"
    using requeue_partition_winner [OF part d cs [unfolded w]] k by simp
  have dj: "set q \<inter> set c = {}" using requeue_partition_distinct [OF part d] by simp
  have "l = w" if "(l, Some k) \<in> set cs" "l \<in> set q" for l
    using that cs w first win dj by force
  from this [OF i] this [OF j] show ?thesis by simp
qed

lemma sql_update_insert_id:
  assumes "\<And>r. row_id (f r) = row_id r" "i \<notin> S"
  shows "sql_update (\<lambda>r. row_id r \<in> S) f (sql_update (\<lambda>r. row_id r = i) f t) =
    sql_update (\<lambda>r. row_id r \<in> insert i S) f t"
  using assms by (auto simp: sql_update_def)

lemma update_each_eq:
  assumes "\<And>r. row_id (f r) = row_id r" "distinct is"
    and "\<And>ps rest. is = ps @ rest \<Longrightarrow> jobs_ok (sql_update (\<lambda>r. row_id r \<in> set ps) f t)"
    and "set is \<subseteq> row_id ` set t"
  shows "update_each f is t = Inr (length is, sql_update (\<lambda>r. row_id r \<in> set is) f t)"
  using assms(2-)
proof (induction "is" arbitrary: t)
  case Nil
  then show ?case by (simp add: sql_update_none)
next
  case (Cons i "is")
  let ?t1 = "sql_update (\<lambda>r. row_id r = i) f t"
  have ok: "jobs_ok t" "jobs_ok ?t1"
    using Cons.prems(2) [of "[]" "i # is"] Cons.prems(2) [of "[i]" "is"]
    by (simp_all add: sql_update_none)
  obtain r where r: "r \<in> set t" "row_id r = i" using Cons.prems(3) by auto
  have one: "jobs_update (\<lambda>r. row_id r = i) f t = Inr (1, ?t1)"
    using ok(2) jobs.count_key [OF ok(1) r(1)] r(2) by (simp add: jobs_update_def Let_def)
  have "update_each f is ?t1 = Inr (length is, sql_update (\<lambda>r. row_id r \<in> set is) f ?t1)"
  proof (rule Cons.IH)
    show "distinct is" using Cons.prems(1) by simp
    fix ps rest assume split: "is = ps @ rest"
    then have "i \<notin> set ps" using Cons.prems(1) by simp
    then show "jobs_ok (sql_update (\<lambda>r. row_id r \<in> set ps) f ?t1)"
      using Cons.prems(2) [of "i # ps" rest] split
      by (simp add: sql_update_insert_id [OF assms(1)])
  next
    have "map row_id ?t1 = map row_id t" by (rule map_sql_update) (simp add: assms(1))
    then have "row_id ` set ?t1 = row_id ` set t" by (metis set_map)
    then show "set is \<subseteq> row_id ` set ?t1" using Cons.prems(3) by simp
  qed
  then show ?case using one Cons.prems(1) by (simp add: sql_update_insert_id [OF assms(1)])
qed

text \<open>The rows after a requeue that requeues \<^term>\<open>q\<close> and cancels \<^term>\<open>c\<close>.\<close>

definition requeue_result :: "int \<Rightarrow> string list \<Rightarrow> string list \<Rightarrow> job_row \<Rightarrow> job_row" where
  "requeue_result now q c r = (if row_id r \<in> set q then requeued_row now r
     else if row_id r \<in> set c then cancelled_row now r else r)"

lemma requeue_result_id [simp]: "row_id (requeue_result now q c r) = row_id r"
  by (simp add: requeue_result_def)

lemma requeue_result_ok:
  assumes "distinct t" "unique_on active_key t" "distinct (map row_id t)"
    and "\<And>r x. r \<in> set t \<Longrightarrow> row_id r \<in> set q \<Longrightarrow> row_dedupe_key r = Some x \<Longrightarrow>
      (\<forall>u\<in>set t. active_key u \<noteq> Some x)"
    and "\<And>r u x. r \<in> set t \<Longrightarrow> u \<in> set t \<Longrightarrow> row_id r \<in> set q \<Longrightarrow> row_id u \<in> set q \<Longrightarrow>
      row_dedupe_key r = Some x \<Longrightarrow> row_dedupe_key u = Some x \<Longrightarrow> r = u"
  shows "jobs_ok (map (requeue_result now q c) t)"
proof -
  have key: "active_key (requeue_result now q c r) = (if row_id r \<in> set q then row_dedupe_key r
      else if row_id r \<in> set c then None else active_key r)" for r
    by (simp add: requeue_result_def)
  have "unique_on (\<lambda>r. active_key (requeue_result now q c r)) t"
  proof (rule unique_onI_pairwise [OF assms(1)])
    fix r u x assume r: "r \<in> set t" and u: "u \<in> set t"
      and kr: "active_key (requeue_result now q c r) = Some x"
      and ku: "active_key (requeue_result now q c u) = Some x"
    show "r = u"
    proof (cases "row_id r \<in> set q"; cases "row_id u \<in> set q")
      assume "row_id r \<in> set q" "row_id u \<in> set q"
      then show ?thesis using assms(5) [OF r u] kr ku by (simp add: key)
    next
      assume "row_id r \<in> set q" "row_id u \<notin> set q"
      then show ?thesis using assms(4) [OF r] u kr ku by (auto simp: key split: if_splits)
    next
      assume "row_id r \<notin> set q" "row_id u \<in> set q"
      then show ?thesis using assms(4) [OF u] r kr ku by (auto simp: key split: if_splits)
    next
      assume "row_id r \<notin> set q" "row_id u \<notin> set q"
      then show ?thesis using unique_on_pairwiseD [OF assms(2) r u] kr ku
        by (auto simp: key split: if_splits)
    qed
  qed
  moreover have "unique_on (\<lambda>r. Some (row_id (requeue_result now q c r))) t"
    by (rule unique_onI_pairwise [OF assms(1)])
      (use assms(3) in \<open>simp add: distinct_map inj_on_def\<close>)
  ultimately show ?thesis by (simp add: jobs_ok_def unique_on_map)
qed

lemma set_active_keys: "x \<in> set (active_keys t) \<longleftrightarrow> (\<exists>r\<in>set t. active_key r = Some x)"
  by (auto simp: active_keys_def set_index_keys)

lemma map_fst_requeue_candidates:
  "map fst (requeue_candidates p t) = map row_id (sort_key row_requeue_key (filter p t))"
  by (simp add: requeue_candidates_def comp_def)

lemma requeue_candidates_iff:
  "(i, k) \<in> set (requeue_candidates p t) \<longleftrightarrow>
    (\<exists>r\<in>set t. p r \<and> row_id r = i \<and> row_dedupe_key r = k)"
  by (auto simp: requeue_candidates_def)

lemma distinct_requeue_candidates:
  assumes "jobs_ok t"
  shows "distinct (map fst (requeue_candidates p t))"
proof -
  have "distinct (map row_id (filter p t))"
    by (rule distinct_map_filter [OF jobs_ok_distinct [OF assms]])
  then have "distinct (filter p t)" "inj_on row_id (set (filter p t))"
    by (simp_all add: distinct_map)
  then show ?thesis by (simp add: map_fst_requeue_candidates distinct_map)
qed

lemma requeue_closed_form:
  assumes ok: "jobs_ok t" and p: "\<And>r. p r \<Longrightarrow> row_status r = ''failed''"
    and part: "requeue_partition (active_keys t) [] (requeue_candidates p t) = (q, c, s)"
  shows "requeue_failed_where p now t = Inr (length q, map (requeue_result now q c) t)"
    and "jobs_ok (map (requeue_result now q c) t)"
proof -
  let ?cs = "requeue_candidates p t"
  note d = distinct_requeue_candidates [OF ok]
  note dq = requeue_partition_distinct [OF part d]
  have cand: "\<exists>r\<in>set t. row_id r = i \<and> p r" if "i \<in> set q \<union> set c" for i
  proof -
    have "i \<in> fst ` set ?cs" using requeue_partition_sub [OF part] that by blast
    then obtain k where "(i, k) \<in> set ?cs" by auto
    then show ?thesis by (auto simp: requeue_candidates_iff)
  qed
  have row: "p r" if r: "r \<in> set t" "row_id r \<in> set q \<union> set c" for r
  proof -
    obtain u where u: "u \<in> set t" "row_id u = row_id r" "p u" using cand [OF r(2)] by blast
    have "u = r" by (rule jobs.key_eq [OF ok u(1) r(1) u(2)])
    then show ?thesis using u(3) by simp
  qed
  have idle: "active_key r = None" if "r \<in> set t" "row_id r \<in> set q \<union> set c" for r
    using p [OF row [OF that]] by (simp add: active_key_def is_active_def)
  have inq: "(row_id r, row_dedupe_key r) \<in> set ?cs" if "r \<in> set t" "row_id r \<in> set q" for r
    using row that by (auto simp: requeue_candidates_iff)
  show ok2: "jobs_ok (map (requeue_result now q c) t)"
  proof (rule requeue_result_ok)
    show "distinct t" "distinct (map row_id t)"
      using jobs_ok_distinct [OF ok] by (simp_all add: distinct_map)
    show "unique_on active_key t" using ok by (simp add: jobs_ok_def)
  next
    fix r x assume r: "r \<in> set t" "row_id r \<in> set q" "row_dedupe_key r = Some x"
    have "(row_id r, Some x) \<in> set ?cs" using inq [OF r(1,2)] r(3) by simp
    then have "x \<notin> set (active_keys t)" using requeue_partition_active [OF part d] r(2) by blast
    then show "\<forall>u\<in>set t. active_key u \<noteq> Some x" by (simp add: set_active_keys)
  next
    fix r u x assume ru: "r \<in> set t" "u \<in> set t" "row_id r \<in> set q" "row_id u \<in> set q"
      and k: "row_dedupe_key r = Some x" "row_dedupe_key u = Some x"
    have "row_id r = row_id u"
      using requeue_partition_unique [OF part d] inq ru k by metis
    then show "r = u" using jobs.key_eq [OF ok] ru by blast
  qed
  have ids: "row_id (cancelled_row now r) = row_id r" "row_id (requeued_row now r) = row_id r" for r
    by simp_all
  let ?t1 = "sql_update (\<lambda>r. row_id r \<in> set c) (cancelled_row now) t"
  have can: "update_each (cancelled_row now) c t = Inr (length c, ?t1)"
    by (rule update_each_eq) (use dq cand ok in \<open>auto intro: jobs_ok_update\<close>)
  have map1: "sql_update (\<lambda>r. row_id r \<in> S) (requeued_row now) ?t1 =
      map (\<lambda>r. if row_id r \<in> S then requeued_row now r else
        if row_id r \<in> set c then cancelled_row now r else r) t" if "S \<subseteq> set q" for S
    using that dq by (auto simp: sql_update_def)
  have req: "update_each (requeued_row now) q ?t1 =
      Inr (length q, sql_update (\<lambda>r. row_id r \<in> set q) (requeued_row now) ?t1)"
  proof (rule update_each_eq)
    fix ps rest assume split: "q = ps @ rest"
    let ?h = "\<lambda>r. if row_id r \<in> set ps then requeued_row now r else
        if row_id r \<in> set c then cancelled_row now r else r"
    have "unique_on active_key (map ?h t)"
    proof (rule unique_on_sub)
      show "unique_on (\<lambda>r. active_key (requeue_result now q c r)) t"
        using ok2 by (simp add: jobs_ok_def unique_on_map)
      fix r assume "r \<in> set t"
      then show "active_key (?h r) = None \<or>
          active_key (?h r) = active_key (requeue_result now q c r)"
        using split idle by (auto simp: requeue_result_def)
    qed
    moreover have "unique_on (\<lambda>r. Some (row_id r)) (map ?h t)"
      by (rule unique_on_sub [of "\<lambda>r. Some (row_id r)"]) (use ok in \<open>auto simp: jobs_ok_def\<close>)
    ultimately show "jobs_ok (sql_update (\<lambda>r. row_id r \<in> set ps) (requeued_row now) ?t1)"
      using map1 [of "set ps"] split by (simp add: jobs_ok_def)
  next
    have "map row_id ?t1 = map row_id t" by (rule map_sql_update) simp
    then have "row_id ` set ?t1 = row_id ` set t" by (metis set_map)
    moreover have "set q \<subseteq> row_id ` set t" using cand by blast
    ultimately show "set q \<subseteq> row_id ` set ?t1" by simp
  qed (use dq in simp_all)
  show "requeue_failed_where p now t = Inr (length q, map (requeue_result now q c) t)"
  proof (cases "?cs = []")
    case True
    then have "q = []" "c = []" using part by simp_all
    moreover have "map (requeue_result now [] []) t = t"
      by (rule map_idI) (simp add: requeue_result_def)
    ultimately show ?thesis using True by (simp add: requeue_failed_where_def Let_def)
  next
    case False
    have "sql_update (\<lambda>r. row_id r \<in> set q) (requeued_row now) ?t1 = map (requeue_result now q c) t"
      using map1 [of "set q"] by (simp add: requeue_result_def)
    then show ?thesis using False can req part
      by (simp add: requeue_failed_where_def Let_def)
  qed
qed


text \<open>
  What a requeue promises, row by row: rows outside the filter stay; a row without a key comes
  back; a row whose key is held by a live job is skipped; among the rest the newest row of each key
  comes back and its older siblings are cancelled.
\<close>

definition requeue_spec :: "(job_row \<Rightarrow> bool) \<Rightarrow> int \<Rightarrow> jobs \<Rightarrow> job_row \<Rightarrow> job_row" where
  "requeue_spec p now_ms t r =
    (if \<not> p r then r
     else case row_dedupe_key r of
       None \<Rightarrow> requeued_row now_ms r
     | Some k \<Rightarrow>
        (if \<exists>u\<in>set t. active_key u = Some k then r
         else if \<exists>u\<in>set t. p u \<and> row_dedupe_key u = Some k \<and> row_requeue_key u < row_requeue_key r
         then cancelled_row now_ms r
         else requeued_row now_ms r))"

lemma row_requeue_key_inj: "row_requeue_key r = row_requeue_key u \<Longrightarrow> row_id r = row_id u"
  by (simp add: row_requeue_key_def)

lemma requeue_result_spec:
  assumes ok: "jobs_ok t" and p: "\<And>r. p r \<Longrightarrow> row_status r = ''failed''"
    and part: "requeue_partition (active_keys t) [] (requeue_candidates p t) = (q, c, s)"
    and r: "r \<in> set t"
  shows "requeue_result now q c r = requeue_spec p now t r"
proof (cases "p r")
  case False
  have "row_id r \<notin> set q \<union> set c"
  proof
    assume "row_id r \<in> set q \<union> set c"
    then have "row_id r \<in> fst ` set (requeue_candidates p t)"
      using requeue_partition_sub [OF part] by blast
    then obtain u where "u \<in> set t" "p u" "row_id u = row_id r"
      by (auto simp: requeue_candidates_iff)
    then show False using jobs.key_eq [OF ok _ r] False by blast
  qed
  then show ?thesis using False by (simp add: requeue_result_def requeue_spec_def)
next
  case True
  note d = distinct_requeue_candidates [OF ok]
  have inr: "(row_id r, row_dedupe_key r) \<in> set (requeue_candidates p t)"
    using True r by (auto simp: requeue_candidates_iff)
  show ?thesis
  proof (cases "row_dedupe_key r")
    case None
    then have "row_id r \<in> set q" using requeue_partition_unkeyed [OF part] inr by simp
    then show ?thesis using True None by (simp add: requeue_result_def requeue_spec_def)
  next
    case (Some k)
    show ?thesis
    proof (cases "\<exists>u\<in>set t. active_key u = Some k")
      case act: True
      then have "k \<in> set (active_keys t)" by (simp add: set_active_keys)
      then have "row_id r \<notin> set q" "row_id r \<notin> set c"
        using requeue_partition_active [OF part d] inr Some by simp_all
      then show ?thesis using True Some act by (simp add: requeue_result_def requeue_spec_def)
    next
      case False
      then have k: "k \<notin> set (active_keys t)" by (simp add: set_active_keys)
      let ?l = "sort_key row_requeue_key (filter p t)"
      have "\<exists>u\<in>set ?l. row_dedupe_key u = Some k" using True r Some by auto
      from split_list_first_prop [OF this] obtain xs w ys where l: "?l = xs @ w # ys"
        and w: "row_dedupe_key w = Some k" and first: "\<forall>y\<in>set xs. row_dedupe_key y \<noteq> Some k"
        by blast
      let ?m = "map (\<lambda>r. (row_id r, row_dedupe_key r))"
      have cs: "requeue_candidates p t = ?m xs @ (row_id w, Some k) # ?m ys"
        using w by (simp add: requeue_candidates_def l)
      have none: "\<forall>j. (j, Some k) \<notin> set (?m xs)" using first by auto
      note win = requeue_partition_winner [OF part d cs none k]
      have wt: "w \<in> set t" "p w"
      proof -
        have "w \<in> set ?l" by (simp add: l)
        then show "w \<in> set t" "p w" by simp_all
      qed
      have "r \<in> set ?l" using r True by simp
      then have pos: "r = w \<or> r \<in> set ys" using first Some by (auto simp: l)
      have sorted: "sorted (map row_requeue_key (xs @ w # ys))" using sorted_sort_key [of row_requeue_key] l by metis
      have least: "row_requeue_key w \<le> row_requeue_key u"
        if "u \<in> set t" "p u" "row_dedupe_key u = Some k" for u
      proof -
        have "u \<in> set ?l" using that by simp
        then have "u = w \<or> u \<in> set ys" using first that(3) by (auto simp: l)
        then show ?thesis using sorted by (auto simp: sorted_append)
      qed
      show ?thesis
      proof (cases "r = w")
        case rw: True
        have "row_id r \<in> set q" using win rw by simp
        moreover have "\<not> (\<exists>u\<in>set t. p u \<and> row_dedupe_key u = Some k \<and>
            row_requeue_key u < row_requeue_key r)"
          using least rw by (auto simp: not_less)
        moreover have "requeue_spec p now t r = requeued_row now r"
          unfolding requeue_spec_def using calculation(2) True Some False by (simp only: if_False not_True_eq_False option.case)
        ultimately show ?thesis by (simp add: requeue_result_def)
      next
        case rw: False
        then have "(row_id r, Some k) \<in> set (?m ys)" using pos Some by force
        then have "row_id r \<in> set c" using win by simp
        moreover from this have "row_id r \<notin> set q"
          using requeue_partition_distinct [OF part d] by blast
        moreover have "row_requeue_key w \<noteq> row_requeue_key r"
          using rw row_requeue_key_inj jobs.key_eq [OF ok r wt(1)] by metis
        then have "row_requeue_key w < row_requeue_key r" using least [OF r True Some] by simp
        ultimately show ?thesis using True Some False wt w
          by (auto simp: requeue_result_def requeue_spec_def)
      qed
    qed
  qed
qed

lemma requeue_refines_spec:
  assumes "jobs_ok t" and "\<And>r. p r \<Longrightarrow> row_status r = ''failed''"
  shows "\<exists>n. requeue_failed_where p now t = Inr (n, map (requeue_spec p now t) t)"
    and "jobs_ok (map (requeue_spec p now t) t)"
proof -
  obtain q c s where part: "requeue_partition (active_keys t) [] (requeue_candidates p t) = (q, c, s)"
    by (metis prod_cases3)
  have eq: "map (requeue_result now q c) t = map (requeue_spec p now t) t"
    by (rule map_cong) (simp_all add: requeue_result_spec [OF assms part])
  show "\<exists>n. requeue_failed_where p now t = Inr (n, map (requeue_spec p now t) t)"
    unfolding eq [symmetric] using requeue_closed_form(1) [OF assms part] by blast
  show "jobs_ok (map (requeue_spec p now t) t)"
    unfolding eq [symmetric] by (rule requeue_closed_form(2) [OF assms part])
qed

lemma requeue_failed_spec:
  assumes "jobs_ok t"
  shows "\<exists>n. requeue_failed now t = Inr (n, map (requeue_spec is_failed now t) t)"
    and "jobs_ok (map (requeue_spec is_failed now t) t)"
  using requeue_refines_spec [OF assms, of is_failed now]
  by (simp_all add: requeue_failed_def is_failed_def)

lemma requeue_transient_failed_spec:
  assumes "jobs_ok t"
  shows "\<exists>n. requeue_transient_failed now t =
      Inr (n, map (requeue_spec is_transient_failed now t) t)"
    and "jobs_ok (map (requeue_spec is_transient_failed now t) t)"
  using requeue_refines_spec [OF assms, of is_transient_failed now]
  by (simp_all add: requeue_transient_failed_def is_transient_failed_def)

text \<open>
  C4: both requeues always commit, keep the uniqueness constraints although failed rows may share a
  dedupe key with each other and with live rows, and do row by row what the specification says; the
  self-healing requeue never resurrects a row classed as unrecoverable.
\<close>

theorem requeue_never_collides:
  assumes "jobs_ok t"
  shows "(\<exists>n. requeue_failed now t = Inr (n, map (requeue_spec is_failed now t) t))
    \<and> (\<exists>n. requeue_transient_failed now t = Inr (n, map (requeue_spec is_transient_failed now t) t))
    \<and> jobs_ok (map (requeue_spec is_failed now t) t)
    \<and> jobs_ok (map (requeue_spec is_transient_failed now t) t)
    \<and> (\<forall>r\<in>set t. row_failure_class r = Some ''unrecoverable'' \<longrightarrow>
        requeue_spec is_transient_failed now t r = r)"
  using requeue_failed_spec [OF assms] requeue_transient_failed_spec [OF assms]
  by (simp add: requeue_spec_def is_transient_failed_def)

text \<open>Two failed rows with one key: the newer is requeued, the older cancelled.\<close>

definition sample_failed :: jobs where
  "sample_failed =
    [failed_row 20 ''e'' None (new_row ''a'' 5 (sample_job Seal ''y'') 5),
     failed_row 30 ''e'' None (new_row ''b'' 6 (sample_job Seal ''y'') 5)]"

theorem requeue_never_collides_witness:
  "jobs_ok sample_failed
   \<and> (\<exists>n. requeue_failed 40 sample_failed = Inr (n,
       [cancelled_row 40 (sample_failed ! 0), requeued_row 40 (sample_failed ! 1)]))"
proof -
  have ok: "jobs_ok sample_failed" by (simp add: sample_failed_def jobs_ok_def)
  have "map (requeue_spec is_failed 40 sample_failed) sample_failed =
      [cancelled_row 40 (sample_failed ! 0), requeued_row 40 (sample_failed ! 1)]"
    by (simp add: sample_failed_def requeue_spec_def is_failed_def row_requeue_key_def
        less_requeue_key_def failed_row_def active_key_def is_active_def new_row_def sample_job_def)
  then show ?thesis using requeue_never_collides [OF ok, of 40] ok by metis
qed

end
