(* ===== verification/Tree_Types.thy ===== *)
theory Tree_Types
  imports Complex_Main Config "HOL-Library.Char_ord" "HOL-Library.List_Lexorder"
begin

section \<open>Summary-tree types (src/memory/tree/store/types.rs, src/memory/tree/types.rs)\<close>

text \<open>
  Trees, summary nodes, buffers and leaves. Prose (chunk contents, summaries, asks) is a list of
  Unicode scalar values; ids, scopes and labels are strings. Instants are epoch milliseconds, the
  precision every column stores; scores are finite \<^verbatim>\<open>f32\<close> values, that is rationals.
\<close>

type_synonym utext = "nat list"

definition utext_of :: "string \<Rightarrow> utext" where
  "utext_of s = map of_char s"

datatype tree_kind = Source | Topic | Global | Flavoured

fun tree_kind_as_str :: "tree_kind \<Rightarrow> string" where
  "tree_kind_as_str Source = ''source''"
| "tree_kind_as_str Topic = ''topic''"
| "tree_kind_as_str Global = ''global''"
| "tree_kind_as_str Flavoured = ''flavoured''"

definition tree_kind_parse :: "string \<Rightarrow> string + tree_kind" where
  "tree_kind_parse s =
    (if s = ''source'' then Inr Source
     else if s = ''topic'' then Inr Topic
     else if s = ''global'' then Inr Global
     else if s = ''flavoured'' then Inr Flavoured
     else Inl (''unknown tree kind: '' @ s))"

datatype tree_status = Active | Archived

fun tree_status_as_str :: "tree_status \<Rightarrow> string" where
  "tree_status_as_str Active = ''active''"
| "tree_status_as_str Archived = ''archived''"

definition tree_status_parse :: "string \<Rightarrow> string + tree_status" where
  "tree_status_parse s =
    (if s = ''active'' then Inr Active
     else if s = ''archived'' then Inr Archived
     else Inl (''unknown tree status: '' @ s))"

lemma tree_kind_roundtrip [simp]: "tree_kind_parse (tree_kind_as_str k) = Inr k"
  by (cases k) (simp_all add: tree_kind_parse_def)

lemma tree_status_roundtrip [simp]: "tree_status_parse (tree_status_as_str s) = Inr s"
  by (cases s) (simp_all add: tree_status_parse_def)

record tree =
  tr_id :: string
  tr_kind :: tree_kind
  tr_scope :: string
  tr_root_id :: "string option"
  tr_max_level :: nat
  tr_status :: tree_status
  tr_created_at :: int
  tr_last_sealed_at :: "int option"
  tr_ask :: "utext option"

record summary_node =
  sn_id :: string
  sn_tree_id :: string
  sn_tree_kind :: tree_kind
  sn_level :: nat
  sn_parent_id :: "string option"
  sn_child_ids :: "string list"
  sn_content :: utext
  sn_token_count :: nat
  sn_entities :: "string list"
  sn_topics :: "string list"
  sn_time_range_start :: int
  sn_time_range_end :: int
  sn_score :: rat
  sn_sealed_at :: int
  sn_deleted :: bool
  sn_embedding :: "rat list option"
  sn_doc_id :: "string option"
  sn_version_ms :: "int option"

record buffer =
  bf_tree_id :: string
  bf_level :: nat
  bf_item_ids :: "string list"
  bf_token_sum :: int
  bf_oldest_at :: "int option"

definition buffer_empty :: "string \<Rightarrow> nat \<Rightarrow> buffer" where
  "buffer_empty tree_id level = \<lparr>bf_tree_id = tree_id, bf_level = level, bf_item_ids = [],
     bf_token_sum = 0, bf_oldest_at = None\<rparr>"

definition buffer_is_empty :: "buffer \<Rightarrow> bool" where
  "buffer_is_empty b \<longleftrightarrow> bf_item_ids b = []"

definition buffer_is_stale :: "int \<Rightarrow> int \<Rightarrow> buffer \<Rightarrow> bool" where
  "buffer_is_stale now max_age b =
    (case bf_oldest_at b of Some ts \<Rightarrow> now - ts > max_age | None \<Rightarrow> False)"

record leaf_ref =
  lf_chunk_id :: string
  lf_token_count :: nat
  lf_timestamp :: int
  lf_content :: utext
  lf_entities :: "string list"
  lf_topics :: "string list"
  lf_score :: rat

subsection \<open>Topic-tree hotness\<close>

definition TOPIC_CREATION_THRESHOLD :: rat where "TOPIC_CREATION_THRESHOLD = 10"
definition TOPIC_ARCHIVE_THRESHOLD :: rat where "TOPIC_ARCHIVE_THRESHOLD = 2"
definition TOPIC_RECHECK_EVERY :: nat where "TOPIC_RECHECK_EVERY = 100"

record entity_index_stats =
  es_mention_count_30d :: nat
  es_distinct_sources :: nat
  es_last_seen_ms :: "int option"
  es_query_hits_30d :: nat
  es_graph_centrality :: "rat option"

record hotness_counters =
  hc_entity_id :: string
  hc_mention_count_30d :: nat
  hc_distinct_sources :: nat
  hc_last_seen_ms :: "int option"
  hc_query_hits_30d :: nat
  hc_graph_centrality :: "rat option"
  hc_ingests_since_check :: nat
  hc_last_hotness :: "rat option"
  hc_last_updated_ms :: int

definition hotness_fresh :: "string \<Rightarrow> int \<Rightarrow> hotness_counters" where
  "hotness_fresh entity_id now_ms = \<lparr>hc_entity_id = entity_id, hc_mention_count_30d = 0,
     hc_distinct_sources = 0, hc_last_seen_ms = None, hc_query_hits_30d = 0,
     hc_graph_centrality = None, hc_ingests_since_check = 0, hc_last_hotness = None,
     hc_last_updated_ms = now_ms\<rparr>"

definition hotness_stats :: "hotness_counters \<Rightarrow> entity_index_stats" where
  "hotness_stats c = \<lparr>es_mention_count_30d = hc_mention_count_30d c,
     es_distinct_sources = hc_distinct_sources c, es_last_seen_ms = hc_last_seen_ms c,
     es_query_hits_30d = hc_query_hits_30d c, es_graph_centrality = hc_graph_centrality c\<rparr>"

end
