(* ===== verification/Graph.thy ===== *)
theory Graph
  imports Sql_Table "HOL-Library.Char_ord" "HOL-Library.List_Lexorder" "HOL-Library.Product_Lexorder"
begin

section \<open>Entity co-occurrence graph (src/memory/graph)\<close>

text \<open>
  The persisted undirected edges (\<^verbatim>\<open>edge_store.rs\<close>), bounded shortest paths between entities over
  them (\<^verbatim>\<open>bfs.rs\<close>), and the co-occurrence query derived from an occurrence index (\<^verbatim>\<open>query.rs\<close>).
  Entity ids are byte strings, ordered bytewise as Rust orders \<^verbatim>\<open>str\<close>.
\<close>

subsection \<open>Edge store\<close>

record edge_row =
  edge_a :: string
  edge_b :: string
  edge_weight :: int
  edge_updated_ms :: int

type_synonym edges = "edge_row list"

definition order_pair :: "string \<Rightarrow> string \<Rightarrow> (string \<times> string) option" where
  "order_pair a b = (if a < b then Some (a, b) else if b < a then Some (b, a) else None)"

text \<open>\<^verbatim>\<open>BTreeSet\<close> iteration: ascending, without duplicates.\<close>

definition btree_set :: "'a::linorder list \<Rightarrow> 'a list" where
  "btree_set xs = sort (remdups xs)"

fun index_pairs :: "string list \<Rightarrow> (string \<times> string) list" where
  "index_pairs [] = []"
| "index_pairs (x # xs) = List.map_filter (order_pair x) xs @ index_pairs xs"

definition pairs_from_entities :: "string list \<Rightarrow> (string \<times> string) list" where
  "pairs_from_entities entity_ids = index_pairs (btree_set entity_ids)"

definition upsert_edge :: "int \<Rightarrow> string \<times> string \<Rightarrow> edges \<Rightarrow> edges" where
  "upsert_edge ts p = sql_upsert (\<lambda>e. edge_a e = fst p \<and> edge_b e = snd p)
     (\<lambda>e. e\<lparr>edge_weight := edge_weight e + 1, edge_updated_ms := ts\<rparr>)
     \<lparr>edge_a = fst p, edge_b = snd p, edge_weight = 1, edge_updated_ms = ts\<rparr>"

definition canonical_pairs :: "(string \<times> string) list \<Rightarrow> (string \<times> string) list" where
  "canonical_pairs ps = btree_set (List.map_filter (\<lambda>(a, b). order_pair a b) ps)"

definition upsert_edges_tx :: "(string \<times> string) list \<Rightarrow> int \<Rightarrow> edges \<Rightarrow> nat \<times> edges" where
  "upsert_edges_tx ps ts es =
    (length (canonical_pairs ps), fold (upsert_edge ts) (canonical_pairs ps) es)"

definition upsert_edges :: "(string \<times> string) list \<Rightarrow> int \<Rightarrow> edges \<Rightarrow> nat \<times> edges" where
  "upsert_edges ps ts es = (if ps = [] then (0, es) else upsert_edges_tx ps ts es)"

text \<open>\<^verbatim>\<open>UNION ALL \<dots> ORDER BY weight DESC\<close>; rows of equal weight keep the order of the union.\<close>

definition edge_neighbors :: "edges \<Rightarrow> string \<Rightarrow> (string \<times> int) list" where
  "edge_neighbors es x = sort_key (\<lambda>(_, w). - w)
     (map (\<lambda>e. (edge_b e, edge_weight e)) (filter (\<lambda>e. edge_a e = x) es) @
      map (\<lambda>e. (edge_a e, edge_weight e)) (filter (\<lambda>e. edge_b e = x) es))"

fun clear_edges_for_entities_tx :: "string list \<Rightarrow> edges \<Rightarrow> nat \<times> edges" where
  "clear_edges_for_entities_tx [] es = (0, es)"
| "clear_edges_for_entities_tx (i # is) es =
     (let p = (\<lambda>e. edge_a e = i \<or> edge_b e = i);
          (n, es') = clear_edges_for_entities_tx is (sql_delete p es)
      in (sql_count p es + n, es'))"

definition count_edges :: "edges \<Rightarrow> nat" where
  "count_edges es = length es"

subsection \<open>Bounded breadth-first search\<close>

record pair_distance =
  pd_a :: string
  pd_b :: string
  pd_dist :: nat

definition neighbor_ids :: "edges \<Rightarrow> string \<Rightarrow> string list" where
  "neighbor_ids es x = map fst (edge_neighbors es x)"

text \<open>
  The loop state: queue, visited nodes, targets not yet found, pairs emitted by any source so far
  and the output. The per-call cache of neighbour lists holds what \<^term>\<open>neighbor_ids es\<close>
  returns, so it does not appear.
\<close>

record bfs_state =
  bfs_queue :: "(string \<times> nat) list"
  bfs_visited :: "string list"
  bfs_remaining :: "string list"
  bfs_emitted :: "(string \<times> string) list"
  bfs_output :: "pair_distance list"

text \<open>The body of the inner loop, for one neighbour of a node at \<^term>\<open>d\<close>.\<close>

definition bfs_visit :: "string \<Rightarrow> nat \<Rightarrow> string \<Rightarrow> bfs_state \<Rightarrow> bfs_state" where
  "bfs_visit source d y s =
    (if y \<in> set (bfs_visited s) then s
     else
       let s1 = s\<lparr>bfs_visited := y # bfs_visited s\<rparr>;
           s2 = (if y \<in> set (bfs_remaining s)
                 then let p = (if source < y then (source, y) else (y, source)) in
                   s1\<lparr>bfs_remaining := filter (\<lambda>x. x \<noteq> y) (bfs_remaining s),
                      bfs_emitted := (if p \<in> set (bfs_emitted s) then bfs_emitted s
                        else p # bfs_emitted s),
                      bfs_output := (if p \<in> set (bfs_emitted s) then bfs_output s
                        else bfs_output s @ [\<lparr>pd_a = fst p, pd_b = snd p, pd_dist = d + 1\<rparr>])\<rparr>
                 else s1)
       in s2\<lparr>bfs_queue := bfs_queue s @ [(y, d + 1)]\<rparr>)"

definition graph_nodes :: "edges \<Rightarrow> string set" where
  "graph_nodes es = edge_a ` set es \<union> edge_b ` set es"

lemma finite_graph_nodes [simp]: "finite (graph_nodes es)"
  by (simp add: graph_nodes_def)

lemma set_neighbor_ids:
  "set (neighbor_ids es x) = {y. \<exists>e\<in>set es. edge_a e = x \<and> edge_b e = y \<or> edge_b e = x \<and> edge_a e = y}"
proof -
  have "set (neighbor_ids es x) = edge_b ` {e \<in> set es. edge_a e = x} \<union> edge_a ` {e \<in> set es. edge_b e = x}"
    by (simp add: neighbor_ids_def edge_neighbors_def image_Un image_image)
  then show ?thesis by auto
qed

lemma neighbor_ids_nodes: "set (neighbor_ids es x) \<subseteq> graph_nodes es"
  by (auto simp: set_neighbor_ids graph_nodes_def)

text \<open>What the inner loop does to queue and visited set: it appends the new nodes to both.\<close>

lemma bfs_visit_frame:
  "bfs_visited (bfs_visit src d y s) = (if y \<in> set (bfs_visited s) then bfs_visited s else y # bfs_visited s)"
  "bfs_queue (bfs_visit src d y s) = (if y \<in> set (bfs_visited s) then bfs_queue s else bfs_queue s @ [(y, d + 1)])"
  by (simp_all add: bfs_visit_def Let_def)

lemma bfs_visits_frame:
  "set (bfs_visited (fold (bfs_visit src d) ys s)) = set ys \<union> set (bfs_visited s)"
  "\<exists>new. bfs_queue (fold (bfs_visit src d) ys s) = bfs_queue s @ map (\<lambda>y. (y, d + 1)) new \<and>
     set new = set ys - set (bfs_visited s) \<and> distinct new"
proof (induction ys arbitrary: s)
  case Nil
  {
    case 1 show ?case by simp
  next
    case 2 show ?case by simp
  }
next
  case (Cons y ys)
  {
    case 1 show ?case using Cons.IH(1) [of "bfs_visit src d y s"] by (auto simp: bfs_visit_frame)
  next
    case 2
    obtain new where new: "bfs_queue (fold (bfs_visit src d) ys (bfs_visit src d y s)) =
        bfs_queue (bfs_visit src d y s) @ map (\<lambda>y. (y, d + 1)) new"
      "set new = set ys - set (bfs_visited (bfs_visit src d y s))" "distinct new"
      using Cons.IH(2) by blast
    show ?case
    proof (cases "y \<in> set (bfs_visited s)")
      case True
      then show ?thesis using new by (intro exI [of _ new]) (auto simp: bfs_visit_frame)
    next
      case False
      then show ?thesis using new
        by (intro exI [of _ "y # new"]) (auto simp: bfs_visit_frame)
    qed
  }
qed

lemma bfs_step_measure:
  assumes "bfs_queue s = (x, d) # q"
  shows "(s\<lparr>bfs_queue := q\<rparr>, s) \<in>
      measures [\<lambda>s. card (graph_nodes es - set (bfs_visited s)), \<lambda>s. length (bfs_queue s)]"
    and "(fold (bfs_visit src d) (neighbor_ids es x) (s\<lparr>bfs_queue := q\<rparr>), s) \<in>
      measures [\<lambda>s. card (graph_nodes es - set (bfs_visited s)), \<lambda>s. length (bfs_queue s)]"
proof -
  show "(s\<lparr>bfs_queue := q\<rparr>, s) \<in>
      measures [\<lambda>s. card (graph_nodes es - set (bfs_visited s)), \<lambda>s. length (bfs_queue s)]"
    using assms by simp
  let ?s = "s\<lparr>bfs_queue := q\<rparr>"
  let ?t = "fold (bfs_visit src d) (neighbor_ids es x) ?s"
  obtain new where new: "bfs_queue ?t = q @ map (\<lambda>y. (y, d + 1)) new"
    "set new = set (neighbor_ids es x) - set (bfs_visited s)"
    using bfs_visits_frame(2) [of src d "neighbor_ids es x" ?s] by auto
  have vis: "set (bfs_visited ?t) = set (neighbor_ids es x) \<union> set (bfs_visited s)"
    using bfs_visits_frame(1) [of src d "neighbor_ids es x" ?s] by simp
  show "(?t, s) \<in> measures [\<lambda>s. card (graph_nodes es - set (bfs_visited s)), \<lambda>s. length (bfs_queue s)]"
  proof (cases "new = []")
    case True
    then have "set (neighbor_ids es x) \<subseteq> set (bfs_visited s)" using new(2) by auto
    then have "set (bfs_visited ?t) = set (bfs_visited s)" using vis by auto
    then show ?thesis using True new(1) assms by simp
  next
    case False
    then obtain y where y: "y \<in> set (neighbor_ids es x)" "y \<notin> set (bfs_visited s)"
      using new(2) by (metis DiffE list.set_intros(1) neq_Nil_conv)
    have "graph_nodes es - set (bfs_visited ?t) \<subset> graph_nodes es - set (bfs_visited s)"
      using y vis neighbor_ids_nodes [of es x] by auto
    then have "card (graph_nodes es - set (bfs_visited ?t)) < card (graph_nodes es - set (bfs_visited s))"
      by (intro psubset_card_mono) simp_all
    then show ?thesis by simp
  qed
qed

function bfs_loop :: "edges \<Rightarrow> nat \<Rightarrow> string \<Rightarrow> bfs_state \<Rightarrow> bfs_state" where
  "bfs_loop es max_h source s =
    (case bfs_queue s of
       [] \<Rightarrow> s
     | (x, d) # q \<Rightarrow>
        (if d \<ge> max_h \<or> bfs_remaining s = []
         then bfs_loop es max_h source (s\<lparr>bfs_queue := q\<rparr>)
         else bfs_loop es max_h source
           (fold (bfs_visit source d) (neighbor_ids es x) (s\<lparr>bfs_queue := q\<rparr>))))"
  by pat_completeness auto

termination
proof (relation "measures [\<lambda>(es, m, src, s). card (graph_nodes es - set (bfs_visited s)),
    \<lambda>(es, m, src, s). length (bfs_queue s)]", goal_cases)
  case 1
  show ?case by simp
next
  case (2 es m src s x q y d)
  then show ?case using bfs_step_measure(1) [of s y d q es] by simp
next
  case (3 es m src s x q y d)
  then show ?case using bfs_step_measure(2) [of s y d q src es] by simp
qed

declare bfs_loop.simps [simp del]

definition bfs_from :: "edges \<Rightarrow> nat \<Rightarrow> string list \<Rightarrow> string \<Rightarrow>
    (string \<times> string) list \<times> pair_distance list \<Rightarrow> (string \<times> string) list \<times> pair_distance list" where
  "bfs_from es max_h targets source = (\<lambda>(emitted, output).
    let s = bfs_loop es max_h source \<lparr>bfs_queue = [(source, 0)], bfs_visited = [source],
        bfs_remaining = filter (\<lambda>x. x \<noteq> source) targets, bfs_emitted = emitted,
        bfs_output = output\<rparr>
    in (bfs_emitted s, bfs_output s))"

definition pair_distances :: "edges \<Rightarrow> string list \<Rightarrow> nat \<Rightarrow> pair_distance list" where
  "pair_distances es entity_ids max_h =
    (if max_h = 0 \<or> length entity_ids < 2 then []
     else let unique = remdups_adj (sort entity_ids);
              output = snd (fold (bfs_from es max_h unique) unique ([], []))
          in sort_key (\<lambda>p. (pd_dist p, pd_a p, pd_b p)) output)"

subsection \<open>Shortest paths\<close>

definition adj :: "edges \<Rightarrow> (string \<times> string) set" where
  "adj es = {(x, y). y \<in> set (neighbor_ids es x)}"

definition is_dist :: "edges \<Rightarrow> string \<Rightarrow> string \<Rightarrow> nat \<Rightarrow> bool" where
  "is_dist es x y d \<longleftrightarrow> (x, y) \<in> adj es ^^ d \<and> (\<forall>k<d. (x, y) \<notin> adj es ^^ k)"

lemma sym_adj: "sym (adj es)"
  by (auto simp: adj_def sym_def set_neighbor_ids)

lemma sym_relpow: "sym r \<Longrightarrow> (x, y) \<in> r ^^ n \<Longrightarrow> (y, x) \<in> r ^^ n"
proof (induction n arbitrary: y)
  case (Suc n)
  then obtain z where "(x, z) \<in> r ^^ n" "(z, y) \<in> r" by auto
  then have "(y, z) \<in> r" "(z, x) \<in> r ^^ n" using Suc by (auto dest: symD)
  then show ?case by (rule relpow_Suc_I2)
qed simp

lemma is_dist_sym: "is_dist es x y d \<Longrightarrow> is_dist es y x d"
  unfolding is_dist_def using sym_relpow [OF sym_adj] by blast

lemma is_dist_unique: "is_dist es x y d \<Longrightarrow> is_dist es x y d' \<Longrightarrow> d = d'"
  unfolding is_dist_def by (metis nat_neq_iff)

lemma is_dist_0 [simp]: "is_dist es x y 0 \<longleftrightarrow> x = y"
  by (auto simp: is_dist_def)

lemma is_dist_self: "is_dist es x x d \<longleftrightarrow> d = 0"
  using is_dist_unique [of es x x d 0] by auto

lemma is_dist_pred:
  assumes "is_dist es x y (Suc d)"
  obtains z where "is_dist es x z d" "y \<in> set (neighbor_ids es z)"
proof -
  from assms obtain z where z: "(x, z) \<in> adj es ^^ d" "(z, y) \<in> adj es"
    by (auto simp: is_dist_def)
  have "(x, z) \<notin> adj es ^^ k" if "k < d" for k
  proof
    assume "(x, z) \<in> adj es ^^ k"
    then have "(x, y) \<in> adj es ^^ Suc k" using z(2) by auto
    moreover have "(x, y) \<notin> adj es ^^ Suc k"
      using assms that unfolding is_dist_def by (metis Suc_less_eq)
    ultimately show False by blast
  qed
  then have "is_dist es x z d" using z(1) by (simp add: is_dist_def)
  then show ?thesis using that z(2) by (simp add: adj_def)
qed

lemma is_dist_step:
  assumes "is_dist es x z d" "y \<in> set (neighbor_ids es z)"
    and "\<And>k. k \<le> d \<Longrightarrow> \<not> is_dist es x y k"
  shows "is_dist es x y (Suc d)"
proof -
  have "(x, y) \<in> adj es ^^ Suc d" using assms(1,2) by (auto simp: is_dist_def adj_def)
  moreover have "(x, y) \<notin> adj es ^^ k" if "k < Suc d" for k
  proof
    assume k: "(x, y) \<in> adj es ^^ k"
    let ?m = "LEAST k. (x, y) \<in> adj es ^^ k"
    have "(x, y) \<in> adj es ^^ ?m" "?m \<le> k" using k by (auto intro: LeastI Least_le)
    moreover from this have "is_dist es x y ?m"
      unfolding is_dist_def using not_less_Least by blast
    ultimately show False using assms(3) [of ?m] that by simp
  qed
  ultimately show ?thesis by (simp add: is_dist_def)
qed

subsection \<open>What one source contributes\<close>

definition ordered :: "string \<Rightarrow> string \<Rightarrow> string \<times> string" where
  "ordered x y = (if x < y then (x, y) else (y, x))"

lemma ordered_commute: "ordered x y = ordered y x"
  by (auto simp: ordered_def)

lemma ordered_inj: "ordered x y = ordered x z \<Longrightarrow> y = z"
  by (auto simp: ordered_def split: if_splits)

definition pd :: "string \<times> string \<Rightarrow> nat \<Rightarrow> pair_distance" where
  "pd p d = \<lparr>pd_a = fst p, pd_b = snd p, pd_dist = d\<rparr>"

definition pd_pair :: "pair_distance \<Rightarrow> string \<times> string" where
  "pd_pair r = (pd_a r, pd_b r)"

lemma pd_pair_pd [simp]: "pd_pair (pd p d) = p"
  by (simp add: pd_def pd_pair_def)

lemma pd_eq [simp]: "pd p d = pd p' d' \<longleftrightarrow> p = p' \<and> d = d'"
  by (cases p; cases p') (simp add: pd_def)

text \<open>
  The emission part of the loop invariant, for the targets \<^term>\<open>T\<close> and what had been emitted
  when the source started.
\<close>

definition emission_inv :: "edges \<Rightarrow> string \<Rightarrow> string set \<Rightarrow> (string \<times> string) set \<Rightarrow>
    pair_distance set \<Rightarrow> bfs_state \<Rightarrow> bool" where
  "emission_inv es src T E Out s \<longleftrightarrow>
     set (bfs_remaining s) = T - set (bfs_visited s) \<and>
     set (bfs_emitted s) = E \<union> ordered src ` (T \<inter> set (bfs_visited s)) \<and>
     set (bfs_output s) = Out \<union>
       {pd (ordered src y) d | y d. y \<in> T \<inter> set (bfs_visited s) \<and> is_dist es src y d \<and>
          ordered src y \<notin> E} \<and>
     distinct (map pd_pair (bfs_output s)) \<and> pd_pair ` set (bfs_output s) = set (bfs_emitted s)"

lemma emission_inv_frame:
  assumes "emission_inv es src T E Out s" "bfs_remaining t = bfs_remaining s"
    and "bfs_emitted t = bfs_emitted s" "bfs_output t = bfs_output s"
    and v: "T \<inter> set (bfs_visited t) = T \<inter> set (bfs_visited s)"
  shows "emission_inv es src T E Out t"
proof -
  have d: "T - set (bfs_visited t) = T - set (bfs_visited s)" using v by blast
  show ?thesis using assms(1) unfolding emission_inv_def assms(2-4) v d .
qed

lemma bfs_visit_emission:
  assumes inv: "emission_inv es src T E Out s"
    and d: "y \<in> set (bfs_visited s) \<or> is_dist es src y (Suc d)"
  shows "emission_inv es src T E Out (bfs_visit src d y s)"
proof (cases "y \<in> set (bfs_visited s)")
  case True
  then show ?thesis using inv by (simp add: bfs_visit_def)
next
  case False
  then have dy: "is_dist es src y (Suc d)" using d by simp
  have uniq: "is_dist es src y d' \<longleftrightarrow> d' = Suc d" for d' using is_dist_unique [OF dy] dy by blast
  note inv' = inv [unfolded emission_inv_def]
  show ?thesis
  proof (cases "y \<in> T")
    case nT: False
    then have "y \<notin> set (bfs_remaining s)" using inv' by simp
    then have "bfs_visit src d y s =
        s\<lparr>bfs_visited := y # bfs_visited s, bfs_queue := bfs_queue s @ [(y, d + 1)]\<rparr>"
      using False by (simp add: bfs_visit_def)
    then show ?thesis using nT by (intro emission_inv_frame [OF inv]) auto
  next
    case yT: True
    then have rem: "y \<in> set (bfs_remaining s)" using inv' False by simp
    let ?p = "ordered src y"
    let ?s' = "bfs_visit src d y s"
    have s': "bfs_visited ?s' = y # bfs_visited s"
      "bfs_remaining ?s' = filter (\<lambda>x. x \<noteq> y) (bfs_remaining s)"
      "bfs_emitted ?s' = (if ?p \<in> set (bfs_emitted s) then bfs_emitted s else ?p # bfs_emitted s)"
      "bfs_output ?s' = (if ?p \<in> set (bfs_emitted s) then bfs_output s
         else bfs_output s @ [pd ?p (Suc d)])"
      using False rem by (simp_all add: bfs_visit_def Let_def ordered_def pd_def)
    have em: "?p \<in> set (bfs_emitted s) \<longleftrightarrow> ?p \<in> E"
    proof -
      have "?p \<notin> ordered src ` (T \<inter> set (bfs_visited s))" using ordered_inj False by blast
      then show ?thesis using inv' by auto
    qed
    have split: "{pd (ordered src z) d' | z d'. z \<in> T \<inter> set (y # bfs_visited s) \<and>
          is_dist es src z d' \<and> ordered src z \<notin> E} =
        {pd (ordered src z) d' | z d'. z \<in> T \<inter> set (bfs_visited s) \<and>
          is_dist es src z d' \<and> ordered src z \<notin> E} \<union> (if ?p \<in> E then {} else {pd ?p (Suc d)})"
      using yT uniq by auto
    have dist: "distinct (map pd_pair (bfs_output ?s'))"
      "pd_pair ` set (bfs_output ?s') = set (bfs_emitted ?s')"
      using inv' s'(3,4) by auto
    show ?thesis
      unfolding emission_inv_def
    proof (intro conjI)
      show "set (bfs_remaining ?s') = T - set (bfs_visited ?s')"
        using inv' s'(1,2) by auto
      show "set (bfs_emitted ?s') = E \<union> ordered src ` (T \<inter> set (bfs_visited ?s'))"
        using inv' s'(1,3) em yT by auto
      show "set (bfs_output ?s') = Out \<union> {pd (ordered src z) d' | z d'.
          z \<in> T \<inter> set (bfs_visited ?s') \<and> is_dist es src z d' \<and> ordered src z \<notin> E}"
        unfolding s'(1) split using inv' s'(4) em by auto
    qed (fact dist)+
  qed
qed

lemma bfs_visits_emission:
  assumes "emission_inv es src T E Out s"
    and "\<forall>y\<in>set ys. y \<in> set (bfs_visited s) \<or> is_dist es src y (Suc d)"
  shows "emission_inv es src T E Out (fold (bfs_visit src d) ys s)"
  using assms
proof (induction ys arbitrary: s)
  case (Cons y ys)
  have "emission_inv es src T E Out (bfs_visit src d y s)"
    using bfs_visit_emission Cons.prems by simp
  moreover have "\<forall>z\<in>set ys. z \<in> set (bfs_visited (bfs_visit src d y s)) \<or> is_dist es src z (Suc d)"
    using Cons.prems(2) by (simp add: bfs_visit_frame)
  ultimately show ?case using Cons.IH by simp
qed simp

text \<open>The search part: levels of the queue, what is visited and what is closed.\<close>

definition search_inv :: "edges \<Rightarrow> nat \<Rightarrow> string \<Rightarrow> bfs_state \<Rightarrow> bool" where
  "search_inv es m src s \<longleftrightarrow>
     (\<forall>(x, d)\<in>set (bfs_queue s). x \<in> set (bfs_visited s) \<and> is_dist es src x d \<and> d \<le> m) \<and>
     sorted (map snd (bfs_queue s)) \<and>
     (\<forall>(x, d)\<in>set (bfs_queue s). d \<le> Suc (snd (hd (bfs_queue s)))) \<and>
     src \<in> set (bfs_visited s) \<and>
     (\<forall>x\<in>set (bfs_visited s). \<exists>d\<le>m. is_dist es src x d) \<and>
     (bfs_remaining s \<noteq> [] \<longrightarrow>
       (\<forall>x d. x \<in> set (bfs_visited s) \<longrightarrow> x \<notin> fst ` set (bfs_queue s) \<longrightarrow> is_dist es src x d \<longrightarrow> d < m \<longrightarrow>
          set (neighbor_ids es x) \<subseteq> set (bfs_visited s)) \<and>
       (bfs_queue s \<noteq> [] \<longrightarrow> (\<forall>x d. is_dist es src x d \<longrightarrow> d \<le> snd (hd (bfs_queue s)) \<longrightarrow>
          x \<in> set (bfs_visited s))))"


lemma search_inv_pop:
  assumes inv: "search_inv es m src s" and q: "bfs_queue s = (x, d) # q"
    and skip: "m \<le> d \<or> bfs_remaining s = []"
  shows "search_inv es m src (s\<lparr>bfs_queue := q\<rparr>)"
proof -
  have D: "is_dist es src x d" "x \<in> set (bfs_visited s)" "d \<le> m" using inv q by (auto simp: search_inv_def)
  have closed: "set (neighbor_ids es z) \<subseteq> set (bfs_visited s)"
    if "bfs_remaining s \<noteq> []" "z \<in> set (bfs_visited s)" "z \<notin> fst ` set q" "is_dist es src z e" "e < m" for z e
  proof -
    have "z \<noteq> x" using skip that(1,4,5) D(1,3) is_dist_unique by fastforce
    then show ?thesis using inv q that by (fastforce simp: search_inv_def)
  qed
  have level: "z \<in> set (bfs_visited s)"
    if "bfs_remaining s \<noteq> []" "q \<noteq> []" "is_dist es src z e" "e \<le> snd (hd q)" for z e
  proof -
    have "m \<le> d" using skip that(1) by simp
    moreover have "snd (hd q) \<le> m" using inv q that(2) by (cases q) (auto simp: search_inv_def)
    ultimately have "e \<le> d" using that(4) by simp
    then show ?thesis using inv q that(1,3) by (auto simp: search_inv_def)
  qed
  have sorted: "sorted (map snd q)" "\<forall>(y, e)\<in>set q. e \<le> Suc (snd (hd q))"
  proof -
    show s: "sorted (map snd q)" using inv q by (simp add: search_inv_def)
    show "\<forall>(y, e)\<in>set q. e \<le> Suc (snd (hd q))"
    proof (cases q)
      case (Cons p q')
      then have "d \<le> snd p" using inv q by (auto simp: search_inv_def)
      moreover have "\<forall>(y, e)\<in>set q. e \<le> Suc d" using inv q by (auto simp: search_inv_def)
      ultimately show ?thesis using Cons by fastforce
    qed simp
  qed
  show ?thesis
    unfolding search_inv_def
    using inv q sorted closed level by (auto simp: search_inv_def)
qed

lemma search_inv_expand:
  assumes inv: "search_inv es m src s" and q: "bfs_queue s = (x, d) # q"
    and go: "d < m" "bfs_remaining s \<noteq> []"
    and t: "t = fold (bfs_visit src d) (neighbor_ids es x) (s\<lparr>bfs_queue := q\<rparr>)"
  shows "search_inv es m src t"
    and "\<forall>y\<in>set (neighbor_ids es x). y \<in> set (bfs_visited s) \<or> is_dist es src y (Suc d)"
proof -
  have D: "is_dist es src x d" "x \<in> set (bfs_visited s)" using inv q by (auto simp: search_inv_def)
  have level_d: "z \<in> set (bfs_visited s)" if "is_dist es src z e" "e \<le> d" for z e
    using inv q go(2) that by (auto simp: search_inv_def)
  have new_dist: "is_dist es src y (Suc d)"
    if "y \<in> set (neighbor_ids es x)" "y \<notin> set (bfs_visited s)" for y
    using is_dist_step [OF D(1) that(1)] level_d that(2) by blast
  then show "\<forall>y\<in>set (neighbor_ids es x). y \<in> set (bfs_visited s) \<or> is_dist es src y (Suc d)" by blast
  obtain new where new: "bfs_queue t = q @ map (\<lambda>y. (y, Suc d)) new"
    "set new = set (neighbor_ids es x) - set (bfs_visited s)"
    using bfs_visits_frame(2) [of src d "neighbor_ids es x" "s\<lparr>bfs_queue := q\<rparr>"] t by auto
  have vis: "set (bfs_visited t) = set (neighbor_ids es x) \<union> set (bfs_visited s)"
    using bfs_visits_frame(1) [of src d "neighbor_ids es x" "s\<lparr>bfs_queue := q\<rparr>"] t by simp
  have qd: "\<forall>(y, e)\<in>set q. d \<le> e \<and> e \<le> Suc d \<and> y \<in> set (bfs_visited s) \<and> is_dist es src y e \<and> e \<le> m"
    using inv q by (auto simp: search_inv_def)
  have i1: "\<forall>(y, e)\<in>set (bfs_queue t). y \<in> set (bfs_visited t) \<and> is_dist es src y e \<and> e \<le> m"
    using qd new new_dist vis go(1) by auto
  have i2: "sorted (map snd (bfs_queue t))"
  proof -
    have "sorted (map snd q)" using inv q by (simp add: search_inv_def)
    moreover have "sorted (map snd (map (\<lambda>y. (y, Suc d)) new))" by (induction new) auto
    ultimately show ?thesis using new(1) qd by (auto simp: sorted_append comp_def)
  qed
  have i3: "\<forall>(y, e)\<in>set (bfs_queue t). e \<le> Suc (snd (hd (bfs_queue t)))"
  proof (cases q)
    case Nil
    then show ?thesis using new(1) by (cases new) auto
  next
    case (Cons p q')
    then have "d \<le> snd p" using qd by auto
    then show ?thesis using Cons qd new(1) by fastforce
  qed
  have i5: "\<forall>z\<in>set (bfs_visited t). \<exists>e\<le>m. is_dist es src z e"
  proof
    fix z assume z: "z \<in> set (bfs_visited t)"
    show "\<exists>e\<le>m. is_dist es src z e"
    proof (cases "z \<in> set (bfs_visited s)")
      case True
      then show ?thesis using inv unfolding search_inv_def by blast
    next
      case False
      then have "is_dist es src z (Suc d)" using new_dist z vis by blast
      then show ?thesis using go(1) Suc_leI by blast
    qed
  qed
  have closed: "set (neighbor_ids es z) \<subseteq> set (bfs_visited t)"
    if z: "z \<in> set (bfs_visited t)" "z \<notin> fst ` set (bfs_queue t)" "is_dist es src z e" "e < m" for z e
  proof (cases "z = x")
    case True
    then show ?thesis using vis by blast
  next
    case False
    have "z \<notin> set new" "z \<notin> fst ` set q" using z(2) new(1) by force+
    then have "z \<in> set (bfs_visited s)" "z \<notin> fst ` set (bfs_queue s)"
      using z(1) vis new(2) q False by auto
    then have "set (neighbor_ids es z) \<subseteq> set (bfs_visited s)"
      using inv go(2) z(3,4) unfolding search_inv_def by blast
    then show ?thesis using vis by blast
  qed
  have level: "z \<in> set (bfs_visited t)"
    if z: "bfs_queue t \<noteq> []" "is_dist es src z e" "e \<le> snd (hd (bfs_queue t))" for z e
  proof (cases "e \<le> d")
    case True
    then show ?thesis using level_d z(2) vis by blast
  next
    case False
    have hd: "snd (hd (bfs_queue t)) \<le> Suc d"
      using new(1) qd z(1) by (cases q; cases new) auto
    then have e: "e = Suc d" using z(3) False by simp
    obtain w where w: "is_dist es src w d" "z \<in> set (neighbor_ids es w)"
      using is_dist_pred z(2) e by blast
    have notq: "w \<notin> fst ` set (bfs_queue t)"
    proof
      assume "w \<in> fst ` set (bfs_queue t)"
      then obtain k where k: "(w, k) \<in> set (bfs_queue t)" by auto
      then have "k = d" using i1 w(1) is_dist_unique by blast
      moreover have "snd (hd (bfs_queue t)) \<le> k" using i2 k by (cases "bfs_queue t") auto
      ultimately show False using z(3) e by simp
    qed
    have "w \<in> set (bfs_visited t)" using level_d w(1) vis by blast
    then show ?thesis using closed [OF _ notq w(1) go(1)] w(2) by blast
  qed
  have i4: "src \<in> set (bfs_visited t)" using inv vis unfolding search_inv_def by blast
  show "search_inv es m src t"
    unfolding search_inv_def using i1 i2 i3 i4 i5 closed level by (intro conjI impI allI) blast+
qed

lemma bfs_loop_inv:
  assumes "search_inv es m src s" "emission_inv es src T E Out s"
  shows "search_inv es m src (bfs_loop es m src s) \<and> emission_inv es src T E Out (bfs_loop es m src s)
    \<and> bfs_queue (bfs_loop es m src s) = []"
  using assms
proof (induction es m src s rule: bfs_loop.induct)
  case (1 es m src s)
  show ?case
  proof (cases "bfs_queue s")
    case Nil
    then show ?thesis using "1.prems" by (simp add: bfs_loop.simps [of es m src s])
  next
    case (Cons p q)
    obtain x d where p: "p = (x, d)" by (cases p)
    note q = Cons [unfolded p]
    show ?thesis
    proof (cases "m \<le> d \<or> bfs_remaining s = []")
      case True
      have e: "emission_inv es src T E Out (s\<lparr>bfs_queue := q\<rparr>)"
        by (rule emission_inv_frame [OF "1.prems"(2)]) simp_all
      show ?thesis
        using "1.IH"(1) [OF q refl True search_inv_pop [OF "1.prems"(1) q True] e] q True
        by (simp add: bfs_loop.simps [of es m src s])
    next
      case False
      then have go: "d < m" "bfs_remaining s \<noteq> []" by simp_all
      let ?t = "fold (bfs_visit src d) (neighbor_ids es x) (s\<lparr>bfs_queue := q\<rparr>)"
      note ex = search_inv_expand [OF "1.prems"(1) q go refl]
      have "emission_inv es src T E Out ?t"
      proof (rule bfs_visits_emission)
        show "emission_inv es src T E Out (s\<lparr>bfs_queue := q\<rparr>)"
          by (rule emission_inv_frame [OF "1.prems"(2)]) simp_all
      qed (use ex(2) in simp)
      then show ?thesis
        using "1.IH"(2) [OF q refl False ex(1)] q False by (simp add: bfs_loop.simps [of es m src s])
    qed
  qed
qed


lemma bfs_loop_found:
  assumes s: "search_inv es m src s" "emission_inv es src T E Out s" and q: "bfs_queue s = []"
  shows "T \<inter> set (bfs_visited s) = {y \<in> T. \<exists>d\<le>m. is_dist es src y d}"
proof (cases "bfs_remaining s = []")
  case True
  then have "T \<subseteq> set (bfs_visited s)" using s(2) by (auto simp: emission_inv_def)
  then show ?thesis using s(1) by (auto simp: search_inv_def)
next
  case False
  have "x \<in> set (bfs_visited s)" if "is_dist es src x d" "d \<le> m" for x d
    using that
  proof (induction d arbitrary: x)
    case 0
    then show ?case using s(1) by (simp add: search_inv_def)
  next
    case (Suc d)
    then obtain w where w: "is_dist es src w d" "x \<in> set (neighbor_ids es w)"
      using is_dist_pred by blast
    then have "w \<in> set (bfs_visited s)" using Suc by simp
    moreover have "w \<notin> fst ` set (bfs_queue s)" using q by simp
    ultimately have "set (neighbor_ids es w) \<subseteq> set (bfs_visited s)"
      using s(1) False w(1) Suc.prems(2) unfolding search_inv_def by (meson Suc_le_lessD)
    then show ?case using w(2) by blast
  qed
  then show ?thesis using s(1) by (auto simp: search_inv_def)
qed

text \<open>The accumulators between sources: which pairs are out, with which distance.\<close>

definition found_pairs :: "edges \<Rightarrow> nat \<Rightarrow> string set \<Rightarrow> string set \<Rightarrow> pair_distance set" where
  "found_pairs es m T S = {pd (ordered x y) d | x y d. x \<in> S \<and> y \<in> T \<and> x \<noteq> y \<and> d \<le> m \<and> is_dist es x y d}"

lemma bfs_from_found:
  assumes T: "set targets = T" and src: "src \<in> T"
    and out: "set output = found_pairs es m T S" "distinct (map pd_pair output)"
      "pd_pair ` set output = set emitted"
    and r: "bfs_from es m targets src (emitted, output) = (emitted', output')"
  shows "set output' = found_pairs es m T (insert src S)"
    and "distinct (map pd_pair output')" and "pd_pair ` set output' = set emitted'"
proof -
  let ?init = "\<lparr>bfs_queue = [(src, 0)], bfs_visited = [src],
      bfs_remaining = filter (\<lambda>x. x \<noteq> src) targets, bfs_emitted = emitted, bfs_output = output\<rparr>"
  let ?s = "bfs_loop es m src ?init"
  let ?T = "T - {src}"
  have e0: "emission_inv es src ?T (set emitted) (set output) ?init"
    using T out by (auto simp: emission_inv_def)
  have s0: "search_inv es m src ?init"
    by (auto simp: search_inv_def is_dist_self)
  note fin = bfs_loop_inv [OF s0 e0]
  have r': "emitted' = bfs_emitted ?s" "output' = bfs_output ?s"
    using r by (simp_all add: bfs_from_def Let_def)
  note em = conjunct1 [OF conjunct2 [OF fin], unfolded emission_inv_def]
  show "distinct (map pd_pair output')" "pd_pair ` set output' = set emitted'"
    unfolding r' using em by blast+
  have found: "?T \<inter> set (bfs_visited ?s) = {y \<in> ?T. \<exists>d\<le>m. is_dist es src y d}"
    using bfs_loop_found fin by blast
  have out': "set output' = set output \<union> {pd (ordered src y) d | y d.
      y \<in> ?T \<inter> set (bfs_visited ?s) \<and> is_dist es src y d \<and> ordered src y \<notin> set emitted}"
    unfolding r' using em by blast
  show "set output' = found_pairs es m T (insert src S)"
  proof (intro equalityI subsetI)
    fix p assume "p \<in> set output'"
    then consider "p \<in> set output" | y d where "p = pd (ordered src y) d"
        "y \<in> ?T \<inter> set (bfs_visited ?s)" "is_dist es src y d"
      unfolding out' by blast
    then show "p \<in> found_pairs es m T (insert src S)"
    proof cases
      case 1
      then show ?thesis using out(1) by (auto simp: found_pairs_def)
    next
      case 2
      then obtain e where "e \<le> m" "is_dist es src y e" using found by blast
      then have "d \<le> m" using is_dist_unique 2(3) by blast
      then show ?thesis using 2 unfolding found_pairs_def by blast
    qed
  next
    fix p assume "p \<in> found_pairs es m T (insert src S)"
    then obtain x y d where p: "p = pd (ordered x y) d" "x = src \<or> x \<in> S" "y \<in> T" "x \<noteq> y" "d \<le> m"
        "is_dist es x y d"
      unfolding found_pairs_def by blast
    show "p \<in> set output'"
    proof (cases "x \<in> S")
      case True
      then have "p \<in> set output" unfolding out(1) found_pairs_def using p by blast
      then show ?thesis unfolding out' by blast
    next
      case False
      then have x: "x = src" using p(2) by simp
      have y: "y \<in> ?T \<inter> set (bfs_visited ?s)" unfolding found using p x by blast
      show ?thesis
      proof (cases "ordered src y \<in> set emitted")
        case True
        then obtain q where q: "q \<in> set output" "pd_pair q = ordered src y"
          unfolding out(3) [symmetric] by auto
        then obtain x' y' d' where q': "q = pd (ordered x' y') d'" "is_dist es x' y' d'"
          using out(1) unfolding found_pairs_def by blast
        then have "x' = src \<and> y' = y \<or> x' = y \<and> y' = src"
          using q(2) by (auto simp: ordered_def split: if_splits)
        then have "d' = d" using q'(2) p(6) x is_dist_sym is_dist_unique by metis
        then have "p = q" using q' q(2) p(1) x by simp
        then show ?thesis using q(1) unfolding out' by blast
      next
        case False
        then show ?thesis using y p x unfolding out' by blast
      qed
    qed
  qed
qed

lemma bfs_fold_found:
  assumes "set targets = T" "set srcs \<subseteq> T"
    and "set output = found_pairs es m T S" "distinct (map pd_pair output)"
      "pd_pair ` set output = set emitted"
    and "fold (bfs_from es m targets) srcs (emitted, output) = (emitted', output')"
  shows "set output' = found_pairs es m T (S \<union> set srcs) \<and> distinct (map pd_pair output')"
  using assms(2-6)
proof (induction srcs arbitrary: emitted "output" S)
  case (Cons src srcs)
  obtain e1 o1 where r: "bfs_from es m targets src (emitted, output) = (e1, o1)"
    by (metis surj_pair)
  have "src \<in> T" using Cons.prems(1) by simp
  note step = bfs_from_found [OF assms(1) this Cons.prems(2-4) r]
  have "set output' = found_pairs es m T (insert src S \<union> set srcs) \<and> distinct (map pd_pair output')"
    by (rule Cons.IH [OF _ step]) (use Cons.prems(1,5) r in simp_all)
  then show ?case by simp
qed simp

lemma pair_distances_found:
  assumes "0 < m"
  shows "set (pair_distances es ids m) = found_pairs es m (set ids) (set ids)"
    and "distinct (map pd_pair (pair_distances es ids m))"
proof -
  show "set (pair_distances es ids m) = found_pairs es m (set ids) (set ids)"
  proof (cases "length ids < 2")
    case True
    then have "x = y" if "x \<in> set ids" "y \<in> set ids" for x y
      using that by (cases ids; cases "tl ids") auto
    then show ?thesis using True by (auto simp: pair_distances_def found_pairs_def)
  next
    case False
    let ?u = "remdups_adj (sort ids)"
    obtain e o' where f: "fold (bfs_from es m ?u) ?u ([], []) = (e, o')" by (metis surj_pair)
    have "set o' = found_pairs es m (set ids) ({} \<union> set ?u)"
      using bfs_fold_found [of ?u "set ids" ?u "[]" es m "{}" "[]" e o'] f
      by (simp add: found_pairs_def)
    then show ?thesis using False assms f by (simp add: pair_distances_def Let_def)
  qed
  show "distinct (map pd_pair (pair_distances es ids m))"
  proof (cases "length ids < 2")
    case True
    then show ?thesis by (simp add: pair_distances_def)
  next
    case False
    let ?u = "remdups_adj (sort ids)"
    obtain e o' where f: "fold (bfs_from es m ?u) ?u ([], []) = (e, o')" by (metis surj_pair)
    have "distinct (map pd_pair o')"
      using bfs_fold_found [of ?u "set ids" ?u "[]" es m "{}" "[]" e o'] f
      by (simp add: found_pairs_def)
    then show ?thesis using False assms f by (simp add: pair_distances_def Let_def distinct_map)
  qed
qed

text \<open>
  C5: the distances between entities are exactly the shortest-path distances of the undirected
  co-occurrence graph up to the hop limit: a record (a, b, d) is returned iff both entities were
  asked for, a precedes b, and d is at most the limit and the length of a shortest path; no pair is
  returned twice and the records come ordered by distance, then by name.
\<close>

theorem pair_distances_shortest:
  "(\<lparr>pd_a = a, pd_b = b, pd_dist = d\<rparr> \<in> set (pair_distances es ids m) \<longleftrightarrow>
     a \<in> set ids \<and> b \<in> set ids \<and> a < b \<and> d \<le> m \<and> is_dist es a b d)
   \<and> distinct (map (\<lambda>p. (pd_a p, pd_b p)) (pair_distances es ids m))
   \<and> sorted (map (\<lambda>p. (pd_dist p, pd_a p, pd_b p)) (pair_distances es ids m))"
proof (intro conjI)
  have m0: "pair_distances es ids 0 = []" by (simp add: pair_distances_def)
  have less: "(\<exists>x y. ordered x y = (a, b) \<and> x \<in> S \<and> y \<in> S \<and> x \<noteq> y \<and> is_dist es x y d) \<longleftrightarrow>
      a \<in> S \<and> b \<in> S \<and> a < b \<and> is_dist es a b d" for S
    by (auto simp: ordered_def split: if_splits intro: is_dist_sym)
  show "\<lparr>pd_a = a, pd_b = b, pd_dist = d\<rparr> \<in> set (pair_distances es ids m) \<longleftrightarrow>
     a \<in> set ids \<and> b \<in> set ids \<and> a < b \<and> d \<le> m \<and> is_dist es a b d"
  proof (cases "m = 0")
    case True
    then show ?thesis using m0 by auto
  next
    case False
    have eq: "\<lparr>pd_a = a, pd_b = b, pd_dist = d\<rparr> = pd (a, b) d" by (simp add: pd_def)
    have "pd (a, b) d \<in> found_pairs es m (set ids) (set ids) \<longleftrightarrow> d \<le> m \<and>
        (\<exists>x y. ordered x y = (a, b) \<and> x \<in> set ids \<and> y \<in> set ids \<and> x \<noteq> y \<and> is_dist es x y d)"
      unfolding found_pairs_def mem_Collect_eq pd_eq by metis
    then show ?thesis
      using False by (auto simp add: eq pair_distances_found less)
  qed
  show "distinct (map (\<lambda>p. (pd_a p, pd_b p)) (pair_distances es ids m))"
    using pair_distances_found(2) [of m es ids] m0 by (cases "m = 0") (simp_all add: pd_pair_def [abs_def])
  show "sorted (map (\<lambda>p. (pd_dist p, pd_a p, pd_b p)) (pair_distances es ids m))"
    by (simp add: pair_distances_def Let_def)
qed

subsection \<open>Co-occurrence derived from an occurrence index\<close>

record graph_edge =
  ge_subject :: string
  ge_object :: string
  ge_weight :: nat

text \<open>
  The injected index: an optional native query and the two reads. Its implementations are
  adapters; the ones over \<^verbatim>\<open>mem_tree_entity_index\<close> are in theory Entity_Index.
\<close>

record occurrence_index =
  oi_co_occurring :: "string \<Rightarrow> nat \<Rightarrow> graph_edge list option result"
  oi_nodes_for :: "string \<Rightarrow> string list result"
  oi_entities_on :: "string \<Rightarrow> string list result"

definition CO_OCCURRENCE_DEFAULT_LIMIT :: nat where "CO_OCCURRENCE_DEFAULT_LIMIT = 100"

text \<open>
  The portable derivation first collects the pairs (object, shared node); the \<^verbatim>\<open>HashMap\<close> of sets is
  this list read per object.
\<close>

fun collect_shared :: "(string \<Rightarrow> string list result) \<Rightarrow> string \<Rightarrow> string list \<Rightarrow>
    (string \<times> string) list result" where
  "collect_shared entities_on subject [] = Inr []"
| "collect_shared entities_on subject (n # ns) =
     (case entities_on n of
        Inl e \<Rightarrow> Inl (with_context (''entities_on_node('' @ n @ '')'') e)
      | Inr es \<Rightarrow>
         (case collect_shared entities_on subject ns of
            Inl e \<Rightarrow> Inl e
          | Inr rest \<Rightarrow> Inr (map (\<lambda>e. (e, n)) (filter (\<lambda>e. e \<noteq> subject) es) @ rest)))"

definition shared_nodes :: "(string \<times> string) list \<Rightarrow> string \<Rightarrow> string list" where
  "shared_nodes ps x = remdups (map snd (filter (\<lambda>p. fst p = x) ps))"

definition edges_of_shared :: "string \<Rightarrow> (string \<times> string) list \<Rightarrow> graph_edge list" where
  "edges_of_shared subject ps = map (\<lambda>x. \<lparr>ge_subject = subject, ge_object = x,
     ge_weight = min (length (shared_nodes ps x)) u32_max\<rparr>) (remdups (map fst ps))"

definition edge_order :: "graph_edge \<Rightarrow> int \<times> string" where
  "edge_order e = (- int (ge_weight e), ge_object e)"

definition co_occurring_entities ::
    "occurrence_index \<Rightarrow> string \<Rightarrow> nat option \<Rightarrow> graph_edge list result" where
  "co_occurring_entities idx subject limit =
    (let cap = (case limit of Some l \<Rightarrow> l | None \<Rightarrow> CO_OCCURRENCE_DEFAULT_LIMIT) in
     case oi_co_occurring idx subject cap of
       Inl e \<Rightarrow> Inl (with_context (''co_occurring_entities('' @ subject @ '')'') e)
     | Inr (Some es) \<Rightarrow> Inr es
     | Inr None \<Rightarrow>
        (case oi_nodes_for idx subject of
           Inl e \<Rightarrow> Inl (with_context (''nodes_for_entity('' @ subject @ '')'') e)
         | Inr ns \<Rightarrow>
            (case collect_shared (oi_entities_on idx) subject ns of
               Inl e \<Rightarrow> Inl e
             | Inr ps \<Rightarrow> Inr (take cap (sort_key edge_order (edges_of_shared subject ps))))))"

definition neighbors :: "occurrence_index \<Rightarrow> string \<Rightarrow> nat option \<Rightarrow> string list result" where
  "neighbors idx subject limit = (case co_occurring_entities idx subject limit of
     Inl e \<Rightarrow> Inl e | Inr es \<Rightarrow> Inr (map ge_object es))"

text \<open>The buckets of \<^verbatim>\<open>group_by_weight\<close>: objects per weight, in edge order.\<close>

definition group_by_weight :: "graph_edge list \<Rightarrow> nat \<Rightarrow> string list option" where
  "group_by_weight es w = (let os = map ge_object (filter (\<lambda>e. ge_weight e = w) es) in
     if os = [] then None else Some os)"

lemma collect_shared_total:
  assumes "\<And>n. n \<in> set ns \<Longrightarrow> ent n = Inr (f n)"
  shows "\<exists>ps. collect_shared ent x ns = Inr ps \<and>
    set ps = {(e, n). n \<in> set ns \<and> e \<in> set (f n) \<and> e \<noteq> x}"
  using assms
proof (induction ns)
  case (Cons n ns)
  then obtain ps where "collect_shared ent x ns = Inr ps"
    "set ps = {(e, n). n \<in> set ns \<and> e \<in> set (f n) \<and> e \<noteq> x}" by auto
  then show ?case using Cons.prems [of n] by auto
qed simp

lemma set_shared_nodes: "set (shared_nodes ps x) = {n. (x, n) \<in> set ps}"
  by (force simp: shared_nodes_def)

lemma length_shared_nodes: "length (shared_nodes ps x) = card {n. (x, n) \<in> set ps}"
proof -
  have "distinct (shared_nodes ps x)" by (simp add: shared_nodes_def)
  then show ?thesis using distinct_card set_shared_nodes by metis
qed

text \<open>
  Over an index without a native query whose reads succeed, the derivation is the grouped
  self-join: an edge to every other entity that shares a node with the subject, weighted by the
  number of distinct shared nodes (up to the \<^verbatim>\<open>u32\<close> maximum), each object once, heaviest first with
  ties by name, cut at the limit.
\<close>

theorem co_occurrence_is_self_join:
  assumes "oi_co_occurring idx x (case limit of Some l \<Rightarrow> l | None \<Rightarrow> CO_OCCURRENCE_DEFAULT_LIMIT) = Inr None"
    and "oi_nodes_for idx x = Inr ns"
    and "\<And>n. n \<in> set ns \<Longrightarrow> oi_entities_on idx n = Inr (ent n)"
  shows "\<exists>all. co_occurring_entities idx x limit =
      Inr (take (case limit of Some l \<Rightarrow> l | None \<Rightarrow> CO_OCCURRENCE_DEFAULT_LIMIT) all)
    \<and> set all = {\<lparr>ge_subject = x, ge_object = y,
        ge_weight = min (card {n \<in> set ns. y \<in> set (ent n)}) u32_max\<rparr> | y.
        y \<noteq> x \<and> (\<exists>n\<in>set ns. y \<in> set (ent n))}
    \<and> distinct (map ge_object all)
    \<and> sorted (map (\<lambda>e. (- int (ge_weight e), ge_object e)) all)"
proof -
  obtain ps where ps: "collect_shared (oi_entities_on idx) x ns = Inr ps"
    "set ps = {(e, n). n \<in> set ns \<and> e \<in> set (ent n) \<and> e \<noteq> x}"
    using collect_shared_total [of ns "oi_entities_on idx" ent x] assms(3) by blast
  let ?all = "sort_key edge_order (edges_of_shared x ps)"
  have w: "length (shared_nodes ps y) = card {n \<in> set ns. y \<in> set (ent n)}" if "y \<noteq> x" for y
    unfolding length_shared_nodes ps(2) using that by simp
  have fst: "y \<in> fst ` set ps \<longleftrightarrow> y \<noteq> x \<and> (\<exists>n\<in>set ns. y \<in> set (ent n))" for y
    unfolding ps(2) by force
  have set: "set ?all = {\<lparr>ge_subject = x, ge_object = y,
        ge_weight = min (card {n \<in> set ns. y \<in> set (ent n)}) u32_max\<rparr> | y.
        y \<noteq> x \<and> (\<exists>n\<in>set ns. y \<in> set (ent n))}"
  proof -
    have "set ?all = (\<lambda>y. \<lparr>ge_subject = x, ge_object = y,
        ge_weight = min (length (shared_nodes ps y)) u32_max\<rparr>) ` (fst ` set ps)"
      by (simp add: edges_of_shared_def)
    also have "\<dots> = (\<lambda>y. \<lparr>ge_subject = x, ge_object = y,
        ge_weight = min (card {n \<in> set ns. y \<in> set (ent n)}) u32_max\<rparr>) ` (fst ` set ps)"
      by (rule image_cong) (auto simp: fst w)
    also have "\<dots> = {\<lparr>ge_subject = x, ge_object = y,
        ge_weight = min (card {n \<in> set ns. y \<in> set (ent n)}) u32_max\<rparr> | y.
        y \<noteq> x \<and> (\<exists>n\<in>set ns. y \<in> set (ent n))}"
    proof -
      have "fst ` set ps = {y. y \<noteq> x \<and> (\<exists>n\<in>set ns. y \<in> set (ent n))}" using fst by blast
      then show ?thesis by (simp only: image_Collect) 
    qed
    finally show ?thesis .
  qed
  have dist: "distinct (map ge_object ?all)"
  proof -
    have "map ge_object (edges_of_shared x ps) = remdups (map fst ps)"
      by (simp add: edges_of_shared_def comp_def)
    then have "distinct (map ge_object (edges_of_shared x ps))" by simp
    then show ?thesis by (simp add: distinct_map)
  qed
  have sorted: "sorted (map (\<lambda>e. (- int (ge_weight e), ge_object e)) ?all)"
    using sorted_sort_key [of edge_order] by (simp add: edge_order_def [abs_def])
  have "co_occurring_entities idx x limit =
      Inr (take (case limit of Some l \<Rightarrow> l | None \<Rightarrow> CO_OCCURRENCE_DEFAULT_LIMIT) ?all)"
    using assms(1,2) ps(1) by (simp add: co_occurring_entities_def Let_def)
  then show ?thesis using set dist sorted by blast
qed

text \<open>An index of two nodes: alice and bob share both, alice and carol share the second.\<close>

definition sample_index :: occurrence_index where
  "sample_index = \<lparr>oi_co_occurring = (\<lambda>_ _. Inr None),
     oi_nodes_for = (\<lambda>_. Inr [''n1'', ''n2'']),
     oi_entities_on = (\<lambda>n. Inr (if n = ''n1'' then [''alice'', ''bob'']
        else [''carol'', ''alice'', ''bob'']))\<rparr>"

theorem co_occurrence_is_self_join_witness:
  "\<exists>all. co_occurring_entities sample_index ''alice'' (Some 1) = Inr (take 1 all)
    \<and> distinct (map ge_object all) \<and> \<lparr>ge_subject = ''alice'', ge_object = ''bob'', ge_weight = 2\<rparr> \<in> set all"
proof -
  let ?ent = "\<lambda>n. if n = ''n1'' then [''alice'', ''bob''] else [''carol'', ''alice'', ''bob'']"
  obtain all where a: "co_occurring_entities sample_index ''alice'' (Some 1) = Inr (take 1 all)"
    "set all = {\<lparr>ge_subject = ''alice'', ge_object = y,
        ge_weight = min (card {n \<in> set [''n1'', ''n2'']. y \<in> set (?ent n)}) u32_max\<rparr> | y.
        y \<noteq> ''alice'' \<and> (\<exists>n\<in>set [''n1'', ''n2'']. y \<in> set (?ent n))}"
    "distinct (map ge_object all)"
    using co_occurrence_is_self_join [of sample_index "''alice''" "Some 1" "[''n1'', ''n2'']" ?ent]
    by (auto simp: sample_index_def)
  have "{n \<in> set [''n1'', ''n2'']. ''bob'' \<in> set (?ent n)} = {''n1'', ''n2''}" by auto
  then have "\<lparr>ge_subject = ''alice'', ge_object = ''bob'', ge_weight = 2\<rparr> =
      \<lparr>ge_subject = ''alice'', ge_object = ''bob'',
        ge_weight = min (card {n \<in> set [''n1'', ''n2'']. ''bob'' \<in> set (?ent n)}) u32_max\<rparr>"
    by (simp add: u32_max_def)
  moreover have "''bob'' \<noteq> ''alice''" "\<exists>n\<in>set [''n1'', ''n2'']. ''bob'' \<in> set (?ent n)" by simp_all
  ultimately have "\<lparr>ge_subject = ''alice'', ge_object = ''bob'', ge_weight = 2\<rparr> \<in> set all"
    unfolding a(2) by blast
  then show ?thesis using a by blast
qed

subsection \<open>The edge table\<close>

definition edges_ok :: "edges \<Rightarrow> bool" where
  "edges_ok es \<longleftrightarrow> distinct (map (\<lambda>e. (edge_a e, edge_b e)) es) \<and> (\<forall>e\<in>set es. edge_a e < edge_b e)"

interpretation edge_table: keyed_table "\<lambda>e. (edge_a e, edge_b e)" edges_ok
  by unfold_locales (simp add: edges_ok_def)

lemma canonical_pairs_less: "(a, b) \<in> set (canonical_pairs ps) \<Longrightarrow> a < b"
  by (auto simp: canonical_pairs_def btree_set_def List.map_filter_def order_pair_def split: if_splits)

lemma upsert_edge_ok [inv_intros]:
  assumes "edges_ok es" "fst p < snd p"
  shows "edges_ok (upsert_edge ts p es)"
proof -
  have "distinct (map (\<lambda>e. (edge_a e, edge_b e)) (upsert_edge ts p es))"
    unfolding upsert_edge_def
    by (rule distinct_map_upsert) (use assms(1) in \<open>auto simp: edges_ok_def\<close>)
  moreover have "\<forall>e\<in>set (upsert_edge ts p es). edge_a e < edge_b e"
    using assms by (auto simp: upsert_edge_def sql_upsert_def set_sql_update edges_ok_def)
  ultimately show ?thesis by (simp add: edges_ok_def)
qed

lemma upsert_edges_ok [inv_intros]: "edges_ok es \<Longrightarrow> edges_ok (snd (upsert_edges_tx ps ts es))"
proof -
  assume "edges_ok es"
  then have "edges_ok (fold (upsert_edge ts) qs es)" if "\<forall>(a, b)\<in>set qs. a < b" for qs
    using that
  proof (induction qs arbitrary: es)
    case (Cons q qs)
    then have "edges_ok (upsert_edge ts q es)" by (intro upsert_edge_ok) auto
    then show ?case using Cons by simp
  qed simp
  then show ?thesis using canonical_pairs_less by (auto simp: upsert_edges_tx_def)
qed

text \<open>The weight of a pair, zero when the graph has no such edge.\<close>

definition weight_of :: "edges \<Rightarrow> string \<times> string \<Rightarrow> int" where
  "weight_of es p = sum_list (map edge_weight (filter (\<lambda>e. (edge_a e, edge_b e) = p) es))"

lemma weight_of_upsert_edge:
  assumes "edges_ok es"
  shows "weight_of (upsert_edge ts p es) q = weight_of es q + (if q = p then 1 else 0)"
proof (cases "\<exists>e\<in>set es. (edge_a e, edge_b e) = p")
  case False
  then have "sql_count (\<lambda>e. edge_a e = fst p \<and> edge_b e = snd p) es = 0"
    by (auto simp: sql_count_0_iff)
  then show ?thesis by (auto simp: upsert_edge_def sql_upsert_def weight_of_def)
next
  case True
  have "distinct (map (\<lambda>e. (edge_a e, edge_b e)) es)" using assms by (simp add: edges_ok_def)
  then have "weight_of (sql_update (\<lambda>e. edge_a e = fst p \<and> edge_b e = snd p)
       (\<lambda>e. e\<lparr>edge_weight := edge_weight e + 1, edge_updated_ms := ts\<rparr>) es) q =
     weight_of es q + (if q = p \<and> (\<exists>e\<in>set es. (edge_a e, edge_b e) = p) then 1 else 0)"
  proof (induction es)
    case (Cons e es)
    then show ?case by (cases "(edge_a e, edge_b e) = p")
        (auto simp: weight_of_def table_simps image_iff split: if_splits)
  qed (simp add: weight_of_def table_simps)
  moreover have "sql_count (\<lambda>e. edge_a e = fst p \<and> edge_b e = snd p) es \<noteq> 0"
    using True by (auto simp: sql_count_0_iff)
  ultimately show ?thesis using True by (simp add: upsert_edge_def sql_upsert_def)
qed

text \<open>
  Recording a set of entity pairs keeps the edge table canonical (one row per unordered pair,
  ordered endpoints, no self loop) and adds exactly one to the weight of every distinct pair, in
  whichever order the pair was given.
\<close>

theorem upsert_edges_counts:
  assumes "edges_ok es"
  shows "edges_ok (snd (upsert_edges_tx ps ts es)) \<and>
    weight_of (snd (upsert_edges_tx ps ts es)) (a, b) = weight_of es (a, b) +
      (if a < b \<and> ((a, b) \<in> set ps \<or> (b, a) \<in> set ps) then 1 else 0)"
proof -
  have "weight_of (fold (upsert_edge ts) qs es) q = weight_of es q + (if q \<in> set qs then 1 else 0)"
    if "distinct qs" "\<forall>(a, b)\<in>set qs. a < b" for qs q
    using that assms
  proof (induction qs arbitrary: es)
    case (Cons p qs)
    have ok: "edges_ok (upsert_edge ts p es)" using Cons.prems by (intro upsert_edge_ok) auto
    show ?case using Cons.IH [OF _ _ ok] Cons.prems weight_of_upsert_edge [OF Cons.prems(3), of ts p q]
      by auto
  qed simp
  moreover have "distinct (canonical_pairs ps)" by (simp add: canonical_pairs_def btree_set_def)
  moreover have "(a, b) \<in> set (canonical_pairs ps) \<longleftrightarrow> a < b \<and> ((a, b) \<in> set ps \<or> (b, a) \<in> set ps)"
    by (force simp: canonical_pairs_def btree_set_def List.map_filter_def order_pair_def
        image_iff split: if_splits)
  moreover have "\<forall>(a, b)\<in>set (canonical_pairs ps). a < b" using canonical_pairs_less by blast
  ultimately have "weight_of (fold (upsert_edge ts) (canonical_pairs ps) es) (a, b) =
      weight_of es (a, b) + (if a < b \<and> ((a, b) \<in> set ps \<or> (b, a) \<in> set ps) then 1 else 0)"
    by presburger
  then show ?thesis using upsert_edges_ok [OF assms] by (simp add: upsert_edges_tx_def)
qed

theorem upsert_edges_counts_witness:
  "weight_of (snd (upsert_edges_tx [(''b'', ''a'')] 7 [])) (''a'', ''b'') = 1"
proof -
  have "edges_ok []" by (simp add: edges_ok_def)
  moreover have "''a'' < ''b''" by (simp add: less_char_def)
  ultimately show ?thesis using upsert_edges_counts [of "[]" "[(''b'', ''a'')]" 7 "''a''" "''b''"]
    by (simp add: weight_of_def)
qed

end
