(* ===== verification/Entity_Index.thy ===== *)
theory Entity_Index
  imports Complex_Main Graph
begin

section \<open>Score rows and the entity occurrence index (src/memory/score/store.rs, store_query.rs)\<close>

text \<open>
  Two tables: the score rationale of a chunk and the inverted index from entities to nodes, with
  the graph adapter over the latter (\<^verbatim>\<open>src/memory/retrieval/graph_adapter.rs\<close>). Scores are the
  rationals that finite \<^verbatim>\<open>f32\<close> values are: the modelled code only stores, compares and takes maxima
  of them.
\<close>

subsection \<open>Entity kinds\<close>

datatype entity_kind = Email | Url | Handle | Hashtag | Person | Organization | Location | Event
  | Product | Datetime | Technology | Artifact | Quantity | Misc | Topic_Entity

fun entity_kind_as_str :: "entity_kind \<Rightarrow> string" where
  "entity_kind_as_str Email = ''email''"
| "entity_kind_as_str Url = ''url''"
| "entity_kind_as_str Handle = ''handle''"
| "entity_kind_as_str Hashtag = ''hashtag''"
| "entity_kind_as_str Person = ''person''"
| "entity_kind_as_str Organization = ''organization''"
| "entity_kind_as_str Location = ''location''"
| "entity_kind_as_str Event = ''event''"
| "entity_kind_as_str Product = ''product''"
| "entity_kind_as_str Datetime = ''datetime''"
| "entity_kind_as_str Technology = ''technology''"
| "entity_kind_as_str Artifact = ''artifact''"
| "entity_kind_as_str Quantity = ''quantity''"
| "entity_kind_as_str Misc = ''misc''"
| "entity_kind_as_str Topic_Entity = ''topic''"

definition entity_kinds :: "entity_kind list" where
  "entity_kinds = [Email, Url, Handle, Hashtag, Person, Organization, Location, Event, Product,
     Datetime, Technology, Artifact, Quantity, Misc, Topic_Entity]"

definition entity_kind_parse :: "string \<Rightarrow> string + entity_kind" where
  "entity_kind_parse s = (case List.find (\<lambda>k. entity_kind_as_str k = s) entity_kinds of
     Some k \<Rightarrow> Inr k | None \<Rightarrow> Inl (''unknown entity kind: '' @ s))"

fun is_mechanical :: "entity_kind \<Rightarrow> bool" where
  "is_mechanical Email = True"
| "is_mechanical Url = True"
| "is_mechanical Handle = True"
| "is_mechanical Hashtag = True"
| "is_mechanical _ = False"

record canonical_entity =
  ce_canonical_id :: string
  ce_kind :: entity_kind
  ce_surface :: string
  ce_span_start :: nat
  ce_span_end :: nat
  ce_score :: rat

subsection \<open>Score rows\<close>

record score_signals =
  sg_token_count :: rat
  sg_unique_words :: rat
  sg_metadata_weight :: rat
  sg_source_weight :: rat
  sg_interaction :: rat
  sg_entity_density :: rat
  sg_llm_importance :: rat

record score_row =
  sc_chunk_id :: string
  sc_total :: rat
  sc_signals :: score_signals
  sc_dropped :: bool
  sc_reason :: "string option"
  sc_computed_at_ms :: int
  sc_llm_importance_reason :: "string option"

text \<open>The columns of \<^verbatim>\<open>mem_tree_score\<close>: the two \<^verbatim>\<open>llm_importance\<close> fields are not among them.\<close>

record score_db_row =
  sd_chunk_id :: string
  sd_total :: rat
  sd_token_count_signal :: rat
  sd_unique_words_signal :: rat
  sd_metadata_weight :: rat
  sd_source_weight :: rat
  sd_interaction_weight :: rat
  sd_entity_density :: rat
  sd_dropped :: int
  sd_reason :: "string option"
  sd_computed_at_ms :: int

type_synonym scores = "score_db_row list"

definition score_to_db :: "score_row \<Rightarrow> score_db_row" where
  "score_to_db r = (let g = sc_signals r in
    \<lparr>sd_chunk_id = sc_chunk_id r, sd_total = sc_total r,
     sd_token_count_signal = sg_token_count g, sd_unique_words_signal = sg_unique_words g,
     sd_metadata_weight = sg_metadata_weight g, sd_source_weight = sg_source_weight g,
     sd_interaction_weight = sg_interaction g, sd_entity_density = sg_entity_density g,
     sd_dropped = (if sc_dropped r then 1 else 0), sd_reason = sc_reason r,
     sd_computed_at_ms = sc_computed_at_ms r\<rparr>)"

definition score_of_db :: "score_db_row \<Rightarrow> score_row" where
  "score_of_db r =
    \<lparr>sc_chunk_id = sd_chunk_id r, sc_total = sd_total r,
     sc_signals = \<lparr>sg_token_count = sd_token_count_signal r,
       sg_unique_words = sd_unique_words_signal r, sg_metadata_weight = sd_metadata_weight r,
       sg_source_weight = sd_source_weight r, sg_interaction = sd_interaction_weight r,
       sg_entity_density = sd_entity_density r, sg_llm_importance = 0\<rparr>,
     sc_dropped = (sd_dropped r \<noteq> 0), sc_reason = sd_reason r,
     sc_computed_at_ms = sd_computed_at_ms r, sc_llm_importance_reason = None\<rparr>"

definition upsert_score_tx :: "score_row \<Rightarrow> scores \<Rightarrow> scores" where
  "upsert_score_tx row t = sql_replace (\<lambda>r. sd_chunk_id r = sc_chunk_id row) (score_to_db row) t"

definition get_score :: "string \<Rightarrow> scores \<Rightarrow> score_row option" where
  "get_score i t = map_option score_of_db (sql_find (\<lambda>r. sd_chunk_id r = i) t)"

definition SCORE_MAX_FETCH_BATCH :: nat where "SCORE_MAX_FETCH_BATCH = 500"

definition get_scores_batch :: "string list \<Rightarrow> scores \<Rightarrow> (string \<rightharpoonup> rat)" where
  "get_scores_batch ids t = (\<lambda>i. map_option sd_total (fetch_batch sd_chunk_id SCORE_MAX_FETCH_BATCH ids t i))"

definition get_dropped_chunk_ids_batch :: "string list \<Rightarrow> scores \<Rightarrow> string set" where
  "get_dropped_chunk_ids_batch ids t = (if ids = [] then {} else
     (\<Union>w\<in>set (windows SCORE_MAX_FETCH_BATCH ids).
        sd_chunk_id ` {r \<in> set t. sd_dropped r \<noteq> 0 \<and> sd_chunk_id r \<in> set w}))"

definition scores_ok :: "scores \<Rightarrow> bool" where
  "scores_ok t \<longleftrightarrow> distinct (map sd_chunk_id t)"

interpretation scores: keyed_table sd_chunk_id scores_ok
  by unfold_locales (simp add: scores_ok_def)

subsection \<open>The entity index\<close>

record index_row =
  ix_entity_id :: string
  ix_node_id :: string
  ix_node_kind :: string
  ix_entity_kind :: string
  ix_surface :: string
  ix_score :: rat
  ix_timestamp_ms :: int
  ix_tree_id :: "string option"
  ix_is_user :: int

type_synonym entity_index = "index_row list"

definition index_ok :: "entity_index \<Rightarrow> bool" where
  "index_ok t \<longleftrightarrow> distinct (map (\<lambda>r. (ix_entity_id r, ix_node_id r)) t)"

interpretation entity_index: keyed_table "\<lambda>r. (ix_entity_id r, ix_node_id r)" index_ok
  by unfold_locales (simp add: index_ok_def)

definition index_upsert :: "index_row \<Rightarrow> entity_index \<Rightarrow> entity_index" where
  "index_upsert row t =
    sql_replace (\<lambda>r. ix_entity_id r = ix_entity_id row \<and> ix_node_id r = ix_node_id row) row t"

definition entity_is_user :: "canonical_entity \<Rightarrow> bool" where
  "entity_is_user e = False"

definition canonical_id_is_user :: "string \<Rightarrow> bool" where
  "canonical_id_is_user i = False"

definition entity_row :: "string \<Rightarrow> string \<Rightarrow> int \<Rightarrow> string option \<Rightarrow> canonical_entity \<Rightarrow> index_row" where
  "entity_row node_id node_kind ts tree_id e =
    \<lparr>ix_entity_id = ce_canonical_id e, ix_node_id = node_id, ix_node_kind = node_kind,
     ix_entity_kind = entity_kind_as_str (ce_kind e), ix_surface = ce_surface e,
     ix_score = ce_score e, ix_timestamp_ms = ts, ix_tree_id = tree_id,
     ix_is_user = (if entity_is_user e then 1 else 0)\<rparr>"

definition index_entity ::
    "canonical_entity \<Rightarrow> string \<Rightarrow> string \<Rightarrow> int \<Rightarrow> string option \<Rightarrow> entity_index \<Rightarrow> entity_index" where
  "index_entity e node_id node_kind ts tree_id = index_upsert (entity_row node_id node_kind ts tree_id e)"

text \<open>Indexing a batch also records the co-occurrence edges of the batch.\<close>

definition index_entities_tx :: "canonical_entity list \<Rightarrow> string \<Rightarrow> string \<Rightarrow> int \<Rightarrow> string option \<Rightarrow>
    entity_index \<times> edges \<Rightarrow> nat \<times> entity_index \<times> edges" where
  "index_entities_tx entities node_id node_kind ts tree_id = (\<lambda>(ix, es).
    if entities = [] then (0, ix, es)
    else (length entities,
      fold (\<lambda>e. index_upsert (entity_row node_id node_kind ts tree_id e)) entities ix,
      snd (upsert_edges_tx (pairs_from_entities (map ce_canonical_id entities)) ts es)))"

definition summary_entity_row :: "string \<Rightarrow> rat \<Rightarrow> int \<Rightarrow> string option \<Rightarrow> string \<Rightarrow> index_row" where
  "summary_entity_row node_id score ts tree_id canonical_id =
    \<lparr>ix_entity_id = canonical_id, ix_node_id = node_id, ix_node_kind = ''summary'',
     ix_entity_kind = takeWhile (\<lambda>c. c \<noteq> CHR '':'') canonical_id, ix_surface = canonical_id,
     ix_score = score, ix_timestamp_ms = ts, ix_tree_id = tree_id,
     ix_is_user = (if canonical_id_is_user canonical_id then 1 else 0)\<rparr>"

definition index_summary_entity_ids_tx :: "string list \<Rightarrow> string \<Rightarrow> rat \<Rightarrow> int \<Rightarrow> string option \<Rightarrow>
    entity_index \<times> edges \<Rightarrow> nat \<times> entity_index \<times> edges" where
  "index_summary_entity_ids_tx entity_ids node_id score ts tree_id = (\<lambda>(ix, es).
    if entity_ids = [] then (0, ix, es)
    else (length entity_ids,
      fold (\<lambda>i. index_upsert (summary_entity_row node_id score ts tree_id i)) entity_ids ix,
      snd (upsert_edges_tx (pairs_from_entities entity_ids) ts es)))"

definition clear_entity_index_for_node_tx :: "string \<Rightarrow> entity_index \<Rightarrow> nat \<times> entity_index" where
  "clear_entity_index_for_node_tx node_id t =
    (sql_count (\<lambda>r. ix_node_id r = node_id) t, sql_delete (\<lambda>r. ix_node_id r = node_id) t)"

record entity_hit =
  hit_entity_id :: string
  hit_node_id :: string
  hit_node_kind :: string
  hit_entity_kind :: entity_kind
  hit_surface :: string
  hit_score :: rat
  hit_timestamp_ms :: int
  hit_tree_id :: "string option"
  hit_is_user :: bool

definition row_to_hit :: "index_row \<Rightarrow> entity_hit result" where
  "row_to_hit r = (case entity_kind_parse (ix_entity_kind r) of
     Inl m \<Rightarrow> Inl (plain_error m)
   | Inr k \<Rightarrow> Inr \<lparr>hit_entity_id = ix_entity_id r, hit_node_id = ix_node_id r,
       hit_node_kind = ix_node_kind r, hit_entity_kind = k, hit_surface = ix_surface r,
       hit_score = ix_score r, hit_timestamp_ms = ix_timestamp_ms r,
       hit_tree_id = ix_tree_id r, hit_is_user = (ix_is_user r \<noteq> 0)\<rparr>)"

fun collect_rows :: "('r \<Rightarrow> 'a result) \<Rightarrow> 'r list \<Rightarrow> 'a list result" where
  "collect_rows f [] = Inr []"
| "collect_rows f (r # rs) = (case f r of Inl e \<Rightarrow> Inl e
     | Inr x \<Rightarrow> (case collect_rows f rs of Inl e \<Rightarrow> Inl e | Inr xs \<Rightarrow> Inr (x # xs)))"

definition lookup_entity_in_window ::
    "string \<Rightarrow> int option \<Rightarrow> int option \<Rightarrow> nat option \<Rightarrow> entity_index \<Rightarrow> entity_hit list result" where
  "lookup_entity_in_window entity_id since_ms until_ms limit t =
    (let lim = min (case limit of Some l \<Rightarrow> l | None \<Rightarrow> 100) (nat i64_max);
         rows = filter (\<lambda>r. ix_entity_id r = entity_id
           \<and> (case since_ms of None \<Rightarrow> True | Some a \<Rightarrow> a \<le> ix_timestamp_ms r)
           \<and> (case until_ms of None \<Rightarrow> True | Some b \<Rightarrow> ix_timestamp_ms r \<le> b)) t
     in collect_rows row_to_hit (take lim (sort_key (\<lambda>r. - ix_timestamp_ms r) rows)))"

definition lookup_entity :: "string \<Rightarrow> nat option \<Rightarrow> entity_index \<Rightarrow> entity_hit list result" where
  "lookup_entity entity_id limit t = lookup_entity_in_window entity_id None None limit t"

definition list_entity_ids_for_node :: "string \<Rightarrow> entity_index \<Rightarrow> string list" where
  "list_entity_ids_for_node node_id t = remdups (map ix_entity_id
     (sort_key (\<lambda>r. (- ix_score r, - ix_timestamp_ms r, ix_entity_id r))
        (filter (\<lambda>r. ix_node_id r = node_id) t)))"

definition count_entity_index :: "entity_index \<Rightarrow> nat" where
  "count_entity_index t = length t"

definition count_scores :: "scores \<Rightarrow> nat" where
  "count_scores t = length t"

subsection \<open>Laws\<close>

lemma entity_kind_parse_as_str: "entity_kind_parse (entity_kind_as_str k) = Inr k"
  by (cases k) (simp_all add: entity_kind_parse_def entity_kinds_def)

lemma index_upsert_ok [inv_intros]: "index_ok t \<Longrightarrow> index_ok (index_upsert r t)"
  unfolding index_ok_def index_upsert_def by (rule distinct_map_replace) auto

lemma upsert_score_ok [inv_intros]: "scores_ok t \<Longrightarrow> scores_ok (upsert_score_tx r t)"
  unfolding scores_ok_def upsert_score_tx_def
  by (rule distinct_map_replace) (auto simp: score_to_db_def Let_def)

lemma fold_ok:
  assumes "\<And>x t. P t \<Longrightarrow> P (f x t)" "P t"
  shows "P (fold f xs t)"
  using assms(2) by (induction xs arbitrary: t) (auto intro: assms(1))

lemma index_summary_entities_ok [inv_intros]:
  assumes "index_ok ix" "edges_ok es"
    and "index_summary_entity_ids_tx ids n s ts tid (ix, es) = (k, ix', es')"
  shows "index_ok ix'" and "edges_ok es'"
  using assms fold_ok [of index_ok "\<lambda>i. index_upsert (summary_entity_row n s ts tid i)" ix ids]
    index_upsert_ok upsert_edges_ok [OF assms(2)]
  by (auto simp: index_summary_entity_ids_tx_def split: if_splits)

lemma score_db_roundtrip:
  "score_of_db (score_to_db r) = r\<lparr>sc_signals := (sc_signals r)\<lparr>sg_llm_importance := 0\<rparr>,
     sc_llm_importance_reason := None\<rparr>"
  by (simp add: score_of_db_def score_to_db_def Let_def)

lemma get_score_upsert:
  "get_score i (upsert_score_tx r t) =
    (if i = sc_chunk_id r then Some (score_of_db (score_to_db r)) else get_score i t)"
proof (cases "i = sc_chunk_id r")
  case True
  have "sql_find (\<lambda>q. sd_chunk_id q = i) (sql_delete (\<lambda>q. sd_chunk_id q = i) t @ [score_to_db r]) =
      Some (score_to_db r)"
    unfolding sql_find_def sql_delete_def using True
    by (induction t) (auto simp: score_to_db_def Let_def)
  then show ?thesis using True by (simp add: get_score_def upsert_score_tx_def sql_replace_def)
next
  case False
  have "sql_find (\<lambda>q. sd_chunk_id q = i) (sql_delete (\<lambda>q. sd_chunk_id q = sc_chunk_id r) t @ [score_to_db r]) =
      sql_find (\<lambda>q. sd_chunk_id q = i) t"
    unfolding sql_find_def sql_delete_def using False
    by (induction t) (auto simp: score_to_db_def Let_def)
  then show ?thesis using False by (simp add: get_score_def upsert_score_tx_def sql_replace_def)
qed

text \<open>
  A score row reads back as written except for the two admission-time fields that have no
  column, other chunks' rows are untouched, and the batched read agrees with reading the requested
  ids one by one.
\<close>

theorem score_store_roundtrip:
  assumes "scores_ok t"
  shows "get_score i (upsert_score_tx r t) =
      (if i = sc_chunk_id r
       then Some (r\<lparr>sc_signals := (sc_signals r)\<lparr>sg_llm_importance := 0\<rparr>, sc_llm_importance_reason := None\<rparr>)
       else get_score i t)
    \<and> scores_ok (upsert_score_tx r t)
    \<and> get_scores_batch ids t i = (if i \<in> set ids then map_option sc_total (get_score i t) else None)"
proof -
  have "map_option sd_total (sql_find (\<lambda>r. sd_chunk_id r = i) t) = map_option sc_total (get_score i t)"
    by (simp add: get_score_def option.map_comp comp_def score_of_db_def)
  then have "get_scores_batch ids t i = (if i \<in> set ids then map_option sc_total (get_score i t) else None)"
    using scores.fetch_batch [OF assms, of 500 ids i]
    by (simp add: get_scores_batch_def SCORE_MAX_FETCH_BATCH_def)
  then show ?thesis using get_score_upsert score_db_roundtrip upsert_score_ok [OF assms] by auto
qed

definition sample_score :: score_row where
  "sample_score = \<lparr>sc_chunk_id = ''c1'', sc_total = 1 / 2,
     sc_signals = \<lparr>sg_token_count = 1, sg_unique_words = 1, sg_metadata_weight = 0,
       sg_source_weight = 1, sg_interaction = 0, sg_entity_density = 0, sg_llm_importance = 1\<rparr>,
     sc_dropped = False, sc_reason = None, sc_computed_at_ms = 9, sc_llm_importance_reason = Some ''x''\<rparr>"

theorem score_store_roundtrip_witness:
  "map_option sc_total (get_score ''c1'' (upsert_score_tx sample_score [])) = Some (1 / 2)"
proof -
  have "scores_ok []" by (simp add: scores_ok_def)
  then show ?thesis using score_store_roundtrip [of "[]" "''c1''" sample_score "[]"]
    by (simp add: sample_score_def)
qed

end
