(* ===== verification/Tree_Store.thy ===== *)
theory Tree_Store
  imports Tree_Types Entity_Index Queue_Store
begin

section \<open>The summary-tree store (src/memory/tree/store, src/memory/tree/registry.rs)\<close>

text \<open>
  The tables of the chunk database the trees live in, with their primary keys, the unique index on
  (kind, scope) and the foreign keys that \<^verbatim>\<open>PRAGMA foreign_keys = ON\<close> enforces. JSON columns hold
  the lists themselves. The chunk table is reduced to the columns the tree code reads or writes.
\<close>

subsection \<open>Tables\<close>

record buffer_row =
  br_buffer :: buffer
  br_updated_at_ms :: int

record summary_row =
  sr_node :: summary_node
  sr_content_path :: "string option"
  sr_content_sha256 :: "string option"

record summary_embedding =
  se_summary_id :: string
  se_model_signature :: string
  se_vector :: "rat list"
  se_created_at_ms :: int

record chunk_row =
  ck_id :: string
  ck_content :: utext
  ck_token_count :: nat
  ck_tags :: "string list"
  ck_time_range_start :: int
  ck_time_range_end :: int
  ck_parent_summary_id :: "string option"

record tree_db =
  db_trees :: "tree list"
  db_buffers :: "buffer_row list"
  db_summaries :: "summary_row list"
  db_summary_embeddings :: "summary_embedding list"
  db_reembed_skipped :: "(string \<times> string) list"
  db_chunks :: "chunk_row list"
  db_scores :: scores
  db_entity_index :: entity_index
  db_edges :: edges
  db_hotness :: "hotness_counters list"
  db_jobs :: jobs

definition trees_ok :: "tree list \<Rightarrow> bool" where
  "trees_ok t \<longleftrightarrow> distinct (map tr_id t) \<and> distinct (map (\<lambda>r. (tr_kind r, tr_scope r)) t)"

definition buffer_key :: "buffer_row \<Rightarrow> string \<times> nat" where
  "buffer_key r = (bf_tree_id (br_buffer r), bf_level (br_buffer r))"

definition buffers_ok :: "buffer_row list \<Rightarrow> bool" where
  "buffers_ok t \<longleftrightarrow> distinct (map buffer_key t)"

definition summaries_ok :: "summary_row list \<Rightarrow> bool" where
  "summaries_ok t \<longleftrightarrow> distinct (map (\<lambda>r. sn_id (sr_node r)) t)"

definition chunks_ok :: "chunk_row list \<Rightarrow> bool" where
  "chunks_ok t \<longleftrightarrow> distinct (map ck_id t)"

interpretation trees: keyed_table tr_id trees_ok
  by unfold_locales (simp add: trees_ok_def)

interpretation trees_by_scope: keyed_table "\<lambda>r. (tr_kind r, tr_scope r)" trees_ok
  by unfold_locales (simp add: trees_ok_def)

interpretation buffers: keyed_table buffer_key buffers_ok
  by unfold_locales (simp add: buffers_ok_def)

interpretation summaries: keyed_table "\<lambda>r. sn_id (sr_node r)" summaries_ok
  by unfold_locales (simp add: summaries_ok_def)

interpretation chunks: keyed_table ck_id chunks_ok
  by unfold_locales (simp add: chunks_ok_def)

definition tree_exists :: "string \<Rightarrow> tree_db \<Rightarrow> bool" where
  "tree_exists i db \<longleftrightarrow> list_ex (\<lambda>r. tr_id r = i) (db_trees db)"

definition foreign_key_error :: anyhow_error where
  "foreign_key_error = sqlite_error ConstraintViolation 787 ''FOREIGN KEY constraint failed''"

definition no_rows_error :: anyhow_error where
  "no_rows_error = plain_error ''Query returned no rows''"

text \<open>The schema's constraints on the whole database.\<close>

definition db_ok :: "tree_db \<Rightarrow> bool" where
  "db_ok db \<longleftrightarrow> trees_ok (db_trees db) \<and> buffers_ok (db_buffers db) \<and> summaries_ok (db_summaries db) \<and>
     chunks_ok (db_chunks db) \<and> index_ok (db_entity_index db) \<and> edges_ok (db_edges db) \<and>
     jobs_ok (db_jobs db) \<and>
     (\<forall>r\<in>set (db_buffers db). tree_exists (bf_tree_id (br_buffer r)) db) \<and>
     (\<forall>r\<in>set (db_summaries db). tree_exists (sn_tree_id (sr_node r)) db)"

subsection \<open>Buffers (buffers.rs)\<close>

definition get_buffer :: "string \<Rightarrow> nat \<Rightarrow> tree_db \<Rightarrow> buffer" where
  "get_buffer tree_id level db =
    (case sql_find (\<lambda>r. buffer_key r = (tree_id, level)) (db_buffers db) of
       Some r \<Rightarrow> br_buffer r | None \<Rightarrow> buffer_empty tree_id level)"

definition upsert_buffer_tx :: "int \<Rightarrow> buffer \<Rightarrow> (unit, tree_db) tx" where
  "upsert_buffer_tx now_ms buf db =
    (if tree_exists (bf_tree_id buf) db
     then Inr ((), db\<lparr>db_buffers :=
        sql_upsert (\<lambda>r. buffer_key r = (bf_tree_id buf, bf_level buf))
          (\<lambda>r. \<lparr>br_buffer = buf, br_updated_at_ms = now_ms\<rparr>)
          \<lparr>br_buffer = buf, br_updated_at_ms = now_ms\<rparr> (db_buffers db)\<rparr>)
     else Inl (with_context (''Failed to upsert buffer tree_id='' @ bf_tree_id buf @ '' level='' @
        show_nat (bf_level buf)) foreign_key_error))"

definition clear_buffer_tx :: "int \<Rightarrow> string \<Rightarrow> nat \<Rightarrow> (unit, tree_db) tx" where
  "clear_buffer_tx now_ms tree_id level = upsert_buffer_tx now_ms (buffer_empty tree_id level)"

definition consume_snapshot_tx :: "int \<Rightarrow> buffer \<Rightarrow> (unit, tree_db) tx" where
  "consume_snapshot_tx now_ms snapshot db =
    (let current = get_buffer (bf_tree_id snapshot) (bf_level snapshot) db in
     if take (length (bf_item_ids snapshot)) (bf_item_ids current) \<noteq> bf_item_ids snapshot
     then Inl (plain_error (''buffer changed while sealing tree_id='' @ bf_tree_id snapshot @
        '' level='' @ show_nat (bf_level snapshot)))
     else
       let ids = drop (length (bf_item_ids snapshot)) (bf_item_ids current);
           sum = max 0 (sat64 (bf_token_sum current - bf_token_sum snapshot))
       in upsert_buffer_tx now_ms (current\<lparr>bf_item_ids := ids,
            bf_token_sum := (if ids = [] then 0 else sum),
            bf_oldest_at := (if ids = [] then None else bf_oldest_at current)\<rparr>) db)"

definition list_stale_buffers :: "int \<Rightarrow> tree_db \<Rightarrow> buffer list" where
  "list_stale_buffers older_than db =
    sort_key (\<lambda>b. case bf_oldest_at b of Some t \<Rightarrow> t | None \<Rightarrow> 0)
      (filter (\<lambda>b. (case bf_oldest_at b of Some t \<Rightarrow> t \<le> older_than | None \<Rightarrow> False) \<and> bf_level b = 0)
        (map br_buffer (db_buffers db)))"

subsection \<open>Trees (trees.rs)\<close>

definition insert_tree :: "tree \<Rightarrow> (unit, tree_db) tx" where
  "insert_tree t db =
    (if list_ex (\<lambda>r. tr_id r = tr_id t \<or> (tr_kind r = tr_kind t \<and> tr_scope r = tr_scope t)) (db_trees db)
     then Inl (with_context (''Failed to insert tree id='' @ tr_id t)
        (sqlite_error ConstraintViolation 2067 ''UNIQUE constraint failed: mem_tree_trees''))
     else Inr ((), db\<lparr>db_trees := db_trees db @ [t]\<rparr>))"

record tree_cascade_deletion =
  tcd_removed_summaries :: nat
  tcd_content_paths :: "string list"

definition delete_tree_cascade_tx :: "string \<Rightarrow> (tree_cascade_deletion, tree_db) tx" where
  "delete_tree_cascade_tx tree_id db =
    (let mine = (\<lambda>r. sn_tree_id (sr_node r) = tree_id);
         ids = map (\<lambda>r. sn_id (sr_node r)) (filter mine (db_summaries db));
         paths = filter (\<lambda>p. p \<noteq> []) (List.map_filter sr_content_path (filter mine (db_summaries db)))
     in Inr (\<lparr>tcd_removed_summaries = sql_count mine (db_summaries db), tcd_content_paths = paths\<rparr>,
       db\<lparr>db_summary_embeddings := sql_delete (\<lambda>e. se_summary_id e \<in> set ids) (db_summary_embeddings db),
          db_reembed_skipped := sql_delete (\<lambda>e. fst e \<in> set ids) (db_reembed_skipped db),
          db_entity_index := sql_delete (\<lambda>r. ix_tree_id r = Some tree_id) (db_entity_index db),
          db_summaries := sql_delete mine (db_summaries db),
          db_buffers := sql_delete (\<lambda>r. bf_tree_id (br_buffer r) = tree_id) (db_buffers db),
          db_trees := sql_delete (\<lambda>r. tr_id r = tree_id) (db_trees db)\<rparr>))"

definition get_tree_by_scope :: "tree_kind \<Rightarrow> string \<Rightarrow> tree_db \<Rightarrow> tree option" where
  "get_tree_by_scope kind scope db =
    sql_find (\<lambda>r. (tr_kind r, tr_scope r) = (kind, scope)) (db_trees db)"

definition get_tree :: "string \<Rightarrow> tree_db \<Rightarrow> tree option" where
  "get_tree i db = sql_find (\<lambda>r. tr_id r = i) (db_trees db)"

definition TREES_MAX_FETCH_BATCH :: nat where "TREES_MAX_FETCH_BATCH = 500"

definition get_trees_batch :: "string list \<Rightarrow> tree_db \<Rightarrow> (string \<rightharpoonup> tree)" where
  "get_trees_batch ids db = fetch_batch tr_id TREES_MAX_FETCH_BATCH ids (db_trees db)"

definition list_trees_by_kind :: "tree_kind \<Rightarrow> tree_db \<Rightarrow> tree list" where
  "list_trees_by_kind kind db = sort_key tr_created_at (filter (\<lambda>r. tr_kind r = kind) (db_trees db))"

definition update_tree_after_seal_tx :: "string \<Rightarrow> string \<Rightarrow> nat \<Rightarrow> int \<Rightarrow> tree_db \<Rightarrow> tree_db" where
  "update_tree_after_seal_tx tree_id root_id max_level sealed_at db =
    db\<lparr>db_trees := sql_update (\<lambda>r. tr_id r = tree_id)
      (\<lambda>r. r\<lparr>tr_root_id := Some root_id, tr_max_level := max_level,
        tr_last_sealed_at := Some sealed_at\<rparr>) (db_trees db)\<rparr>"

definition refresh_last_sealed_tx :: "string \<Rightarrow> int \<Rightarrow> tree_db \<Rightarrow> tree_db" where
  "refresh_last_sealed_tx tree_id sealed_at db =
    db\<lparr>db_trees := sql_update (\<lambda>r. tr_id r = tree_id)
      (\<lambda>r. r\<lparr>tr_last_sealed_at := Some sealed_at\<rparr>) (db_trees db)\<rparr>"

definition archive_tree :: "string \<Rightarrow> tree_db \<Rightarrow> tree_db" where
  "archive_tree tree_id db =
    db\<lparr>db_trees := sql_update (\<lambda>r. tr_id r = tree_id) (\<lambda>r. r\<lparr>tr_status := Archived\<rparr>) (db_trees db)\<rparr>"

subsection \<open>Summaries (summaries.rs)\<close>

record staged_summary =
  st_content_path :: string
  st_content_sha256 :: string

definition STAGED_PREVIEW_CHARS :: nat where "STAGED_PREVIEW_CHARS = 500"

definition upsert_summary_embedding_conn :: "int \<Rightarrow> string \<Rightarrow> string \<Rightarrow> rat list \<Rightarrow> (unit, tree_db) tx" where
  "upsert_summary_embedding_conn now_ms summary_id model_signature embedding db =
    (let row = \<lparr>se_summary_id = summary_id, se_model_signature = model_signature,
           se_vector = embedding, se_created_at_ms = now_ms\<rparr> in
     if list_ex (\<lambda>r. sn_id (sr_node r) = summary_id) (db_summaries db)
     then Inr ((), db\<lparr>db_summary_embeddings :=
       sql_upsert (\<lambda>e. se_summary_id e = summary_id \<and> se_model_signature e = model_signature)
         (\<lambda>_. row) row (db_summary_embeddings db)\<rparr>)
     else Inl foreign_key_error)"

text \<open>
  \<^verbatim>\<open>INSERT OR IGNORE\<close>: a taken id is ignored, a missing tree is a foreign-key error. The row of a
  staged summary keeps the first 500 characters of the body; the embedding goes to the sidecar.
\<close>

definition summary_row_of :: "summary_node \<Rightarrow> staged_summary option \<Rightarrow> summary_row" where
  "summary_row_of node staged =
    (case staged of
       None \<Rightarrow> \<lparr>sr_node = node\<lparr>sn_embedding := None\<rparr>, sr_content_path = None, sr_content_sha256 = None\<rparr>
     | Some st \<Rightarrow> \<lparr>sr_node = node\<lparr>sn_content := take STAGED_PREVIEW_CHARS (sn_content node), sn_embedding := None\<rparr>,
         sr_content_path = Some (st_content_path st), sr_content_sha256 = Some (st_content_sha256 st)\<rparr>)"

definition insert_staged_summary_tx ::
    "int \<Rightarrow> summary_node \<Rightarrow> staged_summary option \<Rightarrow> string \<Rightarrow> (unit, tree_db) tx" where
  "insert_staged_summary_tx now_ms node staged model_signature db =
    (if list_ex (\<lambda>r. sn_id (sr_node r) = sn_id node) (db_summaries db) \<or> tree_exists (sn_tree_id node) db
     then let db' = (if list_ex (\<lambda>r. sn_id (sr_node r) = sn_id node) (db_summaries db) then db
                     else db\<lparr>db_summaries := db_summaries db @ [summary_row_of node staged]\<rparr>)
          in (case sn_embedding node of
                None \<Rightarrow> Inr ((), db')
              | Some v \<Rightarrow> upsert_summary_embedding_conn now_ms (sn_id node) model_signature v db')
     else Inl (with_context (''Failed to insert summary id='' @ sn_id node) foreign_key_error))"

definition insert_summary_tx :: "int \<Rightarrow> summary_node \<Rightarrow> string \<Rightarrow> (unit, tree_db) tx" where
  "insert_summary_tx now_ms node model_signature =
    insert_staged_summary_tx now_ms node None model_signature"

definition get_summary :: "string \<Rightarrow> tree_db \<Rightarrow> summary_node option" where
  "get_summary i db = map_option sr_node (sql_find (\<lambda>r. sn_id (sr_node r) = i) (db_summaries db))"

definition SUMMARIES_MAX_FETCH_BATCH :: nat where "SUMMARIES_MAX_FETCH_BATCH = 500"

definition get_summaries_batch :: "string list \<Rightarrow> tree_db \<Rightarrow> (string \<rightharpoonup> summary_node)" where
  "get_summaries_batch ids db = (\<lambda>i. map_option sr_node
     (fetch_batch (\<lambda>r. sn_id (sr_node r)) SUMMARIES_MAX_FETCH_BATCH ids (db_summaries db) i))"

definition live_nodes :: "(summary_node \<Rightarrow> bool) \<Rightarrow> tree_db \<Rightarrow> summary_node list" where
  "live_nodes p db = filter (\<lambda>n. \<not> sn_deleted n \<and> p n) (map sr_node (db_summaries db))"

definition list_summaries_at_level :: "string \<Rightarrow> nat \<Rightarrow> tree_db \<Rightarrow> summary_node list" where
  "list_summaries_at_level tree_id level db =
    sort_key sn_sealed_at (live_nodes (\<lambda>n. sn_tree_id n = tree_id \<and> sn_level n = level) db)"

definition list_summaries_in_window :: "string \<Rightarrow> int \<Rightarrow> int \<Rightarrow> tree_db \<Rightarrow> summary_node list" where
  "list_summaries_in_window tree_id since_ms until_ms db =
    sort_key (\<lambda>n. (sn_level n, sn_time_range_start n))
      (live_nodes (\<lambda>n. sn_tree_id n = tree_id \<and> since_ms \<le> sn_time_range_start n \<and>
         sn_time_range_end n \<le> until_ms) db)"

definition list_summaries_overlapping_window :: "string \<Rightarrow> int \<Rightarrow> int \<Rightarrow> tree_db \<Rightarrow> summary_node list" where
  "list_summaries_overlapping_window tree_id since_ms until_ms db =
    sort_key (\<lambda>n. (sn_level n, sn_time_range_start n))
      (live_nodes (\<lambda>n. sn_tree_id n = tree_id \<and> 1 \<le> sn_level n \<and> since_ms \<le> sn_time_range_end n \<and>
         sn_time_range_start n \<le> until_ms) db)"

definition list_children_of_summary :: "string \<Rightarrow> tree_db \<Rightarrow> summary_node list" where
  "list_children_of_summary parent_id db =
    sort_key sn_sealed_at (live_nodes (\<lambda>n. sn_parent_id n = Some parent_id) db)"

definition count_summaries :: "string \<Rightarrow> tree_db \<Rightarrow> nat" where
  "count_summaries tree_id db = length (live_nodes (\<lambda>n. sn_tree_id n = tree_id) db)"

subsection \<open>Hotness counters (hotness.rs)\<close>

definition hotness_get :: "string \<Rightarrow> tree_db \<Rightarrow> hotness_counters option" where
  "hotness_get i db = sql_find (\<lambda>r. hc_entity_id r = i) (db_hotness db)"

definition hotness_get_or_fresh :: "int \<Rightarrow> string \<Rightarrow> tree_db \<Rightarrow> hotness_counters" where
  "hotness_get_or_fresh now_ms i db =
    (case hotness_get i db of Some c \<Rightarrow> c | None \<Rightarrow> hotness_fresh i now_ms)"

definition hotness_upsert :: "hotness_counters \<Rightarrow> tree_db \<Rightarrow> tree_db" where
  "hotness_upsert c db = db\<lparr>db_hotness :=
     sql_upsert (\<lambda>r. hc_entity_id r = hc_entity_id c) (\<lambda>_. c) c (db_hotness db)\<rparr>"

definition distinct_sources_for :: "string \<Rightarrow> tree_db \<Rightarrow> nat" where
  "distinct_sources_for i db = length (remdups (List.map_filter ix_tree_id
     (filter (\<lambda>r. ix_entity_id r = i) (db_entity_index db))))"

definition hotness_count :: "tree_db \<Rightarrow> nat" where
  "hotness_count db = length (db_hotness db)"

subsection \<open>Registry (registry.rs)\<close>

definition new_tree_id :: "tree_kind \<Rightarrow> string \<Rightarrow> string" where
  "new_tree_id kind uuid = tree_kind_as_str kind @ '':'' @ uuid"

definition is_unique_violation :: "anyhow_error \<Rightarrow> bool" where
  "is_unique_violation e = (case err_sqlite e of
     Some (code, _) \<Rightarrow> code = ConstraintViolation
   | None \<Rightarrow> sublist ''UNIQUE constraint failed'' (err_msg e))"

text \<open>
  The lookup, the insert and the second lookup are three separate uses of the connection;
  \<^term>\<open>env1\<close> and \<^term>\<open>env2\<close> are what other callers do to the database between them.
\<close>

definition get_or_create_tree_with_ask ::
    "string \<Rightarrow> int \<Rightarrow> (tree_db \<Rightarrow> tree_db) \<Rightarrow> (tree_db \<Rightarrow> tree_db) \<Rightarrow> tree_kind \<Rightarrow> string \<Rightarrow> utext option \<Rightarrow>
     tree_db \<Rightarrow> tree result \<times> tree_db" where
  "get_or_create_tree_with_ask uuid now_ms env1 env2 kind scope ask db =
    (case get_tree_by_scope kind scope db of
       Some existing \<Rightarrow> (Inr existing, db)
     | None \<Rightarrow>
        (let t = \<lparr>tr_id = new_tree_id kind uuid, tr_kind = kind, tr_scope = scope, tr_root_id = None,
               tr_max_level = 0, tr_status = Active, tr_created_at = now_ms,
               tr_last_sealed_at = None, tr_ask = ask\<rparr>;
             db1 = env1 db
         in case run_tx (insert_tree t) db1 of
              (Inr _, db2) \<Rightarrow> (Inr t, db2)
            | (Inl e, db2) \<Rightarrow>
               (if is_unique_violation e then
                  let db3 = env2 db2 in
                  (case get_tree_by_scope kind scope db3 of
                     Some winner \<Rightarrow> (Inr winner, db3)
                   | None \<Rightarrow> (Inl (plain_error (''UNIQUE violation on insert but no row found on re-query for kind=''
                       @ tree_kind_as_str kind @ '' scope='' @ scope)), db3))
                else (Inl e, db2))))"

definition get_or_create_tree ::
    "string \<Rightarrow> int \<Rightarrow> (tree_db \<Rightarrow> tree_db) \<Rightarrow> (tree_db \<Rightarrow> tree_db) \<Rightarrow> tree_kind \<Rightarrow> string \<Rightarrow>
     tree_db \<Rightarrow> tree result \<times> tree_db" where
  "get_or_create_tree uuid now_ms env1 env2 kind scope =
    get_or_create_tree_with_ask uuid now_ms env1 env2 kind scope None"

text \<open>\<^verbatim>\<open>format!("summary:{ms:013}:L{level}-{rand_tail:08x}")\<close>.\<close>

definition pad_left :: "nat \<Rightarrow> string \<Rightarrow> string" where
  "pad_left n s = replicate (n - length s) (CHR ''0'') @ s"

fun hex_digits :: "nat \<Rightarrow> nat \<Rightarrow> string" where
  "hex_digits 0 v = []"
| "hex_digits (Suc k) v = hex_digits k (v div 16) @ [''0123456789abcdef'' ! (v mod 16)]"

definition new_summary_id :: "nat \<Rightarrow> nat \<Rightarrow> nat \<Rightarrow> string" where
  "new_summary_id ms level rand_tail = ''summary:'' @ pad_left 13 (show_nat ms) @ '':L'' @
     show_nat level @ ''-'' @ hex_digits 8 rand_tail"

subsection \<open>The buffer store as an interface\<close>

text \<open>
  What appends and seals rely on: a buffer is read under its own key, and writing one changes what
  is read at its key only and never fails while its tree exists.
\<close>

locale buffer_store =
  fixes get :: "string \<Rightarrow> nat \<Rightarrow> 's \<Rightarrow> buffer"
    and put :: "int \<Rightarrow> buffer \<Rightarrow> 's \<Rightarrow> (unit \<times> 's) result"
    and present :: "string \<Rightarrow> 's \<Rightarrow> bool"
  assumes get_tree_id: "bf_tree_id (get t l s) = t"
    and get_level: "bf_level (get t l s) = l"
    and put_present: "present (bf_tree_id b) s \<Longrightarrow> \<exists>s'. put n b s = Inr ((), s')"
    and put_absent: "\<not> present (bf_tree_id b) s \<Longrightarrow> \<exists>e. put n b s = Inl e"
    and get_put: "put n b s = Inr (u, s') \<Longrightarrow>
      get t l s' = (if t = bf_tree_id b \<and> l = bf_level b then b else get t l s)"
    and present_put: "put n b s = Inr (u, s') \<Longrightarrow> present t s' = present t s"
begin

lemma put_Inr_present: "put n b s = Inr (u, s') \<Longrightarrow> present (bf_tree_id b) s"
  using put_absent [of b s n] by (cases "present (bf_tree_id b) s") auto

text \<open>Read, change the contents, write back.\<close>

lemma modify:
  assumes "present t s" and "bf_tree_id (f (get t l s)) = t" and "bf_level (f (get t l s)) = l"
  shows "\<exists>s'. put n (f (get t l s)) s = Inr ((), s') \<and> get t l s' = f (get t l s) \<and>
    (\<forall>t' l'. (t', l') \<noteq> (t, l) \<longrightarrow> get t' l' s' = get t' l' s)"
proof -
  obtain s' where "put n (f (get t l s)) s = Inr ((), s')" using put_present assms(1,2) by metis
  then show ?thesis using get_put assms(2,3) by (intro exI [of _ s']) auto
qed

lemma get_unchanged:
  assumes "put n b s = Inr (u, s')" and "(t, l) \<noteq> (bf_tree_id b, bf_level b)"
  shows "get t l s' = get t l s"
  using get_put [OF assms(1), of t l] assms(2) by auto

text \<open>Two writes at different levels, as a seal makes them, do not disturb each other.\<close>

lemma get_two_puts:
  assumes "put n b s = Inr (u, s1)" and "put m c s1 = Inr (v, s2)" and "bf_level b \<noteq> bf_level c"
  shows "get (bf_tree_id b) (bf_level b) s2 = b" and "get (bf_tree_id c) (bf_level c) s2 = c"
    and "(t, l) \<noteq> (bf_tree_id b, bf_level b) \<Longrightarrow> (t, l) \<noteq> (bf_tree_id c, bf_level c) \<Longrightarrow>
      get t l s2 = get t l s"
  using get_put [OF assms(1)] get_put [OF assms(2)] assms(3) by auto

end

lemma buffer_key_of: "buffer_key \<lparr>br_buffer = b, br_updated_at_ms = n\<rparr> = (bf_tree_id b, bf_level b)"
  by (simp add: buffer_key_def)

lemma find_upsert_buffer:
  "sql_find (\<lambda>r. buffer_key r = k) (sql_upsert (\<lambda>r. buffer_key r = buffer_key row) (\<lambda>_. row) row t) =
    (if k = buffer_key row then Some row else sql_find (\<lambda>r. buffer_key r = k) t)"
proof -
  have upd: "sql_find (\<lambda>r. buffer_key r = k) (sql_update (\<lambda>r. buffer_key r = buffer_key row) (\<lambda>_. row) u) =
      (if k = buffer_key row \<and> (\<exists>r\<in>set u. buffer_key r = k) then Some row
       else sql_find (\<lambda>r. buffer_key r = k) u)" for u
    by (induction u) (auto simp: sql_find_def table_simps)
  have app: "sql_find (\<lambda>r. buffer_key r = k) (u @ [row]) =
      (case sql_find (\<lambda>r. buffer_key r = k) u of Some r \<Rightarrow> Some r
       | None \<Rightarrow> if buffer_key row = k then Some row else None)" for u
    by (induction u) (auto simp: sql_find_def)
  show ?thesis
  proof (cases "sql_count (\<lambda>r. buffer_key r = buffer_key row) t = 0")
    case True
    then have "sql_find (\<lambda>r. buffer_key r = k) t = None" if "k = buffer_key row"
      using that by (auto simp: sql_count_0_iff sql_find_def find_None_iff)
    then show ?thesis using True by (auto simp: sql_upsert_def app split: option.splits)
  next
    case False
    then have "\<exists>r\<in>set t. buffer_key r = buffer_key row" by (simp add: sql_count_0_iff)
    then show ?thesis using False by (auto simp: sql_upsert_def upd)
  qed
qed

lemmas find_upsert_buffer_row =
  find_upsert_buffer [of k "\<lparr>br_buffer = b, br_updated_at_ms = n\<rparr>" t, unfolded buffer_key_of] for k b n t

lemma upsert_buffer_Inr_iff:
  "upsert_buffer_tx n b db = Inr (u, db') \<longleftrightarrow> tree_exists (bf_tree_id b) db \<and>
    db' = db\<lparr>db_buffers := sql_upsert (\<lambda>r. buffer_key r = buffer_key \<lparr>br_buffer = b, br_updated_at_ms = n\<rparr>)
      (\<lambda>_. \<lparr>br_buffer = b, br_updated_at_ms = n\<rparr>) \<lparr>br_buffer = b, br_updated_at_ms = n\<rparr> (db_buffers db)\<rparr>"
  by (auto simp: upsert_buffer_tx_def buffer_key_of)

interpretation bufs: buffer_store get_buffer upsert_buffer_tx tree_exists
proof
  fix t l s
  show "bf_tree_id (get_buffer t l s) = t"
    by (auto simp: get_buffer_def buffer_empty_def buffer_key_def split: option.splits dest: sql_find_SomeD)
  show "bf_level (get_buffer t l s) = l"
    by (auto simp: get_buffer_def buffer_empty_def buffer_key_def split: option.splits dest: sql_find_SomeD)
next
  fix b :: buffer and s n assume "tree_exists (bf_tree_id b) s"
  then show "\<exists>s'. upsert_buffer_tx n b s = Inr ((), s')" by (simp add: upsert_buffer_tx_def)
next
  fix b :: buffer and s n assume "\<not> tree_exists (bf_tree_id b) s"
  then show "\<exists>e. upsert_buffer_tx n b s = Inl e" by (simp add: upsert_buffer_tx_def)
next
  fix n u t l s s' and b :: buffer assume "upsert_buffer_tx n b s = Inr (u, s')"
  then show "get_buffer t l s' = (if t = bf_tree_id b \<and> l = bf_level b then b else get_buffer t l s)"
    unfolding upsert_buffer_Inr_iff get_buffer_def
    by (auto simp: find_upsert_buffer_row buffer_key_of)
next
  fix n u t s s' and b :: buffer assume "upsert_buffer_tx n b s = Inr (u, s')"
  then show "tree_exists t s' = tree_exists t s"
    by (auto simp: upsert_buffer_Inr_iff tree_exists_def)
qed

text \<open>Writing a buffer touches the buffer table only.\<close>

lemma upsert_buffer_frame:
  assumes "upsert_buffer_tx n b db = Inr (u, db')"
  shows "\<exists>bs. db' = db\<lparr>db_buffers := bs\<rparr>"
  using assms by (auto simp: upsert_buffer_Inr_iff)

lemma get_tree_frame:
  "db_trees db' = db_trees db \<Longrightarrow> get_tree i db' = get_tree i db"
  by (simp add: get_tree_def)

lemma get_tree_exists: "get_tree i db = Some t \<Longrightarrow> tree_exists i db \<and> tr_id t = i \<and> t \<in> set (db_trees db)"
  by (auto simp: get_tree_def tree_exists_def list_ex_iff dest!: sql_find_SomeD)

subsection \<open>Consuming a snapshot\<close>

lemma consume_snapshot_iff:
  assumes "tree_exists (bf_tree_id snap) db"
  shows "(\<exists>db'. consume_snapshot_tx n snap db = Inr ((), db')) \<longleftrightarrow>
    (\<exists>later. bf_item_ids (get_buffer (bf_tree_id snap) (bf_level snap) db) = bf_item_ids snap @ later)"
proof -
  let ?b = "get_buffer (bf_tree_id snap) (bf_level snap) db"
  have "take (length (bf_item_ids snap)) (bf_item_ids ?b) = bf_item_ids snap \<longleftrightarrow>
      (\<exists>later. bf_item_ids ?b = bf_item_ids snap @ later)"
    by (metis append_eq_conv_conj append_take_drop_id)
  then show ?thesis
    using assms bufs.get_tree_id by (auto simp: consume_snapshot_tx_def Let_def upsert_buffer_tx_def)
qed

lemma consume_snapshot_InrD:
  assumes "consume_snapshot_tx n snap db = Inr (u, db')"
  obtains later where
    "bf_item_ids (get_buffer (bf_tree_id snap) (bf_level snap) db) = bf_item_ids snap @ later"
    "bf_item_ids (get_buffer (bf_tree_id snap) (bf_level snap) db') = later"
    "\<And>t l. (t, l) \<noteq> (bf_tree_id snap, bf_level snap) \<Longrightarrow> get_buffer t l db' = get_buffer t l db"
    "\<exists>bs. db' = db\<lparr>db_buffers := bs\<rparr>"
    "later = [] \<Longrightarrow> get_buffer (bf_tree_id snap) (bf_level snap) db' =
       buffer_empty (bf_tree_id snap) (bf_level snap)"
proof -
  let ?b = "get_buffer (bf_tree_id snap) (bf_level snap) db"
  let ?ids = "drop (length (bf_item_ids snap)) (bf_item_ids ?b)"
  let ?c = "?b\<lparr>bf_item_ids := ?ids,
    bf_token_sum := (if ?ids = [] then 0 else max 0 (sat64 (bf_token_sum ?b - bf_token_sum snap))),
    bf_oldest_at := (if ?ids = [] then None else bf_oldest_at ?b)\<rparr>"
  have take: "take (length (bf_item_ids snap)) (bf_item_ids ?b) = bf_item_ids snap"
    and put: "upsert_buffer_tx n ?c db = Inr (u, db')"
    using assms by (auto simp: consume_snapshot_tx_def Let_def split: if_splits)
  have key: "bf_tree_id ?c = bf_tree_id snap" "bf_level ?c = bf_level snap"
    by (simp_all add: bufs.get_tree_id bufs.get_level)
  have split: "bf_item_ids ?b = bf_item_ids snap @ ?ids" using take by (metis append_take_drop_id)
  have get: "get_buffer t l db' = (if t = bf_tree_id snap \<and> l = bf_level snap then ?c else get_buffer t l db)"
    for t l
    using bufs.get_put [OF put, of t l] unfolding key .
  have items: "bf_item_ids (get_buffer (bf_tree_id snap) (bf_level snap) db') = ?ids"
    using get by simp
  have empty: "get_buffer (bf_tree_id snap) (bf_level snap) db' = buffer_empty (bf_tree_id snap) (bf_level snap)"
    if "?ids = []"
  proof -
    have "get_buffer (bf_tree_id snap) (bf_level snap) db' = ?c" using get by simp
    moreover have "?c = buffer_empty (bf_tree_id snap) (bf_level snap)"
      using that key by (intro buffer.equality) (simp_all add: buffer_empty_def)
    ultimately show ?thesis by simp
  qed
  show ?thesis by (rule that [OF split items _ upsert_buffer_frame [OF put] empty]) (auto simp: get)
qed

text \<open>
  A seal consumes exactly its snapshot. The consumption commits if and only if the live buffer
  still starts with the snapshot's items; then precisely those are removed, items appended while the
  summariser ran stay in their order, an emptied buffer is reset, and no other buffer changes. When
  a competing seal has taken the prefix it fails.
\<close>

theorem consume_exactly_snapshot:
  assumes "tree_exists (bf_tree_id snap) db"
  shows "((\<exists>db'. consume_snapshot_tx n snap db = Inr ((), db')) \<longleftrightarrow>
      (\<exists>later. bf_item_ids (get_buffer (bf_tree_id snap) (bf_level snap) db) = bf_item_ids snap @ later))
    \<and> (\<forall>db' later. consume_snapshot_tx n snap db = Inr ((), db') \<longrightarrow>
        bf_item_ids (get_buffer (bf_tree_id snap) (bf_level snap) db) = bf_item_ids snap @ later \<longrightarrow>
        bf_item_ids (get_buffer (bf_tree_id snap) (bf_level snap) db') = later
        \<and> (later = [] \<longrightarrow> get_buffer (bf_tree_id snap) (bf_level snap) db' =
            buffer_empty (bf_tree_id snap) (bf_level snap))
        \<and> (\<forall>t l. (t, l) \<noteq> (bf_tree_id snap, bf_level snap) \<longrightarrow> get_buffer t l db' = get_buffer t l db))"
  using consume_snapshot_iff [OF assms] by (auto elim!: consume_snapshot_InrD)

definition sample_tree :: tree where
  "sample_tree = \<lparr>tr_id = ''t'', tr_kind = Source, tr_scope = ''chat'', tr_root_id = None,
     tr_max_level = 0, tr_status = Active, tr_created_at = 1, tr_last_sealed_at = None, tr_ask = None\<rparr>"

definition sample_buffer :: "string list \<Rightarrow> buffer" where
  "sample_buffer ids = \<lparr>bf_tree_id = ''t'', bf_level = 0, bf_item_ids = ids,
     bf_token_sum = int (length ids), bf_oldest_at = Some 3\<rparr>"

definition sample_db :: "string list \<Rightarrow> tree_db" where
  "sample_db ids = \<lparr>db_trees = [sample_tree],
     db_buffers = [\<lparr>br_buffer = sample_buffer ids, br_updated_at_ms = 4\<rparr>], db_summaries = [],
     db_summary_embeddings = [], db_reembed_skipped = [], db_chunks = [], db_scores = [],
     db_entity_index = [], db_edges = [], db_hotness = [], db_jobs = []\<rparr>"

lemma sample_db_get: "get_buffer ''t'' 0 (sample_db ids) = sample_buffer ids"
  by (simp add: get_buffer_def sample_db_def sql_find_def buffer_key_def sample_buffer_def)

lemma sample_db_exists: "tree_exists ''t'' (sample_db ids)"
  by (simp add: tree_exists_def sample_db_def sample_tree_def)

theorem consume_exactly_snapshot_witness:
  "\<exists>db'. consume_snapshot_tx 9 (sample_buffer [''a'', ''b'']) (sample_db [''a'', ''b'', ''c'']) = Inr ((), db')
     \<and> bf_item_ids (get_buffer ''t'' 0 db') = [''c'']"
proof -
  have key: "bf_tree_id (sample_buffer ids) = ''t''" "bf_level (sample_buffer ids) = 0"
    "bf_item_ids (sample_buffer ids) = ids" for ids by (simp_all add: sample_buffer_def)
  have ex: "tree_exists (bf_tree_id (sample_buffer [''a'', ''b''])) (sample_db [''a'', ''b'', ''c''])"
    by (simp add: key sample_db_exists)
  have "bf_item_ids (get_buffer ''t'' 0 (sample_db [''a'', ''b'', ''c''])) = [''a'', ''b''] @ [''c'']"
    by (simp add: sample_db_get key)
  then show ?thesis
    using consume_exactly_snapshot [OF ex, of 9] by (auto simp: key)
qed

subsection \<open>Get or create\<close>

lemma get_tree_by_scope_SomeD:
  "get_tree_by_scope kind scope db = Some t \<Longrightarrow>
    t \<in> set (db_trees db) \<and> tr_kind t = kind \<and> tr_scope t = scope"
  by (auto simp: get_tree_by_scope_def dest: sql_find_SomeD)

lemma insert_tree_ok:
  "trees_ok (db_trees db) \<Longrightarrow> insert_tree t db = Inr (u, db') \<Longrightarrow> trees_ok (db_trees db')"
proof -
  assume ok: "trees_ok (db_trees db)" and r: "insert_tree t db = Inr (u, db')"
  then have none: "\<forall>r\<in>set (db_trees db). tr_id r \<noteq> tr_id t \<and> (tr_kind r, tr_scope r) \<noteq> (tr_kind t, tr_scope t)"
    and db': "db_trees db' = db_trees db @ [t]"
    by (auto simp: insert_tree_def list_ex_iff split: if_splits)
  have "tr_id t \<notin> tr_id ` set (db_trees db)"
    "(tr_kind t, tr_scope t) \<notin> (\<lambda>r. (tr_kind r, tr_scope r)) ` set (db_trees db)"
    using none by force+
  then show ?thesis using ok by (simp add: trees_ok_def db')
qed

lemma insert_tree_conflict:
  assumes "r \<in> set (db_trees db)" "tr_kind r = tr_kind t" "tr_scope r = tr_scope t"
  shows "\<exists>e. insert_tree t db = Inl e \<and> is_unique_violation e"
  using assms by (auto simp: insert_tree_def list_ex_iff is_unique_violation_def)

text \<open>
  Getting or creating a tree survives the race between its lookup and its insert. Whatever
  other callers do in between, as long as they keep the unique constraints, do not reuse the drawn
  id and do not delete the tree that won the race, the call returns the one tree of that kind and
  scope that is in the database afterwards; an existing tree is returned as it is, its stored ask
  included.
\<close>

theorem get_or_create_race_safe:
  assumes "trees_ok (db_trees (env1 db))"
    and "\<forall>r\<in>set (db_trees (env1 db)). tr_id r \<noteq> new_tree_id kind uuid"
    and "\<forall>r\<in>set (db_trees (env1 db)). tr_kind r = kind \<and> tr_scope r = scope \<longrightarrow>
      r \<in> set (db_trees (env2 (env1 db)))"
    and "trees_ok (db_trees (env2 (env1 db)))" and "trees_ok (db_trees db)"
  shows "\<exists>t db'. get_or_create_tree_with_ask uuid now env1 env2 kind scope ask db = (Inr t, db')
    \<and> {r \<in> set (db_trees db'). tr_kind r = kind \<and> tr_scope r = scope} = {t}
    \<and> (\<forall>old\<in>set (db_trees db). tr_kind old = kind \<and> tr_scope old = scope \<longrightarrow> t = old \<and> db' = db)"
proof (cases "get_tree_by_scope kind scope db")
  case (Some t)
  note t = get_tree_by_scope_SomeD [OF Some]
  have "r = t" if "r \<in> set (db_trees db)" "tr_kind r = kind" "tr_scope r = scope" for r
    by (rule trees_by_scope.key_eq [OF assms(5) that(1) conjunct1 [OF t]]) (use t that in simp)
  then show ?thesis using Some t by (auto simp: get_or_create_tree_with_ask_def)
next
  case None
  let ?t = "\<lparr>tr_id = new_tree_id kind uuid, tr_kind = kind, tr_scope = scope, tr_root_id = None,
     tr_max_level = 0, tr_status = Active, tr_created_at = now, tr_last_sealed_at = None, tr_ask = ask\<rparr>"
  have no_old: "\<not> (tr_kind r = kind \<and> tr_scope r = scope)" if "r \<in> set (db_trees db)" for r
    using None that by (auto simp: get_tree_by_scope_def dest: sql_find_NoneD)
  show ?thesis
  proof (cases "\<exists>r\<in>set (db_trees (env1 db)). tr_kind r = kind \<and> tr_scope r = scope")
    case False
    then have ins: "insert_tree ?t (env1 db) = Inr ((), (env1 db)\<lparr>db_trees := db_trees (env1 db) @ [?t]\<rparr>)"
      using assms(2) by (auto simp: insert_tree_def list_ex_iff)
    then show ?thesis using None no_old False
      by (auto simp: get_or_create_tree_with_ask_def Let_def)
  next
    case True
    then obtain w where w: "w \<in> set (db_trees (env1 db))" "tr_kind w = kind" "tr_scope w = scope" by blast
    obtain e where ins: "insert_tree ?t (env1 db) = Inl e" "is_unique_violation e"
      using insert_tree_conflict [OF w(1), of ?t] w(2,3) by auto
    have w2: "w \<in> set (db_trees (env2 (env1 db)))" using assms(3) w by blast
    have uniq: "r = w" if "r \<in> set (db_trees (env2 (env1 db)))" "tr_kind r = kind" "tr_scope r = scope" for r
      by (rule trees_by_scope.key_eq [OF assms(4) that(1) w2]) (use w that in simp)
    have "get_tree_by_scope kind scope (env2 (env1 db)) = Some w"
      unfolding get_tree_by_scope_def by (rule sql_find_unique [OF w2]) (use w uniq in auto)
    then have eq: "get_or_create_tree_with_ask uuid now env1 env2 kind scope ask db =
        (Inr w, env2 (env1 db))"
      using None ins by (simp add: get_or_create_tree_with_ask_def Let_def)
    have "{r \<in> set (db_trees (env2 (env1 db))). tr_kind r = kind \<and> tr_scope r = scope} = {w}"
      using uniq w w2 by blast
    moreover have "\<forall>old\<in>set (db_trees db). tr_kind old = kind \<and> tr_scope old = scope \<longrightarrow>
        w = old \<and> env2 (env1 db) = db" using no_old by blast
    ultimately show ?thesis using eq by blast
  qed
qed

text \<open>Another caller inserts the tree first: its row wins, the caller's ask is dropped.\<close>

definition sample_rival :: tree where
  "sample_rival = sample_tree\<lparr>tr_id := ''source:r'', tr_scope := ''mail'', tr_ask := Some [65]\<rparr>"

theorem get_or_create_race_safe_witness:
  "\<exists>db'. get_or_create_tree_with_ask ''u'' 7 (\<lambda>db. db\<lparr>db_trees := db_trees db @ [sample_rival]\<rparr>) (\<lambda>db. db)
     Source ''mail'' (Some [66]) (sample_db []) = (Inr sample_rival, db')"
proof -
  let ?env = "\<lambda>db. db\<lparr>db_trees := db_trees db @ [sample_rival]\<rparr>"
  have trees: "db_trees (?env (sample_db [])) = [sample_tree, sample_rival]"
    by (simp add: sample_db_def)
  have ok: "trees_ok [sample_tree, sample_rival]" "trees_ok (db_trees (sample_db []))"
    by (simp_all add: trees_ok_def sample_tree_def sample_rival_def sample_db_def)
  have fresh: "\<forall>r\<in>set (db_trees (?env (sample_db []))). tr_id r \<noteq> new_tree_id Source ''u''"
    unfolding trees by (simp add: sample_tree_def sample_rival_def new_tree_id_def)
  obtain t db' where r: "get_or_create_tree_with_ask ''u'' 7 ?env (\<lambda>db. db) Source ''mail'' (Some [66])
      (sample_db []) = (Inr t, db')"
    "{r \<in> set (db_trees db'). tr_kind r = Source \<and> tr_scope r = ''mail''} = {t}"
    using get_or_create_race_safe [of ?env "sample_db []" Source "''u''" "''mail''" "\<lambda>db. db" 7 "Some [66]"]
      fresh ok trees by auto
  have "t = sample_rival"
    using r(1) by (simp add: get_or_create_tree_with_ask_def get_tree_by_scope_def sql_find_def
        sample_db_def sample_tree_def sample_rival_def run_tx_def insert_tree_def Let_def
        is_unique_violation_def)
  then show ?thesis using r(1) by blast
qed

end
