(* ===== verification/Summarise.thy ===== *)
theory Summarise
  imports Tree_Types Graph
begin

section \<open>Folding inputs into one summary (src/memory/tree/summarise.rs, label_resolver.rs)\<close>

text \<open>
  The token estimator \<^verbatim>\<open>approx_token_count\<close> lives in another crate: it is the parameter \<^term>\<open>tok\<close>.
  What the code relies on is its documentation, four characters to a token, as the hypothesis
  \<^verbatim>\<open>four_chars_per_token\<close>. Model calls are parameters too; what is modelled is everything around
  them.
\<close>

subsection \<open>Text\<close>

text \<open>The code points with the Unicode property \<^verbatim>\<open>White_Space\<close>, which \<^verbatim>\<open>str::trim\<close> strips.\<close>

definition is_white :: "nat \<Rightarrow> bool" where
  "is_white c \<longleftrightarrow> 9 \<le> c \<and> c \<le> 13 \<or> c = 32 \<or> c = 133 \<or> c = 160 \<or> c = 5760 \<or> 8192 \<le> c \<and> c \<le> 8202 \<or>
     c = 8232 \<or> c = 8233 \<or> c = 8239 \<or> c = 8287 \<or> c = 12288"

definition trim :: "utext \<Rightarrow> utext" where
  "trim t = rev (dropWhile is_white (rev (dropWhile is_white t)))"

fun join :: "utext \<Rightarrow> utext list \<Rightarrow> utext" where
  "join sep [] = []"
| "join sep [t] = t"
| "join sep (t # u # ts) = t @ sep @ join sep (u # ts)"

definition blank_line :: utext where "blank_line = [10, 10]"

subsection \<open>Inputs, context, output\<close>

record summary_input =
  si_id :: string
  si_content :: utext
  si_token_count :: nat
  si_entities :: "string list"
  si_topics :: "string list"
  si_time_range_start :: int
  si_time_range_end :: int
  si_score :: rat

record summary_context =
  sx_tree_id :: string
  sx_tree_kind :: tree_kind
  sx_target_level :: nat
  sx_token_budget :: nat
  sx_input_token_budget :: nat
  sx_overhead_reserve_tokens :: nat
  sx_ask :: "utext option"

record summary_output =
  so_content :: utext
  so_token_count :: nat
  so_entities :: "string list"
  so_topics :: "string list"

record prepared_summary_prompt =
  pp_system :: utext
  pp_user :: utext
  pp_effective_budget :: nat

definition clamp_to_budget :: "(utext \<Rightarrow> nat) \<Rightarrow> utext \<Rightarrow> nat \<Rightarrow> utext \<times> nat" where
  "clamp_to_budget tok t budget =
    (let initial = tok t in
     if initial \<le> budget then (t, initial)
     else let truncated = take (budget * 4) t in (truncated, tok truncated))"

text \<open>\<^verbatim>\<open>sort_by\<close> with descending scores is stable: equal scores keep the input order.\<close>

definition by_score :: "summary_input list \<Rightarrow> summary_input list" where
  "by_score inputs = sort_key (\<lambda>i. - si_score i) inputs"

definition PROVENANCE_PREFIX :: utext where "PROVENANCE_PREFIX = [8212, 32]"

definition fallback_parts :: "summary_input list \<Rightarrow> utext list" where
  "fallback_parts inputs = map (\<lambda>t. PROVENANCE_PREFIX @ t)
     (filter (\<lambda>t. t \<noteq> []) (map (\<lambda>i. trim (si_content i)) (by_score inputs)))"

definition fallback_summary :: "(utext \<Rightarrow> nat) \<Rightarrow> summary_input list \<Rightarrow> nat \<Rightarrow> summary_output" where
  "fallback_summary tok inputs budget =
    (case clamp_to_budget tok (join blank_line (fallback_parts inputs)) budget of
       (content, token_count) \<Rightarrow>
         \<lparr>so_content = content, so_token_count = token_count, so_entities = [], so_topics = []\<rparr>)"

definition finish_provider_summary :: "(utext \<Rightarrow> nat) \<Rightarrow> utext \<Rightarrow> nat \<Rightarrow> summary_output" where
  "finish_provider_summary tok t budget =
    (case clamp_to_budget tok (trim t) budget of
       (content, token_count) \<Rightarrow>
         \<lparr>so_content = content, so_token_count = token_count, so_entities = [], so_topics = []\<rparr>)"

text \<open>\<^verbatim>\<open>u32::saturating_sub\<close> is truncated subtraction; the prompt strings are written out.\<close>

definition per_input_cap :: "summary_input list \<Rightarrow> summary_context \<Rightarrow> nat" where
  "per_input_cap inputs ctx = (if inputs = [] then 0
     else (sx_input_token_budget ctx - sx_token_budget ctx - sx_overhead_reserve_tokens ctx)
       div length inputs)"

definition prompt_part :: "(utext \<Rightarrow> nat) \<Rightarrow> nat \<Rightarrow> summary_input \<Rightarrow> utext option" where
  "prompt_part tok cap i = (let content = trim (si_content i) in
     if content = [] then None
     else Some (utext_of ''['' @ utext_of (si_id i) @ utext_of '']'' @ [10] @
       fst (clamp_to_budget tok content cap)))"

definition flavour_system :: "utext \<Rightarrow> nat \<Rightarrow> utext \<Rightarrow> utext" where
  "flavour_system ask budget language =
    utext_of ''You are distilling evidence into a profile that answers this ask:'' @ [10] @ ask @
    [10, 10] @
    utext_of ''The inputs below are evidence (and, where present, the current profile). '' @
    utext_of ''Merge them into one updated profile.'' @ [10] @
    utext_of ''Keep it prescriptive and concrete '' @ [8212] @
    utext_of '' describe the patterns, not the individual items.'' @ [10] @
    utext_of ''Aim for ~'' @ utext_of (show_nat budget) @ utext_of '' tokens or fewer.'' @ [10] @
    utext_of ''Output only the profile prose '' @ [8212] @
    utext_of '' no preamble, no JSON, no markdown headings.'' @ language"

definition generic_system :: "nat \<Rightarrow> utext \<Rightarrow> utext" where
  "generic_system budget language =
    utext_of ''You are folding multiple notes into one compact summary.'' @ [10] @
    utext_of ''Aim for ~'' @ utext_of (show_nat budget) @
    utext_of '' tokens or fewer. Capture key facts, decisions, and entities.'' @ [10] @
    utext_of ''Output only the summary prose '' @ [8212] @
    utext_of '' no preamble, no JSON, no markdown headings.'' @ language"

definition language_clause :: "utext option \<Rightarrow> utext" where
  "language_clause output_language = (case output_language of
     None \<Rightarrow> []
   | Some l \<Rightarrow> (if trim l = [] then []
       else [10] @ utext_of ''Write the summary in '' @ l @ utext_of ''.''))"

definition prepare_summary_prompt :: "(utext \<Rightarrow> nat) \<Rightarrow> summary_input list \<Rightarrow> summary_context \<Rightarrow>
    utext option \<Rightarrow> prepared_summary_prompt option" where
  "prepare_summary_prompt tok inputs ctx output_language =
    (let effective_budget = sx_token_budget ctx;
         user = join blank_line
           (List.map_filter (prompt_part tok (per_input_cap inputs ctx)) (by_score inputs))
     in if trim user = [] then None
        else let language = language_clause output_language;
                 ask = (case sx_ask ctx of None \<Rightarrow> [] | Some a \<Rightarrow> trim a);
                 system = (if ask \<noteq> [] then flavour_system ask effective_budget language
                           else generic_system effective_budget language)
             in Some \<lparr>pp_system = system, pp_user = user, pp_effective_budget = effective_budget\<rparr>)"

subsection \<open>Labels of a sealed node\<close>

text \<open>The extractor is a parameter: its canonical entity ids and its topic labels for a text.\<close>

datatype label_strategy =
    Extract_From_Content "utext \<Rightarrow> (string list \<times> string list) result"
  | Union_From_Children
  | Empty_Labels

definition resolve_labels ::
    "label_strategy \<Rightarrow> summary_input list \<Rightarrow> utext \<Rightarrow> (string list \<times> string list) result" where
  "resolve_labels strategy inputs content =
    (case strategy of
       Extract_From_Content extract \<Rightarrow>
         (case extract content of
            Inl e \<Rightarrow> Inl (with_context ''seal-time extractor failed'' e)
          | Inr (entities, topics) \<Rightarrow> Inr (btree_set entities, btree_set topics))
     | Union_From_Children \<Rightarrow>
         Inr (btree_set (concat (map si_entities inputs)), btree_set (concat (map si_topics inputs)))
     | Empty_Labels \<Rightarrow> Inr ([], []))"

subsection \<open>Laws\<close>

definition four_chars_per_token :: "(utext \<Rightarrow> nat) \<Rightarrow> bool" where
  "four_chars_per_token tok \<longleftrightarrow> (\<forall>t b. length t \<le> 4 * b \<longrightarrow> tok t \<le> b)"

lemma clamp_to_budget_prefix:
  "clamp_to_budget tok t b = (c, n) \<Longrightarrow> (\<exists>k. c = take k t) \<and> n = tok c \<and> (tok t \<le> b \<longrightarrow> c = t)"
  by (auto simp: clamp_to_budget_def Let_def split: if_splits intro: exI [of _ "length t"])

lemma clamp_to_budget_bound:
  "four_chars_per_token tok \<Longrightarrow> clamp_to_budget tok t b = (c, n) \<Longrightarrow> n \<le> b"
  by (auto simp: clamp_to_budget_def four_chars_per_token_def Let_def split: if_splits)

lemma sorted_by_score: "sorted (map (\<lambda>i. - si_score i) (by_score inputs))"
  by (simp add: by_score_def)

lemma set_by_score [simp]: "set (by_score inputs) = set inputs"
  by (simp add: by_score_def)

lemma length_by_score [simp]: "length (by_score inputs) = length inputs"
  by (simp add: by_score_def)

lemma by_score_stable: "filter (\<lambda>i. si_score i = s) (by_score inputs) = filter (\<lambda>i. si_score i = s) inputs"
  using filter_sort [of _ "\<lambda>i. - si_score i" inputs] sort_key_stable [of "\<lambda>i. - si_score i" "- s" inputs]
  by (simp add: by_score_def)

text \<open>
  C6: the deterministic fold is the non-blank inputs, highest score first with ties in input order, each trimmed and
  marked with a dash, joined by blank lines; over the budget it is the first four characters per token of
  that text. It reports the estimate of the very text it returns, and, for an estimator that reads at most one token
  per four characters, keeps to the budget.
\<close>

theorem fallback_summary_in_budget:
  assumes "four_chars_per_token tok"
  shows "so_token_count (fallback_summary tok inputs budget) \<le> budget
    \<and> so_token_count (fallback_summary tok inputs budget) = tok (so_content (fallback_summary tok inputs budget))
    \<and> (\<exists>ordered joined. sorted (map (\<lambda>i. - si_score i) ordered)
        \<and> (\<forall>s. filter (\<lambda>i. si_score i = s) ordered = filter (\<lambda>i. si_score i = s) inputs)
        \<and> joined = join blank_line (map (\<lambda>i. PROVENANCE_PREFIX @ trim (si_content i))
            (filter (\<lambda>i. trim (si_content i) \<noteq> []) ordered))
        \<and> so_content (fallback_summary tok inputs budget) =
            (if tok joined \<le> budget then joined else take (budget * 4) joined))"
proof -
  obtain c n where c: "clamp_to_budget tok (join blank_line (fallback_parts inputs)) budget = (c, n)"
    by (metis surj_pair)
  then have f: "fallback_summary tok inputs budget =
      \<lparr>so_content = c, so_token_count = n, so_entities = [], so_topics = []\<rparr>"
    by (simp add: fallback_summary_def)
  have parts: "fallback_parts inputs = map (\<lambda>i. PROVENANCE_PREFIX @ trim (si_content i))
      (filter (\<lambda>i. trim (si_content i) \<noteq> []) (by_score inputs))"
    by (simp add: fallback_parts_def filter_map o_def)
  have whole: "c = (if tok (join blank_line (fallback_parts inputs)) \<le> budget then join blank_line (fallback_parts inputs)
      else take (budget * 4) (join blank_line (fallback_parts inputs)))"
    using c by (auto simp: clamp_to_budget_def Let_def split: if_splits)
  have "\<exists>ordered joined. sorted (map (\<lambda>i. - si_score i) ordered)
      \<and> (\<forall>s. filter (\<lambda>i. si_score i = s) ordered = filter (\<lambda>i. si_score i = s) inputs)
      \<and> joined = join blank_line (map (\<lambda>i. PROVENANCE_PREFIX @ trim (si_content i)) (filter (\<lambda>i. trim (si_content i) \<noteq> []) ordered))
      \<and> c = (if tok joined \<le> budget then joined else take (budget * 4) joined)"
    using whole sorted_by_score by_score_stable unfolding parts by blast
  then show ?thesis
    using clamp_to_budget_prefix [OF c] clamp_to_budget_bound [OF assms c] by (simp add: f)
qed

text \<open>The estimator of the samples: characters divided by four, rounded up.\<close>

definition sample_tok :: "utext \<Rightarrow> nat" where
  "sample_tok t = (length t + 3) div 4"

lemma sample_tok: "four_chars_per_token sample_tok"
  by (auto simp: four_chars_per_token_def sample_tok_def)

definition sample_input :: "string \<Rightarrow> rat \<Rightarrow> string \<Rightarrow> summary_input" where
  "sample_input i s t = \<lparr>si_id = i, si_content = utext_of t, si_token_count = 1, si_entities = [],
     si_topics = [], si_time_range_start = 5, si_time_range_end = 6, si_score = s\<rparr>"

theorem fallback_summary_in_budget_witness:
  "so_token_count (fallback_summary sample_tok [sample_input ''c1'' 1 ''low'', sample_input ''c2'' 2 ''high and long''] 2) \<le> 2
    \<and> so_token_count (fallback_summary sample_tok [sample_input ''c1'' 1 ''low'', sample_input ''c2'' 2 ''high and long''] 2) =
        sample_tok (so_content (fallback_summary sample_tok [sample_input ''c1'' 1 ''low'', sample_input ''c2'' 2 ''high and long''] 2))
    \<and> (\<exists>ordered joined. sorted (map (\<lambda>i. - si_score i) ordered)
        \<and> (\<forall>s. filter (\<lambda>i. si_score i = s) ordered = filter (\<lambda>i. si_score i = s) [sample_input ''c1'' 1 ''low'', sample_input ''c2'' 2 ''high and long''])
        \<and> joined = join blank_line (map (\<lambda>i. PROVENANCE_PREFIX @ trim (si_content i))
            (filter (\<lambda>i. trim (si_content i) \<noteq> []) ordered))
        \<and> so_content (fallback_summary sample_tok [sample_input ''c1'' 1 ''low'', sample_input ''c2'' 2 ''high and long''] 2) =
            (if sample_tok joined \<le> 2 then joined else take (2 * 4) joined))"
  by (rule fallback_summary_in_budget [OF sample_tok])

lemma trim_eq_Nil: "trim t = [] \<longleftrightarrow> (\<forall>c\<in>set t. is_white c)"
  by (simp add: trim_def) (metis dropWhile_eq_Nil_conv set_rev rev_is_Nil_conv dropWhile_idem
      append_Nil hd_in_set hd_dropWhile in_set_conv_decomp)

lemma in_join: "t \<in> set ts \<Longrightarrow> c \<in> set t \<Longrightarrow> c \<in> set (join sep ts)"
  by (induction sep ts rule: join.induct) auto

lemma prompt_blank_iff:
  "trim (join blank_line (List.map_filter (prompt_part tok cap) xs)) = [] \<longleftrightarrow>
    (\<forall>i\<in>set xs. trim (si_content i) = [])"
proof (cases "\<forall>i\<in>set xs. trim (si_content i) = []")
  case True
  then have "List.map_filter (prompt_part tok cap) xs = []"
    by (induction xs) (auto simp: map_filter_simps prompt_part_def Let_def)
  then show ?thesis using True by (simp add: trim_def)
next
  case False
  then obtain i where i: "i \<in> set xs" "trim (si_content i) \<noteq> []" by blast
  let ?p = "utext_of ''['' @ utext_of (si_id i) @ utext_of '']'' @ [10] @
      fst (clamp_to_budget tok (trim (si_content i)) cap)"
  have "?p \<in> set (List.map_filter (prompt_part tok cap) xs)"
    using i by (force simp: List.map_filter_def prompt_part_def Let_def)
  moreover have "91 \<in> set ?p" by (simp add: utext_of_def)
  ultimately have "91 \<in> set (join blank_line (List.map_filter (prompt_part tok cap) xs))"
    by (rule in_join)
  moreover have "\<not> is_white 91" by (simp add: is_white_def)
  ultimately show ?thesis using False trim_eq_Nil by metis
qed

lemma length_map_filter_le: "length (List.map_filter f xs) \<le> length xs"
  by (induction xs) (auto simp: map_filter_simps split: option.splits)

text \<open>The clamped bodies of the prompt with their token counts, in prompt order.\<close>

definition prompt_bodies :: "(utext \<Rightarrow> nat) \<Rightarrow> summary_input list \<Rightarrow> summary_context \<Rightarrow> (utext \<times> nat) list" where
  "prompt_bodies tok inputs ctx = map (\<lambda>i. clamp_to_budget tok (trim (si_content i)) (per_input_cap inputs ctx))
     (filter (\<lambda>i. trim (si_content i) \<noteq> []) (by_score inputs))"

text \<open>
  The provider prompt leaves room for the answer: whatever the number of inputs, the clamped
  bodies together with the output budget and the overhead reserve fit the input budget of a
  validated configuration, no input is shortened unless it exceeds its equal share, and the prompt
  is refused exactly when every input is blank.
\<close>

theorem prompt_fits_context:
  assumes "four_chars_per_token tok" and "tree_config_validate c = Inr ()"
    and "sx_token_budget ctx = tc_output_token_budget c"
    and "sx_input_token_budget ctx = tc_input_token_budget c"
    and "sx_overhead_reserve_tokens ctx = tc_summary_overhead_reserve_tokens c"
  shows "sum_list (map snd (prompt_bodies tok inputs ctx)) + sx_token_budget ctx
      + sx_overhead_reserve_tokens ctx \<le> sx_input_token_budget ctx
    \<and> (case prepare_summary_prompt tok inputs ctx lang of
         None \<Rightarrow> (\<forall>i\<in>set inputs. trim (si_content i) = [])
       | Some p \<Rightarrow> pp_user p = join blank_line
             (map (\<lambda>(i, b). utext_of ''['' @ utext_of (si_id i) @ utext_of '']'' @ [10] @ fst b)
               (zip (filter (\<lambda>i. trim (si_content i) \<noteq> []) (by_score inputs)) (prompt_bodies tok inputs ctx)))
           \<and> prompt_bodies tok inputs ctx \<noteq> [] \<and> pp_effective_budget p = sx_token_budget ctx)"
proof -
  let ?cap = "per_input_cap inputs ctx"
  let ?f = "filter (\<lambda>i. trim (si_content i) \<noteq> []) (by_score inputs)"
  have room: "sx_token_budget ctx + sx_overhead_reserve_tokens ctx < sx_input_token_budget ctx"
    using tree_config_validD [OF assms(2)] assms(3-5) by simp
  have "sum_list (map (\<lambda>i. snd (clamp_to_budget tok (trim (si_content i)) ?cap)) xs) \<le> length xs * ?cap" for xs
  proof (induction xs)
    case (Cons i xs)
    have "snd (clamp_to_budget tok (trim (si_content i)) ?cap) \<le> ?cap"
      using clamp_to_budget_bound [OF assms(1)] by (metis prod.collapse)
    then show ?case using Cons by simp
  qed simp
  from this [of ?f] have "sum_list (map snd (prompt_bodies tok inputs ctx)) \<le> length ?f * ?cap"
    by (simp add: prompt_bodies_def comp_def)
  also have "\<dots> \<le> length inputs * ?cap"
    using length_filter_le [of "\<lambda>i. trim (si_content i) \<noteq> []" "by_score inputs"]
    by (simp add: mult_le_mono1)
  also have "\<dots> \<le> sx_input_token_budget ctx - sx_token_budget ctx - sx_overhead_reserve_tokens ctx"
    by (simp add: per_input_cap_def)
  finally have fits: "sum_list (map snd (prompt_bodies tok inputs ctx)) + sx_token_budget ctx
      + sx_overhead_reserve_tokens ctx \<le> sx_input_token_budget ctx" using room by simp
  have parts: "List.map_filter (prompt_part tok ?cap) xs =
      map (\<lambda>(i, b). utext_of ''['' @ utext_of (si_id i) @ utext_of '']'' @ [10] @ fst b)
        (zip (filter (\<lambda>i. trim (si_content i) \<noteq> []) xs)
          (map (\<lambda>i. clamp_to_budget tok (trim (si_content i)) ?cap)
            (filter (\<lambda>i. trim (si_content i) \<noteq> []) xs)))" for xs
    by (induction xs) (simp_all add: map_filter_simps prompt_part_def Let_def)
  have blank: "trim (join blank_line (List.map_filter (prompt_part tok ?cap) (by_score inputs))) = [] \<longleftrightarrow>
      (\<forall>i\<in>set inputs. trim (si_content i) = [])"
    by (subst prompt_blank_iff) simp
  show ?thesis
  proof (cases "\<forall>i\<in>set inputs. trim (si_content i) = []")
    case True
    then show ?thesis using fits blank by (simp add: prepare_summary_prompt_def Let_def)
  next
    case False
    then have "prompt_bodies tok inputs ctx \<noteq> []" by (auto simp: prompt_bodies_def filter_empty_conv)
    then show ?thesis using False fits blank
      by (simp add: prepare_summary_prompt_def Let_def parts prompt_bodies_def)
  qed
qed

definition sample_context :: summary_context where
  "sample_context = \<lparr>sx_tree_id = ''t'', sx_tree_kind = Source, sx_target_level = 1,
     sx_token_budget = OUTPUT_TOKEN_BUDGET, sx_input_token_budget = INPUT_TOKEN_BUDGET,
     sx_overhead_reserve_tokens = SUMMARY_OVERHEAD_RESERVE_TOKENS, sx_ask = None\<rparr>"

theorem prompt_fits_context_witness:
  "sum_list (map snd (prompt_bodies sample_tok [sample_input ''c1'' 1 ''x''] sample_context))
     + OUTPUT_TOKEN_BUDGET + SUMMARY_OVERHEAD_RESERVE_TOKENS \<le> INPUT_TOKEN_BUDGET"
  using prompt_fits_context [OF sample_tok tree_config_default_valid, of sample_context
      "[sample_input ''c1'' 1 ''x'']" None]
  by (simp add: sample_context_def tree_config_default_def)

end
