(* ===== verification/Bucket_Seal.thy ===== *)
theory Bucket_Seal
  imports Tree_Store Summarise
begin

section \<open>Append and cascade-seal (src/memory/tree/bucket_seal.rs, hydrate.rs)\<close>

text \<open>
  A leaf goes into the level-0 buffer of its tree; a buffer that crosses its gate is folded into a
  summary one level up, whose id goes into the parent buffer, and so on. Sealing reads a snapshot,
  runs the summariser without a lock and then commits one transaction; what other callers do to
  the database in between is \<^verbatim>\<open>sv_between\<close>.
\<close>

subsection \<open>Services and surroundings of a seal\<close>

text \<open>
  The injected services (summariser, embedder, observer), the content store, and the clock, the
  random tails and the UUIDs a run draws, all indexed by the level where a run draws several.
\<close>

record seal_env =
  sv_tok :: "utext \<Rightarrow> nat"
  sv_summarise :: "summary_input list \<Rightarrow> summary_context \<Rightarrow> summary_output result"
  sv_embed :: "(utext \<Rightarrow> rat list result) option"
  sv_committed :: "summary_node \<Rightarrow> unit result"
  sv_read_body :: "string \<Rightarrow> utext result"
  sv_stage :: "summary_node \<Rightarrow> string \<Rightarrow> staged_summary result"
  sv_signature :: string
  sv_codec :: json_codec
  sv_now :: "nat \<Rightarrow> int"
  sv_rand :: "nat \<Rightarrow> nat"
  sv_uuid :: "nat \<Rightarrow> string"
  sv_between :: "nat \<Rightarrow> tree_db \<Rightarrow> tree_db"

subsection \<open>Hydration\<close>

definition get_chunk :: "string \<Rightarrow> tree_db \<Rightarrow> chunk_row option" where
  "get_chunk i db = sql_find (\<lambda>r. ck_id r = i) (db_chunks db)"

definition leaf_input :: "tree_db \<Rightarrow> chunk_row \<Rightarrow> summary_input" where
  "leaf_input db c = \<lparr>si_id = ck_id c, si_content = ck_content c, si_token_count = ck_token_count c,
     si_entities = list_entity_ids_for_node (ck_id c) (db_entity_index db), si_topics = ck_tags c,
     si_time_range_start = ck_time_range_start c, si_time_range_end = ck_time_range_end c,
     si_score = (case get_score (ck_id c) (db_scores db) of Some r \<Rightarrow> sc_total r | None \<Rightarrow> 0)\<rparr>"

definition hydrate_leaf_inputs :: "string list \<Rightarrow> tree_db \<Rightarrow> summary_input list" where
  "hydrate_leaf_inputs ids db =
    List.map_filter (\<lambda>i. map_option (leaf_input db) (get_chunk i db)) ids"

definition node_input :: "(string \<Rightarrow> utext result) \<Rightarrow> summary_node \<Rightarrow> summary_input" where
  "node_input read_body n = \<lparr>si_id = sn_id n,
     si_content = (case read_body (sn_id n) of Inr b \<Rightarrow> b | Inl _ \<Rightarrow> sn_content n),
     si_token_count = sn_token_count n, si_entities = sn_entities n, si_topics = sn_topics n,
     si_time_range_start = sn_time_range_start n, si_time_range_end = sn_time_range_end n,
     si_score = sn_score n\<rparr>"

definition hydrate_summary_inputs ::
    "(string \<Rightarrow> utext result) \<Rightarrow> string list \<Rightarrow> tree_db \<Rightarrow> summary_input list" where
  "hydrate_summary_inputs read_body ids db =
    (let node_by_id = get_summaries_batch ids db in
     List.map_filter (\<lambda>i. map_option (node_input read_body) (node_by_id i)) ids)"

definition hydrate_inputs ::
    "(string \<Rightarrow> utext result) \<Rightarrow> nat \<Rightarrow> string list \<Rightarrow> tree_db \<Rightarrow> summary_input list" where
  "hydrate_inputs read_body level ids db =
    (if level = 0 then hydrate_leaf_inputs ids db else hydrate_summary_inputs read_body ids db)"

definition get_chunks_batch :: "string list \<Rightarrow> tree_db \<Rightarrow> (string \<rightharpoonup> chunk_row)" where
  "get_chunks_batch ids db = fetch_batch ck_id 500 ids (db_chunks db)"

fun fetch_leaves_loop :: "(string \<rightharpoonup> chunk_row) \<Rightarrow> nat \<Rightarrow> string list \<Rightarrow> chunk_row list" where
  "fetch_leaves_loop m room [] = []"
| "fetch_leaves_loop m room (i # is) =
     (if room = 0 then []
      else case m i of None \<Rightarrow> fetch_leaves_loop m room is
           | Some c \<Rightarrow> c # fetch_leaves_loop m (room - 1) is)"

definition fetch_leaves :: "string list \<Rightarrow> nat \<Rightarrow> tree_db \<Rightarrow> chunk_row list" where
  "fetch_leaves ids cap db = (if cap = 0 \<or> ids = [] then []
     else fetch_leaves_loop (get_chunks_batch ids db) cap ids)"

subsection \<open>Appending\<close>

definition archived_error :: "string \<Rightarrow> anyhow_error" where
  "archived_error tree_id = plain_error (''tree '' @ [CHR 0x27] @ tree_id @ [CHR 0x27] @ '' is archived'')"

definition push_item :: "string \<Rightarrow> int \<Rightarrow> int \<Rightarrow> buffer \<Rightarrow> buffer" where
  "push_item item_id token_delta item_ts b = b\<lparr>bf_item_ids := bf_item_ids b @ [item_id],
     bf_token_sum := sat64 (bf_token_sum b + token_delta),
     bf_oldest_at := Some (case bf_oldest_at b of Some e \<Rightarrow> min e item_ts | None \<Rightarrow> item_ts)\<rparr>"

definition append_to_buffer ::
    "int \<Rightarrow> string \<Rightarrow> nat \<Rightarrow> string \<Rightarrow> int \<Rightarrow> int \<Rightarrow> (unit, tree_db) tx" where
  "append_to_buffer now_ms tree_id level item_id token_delta item_ts db =
    (case get_tree tree_id db of
       None \<Rightarrow> Inl (with_context ''Failed to read tree status before append'' no_rows_error)
     | Some t \<Rightarrow>
        (if tr_status t \<noteq> Active then Inl (archived_error tree_id)
         else let buf = get_buffer tree_id level db in
              if item_id \<in> set (bf_item_ids buf) then Inr ((), db)
              else upsert_buffer_tx now_ms (push_item item_id token_delta item_ts buf) db))"

text \<open>The gate: tokens at level 0, siblings (a \<^verbatim>\<open>u32\<close> count) above.\<close>

definition should_seal :: "tree_config \<Rightarrow> buffer \<Rightarrow> bool" where
  "should_seal cfg buf \<longleftrightarrow> bf_item_ids buf \<noteq> [] \<and>
     (if bf_level buf = 0 then int (tc_input_token_budget cfg) \<le> bf_token_sum buf
      else tc_summary_fanout cfg \<le> length (bf_item_ids buf) mod 2 ^ 32)"

definition append_leaf_deferred ::
    "tree_config \<Rightarrow> int \<Rightarrow> tree \<Rightarrow> leaf_ref \<Rightarrow> tree_db \<Rightarrow> bool result \<times> tree_db" where
  "append_leaf_deferred cfg now_ms t leaf db =
    (case run_tx (append_to_buffer now_ms (tr_id t) 0 (lf_chunk_id leaf) (int (lf_token_count leaf))
         (lf_timestamp leaf)) db of
       (Inl e, db') \<Rightarrow> (Inl e, db')
     | (Inr _, db') \<Rightarrow> (Inr (should_seal cfg (get_buffer (tr_id t) 0 db')), db'))"

subsection \<open>Sealing one level\<close>

definition fold_context :: "tree_config \<Rightarrow> tree \<Rightarrow> nat \<Rightarrow> summary_context" where
  "fold_context cfg t target_level = \<lparr>sx_tree_id = tr_id t, sx_tree_kind = tr_kind t,
     sx_target_level = target_level, sx_token_budget = tc_output_token_budget cfg,
     sx_input_token_budget = tc_input_token_budget cfg,
     sx_overhead_reserve_tokens = tc_summary_overhead_reserve_tokens cfg, sx_ask = tr_ask t\<rparr>"

definition max_score :: "summary_input list \<Rightarrow> rat" where
  "max_score inputs = fold max (map si_score inputs) 0"

definition seal_output :: "seal_env \<Rightarrow> tree_config \<Rightarrow> summary_input list \<Rightarrow> summary_context \<Rightarrow> summary_output" where
  "seal_output env cfg inputs ctx =
    (case sv_summarise env inputs ctx of
       Inr out \<Rightarrow> (if trim (so_content out) \<noteq> [] then out
         else fallback_summary (sv_tok env) inputs (tc_output_token_budget cfg))
     | Inl _ \<Rightarrow> fallback_summary (sv_tok env) inputs (tc_output_token_budget cfg))"

definition EMBED_INPUT_CHARS :: nat where "EMBED_INPUT_CHARS = 4000"

definition embed_content :: "seal_env \<Rightarrow> string \<Rightarrow> utext \<Rightarrow> rat list option result" where
  "embed_content env what content =
    (case sv_embed env of
       None \<Rightarrow> Inr None
     | Some emb \<Rightarrow>
        (if trim content = [] then Inr None
         else case emb (take EMBED_INPUT_CHARS content) of
                Inl e \<Rightarrow> Inl (with_context what e) | Inr v \<Rightarrow> Inr (Some v)))"

text \<open>The first phase: everything up to the commit, on the snapshot the seal started from.\<close>

definition seal_prepare :: "seal_env \<Rightarrow> tree_config \<Rightarrow> label_strategy \<Rightarrow> tree \<Rightarrow> buffer \<Rightarrow> tree_db \<Rightarrow>
    (summary_node \<times> staged_summary) result" where
  "seal_prepare env cfg strategy t buf db =
    (let level = bf_level buf;
         target_level = level + 1;
         inputs = hydrate_inputs (sv_read_body env) level (bf_item_ids buf) db
     in if inputs = []
        then Inl (plain_error (''refused to seal empty buffer tree_id='' @ tr_id t @ '' level='' @ show_nat level))
        else
          let out = seal_output env cfg inputs (fold_context cfg t target_level) in
          (case resolve_labels strategy inputs (so_content out) of
             Inl e \<Rightarrow> Inl e
           | Inr (entities, topics) \<Rightarrow>
              (case embed_content env ''embed sealed summary'' (so_content out) of
                 Inl e \<Rightarrow> Inl e
               | Inr embedding \<Rightarrow>
                  (let now = sv_now env level;
                       node = \<lparr>sn_id = new_summary_id (nat (now mod 2 ^ 64)) target_level (sv_rand env level),
                         sn_tree_id = tr_id t, sn_tree_kind = tr_kind t, sn_level = target_level,
                         sn_parent_id = None, sn_child_ids = map si_id inputs,
                         sn_content = so_content out, sn_token_count = so_token_count out,
                         sn_entities = entities, sn_topics = topics,
                         sn_time_range_start = Min (si_time_range_start ` set inputs),
                         sn_time_range_end = Max (si_time_range_end ` set inputs),
                         sn_score = max_score inputs, sn_sealed_at = now, sn_deleted = False,
                         sn_embedding = embedding, sn_doc_id = None, sn_version_ms = None\<rparr>
                   in case sv_stage env node (tr_scope t) of
                        Inl e \<Rightarrow> Inl e | Inr staged \<Rightarrow> Inr (node, staged)))))"

definition index_summary_tx :: "summary_node \<Rightarrow> int \<Rightarrow> tree_db \<Rightarrow> tree_db" where
  "index_summary_tx node now_ms db =
    (case index_summary_entity_ids_tx (sn_entities node) (sn_id node) (sn_score node) now_ms
        (Some (sn_tree_id node)) (db_entity_index db, db_edges db) of
       (_, ix, es) \<Rightarrow> db\<lparr>db_entity_index := ix, db_edges := es\<rparr>)"

definition backlink_child :: "nat \<Rightarrow> string \<Rightarrow> string \<Rightarrow> tree_db \<Rightarrow> tree_db" where
  "backlink_child level summary_id child_id db =
    (if level = 0
     then db\<lparr>db_chunks := sql_update (\<lambda>c. ck_id c = child_id \<and> ck_parent_summary_id c = None)
       (\<lambda>c. c\<lparr>ck_parent_summary_id := Some summary_id\<rparr>) (db_chunks db)\<rparr>
     else db\<lparr>db_summaries := sql_update
       (\<lambda>r. sn_id (sr_node r) = child_id \<and> sn_parent_id (sr_node r) = None)
       (\<lambda>r. r\<lparr>sr_node := (sr_node r)\<lparr>sn_parent_id := Some summary_id\<rparr>\<rparr>) (db_summaries db)\<rparr>)"

definition seal_follow_up :: "seal_env \<Rightarrow> memory_config \<Rightarrow> nat \<Rightarrow> int \<Rightarrow> buffer \<Rightarrow> tree_db \<Rightarrow> tree_db" where
  "seal_follow_up env cfg level now_ms parent db =
    db\<lparr>db_jobs := snd (enqueue_conn (sv_uuid env level) now_ms
      (new_seal (sv_codec env) \<lparr>sp_tree_id = bf_tree_id parent, sp_level = bf_level parent,
         sp_force_now_ms = None\<rparr>) (qc_max_attempts (cfg_queue cfg)) (db_jobs db))\<rparr>"

text \<open>The second phase: one transaction that consumes exactly the snapshot.\<close>

definition seal_commit :: "seal_env \<Rightarrow> memory_config \<Rightarrow> tree \<Rightarrow> buffer \<Rightarrow> summary_node \<Rightarrow> staged_summary \<Rightarrow>
    bool \<Rightarrow> (unit, tree_db) tx" where
  "seal_commit env cfg t buf node staged enqueue_follow_ups db =
    (let level = bf_level buf;
         target_level = level + 1;
         now = sn_sealed_at node
     in case get_tree (tr_id t) db of
          None \<Rightarrow> Inl (with_context ''Failed to read current state for tree'' no_rows_error)
        | Some row \<Rightarrow>
           (if tr_status row \<noteq> Active then Inl (archived_error (tr_id t))
            else
              tx_bind (insert_staged_summary_tx now node (Some staged) (sv_signature env)) (\<lambda>_.
              tx_bind (tx_pure (index_summary_tx node now)) (\<lambda>_.
              tx_bind (tx_pure (fold (backlink_child level (sn_id node)) (sn_child_ids node))) (\<lambda>_.
              tx_bind (consume_snapshot_tx now buf) (\<lambda>_ db4.
                let parent = push_item (sn_id node) (int (sn_token_count node))
                      (sn_time_range_start node) (get_buffer (tr_id t) target_level db4)
                in tx_bind (upsert_buffer_tx now parent) (\<lambda>_.
                   tx_bind (tx_pure (\<lambda>s. if enqueue_follow_ups \<and> should_seal (cfg_tree cfg) parent
                     then seal_follow_up env cfg level now parent s else s)) (\<lambda>_.
                   tx_pure (\<lambda>s. if tr_max_level row < target_level
                     then update_tree_after_seal_tx (tr_id t) (sn_id node) target_level now s
                     else refresh_last_sealed_tx (tr_id t) now s))) db4)))) db))"

definition seal_one_level :: "seal_env \<Rightarrow> memory_config \<Rightarrow> label_strategy \<Rightarrow> tree \<Rightarrow> buffer \<Rightarrow> bool \<Rightarrow>
    tree_db \<Rightarrow> string result \<times> tree_db" where
  "seal_one_level env cfg strategy t buf enqueue_follow_ups db =
    (case seal_prepare env (cfg_tree cfg) strategy t buf db of
       Inl e \<Rightarrow> (Inl e, db)
     | Inr (node, staged) \<Rightarrow>
        (case run_tx (seal_commit env cfg t buf node staged enqueue_follow_ups)
            (sv_between env (bf_level buf) db) of
           (Inl e, db') \<Rightarrow> (Inl e, db')
         | (Inr _, db') \<Rightarrow>
            (case sv_committed env node of Inl e \<Rightarrow> (Inl e, db') | Inr _ \<Rightarrow> (Inr (sn_id node), db'))))"

subsection \<open>The cascade\<close>

definition MAX_CASCADE_DEPTH :: nat where "MAX_CASCADE_DEPTH = 32"

fun cascade_levels :: "seal_env \<Rightarrow> memory_config \<Rightarrow> label_strategy \<Rightarrow> tree \<Rightarrow> bool \<Rightarrow> bool \<Rightarrow> nat list \<Rightarrow>
    tree_db \<Rightarrow> string list result \<times> tree_db" where
  "cascade_levels env cfg strategy t forced follow [] db = (Inr [], db)"
| "cascade_levels env cfg strategy t forced follow (level # levels) db =
    (let buf = get_buffer (tr_id t) level db in
     if \<not> forced \<and> \<not> should_seal (cfg_tree cfg) buf then (Inr [], db)
     else if buffer_is_empty buf then (Inr [], db)
     else case seal_one_level env cfg strategy t buf follow db of
            (Inl e, db') \<Rightarrow> (Inl e, db')
          | (Inr summary_id, db') \<Rightarrow>
             (case cascade_levels env cfg strategy t False follow levels db' of
                (Inl e, db'') \<Rightarrow> (Inl e, db'')
              | (Inr ids, db'') \<Rightarrow> (Inr (summary_id # ids), db'')))"

definition cascade_all_from_with_services :: "seal_env \<Rightarrow> memory_config \<Rightarrow> label_strategy \<Rightarrow> tree \<Rightarrow> nat \<Rightarrow>
    bool \<Rightarrow> bool \<Rightarrow> tree_db \<Rightarrow> string list result \<times> tree_db" where
  "cascade_all_from_with_services env cfg strategy t start_level force enqueue_follow_ups =
    cascade_levels env cfg strategy t force enqueue_follow_ups
      [start_level..<start_level + MAX_CASCADE_DEPTH]"

definition cascade_all_from :: "seal_env \<Rightarrow> memory_config \<Rightarrow> label_strategy \<Rightarrow> tree \<Rightarrow> nat \<Rightarrow> bool \<Rightarrow>
    tree_db \<Rightarrow> string list result \<times> tree_db" where
  "cascade_all_from env cfg strategy t start_level force =
    cascade_all_from_with_services (env\<lparr>sv_embed := None, sv_committed := (\<lambda>_. Inr ())\<rparr>) cfg strategy t
      start_level force False"

definition append_leaf :: "seal_env \<Rightarrow> memory_config \<Rightarrow> label_strategy \<Rightarrow> int \<Rightarrow> tree \<Rightarrow> leaf_ref \<Rightarrow>
    tree_db \<Rightarrow> string list result \<times> tree_db" where
  "append_leaf env cfg strategy now_ms t leaf db =
    (case run_tx (append_to_buffer now_ms (tr_id t) 0 (lf_chunk_id leaf) (int (lf_token_count leaf))
         (lf_timestamp leaf)) db of
       (Inl e, db') \<Rightarrow> (Inl e, db')
     | (Inr _, db') \<Rightarrow> cascade_all_from env cfg strategy t 0 False db')"

subsection \<open>Frames\<close>

text \<open>Which tables each part of a transaction leaves alone.\<close>

lemma get_buffer_frame: "db_buffers db' = db_buffers db \<Longrightarrow> get_buffer t l db' = get_buffer t l db"
  by (simp add: get_buffer_def)

lemma upsert_embedding_frame:
  assumes "upsert_summary_embedding_conn n i s v db = Inr (u, db')"
  shows "\<exists>es. db' = db\<lparr>db_summary_embeddings := es\<rparr>"
  using assms by (auto simp: upsert_summary_embedding_conn_def Let_def split: if_splits)

lemma insert_summary_frame:
  assumes "insert_staged_summary_tx n node staged sig db = Inr (u, db')"
  shows "\<exists>es. db' = db\<lparr>db_summaries := (if \<exists>r\<in>set (db_summaries db). sn_id (sr_node r) = sn_id node
      then db_summaries db else db_summaries db @ [summary_row_of node staged]),
      db_summary_embeddings := es\<rparr>"
proof -
  let ?db = "db\<lparr>db_summaries := (if \<exists>r\<in>set (db_summaries db). sn_id (sr_node r) = sn_id node
      then db_summaries db else db_summaries db @ [summary_row_of node staged])\<rparr>"
  have "(if list_ex (\<lambda>r. sn_id (sr_node r) = sn_id node) (db_summaries db) then db
      else db\<lparr>db_summaries := db_summaries db @ [summary_row_of node staged]\<rparr>) = ?db"
    by (simp add: list_ex_iff)
  then have unf: "insert_staged_summary_tx n node staged sig db =
      (if list_ex (\<lambda>r. sn_id (sr_node r) = sn_id node) (db_summaries db) \<or> tree_exists (sn_tree_id node) db
       then case sn_embedding node of None \<Rightarrow> Inr ((), ?db)
        | Some v \<Rightarrow> upsert_summary_embedding_conn n (sn_id node) sig v ?db
       else Inl (with_context (''Failed to insert summary id='' @ sn_id node) foreign_key_error))"
    by (simp only: insert_staged_summary_tx_def Let_def)
  have "list_ex (\<lambda>r. sn_id (sr_node r) = sn_id node) (db_summaries db) \<or> tree_exists (sn_tree_id node) db"
    using assms unfolding insert_staged_summary_tx_def by (rule_tac ccontr) simp
  then have d: "(case sn_embedding node of None \<Rightarrow> Inr ((), ?db)
      | Some v \<Rightarrow> upsert_summary_embedding_conn n (sn_id node) sig v ?db) = Inr (u, db')"
    using assms unfolding unf by (simp only: if_True)
  show ?thesis
  proof (cases "sn_embedding node")
    case None
    then have "db' = ?db\<lparr>db_summary_embeddings := db_summary_embeddings ?db\<rparr>" using d by simp
    then show ?thesis by blast
  next
    case (Some v)
    then have "upsert_summary_embedding_conn n (sn_id node) sig v ?db = Inr (u, db')" using d by simp
    then show ?thesis using upsert_embedding_frame by blast
  qed
qed

lemma index_summary_frame: "\<exists>ix es. index_summary_tx node n db = db\<lparr>db_entity_index := ix, db_edges := es\<rparr>"
  by (auto simp: index_summary_tx_def split: prod.splits)

text \<open>Backlinking changes parents only.\<close>

definition with_parent :: "(string \<Rightarrow> string option) \<Rightarrow> summary_row \<Rightarrow> summary_row" where
  "with_parent p r = r\<lparr>sr_node := (sr_node r)\<lparr>sn_parent_id := p (sn_id (sr_node r))\<rparr>\<rparr>"

lemma with_parent_simps [simp]:
  "sn_id (sr_node (with_parent p r)) = sn_id (sr_node r)"
  "sn_tree_id (sr_node (with_parent p r)) = sn_tree_id (sr_node r)"
  "sn_level (sr_node (with_parent p r)) = sn_level (sr_node r)"
  "sn_child_ids (sr_node (with_parent p r)) = sn_child_ids (sr_node r)"
  by (simp_all add: with_parent_def)

definition same_but_parents :: "summary_row \<Rightarrow> summary_row \<Rightarrow> bool" where
  "same_but_parents r q \<longleftrightarrow> (\<exists>p. q = r\<lparr>sr_node := (sr_node r)\<lparr>sn_parent_id := p\<rparr>\<rparr>)"

lemma same_but_parents_refl: "same_but_parents r r"
  by (auto simp: same_but_parents_def intro: exI [of _ "sn_parent_id (sr_node r)"])

lemma same_but_parentsD:
  "same_but_parents r q \<Longrightarrow> sn_id (sr_node q) = sn_id (sr_node r) \<and>
    sn_tree_id (sr_node q) = sn_tree_id (sr_node r) \<and> sn_level (sr_node q) = sn_level (sr_node r) \<and>
    sn_child_ids (sr_node q) = sn_child_ids (sr_node r)"
  by (auto simp: same_but_parents_def)

lemma same_but_parents_trans:
  "same_but_parents r q \<Longrightarrow> same_but_parents q s \<Longrightarrow> same_but_parents r s"
  by (auto simp: same_but_parents_def)

lemma backlink_frame:
  "\<exists>cs ss. backlink_child level sid cid db = db\<lparr>db_chunks := cs, db_summaries := ss\<rparr> \<and>
    list_all2 same_but_parents (db_summaries db) ss"
proof (cases "level = 0")
  case True
  have "list_all2 same_but_parents (db_summaries db) (db_summaries db)"
    by (simp add: list_all2_same same_but_parents_refl)
  moreover have "\<exists>cs. backlink_child level sid cid db = db\<lparr>db_chunks := cs, db_summaries := db_summaries db\<rparr>"
    using True by (auto simp: backlink_child_def)
  ultimately show ?thesis by blast
next
  case False
  have "list_all2 same_but_parents t (sql_update p (\<lambda>r. r\<lparr>sr_node := (sr_node r)\<lparr>sn_parent_id := x\<rparr>\<rparr>) t)"
    for p t and x :: "string option"
    by (induction t) (auto simp: table_simps same_but_parents_refl, auto simp: same_but_parents_def)
  moreover have "\<exists>p x. backlink_child level sid cid db = db\<lparr>db_chunks := db_chunks db, db_summaries :=
      sql_update p (\<lambda>r. r\<lparr>sr_node := (sr_node r)\<lparr>sn_parent_id := x\<rparr>\<rparr>) (db_summaries db)\<rparr>"
    using False by (auto simp: backlink_child_def)
  ultimately show ?thesis by blast
qed

lemma backlinks_frame:
  "\<exists>cs ss. fold (backlink_child level sid) ids db = db\<lparr>db_chunks := cs, db_summaries := ss\<rparr> \<and>
    list_all2 same_but_parents (db_summaries db) ss"
proof (induction ids arbitrary: db)
  case Nil
  have "db = db\<lparr>db_chunks := db_chunks db, db_summaries := db_summaries db\<rparr>" by simp
  moreover have "list_all2 same_but_parents (db_summaries db) (db_summaries db)"
    by (simp add: list_all2_same same_but_parents_refl)
  ultimately show ?case unfolding fold_simps by (metis id_apply)
next
  case (Cons i ids)
  obtain cs ss where a: "backlink_child level sid i db = db\<lparr>db_chunks := cs, db_summaries := ss\<rparr>"
    "list_all2 same_but_parents (db_summaries db) ss"
    using backlink_frame by blast
  obtain cs' ss' where b: "fold (backlink_child level sid) ids (db\<lparr>db_chunks := cs, db_summaries := ss\<rparr>) =
      db\<lparr>db_chunks := cs', db_summaries := ss'\<rparr>" "list_all2 same_but_parents ss ss'"
    using Cons.IH [of "db\<lparr>db_chunks := cs, db_summaries := ss\<rparr>"] by auto
  have "list_all2 same_but_parents (db_summaries db) ss'"
    by (rule list_all2_trans [OF _ a(2) b(2)]) (rule same_but_parents_trans)
  then show ?case using a(1) b(1) by auto
qed

subsection \<open>Appending\<close>

lemma push_item_simps [simp]:
  "bf_tree_id (push_item i d ts b) = bf_tree_id b"
  "bf_level (push_item i d ts b) = bf_level b"
  "bf_item_ids (push_item i d ts b) = bf_item_ids b @ [i]"
  by (simp_all add: push_item_def)

lemma append_to_buffer_cases:
  obtains (missing) e where "get_tree tid db = None" "append_to_buffer n tid l i d ts db = Inl e"
  | (archived) t where "get_tree tid db = Some t" "tr_status t = Archived"
      "append_to_buffer n tid l i d ts db = Inl (archived_error tid)"
  | (duplicate) t where "get_tree tid db = Some t" "tr_status t = Active"
      "i \<in> set (bf_item_ids (get_buffer tid l db))" "append_to_buffer n tid l i d ts db = Inr ((), db)"
  | (pushed) t db' where "get_tree tid db = Some t" "tr_status t = Active"
      "i \<notin> set (bf_item_ids (get_buffer tid l db))" "append_to_buffer n tid l i d ts db = Inr ((), db')"
      "get_buffer tid l db' = push_item i d ts (get_buffer tid l db)"
      "\<And>t' l'. (t', l') \<noteq> (tid, l) \<Longrightarrow> get_buffer t' l' db' = get_buffer t' l' db"
      "\<exists>bs. db' = db\<lparr>db_buffers := bs\<rparr>"
proof (cases "get_tree tid db")
  case None
  then show ?thesis using missing by (simp add: append_to_buffer_def)
next
  case (Some t)
  show ?thesis
  proof (cases "tr_status t")
    case Archived
    then show ?thesis using archived Some by (simp add: append_to_buffer_def)
  next
    case Active
    show ?thesis
    proof (cases "i \<in> set (bf_item_ids (get_buffer tid l db))")
      case True
      then show ?thesis using duplicate Some Active by (simp add: append_to_buffer_def Let_def)
    next
      case False
      let ?b = "push_item i d ts (get_buffer tid l db)"
      have ex: "tree_exists tid db" using get_tree_exists [OF Some] by simp
      have key: "bf_tree_id ?b = tid" "bf_level ?b = l" by (simp_all add: bufs.get_tree_id bufs.get_level)
      obtain db' where put: "upsert_buffer_tx n ?b db = Inr ((), db')"
        and get: "get_buffer tid l db' = ?b"
        and other: "\<forall>t' l'. (t', l') \<noteq> (tid, l) \<longrightarrow> get_buffer t' l' db' = get_buffer t' l' db"
        using bufs.modify [OF ex, of "push_item i d ts" l n] key by auto
      have "append_to_buffer n tid l i d ts db = Inr ((), db')"
        using Some Active False put by (simp add: append_to_buffer_def Let_def)
      then show ?thesis
        using pushed [OF Some Active False] get other upsert_buffer_frame [OF put] by blast
    qed
  qed
qed

text \<open>
  An append to a missing or archived tree fails and writes nothing. On an active tree it
  succeeds and puts the item at the end of that level's buffer, adding its tokens (saturating) and
  lowering the oldest instant; an item already waiting is not counted again, so repeating an append
  changes nothing; every other buffer, the trees, summaries and jobs stay as they are.
\<close>

theorem append_idempotent:
  "case get_tree tid db of
     None \<Rightarrow> snd (run_tx (append_to_buffer n tid l i d ts) db) = db \<and> (\<exists>e. append_to_buffer n tid l i d ts db = Inl e)
   | Some t \<Rightarrow>
      (if tr_status t = Archived
       then run_tx (append_to_buffer n tid l i d ts) db = (Inl (archived_error tid), db)
       else \<exists>db'. append_to_buffer n tid l i d ts db = Inr ((), db')
         \<and> get_buffer tid l db' = (if i \<in> set (bf_item_ids (get_buffer tid l db)) then get_buffer tid l db
             else push_item i d ts (get_buffer tid l db))
         \<and> (\<forall>t' l'. (t', l') \<noteq> (tid, l) \<longrightarrow> get_buffer t' l' db' = get_buffer t' l' db)
         \<and> db'\<lparr>db_buffers := db_buffers db\<rparr> = db
         \<and> append_to_buffer n' tid l i d' ts' db' = Inr ((), db'))"
proof (cases rule: append_to_buffer_cases [of tid db n l i d ts])
  case (missing e)
  then show ?thesis by simp
next
  case (archived t)
  then show ?thesis by simp
next
  case (duplicate t)
  then show ?thesis by (simp add: append_to_buffer_def Let_def)
next
  case (pushed t db')
  then obtain bs where bs: "db' = db\<lparr>db_buffers := bs\<rparr>" by blast
  then have "get_tree tid db' = Some t" using pushed(1) get_tree_frame [of db' db] by simp
  then have "append_to_buffer n' tid l i d' ts' db' = Inr ((), db')"
    using pushed(2,5) by (simp add: append_to_buffer_def Let_def)
  moreover have "db'\<lparr>db_buffers := db_buffers db\<rparr> = db" using bs by simp
  ultimately show ?thesis using pushed by auto
qed

subsection \<open>What a seal takes as children\<close>

lemma fetch_window_key: "fetch_window key t w m k = Some r \<Longrightarrow> m k = Some r \<or> (key r = k \<and> r \<in> set t)"
proof -
  have "fold (\<lambda>r m. m(key r \<mapsto> r)) rs m k = Some r \<Longrightarrow> m k = Some r \<or> (key r = k \<and> r \<in> set rs)" for rs m
  proof (induction rs arbitrary: m)
    case (Cons q rs)
    from Cons.IH [of "m(key q \<mapsto> q)"] Cons.prems show ?case by (auto split: if_splits)
  qed simp
  from this [of "filter (\<lambda>r. key r \<in> set w) t" m]
  show "fetch_window key t w m k = Some r \<Longrightarrow> ?thesis" unfolding fetch_window_def by auto
qed

lemma fetch_batch_key: "fetch_batch key n ids t k = Some r \<Longrightarrow> key r = k \<and> r \<in> set t"
proof -
  have "fold (fetch_window key t) ws m k = Some r \<Longrightarrow> m k = Some r \<or> (key r = k \<and> r \<in> set t)" for ws m
  proof (induction ws arbitrary: m)
    case (Cons w ws)
    then show ?case using fetch_window_key [of key t w m k r] by auto
  qed simp
  from this [of "windows n ids" Map.empty]
  show "fetch_batch key n ids t k = Some r \<Longrightarrow> ?thesis" by (auto simp: fetch_batch_def split: if_splits)
qed

lemma map_filter_ids:
  assumes "\<And>i x. f i = Some x \<Longrightarrow> g x = i"
  shows "map g (List.map_filter f ids) = filter (\<lambda>i. f i \<noteq> None) ids"
  by (induction ids) (auto simp: map_filter_simps assms split: option.splits)

lemma hydrate_ids: "subseq (map si_id (hydrate_inputs rb level ids db)) ids"
proof (cases "level = 0")
  case True
  have "map si_id (hydrate_leaf_inputs ids db) =
      filter (\<lambda>i. map_option (leaf_input db) (get_chunk i db) \<noteq> None) ids"
    unfolding hydrate_leaf_inputs_def
    by (rule map_filter_ids) (auto simp: leaf_input_def get_chunk_def dest!: sql_find_SomeD)
  then show ?thesis using True by (simp add: hydrate_inputs_def)
next
  case False
  have "map si_id (hydrate_summary_inputs rb ids db) =
      filter (\<lambda>i. map_option (node_input rb) (get_summaries_batch ids db i) \<noteq> None) ids"
    unfolding hydrate_summary_inputs_def Let_def
    by (rule map_filter_ids) (auto simp: node_input_def get_summaries_batch_def dest!: fetch_batch_key)
  then show ?thesis using False by (simp add: hydrate_inputs_def)
qed

lemma seal_prepare_InrD:
  assumes "seal_prepare env cfg strategy t buf db = Inr (node, staged)"
  shows "sn_tree_id node = tr_id t" and "sn_level node = bf_level buf + 1"
    and "sn_child_ids node = map si_id (hydrate_inputs (sv_read_body env) (bf_level buf) (bf_item_ids buf) db)"
    and "sn_child_ids node \<noteq> []" and "subseq (sn_child_ids node) (bf_item_ids buf)"
    and "sn_sealed_at node = sv_now env (bf_level buf)" and "\<not> sn_deleted node"
  using assms hydrate_ids [of "sv_read_body env" "bf_level buf" "bf_item_ids buf" db]
  by (auto simp: seal_prepare_def Let_def split: if_splits sum.splits prod.splits)

subsection \<open>The commit of a seal\<close>

definition after_seal :: "string \<Rightarrow> nat \<Rightarrow> int \<Rightarrow> tree \<Rightarrow> tree" where
  "after_seal sid target_level now r =
    (if tr_max_level r < target_level
     then r\<lparr>tr_root_id := Some sid, tr_max_level := target_level, tr_last_sealed_at := Some now\<rparr>
     else r\<lparr>tr_last_sealed_at := Some now\<rparr>)"

lemma after_seal_id [simp]: "tr_id (after_seal s l n r) = tr_id r" "tr_status (after_seal s l n r) = tr_status r"
  "tr_kind (after_seal s l n r) = tr_kind r" "tr_scope (after_seal s l n r) = tr_scope r"
  by (simp_all add: after_seal_def)

lemma seal_commit_InrD:
  assumes c: "seal_commit env cfg t buf node staged f db = Inr (u, db')"
    and key: "bf_tree_id buf = tr_id t"
  obtains row later where
    "get_tree (tr_id t) db = Some row" "tr_status row = Active"
    "bf_item_ids (get_buffer (tr_id t) (bf_level buf) db) = bf_item_ids buf @ later"
    "bf_item_ids (get_buffer (tr_id t) (bf_level buf) db') = later"
    "later = [] \<Longrightarrow> get_buffer (tr_id t) (bf_level buf) db' = buffer_empty (tr_id t) (bf_level buf)"
    "get_buffer (tr_id t) (bf_level buf + 1) db' = push_item (sn_id node) (int (sn_token_count node))
       (sn_time_range_start node) (get_buffer (tr_id t) (bf_level buf + 1) db)"
    "\<And>t' l. (t', l) \<noteq> (tr_id t, bf_level buf) \<Longrightarrow> (t', l) \<noteq> (tr_id t, bf_level buf + 1) \<Longrightarrow>
       get_buffer t' l db' = get_buffer t' l db"
    "db_trees db' = sql_update (\<lambda>r. tr_id r = tr_id t)
       (if tr_max_level row < bf_level buf + 1
        then (\<lambda>r. r\<lparr>tr_root_id := Some (sn_id node), tr_max_level := bf_level buf + 1,
               tr_last_sealed_at := Some (sn_sealed_at node)\<rparr>)
        else (\<lambda>r. r\<lparr>tr_last_sealed_at := Some (sn_sealed_at node)\<rparr>)) (db_trees db)"
    "list_all2 same_but_parents (if \<exists>r\<in>set (db_summaries db). sn_id (sr_node r) = sn_id node
       then db_summaries db else db_summaries db @ [summary_row_of node (Some staged)]) (db_summaries db')"
    "f \<or> db_jobs db' = db_jobs db"
proof -
  let ?L = "bf_level buf" and ?now = "sn_sealed_at node" and ?T = "tr_id t"
  obtain row where row: "get_tree ?T db = Some row" "tr_status row = Active"
    using c by (auto simp: seal_commit_def Let_def split: option.splits if_splits)
  obtain a1 s1 a4 s4 a5 s5 where
    i: "insert_staged_summary_tx ?now node (Some staged) (sv_signature env) db = Inr (a1, s1)" and
    co: "consume_snapshot_tx ?now buf (fold (backlink_child ?L (sn_id node)) (sn_child_ids node)
        (index_summary_tx node ?now s1)) = Inr (a4, s4)" and
    up: "upsert_buffer_tx ?now (push_item (sn_id node) (int (sn_token_count node))
        (sn_time_range_start node) (get_buffer ?T (?L + 1) s4)) s4 = Inr (a5, s5)" and
    fin: "db' = (let s6 = (if f \<and> should_seal (cfg_tree cfg) (push_item (sn_id node) (int (sn_token_count node))
            (sn_time_range_start node) (get_buffer ?T (?L + 1) s4))
          then seal_follow_up env cfg ?L ?now (push_item (sn_id node) (int (sn_token_count node))
            (sn_time_range_start node) (get_buffer ?T (?L + 1) s4)) s5 else s5)
        in if tr_max_level row < ?L + 1 then update_tree_after_seal_tx ?T (sn_id node) (?L + 1) ?now s6
           else refresh_last_sealed_tx ?T ?now s6)"
    using c row unfolding seal_commit_def Let_def
    by (auto simp: tx_bind_Inr_iff tx_pure_def split: if_splits)
  obtain es where s1: "s1 = db\<lparr>db_summaries := (if \<exists>r\<in>set (db_summaries db). sn_id (sr_node r) = sn_id node
      then db_summaries db else db_summaries db @ [summary_row_of node (Some staged)]),
      db_summary_embeddings := es\<rparr>"
    using insert_summary_frame [OF i] by blast
  obtain ix eg where s2: "index_summary_tx node ?now s1 = s1\<lparr>db_entity_index := ix, db_edges := eg\<rparr>"
    using index_summary_frame by blast
  obtain cs ss where s3: "fold (backlink_child ?L (sn_id node)) (sn_child_ids node) (index_summary_tx node ?now s1) =
      (index_summary_tx node ?now s1)\<lparr>db_chunks := cs, db_summaries := ss\<rparr>"
    and ss: "list_all2 same_but_parents (db_summaries s1) ss"
    using backlinks_frame [of ?L "sn_id node" "sn_child_ids node" "index_summary_tx node ?now s1"] s2 by auto
  let ?s3 = "s1\<lparr>db_entity_index := ix, db_edges := eg, db_chunks := cs, db_summaries := ss\<rparr>"
  have g3: "get_buffer t' l ?s3 = get_buffer t' l db" for t' l
    by (rule get_buffer_frame) (simp add: s1)
  note co' = co [unfolded s3, unfolded s2]
  obtain later where later: "bf_item_ids (get_buffer ?T ?L ?s3) = bf_item_ids buf @ later"
    "bf_item_ids (get_buffer ?T ?L s4) = later"
    and other4: "\<And>t' l. (t', l) \<noteq> (?T, ?L) \<Longrightarrow> get_buffer t' l s4 = get_buffer t' l ?s3"
    and s4: "\<exists>bs. s4 = ?s3\<lparr>db_buffers := bs\<rparr>"
    and empty4: "later = [] \<Longrightarrow> get_buffer ?T ?L s4 = buffer_empty ?T ?L"
    using consume_snapshot_InrD [OF co'] unfolding key by metis
  have pkey: "bf_tree_id (push_item (sn_id node) (int (sn_token_count node)) (sn_time_range_start node)
      (get_buffer ?T (?L + 1) s4)) = ?T" "bf_level (push_item (sn_id node) (int (sn_token_count node))
      (sn_time_range_start node) (get_buffer ?T (?L + 1) s4)) = ?L + 1"
    by (simp_all add: bufs.get_tree_id bufs.get_level)
  note get5 = bufs.get_put [OF up, unfolded pkey]
  have db'b: "db_buffers db' = db_buffers s5"
    by (simp add: fin Let_def update_tree_after_seal_tx_def refresh_last_sealed_tx_def seal_follow_up_def)
  have get': "get_buffer t' l db' = get_buffer t' l s5" for t' l by (rule get_buffer_frame [OF db'b])
  obtain bs where s5: "s5 = s4\<lparr>db_buffers := bs\<rparr>" using upsert_buffer_frame [OF up] by blast
  have tables: "db_trees s5 = db_trees db" "db_summaries s5 = ss" "db_jobs s5 = db_jobs db"
    using s4 by (auto simp: s5 s1)
  show ?thesis
  proof (rule that [OF row])
    show "bf_item_ids (get_buffer ?T ?L db) = bf_item_ids buf @ later" using later(1) g3 by simp
    show "bf_item_ids (get_buffer ?T ?L db') = later" using get' get5 later(2) by simp
    show "get_buffer ?T ?L db' = buffer_empty ?T ?L" if "later = []" using get' get5 empty4 [OF that] by simp
    show "get_buffer ?T (?L + 1) db' = push_item (sn_id node) (int (sn_token_count node))
        (sn_time_range_start node) (get_buffer ?T (?L + 1) db)"
      using get' get5 other4 g3 by simp
    show "get_buffer t' l db' = get_buffer t' l db"
      if "(t', l) \<noteq> (?T, ?L)" "(t', l) \<noteq> (?T, ?L + 1)" for t' l
      using get' get5 [of t' l] other4 [OF that(1)] g3 that(2) by auto
    show "db_trees db' = sql_update (\<lambda>r. tr_id r = ?T) (if tr_max_level row < ?L + 1
        then (\<lambda>r. r\<lparr>tr_root_id := Some (sn_id node), tr_max_level := ?L + 1, tr_last_sealed_at := Some ?now\<rparr>)
        else (\<lambda>r. r\<lparr>tr_last_sealed_at := Some ?now\<rparr>)) (db_trees db)"
      by (simp add: fin Let_def update_tree_after_seal_tx_def refresh_last_sealed_tx_def
          seal_follow_up_def tables)
    have "db_summaries db' = ss"
      by (simp add: fin Let_def update_tree_after_seal_tx_def refresh_last_sealed_tx_def
          seal_follow_up_def tables)
    then show "list_all2 same_but_parents (if \<exists>r\<in>set (db_summaries db). sn_id (sr_node r) = sn_id node
       then db_summaries db else db_summaries db @ [summary_row_of node (Some staged)]) (db_summaries db')"
      using ss s1 by simp
    show "f \<or> db_jobs db' = db_jobs db"
      by (simp add: fin Let_def update_tree_after_seal_tx_def refresh_last_sealed_tx_def tables)
  qed
qed

lemma insert_summary_total:
  assumes "tree_exists (sn_tree_id node) db"
  shows "\<exists>db'. insert_staged_summary_tx n node staged sig db = Inr ((), db')"
proof -
  have "\<exists>db'. upsert_summary_embedding_conn n (sn_id node) sig v
      (db\<lparr>db_summaries := db_summaries db @ [summary_row_of node staged]\<rparr>) = Inr ((), db')" for v
    by (auto simp: upsert_summary_embedding_conn_def Let_def summary_row_of_def split: option.splits)
  moreover have "\<exists>db'. upsert_summary_embedding_conn n (sn_id node) sig v db = Inr ((), db')"
    if "list_ex (\<lambda>r. sn_id (sr_node r) = sn_id node) (db_summaries db)" for v
    using that by (auto simp: upsert_summary_embedding_conn_def Let_def)
  ultimately show ?thesis using assms
    by (auto simp: insert_staged_summary_tx_def Let_def split: option.splits)
qed

lemma seal_commit_succeeds:
  assumes row: "get_tree (tr_id t) db = Some row" "tr_status row = Active"
    and key: "bf_tree_id buf = tr_id t" "sn_tree_id node = tr_id t"
    and pre: "bf_item_ids (get_buffer (tr_id t) (bf_level buf) db) = bf_item_ids buf @ later"
  shows "\<exists>db'. seal_commit env cfg t buf node staged f db = Inr ((), db')"
proof -
  let ?L = "bf_level buf" and ?now = "sn_sealed_at node" and ?T = "tr_id t"
  have ex: "tree_exists ?T db" using get_tree_exists [OF row(1)] by simp
  obtain s1 where i: "insert_staged_summary_tx ?now node (Some staged) (sv_signature env) db = Inr ((), s1)"
    using insert_summary_total [of node db ?now "Some staged" "sv_signature env"] ex key(2) by auto
  obtain es where s1: "s1 = db\<lparr>db_summaries := (if \<exists>r\<in>set (db_summaries db). sn_id (sr_node r) = sn_id node
      then db_summaries db else db_summaries db @ [summary_row_of node (Some staged)]),
      db_summary_embeddings := es\<rparr>"
    using insert_summary_frame [OF i] by blast
  let ?s3 = "fold (backlink_child ?L (sn_id node)) (sn_child_ids node) (index_summary_tx node ?now s1)"
  obtain ix eg cs ss where s3: "?s3 = s1\<lparr>db_entity_index := ix, db_edges := eg, db_chunks := cs, db_summaries := ss\<rparr>"
    using backlinks_frame [of ?L "sn_id node" "sn_child_ids node" "index_summary_tx node ?now s1"]
      index_summary_frame [of node ?now s1] by auto
  have trees3: "db_trees ?s3 = db_trees db" and bufs3: "db_buffers ?s3 = db_buffers db"
    unfolding s3 by (simp_all add: s1)
  have ex3: "tree_exists ?T ?s3" using ex unfolding tree_exists_def trees3 .
  have "get_buffer ?T ?L ?s3 = get_buffer ?T ?L db" by (rule get_buffer_frame [OF bufs3])
  then obtain s4 where co: "consume_snapshot_tx ?now buf ?s3 = Inr ((), s4)"
    using consume_snapshot_iff [of buf ?s3 ?now] ex3 pre key(1) by auto
  obtain bs where s4: "s4 = ?s3\<lparr>db_buffers := bs\<rparr>" using consume_snapshot_InrD [OF co] by metis
  have ex4: "tree_exists ?T s4" using ex3 by (simp add: s4 tree_exists_def)
  have "bf_tree_id (push_item (sn_id node) (int (sn_token_count node)) (sn_time_range_start node)
      (get_buffer ?T (?L + 1) s4)) = ?T" by (simp add: bufs.get_tree_id)
  then obtain s5 where up: "upsert_buffer_tx ?now (push_item (sn_id node) (int (sn_token_count node))
      (sn_time_range_start node) (get_buffer ?T (?L + 1) s4)) s4 = Inr ((), s5)"
    using bufs.put_present [of _ s4 ?now] ex4 by metis
  show ?thesis
    unfolding seal_commit_def Let_def
    using row i co up by (simp add: tx_bind_def tx_pure_def)
qed

text \<open>
  The commit of a prepared seal is all or nothing and moves exactly the snapshot. It succeeds
  iff the tree is there and active and the live buffer still starts with the snapshot; the buffer
  then holds only what arrived since, the new summary's id is the last item of the parent buffer,
  no other buffer changes, the summary is stored under the tree with its children, every older
  summary is kept (its parent link apart), and the tree's level only ever grows.
\<close>

theorem seal_commit_moves_snapshot:
  assumes "bf_tree_id buf = tr_id t" and "sn_tree_id node = tr_id t"
    and "\<forall>r\<in>set (db_summaries db). sn_id (sr_node r) \<noteq> sn_id node" and "trees_ok (db_trees db)"
  shows "((\<exists>db'. seal_commit env cfg t buf node staged f db = Inr ((), db')) \<longleftrightarrow>
      (\<exists>row later. get_tree (tr_id t) db = Some row \<and> tr_status row = Active \<and>
        bf_item_ids (get_buffer (tr_id t) (bf_level buf) db) = bf_item_ids buf @ later))
    \<and> (\<forall>db'. seal_commit env cfg t buf node staged f db = Inr ((), db') \<longrightarrow>
      bf_item_ids (get_buffer (tr_id t) (bf_level buf) db) =
        bf_item_ids buf @ bf_item_ids (get_buffer (tr_id t) (bf_level buf) db')
      \<and> bf_item_ids (get_buffer (tr_id t) (bf_level buf + 1) db') =
        bf_item_ids (get_buffer (tr_id t) (bf_level buf + 1) db) @ [sn_id node]
      \<and> (\<forall>t' l. (t', l) \<noteq> (tr_id t, bf_level buf) \<and> (t', l) \<noteq> (tr_id t, bf_level buf + 1) \<longrightarrow>
          get_buffer t' l db' = get_buffer t' l db)
      \<and> map (\<lambda>r. (sn_id (sr_node r), sn_tree_id (sr_node r), sn_level (sr_node r), sn_child_ids (sr_node r)))
          (db_summaries db') =
        map (\<lambda>r. (sn_id (sr_node r), sn_tree_id (sr_node r), sn_level (sr_node r), sn_child_ids (sr_node r)))
          (db_summaries db) @ [(sn_id node, tr_id t, sn_level node, sn_child_ids node)]
      \<and> list_all2 (\<lambda>r r'. tr_id r' = tr_id r \<and> tr_max_level r \<le> tr_max_level r') (db_trees db) (db_trees db'))"
proof (intro conjI allI impI)
  show "(\<exists>db'. seal_commit env cfg t buf node staged f db = Inr ((), db')) \<longleftrightarrow>
      (\<exists>row later. get_tree (tr_id t) db = Some row \<and> tr_status row = Active \<and>
        bf_item_ids (get_buffer (tr_id t) (bf_level buf) db) = bf_item_ids buf @ later)"
    using seal_commit_succeeds [OF _ _ assms(1,2)] by (blast elim: seal_commit_InrD [OF _ assms(1)])
next
  fix db' assume c: "seal_commit env cfg t buf node staged f db = Inr ((), db')"
  obtain row later where
    row: "get_tree (tr_id t) db = Some row" and
    e: "bf_item_ids (get_buffer (tr_id t) (bf_level buf) db) = bf_item_ids buf @ later"
    "bf_item_ids (get_buffer (tr_id t) (bf_level buf) db') = later"
    "get_buffer (tr_id t) (bf_level buf + 1) db' = push_item (sn_id node) (int (sn_token_count node))
       (sn_time_range_start node) (get_buffer (tr_id t) (bf_level buf + 1) db)"
    and other: "\<And>t' l. (t', l) \<noteq> (tr_id t, bf_level buf) \<Longrightarrow> (t', l) \<noteq> (tr_id t, bf_level buf + 1) \<Longrightarrow>
       get_buffer t' l db' = get_buffer t' l db"
    and trees: "db_trees db' = sql_update (\<lambda>r. tr_id r = tr_id t)
       (if tr_max_level row < bf_level buf + 1
        then (\<lambda>r. r\<lparr>tr_root_id := Some (sn_id node), tr_max_level := bf_level buf + 1,
               tr_last_sealed_at := Some (sn_sealed_at node)\<rparr>)
        else (\<lambda>r. r\<lparr>tr_last_sealed_at := Some (sn_sealed_at node)\<rparr>)) (db_trees db)"
    and sums: "list_all2 same_but_parents (if \<exists>r\<in>set (db_summaries db). sn_id (sr_node r) = sn_id node
       then db_summaries db else db_summaries db @ [summary_row_of node (Some staged)]) (db_summaries db')"
    by (rule seal_commit_InrD [OF c assms(1)]) (rule that; assumption)
  show "bf_item_ids (get_buffer (tr_id t) (bf_level buf) db) =
        bf_item_ids buf @ bf_item_ids (get_buffer (tr_id t) (bf_level buf) db')" using e by simp
  show "bf_item_ids (get_buffer (tr_id t) (bf_level buf + 1) db') =
        bf_item_ids (get_buffer (tr_id t) (bf_level buf + 1) db) @ [sn_id node]" using e by simp
  show "get_buffer t' l db' = get_buffer t' l db"
    if "(t', l) \<noteq> (tr_id t, bf_level buf) \<and> (t', l) \<noteq> (tr_id t, bf_level buf + 1)" for t' l
    using other that by blast
  let ?core = "\<lambda>r. (sn_id (sr_node r), sn_tree_id (sr_node r), sn_level (sr_node r), sn_child_ids (sr_node r))"
  have "list_all2 same_but_parents (db_summaries db @ [summary_row_of node (Some staged)]) (db_summaries db')"
    using sums assms(3) by auto
  then have "map ?core (db_summaries db') = map ?core (db_summaries db @ [summary_row_of node (Some staged)])"
    by (induction rule: list_all2_induct) (auto dest: same_but_parentsD)
  then show "map ?core (db_summaries db') = map ?core (db_summaries db) @ [(sn_id node, tr_id t, sn_level node, sn_child_ids node)]"
    using assms(2) by (simp add: summary_row_of_def)
  have mono: "list_all2 (\<lambda>r r'. tr_id r' = tr_id r \<and> tr_max_level r \<le> tr_max_level r') ts
      (sql_update (\<lambda>r. tr_id r = tr_id t) g ts)"
    if "\<And>r. r \<in> set ts \<Longrightarrow> tr_id r = tr_id t \<Longrightarrow> tr_id (g r) = tr_id r \<and> tr_max_level r \<le> tr_max_level (g r)" for ts g
    using that by (induction ts) (auto simp: table_simps)
  show "list_all2 (\<lambda>r r'. tr_id r' = tr_id r \<and> tr_max_level r \<le> tr_max_level r') (db_trees db) (db_trees db')"
    unfolding trees
  proof (rule mono)
    fix r assume r: "r \<in> set (db_trees db)" "tr_id r = tr_id t"
    have "r = row"
      by (rule trees.key_eq [OF assms(4) r(1)]) (use get_tree_exists [OF row] r(2) in simp_all)
    then show "tr_id ((if tr_max_level row < bf_level buf + 1
        then (\<lambda>r. r\<lparr>tr_root_id := Some (sn_id node), tr_max_level := bf_level buf + 1,
               tr_last_sealed_at := Some (sn_sealed_at node)\<rparr>)
        else (\<lambda>r. r\<lparr>tr_last_sealed_at := Some (sn_sealed_at node)\<rparr>)) r) = tr_id r \<and>
      tr_max_level r \<le> tr_max_level ((if tr_max_level row < bf_level buf + 1
        then (\<lambda>r. r\<lparr>tr_root_id := Some (sn_id node), tr_max_level := bf_level buf + 1,
               tr_last_sealed_at := Some (sn_sealed_at node)\<rparr>)
        else (\<lambda>r. r\<lparr>tr_last_sealed_at := Some (sn_sealed_at node)\<rparr>)) r)" by simp
  qed
qed

text \<open>Services for concrete runs: no model, the fold of the inputs, one fixed staging path.\<close>

definition sample_env :: seal_env where
  "sample_env = \<lparr>sv_tok = sample_tok, sv_summarise = (\<lambda>_ _. Inl (plain_error ''offline'')), sv_embed = None,
     sv_committed = (\<lambda>_. Inr ()), sv_read_body = (\<lambda>_. Inl (plain_error ''unstaged'')),
     sv_stage = (\<lambda>_ _. Inr \<lparr>st_content_path = ''p.md'', st_content_sha256 = ''0''\<rparr>), sv_signature = ''s'',
     sv_codec = sample_codec, sv_now = (\<lambda>_. 9), sv_rand = (\<lambda>_. 7), sv_uuid = (\<lambda>_. ''u''),
     sv_between = (\<lambda>_ db. db)\<rparr>"

definition sample_node :: summary_node where
  "sample_node = \<lparr>sn_id = ''summary:1'', sn_tree_id = ''t'', sn_tree_kind = Source, sn_level = 1,
     sn_parent_id = None, sn_child_ids = [''a''], sn_content = [65], sn_token_count = 1, sn_entities = [],
     sn_topics = [], sn_time_range_start = 2, sn_time_range_end = 3, sn_score = 0, sn_sealed_at = 9,
     sn_deleted = False, sn_embedding = None, sn_doc_id = None, sn_version_ms = None\<rparr>"

theorem append_idempotent_witness:
  "\<exists>db'. append_to_buffer 5 ''t'' 0 ''b'' 2 1 (sample_db [''a'']) = Inr ((), db')
    \<and> bf_item_ids (get_buffer ''t'' 0 db') = [''a'', ''b'']
    \<and> append_to_buffer 6 ''t'' 0 ''b'' 2 1 db' = Inr ((), db')"
proof -
  have "get_tree ''t'' (sample_db [''a'']) = Some sample_tree" "tr_status sample_tree = Active"
    by (simp_all add: get_tree_def sample_db_def sql_find_def sample_tree_def)
  then show ?thesis
    using append_idempotent [where tid = "''t''" and db = "sample_db [''a'']" and n = 5 and l = 0
        and i = "''b''" and d = 2 and ts = 1 and n' = 6 and d' = 2 and ts' = 1]
    by (auto simp: sample_db_get sample_buffer_def)
qed

theorem seal_commit_moves_snapshot_witness:
  "\<exists>db'. seal_commit sample_env memory_config_default sample_tree (sample_buffer [''a'']) sample_node
      \<lparr>st_content_path = ''p.md'', st_content_sha256 = ''0''\<rparr> False (sample_db [''a'', ''b'']) = Inr ((), db')
    \<and> bf_item_ids (get_buffer ''t'' 0 db') = [''b'']
    \<and> bf_item_ids (get_buffer ''t'' 1 db') = [''summary:1'']"
proof -
  let ?db = "sample_db [''a'', ''b'']" and ?b = "sample_buffer [''a'']"
  have h: "bf_tree_id ?b = tr_id sample_tree" "sn_tree_id sample_node = tr_id sample_tree"
    "\<forall>r\<in>set (db_summaries ?db). sn_id (sr_node r) \<noteq> sn_id sample_node" "trees_ok (db_trees ?db)"
    by (simp_all add: sample_buffer_def sample_node_def sample_tree_def sample_db_def trees_ok_def)
  have get: "get_tree ''t'' ?db = Some sample_tree" "get_buffer ''t'' 1 ?db = buffer_empty ''t'' 1"
    by (simp_all add: get_tree_def sample_db_def sql_find_def sample_tree_def get_buffer_def
        buffer_key_def sample_buffer_def)
  have pre: "bf_item_ids (get_buffer ''t'' 0 ?db) = bf_item_ids ?b @ [''b'']" "bf_level ?b = 0"
    "tr_id sample_tree = ''t''" "tr_status sample_tree = Active" "sn_id sample_node = ''summary:1''"
    "bf_item_ids ?b = [''a'']"
    by (simp_all add: sample_db_get, simp_all add: sample_buffer_def sample_tree_def sample_node_def)
  note moves = seal_commit_moves_snapshot [OF h, of sample_env memory_config_default
      "\<lparr>st_content_path = ''p.md'', st_content_sha256 = ''0''\<rparr>" False, unfolded pre(2,3,5)]
  obtain db' where c: "seal_commit sample_env memory_config_default sample_tree ?b sample_node
      \<lparr>st_content_path = ''p.md'', st_content_sha256 = ''0''\<rparr> False ?db = Inr ((), db')"
    using moves get(1) pre(1,4) by auto
  then show ?thesis using moves get(2) pre(1,6) by (auto simp: buffer_empty_def)
qed

end
