(* ===== verification/Queue_Handlers.thy ===== *)
theory Queue_Handlers
  imports Queue_Settle Bucket_Seal
begin

section \<open>Handlers and operations (src/memory/queue/handlers.rs, ops.rs, scheduler.rs)\<close>

text \<open>
  A handler parses the payload of a claimed job, lets the host do the heavy work through the
  \<^verbatim>\<open>QueueDelegates\<close> trait, and returns a plan: an outcome and the follow-up jobs that the settlement
  will commit together with it. The trait is code of the host; it is a record of functions here, each
  with the effect it may have on the database. The process-wide backfill flag is part of the state.
\<close>

subsection \<open>Delegates\<close>

record extract_decision =
  ed_kept :: bool
  ed_uses_document_subtree :: bool
  ed_tree_scope :: string

record append_decision =
  ad_tree_id :: string
  ad_should_seal :: bool

record stale_buffer =
  sb_tree_id :: string
  sb_level :: nat

datatype reembed_progress = Wrote (more_pending: bool) | Covered | NoProvider | StaleSignature

type_synonym 'a effect = "tree_db \<Rightarrow> 'a result \<times> tree_db"

record queue_delegates =
  qd_extract_chunk :: "string \<Rightarrow> extract_decision option effect"
  qd_append_node :: "node_ref \<Rightarrow> append_target \<Rightarrow> append_decision option effect"
  qd_seal_level :: "seal_payload \<Rightarrow> seal_payload option effect"
  qd_list_stale_buffers :: "int \<Rightarrow> tree_db \<Rightarrow> stale_buffer list result"
  qd_seal_document :: "seal_document_payload \<Rightarrow> unit effect"
  qd_reembed_batch :: "string \<Rightarrow> reembed_progress effect"
  qd_active_signature :: "tree_db \<Rightarrow> string"
  qd_has_uncovered_reembed_work :: "string \<Rightarrow> tree_db \<Rightarrow> bool result"

subsection \<open>State and plans\<close>

record queue_state =
  qs_db :: tree_db
  qs_backfill :: bool
  qs_permits :: nat

record job_plan =
  jp_outcome :: job_outcome
  jp_follow_ups :: "new_job list"

definition plan_done :: "new_job list \<Rightarrow> job_plan" where
  "plan_done follow_ups = \<lparr>jp_outcome = Outcome_Done, jp_follow_ups = follow_ups\<rparr>"

definition plan_outcome :: "job_outcome \<Rightarrow> job_plan" where
  "plan_outcome outcome = \<lparr>jp_outcome = outcome, jp_follow_ups = []\<rparr>"

definition set_backfill_in_progress :: "bool \<Rightarrow> queue_state \<Rightarrow> queue_state" where
  "set_backfill_in_progress v s = s\<lparr>qs_backfill := v\<rparr>"

definition backfill_in_progress :: "queue_state \<Rightarrow> bool" where
  "backfill_in_progress s = qs_backfill s"

subsection \<open>Payloads\<close>

text \<open>A payload that does not parse fails with the unrecoverable code \<^verbatim>\<open>malformed_payload\<close>.\<close>

definition malformed_payload :: job_failure where
  "malformed_payload = unrecoverable ''malformed_payload''"

definition parse_payload :: "(string \<Rightarrow> string + 'p) \<Rightarrow> job \<Rightarrow> string \<Rightarrow> 'p result" where
  "parse_payload dec j what =
    (case dec (job_payload_json j) of
       Inl m \<Rightarrow> Inl (with_context (''parse '' @ what @ '' payload'')
         (with_context (jf_code malformed_payload @ '' ('' @ jf_class malformed_payload @ '')'')
           (plain_error m)\<lparr>err_job_failure := Some malformed_payload\<rparr>))
     | Inr p \<Rightarrow> Inr p)"

definition L0_DEFAULT_FLUSH_AGE_SECS :: int where "L0_DEFAULT_FLUSH_AGE_SECS = 60 * 60"
definition REEMBED_BACKFILL_REVISIT_MS :: int where "REEMBED_BACKFILL_REVISIT_MS = 750"

subsection \<open>Re-embed backfill (ops.rs)\<close>

definition planned_reembed_backfill :: "json_codec \<Rightarrow> queue_delegates \<Rightarrow> tree_db \<Rightarrow> new_job option result" where
  "planned_reembed_backfill js dg db =
    (let sig = qd_active_signature dg db in
     case qd_has_uncovered_reembed_work dg sig db of
       Inl e \<Rightarrow> Inl e
     | Inr uncovered \<Rightarrow>
        Inr (if uncovered then Some (new_reembed_backfill js \<lparr>rb_signature = sig\<rparr>) else None))"

definition enqueue_job :: "queue_config \<Rightarrow> string \<Rightarrow> int \<Rightarrow> new_job \<Rightarrow> tree_db \<Rightarrow> string option \<times> tree_db" where
  "enqueue_job cfg uuid now_ms j db =
    (case enqueue cfg uuid now_ms j (db_jobs db) of (r, t) \<Rightarrow> (r, db\<lparr>db_jobs := t\<rparr>))"

definition ensure_reembed_backfill ::
    "json_codec \<Rightarrow> queue_config \<Rightarrow> queue_delegates \<Rightarrow> string \<Rightarrow> int \<Rightarrow> queue_state \<Rightarrow> unit result \<times> queue_state" where
  "ensure_reembed_backfill js cfg dg uuid now_ms s =
    (case planned_reembed_backfill js dg (qs_db s) of
       Inl e \<Rightarrow> (Inl e, s)
     | Inr None \<Rightarrow> (Inr (), s)
     | Inr (Some j) \<Rightarrow>
        (case enqueue_job cfg uuid now_ms j (qs_db s) of
           (r, db) \<Rightarrow> (Inr (), if r \<noteq> None then set_backfill_in_progress True (s\<lparr>qs_db := db\<rparr>)
                              else s\<lparr>qs_db := db\<rparr>)))"

subsection \<open>Handlers\<close>

definition handle_extract :: "json_codec \<Rightarrow> queue_delegates \<Rightarrow> job \<Rightarrow> queue_state \<Rightarrow>
    job_plan result \<times> queue_state" where
  "handle_extract js dg j s =
    (case parse_payload (dec_extract_chunk js) j ''ExtractChunk'' of
       Inl e \<Rightarrow> (Inl e, s)
     | Inr p \<Rightarrow>
        (case qd_extract_chunk dg (ec_chunk_id p) (qs_db s) of
           (Inl e, db) \<Rightarrow> (Inl e, s\<lparr>qs_db := db\<rparr>)
         | (Inr None, db) \<Rightarrow> (Inr (plan_done []), s\<lparr>qs_db := db\<rparr>)
         | (Inr (Some d), db) \<Rightarrow>
            (let s' = s\<lparr>qs_db := db\<rparr>;
                 append = (if ed_kept d \<and> \<not> ed_uses_document_subtree d
                   then [new_append_buffer js \<lparr>ab_node = Leaf (ec_chunk_id p),
                           ab_target = Target_Source (ed_tree_scope d)\<rparr>] else [])
             in if ed_kept d
                then (case planned_reembed_backfill js dg db of
                        Inl e \<Rightarrow> (Inl e, s')
                      | Inr None \<Rightarrow> (Inr (plan_done append), s')
                      | Inr (Some f) \<Rightarrow> (Inr (plan_done (append @ [f])), s'))
                else (Inr (plan_done append), s'))))"

definition handle_append_buffer :: "json_codec \<Rightarrow> queue_delegates \<Rightarrow> job \<Rightarrow> queue_state \<Rightarrow>
    job_plan result \<times> queue_state" where
  "handle_append_buffer js dg j s =
    (case parse_payload (dec_append_buffer js) j ''AppendBuffer'' of
       Inl e \<Rightarrow> (Inl e, s)
     | Inr p \<Rightarrow>
        (case qd_append_node dg (ab_node p) (ab_target p) (qs_db s) of
           (Inl e, db) \<Rightarrow> (Inl e, s\<lparr>qs_db := db\<rparr>)
         | (Inr None, db) \<Rightarrow> (Inr (plan_done []), s\<lparr>qs_db := db\<rparr>)
         | (Inr (Some d), db) \<Rightarrow>
            (Inr (plan_done (if ad_should_seal d
               then [new_seal js \<lparr>sp_tree_id = ad_tree_id d, sp_level = 0, sp_force_now_ms = None\<rparr>]
               else [])), s\<lparr>qs_db := db\<rparr>)))"

definition handle_seal :: "json_codec \<Rightarrow> queue_delegates \<Rightarrow> job \<Rightarrow> queue_state \<Rightarrow>
    job_plan result \<times> queue_state" where
  "handle_seal js dg j s =
    (case parse_payload (dec_seal js) j ''Seal'' of
       Inl e \<Rightarrow> (Inl e, s)
     | Inr p \<Rightarrow>
        (case qd_seal_level dg p (qs_db s) of
           (Inl e, db) \<Rightarrow> (Inl e, s\<lparr>qs_db := db\<rparr>)
         | (Inr parent, db) \<Rightarrow>
            (Inr (plan_done (case parent of None \<Rightarrow> [] | Some q \<Rightarrow> [new_seal js q])), s\<lparr>qs_db := db\<rparr>)))"

definition handle_flush_stale :: "json_codec \<Rightarrow> queue_delegates \<Rightarrow> int \<Rightarrow> job \<Rightarrow> queue_state \<Rightarrow>
    job_plan result \<times> queue_state" where
  "handle_flush_stale js dg now_ms j s =
    (case parse_payload (dec_flush_stale js) j ''FlushStale'' of
       Inl e \<Rightarrow> (Inl e, s)
     | Inr p \<Rightarrow>
        (let age_secs = (case fs_max_age_secs p of Some a \<Rightarrow> a | None \<Rightarrow> L0_DEFAULT_FLUSH_AGE_SECS) in
         case qd_list_stale_buffers dg age_secs (qs_db s) of
           Inl e \<Rightarrow> (Inl e, s)
         | Inr bufs \<Rightarrow> (Inr (plan_done (map (\<lambda>b. new_seal js \<lparr>sp_tree_id = sb_tree_id b,
             sp_level = sb_level b, sp_force_now_ms = Some now_ms\<rparr>) bufs)), s)))"

definition handle_seal_document :: "json_codec \<Rightarrow> queue_delegates \<Rightarrow> job \<Rightarrow> queue_state \<Rightarrow>
    job_plan result \<times> queue_state" where
  "handle_seal_document js dg j s =
    (case parse_payload (dec_seal_document js) j ''SealDocument'' of
       Inl e \<Rightarrow> (Inl e, s)
     | Inr p \<Rightarrow>
        (if sd_chunk_ids p = [] then (Inr (plan_done []), s)
         else case qd_seal_document dg p (qs_db s) of
                (Inl e, db) \<Rightarrow> (Inl e, s\<lparr>qs_db := db\<rparr>)
              | (Inr _, db) \<Rightarrow> (Inr (plan_done []), s\<lparr>qs_db := db\<rparr>)))"

definition handle_reembed_backfill :: "json_codec \<Rightarrow> queue_delegates \<Rightarrow> int \<Rightarrow> job \<Rightarrow> queue_state \<Rightarrow>
    job_plan result \<times> queue_state" where
  "handle_reembed_backfill js dg now_ms j s =
    (case parse_payload (dec_reembed_backfill js) j ''ReembedBackfill'' of
       Inl e \<Rightarrow> (Inl e, s)
     | Inr p \<Rightarrow>
        (case qd_reembed_batch dg (rb_signature p) (qs_db s) of
           (Inl e, db) \<Rightarrow> (Inl e, s\<lparr>qs_db := db\<rparr>)
         | (Inr (Wrote True), db) \<Rightarrow>
             (Inr (plan_outcome (Outcome_Defer (wrap64 (now_ms + REEMBED_BACKFILL_REVISIT_MS))
                ''re-embed backfill: batch done, more pending'')),
              set_backfill_in_progress True (s\<lparr>qs_db := db\<rparr>))
         | (Inr _, db) \<Rightarrow> (Inr (plan_done []), set_backfill_in_progress False (s\<lparr>qs_db := db\<rparr>))))"

definition plan_job :: "json_codec \<Rightarrow> queue_delegates \<Rightarrow> int \<Rightarrow> job \<Rightarrow> queue_state \<Rightarrow>
    job_plan result \<times> queue_state" where
  "plan_job js dg now_ms j =
    (case job_kind j of
       ExtractChunk \<Rightarrow> handle_extract js dg j
     | AppendBuffer \<Rightarrow> handle_append_buffer js dg j
     | Seal \<Rightarrow> handle_seal js dg j
     | FlushStale \<Rightarrow> handle_flush_stale js dg now_ms j
     | ReembedBackfill \<Rightarrow> handle_reembed_backfill js dg now_ms j
     | SealDocument \<Rightarrow> handle_seal_document js dg j)"

fun enqueue_follow_ups :: "queue_config \<Rightarrow> (nat \<Rightarrow> string) \<Rightarrow> int \<Rightarrow> new_job list \<Rightarrow> queue_state \<Rightarrow> queue_state" where
  "enqueue_follow_ups cfg uuid now_ms [] s = s"
| "enqueue_follow_ups cfg uuid now_ms (f # fs) s =
    (case enqueue_job cfg (uuid 0) now_ms f (qs_db s) of
       (r, db) \<Rightarrow> enqueue_follow_ups cfg (\<lambda>i. uuid (Suc i)) now_ms fs
         (if r \<noteq> None \<and> nj_kind f = ReembedBackfill then set_backfill_in_progress True (s\<lparr>qs_db := db\<rparr>)
          else s\<lparr>qs_db := db\<rparr>))"

definition handle_job :: "json_codec \<Rightarrow> queue_config \<Rightarrow> queue_delegates \<Rightarrow> (nat \<Rightarrow> string) \<Rightarrow> int \<Rightarrow> job \<Rightarrow>
    queue_state \<Rightarrow> job_outcome result \<times> queue_state" where
  "handle_job js cfg dg uuid now_ms j s =
    (case plan_job js dg now_ms j s of
       (Inl e, s') \<Rightarrow> (Inl e, s')
     | (Inr plan, s') \<Rightarrow> (Inr (jp_outcome plan), enqueue_follow_ups cfg uuid now_ms (jp_follow_ups plan) s'))"

subsection \<open>Scheduler (scheduler.rs)\<close>

text \<open>\<^verbatim>\<open>today_iso\<close> and \<^verbatim>\<open>hour\<close> are the date and hour of one clock reading.\<close>

definition enqueue_flush_stale :: "json_codec \<Rightarrow> queue_config \<Rightarrow> string \<Rightarrow> int \<Rightarrow> string \<Rightarrow> nat \<Rightarrow> jobs \<Rightarrow>
    string option \<times> jobs" where
  "enqueue_flush_stale js cfg uuid now_ms today_iso hour =
    enqueue cfg uuid now_ms (new_flush_stale js \<lparr>fs_max_age_secs = None\<rparr> today_iso (hour div 3))"

definition self_heal :: "int \<Rightarrow> (nat, jobs) tx" where
  "self_heal now_ms = requeue_transient_failed now_ms"

subsection \<open>Follow-ups are never lost\<close>

text \<open>A live row that carries the deduplication key of a request.\<close>

definition edge_live :: "string \<Rightarrow> jobs \<Rightarrow> bool" where
  "edge_live k t \<longleftrightarrow> (\<exists>r\<in>set t. is_active r \<and> row_dedupe_key r = Some k)"

lemma edge_live_key: "edge_live k t \<longleftrightarrow> (\<exists>r\<in>set t. active_key r = Some k)"
  by (auto simp: edge_live_def active_key_def)

lemma edge_live_mono: "edge_live k t \<Longrightarrow> set t \<subseteq> set u \<Longrightarrow> edge_live k u"
  by (auto simp: edge_live_def)

lemma enqueue_conn_live:
  "fresh_uuid u t \<Longrightarrow> nj_dedupe_key f = Some k \<Longrightarrow> edge_live k (snd (enqueue_conn u n f d t))"
  using enqueue_conn_key_active by (simp add: edge_live_key)

lemma fresh_after_enqueue:
  "fresh_uuid v t \<Longrightarrow> u \<noteq> v \<Longrightarrow> fresh_uuid v (snd (enqueue_conn u n f d t))"
  by (auto simp: enqueue_conn_def Let_def fresh_uuid_def new_row_def)

lemma enqueue_all_live:
  assumes "\<forall>i<length fs. fresh_uuid (us i) t" and "inj_on us {..<length fs}"
    and "f \<in> set fs" and "nj_dedupe_key f = Some k"
  shows "edge_live k (enqueue_all us n d fs t)"
  using assms
proof (induction us n d fs t rule: enqueue_all.induct)
  case (2 us n d g fs t)
  let ?t = "snd (enqueue_conn (us 0) n g d t)"
  have rest: "\<forall>i<length fs. fresh_uuid (us (Suc i)) ?t"
  proof (intro allI impI)
    fix i assume i: "i < length fs"
    have "us 0 \<noteq> us (Suc i)" using inj_onD [OF 2(3), of 0 "Suc i"] i by auto
    then show "fresh_uuid (us (Suc i)) ?t" using 2(2) i by (intro fresh_after_enqueue) auto
  qed
  have inj: "inj_on (\<lambda>i. us (Suc i)) {..<length fs}"
    using 2(3) by (auto simp: inj_on_def)
  show ?case
  proof (cases "f = g")
    case True
    have "edge_live k ?t" using enqueue_conn_live [of "us 0" t g k] 2(2,5) True by simp
    then show ?thesis using edge_live_mono enqueue_all_mono by fastforce
  next
    case False
    then show ?thesis using 2(1) [OF rest inj _ 2(5)] 2(4) by simp
  qed
qed simp

lemma fresh_after_enqueue_all:
  "fresh_uuid v t \<Longrightarrow> v \<notin> us ` {..<length fs} \<Longrightarrow> fresh_uuid v (enqueue_all us n d fs t)"
proof (induction us n d fs t rule: enqueue_all.induct)
  case (2 us n d f fs t)
  have "v \<noteq> us 0" using 2(3) by (metis image_eqI length_Cons lessThan_iff zero_less_Suc)
  then have "fresh_uuid v (snd (enqueue_conn (us 0) n f d t))"
    by (intro fresh_after_enqueue [OF 2(2)]) simp
  moreover have "v \<notin> (\<lambda>i. us (Suc i)) ` {..<length fs}" using 2(3) by auto
  ultimately show ?case using 2(1) by simp
qed simp

lemma fresh_uuid_ids: "row_id ` set t = row_id ` set u \<Longrightarrow> fresh_uuid v t = fresh_uuid v u"
  by (auto simp: fresh_uuid_def list_all_iff) (metis image_eqI imageE)+

subsection \<open>Malformed payloads\<close>

text \<open>A job whose payload does not parse for its kind.\<close>

definition payload_malformed :: "json_codec \<Rightarrow> job \<Rightarrow> bool" where
  "payload_malformed js j \<longleftrightarrow>
    (case job_kind j of
       ExtractChunk \<Rightarrow> (\<exists>m. dec_extract_chunk js (job_payload_json j) = Inl m)
     | AppendBuffer \<Rightarrow> (\<exists>m. dec_append_buffer js (job_payload_json j) = Inl m)
     | Seal \<Rightarrow> (\<exists>m. dec_seal js (job_payload_json j) = Inl m)
     | FlushStale \<Rightarrow> (\<exists>m. dec_flush_stale js (job_payload_json j) = Inl m)
     | ReembedBackfill \<Rightarrow> (\<exists>m. dec_reembed_backfill js (job_payload_json j) = Inl m)
     | SealDocument \<Rightarrow> (\<exists>m. dec_seal_document js (job_payload_json j) = Inl m))"

lemma plan_job_malformed:
  assumes "payload_malformed js j"
  shows "\<exists>e. plan_job js dg now j s = (Inl e, s) \<and> err_job_failure e = Some malformed_payload"
  using assms unfolding payload_malformed_def plan_job_def
  by (cases "job_kind j")
    (auto simp: handle_extract_def handle_append_buffer_def handle_seal_def handle_flush_stale_def
      handle_reembed_backfill_def handle_seal_document_def parse_payload_def)

end
