(* ===== verification/Queue_Worker.thy ===== *)
theory Queue_Worker
  imports Queue_Handlers
begin

section \<open>The worker (src/memory/queue/worker.rs, gate.rs, runtime)\<close>

text \<open>
  One turn of a worker claims a job, takes a permit of the gate when the job is bound to the language
  model, plans it and settles it. Each of claim, defer and settle is a transaction of its own; the
  clock readings and UUIDs of a turn are arguments.
\<close>

subsection \<open>The gate (gate.rs)\<close>

text \<open>The state of the gate is the number of free permits; a permit held is one less.\<close>

definition DEFAULT_LLM_PERMITS :: nat where "DEFAULT_LLM_PERMITS = 1"

definition gate_new :: "nat \<Rightarrow> nat" where
  "gate_new permits = max permits 1"

definition try_acquire :: "queue_state \<Rightarrow> bool \<times> queue_state" where
  "try_acquire s = (if qs_permits s = 0 then (False, s) else (True, s\<lparr>qs_permits := qs_permits s - 1\<rparr>))"

definition release_permit :: "queue_state \<Rightarrow> queue_state" where
  "release_permit s = s\<lparr>qs_permits := qs_permits s + 1\<rparr>"

subsection \<open>Settlement\<close>

definition LLM_GATE_RETRY_MS :: int where "LLM_GATE_RETRY_MS = 50"

text \<open>The transactions of the job store, on the database the table is part of.\<close>

definition on_jobs :: "('a, jobs) tx \<Rightarrow> queue_state \<Rightarrow> 'a result \<times> queue_state" where
  "on_jobs f s = (case run_tx f (db_jobs (qs_db s)) of
     (r, t) \<Rightarrow> (r, s\<lparr>qs_db := (qs_db s)\<lparr>db_jobs := t\<rparr>\<rparr>))"

definition row_has_status :: "string \<Rightarrow> job_status \<Rightarrow> jobs \<Rightarrow> bool result" where
  "row_has_status i st t = (case get_job i t of
     Inl e \<Rightarrow> Inl e | Inr None \<Rightarrow> Inr False | Inr (Some current) \<Rightarrow> Inr (job_status current = st))"

record turn =
  tn_claim_ms :: int
  tn_defer_ms :: int
  tn_plan_ms :: int
  tn_settle_ms :: int
  tn_reseal_ms :: int
  tn_uuid :: "nat \<Rightarrow> string"
  tn_reseal_uuid :: string

text \<open>After a seal, the same level is checked again now that its deduplication key is free.\<close>

definition reseal :: "json_codec \<Rightarrow> memory_config \<Rightarrow> turn \<Rightarrow> job \<Rightarrow> queue_state \<Rightarrow> unit result \<times> queue_state" where
  "reseal js cfg tn j s =
    (case dec_seal js (job_payload_json j) of
       Inl m \<Rightarrow> (Inl (plain_error m), s)
     | Inr p \<Rightarrow>
        (if should_seal (cfg_tree cfg) (get_buffer (sp_tree_id p) (sp_level p) (qs_db s))
         then (Inr (), s\<lparr>qs_db := snd (enqueue_job (cfg_queue cfg) (tn_reseal_uuid tn) (tn_reseal_ms tn)
                 (new_seal js p) (qs_db s))\<rparr>)
         else (Inr (), s)))"

definition settle_plan_done :: "json_codec \<Rightarrow> memory_config \<Rightarrow> turn \<Rightarrow> job \<Rightarrow> new_job list \<Rightarrow> queue_state \<Rightarrow>
    unit result \<times> queue_state" where
  "settle_plan_done js cfg tn j follow_ups s =
    (case on_jobs (mark_done_with_followups (cfg_queue cfg) (tn_uuid tn) (tn_settle_ms tn) j follow_ups) s of
       (Inl e, s1) \<Rightarrow> (Inl e, s1)
     | (Inr committed, s1) \<Rightarrow>
        (let s2 = (if committed \<and> list_ex (\<lambda>f. nj_kind f = ReembedBackfill) follow_ups
             then set_backfill_in_progress True s1 else s1)
         in if job_kind j = Seal
            then (case row_has_status (job_id j) Done (db_jobs (qs_db s2)) of
                    Inl e \<Rightarrow> (Inl e, s2)
                  | Inr False \<Rightarrow> (Inr (), s2)
                  | Inr True \<Rightarrow> reseal js cfg tn j s2)
            else (Inr (), s2)))"

text \<open>What the settle reads out of an error: the typed failure first, else the pipeline's.\<close>

definition typed_failure :: "anyhow_error \<Rightarrow> job_failure option" where
  "typed_failure e = (case err_job_failure e of Some f \<Rightarrow> Some f | None \<Rightarrow> err_pipeline e)"

definition settle_error :: "memory_config \<Rightarrow> turn \<Rightarrow> job \<Rightarrow> anyhow_error \<Rightarrow> queue_state \<Rightarrow>
    unit result \<times> queue_state" where
  "settle_error cfg tn j err s =
    (case on_jobs (mark_failed_typed (cfg_queue cfg) (tn_settle_ms tn) j (err_msg err) (typed_failure err)) s of
       (Inl e, s1) \<Rightarrow> (Inl e, s1)
     | (Inr _, s1) \<Rightarrow>
        (if job_kind j = ReembedBackfill
         then (case row_has_status (job_id j) Failed (db_jobs (qs_db s1)) of
                 Inl e \<Rightarrow> (Inl e, s1)
               | Inr failed \<Rightarrow> (Inr (), if failed then set_backfill_in_progress False s1 else s1))
         else (Inr (), s1)))"

definition settle_planned_job :: "json_codec \<Rightarrow> memory_config \<Rightarrow> turn \<Rightarrow> job \<Rightarrow> job_plan result \<Rightarrow>
    queue_state \<Rightarrow> unit result \<times> queue_state" where
  "settle_planned_job js cfg tn j res s =
    (case res of
       Inr plan \<Rightarrow>
        (case jp_outcome plan of
           Outcome_Done \<Rightarrow> settle_plan_done js cfg tn j (jp_follow_ups plan) s
         | Outcome_Defer until_ms why \<Rightarrow>
             on_jobs (mark_deferred (cfg_queue cfg) (tn_settle_ms tn) j until_ms why) s)
     | Inl err \<Rightarrow> settle_error cfg tn j err s)"

subsection \<open>One turn\<close>

text \<open>A job at hand: the gate, the handler, the permit back, the settle.\<close>

definition run_claimed :: "json_codec \<Rightarrow> memory_config \<Rightarrow> queue_delegates \<Rightarrow> turn \<Rightarrow> job \<Rightarrow> queue_state \<Rightarrow>
    bool result \<times> queue_state" where
  "run_claimed js cfg dg tn j s =
    (let go = (\<lambda>s1 after. case plan_job js dg (tn_plan_ms tn) j s1 of (res, s2) \<Rightarrow>
           (case settle_planned_job js cfg tn j res (after s2) of
              (Inl e, s3) \<Rightarrow> (Inl e, s3) | (Inr _, s3) \<Rightarrow> (Inr True, s3)))
     in if is_llm_bound (job_kind j)
        then (case try_acquire s of
                (False, s1) \<Rightarrow>
                  (case on_jobs (mark_deferred (cfg_queue cfg) (tn_defer_ms tn) j
                      (wrap64 (tn_defer_ms tn + LLM_GATE_RETRY_MS)) ''llm concurrency gate busy'') s1 of
                     (Inl e, s2) \<Rightarrow> (Inl e, s2) | (Inr _, s2) \<Rightarrow> (Inr True, s2))
              | (True, s1) \<Rightarrow> go s1 release_permit)
        else go s id)"

definition run_once_with_gate :: "json_codec \<Rightarrow> memory_config \<Rightarrow> queue_delegates \<Rightarrow> turn \<Rightarrow> queue_state \<Rightarrow>
    bool result \<times> queue_state" where
  "run_once_with_gate js cfg dg tn s =
    (case claim_next (tn_claim_ms tn) (qc_lock_duration_ms (cfg_queue cfg)) (db_jobs (qs_db s)) of
       (r, t) \<Rightarrow>
        (let s1 = s\<lparr>qs_db := (qs_db s)\<lparr>db_jobs := t\<rparr>\<rparr>
         in case r of
              Inl e \<Rightarrow> (Inl e, s1)
            | Inr None \<Rightarrow> (Inr False, s1)
            | Inr (Some j) \<Rightarrow> run_claimed js cfg dg tn j s1))"

definition bootstrap :: "int \<Rightarrow> queue_state \<Rightarrow> (nat \<times> nat) result \<times> queue_state" where
  "bootstrap now_ms s =
    (case purge_retired_jobs (db_jobs (qs_db s)) of
       (purged, t) \<Rightarrow>
        (let s1 = s\<lparr>qs_db := (qs_db s)\<lparr>db_jobs := t\<rparr>\<rparr>
         in case on_jobs (recover_stale_locks now_ms) s1 of
              (Inl e, s2) \<Rightarrow> (Inl e, s2)
            | (Inr recovered, s2) \<Rightarrow> (Inr (purged, recovered), s2)))"

text \<open>
  \<^verbatim>\<open>drain_until_idle\<close> (testing.rs) repeats turns until one finds nothing; it may run forever, since a
  handler may always add work.
\<close>

partial_function (option) drain_until_idle :: "json_codec \<Rightarrow> memory_config \<Rightarrow> queue_delegates \<Rightarrow>
    (nat \<Rightarrow> turn) \<Rightarrow> nat \<Rightarrow> queue_state \<Rightarrow> (unit result \<times> queue_state) option" where
  "drain_until_idle js cfg dg tns k s =
    (case run_once_with_gate js cfg dg (tns k) s of
       (Inl e, s') \<Rightarrow> Some (Inl e, s')
     | (Inr worked, s') \<Rightarrow> (if worked then drain_until_idle js cfg dg tns (k + 1) s' else Some (Inr (), s')))"

subsection \<open>Classifiers\<close>

definition lower_char :: "char \<Rightarrow> char" where
  "lower_char c = (if (65 :: nat) \<le> of_char c \<and> of_char c \<le> (90 :: nat) then char_of (of_char c + (32 :: nat)) else c)"

definition to_ascii_lowercase :: "string \<Rightarrow> string" where
  "to_ascii_lowercase = map lower_char"

definition message_contains :: "anyhow_error \<Rightarrow> string list \<Rightarrow> bool" where
  "message_contains e pats = list_ex (\<lambda>p. sublist p (to_ascii_lowercase (err_msg e))) pats"

definition is_sqlite_busy :: "anyhow_error \<Rightarrow> bool" where
  "is_sqlite_busy e = (case err_sqlite e of
     Some (c, x) \<Rightarrow> c = DatabaseBusy \<or> c = DatabaseLocked
   | None \<Rightarrow> message_contains e [''database is locked'', ''database table is locked''])"

definition is_sqlite_io_transient :: "anyhow_error \<Rightarrow> bool" where
  "is_sqlite_io_transient e \<longleftrightarrow>
    (case err_sqlite e of Some (c, x) \<Rightarrow> x \<in> {14, 1546, 4618, 4874, 5386, 8714} \<or> c = CannotOpen | None \<Rightarrow> False) \<or>
    message_contains e [''circuit breaker open'', ''disk i/o error'', ''unable to open database file'',
      ''xshmmap'', ''truncate file'']"

definition is_sqlite_disk_full :: "anyhow_error \<Rightarrow> bool" where
  "is_sqlite_disk_full e \<longleftrightarrow>
    (case err_sqlite e of Some (c, x) \<Rightarrow> c = DiskFull | None \<Rightarrow> False) \<or>
    message_contains e [''database or disk is full'', ''insertion failed because database is full'']"

definition is_sqlite_corrupt :: "anyhow_error \<Rightarrow> bool" where
  "is_sqlite_corrupt e \<longleftrightarrow>
    (case err_sqlite e of Some (c, x) \<Rightarrow> c = DatabaseCorrupt \<or> c = NotADatabase | None \<Rightarrow> False) \<or>
    message_contains e [''database disk image is malformed'', ''file is not a database'']"

definition is_host_io_error :: "anyhow_error \<Rightarrow> bool" where
  "is_host_io_error e \<longleftrightarrow>
    (case err_os e of Some n \<Rightarrow> n = 5 \<or> n = 28 \<or> n = 30 | None \<Rightarrow> False) \<or>
    message_contains e [''(os error 5)'', ''(os error 28)'', ''(os error 30)'']"

subsection \<open>Loops (runtime)\<close>

text \<open>Durations in milliseconds.\<close>

record worker_loop_config =
  wl_idle_backoff :: nat
  wl_busy_backoff :: nat
  wl_io_backoff :: nat
  wl_disk_full_backoff :: nat
  wl_host_io_backoff :: nat
  wl_error_backoff :: nat

definition worker_loop_config_default :: worker_loop_config where
  "worker_loop_config_default = \<lparr>wl_idle_backoff = 250, wl_busy_backoff = 100, wl_io_backoff = 1000,
     wl_disk_full_backoff = 30000, wl_host_io_backoff = 30000, wl_error_backoff = 500\<rparr>"

definition SCHEDULER_TICK_MS :: nat where "SCHEDULER_TICK_MS = 600 * 1000"

definition SLEEP_SLICE_MS :: nat where "SLEEP_SLICE_MS = 200"

definition backoff_for :: "anyhow_error \<Rightarrow> worker_loop_config \<Rightarrow> nat option" where
  "backoff_for e opts =
    (if is_sqlite_corrupt e then None
     else if is_host_io_error e then Some (wl_host_io_backoff opts)
     else if is_sqlite_disk_full e then Some (wl_disk_full_backoff opts)
     else if is_sqlite_io_transient e then Some (wl_io_backoff opts)
     else if is_sqlite_busy e then Some (wl_busy_backoff opts)
     else Some (wl_error_backoff opts))"

text \<open>\<^verbatim>\<open>trig k\<close> is what the k-th look at the shutdown flag sees; the slices slept, in order.\<close>

function interruptible_sleep :: "(nat \<Rightarrow> bool) \<Rightarrow> nat \<Rightarrow> nat \<Rightarrow> nat list" where
  "interruptible_sleep trig k remaining =
    (if remaining = 0 then []
     else if trig k then []
     else let slice = min remaining SLEEP_SLICE_MS in
          slice # interruptible_sleep trig (k + 1) (remaining - slice))"
  by pat_completeness auto
termination by (relation "measure (\<lambda>(_, _, r). r)") (auto simp: SLEEP_SLICE_MS_def)

declare interruptible_sleep.simps [simp del]

datatype iteration = Poll_Again | Pause nat | Recover_Database | Stop anyhow_error

text \<open>One pass of \<^verbatim>\<open>run_worker\<close>: what it does after a turn returned.\<close>

definition worker_iteration :: "worker_loop_config \<Rightarrow> bool result \<Rightarrow> iteration" where
  "worker_iteration opts r =
    (case r of
       Inr True \<Rightarrow> Poll_Again
     | Inr False \<Rightarrow> Pause (wl_idle_backoff opts)
     | Inl e \<Rightarrow> (if is_sqlite_corrupt e then Recover_Database
        else (case backoff_for e opts of Some b \<Rightarrow> Pause b | None \<Rightarrow> Stop e)))"

text \<open>
  \<^verbatim>\<open>run_worker\<close> until the flag is seen set, for the first \<^verbatim>\<open>fuel\<close> passes: \<^verbatim>\<open>None\<close> when it is still
  running then. \<^verbatim>\<open>recover\<close> is \<^verbatim>\<open>recover_corrupt_db\<close>.
\<close>

fun run_worker :: "(nat \<Rightarrow> queue_state \<Rightarrow> bool result \<times> queue_state) \<Rightarrow> (queue_state \<Rightarrow> unit result \<times> queue_state) \<Rightarrow>
    worker_loop_config \<Rightarrow> (nat \<Rightarrow> bool) \<Rightarrow> nat \<Rightarrow> nat \<Rightarrow> queue_state \<Rightarrow> (unit result \<times> queue_state) option" where
  "run_worker once recover opts trig k 0 s = None"
| "run_worker once recover opts trig k (Suc fuel) s =
    (if trig k then Some (Inr (), s)
     else case once k s of (r, s') \<Rightarrow>
       (case worker_iteration opts r of
          Poll_Again \<Rightarrow> run_worker once recover opts trig (k + 1) fuel s'
        | Pause b \<Rightarrow> run_worker once recover opts trig (k + 1) fuel s'
        | Recover_Database \<Rightarrow> (case recover s' of
             (Inl e, s'') \<Rightarrow> Some (Inl (with_context ''recover corrupt queue database'' e), s'')
           | (Inr _, s'') \<Rightarrow> run_worker once recover opts trig (k + 1) fuel s'')
        | Stop e \<Rightarrow> Some (Inl e, s')))"

text \<open>
  One tick of \<^verbatim>\<open>run_scheduler\<close>: three steps whose errors are swallowed, except that corruption
  recovers the database and starts the tick over (\<^verbatim>\<open>False\<close>).
\<close>

fun scheduler_tick :: "(queue_state \<Rightarrow> unit result \<times> queue_state) list \<Rightarrow>
    (queue_state \<Rightarrow> unit result \<times> queue_state) \<Rightarrow> queue_state \<Rightarrow> bool result \<times> queue_state" where
  "scheduler_tick [] recover s = (Inr True, s)"
| "scheduler_tick (f # fs) recover s =
    (case f s of
       (Inl e, s') \<Rightarrow>
        (if is_sqlite_corrupt e
         then (case recover s' of
                 (Inl e', s'') \<Rightarrow> (Inl (with_context ''recover corrupt queue database'' e'), s'')
               | (Inr _, s'') \<Rightarrow> (Inr False, s''))
         else scheduler_tick fs recover s')
     | (Inr _, s') \<Rightarrow> scheduler_tick fs recover s')"

subsection \<open>Permits\<close>

lemma set_flag_simps [simp]:
  "qs_db (set_backfill_in_progress v s) = qs_db s"
  "qs_permits (set_backfill_in_progress v s) = qs_permits s"
  "qs_backfill (set_backfill_in_progress v s) = v"
  by (simp_all add: set_backfill_in_progress_def)

lemma on_jobs_simps:
  "on_jobs f s = (r, s') \<Longrightarrow> qs_permits s' = qs_permits s \<and> qs_backfill s' = qs_backfill s \<and>
    (\<exists>t. qs_db s' = (qs_db s)\<lparr>db_jobs := t\<rparr>)"
  by (auto simp: on_jobs_def split: prod.splits)

lemma plan_job_permits: "plan_job js dg n j s = (r, s') \<Longrightarrow> qs_permits s' = qs_permits s"
  unfolding plan_job_def
  by (cases "job_kind j")
    (auto simp: handle_extract_def handle_append_buffer_def handle_seal_def handle_flush_stale_def
      handle_reembed_backfill_def handle_seal_document_def Let_def
      split: sum.splits prod.splits option.splits reembed_progress.splits if_splits bool.splits)

lemma settle_permits: "settle_planned_job js cfg tn j res s = (r, s') \<Longrightarrow> qs_permits s' = qs_permits s"
  unfolding settle_planned_job_def settle_plan_done_def settle_error_def reseal_def Let_def
  by (auto split: sum.splits prod.splits job_outcome.splits if_splits bool.splits dest!: on_jobs_simps)

lemma run_claimed_permits [simp]: "qs_permits (snd (run_claimed js cfg dg tn j s)) = qs_permits s"
proof (cases "is_llm_bound (job_kind j)")
  case False
  then show ?thesis
    by (auto simp: run_claimed_def Let_def split: prod.splits sum.splits dest!: plan_job_permits settle_permits)
next
  case True
  show ?thesis
  proof (cases "qs_permits s = 0")
    case busy: True
    then show ?thesis using True
      by (auto simp: run_claimed_def try_acquire_def Let_def split: prod.splits sum.splits dest!: on_jobs_simps)
  next
    case False
    then show ?thesis using True
      by (auto simp: run_claimed_def try_acquire_def release_permit_def Let_def
          split: prod.splits sum.splits dest!: plan_job_permits settle_permits)
  qed
qed

text \<open>
  C10: the gate neither leaks nor invents permits: whatever a turn does, success, error or defer,
  it leaves as many free permits as it found. When none is free, a model-bound job runs no delegate
  at all: whatever the host's code, the turn only gives the job back for 50 ms.
\<close>

theorem turn_conserves_permits:
  "qs_permits (snd (run_once_with_gate js cfg dg tn s)) = qs_permits s
   \<and> (is_llm_bound (job_kind j) \<and> qs_permits s = 0 \<longrightarrow>
      snd (run_claimed js cfg dg tn j s) = snd (on_jobs (mark_deferred (cfg_queue cfg) (tn_defer_ms tn) j
        (wrap64 (tn_defer_ms tn + 50)) ''llm concurrency gate busy'') s))"
proof (intro conjI impI)
  show "qs_permits (snd (run_once_with_gate js cfg dg tn s)) = qs_permits s"
    by (simp add: run_once_with_gate_def Let_def split: prod.splits sum.splits option.splits)
qed (auto simp: run_claimed_def try_acquire_def LLM_GATE_RETRY_MS_def split: prod.splits sum.splits)

subsection \<open>A job under its token\<close>

text \<open>What a worker holds right after a claim: the row it took, running and readable.\<close>

definition holds :: "job \<Rightarrow> job_row \<Rightarrow> jobs \<Rightarrow> bool" where
  "holds j r t \<longleftrightarrow> jobs_ok t \<and> r \<in> set t \<and> token_match j r \<and> row_status r = ''running'' \<and>
     row_kind r = job_kind_as_str (job_kind j)"

lemma holdsD:
  assumes "holds j r t"
  shows "jobs_ok t" "r \<in> set t" "token_match j r" "is_active r" "row_id r = job_id j"
    "row_kind r = job_kind_as_str (job_kind j)"
  using assms by (simp_all add: holds_def is_active_def token_match_def)

lemma get_job_row:
  assumes "jobs_ok t" "q \<in> set t" "row_id q = i" "row_kind q = job_kind_as_str k"
    and "row_status q = job_status_as_str st"
  shows "row_has_status i st' t = Inr (st = st')"
proof -
  have "sql_find (\<lambda>r. row_id r = i) t = Some q" by (rule jobs.find_key' [OF assms(1-3)])
  then show ?thesis using assms(4,5) by (simp add: row_has_status_def get_job_def row_to_job_def)
qed

lemma holds_update:
  assumes "holds j r t" and "\<And>q. row_id (f q) = row_id q"
    and "\<And>q. active_key (f q) = None \<or> active_key (f q) = row_dedupe_key q"
  shows "jobs_ok (sql_update (token_match j) f t)"
    and "set (sql_update (token_match j) f t) = insert (f r) (set t - {r})"
proof -
  note h = holdsD [OF assms(1)]
  obtain n where "jobs_update (token_match j) f t = Inr (Suc n, sql_update (token_match j) f t)"
    using token_update_succeeds [OF h(1-4) assms(2,3)] by blast
  then show "jobs_ok (sql_update (token_match j) f t)" using jobs_update_InrD by blast
  show "set (sql_update (token_match j) f t) = insert (f r) (set t - {r})"
    by (rule token_update_set [OF h(1-3)])
qed

subsection \<open>Failures\<close>

lemma settle_error_holds:
  assumes "holds j r (db_jobs (qs_db s))"
  shows "\<exists>s'. settle_error cfg tn j err s = (Inr (), s') \<and>
    qs_db s' = (qs_db s)\<lparr>db_jobs := sql_update (token_match j)
      (if terminal_failure j (typed_failure err) then failed_row (tn_settle_ms tn) (err_msg err) (typed_failure err)
       else retry_row (retry_at (cfg_queue cfg) (tn_settle_ms tn) j) (err_msg err)) (db_jobs (qs_db s))\<rparr> \<and>
    qs_backfill s' = (qs_backfill s \<and>
      \<not> (job_kind j = ReembedBackfill \<and> terminal_failure j (typed_failure err)))"
proof -
  let ?t = "db_jobs (qs_db s)" and ?T = "terminal_failure j (typed_failure err)"
  let ?f = "if ?T then failed_row (tn_settle_ms tn) (err_msg err) (typed_failure err)
       else retry_row (retry_at (cfg_queue cfg) (tn_settle_ms tn) j) (err_msg err)"
  note h = holdsD [OF assms]
  let ?t' = "sql_update (token_match j) ?f ?t"
  have id: "row_id (?f q) = row_id q" "active_key (?f q) = None \<or> active_key (?f q) = row_dedupe_key q" for q
    by simp_all
  note up = holds_update [OF assms id]
  let ?st = "if ?T then Failed else Ready"
  have "identity_of (?f r) = identity_of r" by simp
  then have kind: "row_kind (?f r) = job_kind_as_str (job_kind j)" using h(6) by (simp add: identity_of_def)
  have st: "row_status (?f r) = job_status_as_str ?st" by simp
  have mem: "?f r \<in> set ?t'" using up(2) by blast
  have q: "row_has_status (job_id j) Failed ?t' = Inr (?st = Failed)"
    by (rule get_job_row [OF up(1) mem _ kind st]) (use id(1) h(5) in simp)
  have on: "on_jobs (mark_failed_typed (cfg_queue cfg) (tn_settle_ms tn) j (err_msg err) (typed_failure err)) s =
      (Inr (), s\<lparr>qs_db := (qs_db s)\<lparr>db_jobs := ?t'\<rparr>\<rparr>)"
    using settle_failed [OF h(1-4)] by (simp add: on_jobs_def)
  show ?thesis unfolding settle_error_def on using q
    by (simp add: set_backfill_in_progress_def split: if_splits)
qed

text \<open>
  A poison payload is parked at once. A claimed job whose payload does not parse is settled as
  failed, unrecoverable, with code \<^verbatim>\<open>malformed_payload\<close>, on its first attempt and whatever its attempt
  budget; no delegate runs and nothing else in the database changes; and the self-healing requeue
  leaves the parked row as it is.
\<close>

theorem poison_payload_parked:
  assumes "holds j r (db_jobs (qs_db s))" and "payload_malformed js j"
    and "is_llm_bound (job_kind j) \<longrightarrow> 0 < qs_permits s"
  shows "\<exists>s' q n t'. run_claimed js cfg dg tn j s = (Inr True, s')
    \<and> qs_db s' = (qs_db s)\<lparr>db_jobs := db_jobs (qs_db s')\<rparr>
    \<and> set (db_jobs (qs_db s')) = insert q (set (db_jobs (qs_db s)) - {r})
    \<and> identity_of q = identity_of r \<and> row_status q = ''failed''
    \<and> row_failure_reason q = Some ''malformed_payload'' \<and> row_failure_class q = Some ''unrecoverable''
    \<and> self_heal now (db_jobs (qs_db s')) = Inr (n, t') \<and> q \<in> set t'"
proof -
  let ?s = "if is_llm_bound (job_kind j) then s\<lparr>qs_permits := qs_permits s - 1\<rparr> else s"
  obtain e where plan: "plan_job js dg (tn_plan_ms tn) j ?s = (Inl e, ?s)"
    and e: "err_job_failure e = Some malformed_payload"
    using plan_job_malformed [OF assms(2)] by blast
  have typed: "typed_failure e = Some malformed_payload" using e by (simp add: typed_failure_def)
  then have fatal: "terminal_failure j (typed_failure e)"
    by (simp add: terminal_failure_def malformed_payload_def unrecoverable_def is_unrecoverable_def)
  let ?f = "failed_row (tn_settle_ms tn) (err_msg e) (Some malformed_payload)"
  obtain s' where settle: "settle_error cfg tn j e s = (Inr (), s')"
    and db: "qs_db s' = (qs_db s)\<lparr>db_jobs := sql_update (token_match j) ?f (db_jobs (qs_db s))\<rparr>"
    using settle_error_holds [OF assms(1), of cfg tn e] fatal typed by auto
  have run: "run_claimed js cfg dg tn j s = (Inr True, s')"
    using plan settle assms(3)
    by (auto simp: run_claimed_def try_acquire_def release_permit_def settle_planned_job_def
        split: if_splits)
  have ok: "jobs_ok (db_jobs (qs_db s'))"
    and set': "set (db_jobs (qs_db s')) = insert (?f r) (set (db_jobs (qs_db s)) - {r})"
    using holds_update [OF assms(1), of ?f] db by simp_all
  obtain n where heal: "self_heal now (db_jobs (qs_db s')) =
      Inr (n, map (requeue_spec is_transient_failed now (db_jobs (qs_db s'))) (db_jobs (qs_db s')))"
    using requeue_transient_failed_spec(1) [OF ok] by (auto simp: self_heal_def)
  have "requeue_spec is_transient_failed now (db_jobs (qs_db s')) (?f r) = ?f r"
    by (simp add: requeue_spec_def is_transient_failed_def failed_row_def malformed_payload_def unrecoverable_def)
  moreover have "?f r \<in> set (db_jobs (qs_db s'))" using set' by blast
  ultimately have kept: "?f r \<in> set (map (requeue_spec is_transient_failed now (db_jobs (qs_db s'))) (db_jobs (qs_db s')))"
    by (metis (no_types, lifting) image_eqI set_map)
  show ?thesis
  proof (intro exI conjI)
    show "run_claimed js cfg dg tn j s = (Inr True, s')" by (rule run)
    show "qs_db s' = (qs_db s)\<lparr>db_jobs := db_jobs (qs_db s')\<rparr>" using db by simp
    show "set (db_jobs (qs_db s')) = insert (?f r) (set (db_jobs (qs_db s)) - {r})" by (rule set')
    show "self_heal now (db_jobs (qs_db s')) =
      Inr (n, map (requeue_spec is_transient_failed now (db_jobs (qs_db s'))) (db_jobs (qs_db s')))" by (rule heal)
    show "?f r \<in> set (map (requeue_spec is_transient_failed now (db_jobs (qs_db s'))) (db_jobs (qs_db s')))"
      by (rule kept)
  qed (simp_all add: failed_row_def malformed_payload_def unrecoverable_def identity_of_def)
qed

subsection \<open>Successful settles\<close>

lemma fresh_after_update:
  "(\<And>q. row_id (f q) = row_id q) \<Longrightarrow> fresh_uuid v (sql_update p f t) = fresh_uuid v t"
  by (rule fresh_uuid_ids) (metis map_sql_update set_map)

lemma edge_live_enqueue:
  "edge_live k t \<Longrightarrow> edge_live k (snd (enqueue_conn u n f d t))"
  using edge_live_mono enqueue_conn_mono by blast

text \<open>
  C11: a successful settle loses no edge of the pipeline. The job's row becomes done; for every
  follow-up of the handler there is a live job with its deduplication key in the same committed
  state; and when the job was a seal whose buffer is over its gate again, because content arrived
  while it ran, a live seal job for that buffer exists as well.
\<close>

theorem settle_loses_no_edge:
  assumes "holds j r (db_jobs (qs_db s))"
    and "\<forall>i<length fs. fresh_uuid (tn_uuid tn i) (db_jobs (qs_db s))" and "inj_on (tn_uuid tn) {..<length fs}"
    and "fresh_uuid (tn_reseal_uuid tn) (db_jobs (qs_db s))" and "tn_reseal_uuid tn \<notin> tn_uuid tn ` {..<length fs}"
    and "job_kind j = Seal \<longrightarrow> dec_seal js (job_payload_json j) = Inr p"
  shows "\<exists>s'. settle_planned_job js cfg tn j (Inr (plan_done fs)) s = (Inr (), s')
    \<and> done_row (tn_settle_ms tn) r \<in> set (db_jobs (qs_db s'))
    \<and> (\<forall>f\<in>set fs. \<forall>k. nj_dedupe_key f = Some k \<longrightarrow> edge_live k (db_jobs (qs_db s')))
    \<and> (job_kind j = Seal \<and> should_seal (cfg_tree cfg) (get_buffer (sp_tree_id p) (sp_level p) (qs_db s'))
        \<longrightarrow> edge_live (seal_dedupe_key p) (db_jobs (qs_db s')))
    \<and> qs_db s' = (qs_db s)\<lparr>db_jobs := db_jobs (qs_db s')\<rparr>"
proof -
  let ?t = "db_jobs (qs_db s)" and ?f = "done_row (tn_settle_ms tn)" and ?d = "qc_max_attempts (cfg_queue cfg)"
  note h = holdsD [OF assms(1)]
  have f: "row_id (?f q) = row_id q" "active_key (?f q) = None \<or> active_key (?f q) = row_dedupe_key q" for q
    by simp_all
  let ?t1 = "sql_update (token_match j) ?f ?t"
  let ?t2 = "enqueue_all (tn_uuid tn) (tn_settle_ms tn) ?d fs ?t1"
  note up = holds_update [OF assms(1) f]
  have fresh: "\<forall>i<length fs. fresh_uuid (tn_uuid tn i) ?t1" "fresh_uuid (tn_reseal_uuid tn) ?t1"
    using assms(2,4) fresh_after_update [OF f(1)] by simp_all
  have mem: "?f r \<in> set ?t2" using up(2) enqueue_all_mono by blast
  have ok: "jobs_ok ?t2" by (rule enqueue_all_ok [OF up(1)])
  have live: "edge_live k ?t2" if "f \<in> set fs" "nj_dedupe_key f = Some k" for f k
    by (rule enqueue_all_live [OF fresh(1) assms(3) that])
  define s1 where "s1 = s\<lparr>qs_db := (qs_db s)\<lparr>db_jobs := ?t2\<rparr>\<rparr>"
  define s2 where "s2 = (if True \<and> list_ex (\<lambda>f. nj_kind f = ReembedBackfill) fs
    then set_backfill_in_progress True s1 else s1)"
  have db2: "qs_db s2 = (qs_db s)\<lparr>db_jobs := ?t2\<rparr>" by (simp add: s2_def s1_def)
  have "on_jobs (mark_done_with_followups (cfg_queue cfg) (tn_uuid tn) (tn_settle_ms tn) j fs) s = (Inr True, s1)"
    using settle_done [OF h(1-4)] by (simp add: on_jobs_def s1_def)
  then have run: "settle_planned_job js cfg tn j (Inr (plan_done fs)) s =
      (if job_kind j = Seal then (case row_has_status (job_id j) Done (db_jobs (qs_db s2)) of
         Inl e \<Rightarrow> (Inl e, s2) | Inr False \<Rightarrow> (Inr (), s2) | Inr True \<Rightarrow> reseal js cfg tn j s2) else (Inr (), s2))"
    by (simp only: settle_planned_job_def plan_done_def settle_plan_done_def s2_def Let_def sum.case
        job_outcome.case job_plan.simps prod.case)
  have "identity_of (?f r) = identity_of r" by simp
  then have kind: "row_kind (?f r) = job_kind_as_str (job_kind j)" using h(6) by (simp add: identity_of_def)
  have "row_has_status (job_id j) Done ?t2 = Inr (Done = Done)"
    by (rule get_job_row [OF ok mem _ kind]) (simp_all add: h(5))
  then have run2: "settle_planned_job js cfg tn j (Inr (plan_done fs)) s =
      (if job_kind j = Seal then reseal js cfg tn j s2 else (Inr (), s2))" using run by (simp add: db2)
  have buf: "get_buffer a b (qs_db s2) = get_buffer a b (qs_db s)" for a b
    by (rule get_buffer_frame) (simp add: db2)
  show ?thesis
  proof (cases "job_kind j = Seal \<and> should_seal (cfg_tree cfg) (get_buffer (sp_tree_id p) (sp_level p) (qs_db s2))")
    case False
    then have "settle_planned_job js cfg tn j (Inr (plan_done fs)) s = (Inr (), s2)"
      using run2 assms(6) by (auto simp: reseal_def)
    then show ?thesis using mem live False by (intro exI [of _ s2]) (auto simp: db2)
  next
    case True
    let ?t3 = "snd (enqueue_conn (tn_reseal_uuid tn) (tn_reseal_ms tn) (new_seal js p) ?d ?t2)"
    let ?s3 = "s2\<lparr>qs_db := (qs_db s2)\<lparr>db_jobs := ?t3\<rparr>\<rparr>"
    have "settle_planned_job js cfg tn j (Inr (plan_done fs)) s = (Inr (), ?s3)"
      using True run2 assms(6) by (simp add: reseal_def enqueue_job_def enqueue_def db2 split: prod.splits)
    moreover have "edge_live (seal_dedupe_key p) ?t3"
      by (rule enqueue_conn_live) (simp_all add: fresh_after_enqueue_all fresh(2) assms(5) new_seal_def)
    moreover have "?f r \<in> set ?t3" using mem enqueue_conn_mono by blast
    ultimately show ?thesis using live edge_live_enqueue
      by (intro exI [of _ ?s3]) (auto simp: db2)
  qed
qed

text \<open>A claimed seal of the sample tree's buffer, with a permit free.\<close>

definition sample_state :: queue_state where
  "sample_state = \<lparr>qs_db = (sample_db [''a''])\<lparr>db_jobs := [sample_running]\<rparr>, qs_backfill = False, qs_permits = 1\<rparr>"

definition sample_turn :: turn where
  "sample_turn = \<lparr>tn_claim_ms = 9, tn_defer_ms = 9, tn_plan_ms = 9, tn_settle_ms = 10, tn_reseal_ms = 10,
     tn_uuid = (\<lambda>i. replicate i CHR ''x''), tn_reseal_uuid = ''r''\<rparr>"

lemma sample_holds: "holds sample_held sample_running (db_jobs (qs_db sample_state))"
  by (simp add: holds_def sample_state_def jobs_ok_def token_match_def sample_held_def sample_running_def
      claimed_row_def sample_job_def new_row_def)

theorem settle_loses_no_edge_witness:
  "\<exists>s'. settle_planned_job sample_codec memory_config_default sample_turn sample_held
      (Inr (plan_done [sample_job Seal ''seal:t:1''])) sample_state = (Inr (), s')
    \<and> edge_live ''seal:t:1'' (db_jobs (qs_db s')) \<and> qs_permits s' = 1"
proof -
  let ?fs = "[sample_job Seal ''seal:t:1'']"
  have h: "\<forall>i<length ?fs. fresh_uuid (tn_uuid sample_turn i) (db_jobs (qs_db sample_state))"
    "inj_on (tn_uuid sample_turn) {..<length ?fs}"
    "fresh_uuid (tn_reseal_uuid sample_turn) (db_jobs (qs_db sample_state))"
    "tn_reseal_uuid sample_turn \<notin> tn_uuid sample_turn ` {..<length ?fs}"
    "job_kind sample_held = Seal \<longrightarrow> dec_seal sample_codec (job_payload_json sample_held) =
      Inr \<lparr>sp_tree_id = ''t'', sp_level = 0, sp_force_now_ms = None\<rparr>"
    by (simp_all add: fresh_uuid_def sample_state_def sample_turn_def sample_running_def claimed_row_def
        new_row_def sample_codec_def lessThan_Suc)
  obtain s' where s': "settle_planned_job sample_codec memory_config_default sample_turn sample_held
      (Inr (plan_done ?fs)) sample_state = (Inr (), s')"
    "\<forall>f\<in>set ?fs. \<forall>k. nj_dedupe_key f = Some k \<longrightarrow> edge_live k (db_jobs (qs_db s'))"
    using settle_loses_no_edge [OF sample_holds h, of memory_config_default] by blast
  have "edge_live ''seal:t:1'' (db_jobs (qs_db s'))" using s'(2) by (simp add: sample_job_def)
  moreover have "qs_permits s' = 1" using settle_permits [OF s'(1)] by (simp add: sample_state_def)
  ultimately show ?thesis using s'(1) by blast
qed

text \<open>The same job with a payload the codec does not read.\<close>

definition strict_codec :: json_codec where
  "strict_codec = sample_codec\<lparr>dec_seal := (\<lambda>_. Inl ''missing field'')\<rparr>"

definition idle_delegates :: queue_delegates where
  "idle_delegates = \<lparr>qd_extract_chunk = (\<lambda>_ db. (Inr None, db)), qd_append_node = (\<lambda>_ _ db. (Inr None, db)),
     qd_seal_level = (\<lambda>_ db. (Inr None, db)), qd_list_stale_buffers = (\<lambda>_ _. Inr []),
     qd_seal_document = (\<lambda>_ db. (Inr (), db)), qd_reembed_batch = (\<lambda>_ db. (Inr Covered, db)),
     qd_active_signature = (\<lambda>_. ''s''), qd_has_uncovered_reembed_work = (\<lambda>_ _. Inr False)\<rparr>"

theorem poison_payload_parked_witness:
  "\<exists>s' q. run_claimed strict_codec memory_config_default idle_delegates sample_turn sample_held sample_state =
      (Inr True, s') \<and> set (db_jobs (qs_db s')) = {q} \<and> row_status q = ''failed''
    \<and> row_failure_class q = Some ''unrecoverable''"
proof -
  have p: "payload_malformed strict_codec sample_held" "is_llm_bound (job_kind sample_held) \<longrightarrow> 0 < qs_permits sample_state"
    by (simp_all add: payload_malformed_def sample_held_def strict_codec_def sample_state_def)
  have one: "set (db_jobs (qs_db sample_state)) - {sample_running} = {}" by (simp add: sample_state_def)
  show ?thesis
    using poison_payload_parked [OF sample_holds p, of memory_config_default idle_delegates sample_turn 0]
    unfolding one by blast
qed

theorem turn_conserves_permits_witness:
  "qs_permits (snd (run_once_with_gate sample_codec memory_config_default idle_delegates sample_turn
      (sample_state\<lparr>qs_permits := 0\<rparr>))) = 0
   \<and> is_llm_bound (job_kind sample_held)"
  using turn_conserves_permits [of sample_codec memory_config_default idle_delegates sample_turn
      "sample_state\<lparr>qs_permits := 0\<rparr>" sample_held]
  by (simp add: sample_held_def)

subsection \<open>Sleeping and backing off\<close>

text \<open>
  A wait ends. It sleeps in slices of at most 200 ms that add up to at most the requested time,
  and exactly to it unless the shutdown flag is seen; no slice starts after a look that saw the flag
  set, so a shutdown is noticed within one slice.
\<close>

theorem sleep_is_bounded_and_prompt:
  "sum_list (interruptible_sleep trig 0 ms) \<le> ms
   \<and> list_all (\<lambda>d. 0 < d \<and> d \<le> 200) (interruptible_sleep trig 0 ms)
   \<and> (sum_list (interruptible_sleep trig 0 ms) = ms
      \<or> trig (length (interruptible_sleep trig 0 ms)))
   \<and> list_all (\<lambda>i. \<not> trig i) [0..<length (interruptible_sleep trig 0 ms)]"
proof -
  have "sum_list (interruptible_sleep trig k r) \<le> r
    \<and> list_all (\<lambda>d. 0 < d \<and> d \<le> 200) (interruptible_sleep trig k r)
    \<and> (sum_list (interruptible_sleep trig k r) = r \<or> trig (k + length (interruptible_sleep trig k r)))
    \<and> list_all (\<lambda>i. \<not> trig i) [k..<k + length (interruptible_sleep trig k r)]" for k r
  proof (induction trig k r rule: interruptible_sleep.induct)
    case (1 trig k r)
    show ?case
    proof (cases "r = 0 \<or> trig k")
      case True
      then show ?thesis by (subst (1 2 3 4 5) interruptible_sleep.simps) auto
    next
      case False
      let ?d = "min r SLEEP_SLICE_MS" and ?rest = "interruptible_sleep trig (k + 1) (r - min r SLEEP_SLICE_MS)"
      have eq: "interruptible_sleep trig k r = ?d # ?rest"
        using False by (subst interruptible_sleep.simps) (simp add: Let_def)
      have "[k..<k + Suc (length ?rest)] = k # [k + 1..<k + 1 + length ?rest]"
        by (simp add: upt_conv_Cons del: upt_Suc)
      then show ?thesis using 1 [OF _ _ refl] False unfolding eq
        by (auto simp: SLEEP_SLICE_MS_def)
    qed
  qed
  from this [of 0 ms] show ?thesis by simp
qed

text \<open>Why a worker loop ended, when the looks at the flag it took are those in the given range.\<close>

definition stopped_for :: "(queue_state \<Rightarrow> unit result \<times> queue_state) \<Rightarrow> (nat \<Rightarrow> bool) \<Rightarrow> nat \<Rightarrow> nat \<Rightarrow>
    (unit result \<times> queue_state) option \<Rightarrow> bool" where
  "stopped_for recover trig lo hi res = (case res of
     None \<Rightarrow> True
   | Some (Inr _, s') \<Rightarrow> \<exists>i. lo \<le> i \<and> i < hi \<and> trig i
   | Some (Inl e, s') \<Rightarrow> \<exists>s0 e0. recover s0 = (Inl e0, s') \<and>
       e = with_context ''recover corrupt queue database'' e0)"

lemma stopped_for_mono: "stopped_for recover trig (Suc lo) hi res \<Longrightarrow> stopped_for recover trig lo hi res"
  unfolding stopped_for_def by (cases res) (auto split: sum.splits dest: Suc_leD)

lemma worker_iteration_no_stop: "worker_iteration opts r \<noteq> Stop e"
proof (cases r)
  case (Inr b)
  then show ?thesis by (cases b) (simp_all add: worker_iteration_def)
qed (simp add: worker_iteration_def backoff_for_def)

lemma run_worker_stopped: "stopped_for recover trig k (k + fuel) (run_worker once recover opts trig k fuel s)"
proof (induction once recover opts trig k fuel s rule: run_worker.induct)
  case (2 once recover opts trig k fuel s)
  obtain r s1 where once: "once k s = (r, s1)" by (metis surj_pair)
  show ?case
  proof (cases "trig k")
    case True
    then show ?thesis by (auto simp: stopped_for_def)
  next
    case False
    show ?thesis
    proof (cases "worker_iteration opts r")
      case Poll_Again
      then show ?thesis using 2(1) [OF False] once False stopped_for_mono by simp
    next
      case (Pause b)
      then show ?thesis using 2(2) [OF False] once False stopped_for_mono by simp
    next
      case Recover_Database
      obtain r2 s2 where rec: "recover s1 = (r2, s2)" by (metis surj_pair)
      show ?thesis
      proof (cases r2)
        case (Inl e)
        then show ?thesis using rec Recover_Database once False by (auto simp: stopped_for_def)
      next
        case (Inr u)
        then show ?thesis
          using 2(3) [OF False once [symmetric] Recover_Database rec [symmetric]] rec Recover_Database once False
            stopped_for_mono by simp
      qed
    qed (simp add: worker_iteration_no_stop)
  qed
qed (simp add: stopped_for_def)

text \<open>
  Only a failed recovery stops a worker. Every error of a turn leads to a pause and another poll
  or, when it is corruption, to a recovery of the database; so the loop returns an error only if
  that recovery fails, and otherwise only once shutdown is seen.
\<close>

theorem worker_stops_only_on_failed_recovery:
  "case run_worker once recover opts trig k fuel s of
     None \<Rightarrow> True
   | Some (Inr _, s') \<Rightarrow> (\<exists>i. k \<le> i \<and> i < k + fuel \<and> trig i)
   | Some (Inl e, s') \<Rightarrow> (\<exists>s0 e0. recover s0 = (Inl e0, s') \<and>
       e = with_context ''recover corrupt queue database'' e0)"
  using run_worker_stopped [of recover trig k fuel once opts s] by (simp add: stopped_for_def)

end
