(* ===== verification/Queue_Protocol.thy ===== *)
theory Queue_Protocol
  imports Queue_Settle
begin

section \<open>Many workers on one queue\<close>

text \<open>
  Workers claim, run and settle jobs, and may die, stall past their lease and come back, while
  producers enqueue and the scheduler recovers leases, requeues failed jobs and purges retired ones.
  The system takes every interleaving of these transactions on the job table. Its clock never goes
  back. A held job is one in the hands of a worker that has claimed it and neither settled it nor
  died. A graceful shutdown releases the running rows after its workers stopped.
\<close>

subsection \<open>The system\<close>

record queue_system =
  sy_jobs :: jobs
  sy_now :: int
  sy_held :: "job set"

definition queue_init :: "queue_system \<Rightarrow> bool" where
  "queue_init s \<longleftrightarrow> sy_jobs s = [] \<and> sy_held s = {}"

inductive queue_step :: "queue_system \<Rightarrow> queue_system \<Rightarrow> bool" where
  tick: "sy_now s \<le> now \<Longrightarrow> queue_step s (s\<lparr>sy_now := now\<rparr>)"
| enqueue: "fresh_uuid u (sy_jobs s) \<Longrightarrow> \<forall>j\<in>sy_held s. job_id j \<noteq> ''job:'' @ u \<Longrightarrow>
    queue_step s (s\<lparr>sy_jobs := snd (enqueue_conn u (sy_now s) nj d (sy_jobs s))\<rparr>)"
| claim: "0 \<le> lease \<Longrightarrow> in_i64 (sy_now s) \<Longrightarrow> claim_next (sy_now s) lease (sy_jobs s) = (Inr (Some j), t) \<Longrightarrow>
    queue_step s (s\<lparr>sy_jobs := t, sy_held := insert j (sy_held s)\<rparr>)"
| finish: "j \<in> sy_held s \<Longrightarrow> \<forall>i<length fs. fresh_uuid (us i) (sy_jobs s) \<and> (\<forall>k\<in>sy_held s. job_id k \<noteq> ''job:'' @ us i) \<Longrightarrow>
    inj_on us {..<length fs} \<Longrightarrow> mark_done_with_followups cfg us (sy_now s) j fs (sy_jobs s) = Inr (b, t) \<Longrightarrow>
    queue_step s (s\<lparr>sy_jobs := t, sy_held := sy_held s - {j}\<rparr>)"
| fail: "j \<in> sy_held s \<Longrightarrow> mark_failed_typed cfg (sy_now s) j err failure (sy_jobs s) = Inr ((), t) \<Longrightarrow>
    queue_step s (s\<lparr>sy_jobs := t, sy_held := sy_held s - {j}\<rparr>)"
| put_off: "j \<in> sy_held s \<Longrightarrow> mark_deferred cfg (sy_now s) j until why (sy_jobs s) = Inr ((), t) \<Longrightarrow>
    queue_step s (s\<lparr>sy_jobs := t, sy_held := sy_held s - {j}\<rparr>)"
| die: "queue_step s (s\<lparr>sy_held := sy_held s - {j}\<rparr>)"
| recover: "recover_stale_locks (sy_now s) (sy_jobs s) = Inr (n, t) \<Longrightarrow> queue_step s (s\<lparr>sy_jobs := t\<rparr>)"
| shutdown: "release_running_locks (sy_jobs s) = Inr (n, t) \<Longrightarrow> queue_step s (s\<lparr>sy_jobs := t, sy_held := {}\<rparr>)"
| requeue: "requeue_failed (sy_now s) (sy_jobs s) = Inr (n, t) \<Longrightarrow> queue_step s (s\<lparr>sy_jobs := t\<rparr>)"
| heal: "requeue_transient_failed (sy_now s) (sy_jobs s) = Inr (n, t) \<Longrightarrow> queue_step s (s\<lparr>sy_jobs := t\<rparr>)"
| purge: "purge_retired_jobs (sy_jobs s) = (n, t) \<Longrightarrow> queue_step s (s\<lparr>sy_jobs := t\<rparr>)"

inductive_cases queue_stepE: "queue_step s s'"

subsection \<open>The invariant\<close>

text \<open>
  What a held job and a row with its id have to do with each other: an unexpired lease means the row
  runs under exactly this claim; a row was never claimed before the claims still held; and while the
  row carries this claim's start it is live, and its lease, when it runs, is this one.
\<close>

definition lease_inv :: "int \<Rightarrow> job \<Rightarrow> job_row \<Rightarrow> bool" where
  "lease_inv now j r \<longleftrightarrow>
    (case (job_started_at_ms j, job_locked_until_ms j) of
       (Some y, Some l) \<Rightarrow>
         (now \<le> l \<longrightarrow> row_status r = ''running'' \<and> row_started_at_ms r = Some y \<and> row_locked_until_ms r = Some l) \<and>
         (\<forall>x. row_started_at_ms r = Some x \<longrightarrow> y \<le> x) \<and>
         (row_started_at_ms r = Some y \<longrightarrow> is_active r) \<and>
         (row_started_at_ms r = Some y \<longrightarrow> row_status r = ''running'' \<longrightarrow> row_locked_until_ms r = Some l)
     | _ \<Rightarrow> False)"

text \<open>A running row was due, is of a live kind, carries a lease.\<close>

definition running_inv :: "int \<Rightarrow> job_row \<Rightarrow> bool" where
  "running_inv now r \<longleftrightarrow> (row_status r = ''running'' \<longrightarrow>
     row_available_at_ms r \<le> now \<and> \<not> is_retired_kind (row_kind r) \<and> row_locked_until_ms r \<noteq> None)"

text \<open>The row of a job that is not of a retired kind is still there.\<close>

definition survives :: "job_row \<Rightarrow> jobs \<Rightarrow> bool" where
  "survives r t \<longleftrightarrow> (\<not> is_retired_kind (row_kind r) \<longrightarrow> (\<exists>q\<in>set t. identity_of q = identity_of r))"

definition queue_inv :: "queue_system \<Rightarrow> bool" where
  "queue_inv s \<longleftrightarrow>
    jobs_ok (sy_jobs s) \<and>
    (\<forall>r\<in>set (sy_jobs s). running_inv (sy_now s) r) \<and>
    (\<forall>j\<in>sy_held s. \<exists>r\<in>set (sy_jobs s). row_id r = job_id j \<and> \<not> is_retired_kind (row_kind r)) \<and>
    (\<forall>j\<in>sy_held s. \<exists>y l. job_started_at_ms j = Some y \<and> job_locked_until_ms j = Some l \<and>
       y \<le> sy_now s \<and> y \<le> l) \<and>
    (\<forall>j\<in>sy_held s. \<forall>r\<in>set (sy_jobs s). row_id r = job_id j \<longrightarrow> lease_inv (sy_now s) j r) \<and>
    (\<forall>j\<in>sy_held s. \<forall>k\<in>sy_held s. job_id j = job_id k \<longrightarrow> job_started_at_ms j = job_started_at_ms k \<longrightarrow> j = k)"

lemma lease_invI:
  assumes "job_started_at_ms j = Some y" "job_locked_until_ms j = Some l"
    and "now \<le> l \<Longrightarrow> row_status r = ''running'' \<and> row_started_at_ms r = Some y \<and> row_locked_until_ms r = Some l"
    and "\<And>x. row_started_at_ms r = Some x \<Longrightarrow> y \<le> x"
    and "row_started_at_ms r = Some y \<Longrightarrow> is_active r"
    and "row_started_at_ms r = Some y \<Longrightarrow> row_status r = ''running'' \<Longrightarrow> row_locked_until_ms r = Some l"
  shows "lease_inv now j r"
  using assms by (auto simp: lease_inv_def)

text \<open>
  A row whose start is not this claim's has seen a later claim or none: any change that keeps such a
  start, or clears it, is harmless.
\<close>

lemma lease_inv_other:
  assumes "lease_inv now j r" "row_started_at_ms r \<noteq> job_started_at_ms j \<or> row_status r \<noteq> ''running''"
    and "row_started_at_ms r' = None \<or> row_started_at_ms r' = row_started_at_ms r \<and>
      (row_started_at_ms r = job_started_at_ms j \<longrightarrow> is_active r' \<and> row_status r' \<noteq> ''running'')"
  shows "lease_inv now j r'"
  using assms by (auto simp: lease_inv_def split: option.splits)

lemma running_inv_tick: "running_inv now r \<Longrightarrow> now \<le> now' \<Longrightarrow> running_inv now' r"
  by (auto simp: running_inv_def)

lemma survives_refl: "r \<in> set t \<Longrightarrow> survives r t"
  by (auto simp: survives_def)

lemma survives_map: "r \<in> set t \<Longrightarrow> identity_of (f r) = identity_of r \<Longrightarrow> survives r (map f t)"
  by (auto simp: survives_def)

lemma survives_update:
  "r \<in> set t \<Longrightarrow> (\<And>q. identity_of (f q) = identity_of q) \<Longrightarrow> survives r (sql_update p f t)"
  unfolding sql_update_def by (rule survives_map) simp_all

lemma lease_inv_tick: "lease_inv now j r \<Longrightarrow> now \<le> now' \<Longrightarrow> lease_inv now' j r"
  by (auto simp: lease_inv_def split: option.splits)

text \<open>A step that only rewrites rows in place keeps the invariant if it does so row by row.\<close>

lemma queue_inv_rows:
 assumes inv: "queue_inv s" and ok: "jobs_ok t"
    and run: "\<forall>r\<in>set t. running_inv (sy_now s) r" and keep: "\<forall>r\<in>set (sy_jobs s). survives r t"
    and rows: "\<forall>r'\<in>set t. (\<exists>r\<in>set (sy_jobs s). row_id r' = row_id r \<and>
      (\<forall>j\<in>held. job_id j = row_id r \<longrightarrow> lease_inv (sy_now s) j r \<longrightarrow> lease_inv (sy_now s) j r')) \<or>
      (\<forall>j\<in>held. job_id j \<noteq> row_id r')"
    and held: "held \<subseteq> sy_held s"
  shows "queue_inv (s\<lparr>sy_jobs := t, sy_held := held\<rparr>)"
proof -
  have "lease_inv (sy_now s) j r'" if "j \<in> held" "r' \<in> set t" "row_id r' = job_id j" for j r'
    using rows that held inv unfolding queue_inv_def by (metis subsetD)
  moreover have "\<exists>q\<in>set t. row_id q = job_id j \<and> \<not> is_retired_kind (row_kind q)" if j: "j \<in> held" for j
  proof -
    obtain r where "r \<in> set (sy_jobs s)" "row_id r = job_id j" "\<not> is_retired_kind (row_kind r)"
      using inv held j unfolding queue_inv_def by blast
    moreover from this obtain q where "q \<in> set t" "identity_of q = identity_of r"
      using keep unfolding survives_def by blast
    ultimately show ?thesis by (auto simp: identity_of_def intro!: bexI [of _ q])
  qed
  ultimately show ?thesis using inv ok held run unfolding queue_inv_def by (simp add: subset_iff)
qed

lemma queue_inv_enqueue:
  assumes inv: "queue_inv s" and fresh: "\<forall>j\<in>sy_held s. job_id j \<noteq> ''job:'' @ u"
  shows "queue_inv (s\<lparr>sy_jobs := snd (enqueue_conn u (sy_now s) nj d (sy_jobs s))\<rparr>)"
proof -
  have "queue_inv (s\<lparr>sy_jobs := snd (enqueue_conn u (sy_now s) nj d (sy_jobs s)), sy_held := sy_held s\<rparr>)"
  proof (rule queue_inv_rows [OF inv])
    show "jobs_ok (snd (enqueue_conn u (sy_now s) nj d (sy_jobs s)))"
      using inv enqueue_conn_ok by (simp add: queue_inv_def)
    have "set (snd (enqueue_conn u (sy_now s) nj d (sy_jobs s))) \<subseteq>
        insert (new_row u (sy_now s) nj d) (set (sy_jobs s))"
      by (rule enqueue_conn_cases [of u "sy_now s" nj d "sy_jobs s"]) auto
    then show "\<forall>r'\<in>set (snd (enqueue_conn u (sy_now s) nj d (sy_jobs s))). (\<exists>r\<in>set (sy_jobs s). row_id r' = row_id r \<and>
      (\<forall>j\<in>sy_held s. job_id j = row_id r \<longrightarrow> lease_inv (sy_now s) j r \<longrightarrow> lease_inv (sy_now s) j r')) \<or>
      (\<forall>j\<in>sy_held s. job_id j \<noteq> row_id r')" using fresh by fastforce
    show "\<forall>r\<in>set (snd (enqueue_conn u (sy_now s) nj d (sy_jobs s))). running_inv (sy_now s) r"
      using \<open>set _ \<subseteq> insert _ _\<close> inv by (auto simp: running_inv_def queue_inv_def)
    show "\<forall>r\<in>set (sy_jobs s). survives r (snd (enqueue_conn u (sy_now s) nj d (sy_jobs s)))"
      using enqueue_conn_mono survives_refl by blast
  qed simp
  then show ?thesis by simp
qed

lemma queue_inv_enqueue_all:
  "queue_inv s \<Longrightarrow> \<forall>i<length fs. \<forall>j\<in>sy_held s. job_id j \<noteq> ''job:'' @ us i \<Longrightarrow>
    queue_inv (s\<lparr>sy_jobs := enqueue_all us (sy_now s) d fs (sy_jobs s)\<rparr>)"
proof (induction fs arbitrary: us s)
  case (Cons f fs)
  have "\<forall>j\<in>sy_held s. job_id j \<noteq> ''job:'' @ us 0" using Cons.prems(2) by auto
  note one = queue_inv_enqueue [OF Cons.prems(1) this, of f d]
  have "\<forall>i<length fs. \<forall>j\<in>sy_held s. job_id j \<noteq> ''job:'' @ us (Suc i)" using Cons.prems(2) by auto
  then show ?case using Cons.IH [OF one, of "\<lambda>i. us (Suc i)"] by simp
qed simp

lemma mark_done_split:
  assumes "mark_done_with_followups cfg us now j fs t = Inr (b, t')"
  shows "\<exists>n t1. jobs_update (token_match j) (done_row now) t = Inr (n, t1)
    \<and> (t' = t1 \<or> t' = enqueue_all us now (qc_max_attempts cfg) fs t1)"
  using assms by (auto simp: mark_done_with_followups_def split: sum.splits if_splits)

lemma queue_inv_claim:
  assumes inv: "queue_inv s" and lease: "0 \<le> lease" "in_i64 (sy_now s)"
    and c: "claim_next (sy_now s) lease (sy_jobs s) = (Inr (Some j), t)"
  shows "queue_inv (s\<lparr>sy_jobs := t, sy_held := insert j (sy_held s)\<rparr>)"
proof -
  let ?now = "sy_now s" and ?l = "sat64 (sy_now s + lease)"
  have ok: "jobs_ok (sy_jobs s)" using inv by (simp add: queue_inv_def)
  have le: "?now \<le> ?l"
    using sat64_mono [of ?now "?now + lease"] sat64_id [OF lease(2)] lease(1) by simp
  have some: "claim_candidate ?now (sy_jobs s) \<noteq> None" using c claim_next_None by force
  then obtain r where cand: "claim_candidate ?now (sy_jobs s) = Some r" by blast
  have r: "r \<in> set (sy_jobs s)" "claimable ?now r" using claim_candidate_SomeD [OF cand] by blast+
  let ?f = "claimed_row ?now ?l"
  have upd: "t = sql_update (\<lambda>q. row_id q = row_id r) ?f (sy_jobs s)" "row_to_job (?f r) = Inr j"
    using claim_next_Some [OF ok cand, of lease] c by (auto split: sum.splits)
  have t: "set t = insert (?f r) (set (sy_jobs s) - {r})"
    unfolding upd(1) by (rule jobs.update_key_set [OF ok r(1)])
  have okt: "jobs_ok t" using claim_next_ok [OF ok, of ?now lease] c by simp
  have j: "job_id j = row_id r" "job_started_at_ms j = Some ?now" "job_locked_until_ms j = Some ?l"
    using upd(2) by (auto simp: row_to_job_def claimed_row_def split: sum.splits)
  have ready: "row_status r = ''ready''" using r(2) by (simp add: claimable_def)
  have f: "row_id (?f r) = row_id r" "row_status (?f r) = ''running''" "row_started_at_ms (?f r) = Some ?now"
    "row_locked_until_ms (?f r) = Some ?l" by (simp_all add: claimed_row_def)
  have only: "q = ?f r" if "q \<in> set t" "row_id q = row_id r" for q
    using that t jobs.key_eq [OF ok _ r(1)] f(1) by blast
  have old: "\<exists>y l. job_started_at_ms k = Some y \<and> job_locked_until_ms k = Some l \<and> y < ?now \<and> l < ?now \<and> y \<le> l"
    if k: "k \<in> sy_held s" "job_id k = row_id r" for k
  proof -
    obtain y l where yl: "job_started_at_ms k = Some y" "job_locked_until_ms k = Some l" "y \<le> l"
      using inv k(1) unfolding queue_inv_def by blast
    have "lease_inv ?now k r" using inv k r(1) unfolding queue_inv_def by metis
    then have "l < ?now" using yl ready by (auto simp: lease_inv_def)
    then show ?thesis using yl by simp
  qed
  have leases: "lease_inv ?now k q" if kq: "k \<in> insert j (sy_held s)" "q \<in> set t" "row_id q = job_id k" for k q
  proof (cases "row_id q = row_id r")
    case True
    then have q: "q = ?f r" using only kq(2) by blast
    show ?thesis
    proof (cases "k = j")
      case True
      show ?thesis unfolding q by (rule lease_invI [OF j(2,3) [folded True]]) (use f in \<open>simp_all add: is_active_def\<close>)
    next
      case False
      then obtain y l where yl: "job_started_at_ms k = Some y" "job_locked_until_ms k = Some l" "y < ?now" "l < ?now"
        using old [of k] kq(1,3) \<open>row_id q = row_id r\<close> by auto
      show ?thesis unfolding q by (rule lease_invI [OF yl(1,2)]) (use yl f in auto)
    qed
  next
    case False
    then have "q \<in> set (sy_jobs s)" "k \<in> sy_held s" using kq t f(1) j(1) by auto
    then show ?thesis using inv kq(3) unfolding queue_inv_def by metis
  qed
  have uniq: "k = m" if km: "k \<in> insert j (sy_held s)" "m \<in> insert j (sy_held s)" "job_id k = job_id m"
      "job_started_at_ms k = job_started_at_ms m" for k m
  proof (cases "k = j \<or> m = j")
    case True
    then show ?thesis using km j old by force
  next
    case False
    then show ?thesis using km inv unfolding queue_inv_def by blast
  qed
  have times: "\<exists>y l. job_started_at_ms k = Some y \<and> job_locked_until_ms k = Some l \<and> y \<le> ?now \<and> y \<le> l"
    if "k \<in> insert j (sy_held s)" for k
    using that j le inv unfolding queue_inv_def by auto
  have live: "\<not> is_retired_kind (row_kind r)"
    using r(2) by (auto simp: claimable_def is_retired_kind_def RETIRED_JOB_KINDS_def)
  have kind: "row_kind (?f r) = row_kind r" "row_available_at_ms (?f r) = row_available_at_ms r"
    by (simp_all add: claimed_row_def)
  have run: "running_inv ?now q" if "q \<in> set t" for q
    using that t inv live kind f r(2) by (auto simp: running_inv_def queue_inv_def claimable_def)
  have rows: "\<exists>q\<in>set t. row_id q = job_id k \<and> \<not> is_retired_kind (row_kind q)" if k: "k \<in> insert j (sy_held s)" for k
  proof (cases "job_id k = row_id r")
    case True
    then show ?thesis using t f(1) kind live by auto
  next
    case False
    then obtain q where "q \<in> set (sy_jobs s)" "row_id q = job_id k" "\<not> is_retired_kind (row_kind q)"
      using k j(1) inv unfolding queue_inv_def by auto
    then show ?thesis using False t by auto
  qed
  show ?thesis
    unfolding queue_inv_def using okt run rows times leases uniq by simp
qed

text \<open>The settle of one held job: whatever row update it applies, other claims are not disturbed.\<close>

lemma queue_inv_settle:
  assumes inv: "queue_inv s" and j: "j \<in> sy_held s"
    and t: "jobs_ok t" "t = sql_update (token_match j) f (sy_jobs s)"
    and f: "\<And>r. row_id (f r) = row_id r" "\<And>r. row_started_at_ms (f r) = row_started_at_ms r \<or> row_started_at_ms (f r) = None"
    and fr: "\<And>r. identity_of (f r) = identity_of r" "\<And>r. row_status (f r) \<noteq> ''running''"
  shows "queue_inv (s\<lparr>sy_jobs := t, sy_held := sy_held s - {j}\<rparr>)"
proof (rule queue_inv_rows [OF inv t(1)])
  show "\<forall>r'\<in>set t. (\<exists>r\<in>set (sy_jobs s). row_id r' = row_id r \<and>
      (\<forall>k\<in>sy_held s - {j}. job_id k = row_id r \<longrightarrow> lease_inv (sy_now s) k r \<longrightarrow> lease_inv (sy_now s) k r')) \<or>
      (\<forall>k\<in>sy_held s - {j}. job_id k \<noteq> row_id r')"
  proof
    fix r' assume "r' \<in> set t"
    then have "r' \<in> set (sql_update (token_match j) f (sy_jobs s))" using t(2) by simp
    then show "(\<exists>r\<in>set (sy_jobs s). row_id r' = row_id r \<and>
      (\<forall>k\<in>sy_held s - {j}. job_id k = row_id r \<longrightarrow> lease_inv (sy_now s) k r \<longrightarrow> lease_inv (sy_now s) k r')) \<or>
      (\<forall>k\<in>sy_held s - {j}. job_id k \<noteq> row_id r')"
    proof (cases rule: in_sql_updateE)
      case (hit r)
      have "lease_inv (sy_now s) k r'"
        if k: "k \<in> sy_held s - {j}" "job_id k = row_id r" "lease_inv (sy_now s) k r" for k
      proof -
        have tok: "row_id r = job_id j" "row_started_at_ms r = job_started_at_ms j"
          using hit(2) by (simp_all add: token_match_def)
        have "job_started_at_ms k \<noteq> job_started_at_ms j"
          using inv j k(1,2) tok(1) unfolding queue_inv_def by (metis DiffE insertI1)
        then have ne: "row_started_at_ms r \<noteq> job_started_at_ms k" using tok(2) by simp
        show ?thesis by (rule lease_inv_other [OF k(3)]) (use ne f(2) [of r] hit(3) in auto)
      qed
      then show ?thesis using hit f(1) by auto
    qed auto
  qed
  show "\<forall>r\<in>set t. running_inv (sy_now s) r"
    unfolding t(2) set_sql_update using inv fr(2) by (auto simp: running_inv_def queue_inv_def)
  show "\<forall>r\<in>set (sy_jobs s). survives r t" unfolding t(2) using survives_update fr(1) by blast
qed auto

lemma queue_inv_in_place:
  assumes inv: "queue_inv s" and ok: "jobs_ok (map f (sy_jobs s))"
    and f: "\<And>r. r \<in> set (sy_jobs s) \<Longrightarrow> row_id (f r) = row_id r"
      "\<And>j r. j \<in> sy_held s \<Longrightarrow> r \<in> set (sy_jobs s) \<Longrightarrow> job_id j = row_id r \<Longrightarrow>
        lease_inv (sy_now s) j r \<Longrightarrow> lease_inv (sy_now s) j (f r)"
    and fr: "\<And>r. identity_of (f r) = identity_of r" "\<And>r. f r = r \<or> row_status (f r) \<noteq> ''running''"
  shows "queue_inv (s\<lparr>sy_jobs := map f (sy_jobs s)\<rparr>)"
proof -
  have "queue_inv (s\<lparr>sy_jobs := map f (sy_jobs s), sy_held := sy_held s\<rparr>)"
  proof (rule queue_inv_rows [OF inv ok])
    have "running_inv (sy_now s) (f r)" if "r \<in> set (sy_jobs s)" for r
      using fr(2) [of r] inv that by (auto simp: running_inv_def queue_inv_def)
    then show "\<forall>r\<in>set (map f (sy_jobs s)). running_inv (sy_now s) r" by simp
    show "\<forall>r\<in>set (sy_jobs s). survives r (map f (sy_jobs s))" using survives_map fr(1) by blast
  qed (use f in auto)
  then show ?thesis by simp
qed

lemma queue_inv_recover:
  assumes inv: "queue_inv s" and r: "recover_stale_locks (sy_now s) (sy_jobs s) = Inr (n, t)"
  shows "queue_inv (s\<lparr>sy_jobs := t\<rparr>)"
proof -
  let ?f = "\<lambda>r. if lease_expired (sy_now s) r then recovered_row r else r"
  note u = jobs_update_InrD [OF r [unfolded recover_stale_locks_def]]
  have t: "jobs_ok t" "t = map ?f (sy_jobs s)"
    using u by blast (use u in \<open>simp only: sql_update_def\<close>)
  show ?thesis
    unfolding t(2)
  proof (rule queue_inv_in_place [OF inv t(1) [unfolded t(2)]])
    fix j r assume l: "lease_inv (sy_now s) j r"
    show "lease_inv (sy_now s) j (?f r)"
    proof (cases "lease_expired (sy_now s) r")
      case True
      then have run: "row_status r = ''running''" "\<exists>l. row_locked_until_ms r = Some l \<and> l < sy_now s"
        by (auto simp: lease_expired_def split: option.splits)
      then show ?thesis using l True
        by (auto simp: lease_inv_def is_active_def split: option.splits)
    qed (use l in simp)
  qed simp_all
qed

lemma queue_inv_requeue:
  assumes inv: "queue_inv s" and p: "\<And>r. p r \<Longrightarrow> row_status r = ''failed''"
    and r: "requeue_failed_where p (sy_now s) (sy_jobs s) = Inr (n, t)"
  shows "queue_inv (s\<lparr>sy_jobs := t\<rparr>)"
proof -
  have ok: "jobs_ok (sy_jobs s)" using inv by (simp add: queue_inv_def)
  have t: "t = map (requeue_spec p (sy_now s) (sy_jobs s)) (sy_jobs s)"
    using requeue_refines_spec(1) [OF ok p, of p "sy_now s"] r by auto
  show ?thesis
    unfolding t
  proof (rule queue_inv_in_place [OF inv requeue_refines_spec(2) [OF ok p]])
    fix j r assume l: "lease_inv (sy_now s) j r"
    show "lease_inv (sy_now s) j (requeue_spec p (sy_now s) (sy_jobs s) r)"
    proof (cases "p r")
      case True
      then have "\<not> is_active r" using p [OF True] by (simp add: is_active_def)
      then have ne: "row_started_at_ms r \<noteq> job_started_at_ms j"
        using l by (auto simp: lease_inv_def split: option.splits)
      show ?thesis by (rule lease_inv_other [OF l]) (use ne in \<open>auto simp: requeue_spec_def split: option.splits\<close>)
    qed (use l in \<open>simp add: requeue_spec_def\<close>)
  qed (auto simp: requeue_spec_def split: option.splits)
qed

interpretation queue_protocol: invariant_system queue_init queue_step queue_inv
proof
  fix s assume "queue_init s"
  then show "queue_inv s" by (simp add: queue_init_def queue_inv_def)
next
  fix s s' assume inv: "queue_inv s" and "queue_step s s'"
  have ok: "jobs_ok (sy_jobs s)" using inv by (simp add: queue_inv_def)
  from \<open>queue_step s s'\<close> show "queue_inv s'"
  proof cases
    case (tick now)
    then show ?thesis using inv lease_inv_tick [of "sy_now s" _ _ now] running_inv_tick [of "sy_now s" _ now]
      unfolding queue_inv_def by simp (meson order_trans)
  next
    case (enqueue u nj d)
    then show ?thesis using queue_inv_enqueue [OF inv] by simp
  next
    case (claim lease j t)
    then show ?thesis using queue_inv_claim [OF inv] by simp
  next
    case (finish j fs us cfg b t)
    obtain n t1 where u: "jobs_update (token_match j) (done_row (sy_now s)) (sy_jobs s) = Inr (n, t1)"
      and t': "t = t1 \<or> t = enqueue_all us (sy_now s) (qc_max_attempts cfg) fs t1"
      using mark_done_split [OF finish(5)] by blast
    have t: "jobs_ok t1" "t1 = sql_update (token_match j) (done_row (sy_now s)) (sy_jobs s)"
      using jobs_update_InrD [OF u] by blast+
    have one: "queue_inv (s\<lparr>sy_jobs := t1, sy_held := sy_held s - {j}\<rparr>)"
      by (rule queue_inv_settle [OF inv finish(2) t]) simp_all
    let ?u = "enqueue_all us (sy_now s) (qc_max_attempts cfg) fs t1"
    have "queue_inv (s\<lparr>sy_jobs := t1, sy_held := sy_held s - {j}, sy_jobs := ?u\<rparr>)"
      using queue_inv_enqueue_all [OF one, of fs us "qc_max_attempts cfg"] finish(3) by simp
    moreover have "s\<lparr>sy_jobs := t1, sy_held := sy_held s - {j}, sy_jobs := ?u\<rparr> =
        s\<lparr>sy_jobs := ?u, sy_held := sy_held s - {j}\<rparr>" by (cases s) simp
    ultimately have "queue_inv (s\<lparr>sy_jobs := ?u, sy_held := sy_held s - {j}\<rparr>)" by simp
    then show ?thesis unfolding finish(1) using one t' by blast
  next
    case (fail j cfg err failure t)
    then obtain n f where u: "jobs_update (token_match j) f (sy_jobs s) = Inr (n, t)"
      and f: "f = failed_row (sy_now s) err failure \<or> (\<exists>a. f = retry_row a err)"
      by (auto simp: mark_failed_typed_def Let_def split: sum.splits if_splits)
    have t: "jobs_ok t" "t = sql_update (token_match j) f (sy_jobs s)" using jobs_update_InrD [OF u] by blast+
    show ?thesis unfolding fail(1) by (rule queue_inv_settle [OF inv fail(2) t]) (use f in auto)
  next
    case (put_off j cfg until why t)
    then obtain n o' p where u: "jobs_update (token_match j) (deferred_row (sy_now s) o' p until why) (sy_jobs s) = Inr (n, t)"
      by (auto simp: mark_deferred_def Let_def split: sum.splits)
    have t: "jobs_ok t" "t = sql_update (token_match j) (deferred_row (sy_now s) o' p until why) (sy_jobs s)"
      using jobs_update_InrD [OF u] by blast+
    show ?thesis unfolding put_off(1) by (rule queue_inv_settle [OF inv put_off(2) t]) simp_all
  next
    case (die j)
    have "queue_inv (s\<lparr>sy_jobs := sy_jobs s, sy_held := sy_held s - {j}\<rparr>)"
      by (rule queue_inv_rows [OF inv ok]) (use inv survives_refl in \<open>auto simp: queue_inv_def\<close>)
    then show ?thesis using die by simp
  next
    case (recover n t)
    then show ?thesis using queue_inv_recover [OF inv] by simp
  next
    case (shutdown n t)
    have t: "jobs_ok t" "t = sql_update (\<lambda>r. row_status r = ''running'') released_row (sy_jobs s)"
      using jobs_update_InrD [OF shutdown(2) [unfolded release_running_locks_def]] by blast+
    have "queue_inv (s\<lparr>sy_jobs := t, sy_held := {}\<rparr>)"
    proof (rule queue_inv_rows [OF inv t(1)])
      show "\<forall>r\<in>set t. running_inv (sy_now s) r" unfolding t(2) set_sql_update by (auto simp: running_inv_def)
      show "\<forall>r\<in>set (sy_jobs s). survives r t" unfolding t(2) using survives_update by simp
    qed auto
    then show ?thesis using shutdown by simp
  next
    case (requeue n t)
    then show ?thesis using queue_inv_requeue [OF inv, of is_failed n t]
      by (simp add: requeue_failed_def is_failed_def)
  next
    case (heal n t)
    then show ?thesis using queue_inv_requeue [OF inv, of is_transient_failed n t]
      by (simp add: requeue_transient_failed_def is_transient_failed_def)
  next
    case (purge n t)
    then have t: "t = sql_delete (\<lambda>r. row_kind r = ''topic_route'' \<or> row_kind r = ''digest_daily'') (sy_jobs s)"
      by (simp add: purge_retired_jobs_def Let_def)
    have "queue_inv (s\<lparr>sy_jobs := t, sy_held := sy_held s\<rparr>)"
      by (rule queue_inv_rows [OF inv])
        (use jobs_ok_delete [OF ok] inv in \<open>auto simp: t queue_inv_def survives_def is_retired_kind_def RETIRED_JOB_KINDS_def\<close>)
    then show ?thesis using purge by simp
  qed
qed

subsection \<open>Leases\<close>


text \<open>Two claims of one row, the second after the first lease ran out.\<close>

definition sample_first :: job where
  "sample_first = \<lparr>job_id = ''job:b'', job_kind = Seal, job_payload_json = ''{}'',
     job_dedupe_key = Some ''y'', job_status = Running, job_attempts = 1, job_max_attempts = 5,
     job_available_at_ms = 6, job_locked_until_ms = Some 9, job_last_error = None,
     job_failure_reason = None, job_failure_class = None, job_created_at_ms = 6,
     job_started_at_ms = Some 6, job_completed_at_ms = None\<rparr>"

definition sample_second :: job where
  "sample_second = sample_first\<lparr>job_attempts := 2, job_locked_until_ms := Some 13,
     job_started_at_ms := Some 10\<rparr>"

definition sample_row :: job_row where
  "sample_row = new_row ''b'' 6 (sample_job Seal ''y'') 5"

definition sample_system2 :: queue_system where
  "sample_system2 = \<lparr>sy_jobs = [claimed_row 10 13 (recovered_row (claimed_row 6 9 sample_row))], sy_now = 10,
     sy_held = {sample_second, sample_first}\<rparr>"

lemma sample_claims:
  "claim_next 6 3 [sample_row] = (Inr (Some sample_first), [claimed_row 6 9 sample_row])"
  "recover_stale_locks 10 [claimed_row 6 9 sample_row] = Inr (1, [recovered_row (claimed_row 6 9 sample_row)])"
  "claim_next 10 3 [recovered_row (claimed_row 6 9 sample_row)] =
    (Inr (Some sample_second), [claimed_row 10 13 (recovered_row (claimed_row 6 9 sample_row))])"
  by (simp_all add: claim_next_def claim_candidate_def claimable_def sql_first_def sample_row_def new_row_def
      sample_job_def jobs_update_def jobs_ok_def table_simps claimed_row_def recovered_row_def row_to_job_def
      sample_first_def sample_second_def as_u32_def recover_stale_locks_def lease_expired_def
      job_kind_parse_def job_status_parse_def Let_def sat64_def i64_defs sql_count_def sql_update_def)

lemma sample_system2_reach: "reach queue_init queue_step sample_system2"
proof -
  define s0 where "s0 = \<lparr>sy_jobs = [], sy_now = 6, sy_held = {}\<rparr>"
  define s1 where "s1 = s0\<lparr>sy_jobs := [sample_row]\<rparr>"
  define s2 where "s2 = s1\<lparr>sy_jobs := [claimed_row 6 9 sample_row], sy_held := {sample_first}\<rparr>"
  define s3 where "s3 = s2\<lparr>sy_now := 10\<rparr>"
  define s4 where "s4 = s3\<lparr>sy_jobs := [recovered_row (claimed_row 6 9 sample_row)]\<rparr>"
  have "reach queue_init queue_step s0" by (rule reach_init) (simp add: queue_init_def s0_def)
  moreover have "queue_step s0 s1"
    using queue_step.enqueue [of "''b''" s0 "sample_job Seal ''y''" 5]
    by (simp add: s1_def s0_def fresh_uuid_def enqueue_conn_def conflicts_def Let_def sample_row_def)
  moreover have "queue_step s1 s2"
    using queue_step.claim [of 3 s1 sample_first "[claimed_row 6 9 sample_row]"] sample_claims(1)
    by (simp add: s2_def s1_def s0_def i64_defs)
  moreover have "queue_step s2 s3" unfolding s3_def by (rule queue_step.tick) (simp add: s2_def s1_def s0_def)
  moreover have "queue_step s3 s4"
    using queue_step.recover [of s3 1] sample_claims(2) by (simp add: s4_def s3_def s2_def s1_def s0_def)
  moreover have "queue_step s4 sample_system2"
    using queue_step.claim [of 3 s4 sample_second] sample_claims(3)
    by (simp add: sample_system2_def s4_def s3_def s2_def s1_def s0_def i64_defs)
  ultimately show ?thesis by (metis reach_step)
qed


subsection \<open>Rows\<close>

lemma step_in_place:
  assumes r: "r \<in> set t" and f: "\<And>q. identity_of (f q) = identity_of q"
    and p: "row_status r = ''done'' \<or> row_status r = ''cancelled'' \<Longrightarrow> \<not> p r"
  shows "\<exists>q\<in>set (sql_update p f t). identity_of q = identity_of r \<and>
    (row_status r = ''done'' \<or> row_status r = ''cancelled'' \<longrightarrow> q = r)"
  using assms unfolding set_sql_update by (intro bexI [of _ "if p r then f r else r"]) auto

lemma settle_spares_settled:
  assumes inv: "queue_inv s" and j: "j \<in> sy_held s" and r: "r \<in> set (sy_jobs s)"
    and "row_status r = ''done'' \<or> row_status r = ''cancelled''"
  shows "\<not> token_match j r"
proof
  assume "token_match j r"
  then have t: "row_id r = job_id j" "row_started_at_ms r = job_started_at_ms j" by (simp_all add: token_match_def)
  have "lease_inv (sy_now s) j r" using inv j r t(1) unfolding queue_inv_def by blast
  then show False using assms(4) t(2) by (auto simp: lease_inv_def is_active_def split: option.splits)
qed

text \<open>
  Job rows are durable and settled ones final. No step of any worker, producer or scheduler loses
  a row, except that the start-up purge drops the retired kinds, or changes what identifies it: id,
  kind, payload, deduplication key, creation time and attempt budget. A row that is done or
  cancelled is never changed again, not even by a worker that wakes up with an old claim.
\<close>

theorem settled_rows_are_final:
  assumes "reach queue_init queue_step s" and "queue_step s s'" and "r \<in> set (sy_jobs s)"
    and "\<not> is_retired_kind (row_kind r)"
  shows "\<exists>q\<in>set (sy_jobs s'). identity_of q = identity_of r \<and>
    (row_status r = ''done'' \<or> row_status r = ''cancelled'' \<longrightarrow> q = r)"
proof -
  have inv: "queue_inv s" by (rule queue_protocol.reach_inv [OF assms(1)])
  have ok: "jobs_ok (sy_jobs s)" using inv by (simp add: queue_inv_def)
  let ?ok = "\<lambda>t. \<exists>q\<in>set t. identity_of q = identity_of r \<and>
    (row_status r = ''done'' \<or> row_status r = ''cancelled'' \<longrightarrow> q = r)"
  have settle: "?ok t" if "j \<in> sy_held s" "jobs_update (token_match j) f (sy_jobs s) = Inr (n, t)"
      "\<And>q. identity_of (f q) = identity_of q" for j f n t
    using step_in_place [OF assms(3) that(3), of "token_match j"] settle_spares_settled [OF inv that(1) assms(3)]
      jobs_update_InrD [OF that(2)] by auto
  have requeued: "?ok t" if "requeue_failed_where p (sy_now s) (sy_jobs s) = Inr (n, t)"
      "\<And>q. p q \<Longrightarrow> row_status q = ''failed''" for p n t
  proof -
    have t: "t = map (requeue_spec p (sy_now s) (sy_jobs s)) (sy_jobs s)"
      using requeue_refines_spec(1) [OF ok that(2), of p "sy_now s"] that(1) by auto
    have "identity_of (requeue_spec p (sy_now s) (sy_jobs s) r) = identity_of r"
      by (auto simp: requeue_spec_def split: option.splits)
    moreover have "row_status r = ''done'' \<or> row_status r = ''cancelled'' \<Longrightarrow> \<not> p r" using that(2) [of r] by auto
    then have "row_status r = ''done'' \<or> row_status r = ''cancelled'' \<longrightarrow>
        requeue_spec p (sy_now s) (sy_jobs s) r = r" by (auto simp: requeue_spec_def)
    ultimately show ?thesis using assms(3) unfolding t by auto
  qed
  from assms(2) show ?thesis
  proof cases
    case (enqueue u nj d)
    then show ?thesis using assms(3) enqueue_conn_mono by fastforce
  next
    case (claim lease j t)
    have "claim_candidate (sy_now s) (sy_jobs s) \<noteq> None" using claim(4) claim_next_None by force
    then obtain c where c: "claim_candidate (sy_now s) (sy_jobs s) = Some c" by blast
    have ready: "row_status c = ''ready''" "c \<in> set (sy_jobs s)"
      using claim_candidate_SomeD [OF c] by (auto simp: claimable_def)
    have t: "t = sql_update (\<lambda>q. row_id q = row_id c) (claimed_row (sy_now s) (sat64 (sy_now s + lease))) (sy_jobs s)"
      using claim_next_Some [OF ok c, of lease] claim(4) by (auto split: sum.splits)
    have "?ok t"
      unfolding t
    proof (rule step_in_place [OF assms(3)])
      assume "row_status r = ''done'' \<or> row_status r = ''cancelled''"
      then show "row_id r \<noteq> row_id c" using jobs.key_eq [OF ok assms(3) ready(2)] ready(1) by auto
    qed simp
    then show ?thesis using claim(1) by simp
  next
    case (finish j fs us cfg b t)
    obtain n t1 where u: "jobs_update (token_match j) (done_row (sy_now s)) (sy_jobs s) = Inr (n, t1)"
      and t: "t = t1 \<or> t = enqueue_all us (sy_now s) (qc_max_attempts cfg) fs t1"
      using mark_done_split [OF finish(5)] by blast
    have "set t1 \<subseteq> set t" using t enqueue_all_mono [of t1] by blast
    moreover have "?ok t1" by (rule settle [OF finish(2) u]) simp
    ultimately show ?thesis using finish(1) by auto
  next
    case (fail j cfg err failure t)
    then obtain n f where u: "jobs_update (token_match j) f (sy_jobs s) = Inr (n, t)"
      and f: "f = failed_row (sy_now s) err failure \<or> (\<exists>a. f = retry_row a err)"
      by (auto simp: mark_failed_typed_def Let_def split: sum.splits if_splits)
    have "identity_of (f q) = identity_of q" for q using f by auto
    then show ?thesis using settle [OF fail(2) u] fail(1) by simp
  next
    case (put_off j cfg until why t)
    then obtain n o' p where "jobs_update (token_match j) (deferred_row (sy_now s) o' p until why) (sy_jobs s) = Inr (n, t)"
      by (auto simp: mark_deferred_def Let_def split: sum.splits)
    then show ?thesis using settle [OF put_off(2)] put_off(1) by simp
  next
    case (recover n t)
    have "t = sql_update (lease_expired (sy_now s)) recovered_row (sy_jobs s)"
      using jobs_update_InrD [OF recover(2) [unfolded recover_stale_locks_def]] by blast
    moreover have "\<not> lease_expired (sy_now s) r" if "row_status r = ''done'' \<or> row_status r = ''cancelled''"
      using that by (auto simp: lease_expired_def)
    then have "?ok (sql_update (lease_expired (sy_now s)) recovered_row (sy_jobs s))"
      by (intro step_in_place [OF assms(3)]) simp_all
    ultimately show ?thesis using recover(1) by simp
  next
    case (shutdown n t)
    have "t = sql_update (\<lambda>r. row_status r = ''running'') released_row (sy_jobs s)"
      using jobs_update_InrD [OF shutdown(2) [unfolded release_running_locks_def]] by blast
    moreover have "?ok (sql_update (\<lambda>r. row_status r = ''running'') released_row (sy_jobs s))"
      by (rule step_in_place [OF assms(3)]) auto
    ultimately show ?thesis using shutdown(1) by simp
  next
    case (requeue n t)
    then show ?thesis using requeued [of is_failed n t] by (simp add: requeue_failed_def is_failed_def)
  next
    case (heal n t)
    then show ?thesis using requeued [of is_transient_failed n t]
      by (simp add: requeue_transient_failed_def is_transient_failed_def)
  next
    case (purge n t)
    then show ?thesis using assms(3,4)
      by (auto simp: purge_retired_jobs_def Let_def is_retired_kind_def RETIRED_JOB_KINDS_def)
  qed (use assms(3) in auto)
qed

text \<open>
  C13: no job is stuck with a dead worker. In every reachable state lease recovery commits, and every
  row whose lease has run out can be claimed at once afterwards, while all other rows stay as they
  are.
\<close>

theorem recovery_makes_claimable:
  assumes "reach queue_init queue_step s"
  shows "\<exists>n t. recover_stale_locks (sy_now s) (sy_jobs s) = Inr (n, t)
    \<and> t = map (\<lambda>r. if lease_expired (sy_now s) r then recovered_row r else r) (sy_jobs s)
    \<and> (\<forall>r\<in>set (sy_jobs s). lease_expired (sy_now s) r \<longrightarrow> recovered_row r \<in> set t \<and> claimable (sy_now s) (recovered_row r))"
proof -
  have inv: "queue_inv s" by (rule queue_protocol.reach_inv [OF assms])
  then have ok: "jobs_ok (sy_jobs s)" by (simp add: queue_inv_def)
  let ?t = "map (\<lambda>r. if lease_expired (sy_now s) r then recovered_row r else r) (sy_jobs s)"
  have "recover_stale_locks (sy_now s) (sy_jobs s) = Inr (sql_count (lease_expired (sy_now s)) (sy_jobs s),
      sql_update (lease_expired (sy_now s)) recovered_row (sy_jobs s))"
    unfolding recover_stale_locks_def
    by (rule jobs_update_succeeds [OF ok]) (auto simp: lease_expired_def active_key_def is_active_def)
  moreover have "recovered_row r \<in> set ?t \<and> claimable (sy_now s) (recovered_row r)"
    if "r \<in> set (sy_jobs s)" "lease_expired (sy_now s) r" for r
  proof -
    have "running_inv (sy_now s) r" using inv that(1) by (simp add: queue_inv_def)
    then have "claimable (sy_now s) (recovered_row r)"
      using that(2) by (auto simp: running_inv_def lease_expired_def claimable_def recovered_row_def
          is_retired_kind_def RETIRED_JOB_KINDS_def)
    then show ?thesis using that by force
  qed
  ultimately show ?thesis by (auto simp: sql_update_def)
qed

theorem settled_rows_are_final_witness:
  "\<exists>q\<in>set [done_row 11 (sy_jobs sample_system2 ! 0)]. identity_of q = identity_of (sy_jobs sample_system2 ! 0)"
proof -
  let ?r = "sy_jobs sample_system2 ! 0" and ?s = "sample_system2\<lparr>sy_jobs :=
      [done_row 10 (sy_jobs sample_system2 ! 0)], sy_held := sy_held sample_system2 - {sample_second}\<rparr>"
  have "mark_done_with_followups queue_config_default (\<lambda>_. ''u'') (sy_now sample_system2) sample_second []
      (sy_jobs sample_system2) = Inr (True, [done_row 10 ?r])"
    by (simp add: mark_done_with_followups_def jobs_update_def sample_system2_def Let_def table_simps
        token_match_def claimed_row_def recovered_row_def sample_row_def sample_second_def sample_first_def
        jobs_ok_def sql_count_def)
  then have step: "queue_step sample_system2 ?s"
    by (intro queue_step.finish [where fs = "[]"]) (auto simp: sample_system2_def)
  have "?r \<in> set (sy_jobs sample_system2)" "\<not> is_retired_kind (row_kind ?r)"
    by (simp_all add: sample_system2_def claimed_row_def recovered_row_def sample_row_def new_row_def
        sample_job_def is_retired_kind_def RETIRED_JOB_KINDS_def)
  from settled_rows_are_final [OF sample_system2_reach step this]
  show ?thesis by simp
qed

theorem recovery_makes_claimable_witness:
  "\<exists>n t. recover_stale_locks 10 (sy_jobs sample_system2) = Inr (n, t) \<and> length t = 1"
  using recovery_makes_claimable [OF sample_system2_reach] by (auto simp: sample_system2_def)

end
