(* ===== verification/Seal_Protocol.thy ===== *)
theory Seal_Protocol
  imports Bucket_Seal
begin

section \<open>Appends and seals interleaved\<close>

text \<open>
  Many callers append, prepare seals and commit them; a prepared seal may be committed late or
  never. The system below takes every interleaving of these steps, with trees being created,
  archived or otherwise updated in between, and keeps two ghosts: the items each buffer has
  accepted, in order, and the snapshots committed, in order.
\<close>

record seal_system =
  ss_db :: tree_db
  ss_prepared :: "(tree \<times> buffer \<times> summary_node \<times> staged_summary) set"
  ss_accepted :: "string \<times> nat \<Rightarrow> string list"
  ss_sealed :: "(buffer \<times> summary_node) list"

definition key_of :: "buffer \<Rightarrow> string \<times> nat" where
  "key_of b = (bf_tree_id b, bf_level b)"

definition accept :: "string \<times> nat \<Rightarrow> string \<Rightarrow> (string \<times> nat \<Rightarrow> string list) \<Rightarrow> (string \<times> nat \<Rightarrow> string list)" where
  "accept k i acc = acc(k := acc k @ [i])"

definition seal_init :: "seal_system \<Rightarrow> bool" where
  "seal_init s \<longleftrightarrow> db_buffers (ss_db s) = [] \<and> ss_prepared s = {} \<and> ss_accepted s = (\<lambda>_. []) \<and> ss_sealed s = []"

inductive seal_step :: "seal_system \<Rightarrow> seal_system \<Rightarrow> bool" where
  append: "append_to_buffer now tid l i d ts (ss_db s) = Inr ((), db') \<Longrightarrow>
    seal_step s (s\<lparr>ss_db := db', ss_accepted :=
      (if i \<in> set (bf_item_ids (get_buffer tid l (ss_db s))) then ss_accepted s
       else accept (tid, l) i (ss_accepted s))\<rparr>)"
| prepare: "seal_prepare env cfg strategy t (get_buffer (tr_id t) l (ss_db s)) (ss_db s) = Inr (node, staged) \<Longrightarrow>
    seal_step s (s\<lparr>ss_prepared := insert (t, get_buffer (tr_id t) l (ss_db s), node, staged) (ss_prepared s)\<rparr>)"
| commit: "(t, buf, node, staged) \<in> ss_prepared s \<Longrightarrow>
    seal_commit env cfg t buf node staged follow (ss_db s) = Inr ((), db') \<Longrightarrow>
    seal_step s (s\<lparr>ss_db := db', ss_prepared := ss_prepared s - {(t, buf, node, staged)},
      ss_accepted := accept (tr_id t, bf_level buf + 1) (sn_id node) (ss_accepted s),
      ss_sealed := ss_sealed s @ [(buf, node)]\<rparr>)"
| fail: "(t, buf, node, staged) \<in> ss_prepared s \<Longrightarrow>
    seal_commit env cfg t buf node staged follow (ss_db s) = Inl e \<Longrightarrow>
    seal_step s (s\<lparr>ss_prepared := ss_prepared s - {(t, buf, node, staged)}\<rparr>)"
| archive: "seal_step s (s\<lparr>ss_db := archive_tree tid (ss_db s)\<rparr>)"
| create: "insert_tree t (ss_db s) = Inr ((), db') \<Longrightarrow> seal_step s (s\<lparr>ss_db := db'\<rparr>)"
| other: "db_buffers db' = db_buffers (ss_db s) \<Longrightarrow> seal_step s (s\<lparr>ss_db := db'\<rparr>)"

inductive_cases seal_stepE: "seal_step s s'"

text \<open>The items of a buffer's committed snapshots, one after the other.\<close>

definition consumed :: "string \<times> nat \<Rightarrow> (buffer \<times> summary_node) list \<Rightarrow> string list" where
  "consumed k sealed = concat (map (\<lambda>(b, n). bf_item_ids b) (filter (\<lambda>(b, n). key_of b = k) sealed))"

definition seal_inv :: "seal_system \<Rightarrow> bool" where
  "seal_inv s \<longleftrightarrow>
     (\<forall>t l. ss_accepted s (t, l) = consumed (t, l) (ss_sealed s) @ bf_item_ids (get_buffer t l (ss_db s))) \<and>
     (\<forall>(t, b, n, st)\<in>ss_prepared s. bf_tree_id b = tr_id t \<and> sn_child_ids n \<noteq> [] \<and>
        subseq (sn_child_ids n) (bf_item_ids b) \<and> sn_level n = bf_level b + 1) \<and>
     (\<forall>(b, n)\<in>set (ss_sealed s). sn_child_ids n \<noteq> [] \<and> subseq (sn_child_ids n) (bf_item_ids b) \<and>
        sn_level n = bf_level b + 1)"

lemma consumed_snoc: "consumed k (sealed @ [(b, n)]) =
    consumed k sealed @ (if key_of b = k then bf_item_ids b else [])"
  by (simp add: consumed_def)

lemma seal_inv_frame:
  assumes "seal_inv s" "db_buffers db' = db_buffers (ss_db s)"
  shows "seal_inv (s\<lparr>ss_db := db'\<rparr>)"
  using assms(1) get_buffer_frame [OF assms(2)] by (simp add: seal_inv_def)

lemma seal_inv_append:
  assumes inv: "seal_inv s" and a: "append_to_buffer now tid l i d ts (ss_db s) = Inr ((), db')"
  shows "seal_inv (s\<lparr>ss_db := db', ss_accepted :=
      (if i \<in> set (bf_item_ids (get_buffer tid l (ss_db s))) then ss_accepted s
       else accept (tid, l) i (ss_accepted s))\<rparr>)"
proof (cases rule: append_to_buffer_cases [of tid "ss_db s" now l i d ts])
  case (duplicate t)
  then show ?thesis using inv a by (simp add: seal_inv_def)
next
  case (pushed t db'')
  then have "get_buffer tid l db' = push_item i d ts (get_buffer tid l (ss_db s))"
    "\<And>t' l'. (t', l') \<noteq> (tid, l) \<Longrightarrow> get_buffer t' l' db' = get_buffer t' l' (ss_db s)"
    using a by auto
  then have "bf_item_ids (get_buffer t' l' db') = bf_item_ids (get_buffer t' l' (ss_db s)) @
      (if (t', l') = (tid, l) then [i] else [])" for t' l'
    by (cases "(t', l') = (tid, l)") auto
  then show ?thesis using inv pushed(3) by (auto simp: seal_inv_def accept_def)
qed (use a in simp_all)

lemma seal_inv_commit:
  assumes inv: "seal_inv s" and m: "(t, buf, node, staged) \<in> ss_prepared s"
    and c: "seal_commit env cfg t buf node staged follow (ss_db s) = Inr ((), db')"
  shows "seal_inv (s\<lparr>ss_db := db', ss_prepared := ss_prepared s - {(t, buf, node, staged)},
      ss_accepted := accept (tr_id t, bf_level buf + 1) (sn_id node) (ss_accepted s),
      ss_sealed := ss_sealed s @ [(buf, node)]\<rparr>)"
proof -
  have key: "bf_tree_id buf = tr_id t" and node: "sn_child_ids node \<noteq> []"
    "subseq (sn_child_ids node) (bf_item_ids buf)" "sn_level node = bf_level buf + 1"
    using inv m by (auto simp: seal_inv_def)
  let ?k = "(tr_id t, bf_level buf)" and ?p = "(tr_id t, bf_level buf + 1)"
  obtain later where
    e: "bf_item_ids (get_buffer (tr_id t) (bf_level buf) (ss_db s)) = bf_item_ids buf @ later"
      "bf_item_ids (get_buffer (tr_id t) (bf_level buf) db') = later"
      "get_buffer (tr_id t) (bf_level buf + 1) db' = push_item (sn_id node) (int (sn_token_count node))
         (sn_time_range_start node) (get_buffer (tr_id t) (bf_level buf + 1) (ss_db s))"
      "\<And>t' l. (t', l) \<noteq> ?k \<Longrightarrow> (t', l) \<noteq> ?p \<Longrightarrow> get_buffer t' l db' = get_buffer t' l (ss_db s)"
    by (rule seal_commit_InrD [OF c key]) (rule that; assumption)
  have "accept ?p (sn_id node) (ss_accepted s) (t', l) =
      consumed (t', l) (ss_sealed s @ [(buf, node)]) @ bf_item_ids (get_buffer t' l db')" for t' l
  proof -
    have old: "ss_accepted s (t', l) = consumed (t', l) (ss_sealed s) @
        bf_item_ids (get_buffer t' l (ss_db s))" for t' l
      using inv by (simp add: seal_inv_def)
    consider "(t', l) = ?k" | "(t', l) = ?p" | "(t', l) \<noteq> ?k" "(t', l) \<noteq> ?p" by blast
    then show ?thesis
    proof cases
      case 1
      then show ?thesis using e(1,2) old key by (simp add: accept_def consumed_snoc key_of_def)
    next
      case 2
      then show ?thesis using e(3) old key by (simp add: accept_def consumed_snoc key_of_def)
    next
      case 3
      then show ?thesis using e(4) [OF 3] old key by (auto simp: accept_def consumed_snoc key_of_def)
    qed
  qed
  then show ?thesis using inv node by (auto simp: seal_inv_def)
qed

lemma seal_inv_prepare:
  assumes inv: "seal_inv s"
    and p: "seal_prepare env cfg strategy t (get_buffer (tr_id t) l (ss_db s)) (ss_db s) = Inr (node, staged)"
  shows "seal_inv (s\<lparr>ss_prepared := insert (t, get_buffer (tr_id t) l (ss_db s), node, staged) (ss_prepared s)\<rparr>)"
  using inv seal_prepare_InrD [OF p] by (simp add: seal_inv_def bufs.get_tree_id)

interpretation seal_protocol: invariant_system seal_init seal_step seal_inv
proof
  fix s assume "seal_init s"
  then show "seal_inv s"
    by (simp add: seal_init_def seal_inv_def consumed_def get_buffer_def sql_find_def buffer_empty_def)
next
  fix s s' assume inv: "seal_inv s" and "seal_step s s'"
  from this(2) show "seal_inv s'"
  proof cases
    case (append now tid l i d ts db')
    then show ?thesis using seal_inv_append [OF inv] by simp
  next
    case (prepare env cfg strategy t l node staged)
    then show ?thesis using seal_inv_prepare [OF inv] by simp
  next
    case (commit t buf node staged env cfg follow db')
    then show ?thesis using seal_inv_commit [OF inv] by simp
  next
    case (fail t buf node staged env cfg follow e)
    then show ?thesis using inv by (auto simp: seal_inv_def)
  next
    case (archive tid)
    then show ?thesis using seal_inv_frame [OF inv] by (simp add: archive_tree_def)
  next
    case (create t db')
    then have "db_buffers db' = db_buffers (ss_db s)" by (auto simp: insert_tree_def split: if_splits)
    then show ?thesis using create seal_inv_frame [OF inv] by simp
  next
    case (other db')
    then show ?thesis using seal_inv_frame [OF inv] by simp
  qed
qed

text \<open>
  C7: under every interleaving of appends, prepared seals, late, failed and repeated commits and
  archivals, every buffer is first-in first-out and exactly-once: the items it ever accepted are
  the items of its committed snapshots, in commit order, followed by the items still waiting. No
  accepted item is lost or folded into two summaries, and every committed summary has at least one
  child and takes its children in order from the snapshot it consumed, one level below it.
\<close>

theorem accepted_items_sealed_exactly_once:
  assumes "reach seal_init seal_step s"
  shows "ss_accepted s (t, l) = consumed (t, l) (ss_sealed s) @ bf_item_ids (get_buffer t l (ss_db s))
    \<and> (\<forall>(b, n)\<in>set (ss_sealed s). sn_child_ids n \<noteq> [] \<and> subseq (sn_child_ids n) (bf_item_ids b)
        \<and> sn_level n = bf_level b + 1)"
  using seal_protocol.reach_inv [OF assms] by (simp add: seal_inv_def)

definition sample_system :: seal_system where
  "sample_system = \<lparr>ss_db = (sample_db [])\<lparr>db_buffers := []\<rparr>, ss_prepared = {}, ss_accepted = (\<lambda>_. []),
     ss_sealed = []\<rparr>"

theorem accepted_items_sealed_exactly_once_witness:
  "\<exists>s. reach seal_init seal_step s \<and> ss_accepted s (''t'', 0) = [''a'']
    \<and> bf_item_ids (get_buffer ''t'' 0 (ss_db s)) = [''a'']"
proof -
  let ?db = "ss_db sample_system"
  have tree: "get_tree ''t'' ?db = Some sample_tree" "tr_status sample_tree = Active"
    by (simp_all add: sample_system_def get_tree_def sample_db_def sql_find_def sample_tree_def)
  have new: "bf_item_ids (get_buffer ''t'' 0 ?db) = []"
    by (simp add: sample_system_def get_buffer_def sql_find_def buffer_empty_def)
  obtain db' where a: "append_to_buffer 5 ''t'' 0 ''a'' 1 2 ?db = Inr ((), db')"
    using tree new by (cases rule: append_to_buffer_cases [of "''t''" ?db 5 0 "''a''" 1 2]) auto
  let ?s = "sample_system\<lparr>ss_db := db', ss_accepted := accept (''t'', 0) ''a'' (ss_accepted sample_system)\<rparr>"
  have start: "reach seal_init seal_step sample_system"
    by (rule reach.reach_init) (simp add: seal_init_def sample_system_def)
  have "seal_step sample_system ?s" using seal_step.append [OF a] new by simp
  with start have r: "reach seal_init seal_step ?s" by (rule reach.reach_step)
  have "ss_accepted ?s (''t'', 0) = [''a'']" by (simp add: accept_def sample_system_def)
  moreover have "bf_item_ids (get_buffer ''t'' 0 (ss_db ?s)) = [''a'']"
    using accepted_items_sealed_exactly_once [OF r, of "''t''" 0]
    by (simp add: accept_def sample_system_def consumed_def)
  ultimately show ?thesis using r by blast
qed

end
