(* ===== verification/Cascade.thy ===== *)
theory Cascade
  imports Bucket_Seal
begin

section \<open>What a cascade achieves (src/memory/tree/bucket_seal.rs, flush.rs)\<close>

subsection \<open>One caller at a time\<close>

text \<open>Without interference between the two phases a seal empties the buffer it was given.\<close>

lemma seal_one_level_Inr:
  assumes one: "sv_between env = (\<lambda>_ db. db)"
    and s: "seal_one_level env cfg strategy t (get_buffer (tr_id t) l db) f db = (Inr sid, db')"
  shows "get_buffer (tr_id t) l db' = buffer_empty (tr_id t) l"
    and "bf_item_ids (get_buffer (tr_id t) (l + 1) db') = bf_item_ids (get_buffer (tr_id t) (l + 1) db) @ [sid]"
    and "\<And>t' l'. (t', l') \<noteq> (tr_id t, l) \<Longrightarrow> (t', l') \<noteq> (tr_id t, l + 1) \<Longrightarrow> get_buffer t' l' db' = get_buffer t' l' db"
proof -
  let ?b = "get_buffer (tr_id t) l db"
  have key: "bf_tree_id ?b = tr_id t" "bf_level ?b = l" by (simp_all add: bufs.get_tree_id bufs.get_level)
  obtain node staged where c: "seal_commit env cfg t ?b node staged f db = Inr ((), db')" "sid = sn_id node"
  proof (cases "seal_prepare env (cfg_tree cfg) strategy t ?b db")
    case (Inr p)
    obtain node staged where p: "p = (node, staged)" by (cases p)
    show ?thesis
    proof (cases "seal_commit env cfg t ?b node staged f db")
      case (Inl e)
      then show ?thesis using s \<open>seal_prepare _ _ _ _ _ _ = Inr p\<close> p one by (simp add: seal_one_level_def)
    next
      case (Inr q)
      obtain u db1 where q: "q = ((), db1)" by (cases q) auto
      show ?thesis
        by (rule that [of node staged])
          (use s Inr \<open>seal_prepare _ _ _ _ _ _ = Inr p\<close> p one q in
            \<open>auto simp: seal_one_level_def split: sum.splits\<close>)
    qed
  qed (use s in \<open>simp add: seal_one_level_def\<close>)
  obtain later where e: "bf_item_ids (get_buffer (tr_id t) (bf_level ?b) db) = bf_item_ids ?b @ later"
    "later = [] \<Longrightarrow> get_buffer (tr_id t) (bf_level ?b) db' = buffer_empty (tr_id t) (bf_level ?b)"
    "get_buffer (tr_id t) (bf_level ?b + 1) db' = push_item (sn_id node) (int (sn_token_count node))
       (sn_time_range_start node) (get_buffer (tr_id t) (bf_level ?b + 1) db)"
    "\<And>t' l'. (t', l') \<noteq> (tr_id t, bf_level ?b) \<Longrightarrow> (t', l') \<noteq> (tr_id t, bf_level ?b + 1) \<Longrightarrow>
       get_buffer t' l' db' = get_buffer t' l' db"
    by (rule seal_commit_InrD [OF c(1) key(1)]) (rule that; assumption)
  have "later = []" using e(1) unfolding key by simp
  then show "get_buffer (tr_id t) l db' = buffer_empty (tr_id t) l" using e(2) unfolding key by simp
  show "bf_item_ids (get_buffer (tr_id t) (l + 1) db') = bf_item_ids (get_buffer (tr_id t) (l + 1) db) @ [sid]"
    using e(3) c(2) unfolding key by simp
  show "\<And>t' l'. (t', l') \<noteq> (tr_id t, l) \<Longrightarrow> (t', l') \<noteq> (tr_id t, l + 1) \<Longrightarrow> get_buffer t' l' db' = get_buffer t' l' db"
    using e(4) unfolding key by simp
qed

lemma not_should_seal_empty: "buffer_is_empty b \<Longrightarrow> \<not> should_seal cfg b"
  by (simp add: should_seal_def buffer_is_empty_def)

lemma buffer_empty_is_empty [simp]: "buffer_is_empty (buffer_empty t l)"
  by (simp add: buffer_is_empty_def buffer_empty_def)

lemma cascade_levels_quiet:
  assumes one: "sv_between env = (\<lambda>_ db. db)"
    and "cascade_levels env cfg strategy t forced f [s..<s + k] db = (Inr ids, db')"
    and "length ids < k"
    and "\<forall>l>s. \<not> should_seal (cfg_tree cfg) (get_buffer (tr_id t) l db)"
  shows "(\<forall>l\<ge>s. \<not> should_seal (cfg_tree cfg) (get_buffer (tr_id t) l db')) \<and>
    (\<forall>l<s. get_buffer (tr_id t) l db' = get_buffer (tr_id t) l db) \<and>
    (\<forall>i<length ids. buffer_is_empty (get_buffer (tr_id t) (s + i) db'))"
  using assms(2-)
proof (induction k arbitrary: s forced db ids)
  case (Suc k)
  let ?b = "get_buffer (tr_id t) s db"
  have upt: "[s..<s + Suc k] = s # [Suc s..<Suc s + k]" by (simp add: upt_conv_Cons)
  show ?case
  proof (cases "\<not> forced \<and> \<not> should_seal (cfg_tree cfg) ?b \<or> buffer_is_empty ?b")
    case True
    then have "ids = []" "db' = db" "\<not> should_seal (cfg_tree cfg) ?b"
      using Suc.prems(1) True not_should_seal_empty [of ?b "cfg_tree cfg"] unfolding upt
      by (auto simp: Let_def split: if_split_asm)
    note stop = this
    have "\<not> should_seal (cfg_tree cfg) (get_buffer (tr_id t) l db')" if "s \<le> l" for l
    proof (cases "l = s")
      case False
      then have "s < l" using that by simp
      then show ?thesis using Suc.prems(3) stop(2) by simp
    qed (use stop in simp)
    then show ?thesis using stop(1,2) by simp
  next
    case False
    obtain r db1 where seal: "seal_one_level env cfg strategy t ?b f db = (r, db1)" by (metis surj_pair)
    obtain r2 db2 where rest: "cascade_levels env cfg strategy t False f [Suc s..<Suc s + k] db1 = (r2, db2)"
      by (metis surj_pair)
    obtain sid ids' where r: "r = Inr sid" "r2 = Inr ids'" "ids = sid # ids'" "db' = db2"
    proof -
      have step: "cascade_levels env cfg strategy t forced f (s # [Suc s..<Suc s + k]) db =
          (case r of Inl e \<Rightarrow> (Inl e, db1) | Inr sid \<Rightarrow>
            (case r2 of Inl e \<Rightarrow> (Inl e, db2) | Inr ids' \<Rightarrow> (Inr (sid # ids'), db2)))"
        if "r = Inr sid \<or> (\<exists>e. r = Inl e)" for sid
        using False seal rest by (cases forced; cases r; cases r2) (simp_all add: Let_def del: upt_Suc)
      show ?thesis
        using that Suc.prems(1) step unfolding upt by (cases r; cases r2) simp_all
    qed
    note one_level = seal_one_level_Inr [OF one seal [unfolded r(1)]]
    have quiet: "\<forall>l>Suc s. \<not> should_seal (cfg_tree cfg) (get_buffer (tr_id t) l db1)"
      using one_level(3) Suc.prems(3) by auto
    have ih: "(\<forall>l\<ge>Suc s. \<not> should_seal (cfg_tree cfg) (get_buffer (tr_id t) l db2)) \<and>
        (\<forall>l<Suc s. get_buffer (tr_id t) l db2 = get_buffer (tr_id t) l db1) \<and>
        (\<forall>i<length ids'. buffer_is_empty (get_buffer (tr_id t) (Suc s + i) db2))"
      unfolding r(4) [symmetric]
      by (rule Suc.IH [OF rest [unfolded r(2), folded r(4)] _ quiet]) (use Suc.prems(2) r(3) in simp)
    have s_empty: "get_buffer (tr_id t) s db2 = buffer_empty (tr_id t) s" using ih one_level(1) by simp
    have "\<not> should_seal (cfg_tree cfg) (get_buffer (tr_id t) l db2)" if "s \<le> l" for l
    proof (cases "l = s")
      case True
      then show ?thesis using s_empty not_should_seal_empty [of "buffer_empty (tr_id t) s"] by simp
    next
      case False
      then have "Suc s \<le> l" using that by simp
      then show ?thesis using ih by blast
    qed
    moreover have "get_buffer (tr_id t) l db2 = get_buffer (tr_id t) l db" if "l < s" for l
      using ih one_level(3) that by simp
    moreover have "buffer_is_empty (get_buffer (tr_id t) (s + i) db2)" if "i < length ids" for i
      using ih s_empty that r(3) by (cases i) auto
    ultimately show ?thesis unfolding r(4) by blast
  qed
qed simp

lemma cascade_levels_length:
  "cascade_levels env cfg strategy t forced f ls db = (Inr ids, db') \<Longrightarrow> length ids \<le> length ls"
  by (induction env cfg strategy t forced f ls db arbitrary: ids db' rule: cascade_levels.induct)
    (auto simp: Let_def split: if_splits prod.splits sum.splits)

text \<open>
  C8: a cascade with no competing caller restores the gates. It seals at most 32 levels; unless it
  stopped at that cap, afterwards no buffer of the tree from the start level up is over its gate
  (given that only the start level was), the levels it sealed are empty, and lower levels are as
  before. In particular a token or sibling gate crossed by an append is never left crossed.
\<close>

theorem cascade_restores_gates:
  assumes "sv_between env = (\<lambda>_ db. db)"
    and "cascade_all_from_with_services env cfg strategy t start force follow db = (Inr ids, db')"
    and "\<forall>l>start. \<not> should_seal (cfg_tree cfg) (get_buffer (tr_id t) l db)"
  shows "length ids \<le> 32
    \<and> (length ids < 32 \<longrightarrow>
        (\<forall>l\<ge>start. \<not> should_seal (cfg_tree cfg) (get_buffer (tr_id t) l db'))
        \<and> (\<forall>l<start. get_buffer (tr_id t) l db' = get_buffer (tr_id t) l db)
        \<and> (\<forall>i<length ids. buffer_is_empty (get_buffer (tr_id t) (start + i) db')))"
proof (intro conjI impI)
  note c = assms(2) [unfolded cascade_all_from_with_services_def MAX_CASCADE_DEPTH_def]
  show "length ids \<le> 32" using cascade_levels_length [OF c] by simp
  assume "length ids < 32"
  note q = cascade_levels_quiet [OF assms(1) c this assms(3)]
  show "\<forall>l\<ge>start. \<not> should_seal (cfg_tree cfg) (get_buffer (tr_id t) l db')"
    "\<forall>l<start. get_buffer (tr_id t) l db' = get_buffer (tr_id t) l db"
    "\<forall>i<length ids. buffer_is_empty (get_buffer (tr_id t) (start + i) db')"
    using q by blast+
qed

text \<open>One chunk waiting at level 0, force-sealed: one summary, nothing over a gate.\<close>

definition sample_chunk :: chunk_row where
  "sample_chunk = \<lparr>ck_id = ''a'', ck_content = [72, 105], ck_token_count = 1, ck_tags = [],
     ck_time_range_start = 2, ck_time_range_end = 3, ck_parent_summary_id = None\<rparr>"

definition sample_chunk_db :: tree_db where
  "sample_chunk_db = (sample_db [''a''])\<lparr>db_chunks := [sample_chunk]\<rparr>"

lemma sample_prepare:
  "\<exists>node staged. seal_prepare sample_env tree_config_default Empty_Labels sample_tree
     (get_buffer ''t'' 0 sample_chunk_db) sample_chunk_db = Inr (node, staged)"
proof -
  have "get_buffer ''t'' 0 sample_chunk_db = sample_buffer [''a'']"
    using sample_db_get [of "[''a'']"] get_buffer_frame [of sample_chunk_db "sample_db [''a'']"]
    by (simp add: sample_chunk_db_def)
  moreover have "hydrate_inputs rb 0 [''a''] sample_chunk_db = [leaf_input sample_chunk_db sample_chunk]" for rb
    by (simp add: hydrate_inputs_def hydrate_leaf_inputs_def get_chunk_def sample_chunk_db_def
        sample_chunk_def sql_find_def map_filter_simps)
  ultimately show ?thesis
    by (simp add: seal_prepare_def Let_def sample_buffer_def resolve_labels_def embed_content_def
        sample_env_def)
qed

lemma sample_chunk_db_high: "0 < l \<Longrightarrow> get_buffer ''t'' l sample_chunk_db = buffer_empty ''t'' l"
  by (simp add: get_buffer_def sample_chunk_db_def sample_db_def sql_find_def buffer_key_def sample_buffer_def)

lemma sample_cascade_run:
  "\<exists>sid db'. cascade_all_from_with_services sample_env memory_config_default Empty_Labels sample_tree 0
      True False sample_chunk_db = (Inr [sid], db')"
proof -
  let ?b = "get_buffer ''t'' 0 sample_chunk_db"
  have b: "?b = sample_buffer [''a'']"
    using sample_db_get [of "[''a'']"] get_buffer_frame [of sample_chunk_db "sample_db [''a'']"]
    by (simp add: sample_chunk_db_def)
  have t: "tr_id sample_tree = ''t''" by (simp add: sample_tree_def)
  have cfg: "cfg_tree memory_config_default = tree_config_default" by (simp add: memory_config_default_def)
  obtain node staged where p: "seal_prepare sample_env tree_config_default Empty_Labels sample_tree ?b
      sample_chunk_db = Inr (node, staged)" using sample_prepare by blast
  have row: "get_tree (tr_id sample_tree) sample_chunk_db = Some sample_tree" "tr_status sample_tree = Active"
    by (simp_all add: get_tree_def sample_chunk_db_def sample_db_def sql_find_def sample_tree_def)
  have key: "bf_tree_id ?b = tr_id sample_tree" "bf_level ?b = 0"
    by (simp_all add: t bufs.get_tree_id bufs.get_level)
  have snap: "bf_item_ids (get_buffer (tr_id sample_tree) (bf_level ?b) sample_chunk_db) = bf_item_ids ?b @ []"
    by (simp add: t key(2))
  obtain db1 where c: "seal_commit sample_env memory_config_default sample_tree ?b node staged False
      sample_chunk_db = Inr ((), db1)"
    using seal_commit_succeeds [OF row key(1) seal_prepare_InrD(1) [OF p] snap] by blast
  have one: "sv_between sample_env = (\<lambda>_ db. db)" by (simp add: sample_env_def)
  have s: "seal_one_level sample_env memory_config_default Empty_Labels sample_tree ?b False sample_chunk_db =
      (Inr (sn_id node), db1)"
    using p c by (simp add: seal_one_level_def cfg one) (simp add: sample_env_def)
  note after = seal_one_level_Inr [OF one, of _ _ sample_tree 0 sample_chunk_db, unfolded t, OF s]
  have low: "\<not> should_seal tree_config_default (get_buffer ''t'' 1 db1)"
    using after(2) sample_chunk_db_high [of 1] bufs.get_level [of "''t''" 1 db1]
    by (simp add: should_seal_def buffer_empty_def tree_config_default_def SUMMARY_FANOUT_def)
  have upt: "[0..<0 + MAX_CASCADE_DEPTH] = 0 # 1 # [2..<32]"
    by (simp add: MAX_CASCADE_DEPTH_def upt_conv_Cons)
  have ne: "\<not> buffer_is_empty ?b" by (simp add: b sample_buffer_def buffer_is_empty_def)
  have run: "cascade_all_from_with_services sample_env memory_config_default Empty_Labels sample_tree 0
      True False sample_chunk_db = (Inr [sn_id node], db1)"
    unfolding cascade_all_from_with_services_def upt using s ne low by (simp add: t cfg Let_def)
  then show ?thesis by blast
qed

theorem cascade_restores_gates_witness:
  "\<exists>sid db'. cascade_all_from_with_services sample_env memory_config_default Empty_Labels sample_tree 0
      True False sample_chunk_db = (Inr [sid], db')
    \<and> buffer_is_empty (get_buffer ''t'' 0 db') \<and> \<not> should_seal tree_config_default (get_buffer ''t'' 1 db')"
proof -
  have one: "sv_between sample_env = (\<lambda>_ db. db)" by (simp add: sample_env_def)
  have t: "tr_id sample_tree = ''t''" by (simp add: sample_tree_def)
  have cfg: "cfg_tree memory_config_default = tree_config_default" by (simp add: memory_config_default_def)
  have quiet: "\<forall>l>0. \<not> should_seal (cfg_tree memory_config_default) (get_buffer (tr_id sample_tree) l sample_chunk_db)"
    using sample_chunk_db_high not_should_seal_empty by (simp add: t)
  show ?thesis
    using sample_cascade_run cascade_restores_gates [OF one _ quiet, of Empty_Labels True False] by (force simp: t cfg)
qed

subsection \<open>The root of a tree\<close>

definition tree_top_ok :: "tree_db \<Rightarrow> bool" where
  "tree_top_ok db \<longleftrightarrow> (\<forall>r\<in>set (db_trees db). \<forall>i. tr_root_id r = Some i \<longrightarrow>
     (\<exists>s\<in>set (db_summaries db). sn_id (sr_node s) = i \<and> sn_tree_id (sr_node s) = tr_id r \<and>
        sn_level (sr_node s) = tr_max_level r))"

text \<open>
  The bucket path keeps the root where the documentation puts it: whenever every tree's root
  is a stored summary of that tree at its highest level, it still is after a seal commits.
\<close>

theorem seal_keeps_root_at_top:
  assumes "tree_top_ok db" and "trees_ok (db_trees db)" and "bf_tree_id buf = tr_id t"
    and "sn_tree_id node = tr_id t" and "sn_level node = bf_level buf + 1"
    and "\<forall>r\<in>set (db_summaries db). sn_id (sr_node r) \<noteq> sn_id node"
    and "seal_commit env cfg t buf node staged f db = Inr ((), db')"
  shows "tree_top_ok db'"
proof -
  obtain row where row: "get_tree (tr_id t) db = Some row" and
    trees: "db_trees db' = sql_update (\<lambda>r. tr_id r = tr_id t)
       (if tr_max_level row < bf_level buf + 1
        then (\<lambda>r. r\<lparr>tr_root_id := Some (sn_id node), tr_max_level := bf_level buf + 1,
               tr_last_sealed_at := Some (sn_sealed_at node)\<rparr>)
        else (\<lambda>r. r\<lparr>tr_last_sealed_at := Some (sn_sealed_at node)\<rparr>)) (db_trees db)"
    and sums: "list_all2 same_but_parents (if \<exists>r\<in>set (db_summaries db). sn_id (sr_node r) = sn_id node
       then db_summaries db else db_summaries db @ [summary_row_of node (Some staged)]) (db_summaries db')"
    by (rule seal_commit_InrD [OF assms(7,3)]) (rule that; assumption)
  have fresh: "\<not> (\<exists>r\<in>set (db_summaries db). sn_id (sr_node r) = sn_id node)" using assms(6) by blast
  note sums' = sums [unfolded if_not_P [OF fresh]]
  have keep: "\<exists>s'\<in>set (db_summaries db'). sn_id (sr_node s') = sn_id (sr_node s) \<and>
      sn_tree_id (sr_node s') = sn_tree_id (sr_node s) \<and> sn_level (sr_node s') = sn_level (sr_node s)"
    if mem: "s \<in> set (db_summaries db @ [summary_row_of node (Some staged)])" for s
  proof -
    obtain s' where "s' \<in> set (db_summaries db')" "same_but_parents s s'"
      using list_all2_member [OF sums' mem] by blast
    then show ?thesis using same_but_parentsD [of s s'] by blast
  qed
  show ?thesis
    unfolding tree_top_ok_def
  proof (intro ballI allI impI)
    fix r' i assume r': "r' \<in> set (db_trees db')" and root: "tr_root_id r' = Some i"
    show "\<exists>s\<in>set (db_summaries db'). sn_id (sr_node s) = i \<and> sn_tree_id (sr_node s) = tr_id r' \<and>
        sn_level (sr_node s) = tr_max_level r'"
      using r' unfolding trees
    proof (cases rule: in_sql_updateE)
      case (hit q)
      have q: "q = row"
        by (rule trees.key_eq [OF assms(2) hit(1)]) (use get_tree_exists [OF row] hit(2) in simp_all)
      show ?thesis
      proof (cases "tr_max_level row < bf_level buf + 1")
        case True
        then have "r' = q\<lparr>tr_root_id := Some (sn_id node), tr_max_level := bf_level buf + 1,
            tr_last_sealed_at := Some (sn_sealed_at node)\<rparr>" using hit(3) by simp
        then have r: "i = sn_id node" "tr_id r' = tr_id t" "tr_max_level r' = bf_level buf + 1"
          using root hit(2) by simp_all
        show ?thesis
          using keep [of "summary_row_of node (Some staged)"] assms(4,5) unfolding r
          by (simp add: summary_row_of_def)
      next
        case False
        then have r: "r' = q\<lparr>tr_last_sealed_at := Some (sn_sealed_at node)\<rparr>" using hit(3) by simp
        then obtain s where "s \<in> set (db_summaries db)" "sn_id (sr_node s) = i"
          "sn_tree_id (sr_node s) = tr_id r'" "sn_level (sr_node s) = tr_max_level r'"
          using assms(1) hit(1) root unfolding tree_top_ok_def by fastforce
        then show ?thesis using keep [of s] by simp
      qed
    next
      case miss
      then obtain s where "s \<in> set (db_summaries db)" "sn_id (sr_node s) = i"
          "sn_tree_id (sr_node s) = tr_id r'" "sn_level (sr_node s) = tr_max_level r'"
        using assms(1) root unfolding tree_top_ok_def by blast
      then show ?thesis using keep [of s] by simp
    qed
  qed
qed

theorem seal_keeps_root_at_top_witness:
  "\<exists>db'. seal_commit sample_env memory_config_default sample_tree (sample_buffer [''a'']) sample_node
      \<lparr>st_content_path = ''p.md'', st_content_sha256 = ''0''\<rparr> False (sample_db [''a'']) = Inr ((), db')
    \<and> tree_top_ok db'"
proof -
  let ?db = "sample_db [''a'']" and ?b = "sample_buffer [''a'']"
  have row: "get_tree (tr_id sample_tree) ?db = Some sample_tree" "tr_status sample_tree = Active"
    by (simp_all add: get_tree_def sample_db_def sql_find_def sample_tree_def)
  have h: "bf_tree_id ?b = tr_id sample_tree" "sn_tree_id sample_node = tr_id sample_tree"
    "sn_level sample_node = bf_level ?b + 1" "\<forall>r\<in>set (db_summaries ?db). sn_id (sr_node r) \<noteq> sn_id sample_node"
    "trees_ok (db_trees ?db)" "tree_top_ok ?db"
    by (simp_all add: sample_buffer_def sample_node_def sample_tree_def sample_db_def trees_ok_def tree_top_ok_def)
  have pre: "bf_item_ids (get_buffer (tr_id sample_tree) (bf_level ?b) ?db) = bf_item_ids ?b @ []"
    using sample_db_get by (simp add: sample_tree_def sample_buffer_def)
  obtain db' where c: "seal_commit sample_env memory_config_default sample_tree ?b sample_node
      \<lparr>st_content_path = ''p.md'', st_content_sha256 = ''0''\<rparr> False ?db = Inr ((), db')"
    using seal_commit_succeeds [OF row h(1,2) pre] by blast
  show ?thesis using c seal_keeps_root_at_top [OF h(6,5,1-4) c] by blast
qed

end
