(* ===== verification/Flush.thy ===== *)
theory Flush
  imports Cascade
begin

section \<open>Time-based flush (src/memory/tree/flush.rs)\<close>

text \<open>
  Buffers below their gate are sealed when their oldest item is too old. Only level 0 is forced; the
  levels above gate on fan-in as in any cascade. One buffer failing does not stop the others.
  Every stale buffer's run has its own services, clock and random tails: \<^verbatim>\<open>envs k\<close> is that of the
  k-th stale buffer.
\<close>

subsection \<open>The flush\<close>

fun distinct_firsts :: "'a list \<Rightarrow> 'a list \<Rightarrow> 'a list" where
  "distinct_firsts seen [] = []"
| "distinct_firsts seen (x # xs) =
    (if x \<in> set seen then distinct_firsts seen xs else x # distinct_firsts (x # seen) xs)"

type_synonym flush_failure = "string \<times> nat \<times> anyhow_error"

fun flush_loop :: "(nat \<Rightarrow> seal_env) \<Rightarrow> memory_config \<Rightarrow> label_strategy \<Rightarrow> (string \<rightharpoonup> tree) \<Rightarrow> nat \<Rightarrow>
    buffer list \<Rightarrow> tree_db \<Rightarrow> nat \<times> flush_failure list \<times> tree_db" where
  "flush_loop envs cfg strategy tree_by_id k [] db = (0, [], db)"
| "flush_loop envs cfg strategy tree_by_id k (buf # stale) db =
    (case tree_by_id (bf_tree_id buf) of
       None \<Rightarrow> flush_loop envs cfg strategy tree_by_id (k + 1) stale db
     | Some t \<Rightarrow>
        (case cascade_all_from_with_services (envs k) cfg strategy t (bf_level buf) True False db of
           (Inr ids, db') \<Rightarrow>
             (case flush_loop envs cfg strategy tree_by_id (k + 1) stale db' of
                (seals, failures, db'') \<Rightarrow> (length ids + seals, failures, db''))
         | (Inl e, db') \<Rightarrow>
             (case flush_loop envs cfg strategy tree_by_id (k + 1) stale db' of
                (seals, failures, db'') \<Rightarrow> (seals, (bf_tree_id buf, bf_level buf, e) # failures, db''))))"

fun join_with :: "string \<Rightarrow> string list \<Rightarrow> string" where
  "join_with sep [] = ''''"
| "join_with sep [x] = x"
| "join_with sep (x # y # xs) = x @ sep @ join_with sep (y # xs)"

definition flush_error :: "nat \<Rightarrow> flush_failure list \<Rightarrow> anyhow_error" where
  "flush_error seals failures = plain_error (''failed to flush '' @ show_nat (length failures) @
     '' stale buffer(s) after sealing '' @ show_nat seals @ '': '' @
     join_with ''; '' (map (\<lambda>(tid, l, e). tid @ '' level '' @ show_nat l @ '': '' @ err_msg e) failures))"

definition flush_stale_buffers_with_services :: "(nat \<Rightarrow> seal_env) \<Rightarrow> memory_config \<Rightarrow> int \<Rightarrow> int \<Rightarrow>
    label_strategy \<Rightarrow> tree_db \<Rightarrow> nat result \<times> tree_db" where
  "flush_stale_buffers_with_services envs cfg now max_age strategy db =
    (let stale = list_stale_buffers (now - max_age) db;
         tree_by_id = get_trees_batch (distinct_firsts [] (map bf_tree_id stale)) db
     in case flush_loop envs cfg strategy tree_by_id 0 stale db of
          (seals, failures, db') \<Rightarrow>
            (if failures \<noteq> [] then (Inl (flush_error seals failures), db') else (Inr seals, db')))"

definition without_services :: "seal_env \<Rightarrow> seal_env" where
  "without_services env = env\<lparr>sv_embed := None, sv_committed := (\<lambda>_. Inr ())\<rparr>"

definition flush_stale_buffers :: "(nat \<Rightarrow> seal_env) \<Rightarrow> memory_config \<Rightarrow> int \<Rightarrow> int \<Rightarrow> label_strategy \<Rightarrow>
    tree_db \<Rightarrow> nat result \<times> tree_db" where
  "flush_stale_buffers envs = flush_stale_buffers_with_services (\<lambda>k. without_services (envs k))"

definition flush_stale_buffers_default :: "(nat \<Rightarrow> seal_env) \<Rightarrow> memory_config \<Rightarrow> int \<Rightarrow> label_strategy \<Rightarrow>
    tree_db \<Rightarrow> nat result \<times> tree_db" where
  "flush_stale_buffers_default envs cfg now = flush_stale_buffers envs cfg now (DEFAULT_FLUSH_AGE_SECS * 1000)"

definition force_flush_tree :: "seal_env \<Rightarrow> memory_config \<Rightarrow> string \<Rightarrow> label_strategy \<Rightarrow> tree_db \<Rightarrow>
    string list result \<times> tree_db" where
  "force_flush_tree env cfg tree_id strategy db =
    (case get_tree tree_id db of
       None \<Rightarrow> (Inl (plain_error (''no tree with id '' @ tree_id)), db)
     | Some t \<Rightarrow> cascade_all_from env cfg strategy t 0 True db)"

subsection \<open>What a flush reaches\<close>

lemma set_distinct_firsts: "set (distinct_firsts seen xs) = set xs - set seen"
  by (induction seen xs rule: distinct_firsts.induct) auto

text \<open>A cascade, whether it succeeds or not, leaves alone other trees and lower levels.\<close>

lemma seal_one_level_frame:
  assumes one: "sv_between env = (\<lambda>_ db. db)" and key: "bf_tree_id buf = tr_id t"
    and s: "seal_one_level env cfg strategy t buf f db = (r, db')"
    and other: "t' \<noteq> tr_id t \<or> l < bf_level buf"
  shows "get_buffer t' l db' = get_buffer t' l db"
proof (cases "seal_prepare env (cfg_tree cfg) strategy t buf db")
  case (Inl e)
  then show ?thesis using s by (simp add: seal_one_level_def)
next
  case (Inr p)
  obtain node staged where p: "p = (node, staged)" by (cases p)
  show ?thesis
  proof (cases "seal_commit env cfg t buf node staged f db")
    case (Inl e)
    then show ?thesis using s \<open>seal_prepare _ _ _ _ _ _ = Inr p\<close> p one by (simp add: seal_one_level_def)
  next
    case (Inr q)
    obtain u db1 where q: "q = (u, db1)" by (cases q)
    have "db' = db1"
      using s \<open>seal_prepare _ _ _ _ _ _ = Inr p\<close> p one Inr q
      by (simp add: seal_one_level_def split: sum.splits)
    moreover have "get_buffer t' l db1 = get_buffer t' l db"
      by (rule seal_commit_InrD [OF Inr [unfolded q] key]) (use other in auto)
    ultimately show ?thesis by simp
  qed
qed

lemma cascade_levels_frame:
  assumes one: "sv_between env = (\<lambda>_ db. db)"
    and "cascade_levels env cfg strategy t forced f ls db = (r, db')"
    and "t' \<noteq> tr_id t \<or> (\<forall>i\<in>set ls. l < i)"
  shows "get_buffer t' l db' = get_buffer t' l db"
  using assms(2,3)
proof (induction ls arbitrary: forced db r)
  case (Cons level ls)
  let ?b = "get_buffer (tr_id t) level db"
  obtain r1 db1 where seal: "seal_one_level env cfg strategy t ?b f db = (r1, db1)" by (metis surj_pair)
  have first: "get_buffer t' l db1 = get_buffer t' l db"
    by (rule seal_one_level_frame [OF one _ seal])
      (use Cons.prems(2) in \<open>auto simp: bufs.get_tree_id bufs.get_level\<close>)
  obtain r2 db2 where rest: "cascade_levels env cfg strategy t False f ls db1 = (r2, db2)"
    by (metis surj_pair)
  consider "db' = db" | "db' = db1" | "db' = db2"
    using Cons.prems(1) seal rest by (cases r1; cases r2) (auto simp: Let_def split: if_splits)
  then show ?case
  proof cases
    case 3
    then show ?thesis using Cons.IH [OF rest [folded 3]] Cons.prems(2) first by auto
  qed (use first in simp_all)
qed simp

text \<open>A forced cascade that returns has emptied its first level.\<close>

lemma forced_cascade_empties:
  assumes one: "sv_between env = (\<lambda>_ db. db)"
    and c: "cascade_all_from_with_services env cfg strategy t s True f db = (Inr ids, db')"
  shows "buffer_is_empty (get_buffer (tr_id t) s db')"
proof -
  let ?b = "get_buffer (tr_id t) s db"
  have upt: "[s..<s + MAX_CASCADE_DEPTH] = s # [Suc s..<s + 32]"
    by (simp add: MAX_CASCADE_DEPTH_def upt_conv_Cons)
  note c' = c [unfolded cascade_all_from_with_services_def upt]
  show ?thesis
  proof (cases "buffer_is_empty ?b")
    case True
    then show ?thesis using c' by (simp add: Let_def)
  next
    case False
    obtain r1 db1 where seal: "seal_one_level env cfg strategy t ?b f db = (r1, db1)" by (metis surj_pair)
    obtain r2 db2 where rest: "cascade_levels env cfg strategy t False f [Suc s..<s + 32] db1 = (r2, db2)"
      by (metis surj_pair)
    obtain sid where r: "r1 = Inr sid" "db' = db2"
      using c' False seal rest by (cases r1; cases r2) (simp_all add: Let_def)
    have "get_buffer (tr_id t) s db2 = get_buffer (tr_id t) s db1"
      by (rule cascade_levels_frame [OF one rest]) simp
    then show ?thesis using seal_one_level_Inr(1) [OF one seal [unfolded r(1)]] r(2) by simp
  qed
qed

lemma cascade_all_frame:
  "sv_between env = (\<lambda>_ db. db) \<Longrightarrow>
   cascade_all_from_with_services env cfg strategy t s force f db = (r, db') \<Longrightarrow> t' \<noteq> tr_id t \<Longrightarrow>
   get_buffer t' l db' = get_buffer t' l db"
  unfolding cascade_all_from_with_services_def by (rule cascade_levels_frame) auto

text \<open>The stale buffers of one flush belong to different trees, since only level 0 is listed.\<close>

lemma stale_distinct:
  assumes "buffers_ok (db_buffers db)"
  shows "distinct (map bf_tree_id (list_stale_buffers cutoff db))"
    and "b \<in> set (list_stale_buffers cutoff db) \<Longrightarrow> bf_level b = 0"
proof -
  let ?p = "\<lambda>b. (case bf_oldest_at b of Some t \<Rightarrow> t \<le> cutoff | None \<Rightarrow> False) \<and> bf_level b = 0"
  have "distinct (map bf_tree_id (filter ?p (map br_buffer rs)))"
    if "distinct (map buffer_key rs)" for rs
    using that by (induction rs) (auto simp: buffer_key_def)
  then show "distinct (map bf_tree_id (list_stale_buffers cutoff db))"
    using assms unfolding buffers_ok_def list_stale_buffers_def distinct_map by auto
  show "b \<in> set (list_stale_buffers cutoff db) \<Longrightarrow> bf_level b = 0"
    by (simp add: list_stale_buffers_def)
qed

lemma flush_loop_reaches:
  assumes one: "\<forall>k. sv_between (envs k) = (\<lambda>_ db. db)"
    and trees: "\<forall>i t. tree_by_id i = Some t \<longrightarrow> tr_id t = i"
    and "distinct (map bf_tree_id stale)"
    and "flush_loop envs cfg strategy tree_by_id k stale db = (n, failures, db')"
  shows "(\<forall>b\<in>set stale. tree_by_id (bf_tree_id b) \<noteq> None \<longrightarrow>
      (\<exists>e. (bf_tree_id b, bf_level b, e) \<in> set failures) \<or>
      buffer_is_empty (get_buffer (bf_tree_id b) (bf_level b) db')) \<and>
    (\<forall>t l. t \<notin> bf_tree_id ` set stale \<longrightarrow> get_buffer t l db' = get_buffer t l db)"
  using assms(3,4)
proof (induction stale arbitrary: k db n failures)
  case (Cons b stale)
  show ?case
  proof (cases "tree_by_id (bf_tree_id b)")
    case None
    then show ?thesis using Cons.IH [of "k + 1" db n failures] Cons.prems by simp
  next
    case (Some t)
    then have t: "tr_id t = bf_tree_id b" using trees by blast
    obtain r db1 where c: "cascade_all_from_with_services (envs k) cfg strategy t (bf_level b) True False db =
        (r, db1)" by (metis surj_pair)
    obtain n' fs db2 where rest: "flush_loop envs cfg strategy tree_by_id (k + 1) stale db1 = (n', fs, db2)"
      by (metis prod_cases3)
    have db': "db' = db2" "set fs \<subseteq> set failures"
      and head: "(\<exists>e. (bf_tree_id b, bf_level b, e) \<in> set failures) \<or> (\<exists>ids. r = Inr ids)"
      using Cons.prems(2) Some c rest by (cases r; auto)+
    have ih: "(\<forall>b\<in>set stale. tree_by_id (bf_tree_id b) \<noteq> None \<longrightarrow>
      (\<exists>e. (bf_tree_id b, bf_level b, e) \<in> set fs) \<or>
      buffer_is_empty (get_buffer (bf_tree_id b) (bf_level b) db2)) \<and>
      (\<forall>t l. t \<notin> bf_tree_id ` set stale \<longrightarrow> get_buffer t l db2 = get_buffer t l db1)"
      using Cons.IH [OF _ rest [folded db'(1)]] Cons.prems(1) db'(1) by simp
    have "buffer_is_empty (get_buffer (bf_tree_id b) (bf_level b) db1)" if "r = Inr ids" for ids
      using forced_cascade_empties [OF one [rule_format] c [unfolded that]] t by simp
    moreover have "get_buffer (bf_tree_id b) (bf_level b) db2 = get_buffer (bf_tree_id b) (bf_level b) db1"
      using ih Cons.prems(1) by auto
    ultimately have here: "(\<exists>e. (bf_tree_id b, bf_level b, e) \<in> set failures) \<or>
        buffer_is_empty (get_buffer (bf_tree_id b) (bf_level b) db2)" using head by auto
    have frame: "get_buffer t' l db2 = get_buffer t' l db" if "t' \<notin> bf_tree_id ` set (b # stale)" for t' l
      using that ih cascade_all_frame [OF one [rule_format] c, of t' l] t by simp
    have there: "(\<exists>e. (bf_tree_id c, bf_level c, e) \<in> set failures) \<or>
        buffer_is_empty (get_buffer (bf_tree_id c) (bf_level c) db2)"
      if "c \<in> set stale" "tree_by_id (bf_tree_id c) \<noteq> None" for c
      using conjunct1 [OF ih] that db'(2) by blast
    show ?thesis unfolding db'(1) using here there frame by simp
  qed
qed simp

text \<open>
  C9: a flush reaches every stale buffer. With no competing caller, after a flush every level-0
  buffer whose oldest item was past the cutoff and whose tree exists is either empty or named in
  the reported failures, so one failing tree never shields another; the flush reports success
  exactly when nothing failed; and a tree with no stale level-0 buffer keeps all its buffers.
\<close>

theorem flush_reaches_every_stale_buffer:
  assumes "\<forall>k. sv_between (envs k) = (\<lambda>_ db. db)"
    and "buffers_ok (db_buffers db)" and "trees_ok (db_trees db)"
  shows "\<exists>seals failures db'.
      flush_stale_buffers_with_services envs cfg now max_age strategy db =
        ((if failures = [] then Inr seals else Inl (flush_error seals failures)), db')
    \<and> (\<forall>b\<in>set (list_stale_buffers (now - max_age) db). tree_exists (bf_tree_id b) db \<longrightarrow>
        (\<exists>e. (bf_tree_id b, 0, e) \<in> set failures)
        \<or> buffer_is_empty (get_buffer (bf_tree_id b) 0 db'))
    \<and> (\<forall>t l. t \<notin> bf_tree_id ` set (list_stale_buffers (now - max_age) db) \<longrightarrow>
        get_buffer t l db' = get_buffer t l db)"
proof -
  let ?stale = "list_stale_buffers (now - max_age) db"
  let ?m = "get_trees_batch (distinct_firsts [] (map bf_tree_id ?stale)) db"
  obtain n fs db' where run: "flush_loop envs cfg strategy ?m 0 ?stale db = (n, fs, db')"
    by (metis prod_cases3)
  have m: "?m i = (if i \<in> bf_tree_id ` set ?stale then sql_find (\<lambda>r. tr_id r = i) (db_trees db) else None)" for i
    unfolding get_trees_batch_def TREES_MAX_FETCH_BATCH_def
    by (subst trees.fetch_batch [OF assms(3)]) (simp_all add: set_distinct_firsts)
  have keys: "\<forall>i t. ?m i = Some t \<longrightarrow> tr_id t = i"
    unfolding m by (auto split: if_splits dest: sql_find_SomeD)
  note reach = flush_loop_reaches [OF assms(1) keys stale_distinct(1) [OF assms(2)] run]
  have found: "?m (bf_tree_id b) \<noteq> None" if b: "b \<in> set ?stale" "tree_exists (bf_tree_id b) db" for b
  proof
    obtain r where "r \<in> set (db_trees db)" "tr_id r = bf_tree_id b"
      using b(2) by (auto simp: tree_exists_def list_ex_iff)
    moreover assume "?m (bf_tree_id b) = None"
    then have "sql_find (\<lambda>r. tr_id r = bf_tree_id b) (db_trees db) = None" using b(1) unfolding m by simp
    ultimately show False using sql_find_NoneD by fast
  qed
  have "flush_stale_buffers_with_services envs cfg now max_age strategy db =
      ((if fs = [] then Inr n else Inl (flush_error n fs)), db')"
    using run by (simp add: flush_stale_buffers_with_services_def Let_def)
  moreover have "(\<exists>e. (bf_tree_id b, 0, e) \<in> set fs) \<or> buffer_is_empty (get_buffer (bf_tree_id b) 0 db')"
    if "b \<in> set ?stale" "tree_exists (bf_tree_id b) db" for b
    using conjunct1 [OF reach] found [OF that] that(1) stale_distinct(2) [OF assms(2) that(1)] by force
  ultimately show ?thesis using conjunct2 [OF reach] by blast
qed

text \<open>The sample tree's one buffer is stale: it is sealed, and nothing is left below the gate.\<close>

theorem flush_reaches_every_stale_buffer_witness:
  "\<exists>db'. flush_stale_buffers_with_services (\<lambda>_. sample_env) memory_config_default 10 5 Empty_Labels
      sample_chunk_db = (Inr 1, db') \<and> buffer_is_empty (get_buffer ''t'' 0 db')"
proof -
  have stale: "list_stale_buffers (10 - 5) sample_chunk_db = [sample_buffer [''a'']]"
    by (simp add: list_stale_buffers_def sample_chunk_db_def sample_db_def sample_buffer_def)
  have h: "\<forall>k. sv_between ((\<lambda>_. sample_env) k) = (\<lambda>_ db. db)" "buffers_ok (db_buffers sample_chunk_db)"
    "trees_ok (db_trees sample_chunk_db)"
    by (simp_all add: sample_env_def sample_chunk_db_def sample_db_def buffers_ok_def trees_ok_def)
  have ex: "tree_exists (bf_tree_id (sample_buffer [''a''])) sample_chunk_db"
    by (simp add: tree_exists_def sample_chunk_db_def sample_db_def sample_tree_def sample_buffer_def)
  have t: "bf_tree_id (sample_buffer [''a'']) = ''t''" "bf_level (sample_buffer [''a'']) = 0"
    by (simp_all add: sample_buffer_def)
  obtain sid db1 where run: "cascade_all_from_with_services sample_env memory_config_default Empty_Labels
      sample_tree 0 True False sample_chunk_db = (Inr [sid], db1)"
    using sample_cascade_run by blast
  have found: "get_trees_batch (distinct_firsts [] (map bf_tree_id [sample_buffer [''a'']])) sample_chunk_db ''t'' =
      Some sample_tree"
    unfolding get_trees_batch_def TREES_MAX_FETCH_BATCH_def
    by (subst trees.fetch_batch [OF h(3)])
      (simp_all add: t sql_find_def sample_chunk_db_def sample_db_def sample_tree_def)
  have flush: "flush_stale_buffers_with_services (\<lambda>_. sample_env) memory_config_default 10 5 Empty_Labels
      sample_chunk_db = (Inr 1, db1)"
    using found run by (simp add: flush_stale_buffers_with_services_def stale [simplified] t Let_def)
  show ?thesis
    using flush_reaches_every_stale_buffer [OF h, of memory_config_default 10 5 Empty_Labels] flush ex
    unfolding stale by (auto simp: t split: if_splits)
qed

end
