(* ===== verification/Document_Seal.thy ===== *)
theory Document_Seal
  imports Cascade
begin

section \<open>Per-document subtrees (src/memory/tree/document_seal.rs)\<close>

text \<open>
  A document version is sealed on its own: its chunks are cut into batches under the token budget,
  each batch becomes a summary, and the summaries are grouped by 32 until one is left. That root goes
  into the shared merge tier, a buffer a thousand levels up, which seals like any other. The batches
  of a level are sealed in their order (the code overlaps up to eight of them; they write different
  rows). \<^verbatim>\<open>sv_now\<close>, \<^verbatim>\<open>sv_rand\<close> and \<^verbatim>\<open>sv_between\<close> are indexed by the number of the node in the run.
\<close>

definition MERGE_LEVEL_BASE :: nat where "MERGE_LEVEL_BASE = 1000"
definition DOC_SUBTREE_MAX_FANIN :: nat where "DOC_SUBTREE_MAX_FANIN = 32"

subsection \<open>Batches\<close>

fun batch_leaves_loop :: "(string \<rightharpoonup> chunk_row) \<Rightarrow> int \<Rightarrow> string list \<Rightarrow> string list \<Rightarrow> int \<Rightarrow>
    string list list \<Rightarrow> string list list" where
  "batch_leaves_loop chunks budget [] current tokens batches =
    (if current \<noteq> [] then batches @ [current] else batches)"
| "batch_leaves_loop chunks budget (i # is) current tokens batches =
    (case chunks i of
       None \<Rightarrow> batch_leaves_loop chunks budget is current tokens batches
     | Some chunk \<Rightarrow>
        (let next = int (ck_token_count chunk) in
         if current \<noteq> [] \<and> (tokens + next > budget \<or> length current \<ge> DOC_SUBTREE_MAX_FANIN)
         then batch_leaves_loop chunks budget is [i] next (batches @ [current])
         else batch_leaves_loop chunks budget is (current @ [i]) (tokens + next) batches))"

definition batch_leaves_by_token_budget :: "tree_config \<Rightarrow> string list \<Rightarrow> tree_db \<Rightarrow> string list list result" where
  "batch_leaves_by_token_budget cfg chunk_ids db =
    (let batches = batch_leaves_loop (get_chunks_batch chunk_ids db) (int (tc_input_token_budget cfg))
           chunk_ids [] 0 []
     in if batches = [] then Inl (plain_error ''seal_document_subtree: no resolvable chunks'')
        else Inr batches)"

definition batch_by_count :: "string list \<Rightarrow> nat \<Rightarrow> string list list" where
  "batch_by_count ids n = windows (max n 1) ids"

subsection \<open>Sealing one batch\<close>

definition explicit_output :: "seal_env \<Rightarrow> tree_config \<Rightarrow> summary_input list \<Rightarrow> summary_context \<Rightarrow> summary_output" where
  "explicit_output env cfg inputs ctx =
    (if length inputs = 1 \<and> si_token_count (inputs ! 0) \<le> tc_output_token_budget cfg
     then \<lparr>so_content = si_content (inputs ! 0), so_token_count = si_token_count (inputs ! 0),
       so_entities = [], so_topics = []\<rparr>
     else seal_output env cfg inputs ctx)"

definition doc_node_id :: "seal_env \<Rightarrow> nat \<Rightarrow> nat \<Rightarrow> string" where
  "doc_node_id env k target_level =
    new_summary_id (nat (sv_now env k mod 2 ^ 64)) target_level (sv_rand env k)"

definition explicit_prepare :: "seal_env \<Rightarrow> tree_config \<Rightarrow> label_strategy \<Rightarrow> tree \<Rightarrow> nat \<Rightarrow> string list \<Rightarrow>
    string \<Rightarrow> int option \<Rightarrow> nat \<Rightarrow> tree_db \<Rightarrow> (summary_node \<times> staged_summary) result" where
  "explicit_prepare env cfg strategy t level child_ids doc_id version_ms k db =
    (let target_level = level + 1;
         inputs = hydrate_inputs (sv_read_body env) level child_ids db
     in if inputs = []
        then Inl (plain_error (''document seal has no hydrated inputs at level '' @ show_nat level))
        else
          let out = explicit_output env cfg inputs (fold_context cfg t target_level) in
          (case resolve_labels strategy inputs (so_content out) of
             Inl e \<Rightarrow> Inl e
           | Inr (entities, topics) \<Rightarrow>
              (case embed_content env ''embed document summary'' (so_content out) of
                 Inl e \<Rightarrow> Inl e
               | Inr embedding \<Rightarrow>
                  (let node = \<lparr>sn_id = doc_node_id env k target_level,
                         sn_tree_id = tr_id t, sn_tree_kind = tr_kind t, sn_level = target_level,
                         sn_parent_id = None, sn_child_ids = child_ids,
                         sn_content = so_content out, sn_token_count = so_token_count out,
                         sn_entities = entities, sn_topics = topics,
                         sn_time_range_start = Min (si_time_range_start ` set inputs),
                         sn_time_range_end = Max (si_time_range_end ` set inputs),
                         sn_score = max_score inputs, sn_sealed_at = sv_now env k, sn_deleted = False,
                         sn_embedding = embedding, sn_doc_id = Some doc_id, sn_version_ms = version_ms\<rparr>
                   in case sv_stage env node (tr_scope t) of
                        Inl e \<Rightarrow> Inl e | Inr staged \<Rightarrow> Inr (node, staged)))))"

text \<open>Unlike the bucket path, a chunk's backlink is overwritten.\<close>

definition backlink_doc_child :: "nat \<Rightarrow> string \<Rightarrow> string \<Rightarrow> tree_db \<Rightarrow> tree_db" where
  "backlink_doc_child level summary_id child_id db =
    (if level = 0
     then db\<lparr>db_chunks := sql_update (\<lambda>c. ck_id c = child_id)
       (\<lambda>c. c\<lparr>ck_parent_summary_id := Some summary_id\<rparr>) (db_chunks db)\<rparr>
     else backlink_child level summary_id child_id db)"

definition explicit_commit :: "seal_env \<Rightarrow> tree \<Rightarrow> nat \<Rightarrow> summary_node \<Rightarrow> staged_summary \<Rightarrow> (unit, tree_db) tx" where
  "explicit_commit env t level node staged db =
    (case get_tree (sn_tree_id node) db of
       None \<Rightarrow> Inl no_rows_error
     | Some row \<Rightarrow>
        (if tr_status row \<noteq> Active then Inl (archived_error (sn_tree_id node))
         else
           tx_bind (insert_staged_summary_tx (sn_sealed_at node) node (Some staged) (sv_signature env)) (\<lambda>_.
           tx_bind (tx_pure (index_summary_tx node (sn_sealed_at node))) (\<lambda>_.
           tx_pure (fold (backlink_doc_child level (sn_id node)) (sn_child_ids node)))) db))"

definition seal_explicit_children :: "seal_env \<Rightarrow> tree_config \<Rightarrow> label_strategy \<Rightarrow> tree \<Rightarrow> nat \<Rightarrow> string list \<Rightarrow>
    string \<Rightarrow> int option \<Rightarrow> nat \<Rightarrow> tree_db \<Rightarrow> summary_node result \<times> tree_db" where
  "seal_explicit_children env cfg strategy t level child_ids doc_id version_ms k db =
    (case explicit_prepare env cfg strategy t level child_ids doc_id version_ms k db of
       Inl e \<Rightarrow> (Inl e, db)
     | Inr (node, staged) \<Rightarrow>
        (case run_tx (explicit_commit env t level node staged) (sv_between env k db) of
           (Inl e, db') \<Rightarrow> (Inl e, db')
         | (Inr _, db') \<Rightarrow>
            (case sv_committed env node of Inl e \<Rightarrow> (Inl e, db') | Inr _ \<Rightarrow> (Inr node, db'))))"

subsection \<open>Levels\<close>

fun seal_batches :: "seal_env \<Rightarrow> tree_config \<Rightarrow> label_strategy \<Rightarrow> tree \<Rightarrow> nat \<Rightarrow> string \<Rightarrow> int option \<Rightarrow>
    string list list \<Rightarrow> nat \<Rightarrow> tree_db \<Rightarrow> summary_node list result \<times> tree_db" where
  "seal_batches env cfg strategy t level doc_id version_ms [] k db = (Inr [], db)"
| "seal_batches env cfg strategy t level doc_id version_ms (b # bs) k db =
    (case seal_explicit_children env cfg strategy t level b doc_id version_ms k db of
       (Inl e, db') \<Rightarrow> (Inl e, db')
     | (Inr node, db') \<Rightarrow>
        (case seal_batches env cfg strategy t level doc_id version_ms bs (k + 1) db' of
           (Inl e, db'') \<Rightarrow> (Inl e, db'')
         | (Inr nodes, db'') \<Rightarrow> (Inr (node # nodes), db'')))"

definition level_batches :: "tree_config \<Rightarrow> nat \<Rightarrow> string list \<Rightarrow> tree_db \<Rightarrow> string list list result" where
  "level_batches cfg level ids db =
    (if level = 0 then batch_leaves_by_token_budget cfg ids db
     else Inr (batch_by_count ids DOC_SUBTREE_MAX_FANIN))"

lemma seal_batches_length:
  "seal_batches env cfg strategy t level d v bs k db = (Inr nodes, db') \<Longrightarrow> length nodes = length bs"
  by (induction bs arbitrary: k db nodes) (auto split: sum.splits prod.splits)

lemma length_windows: "0 < n \<Longrightarrow> length (windows n xs) = (length xs + n - 1) div n"
proof (induction n xs rule: windows.induct)
  case (1 n xs)
  show ?case
  proof (cases "xs = [] \<or> n = 0")
    case True
    then show ?thesis using 1(2) by (subst windows.simps) auto
  next
    case False
    have "length (windows n xs) = Suc (length (windows n (drop n xs)))"
      using False by (subst windows.simps) simp
    also have "\<dots> = Suc ((length (drop n xs) + n - 1) div n)" using 1 False by simp
    also have "\<dots> = (length xs + n - 1) div n"
    proof (cases "n \<le> length xs")
      case True
      have "(length xs + n - 1) div n = (length xs - n + n - 1 + n) div n" using True False by simp
      also have "\<dots> = Suc ((length xs - n + n - 1) div n)" using 1(2) by (subst div_add_self2) simp_all
      finally show ?thesis by simp
    next
      case 2: False
      then have "(length xs + n - 1) div n = Suc ((length xs - 1) div n)"
        using False 1(2) by (metis Nat.add_diff_assoc2 One_nat_def Suc_leI div_add_self2 length_greater_0_conv less_numeral_extra(3) plus_1_eq_Suc add.commute)
      then show ?thesis using 2 False by (simp add: div_less)
    qed
    finally show ?thesis .
  qed
qed

lemma fewer_nodes:
  assumes "level \<noteq> 0" and "level_batches cfg level ids db = Inr batches"
    and "seal_batches env cfg strategy t level d v batches k db = (Inr nodes, db')" and "\<not> length nodes \<le> 1"
  shows "length nodes < length ids"
  using assms seal_batches_length [OF assms(3)]
  by (auto simp: level_batches_def batch_by_count_def length_windows DOC_SUBTREE_MAX_FANIN_def)

function document_levels :: "seal_env \<Rightarrow> tree_config \<Rightarrow> label_strategy \<Rightarrow> tree \<Rightarrow> string \<Rightarrow> int option \<Rightarrow>
    nat \<Rightarrow> string list \<Rightarrow> nat \<Rightarrow> tree_db \<Rightarrow> summary_node result \<times> tree_db" where
  "document_levels env cfg strategy t doc_id version_ms level ids k db =
    (case level_batches cfg level ids db of
       Inl e \<Rightarrow> (Inl e, db)
     | Inr batches \<Rightarrow>
        (case seal_batches env cfg strategy t level doc_id version_ms batches k db of
           (Inl e, db') \<Rightarrow> (Inl e, db')
         | (Inr nodes, db') \<Rightarrow>
            (if length nodes \<le> 1
             then (case nodes of
                     [] \<Rightarrow> (Inl (plain_error ''document seal produced no root''), db')
                   | node # _ \<Rightarrow> (Inr node, db'))
             else document_levels env cfg strategy t doc_id version_ms (level + 1) (map sn_id nodes)
                    (k + length nodes) db')))"
  by pat_completeness auto
termination
proof (relation "inv_image (less_than <*lex*> less_than) (\<lambda>(_, _, _, _, _, _, level, ids, _, _).
    (if level = 0 then 1 else 0 :: nat, length ids))", goal_cases)
  case (2 env cfg strategy t d v level ids k db batches r db' nodes)
  have "level \<noteq> 0 \<Longrightarrow> length nodes < length ids"
    using fewer_nodes [of level cfg ids db batches env strategy t d v k nodes db'] 2 by simp
  then show ?case by auto
qed (intro wf_inv_image wf_lex_prod wf_less_than)

declare document_levels.simps [simp del]

subsection \<open>The whole document\<close>

text \<open>The transaction that records the document's root on the tree.\<close>

definition document_root_tx :: "int \<Rightarrow> string \<Rightarrow> summary_node \<Rightarrow> (unit, tree_db) tx" where
  "document_root_tx now_ms tree_id doc_root db =
    (case get_tree tree_id db of
       None \<Rightarrow> Inl no_rows_error
     | Some row \<Rightarrow>
        (if tr_status row \<noteq> Active then Inl (archived_error tree_id)
         else if tr_root_id row \<noteq> Some (sn_id doc_root) \<or> sn_level doc_root > tr_max_level row
         then Inr ((), update_tree_after_seal_tx tree_id (sn_id doc_root) (sn_level doc_root) now_ms db)
         else Inr ((), db)))"

text \<open>\<^verbatim>\<open>menv\<close> is the services and surroundings of the cascade in the merge tier, which draws by level.\<close>

definition seal_document_subtree :: "seal_env \<Rightarrow> seal_env \<Rightarrow> memory_config \<Rightarrow> label_strategy \<Rightarrow> tree \<Rightarrow> string \<Rightarrow>
    int option \<Rightarrow> string list \<Rightarrow> int \<Rightarrow> int \<Rightarrow> tree_db \<Rightarrow> string result \<times> tree_db" where
  "seal_document_subtree env menv cfg strategy t doc_id version_ms chunk_ids append_ms root_ms db =
    (if chunk_ids = [] then (Inl (plain_error ''seal_document_subtree: empty chunk set''), db)
     else case document_levels env (cfg_tree cfg) strategy t doc_id version_ms 0 chunk_ids 0 db of
       (Inl e, db1) \<Rightarrow> (Inl e, db1)
     | (Inr doc_root, db1) \<Rightarrow>
        (case run_tx (append_to_buffer append_ms (tr_id t) MERGE_LEVEL_BASE (sn_id doc_root)
             (int (sn_token_count doc_root)) (sn_time_range_start doc_root)) db1 of
           (Inl e, db2) \<Rightarrow> (Inl e, db2)
         | (Inr _, db2) \<Rightarrow>
            (case run_tx (document_root_tx root_ms (tr_id t) doc_root) db2 of
               (Inl e, db3) \<Rightarrow> (Inl e, db3)
             | (Inr _, db3) \<Rightarrow>
                (case cascade_all_from_with_services menv cfg strategy t MERGE_LEVEL_BASE False False db3 of
                   (Inl e, db4) \<Rightarrow> (Inl e, db4)
                 | (Inr _, db4) \<Rightarrow> (Inr (sn_id doc_root), db4)))))"

subsection \<open>Batches lose nothing\<close>

definition tokens_of :: "(string \<rightharpoonup> chunk_row) \<Rightarrow> string list \<Rightarrow> int" where
  "tokens_of chunks b = sum_list (map (\<lambda>i. case chunks i of Some c \<Rightarrow> int (ck_token_count c) | None \<Rightarrow> 0) b)"

definition good_batch :: "(string \<rightharpoonup> chunk_row) \<Rightarrow> int \<Rightarrow> string list \<Rightarrow> bool" where
  "good_batch chunks budget b \<longleftrightarrow> b \<noteq> [] \<and> length b \<le> DOC_SUBTREE_MAX_FANIN \<and>
     (length b = 1 \<or> tokens_of chunks b \<le> budget)"

lemma batch_leaves_loop:
  assumes "\<forall>b\<in>set batches. good_batch chunks budget b" and "current = [] \<or> good_batch chunks budget current"
    and "tokens = tokens_of chunks current"
  shows "concat (batch_leaves_loop chunks budget ids current tokens batches) =
      concat batches @ current @ filter (\<lambda>i. chunks i \<noteq> None) ids
    \<and> (\<forall>b\<in>set (batch_leaves_loop chunks budget ids current tokens batches). good_batch chunks budget b)"
  using assms
proof (induction chunks budget ids current tokens batches rule: batch_leaves_loop.induct)
  case (2 chunks budget i "is" current tokens batches)
  show ?case
  proof (cases "chunks i")
    case (Some c)
    let ?n = "int (ck_token_count c)"
    have one: "good_batch chunks budget [i]" by (simp add: good_batch_def DOC_SUBTREE_MAX_FANIN_def)
    have t1: "?n = tokens_of chunks [i]" "tokens + ?n = tokens_of chunks (current @ [i])"
      using 2(6) Some by (simp_all add: tokens_of_def)
    show ?thesis
    proof (cases "current \<noteq> [] \<and> (tokens + ?n > budget \<or> length current \<ge> DOC_SUBTREE_MAX_FANIN)")
      case True
      have "\<forall>b\<in>set (batches @ [current]). good_batch chunks budget b" using 2(4,5) True by auto
      from 2(2) [OF Some refl True this _ t1(1)] show ?thesis using Some True one by (simp add: Let_def)
    next
      case False
      then have "good_batch chunks budget (current @ [i])"
        using one t1(2) 2(5) by (auto simp: good_batch_def DOC_SUBTREE_MAX_FANIN_def)
      then have "concat (batch_leaves_loop chunks budget is (current @ [i]) (tokens + ?n) batches) =
          concat batches @ (current @ [i]) @ filter (\<lambda>i. chunks i \<noteq> None) is \<and>
        (\<forall>b\<in>set (batch_leaves_loop chunks budget is (current @ [i]) (tokens + ?n) batches). good_batch chunks budget b)"
        using 2(3) [OF Some refl False 2(4) _ t1(2)] by blast
      moreover have "batch_leaves_loop chunks budget (i # is) current tokens batches =
          batch_leaves_loop chunks budget is (current @ [i]) (tokens + ?n) batches"
        unfolding batch_leaves_loop.simps Some option.case Let_def by (rule if_not_P [OF False])
      ultimately show ?thesis using Some by simp
    qed
  next
    case None
    then show ?thesis using 2(1) [OF None 2(4-6)] by simp
  qed
qed auto

lemma level_batches_leaves:
  assumes "level_batches cfg 0 ids db = Inr bs" and "chunks_ok (db_chunks db)"
  shows "concat bs = filter (\<lambda>i. get_chunk i db \<noteq> None) ids" and "\<forall>b\<in>set bs. b \<noteq> []" and "bs \<noteq> []"
    and "\<forall>b\<in>set bs. good_batch (\<lambda>i. get_chunk i db) (int (tc_input_token_budget cfg)) b"
proof -
  let ?c = "get_chunks_batch ids db"
  have bs: "bs = batch_leaves_loop ?c (int (tc_input_token_budget cfg)) ids [] 0 []" "bs \<noteq> []"
    using assms(1) by (auto simp: level_batches_def batch_leaves_by_token_budget_def Let_def split: if_splits)
  have same: "?c i = get_chunk i db" if "i \<in> set ids" for i
    unfolding get_chunks_batch_def get_chunk_def using chunks.fetch_batch [OF assms(2), of 500 ids i] that by simp
  then have "filter (\<lambda>i. ?c i \<noteq> None) ids = filter (\<lambda>i. get_chunk i db \<noteq> None) ids" by (simp cong: filter_cong)
  moreover have all: "concat bs = filter (\<lambda>i. ?c i \<noteq> None) ids \<and>
      (\<forall>b\<in>set bs. good_batch ?c (int (tc_input_token_budget cfg)) b)"
    using batch_leaves_loop [of "[]" ?c _ "[]" 0 ids] unfolding bs(1) by (simp add: tokens_of_def)
  ultimately show "concat bs = filter (\<lambda>i. get_chunk i db \<noteq> None) ids" "\<forall>b\<in>set bs. b \<noteq> []" "bs \<noteq> []"
    using bs(2) by (simp_all add: good_batch_def)
  show "\<forall>b\<in>set bs. good_batch (\<lambda>i. get_chunk i db) (int (tc_input_token_budget cfg)) b"
  proof
    fix b assume b: "b \<in> set bs"
    then have "set b \<subseteq> set (concat bs)" by auto
    then have "tokens_of (\<lambda>i. get_chunk i db) b = tokens_of ?c b"
      using same all unfolding tokens_of_def by (intro arg_cong [of _ _ sum_list] map_cong) (auto split: option.split)
    then show "good_batch (\<lambda>i. get_chunk i db) (int (tc_input_token_budget cfg)) b"
      using all b by (auto simp: good_batch_def)
  qed
qed

lemma length_le_concat: "\<forall>b\<in>set bs. b \<noteq> [] \<Longrightarrow> length bs \<le> length (concat bs)"
proof (induction bs)
  case (Cons b bs)
  then have "length bs \<le> length (concat bs)" "0 < length b" by simp_all
  then have "Suc (length bs) \<le> length b + length (concat bs)" by linarith
  then show ?case by simp
qed simp

subsection \<open>What a stored subtree covers\<close>

text \<open>The chunks under a node, in reading order; the children of every node are a batch that fits its level.\<close>

inductive covers :: "(nat \<Rightarrow> string list \<Rightarrow> bool) \<Rightarrow> tree_db \<Rightarrow> nat \<Rightarrow> string \<Rightarrow> string list \<Rightarrow> bool" for fits db where
  leaf: "covers fits db 0 i [i]"
| node: "get_summary i db = Some n \<Longrightarrow> sn_level n = Suc l \<Longrightarrow> fits l (sn_child_ids n) \<Longrightarrow>
    list_all2 (covers fits db l) (sn_child_ids n) xss \<Longrightarrow> covers fits db (Suc l) i (concat xss)"

text \<open>The bound on a batch: the fan-in at every level, the token budget where the children are chunks.\<close>

definition level_fits :: "(string \<rightharpoonup> chunk_row) \<Rightarrow> int \<Rightarrow> nat \<Rightarrow> string list \<Rightarrow> bool" where
  "level_fits chunks budget l b \<longleftrightarrow> b \<noteq> [] \<and> length b \<le> DOC_SUBTREE_MAX_FANIN \<and>
     (l = 0 \<longrightarrow> length b = 1 \<or> tokens_of chunks b \<le> budget)"

lemma good_batch_fits: "good_batch chunks budget b \<Longrightarrow> level_fits chunks budget l b"
  by (simp add: good_batch_def level_fits_def)

lemma windows_nonempty: "b \<in> set (windows n xs) \<Longrightarrow> b \<noteq> []"
proof (induction n xs rule: windows.induct)
  case (1 n xs)
  then show ?case using windows.simps [of n xs] by (cases "xs = [] \<or> n = 0") auto
qed

text \<open>Summaries stay, with their level and children.\<close>

definition keeps :: "tree_db \<Rightarrow> tree_db \<Rightarrow> bool" where
  "keeps db db' \<longleftrightarrow> (\<forall>i n. get_summary i db = Some n \<longrightarrow>
     (\<exists>n'. get_summary i db' = Some n' \<and> sn_child_ids n' = sn_child_ids n \<and> sn_level n' = sn_level n))"

lemma keeps_refl [simp]: "keeps db db"
  by (simp add: keeps_def)

lemma keeps_trans: "keeps a b \<Longrightarrow> keeps b c \<Longrightarrow> keeps a c"
  unfolding keeps_def by metis

lemma covers_keeps: "covers fits db l i xs \<Longrightarrow> keeps db db' \<Longrightarrow> covers fits db' l i xs"
proof (induction rule: covers.induct)
  case (node i n l xss)
  then obtain n' where n': "get_summary i db' = Some n'" "sn_child_ids n' = sn_child_ids n" "sn_level n' = sn_level n"
    unfolding keeps_def by metis
  have "list_all2 (covers fits db' l) (sn_child_ids n') xss"
    unfolding n'(2) by (rule list_all2_mono [OF node(4)]) (use node(5) in blast)
  then show ?case using covers.node [OF n'(1)] n'(2,3) node(2,3) by metis
qed (rule covers.leaf)

lemma find_same_but_parents:
  "list_all2 same_but_parents xs ys \<Longrightarrow> rel_option same_but_parents
    (List.find (\<lambda>r. sn_id (sr_node r) = i) xs) (List.find (\<lambda>r. sn_id (sr_node r) = i) ys)"
  by (induction rule: list_all2_induct) (auto dest: same_but_parentsD)

lemma find_append: "List.find p (xs @ ys) = (case List.find p xs of None \<Rightarrow> List.find p ys | Some x \<Rightarrow> Some x)"
  by (induction xs) auto

lemma keeps_rows:
  assumes "list_all2 same_but_parents (db_summaries db @ extra) (db_summaries db')"
  shows "keeps db db'"
  unfolding keeps_def
proof (intro allI impI)
  fix i n assume "get_summary i db = Some n"
  then obtain r where r: "List.find (\<lambda>r. sn_id (sr_node r) = i) (db_summaries db) = Some r" "n = sr_node r"
    by (auto simp: get_summary_def sql_find_def)
  then have "rel_option same_but_parents (Some r) (List.find (\<lambda>r. sn_id (sr_node r) = i) (db_summaries db'))"
    using find_same_but_parents [OF assms, of i] by (simp add: find_append)
  then obtain q where "List.find (\<lambda>r. sn_id (sr_node r) = i) (db_summaries db') = Some q" "same_but_parents r q"
    by (auto simp: option_rel_Some1)
  then show "\<exists>n'. get_summary i db' = Some n' \<and> sn_child_ids n' = sn_child_ids n \<and> sn_level n' = sn_level n"
    using same_but_parentsD [of r q] r(2) by (simp add: get_summary_def sql_find_def)
qed

subsection \<open>Sealing keeps what is there\<close>

lemma backlink_doc_frame:
  "\<exists>cs ss. backlink_doc_child level sid cid db = db\<lparr>db_chunks := cs, db_summaries := ss\<rparr> \<and>
    list_all2 same_but_parents (db_summaries db) ss"
proof (cases "level = 0")
  case True
  have "list_all2 same_but_parents (db_summaries db) (db_summaries db)"
    by (simp add: list_all2_same same_but_parents_refl)
  moreover have "\<exists>cs. backlink_doc_child level sid cid db = db\<lparr>db_chunks := cs, db_summaries := db_summaries db\<rparr>"
    using True by (auto simp: backlink_doc_child_def)
  ultimately show ?thesis by blast
qed (use backlink_frame in \<open>simp add: backlink_doc_child_def\<close>)

lemma backlinks_doc_frame:
  "\<exists>cs ss. fold (backlink_doc_child level sid) ids db = db\<lparr>db_chunks := cs, db_summaries := ss\<rparr> \<and>
    list_all2 same_but_parents (db_summaries db) ss"
proof (induction ids arbitrary: db)
  case Nil
  have "db = db\<lparr>db_chunks := db_chunks db, db_summaries := db_summaries db\<rparr>" by simp
  moreover have "list_all2 same_but_parents (db_summaries db) (db_summaries db)"
    by (simp add: list_all2_same same_but_parents_refl)
  ultimately show ?case unfolding fold_simps by (metis id_apply)
next
  case (Cons i ids)
  obtain cs ss where a: "backlink_doc_child level sid i db = db\<lparr>db_chunks := cs, db_summaries := ss\<rparr>"
    "list_all2 same_but_parents (db_summaries db) ss"
    using backlink_doc_frame by blast
  obtain cs' ss' where b: "fold (backlink_doc_child level sid) ids (db\<lparr>db_chunks := cs, db_summaries := ss\<rparr>) =
      db\<lparr>db_chunks := cs', db_summaries := ss'\<rparr>" "list_all2 same_but_parents ss ss'"
    using Cons.IH [of "db\<lparr>db_chunks := cs, db_summaries := ss\<rparr>"] by auto
  have "list_all2 same_but_parents (db_summaries db) ss'"
    by (rule list_all2_trans [OF _ a(2) b(2)]) (rule same_but_parents_trans)
  then show ?case using a(1) b(1) by auto
qed

lemma explicit_prepare_InrD:
  assumes "explicit_prepare env cfg strategy t level ids d v k db = Inr (n, staged)"
  shows "sn_id n = doc_node_id env k (level + 1)" "sn_level n = level + 1" "sn_child_ids n = ids"
    "sn_tree_id n = tr_id t"
  using assms by (auto simp: explicit_prepare_def Let_def split: if_splits sum.splits prod.splits)

lemma explicit_commit_InrD:
  assumes "explicit_commit env t level n staged db = Inr (u, db')"
    and "\<forall>r\<in>set (db_summaries db). sn_id (sr_node r) \<noteq> sn_id n"
  shows "list_all2 same_but_parents (db_summaries db @ [summary_row_of n (Some staged)]) (db_summaries db')"
    and "db_trees db' = db_trees db" and "db_buffers db' = db_buffers db" and "db_jobs db' = db_jobs db"
proof -
  have no: "\<not> (\<exists>r\<in>set (db_summaries db). sn_id (sr_node r) = sn_id n)" using assms(2) by auto
  obtain a s1 where
    i: "insert_staged_summary_tx (sn_sealed_at n) n (Some staged) (sv_signature env) db = Inr (a, s1)"
    and fin: "db' = fold (backlink_doc_child level (sn_id n)) (sn_child_ids n) (index_summary_tx n (sn_sealed_at n) s1)"
    using assms(1) by (auto simp: explicit_commit_def tx_bind_Inr_iff tx_pure_def split: option.splits if_splits)
  obtain es where s1: "s1 = db\<lparr>db_summaries := db_summaries db @ [summary_row_of n (Some staged)],
      db_summary_embeddings := es\<rparr>"
    using insert_summary_frame [OF i] no by auto
  obtain ix eg where s2: "index_summary_tx n (sn_sealed_at n) s1 = s1\<lparr>db_entity_index := ix, db_edges := eg\<rparr>"
    using index_summary_frame by blast
  obtain cs ss where s3: "db' = s1\<lparr>db_entity_index := ix, db_edges := eg, db_chunks := cs, db_summaries := ss\<rparr>"
      "list_all2 same_but_parents (db_summaries s1) ss"
    using backlinks_doc_frame [of level "sn_id n" "sn_child_ids n" "index_summary_tx n (sn_sealed_at n) s1"]
    unfolding fin s2 by auto
  show "list_all2 same_but_parents (db_summaries db @ [summary_row_of n (Some staged)]) (db_summaries db')"
    "db_trees db' = db_trees db" "db_buffers db' = db_buffers db" "db_jobs db' = db_jobs db"
    using s3 by (simp_all add: s1)
qed

definition summary_ids :: "tree_db \<Rightarrow> string list" where
  "summary_ids db = map (\<lambda>r. sn_id (sr_node r)) (db_summaries db)"

lemma in_summary_ids: "r \<in> set (db_summaries db) \<Longrightarrow> sn_id (sr_node r) \<in> set (summary_ids db)"
  by (simp add: summary_ids_def)

lemma get_summary_ids: "i \<in> set (summary_ids db) \<longleftrightarrow> get_summary i db \<noteq> None"
  by (auto simp: summary_ids_def get_summary_def sql_find_def find_None_iff)

lemma keeps_ids: "keeps db db' \<Longrightarrow> set (summary_ids db) \<subseteq> set (summary_ids db')"
  unfolding keeps_def subset_iff get_summary_ids by blast

lemma same_but_parents_ids:
  "list_all2 same_but_parents xs ys \<Longrightarrow> map (\<lambda>r. sn_id (sr_node r)) ys = map (\<lambda>r. sn_id (sr_node r)) xs"
  by (induction rule: list_all2_induct) (auto dest: same_but_parentsD)

lemma seal_explicit_InrD:
  assumes run: "seal_explicit_children env cfg strategy t level ids d v k db = (Inr n, db')"
    and one: "sv_between env = (\<lambda>_ db. db)" and new: "doc_node_id env k (level + 1) \<notin> set (summary_ids db)"
  shows "keeps db db'" and "summary_ids db' = summary_ids db @ [sn_id n]"
    and "sn_id n = doc_node_id env k (level + 1)" and "sn_level n = level + 1"
    and "\<exists>m. get_summary (sn_id n) db' = Some m \<and> sn_child_ids m = ids \<and> sn_level m = level + 1"
    and "db_trees db' = db_trees db" and "db_buffers db' = db_buffers db" and "db_jobs db' = db_jobs db"
proof -
  obtain staged where p: "explicit_prepare env cfg strategy t level ids d v k db = Inr (n, staged)"
    and c: "explicit_commit env t level n staged db = Inr ((), db')"
    using run one by (auto simp: seal_explicit_children_def run_tx_def split: sum.splits prod.splits)
  note n = explicit_prepare_InrD [OF p]
  have fresh: "\<forall>r\<in>set (db_summaries db). sn_id (sr_node r) \<noteq> sn_id n"
    using new n(1) in_summary_ids by metis
  note c' = explicit_commit_InrD [OF c fresh]
  show "keeps db db'" by (rule keeps_rows [OF c'(1)])
  show "summary_ids db' = summary_ids db @ [sn_id n]"
    using same_but_parents_ids [OF c'(1)] by (simp add: summary_ids_def summary_row_of_def)
  show "sn_id n = doc_node_id env k (level + 1)" "sn_level n = level + 1" by (rule n)+
  let ?p = "\<lambda>r. sn_id (sr_node r) = sn_id n"
  have "List.find ?p (db_summaries db) = None" using fresh by (auto simp: find_None_iff)
  then have "List.find ?p (db_summaries db @ [summary_row_of n (Some staged)]) = Some (summary_row_of n (Some staged))"
    by (simp add: find_append summary_row_of_def)
  then obtain q where q: "List.find ?p (db_summaries db') = Some q"
      "same_but_parents (summary_row_of n (Some staged)) q"
    using find_same_but_parents [OF c'(1), of "sn_id n"] by (auto simp: option_rel_Some1)
  then show "\<exists>m. get_summary (sn_id n) db' = Some m \<and> sn_child_ids m = ids \<and> sn_level m = level + 1"
    using same_but_parentsD [OF q(2)] n(2,3) by (simp add: get_summary_def sql_find_def summary_row_of_def)
  show "db_trees db' = db_trees db" "db_buffers db' = db_buffers db" "db_jobs db' = db_jobs db" by (rule c'(2-4))+
qed

subsection \<open>Fresh ids\<close>

text \<open>The ids drawn at the given positions are new to the table and differ from each other.\<close>

definition fresh_ids :: "seal_env \<Rightarrow> nat \<Rightarrow> nat \<Rightarrow> tree_db \<Rightarrow> bool" where
  "fresh_ids env lo hi db \<longleftrightarrow> (\<forall>i l. lo \<le> i \<and> i < hi \<longrightarrow> doc_node_id env i l \<notin> set (summary_ids db)) \<and>
     (\<forall>i j l l'. lo \<le> i \<and> i < hi \<and> lo \<le> j \<and> j < hi \<and> i \<noteq> j \<longrightarrow> doc_node_id env i l \<noteq> doc_node_id env j l')"

lemma fresh_ids_sub: "fresh_ids env lo hi db \<Longrightarrow> lo \<le> lo' \<Longrightarrow> hi' \<le> hi \<Longrightarrow> fresh_ids env lo' hi' db"
  by (simp add: fresh_ids_def)

lemma fresh_ids_next:
  assumes "fresh_ids env k hi db" and "k < hi" and "summary_ids db' = summary_ids db @ [doc_node_id env k l]"
  shows "fresh_ids env (k + 1) hi db'"
  using assms by (auto simp: fresh_ids_def)

lemma seal_batches_InrD:
  assumes "seal_batches env cfg strategy t level d v bs k db = (Inr nodes, db')"
    and "sv_between env = (\<lambda>_ db. db)" and "fresh_ids env k hi db" and "k + length bs \<le> hi"
  shows "keeps db db' \<and> fresh_ids env (k + length bs) hi db'
    \<and> list_all2 (\<lambda>b n. sn_level n = level + 1 \<and>
        (\<exists>m. get_summary (sn_id n) db' = Some m \<and> sn_child_ids m = b \<and> sn_level m = level + 1)) bs nodes
    \<and> db_trees db' = db_trees db \<and> db_buffers db' = db_buffers db \<and> db_jobs db' = db_jobs db
    \<and> (\<forall>n\<in>set nodes. sn_id n \<notin> set (summary_ids db))"
  using assms
proof (induction bs arbitrary: k db nodes)
  case (Cons b bs)
  obtain r db1 where one: "seal_explicit_children env cfg strategy t level b d v k db = (r, db1)" by (metis surj_pair)
  obtain n where r: "r = Inr n" using Cons.prems(1) one by (cases r) auto
  obtain r2 db2 where rest: "seal_batches env cfg strategy t level d v bs (k + 1) db1 = (r2, db2)" by (metis surj_pair)
  obtain ns where r2: "r2 = Inr ns" "nodes = n # ns" "db' = db2"
    using Cons.prems(1) one rest r by (cases r2) auto
  have new: "doc_node_id env k (level + 1) \<notin> set (summary_ids db)"
    using Cons.prems(3,4) by (auto simp: fresh_ids_def)
  note e = seal_explicit_InrD [OF one [unfolded r] Cons.prems(2) new]
  have fr: "fresh_ids env (k + 1) hi db1"
    by (rule fresh_ids_next [OF Cons.prems(3)]) (use Cons.prems(4) e(2,3) in simp_all)
  have ih: "keeps db1 db' \<and> fresh_ids env (k + 1 + length bs) hi db'
    \<and> list_all2 (\<lambda>b n. sn_level n = level + 1 \<and>
        (\<exists>m. get_summary (sn_id n) db' = Some m \<and> sn_child_ids m = b \<and> sn_level m = level + 1)) bs ns
    \<and> db_trees db' = db_trees db1 \<and> db_buffers db' = db_buffers db1 \<and> db_jobs db' = db_jobs db1
    \<and> (\<forall>n\<in>set ns. sn_id n \<notin> set (summary_ids db1))"
    by (rule Cons.IH [OF rest [unfolded r2(1), folded r2(3)] Cons.prems(2) fr]) (use Cons.prems(4) in simp)
  obtain m where "get_summary (sn_id n) db1 = Some m" "sn_child_ids m = b" "sn_level m = level + 1"
    using e(5) by blast
  then obtain m' where "get_summary (sn_id n) db' = Some m'" "sn_child_ids m' = b" "sn_level m' = level + 1"
    using ih unfolding keeps_def by metis
  then show ?case using ih e keeps_trans [of db db1 db'] new unfolding r2(2) by auto
qed simp

subsection \<open>Levels cover their chunks\<close>

lemma covers_step:
  assumes "list_all2 (covers fits db level) (concat bs) xss" and "keeps db db'"
    and "list_all2 (\<lambda>b n. sn_level n = level + 1 \<and>
        (\<exists>m. get_summary (sn_id n) db' = Some m \<and> sn_child_ids m = b \<and> sn_level m = level + 1)) bs nodes"
    and "\<forall>b\<in>set bs. fits level b"
  shows "\<exists>yss. list_all2 (covers fits db' (Suc level)) (map sn_id nodes) yss \<and> concat yss = concat xss"
  using assms(3,1,4)
proof (induction arbitrary: xss rule: list_all2_induct)
  case (Cons b bs n ns)
  obtain xs xss' where x: "xss = xs @ xss'" "list_all2 (covers fits db level) b xs" "list_all2 (covers fits db level) (concat bs) xss'"
    using Cons.prems(1) by (auto simp: list_all2_append1)
  obtain m where m: "get_summary (sn_id n) db' = Some m" "sn_child_ids m = b" "sn_level m = Suc level"
    using Cons.hyps by auto
  have "list_all2 (covers fits db' level) (sn_child_ids m) xs"
    unfolding m(2) by (rule list_all2_mono [OF x(2)]) (use covers_keeps assms(2) in blast)
  moreover have "fits level (sn_child_ids m)" using Cons.prems(2) m(2) by simp
  ultimately have top: "covers fits db' (Suc level) (sn_id n) (concat xs)" by (intro covers.node [OF m(1,3)])
  obtain yss where "list_all2 (covers fits db' (Suc level)) (map sn_id ns) yss" "concat yss = concat xss'"
    using Cons.IH [OF x(3)] Cons.prems(2) by auto
  then show ?case using top x(1) by (intro exI [of _ "concat xs # yss"]) simp
qed simp

lemma twice_div: "2 \<le> (n + 31) div 32 \<Longrightarrow> (n + 31) div 32 + (n + 31) div 32 \<le> (n :: nat)"
  by (auto simp: div_le_mono le_div_geq) 

lemma document_levels_covers:
  assumes "document_levels env cfg strategy t d v level ids k db = (Inr rn, db')"
    and "sv_between env = (\<lambda>_ db. db)" and "fresh_ids env k (k + length ids) db" and "0 < level" and "ids \<noteq> []"
    and "list_all2 (covers fits db level) ids xss"
    and fan: "\<And>l b. 0 < l \<Longrightarrow> b \<noteq> [] \<Longrightarrow> length b \<le> DOC_SUBTREE_MAX_FANIN \<Longrightarrow> fits l b"
  shows "covers fits db' (sn_level rn) (sn_id rn) (concat xss) \<and> keeps db db'
    \<and> db_trees db' = db_trees db \<and> db_buffers db' = db_buffers db \<and> db_jobs db' = db_jobs db
    \<and> level < sn_level rn \<and> sn_level rn \<le> level + length ids \<and> sn_id rn \<notin> set (summary_ids db)"
  using assms(1-6)
proof (induction env cfg strategy t d v level ids k db arbitrary: xss rule: document_levels.induct)
  case (1 env cfg strategy t d v level ids k db)
  let ?bs = "batch_by_count ids DOC_SUBTREE_MAX_FANIN"
  have b: "level_batches cfg level ids db = Inr ?bs" using 1(5) by (simp add: level_batches_def)
  obtain r db1 where seal: "seal_batches env cfg strategy t level d v ?bs k db = (r, db1)" by (metis surj_pair)
  obtain nodes where r: "r = Inr nodes"
    using 1(2) b seal by (cases r) (simp_all add: document_levels.simps)
  have len: "length ?bs = (length ids + 31) div 32"
    by (simp add: batch_by_count_def DOC_SUBTREE_MAX_FANIN_def length_windows)
  have nlen: "length nodes = length ?bs" by (rule seal_batches_length [OF seal [unfolded r]])
  have le: "length ?bs \<le> length ids" unfolding len using 1(6) by (cases ids) auto
  have conc: "concat ?bs = ids" by (simp add: batch_by_count_def DOC_SUBTREE_MAX_FANIN_def concat_windows)
  have small: "\<forall>b\<in>set ?bs. fits level b"
    by (intro ballI fan [OF 1(5)])
      (auto simp: batch_by_count_def DOC_SUBTREE_MAX_FANIN_def dest: windows_nonempty windows_bounded)
  note s = seal_batches_InrD [OF seal [unfolded r] 1(3,4)]
  have s': "keeps db db1 \<and> fresh_ids env (k + length ?bs) (k + length ids) db1
    \<and> list_all2 (\<lambda>b n. sn_level n = level + 1 \<and>
        (\<exists>m. get_summary (sn_id n) db1 = Some m \<and> sn_child_ids m = b \<and> sn_level m = level + 1)) ?bs nodes
    \<and> db_trees db1 = db_trees db \<and> db_buffers db1 = db_buffers db \<and> db_jobs db1 = db_jobs db
    \<and> (\<forall>n\<in>set nodes. sn_id n \<notin> set (summary_ids db))"
    by (rule s) (use le in simp)
  have below: "list_all2 (covers fits db level) (concat ?bs) xss" unfolding conc by (rule 1(7))
  obtain yss where y: "list_all2 (covers fits db1 (Suc level)) (map sn_id nodes) yss" "concat yss = concat xss"
    using covers_step [OF below _ _ small, of db1 nodes] s' by blast
  show ?case
  proof (cases "length nodes \<le> 1")
    case True
    moreover have "nodes \<noteq> []" using nlen len 1(6) by (cases ids) auto
    ultimately obtain n where n: "nodes = [n]" by (cases nodes) auto
    then have rn: "rn = n" "db' = db1" using 1(2) b seal r by (simp_all add: document_levels.simps)
    have "sn_level n = level + 1" using s' n by (auto simp: list_all2_Cons2)
    moreover have "1 \<le> length ids" using 1(6) by (cases ids) auto
    ultimately show ?thesis using s' y n unfolding rn by (auto simp: list_all2_Cons1)
  next
    case False
    have run: "document_levels env cfg strategy t d v (level + 1) (map sn_id nodes) (k + length nodes) db1 = (Inr rn, db')"
      using 1(2) b seal r False by (simp add: document_levels.simps [of env cfg strategy t d v level])
    have two: "length nodes + length nodes \<le> length ids"
      using twice_div [of "length ids"] False nlen len by simp
    have "fresh_ids env (k + length nodes) (k + length nodes + length (map sn_id nodes)) db1"
      by (rule fresh_ids_sub [of _ "k + length ?bs" "k + length ids"]) (use s' nlen two in simp_all)
    moreover have "map sn_id nodes \<noteq> []" using False by auto
    ultimately have ih: "covers fits db' (sn_level rn) (sn_id rn) (concat yss) \<and> keeps db1 db'
    \<and> db_trees db' = db_trees db1 \<and> db_buffers db' = db_buffers db1 \<and> db_jobs db' = db_jobs db1
    \<and> level + 1 < sn_level rn \<and> sn_level rn \<le> level + 1 + length (map sn_id nodes) \<and>
      sn_id rn \<notin> set (summary_ids db1)"
      using 1(1) [OF b seal [symmetric] r False run 1(3)] y(1) by simp
    have "set (summary_ids db) \<subseteq> set (summary_ids db1)"
      using s' keeps_ids by blast
    then show ?thesis using ih s' keeps_trans two y(2) False by auto
  qed
qed

lemma document_levels_from_leaves:
  assumes "document_levels env cfg strategy t d v 0 ids k db = (Inr rn, db')"
    and "sv_between env = (\<lambda>_ db. db)" and "fresh_ids env k (k + 2 * length ids) db" and "chunks_ok (db_chunks db)"
  shows "covers (level_fits (\<lambda>i. get_chunk i db) (int (tc_input_token_budget cfg))) db' (sn_level rn) (sn_id rn)
      (filter (\<lambda>i. get_chunk i db \<noteq> None) ids) \<and> keeps db db'
    \<and> db_trees db' = db_trees db \<and> db_buffers db' = db_buffers db \<and> db_jobs db' = db_jobs db
    \<and> 0 < sn_level rn \<and> sn_level rn \<le> Suc (length ids) \<and> sn_id rn \<notin> set (summary_ids db)"
proof -
  let ?ok = "filter (\<lambda>i. get_chunk i db \<noteq> None) ids"
  define fits where "fits = level_fits (\<lambda>i. get_chunk i db) (int (tc_input_token_budget cfg))"
  have fan: "fits l b" if "0 < l" "b \<noteq> []" "length b \<le> DOC_SUBTREE_MAX_FANIN" for l b
    using that by (simp add: fits_def level_fits_def)
  obtain bs where b: "level_batches cfg 0 ids db = Inr bs"
    using assms(1) by (cases "level_batches cfg 0 ids db") (simp_all add: document_levels.simps)
  note lb = level_batches_leaves [OF b assms(4)]
  obtain r db1 where seal: "seal_batches env cfg strategy t 0 d v bs k db = (r, db1)" by (metis surj_pair)
  obtain nodes where r: "r = Inr nodes" using assms(1) b seal by (cases r) (simp_all add: document_levels.simps)
  have nlen: "length nodes = length bs" by (rule seal_batches_length [OF seal [unfolded r]])
  have "length bs \<le> length ?ok" using length_le_concat [OF lb(2)] lb(1) by simp
  then have le: "length bs \<le> length ids" using length_filter_le le_trans by blast
  have s': "keeps db db1 \<and> fresh_ids env (k + length bs) (k + 2 * length ids) db1
    \<and> list_all2 (\<lambda>b n. sn_level n = 0 + 1 \<and>
        (\<exists>m. get_summary (sn_id n) db1 = Some m \<and> sn_child_ids m = b \<and> sn_level m = 0 + 1)) bs nodes
    \<and> db_trees db1 = db_trees db \<and> db_buffers db1 = db_buffers db \<and> db_jobs db1 = db_jobs db
    \<and> (\<forall>n\<in>set nodes. sn_id n \<notin> set (summary_ids db))"
    by (rule seal_batches_InrD [OF seal [unfolded r] assms(2,3)]) (use le in simp)
  have "list_all2 (covers fits db 0) xs (map (\<lambda>i. [i]) xs)" for xs
    by (induction xs) (auto intro: covers.leaf)
  then have below: "list_all2 (covers fits db 0) (concat bs) (map (\<lambda>i. [i]) ?ok)" unfolding lb(1) by blast
  have small: "\<forall>b\<in>set bs. fits 0 b" using lb(4) good_batch_fits unfolding fits_def by blast
  moreover have "concat (map (\<lambda>i. [i]) xs) = xs" for xs :: "string list" by (induction xs) auto
  ultimately obtain yss where y: "list_all2 (covers fits db1 (Suc 0)) (map sn_id nodes) yss" "concat yss = ?ok"
    using covers_step [OF below _ _ small, of db1 nodes] s' by auto
  show ?thesis
  proof (cases "length nodes \<le> 1")
    case True
    moreover have "nodes \<noteq> []" using nlen lb(3) by auto
    ultimately obtain n where n: "nodes = [n]" by (cases nodes) auto
    then have rn: "rn = n" "db' = db1" using assms(1) b seal r by (simp_all add: document_levels.simps)
    have "sn_level n = 1" using s' n by (auto simp: list_all2_Cons2)
    then show ?thesis using s' y n unfolding rn fits_def [symmetric] by (auto simp: list_all2_Cons1)
  next
    case False
    have run: "document_levels env cfg strategy t d v 1 (map sn_id nodes) (k + length nodes) db1 = (Inr rn, db')"
      using assms(1) b seal r False by (simp add: document_levels.simps [of env cfg strategy t d v 0])
    have fr: "fresh_ids env (k + length nodes) (k + length nodes + length (map sn_id nodes)) db1"
      by (rule fresh_ids_sub [of _ "k + length bs" "k + 2 * length ids"]) (use s' nlen le in simp_all)
    have ne: "map sn_id nodes \<noteq> []" using False by auto
    have y1: "list_all2 (covers fits db1 1) (map sn_id nodes) yss" using y(1) by simp
    note up = document_levels_covers [OF run assms(2) fr _ ne y1 fan]
    have "set (summary_ids db) \<subseteq> set (summary_ids db1)" using s' keeps_ids by blast
    then show ?thesis using up s' keeps_trans y(2) nlen le unfolding fits_def [symmetric] by auto
  qed
qed

lemma seal_one_level_keeps:
  assumes "sv_between env = (\<lambda>_ db. db)"
  shows "keeps db (snd (seal_one_level env cfg strategy t (get_buffer (tr_id t) l db) f db))"
proof -
  let ?b = "get_buffer (tr_id t) l db"
  have key: "bf_tree_id ?b = tr_id t" by (simp add: bufs.get_tree_id)
  have "keeps db db'" if "seal_commit env cfg t ?b node staged f db = Inr (u, db')" for node staged u db'
  proof -
    have rows: "list_all2 same_but_parents (if \<exists>r\<in>set (db_summaries db). sn_id (sr_node r) = sn_id node
       then db_summaries db else db_summaries db @ [summary_row_of node (Some staged)]) (db_summaries db')"
      by (rule seal_commit_InrD [OF that key])
    show ?thesis
    proof (cases "\<exists>r\<in>set (db_summaries db). sn_id (sr_node r) = sn_id node")
      case True
      then show ?thesis using rows keeps_rows [of db "[]" db'] by simp
    next
      case False
      then show ?thesis using rows keeps_rows by (simp only: if_False)
    qed
  qed
  then show ?thesis
    using assms by (auto simp: seal_one_level_def run_tx_def split: sum.splits prod.splits)
qed

lemma cascade_levels_keeps:
  assumes "sv_between env = (\<lambda>_ db. db)"
  shows "keeps db (snd (cascade_levels env cfg strategy t forced f ls db))"
proof (induction ls arbitrary: forced db)
  case (Cons l ls)
  let ?b = "get_buffer (tr_id t) l db"
  obtain r db1 where s: "seal_one_level env cfg strategy t ?b f db = (r, db1)" by (metis surj_pair)
  have k: "keeps db db1" using seal_one_level_keeps [OF assms, of db cfg strategy t l f] s by simp
  obtain r2 db2 where rest: "cascade_levels env cfg strategy t False f ls db1 = (r2, db2)" by (metis surj_pair)
  have "keeps db1 db2" using Cons.IH [where forced = False and db = db1] rest by simp
  then have k2: "keeps db db2" by (rule keeps_trans [OF k])
  have "snd (cascade_levels env cfg strategy t forced f (l # ls) db) \<in> {db, db1, db2}"
    using s rest by (cases r; cases r2) (simp_all add: Let_def)
  then show ?case using k k2 keeps_refl by auto
qed simp

subsection \<open>The sealed document\<close>

lemma seal_document_parts:
  assumes "seal_document_subtree env menv cfg strategy t d v ids am rm db = (Inr root_id, db')"
  obtains rn db1 db2 db3 ids' where
    "ids \<noteq> []" "document_levels env (cfg_tree cfg) strategy t d v 0 ids 0 db = (Inr rn, db1)" "root_id = sn_id rn"
    "append_to_buffer am (tr_id t) MERGE_LEVEL_BASE (sn_id rn) (int (sn_token_count rn)) (sn_time_range_start rn) db1 = Inr ((), db2)"
    "document_root_tx rm (tr_id t) rn db2 = Inr ((), db3)"
    "cascade_all_from_with_services menv cfg strategy t MERGE_LEVEL_BASE False False db3 = (Inr ids', db')"
  using assms by (auto simp: seal_document_subtree_def run_tx_def split: if_splits sum.splits prod.splits)

lemma keeps_same_summaries: "db_summaries db' = db_summaries db \<Longrightarrow> keeps db db'"
  by (auto simp: keeps_def get_summary_def)

lemma append_summaries:
  "append_to_buffer n tid l i d ts db = Inr ((), db') \<Longrightarrow> db_summaries db' = db_summaries db \<and> db_trees db' = db_trees db"
  by (cases rule: append_to_buffer_cases [of tid db n l i d ts]) auto

lemma document_root_summaries:
  "document_root_tx n tid rn db = Inr ((), db') \<Longrightarrow> db_summaries db' = db_summaries db \<and> db_buffers db' = db_buffers db"
  by (auto simp: document_root_tx_def update_tree_after_seal_tx_def split: option.splits if_splits)

text \<open>
  C14: a document's subtree loses nothing. When sealing a document version returns a root, with no other
  writer in between and fresh ids drawn, reading the subtree under that root from left to right gives
  exactly the chunks of the version that exist, in their order; every node of the subtree has between
  one and \<^const>\<open>DOC_SUBTREE_MAX_FANIN\<close> children, and the chunks of one node, when there are several,
  stay within the token budget; the root is at a level of at most one more than the number of chunks;
  and every summary stored before is still there, with its level and children.
\<close>

theorem document_subtree_covers_chunks:
  assumes "seal_document_subtree env menv cfg strategy t d v ids am rm db = (Inr root_id, db')"
    and "sv_between env = (\<lambda>_ db. db)" and "sv_between menv = (\<lambda>_ db. db)"
    and "fresh_ids env 0 (2 * length ids) db" and "chunks_ok (db_chunks db)"
  shows "\<exists>l. 0 < l \<and> l \<le> Suc (length ids) \<and>
      covers (level_fits (\<lambda>i. get_chunk i db) (int (tc_input_token_budget (cfg_tree cfg)))) db' l root_id
        (filter (\<lambda>i. get_chunk i db \<noteq> None) ids)
    \<and> keeps db db'"
proof -
  obtain rn db1 db2 db3 sealed where p: "ids \<noteq> []"
    "document_levels env (cfg_tree cfg) strategy t d v 0 ids 0 db = (Inr rn, db1)" "root_id = sn_id rn"
    "append_to_buffer am (tr_id t) MERGE_LEVEL_BASE (sn_id rn) (int (sn_token_count rn)) (sn_time_range_start rn) db1 = Inr ((), db2)"
    "document_root_tx rm (tr_id t) rn db2 = Inr ((), db3)"
    "cascade_all_from_with_services menv cfg strategy t MERGE_LEVEL_BASE False False db3 = (Inr sealed, db')"
    by (rule seal_document_parts [OF assms(1)]) (rule that; assumption)
  have "keeps db3 db'"
    using cascade_levels_keeps [OF assms(3)] p(6) unfolding cascade_all_from_with_services_def by (metis snd_conv)
  moreover have "keeps db2 db3" "keeps db1 db2"
    using keeps_same_summaries document_root_summaries [OF p(5)] append_summaries [OF p(4)] by blast+
  ultimately have up: "keeps db1 db'" using keeps_trans by blast
  have "fresh_ids env 0 (0 + 2 * length ids) db" using assms(4) by simp
  note low = document_levels_from_leaves [OF p(2) assms(2) this assms(5)]
  then show ?thesis using covers_keeps up keeps_trans p(3) by blast
qed

lemma get_tree_update:
  "get_tree i (update_tree_after_seal_tx i rid l n db) =
    map_option (\<lambda>r. r\<lparr>tr_root_id := Some rid, tr_max_level := l, tr_last_sealed_at := Some n\<rparr>) (get_tree i db)"
proof -
  have "List.find (\<lambda>r. tr_id r = i) (sql_update (\<lambda>r. tr_id r = i) f ts) =
      map_option f (List.find (\<lambda>r. tr_id r = i) ts)" if "\<And>r. tr_id (f r) = tr_id r" for f ts
    using that by (induction ts) (auto simp: table_simps)
  from this [of "\<lambda>r. r\<lparr>tr_root_id := Some rid, tr_max_level := l, tr_last_sealed_at := Some n\<rparr>" "db_trees db"]
  show ?thesis by (simp add: get_tree_def update_tree_after_seal_tx_def sql_find_def)
qed

text \<open>
  Sealing a document takes the tree over. When the tree's root is a merge node, sealing another
  document whose merge buffer stays below its gate makes the document's own root the root of the
  tree and lowers the tree's level below the merge tier; the merge node is stored as before but is
  no longer reached from the root.
\<close>

theorem document_root_displaces_merge_root:
  assumes "seal_document_subtree env menv cfg strategy t d v ids am rm db = (Inr root_id, db')"
    and "sv_between env = (\<lambda>_ db. db)" and "fresh_ids env 0 (2 * length ids) db" and "chunks_ok (db_chunks db)"
    and "length ids < MERGE_LEVEL_BASE" and "get_tree (tr_id t) db = Some row"
    and "tr_root_id row = Some m" and "get_summary m db \<noteq> None" and "MERGE_LEVEL_BASE < tr_max_level row"
    and "length (bf_item_ids (get_buffer (tr_id t) MERGE_LEVEL_BASE db)) + 1 < tc_summary_fanout (cfg_tree cfg)"
  shows "\<exists>row'. get_tree (tr_id t) db' = Some row' \<and> tr_root_id row' = Some root_id \<and> root_id \<noteq> m
    \<and> tr_max_level row' < tr_max_level row \<and> get_summary m db' \<noteq> None"
proof -
  obtain rn db1 db2 db3 sealed where p: "ids \<noteq> []"
    "document_levels env (cfg_tree cfg) strategy t d v 0 ids 0 db = (Inr rn, db1)" "root_id = sn_id rn"
    "append_to_buffer am (tr_id t) MERGE_LEVEL_BASE (sn_id rn) (int (sn_token_count rn)) (sn_time_range_start rn) db1 = Inr ((), db2)"
    "document_root_tx rm (tr_id t) rn db2 = Inr ((), db3)"
    "cascade_all_from_with_services menv cfg strategy t MERGE_LEVEL_BASE False False db3 = (Inr sealed, db')"
    by (rule seal_document_parts [OF assms(1)]) (rule that; assumption)
  have "fresh_ids env 0 (0 + 2 * length ids) db" using assms(3) by simp
  note low = document_levels_from_leaves [OF p(2) assms(2) this assms(4)]
  let ?T = "tr_id t" and ?L = MERGE_LEVEL_BASE
  have b1: "get_buffer ?T ?L db1 = get_buffer ?T ?L db" by (rule get_buffer_frame) (use low in simp)
  have "length (bf_item_ids (get_buffer ?T ?L db2)) \<le> length (bf_item_ids (get_buffer ?T ?L db)) + 1"
    using p(4) b1 by (cases rule: append_to_buffer_cases [of ?T db1 am ?L "sn_id rn" "int (sn_token_count rn)" "sn_time_range_start rn"]) auto
  moreover have b3: "get_buffer ?T ?L db3 = get_buffer ?T ?L db2"
    by (rule get_buffer_frame) (use document_root_summaries [OF p(5)] in simp)
  moreover have "x mod 2 ^ 32 \<le> x" for x :: nat by simp
  ultimately have few: "length (bf_item_ids (get_buffer ?T ?L db3)) mod 2 ^ 32 < tc_summary_fanout (cfg_tree cfg)"
    using assms(10) by (metis le_less_trans order_trans)
  have "\<not> should_seal (cfg_tree cfg) (get_buffer ?T ?L db3)"
    using few by (simp add: should_seal_def bufs.get_level MERGE_LEVEL_BASE_def)
  moreover have "[?L..<?L + MAX_CASCADE_DEPTH] = ?L # [?L + 1..<?L + MAX_CASCADE_DEPTH]"
    by (simp add: MAX_CASCADE_DEPTH_def upt_conv_Cons del: upt_Suc)
  ultimately have db': "db' = db3"
    using p(6) by (simp add: cascade_all_from_with_services_def Let_def)
  have row2: "get_tree ?T db2 = Some row"
    using get_tree_frame [of db2 db] append_summaries [OF p(4)] low assms(6) by simp
  have other: "sn_id rn \<noteq> m" using low assms(8) get_summary_ids by metis
  have upd: "db3 = update_tree_after_seal_tx ?T (sn_id rn) (sn_level rn) rm db2"
    using p(5) row2 assms(7) other by (auto simp: document_root_tx_def split: if_splits)
  have keep: "get_summary m db' \<noteq> None"
  proof -
    have "get_summary m db1 \<noteq> None" using low assms(8) unfolding keeps_def by blast
    then show ?thesis using append_summaries [OF p(4)] document_root_summaries [OF p(5)] by (simp add: get_summary_def db')
  qed
  have lev: "sn_level rn < tr_max_level row" using low assms(5,9) by simp
  show ?thesis unfolding db' upd get_tree_update row2 using lev other p(3) keep db' upd by simp
qed

subsection \<open>A concrete document\<close>

text \<open>A tree whose root is a merge node, and one chunk to seal as a document.\<close>

definition sample_doc_env :: seal_env where
  "sample_doc_env = sample_env\<lparr>sv_rand := (\<lambda>i. i)\<rparr>"

definition sample_merged_db :: tree_db where
  "sample_merged_db = (sample_db [])\<lparr>
     db_trees := [sample_tree\<lparr>tr_root_id := Some ''m'', tr_max_level := 1001\<rparr>], db_chunks := [sample_chunk],
     db_summaries := [summary_row_of (sample_node\<lparr>sn_id := ''m'', sn_level := 1001\<rparr>) None]\<rparr>"

lemma explicit_commit_succeeds:
  assumes "get_tree (sn_tree_id n) db = Some row" and "tr_status row = Active"
  shows "\<exists>db'. explicit_commit env t level n staged db = Inr ((), db')"
proof -
  have "tree_exists (sn_tree_id n) db" using get_tree_exists [OF assms(1)] by simp
  from insert_summary_total [OF this, of "sn_sealed_at n" "Some staged" "sv_signature env"]
  show ?thesis using assms by (auto simp: explicit_commit_def tx_bind_def tx_pure_def)
qed

lemma doc_node_id_last: "last (doc_node_id env i l) = ''0123456789abcdef'' ! (sv_rand env i mod 16)"
proof -
  have eight: "Suc 7 = (8 :: nat)" by simp
  show ?thesis
    using hex_digits.simps(2) [of 7 "sv_rand env i"]
    unfolding doc_node_id_def new_summary_id_def eight by (simp only: append_assoc last_snoc append_Cons [symmetric])
      (simp only: append_assoc [symmetric] last_snoc)
qed

lemma sample_fresh: "fresh_ids sample_doc_env 0 (2 * length [''a'']) sample_merged_db"
proof -
  have ids: "summary_ids sample_merged_db = [''m'']"
    by (simp add: summary_ids_def sample_merged_db_def summary_row_of_def)
  have "doc_node_id e i l \<noteq> ''m''" for e i l by (simp add: doc_node_id_def new_summary_id_def)
  moreover have "doc_node_id sample_doc_env i l \<noteq> doc_node_id sample_doc_env j l'" if "i < 2" "j < 2" "i \<noteq> j" for i j l l'
  proof -
    have "last (doc_node_id sample_doc_env i l) \<noteq> last (doc_node_id sample_doc_env j l')"
      using that unfolding doc_node_id_last by (auto simp: sample_doc_env_def less_2_cases_iff)
    then show ?thesis by metis
  qed
  ultimately show ?thesis by (simp add: fresh_ids_def ids)
qed

lemma sample_document_run:
  "\<exists>rid db'. seal_document_subtree sample_doc_env sample_doc_env memory_config_default Empty_Labels sample_tree
     ''d'' None [''a''] 9 9 sample_merged_db = (Inr rid, db')"
proof -
  let ?db = sample_merged_db and ?e = sample_doc_env
  have ok: "chunks_ok (db_chunks ?db)" by (simp add: chunks_ok_def sample_merged_db_def)
  have chunk: "sql_find (\<lambda>q. ck_id q = ''a'') (db_chunks ?db) = Some sample_chunk"
    by (simp add: sample_merged_db_def sample_chunk_def sql_find_def)
  have bs: "level_batches tree_config_default 0 [''a''] ?db = Inr [[''a'']]"
    using chunk by (simp add: level_batches_def batch_leaves_by_token_budget_def get_chunks_batch_def
        chunks.fetch_batch [OF ok])
  have inputs: "hydrate_inputs rb 0 [''a''] ?db = [leaf_input ?db sample_chunk]" for rb
    using chunk by (simp add: hydrate_inputs_def hydrate_leaf_inputs_def get_chunk_def map_filter_simps)
  obtain n staged where prep: "explicit_prepare ?e tree_config_default Empty_Labels sample_tree 0 [''a''] ''d'' None 0 ?db
      = Inr (n, staged)"
    by (simp add: explicit_prepare_def inputs Let_def resolve_labels_def embed_content_def sample_doc_env_def
        sample_env_def)
  note n = explicit_prepare_InrD [OF prep]
  have tid: "tr_id sample_tree = ''t''" by (simp add: sample_tree_def)
  have row: "get_tree ''t'' ?db = Some (sample_tree\<lparr>tr_root_id := Some ''m'', tr_max_level := 1001\<rparr>)"
    by (simp add: get_tree_def sample_merged_db_def sql_find_def sample_tree_def)
  have act: "tr_status (sample_tree\<lparr>tr_root_id := Some ''m'', tr_max_level := 1001\<rparr>) = Active"
    by (simp add: sample_tree_def)
  have "get_tree (sn_tree_id n) ?db = Some (sample_tree\<lparr>tr_root_id := Some ''m'', tr_max_level := 1001\<rparr>)"
    using row n(4) tid by simp
  then obtain db1 where c: "explicit_commit ?e sample_tree 0 n staged ?db = Inr ((), db1)"
    using explicit_commit_succeeds [OF _ act, of n ?db ?e sample_tree 0 staged] by blast
  have one: "sv_between ?e = (\<lambda>_ db. db)" "sv_committed ?e = (\<lambda>_. Inr ())"
    by (simp_all add: sample_doc_env_def sample_env_def)
  have levels: "document_levels ?e tree_config_default Empty_Labels sample_tree ''d'' None 0 [''a''] 0 ?db = (Inr n, db1)"
    using bs prep c one by (simp add: document_levels.simps seal_explicit_children_def)
  have "sn_id n \<notin> set (summary_ids ?db)" using sample_fresh n(1) by (simp add: fresh_ids_def)
  then have new: "\<forall>r\<in>set (db_summaries ?db). sn_id (sr_node r) \<noteq> sn_id n" using in_summary_ids by metis
  note c' = explicit_commit_InrD [OF c new]
  have row1: "get_tree ''t'' db1 = Some (sample_tree\<lparr>tr_root_id := Some ''m'', tr_max_level := 1001\<rparr>)"
    using row get_tree_frame [OF c'(2)] by simp
  obtain db2 where app: "append_to_buffer 9 ''t'' MERGE_LEVEL_BASE (sn_id n) (int (sn_token_count n))
      (sn_time_range_start n) db1 = Inr ((), db2)"
    by (cases rule: append_to_buffer_cases [of "''t''" db1 9 MERGE_LEVEL_BASE "sn_id n" "int (sn_token_count n)"
          "sn_time_range_start n"]) (use row1 act in auto)
  have row2: "get_tree ''t'' db2 = Some (sample_tree\<lparr>tr_root_id := Some ''m'', tr_max_level := 1001\<rparr>)"
    using row1 get_tree_frame [of db2 db1] append_summaries [OF app] by simp
  have "sn_id n \<noteq> ''m''" using n(1) by (simp add: doc_node_id_def new_summary_id_def)
  then have rt: "document_root_tx 9 ''t'' n db2 = Inr ((), update_tree_after_seal_tx ''t'' (sn_id n) (sn_level n) 9 db2)"
    using row2 act by (simp add: document_root_tx_def)
  let ?db3 = "update_tree_after_seal_tx ''t'' (sn_id n) (sn_level n) 9 db2"
  have empty: "get_buffer ''t'' MERGE_LEVEL_BASE ?db = buffer_empty ''t'' MERGE_LEVEL_BASE"
    by (simp add: get_buffer_def sample_merged_db_def sample_db_def sql_find_def buffer_key_def sample_buffer_def
        MERGE_LEVEL_BASE_def)
  then have "get_buffer ''t'' MERGE_LEVEL_BASE db1 = buffer_empty ''t'' MERGE_LEVEL_BASE"
    using get_buffer_frame [OF c'(3)] by simp
  then have "length (bf_item_ids (get_buffer ''t'' MERGE_LEVEL_BASE db2)) \<le> 1"
    using app by (cases rule: append_to_buffer_cases [of "''t''" db1 9 MERGE_LEVEL_BASE "sn_id n"
          "int (sn_token_count n)" "sn_time_range_start n"]) (auto simp: buffer_empty_def)
  moreover have "get_buffer ''t'' MERGE_LEVEL_BASE ?db3 = get_buffer ''t'' MERGE_LEVEL_BASE db2"
    by (rule get_buffer_frame) (simp add: update_tree_after_seal_tx_def)
  ultimately have few: "length (bf_item_ids (get_buffer ''t'' MERGE_LEVEL_BASE ?db3)) < 10" by simp
  have "\<not> should_seal tree_config_default (get_buffer ''t'' MERGE_LEVEL_BASE ?db3)"
    using few by (auto simp: should_seal_def bufs.get_level MERGE_LEVEL_BASE_def tree_config_default_def SUMMARY_FANOUT_def)
  moreover have "[MERGE_LEVEL_BASE..<MERGE_LEVEL_BASE + MAX_CASCADE_DEPTH] =
      MERGE_LEVEL_BASE # [MERGE_LEVEL_BASE + 1..<MERGE_LEVEL_BASE + MAX_CASCADE_DEPTH]"
    by (simp add: MAX_CASCADE_DEPTH_def upt_conv_Cons del: upt_Suc)
  moreover have cfg: "cfg_tree memory_config_default = tree_config_default" by (simp add: memory_config_default_def)
  ultimately have cas: "cascade_all_from_with_services ?e memory_config_default Empty_Labels sample_tree
      MERGE_LEVEL_BASE False False ?db3 = (Inr [], ?db3)"
    by (simp add: cascade_all_from_with_services_def tid Let_def)
  have "seal_document_subtree ?e ?e memory_config_default Empty_Labels sample_tree ''d'' None [''a''] 9 9 ?db =
      (Inr (sn_id n), ?db3)"
    using levels app rt cas by (simp add: seal_document_subtree_def cfg tid)
  then show ?thesis by blast
qed

theorem document_subtree_covers_chunks_witness:
  "\<exists>l rid db'. seal_document_subtree sample_doc_env sample_doc_env memory_config_default Empty_Labels sample_tree
     ''d'' None [''a''] 9 9 sample_merged_db = (Inr rid, db') \<and>
     covers (level_fits (\<lambda>i. get_chunk i sample_merged_db) (int (tc_input_token_budget (cfg_tree memory_config_default))))
       db' l rid [''a'']"
proof -
  obtain rid db' where run: "seal_document_subtree sample_doc_env sample_doc_env memory_config_default Empty_Labels
      sample_tree ''d'' None [''a''] 9 9 sample_merged_db = (Inr rid, db')" using sample_document_run by blast
  have h: "sv_between sample_doc_env = (\<lambda>_ db. db)" "chunks_ok (db_chunks sample_merged_db)"
    by (simp_all add: sample_doc_env_def sample_env_def chunks_ok_def sample_merged_db_def)
  have "get_chunk ''a'' sample_merged_db = Some sample_chunk"
    by (simp add: get_chunk_def sample_merged_db_def sample_chunk_def sql_find_def)
  then show ?thesis
    using document_subtree_covers_chunks [OF run h(1) h(1) sample_fresh h(2)] run by auto
qed

theorem document_root_displaces_merge_root_witness:
  "\<exists>rid db' row'. seal_document_subtree sample_doc_env sample_doc_env memory_config_default Empty_Labels sample_tree
     ''d'' None [''a''] 9 9 sample_merged_db = (Inr rid, db') \<and> get_tree ''t'' db' = Some row'
     \<and> tr_root_id row' = Some rid \<and> tr_max_level row' < 1001"
proof -
  obtain rid db' where run: "seal_document_subtree sample_doc_env sample_doc_env memory_config_default Empty_Labels
      sample_tree ''d'' None [''a''] 9 9 sample_merged_db = (Inr rid, db')" using sample_document_run by blast
  let ?row = "sample_tree\<lparr>tr_root_id := Some ''m'', tr_max_level := 1001\<rparr>"
  have h: "sv_between sample_doc_env = (\<lambda>_ db. db)" "chunks_ok (db_chunks sample_merged_db)"
    "length [''a''] < MERGE_LEVEL_BASE" "get_tree (tr_id sample_tree) sample_merged_db = Some ?row"
    "tr_root_id ?row = Some ''m''" "get_summary ''m'' sample_merged_db \<noteq> None" "MERGE_LEVEL_BASE < tr_max_level ?row"
    "length (bf_item_ids (get_buffer (tr_id sample_tree) MERGE_LEVEL_BASE sample_merged_db)) + 1
      < tc_summary_fanout (cfg_tree memory_config_default)"
    by (simp_all add: sample_doc_env_def sample_env_def chunks_ok_def sample_merged_db_def MERGE_LEVEL_BASE_def
        get_tree_def sql_find_def sample_tree_def get_summary_def summary_row_of_def get_buffer_def sample_db_def
        buffer_key_def sample_buffer_def buffer_empty_def memory_config_default_def tree_config_default_def
        SUMMARY_FANOUT_def)
  have "tr_id sample_tree = ''t''" "tr_max_level ?row = 1001" by (simp_all add: sample_tree_def)
  then show ?thesis
    using document_root_displaces_merge_root [OF run h(1) sample_fresh h(2-8)] run by auto
qed

end
