(* ===== verification/Content_Paths.thy ===== *)
theory Content_Paths
  imports Summarise
begin

section \<open>Where content files lie (src/memory/store/content/paths.rs, raw.rs, read.rs)\<close>

text \<open>
  Chunk bodies, summaries and raw items are files under one content root. Their relative paths are
  built from ids and scopes that come from outside, and are read back from the database as untrusted
  text. All text here is a list of code points. \<^verbatim>\<open>lower\<close> is \<^verbatim>\<open>str::to_lowercase\<close>, whose Unicode tables
  nothing below depends on.
\<close>

subsection \<open>Text\<close>

definition is_ascii_digit :: "nat \<Rightarrow> bool" where
  "is_ascii_digit c \<longleftrightarrow> 48 \<le> c \<and> c \<le> 57"

definition is_ascii_alphanumeric :: "nat \<Rightarrow> bool" where
  "is_ascii_alphanumeric c \<longleftrightarrow> is_ascii_digit c \<or> 65 \<le> c \<and> c \<le> 90 \<or> 97 \<le> c \<and> c \<le> 122"

text \<open>\<^verbatim>\<open>str::split\<close> on a character.\<close>

fun split_at :: "nat \<Rightarrow> utext \<Rightarrow> utext list" where
  "split_at d [] = [[]]"
| "split_at d (c # cs) =
    (if c = d then [] # split_at d cs
     else case split_at d cs of [] \<Rightarrow> [[c]] | w # ws \<Rightarrow> (c # w) # ws)"

fun split_once :: "nat \<Rightarrow> utext \<Rightarrow> (utext \<times> utext) option" where
  "split_once d [] = None"
| "split_once d (c # cs) =
    (if c = d then Some ([], cs) else map_option (\<lambda>(a, b). (c # a, b)) (split_once d cs))"

definition strip_prefix :: "utext \<Rightarrow> utext \<Rightarrow> utext option" where
  "strip_prefix p s = (if take (length p) s = p then Some (drop (length p) s) else None)"

definition strip_suffix :: "utext \<Rightarrow> utext \<Rightarrow> utext option" where
  "strip_suffix p s = map_option rev (strip_prefix (rev p) (rev s))"

definition trim_end_char :: "nat \<Rightarrow> utext \<Rightarrow> utext" where
  "trim_end_char c s = rev (dropWhile (\<lambda>x. x = c) (rev s))"

definition trim_start_char :: "nat \<Rightarrow> utext \<Rightarrow> utext" where
  "trim_start_char c s = dropWhile (\<lambda>x. x = c) s"

definition show_u :: "nat \<Rightarrow> utext" where "show_u n = utext_of (show_nat n)"
definition show_i :: "int \<Rightarrow> utext" where "show_i n = utext_of (show_int n)"

subsection \<open>Slugs\<close>

definition SLUG_MAX_CHARS :: nat where "SLUG_MAX_CHARS = 120"

fun slug_loop :: "utext \<Rightarrow> utext \<Rightarrow> bool \<Rightarrow> bool \<Rightarrow> utext" where
  "slug_loop [] out last_dash pending = out"
| "slug_loop (c # cs) out last_dash pending =
    (if c = 95 then slug_loop cs out last_dash (pending \<or> \<not> last_dash)
     else if is_ascii_alphanumeric c
     then slug_loop cs (out @ (if pending then [95, c] else [c])) False False
     else slug_loop cs (if last_dash then out else out @ [45]) True False)"

definition unknown :: utext where "unknown = utext_of ''unknown''"

definition slugify_source_id :: "(utext \<Rightarrow> utext) \<Rightarrow> utext \<Rightarrow> utext" where
  "slugify_source_id lower source_id =
    (let trimmed = trim_end_char 95 (trim_end_char 45 (slug_loop (lower source_id) [] True False));
         truncated = take SLUG_MAX_CHARS trimmed
     in if truncated = [] then unknown else truncated)"

text \<open>\<^verbatim>\<open>slug_account_email\<close>: \<^verbatim>\<open>@\<close> and \<^verbatim>\<open>.\<close> become words.\<close>

fun email_loop :: "utext \<Rightarrow> utext \<Rightarrow> bool \<Rightarrow> utext" where
  "email_loop [] out last_dash = out"
| "email_loop (c # cs) out last_dash =
    (if c = 64 then email_loop cs ((if last_dash then out else out @ [45]) @ utext_of ''at-'') True
     else if c = 46 then email_loop cs ((if last_dash then out else out @ [45]) @ utext_of ''dot-'') True
     else if is_ascii_alphanumeric c then email_loop cs (out @ [c]) False
     else email_loop cs (if last_dash then out else out @ [45]) True)"

definition slug_account_email :: "(utext \<Rightarrow> utext) \<Rightarrow> utext \<Rightarrow> utext" where
  "slug_account_email lower email =
    (let trimmed = trim_start_char 45 (trim_end_char 45 (email_loop (lower (trim email)) [] True))
     in if trimmed = [] then unknown else trimmed)"

subsection \<open>File names\<close>

definition is_illegal :: "nat \<Rightarrow> bool" where
  "is_illegal c \<longleftrightarrow> c \<in> {92, 47, 58, 42, 63, 34, 60, 62, 124}"

definition sanitize_filename :: "utext \<Rightarrow> utext" where
  "sanitize_filename s = map (\<lambda>c. if is_illegal c then 45 else c) s"

definition level_is_numeric :: "utext \<Rightarrow> bool" where
  "level_is_numeric level \<longleftrightarrow> take 1 level = [76] \<and> length level > 1 \<and> list_all is_ascii_digit (drop 1 level)"

text \<open>
  The two structured forms of a summary id keep their shape; everything else is sanitised whole.
  \<^verbatim>\<open>ms.len()\<close> is a length in bytes, which for text that is all digits is the number of characters.
\<close>

definition stamped_filename :: "utext \<Rightarrow> utext option" where
  "stamped_filename rest =
    (case split_once 58 rest of None \<Rightarrow> None
     | Some (ms, sfx) \<Rightarrow>
        (case split_once 45 sfx of None \<Rightarrow> None
         | Some (level, tail) \<Rightarrow>
            (if list_all is_ascii_digit ms \<and> length ms = 13 \<and> level_is_numeric level \<and> tail \<noteq> [] \<and>
                \<not> list_ex is_illegal tail
             then Some (utext_of ''summary-'' @ ms @ [45] @ level @ [45] @ tail) else None)))"

definition leveled_filename :: "utext \<Rightarrow> utext option" where
  "leveled_filename rest =
    (case split_once 58 rest of None \<Rightarrow> None
     | Some (level, tail) \<Rightarrow>
        (if level_is_numeric level \<and> tail \<noteq> []
         then Some (utext_of ''summary-'' @ level @ [45] @ sanitize_filename tail) else None))"

definition summary_filename :: "utext \<Rightarrow> utext" where
  "summary_filename summary_id =
    (let i = (case strip_suffix (utext_of ''.md'') summary_id of Some s \<Rightarrow> s | None \<Rightarrow> summary_id) in
     case strip_prefix (utext_of ''summary:'') i of
       None \<Rightarrow> sanitize_filename i
     | Some rest \<Rightarrow>
        (case stamped_filename rest of Some f \<Rightarrow> f
         | None \<Rightarrow> (case leveled_filename rest of Some f \<Rightarrow> f | None \<Rightarrow> sanitize_filename i)))"

definition sanitize_uid :: "utext \<Rightarrow> utext" where
  "sanitize_uid uid =
    (let cleaned = map (\<lambda>c. if is_illegal c \<or> c = 32 then 45 else c) uid
     in if cleaned = [] then unknown else cleaned)"

definition build_filename :: "int \<Rightarrow> utext \<Rightarrow> utext" where
  "build_filename created_at_ms uid = show_i (max created_at_ms 0) @ [95] @ sanitize_uid uid @ utext_of ''.md''"

subsection \<open>Paths\<close>

definition wiki_prefix :: utext where "wiki_prefix = utext_of ''wiki''"

definition slashed :: "utext list \<Rightarrow> utext" where
  "slashed parts = join [47] parts"

fun tree_folder :: "tree_kind \<Rightarrow> utext \<Rightarrow> utext" where
  "tree_folder Source slug = utext_of ''source-'' @ slug"
| "tree_folder Global slug = utext_of ''global''"
| "tree_folder Topic slug = utext_of ''topic-'' @ slug"
| "tree_folder Flavoured slug = utext_of ''flavoured-'' @ slug"

definition level_folder :: "nat \<Rightarrow> utext" where
  "level_folder level = 76 # show_u level"

definition summary_rel_path :: "tree_kind \<Rightarrow> utext \<Rightarrow> nat \<Rightarrow> utext \<Rightarrow> utext" where
  "summary_rel_path kind scope_slug level summary_id =
    slashed [wiki_prefix, utext_of ''summaries'', tree_folder kind scope_slug, level_folder level,
      summary_filename summary_id @ utext_of ''.md'']"

datatype summary_disk_layout = Standard | Doc_Subtree (layout_slug: utext) (layout_version: "int option") | Merge

definition summary_rel_path_with_layout ::
    "(utext \<Rightarrow> utext) \<Rightarrow> tree_kind \<Rightarrow> utext \<Rightarrow> nat \<Rightarrow> utext \<Rightarrow> summary_disk_layout \<Rightarrow> utext" where
  "summary_rel_path_with_layout lower kind scope_slug level summary_id layout =
    (case (kind, layout) of
       (Source, Doc_Subtree doc_slug version_ms) \<Rightarrow>
         slashed [wiki_prefix, utext_of ''summaries'', utext_of ''source-'' @ scope_slug, utext_of ''docs'',
           slugify_source_id lower doc_slug,
           (case version_ms of Some v \<Rightarrow> utext_of ''v-'' @ show_i v | None \<Rightarrow> utext_of ''v-unversioned''),
           level_folder level, summary_filename summary_id @ utext_of ''.md'']
     | (Source, Merge) \<Rightarrow>
         slashed [wiki_prefix, utext_of ''summaries'', utext_of ''source-'' @ scope_slug, utext_of ''merge'',
           level_folder level, summary_filename summary_id @ utext_of ''.md'']
     | _ \<Rightarrow> summary_rel_path kind scope_slug level summary_id)"

definition chunk_rel_path :: "(utext \<Rightarrow> utext) \<Rightarrow> utext \<Rightarrow> utext \<Rightarrow> utext \<Rightarrow> utext" where
  "chunk_rel_path lower source_kind source_id chunk_id =
    (let filename = sanitize_filename chunk_id @ utext_of ''.md'' in
     if source_kind = utext_of ''email''
     then (case split_once 58 source_id of
             Some (a, b) \<Rightarrow>
               (if a = utext_of ''gmail'' \<and> b \<noteq> [] then slashed [utext_of ''email'', slugify_source_id lower b, filename]
                else slashed [utext_of ''email'', slugify_source_id lower source_id, filename])
           | None \<Rightarrow> slashed [utext_of ''email'', slugify_source_id lower source_id, filename])
     else slashed [source_kind, slugify_source_id lower source_id, filename])"

datatype raw_kind = Email | Chat | Document | Contact | Post | Commit | Issue | Pull_Request

fun as_dir :: "raw_kind \<Rightarrow> utext" where
  "as_dir Email = utext_of ''emails''"
| "as_dir Chat = utext_of ''chats''"
| "as_dir Document = utext_of ''documents''"
| "as_dir Contact = utext_of ''contacts''"
| "as_dir Post = utext_of ''posts''"
| "as_dir Commit = utext_of ''commits''"
| "as_dir Issue = utext_of ''issues''"
| "as_dir Pull_Request = utext_of ''prs''"

definition raw_rel_path :: "(utext \<Rightarrow> utext) \<Rightarrow> utext \<Rightarrow> raw_kind \<Rightarrow> int \<Rightarrow> utext \<Rightarrow> utext" where
  "raw_rel_path lower source_id kind created_at_ms uid =
    slashed [utext_of ''raw'', slugify_source_id lower source_id, as_dir kind, build_filename created_at_ms uid]"

definition flavoured_root_rel_path :: "(utext \<Rightarrow> utext) \<Rightarrow> utext \<Rightarrow> utext" where
  "flavoured_root_rel_path lower scope =
    slashed [utext_of ''flavoured'', slugify_source_id lower scope @ utext_of ''.md'']"

text \<open>The absolute path: the components pushed onto the root.\<close>

definition abs_path :: "utext list \<Rightarrow> utext \<Rightarrow> utext list" where
  "abs_path content_root rel = content_root @ split_at 47 rel"

subsection \<open>Reading a stored path\<close>

text \<open>
  \<^verbatim>\<open>resolve_within_content_root\<close> on a Unix path, which is absolute iff it starts with a slash and whose
  only component that is neither empty, \<^verbatim>\<open>.\<close> nor normal is \<^verbatim>\<open>..\<close>. \<^verbatim>\<open>canon\<close> is the file system:
  \<^verbatim>\<open>None\<close> when nothing is at the path, else the result of \<^verbatim>\<open>canonicalize\<close>; \<^verbatim>\<open>canon_root\<close> is the
  canonical root, or the root itself when it has none.
\<close>

definition is_prefix_path :: "utext list \<Rightarrow> utext list \<Rightarrow> bool" where
  "is_prefix_path base p \<longleftrightarrow> take (length base) p = base"

fun push_components :: "utext list \<Rightarrow> utext list \<Rightarrow> utext list option" where
  "push_components p [] = Some p"
| "push_components p (c # cs) =
    (if c = [] \<or> c = [46] then push_components p cs
     else if c = [46, 46] then None
     else push_components (p @ [c]) cs)"

definition resolve_within_content_root :: "(utext list \<Rightarrow> utext list result option) \<Rightarrow> utext list \<Rightarrow>
    utext list \<Rightarrow> utext \<Rightarrow> utext list result" where
  "resolve_within_content_root canon canon_root content_root rel =
    (if take 1 rel = [47] then Inl (plain_error ''[content_store::read] rejected absolute path'')
     else case push_components content_root (split_at 47 rel) of
       None \<Rightarrow> Inl (plain_error ''[content_store::read] rejected unsafe path component'')
     | Some p \<Rightarrow>
        (case canon p of
           None \<Rightarrow> Inr p
         | Some (Inl e) \<Rightarrow> Inl (with_context ''[content_store::read] canonicalize failed'' e)
         | Some (Inr canon_abs) \<Rightarrow>
            (if is_prefix_path canon_root canon_abs then Inr p
             else Inl (plain_error ''[content_store::read] resolved path escapes content_root''))))"

subsection \<open>Slugs are safe components\<close>

definition is_slug_char :: "nat \<Rightarrow> bool" where
  "is_slug_char c \<longleftrightarrow> is_ascii_alphanumeric c \<or> c = 45 \<or> c = 95"

lemma slug_char_simps [simp]:
  "is_slug_char 45" "is_slug_char 95" "is_ascii_alphanumeric c \<Longrightarrow> is_slug_char c"
  by (simp_all add: is_slug_char_def)

lemma slug_loop_simps:
  "slug_loop (95 # cs) out last_dash pending = slug_loop cs out last_dash (pending \<or> \<not> last_dash)"
  "is_ascii_alphanumeric c \<Longrightarrow> slug_loop (c # cs) out last_dash pending =
     slug_loop cs (out @ (if pending then [95, c] else [c])) False False"
  "c \<noteq> 95 \<Longrightarrow> \<not> is_ascii_alphanumeric c \<Longrightarrow> slug_loop (c # cs) out last_dash pending =
     slug_loop cs (if last_dash then out else out @ [45]) True False"
proof -
  have "\<not> is_ascii_alphanumeric 95" by (simp add: is_ascii_alphanumeric_def is_ascii_digit_def)
  then show "is_ascii_alphanumeric c \<Longrightarrow> slug_loop (c # cs) out last_dash pending =
      slug_loop cs (out @ (if pending then [95, c] else [c])) False False" by (cases "c = 95") simp_all
qed simp_all

lemma slug_loop_cases:
  obtains (underscore) "c = 95" | (kept) "is_ascii_alphanumeric c" | (dropped) "c \<noteq> 95" "\<not> is_ascii_alphanumeric c"
  by blast

lemma slug_loop_chars:
  "\<forall>c\<in>set out. is_slug_char c \<Longrightarrow> \<forall>c\<in>set (slug_loop cs out last_dash pending). is_slug_char c"
proof (induction cs arbitrary: out last_dash pending)
  case (Cons c cs)
  show ?case
  proof (cases c rule: slug_loop_cases)
    case underscore
    then show ?thesis using Cons by (simp only: slug_loop_simps)
  next
    case kept
    have "\<forall>x\<in>set (out @ (if pending then [95, c] else [c])). is_slug_char x" using Cons.prems kept by simp
    from Cons.IH [OF this] show ?thesis by (simp only: slug_loop_simps(2) [OF kept])
  next
    case dropped
    have "\<forall>x\<in>set (if last_dash then out else out @ [45]). is_slug_char x" using Cons.prems by simp
    from Cons.IH [OF this] show ?thesis by (simp only: slug_loop_simps(3) [OF dropped])
  qed
qed simp

lemma unknown_chars: "\<forall>c\<in>set unknown. is_slug_char c"
  by (simp add: unknown_def utext_of_def is_slug_char_def is_ascii_alphanumeric_def)

text \<open>A slug is the default or a part of the loop's output, from its start.\<close>

lemma dropWhile_drop: "\<exists>n. dropWhile P s = drop n s"
proof (induction s)
  case (Cons x xs)
  then obtain n where "dropWhile P xs = drop n xs" by blast
  then have "dropWhile P (x # xs) = drop (if P x then Suc n else 0) (x # xs)" by simp
  then show ?case by blast
qed simp

lemma trim_end_take: "\<exists>n. trim_end_char c s = take n s"
proof -
  obtain n where "dropWhile (\<lambda>x. x = c) (rev s) = drop n (rev s)" using dropWhile_drop by blast
  then show ?thesis by (auto simp: trim_end_char_def rev_drop)
qed

lemma slug_cases:
  "slugify_source_id lower s = unknown \<or>
    (\<exists>n. slugify_source_id lower s = take n (slug_loop (lower s) [] True False) \<and> slugify_source_id lower s \<noteq> [])"
proof -
  obtain a b where "trim_end_char 45 (slug_loop (lower s) [] True False) = take a (slug_loop (lower s) [] True False)"
    "trim_end_char 95 (take a (slug_loop (lower s) [] True False)) = take b (take a (slug_loop (lower s) [] True False))"
    using trim_end_take by metis
  then show ?thesis by (auto simp: slugify_source_id_def Let_def)
qed

lemma slug_chars: "\<forall>c\<in>set (slugify_source_id lower s). is_slug_char c"
proof -
  have "\<forall>c\<in>set (slug_loop (lower s) [] True False). is_slug_char c" using slug_loop_chars [of "[]"] by simp
  then show ?thesis using slug_cases [of lower s] unknown_chars by (metis in_set_takeD)
qed

lemma slug_length: "slugify_source_id lower s \<noteq> [] \<and> length (slugify_source_id lower s) \<le> SLUG_MAX_CHARS"
  by (simp add: slugify_source_id_def Let_def unknown_def utext_of_def SLUG_MAX_CHARS_def)

lemma slug_loop_head: "out \<noteq> [] \<Longrightarrow> slug_loop cs out last_dash pending \<noteq> [] \<and> hd (slug_loop cs out last_dash pending) = hd out"
  by (induction cs out last_dash pending rule: slug_loop.induct) auto

lemma slug_loop_starts:
  "slug_loop cs [] True False \<noteq> [] \<Longrightarrow> is_ascii_alphanumeric (hd (slug_loop cs [] True False))"
proof (induction cs)
  case (Cons c cs)
  show ?case
  proof (cases c rule: slug_loop_cases)
    case kept
    then show ?thesis using slug_loop_head [of "[c]" cs False False] by (simp only: slug_loop_simps) simp
  qed (use Cons in \<open>simp_all add: slug_loop_simps\<close>)
qed simp

lemma slug_starts: "is_ascii_alphanumeric (hd (slugify_source_id lower s))"
  using slug_cases [of lower s]
proof
  assume "slugify_source_id lower s = unknown"
  then show ?thesis by (simp add: unknown_def utext_of_def is_ascii_alphanumeric_def)
next
  let ?l = "slug_loop (lower s) [] True False"
  assume "\<exists>n. slugify_source_id lower s = take n ?l \<and> slugify_source_id lower s \<noteq> []"
  then obtain n where n: "slugify_source_id lower s = take n ?l" "0 < n" "?l \<noteq> []" by auto
  then have "hd (slugify_source_id lower s) = hd ?l" by simp
  then show ?thesis using slug_loop_starts [OF n(3)] by simp
qed

subsection \<open>Paths made of safe parts\<close>

definition safe_part :: "utext \<Rightarrow> bool" where
  "safe_part w \<longleftrightarrow> 47 \<notin> set w \<and> w \<noteq> [] \<and> w \<noteq> [46] \<and> w \<noteq> [46, 46]"

lemma split_at_none: "d \<notin> set w \<Longrightarrow> split_at d w = [w]"
  by (induction w) auto

lemma split_at_append: "d \<notin> set w \<Longrightarrow> split_at d (w @ d # cs) = w # split_at d cs"
  by (induction w) auto

lemma split_join: "ws \<noteq> [] \<Longrightarrow> \<forall>w\<in>set ws. d \<notin> set w \<Longrightarrow> split_at d (join [d] ws) = ws"
proof (induction "[d]" ws rule: join.induct)
  case (3 t u ts)
  then show ?case using split_at_append [of d t "join [d] (u # ts)"] by simp
qed (auto simp: split_at_none)

lemma slashed_safe:
  assumes "ws \<noteq> []" and "\<forall>w\<in>set ws. safe_part w"
  shows "split_at 47 (slashed ws) = ws" and "take 1 (slashed ws) \<noteq> [47]"
proof -
  show "split_at 47 (slashed ws) = ws"
    unfolding slashed_def by (rule split_join [OF assms(1)]) (use assms(2) in \<open>auto simp: safe_part_def\<close>)
  obtain w us where ws: "ws = w # us" "w \<noteq> []" "47 \<notin> set w" using assms by (cases ws) (auto simp: safe_part_def)
  have "take 1 (slashed ws) = take 1 w" using ws(2) by (cases us) (simp_all add: slashed_def ws(1) Suc_le_eq)
  then show "take 1 (slashed ws) \<noteq> [47]" using ws(2,3) by (cases w) auto
qed

lemma push_safe: "\<forall>w\<in>set ws. safe_part w \<Longrightarrow> push_components p ws = Some (p @ ws)"
  by (induction ws arbitrary: p) (auto simp: safe_part_def)

lemma push_components_SomeD:
  "push_components p ws = Some q \<Longrightarrow> \<forall>w\<in>set ws. 47 \<notin> set w \<Longrightarrow> \<exists>parts. q = p @ parts \<and> (\<forall>w\<in>set parts. safe_part w)"
proof (induction p ws rule: push_components.induct)
  case (2 p c cs)
  show ?case
  proof (cases "c = [] \<or> c = [46]")
    case True
    then show ?thesis using 2(1,3,4) by simp
  next
    case False
    then have c: "c \<noteq> [46, 46]" "push_components (p @ [c]) cs = Some q" using 2(3) by (auto split: if_splits)
    then obtain parts where "q = (p @ [c]) @ parts" "\<forall>w\<in>set parts. safe_part w" using 2(2) [OF False c(1)] 2(4) by auto
    then show ?thesis using False c(1) 2(4) by (intro exI [of _ "c # parts"]) (simp add: safe_part_def)
  qed
qed auto

lemma split_at_free: "\<forall>w\<in>set (split_at d s). d \<notin> set w"
  by (induction s) (auto split: list.splits)

lemma safe_literals [simp]:
  "safe_part (utext_of ''summaries'')" "safe_part wiki_prefix" "safe_part (utext_of ''docs'')"
  "safe_part (utext_of ''merge'')" "safe_part (utext_of ''email'')" "safe_part (utext_of ''raw'')"
  "safe_part (utext_of ''flavoured'')" "safe_part (utext_of ''v-unversioned'')" "safe_part (as_dir k)"
  by (cases k; simp add: safe_part_def utext_of_def wiki_prefix_def)+

lemma safe_md: "47 \<notin> set w \<Longrightarrow> safe_part (w @ utext_of ''.md'')"
  by (simp add: safe_part_def utext_of_def)

lemma no_slash_slug: "47 \<notin> set (slugify_source_id lower s)"
  using slug_chars [of lower s] by (auto simp: is_slug_char_def is_ascii_alphanumeric_def is_ascii_digit_def)

lemma safe_slug [simp]: "safe_part (slugify_source_id lower s)"
proof -
  have "\<not> is_ascii_alphanumeric 46" by (simp add: is_ascii_alphanumeric_def is_ascii_digit_def)
  then have "slugify_source_id lower s \<noteq> [46]" "slugify_source_id lower s \<noteq> [46, 46]"
    using slug_starts [of lower s] by auto
  then show ?thesis using no_slash_slug slug_length by (simp add: safe_part_def)
qed

lemma safe_folder [simp]: "safe_part (tree_folder k (slugify_source_id lower s))"
  "safe_part (utext_of ''source-'' @ slugify_source_id lower s)"
  using no_slash_slug [of lower s] by (cases k; simp add: safe_part_def utext_of_def)+

lemma show_nat_no_slash: "CHR ''/'' \<notin> set (show_nat n)"
  by (rule show_nat_no_char) simp

lemma of_char_47: "(of_char c :: nat) = 47 \<longleftrightarrow> c = CHR ''/''"
proof -
  have "(47 :: nat) = of_char (CHR ''/'')" by simp
  then show ?thesis by (metis of_char_eq_iff)
qed

lemma no_slash_utext: "47 \<in> set (utext_of s) \<longleftrightarrow> CHR ''/'' \<in> set s"
  by (auto simp: utext_of_def of_char_47 image_iff)

lemma no_slash_show [simp]: "47 \<notin> set (show_u n)" "47 \<notin> set (show_i i)"
  using show_nat_no_slash by (auto simp: show_u_def show_i_def no_slash_utext show_int_def)

lemma safe_level [simp]: "safe_part (level_folder n)"
  using no_slash_show(1) [of n] show_nat_not_Nil [of n]
  by (auto simp: safe_part_def level_folder_def)

lemma safe_version [simp]: "safe_part (utext_of ''v-'' @ show_i v)"
  using no_slash_show(2) [of v] by (auto simp: safe_part_def utext_of_def)

lemma no_slash_sanitize [simp]: "47 \<notin> set (sanitize_filename s)"
  by (auto simp: sanitize_filename_def is_illegal_def split: if_splits)

lemma no_slash_digits: "list_all is_ascii_digit s \<Longrightarrow> 47 \<notin> set s"
  by (auto simp: list_all_iff is_ascii_digit_def)

lemma no_slash_level: "level_is_numeric l \<Longrightarrow> 47 \<notin> set l"
  by (cases l) (auto simp: level_is_numeric_def dest: no_slash_digits)

lemma no_slash_stamped: "stamped_filename r = Some f \<Longrightarrow> 47 \<notin> set f"
proof -
  assume "stamped_filename r = Some f"
  then obtain ms level tail where "f = utext_of ''summary-'' @ ms @ [45] @ level @ [45] @ tail"
    "list_all is_ascii_digit ms" "level_is_numeric level" "\<not> list_ex is_illegal tail"
    by (auto simp: stamped_filename_def split: option.splits if_splits prod.splits)
  then show ?thesis using no_slash_digits no_slash_level
    by (auto simp: no_slash_utext list_ex_iff is_illegal_def)
qed

lemma no_slash_leveled: "leveled_filename r = Some f \<Longrightarrow> 47 \<notin> set f"
proof -
  assume "leveled_filename r = Some f"
  then obtain level tail where "f = utext_of ''summary-'' @ level @ [45] @ sanitize_filename tail" "level_is_numeric level"
    by (auto simp: leveled_filename_def split: option.splits if_splits prod.splits)
  then show ?thesis using no_slash_level by (auto simp: no_slash_utext)
qed

lemma no_slash_summary: "47 \<notin> set (summary_filename i)"
  using no_slash_stamped no_slash_leveled
  by (auto simp: summary_filename_def Let_def split: option.splits)

lemma safe_build_filename [simp]: "safe_part (build_filename ms uid)"
proof -
  have "47 \<notin> set (sanitize_uid uid)"
    by (auto simp: sanitize_uid_def Let_def is_illegal_def unknown_def utext_of_def split: if_splits)
  then have "47 \<notin> set (show_i (max ms 0) @ [95] @ sanitize_uid uid)" by simp
  from safe_md [OF this] show ?thesis by (simp add: build_filename_def)
qed

subsection \<open>Generated and stored paths\<close>

text \<open>
  The paths the program writes files at. The name of a chunk's source kind (\<^verbatim>\<open>chat\<close>, \<^verbatim>\<open>email\<close>,
  \<^verbatim>\<open>document\<close>) comes from another crate.
\<close>

inductive generated_path :: "(utext \<Rightarrow> utext) \<Rightarrow> utext \<Rightarrow> bool" for lower where
  chunk: "safe_part kind \<Longrightarrow> generated_path lower (chunk_rel_path lower kind source_id chunk_id)"
| summary: "generated_path lower (summary_rel_path_with_layout lower tree_kind (slugify_source_id lower scope)
    level summary_id layout)"
| raw: "generated_path lower (raw_rel_path lower source_id raw_kind created_at_ms uid)"
| flavoured: "generated_path lower (flavoured_root_rel_path lower scope)"

lemma generated_parts:
  assumes "generated_path lower p"
  shows "\<exists>ws. p = slashed ws \<and> ws \<noteq> [] \<and> (\<forall>w\<in>set ws. safe_part w)"
  using assms
proof cases
  case (chunk kind source_id chunk_id)
  let ?f = "sanitize_filename chunk_id @ utext_of ''.md''"
  have f: "safe_part ?f" by (rule safe_md) simp
  have k: "safe_part kind" by (rule chunk(2))
  have "\<exists>s. chunk_rel_path lower kind source_id chunk_id = slashed [kind, slugify_source_id lower s, ?f]"
  proof (cases "kind = utext_of ''email''")
    case True
    then show ?thesis by (cases "split_once 58 source_id") (auto simp: chunk_rel_path_def Let_def)
  qed (auto simp: chunk_rel_path_def Let_def)
  then obtain s where "chunk_rel_path lower kind source_id chunk_id = slashed [kind, slugify_source_id lower s, ?f]"
    by blast
  then show ?thesis using f k chunk(1) by (intro exI [of _ "[kind, slugify_source_id lower s, ?f]"]) simp
next
  case (summary tree_kind scope level summary_id layout)
  let ?s = "slugify_source_id lower scope" and ?f = "summary_filename summary_id @ utext_of ''.md''"
  have f: "safe_part ?f" by (rule safe_md) (rule no_slash_summary)
  have plain: ?thesis if "p = summary_rel_path tree_kind ?s level summary_id"
    using that f unfolding summary_rel_path_def
    by (intro exI [of _ "[wiki_prefix, utext_of ''summaries'', tree_folder tree_kind ?s, level_folder level, ?f]"]) simp
  show ?thesis
  proof (cases "tree_kind = Source \<and> layout \<noteq> Standard")
    case False
    then have "p = summary_rel_path tree_kind ?s level summary_id"
      unfolding summary(1) by (cases tree_kind; cases layout) (simp_all add: summary_rel_path_with_layout_def)
    then show ?thesis by (rule plain)
  next
    case True
    show ?thesis
    proof (cases layout)
      case (Doc_Subtree d v)
      let ?ws = "[wiki_prefix, utext_of ''summaries'', utext_of ''source-'' @ ?s, utext_of ''docs'',
        slugify_source_id lower d, (case v of Some v \<Rightarrow> utext_of ''v-'' @ show_i v | None \<Rightarrow> utext_of ''v-unversioned''),
        level_folder level, ?f]"
      have "p = slashed ?ws" using True Doc_Subtree unfolding summary(1) by (simp add: summary_rel_path_with_layout_def)
      moreover have "\<forall>w\<in>set ?ws. safe_part w" using f by (cases v) simp_all
      ultimately show ?thesis by blast
    next
      case Merge
      let ?ws = "[wiki_prefix, utext_of ''summaries'', utext_of ''source-'' @ ?s, utext_of ''merge'', level_folder level, ?f]"
      have "p = slashed ?ws" using True Merge unfolding summary(1) by (simp add: summary_rel_path_with_layout_def)
      moreover have "\<forall>w\<in>set ?ws. safe_part w" using f by simp
      ultimately show ?thesis by blast
    qed (use True in simp)
  qed
next
  case (raw source_id raw_kind ms uid)
  then show ?thesis
    by (intro exI [of _ "[utext_of ''raw'', slugify_source_id lower source_id, as_dir raw_kind, build_filename ms uid]"])
      (simp add: raw_rel_path_def)
next
  case (flavoured scope)
  have "safe_part (slugify_source_id lower scope @ utext_of ''.md'')" by (rule safe_md) (rule no_slash_slug)
  then show ?thesis using flavoured
    by (intro exI [of _ "[utext_of ''flavoured'', slugify_source_id lower scope @ utext_of ''.md'']"])
      (simp add: flavoured_root_rel_path_def)
qed

lemma push_parent: "[46, 46] \<in> set cs \<Longrightarrow> push_components p cs = None"
  by (induction p cs rule: push_components.induct) auto

lemma push_filter: "push_components p cs = Some q \<Longrightarrow> q = p @ filter (\<lambda>c. c \<noteq> [] \<and> c \<noteq> [46]) cs"
  by (induction p cs rule: push_components.induct) (auto split: if_splits)

text \<open>
  C15: no stored path leads out of the content root, and none the program writes is refused. A path that starts
  with a slash or holds a parent component is refused. Whatever text a path is read from, if it resolves then to the root
  followed by its components but the empty ones and \<^verbatim>\<open>.\<close> (so with no \<^verbatim>\<open>..\<close> and no slash inside one), whose
  canonical form, when something is there, is under the canonical root. Every path built for a chunk, a summary, a raw
  item or a compiled root, from whatever ids and scopes, resolves to exactly where it was written, unless a link
  under the root leads out.
\<close>

theorem content_paths_stay_inside:
  "(take 1 rel = [47] \<or> [46, 46] \<in> set (split_at 47 rel) \<longrightarrow>
      (\<exists>e. resolve_within_content_root canon canon_root content_root rel = Inl e))
   \<and> (\<forall>p. resolve_within_content_root canon canon_root content_root rel = Inr p \<longrightarrow>
      p = content_root @ filter (\<lambda>c. c \<noteq> [] \<and> c \<noteq> [46]) (split_at 47 rel)
      \<and> list_all safe_part (filter (\<lambda>c. c \<noteq> [] \<and> c \<noteq> [46]) (split_at 47 rel))
      \<and> (canon p = None \<or> (\<exists>q. canon p = Some (Inr q) \<and> is_prefix_path canon_root q)))
   \<and> (generated_path lower rel \<longrightarrow>
      list_all safe_part (split_at 47 rel)
      \<and> (canon (abs_path content_root rel) = None \<longrightarrow>
          resolve_within_content_root canon canon_root content_root rel = Inr (abs_path content_root rel))
      \<and> (\<forall>q. canon (abs_path content_root rel) = Some (Inr q) \<and> is_prefix_path canon_root q \<longrightarrow>
          resolve_within_content_root canon canon_root content_root rel = Inr (abs_path content_root rel)))"
proof (intro conjI allI impI)
  assume "take 1 rel = [47] \<or> [46, 46] \<in> set (split_at 47 rel)"
  then show "\<exists>e. resolve_within_content_root canon canon_root content_root rel = Inl e"
    using push_parent by (auto simp: resolve_within_content_root_def)
next
  fix p assume r: "resolve_within_content_root canon canon_root content_root rel = Inr p"
  then have push: "push_components content_root (split_at 47 rel) = Some p"
    by (auto simp: resolve_within_content_root_def split: if_splits option.splits sum.splits)
  then show p: "p = content_root @ filter (\<lambda>c. c \<noteq> [] \<and> c \<noteq> [46]) (split_at 47 rel)" by (rule push_filter)
  show "list_all safe_part (filter (\<lambda>c. c \<noteq> [] \<and> c \<noteq> [46]) (split_at 47 rel))"
    using push_components_SomeD [OF push split_at_free] p by (auto simp: list_all_iff)
  show "canon p = None \<or> (\<exists>q. canon p = Some (Inr q) \<and> is_prefix_path canon_root q)"
    using r push by (auto simp: resolve_within_content_root_def split: if_splits option.splits sum.splits)
next
  assume "generated_path lower rel"
  then obtain ws where ws: "rel = slashed ws" "ws \<noteq> []" "\<forall>w\<in>set ws. safe_part w" using generated_parts by blast
  note safe = slashed_safe [OF ws(2,3), folded ws(1)]
  show "list_all safe_part (split_at 47 rel)" using ws(3) safe(1) by (simp add: list_all_iff)
  have push: "push_components content_root (split_at 47 rel) = Some (abs_path content_root rel)"
    unfolding abs_path_def safe(1) by (rule push_safe [OF ws(3)])
  show "resolve_within_content_root canon canon_root content_root rel = Inr (abs_path content_root rel)"
    if "canon (abs_path content_root rel) = None"
    using that safe(2) push by (simp add: resolve_within_content_root_def)
  show "resolve_within_content_root canon canon_root content_root rel = Inr (abs_path content_root rel)"
    if "canon (abs_path content_root rel) = Some (Inr q) \<and> is_prefix_path canon_root q" for q
    using that safe(2) push by (simp add: resolve_within_content_root_def)
qed

theorem content_paths_stay_inside_witness:
  "resolve_within_content_root (\<lambda>_. None) [utext_of ''r''] [utext_of ''r'']
     (chunk_rel_path id (utext_of ''chat'') (utext_of ''../x'') (utext_of ''..'')) =
     Inr [utext_of ''r'', utext_of ''chat'', utext_of ''x'', utext_of ''...md'']
   \<and> list_all safe_part [utext_of ''chat'', utext_of ''x'', utext_of ''...md'']"
proof -
  let ?p = "chunk_rel_path id (utext_of ''chat'') (utext_of ''../x'') (utext_of ''..'')"
  have g: "generated_path id ?p" by (rule generated_path.chunk) (simp add: safe_part_def utext_of_def)
  have p: "split_at 47 ?p = [utext_of ''chat'', utext_of ''x'', utext_of ''...md'']"
    by (simp add: chunk_rel_path_def slugify_source_id_def slashed_def utext_of_def trim_end_char_def
        is_ascii_alphanumeric_def is_ascii_digit_def sanitize_filename_def is_illegal_def Let_def SLUG_MAX_CHARS_def)
  then show ?thesis
    using content_paths_stay_inside [where canon = "\<lambda>_. None" and canon_root = "[utext_of ''r'']" and
        content_root = "[utext_of ''r'']" and rel = ?p and lower = id] g
    by (simp add: abs_path_def)
qed

end
