(* ===== verification/Front_Matter.thy ===== *)
theory Front_Matter
  imports Content_Paths
begin

section \<open>Content files (src/memory/store/content/compose, tags.rs)\<close>

text \<open>
  A content file is a YAML front matter between two \<^verbatim>\<open>---\<close> lines, then the body byte for byte. The
  front matter holds values of foreign origin, so quoting is what keeps a value from adding lines or
  ending the block. Timestamps and dates are formatted by another crate: \<^verbatim>\<open>rfc\<close> and \<^verbatim>\<open>ymd\<close> are its
  functions, \<^verbatim>\<open>kind_str\<close> the wire name of a chunk's kind, \<^verbatim>\<open>lower\<close> and \<^verbatim>\<open>upper\<close> Unicode case mapping.
\<close>

subsection \<open>Lines and scalars (yaml.rs)\<close>

text \<open>\<^verbatim>\<open>str::lines\<close>: a carriage return goes with the line feed it precedes.\<close>

definition strip_cr :: "utext \<Rightarrow> utext" where
  "strip_cr w = (if w \<noteq> [] \<and> last w = 13 then butlast w else w)"

definition lines_of :: "utext \<Rightarrow> utext list" where
  "lines_of s = (let ps = split_at 10 s in
     map strip_cr (butlast ps) @ (if last ps = [] then [] else [last ps]))"

definition is_control :: "nat \<Rightarrow> bool" where
  "is_control c \<longleftrightarrow> c < 32 \<or> 127 \<le> c \<and> c < 160"

definition needs_quoting :: "utext \<Rightarrow> bool" where
  "needs_quoting s \<longleftrightarrow> s = [] \<or> trim s \<noteq> s \<or> list_ex is_control s \<or>
     hd s \<in> {38, 42, 63, 124, 45, 60, 62, 61, 33, 37, 64, 96} \<or>
     list_ex (\<lambda>c. c \<in> {58, 35, 91, 93, 123, 125, 34, 39}) s"

definition escape_char :: "nat \<Rightarrow> utext" where
  "escape_char c = (if c = 92 then [92, 92] else if c = 34 then [92, 34] else if c = 10 then [92, 110]
     else if c = 13 then [92, 114] else if c = 9 then [92, 116] else [c])"

definition yaml_scalar :: "utext \<Rightarrow> utext" where
  "yaml_scalar s = (if needs_quoting s then [34] @ concat (map escape_char s) @ [34] else s)"

definition decode_escape :: "nat \<Rightarrow> utext" where
  "decode_escape d = (if d = 92 then [92] else if d = 34 then [34] else if d = 110 then [10]
     else if d = 114 then [13] else if d = 116 then [9] else [92, d])"

fun unescape_double_quoted :: "utext \<Rightarrow> utext" where
  "unescape_double_quoted [] = []"
| "unescape_double_quoted [c] = [c]"
| "unescape_double_quoted (c # d # cs) =
    (if c \<noteq> 92 then c # unescape_double_quoted (d # cs) else decode_escape d @ unescape_double_quoted cs)"

definition field_value :: "utext \<Rightarrow> utext" where
  "field_value rest =
    (let trimmed = trim rest in
     case strip_prefix [34] trimmed of None \<Rightarrow> trimmed
     | Some s \<Rightarrow> (case strip_suffix [34] s of None \<Rightarrow> trimmed | Some inner \<Rightarrow> unescape_double_quoted inner))"

fun scan_lines :: "utext \<Rightarrow> utext list \<Rightarrow> utext option" where
  "scan_lines pre [] = None"
| "scan_lines pre (raw # ls) =
    (if take 1 raw = [32] \<or> take 1 raw = [9] then scan_lines pre ls
     else case strip_prefix pre raw of
            Some rest \<Rightarrow> Some (field_value rest)
          | None \<Rightarrow> scan_lines pre ls)"

definition scan_fm_field :: "utext \<Rightarrow> utext \<Rightarrow> utext option" where
  "scan_fm_field fm key = scan_lines (key @ [58, 32]) (lines_of fm)"

text \<open>\<^verbatim>\<open>str::find\<close>.\<close>

fun find_sub :: "utext \<Rightarrow> utext \<Rightarrow> nat option" where
  "find_sub pat [] = (if pat = [] then Some 0 else None)"
| "find_sub pat (c # cs) =
    (if take (length pat) (c # cs) = pat then Some 0 else map_option Suc (find_sub pat cs))"

definition fence :: utext where "fence = [45, 45, 45]"

definition split_front_matter :: "utext \<Rightarrow> (utext \<times> utext) option" where
  "split_front_matter content =
    (if take 4 content \<noteq> fence @ [10] then None
     else let rest = drop 4 content in
       case find_sub ([10] @ fence @ [10]) rest of
         Some idx \<Rightarrow> Some (take (4 + idx + 5) content, drop (4 + idx + 5) content)
       | None \<Rightarrow>
          (case strip_suffix ([10] @ fence) rest of
             None \<Rightarrow> None
           | Some pre \<Rightarrow> Some (take (4 + length pre + 4) content, drop (4 + length pre + 4) content)))"

definition source_tag :: "(utext \<Rightarrow> utext) \<Rightarrow> utext \<Rightarrow> utext" where
  "source_tag lower scope = utext_of ''source/'' @ slugify_source_id lower scope"

definition with_source_tag :: "(utext \<Rightarrow> utext) \<Rightarrow> utext \<Rightarrow> utext list \<Rightarrow> utext list" where
  "with_source_tag lower scope tags =
    (let st = source_tag lower scope in st # filter (\<lambda>t. t \<noteq> st) tags)"

subsection \<open>Chunk files (chunk.rs)\<close>

datatype source_kind = Kind_Chat | Kind_Email | Kind_Document

record chunk_metadata =
  cm_source_kind :: source_kind
  cm_source_id :: utext
  cm_path_scope :: "utext option"
  cm_owner :: utext
  cm_timestamp :: int
  cm_time_range :: "int \<times> int"
  cm_tags :: "utext list"
  cm_source_ref :: "utext option"

record content_chunk =
  cc_metadata :: chunk_metadata
  cc_content :: utext
  cc_seq_in_source :: nat

text \<open>A block of lines, each with its line feed.\<close>

definition unlines :: "utext list \<Rightarrow> utext" where
  "unlines ls = concat (map (\<lambda>l. l @ [10]) ls)"

definition field :: "string \<Rightarrow> utext \<Rightarrow> utext" where
  "field key v = utext_of key @ [58, 32] @ v"

definition item :: "utext \<Rightarrow> utext" where
  "item v = utext_of ''  - '' @ v"

definition parse_gmail_participants_source_id :: "utext \<Rightarrow> utext list option" where
  "parse_gmail_participants_source_id source_id =
    (case split_once 58 source_id of
       None \<Rightarrow> None
     | Some (pre, participants) \<Rightarrow>
        (if pre \<noteq> utext_of ''gmail'' \<or> participants = [] then None
         else let addrs = filter (\<lambda>s. s \<noteq> []) (map trim (split_at 124 participants))
              in if addrs = [] then None else Some addrs))"

fun participants_label :: "utext list \<Rightarrow> utext" where
  "participants_label [] = utext_of ''unknown''"
| "participants_label [only] = only"
| "participants_label [a, b] = a @ utext_of '' <-> '' @ b"
| "participants_label (a # rest) = a @ utext_of '' <-> '' @ show_u (length rest) @ utext_of '' others''"

definition build_participants_alias :: "utext list \<Rightarrow> nat \<Rightarrow> utext" where
  "build_participants_alias addrs seq = participants_label addrs @ utext_of '': chunk '' @ show_u seq"

definition optional_field :: "string \<Rightarrow> utext option \<Rightarrow> (string \<times> utext) list" where
  "optional_field key v = (case v of None \<Rightarrow> [] | Some s \<Rightarrow> [(key, yaml_scalar s)])"

definition email_lines :: "chunk_metadata \<Rightarrow> nat \<Rightarrow> utext list" where
  "email_lines meta seq =
    (if cm_source_kind meta = Kind_Email
     then case parse_gmail_participants_source_id (cm_source_id meta) of
            None \<Rightarrow> []
          | Some addrs \<Rightarrow>
              [utext_of ''participants:''] @ map (\<lambda>a. item (yaml_scalar a)) addrs @
              [utext_of ''aliases:'', item (yaml_scalar (build_participants_alias addrs seq))]
     else [])"

definition chunk_fields :: "(source_kind \<Rightarrow> utext) \<Rightarrow> (int \<Rightarrow> utext) \<Rightarrow> content_chunk \<Rightarrow> (string \<times> utext) list" where
  "chunk_fields kind_str rfc chunk =
    (let meta = cc_metadata chunk in
     [(''source_kind'', kind_str (cm_source_kind meta)),
      (''source_id'', yaml_scalar (cm_source_id meta))] @
     optional_field ''path_scope'' (cm_path_scope meta) @
     [(''seq'', show_u (cc_seq_in_source chunk)),
      (''owner'', yaml_scalar (cm_owner meta)),
      (''timestamp'', rfc (cm_timestamp meta)),
      (''time_range_start'', rfc (fst (cm_time_range meta))),
      (''time_range_end'', rfc (snd (cm_time_range meta)))] @
     optional_field ''source_ref'' (cm_source_ref meta))"

definition field_lines :: "(string \<times> utext) list \<Rightarrow> utext list" where
  "field_lines kvs = map (\<lambda>(k, v). field k v) kvs"

definition chunk_scope :: "content_chunk \<Rightarrow> utext" where
  "chunk_scope chunk = (case cm_path_scope (cc_metadata chunk) of Some s \<Rightarrow> s | None \<Rightarrow> cm_source_id (cc_metadata chunk))"

definition tag_lines :: "utext list \<Rightarrow> utext list" where
  "tag_lines tags = utext_of ''tags:'' # map (\<lambda>t. item (yaml_scalar t)) tags"

definition build_front_matter ::
    "(source_kind \<Rightarrow> utext) \<Rightarrow> (int \<Rightarrow> utext) \<Rightarrow> (utext \<Rightarrow> utext) \<Rightarrow> content_chunk \<Rightarrow> utext" where
  "build_front_matter kind_str rfc lower chunk =
    unlines ([fence] @ field_lines (chunk_fields kind_str rfc chunk) @
      tag_lines (with_source_tag lower (chunk_scope chunk) (cm_tags (cc_metadata chunk))) @
      email_lines (cc_metadata chunk) (cc_seq_in_source chunk) @ [fence])"

definition compose_chunk_file ::
    "(source_kind \<Rightarrow> utext) \<Rightarrow> (int \<Rightarrow> utext) \<Rightarrow> (utext \<Rightarrow> utext) \<Rightarrow> content_chunk \<Rightarrow> utext \<times> utext" where
  "compose_chunk_file kind_str rfc lower chunk =
    (build_front_matter kind_str rfc lower chunk @ cc_content chunk, cc_content chunk)"

text \<open>Tag rewriting: the \<^verbatim>\<open>tags:\<close> stanza is dropped and a new one put before the closing fence.\<close>

definition is_item_line :: "utext \<Rightarrow> bool" where
  "is_item_line l \<longleftrightarrow> take 4 l = utext_of ''  - ''"

function strip_tags :: "utext list \<Rightarrow> utext list \<times> bool" where
  "strip_tags [] = ([], False)"
| "strip_tags (l # ls) =
    (if l = utext_of ''tags: []'' then (fst (strip_tags ls), True)
     else if l = utext_of ''tags:'' then (fst (strip_tags (dropWhile is_item_line ls)), True)
     else (case strip_tags ls of (out_lines, found) \<Rightarrow> (l # out_lines, found)))"
  by pat_completeness auto
termination by (relation "measure length") (auto simp: less_Suc_eq_le length_dropWhile_le)

text \<open>Everything before the last fence, or all of it.\<close>

definition before_fence :: "utext list \<Rightarrow> utext list" where
  "before_fence ls = (if fence \<in> set ls
     then rev (drop 1 (dropWhile (\<lambda>l. l \<noteq> fence) (rev ls))) else ls)"

definition tags_stanza :: "utext list \<Rightarrow> utext" where
  "tags_stanza new_tags = (if new_tags = [] then utext_of ''tags: []''
     else utext_of ''tags:'' @ concat (map (\<lambda>t. [10] @ item (yaml_scalar t)) new_tags))"

definition replace_tags_in_front_matter :: "utext \<Rightarrow> utext list \<Rightarrow> string + utext" where
  "replace_tags_in_front_matter fm new_tags =
    (case strip_tags (lines_of fm) of (out_lines, found) \<Rightarrow>
       if \<not> found then Inl ''tags: key not found in front-matter''
       else Inr (join [10] (before_fence out_lines @ [tags_stanza new_tags, fence]) @ [10]))"

text \<open>File contents as the reader sees them: text, or bytes that are not UTF-8.\<close>

datatype file_bytes = Utf8 utext | Not_Utf8

definition rewrite_tags :: "file_bytes \<Rightarrow> utext list \<Rightarrow> string + file_bytes" where
  "rewrite_tags bytes new_tags =
    (case bytes of
       Not_Utf8 \<Rightarrow> Inl ''file is not valid UTF-8''
     | Utf8 content \<Rightarrow>
        (case split_front_matter content of
           None \<Rightarrow> Inl ''cannot find front-matter delimiters''
         | Some (fm, body) \<Rightarrow>
            (case replace_tags_in_front_matter fm new_tags of
               Inl e \<Rightarrow> Inl e | Inr new_fm \<Rightarrow> Inr (Utf8 (new_fm @ body)))))"

subsection \<open>Tags (tags.rs)\<close>

definition augment_with_source_tag_for_chunk :: "(utext \<Rightarrow> utext) \<Rightarrow> file_bytes \<Rightarrow> utext list \<Rightarrow> utext list" where
  "augment_with_source_tag_for_chunk lower bytes tags =
    (case bytes of
       Not_Utf8 \<Rightarrow> tags
     | Utf8 text' \<Rightarrow>
        (case split_front_matter text' of
           None \<Rightarrow> tags
         | Some (fm, _) \<Rightarrow>
            (case (case scan_fm_field fm (utext_of ''path_scope'') of
                     Some s \<Rightarrow> Some s | None \<Rightarrow> scan_fm_field fm (utext_of ''source_id'')) of
               None \<Rightarrow> tags
             | Some source_scope \<Rightarrow> with_source_tag lower source_scope tags)))"

definition body_of :: "file_bytes \<Rightarrow> utext option" where
  "body_of bytes = (case bytes of Not_Utf8 \<Rightarrow> None | Utf8 t \<Rightarrow> map_option snd (split_front_matter t))"

definition ensure_tag_rewrite_preserves_body :: "file_bytes \<Rightarrow> file_bytes \<Rightarrow> unit result" where
  "ensure_tag_rewrite_preserves_body old_bytes new_bytes =
    (case (body_of old_bytes, body_of new_bytes) of
       (Some old, Some new) \<Rightarrow> (if old = new then Inr () else
          Inl (plain_error ''tag rewrite would mutate or invalidate the body''))
     | _ \<Rightarrow> Inl (plain_error ''tag rewrite would mutate or invalidate the body''))"

text \<open>
  \<^verbatim>\<open>None\<close> is a missing file; \<^verbatim>\<open>write\<close> is what creating, writing and renaming the temporary file
  gives. The result and the file afterwards.
\<close>

definition update_chunk_tags :: "(utext \<Rightarrow> utext) \<Rightarrow> unit result \<Rightarrow> utext list \<Rightarrow> file_bytes option \<Rightarrow>
    unit result \<times> file_bytes option" where
  "update_chunk_tags lower write tags file =
    (case file of
       None \<Rightarrow> (Inr (), None)
     | Some old_bytes \<Rightarrow>
        (case rewrite_tags old_bytes (augment_with_source_tag_for_chunk lower old_bytes tags) of
           Inl e \<Rightarrow> (Inl (plain_error (''rewrite_tags: '' @ e)), file)
         | Inr new_bytes \<Rightarrow>
            (case ensure_tag_rewrite_preserves_body old_bytes new_bytes of
               Inl e \<Rightarrow> (Inl e, file)
             | Inr _ \<Rightarrow> (case write of Inl e \<Rightarrow> (Inl e, file) | Inr _ \<Rightarrow> (Inr (), Some new_bytes)))))"

fun tag_component_loop :: "utext \<Rightarrow> utext \<Rightarrow> bool \<Rightarrow> utext" where
  "tag_component_loop [] out last_dash = out"
| "tag_component_loop (c # cs) out last_dash =
    (if is_ascii_alphanumeric c \<or> c = 95 then tag_component_loop cs (out @ [c]) False
     else tag_component_loop cs (if last_dash then out else out @ [45]) True)"

definition slugify_tag_kind :: "(utext \<Rightarrow> utext) \<Rightarrow> utext \<Rightarrow> utext" where
  "slugify_tag_kind lower kind =
    (let trimmed = trim_end_char 45 (tag_component_loop (lower kind) [] True)
     in if trimmed = [] then unknown else trimmed)"

fun tag_words :: "(nat \<Rightarrow> bool) \<Rightarrow> utext \<Rightarrow> utext \<Rightarrow> utext list" where
  "tag_words alnum [] current = (if current = [] then [] else [current])"
| "tag_words alnum (c # cs) current =
    (if alnum c \<or> c = 95 then tag_words alnum cs (current @ [c])
     else if current = [] then tag_words alnum cs []
     else current # tag_words alnum cs [])"

definition capitalise :: "(nat \<Rightarrow> utext) \<Rightarrow> utext \<Rightarrow> utext" where
  "capitalise upper s = (case s of [] \<Rightarrow> [] | c # cs \<Rightarrow> upper c @ cs)"

definition slugify_tag_value :: "(nat \<Rightarrow> bool) \<Rightarrow> (nat \<Rightarrow> utext) \<Rightarrow> utext \<Rightarrow> utext" where
  "slugify_tag_value alnum upper v =
    (let joined = join [45] (map (capitalise upper) (tag_words alnum v []))
     in if joined = [] then unknown else joined)"

definition entity_tag :: "(nat \<Rightarrow> bool) \<Rightarrow> (nat \<Rightarrow> utext) \<Rightarrow> (utext \<Rightarrow> utext) \<Rightarrow> utext \<Rightarrow> utext \<Rightarrow> utext" where
  "entity_tag alnum upper lower kind surface =
    slugify_tag_kind lower kind @ [47] @ slugify_tag_value alnum upper surface"

subsection \<open>Scalars come back\<close>

lemma trim_id: "s \<noteq> [] \<Longrightarrow> \<not> is_white (hd s) \<Longrightarrow> \<not> is_white (last s) \<Longrightarrow> trim s = s"
proof -
  assume s: "s \<noteq> []" "\<not> is_white (hd s)" "\<not> is_white (last s)"
  have keep: "dropWhile is_white t = t" if "t \<noteq> []" "\<not> is_white (hd t)" for t using that by (cases t) auto
  show "trim s = s" unfolding trim_def using s by (simp add: keep hd_rev)
qed

lemma unescape_plain: "c \<noteq> 92 \<Longrightarrow> unescape_double_quoted (c # cs) = c # unescape_double_quoted cs"
  by (cases cs) simp_all

lemma unescape_escape: "unescape_double_quoted (concat (map escape_char s)) = s"
proof (induction s)
  case (Cons c s)
  then show ?case by (simp add: escape_char_def decode_escape_def unescape_plain)
qed simp

lemma strip_prefix_iff: "strip_prefix p s = Some r \<longleftrightarrow> s = p @ r"
  by (auto simp: strip_prefix_def) (metis append_take_drop_id)

lemma strip_prefix_append [simp]: "strip_prefix p (p @ r) = Some r"
  by (simp add: strip_prefix_iff)

lemma strip_suffix_append [simp]: "strip_suffix p (r @ p) = Some r"
  by (simp add: strip_suffix_def)

lemma field_value_yaml: "field_value (yaml_scalar s) = s"
proof (cases "needs_quoting s")
  case True
  let ?e = "concat (map escape_char s)"
  have y: "yaml_scalar s = [34] @ ?e @ [34]" using True by (simp add: yaml_scalar_def)
  have "trim ([34] @ ?e @ [34]) = [34] @ ?e @ [34]" by (rule trim_id) (simp_all add: is_white_def)
  moreover have "strip_prefix [34] ([34] @ ?e @ [34]) = Some (?e @ [34])" by (rule strip_prefix_append)
  ultimately show ?thesis unfolding y field_value_def Let_def by (simp only: option.case strip_suffix_append unescape_escape)
next
  case False
  then have "trim s = s" "34 \<notin> set s" by (auto simp: needs_quoting_def list_ex_iff)
  moreover have "strip_prefix [34] s = None" using \<open>34 \<notin> set s\<close> by (cases s) (auto simp: strip_prefix_def)
  ultimately show ?thesis using False by (simp add: yaml_scalar_def field_value_def)
qed

definition one_line :: "utext \<Rightarrow> bool" where
  "one_line l \<longleftrightarrow> 10 \<notin> set l \<and> 13 \<notin> set l"

lemma one_line_simps [simp]:
  "one_line []" "one_line (a @ b) \<longleftrightarrow> one_line a \<and> one_line b" "one_line (c # a) \<longleftrightarrow> c \<noteq> 10 \<and> c \<noteq> 13 \<and> one_line a"
  by (auto simp: one_line_def)

lemma one_line_yaml [simp]: "one_line (yaml_scalar s)"
proof (cases "needs_quoting s")
  case True
  then show ?thesis by (auto simp: yaml_scalar_def one_line_def escape_char_def split: if_splits)
next
  case False
  then have "\<not> list_ex is_control s" by (simp add: needs_quoting_def)
  then show ?thesis using False by (auto simp: yaml_scalar_def one_line_def list_ex_iff is_control_def)
qed

lemma yaml_not_Nil: "yaml_scalar s \<noteq> []"
  by (simp add: yaml_scalar_def needs_quoting_def)

subsection \<open>Lines come back\<close>

lemma split_unlines: "\<forall>l\<in>set ls. 10 \<notin> set l \<Longrightarrow> split_at 10 (unlines ls) = ls @ [[]]"
  by (induction ls) (simp_all add: unlines_def split_at_append)

lemma strip_cr_id [simp]: "13 \<notin> set l \<Longrightarrow> strip_cr l = l"
  by (metis last_in_set strip_cr_def)

lemma lines_unlines: "\<forall>l\<in>set ls. one_line l \<Longrightarrow> lines_of (unlines ls) = ls"
proof -
  assume "\<forall>l\<in>set ls. one_line l"
  then have "split_at 10 (unlines ls) = ls @ [[]]" "map strip_cr ls = ls"
    using split_unlines by (simp_all add: one_line_def map_idI)
  then show ?thesis by (simp add: lines_of_def)
qed

lemma find_sub_skip:
  "10 \<notin> set l \<Longrightarrow> find_sub (10 # p) (l @ s) = map_option (\<lambda>i. length l + i) (find_sub (10 # p) s)"
  by (induction l) (cases "find_sub (10 # p) s"; simp)+

lemma take_line:
  assumes "10 \<notin> set l" and "l \<noteq> fence" shows "take 4 (l @ 10 # s) \<noteq> fence @ [10]"
proof
  assume t: "take 4 (l @ 10 # s) = fence @ [10]"
  define r where "r = drop 4 (l @ 10 # s)"
  have "l @ 10 # s = (fence @ [10]) @ r" unfolding r_def using t by (metis append_take_drop_id)
  then have "l @ 10 # s = fence @ 10 # r" by simp
  then have "l = fence" using append_sep_eq [of l 10 s fence r] assms(1) by (simp add: fence_def)
  then show False using assms(2) by simp
qed

lemma find_sub_miss: "take (length p) s \<noteq> p \<Longrightarrow> find_sub (c # p) (c # s) = map_option Suc (find_sub (c # p) s)"
  by simp

lemma find_fence:
  assumes "\<forall>l\<in>set ls. 10 \<notin> set l \<and> l \<noteq> fence" and "ls \<noteq> []"
  shows "find_sub ([10] @ fence @ [10]) (unlines ls @ fence @ 10 # body) = Some (length (unlines ls) - 1)"
  using assms
proof (induction ls)
  case (Cons l ls)
  let ?p = "fence @ [10]" and ?rest = "unlines ls @ fence @ 10 # body"
  have head: "unlines (l # ls) @ fence @ 10 # body = l @ 10 # ?rest" by (simp add: unlines_def)
  have skip: "find_sub (10 # ?p) (l @ 10 # ?rest) = map_option (\<lambda>i. length l + i) (find_sub (10 # ?p) (10 # ?rest))"
    by (rule find_sub_skip) (use Cons.prems in simp)
  have len: "length (unlines (l # ls)) = length l + 1 + length (unlines ls)" by (simp add: unlines_def)
  show ?case
  proof (cases ls)
    case Nil
    have "find_sub (10 # ?p) (10 # ?rest) = Some 0" by (simp add: Nil unlines_def fence_def)
    then show ?thesis using skip len unfolding head by (simp add: Nil unlines_def)
  next
    case (Cons l' ls')
    then have "take 4 ?rest \<noteq> ?p"
      using take_line [of l' "unlines ls' @ fence @ 10 # body"] Cons.prems by (simp add: unlines_def)
    moreover have "length ?p = 4" by (simp add: fence_def)
    ultimately have "find_sub (10 # ?p) (10 # ?rest) = map_option Suc (find_sub (10 # ?p) ?rest)"
      using find_sub_miss [of ?p ?rest 10] by simp
    also have "find_sub (10 # ?p) ?rest = Some (length (unlines ls) - 1)" using Cons.IH Cons.prems Cons by simp
    finally have f: "find_sub (10 # ?p) (10 # ?rest) = Some (Suc (length (unlines ls) - 1))" by simp
    have "0 < length (unlines ls)" by (simp add: Cons unlines_def)
    then show ?thesis using skip f len unfolding head by simp
  qed
qed simp

lemma split_composed:
  assumes "\<forall>l\<in>set ls. 10 \<notin> set l \<and> l \<noteq> fence" and "ls \<noteq> []"
  shows "split_front_matter (unlines ([fence] @ ls @ [fence]) @ body) = Some (unlines ([fence] @ ls @ [fence]), body)"
proof -
  let ?c = "unlines ([fence] @ ls @ [fence]) @ body" and ?n = "length (unlines ls)"
  have c: "?c = (fence @ [10]) @ (unlines ls @ fence @ 10 # body)" by (simp add: unlines_def)
  have pos: "0 < ?n" using assms(2) by (cases ls) (simp_all add: unlines_def)
  have four: "length (fence @ [10]) = 4" by (simp add: fence_def)
  have t: "take 4 ?c = fence @ [10]" "drop 4 ?c = unlines ls @ fence @ 10 # body"
    unfolding c using four by (metis append_eq_conv_conj)+
  have "4 + (?n - 1) + 5 = length (unlines ([fence] @ ls @ [fence]))" using pos by (simp add: unlines_def fence_def)
  then have "take (4 + (?n - 1) + 5) ?c = unlines ([fence] @ ls @ [fence])" "drop (4 + (?n - 1) + 5) ?c = body"
    by (simp_all only: take_append drop_append take_all drop_all order_refl diff_self_eq_0 take_0 drop_0 append_Nil append_Nil2)
  then show ?thesis
    unfolding split_front_matter_def t Let_def find_fence [OF assms] by simp
qed

subsection \<open>Scanning fields\<close>

lemma utext_inj: "utext_of a = utext_of b \<longleftrightarrow> a = b"
  unfolding utext_of_def by (rule inj_map_eq_map) (rule injI, simp only: of_char_eq_iff)

lemma utext_mem: "(of_char c :: nat) \<in> set (utext_of w) \<longleftrightarrow> c \<in> set w"
  unfolding utext_of_def set_map by (metis (no_types, lifting) imageE image_eqI of_char_eq_iff)

lemma utext_colon: "58 \<in> set (utext_of w) \<longleftrightarrow> CHR '':'' \<in> set w"
  using utext_mem [of "CHR '':''" w] by simp

lemma utext_lf: "10 \<in> set (utext_of w) \<longleftrightarrow> CHR 0x0A \<in> set w"
  using utext_mem [of "CHR 0x0A" w] by simp

lemma utext_cr: "13 \<in> set (utext_of w) \<longleftrightarrow> CHR 0x0D \<in> set w"
  using utext_mem [of "CHR 0x0D" w] by simp

lemma strip_prefix_field:
  assumes "CHR '':'' \<notin> set k" and "CHR '':'' \<notin> set key"
  shows "strip_prefix (utext_of key @ [58, 32]) (field k v) = (if k = key then Some v else None)"
proof -
  have "k = key \<and> v = r" if "strip_prefix (utext_of key @ [58, 32]) (field k v) = Some r" for r
  proof -
    have "utext_of k @ 58 # 32 # v = utext_of key @ 58 # 32 # r"
      using that by (simp add: strip_prefix_iff field_def)
    then have "utext_of k = utext_of key \<and> 32 # v = 32 # r"
      using append_sep_eq [of "utext_of k" 58 "32 # v" "utext_of key" "32 # r"] assms by (simp add: utext_colon)
    then show ?thesis by (simp add: utext_inj)
  qed
  moreover have "strip_prefix (utext_of key @ [58, 32]) (field key v) = Some v"
    by (simp add: strip_prefix_iff field_def)
  ultimately show ?thesis by (cases "strip_prefix (utext_of key @ [58, 32]) (field k v)") auto
qed

text \<open>A key of the front matter: no colon, not starting with a blank.\<close>

definition plain_key :: "string \<Rightarrow> bool" where
  "plain_key k \<longleftrightarrow> CHR '':'' \<notin> set k \<and> k \<noteq> [] \<and> hd k \<noteq> CHR '' '' \<and> hd k \<noteq> CHR 0x09"

lemma plain_key_start: "plain_key k \<Longrightarrow> take 1 (field k v) \<noteq> [32] \<and> take 1 (field k v) \<noteq> [9]"
proof -
  assume k: "plain_key k"
  then obtain c k' where c: "k = c # k'" "c \<noteq> CHR '' ''" "c \<noteq> CHR 0x09" by (cases k) (auto simp: plain_key_def)
  have "(32 :: nat) = of_char (CHR '' '')" "(9 :: nat) = of_char (CHR 0x09)" by simp_all
  then have "(of_char c :: nat) \<noteq> 32" "(of_char c :: nat) \<noteq> 9" using c(2,3) by (metis of_char_eq_iff)+
  then show ?thesis by (simp add: field_def utext_of_def c(1))
qed

lemma scan_fields:
  assumes "\<forall>(k, v)\<in>set kvs. plain_key k" and "plain_key key"
  shows "scan_lines (utext_of key @ [58, 32]) (field_lines kvs @ rest) =
    (case map_of kvs key of Some v \<Rightarrow> Some (field_value v) | None \<Rightarrow> scan_lines (utext_of key @ [58, 32]) rest)"
  using assms(1)
proof (induction kvs)
  case (Cons kv kvs)
  obtain k v where kv: "kv = (k, v)" by (cases kv)
  then have k: "plain_key k" using Cons.prems by simp
  then show ?case
    using Cons assms(2) plain_key_start [OF k, of v] strip_prefix_field [of k key v]
    by (auto simp: field_lines_def kv plain_key_def)
qed (simp add: field_lines_def)

text \<open>Lines no key is found on: items, and lines with no colon but for a last one.\<close>

definition keyless :: "utext \<Rightarrow> bool" where
  "keyless l \<longleftrightarrow> take 1 l = [32] \<or> 58 \<notin> set (butlast l)"

lemma keyless_no_prefix:
  assumes "keyless l" and "take 1 l \<noteq> [32]" shows "strip_prefix (utext_of key @ [58, 32]) l = None"
proof (rule ccontr)
  assume "strip_prefix (utext_of key @ [58, 32]) l \<noteq> None"
  then obtain r where "l = utext_of key @ 58 # 32 # r" by (auto simp: strip_prefix_iff)
  then have "58 \<in> set (butlast l)" by (simp add: butlast_append)
  then show False using assms by (simp add: keyless_def)
qed

lemma scan_skip: "\<forall>l\<in>set ls. keyless l \<Longrightarrow> scan_lines (utext_of key @ [58, 32]) ls = None"
proof (induction ls)
  case (Cons l ls)
  then have "keyless l" "scan_lines (utext_of key @ [58, 32]) ls = None" by simp_all
  then show ?case using keyless_no_prefix [of l key] by (cases "take 1 l = [32]") simp_all
qed simp

subsection \<open>Composed files\<close>

definition tail_lines :: "content_chunk \<Rightarrow> utext list" where
  "tail_lines chunk = email_lines (cc_metadata chunk) (cc_seq_in_source chunk)"

lemma chunk_fields_plain: "\<forall>(k, v)\<in>set (chunk_fields kind_str rfc chunk). plain_key k"
  by (auto simp: chunk_fields_def optional_field_def plain_key_def Let_def split: option.splits)

lemma show_u_one_line [simp]: "one_line (show_u n)"
proof -
  have "set (show_nat n) \<subseteq> set ''0123456789''" by (rule show_nat_digits)
  then show ?thesis by (auto simp: one_line_def show_u_def utext_of_def subset_iff)
qed

lemma one_line_utext: "one_line (utext_of k) \<longleftrightarrow> CHR 0x0A \<notin> set k \<and> CHR 0x0D \<notin> set k"
  by (simp add: one_line_def utext_lf utext_cr)

lemma one_line_field: "one_line (field k v) \<longleftrightarrow> one_line (utext_of k) \<and> one_line v"
  by (simp add: field_def)

lemma one_line_item: "one_line (item v) \<longleftrightarrow> one_line v"
  by (simp add: item_def one_line_utext)

lemma optional_field_one_line: "one_line (utext_of key) \<Longrightarrow> \<forall>(k, v)\<in>set (optional_field key u). one_line (field k v)"
  by (cases u) (simp_all add: optional_field_def one_line_field)

lemma chunk_fields_one_line:
  assumes "\<forall>k. one_line (kind_str k)" and "\<forall>t. one_line (rfc t)"
  shows "\<forall>l\<in>set (field_lines (chunk_fields kind_str rfc chunk)). one_line l"
proof -
  have "\<forall>(k, v)\<in>set (chunk_fields kind_str rfc chunk). one_line (field k v)"
    using optional_field_one_line [of "''path_scope''"] optional_field_one_line [of "''source_ref''"] assms
    unfolding chunk_fields_def Let_def by (simp add: one_line_field one_line_utext ball_Un)
  then show ?thesis by (auto simp: field_lines_def)
qed

lemma tail_lines_cases:
  "tail_lines chunk = [] \<or> (\<exists>addrs label. tail_lines chunk = [utext_of ''participants:''] @ map (\<lambda>a. item (yaml_scalar a)) addrs @
     [utext_of ''aliases:'', item (yaml_scalar label)])"
proof (cases "cm_source_kind (cc_metadata chunk) = Kind_Email")
  case True
  note email = email_lines_def [of "cc_metadata chunk" "cc_seq_in_source chunk", unfolded if_P [OF True]]
  show ?thesis
  proof (cases "parse_gmail_participants_source_id (cm_source_id (cc_metadata chunk))")
    case (Some addrs)
    show ?thesis unfolding tail_lines_def email Some option.case by (intro disjI2 exI) (rule refl)
  next
    case None
    show ?thesis unfolding tail_lines_def email None option.case by (rule disjI1) (rule refl)
  qed
next
  case False
  then show ?thesis by (simp add: tail_lines_def email_lines_def)
qed

lemma email_lines_one_line: "\<forall>l\<in>set (tail_lines chunk). one_line l"
  using tail_lines_cases [of chunk]
proof
  assume "\<exists>addrs label. tail_lines chunk = [utext_of ''participants:''] @ map (\<lambda>a. item (yaml_scalar a)) addrs @
     [utext_of ''aliases:'', item (yaml_scalar label)]"
  then obtain addrs label where t: "tail_lines chunk = [utext_of ''participants:''] @ map (\<lambda>a. item (yaml_scalar a)) addrs @
     [utext_of ''aliases:'', item (yaml_scalar label)]" by blast
  show ?thesis unfolding t by (simp add: one_line_item one_line_utext ball_Un)
qed simp

lemma tag_lines_one_line: "\<forall>l\<in>set (tag_lines tags). one_line l"
  by (simp add: tag_lines_def one_line_item one_line_utext)

lemma not_fence: "take 1 l \<noteq> [45] \<Longrightarrow> l \<noteq> fence"
  by (auto simp: fence_def)

lemma field_not_fence: "field k v \<noteq> fence"
proof -
  have "58 \<in> set (field k v)" by (simp add: field_def)
  then show ?thesis by (auto simp: fence_def)
qed

lemma item_not_fence: "item v \<noteq> fence"
  by (rule not_fence) (simp add: item_def utext_of_def)

lemma head_not_fence:
  "utext_of ''tags:'' \<noteq> fence" "utext_of ''tags: []'' \<noteq> fence" "utext_of ''participants:'' \<noteq> fence"
  "utext_of ''aliases:'' \<noteq> fence"
  by (simp_all add: fence_def utext_of_def)

lemma tail_not_fence: "\<forall>l\<in>set (tail_lines chunk). l \<noteq> fence"
  using tail_lines_cases [of chunk]
proof
  assume "\<exists>addrs label. tail_lines chunk = [utext_of ''participants:''] @ map (\<lambda>a. item (yaml_scalar a)) addrs @
     [utext_of ''aliases:'', item (yaml_scalar label)]"
  then obtain addrs label where t: "tail_lines chunk = [utext_of ''participants:''] @ map (\<lambda>a. item (yaml_scalar a)) addrs @
     [utext_of ''aliases:'', item (yaml_scalar label)]" by blast
  show ?thesis unfolding t by (simp add: item_not_fence head_not_fence ball_Un)
qed simp

lemma inner_not_fence:
  "\<forall>l\<in>set (field_lines kvs @ tag_lines tags @ tail_lines chunk). l \<noteq> fence"
  using tail_not_fence [of chunk]
  by (simp add: field_lines_def tag_lines_def field_not_fence item_not_fence head_not_fence ball_Un case_prod_unfold)

lemma chunk_inner:
  assumes "\<forall>k. one_line (kind_str k)" and "\<forall>t. one_line (rfc t)"
    and "ls = field_lines (chunk_fields kind_str rfc chunk) @ tag_lines tags @ tail_lines chunk"
  shows "\<forall>l\<in>set ls. 10 \<notin> set l \<and> l \<noteq> fence" and "\<forall>l\<in>set ([fence] @ ls @ [fence]). one_line l" and "ls \<noteq> []"
proof -
  have one: "\<forall>l\<in>set ls. one_line l"
    unfolding assms(3) using chunk_fields_one_line [OF assms(1,2)] tag_lines_one_line email_lines_one_line by auto
  then show "\<forall>l\<in>set ls. 10 \<notin> set l \<and> l \<noteq> fence" using inner_not_fence unfolding assms(3) one_line_def by blast
  show "\<forall>l\<in>set ([fence] @ ls @ [fence]). one_line l" using one by (auto simp: fence_def)
  show "ls \<noteq> []" by (simp add: assms(3) tag_lines_def)
qed

lemma scan_composed:
  assumes "\<forall>k. one_line (kind_str k)" and "\<forall>t. one_line (rfc t)"
    and "ls = field_lines (chunk_fields kind_str rfc chunk) @ more_lines"
    and "\<forall>l\<in>set ([fence] @ ls @ [fence]). one_line l" and "plain_key key"
    and "\<forall>l\<in>set more_lines. keyless l"
  shows "scan_fm_field (unlines ([fence] @ ls @ [fence])) (utext_of key) =
    map_option field_value (map_of (chunk_fields kind_str rfc chunk) key)"
proof -
  let ?pre = "utext_of key @ [58, 32]"
  have f: "keyless fence" "take 1 fence = [45]" by (simp_all add: fence_def keyless_def)
  then have "strip_prefix ?pre fence = None" using keyless_no_prefix [of fence key] by simp
  then have "scan_fm_field (unlines ([fence] @ ls @ [fence])) (utext_of key) = scan_lines ?pre (ls @ [fence])"
    unfolding scan_fm_field_def lines_unlines [OF assms(4)] using f(2) by simp
  also have "\<dots> = (case map_of (chunk_fields kind_str rfc chunk) key of Some v \<Rightarrow> Some (field_value v)
      | None \<Rightarrow> scan_lines ?pre (more_lines @ [fence]))"
    unfolding assms(3) append_assoc by (rule scan_fields [OF chunk_fields_plain assms(5)])
  also have "scan_lines ?pre (more_lines @ [fence]) = None"
    by (rule scan_skip) (use assms(6) f(1) in auto)
  finally show ?thesis by (cases "map_of (chunk_fields kind_str rfc chunk) key") simp_all
qed

text \<open>The two orders of a chunk's last lines: as composed, and as a tag rewrite leaves them.\<close>

definition last_lines :: "content_chunk \<Rightarrow> utext list \<Rightarrow> utext list \<Rightarrow> bool" where
  "last_lines chunk tags ls \<longleftrightarrow> ls = tag_lines tags @ tail_lines chunk \<or> ls = tail_lines chunk @ tag_lines tags"

definition chunk_fm :: "(source_kind \<Rightarrow> utext) \<Rightarrow> (int \<Rightarrow> utext) \<Rightarrow> content_chunk \<Rightarrow> utext list \<Rightarrow> utext" where
  "chunk_fm kind_str rfc chunk ls =
    unlines ([fence] @ (field_lines (chunk_fields kind_str rfc chunk) @ ls) @ [fence])"

lemma keyless_tags: "\<forall>l\<in>set (tag_lines tags). keyless l"
  by (simp add: tag_lines_def keyless_def item_def utext_of_def)

lemma keyless_tail: "\<forall>l\<in>set (tail_lines chunk). keyless l"
  using tail_lines_cases [of chunk]
proof
  assume "\<exists>addrs label. tail_lines chunk = [utext_of ''participants:''] @ map (\<lambda>a. item (yaml_scalar a)) addrs @
     [utext_of ''aliases:'', item (yaml_scalar label)]"
  then obtain addrs label where t: "tail_lines chunk = [utext_of ''participants:''] @ map (\<lambda>a. item (yaml_scalar a)) addrs @
     [utext_of ''aliases:'', item (yaml_scalar label)]" by blast
  show ?thesis unfolding t by (simp add: keyless_def item_def utext_of_def ball_Un)
qed simp

lemma last_lines_keyless: "last_lines chunk tags ls \<Longrightarrow> \<forall>l\<in>set ls. keyless l"
  using keyless_tags [of tags] keyless_tail [of chunk] by (auto simp: last_lines_def)

lemma last_lines_inner:
  assumes "\<forall>k. one_line (kind_str k)" and "\<forall>t. one_line (rfc t)" and "last_lines chunk tags ls"
  shows "\<forall>l\<in>set (field_lines (chunk_fields kind_str rfc chunk) @ ls). 10 \<notin> set l \<and> l \<noteq> fence"
    and "\<forall>l\<in>set ([fence] @ (field_lines (chunk_fields kind_str rfc chunk) @ ls) @ [fence]). one_line l"
    and "field_lines (chunk_fields kind_str rfc chunk) @ ls \<noteq> []"
proof -
  let ?f = "field_lines (chunk_fields kind_str rfc chunk)"
  have same: "set (?f @ ls) = set (?f @ tag_lines tags @ tail_lines chunk)"
    using assms(3) by (auto simp: last_lines_def)
  note inner = chunk_inner [OF assms(1,2) refl, of chunk tags]
  show "\<forall>l\<in>set (?f @ ls). 10 \<notin> set l \<and> l \<noteq> fence" unfolding same by (rule inner(1))
  have "set ([fence] @ (?f @ ls) @ [fence]) = set ([fence] @ (?f @ tag_lines tags @ tail_lines chunk) @ [fence])"
    using same by simp
  then show "\<forall>l\<in>set ([fence] @ (?f @ ls) @ [fence]). one_line l" using inner(2) by simp
  show "?f @ ls \<noteq> []" using inner(3) same by (metis set_empty)
qed

lemma chunk_fm_split:
  assumes "\<forall>k. one_line (kind_str k)" and "\<forall>t. one_line (rfc t)" and "last_lines chunk tags ls"
  shows "split_front_matter (chunk_fm kind_str rfc chunk ls @ body) = Some (chunk_fm kind_str rfc chunk ls, body)"
  unfolding chunk_fm_def
  by (rule split_composed) (rule last_lines_inner [OF assms])+

lemma chunk_fm_lines:
  assumes "\<forall>k. one_line (kind_str k)" and "\<forall>t. one_line (rfc t)" and "last_lines chunk tags ls"
  shows "lines_of (chunk_fm kind_str rfc chunk ls) = fence # field_lines (chunk_fields kind_str rfc chunk) @ ls @ [fence]"
  unfolding chunk_fm_def using lines_unlines [OF last_lines_inner(2) [OF assms]] by simp

lemma chunk_fm_scan:
  assumes "\<forall>k. one_line (kind_str k)" and "\<forall>t. one_line (rfc t)" and "last_lines chunk tags ls" and "plain_key key"
  shows "scan_fm_field (chunk_fm kind_str rfc chunk ls) (utext_of key) =
    map_option field_value (map_of (chunk_fields kind_str rfc chunk) key)"
  unfolding chunk_fm_def
  by (rule scan_composed [OF assms(1,2) refl last_lines_inner(2) [OF assms(1-3)] assms(4) last_lines_keyless [OF assms(3)]])

lemma chunk_fields_lookup:
  "map_option field_value (map_of (chunk_fields kind_str rfc chunk) ''source_id'') = Some (cm_source_id (cc_metadata chunk))"
  "map_option field_value (map_of (chunk_fields kind_str rfc chunk) ''owner'') = Some (cm_owner (cc_metadata chunk))"
  "map_option field_value (map_of (chunk_fields kind_str rfc chunk) ''path_scope'') = cm_path_scope (cc_metadata chunk)"
  "map_option field_value (map_of (chunk_fields kind_str rfc chunk) ''source_ref'') = cm_source_ref (cc_metadata chunk)"
proof -
  have opt: "map_of (optional_field key u) key' = (if key' = key then map_option yaml_scalar u else None)" for key key' u
    by (cases u) (simp_all add: optional_field_def)
  note fields = chunk_fields_def Let_def map_of_append map_add_def opt
  show "map_option field_value (map_of (chunk_fields kind_str rfc chunk) ''source_id'') = Some (cm_source_id (cc_metadata chunk))"
    by (simp add: fields field_value_yaml)
  show "map_option field_value (map_of (chunk_fields kind_str rfc chunk) ''owner'') = Some (cm_owner (cc_metadata chunk))"
    by (simp add: fields field_value_yaml)
  show "map_option field_value (map_of (chunk_fields kind_str rfc chunk) ''path_scope'') = cm_path_scope (cc_metadata chunk)"
    by (cases "cm_path_scope (cc_metadata chunk)") (simp_all add: fields field_value_yaml)
  show "map_option field_value (map_of (chunk_fields kind_str rfc chunk) ''source_ref'') = cm_source_ref (cc_metadata chunk)"
    by (cases "cm_source_ref (cc_metadata chunk)") (simp_all add: fields field_value_yaml)
qed

lemma scan_keys [simp]:
  "plain_key ''source_id''" "plain_key ''owner''" "plain_key ''path_scope''" "plain_key ''source_ref''"
  by (simp_all add: plain_key_def)

text \<open>What a reader finds in the front matter of a chunk's file.\<close>

definition reads_back :: "content_chunk \<Rightarrow> utext \<Rightarrow> bool" where
  "reads_back chunk fm \<longleftrightarrow>
     scan_fm_field fm (utext_of ''source_id'') = Some (cm_source_id (cc_metadata chunk)) \<and>
     scan_fm_field fm (utext_of ''owner'') = Some (cm_owner (cc_metadata chunk)) \<and>
     scan_fm_field fm (utext_of ''path_scope'') = cm_path_scope (cc_metadata chunk) \<and>
     scan_fm_field fm (utext_of ''source_ref'') = cm_source_ref (cc_metadata chunk)"

lemma chunk_fm_reads_back:
  assumes "\<forall>k. one_line (kind_str k)" and "\<forall>t. one_line (rfc t)" and "last_lines chunk tags ls"
  shows "reads_back chunk (chunk_fm kind_str rfc chunk ls)"
  by (simp add: reads_back_def chunk_fm_scan [OF assms] chunk_fields_lookup)

lemma compose_chunk_fm:
  "build_front_matter kind_str rfc lower chunk = chunk_fm kind_str rfc chunk
     (tag_lines (with_source_tag lower (chunk_scope chunk) (cm_tags (cc_metadata chunk))) @ tail_lines chunk)"
  by (simp add: build_front_matter_def chunk_fm_def tail_lines_def)

text \<open>
  A composed chunk file splits back into its front matter and the chunk's content, byte for byte,
  and scanning the front matter gives back the source id, the owner, the path scope and the source
  reference, whatever characters these hold: quotes, line feeds, colons, fences or nothing at all.
\<close>
theorem chunk_file_roundtrip:
  assumes "\<forall>k. one_line (kind_str k)" and "\<forall>t. one_line (rfc t)"
  shows "split_front_matter (fst (compose_chunk_file kind_str rfc lower chunk)) =
      Some (build_front_matter kind_str rfc lower chunk, cc_content chunk) \<and>
    snd (compose_chunk_file kind_str rfc lower chunk) = cc_content chunk \<and>
    reads_back chunk (build_front_matter kind_str rfc lower chunk)"
proof -
  define tags where "tags = with_source_tag lower (chunk_scope chunk) (cm_tags (cc_metadata chunk))"
  have l: "last_lines chunk tags (tag_lines tags @ tail_lines chunk)" by (simp add: last_lines_def)
  show ?thesis
    using chunk_fm_split [OF assms l] chunk_fm_reads_back [OF assms l]
    by (simp add: compose_chunk_file_def compose_chunk_fm tags_def)
qed

theorem chunk_file_roundtrip_witness:
  "reads_back \<lparr>cc_metadata = \<lparr>cm_source_kind = Kind_Chat, cm_source_id = utext_of ''a: b'', cm_path_scope = None,
      cm_owner = [10, 45, 45, 45], cm_timestamp = 0, cm_time_range = (0, 0), cm_tags = [], cm_source_ref = Some []\<rparr>,
      cc_content = [45, 45, 45, 10], cc_seq_in_source = 0\<rparr>
    (build_front_matter (\<lambda>k. utext_of ''chat'') (\<lambda>t. utext_of ''now'') (\<lambda>s. s)
      \<lparr>cc_metadata = \<lparr>cm_source_kind = Kind_Chat, cm_source_id = utext_of ''a: b'', cm_path_scope = None,
        cm_owner = [10, 45, 45, 45], cm_timestamp = 0, cm_time_range = (0, 0), cm_tags = [], cm_source_ref = Some []\<rparr>,
       cc_content = [45, 45, 45, 10], cc_seq_in_source = 0\<rparr>)"
  by (rule conjunct2 [OF conjunct2 [OF chunk_file_roundtrip]]) (simp_all add: one_line_utext)

subsection \<open>Tag rewrites\<close>

lemma strip_tags_skip:
  assumes "\<forall>l\<in>set ls. l \<noteq> utext_of ''tags:'' \<and> l \<noteq> utext_of ''tags: []''"
  shows "strip_tags (ls @ rest) = (ls @ fst (strip_tags rest), snd (strip_tags rest))"
  using assms by (induction ls) (simp_all add: case_prod_unfold)

lemma utext_tags: "utext_of ''tags:'' = utext_of ''tags'' @ 58 # []" "utext_of ''tags: []'' = utext_of ''tags'' @ 58 # 32 # [91, 93]"
  by (simp_all add: utext_of_def)

lemma field_not_tags:
  assumes "plain_key k" and "k \<noteq> ''tags''"
  shows "field k v \<noteq> utext_of ''tags:'' \<and> field k v \<noteq> utext_of ''tags: []''"
proof -
  have c: "58 \<notin> set (utext_of k)" "58 \<notin> set (utext_of ''tags'')" using assms(1) by (simp_all add: plain_key_def utext_colon)
  have "utext_of k \<noteq> utext_of ''tags''" using assms(2) by (simp add: utext_inj)
  then have "utext_of k @ 58 # r \<noteq> utext_of ''tags'' @ 58 # q" for r q
    using append_sep_eq [of "utext_of k" 58 r "utext_of ''tags''" q] c by blast
  then show ?thesis unfolding utext_tags field_def by simp
qed

lemma chunk_fields_not_tags: "\<forall>(k, v)\<in>set (chunk_fields kind_str rfc chunk). k \<noteq> ''tags''"
  by (auto simp: chunk_fields_def optional_field_def Let_def split: option.splits)

lemma fields_not_tags:
  "\<forall>l\<in>set (fence # field_lines (chunk_fields kind_str rfc chunk)). l \<noteq> utext_of ''tags:'' \<and> l \<noteq> utext_of ''tags: []''"
proof -
  have "\<forall>(k, v)\<in>set (chunk_fields kind_str rfc chunk). field k v \<noteq> utext_of ''tags:'' \<and> field k v \<noteq> utext_of ''tags: []''"
    using chunk_fields_plain [of kind_str rfc chunk] chunk_fields_not_tags [of kind_str rfc chunk] field_not_tags by fast
  moreover have "fence \<noteq> utext_of ''tags:''" "fence \<noteq> utext_of ''tags: []''" using head_not_fence by metis+
  ultimately show ?thesis by (auto simp: field_lines_def)
qed

lemma tail_not_tags: "\<forall>l\<in>set (tail_lines chunk @ [fence]). l \<noteq> utext_of ''tags:'' \<and> l \<noteq> utext_of ''tags: []''"
proof -
  have f: "fence \<noteq> utext_of ''tags:''" "fence \<noteq> utext_of ''tags: []''" using head_not_fence by metis+
  have i: "item v \<noteq> utext_of ''tags:''" "item v \<noteq> utext_of ''tags: []''" for v by (simp_all add: item_def utext_of_def)
  have h: "utext_of ''participants:'' \<noteq> utext_of ''tags:''" "utext_of ''participants:'' \<noteq> utext_of ''tags: []''"
    "utext_of ''aliases:'' \<noteq> utext_of ''tags:''" "utext_of ''aliases:'' \<noteq> utext_of ''tags: []''"
    by (simp_all add: utext_inj)
  show ?thesis
    using tail_lines_cases [of chunk]
  proof
    assume "\<exists>addrs label. tail_lines chunk = [utext_of ''participants:''] @ map (\<lambda>a. item (yaml_scalar a)) addrs @
       [utext_of ''aliases:'', item (yaml_scalar label)]"
    then obtain addrs label where t: "tail_lines chunk = [utext_of ''participants:''] @ map (\<lambda>a. item (yaml_scalar a)) addrs @
       [utext_of ''aliases:'', item (yaml_scalar label)]" by blast
    show ?thesis unfolding t by (simp add: f i h ball_Un)
  qed (simp add: f)
qed

lemma drop_items: "dropWhile is_item_line (map (\<lambda>t. item (yaml_scalar t)) tags @ rest) = dropWhile is_item_line rest"
  by (induction tags) (simp_all add: is_item_line_def item_def utext_of_def)

lemma drop_items_tail: "dropWhile is_item_line (tail_lines chunk @ [fence]) = tail_lines chunk @ [fence]"
  using tail_lines_cases [of chunk] by (auto simp: is_item_line_def utext_of_def fence_def)

lemma strip_tags_block:
  "strip_tags (tag_lines tags @ rest) = (fst (strip_tags (dropWhile is_item_line rest)), True)"
  by (simp add: tag_lines_def drop_items utext_inj)

lemma strip_chunk_lines:
  assumes "last_lines chunk tags ls"
  shows "strip_tags (fence # field_lines (chunk_fields kind_str rfc chunk) @ ls @ [fence]) =
    (fence # field_lines (chunk_fields kind_str rfc chunk) @ tail_lines chunk @ [fence], True)"
proof -
  let ?f = "fence # field_lines (chunk_fields kind_str rfc chunk)"
  have tail: "strip_tags (tail_lines chunk @ rest) = (tail_lines chunk @ fst (strip_tags rest), snd (strip_tags rest))" for rest
    by (rule strip_tags_skip) (use tail_not_tags in simp)
  have f: "fence \<noteq> utext_of ''tags:''" "fence \<noteq> utext_of ''tags: []''" using head_not_fence by metis+
  have nil: "strip_tags [fence] = ([fence], False)" by (simp add: f)
  have item: "\<not> is_item_line fence" by (simp add: is_item_line_def fence_def utext_of_def)
  have "strip_tags (ls @ [fence]) = (tail_lines chunk @ [fence], True)"
    using assms unfolding last_lines_def
  proof
    assume "ls = tag_lines tags @ tail_lines chunk"
    then show ?thesis by (simp add: strip_tags_block drop_items_tail tail f)
  next
    assume "ls = tail_lines chunk @ tag_lines tags"
    then show ?thesis by (simp add: strip_tags_block tail item f)
  qed
  then show ?thesis
    using strip_tags_skip [OF fields_not_tags, of kind_str rfc chunk "ls @ [fence]"] by (simp only: append_Cons fst_conv snd_conv append_assoc)
qed

lemma join_unlines: "ls \<noteq> [] \<Longrightarrow> join [10] ls @ [10] = unlines ls"
proof (induction ls)
  case (Cons l ls)
  then show ?case by (cases ls) (simp_all add: unlines_def)
qed simp

lemma before_fence_last: "before_fence (ls @ [fence]) = ls"
  by (simp add: before_fence_def)

lemma stanza_unlines: "tags \<noteq> [] \<Longrightarrow> tags_stanza tags @ [10] = unlines (tag_lines tags)"
proof -
  have "concat (map (\<lambda>t. [10] @ item (yaml_scalar t)) tags) @ [10] = [10] @ unlines (map (\<lambda>t. item (yaml_scalar t)) tags)"
    by (induction tags) (simp_all add: unlines_def)
  then show "tags \<noteq> [] \<Longrightarrow> tags_stanza tags @ [10] = unlines (tag_lines tags)"
    by (simp add: tags_stanza_def tag_lines_def unlines_def)
qed

lemma replace_chunk_tags:
  assumes "\<forall>k. one_line (kind_str k)" and "\<forall>t. one_line (rfc t)" and "last_lines chunk tags ls" and "new_tags \<noteq> []"
  shows "replace_tags_in_front_matter (chunk_fm kind_str rfc chunk ls) new_tags =
    Inr (chunk_fm kind_str rfc chunk (tail_lines chunk @ tag_lines new_tags))"
proof -
  define body_lines where "body_lines = fence # field_lines (chunk_fields kind_str rfc chunk) @ tail_lines chunk"
  have "strip_tags (lines_of (chunk_fm kind_str rfc chunk ls)) = (body_lines @ [fence], True)"
    by (simp only: chunk_fm_lines [OF assms(1-3)] strip_chunk_lines [OF assms(3)] body_lines_def append_Cons append_assoc)
  then have "replace_tags_in_front_matter (chunk_fm kind_str rfc chunk ls) new_tags =
      Inr (join [10] (body_lines @ [tags_stanza new_tags, fence]) @ [10])"
    by (simp add: replace_tags_in_front_matter_def before_fence_last)
  also have "join [10] (body_lines @ [tags_stanza new_tags, fence]) @ [10] =
      unlines body_lines @ (tags_stanza new_tags @ [10]) @ fence @ [10]"
    by (simp add: join_unlines unlines_def)
  also have "\<dots> = chunk_fm kind_str rfc chunk (tail_lines chunk @ tag_lines new_tags)"
    unfolding stanza_unlines [OF assms(4)] by (simp add: chunk_fm_def body_lines_def unlines_def)
  finally show ?thesis .
qed

lemma update_chunk_fm:
  assumes "\<forall>k. one_line (kind_str k)" and "\<forall>t. one_line (rfc t)" and "last_lines chunk old ls"
  shows "update_chunk_tags lower (Inr ()) tags (Some (Utf8 (chunk_fm kind_str rfc chunk ls @ cc_content chunk))) =
    (Inr (), Some (Utf8 (chunk_fm kind_str rfc chunk
       (tail_lines chunk @ tag_lines (with_source_tag lower (chunk_scope chunk) tags)) @ cc_content chunk)))"
proof -
  define new_tags where "new_tags = with_source_tag lower (chunk_scope chunk) tags"
  define new_fm where "new_fm = chunk_fm kind_str rfc chunk (tail_lines chunk @ tag_lines new_tags)"
  have ne: "new_tags \<noteq> []" by (simp add: new_tags_def with_source_tag_def Let_def)
  have l: "last_lines chunk new_tags (tail_lines chunk @ tag_lines new_tags)" by (simp add: last_lines_def)
  note split = chunk_fm_split [OF assms] and split' = chunk_fm_split [OF assms(1,2) l, folded new_fm_def]
  have "(case (case scan_fm_field (chunk_fm kind_str rfc chunk ls) (utext_of ''path_scope'') of
      Some s \<Rightarrow> Some s | None \<Rightarrow> scan_fm_field (chunk_fm kind_str rfc chunk ls) (utext_of ''source_id'')) of
        None \<Rightarrow> tags | Some source_scope \<Rightarrow> with_source_tag lower source_scope tags) = new_tags"
    using chunk_fm_reads_back [OF assms]
    by (cases "cm_path_scope (cc_metadata chunk)") (simp_all add: reads_back_def new_tags_def chunk_scope_def)
  then have "augment_with_source_tag_for_chunk lower (Utf8 (chunk_fm kind_str rfc chunk ls @ cc_content chunk)) tags = new_tags"
    by (simp add: augment_with_source_tag_for_chunk_def split)
  moreover have "rewrite_tags (Utf8 (chunk_fm kind_str rfc chunk ls @ cc_content chunk)) new_tags =
      Inr (Utf8 (new_fm @ cc_content chunk))"
    by (simp add: rewrite_tags_def split replace_chunk_tags [OF assms ne] new_fm_def)
  moreover have "ensure_tag_rewrite_preserves_body (Utf8 (chunk_fm kind_str rfc chunk ls @ cc_content chunk))
      (Utf8 (new_fm @ cc_content chunk)) = Inr ()"
    by (simp add: ensure_tag_rewrite_preserves_body_def body_of_def split split')
  ultimately show ?thesis by (simp add: update_chunk_tags_def new_fm_def new_tags_def)
qed

text \<open>Rewrites one after the other, each with the tags of one extraction.\<close>

definition rewrite_run :: "(utext \<Rightarrow> utext) \<Rightarrow> utext list list \<Rightarrow> file_bytes option \<Rightarrow> unit result list \<times> file_bytes option" where
  "rewrite_run lower tss file = fold (\<lambda>tags (rs, f).
     (case update_chunk_tags lower (Inr ()) tags f of (r, f') \<Rightarrow> (rs @ [r], f'))) tss ([], file)"

lemma rewrite_run_fm:
  assumes "\<forall>k. one_line (kind_str k)" and "\<forall>t. one_line (rfc t)" and "last_lines chunk old ls"
  shows "tss \<noteq> [] \<Longrightarrow> rewrite_run lower tss (Some (Utf8 (chunk_fm kind_str rfc chunk ls @ cc_content chunk))) =
    (replicate (length tss) (Inr ()), Some (Utf8 (chunk_fm kind_str rfc chunk
       (tail_lines chunk @ tag_lines (with_source_tag lower (chunk_scope chunk) (last tss))) @ cc_content chunk)))"
proof (induction tss rule: rev_induct)
  case (snoc tags tss)
  have "\<exists>old' ls'. last_lines chunk old' ls' \<and>
      rewrite_run lower tss (Some (Utf8 (chunk_fm kind_str rfc chunk ls @ cc_content chunk))) =
        (replicate (length tss) (Inr ()), Some (Utf8 (chunk_fm kind_str rfc chunk ls' @ cc_content chunk)))"
  proof (cases "tss = []")
    case True
    then show ?thesis using assms(3) by (auto simp: rewrite_run_def)
  next
    case False
    then show ?thesis using snoc.IH by (auto simp: last_lines_def)
  qed
  then show ?case
    using update_chunk_fm [OF assms(1,2)] by (auto simp: rewrite_run_def replicate_append_same)
qed simp

lemma composed_lines:
  assumes "\<forall>k. one_line (kind_str k)" and "\<forall>t. one_line (rfc t)"
  shows "lines_of (build_front_matter kind_str rfc lower chunk) = (fence # field_lines (chunk_fields kind_str rfc chunk)) @
    tag_lines (with_source_tag lower (chunk_scope chunk) (cm_tags (cc_metadata chunk))) @ tail_lines chunk @ [fence]"
proof -
  define tags where "tags = with_source_tag lower (chunk_scope chunk) (cm_tags (cc_metadata chunk))"
  have "last_lines chunk tags (tag_lines tags @ tail_lines chunk)" by (simp add: last_lines_def)
  from chunk_fm_lines [OF assms this] show ?thesis by (simp add: compose_chunk_fm tags_def)
qed

lemma no_tags_around:
  "\<forall>l\<in>set ((fence # field_lines (chunk_fields kind_str rfc chunk)) @ tail_lines chunk).
     l \<noteq> utext_of ''tags:'' \<and> l \<noteq> utext_of ''tags: []''"
  using fields_not_tags [of kind_str rfc chunk] tail_not_tags [of chunk] by auto

text \<open>
  C16: rewriting the tags of a composed chunk file, any number of times, succeeds each time and leaves a
  file with the chunk's body byte for byte, whose fields still read back. Its front matter is exactly the
  composed one with the one tag block taken out and the tags of the last rewrite, led by the source tag
  of the chunk's own scope, put before the closing fence: every line above and below the old block is
  kept, none of them starts a tag block, so no earlier tag survives.
\<close>
theorem tag_rewrites_keep_chunk:
  assumes "\<forall>k. one_line (kind_str k)" and "\<forall>t. one_line (rfc t)" and "tss \<noteq> []"
  shows "\<exists>front back fm.
    lines_of (build_front_matter kind_str rfc lower chunk) =
      front @ tag_lines (with_source_tag lower (chunk_scope chunk) (cm_tags (cc_metadata chunk))) @ back @ [fence] \<and>
    (\<forall>l\<in>set (front @ back). l \<noteq> utext_of ''tags:'' \<and> l \<noteq> utext_of ''tags: []'') \<and>
    rewrite_run lower tss (Some (Utf8 (fst (compose_chunk_file kind_str rfc lower chunk)))) =
      (replicate (length tss) (Inr ()), Some (Utf8 (fm @ cc_content chunk))) \<and>
    lines_of fm = front @ back @ tag_lines (with_source_tag lower (chunk_scope chunk) (last tss)) @ [fence] \<and>
    split_front_matter (fm @ cc_content chunk) = Some (fm, cc_content chunk) \<and>
    reads_back chunk fm"
proof -
  define front where "front = fence # field_lines (chunk_fields kind_str rfc chunk)"
  define new_tags where "new_tags = with_source_tag lower (chunk_scope chunk) (last tss)"
  define ls where "ls = tail_lines chunk @ tag_lines new_tags"
  define old where "old = with_source_tag lower (chunk_scope chunk) (cm_tags (cc_metadata chunk))"
  have l: "last_lines chunk new_tags ls" and l': "last_lines chunk old (tag_lines old @ tail_lines chunk)"
    by (simp_all add: last_lines_def ls_def)
  have "fst (compose_chunk_file kind_str rfc lower chunk) =
      chunk_fm kind_str rfc chunk (tag_lines old @ tail_lines chunk) @ cc_content chunk"
    by (simp add: compose_chunk_file_def compose_chunk_fm old_def)
  then have run: "rewrite_run lower tss (Some (Utf8 (fst (compose_chunk_file kind_str rfc lower chunk)))) =
      (replicate (length tss) (Inr ()), Some (Utf8 (chunk_fm kind_str rfc chunk ls @ cc_content chunk)))"
    using rewrite_run_fm [OF assms(1,2) l' assms(3)] by (simp add: ls_def new_tags_def)
  have "lines_of (chunk_fm kind_str rfc chunk ls) = front @ tail_lines chunk @ tag_lines new_tags @ [fence]"
    unfolding chunk_fm_lines [OF assms(1,2) l] by (simp add: ls_def front_def)
  then show ?thesis
    using run composed_lines [OF assms(1,2), of lower chunk] no_tags_around [of kind_str rfc chunk]
      chunk_fm_split [OF assms(1,2) l] chunk_fm_reads_back [OF assms(1,2) l]
    unfolding front_def [symmetric] new_tags_def
    by (intro exI [of _ front] exI [of _ "tail_lines chunk"] exI [of _ "chunk_fm kind_str rfc chunk ls"] conjI)
qed

theorem tag_rewrites_keep_chunk_witness:
  "\<exists>fm. rewrite_run (\<lambda>s. s) [[], [utext_of ''person/Alice'']] (Some (Utf8 (fst (compose_chunk_file
      (\<lambda>k. utext_of ''email'') (\<lambda>t. utext_of ''now'') (\<lambda>s. s)
      \<lparr>cc_metadata = \<lparr>cm_source_kind = Kind_Email, cm_source_id = utext_of ''gmail:a@x|b@y'', cm_path_scope = None,
        cm_owner = [], cm_timestamp = 0, cm_time_range = (0, 0), cm_tags = [], cm_source_ref = None\<rparr>,
       cc_content = [45, 45, 45, 10], cc_seq_in_source = 0\<rparr>)))) =
    ([Inr (), Inr ()], Some (Utf8 (fm @ [45, 45, 45, 10])))"
  using tag_rewrites_keep_chunk [of "\<lambda>k. utext_of ''email''" "\<lambda>t. utext_of ''now''" "[[], [utext_of ''person/Alice'']]"
      "\<lambda>s. s" "\<lparr>cc_metadata = \<lparr>cm_source_kind = Kind_Email, cm_source_id = utext_of ''gmail:a@x|b@y'', cm_path_scope = None,
        cm_owner = [], cm_timestamp = 0, cm_time_range = (0, 0), cm_tags = [], cm_source_ref = None\<rparr>,
       cc_content = [45, 45, 45, 10], cc_seq_in_source = 0\<rparr>"]
  by (auto simp: one_line_utext)

end
