(* ===== verification/Flavoured.thy ===== *)
theory Flavoured
  imports Cascade Front_Matter
begin

section \<open>Compiled roots of flavoured trees (src/memory/tree/flavoured.rs)\<close>

text \<open>
  A flavoured tree answers one question, its ask; the content of its root, clamped to a budget, is
  written to one fixed file under the content root, replaced each time a cascade seals anything. The
  file is not recorded in the database. Files are a map from relative paths to texts; \<^verbatim>\<open>write\<close> is what
  creating the directory and replacing the file gives, \<^verbatim>\<open>rfc\<close> formats a time, \<^verbatim>\<open>lower\<close> is Unicode
  case mapping, \<^verbatim>\<open>tok\<close> counts tokens.
\<close>

fun whitespace_words :: "utext \<Rightarrow> utext \<Rightarrow> utext list" where
  "whitespace_words [] current = (if current = [] then [] else [current])"
| "whitespace_words (c # cs) current =
    (if is_white c then (if current = [] then whitespace_words cs [] else current # whitespace_words cs [])
     else whitespace_words cs (current @ [c]))"

definition collapse :: "utext \<Rightarrow> utext" where
  "collapse value = join [32] (whitespace_words value [])"

definition quote_char :: "nat \<Rightarrow> utext" where
  "quote_char c = (if c = 92 then [92, 92] else if c = 34 then [92, 34] else [c])"

definition yaml_quote :: "utext \<Rightarrow> utext" where
  "yaml_quote value = [34] @ concat (map quote_char (collapse value)) @ [34]"

record flavoured_root_meta =
  fr_tree_id :: utext
  fr_scope :: utext
  fr_ask :: "utext option"
  fr_root_id :: "utext option"
  fr_sealed_at :: "utext option"
  fr_leaves_folded :: nat
  fr_token_estimate :: nat
  fr_token_budget :: nat
  fr_body :: utext

definition null_or_quote :: "utext option \<Rightarrow> utext" where
  "null_or_quote v = (case v of Some s \<Rightarrow> yaml_quote s | None \<Rightarrow> utext_of ''null'')"

definition root_fields :: "flavoured_root_meta \<Rightarrow> (string \<times> utext) list" where
  "root_fields meta =
    [(''kind'', utext_of ''flavoured_root''),
     (''tree_id'', yaml_quote (fr_tree_id meta)),
     (''scope'', yaml_quote (fr_scope meta)),
     (''ask'', yaml_quote (case fr_ask meta of Some a \<Rightarrow> a | None \<Rightarrow> [])),
     (''root_id'', null_or_quote (fr_root_id meta)),
     (''sealed_at'', null_or_quote (fr_sealed_at meta)),
     (''leaves_folded'', show_u (fr_leaves_folded meta)),
     (''token_estimate'', show_u (fr_token_estimate meta)),
     (''token_budget'', show_u (fr_token_budget meta))]"

definition closing_newline :: "utext \<Rightarrow> utext" where
  "closing_newline body = (if body \<noteq> [] \<and> last body \<noteq> 10 then [10] else [])"

definition render_flavoured_root :: "flavoured_root_meta \<Rightarrow> utext" where
  "render_flavoured_root meta =
    unlines ([fence] @ field_lines (root_fields meta) @ [fence]) @ fr_body meta @ closing_newline (fr_body meta)"

type_synonym files = "utext \<rightharpoonup> utext"

definition root_of :: "tree \<Rightarrow> tree_db \<Rightarrow> (utext \<times> nat \<times> utext option) result" where
  "root_of t db =
    (case tr_root_id t of
       None \<Rightarrow> Inr ([], 0, None)
     | Some root_id \<Rightarrow>
        (case get_summary root_id db of
           None \<Rightarrow> Inl (plain_error (''flavoured tree '' @ tr_id t @ '' root '' @ root_id @ '' missing''))
         | Some node \<Rightarrow> Inr (sn_content node, length (sn_child_ids node), Some (utext_of root_id))))"

definition root_meta :: "(utext \<Rightarrow> nat) \<Rightarrow> (int \<Rightarrow> utext) \<Rightarrow> nat \<Rightarrow> tree \<Rightarrow> utext \<times> nat \<times> utext option \<Rightarrow> flavoured_root_meta" where
  "root_meta tok rfc budget t found =
    (case found of (body, leaves_folded, root_id) \<Rightarrow>
       (case clamp_to_budget tok (trim body) budget of (clamped, token_estimate) \<Rightarrow>
          \<lparr>fr_tree_id = utext_of (tr_id t), fr_scope = utext_of (tr_scope t), fr_ask = tr_ask t,
           fr_root_id = root_id, fr_sealed_at = map_option rfc (tr_last_sealed_at t),
           fr_leaves_folded = leaves_folded, fr_token_estimate = token_estimate,
           fr_token_budget = budget, fr_body = clamped\<rparr>))"

definition compile_flavoured_root ::
    "(utext \<Rightarrow> nat) \<Rightarrow> (int \<Rightarrow> utext) \<Rightarrow> (utext \<Rightarrow> utext) \<Rightarrow> unit result \<Rightarrow> tree_config \<Rightarrow> string \<Rightarrow> tree_db \<Rightarrow> files \<Rightarrow>
     utext result \<times> files" where
  "compile_flavoured_root tok rfc lower write cfg tree_id db files =
    (case get_tree tree_id db of
       None \<Rightarrow> (Inl (plain_error (''no tree with id '' @ tree_id)), files)
     | Some t \<Rightarrow>
        (if tr_kind t \<noteq> Flavoured
         then (Inl (plain_error (''compile_flavoured_root: tree '' @ tree_id @ '' is '' @
             tree_kind_as_str (tr_kind t) @ '', not flavoured'')), files)
         else case root_of t db of
           Inl e \<Rightarrow> (Inl e, files)
         | Inr found \<Rightarrow>
            (let markdown = render_flavoured_root (root_meta tok rfc (tc_flavour_root_token_budget cfg) t found) in
             case write of
               Inl e \<Rightarrow> (Inl e, files)
             | Inr _ \<Rightarrow> (Inr markdown, files(flavoured_root_rel_path lower (utext_of (tr_scope t)) \<mapsto> markdown)))))"

text \<open>The end of a cascade: an artifact that cannot be written never fails the seal.\<close>

definition cascade_with_artifact ::
    "(utext \<Rightarrow> nat) \<Rightarrow> (int \<Rightarrow> utext) \<Rightarrow> (utext \<Rightarrow> utext) \<Rightarrow> unit result \<Rightarrow> seal_env \<Rightarrow> memory_config \<Rightarrow> label_strategy \<Rightarrow>
     tree \<Rightarrow> nat \<Rightarrow> bool \<Rightarrow> bool \<Rightarrow> tree_db \<Rightarrow> files \<Rightarrow> string list result \<times> tree_db \<times> files" where
  "cascade_with_artifact tok rfc lower write env cfg strategy t start_level force follow_ups db files =
    (case cascade_all_from_with_services env cfg strategy t start_level force follow_ups db of
       (Inl e, db') \<Rightarrow> (Inl e, db', files)
     | (Inr sealed_ids, db') \<Rightarrow>
        (if sealed_ids \<noteq> [] \<and> tr_kind t = Flavoured
         then (Inr sealed_ids, db', snd (compile_flavoured_root tok rfc lower write (cfg_tree cfg) (tr_id t) db' files))
         else (Inr sealed_ids, db', files)))"

subsection \<open>Quoted values come back\<close>

lemma unescape_quote: "unescape_double_quoted (concat (map quote_char s)) = s"
proof (induction s)
  case (Cons c s)
  then show ?case by (simp add: quote_char_def decode_escape_def unescape_plain)
qed simp

lemma field_value_quote: "field_value (yaml_quote v) = collapse v"
proof -
  let ?e = "concat (map quote_char (collapse v))"
  have "trim ([34] @ ?e @ [34]) = [34] @ ?e @ [34]" by (rule trim_id) (simp_all add: is_white_def)
  moreover have "strip_prefix [34] ([34] @ ?e @ [34]) = Some (?e @ [34])" by (rule strip_prefix_append)
  ultimately show ?thesis
    unfolding yaml_quote_def field_value_def Let_def by (simp only: option.case strip_suffix_append unescape_quote)
qed

lemma words_not_white: "w \<in> set (whitespace_words s cur) \<Longrightarrow> c \<in> set w \<Longrightarrow> (\<forall>d\<in>set cur. \<not> is_white d) \<Longrightarrow> \<not> is_white c"
  by (induction s cur rule: whitespace_words.induct) (auto split: if_splits)

lemma set_join: "set (join sep ws) \<subseteq> set sep \<union> (\<Union>w\<in>set ws. set w)"
  by (induction sep ws rule: join.induct) auto

lemma one_line_quote [simp]: "one_line (yaml_quote v)"
proof -
  have "c \<noteq> 10 \<and> c \<noteq> 13" if "c \<in> set (collapse v)" for c
  proof -
    have "c = 32 \<or> \<not> is_white c"
      using that set_join [of "[32]" "whitespace_words v []"] words_not_white [of _ v "[]" c]
      unfolding collapse_def by auto
    then show ?thesis by (auto simp: is_white_def)
  qed
  then show ?thesis by (auto simp: yaml_quote_def one_line_def quote_char_def split: if_splits)
qed

lemma one_line_null [simp]: "one_line (null_or_quote v)"
  by (cases v) (simp_all add: null_or_quote_def one_line_utext)

lemma root_lines: "\<forall>l\<in>set (field_lines (root_fields meta)). one_line l \<and> l \<noteq> fence"
  by (simp add: field_lines_def root_fields_def one_line_field one_line_utext field_not_fence)

lemma root_plain: "\<forall>(k, v)\<in>set (root_fields meta). plain_key k"
  by (simp add: root_fields_def plain_key_def)

lemma fences_one_line: "\<forall>l\<in>set ls. one_line l \<and> l \<noteq> fence \<Longrightarrow> \<forall>l\<in>set ([fence] @ ls @ [fence]). one_line l"
  by (auto simp: fence_def)

lemma root_split:
  "split_front_matter (render_flavoured_root meta) =
    Some (unlines ([fence] @ field_lines (root_fields meta) @ [fence]), fr_body meta @ closing_newline (fr_body meta))"
proof -
  have "field_lines (root_fields meta) \<noteq> []" by (simp add: field_lines_def root_fields_def)
  then show ?thesis
    unfolding render_flavoured_root_def
    using split_composed [of "field_lines (root_fields meta)"] root_lines [of meta] by (auto simp: one_line_def)
qed

lemma root_scan:
  assumes "plain_key key"
  shows "scan_fm_field (unlines ([fence] @ field_lines (root_fields meta) @ [fence])) (utext_of key) =
    map_option field_value (map_of (root_fields meta) key)"
proof -
  let ?pre = "utext_of key @ [58, 32]"
  have f: "keyless fence" "take 1 fence = [45]" by (simp_all add: fence_def keyless_def)
  then have "strip_prefix ?pre fence = None" using keyless_no_prefix [of fence key] by simp
  then have "scan_fm_field (unlines ([fence] @ field_lines (root_fields meta) @ [fence])) (utext_of key) =
      scan_lines ?pre (field_lines (root_fields meta) @ [fence])"
    unfolding scan_fm_field_def lines_unlines [OF fences_one_line [OF root_lines]] using f(2) by simp
  also have "\<dots> = (case map_of (root_fields meta) key of Some v \<Rightarrow> Some (field_value v)
      | None \<Rightarrow> scan_lines ?pre [fence])"
    by (rule scan_fields [OF root_plain assms])
  also have "scan_lines ?pre [fence] = None" by (rule scan_skip) (simp add: f)
  finally show ?thesis by (cases "map_of (root_fields meta) key") simp_all
qed

lemma root_reads_back:
  defines "fm \<equiv> \<lambda>meta. unlines ([fence] @ field_lines (root_fields meta) @ [fence])"
  shows "scan_fm_field (fm meta) (utext_of ''tree_id'') = Some (collapse (fr_tree_id meta))"
    and "scan_fm_field (fm meta) (utext_of ''scope'') = Some (collapse (fr_scope meta))"
    and "scan_fm_field (fm meta) (utext_of ''ask'') = Some (collapse (case fr_ask meta of Some a \<Rightarrow> a | None \<Rightarrow> []))"
proof -
  have k: "plain_key ''tree_id''" "plain_key ''scope''" "plain_key ''ask''" by (simp_all add: plain_key_def)
  show "scan_fm_field (fm meta) (utext_of ''tree_id'') = Some (collapse (fr_tree_id meta))"
    unfolding fm_def root_scan [OF k(1)] by (simp add: root_fields_def field_value_quote)
  show "scan_fm_field (fm meta) (utext_of ''scope'') = Some (collapse (fr_scope meta))"
    unfolding fm_def root_scan [OF k(2)] by (simp add: root_fields_def field_value_quote)
  show "scan_fm_field (fm meta) (utext_of ''ask'') = Some (collapse (case fr_ask meta of Some a \<Rightarrow> a | None \<Rightarrow> []))"
    unfolding fm_def root_scan [OF k(3)] by (simp add: root_fields_def field_value_quote)
qed

lemma compile_cases:
  assumes "compile_flavoured_root tok rfc lower write cfg tree_id db files = (r, files')"
  obtains e where "r = Inl e" and "files' = files"
  | t found markdown where "r = Inr markdown" and "get_tree tree_id db = Some t" and "tr_kind t = Flavoured"
      and "root_of t db = Inr found"
      and "markdown = render_flavoured_root (root_meta tok rfc (tc_flavour_root_token_budget cfg) t found)"
      and "files' = files(flavoured_root_rel_path lower (utext_of (tr_scope t)) \<mapsto> markdown)"
  using assms
  by (auto simp: compile_flavoured_root_def Let_def split: option.splits if_splits sum.splits prod.splits)

text \<open>
  Compiling a flavoured root either reports an error and touches no file, or replaces exactly the
  file at the scope's fixed path by one front matter followed by the body. The front matter ends where
  the code put its fence, whatever the ask, the scope and the root hold; its fields read back as the
  tree's, blanks collapsed. The body is the start of the root's trimmed content, within the budget,
  and empty before the first seal.
\<close>
theorem flavoured_root_artifact:
  assumes "four_chars_per_token tok"
    and "compile_flavoured_root tok rfc lower write cfg tree_id db files = (r, files')"
  shows "case r of
      Inl e \<Rightarrow> files' = files
    | Inr markdown \<Rightarrow> (\<exists>t fm body k content.
        get_tree tree_id db = Some t \<and> tr_kind t = Flavoured \<and>
        files' = files(flavoured_root_rel_path lower (utext_of (tr_scope t)) \<mapsto> markdown) \<and>
        split_front_matter markdown = Some (fm, body @ closing_newline body) \<and>
        scan_fm_field fm (utext_of ''scope'') = Some (collapse (utext_of (tr_scope t))) \<and>
        scan_fm_field fm (utext_of ''ask'') = Some (collapse (case tr_ask t of Some a \<Rightarrow> a | None \<Rightarrow> [])) \<and>
        content = (case tr_root_id t of None \<Rightarrow> [] | Some i \<Rightarrow> sn_content (the (get_summary i db))) \<and>
        body = take k (trim content) \<and> tok body \<le> tc_flavour_root_token_budget cfg)"
  using assms(2)
proof (cases rule: compile_cases)
  case (2 t found markdown)
  let ?budget = "tc_flavour_root_token_budget cfg" and ?meta = "root_meta tok rfc (tc_flavour_root_token_budget cfg) t found"
  obtain content leaves root_id where f: "found = (content, leaves, root_id)" by (cases found)
  obtain c n where c: "clamp_to_budget tok (trim content) ?budget = (c, n)" by (metis surj_pair)
  obtain k where k: "c = take k (trim content)" "n = tok c" using clamp_to_budget_prefix [OF c] by blast
  have meta: "fr_body ?meta = c" "fr_scope ?meta = utext_of (tr_scope t)" "fr_ask ?meta = tr_ask t"
    by (simp_all add: root_meta_def f c)
  have content: "content = (case tr_root_id t of None \<Rightarrow> [] | Some i \<Rightarrow> sn_content (the (get_summary i db)))"
    using 2(4) by (auto simp: root_of_def f split: option.splits)
  have "tok c \<le> ?budget" using clamp_to_budget_bound [OF assms(1) c] k(2) by simp
  then show ?thesis
    using 2 root_split [of ?meta] root_reads_back [of ?meta] content k(1) unfolding meta by auto
qed simp

definition sample_flavoured :: tree where
  "sample_flavoured = sample_tree\<lparr>tr_kind := Flavoured, tr_ask := Some [97, 10, 45, 45, 45, 10]\<rparr>"

theorem flavoured_root_artifact_witness:
  "\<exists>markdown files' fm. compile_flavoured_root sample_tok (\<lambda>t. []) (\<lambda>s. s) (Inr ()) tree_config_default ''t''
      ((sample_db [])\<lparr>db_trees := [sample_flavoured]\<rparr>) Map.empty = (Inr markdown, files') \<and>
    split_front_matter markdown = Some (fm, []) \<and>
    scan_fm_field fm (utext_of ''ask'') = Some [97, 32, 45, 45, 45]"
proof -
  let ?db = "(sample_db [])\<lparr>db_trees := [sample_flavoured]\<rparr>"
  have t: "get_tree ''t'' ?db = Some sample_flavoured" "tr_kind sample_flavoured = Flavoured"
    "root_of sample_flavoured ?db = Inr ([], 0, None)" "tr_root_id sample_flavoured = None"
    by (simp_all add: get_tree_def sql_find_def sample_flavoured_def sample_tree_def root_of_def)
  obtain markdown files' where c: "compile_flavoured_root sample_tok (\<lambda>t. []) (\<lambda>s. s) (Inr ()) tree_config_default ''t''
      ?db Map.empty = (Inr markdown, files')"
    by (simp add: compile_flavoured_root_def t Let_def)
  have "collapse (case tr_ask sample_flavoured of Some a \<Rightarrow> a | None \<Rightarrow> []) = [97, 32, 45, 45, 45]"
    by (simp add: sample_flavoured_def collapse_def is_white_def)
  then show ?thesis
    using flavoured_root_artifact [OF sample_tok c] c t by (auto simp: trim_def closing_newline_def)
qed

end
