(* ===== verification/Summary_File.thy ===== *)
theory Summary_File
  imports Front_Matter
begin

section \<open>Summary files (src/memory/store/content/compose/summary.rs)\<close>

text \<open>
  The file of a summary node: the node's fields, links to its children, an alias, its tags, then the
  summary. Rewriting its tags also refreshes the two lines that say which version wrote it. Times and
  dates are formatted by another crate: \<^verbatim>\<open>rfc\<close> and \<^verbatim>\<open>ymd\<close>; \<^verbatim>\<open>lower\<close> is Unicode case mapping.
\<close>

definition MEMORY_ARTIFACT_FORMAT :: nat where "MEMORY_ARTIFACT_FORMAT = 2"
definition OPENHUMAN_CORE_VERSION :: utext where "OPENHUMAN_CORE_VERSION = utext_of ''0.1.4''"

record summary_compose_input =
  sf_summary_id :: utext
  sf_tree_kind :: tree_kind
  sf_tree_id :: utext
  sf_tree_scope :: utext
  sf_level :: nat
  sf_child_ids :: "utext list"
  sf_child_basenames :: "utext option list option"
  sf_child_count :: nat
  sf_time_range_start :: int
  sf_time_range_end :: int
  sf_sealed_at :: int
  sf_body :: utext

definition scope_short_label :: "utext \<Rightarrow> utext" where
  "scope_short_label scope =
    (case split_once 58 scope of
       None \<Rightarrow> scope
     | Some (pre, participants) \<Rightarrow>
        (if pre = utext_of ''gmail'' \<and> participants \<noteq> []
         then (case split_at 124 participants of
                 [] \<Rightarrow> scope
               | [only] \<Rightarrow> only
               | [a, b] \<Rightarrow> a @ [32, 8596, 32] @ b
               | a # rest \<Rightarrow> a @ utext_of '' + '' @ show_u (length rest) @ utext_of '' others'')
         else scope))"

definition format_date_range :: "(int \<Rightarrow> utext) \<Rightarrow> int \<Rightarrow> int \<Rightarrow> utext" where
  "format_date_range ymd start_ms end_ms =
    (if ymd start_ms = ymd end_ms then ymd start_ms else ymd start_ms @ [8211] @ ymd end_ms)"

definition dot :: utext where "dot = [32, 183, 32]"

definition build_summary_alias :: "(int \<Rightarrow> utext) \<Rightarrow> summary_compose_input \<Rightarrow> utext" where
  "build_summary_alias ymd r =
    (let date_range = format_date_range ymd (sf_time_range_start r) (sf_time_range_end r);
         level = utext_of ''L'' @ show_u (sf_level r);
         children = show_u (sf_child_count r) @ utext_of '' children''
     in case sf_tree_kind r of
          Source \<Rightarrow> level @ dot @ scope_short_label (sf_tree_scope r) @ dot @ children @ dot @ date_range
        | Global \<Rightarrow> level @ dot @ utext_of ''global digest'' @ dot @ date_range
        | Topic \<Rightarrow> level @ dot @ utext_of ''topic '' @
            (case split_once 58 (sf_tree_scope r) of Some (_, v) \<Rightarrow> v | None \<Rightarrow> sf_tree_scope r) @ dot @ children
        | Flavoured \<Rightarrow> level @ dot @ utext_of ''flavour '' @ scope_short_label (sf_tree_scope r) @ dot @
            children @ dot @ date_range)"

definition child_basename :: "summary_compose_input \<Rightarrow> nat \<Rightarrow> utext \<Rightarrow> utext" where
  "child_basename r i child_id =
    (case sf_child_basenames r of
       None \<Rightarrow> summary_filename child_id
     | Some overrides \<Rightarrow>
        (if i < length overrides then (case overrides ! i of Some b \<Rightarrow> b | None \<Rightarrow> summary_filename child_id)
         else summary_filename child_id))"

definition wikilink :: "utext \<Rightarrow> utext" where
  "wikilink basename = [91, 91] @ basename @ [93, 93]"

definition children_lines :: "summary_compose_input \<Rightarrow> utext list" where
  "children_lines r =
    (if sf_child_ids r = [] then [field ''children'' (utext_of ''[]'')]
     else utext_of ''children:'' # map (\<lambda>(i, child). item (yaml_scalar (wikilink (child_basename r i child))))
       (enumerate 0 (sf_child_ids r)))"

definition version_line :: utext where
  "version_line = field ''openhuman_core_version'' (yaml_scalar OPENHUMAN_CORE_VERSION)"
definition format_line :: utext where
  "format_line = field ''memory_artifact_format'' (show_u MEMORY_ARTIFACT_FORMAT)"

definition head_fields :: "summary_compose_input \<Rightarrow> (string \<times> utext) list" where
  "head_fields r =
    [(''id'', yaml_scalar (sf_summary_id r)),
     (''kind'', utext_of ''summary''),
     (''tree_kind'', utext_of (tree_kind_as_str (sf_tree_kind r))),
     (''tree_id'', yaml_scalar (sf_tree_id r)),
     (''tree_scope'', yaml_scalar (sf_tree_scope r)),
     (''level'', show_u (sf_level r))]"

definition range_fields :: "(int \<Rightarrow> utext) \<Rightarrow> summary_compose_input \<Rightarrow> (string \<times> utext) list" where
  "range_fields rfc r =
    [(''child_count'', show_u (sf_child_count r)),
     (''time_range_start'', rfc (sf_time_range_start r)),
     (''time_range_end'', rfc (sf_time_range_end r)),
     (''sealed_at'', rfc (sf_sealed_at r))]"

definition tag_block :: "utext list \<Rightarrow> utext list" where
  "tag_block tags = (if tags = [] then [field ''tags'' (utext_of ''[]'')] else tag_lines tags)"

definition seed_tags :: "(utext \<Rightarrow> utext) \<Rightarrow> summary_compose_input \<Rightarrow> utext list" where
  "seed_tags lower r = (if sf_tree_kind r = Source then [source_tag lower (sf_tree_scope r)] else [])"

text \<open>The lines between the opening fence and the provenance, and from there to the tags.\<close>

definition before_provenance :: "(int \<Rightarrow> utext) \<Rightarrow> summary_compose_input \<Rightarrow> utext list" where
  "before_provenance rfc r =
    field_lines (head_fields r) @ children_lines r @ field_lines (range_fields rfc r)"

definition alias_lines :: "(int \<Rightarrow> utext) \<Rightarrow> summary_compose_input \<Rightarrow> utext list" where
  "alias_lines ymd r = [utext_of ''aliases:'', item (yaml_scalar (build_summary_alias ymd r))]"

definition build_summary_front_matter ::
    "(int \<Rightarrow> utext) \<Rightarrow> (int \<Rightarrow> utext) \<Rightarrow> (utext \<Rightarrow> utext) \<Rightarrow> summary_compose_input \<Rightarrow> utext" where
  "build_summary_front_matter rfc ymd lower r =
    unlines ([fence] @ (before_provenance rfc r @ [version_line, format_line] @ alias_lines ymd r @
      tag_block (seed_tags lower r)) @ [fence])"

definition compose_summary_md ::
    "(int \<Rightarrow> utext) \<Rightarrow> (int \<Rightarrow> utext) \<Rightarrow> (utext \<Rightarrow> utext) \<Rightarrow> summary_compose_input \<Rightarrow> utext \<times> utext \<times> utext" where
  "compose_summary_md rfc ymd lower r =
    (let fm = build_summary_front_matter rfc ymd lower r; body = sf_body r in (fm, body, fm @ body))"

definition is_provenance :: "utext \<Rightarrow> bool" where
  "is_provenance raw \<longleftrightarrow>
     strip_prefix (utext_of ''openhuman_core_version'' @ [58, 32]) raw \<noteq> None \<or>
     strip_prefix (utext_of ''memory_artifact_format'' @ [58, 32]) raw \<noteq> None"

fun provenance_loop :: "utext list \<Rightarrow> utext list \<Rightarrow> bool \<Rightarrow> utext list \<times> bool" where
  "provenance_loop [] ls inserted = (ls, inserted)"
| "provenance_loop (raw # raws) ls inserted =
    (if is_provenance raw then provenance_loop raws ls inserted
     else if \<not> inserted \<and> raw = utext_of ''aliases:''
     then provenance_loop raws (ls @ [version_line, format_line] @ [raw]) True
     else provenance_loop raws (ls @ [raw]) inserted)"

definition upsert_summary_provenance :: "utext \<Rightarrow> utext" where
  "upsert_summary_provenance front_matter =
    (case provenance_loop (lines_of front_matter) [] False of
       (ls, inserted) \<Rightarrow>
         join [10] (if inserted then ls
           else before_fence ls @ [version_line, format_line] @ drop (length (before_fence ls)) ls) @ [10])"

definition rewrite_summary_tags :: "file_bytes \<Rightarrow> utext list \<Rightarrow> string + file_bytes" where
  "rewrite_summary_tags bytes new_tags =
    (case rewrite_tags bytes new_tags of
       Inl e \<Rightarrow> Inl e
     | Inr Not_Utf8 \<Rightarrow> Inl ''file is not valid UTF-8''
     | Inr (Utf8 content) \<Rightarrow>
        (case split_front_matter content of
           None \<Rightarrow> Inl ''cannot find front-matter delimiters''
         | Some (front_matter, body) \<Rightarrow> Inr (Utf8 (upsert_summary_provenance front_matter @ body))))"

subsection \<open>Lines of a summary file\<close>

text \<open>A line on which a scan for \<^verbatim>\<open>key\<close> does not stop.\<close>

definition no_key :: "string \<Rightarrow> utext \<Rightarrow> bool" where
  "no_key key l \<longleftrightarrow> keyless l \<or> (\<exists>k v. l = field k v \<and> plain_key k \<and> k \<noteq> key)"

lemma no_key_skip:
  assumes "no_key key l" and "plain_key key"
  shows "scan_lines (utext_of key @ [58, 32]) (l # rest) = scan_lines (utext_of key @ [58, 32]) rest"
proof (cases "take 1 l = [32] \<or> take 1 l = [9]")
  case False
  have "strip_prefix (utext_of key @ [58, 32]) l = None"
    using assms keyless_no_prefix [of l key] False strip_prefix_field
    by (auto simp: no_key_def plain_key_def)
  then show ?thesis using False by simp
qed auto

lemma scan_to_field:
  assumes "\<forall>l\<in>set ls. no_key key l" and "plain_key key"
  shows "scan_lines (utext_of key @ [58, 32]) (ls @ field key v # rest) = Some (field_value v)"
  using assms
proof (induction ls)
  case Nil
  then show ?case using plain_key_start [of key v] strip_prefix_field [of key key v] by (simp add: plain_key_def)
next
  case (Cons l ls)
  then show ?case using no_key_skip [of key l "ls @ field key v # rest"] by simp
qed

lemma no_key_field: "plain_key k \<Longrightarrow> k \<noteq> key \<Longrightarrow> no_key key (field k v)"
  by (auto simp: no_key_def)

lemma no_key_fence: "no_key key fence"
  by (simp add: no_key_def keyless_def fence_def)

text \<open>A line of the front matter whose key, if it has one, is among \<^verbatim>\<open>ks\<close>.\<close>

definition keyed :: "string set \<Rightarrow> utext \<Rightarrow> bool" where
  "keyed ks l \<longleftrightarrow> (\<exists>k\<in>ks. plain_key k \<and> one_line (utext_of k) \<and>
      ((\<exists>v. l = field k v \<and> one_line v) \<or> l = utext_of k @ [58])) \<or> (\<exists>v. l = item v \<and> one_line v)"

lemma keyed_cases:
  assumes "keyed ks l"
  obtains (field) k v where "k \<in> ks" "plain_key k" "one_line (utext_of k)" "l = field k v" "one_line v"
  | (header) k where "k \<in> ks" "plain_key k" "one_line (utext_of k)" "l = utext_of k @ [58]"
  | (item) v where "l = item v" "one_line v"
  using assms unfolding keyed_def by blast

lemma keyed_one_line: "keyed ks l \<Longrightarrow> one_line l"
  by (auto simp: keyed_def one_line_field one_line_item)

lemma keyed_not_fence:
  assumes "keyed ks l" shows "l \<noteq> fence"
  using assms
proof (cases rule: keyed_cases)
  case (header k)
  have "58 \<in> set l" by (simp add: header)
  then show ?thesis by (auto simp: fence_def)
qed (simp_all add: field_not_fence item_not_fence)

lemma item_start: "take 1 (item v) = [32]"
  by (simp add: item_def utext_of_def)

lemma header_keyless: "plain_key k \<Longrightarrow> keyless (utext_of k @ [58])"
  by (simp add: keyless_def utext_colon plain_key_def)

lemma keyed_no_key:
  assumes "keyed ks l" and "key \<notin> ks" shows "no_key key l"
  using assms(1)
proof (cases rule: keyed_cases)
  case (item v)
  then show ?thesis by (simp only: no_key_def keyless_def item_start simp_thms)
next
  case (header k)
  then show ?thesis using header_keyless [of k] by (simp only: no_key_def simp_thms)
next
  case (field k v)
  then show ?thesis using no_key_field [of k key v] assms(2) by metis
qed

lemma plain_key_head: "plain_key k \<Longrightarrow> take 1 (utext_of k @ r) \<noteq> [32]"
  using plain_key_start [of k "[]"] by (cases k) (auto simp: field_def utext_of_def plain_key_def)

lemma keyed_no_prefix:
  assumes "keyed ks l" and "key \<notin> ks" and "plain_key key"
  shows "strip_prefix (utext_of key @ [58, 32]) l = None"
proof (cases "take 1 l = [32]")
  case True
  show ?thesis
  proof (rule ccontr)
    assume "strip_prefix (utext_of key @ [58, 32]) l \<noteq> None"
    then obtain r where "l = utext_of key @ ([58, 32] @ r)" by (auto simp: strip_prefix_iff)
    then show False using plain_key_head [OF assms(3)] True by metis
  qed
next
  case False
  then show ?thesis
    using keyed_no_key [OF assms(1,2)] keyless_no_prefix [OF _ False] strip_prefix_field assms(3)
    by (auto simp: no_key_def plain_key_def)
qed

lemma keyed_header:
  assumes "keyed ks l" and "key \<notin> ks" and "plain_key key"
  shows "l \<noteq> utext_of key @ [58]"
proof -
  from assms(1) show ?thesis
  proof (cases rule: keyed_cases)
    case (field k v)
    have "58 \<notin> set (utext_of k)" "58 \<notin> set (utext_of key)" using field(2) assms(3) by (simp_all add: utext_colon plain_key_def)
    then have "\<not> (utext_of k @ 58 # 32 # v = utext_of key @ 58 # [])"
      using append_sep_eq [of "utext_of k" 58 "32 # v" "utext_of key" "[]"] by blast
    then show ?thesis by (simp add: field(4) field_def)
  next
    case (header k)
    then show ?thesis using assms(2) by (auto simp: utext_inj)
  next
    case (item v)
    then show ?thesis using plain_key_head [OF assms(3), of "[58]"] item_start [of v] by metis
  qed
qed

lemma keyed_not_tags:
  assumes "keyed ks l" and "''tags'' \<notin> ks"
  shows "l \<noteq> utext_of ''tags:'' \<and> l \<noteq> utext_of ''tags: []''"
proof -
  have k: "plain_key ''tags''" by (simp add: plain_key_def)
  have "utext_of ''tags: []'' = (utext_of ''tags'' @ [58, 32]) @ [91, 93]" by (simp add: utext_of_def)
  then have "strip_prefix (utext_of ''tags'' @ [58, 32]) (utext_of ''tags: []'') = Some [91, 93]" by (simp add: strip_prefix_iff)
  then show ?thesis using keyed_no_prefix [OF assms k] keyed_header [OF assms k] by (auto simp: utext_tags)
qed

definition provenance_keys :: "string set" where
  "provenance_keys = {''openhuman_core_version'', ''memory_artifact_format''}"

lemma keyed_not_provenance: "keyed ks l \<Longrightarrow> ks \<inter> provenance_keys = {} \<Longrightarrow> \<not> is_provenance l"
  using keyed_no_prefix [of ks l "''openhuman_core_version''"] keyed_no_prefix [of ks l "''memory_artifact_format''"]
  by (auto simp: is_provenance_def provenance_keys_def plain_key_def)

definition node_keys :: "string set" where
  "node_keys = {''id'', ''kind'', ''tree_kind'', ''tree_id'', ''tree_scope'', ''level'', ''children'', ''child_count'',
     ''time_range_start'', ''time_range_end'', ''sealed_at''}"

lemma keyed_fields:
  "\<forall>(k, v)\<in>set kvs. k \<in> ks \<and> plain_key k \<and> one_line (utext_of k) \<and> one_line v \<Longrightarrow> \<forall>l\<in>set (field_lines kvs). keyed ks l"
  unfolding field_lines_def keyed_def by fastforce

lemma keyed_item: "one_line v \<Longrightarrow> keyed ks (item v)"
  by (auto simp: keyed_def)

lemma keyed_headerI: "k \<in> ks \<Longrightarrow> plain_key k \<Longrightarrow> one_line (utext_of k) \<Longrightarrow> keyed ks (utext_of k @ [58])"
  by (auto simp: keyed_def)

lemma keyed_fieldI: "k \<in> ks \<Longrightarrow> plain_key k \<Longrightarrow> one_line (utext_of k) \<Longrightarrow> one_line v \<Longrightarrow> keyed ks (field k v)"
  by (auto simp: keyed_def)

lemma before_provenance_keyed:
  assumes "\<forall>t. one_line (rfc t)" shows "\<forall>l\<in>set (before_provenance rfc r). keyed node_keys l"
proof -
  have h: "\<forall>l\<in>set (field_lines (head_fields r)). keyed node_keys l"
    by (rule keyed_fields)
      (cases "sf_tree_kind r"; simp add: head_fields_def node_keys_def plain_key_def one_line_utext)
  have t: "\<forall>l\<in>set (field_lines (range_fields rfc r)). keyed node_keys l"
    by (rule keyed_fields) (simp add: range_fields_def node_keys_def plain_key_def one_line_utext assms)
  have head: "utext_of ''children:'' = utext_of ''children'' @ [58]" by (simp add: utext_of_def)
  have k: "''children'' \<in> node_keys" "plain_key ''children''" "one_line (utext_of ''children'')"
    by (simp_all add: node_keys_def plain_key_def one_line_utext)
  have "\<forall>l\<in>set (children_lines r). keyed node_keys l"
    using keyed_headerI [OF k] keyed_fieldI [OF k, of "utext_of ''[]''"] keyed_item
    by (auto simp: children_lines_def head one_line_utext)
  then show ?thesis using h t by (auto simp: before_provenance_def)
qed

lemma alias_lines_keyed: "\<forall>l\<in>set (alias_lines ymd r). keyed {''aliases''} l"
proof -
  have "utext_of ''aliases:'' = utext_of ''aliases'' @ [58]" by (simp add: utext_of_def)
  moreover have "keyed {''aliases''} (utext_of ''aliases'' @ [58])"
    by (rule keyed_headerI) (simp_all add: plain_key_def one_line_utext)
  ultimately show ?thesis by (simp add: alias_lines_def keyed_item)
qed

lemma tag_block_keyed: "\<forall>l\<in>set (tag_block tags). keyed {''tags''} l"
proof -
  have k: "plain_key ''tags''" "one_line (utext_of ''tags'')" by (simp_all add: plain_key_def one_line_utext)
  have "keyed {''tags''} (utext_of ''tags:'')" "keyed {''tags''} (field ''tags'' (utext_of ''[]''))"
    unfolding utext_tags using keyed_headerI [OF _ k] keyed_fieldI [OF _ k] by (simp_all add: one_line_utext)
  then show ?thesis by (simp add: tag_block_def tag_lines_def keyed_item)
qed

lemma provenance_keyed: "keyed provenance_keys version_line" "keyed provenance_keys format_line"
  unfolding version_line_def format_line_def
  by (rule keyed_fieldI; simp add: provenance_keys_def plain_key_def one_line_utext)+

definition summary_lines :: "(int \<Rightarrow> utext) \<Rightarrow> (int \<Rightarrow> utext) \<Rightarrow> summary_compose_input \<Rightarrow> utext list \<Rightarrow> utext list" where
  "summary_lines rfc ymd r tags =
    before_provenance rfc r @ [version_line, format_line] @ alias_lines ymd r @ tag_block tags"

definition summary_fm :: "(int \<Rightarrow> utext) \<Rightarrow> (int \<Rightarrow> utext) \<Rightarrow> summary_compose_input \<Rightarrow> utext list \<Rightarrow> utext" where
  "summary_fm rfc ymd r tags = unlines ([fence] @ summary_lines rfc ymd r tags @ [fence])"

lemma summary_lines_keyed:
  assumes "\<forall>t. one_line (rfc t)"
  shows "\<forall>l\<in>set (summary_lines rfc ymd r tags). \<exists>ks. keyed ks l"
  using before_provenance_keyed [OF assms, of r] alias_lines_keyed [of ymd r] tag_block_keyed [of tags] provenance_keyed
  by (auto simp: summary_lines_def)

lemma summary_fm_split:
  assumes "\<forall>t. one_line (rfc t)"
  shows "split_front_matter (summary_fm rfc ymd r tags @ body) = Some (summary_fm rfc ymd r tags, body)"
  unfolding summary_fm_def
proof (rule split_composed)
  show "\<forall>l\<in>set (summary_lines rfc ymd r tags). 10 \<notin> set l \<and> l \<noteq> fence"
    using summary_lines_keyed [OF assms, of ymd r tags] keyed_one_line keyed_not_fence by (metis one_line_def)
qed (simp add: summary_lines_def)

lemma summary_fm_lines:
  assumes "\<forall>t. one_line (rfc t)"
  shows "lines_of (summary_fm rfc ymd r tags) = [fence] @ summary_lines rfc ymd r tags @ [fence]"
  unfolding summary_fm_def
proof (rule lines_unlines)
  have "one_line fence" by (simp add: fence_def)
  then show "\<forall>l\<in>set ([fence] @ summary_lines rfc ymd r tags @ [fence]). one_line l"
    using summary_lines_keyed [OF assms, of ymd r tags] keyed_one_line by auto
qed

subsection \<open>Rewriting tags\<close>

lemma provenance_skip:
  assumes "\<forall>l\<in>set ls. \<not> is_provenance l \<and> (inserted \<or> l \<noteq> utext_of ''aliases:'')"
  shows "provenance_loop (ls @ rest) acc inserted = provenance_loop rest (acc @ ls) inserted"
  using assms by (induction ls arbitrary: acc) auto

lemma tag_block_lines: "tag_block tags = (if tags = [] then [utext_of ''tags: []''] else tag_lines tags)"
  by (simp add: tag_block_def utext_tags field_def) (simp add: utext_of_def)

lemma strip_tag_block: "strip_tags (tag_block tags @ [fence]) = ([fence], True)"
proof -
  have f: "fence \<noteq> utext_of ''tags:''" "fence \<noteq> utext_of ''tags: []''" using head_not_fence by metis+
  have i: "\<not> is_item_line fence" by (simp add: is_item_line_def fence_def utext_of_def)
  show ?thesis by (simp add: tag_block_lines strip_tags_block f i)
qed

text \<open>Everything above the tags.\<close>

definition untagged :: "(int \<Rightarrow> utext) \<Rightarrow> (int \<Rightarrow> utext) \<Rightarrow> summary_compose_input \<Rightarrow> utext list" where
  "untagged rfc ymd r = before_provenance rfc r @ [version_line, format_line] @ alias_lines ymd r"

lemma summary_lines_untagged: "summary_lines rfc ymd r tags = untagged rfc ymd r @ tag_block tags"
  by (simp add: summary_lines_def untagged_def)

lemma untagged_not_tags:
  assumes "\<forall>t. one_line (rfc t)"
  shows "\<forall>l\<in>set (fence # untagged rfc ymd r). l \<noteq> utext_of ''tags:'' \<and> l \<noteq> utext_of ''tags: []''"
proof -
  have f: "fence \<noteq> utext_of ''tags:''" "fence \<noteq> utext_of ''tags: []''" using head_not_fence by metis+
  have "''tags'' \<notin> node_keys" "''tags'' \<notin> provenance_keys" "''tags'' \<notin> {''aliases''}"
    by (simp_all add: node_keys_def provenance_keys_def)
  then show ?thesis
    using before_provenance_keyed [OF assms, of r] alias_lines_keyed [of ymd r] provenance_keyed keyed_not_tags f
    unfolding untagged_def by fastforce
qed

lemma stanza_block: "tags_stanza tags @ [10] = unlines (tag_block tags)"
proof (cases "tags = []")
  case True
  then show ?thesis by (simp add: tags_stanza_def tag_block_lines unlines_def)
next
  case False
  then show ?thesis by (simp add: stanza_unlines tag_block_lines)
qed

lemma replace_summary_tags:
  assumes "\<forall>t. one_line (rfc t)"
  shows "replace_tags_in_front_matter (summary_fm rfc ymd r tags) new_tags = Inr (summary_fm rfc ymd r new_tags)"
proof -
  define upper where "upper = fence # untagged rfc ymd r"
  have "strip_tags (upper @ tag_block tags @ [fence]) = (upper @ [fence], True)"
    using strip_tags_skip [of upper "tag_block tags @ [fence]"] untagged_not_tags [OF assms]
    by (simp add: upper_def strip_tag_block del: strip_tags.simps)
  moreover have "lines_of (summary_fm rfc ymd r tags) = upper @ tag_block tags @ [fence]"
    by (simp add: summary_fm_lines [OF assms] summary_lines_untagged upper_def)
  ultimately have "replace_tags_in_front_matter (summary_fm rfc ymd r tags) new_tags =
      Inr (join [10] (upper @ [tags_stanza new_tags, fence]) @ [10])"
    by (simp add: replace_tags_in_front_matter_def before_fence_last)
  also have "join [10] (upper @ [tags_stanza new_tags, fence]) @ [10] =
      unlines upper @ (tags_stanza new_tags @ [10]) @ fence @ [10]"
    by (simp add: join_unlines unlines_def)
  also have "\<dots> = summary_fm rfc ymd r new_tags"
    unfolding stanza_block by (simp add: summary_fm_def summary_lines_untagged upper_def unlines_def)
  finally show ?thesis .
qed

lemma provenance_recognised: "is_provenance version_line" "is_provenance format_line"
  by (simp_all add: is_provenance_def version_line_def format_line_def strip_prefix_field)

lemma upsert_summary_fm:
  assumes "\<forall>t. one_line (rfc t)"
  shows "upsert_summary_provenance (summary_fm rfc ymd r tags) = summary_fm rfc ymd r tags"
proof -
  let ?hd_alias = "utext_of ''aliases:''" and ?label = "item (yaml_scalar (build_summary_alias ymd r))"
  let ?vf = "[version_line, format_line]" and ?block = "tag_block tags @ [fence]"
  define upper where "upper = fence # before_provenance rfc r"
  have alias_key: "plain_key ''aliases''" "?hd_alias = utext_of ''aliases'' @ [58]" by (simp_all add: plain_key_def utext_of_def)
  have keys: "node_keys \<inter> provenance_keys = {}" "{''aliases''} \<inter> provenance_keys = {}" "{''tags''} \<inter> provenance_keys = {}"
    "''aliases'' \<notin> node_keys" by (simp_all add: node_keys_def provenance_keys_def)
  have fence: "\<not> is_provenance fence" "fence \<noteq> ?hd_alias"
  proof -
    have "strip_prefix (utext_of key @ [58, 32]) fence = None" for key
      by (rule keyless_no_prefix) (simp_all add: keyless_def fence_def)
    then show "\<not> is_provenance fence" by (simp add: is_provenance_def)
    show "fence \<noteq> ?hd_alias" using head_not_fence by metis
  qed
  have u: "\<forall>l\<in>set upper. \<not> is_provenance l \<and> (False \<or> l \<noteq> ?hd_alias)"
    unfolding upper_def alias_key(2)
    using before_provenance_keyed [OF assms, of r] keyed_not_provenance [OF _ keys(1)]
      keyed_header [OF _ keys(4) alias_key(1)] fence alias_key(2) by auto
  have al: "\<not> is_provenance ?hd_alias" "\<not> is_provenance ?label"
    using alias_lines_keyed [of ymd r] keyed_not_provenance [OF _ keys(2)] by (auto simp: alias_lines_def)
  have b: "\<forall>l\<in>set (?label # ?block). \<not> is_provenance l \<and> (True \<or> l \<noteq> ?hd_alias)"
    using tag_block_keyed [of tags] keyed_not_provenance [OF _ keys(3)] fence(1) al(2) by auto
  have "provenance_loop (upper @ ?vf @ ?hd_alias # ?label # ?block) [] False =
      provenance_loop (?vf @ ?hd_alias # ?label # ?block) upper False"
    using provenance_skip [OF u, of "?vf @ ?hd_alias # ?label # ?block" "[]"] by simp
  also have "\<dots> = provenance_loop ((?label # ?block) @ []) (upper @ ?vf @ [?hd_alias]) True"
    by (simp add: provenance_recognised al(1))
  also have "\<dots> = (upper @ ?vf @ ?hd_alias # ?label # ?block, True)"
    unfolding provenance_skip [OF b] by simp
  finally have loop: "provenance_loop (lines_of (summary_fm rfc ymd r tags)) [] False =
      (lines_of (summary_fm rfc ymd r tags), True)"
    by (simp add: summary_fm_lines [OF assms] summary_lines_def alias_lines_def upper_def)
  show ?thesis
    unfolding upsert_summary_provenance_def loop prod.case if_True
    unfolding summary_fm_lines [OF assms]
    by (simp add: join_unlines summary_fm_def del: join.simps)
qed

lemma rewrite_summary_fm:
  assumes "\<forall>t. one_line (rfc t)"
  shows "rewrite_summary_tags (Utf8 (summary_fm rfc ymd r tags @ body)) new_tags =
    Inr (Utf8 (summary_fm rfc ymd r new_tags @ body))"
  by (simp add: rewrite_summary_tags_def rewrite_tags_def summary_fm_split [OF assms] replace_summary_tags [OF assms]
      upsert_summary_fm [OF assms])

lemma summary_fm_scan:
  assumes "\<forall>t. one_line (rfc t)" and "plain_key key" and "fence # summary_lines rfc ymd r tags = pre @ field key v # post"
    and "\<forall>l\<in>set pre. no_key key l"
  shows "scan_fm_field (summary_fm rfc ymd r tags) (utext_of key) = Some (field_value v)"
proof -
  have "lines_of (summary_fm rfc ymd r tags) = pre @ field key v # post @ [fence]"
    using summary_fm_lines [OF assms(1), of ymd r tags] assms(3) by simp
  then show ?thesis unfolding scan_fm_field_def using scan_to_field [OF assms(4,2)] by simp
qed

text \<open>What a reader finds in the front matter of a summary's file.\<close>

definition summary_reads_back :: "summary_compose_input \<Rightarrow> utext \<Rightarrow> bool" where
  "summary_reads_back r fm \<longleftrightarrow>
     scan_fm_field fm (utext_of ''id'') = Some (sf_summary_id r) \<and>
     scan_fm_field fm (utext_of ''tree_kind'') = Some (utext_of (tree_kind_as_str (sf_tree_kind r))) \<and>
     scan_fm_field fm (utext_of ''tree_id'') = Some (sf_tree_id r) \<and>
     scan_fm_field fm (utext_of ''tree_scope'') = Some (sf_tree_scope r)"

lemma summary_fm_reads_back:
  assumes "\<forall>t. one_line (rfc t)"
  shows "summary_reads_back r (summary_fm rfc ymd r tags)"
proof -
  let ?fm = "summary_fm rfc ymd r tags"
  have k: "plain_key ''id''" "plain_key ''kind''" "plain_key ''tree_kind''" "plain_key ''tree_id''" "plain_key ''tree_scope''"
    by (simp_all add: plain_key_def)
  define rest where "rest = field ''level'' (show_u (sf_level r)) # children_lines r @ field_lines (range_fields rfc r) @
     [version_line, format_line] @ alias_lines ymd r @ tag_block tags"
  let ?i = "field ''id'' (yaml_scalar (sf_summary_id r))" and ?k = "field ''kind'' (utext_of ''summary'')"
  let ?tk = "field ''tree_kind'' (utext_of (tree_kind_as_str (sf_tree_kind r)))"
  let ?ti = "field ''tree_id'' (yaml_scalar (sf_tree_id r))" and ?ts = "field ''tree_scope'' (yaml_scalar (sf_tree_scope r))"
  have ls: "fence # summary_lines rfc ymd r tags = fence # ?i # ?k # ?tk # ?ti # ?ts # rest"
    by (simp add: summary_lines_def before_provenance_def head_fields_def field_lines_def rest_def)
  have "scan_fm_field ?fm (utext_of ''id'') = Some (field_value (yaml_scalar (sf_summary_id r)))"
    by (rule summary_fm_scan [OF assms k(1), of _ _ _ "[fence]"]) (simp_all add: ls no_key_fence)
  moreover have "scan_fm_field ?fm (utext_of ''tree_kind'') = Some (field_value (utext_of (tree_kind_as_str (sf_tree_kind r))))"
    by (rule summary_fm_scan [OF assms k(3), of _ _ _ "[fence, ?i, ?k]"]) (simp_all add: ls no_key_fence no_key_field k)
  moreover have "scan_fm_field ?fm (utext_of ''tree_id'') = Some (field_value (yaml_scalar (sf_tree_id r)))"
    by (rule summary_fm_scan [OF assms k(4), of _ _ _ "[fence, ?i, ?k, ?tk]"]) (simp_all add: ls no_key_fence no_key_field k)
  moreover have "scan_fm_field ?fm (utext_of ''tree_scope'') = Some (field_value (yaml_scalar (sf_tree_scope r)))"
    by (rule summary_fm_scan [OF assms k(5), of _ _ _ "[fence, ?i, ?k, ?tk, ?ti]"]) (simp_all add: ls no_key_fence no_key_field k)
  moreover have "field_value (utext_of (tree_kind_as_str (sf_tree_kind r))) = utext_of (tree_kind_as_str (sf_tree_kind r))"
    by (cases "sf_tree_kind r") (simp_all add: field_value_def utext_of_def trim_def is_white_def strip_prefix_def)
  ultimately show ?thesis by (simp add: summary_reads_back_def field_value_yaml)
qed

lemma compose_summary_fm:
  "compose_summary_md rfc ymd lower r =
    (summary_fm rfc ymd r (seed_tags lower r), sf_body r, summary_fm rfc ymd r (seed_tags lower r) @ sf_body r)"
  by (simp add: compose_summary_md_def build_summary_front_matter_def summary_fm_def summary_lines_def Let_def)

text \<open>
  C17: a composed summary file splits back into its front matter and the summary, byte for byte, and the
  node's id, tree, kind and scope read back whatever they hold. Rewriting its tags, any number of
  times, always succeeds and changes nothing but the tag block: the front matter composed with some tags
  is the same lines around the block of these tags, none of which starts a tag block; the rewritten file
  is the one composing with the new tags gives, its two provenance lines kept once and in place.
\<close>
theorem summary_file_roundtrip:
  assumes "\<forall>t. one_line (rfc t)"
  shows "\<exists>fm upper. fst (compose_summary_md rfc ymd lower r) = fm (seed_tags lower r) \<and>
    snd (snd (compose_summary_md rfc ymd lower r)) = fm (seed_tags lower r) @ sf_body r \<and>
    (\<forall>l\<in>set upper. l \<noteq> utext_of ''tags:'' \<and> l \<noteq> utext_of ''tags: []'') \<and>
    (\<forall>tags. lines_of (fm tags) = upper @ tag_block tags @ [fence]) \<and>
    (\<forall>tags new_tags. split_front_matter (fm tags @ sf_body r) = Some (fm tags, sf_body r) \<and>
      summary_reads_back r (fm tags) \<and>
      filter is_provenance (lines_of (fm tags)) = [version_line, format_line] \<and>
      rewrite_summary_tags (Utf8 (fm tags @ sf_body r)) new_tags = Inr (Utf8 (fm new_tags @ sf_body r)))"
proof -
  have keys: "node_keys \<inter> provenance_keys = {}" "{''aliases''} \<inter> provenance_keys = {}" "{''tags''} \<inter> provenance_keys = {}"
    by (simp_all add: node_keys_def provenance_keys_def)
  have none: "filter is_provenance ls = []" if "\<forall>l\<in>set ls. keyed ks l" "ks \<inter> provenance_keys = {}" for ls ks
    using that keyed_not_provenance by (auto simp: filter_empty_conv)
  have "strip_prefix (utext_of key @ [58, 32]) fence = None" for key
    by (rule keyless_no_prefix) (simp_all add: keyless_def fence_def)
  then have fence: "\<not> is_provenance fence" by (simp add: is_provenance_def)
  have "filter is_provenance (lines_of (summary_fm rfc ymd r tags)) = [version_line, format_line]" for tags
    using none [OF before_provenance_keyed [OF assms] keys(1), of r] none [OF alias_lines_keyed keys(2), of ymd r]
      none [OF tag_block_keyed keys(3), of tags]
    by (simp add: summary_fm_lines [OF assms] summary_lines_def fence provenance_recognised)
  then show ?thesis
    using summary_fm_split [OF assms] summary_fm_reads_back [OF assms] rewrite_summary_fm [OF assms] compose_summary_fm
      untagged_not_tags [OF assms, of ymd r] summary_fm_lines [OF assms, of ymd r]
    by (intro exI [of _ "summary_fm rfc ymd r"] exI [of _ "fence # untagged rfc ymd r"])
      (simp add: summary_lines_untagged)
qed

definition sample_summary_file :: summary_compose_input where
  "sample_summary_file = \<lparr>sf_summary_id = utext_of ''summary:1'', sf_tree_kind = Source, sf_tree_id = utext_of ''t'',
     sf_tree_scope = [34, 10, 92], sf_level = 1, sf_child_ids = [utext_of ''a''], sf_child_basenames = None,
     sf_child_count = 1, sf_time_range_start = 0, sf_time_range_end = 0, sf_sealed_at = 0, sf_body = [45, 45, 45, 10]\<rparr>"

theorem summary_file_roundtrip_witness:
  "\<exists>fm. rewrite_summary_tags (Utf8 (snd (snd (compose_summary_md (\<lambda>t. utext_of ''now'') (\<lambda>t. utext_of ''today'') (\<lambda>s. s)
      sample_summary_file)))) [] = Inr (Utf8 (fm @ [45, 45, 45, 10])) \<and> summary_reads_back sample_summary_file fm"
proof -
  have one: "\<forall>t. one_line ((\<lambda>t :: int. utext_of ''now'') t)" by (simp add: one_line_utext)
  obtain fm upper where "snd (snd (compose_summary_md (\<lambda>t. utext_of ''now'') (\<lambda>t. utext_of ''today'') (\<lambda>s. s) sample_summary_file)) =
      fm (seed_tags (\<lambda>s. s) sample_summary_file) @ sf_body sample_summary_file"
    and "\<forall>tags new_tags. summary_reads_back sample_summary_file (fm tags) \<and>
      rewrite_summary_tags (Utf8 (fm tags @ sf_body sample_summary_file)) new_tags =
        Inr (Utf8 (fm new_tags @ sf_body sample_summary_file))"
    using summary_file_roundtrip [OF one, of "\<lambda>t. utext_of ''today''" "\<lambda>s. s" sample_summary_file] by blast
  then show ?thesis by (intro exI [of _ "fm []"]) (simp add: sample_summary_file_def)
qed

end
