(* ===== verification/Chunk_Store.thy ===== *)
theory Chunk_Store
  imports Tree_Store Front_Matter
begin

section \<open>The chunk store (src/memory/chunks: store.rs, store_sources.rs, raw_refs.rs)\<close>

text \<open>
  The whole chunk table, with the tables keyed off it, beside the tables of the trees in the same
  database. Tree code sees a projection of the chunk rows, kept in step by \<^verbatim>\<open>set_rows\<close>, the only way
  the rows are written here. JSON columns hold their value, or \<^verbatim>\<open>Raw_Corrupt\<close> for a text that does not
  parse. \<^verbatim>\<open>SourceKind\<close> and \<^verbatim>\<open>Chunk\<close> belong to the API crate: a kind is stored as itself (its wire name
  is injective), and a raw file's gate has a kind of its own.
\<close>

subsection \<open>Rows\<close>

record raw_ref =
  rr_path :: string
  rr_start :: nat
  rr_end :: "nat option"

datatype raw_json = Raw_Empty | Raw_Refs "raw_ref list" | Raw_Corrupt

record chunk =
  ch_id :: string
  ch_content :: utext
  ch_source_kind :: source_kind
  ch_source_id :: string
  ch_owner :: string
  ch_timestamp :: int
  ch_time_range :: "int \<times> int"
  ch_tags :: "string list"
  ch_source_ref :: "string option"
  ch_path_scope :: "string option"
  ch_token_count :: nat
  ch_seq_in_source :: nat
  ch_created_at :: int

record stored_chunk = chunk_row +
  st_source_kind :: source_kind
  st_source_id :: string
  st_path_scope :: "string option"
  st_source_ref :: "string option"
  st_owner :: string
  st_timestamp :: int
  st_seq :: nat
  st_created_at :: int
  st_content_path :: "string option"
  st_content_sha256 :: "string option"
  st_lifecycle :: string
  st_raw_refs :: "raw_json option"

datatype gate_kind = Source_Gate source_kind | Raw_File_Gate

record ingest_gate =
  ig_kind :: gate_kind
  ig_source_id :: string
  ig_ingested_at :: int

record chunk_embedding =
  em_chunk_id :: string
  em_signature :: string
  em_vector :: "rat list"

record reembed_skip =
  rs_chunk_id :: string
  rs_signature :: string
  rs_reason :: string

record chunk_db =
  cd_tree :: tree_db
  cd_rows :: "stored_chunk list"
  cd_embeddings :: "chunk_embedding list"
  cd_skipped :: "reembed_skip list"
  cd_gates :: "ingest_gate list"

definition gate_key :: "ingest_gate \<Rightarrow> gate_kind \<times> string" where
  "gate_key g = (ig_kind g, ig_source_id g)"

definition chunks_ok :: "stored_chunk list \<Rightarrow> bool" where
  "chunks_ok t \<longleftrightarrow> distinct (map ck_id t)"

definition gates_ok :: "ingest_gate list \<Rightarrow> bool" where
  "gates_ok t \<longleftrightarrow> distinct (map gate_key t)"

interpretation chunks: keyed_table ck_id chunks_ok
  by unfold_locales (simp add: chunks_ok_def)

interpretation gates: keyed_table gate_key gates_ok
  by unfold_locales (simp add: gates_ok_def)

definition set_rows :: "stored_chunk list \<Rightarrow> chunk_db \<Rightarrow> chunk_db" where
  "set_rows rows db = db\<lparr>cd_rows := rows, cd_tree := (cd_tree db)\<lparr>db_chunks := map chunk_row.truncate rows\<rparr>\<rparr>"

definition CHUNK_STATUS_PENDING_EXTRACTION :: string where "CHUNK_STATUS_PENDING_EXTRACTION = ''pending_extraction''"
definition CHUNK_STATUS_ADMITTED :: string where "CHUNK_STATUS_ADMITTED = ''admitted''"
definition CHUNK_STATUS_BUFFERED :: string where "CHUNK_STATUS_BUFFERED = ''buffered''"
definition CHUNK_STATUS_SEALED :: string where "CHUNK_STATUS_SEALED = ''sealed''"
definition CHUNK_STATUS_DROPPED :: string where "CHUNK_STATUS_DROPPED = ''dropped''"

definition chunk_to_row :: "chunk \<Rightarrow> stored_chunk" where
  "chunk_to_row c =
    \<lparr>ck_id = ch_id c, ck_content = ch_content c, ck_token_count = ch_token_count c, ck_tags = ch_tags c,
     ck_time_range_start = fst (ch_time_range c), ck_time_range_end = snd (ch_time_range c),
     ck_parent_summary_id = None, st_source_kind = ch_source_kind c, st_source_id = ch_source_id c,
     st_path_scope = ch_path_scope c, st_source_ref = ch_source_ref c, st_owner = ch_owner c,
     st_timestamp = ch_timestamp c, st_seq = ch_seq_in_source c, st_created_at = ch_created_at c,
     st_content_path = None, st_content_sha256 = None, st_lifecycle = CHUNK_STATUS_ADMITTED, st_raw_refs = None\<rparr>"

definition row_to_chunk :: "stored_chunk \<Rightarrow> chunk" where
  "row_to_chunk r =
    \<lparr>ch_id = ck_id r, ch_content = ck_content r, ch_source_kind = st_source_kind r, ch_source_id = st_source_id r,
     ch_owner = st_owner r, ch_timestamp = st_timestamp r, ch_time_range = (ck_time_range_start r, ck_time_range_end r),
     ch_tags = ck_tags r, ch_source_ref = st_source_ref r, ch_path_scope = st_path_scope r,
     ch_token_count = ck_token_count r, ch_seq_in_source = st_seq r, ch_created_at = st_created_at r\<rparr>"

subsection \<open>Upserts\<close>

text \<open>The columns both upserts overwrite.\<close>

definition overwrite_row :: "stored_chunk \<Rightarrow> stored_chunk \<Rightarrow> stored_chunk" where
  "overwrite_row new old = old\<lparr>st_source_kind := st_source_kind new, st_source_id := st_source_id new,
     st_path_scope := st_path_scope new, st_source_ref := st_source_ref new, st_owner := st_owner new,
     st_timestamp := st_timestamp new, ck_time_range_start := ck_time_range_start new,
     ck_time_range_end := ck_time_range_end new, ck_tags := ck_tags new, ck_content := ck_content new,
     ck_token_count := ck_token_count new, st_seq := st_seq new, st_created_at := st_created_at new\<rparr>"

definition upsert_row :: "(stored_chunk \<Rightarrow> stored_chunk) \<Rightarrow> stored_chunk \<Rightarrow> stored_chunk list \<Rightarrow> stored_chunk list" where
  "upsert_row f new = sql_upsert (\<lambda>r. ck_id r = ck_id new) f new"

definition upsert_chunk :: "chunk \<Rightarrow> stored_chunk list \<Rightarrow> stored_chunk list" where
  "upsert_chunk c = (let new = chunk_to_row c in
     upsert_row (\<lambda>old. overwrite_row new old\<lparr>st_content_path := None, st_content_sha256 := None,
       st_lifecycle := st_lifecycle new\<rparr>) new)"

definition upsert_chunks_tx :: "chunk list \<Rightarrow> chunk_db \<Rightarrow> nat \<times> chunk_db" where
  "upsert_chunks_tx cs db =
    (if cs = [] then (0, db) else (length cs, set_rows (fold upsert_chunk cs (cd_rows db)) db))"

text \<open>The files of the staged bodies the batch replaces, removed after the commit.\<close>

definition replaced_content_paths :: "chunk list \<Rightarrow> chunk_db \<Rightarrow> string list" where
  "replaced_content_paths cs db = List.map_filter (\<lambda>c.
     case sql_find (\<lambda>r. ck_id r = ch_id c) (cd_rows db) of
       None \<Rightarrow> None
     | Some r \<Rightarrow> (case st_content_path r of Some p \<Rightarrow> (if p \<noteq> [] then Some p else None) | None \<Rightarrow> None)) cs"

definition CONTENT_PREVIEW_CHARS :: nat where "CONTENT_PREVIEW_CHARS = 500"

record staged_chunk =
  sg_chunk :: chunk
  sg_content_path :: string
  sg_content_sha256 :: string

definition upsert_staged_chunk :: "staged_chunk \<Rightarrow> stored_chunk list \<Rightarrow> stored_chunk list" where
  "upsert_staged_chunk s =
    (let new = (chunk_to_row (sg_chunk s))\<lparr>ck_content := take CONTENT_PREVIEW_CHARS (ch_content (sg_chunk s)),
           st_content_path := Some (sg_content_path s), st_content_sha256 := Some (sg_content_sha256 s)\<rparr>
     in upsert_row (\<lambda>old. overwrite_row new old\<lparr>st_content_path := st_content_path new,
          st_content_sha256 := st_content_sha256 new\<rparr>) new)"

definition upsert_staged_chunks_tx :: "staged_chunk list \<Rightarrow> chunk_db \<Rightarrow> nat \<times> chunk_db" where
  "upsert_staged_chunks_tx ss db =
    (if ss = [] then (0, db) else (length ss, set_rows (fold upsert_staged_chunk ss (cd_rows db)) db))"

subsection \<open>Reads\<close>

definition get_chunk :: "string \<Rightarrow> chunk_db \<Rightarrow> chunk option" where
  "get_chunk i db = map_option row_to_chunk (sql_find (\<lambda>r. ck_id r = i) (cd_rows db))"

definition CHUNKS_MAX_FETCH_BATCH :: nat where "CHUNKS_MAX_FETCH_BATCH = 500"

definition get_full_chunks_batch :: "string list \<Rightarrow> chunk_db \<Rightarrow> (string \<rightharpoonup> chunk)" where
  "get_full_chunks_batch ids db =
    (\<lambda>i. map_option row_to_chunk (fetch_batch ck_id CHUNKS_MAX_FETCH_BATCH ids (cd_rows db) i))"

definition count_chunks :: "chunk_db \<Rightarrow> nat" where
  "count_chunks db = length (cd_rows db)"

definition extraction_coverage :: "chunk_db \<Rightarrow> rat" where
  "extraction_coverage db =
    (if cd_rows db = [] then 0
     else of_nat (sql_count (\<lambda>r. \<exists>e\<in>set (db_entity_index (cd_tree db)). ix_node_id e = ck_id r) (cd_rows db)) /
       of_nat (length (cd_rows db)))"

definition list_source_ids_with_prefix :: "source_kind \<Rightarrow> string \<Rightarrow> chunk_db \<Rightarrow> string list" where
  "list_source_ids_with_prefix kind pre db =
    filter (\<lambda>i. take (length pre) i = pre)
      (sort (remdups (map st_source_id (filter (\<lambda>r. st_source_kind r = kind) (cd_rows db)))))"

definition update_rows :: "(stored_chunk \<Rightarrow> bool) \<Rightarrow> (stored_chunk \<Rightarrow> stored_chunk) \<Rightarrow> chunk_db \<Rightarrow> chunk_db" where
  "update_rows p f db = set_rows (sql_update p f (cd_rows db)) db"

definition update_chunk_content_sha256 :: "string \<Rightarrow> string \<Rightarrow> chunk_db \<Rightarrow> chunk_db" where
  "update_chunk_content_sha256 chunk_id sha =
    update_rows (\<lambda>r. ck_id r = chunk_id) (\<lambda>r. r\<lparr>st_content_sha256 := Some sha\<rparr>)"

definition update_summary_content_sha256 :: "string \<Rightarrow> string \<Rightarrow> tree_db \<Rightarrow> tree_db" where
  "update_summary_content_sha256 summary_id sha db =
    db\<lparr>db_summaries := sql_update (\<lambda>r. sn_id (sr_node r) = summary_id)
      (\<lambda>r. r\<lparr>sr_content_sha256 := Some sha\<rparr>) (db_summaries db)\<rparr>"

subsection \<open>Lifecycle and gates (store_sources.rs)\<close>

definition set_chunk_lifecycle_status :: "string \<Rightarrow> string \<Rightarrow> (unit, chunk_db) tx" where
  "set_chunk_lifecycle_status chunk_id status db =
    (if sql_count (\<lambda>r. ck_id r = chunk_id) (cd_rows db) = 0
     then Inl (plain_error (''set_chunk_lifecycle_status: no chunk row for id='' @ chunk_id))
     else Inr ((), update_rows (\<lambda>r. ck_id r = chunk_id) (\<lambda>r. r\<lparr>st_lifecycle := status\<rparr>) db))"

definition get_chunk_lifecycle_status :: "string \<Rightarrow> chunk_db \<Rightarrow> string option" where
  "get_chunk_lifecycle_status i db = map_option st_lifecycle (sql_find (\<lambda>r. ck_id r = i) (cd_rows db))"

definition count_chunks_by_lifecycle_status :: "string \<Rightarrow> chunk_db \<Rightarrow> nat" where
  "count_chunks_by_lifecycle_status status db = sql_count (\<lambda>r. st_lifecycle r = status) (cd_rows db)"

definition has_gate :: "gate_kind \<Rightarrow> string \<Rightarrow> ingest_gate list \<Rightarrow> bool" where
  "has_gate kind source_id t \<longleftrightarrow> sql_count (\<lambda>g. gate_key g = (kind, source_id)) t > 0"

definition insert_gate :: "gate_kind \<Rightarrow> string \<Rightarrow> int \<Rightarrow> ingest_gate list \<Rightarrow> bool \<times> ingest_gate list" where
  "insert_gate kind source_id now_ms t =
    (if has_gate kind source_id t then (False, t)
     else (True, t @ [\<lparr>ig_kind = kind, ig_source_id = source_id, ig_ingested_at = now_ms\<rparr>]))"

definition is_source_ingested :: "source_kind \<Rightarrow> string \<Rightarrow> chunk_db \<Rightarrow> bool" where
  "is_source_ingested kind source_id db = has_gate (Source_Gate kind) source_id (cd_gates db)"

definition claim_source_ingest_tx :: "source_kind \<Rightarrow> string \<Rightarrow> int \<Rightarrow> chunk_db \<Rightarrow> bool \<times> chunk_db" where
  "claim_source_ingest_tx kind source_id now_ms db =
    (case insert_gate (Source_Gate kind) source_id now_ms (cd_gates db) of
       (inserted, t) \<Rightarrow> (inserted, db\<lparr>cd_gates := t\<rparr>))"

definition delete_source_ingest :: "source_kind \<Rightarrow> string \<Rightarrow> chunk_db \<Rightarrow> chunk_db" where
  "delete_source_ingest kind source_id db =
    db\<lparr>cd_gates := sql_delete (\<lambda>g. gate_key g = (Source_Gate kind, source_id)) (cd_gates db)\<rparr>"

definition mark_raw_paths_ingested :: "string list \<Rightarrow> int \<Rightarrow> chunk_db \<Rightarrow> nat \<times> chunk_db" where
  "mark_raw_paths_ingested paths now_ms db =
    (if paths = [] then (0, db)
     else case fold (\<lambda>p (n, t). case insert_gate Raw_File_Gate p now_ms t of
              (inserted, t') \<Rightarrow> (if inserted then n + 1 else n, t')) paths (0, cd_gates db) of
       (n, t) \<Rightarrow> (n, db\<lparr>cd_gates := t\<rparr>))"

definition filter_raw_paths_not_ingested :: "string list \<Rightarrow> chunk_db \<Rightarrow> string list" where
  "filter_raw_paths_not_ingested paths db = filter (\<lambda>p. \<not> has_gate Raw_File_Gate p (cd_gates db)) paths"

definition count_raw_paths_ingested_with_prefix :: "string \<Rightarrow> chunk_db \<Rightarrow> nat" where
  "count_raw_paths_ingested_with_prefix pre db =
    sql_count (\<lambda>g. ig_kind g = Raw_File_Gate \<and> take (length pre) (ig_source_id g) = pre) (cd_gates db)"

subsection \<open>Raw references and content pointers (raw_refs.rs)\<close>

definition set_chunk_raw_refs :: "string \<Rightarrow> raw_ref list \<Rightarrow> chunk_db \<Rightarrow> chunk_db" where
  "set_chunk_raw_refs chunk_id refs =
    update_rows (\<lambda>r. ck_id r = chunk_id) (\<lambda>r. r\<lparr>st_raw_refs := Some (Raw_Refs refs)\<rparr>)"

definition raw_paths :: "stored_chunk \<Rightarrow> string list" where
  "raw_paths r = (case st_raw_refs r of Some (Raw_Refs refs) \<Rightarrow> map rr_path refs | _ \<Rightarrow> [])"

definition get_chunk_raw_refs :: "string \<Rightarrow> chunk_db \<Rightarrow> raw_ref list option result" where
  "get_chunk_raw_refs chunk_id db =
    (case sql_find (\<lambda>r. ck_id r = chunk_id) (cd_rows db) of
       None \<Rightarrow> Inr None
     | Some r \<Rightarrow> (case st_raw_refs r of
          Some (Raw_Refs refs) \<Rightarrow> Inr (Some refs)
        | Some Raw_Corrupt \<Rightarrow> Inl (plain_error ''deserialize raw_refs_json'')
        | _ \<Rightarrow> Inr None))"

definition list_chunk_raw_ref_paths_with_prefix :: "string \<Rightarrow> chunk_db \<Rightarrow> string set" where
  "list_chunk_raw_ref_paths_with_prefix pre db =
    set (filter (\<lambda>p. take (length pre) p = pre) (concat (map raw_paths (cd_rows db))))"

definition nonempty :: "string option \<Rightarrow> string option" where
  "nonempty p = (case p of Some s \<Rightarrow> (if s \<noteq> [] then Some s else None) | None \<Rightarrow> None)"

definition get_chunk_content_pointers :: "string \<Rightarrow> chunk_db \<Rightarrow> (string \<times> string) option" where
  "get_chunk_content_pointers chunk_id db =
    (case sql_find (\<lambda>r. ck_id r = chunk_id) (cd_rows db) of
       None \<Rightarrow> None
     | Some r \<Rightarrow> (case (nonempty (st_content_path r), st_content_sha256 r) of
          (Some p, Some s) \<Rightarrow> Some (p, s) | _ \<Rightarrow> None))"

definition get_chunk_content_path :: "string \<Rightarrow> chunk_db \<Rightarrow> string option" where
  "get_chunk_content_path chunk_id db =
    (case sql_find (\<lambda>r. ck_id r = chunk_id) (cd_rows db) of None \<Rightarrow> None | Some r \<Rightarrow> nonempty (st_content_path r))"

definition get_summary_content_pointers :: "string \<Rightarrow> tree_db \<Rightarrow> (string \<times> string) option" where
  "get_summary_content_pointers summary_id db =
    (case sql_find (\<lambda>r. sn_id (sr_node r) = summary_id) (db_summaries db) of
       None \<Rightarrow> None
     | Some r \<Rightarrow> (case (sr_content_path r, sr_content_sha256 r) of (Some p, Some s) \<Rightarrow> Some (p, s) | _ \<Rightarrow> None))"

definition list_summaries_with_content_path :: "tree_db \<Rightarrow> (string \<times> string \<times> string) list" where
  "list_summaries_with_content_path db = List.map_filter (\<lambda>r.
     case (sr_content_path r, sr_content_sha256 r) of
       (Some p, Some s) \<Rightarrow> (if sn_deleted (sr_node r) then None else Some (sn_id (sr_node r), p, s))
     | _ \<Rightarrow> None) (db_summaries db)"

end
