(* ===== verification/Chunk_List.thy ===== *)
theory Chunk_List
  imports Chunk_Store "HOL-Library.Product_Lexorder" "HOL-Library.List_Lexorder" "HOL-Library.Char_ord"
begin

section \<open>Filtered chunk listing (src/memory/chunks/store_list.rs)\<close>

text \<open>
  One filter decides what a listing, its detail view and its count match; order and page bounds are
  the listing's own. \<^verbatim>\<open>LIKE\<close> is SQLite's: \<^verbatim>\<open>%\<close> any run, \<^verbatim>\<open>_\<close> any character, the escape character
  before a literal one, letters compared without ASCII case.
\<close>

definition DEFAULT_LIST_LIMIT :: nat where "DEFAULT_LIST_LIMIT = 100"
definition MAX_LIST_LIMIT :: nat where "MAX_LIST_LIMIT = 10000"

record list_chunks_query =
  lq_source_kind :: "source_kind option"
  lq_source_id :: "string option"
  lq_owner :: "string option"
  lq_since_ms :: "int option"
  lq_until_ms :: "int option"
  lq_limit :: "nat option"
  lq_offset :: "nat option"
  lq_source_scope :: "string set option"
  lq_exclude_dropped :: bool
  lq_ids :: "string list"
  lq_source_kinds :: "source_kind list"
  lq_source_ids :: "string list"
  lq_entity_ids :: "string list"
  lq_entity_kinds :: "string list"
  lq_content_contains :: "utext option"

definition list_chunks_query_default :: list_chunks_query where
  "list_chunks_query_default =
    \<lparr>lq_source_kind = None, lq_source_id = None, lq_owner = None, lq_since_ms = None, lq_until_ms = None,
     lq_limit = None, lq_offset = None, lq_source_scope = None, lq_exclude_dropped = False, lq_ids = [],
     lq_source_kinds = [], lq_source_ids = [], lq_entity_ids = [], lq_entity_kinds = [], lq_content_contains = None\<rparr>"

subsection \<open>Patterns\<close>

definition ascii_lower :: "nat \<Rightarrow> nat" where
  "ascii_lower c = (if 65 \<le> c \<and> c \<le> 90 then c + 32 else c)"

fun like_match :: "utext \<Rightarrow> utext \<Rightarrow> bool" where
  "like_match [] s = (s = [])"
| "like_match (c # p) s =
    (if c = 37 then like_match p s \<or> (case s of [] \<Rightarrow> False | _ # s' \<Rightarrow> like_match (c # p) s')
     else if c = 95 then (case s of [] \<Rightarrow> False | _ # s' \<Rightarrow> like_match p s')
     else if c = 92 then
       (case p of [] \<Rightarrow> False
        | d # p' \<Rightarrow> (case s of [] \<Rightarrow> False | e # s' \<Rightarrow> ascii_lower d = ascii_lower e \<and> like_match p' s'))
     else (case s of [] \<Rightarrow> False | e # s' \<Rightarrow> ascii_lower c = ascii_lower e \<and> like_match p s'))"

definition escape_like :: "nat \<Rightarrow> utext" where
  "escape_like c = (if c = 92 \<or> c = 37 \<or> c = 95 then [92, c] else [c])"

definition like_contains_pattern :: "utext \<Rightarrow> utext" where
  "like_contains_pattern value = [37] @ concat (map escape_like value) @ [37]"

subsection \<open>The filter\<close>

definition passes :: "'a option \<Rightarrow> ('a \<Rightarrow> bool) \<Rightarrow> bool" where
  "passes v p \<longleftrightarrow> (case v of None \<Rightarrow> True | Some x \<Rightarrow> p x)"

definition in_list :: "'a list \<Rightarrow> 'a \<Rightarrow> bool" where
  "in_list values x \<longleftrightarrow> values = [] \<or> x \<in> set values"

definition entity_exists :: "(index_row \<Rightarrow> string) \<Rightarrow> string list \<Rightarrow> entity_index \<Rightarrow> string \<Rightarrow> bool" where
  "entity_exists column values ix chunk_id \<longleftrightarrow>
    values = [] \<or> (\<exists>e\<in>set ix. ix_node_id e = chunk_id \<and> column e \<in> set values)"

definition source_in_scope :: "string \<Rightarrow> string \<Rightarrow> bool" where
  "source_in_scope source_id allowed \<longleftrightarrow>
    (let pre = ''mem_src:'' @ allowed @ '':'' in source_id = allowed \<or> take (length pre) source_id = pre)"

definition append_source_scope :: "string set option \<Rightarrow> stored_chunk \<Rightarrow> bool" where
  "append_source_scope scope r \<longleftrightarrow>
    passes scope (\<lambda>allowed. ''memory_sources'' \<notin> set (ck_tags r) \<or> (\<exists>a\<in>allowed. source_in_scope (st_source_id r) a))"

definition append_filters :: "list_chunks_query \<Rightarrow> entity_index \<Rightarrow> stored_chunk \<Rightarrow> bool" where
  "append_filters q ix r \<longleftrightarrow>
     passes (lq_source_kind q) (\<lambda>k. st_source_kind r = k) \<and>
     passes (lq_source_id q) (\<lambda>i. st_source_id r = i) \<and>
     passes (lq_owner q) (\<lambda>o'. st_owner r = o') \<and>
     passes (lq_since_ms q) (\<lambda>t. t \<le> st_timestamp r) \<and>
     passes (lq_until_ms q) (\<lambda>t. st_timestamp r \<le> t) \<and>
     in_list (lq_ids q) (ck_id r) \<and> in_list (lq_source_kinds q) (st_source_kind r) \<and>
     in_list (lq_source_ids q) (st_source_id r) \<and>
     entity_exists ix_entity_id (lq_entity_ids q) ix (ck_id r) \<and>
     entity_exists ix_entity_kind (lq_entity_kinds q) ix (ck_id r) \<and>
     passes (lq_content_contains q) (\<lambda>v. like_match (like_contains_pattern v) (ck_content r)) \<and>
     (lq_exclude_dropped q \<longrightarrow> st_lifecycle r \<noteq> CHUNK_STATUS_DROPPED) \<and>
     append_source_scope (lq_source_scope q) r"

definition normalized_limit :: "nat option \<Rightarrow> nat" where
  "normalized_limit requested =
    min MAX_LIST_LIMIT (max 1 (case requested of Some n \<Rightarrow> n | None \<Rightarrow> DEFAULT_LIST_LIMIT))"

definition row_order :: "stored_chunk \<Rightarrow> int \<times> nat \<times> string" where
  "row_order r = (- st_timestamp r, st_seq r, ck_id r)"

definition append_page :: "list_chunks_query \<Rightarrow> stored_chunk list \<Rightarrow> stored_chunk list" where
  "append_page q rows =
    take (normalized_limit (lq_limit q))
      (drop (case lq_offset q of Some n \<Rightarrow> n | None \<Rightarrow> 0) (sort_key row_order rows))"

definition matching_rows :: "list_chunks_query \<Rightarrow> chunk_db \<Rightarrow> stored_chunk list" where
  "matching_rows q db = filter (append_filters q (db_entity_index (cd_tree db))) (cd_rows db)"

definition list_chunks :: "list_chunks_query \<Rightarrow> chunk_db \<Rightarrow> chunk list" where
  "list_chunks q db = map row_to_chunk (append_page q (matching_rows q db))"

record chunk_detail_row =
  cr_chunk :: chunk
  cr_content_path :: "string option"
  cr_lifecycle_status :: "string option"
  cr_has_embedding :: bool

definition list_chunk_details :: "list_chunks_query \<Rightarrow> chunk_db \<Rightarrow> chunk_detail_row list" where
  "list_chunk_details q db = map (\<lambda>r. \<lparr>cr_chunk = row_to_chunk r, cr_content_path = nonempty (st_content_path r),
      cr_lifecycle_status = Some (st_lifecycle r),
      cr_has_embedding = (\<exists>e\<in>set (cd_embeddings db). em_chunk_id e = ck_id r)\<rparr>) (append_page q (matching_rows q db))"

definition count_chunks_matching :: "list_chunks_query \<Rightarrow> chunk_db \<Rightarrow> nat" where
  "count_chunks_matching q db = length (matching_rows q db)"

record source_total =
  tot_source_kind :: source_kind
  tot_source_id :: string
  tot_chunk_count :: nat
  tot_last_timestamp_ms :: int

text \<open>\<^verbatim>\<open>kind_rank\<close> orders the kinds as their wire names.\<close>

fun kind_rank :: "source_kind \<Rightarrow> nat" where
  "kind_rank Kind_Chat = 0"
| "kind_rank Kind_Document = 1"
| "kind_rank Kind_Email = 2"

definition source_total_of :: "stored_chunk list \<Rightarrow> source_kind \<times> string \<Rightarrow> source_total" where
  "source_total_of rows g =
    (let mine = filter (\<lambda>r. (st_source_kind r, st_source_id r) = g) rows
     in \<lparr>tot_source_kind = fst g, tot_source_id = snd g, tot_chunk_count = length mine,
         tot_last_timestamp_ms = Max (st_timestamp ` set mine)\<rparr>)"

definition source_totals :: "nat option \<Rightarrow> string set option \<Rightarrow> chunk_db \<Rightarrow> source_total list" where
  "source_totals limit scope db =
    (let rows = filter (append_source_scope scope) (cd_rows db);
         groups = remdups (map (\<lambda>r. (st_source_kind r, st_source_id r)) rows)
     in take (normalized_limit limit)
          (sort_key (\<lambda>t. (- tot_last_timestamp_ms t, - int (tot_chunk_count t), kind_rank (tot_source_kind t), tot_source_id t))
            (map (source_total_of rows) groups)))"

subsection \<open>A pattern matches its value literally\<close>

lemma like_any: "like_match [37] s"
  by (induction s) simp_all

lemma like_literal:
  "like_match (concat (map escape_like v) @ [37]) s \<longleftrightarrow>
    length v \<le> length s \<and> map ascii_lower (take (length v) s) = map ascii_lower v"
proof (induction v arbitrary: s)
  case Nil
  show ?case using like_any [of s] by simp
next
  case (Cons c v)
  show ?case using Cons.IH by (cases s) (auto simp: escape_like_def)
qed

lemma like_percent: "like_match (37 # p) s \<longleftrightarrow> (\<exists>n \<le> length s. like_match p (drop n s))"
proof (induction s)
  case (Cons e s)
  have "(\<exists>n \<le> length (e # s). like_match p (drop n (e # s))) \<longleftrightarrow>
      like_match p (e # s) \<or> (\<exists>n \<le> length s. like_match p (drop n s))" (is "?l = ?r")
  proof
    assume ?l
    then obtain n where "n \<le> length (e # s)" "like_match p (drop n (e # s))" by blast
    then show ?r by (cases n) auto
  next
    assume ?r
    then show ?l
    proof
      assume "\<exists>n \<le> length s. like_match p (drop n s)"
      then obtain n where "n \<le> length s" "like_match p (drop n s)" by blast
      then show ?l by (intro exI [of _ "Suc n"]) simp
    qed (auto intro: exI [of _ 0])
  qed
  then show ?case using Cons.IH by simp
qed simp

lemma like_contains_iff:
  "like_match (like_contains_pattern v) s \<longleftrightarrow>
    (\<exists>a m b. s = a @ m @ b \<and> map ascii_lower m = map ascii_lower v)"
proof
  assume "like_match (like_contains_pattern v) s"
  then obtain n where n: "n \<le> length s" "length v \<le> length (drop n s)"
      "map ascii_lower (take (length v) (drop n s)) = map ascii_lower v"
    by (auto simp: like_contains_pattern_def like_percent like_literal simp del: like_match.simps)
  have "s = take n s @ take (length v) (drop n s) @ drop (length v) (drop n s)"
    by (simp only: append_take_drop_id)
  then show "\<exists>a m b. s = a @ m @ b \<and> map ascii_lower m = map ascii_lower v" using n(3) by blast
next
  assume "\<exists>a m b. s = a @ m @ b \<and> map ascii_lower m = map ascii_lower v"
  then obtain a m b where s: "s = a @ m @ b" "map ascii_lower m = map ascii_lower v" by blast
  then have "length m = length v" by (metis length_map)
  then show "like_match (like_contains_pattern v) s"
    using s by (auto simp: like_contains_pattern_def like_percent like_literal simp del: like_match.simps
        intro!: exI [of _ "length a"])
qed

text \<open>
  The pattern built for a content filter matches a text exactly when the text contains the value,
  letter for letter up to ASCII case: per cent signs, underscores and backslashes of the value stand
  for themselves.
\<close>
theorem like_pattern_is_literal_containment:
  "like_match (like_contains_pattern v) s \<longleftrightarrow>
    (\<exists>a m b. s = a @ m @ b \<and> map ascii_lower m = map ascii_lower v)"
  by (rule like_contains_iff)

subsection \<open>Pages\<close>

lemma length_list_chunks: "length (list_chunks q db) \<le> MAX_LIST_LIMIT"
  by (simp add: list_chunks_def append_page_def normalized_limit_def)

end
