(* ===== verification/Cover.thy ===== *)
theory Cover
  imports Chunk_List Cascade
begin

section \<open>Time-window covers (src/memory/retrieval/cover.rs)\<close>

text \<open>
  A window is answered by as few nodes as possible: summaries whose whole subtree lies in it, and raw
  chunks for the rest. The chunk scan reads the database page by page; hits of a source are found from
  the source's tree. Sources are visited in the order their first chunk is met (the code's hash map
  has no order, and the result is sorted afterwards). Recursion over child ids takes the number of
  summaries to follow: without a cycle among the eligible ones that is enough, see
  \<^verbatim>\<open>collect_descendant_total\<close>. Bodies are read by \<^verbatim>\<open>hydrate\<close>, which may fail and leave the preview.
\<close>

subsection \<open>Limits (config/policy.rs)\<close>

record retrieval_limits =
  rl_default_limit :: nat
  rl_search_default_limit :: nat
  rl_cover_default_limit :: nat
  rl_max_limit :: nat
  rl_occurrence_lookup_limit :: nat
  rl_max_graph_hops :: nat
  rl_default_graph_hops :: nat
  rl_topic_lookup_limit :: nat
  rl_window_chunk_page_size :: nat
  rl_fetch_batch_limit :: nat
  rl_freshness_half_life_days :: rat

definition retrieval_limits_default :: retrieval_limits where
  "retrieval_limits_default =
    \<lparr>rl_default_limit = 10, rl_search_default_limit = 5, rl_cover_default_limit = 200, rl_max_limit = 100,
     rl_occurrence_lookup_limit = 500, rl_max_graph_hops = 4, rl_default_graph_hops = 2, rl_topic_lookup_limit = 200,
     rl_window_chunk_page_size = 5000, rl_fetch_batch_limit = 20, rl_freshness_half_life_days = 7\<rparr>"

definition retrieval_limits_validate :: "retrieval_limits \<Rightarrow> unit result" where
  "retrieval_limits_validate l = ensure_all [
     (rl_default_limit l > 0 \<and> rl_search_default_limit l > 0 \<and> rl_cover_default_limit l > 0,
      ''retrieval default limits must be positive''),
     (rl_max_limit l \<ge> rl_default_limit l, ''retrieval.limits.max_limit must cover the default''),
     (rl_occurrence_lookup_limit l > 0 \<and> rl_topic_lookup_limit l > 0 \<and> rl_window_chunk_page_size l > 0 \<and>
      rl_fetch_batch_limit l > 0, ''retrieval candidate and page limits must be positive''),
     (rl_default_graph_hops l > 0 \<and> rl_default_graph_hops l \<le> rl_max_graph_hops l,
      ''retrieval graph hop bounds are invalid''),
     (rl_freshness_half_life_days l > 0, ''retrieval freshness half-life must be positive'')]"

subsection \<open>Hits (retrieval/types.rs)\<close>

datatype node_kind = Leaf | Summary

record retrieval_hit =
  rh_node_id :: string
  rh_node_kind :: node_kind
  rh_tree_id :: string
  rh_tree_kind :: tree_kind
  rh_tree_scope :: string
  rh_level :: nat
  rh_content :: utext
  rh_entities :: "string list"
  rh_topics :: "string list"
  rh_time_range_start :: int
  rh_time_range_end :: int
  rh_score :: rat
  rh_child_ids :: "string list"
  rh_source_ref :: "string option"

record query_response =
  qr_hits :: "retrieval_hit list"
  qr_total :: nat
  qr_truncated :: bool

definition query_response_new :: "retrieval_hit list \<Rightarrow> nat \<Rightarrow> query_response" where
  "query_response_new hits n = \<lparr>qr_hits = hits, qr_total = n, qr_truncated = n > length hits\<rparr>"

definition hit_from_summary :: "summary_node \<Rightarrow> string \<Rightarrow> retrieval_hit" where
  "hit_from_summary node tree_scope =
    \<lparr>rh_node_id = sn_id node, rh_node_kind = Summary, rh_tree_id = sn_tree_id node, rh_tree_kind = sn_tree_kind node,
     rh_tree_scope = tree_scope, rh_level = sn_level node, rh_content = sn_content node,
     rh_entities = sn_entities node, rh_topics = sn_topics node, rh_time_range_start = sn_time_range_start node,
     rh_time_range_end = sn_time_range_end node, rh_score = sn_score node, rh_child_ids = sn_child_ids node,
     rh_source_ref = None\<rparr>"

definition hit_from_chunk :: "chunk \<Rightarrow> string \<Rightarrow> string \<Rightarrow> rat \<Rightarrow> retrieval_hit" where
  "hit_from_chunk c tree_id tree_scope score =
    \<lparr>rh_node_id = ch_id c, rh_node_kind = Leaf, rh_tree_id = tree_id, rh_tree_kind = Source,
     rh_tree_scope = tree_scope, rh_level = 0, rh_content = ch_content c, rh_entities = [], rh_topics = ch_tags c,
     rh_time_range_start = fst (ch_time_range c), rh_time_range_end = snd (ch_time_range c), rh_score = score,
     rh_child_ids = [], rh_source_ref = ch_source_ref c\<rparr>"

definition hydrated :: "(string \<Rightarrow> utext result) \<Rightarrow> retrieval_hit \<Rightarrow> retrieval_hit" where
  "hydrated body hit = (case body (rh_node_id hit) of Inr b \<Rightarrow> hit\<lparr>rh_content := b\<rparr> | Inl _ \<Rightarrow> hit)"

subsection \<open>The plan\<close>

type_synonym nodes_by_id = "string \<rightharpoonup> summary_node"

definition by_id_of :: "summary_node list \<Rightarrow> nodes_by_id" where
  "by_id_of ns = fold (\<lambda>n m. m(sn_id n \<mapsto> n)) ns Map.empty"

text \<open>\<^verbatim>\<open>None\<close>: the walk needed more than \<^verbatim>\<open>fuel\<close> summaries below one another.\<close>

definition leaf_step :: "nodes_by_id \<Rightarrow> (summary_node \<Rightarrow> string set option) \<Rightarrow> string \<Rightarrow> string set option \<Rightarrow>
    string set option" where
  "leaf_step by_id walk c acc =
    (case acc of None \<Rightarrow> None
     | Some covered \<Rightarrow>
        (case by_id c of
           Some child \<Rightarrow> map_option (\<lambda>sub. covered \<union> sub) (walk child)
         | None \<Rightarrow> Some (insert c covered)))"

primrec collect_descendant_chunks :: "nat \<Rightarrow> nodes_by_id \<Rightarrow> summary_node \<Rightarrow> string set option" where
  "collect_descendant_chunks 0 by_id node = None"
| "collect_descendant_chunks (Suc fuel) by_id node =
    fold (leaf_step by_id (collect_descendant_chunks fuel by_id)) (sn_child_ids node) (Some {})"

record cover_plan =
  cp_maximal_ids :: "string list"
  cp_covered_chunk_ids :: "string set"

definition is_maximal :: "summary_node list \<Rightarrow> summary_node \<Rightarrow> bool" where
  "is_maximal eligible s = (case sn_parent_id s of Some p \<Rightarrow> p \<notin> sn_id ` set eligible | None \<Rightarrow> True)"

fun plan_loop :: "nodes_by_id \<Rightarrow> nat \<Rightarrow> string set option \<Rightarrow> summary_node list \<Rightarrow> cover_plan option" where
  "plan_loop by_id fuel present [] = Some \<lparr>cp_maximal_ids = [], cp_covered_chunk_ids = {}\<rparr>"
| "plan_loop by_id fuel present (n # ns) =
    (case collect_descendant_chunks fuel by_id n of
       None \<Rightarrow> None
     | Some sub \<Rightarrow>
        (case plan_loop by_id fuel present ns of
           None \<Rightarrow> None
         | Some plan \<Rightarrow>
            (if (case present of Some p \<Rightarrow> sub \<subseteq> p | None \<Rightarrow> True)
             then Some \<lparr>cp_maximal_ids = sn_id n # cp_maximal_ids plan,
               cp_covered_chunk_ids = sub \<union> cp_covered_chunk_ids plan\<rparr>
             else Some plan)))"

definition plan_cover :: "summary_node list \<Rightarrow> string set option \<Rightarrow> cover_plan option" where
  "plan_cover eligible present =
    plan_loop (by_id_of eligible) (length eligible) present (filter (is_maximal eligible) eligible)"

subsection \<open>Superseded document versions\<close>

definition subtree_step :: "nodes_by_id \<Rightarrow> (summary_node \<Rightarrow> (string set \<times> string set) option) \<Rightarrow> string \<Rightarrow>
    (string set \<times> string set) option \<Rightarrow> (string set \<times> string set) option" where
  "subtree_step by_id walk c acc =
    (case acc of None \<Rightarrow> None
     | Some (summaries, chunks) \<Rightarrow>
        (case by_id c of
           Some child \<Rightarrow> map_option (\<lambda>(ss, cs). (insert c (summaries \<union> ss), chunks \<union> cs)) (walk child)
         | None \<Rightarrow> Some (summaries, insert c chunks)))"

primrec collect_subtree_ids :: "nat \<Rightarrow> nodes_by_id \<Rightarrow> summary_node \<Rightarrow> (string set \<times> string set) option" where
  "collect_subtree_ids 0 by_id node = None"
| "collect_subtree_ids (Suc fuel) by_id node =
    fold (subtree_step by_id (collect_subtree_ids fuel by_id)) (sn_child_ids node) (Some ({}, {}))"

definition version_or_min :: "int option \<Rightarrow> int" where
  "version_or_min v = (case v of None \<Rightarrow> i64_min | Some a \<Rightarrow> a)"

definition version_le :: "int option \<Rightarrow> int option \<Rightarrow> bool" where
  "version_le v w = (version_or_min v \<le> version_or_min w)"

definition raise_version :: "summary_node \<Rightarrow> (string \<rightharpoonup> int option) \<Rightarrow> (string \<rightharpoonup> int option)" where
  "raise_version s m =
    (case sn_doc_id s of
       None \<Rightarrow> m
     | Some doc \<Rightarrow>
        (case m doc of
           None \<Rightarrow> m(doc \<mapsto> sn_version_ms s)
         | Some w \<Rightarrow> (if version_le (sn_version_ms s) w then m else m(doc \<mapsto> sn_version_ms s))))"

fun loser_loop :: "nat \<Rightarrow> nodes_by_id \<Rightarrow> (string \<rightharpoonup> int option) \<Rightarrow> string set \<Rightarrow> summary_node list \<Rightarrow>
    (string set \<times> string set) option" where
  "loser_loop fuel by_id newest winners [] = Some ({}, {})"
| "loser_loop fuel by_id newest winners (s # ss) =
    (case sn_doc_id s of
       None \<Rightarrow> loser_loop fuel by_id newest winners ss
     | Some doc \<Rightarrow>
        (let older = (case newest doc of Some w \<Rightarrow> \<not> version_le w (sn_version_ms s) | None \<Rightarrow> False) in
         if older \<or> doc \<in> winners
         then (case collect_subtree_ids fuel by_id s of
                 None \<Rightarrow> None
               | Some (below, chunks) \<Rightarrow> map_option (\<lambda>(removed, suppressed). (insert (sn_id s) (below \<union> removed), chunks \<union> suppressed))
                   (loser_loop fuel by_id newest (if older then winners else insert doc winners) ss))
         else loser_loop fuel by_id newest (insert doc winners) ss))"

definition filter_superseded_doc_versions :: "summary_node list \<Rightarrow> (summary_node list \<times> string set) option" where
  "filter_superseded_doc_versions eligible =
    (if \<forall>s\<in>set eligible. sn_doc_id s = None then Some (eligible, {})
     else map_option (\<lambda>(removed, suppressed). (filter (\<lambda>s. sn_id s \<notin> removed) eligible, suppressed))
       (loser_loop (length eligible) (by_id_of eligible) (fold raise_version eligible Map.empty) {} eligible))"

subsection \<open>One source\<close>

definition chunk_tree_scope :: "chunk \<Rightarrow> string" where
  "chunk_tree_scope c = (case ch_path_scope c of Some s \<Rightarrow> s | None \<Rightarrow> ch_source_id c)"

definition cover_one_source :: "(string \<Rightarrow> utext result) \<Rightarrow> (string \<Rightarrow> utext result) \<Rightarrow> tree_db \<Rightarrow> string \<Rightarrow> int \<Rightarrow> int \<Rightarrow>
    chunk list \<Rightarrow> bool \<Rightarrow> retrieval_hit list option" where
  "cover_one_source summary_body chunk_body db source since_ms until_ms chunks exact_source =
    (let t = get_tree_by_scope Source source db;
         tree_id = (case t of Some r \<Rightarrow> tr_id r | None \<Rightarrow> []);
         all_eligible = (case t of Some r \<Rightarrow> list_summaries_in_window (tr_id r) since_ms until_ms db | None \<Rightarrow> [])
     in case filter_superseded_doc_versions all_eligible of
          None \<Rightarrow> None
        | Some (eligible, suppressed) \<Rightarrow>
           (let present = ch_id ` set chunks in
            case plan_cover eligible (if exact_source then Some present else None) of
              None \<Rightarrow> None
            | Some plan \<Rightarrow> Some (
                map (\<lambda>n. hydrated summary_body (hit_from_summary n source))
                  (List.map_filter (by_id_of eligible) (cp_maximal_ids plan)) @
                map (\<lambda>c. hydrated chunk_body (hit_from_chunk c tree_id source 0))
                  (filter (\<lambda>c. ch_id c \<notin> cp_covered_chunk_ids plan \<and> ch_id c \<notin> suppressed) chunks))))"

subsection \<open>The scan\<close>

text \<open>\<^verbatim>\<open>page n\<close> is the page from offset \<^verbatim>\<open>n\<close> on.\<close>

partial_function (option) scan_pages :: "nat \<Rightarrow> (nat \<Rightarrow> 'a list) \<Rightarrow> 'a list \<Rightarrow> 'a list option" where
  "scan_pages page_size page chunks =
    (let p = page (length chunks) in
     if length p < page_size then Some (chunks @ p) else scan_pages page_size page (chunks @ p))"

definition window_query :: "int \<Rightarrow> int \<Rightarrow> string option \<Rightarrow> source_kind option \<Rightarrow> string set option \<Rightarrow> nat \<Rightarrow> nat \<Rightarrow>
    list_chunks_query" where
  "window_query since_ms until_ms source_id source_kind source_scope page_size off =
    list_chunks_query_default\<lparr>lq_source_id := source_id, lq_source_kind := source_kind, lq_since_ms := Some since_ms,
      lq_until_ms := Some until_ms, lq_limit := Some page_size, lq_offset := Some off, lq_exclude_dropped := True,
      lq_source_scope := source_scope\<rparr>"

definition window_chunks :: "nat \<Rightarrow> int \<Rightarrow> int \<Rightarrow> string option \<Rightarrow> source_kind option \<Rightarrow> string set option \<Rightarrow> chunk_db \<Rightarrow>
    chunk list option" where
  "window_chunks page_size since_ms until_ms source_id source_kind source_scope db =
    scan_pages page_size (\<lambda>off. list_chunks (window_query since_ms until_ms source_id source_kind source_scope page_size off) db) []"

fun cover_sources :: "(string \<Rightarrow> retrieval_hit list option) \<Rightarrow> string list \<Rightarrow> retrieval_hit list option" where
  "cover_sources f [] = Some []"
| "cover_sources f (s # ss) =
    (case f s of None \<Rightarrow> None | Some hs \<Rightarrow> map_option (\<lambda>rest. hs @ rest) (cover_sources f ss))"

definition collect_cover :: "(string \<Rightarrow> utext result) \<Rightarrow> (string \<Rightarrow> utext result) \<Rightarrow> nat \<Rightarrow> int \<Rightarrow> int \<Rightarrow> string option \<Rightarrow>
    source_kind option \<Rightarrow> string set option \<Rightarrow> chunk_db \<Rightarrow> retrieval_hit list option" where
  "collect_cover summary_body chunk_body page_size since_ms until_ms source_id source_kind source_scope db =
    (let restrict_summaries = source_id \<noteq> None \<or> source_scope \<noteq> None in
     case window_chunks page_size since_ms until_ms source_id source_kind source_scope db of
       None \<Rightarrow> None
     | Some chunks \<Rightarrow> cover_sources (\<lambda>source. cover_one_source summary_body chunk_body (cd_tree db) source since_ms until_ms
           (filter (\<lambda>c. chunk_tree_scope c = source) chunks) restrict_summaries)
         (remdups (map chunk_tree_scope chunks)))"

definition cover_window_scoped :: "(string \<Rightarrow> utext result) \<Rightarrow> (string \<Rightarrow> utext result) \<Rightarrow> retrieval_limits \<Rightarrow> int \<Rightarrow> int \<Rightarrow>
    string option \<Rightarrow> source_kind option \<Rightarrow> string set option \<Rightarrow> nat \<Rightarrow> chunk_db \<Rightarrow> query_response result option" where
  "cover_window_scoped summary_body chunk_body bounds since_ms until_ms source_id source_kind source_scope limit db =
    (let limit = (if limit = 0 then rl_cover_default_limit bounds else limit) in
     if until_ms < since_ms
     then Some (Inl (plain_error (''cover_window: until_ms ('' @ show_int until_ms @ '') precedes since_ms ('' @ show_int since_ms @ '')'')))
     else map_option (\<lambda>hits.
         let sorted_hits = sort_key (\<lambda>h. (rh_tree_scope h, rh_time_range_start h)) hits
         in Inr (query_response_new (take limit sorted_hits) (length sorted_hits)))
       (collect_cover summary_body chunk_body (rl_window_chunk_page_size bounds) since_ms until_ms source_id source_kind source_scope db))"

subsection \<open>The scan is complete\<close>

lemma scan_pages_all:
  assumes "0 < n" and "page = (\<lambda>m. take n (drop m all_rows))"
  shows "m \<le> length all_rows \<Longrightarrow> scan_pages n page (take m all_rows) = Some all_rows"
proof (induction "length all_rows - m" arbitrary: m rule: less_induct)
  case less
  let ?p = "take n (drop m all_rows)"
  have l: "length (take m all_rows) = m" using less.prems by simp
  have j: "take m all_rows @ ?p = take (m + n) all_rows" by (simp add: take_add)
  show ?case
  proof (cases "length ?p < n")
    case True
    then have "length all_rows \<le> m + n" by simp
    then show ?thesis using True by (subst scan_pages.simps) (simp only: assms(2) l Let_def j if_True take_all)
  next
    case False
    then have "m + n \<le> length all_rows" using less.prems by (cases "length all_rows - m < n") auto
    then have "scan_pages n page (take (m + n) all_rows) = Some all_rows" using less.hyps [of "m + n"] assms(1) by simp
    then show ?thesis using False by (subst scan_pages.simps) (simp only: assms(2) l Let_def j if_False)
  qed
qed

lemma matching_rows_window:
  "matching_rows (window_query a b i k sc n off) db = matching_rows (window_query a b i k sc 1 0) db"
proof -
  have "append_filters (window_query a b i k sc n off) = append_filters (window_query a b i k sc 1 0)"
    by (intro ext) (simp add: append_filters_def window_query_def)
  then show ?thesis by (simp add: matching_rows_def)
qed

text \<open>
  With a page size the store accepts, the paged scan of a window returns every matching chunk once,
  newest first. With a larger page size, which the configuration check lets pass, the first page is
  cut at the store's own cap, looks like the last one, and every chunk after it is lost.
\<close>
theorem window_scan_result:
  assumes "retrieval_limits_validate bounds = Inr ()"
  shows "window_chunks (rl_window_chunk_page_size bounds) since_ms until_ms source_id source_kind source_scope db =
    Some (let found = map row_to_chunk (sort_key row_order
            (matching_rows (window_query since_ms until_ms source_id source_kind source_scope 1 0) db))
          in if rl_window_chunk_page_size bounds \<le> MAX_LIST_LIMIT then found else take MAX_LIST_LIMIT found)"
proof -
  let ?n = "rl_window_chunk_page_size bounds"
  let ?q = "window_query since_ms until_ms source_id source_kind source_scope"
  define found where "found = map row_to_chunk (sort_key row_order (matching_rows (?q 1 0) db))"
  have pos: "0 < ?n"
    using assms by (simp add: retrieval_limits_validate_def ensure_all_Inr_iff del: ensure_all.simps)
  have page: "list_chunks (?q ?n off) db = take (min MAX_LIST_LIMIT ?n) (drop off found)" for off
  proof -
    have "lq_limit (?q ?n off) = Some ?n" "lq_offset (?q ?n off) = Some off" by (simp_all add: window_query_def)
    then show ?thesis
      using pos by (simp add: list_chunks_def append_page_def matching_rows_window [of _ _ _ _ _ ?n] found_def
          normalized_limit_def take_map drop_map max_def)
  qed
  show ?thesis
  proof (cases "?n \<le> MAX_LIST_LIMIT")
    case True
    then have "(\<lambda>off. list_chunks (?q ?n off) db) = (\<lambda>off. take ?n (drop off found))"
      by (simp add: page min_absorb2)
    then have "window_chunks ?n since_ms until_ms source_id source_kind source_scope db = Some found"
      using scan_pages_all [OF pos, of _ found 0] by (simp add: window_chunks_def)
    then show ?thesis using True by (simp add: found_def)
  next
    case False
    then have "list_chunks (?q ?n 0) db = take MAX_LIST_LIMIT found" by (simp add: page min_absorb1)
    moreover have "length (take MAX_LIST_LIMIT found) < ?n" using False by simp
    ultimately have "window_chunks ?n since_ms until_ms source_id source_kind source_scope db = Some (take MAX_LIST_LIMIT found)"
      unfolding window_chunks_def by (subst scan_pages.simps) simp
    then show ?thesis using False by (simp add: found_def)
  qed
qed

theorem window_scan_result_witness:
  "window_chunks 20000 0 0 None None None \<lparr>cd_tree = sample_db [], cd_rows = [], cd_embeddings = [], cd_skipped = [], cd_gates = []\<rparr> = Some []"
proof -
  have "retrieval_limits_validate (retrieval_limits_default\<lparr>rl_window_chunk_page_size := 20000\<rparr>) = Inr ()"
    by (simp add: retrieval_limits_validate_def retrieval_limits_default_def ensure_def)
  from window_scan_result [OF this] show ?thesis by (simp add: matching_rows_def)
qed

subsection \<open>Walks\<close>

inductive leaf_under :: "nodes_by_id \<Rightarrow> summary_node \<Rightarrow> string \<Rightarrow> bool" for by_id where
  leaf: "c \<in> set (sn_child_ids n) \<Longrightarrow> by_id c = None \<Longrightarrow> leaf_under by_id n c"
| below: "c \<in> set (sn_child_ids n) \<Longrightarrow> by_id c = Some m \<Longrightarrow> leaf_under by_id m x \<Longrightarrow> leaf_under by_id n x"

inductive node_under :: "nodes_by_id \<Rightarrow> summary_node \<Rightarrow> string \<Rightarrow> bool" for by_id where
  child: "c \<in> set (sn_child_ids n) \<Longrightarrow> by_id c = Some m \<Longrightarrow> node_under by_id n c"
| below_child: "c \<in> set (sn_child_ids n) \<Longrightarrow> by_id c = Some m \<Longrightarrow> node_under by_id m x \<Longrightarrow> node_under by_id n x"

inductive_simps leaf_under_iff: "leaf_under by_id n x"
inductive_simps node_under_iff: "node_under by_id n x"

text \<open>Links go down in level, within a list of summaries with distinct ids.\<close>

definition descending :: "summary_node list \<Rightarrow> bool" where
  "descending ns \<longleftrightarrow> distinct (map sn_id ns) \<and>
     (\<forall>n\<in>set ns. \<forall>m\<in>set ns. sn_id m \<in> set (sn_child_ids n) \<longrightarrow> sn_level m < sn_level n)"

lemma by_id_fold: "distinct (map sn_id ns) \<Longrightarrow>
    fold (\<lambda>n m. m(sn_id n \<mapsto> n)) ns m i = Some n \<longleftrightarrow> n \<in> set ns \<and> sn_id n = i \<or> i \<notin> sn_id ` set ns \<and> m i = Some n"
  by (induction ns arbitrary: m) auto

lemma by_id_Some: "distinct (map sn_id ns) \<Longrightarrow> by_id_of ns i = Some n \<longleftrightarrow> n \<in> set ns \<and> sn_id n = i"
  by (simp add: by_id_of_def by_id_fold)

lemma by_id_None:
  assumes "distinct (map sn_id ns)" shows "by_id_of ns i = None \<longleftrightarrow> i \<notin> sn_id ` set ns"
proof -
  have "by_id_of ns i = None \<longleftrightarrow> (\<forall>n. by_id_of ns i \<noteq> Some n)" by auto
  then show ?thesis unfolding by_id_Some [OF assms] by auto
qed

definition lower :: "summary_node list \<Rightarrow> summary_node \<Rightarrow> summary_node set" where
  "lower ns n = {m \<in> set ns. sn_level m < sn_level n}"

lemma lower_child:
  assumes "descending ns" and "n \<in> set ns" and "c \<in> set (sn_child_ids n)" and "by_id_of ns c = Some m"
  shows "m \<in> set ns" and "card (lower ns m) < card (lower ns n)"
proof -
  have m: "m \<in> set ns" "sn_id m = c" using assms(1,4) by_id_Some [of ns c m] by (simp_all add: descending_def)
  then have "sn_level m < sn_level n" using assms by (auto simp: descending_def)
  then have "lower ns m \<subset> lower ns n" using m(1) by (auto simp: lower_def)
  then show "card (lower ns m) < card (lower ns n)" by (simp add: lower_def psubset_card_mono)
  show "m \<in> set ns" by (rule m(1))
qed

lemma lower_length: "n \<in> set ns \<Longrightarrow> card (lower ns n) < length ns"
proof -
  assume "n \<in> set ns"
  then have "lower ns n \<subset> set ns" by (auto simp: lower_def)
  then show ?thesis using psubset_card_mono [of "set ns" "lower ns n"] card_length [of ns] by simp
qed

lemma collect_fold:
  assumes "\<forall>c\<in>set cs. \<forall>m. by_id c = Some m \<longrightarrow> walk m = Some {x. leaf_under by_id m x}"
  shows "fold (leaf_step by_id walk) cs (Some acc) =
    Some (acc \<union> {x. \<exists>c\<in>set cs. (by_id c = None \<and> x = c) \<or> (\<exists>m. by_id c = Some m \<and> leaf_under by_id m x)})"
  using assms
proof (induction cs arbitrary: acc)
  case (Cons c cs)
  then show ?case by (cases "by_id c") (auto simp: leaf_step_def)
qed simp

lemma collect_descendant_total:
  assumes "descending ns" and "n \<in> set ns" and "card (lower ns n) < fuel"
  shows "collect_descendant_chunks fuel (by_id_of ns) n = Some {x. leaf_under (by_id_of ns) n x}"
  using assms(2,3)
proof (induction fuel arbitrary: n)
  case (Suc fuel)
  have "\<forall>c\<in>set (sn_child_ids n). \<forall>m. by_id_of ns c = Some m \<longrightarrow>
      collect_descendant_chunks fuel (by_id_of ns) m = Some {x. leaf_under (by_id_of ns) m x}"
  proof (intro ballI allI impI)
    fix c m assume "c \<in> set (sn_child_ids n)" "by_id_of ns c = Some m"
    from lower_child [OF assms(1) Suc.prems(1) this] Suc
    show "collect_descendant_chunks fuel (by_id_of ns) m = Some {x. leaf_under (by_id_of ns) m x}" by simp
  qed
  from collect_fold [OF this, of "{}"] show ?case
    by (auto simp: leaf_under_iff [of _ n])
qed simp

subsection \<open>The plan is the frontier\<close>

text \<open>Parent and child links agree.\<close>

definition forest :: "summary_node list \<Rightarrow> bool" where
  "forest ns \<longleftrightarrow> descending ns \<and>
     (\<forall>p\<in>set ns. \<forall>c\<in>set ns. sn_id c \<in> set (sn_child_ids p) \<longleftrightarrow> sn_parent_id c = Some (sn_id p))"

definition leaves_of :: "summary_node list \<Rightarrow> summary_node \<Rightarrow> string set" where
  "leaves_of ns n = {x. leaf_under (by_id_of ns) n x}"

definition frontier :: "summary_node list \<Rightarrow> string set option \<Rightarrow> summary_node list" where
  "frontier ns present = filter (\<lambda>n. is_maximal ns n \<and> passes present (\<lambda>p. leaves_of ns n \<subseteq> p)) ns"

lemma plan_loop_eq:
  assumes "\<forall>n\<in>set ms. collect_descendant_chunks fuel by_id n = Some (L n)"
  shows "plan_loop by_id fuel present ms =
    Some \<lparr>cp_maximal_ids = map sn_id (filter (\<lambda>n. passes present (\<lambda>p. L n \<subseteq> p)) ms),
      cp_covered_chunk_ids = \<Union> (L ` set (filter (\<lambda>n. passes present (\<lambda>p. L n \<subseteq> p)) ms))\<rparr>"
  using assms by (induction ms) (auto simp: passes_def split: option.splits)

lemma plan_cover_eq:
  assumes "descending ns"
  shows "plan_cover ns present =
    Some \<lparr>cp_maximal_ids = map sn_id (frontier ns present), cp_covered_chunk_ids = \<Union> (leaves_of ns ` set (frontier ns present))\<rparr>"
proof -
  have "\<forall>n\<in>set (filter (is_maximal ns) ns). collect_descendant_chunks (length ns) (by_id_of ns) n = Some (leaves_of ns n)"
    using collect_descendant_total [OF assms] lower_length by (simp add: leaves_of_def)
  from plan_loop_eq [OF this] show ?thesis by (simp add: plan_cover_def frontier_def conj_commute)
qed

lemma not_maximal:
  assumes "forest ns" and "n \<in> set ns" and "\<not> is_maximal ns n"
  obtains p where "p \<in> set ns" and "by_id_of ns (sn_id n) = Some n" and "sn_id n \<in> set (sn_child_ids p)"
proof -
  have d: "distinct (map sn_id ns)" using assms(1) by (simp add: forest_def descending_def)
  obtain i where i: "sn_parent_id n = Some i" "i \<in> sn_id ` set ns"
    using assms(3) by (auto simp: is_maximal_def split: option.splits)
  then obtain p where p: "p \<in> set ns" "sn_parent_id n = Some (sn_id p)" by auto
  then have "sn_id n \<in> set (sn_child_ids p)" using assms(1,2) by (simp add: forest_def)
  then show ?thesis using that p(1) by_id_Some [OF d] assms(2) by simp
qed

lemma lower_wf: "wf {(m, n). m \<in> set ns \<and> n \<in> set ns \<and> sn_level n < sn_level m}"
proof (rule wf_subset)
  let ?b = "Max (sn_level ` set ns)"
  show "wf (measure (\<lambda>m. ?b - sn_level m))" by simp
  show "{(m, n). m \<in> set ns \<and> n \<in> set ns \<and> sn_level n < sn_level m} \<subseteq> measure (\<lambda>m. ?b - sn_level m)"
  proof (intro subsetI, clarsimp)
    fix m n assume "m \<in> set ns" "sn_level n < sn_level m"
    moreover from this have "sn_level m \<le> ?b" by simp
    ultimately show "?b - sn_level m < ?b - sn_level n" by linarith
  qed
qed

lemma node_under_trans:
  "node_under by_id n i \<Longrightarrow> by_id i = Some m \<Longrightarrow> node_under by_id m j \<Longrightarrow> node_under by_id n j"
  by (induction rule: node_under.induct) (auto intro: node_under.intros)

lemma reaches_frontier:
  assumes "forest ns" and "n \<in> set ns"
  shows "\<exists>r\<in>set ns. is_maximal ns r \<and> (r = n \<or> node_under (by_id_of ns) r (sn_id n)) \<and> leaves_of ns n \<subseteq> leaves_of ns r"
  using assms(2)
proof (induction n rule: wf_induct_rule [OF lower_wf [of ns]])
  case (1 n)
  have d: "distinct (map sn_id ns)" using assms(1) by (simp add: forest_def descending_def)
  show ?case
  proof (cases "is_maximal ns n")
    case False
    obtain p where p: "p \<in> set ns" "by_id_of ns (sn_id n) = Some n" "sn_id n \<in> set (sn_child_ids p)"
      using not_maximal [OF assms(1) 1(2) False] by blast
    then have "sn_level n < sn_level p" using assms(1) 1(2) by (auto simp: forest_def descending_def)
    then obtain r where r: "r \<in> set ns" "is_maximal ns r" "r = p \<or> node_under (by_id_of ns) r (sn_id p)"
        "leaves_of ns p \<subseteq> leaves_of ns r"
      using 1(1) [of p] 1(2) p(1) by auto
    have "node_under (by_id_of ns) p (sn_id n)" using p by (auto intro: node_under.child)
    then have "node_under (by_id_of ns) r (sn_id n)"
      using r(3) node_under_trans [of "by_id_of ns" r "sn_id p" p] by_id_Some [OF d] p(1) by auto
    moreover have "leaves_of ns n \<subseteq> leaves_of ns p" using p by (auto simp: leaves_of_def intro: leaf_under.below)
    ultimately show ?thesis using r by blast
  qed (use 1(2) in blast)
qed

lemma maximal_not_under:
  assumes "forest ns" and "r \<in> set ns" and "is_maximal ns r" and "n \<in> set ns"
  shows "\<not> node_under (by_id_of ns) n (sn_id r)"
proof
  have d: "distinct (map sn_id ns)" using assms(1) by (simp add: forest_def descending_def)
  assume "node_under (by_id_of ns) n (sn_id r)"
  then show False using assms(4)
  proof (induction n "sn_id r" rule: node_under.induct)
    case (child n m)
    then have "sn_parent_id r = Some (sn_id n)" using assms(1,2) by (simp add: forest_def)
    then show ?case using assms(3) child.prems by (simp add: is_maximal_def)
  next
    case (below_child c n m)
    then show ?case using by_id_Some [OF d] by simp
  qed
qed

text \<open>No node, summary or chunk, is the child of two summaries.\<close>

definition one_parent :: "summary_node list \<Rightarrow> bool" where
  "one_parent ns \<longleftrightarrow> (\<forall>p\<in>set ns. \<forall>q\<in>set ns. set (sn_child_ids p) \<inter> set (sn_child_ids q) \<noteq> {} \<longrightarrow> p = q)"

lemma one_parentD: "one_parent ns \<Longrightarrow> p \<in> set ns \<Longrightarrow> q \<in> set ns \<Longrightarrow> x \<in> set (sn_child_ids p) \<Longrightarrow> x \<in> set (sn_child_ids q) \<Longrightarrow> p = q"
  unfolding one_parent_def by blast

lemma by_id_sub: "descending ns \<Longrightarrow> by_id_of ns i = Some m \<Longrightarrow> m \<in> set ns \<and> sn_id m = i"
  using by_id_Some by (auto simp: descending_def)

lemma by_id_self: "descending ns \<Longrightarrow> m \<in> set ns \<Longrightarrow> by_id_of ns (sn_id m) = Some m"
  using by_id_Some by (auto simp: descending_def)

lemma under_parent:
  assumes "one_parent ns" and "descending ns" and "m \<in> set ns" and "x \<in> set (sn_child_ids m)"
    and "node_under (by_id_of ns) n x" and "n \<in> set ns"
  shows "n = m \<or> node_under (by_id_of ns) n (sn_id m)"
  using assms(5,4,6)
proof (induction rule: node_under.induct)
  case (child c n k)
  then show ?case using one_parentD [OF assms(1) _ assms(3)] by blast
next
  case (below_child c n k x)
  have k: "k \<in> set ns" "sn_id k = c" using by_id_sub [OF assms(2)] below_child by blast+
  then have "k = m \<or> node_under (by_id_of ns) k (sn_id m)" using below_child by blast
  then show ?case
  proof
    assume "k = m"
    then show ?thesis using below_child(1,2) k by (auto intro: node_under.child)
  qed (use below_child(1,2) in \<open>auto intro: node_under.below_child\<close>)
qed

text \<open>Then two summaries with a chunk in common are in line.\<close>

lemma shared_leaf:
  assumes "one_parent ns" and "descending ns" and "leaf_under (by_id_of ns) n x" and "n \<in> set ns"
    and "leaf_under (by_id_of ns) m x" and "m \<in> set ns"
  shows "n = m \<or> node_under (by_id_of ns) n (sn_id m) \<or> node_under (by_id_of ns) m (sn_id n)"
  using assms(3,4,5)
proof (induction rule: leaf_under.induct)
  case (below c n k x)
  have k: "k \<in> set ns" "sn_id k = c" using by_id_sub [OF assms(2)] below by blast+
  have nk: "node_under (by_id_of ns) n (sn_id k)" using below(1,2) k(2) by (auto intro: node_under.child)
  have "k = m \<or> node_under (by_id_of ns) k (sn_id m) \<or> node_under (by_id_of ns) m (sn_id k)" using below k by blast
  moreover have "node_under (by_id_of ns) n (sn_id m)" if "node_under (by_id_of ns) k (sn_id m)"
    using that below(1,2) by (auto intro: node_under.below_child)
  moreover have "m = n \<or> node_under (by_id_of ns) m (sn_id n)" if "node_under (by_id_of ns) m (sn_id k)"
    using under_parent [OF assms(1,2) below(5) _ that assms(6)] below(1) k(2) by blast
  ultimately show ?case using nk by blast
next
  case (leaf c n)
  show ?case
    using leaf(4) assms(6) leaf(1-3)
  proof (induction m c rule: leaf_under.induct)
    case (leaf c m)
    then show ?case using one_parentD [OF assms(1)] by blast
  next
    case (below d m k x)
    have k: "k \<in> set ns" "sn_id k = d" using by_id_sub [OF assms(2)] below by blast+
    have mk: "node_under (by_id_of ns) m (sn_id k)" using below(1,2) k(2) by (auto intro: node_under.child)
    have "n = k \<or> node_under (by_id_of ns) n (sn_id k) \<or> node_under (by_id_of ns) k (sn_id n)" using below k by blast
    moreover have "node_under (by_id_of ns) m (sn_id n)" if "node_under (by_id_of ns) k (sn_id n)"
      using that below(1,2) by (auto intro: node_under.below_child)
    moreover have "n = m \<or> node_under (by_id_of ns) n (sn_id m)" if "node_under (by_id_of ns) n (sn_id k)"
      using under_parent [OF assms(1,2) _ _ that] below k(2) by blast
    ultimately show ?case using mk by blast
  qed
qed

definition emitted :: "node_kind \<Rightarrow> retrieval_hit list \<Rightarrow> string set" where
  "emitted k hits = rh_node_id ` {h \<in> set hits. rh_node_kind h = k}"

lemma hydrated_id [simp]: "rh_node_id (hydrated body h) = rh_node_id h" "rh_node_kind (hydrated body h) = rh_node_kind h"
  by (simp_all add: hydrated_def split: sum.splits)

lemma emitted_append [simp]: "emitted k (a @ b) = emitted k a \<union> emitted k b"
  by (auto simp: emitted_def)

lemma emitted_map:
  assumes "\<And>x. rh_node_kind (f x) = k'" and "\<And>x. rh_node_id (f x) = g x"
  shows "emitted k (map f xs) = (if k = k' then g ` set xs else {})"
proof -
  have "emitted k (map f xs) = rh_node_id ` (if k = k' then f ` set xs else {})"
    using assms(1) by (auto simp: emitted_def)
  then show ?thesis using assms(2) by (simp add: image_image)
qed

lemma emitted_summaries:
  "emitted k (map (\<lambda>n. hydrated body (hit_from_summary n source)) ns) = (if k = Summary then sn_id ` set ns else {})"
  by (rule emitted_map) (simp_all add: hit_from_summary_def)

lemma emitted_chunks:
  "emitted k (map (\<lambda>c. hydrated body (hit_from_chunk c i source x)) cs) = (if k = Leaf then ch_id ` set cs else {})"
  by (rule emitted_map) (simp_all add: hit_from_chunk_def)

lemma map_filter_by_id:
  assumes "distinct (map sn_id ns)" and "set ms \<subseteq> set ns"
  shows "List.map_filter (by_id_of ns) (map sn_id ms) = ms"
proof -
  have "by_id_of ns (sn_id m) = Some m" if "m \<in> set ms" for m using that assms by_id_Some [OF assms(1)] by auto
  then show ?thesis by (induction ms) (auto simp: List.map_filter_def)
qed

lemma hits_distinct:
  assumes "distinct (map sn_id ns)" and "distinct (map ch_id cs)"
  shows "distinct (map (\<lambda>h. (rh_node_kind h, rh_node_id h)) (map (\<lambda>n. hydrated body (hit_from_summary n source)) ns @
    map (\<lambda>c. hydrated body' (hit_from_chunk c i source x)) cs))"
proof -
  have "map (\<lambda>h. (rh_node_kind h, rh_node_id h)) (map (\<lambda>n. hydrated body (hit_from_summary n source)) ns) =
      map (Pair Summary) (map sn_id ns)"
    by (simp add: hit_from_summary_def)
  moreover have "map (\<lambda>h. (rh_node_kind h, rh_node_id h)) (map (\<lambda>c. hydrated body' (hit_from_chunk c i source x)) cs) =
      map (Pair Leaf) (map ch_id cs)"
    by (simp add: hit_from_chunk_def)
  moreover have "distinct (map (Pair Summary) (map sn_id ns) @ map (Pair Leaf) (map ch_id cs))"
    using assms unfolding distinct_append by (auto simp: distinct_map inj_on_def)
  ultimately show ?thesis by (simp only: map_append)
qed

text \<open>
  C18: take a source whose summaries in the window have agreeing parent and child links and belong to no
  document version. Its cover emits every chunk of the window raw or under one of the summaries it
  emits, never both; no hit is given twice; and where no node has two parents, no chunk is under two
  emitted summaries. With no filter on sources the emitted summaries are the frontier: every summary
  inside the window is one of them or below one. In either case none of them is below another summary
  inside the window. With a filter, an emitted summary covers chunks of the filter only.
\<close>
theorem cover_is_exact:
  assumes "get_tree_by_scope Source source db = Some t"
    and "eligible = list_summaries_in_window (tr_id t) since_ms until_ms db"
    and "forest eligible" and "\<forall>n\<in>set eligible. sn_doc_id n = None"
  shows "\<exists>hits. cover_one_source summary_body chunk_body db source since_ms until_ms chunks exact = Some hits \<and>
    emitted Leaf hits = ch_id ` set chunks - {x. \<exists>n\<in>set eligible. sn_id n \<in> emitted Summary hits \<and> x \<in> leaves_of eligible n} \<and>
    emitted Summary hits \<subseteq> sn_id ` set eligible \<and>
    (if exact then \<forall>n\<in>set eligible. sn_id n \<in> emitted Summary hits \<longrightarrow> leaves_of eligible n \<subseteq> ch_id ` set chunks
     else \<forall>n\<in>set eligible. sn_id n \<in> emitted Summary hits \<or>
       (\<exists>r\<in>set eligible. sn_id r \<in> emitted Summary hits \<and> node_under (by_id_of eligible) r (sn_id n))) \<and>
    (\<forall>n\<in>set eligible. \<forall>r\<in>set eligible. sn_id r \<in> emitted Summary hits \<longrightarrow> \<not> node_under (by_id_of eligible) n (sn_id r)) \<and>
    (distinct (map ch_id chunks) \<longrightarrow> distinct (map (\<lambda>h. (rh_node_kind h, rh_node_id h)) hits)) \<and>
    (one_parent eligible \<longrightarrow> (\<forall>n\<in>set eligible. \<forall>m\<in>set eligible. sn_id n \<in> emitted Summary hits \<and>
       sn_id m \<in> emitted Summary hits \<and> n \<noteq> m \<longrightarrow> leaves_of eligible n \<inter> leaves_of eligible m = {}))"
proof -
  have d: "distinct (map sn_id eligible)" "descending eligible" using assms(3) by (simp_all add: forest_def descending_def)
  define present where "present = (if exact then Some (ch_id ` set chunks) else None)"
  define R where "R = frontier eligible present"
  have sub: "set R \<subseteq> set eligible" by (auto simp: R_def frontier_def)
  define hits where "hits = map (\<lambda>n. hydrated summary_body (hit_from_summary n source)) R @
    map (\<lambda>c. hydrated chunk_body (hit_from_chunk c (tr_id t) source 0))
      (filter (\<lambda>c. ch_id c \<notin> \<Union> (leaves_of eligible ` set R)) chunks)"
  have run: "cover_one_source summary_body chunk_body db source since_ms until_ms chunks exact = Some hits"
    using assms(4) plan_cover_eq [OF d(2), of present] map_filter_by_id [OF d(1) sub]
    by (simp add: cover_one_source_def assms(1) assms(2) [symmetric] filter_superseded_doc_versions_def present_def [symmetric]
        R_def [symmetric] hits_def Let_def)
  have em: "emitted Summary hits = sn_id ` set R"
    "emitted Leaf hits = ch_id ` set chunks - \<Union> (leaves_of eligible ` set R)"
    by (auto simp: hits_def emitted_summaries emitted_chunks)
  have inR: "sn_id n \<in> sn_id ` set R \<longleftrightarrow> n \<in> set R" if "n \<in> set eligible" for n
    using that sub d(1) by (auto simp: distinct_map inj_on_def)
  have "\<Union> (leaves_of eligible ` set R) = {x. \<exists>n\<in>set eligible. sn_id n \<in> sn_id ` set R \<and> x \<in> leaves_of eligible n}"
    using sub inR by auto
  moreover have "if exact then \<forall>n\<in>set eligible. n \<in> set R \<longrightarrow> leaves_of eligible n \<subseteq> ch_id ` set chunks
      else \<forall>n\<in>set eligible. n \<in> set R \<or> (\<exists>r\<in>set eligible. r \<in> set R \<and> node_under (by_id_of eligible) r (sn_id n))"
    using reaches_frontier [OF assms(3)] by (auto simp: R_def frontier_def present_def passes_def)
  moreover have apart: "\<forall>n\<in>set eligible. \<forall>r\<in>set eligible. r \<in> set R \<longrightarrow> \<not> node_under (by_id_of eligible) n (sn_id r)"
    using maximal_not_under [OF assms(3)] by (auto simp: R_def frontier_def)
  moreover have "distinct (map (\<lambda>h. (rh_node_kind h, rh_node_id h)) hits)" if "distinct (map ch_id chunks)"
  proof -
    have "distinct (map sn_id R)" using d(1) by (simp add: R_def frontier_def distinct_map_filter)
    moreover have "distinct (map ch_id (filter p chunks))" for p using that by (simp add: distinct_map_filter)
    ultimately show ?thesis unfolding hits_def by (intro hits_distinct)
  qed
  moreover have "leaves_of eligible n \<inter> leaves_of eligible m = {}"
    if "one_parent eligible" "n \<in> set eligible" "m \<in> set eligible" "n \<in> set R" "m \<in> set R" "n \<noteq> m" for n m
    using shared_leaf [OF that(1) d(2)] that(2-6) apart unfolding leaves_of_def by blast
  ultimately show ?thesis using run sub inR by (intro exI [of _ hits]) (auto simp: em)
qed

text \<open>Two summaries of one chunk each, sealed together under a third.\<close>

definition sample_level :: "string option \<Rightarrow> summary_node list" where
  "sample_level doc =
    [sample_node\<lparr>sn_id := ''s1'', sn_parent_id := Some ''s3'', sn_doc_id := doc\<rparr>,
     sample_node\<lparr>sn_id := ''s2'', sn_parent_id := Some ''s3'', sn_child_ids := [''b''], sn_doc_id := doc\<rparr>]"

definition sample_parent :: "string option \<Rightarrow> summary_node" where
  "sample_parent doc = sample_node\<lparr>sn_id := ''s3'', sn_level := 2, sn_child_ids := [''s1'', ''s2''], sn_doc_id := doc\<rparr>"

definition sample_cover_db :: "string option \<Rightarrow> tree_db" where
  "sample_cover_db doc = (sample_db [])\<lparr>db_summaries :=
    map (\<lambda>n. \<lparr>sr_node = n, sr_content_path = None, sr_content_sha256 = None\<rparr>) (sample_level doc @ [sample_parent doc])\<rparr>"

lemma sample_cover_tree: "get_tree_by_scope Source ''chat'' (sample_cover_db doc) = Some sample_tree"
  by (simp add: get_tree_by_scope_def sql_find_def sample_cover_db_def sample_db_def sample_tree_def)

lemma sample_cover_window:
  "list_summaries_in_window (tr_id sample_tree) 0 9 (sample_cover_db doc) = sample_level doc @ [sample_parent doc]"
  by (simp add: list_summaries_in_window_def live_nodes_def sample_cover_db_def sample_level_def sample_parent_def
      sample_node_def sample_tree_def)

theorem cover_is_exact_witness:
  "\<exists>hits. cover_one_source (\<lambda>_. Inr []) (\<lambda>_. Inr []) (sample_cover_db None) ''chat'' 0 9 [] False = Some hits \<and>
     emitted Leaf hits = {} \<and> emitted Summary hits \<subseteq> {''s1'', ''s2'', ''s3''}"
proof -
  let ?e = "sample_level None @ [sample_parent None]"
  have "forest ?e" "\<forall>n\<in>set ?e. sn_doc_id n = None"
    by (simp_all add: forest_def descending_def sample_level_def sample_parent_def sample_node_def)
  from cover_is_exact [OF sample_cover_tree sample_cover_window [symmetric] this, of "\<lambda>_. Inr []" "\<lambda>_. Inr []" "[]" False]
  show ?thesis by (elim exE conjE) (auto simp: sample_level_def sample_parent_def)
qed

subsection \<open>Documents sealed in several batches are lost\<close>

lemma subtree_fold_leaves:
  assumes "\<forall>c\<in>set cs. by_id c = None"
  shows "fold (subtree_step by_id walk) cs (Some (S, C)) = Some (S, C \<union> set cs)"
  using assms by (induction cs arbitrary: C) (auto simp: subtree_step_def)

lemma subtree_fold_nodes:
  assumes "\<forall>n\<in>set ns. by_id (sn_id n) = Some n \<and> walk n = Some ({}, set (sn_child_ids n))"
  shows "fold (subtree_step by_id walk) (map sn_id ns) (Some (S, C)) =
    Some (S \<union> sn_id ` set ns, C \<union> (\<Union>n\<in>set ns. set (sn_child_ids n)))"
  using assms by (induction ns arbitrary: S C) (auto simp: subtree_step_def)

text \<open>The nodes \<^verbatim>\<open>document_levels\<close> seals for a document of several batches: one per batch, and their parent.\<close>

definition batched_document :: "string \<Rightarrow> int option \<Rightarrow> summary_node list \<Rightarrow> summary_node \<Rightarrow> bool" where
  "batched_document doc v ns r \<longleftrightarrow> ns \<noteq> [] \<and> sn_child_ids r = map sn_id ns \<and> distinct (map sn_id (ns @ [r])) \<and>
     (\<forall>n\<in>set (ns @ [r]). sn_doc_id n = Some doc \<and> sn_version_ms n = v) \<and>
     (\<forall>n\<in>set ns. \<forall>c\<in>set (sn_child_ids n). c \<notin> sn_id ` set (ns @ [r]))"

lemma newest_same:
  assumes "\<forall>n\<in>set ms. sn_doc_id n = Some doc \<and> sn_version_ms n = v" and "ms \<noteq> []"
  shows "fold raise_version ms m doc = Some (case m doc of Some w \<Rightarrow> if version_le v w then w else v | None \<Rightarrow> v)"
  using assms
proof (induction ms arbitrary: m)
  case (Cons n ms)
  have n: "raise_version n m doc = Some (case m doc of Some w \<Rightarrow> if version_le v w then w else v | None \<Rightarrow> v)"
    using Cons.prems by (auto simp: raise_version_def split: option.splits)
  have vv: "version_le v v" by (simp add: version_le_def split: option.splits)
  show ?case
  proof (cases "ms = []")
    case True
    then show ?thesis using n by simp
  next
    case False
    then show ?thesis using Cons n vv by (auto split: option.splits)
  qed
qed simp

lemma losers_same_document:
  assumes "\<forall>n\<in>set ms. sn_doc_id n = Some doc \<and> sn_version_ms n = v \<and> collect_subtree_ids fuel by_id n = Some (S n, C n)"
    and "newest doc = Some v" and "doc \<in> winners"
  shows "loser_loop fuel by_id newest winners ms = Some (sn_id ` set ms \<union> (\<Union>n\<in>set ms. S n), \<Union>n\<in>set ms. C n)"
  using assms(1)
proof (induction ms)
  case (Cons n ms)
  have vv: "version_le v v" by (simp add: version_le_def split: option.splits)
  have "insert doc winners = winners" using assms(3) by auto
  then show ?case using Cons assms(2,3) vv by (auto simp: Let_def)
qed simp

lemma batched_document_filtered:
  assumes "batched_document doc v ns r"
  shows "filter_superseded_doc_versions (ns @ [r]) = Some ([], \<Union>n\<in>set ns. set (sn_child_ids n))"
proof -
  note b = assms [unfolded batched_document_def]
  let ?all = "ns @ [r]" and ?by = "by_id_of (ns @ [r])"
  obtain n0 ms where ns: "ns = n0 # ms" using b by (cases ns) auto
  have d: "distinct (map sn_id ?all)" using b by blast
  have leaf: "collect_subtree_ids (Suc fuel) ?by n = Some ({}, set (sn_child_ids n))" if "n \<in> set ns" for n fuel
  proof -
    have "\<forall>c\<in>set (sn_child_ids n). ?by c = None" using b that by_id_None [OF d] by blast
    then show ?thesis using subtree_fold_leaves [of "sn_child_ids n" ?by _ "{}" "{}"] by simp
  qed
  obtain k where k: "length ?all = Suc (Suc k)" using ns by simp
  have leaf': "collect_subtree_ids (length ?all) ?by n = Some ({}, set (sn_child_ids n))" if "n \<in> set ns" for n
    unfolding k by (rule leaf [OF that])
  have "\<forall>n\<in>set ns. ?by (sn_id n) = Some n \<and> collect_subtree_ids (Suc k) ?by n = Some ({}, set (sn_child_ids n))"
    using by_id_Some [OF d] leaf by auto
  from subtree_fold_nodes [OF this, of "{}" "{}"]
  have top_walk: "collect_subtree_ids (length ?all) ?by r = Some (sn_id ` set ns, \<Union>n\<in>set ns. set (sn_child_ids n))"
    unfolding k collect_subtree_ids.simps(2) [of "Suc k"] using b by (simp del: collect_subtree_ids.simps)
  have vv: "version_le v v" by (simp add: version_le_def split: option.splits)
  have newest: "fold raise_version ?all Map.empty doc = Some v"
    using newest_same [of ?all doc v Map.empty] b by auto
  define S where "S n = (if n = r then sn_id ` set ns else {})" for n
  define C where "C n = (if n = r then \<Union>n\<in>set ns. set (sn_child_ids n) else set (sn_child_ids n))" for n
  have rn: "r \<notin> set ns" using d by auto
  have each: "\<forall>n\<in>set (ms @ [r]). sn_doc_id n = Some doc \<and> sn_version_ms n = v \<and>
      collect_subtree_ids (length ?all) ?by n = Some (S n, C n)"
  proof
    fix n assume "n \<in> set (ms @ [r])"
    then consider "n = r" | "n \<in> set ns" "n \<noteq> r" using ns rn by auto
    then show "sn_doc_id n = Some doc \<and> sn_version_ms n = v \<and>
      collect_subtree_ids (length ?all) ?by n = Some (S n, C n)"
    proof cases
      case 1
      then show ?thesis unfolding S_def C_def using b top_walk by (simp del: collect_subtree_ids.simps)
    next
      case 2
      then show ?thesis unfolding S_def C_def using b leaf' by (simp del: collect_subtree_ids.simps)
    qed
  qed
  have first: "sn_doc_id n0 = Some doc" "sn_version_ms n0 = v" using b ns by auto
  have "loser_loop (length ?all) ?by (fold raise_version ?all Map.empty) {} ?all =
      loser_loop (length ?all) ?by (fold raise_version ?all Map.empty) {doc} (ms @ [r])"
    unfolding ns append_Cons loser_loop.simps first option.case
    using newest [unfolded ns append_Cons] vv by (simp add: Let_def del: collect_subtree_ids.simps)
  also have "\<dots> = Some (sn_id ` set (ms @ [r]) \<union> (\<Union>n\<in>set (ms @ [r]). S n), \<Union>n\<in>set (ms @ [r]). C n)"
    by (rule losers_same_document) (rule each, rule newest, simp)
  also have "sn_id ` set (ms @ [r]) \<union> (\<Union>n\<in>set (ms @ [r]). S n) = sn_id ` set ?all"
    using ns by (auto simp: S_def)
  also have "(\<Union>n\<in>set (ms @ [r]). C n) = (\<Union>n\<in>set ns. set (sn_child_ids n))"
    using rn ns by (auto simp: C_def split: if_splits)
  finally have l: "loser_loop (length ?all) ?by (fold raise_version ?all Map.empty) {} ?all =
      Some (sn_id ` set ?all, \<Union>n\<in>set ns. set (sn_child_ids n))" .
  have "\<not> (\<forall>s\<in>set ?all. sn_doc_id s = None)" using b by auto
  moreover have "filter (\<lambda>s. sn_id s \<notin> sn_id ` set ?all) ?all = []" by (auto simp: filter_empty_conv)
  ultimately show ?thesis unfolding filter_superseded_doc_versions_def if_not_P l by simp
qed

text \<open>
  A document that was sealed in more than one batch vanishes from the cover of a window it lies in:
  no summary of it is emitted, and none of its chunks either. Every node of the document carries its
  id, so all but the first are taken for duplicates of it, and the root takes the first one along.
\<close>
theorem cover_loses_batched_documents:
  assumes "get_tree_by_scope Source source db = Some t"
    and "list_summaries_in_window (tr_id t) since_ms until_ms db = ns @ [r]"
    and "batched_document doc v ns r"
    and "\<forall>c\<in>set chunks. \<exists>n\<in>set ns. ch_id c \<in> set (sn_child_ids n)"
  shows "cover_one_source summary_body chunk_body db source since_ms until_ms chunks exact = Some []"
proof -
  have "plan_cover [] present = Some \<lparr>cp_maximal_ids = [], cp_covered_chunk_ids = {}\<rparr>" for present
    by (simp add: plan_cover_def)
  then show ?thesis
    using assms(4) batched_document_filtered [OF assms(3)]
    by (auto simp: cover_one_source_def assms(1,2) Let_def List.map_filter_def filter_empty_conv)
qed

theorem cover_loses_batched_documents_witness:
  "cover_one_source (\<lambda>_. Inr []) (\<lambda>_. Inr []) (sample_cover_db (Some ''d'')) ''chat'' 0 9 [] False = Some []"
proof -
  have "batched_document ''d'' None (sample_level (Some ''d'')) (sample_parent (Some ''d''))"
    by (simp add: batched_document_def sample_level_def sample_parent_def sample_node_def)
  from cover_loses_batched_documents [OF sample_cover_tree sample_cover_window this, of "[]"] show ?thesis by simp
qed

end
