(* ===== verification/Chunk_Delete.thy ===== *)
theory Chunk_Delete
  imports Chunk_Store Content_Paths
begin

section \<open>Deleting chunks (src/memory/chunks/store_delete.rs)\<close>

text \<open>
  A delete selects chunk rows, removes them with everything keyed off them, frees the raw files and the
  gates that no surviving chunk needs, and takes the summary tree of a scope that has emptied. The file
  paths it collects are removed after the commit. Path and scope sets are visited in the order of their
  first occurrence; the code's hash sets have none, and no step depends on it.
\<close>

datatype delete_filter = Exact_Source string | Source_Prefix string | By_Owner string | By_Chunk string

definition selects :: "source_kind \<Rightarrow> delete_filter \<Rightarrow> stored_chunk \<Rightarrow> bool" where
  "selects kind f r =
    (case f of
       Exact_Source v \<Rightarrow> st_source_kind r = kind \<and> st_source_id r = v
     | Source_Prefix v \<Rightarrow> st_source_kind r = kind \<and> take (length v) (st_source_id r) = v
     | By_Owner v \<Rightarrow> st_source_kind r = kind \<and> st_owner r = v
     | By_Chunk v \<Rightarrow> ck_id r = v)"

text \<open>The tree a chunk belongs to: \<^verbatim>\<open>COALESCE(path_scope, source_id)\<close>.\<close>

definition row_scope :: "stored_chunk \<Rightarrow> string" where
  "row_scope r = (case st_path_scope r of Some s \<Rightarrow> s | None \<Rightarrow> st_source_id r)"

definition delete_rows :: "string list \<Rightarrow> chunk_db \<Rightarrow> chunk_db" where
  "delete_rows ids db =
    (let t = cd_tree db;
         t' = t\<lparr>db_scores := sql_delete (\<lambda>r. sd_chunk_id r \<in> set ids) (db_scores t),
             db_entity_index := sql_delete (\<lambda>r. ix_node_id r \<in> set ids) (db_entity_index t)\<rparr>
     in set_rows (sql_delete (\<lambda>r. ck_id r \<in> set ids) (cd_rows db))
       (db\<lparr>cd_tree := t',
          cd_embeddings := sql_delete (\<lambda>e. em_chunk_id e \<in> set ids) (cd_embeddings db),
          cd_skipped := sql_delete (\<lambda>e. rs_chunk_id e \<in> set ids) (cd_skipped db)\<rparr>))"

definition has_corrupt_refs :: "stored_chunk list \<Rightarrow> bool" where
  "has_corrupt_refs rows \<longleftrightarrow> (\<exists>r\<in>set rows. st_raw_refs r = Some Raw_Corrupt)"

definition all_raw_paths :: "stored_chunk list \<Rightarrow> string list" where
  "all_raw_paths rows = remdups (concat (map raw_paths rows))"

definition unreferenced_raw_paths :: "stored_chunk list \<Rightarrow> stored_chunk list \<Rightarrow> string list" where
  "unreferenced_raw_paths chunks survivors =
    (if has_corrupt_refs survivors then []
     else filter (\<lambda>p. p \<notin> set (all_raw_paths survivors)) (all_raw_paths chunks))"

definition delete_gates :: "(ingest_gate \<Rightarrow> bool) \<Rightarrow> chunk_db \<Rightarrow> chunk_db" where
  "delete_gates p db = db\<lparr>cd_gates := sql_delete p (cd_gates db)\<rparr>"

definition orphaned_gate :: "source_kind \<Rightarrow> stored_chunk list \<Rightarrow> stored_chunk list \<Rightarrow> ingest_gate \<Rightarrow> bool" where
  "orphaned_gate kind chunks survivors g \<longleftrightarrow>
     ig_kind g = Source_Gate kind \<and> (\<exists>c\<in>set chunks. st_source_id c = ig_source_id g) \<and>
     \<not> (\<exists>r\<in>set survivors. st_source_kind r = kind \<and> st_source_id r = ig_source_id g)"

definition named_gate :: "source_kind \<Rightarrow> delete_filter \<Rightarrow> ingest_gate \<Rightarrow> bool" where
  "named_gate kind f g =
    (case f of
       Exact_Source v \<Rightarrow> ig_kind g = Source_Gate kind \<and> ig_source_id g = v
     | Source_Prefix v \<Rightarrow> ig_kind g = Source_Gate kind \<and> take (length v) (ig_source_id g) = v
     | _ \<Rightarrow> False)"

definition on_tree :: "('a, tree_db) tx \<Rightarrow> ('a, chunk_db) tx" where
  "on_tree f db = (case f (cd_tree db) of Inl e \<Rightarrow> Inl e | Inr (x, t) \<Rightarrow> Inr (x, db\<lparr>cd_tree := t\<rparr>))"

definition delete_scope_tree :: "string \<Rightarrow> (string list, chunk_db) tx" where
  "delete_scope_tree scope db =
    (case get_tree_by_scope Source scope (cd_tree db) of
       None \<Rightarrow> Inr ([], db)
     | Some t \<Rightarrow>
        (case on_tree (delete_tree_cascade_tx (tr_id t)) db of
           Inl e \<Rightarrow> Inl e | Inr (d, db') \<Rightarrow> Inr (tcd_content_paths d, db')))"

text \<open>The loop over the scopes of the deleted chunks.\<close>

fun delete_empty_scopes :: "source_kind \<Rightarrow> string list \<Rightarrow> (string list, chunk_db) tx" where
  "delete_empty_scopes kind [] db = Inr ([], db)"
| "delete_empty_scopes kind (s # ss) db =
    (if sql_count (\<lambda>r. st_source_kind r = kind \<and> row_scope r = s) (cd_rows db) \<noteq> 0
     then delete_empty_scopes kind ss db
     else (case delete_scope_tree s db of
             Inl e \<Rightarrow> Inl e
           | Inr (paths, db') \<Rightarrow>
              (case delete_empty_scopes kind ss db' of
                 Inl e \<Rightarrow> Inl e | Inr (rest, db'') \<Rightarrow> Inr (paths @ rest, db''))))"

text \<open>The result is the count and the paths handed to \<^verbatim>\<open>remove_chunk_content_files\<close>.\<close>

definition delete_chunks_by_source_filter :: "source_kind \<Rightarrow> delete_filter \<Rightarrow> (nat \<times> string list, chunk_db) tx" where
  "delete_chunks_by_source_filter kind f db =
    (let chunks = filter (selects kind f) (cd_rows db);
         scopes = remdups (map row_scope chunks);
         paths = List.map_filter (\<lambda>r. nonempty (st_content_path r)) chunks;
         db1 = delete_rows (map ck_id chunks) db;
         raw = unreferenced_raw_paths chunks (cd_rows db1);
         db2 = delete_gates (\<lambda>g. \<exists>p\<in>set raw. gate_key g = (Raw_File_Gate, p)) db1;
         db3 = delete_gates (orphaned_gate kind chunks (cd_rows db2)) db2;
         db4 = delete_gates (named_gate kind f) db3
     in case delete_empty_scopes kind scopes db4 of
          Inl e \<Rightarrow> Inl e
        | Inr (tree_paths, db5) \<Rightarrow> Inr ((length chunks, paths @ raw @ tree_paths), db5))"

definition delete_chunks_by_source :: "source_kind \<Rightarrow> string \<Rightarrow> (nat \<times> string list, chunk_db) tx" where
  "delete_chunks_by_source kind source_id = delete_chunks_by_source_filter kind (Exact_Source source_id)"

definition delete_chunks_by_source_prefix :: "source_kind \<Rightarrow> string \<Rightarrow> (nat \<times> string list, chunk_db) tx" where
  "delete_chunks_by_source_prefix kind pre = delete_chunks_by_source_filter kind (Source_Prefix pre)"

definition delete_chunks_by_owner :: "source_kind \<Rightarrow> string \<Rightarrow> (nat \<times> string list, chunk_db) tx" where
  "delete_chunks_by_owner kind owner = delete_chunks_by_source_filter kind (By_Owner owner)"

definition delete_chunk_by_id :: "string \<Rightarrow> (nat \<times> string list, chunk_db) tx" where
  "delete_chunk_by_id chunk_id db =
    (case sql_find (\<lambda>r. ck_id r = chunk_id) (cd_rows db) of
       None \<Rightarrow> Inr ((0, []), db)
     | Some r \<Rightarrow> delete_chunks_by_source_filter (st_source_kind r) (By_Chunk chunk_id) db)"

definition delete_orphaned_source_tree :: "source_kind \<Rightarrow> string \<Rightarrow> (bool \<times> string list, chunk_db) tx" where
  "delete_orphaned_source_tree kind source_id db =
    (if sql_count (\<lambda>r. st_source_kind r = kind \<and> st_source_id r = source_id) (cd_rows db) > 0
     then Inr ((False, []), db)
     else
       (let versioned = source_id @ ''@'';
            db1 = delete_gates (\<lambda>g. ig_kind g = Source_Gate kind \<and>
              (ig_source_id g = source_id \<or> take (length versioned) (ig_source_id g) = versioned)) db
        in case get_tree_by_scope Source source_id (cd_tree db1) of
             None \<Rightarrow> Inr ((False, []), db1)
           | Some t \<Rightarrow>
              (case on_tree (delete_tree_cascade_tx (tr_id t)) db1 of
                 Inl e \<Rightarrow> Inl e | Inr (d, db2) \<Rightarrow> Inr ((True, tcd_content_paths d), db2))))"

subsection \<open>Purging the store\<close>

definition collect_purge_content_paths :: "chunk_db \<Rightarrow> string list" where
  "collect_purge_content_paths db =
    List.map_filter (\<lambda>r. nonempty (st_content_path r)) (cd_rows db) @
    List.map_filter (\<lambda>r. nonempty (sr_content_path r)) (db_summaries (cd_tree db)) @
    concat (map raw_paths (cd_rows db))"

text \<open>The summary embeddings' tombstones and the chunks' are the last of the twelve tables and the seventh.\<close>

definition purge_all :: "chunk_db \<Rightarrow> (nat \<times> string list) \<times> chunk_db" where
  "purge_all db =
    (let t = cd_tree db;
         n = length (db_scores t) + length (db_entity_index t) + length (db_edges t) + length (db_hotness t) +
             length (db_jobs t) + length (db_buffers t) + length (db_summary_embeddings t) +
             length (db_reembed_skipped t) + length (db_summaries t) + length (db_trees t) +
             length (cd_embeddings db) + length (cd_skipped db) + length (cd_rows db) + length (cd_gates db)
     in ((n, collect_purge_content_paths db),
         \<lparr>cd_tree = \<lparr>db_trees = [], db_buffers = [], db_summaries = [], db_summary_embeddings = [],
            db_reembed_skipped = [], db_chunks = [], db_scores = [], db_entity_index = [], db_edges = [],
            db_hotness = [], db_jobs = []\<rparr>,
          cd_rows = [], cd_embeddings = [], cd_skipped = [], cd_gates = []\<rparr>))"

subsection \<open>Removing files\<close>

text \<open>
  \<^verbatim>\<open>canonicalize\<close> and \<^verbatim>\<open>remove_file\<close> are the file system's, at a path below the content root;
  \<^verbatim>\<open>canonical_root\<close> is the resolved root. A Unix path has no prefix component.
\<close>

definition has_escape_component :: "string \<Rightarrow> bool" where
  "has_escape_component rel \<longleftrightarrow> take 1 rel = ''/'' \<or> [46, 46] \<in> set (split_at 47 (utext_of rel))"

definition remove_content_file :: "('fs \<Rightarrow> string \<Rightarrow> 'c list option) \<Rightarrow> (string \<Rightarrow> 'fs \<Rightarrow> 'fs) \<Rightarrow> 'c list \<Rightarrow>
    string \<Rightarrow> 'fs \<Rightarrow> 'fs" where
  "remove_content_file canonicalize remove_file canonical_root rel fs =
    (if has_escape_component rel then fs
     else case canonicalize fs rel of
            None \<Rightarrow> fs
          | Some p \<Rightarrow> (if take (length canonical_root) p = canonical_root then remove_file rel fs else fs))"

definition remove_chunk_content_files :: "('fs \<Rightarrow> string \<Rightarrow> 'c list option) \<Rightarrow> (string \<Rightarrow> 'fs \<Rightarrow> 'fs) \<Rightarrow>
    'c list option \<Rightarrow> string list \<Rightarrow> 'fs \<Rightarrow> 'fs" where
  "remove_chunk_content_files canonicalize remove_file canonical_root paths fs =
    (case canonical_root of
       None \<Rightarrow> fs
     | Some base \<Rightarrow> fold (remove_content_file canonicalize remove_file base) paths fs)"

definition unreferenced_content_files :: "string list \<Rightarrow> chunk_db \<Rightarrow> string list" where
  "unreferenced_content_files paths db =
    filter (\<lambda>p. \<not> (\<exists>r\<in>set (cd_rows db). st_content_path r = Some p) \<and>
                \<not> (\<exists>r\<in>set (db_summaries (cd_tree db)). sr_content_path r = Some p))
      (remdups (filter (\<lambda>p. p \<noteq> []) paths))"

subsection \<open>What is left\<close>

lemma cd_rows_set_rows [simp]: "cd_rows (set_rows rows db) = rows"
  by (simp add: set_rows_def)

lemma cd_gates_set_rows [simp]: "cd_gates (set_rows rows db) = cd_gates db"
  by (simp add: set_rows_def)

lemma delete_gates_sel [simp]:
  "cd_rows (delete_gates p db) = cd_rows db" "cd_tree (delete_gates p db) = cd_tree db"
  "cd_gates (delete_gates p db) = sql_delete p (cd_gates db)"
  "cd_embeddings (delete_gates p db) = cd_embeddings db" "cd_skipped (delete_gates p db) = cd_skipped db"
  by (simp_all add: delete_gates_def)

text \<open>The source trees of the scopes that no chunk of the kind is left in.\<close>

definition emptied_trees :: "source_kind \<Rightarrow> string list \<Rightarrow> chunk_db \<Rightarrow> tree set" where
  "emptied_trees kind scopes db =
    {t \<in> set (db_trees (cd_tree db)). tr_kind t = Source \<and> tr_scope t \<in> set scopes \<and>
       \<not> (\<exists>r\<in>set (cd_rows db). st_source_kind r = kind \<and> row_scope r = tr_scope t)}"

definition without_trees :: "string set \<Rightarrow> chunk_db \<Rightarrow> chunk_db \<Rightarrow> bool" where
  "without_trees ids db db' \<longleftrightarrow>
     cd_rows db' = cd_rows db \<and> cd_gates db' = cd_gates db \<and> cd_embeddings db' = cd_embeddings db \<and>
     cd_skipped db' = cd_skipped db \<and> db_chunks (cd_tree db') = db_chunks (cd_tree db) \<and>
     db_scores (cd_tree db') = db_scores (cd_tree db) \<and>
     db_entity_index (cd_tree db') = sql_delete (\<lambda>x. \<exists>i\<in>ids. ix_tree_id x = Some i) (db_entity_index (cd_tree db)) \<and>
     db_summaries (cd_tree db') = sql_delete (\<lambda>x. sn_tree_id (sr_node x) \<in> ids) (db_summaries (cd_tree db)) \<and>
     db_buffers (cd_tree db') = sql_delete (\<lambda>x. bf_tree_id (br_buffer x) \<in> ids) (db_buffers (cd_tree db)) \<and>
     db_trees (cd_tree db') = sql_delete (\<lambda>x. tr_id x \<in> ids) (db_trees (cd_tree db))"

definition summary_paths :: "string set \<Rightarrow> chunk_db \<Rightarrow> string set" where
  "summary_paths ids db =
    {p. p \<noteq> [] \<and> (\<exists>x\<in>set (db_summaries (cd_tree db)). sn_tree_id (sr_node x) \<in> ids \<and> sr_content_path x = Some p)}"

lemma without_trees_refl [simp]: "without_trees {} db db"
  by (simp add: without_trees_def sql_delete_def)

lemma without_trees_trans:
  "without_trees A db db' \<Longrightarrow> without_trees B db' db'' \<Longrightarrow> without_trees (A \<union> B) db db''"
  by (auto simp: without_trees_def sql_delete_def filter_filter intro!: filter_cong)

lemma delete_tree_without:
  obtains d db' where "on_tree (delete_tree_cascade_tx i) db = Inr (d, db')" "without_trees {i} db db'"
    "set (tcd_content_paths d) = summary_paths {i} db"
proof -
  obtain d t' where d: "delete_tree_cascade_tx i (cd_tree db) = Inr (d, t')"
    by (simp add: delete_tree_cascade_tx_def Let_def)
  let ?db' = "db\<lparr>cd_tree := t'\<rparr>"
  have "on_tree (delete_tree_cascade_tx i) db = Inr (d, ?db')" by (simp add: on_tree_def d)
  moreover have "without_trees {i} db ?db'"
    using d by (auto simp: delete_tree_cascade_tx_def Let_def without_trees_def)
  moreover have "set (tcd_content_paths d) = summary_paths {i} db"
    using d by (auto simp: delete_tree_cascade_tx_def Let_def summary_paths_def set_map_filter_Some)
  ultimately show ?thesis by (rule that)
qed

lemma emptied_trees_Cons:
  "emptied_trees kind (s # ss) db = emptied_trees kind [s] db \<union> emptied_trees kind ss db"
  by (auto simp: emptied_trees_def)

lemma emptied_after:
  assumes "trees_ok (db_trees (cd_tree db))" and "without_trees (tr_id ` A) db db'" and "A \<subseteq> set (db_trees (cd_tree db))"
  shows "emptied_trees kind ss db' = emptied_trees kind ss db - A"
proof -
  have "r \<in> A" if "r \<in> set (db_trees (cd_tree db))" "tr_id r \<in> tr_id ` A" for r
    using that(2) assms(3) trees.key_eq [OF assms(1) that(1)] by blast
  moreover have "db_trees (cd_tree db') = sql_delete (\<lambda>x. tr_id x \<in> tr_id ` A) (db_trees (cd_tree db))"
    using assms(2) by (simp add: without_trees_def)
  ultimately have "set (db_trees (cd_tree db')) = set (db_trees (cd_tree db)) - A" by auto
  then show ?thesis using assms(2) by (auto simp: emptied_trees_def without_trees_def)
qed

lemma paths_after:
  "without_trees A db db' \<Longrightarrow> summary_paths A db \<union> summary_paths B db' = summary_paths (A \<union> B) db"
  by (auto simp: summary_paths_def without_trees_def)

lemma delete_scope_tree_without:
  assumes "trees_ok (db_trees (cd_tree db))" and "\<not> (\<exists>r\<in>set (cd_rows db). st_source_kind r = kind \<and> row_scope r = s)"
  shows "\<exists>paths db'. delete_scope_tree s db = Inr (paths, db') \<and>
    without_trees (tr_id ` emptied_trees kind [s] db) db db' \<and> set paths = summary_paths (tr_id ` emptied_trees kind [s] db) db"
proof (cases "get_tree_by_scope Source s (cd_tree db)")
  case None
  then have "emptied_trees kind [s] db = {}"
    by (auto simp: emptied_trees_def get_tree_by_scope_def dest: sql_find_NoneD)
  then show ?thesis using None by (simp add: delete_scope_tree_def summary_paths_def)
next
  case (Some t)
  then have t: "t \<in> set (db_trees (cd_tree db))" "tr_kind t = Source" "tr_scope t = s"
    by (auto dest: get_tree_by_scope_SomeD)
  have only: "u = t" if "u \<in> set (db_trees (cd_tree db))" "tr_kind u = Source" "tr_scope u = s" for u
    by (rule trees_by_scope.key_eq [OF assms(1) that(1) t(1)]) (simp add: that t)
  have "emptied_trees kind [s] db = {t}"
  proof (intro equalityI subsetI)
    fix u assume "u \<in> emptied_trees kind [s] db"
    then show "u \<in> {t}" using only [of u] by (simp add: emptied_trees_def)
  next
    fix u assume "u \<in> {t}"
    then show "u \<in> emptied_trees kind [s] db" using assms(2) t by (simp add: emptied_trees_def)
  qed
  moreover obtain d db' where "on_tree (delete_tree_cascade_tx (tr_id t)) db = Inr (d, db')"
      "without_trees {tr_id t} db db'" "set (tcd_content_paths d) = summary_paths {tr_id t} db"
    by (rule delete_tree_without)
  ultimately show ?thesis using Some by (simp add: delete_scope_tree_def)
qed

lemma trees_ok_delete: "trees_ok t \<Longrightarrow> trees_ok (sql_delete p t)"
  by (simp add: trees_ok_def distinct_map_delete)

lemma delete_empty_scopes_without:
  assumes "trees_ok (db_trees (cd_tree db))"
  shows "\<exists>paths db'. delete_empty_scopes kind ss db = Inr (paths, db') \<and>
    without_trees (tr_id ` emptied_trees kind ss db) db db' \<and>
    set paths = summary_paths (tr_id ` emptied_trees kind ss db) db"
  using assms
proof (induction ss arbitrary: db)
  case Nil
  then show ?case by (simp add: emptied_trees_def summary_paths_def)
next
  case (Cons s ss)
  show ?case
  proof (cases "\<exists>r\<in>set (cd_rows db). st_source_kind r = kind \<and> row_scope r = s")
    case True
    then have "emptied_trees kind (s # ss) db = emptied_trees kind ss db" by (auto simp: emptied_trees_def)
    moreover have "sql_count (\<lambda>r. st_source_kind r = kind \<and> row_scope r = s) (cd_rows db) \<noteq> 0"
      using True by (auto simp: sql_count_0_iff)
    ultimately show ?thesis using Cons by simp
  next
    case False
    then have zero: "sql_count (\<lambda>r. st_source_kind r = kind \<and> row_scope r = s) (cd_rows db) = 0"
      by (auto simp: sql_count_0_iff)
    let ?A = "emptied_trees kind [s] db"
    obtain p1 db1 where one: "delete_scope_tree s db = Inr (p1, db1)" "without_trees (tr_id ` ?A) db db1"
        "set p1 = summary_paths (tr_id ` ?A) db"
      using delete_scope_tree_without [OF Cons.prems False] by blast
    have ok: "trees_ok (db_trees (cd_tree db1))"
      using one(2) Cons.prems by (simp add: without_trees_def trees_ok_delete)
    obtain p2 db2 where two: "delete_empty_scopes kind ss db1 = Inr (p2, db2)"
        "without_trees (tr_id ` emptied_trees kind ss db1) db1 db2"
        "set p2 = summary_paths (tr_id ` emptied_trees kind ss db1) db1"
      using Cons.IH [OF ok] by blast
    have "?A \<subseteq> set (db_trees (cd_tree db))" by (auto simp: emptied_trees_def)
    then have e: "emptied_trees kind ss db1 = emptied_trees kind ss db - ?A"
      by (rule emptied_after [OF Cons.prems one(2)])
    have u: "tr_id ` ?A \<union> tr_id ` emptied_trees kind ss db1 = tr_id ` emptied_trees kind (s # ss) db"
      unfolding e emptied_trees_Cons [of kind s ss] by blast
    have "without_trees (tr_id ` emptied_trees kind (s # ss) db) db db2"
      using without_trees_trans [OF one(2) two(2)] by (simp only: u)
    moreover have "set (p1 @ p2) = summary_paths (tr_id ` emptied_trees kind (s # ss) db) db"
      using paths_after [OF one(2), of "tr_id ` emptied_trees kind ss db1"] by (simp only: set_append one(3) two(3) u)
    ultimately show ?thesis using one(1) two(1) zero by (simp del: set_append)
  qed
qed

lemma delete_rows_sel [simp]:
  "cd_rows (delete_rows ids db) = sql_delete (\<lambda>r. ck_id r \<in> set ids) (cd_rows db)"
  "cd_gates (delete_rows ids db) = cd_gates db"
  "cd_embeddings (delete_rows ids db) = sql_delete (\<lambda>e. em_chunk_id e \<in> set ids) (cd_embeddings db)"
  "cd_skipped (delete_rows ids db) = sql_delete (\<lambda>e. rs_chunk_id e \<in> set ids) (cd_skipped db)"
  "db_trees (cd_tree (delete_rows ids db)) = db_trees (cd_tree db)"
  "db_summaries (cd_tree (delete_rows ids db)) = db_summaries (cd_tree db)"
  "db_buffers (cd_tree (delete_rows ids db)) = db_buffers (cd_tree db)"
  "db_scores (cd_tree (delete_rows ids db)) = sql_delete (\<lambda>r. sd_chunk_id r \<in> set ids) (db_scores (cd_tree db))"
  "db_entity_index (cd_tree (delete_rows ids db)) = sql_delete (\<lambda>r. ix_node_id r \<in> set ids) (db_entity_index (cd_tree db))"
  "db_chunks (cd_tree (delete_rows ids db)) = map chunk_row.truncate (cd_rows (delete_rows ids db))"
  by (simp_all add: delete_rows_def set_rows_def Let_def)

text \<open>The gates a delete releases: of files nothing refers to any more, of emptied sources, and the named ones.\<close>

definition released_gate :: "source_kind \<Rightarrow> delete_filter \<Rightarrow> stored_chunk list \<Rightarrow> stored_chunk list \<Rightarrow> ingest_gate \<Rightarrow> bool" where
  "released_gate kind f chunks survivors g \<longleftrightarrow>
     (\<exists>p\<in>set (unreferenced_raw_paths chunks survivors). gate_key g = (Raw_File_Gate, p)) \<or>
     orphaned_gate kind chunks survivors g \<or> named_gate kind f g"

text \<open>What should go: a file no surviving chunk refers to, provided all survivors' references can be read,
  with its gate, the gates of emptied sources and of the sources the filter names.\<close>

definition freed_files :: "stored_chunk list \<Rightarrow> stored_chunk list \<Rightarrow> string set" where
  "freed_files gone kept = {p. (\<exists>r\<in>set gone. p \<in> set (raw_paths r)) \<and>
     (\<forall>r\<in>set kept. p \<notin> set (raw_paths r) \<and> st_raw_refs r \<noteq> Some Raw_Corrupt)}"

definition freed_gate :: "source_kind \<Rightarrow> delete_filter \<Rightarrow> stored_chunk list \<Rightarrow> stored_chunk list \<Rightarrow> ingest_gate \<Rightarrow> bool" where
  "freed_gate kind f gone kept g \<longleftrightarrow>
    (case ig_kind g of
       Raw_File_Gate \<Rightarrow> ig_source_id g \<in> freed_files gone kept
     | Source_Gate k \<Rightarrow> k = kind \<and>
        (f = Exact_Source (ig_source_id g) \<or> (\<exists>v rest. f = Source_Prefix v \<and> ig_source_id g = v @ rest) \<or>
         (\<exists>r\<in>set gone. st_source_id r = ig_source_id g) \<and>
         (\<forall>r\<in>set kept. st_source_kind r = kind \<longrightarrow> st_source_id r \<noteq> ig_source_id g)))"

lemma unreferenced_freed: "set (unreferenced_raw_paths gone kept) = freed_files gone kept"
  by (auto simp: unreferenced_raw_paths_def freed_files_def has_corrupt_refs_def all_raw_paths_def)

lemma take_prefix_iff: "take (length v) s = v \<longleftrightarrow> (\<exists>rest. s = v @ rest)"
  by (metis append_eq_conv_conj)

lemma released_freed: "released_gate kind f gone kept g = freed_gate kind f gone kept g"
  unfolding released_gate_def unreferenced_freed
  by (cases "ig_kind g"; cases f)
    (auto simp: freed_gate_def gate_key_def orphaned_gate_def named_gate_def take_prefix_iff)

lemma named_gate_freed: "named_gate kind f g \<Longrightarrow> freed_gate kind f gone kept g"
  by (simp add: released_freed [symmetric] released_gate_def)

lemma selected_ids:
  assumes "chunks_ok rows" and "r \<in> set rows"
  shows "ck_id r \<in> ck_id ` {r \<in> set rows. selects kind f r} \<longleftrightarrow> selects kind f r"
  using assms chunks.key_eq [OF assms(1)] by blast

lemma delete_rows_Nil: "db_chunks (cd_tree db) = map chunk_row.truncate (cd_rows db) \<Longrightarrow> delete_rows [] db = db"
  by (simp add: delete_rows_def set_rows_def sql_delete_def)

lemma delete_gates_none: "\<forall>g\<in>set (cd_gates db). \<not> p g \<Longrightarrow> delete_gates p db = db"
  by (simp add: delete_gates_def sql_delete_def)

lemma delete_gates_False [simp]: "delete_gates (\<lambda>g. False) db = db"
  by (simp add: delete_gates_none)

lemma delete_nothing:
  assumes "filter (selects kind f) (cd_rows db) = []" and "db_chunks (cd_tree db) = map chunk_row.truncate (cd_rows db)"
    and "\<forall>g\<in>set (cd_gates db). \<not> named_gate kind f g"
  shows "delete_chunks_by_source_filter kind f db = Inr ((0, []), db)"
proof -
  have raw: "unreferenced_raw_paths [] survivors = []" for survivors
    by (simp add: unreferenced_raw_paths_def all_raw_paths_def)
  have "delete_gates (orphaned_gate kind [] (cd_rows db)) db = db" "delete_gates (named_gate kind f) db = db"
    using assms(3) by (auto intro!: delete_gates_none simp: orphaned_gate_def)
  then show ?thesis
    by (simp add: delete_chunks_by_source_filter_def assms(1) delete_rows_Nil [OF assms(2)] Let_def raw map_filter_simps
        sql_delete_def)
qed

lemma selected_rows:
  assumes "chunks_ok rows"
  shows "sql_delete (\<lambda>r. ck_id r \<in> ck_id ` set (filter (selects kind f) rows)) rows = filter (\<lambda>r. \<not> selects kind f r) rows"
  unfolding sql_delete_def by (rule filter_cong [OF refl]) (use selected_ids [OF assms] in simp)

lemma delete_run:
  assumes "chunks_ok (cd_rows db)" and "trees_ok (db_trees (cd_tree db))"
    and "gone = filter (selects kind f) (cd_rows db)" and "kept = filter (\<lambda>r. \<not> selects kind f r) (cd_rows db)"
  obtains paths db4 db' where "delete_chunks_by_source_filter kind f db = Inr ((length gone, paths), db')"
    and "cd_rows db4 = kept" and "cd_tree db4 = cd_tree (delete_rows (map ck_id gone) db)"
    and "cd_embeddings db4 = filter (\<lambda>e. em_chunk_id e \<notin> ck_id ` set gone) (cd_embeddings db)"
    and "cd_skipped db4 = filter (\<lambda>e. rs_chunk_id e \<notin> ck_id ` set gone) (cd_skipped db)"
    and "cd_gates db4 = filter (\<lambda>g. \<not> released_gate kind f gone kept g) (cd_gates db)"
    and "without_trees (tr_id ` emptied_trees kind (map row_scope gone) db4) db4 db'"
    and "set paths = {p. \<exists>r\<in>set gone. nonempty (st_content_path r) = Some p} \<union> set (unreferenced_raw_paths gone kept) \<union>
      summary_paths (tr_id ` emptied_trees kind (map row_scope gone) db4) db4"
proof -
  define db1 where "db1 = delete_rows (map ck_id gone) db"
  define raw where "raw = unreferenced_raw_paths gone (cd_rows db1)"
  define db2 where "db2 = delete_gates (\<lambda>g. \<exists>p\<in>set raw. gate_key g = (Raw_File_Gate, p)) db1"
  define db3 where "db3 = delete_gates (orphaned_gate kind gone (cd_rows db2)) db2"
  define db4 where "db4 = delete_gates (named_gate kind f) db3"
  define scopes where "scopes = remdups (map row_scope gone)"
  have rows1: "cd_rows db1 = kept"
    using selected_rows [OF assms(1), of kind f] by (simp add: db1_def assms(3,4))
  have raw: "raw = unreferenced_raw_paths gone kept" by (simp add: raw_def rows1)
  have gates4: "cd_gates db4 = filter (\<lambda>g. \<not> released_gate kind f gone kept g) (cd_gates db)"
  proof -
    have "cd_gates db2 = sql_delete (\<lambda>g. \<exists>p\<in>set (unreferenced_raw_paths gone kept). gate_key g = (Raw_File_Gate, p)) (cd_gates db)"
      by (simp add: db2_def db1_def raw)
    moreover have "cd_gates db4 = sql_delete (named_gate kind f) (sql_delete (orphaned_gate kind gone kept) (cd_gates db2))"
      by (simp add: db4_def db3_def db2_def rows1)
    ultimately show ?thesis by (auto simp: sql_delete_def released_gate_def intro!: filter_cong)
  qed
  have tree4: "cd_tree db4 = cd_tree db1" "cd_rows db4 = kept" "cd_embeddings db4 = cd_embeddings db1"
    "cd_skipped db4 = cd_skipped db1"
    by (simp_all add: db4_def db3_def db2_def rows1)
  have ok4: "trees_ok (db_trees (cd_tree db4))" using assms(2) by (simp add: tree4 db1_def)
  have scopes: "emptied_trees kind scopes db4 = emptied_trees kind (map row_scope gone) db4"
    by (simp add: emptied_trees_def scopes_def)
  obtain tp db5 where run: "delete_empty_scopes kind scopes db4 = Inr (tp, db5)"
      "without_trees (tr_id ` emptied_trees kind (map row_scope gone) db4) db4 db5"
      "set tp = summary_paths (tr_id ` emptied_trees kind (map row_scope gone) db4) db4"
    using delete_empty_scopes_without [OF ok4, of kind scopes] unfolding scopes by blast
  let ?paths = "List.map_filter (\<lambda>r. nonempty (st_content_path r)) gone @ raw @ tp"
  have result: "delete_chunks_by_source_filter kind f db = Inr ((length gone, ?paths), db5)"
    by (simp only: delete_chunks_by_source_filter_def Let_def assms(3) [symmetric] db1_def [symmetric] raw_def [symmetric]
        db2_def [symmetric] db3_def [symmetric] db4_def [symmetric] scopes_def [symmetric] run(1) sum.case prod.case)
  show ?thesis
    by (rule that [OF result, of db4])
      (use run tree4 gates4 raw in \<open>simp_all add: db1_def sql_delete_def set_map_filter_Some Un_assoc\<close>)
qed

text \<open>
  C19: a delete takes exactly the selected rows, in one step with everything keyed off them: their
  scores, index entries, embeddings and tombstones. It releases exactly the gates of files that nothing
  refers to any more, of emptied sources and of the sources named. No file it removes is a raw file of
  a surviving chunk, unless it is also the stored body of a deleted chunk or summary; when a surviving
  row's references cannot be read no raw file is removed, and else all those without a reference are.
  Repeating the delete finds nothing and changes nothing.
\<close>
theorem delete_takes_exactly_the_selected:
  assumes "chunks_ok (cd_rows db)" and "trees_ok (db_trees (cd_tree db))"
    and "gone = filter (selects kind f) (cd_rows db)" and "kept = filter (\<lambda>r. \<not> selects kind f r) (cd_rows db)"
  shows "\<exists>paths db'. delete_chunks_by_source_filter kind f db = Inr ((length gone, paths), db') \<and>
    cd_rows db' = kept \<and>
    cd_embeddings db' = filter (\<lambda>e. em_chunk_id e \<notin> ck_id ` set gone) (cd_embeddings db) \<and>
    cd_skipped db' = filter (\<lambda>e. rs_chunk_id e \<notin> ck_id ` set gone) (cd_skipped db) \<and>
    db_scores (cd_tree db') = filter (\<lambda>e. sd_chunk_id e \<notin> ck_id ` set gone) (db_scores (cd_tree db)) \<and>
    (\<forall>e\<in>set (db_entity_index (cd_tree db')). ix_node_id e \<notin> ck_id ` set gone) \<and>
    cd_gates db' = filter (\<lambda>g. \<not> freed_gate kind f gone kept g) (cd_gates db) \<and>
    freed_files gone kept \<subseteq> set paths \<and>
    (\<forall>p\<in>set paths. p \<in> freed_files gone kept \<or> (\<exists>r\<in>set gone. st_content_path r = Some p) \<or>
       (\<exists>s\<in>set (db_summaries (cd_tree db)). s \<notin> set (db_summaries (cd_tree db')) \<and> sr_content_path s = Some p)) \<and>
    delete_chunks_by_source_filter kind f db' = Inr ((0, []), db')"
proof -
  obtain paths db4 db' where run: "delete_chunks_by_source_filter kind f db = Inr ((length gone, paths), db')"
    and d4: "cd_rows db4 = kept" "cd_tree db4 = cd_tree (delete_rows (map ck_id gone) db)"
      "cd_embeddings db4 = filter (\<lambda>e. em_chunk_id e \<notin> ck_id ` set gone) (cd_embeddings db)"
      "cd_skipped db4 = filter (\<lambda>e. rs_chunk_id e \<notin> ck_id ` set gone) (cd_skipped db)"
      "cd_gates db4 = filter (\<lambda>g. \<not> freed_gate kind f gone kept g) (cd_gates db)"
    and w: "without_trees (tr_id ` emptied_trees kind (map row_scope gone) db4) db4 db'"
    and paths: "set paths = {p. \<exists>r\<in>set gone. nonempty (st_content_path r) = Some p} \<union>
      freed_files gone kept \<union> summary_paths (tr_id ` emptied_trees kind (map row_scope gone) db4) db4"
    by (rule delete_run [OF assms, unfolded unreferenced_freed released_freed]) blast
  note w = w [unfolded without_trees_def]
  have tables: "cd_rows db' = kept" "cd_embeddings db' = filter (\<lambda>e. em_chunk_id e \<notin> ck_id ` set gone) (cd_embeddings db)"
    "cd_skipped db' = filter (\<lambda>e. rs_chunk_id e \<notin> ck_id ` set gone) (cd_skipped db)"
    "db_scores (cd_tree db') = filter (\<lambda>e. sd_chunk_id e \<notin> ck_id ` set gone) (db_scores (cd_tree db))"
    "cd_gates db' = filter (\<lambda>g. \<not> freed_gate kind f gone kept g) (cd_gates db)"
    using w by (simp_all add: d4 sql_delete_def)
  have index: "\<forall>e\<in>set (db_entity_index (cd_tree db')). ix_node_id e \<notin> ck_id ` set gone"
    using w by (auto simp: d4)
  have only: "p \<in> freed_files gone kept \<or> (\<exists>r\<in>set gone. st_content_path r = Some p) \<or>
      (\<exists>s\<in>set (db_summaries (cd_tree db)). s \<notin> set (db_summaries (cd_tree db')) \<and> sr_content_path s = Some p)"
    if "p \<in> set paths" for p
    using that w unfolding paths
    by (auto simp: nonempty_def summary_paths_def d4 split: option.splits if_splits)
  have again: "delete_chunks_by_source_filter kind f db' = Inr ((0, []), db')"
  proof (rule delete_nothing)
    show "filter (selects kind f) (cd_rows db') = []" by (simp add: tables assms(4) filter_empty_conv)
    show "db_chunks (cd_tree db') = map chunk_row.truncate (cd_rows db')"
      using w selected_rows [OF assms(1), of kind f] by (simp add: d4 assms(3,4))
    show "\<forall>g\<in>set (cd_gates db'). \<not> named_gate kind f g" by (auto simp: tables dest: named_gate_freed)
  qed
  show ?thesis
    by (intro exI [of _ paths] exI [of _ db'] conjI run tables index again ballI only) (auto simp: paths)
qed

text \<open>
  A delete drops exactly the source trees of the scopes it emptied for the kind it deletes, with
  their summaries, buffers and index entries, and touches no other tree. Chunks of another kind in the
  scope do not count: they stay, and their tree goes.
\<close>
theorem delete_drops_emptied_trees:
  assumes "chunks_ok (cd_rows db)" and "trees_ok (db_trees (cd_tree db))"
    and "delete_chunks_by_source_filter kind f db = Inr (r, db')"
    and "dropped = {t \<in> set (db_trees (cd_tree db)). tr_kind t = Source \<and>
      (\<exists>c\<in>set (cd_rows db). selects kind f c \<and> row_scope c = tr_scope t) \<and>
      \<not> (\<exists>c\<in>set (cd_rows db'). st_source_kind c = kind \<and> row_scope c = tr_scope t)}"
  shows "db_trees (cd_tree db') = filter (\<lambda>t. t \<notin> dropped) (db_trees (cd_tree db)) \<and>
    db_summaries (cd_tree db') = filter (\<lambda>s. sn_tree_id (sr_node s) \<notin> tr_id ` dropped) (db_summaries (cd_tree db)) \<and>
    db_buffers (cd_tree db') = filter (\<lambda>b. bf_tree_id (br_buffer b) \<notin> tr_id ` dropped) (db_buffers (cd_tree db)) \<and>
    db_entity_index (cd_tree db') = filter (\<lambda>x. ix_tree_id x \<notin> Some ` tr_id ` dropped \<and>
      ix_node_id x \<notin> ck_id ` {c \<in> set (cd_rows db). selects kind f c}) (db_entity_index (cd_tree db))"
proof -
  let ?gone = "filter (selects kind f) (cd_rows db)"
  obtain paths db4 db5 where run: "delete_chunks_by_source_filter kind f db = Inr ((length ?gone, paths), db5)"
    and d4: "cd_rows db4 = filter (\<lambda>r. \<not> selects kind f r) (cd_rows db)"
      "cd_tree db4 = cd_tree (delete_rows (map ck_id ?gone) db)"
    and w: "without_trees (tr_id ` emptied_trees kind (map row_scope ?gone) db4) db4 db5"
    by (rule delete_run [OF assms(1,2) refl refl, of kind f]) blast
  have db': "db5 = db'" using run assms(3) by simp
  note w = w [unfolded without_trees_def db']
  have dropped: "emptied_trees kind (map row_scope ?gone) db4 = dropped"
  proof -
    have "s \<in> set (map row_scope ?gone) \<longleftrightarrow> (\<exists>c\<in>set (cd_rows db). selects kind f c \<and> row_scope c = s)" for s
      by (auto simp: image_iff)
    then show ?thesis unfolding assms(4) emptied_trees_def using w by (simp add: d4 del: set_map)
  qed
  have "tr_id t \<in> tr_id ` dropped \<longleftrightarrow> t \<in> dropped" if "t \<in> set (db_trees (cd_tree db))" for t
    using trees.key_eq [OF assms(2) that] by (auto simp: assms(4))
  then have "db_trees (cd_tree db') = filter (\<lambda>t. t \<notin> dropped) (db_trees (cd_tree db))"
    using w by (simp add: dropped d4 sql_delete_def cong: filter_cong)
  moreover have "db_entity_index (cd_tree db') = filter (\<lambda>x. ix_tree_id x \<notin> Some ` tr_id ` dropped \<and>
      ix_node_id x \<notin> ck_id ` {c \<in> set (cd_rows db). selects kind f c}) (db_entity_index (cd_tree db))"
    using w by (auto simp: dropped d4 sql_delete_def intro!: filter_cong)
  ultimately show ?thesis using w by (simp add: dropped d4 sql_delete_def)
qed

text \<open>A chat and an email of one scope that share a raw file.\<close>

definition sample_stored :: "string \<Rightarrow> source_kind \<Rightarrow> string list \<Rightarrow> stored_chunk" where
  "sample_stored i kind raws =
    \<lparr>ck_id = i, ck_content = [65], ck_token_count = 1, ck_tags = [], ck_time_range_start = 2, ck_time_range_end = 2,
     ck_parent_summary_id = None, st_source_kind = kind, st_source_id = ''src-'' @ i, st_path_scope = Some ''chat'',
     st_source_ref = None, st_owner = ''o'', st_timestamp = 2, st_seq = 0, st_created_at = 2, st_content_path = None,
     st_content_sha256 = None, st_lifecycle = CHUNK_STATUS_ADMITTED,
     st_raw_refs = Some (Raw_Refs (map (\<lambda>p. \<lparr>rr_path = p, rr_start = 0, rr_end = None\<rparr>) raws))\<rparr>"

definition sample_store :: chunk_db where
  "sample_store = set_rows [sample_stored ''a'' Kind_Chat [''raw/a'', ''raw/b''], sample_stored ''b'' Kind_Email [''raw/b'']]
    \<lparr>cd_tree = sample_db [], cd_rows = [], cd_embeddings = [], cd_skipped = [], cd_gates =
      [\<lparr>ig_kind = Source_Gate Kind_Chat, ig_source_id = ''src-a'', ig_ingested_at = 1\<rparr>,
       \<lparr>ig_kind = Raw_File_Gate, ig_source_id = ''raw/b'', ig_ingested_at = 1\<rparr>]\<rparr>"

lemma sample_store_rows:
  "cd_rows sample_store = [sample_stored ''a'' Kind_Chat [''raw/a'', ''raw/b''], sample_stored ''b'' Kind_Email [''raw/b'']]"
  "chunks_ok (cd_rows sample_store)" "db_trees (cd_tree sample_store) = [sample_tree]" "trees_ok (db_trees (cd_tree sample_store))"
  by (simp_all add: sample_store_def set_rows_def chunks_ok_def sample_stored_def sample_db_def trees_ok_def)

theorem delete_takes_exactly_the_selected_witness:
  "\<exists>paths db'. delete_chunks_by_source_filter Kind_Chat (By_Owner ''o'') sample_store = Inr ((1, paths), db') \<and>
     map ck_id (cd_rows db') = [''b''] \<and> ''raw/a'' \<in> set paths \<and> map ig_source_id (cd_gates db') = [''raw/b'']"
proof -
  let ?gone = "filter (selects Kind_Chat (By_Owner ''o'')) (cd_rows sample_store)"
  let ?kept = "filter (\<lambda>r. \<not> selects Kind_Chat (By_Owner ''o'') r) (cd_rows sample_store)"
  have parts: "?gone = [sample_stored ''a'' Kind_Chat [''raw/a'', ''raw/b'']]" "?kept = [sample_stored ''b'' Kind_Email [''raw/b'']]"
    by (simp_all add: sample_store_rows selects_def sample_stored_def)
  have raw: "unreferenced_raw_paths ?gone ?kept = [''raw/a'']"
    unfolding parts by (simp add: unreferenced_raw_paths_def has_corrupt_refs_def all_raw_paths_def raw_paths_def sample_stored_def)
  have gates: "filter (\<lambda>g. \<not> released_gate Kind_Chat (By_Owner ''o'') ?gone ?kept g) (cd_gates sample_store) =
      [\<lparr>ig_kind = Raw_File_Gate, ig_source_id = ''raw/b'', ig_ingested_at = 1\<rparr>]"
    unfolding released_gate_def raw unfolding parts
    by (simp add: sample_store_def set_rows_def gate_key_def orphaned_gate_def named_gate_def sample_stored_def)
  have gates: "filter (\<lambda>g. \<not> freed_gate Kind_Chat (By_Owner ''o'') ?gone ?kept g) (cd_gates sample_store) =
      [\<lparr>ig_kind = Raw_File_Gate, ig_source_id = ''raw/b'', ig_ingested_at = 1\<rparr>]"
    using gates unfolding released_freed .
  obtain paths db' where run: "delete_chunks_by_source_filter Kind_Chat (By_Owner ''o'') sample_store = Inr ((length ?gone, paths), db')"
    and left: "cd_rows db' = ?kept" "cd_gates db' = filter (\<lambda>g. \<not> freed_gate Kind_Chat (By_Owner ''o'') ?gone ?kept g) (cd_gates sample_store)"
      "freed_files ?gone ?kept \<subseteq> set paths"
    using delete_takes_exactly_the_selected [OF sample_store_rows(2,4) refl refl, of Kind_Chat "By_Owner ''o''"] by blast
  have "length ?gone = 1" "map ck_id (cd_rows db') = [''b'']" "''raw/a'' \<in> set paths" "map ig_source_id (cd_gates db') = [''raw/b'']"
    using left unfolding gates unreferenced_freed [symmetric] raw by (simp_all add: parts sample_stored_def)
  then show ?thesis using run by auto
qed

theorem delete_drops_emptied_trees_witness:
  "\<exists>r db'. delete_chunks_by_source_filter Kind_Chat (By_Owner ''o'') sample_store = Inr (r, db') \<and>
     db_trees (cd_tree db') = [] \<and> map row_scope (cd_rows db') = [''chat'']"
proof -
  let ?kept = "filter (\<lambda>r. \<not> selects Kind_Chat (By_Owner ''o'') r) (cd_rows sample_store)"
  obtain paths db' where run: "delete_chunks_by_source_filter Kind_Chat (By_Owner ''o'') sample_store = Inr (paths, db')"
    and rows: "cd_rows db' = ?kept"
    by (rule delete_run [OF sample_store_rows(2,4) refl refl, of Kind_Chat "By_Owner ''o''"]) (simp add: without_trees_def)
  have kept: "?kept = [sample_stored ''b'' Kind_Email [''raw/b'']]"
    by (simp add: sample_store_rows selects_def sample_stored_def)
  have "db_trees (cd_tree db') = []"
    unfolding delete_drops_emptied_trees [OF sample_store_rows(2,4) run refl, THEN conjunct1] rows kept sample_store_rows(1,3)
    by (simp add: selects_def sample_stored_def row_scope_def sample_tree_def)
  moreover have "map row_scope (cd_rows db') = [''chat'']"
    unfolding rows kept by (simp add: row_scope_def sample_stored_def)
  ultimately show ?thesis using run by (intro exI [of _ paths] exI [of _ db'] conjI)
qed

end
