(* ===== verification/Embeddings.thy ===== *)
theory Embeddings
  imports Chunk_List "HOL-Library.Word"
begin

unbundle bit_operations_syntax

section \<open>Embedding signatures and vectors (src/memory/chunks: signature.rs, embeddings.rs, embeddings_query.rs)\<close>

text \<open>
  A vector is stored under the signature of the space it belongs to. Two spellings of one signature
  exist, and reads accept both. The tables hold decoded vectors; the byte codec is treated on its own.
  \<^verbatim>\<open>fmt\<close> is the external formatter of the canonical spelling, \<^verbatim>\<open>provider=..;model=..;dims=..\<close>.
  Signatures are ASCII, so their length in bytes is their length.
\<close>

subsection \<open>Text\<close>

definition is_space :: "char \<Rightarrow> bool" where
  "is_space c = (c \<in> set [CHR 0x09, CHR 0x0A, CHR 0x0B, CHR 0x0C, CHR 0x0D, CHR '' ''])"

definition trim_str :: "string \<Rightarrow> string" where
  "trim_str s = rev (dropWhile is_space (rev (dropWhile is_space s)))"

fun split_str :: "char \<Rightarrow> string \<Rightarrow> string list" where
  "split_str d [] = [[]]"
| "split_str d (c # cs) =
    (if c = d then [] # split_str d cs
     else case split_str d cs of [] \<Rightarrow> [[c]] | w # ws \<Rightarrow> (c # w) # ws)"

fun split_once_str :: "char \<Rightarrow> string \<Rightarrow> (string \<times> string) option" where
  "split_once_str d [] = None"
| "split_once_str d (c # cs) =
    (if c = d then Some ([], cs) else map_option (\<lambda>(a, b). (c # a, b)) (split_once_str d cs))"

definition rsplit_once_str :: "char \<Rightarrow> string \<Rightarrow> (string \<times> string) option" where
  "rsplit_once_str d s = map_option (\<lambda>(a, b). (rev b, rev a)) (split_once_str d (rev s))"

definition digit_value :: "char \<Rightarrow> nat option" where
  "digit_value c = (if 48 \<le> (of_char c :: nat) \<and> (of_char c :: nat) \<le> 57 then Some (of_char c - 48) else None)"

fun digits_value :: "nat \<Rightarrow> string \<Rightarrow> nat option" where
  "digits_value acc [] = Some acc"
| "digits_value acc (c # cs) =
    (case digit_value c of
       None \<Rightarrow> None
     | Some d \<Rightarrow> (if acc * 10 + d < 2 ^ 64 then digits_value (acc * 10 + d) cs else None))"

text \<open>\<^verbatim>\<open>str::parse::<usize>\<close>: a plus sign is allowed, an overflow is an error.\<close>

definition parse_usize :: "string \<Rightarrow> nat option" where
  "parse_usize s =
    (let t = (case s of c # cs \<Rightarrow> (if c = CHR ''+'' then cs else s) | [] \<Rightarrow> [])
     in if t = [] then None else digits_value 0 t)"

subsection \<open>Signatures (signature.rs)\<close>

record signature_parts =
  sp_provider :: "string option"
  sp_model :: string
  sp_dims :: "nat option"

text \<open>One \<^verbatim>\<open>key=value\<close> field: the last of a key wins.\<close>

definition signature_field :: "string \<Rightarrow> string option \<times> string option \<times> nat option \<Rightarrow>
    string option \<times> string option \<times> nat option" where
  "signature_field fld acc =
    (case acc of (provider, model, dims) \<Rightarrow>
      (case split_once_str CHR ''='' fld of
         None \<Rightarrow> acc
       | Some (key, raw) \<Rightarrow>
          (let key = trim_str key; value = trim_str raw in
           if key = ''provider'' then (Some value, model, dims)
           else if key = ''model'' then (provider, Some value, dims)
           else if key = ''dims'' \<or> key = ''dim'' then (provider, model, parse_usize value)
           else acc)))"

definition parse_signature :: "string \<Rightarrow> signature_parts option" where
  "parse_signature signature =
    (let trimmed = trim_str signature in
     if trimmed = [] then None
     else if CHR ''='' \<in> set trimmed
     then (case fold signature_field (split_str CHR '';'' trimmed) (None, None, None) of
             (provider, model, dims) \<Rightarrow> Some \<lparr>sp_provider = provider,
               sp_model = (case model of Some m \<Rightarrow> m | None \<Rightarrow> trimmed), sp_dims = dims\<rparr>)
     else (case rsplit_once_str CHR ''@'' trimmed of
             Some (model, dims) \<Rightarrow>
              (case parse_usize (trim_str dims) of
                 Some d \<Rightarrow> Some \<lparr>sp_provider = None, sp_model = trim_str model, sp_dims = Some d\<rparr>
               | None \<Rightarrow> Some \<lparr>sp_provider = None, sp_model = trimmed, sp_dims = None\<rparr>)
           | None \<Rightarrow> Some \<lparr>sp_provider = None, sp_model = trimmed, sp_dims = None\<rparr>))"

definition signatures_equivalent :: "string \<Rightarrow> string \<Rightarrow> bool" where
  "signatures_equivalent a b =
    (case (parse_signature a, parse_signature b) of
       (Some l, Some r) \<Rightarrow>
         sp_model l = sp_model r \<and>
         (case (sp_dims l, sp_dims r) of (Some d, Some e) \<Rightarrow> d = e | _ \<Rightarrow> True) \<and>
         (case (sp_provider l, sp_provider r) of (Some p, Some q) \<Rightarrow> p = q | _ \<Rightarrow> True)
     | _ \<Rightarrow> False)"

definition push_new :: "string \<Rightarrow> string list \<Rightarrow> string list" where
  "push_new s ss = (if s \<in> set ss then ss else ss @ [s])"

definition signature_variants :: "(string \<Rightarrow> string \<Rightarrow> nat \<Rightarrow> string) \<Rightarrow> string \<Rightarrow> string list" where
  "signature_variants fmt signature =
    (let variants = [trim_str signature] in
     case parse_signature signature of
       None \<Rightarrow> variants
     | Some parts \<Rightarrow>
        (case sp_dims parts of
           None \<Rightarrow> variants
         | Some dims \<Rightarrow>
            (let vs = push_new (sp_model parts @ ''@'' @ show_nat dims) variants in
             case sp_provider parts of
               None \<Rightarrow> vs
             | Some provider \<Rightarrow> push_new (fmt provider (sp_model parts) dims) vs)))"

subsection \<open>Vectors as bytes (embeddings.rs, embeddings_query.rs)\<close>

text \<open>An \<^verbatim>\<open>f32\<close> is its 32 bits.\<close>

definition to_le_bytes :: "32 word \<Rightarrow> 8 word list" where
  "to_le_bytes w = [ucast w, ucast (drop_bit 8 w), ucast (drop_bit 16 w), ucast (drop_bit 24 w)]"

definition from_le_bytes :: "8 word \<Rightarrow> 8 word \<Rightarrow> 8 word \<Rightarrow> 8 word \<Rightarrow> 32 word" where
  "from_le_bytes a b c d = ucast a OR push_bit 8 (ucast b) OR push_bit 16 (ucast c) OR push_bit 24 (ucast d)"

definition embedding_to_blob :: "32 word list \<Rightarrow> 8 word list" where
  "embedding_to_blob v = concat (map to_le_bytes v)"

fun as_chunks_4 :: "8 word list \<Rightarrow> 32 word list" where
  "as_chunks_4 (a # b # c # d # rest) = from_le_bytes a b c d # as_chunks_4 rest"
| "as_chunks_4 _ = []"

definition embedding_from_blob :: "8 word list \<Rightarrow> int \<Rightarrow> string \<Rightarrow> 32 word list option result" where
  "embedding_from_blob bytes n label =
    (if n < 0 then Inl (plain_error (label @ '' has negative dimension '' @ show_int n))
     else if length bytes mod 4 \<noteq> 0
     then Inl (plain_error (label @ '' blob length '' @ show_nat (length bytes) @ '' not a multiple of 4''))
     else let floats = as_chunks_4 bytes in
       if int (length floats) \<noteq> n
       then Inl (plain_error (label @ '' dimension mismatch: dim column says '' @ show_int n @
         '', blob contains '' @ show_nat (length floats) @ '' floats''))
       else Inr (Some floats))"

subsection \<open>Writes (embeddings.rs)\<close>

definition row_exists :: "string \<Rightarrow> chunk_db \<Rightarrow> bool" where
  "row_exists chunk_id db \<longleftrightarrow> (\<exists>r\<in>set (cd_rows db). ck_id r = chunk_id)"

definition upsert_chunk_embedding_conn :: "string \<Rightarrow> string \<Rightarrow> rat list \<Rightarrow> (unit, chunk_db) tx" where
  "upsert_chunk_embedding_conn chunk_id model_signature embedding db =
    (let row = \<lparr>em_chunk_id = chunk_id, em_signature = model_signature, em_vector = embedding\<rparr> in
     if row_exists chunk_id db
     then Inr ((), db\<lparr>cd_embeddings := sql_upsert (\<lambda>e. em_chunk_id e = chunk_id \<and> em_signature e = model_signature)
            (\<lambda>_. row) row (cd_embeddings db),
          cd_skipped := sql_delete (\<lambda>e. rs_chunk_id e = chunk_id \<and> rs_signature e = model_signature) (cd_skipped db)\<rparr>)
     else Inl foreign_key_error)"

definition set_chunk_embedding_for_signature :: "string \<Rightarrow> string \<Rightarrow> rat list \<Rightarrow> (unit, chunk_db) tx" where
  "set_chunk_embedding_for_signature chunk_id model_signature embedding =
    upsert_chunk_embedding_conn chunk_id model_signature embedding"

record embedding_config =
  ec_provider :: string
  ec_model :: string
  ec_dim :: nat

definition tree_active_signature :: "(string \<Rightarrow> string \<Rightarrow> nat \<Rightarrow> string) \<Rightarrow> embedding_config \<Rightarrow> string" where
  "tree_active_signature fmt c = fmt (ec_provider c) (ec_model c) (ec_dim c)"

definition set_chunk_embedding :: "(string \<Rightarrow> string \<Rightarrow> nat \<Rightarrow> string) \<Rightarrow> embedding_config \<Rightarrow> string \<Rightarrow> rat list \<Rightarrow>
    (unit, chunk_db) tx" where
  "set_chunk_embedding fmt c chunk_id embedding =
    set_chunk_embedding_for_signature chunk_id (tree_active_signature fmt c) embedding"

definition REEMBED_SKIP_KEY_MAX_LEN :: nat where "REEMBED_SKIP_KEY_MAX_LEN = 2048"

definition validate_reembed_skip_key :: "string \<Rightarrow> string \<Rightarrow> string result" where
  "validate_reembed_skip_key label value =
    (let trimmed = trim_str value in
     if trimmed = [] then Inl (plain_error (label @ '' must be non-empty''))
     else if length trimmed > REEMBED_SKIP_KEY_MAX_LEN
     then Inl (plain_error (label @ '' exceeds maximum length ('' @ show_nat REEMBED_SKIP_KEY_MAX_LEN @ '')''))
     else if CHR 0x00 \<in> set trimmed then Inl (plain_error (label @ '' must not contain NUL bytes''))
     else Inr trimmed)"

definition with_skip_keys :: "string \<Rightarrow> string \<Rightarrow> string \<Rightarrow> (string \<Rightarrow> string \<Rightarrow> ('a, 's) tx) \<Rightarrow> ('a, 's) tx" where
  "with_skip_keys label node_id model_signature f db =
    (case validate_reembed_skip_key label node_id of
       Inl e \<Rightarrow> Inl e
     | Inr i \<Rightarrow> (case validate_reembed_skip_key ''model_signature'' model_signature of
          Inl e \<Rightarrow> Inl e | Inr s \<Rightarrow> f i s db))"

definition mark_chunk_reembed_skipped :: "string \<Rightarrow> string \<Rightarrow> string \<Rightarrow> (unit, chunk_db) tx" where
  "mark_chunk_reembed_skipped chunk_id model_signature reason =
    with_skip_keys ''chunk_id'' chunk_id model_signature (\<lambda>i s db.
      if row_exists i db
      then Inr ((), db\<lparr>cd_skipped := sql_upsert (\<lambda>e. rs_chunk_id e = i \<and> rs_signature e = s)
        (\<lambda>e. e\<lparr>rs_reason := reason\<rparr>) \<lparr>rs_chunk_id = i, rs_signature = s, rs_reason = reason\<rparr> (cd_skipped db)\<rparr>)
      else Inl foreign_key_error)"

definition clear_chunk_reembed_skipped :: "string \<Rightarrow> string \<Rightarrow> (unit, chunk_db) tx" where
  "clear_chunk_reembed_skipped chunk_id model_signature =
    with_skip_keys ''chunk_id'' chunk_id model_signature (\<lambda>i s db.
      Inr ((), db\<lparr>cd_skipped := sql_delete (\<lambda>e. rs_chunk_id e = i \<and> rs_signature e = s) (cd_skipped db)\<rparr>))"

text \<open>The summaries' tombstones are pairs of id and signature; their reason is never read.\<close>

definition mark_summary_reembed_skipped :: "string \<Rightarrow> string \<Rightarrow> (unit, tree_db) tx" where
  "mark_summary_reembed_skipped summary_id model_signature =
    with_skip_keys ''summary_id'' summary_id model_signature (\<lambda>i s db.
      if \<exists>r\<in>set (db_summaries db). sn_id (sr_node r) = i
      then Inr ((), db\<lparr>db_reembed_skipped := sql_upsert (\<lambda>e. e = (i, s)) (\<lambda>e. e) (i, s) (db_reembed_skipped db)\<rparr>)
      else Inl foreign_key_error)"

definition clear_summary_reembed_skipped :: "string \<Rightarrow> string \<Rightarrow> (unit, tree_db) tx" where
  "clear_summary_reembed_skipped summary_id model_signature =
    with_skip_keys ''summary_id'' summary_id model_signature (\<lambda>i s db.
      Inr ((), db\<lparr>db_reembed_skipped := sql_delete (\<lambda>e. e = (i, s)) (db_reembed_skipped db)\<rparr>))"

definition clear_reembed_skipped_for_signature :: "string \<Rightarrow> (nat, chunk_db) tx" where
  "clear_reembed_skipped_for_signature model_signature db =
    (case validate_reembed_skip_key ''model_signature'' model_signature of
       Inl e \<Rightarrow> Inl e
     | Inr s \<Rightarrow> Inr (sql_count (\<lambda>e. rs_signature e = s) (cd_skipped db) +
           sql_count (\<lambda>e. snd e = s) (db_reembed_skipped (cd_tree db)),
         db\<lparr>cd_skipped := sql_delete (\<lambda>e. rs_signature e = s) (cd_skipped db),
            cd_tree := (cd_tree db)\<lparr>db_reembed_skipped :=
              sql_delete (\<lambda>e. snd e = s) (db_reembed_skipped (cd_tree db))\<rparr>\<rparr>))"

subsection \<open>Reads (embeddings_query.rs, tree/store/summaries.rs)\<close>

text \<open>
  A single read returns the first matching row, a batched read keeps the last one of each id. SQLite
  gives no order here; rows are met in the order they were written.
\<close>

definition get_chunk_embedding_for_signature :: "(string \<Rightarrow> string \<Rightarrow> nat \<Rightarrow> string) \<Rightarrow> string \<Rightarrow> string \<Rightarrow> chunk_db \<Rightarrow>
    rat list option" where
  "get_chunk_embedding_for_signature fmt chunk_id model_signature db =
    map_option em_vector (sql_find (\<lambda>e. em_chunk_id e = chunk_id \<and>
      em_signature e \<in> set (signature_variants fmt model_signature)) (cd_embeddings db))"

definition get_chunk_embedding :: "(string \<Rightarrow> string \<Rightarrow> nat \<Rightarrow> string) \<Rightarrow> embedding_config \<Rightarrow> string \<Rightarrow> chunk_db \<Rightarrow>
    rat list option" where
  "get_chunk_embedding fmt c chunk_id db =
    get_chunk_embedding_for_signature fmt chunk_id (tree_active_signature fmt c) db"

definition MAX_EMBEDDING_BATCH :: nat where "MAX_EMBEDDING_BATCH = 500"

definition embeddings_window :: "string list \<Rightarrow> chunk_embedding list \<Rightarrow> string list \<Rightarrow> (string \<rightharpoonup> rat list) \<Rightarrow>
    (string \<rightharpoonup> rat list)" where
  "embeddings_window variants t w out =
    fold (\<lambda>e m. m(em_chunk_id e \<mapsto> em_vector e))
      (filter (\<lambda>e. em_chunk_id e \<in> set w \<and> em_signature e \<in> set variants) t) out"

definition get_chunk_embeddings_for_signature_batch :: "(string \<Rightarrow> string \<Rightarrow> nat \<Rightarrow> string) \<Rightarrow> string list \<Rightarrow> string \<Rightarrow>
    chunk_db \<Rightarrow> (string \<rightharpoonup> rat list)" where
  "get_chunk_embeddings_for_signature_batch fmt chunk_ids model_signature db =
    fold (embeddings_window (signature_variants fmt model_signature) (cd_embeddings db))
      (windows MAX_EMBEDDING_BATCH chunk_ids) Map.empty"

definition get_chunk_embeddings_batch :: "(string \<Rightarrow> string \<Rightarrow> nat \<Rightarrow> string) \<Rightarrow> embedding_config \<Rightarrow> string list \<Rightarrow>
    chunk_db \<Rightarrow> (string \<rightharpoonup> rat list)" where
  "get_chunk_embeddings_batch fmt c chunk_ids db =
    get_chunk_embeddings_for_signature_batch fmt chunk_ids (tree_active_signature fmt c) db"

definition get_summary_embedding_for_signature :: "(string \<Rightarrow> string \<Rightarrow> nat \<Rightarrow> string) \<Rightarrow> string \<Rightarrow> string \<Rightarrow> tree_db \<Rightarrow>
    rat list option" where
  "get_summary_embedding_for_signature fmt summary_id model_signature db =
    map_option se_vector (sql_find (\<lambda>e. se_summary_id e = summary_id \<and>
      se_model_signature e \<in> set (signature_variants fmt model_signature)) (db_summary_embeddings db))"

definition summary_embeddings_window :: "string list \<Rightarrow> summary_embedding list \<Rightarrow> string list \<Rightarrow> (string \<rightharpoonup> rat list) \<Rightarrow>
    (string \<rightharpoonup> rat list)" where
  "summary_embeddings_window variants t w out =
    fold (\<lambda>e m. m(se_summary_id e \<mapsto> se_vector e))
      (filter (\<lambda>e. se_summary_id e \<in> set w \<and> se_model_signature e \<in> set variants) t) out"

definition get_summary_embeddings_batch :: "(string \<Rightarrow> string \<Rightarrow> nat \<Rightarrow> string) \<Rightarrow> embedding_config \<Rightarrow> string list \<Rightarrow>
    tree_db \<Rightarrow> (string \<rightharpoonup> rat list)" where
  "get_summary_embeddings_batch fmt c summary_ids db =
    fold (summary_embeddings_window (signature_variants fmt (tree_active_signature fmt c)) (db_summary_embeddings db))
      (windows MAX_EMBEDDING_BATCH summary_ids) Map.empty"

subsection \<open>Work left (embeddings_query.rs)\<close>

definition retry_like :: "string \<Rightarrow> utext" where
  "retry_like reason_prefix = utext_of (''body read failed: '' @ reason_prefix @ ''%'')"

definition retryable_reason :: "string \<Rightarrow> bool" where
  "retryable_reason reason \<longleftrightarrow>
    like_match (retry_like ''no content pointer or raw refs for chunk '') (utext_of reason) \<or>
    like_match (retry_like ''empty content pointer and no raw refs for chunk '') (utext_of reason)"

definition has_uncovered_reembed_work :: "(string \<Rightarrow> string \<Rightarrow> nat \<Rightarrow> string) \<Rightarrow> string \<Rightarrow> chunk_db \<Rightarrow> bool" where
  "has_uncovered_reembed_work fmt model_signature db =
    (let variants = set (signature_variants fmt model_signature); t = cd_tree db in
     (\<exists>c\<in>set (cd_rows db).
        \<not> (\<exists>e\<in>set (cd_embeddings db). em_chunk_id e = ck_id c \<and> em_signature e \<in> variants) \<and>
        \<not> (\<exists>s\<in>set (cd_skipped db). rs_chunk_id s = ck_id c \<and> rs_signature s \<in> variants \<and> \<not> retryable_reason (rs_reason s))) \<or>
     (\<exists>n\<in>set (map sr_node (db_summaries t)). \<not> sn_deleted n \<and>
        \<not> (\<exists>e\<in>set (db_summary_embeddings t). se_summary_id e = sn_id n \<and> se_model_signature e \<in> variants) \<and>
        \<not> (\<exists>s\<in>set (db_reembed_skipped t). fst s = sn_id n \<and> snd s \<in> variants)))"

subsection \<open>The codec is exact\<close>

lemma from_to_le_bytes: "from_le_bytes (ucast w) (ucast (drop_bit 8 w)) (ucast (drop_bit 16 w)) (ucast (drop_bit 24 w)) = w"
proof (rule bit_word_eqI)
  fix n assume "n < LENGTH(32)"
  then consider "n < 8" | "8 \<le> n" "n < 16" | "16 \<le> n" "n < 24" | "24 \<le> n" "n < 32" by fastforce
  then show "bit (from_le_bytes (ucast w) (ucast (drop_bit 8 w)) (ucast (drop_bit 16 w)) (ucast (drop_bit 24 w))) n = bit w n"
    by cases (auto simp: from_le_bytes_def bit_simps)
qed

lemma byte_high: "8 \<le> n \<Longrightarrow> \<not> bit (a :: 8 word) n"
  by (auto dest: bit_imp_le_length)

lemma to_from_le_bytes: "to_le_bytes (from_le_bytes a b c d) = [a, b, c, d]"
  by (auto simp: from_le_bytes_def to_le_bytes_def bit_simps byte_high intro!: bit_word_eqI)

lemma as_chunks_to_blob: "as_chunks_4 (embedding_to_blob v) = v"
  by (induction v) (simp_all add: embedding_to_blob_def to_le_bytes_def from_to_le_bytes)

lemma length_blob: "length (embedding_to_blob v) = 4 * length v"
  by (induction v) (simp_all add: embedding_to_blob_def to_le_bytes_def)

lemma to_blob_as_chunks: "length bytes mod 4 = 0 \<Longrightarrow> embedding_to_blob (as_chunks_4 bytes) = bytes"
  by (induction bytes rule: as_chunks_4.induct) (simp_all add: embedding_to_blob_def to_from_le_bytes)

text \<open>
  A vector's bytes decode to the vector, bit for bit, under the dimension it was stored with, and
  under no other. Bytes that decode at all are those of the decoded vector, so no two vectors share
  their bytes.
\<close>
theorem embedding_blob_roundtrip:
  "embedding_from_blob bytes n label = Inr (Some v) \<longleftrightarrow> n = int (length v) \<and> bytes = embedding_to_blob v"
  by (auto simp: embedding_from_blob_def length_blob as_chunks_to_blob to_blob_as_chunks Let_def split: if_splits)

subsection \<open>A vector written over another spelling\<close>

lemma embeddings_window_one:
  "embeddings_window variants t [i] m =
    (case sql_find (\<lambda>e. em_chunk_id e = i \<and> em_signature e \<in> set variants) (rev t) of
       None \<Rightarrow> m | Some e \<Rightarrow> m(i \<mapsto> em_vector e))"
proof (induction t arbitrary: m rule: rev_induct)
  case (snoc e t)
  have "embeddings_window variants (t @ [e]) [i] m =
      (if em_chunk_id e = i \<and> em_signature e \<in> set variants then (embeddings_window variants t [i] m)(i \<mapsto> em_vector e)
       else embeddings_window variants t [i] m)"
    by (simp add: embeddings_window_def)
  then show ?case using snoc by (auto simp: sql_find_def split: option.splits)
qed (simp add: embeddings_window_def sql_find_def)

lemma sql_find_past: "sql_find p t = Some r \<Longrightarrow> sql_find p (t @ u) = Some r"
  by (induction t) (auto simp: sql_find_def split: if_splits)

text \<open>
  A chunk that has a vector under another spelling of the active space, and none under the active
  one, keeps answering single reads with that old vector after a new one is stored, while batched reads
  return the new one: the write replaces rows of its own spelling only.
\<close>
theorem reembedding_legacy_reads_stale:
  assumes "row_exists i db" and "get_chunk_embedding fmt c i db = Some old"
    and "\<forall>e\<in>set (cd_embeddings db). \<not> (em_chunk_id e = i \<and> em_signature e = tree_active_signature fmt c)"
    and "trim_str (tree_active_signature fmt c) = tree_active_signature fmt c"
  shows "\<exists>db'. set_chunk_embedding fmt c i v db = Inr ((), db') \<and>
    get_chunk_embedding fmt c i db' = Some old \<and> get_chunk_embeddings_batch fmt c [i] db' i = Some v"
proof -
  let ?sig = "tree_active_signature fmt c" and ?variants = "signature_variants fmt (tree_active_signature fmt c)"
  let ?row = "\<lparr>em_chunk_id = i, em_signature = ?sig, em_vector = v\<rparr>"
  let ?db' = "db\<lparr>cd_embeddings := cd_embeddings db @ [?row],
      cd_skipped := sql_delete (\<lambda>e. rs_chunk_id e = i \<and> rs_signature e = ?sig) (cd_skipped db)\<rparr>"
  have active: "?sig \<in> set ?variants"
    using assms(4) by (auto simp: signature_variants_def push_new_def Let_def split: option.splits)
  have "set_chunk_embedding fmt c i v db = Inr ((), ?db')"
    using assms(1,3) by (auto simp: set_chunk_embedding_def set_chunk_embedding_for_signature_def
        upsert_chunk_embedding_conn_def sql_upsert_def sql_count_0_iff Let_def)
  moreover have "get_chunk_embedding fmt c i ?db' = Some old"
    using assms(2) by (auto simp: get_chunk_embedding_def get_chunk_embedding_for_signature_def dest: sql_find_past)
  moreover have "get_chunk_embeddings_batch fmt c [i] ?db' i = Some v"
    using active by (simp add: get_chunk_embeddings_batch_def get_chunk_embeddings_for_signature_batch_def
        MAX_EMBEDDING_BATCH_def windows.simps [of _ "[i]"] windows.simps [of _ "[]"] embeddings_window_one sql_find_def)
  ultimately show ?thesis by blast
qed

text \<open>The documented canonical spelling, on a one-dimensional model.\<close>

definition sample_fmt :: "string \<Rightarrow> string \<Rightarrow> nat \<Rightarrow> string" where
  "sample_fmt provider model n = ''provider='' @ provider @ '';model='' @ model @ '';dims='' @ show_nat n"

definition sample_embedded :: stored_chunk where
  "sample_embedded =
    \<lparr>ck_id = ''a'', ck_content = [65], ck_token_count = 1, ck_tags = [], ck_time_range_start = 2, ck_time_range_end = 2,
     ck_parent_summary_id = None, st_source_kind = Kind_Chat, st_source_id = ''s'', st_path_scope = None,
     st_source_ref = None, st_owner = ''o'', st_timestamp = 2, st_seq = 0, st_created_at = 2, st_content_path = None,
     st_content_sha256 = None, st_lifecycle = CHUNK_STATUS_ADMITTED, st_raw_refs = None\<rparr>"

definition sample_embedding_config :: embedding_config where
  "sample_embedding_config = \<lparr>ec_provider = ''p'', ec_model = ''m'', ec_dim = 1\<rparr>"

lemma sample_signature: "tree_active_signature sample_fmt sample_embedding_config = ''provider=p;model=m;dims=1''"
  by (simp add: tree_active_signature_def sample_fmt_def sample_embedding_config_def show_nat.simps digit_char_def)

lemma sample_variants: "signature_variants sample_fmt ''provider=p;model=m;dims=1'' = [''provider=p;model=m;dims=1'', ''m@1'']"
  by (simp add: signature_variants_def parse_signature_def trim_str_def is_space_def signature_field_def parse_usize_def
      digit_value_def push_new_def sample_fmt_def show_nat.simps digit_char_def)

theorem reembedding_legacy_reads_stale_witness:
  "\<exists>db'. set_chunk_embedding sample_fmt sample_embedding_config ''a'' [2]
      (set_rows [sample_embedded] \<lparr>cd_tree = sample_db [], cd_rows = [],
         cd_embeddings = [\<lparr>em_chunk_id = ''a'', em_signature = ''m@1'', em_vector = [1]\<rparr>], cd_skipped = [], cd_gates = []\<rparr>)
      = Inr ((), db') \<and>
    get_chunk_embedding sample_fmt sample_embedding_config ''a'' db' = Some [1] \<and>
    get_chunk_embeddings_batch sample_fmt sample_embedding_config [''a''] db' ''a'' = Some [2]"
  by (rule reembedding_legacy_reads_stale)
    (simp_all add: get_chunk_embedding_def get_chunk_embedding_for_signature_def sample_signature sample_variants sql_find_def
      row_exists_def set_rows_def sample_embedded_def trim_str_def is_space_def)

end
