(* ===== verification/Drill_Down.thy ===== *)
theory Drill_Down
  imports Cover Embeddings Flush "HOL-Library.Multiset"
begin

section \<open>Drilling down (src/memory/retrieval: drill_down.rs, rerank.rs)\<close>

text \<open>
  A walk from a summary down its child ids, a level at a time, and the semantic reranking of hits. The
  cosine of two vectors and the embedder are parameters; a similarity is a number, NaN is not modelled.
\<close>

record retrieval_env =
  re_fmt :: "string \<Rightarrow> string \<Rightarrow> nat \<Rightarrow> string"
  re_embedding :: embedding_config
  re_summary_body :: "string \<Rightarrow> utext result"
  re_chunk_body :: "string \<Rightarrow> utext result"

type_synonym scored_hit = "retrieval_hit \<times> rat list option"

subsection \<open>Reranking (rerank.rs)\<close>

text \<open>A vector of another dimension counts as none. The sort is stable, as \<^verbatim>\<open>sort_by\<close> is.\<close>

definition similarity :: "(rat list \<Rightarrow> rat list \<Rightarrow> rat) \<Rightarrow> rat list \<Rightarrow> rat list option \<Rightarrow> rat option" where
  "similarity cosine query_vec emb =
    (case emb of Some v \<Rightarrow> (if length v = length query_vec then Some (cosine query_vec v) else None) | None \<Rightarrow> None)"

definition rerank_key :: "(rat list \<Rightarrow> rat list \<Rightarrow> rat) \<Rightarrow> rat list \<Rightarrow> scored_hit \<Rightarrow> bool \<times> rat \<times> int" where
  "rerank_key cosine query_vec he =
    (case similarity cosine query_vec (snd he) of
       Some s \<Rightarrow> (False, - s, - rh_time_range_end (fst he))
     | None \<Rightarrow> (True, 0, 0))"

definition rerank_by_semantic_similarity :: "(utext \<Rightarrow> rat list result) \<Rightarrow> (rat list \<Rightarrow> rat list \<Rightarrow> rat) \<Rightarrow> utext \<Rightarrow>
    scored_hit list \<Rightarrow> retrieval_hit list" where
  "rerank_by_semantic_similarity embedder cosine query scored =
    (case embedder query of
       Inl _ \<Rightarrow> map fst scored
     | Inr query_vec \<Rightarrow> map fst (sort_key (rerank_key cosine query_vec) scored))"

subsection \<open>The walk (drill_down.rs)\<close>

definition walk_versions :: "(string \<rightharpoonup> summary_node) \<Rightarrow> string \<Rightarrow> (string \<rightharpoonup> int option) \<Rightarrow> (string \<rightharpoonup> int option)" where
  "walk_versions by_id i newest =
    (case by_id i of
       Some s \<Rightarrow> (if sn_deleted s then newest else raise_version s newest)
     | None \<Rightarrow> newest)"

definition outdated :: "(string \<rightharpoonup> int option) \<Rightarrow> summary_node \<Rightarrow> string \<Rightarrow> bool" where
  "outdated newest s doc = (case newest doc of Some w \<Rightarrow> \<not> version_le w (sn_version_ms s) | None \<Rightarrow> False)"

text \<open>One level: what is emitted, the next level, the documents emitted so far, the maps' remaining entries.\<close>

record walk_level =
  wl_out :: "scored_hit list"
  wl_next :: "string list"
  wl_docs :: "string set"
  wl_summaries :: "string \<rightharpoonup> summary_node"
  wl_chunks :: "string \<rightharpoonup> chunk"

definition emit_summary :: "retrieval_env \<Rightarrow> (string \<rightharpoonup> tree) \<Rightarrow> string \<Rightarrow> bool \<Rightarrow> summary_node \<Rightarrow> walk_level \<Rightarrow> walk_level" where
  "emit_summary env trees root_scope deeper s st =
    (let scope = (case trees (sn_tree_id s) of Some t \<Rightarrow> tr_scope t | None \<Rightarrow> root_scope)
     in st\<lparr>wl_out := wl_out st @ [(hydrated (re_summary_body env) (hit_from_summary s scope), sn_embedding s)],
           wl_next := (if deeper then wl_next st @ sn_child_ids s else wl_next st)\<rparr>)"

definition visit_child :: "retrieval_env \<Rightarrow> (string \<rightharpoonup> tree) \<Rightarrow> (string \<rightharpoonup> rat list) \<Rightarrow> (string \<rightharpoonup> int option) \<Rightarrow> string \<Rightarrow>
    bool \<Rightarrow> string \<Rightarrow> walk_level \<Rightarrow> walk_level" where
  "visit_child env trees embs newest root_scope deeper i st =
    (case wl_summaries st i of
       Some s \<Rightarrow>
        (let st = st\<lparr>wl_summaries := (wl_summaries st)(i := None)\<rparr> in
         if sn_deleted s then st
         else (case sn_doc_id s of
                 None \<Rightarrow> emit_summary env trees root_scope deeper s st
               | Some doc \<Rightarrow>
                  (if outdated newest s doc \<or> doc \<in> wl_docs st then st
                   else emit_summary env trees root_scope deeper s (st\<lparr>wl_docs := insert doc (wl_docs st)\<rparr>))))
     | None \<Rightarrow>
        (case wl_chunks st i of
           Some c \<Rightarrow> st\<lparr>wl_chunks := (wl_chunks st)(i := None),
             wl_out := wl_out st @ [(hydrated (re_chunk_body env) (hit_from_chunk c [] (ch_source_id c) 0), embs i)]\<rparr>
         | None \<Rightarrow> st))"

text \<open>The loop: \<^verbatim>\<open>k\<close> levels remain. The versions and the emitted documents are kept across levels.\<close>

fun walk_levels :: "retrieval_env \<Rightarrow> chunk_db \<Rightarrow> string \<Rightarrow> nat \<Rightarrow> (string \<rightharpoonup> int option) \<Rightarrow> string set \<Rightarrow> string list \<Rightarrow>
    scored_hit list" where
  "walk_levels env db root_scope 0 newest docs level = []"
| "walk_levels env db root_scope (Suc k) newest docs level =
    (if level = [] then []
     else
       (let summaries = get_summaries_batch level (cd_tree db);
            newest = fold (walk_versions summaries) level newest;
            trees = get_trees_batch (remdups (map sn_tree_id (List.map_filter summaries level))) (cd_tree db);
            chunk_ids = filter (\<lambda>i. summaries i = None) level;
            chunks = get_full_chunks_batch chunk_ids db;
            embs = get_chunk_embeddings_batch (re_fmt env) (re_embedding env) chunk_ids db;
            st = fold (visit_child env trees embs newest root_scope (k > 0)) level
              \<lparr>wl_out = [], wl_next = [], wl_docs = docs, wl_summaries = summaries, wl_chunks = chunks\<rparr>
        in wl_out st @ walk_levels env db root_scope k newest (wl_docs st) (wl_next st)))"

definition walk_with_embeddings :: "retrieval_env \<Rightarrow> chunk_db \<Rightarrow> string \<Rightarrow> nat \<Rightarrow> scored_hit list" where
  "walk_with_embeddings env db start_id max_depth =
    (case get_summary start_id (cd_tree db) of
       None \<Rightarrow> []
     | Some s \<Rightarrow> walk_levels env db
        (case get_tree (sn_tree_id s) (cd_tree db) of Some t \<Rightarrow> tr_scope t | None \<Rightarrow> []) max_depth Map.empty {} (sn_child_ids s))"

definition drill_down :: "retrieval_env \<Rightarrow> (utext \<Rightarrow> rat list result) \<Rightarrow> (rat list \<Rightarrow> rat list \<Rightarrow> rat) \<Rightarrow> chunk_db \<Rightarrow>
    string \<Rightarrow> nat \<Rightarrow> utext option \<Rightarrow> nat option \<Rightarrow> retrieval_hit list" where
  "drill_down env embedder cosine db node_id max_depth query limit =
    (if max_depth = 0 then []
     else
       (let scored = walk_with_embeddings env db node_id max_depth;
            hits = (case query of Some q \<Rightarrow> rerank_by_semantic_similarity embedder cosine q scored | None \<Rightarrow> map fst scored)
        in case limit of Some n \<Rightarrow> take n hits | None \<Rightarrow> hits))"

declare walk_levels.simps(2) [simp del]

subsection \<open>A reranking is a permutation\<close>

lemma sorted_by_flag:
  assumes "sorted (map key xs)" and "\<forall>x\<in>set xs. fst (key x) \<longleftrightarrow> \<not> P x"
  shows "xs = filter P xs @ filter (\<lambda>x. \<not> P x) xs"
  using assms
proof (induction xs)
  case (Cons x xs)
  show ?case
  proof (cases "P x")
    case True
    then show ?thesis using Cons by simp
  next
    case False
    then have "fst (key x)" using Cons.prems(2) by simp
    then have "\<forall>y\<in>set xs. fst (key y)" using Cons.prems(1) by (auto simp: less_eq_prod_def)
    then have "\<forall>y\<in>set xs. \<not> P y" using Cons.prems(2) by simp
    then have "filter P xs = []" "filter (\<lambda>x. \<not> P x) xs = xs" by (simp_all add: filter_empty_conv filter_id_conv)
    then show ?thesis using False by simp
  qed
qed simp

lemma rerank_split:
  fixes cosine query_vec scored
  defines "emb \<equiv> \<lambda>he. similarity cosine query_vec (snd he) \<noteq> None"
  shows "sort_key (rerank_key cosine query_vec) scored =
    sort_key (rerank_key cosine query_vec) (filter emb scored) @ filter (\<lambda>he. \<not> emb he) scored"
proof -
  let ?key = "rerank_key cosine query_vec"
  have flag: "fst (?key he) \<longleftrightarrow> \<not> emb he" for he
    by (auto simp: rerank_key_def emb_def split: option.splits)
  have "sort_key ?key scored = filter emb (sort_key ?key scored) @ filter (\<lambda>he. \<not> emb he) (sort_key ?key scored)"
    by (rule sorted_by_flag [of ?key]) (simp_all add: flag)
  moreover have "filter (\<lambda>he. \<not> emb he) (sort_key ?key scored) = filter (\<lambda>he. \<not> emb he) scored"
  proof -
    have "sort_key ?key (filter (\<lambda>he. \<not> emb he) scored) = filter (\<lambda>he. \<not> emb he) scored"
    proof (rule sort_key_id_if_sorted)
      have "map ?key (filter (\<lambda>he. \<not> emb he) scored) = map (\<lambda>_. (True, 0, 0)) (filter (\<lambda>he. \<not> emb he) scored)"
        by (rule map_cong) (auto simp: rerank_key_def emb_def)
      then show "sorted (map ?key (filter (\<lambda>he. \<not> emb he) scored))" by (simp add: map_replicate_const)
    qed
    then show ?thesis by (simp add: filter_sort)
  qed
  ultimately show ?thesis by (simp add: filter_sort)
qed

lemma ranked_sorted:
  assumes "\<forall>he\<in>set hs. similarity cosine query_vec (snd he) \<noteq> None"
  shows "sorted_wrt (\<lambda>a b. (the (similarity cosine query_vec (snd b)), rh_time_range_end (fst b)) \<le>
    (the (similarity cosine query_vec (snd a)), rh_time_range_end (fst a))) (sort_key (rerank_key cosine query_vec) hs)"
proof -
  have "sorted_wrt (\<lambda>a b. rerank_key cosine query_vec a \<le> rerank_key cosine query_vec b)
      (sort_key (rerank_key cosine query_vec) hs)"
    using sorted_sort_key [of "rerank_key cosine query_vec" hs] by (simp add: sorted_map)
  then show ?thesis
    by (rule sorted_wrt_mono_rel [rotated])
      (use assms in \<open>auto simp: rerank_key_def less_eq_prod_def split: option.splits\<close>)
qed

text \<open>
  Reranking neither drops nor invents a hit. Hits with a vector of the query's dimension come
  first, by falling similarity and then recency; the others follow in the order they came in. When the
  query cannot be embedded the order is left alone.
\<close>
theorem rerank_orders_embedded_first:
  "mset (rerank_by_semantic_similarity embedder cosine query scored) = mset (map fst scored) \<and>
   (case embedder query of
      Inl _ \<Rightarrow> rerank_by_semantic_similarity embedder cosine query scored = map fst scored
    | Inr query_vec \<Rightarrow> \<exists>ranked rest. rerank_by_semantic_similarity embedder cosine query scored = map fst (ranked @ rest) \<and>
        rest = filter (\<lambda>he. similarity cosine query_vec (snd he) = None) scored \<and>
        mset ranked = mset (filter (\<lambda>he. similarity cosine query_vec (snd he) \<noteq> None) scored) \<and>
        sorted_wrt (\<lambda>a b. (the (similarity cosine query_vec (snd b)), rh_time_range_end (fst b)) \<le>
          (the (similarity cosine query_vec (snd a)), rh_time_range_end (fst a))) ranked)"
proof (cases "embedder query")
  case (Inl e)
  then show ?thesis by (simp add: rerank_by_semantic_similarity_def)
next
  case (Inr query_vec)
  let ?key = "rerank_key cosine query_vec" and ?emb = "\<lambda>he. similarity cosine query_vec (snd he) \<noteq> None"
  have run: "rerank_by_semantic_similarity embedder cosine query scored = map fst (sort_key ?key scored)"
    by (simp add: rerank_by_semantic_similarity_def Inr)
  have "\<exists>ranked rest. map fst (sort_key ?key scored) = map fst (ranked @ rest) \<and>
      rest = filter (\<lambda>he. similarity cosine query_vec (snd he) = None) scored \<and> mset ranked = mset (filter ?emb scored) \<and>
      sorted_wrt (\<lambda>a b. (the (similarity cosine query_vec (snd b)), rh_time_range_end (fst b)) \<le>
        (the (similarity cosine query_vec (snd a)), rh_time_range_end (fst a))) ranked"
    by (intro exI [of _ "sort_key ?key (filter ?emb scored)"] exI [of _ "filter (\<lambda>he. \<not> ?emb he) scored"] conjI
        ranked_sorted arg_cong [OF rerank_split]) simp_all
  then show ?thesis by (simp add: run Inr)
qed

subsection \<open>Without documents the walk is a breadth-first search\<close>

lemma summaries_batch:
  assumes "summaries_ok (db_summaries db)"
  shows "get_summaries_batch ids db i = (if i \<in> set ids then get_summary i db else None)"
  by (simp add: get_summaries_batch_def get_summary_def SUMMARIES_MAX_FETCH_BATCH_def summaries.fetch_batch [OF assms])

lemma full_chunks_batch:
  assumes "Chunk_Store.chunks_ok (cd_rows db)"
  shows "get_full_chunks_batch ids db i = (if i \<in> set ids then Chunk_Store.get_chunk i db else None)"
  by (simp add: get_full_chunks_batch_def Chunk_Store.get_chunk_def CHUNKS_MAX_FETCH_BATCH_def Chunk_Store.chunks.fetch_batch [OF assms])

definition shown :: "(string \<rightharpoonup> summary_node) \<Rightarrow> (string \<rightharpoonup> chunk) \<Rightarrow> string \<Rightarrow> bool" where
  "shown summaries chunks i = (case summaries i of Some s \<Rightarrow> \<not> sn_deleted s | None \<Rightarrow> chunks i \<noteq> None)"

definition live_children :: "(string \<rightharpoonup> summary_node) \<Rightarrow> string \<Rightarrow> string list" where
  "live_children summaries i = (case summaries i of Some s \<Rightarrow> (if sn_deleted s then [] else sn_child_ids s) | None \<Rightarrow> [])"

text \<open>The search: each level once, in order, with what is live or a chunk shown.\<close>

fun levels_below :: "(string \<rightharpoonup> summary_node) \<Rightarrow> (string \<rightharpoonup> chunk) \<Rightarrow> nat \<Rightarrow> string list \<Rightarrow> string list" where
  "levels_below summaries chunks 0 level = []"
| "levels_below summaries chunks (Suc k) level =
    (let once = distinct_firsts [] level in
     filter (shown summaries chunks) once @
     levels_below summaries chunks k (concat (map (live_children summaries) once)))"

declare levels_below.simps(2) [simp del]

lemma levels_below_Nil [simp]: "levels_below summaries chunks k [] = []"
  by (induction k) (simp_all add: levels_below.simps(2))

lemma hydrated_hit_ids [simp]: "rh_node_id (hit_from_summary s scope) = sn_id s" "rh_node_id (hit_from_chunk c t scope x) = ch_id c"
  "rh_node_kind (hit_from_summary s scope) = Summary" "rh_node_kind (hit_from_chunk c t scope x) = Leaf"
  by (simp_all add: hit_from_summary_def hit_from_chunk_def)

abbreviation hit_ids :: "scored_hit list \<Rightarrow> string list" where
  "hit_ids \<equiv> map (\<lambda>he. rh_node_id (fst he))"

lemma visit_level:
  assumes "\<forall>i s. S i = Some s \<longrightarrow> sn_doc_id s = None \<and> sn_id s = i" and "\<forall>i c. C i = Some c \<longrightarrow> ch_id c = i \<and> S i = None"
    and "wl_summaries st = (\<lambda>i. if i \<in> set seen then None else S i)"
    and "wl_chunks st = (\<lambda>i. if i \<in> set seen then None else C i)"
  shows "hit_ids (wl_out (fold (visit_child env trees embs newest sc deeper) level st)) =
      hit_ids (wl_out st) @ filter (shown S C) (distinct_firsts seen level)"
    and "wl_next (fold (visit_child env trees embs newest sc deeper) level st) =
      wl_next st @ (if deeper then concat (map (live_children S) (distinct_firsts seen level)) else [])"
    and "wl_docs (fold (visit_child env trees embs newest sc deeper) level st) = wl_docs st"
proof -
  have "hit_ids (wl_out (fold (visit_child env trees embs newest sc deeper) level st)) =
      hit_ids (wl_out st) @ filter (shown S C) (distinct_firsts seen level) \<and>
    wl_next (fold (visit_child env trees embs newest sc deeper) level st) =
      wl_next st @ (if deeper then concat (map (live_children S) (distinct_firsts seen level)) else []) \<and>
    wl_docs (fold (visit_child env trees embs newest sc deeper) level st) = wl_docs st"
    using assms(3,4)
  proof (induction level arbitrary: st seen)
    case (Cons i level)
    let ?st = "visit_child env trees embs newest sc deeper i st"
    show ?case
    proof (cases "i \<in> set seen")
      case True
      then have "?st = st" using Cons.prems by (simp add: visit_child_def)
      then show ?thesis using Cons.IH [OF Cons.prems] True by simp
    next
      case False
      have maps: "wl_summaries ?st = (\<lambda>j. if j \<in> set (i # seen) then None else S j)"
        "wl_chunks ?st = (\<lambda>j. if j \<in> set (i # seen) then None else C j)"
        using Cons.prems assms(1,2) False
        by (auto simp: visit_child_def emit_summary_def Let_def fun_eq_iff split: option.splits)
      have step: "hit_ids (wl_out ?st) = hit_ids (wl_out st) @ filter (shown S C) [i]"
        "wl_next ?st = wl_next st @ (if deeper then live_children S i else [])" "wl_docs ?st = wl_docs st"
        using Cons.prems assms(1,2) False
        by (auto simp: visit_child_def emit_summary_def Let_def shown_def live_children_def split: option.splits)
      show ?thesis using Cons.IH [OF maps] step False by simp
    qed
  qed simp
  then show "hit_ids (wl_out (fold (visit_child env trees embs newest sc deeper) level st)) =
      hit_ids (wl_out st) @ filter (shown S C) (distinct_firsts seen level)"
    "wl_next (fold (visit_child env trees embs newest sc deeper) level st) =
      wl_next st @ (if deeper then concat (map (live_children S) (distinct_firsts seen level)) else [])"
    "wl_docs (fold (visit_child env trees embs newest sc deeper) level st) = wl_docs st"
    by blast+
qed

lemma walk_levels_eq:
  assumes "summaries_ok (db_summaries (cd_tree db))" and "Chunk_Store.chunks_ok (cd_rows db)"
    and "\<forall>r\<in>set (db_summaries (cd_tree db)). sn_doc_id (sr_node r) = None"
  shows "hit_ids (walk_levels env db sc k newest docs level) =
    levels_below (\<lambda>i. get_summary i (cd_tree db)) (\<lambda>i. Chunk_Store.get_chunk i db) k level"
proof (induction k arbitrary: newest docs level)
  case (Suc k)
  let ?S = "get_summaries_batch level (cd_tree db)"
  let ?C = "get_full_chunks_batch (filter (\<lambda>i. ?S i = None) level) db"
  let ?S' = "\<lambda>i. get_summary i (cd_tree db)" and ?C' = "\<lambda>i. Chunk_Store.get_chunk i db"
  have S: "?S i = (if i \<in> set level then ?S' i else None)" for i by (rule summaries_batch [OF assms(1)])
  have C: "?C i = (if i \<in> set level \<and> ?S i = None then ?C' i else None)" for i
    by (simp add: full_chunks_batch [OF assms(2)])
  have S_ok: "\<forall>i s. ?S i = Some s \<longrightarrow> sn_doc_id s = None \<and> sn_id s = i"
    using assms(3) by (auto simp: S get_summary_def dest: sql_find_SomeD split: if_splits)
  have C_ok: "\<forall>i c. ?C i = Some c \<longrightarrow> ch_id c = i \<and> ?S i = None"
    by (auto simp: C Chunk_Store.get_chunk_def row_to_chunk_def dest: sql_find_SomeD split: if_splits)
  have same: "filter (shown ?S ?C) (distinct_firsts [] level) = filter (shown ?S' ?C') (distinct_firsts [] level)"
    "map (live_children ?S) (distinct_firsts [] level) = map (live_children ?S') (distinct_firsts [] level)"
  proof -
    have "shown ?S ?C i = shown ?S' ?C' i" "live_children ?S i = live_children ?S' i" if "i \<in> set level" for i
      using that S [of i] C [of i] by (cases "?S' i"; simp add: shown_def live_children_def)+
    then show "filter (shown ?S ?C) (distinct_firsts [] level) = filter (shown ?S' ?C') (distinct_firsts [] level)"
      "map (live_children ?S) (distinct_firsts [] level) = map (live_children ?S') (distinct_firsts [] level)"
      by (auto simp: set_distinct_firsts intro!: filter_cong)
  qed
  note level = visit_level [OF S_ok C_ok, of "\<lparr>wl_out = [], wl_next = [], wl_docs = docs, wl_summaries = ?S, wl_chunks = ?C\<rparr>" "[]"]
  show ?case
  proof (cases "level = []")
    case True
    then show ?thesis by (simp add: walk_levels.simps(2))
  next
    case False
    then show ?thesis
      using Suc.IH by (cases "k = 0") (simp_all add: walk_levels.simps(2) levels_below.simps(2) Let_def level same)
  qed
qed simp

text \<open>
  C20: where no summary belongs to a document, the walk is the breadth-first search of the summary's
  descendants: level by level, each id once per level and in order, live summaries and known chunks
  shown, and only the children of live summaries followed. Batched reads and maps make no difference.
\<close>
theorem drill_down_is_breadth_first:
  assumes "summaries_ok (db_summaries (cd_tree db))" and "Chunk_Store.chunks_ok (cd_rows db)"
    and "\<forall>r\<in>set (db_summaries (cd_tree db)). sn_doc_id (sr_node r) = None"
  shows "map rh_node_id (drill_down env embedder cosine db i max_depth None None) =
    (case get_summary i (cd_tree db) of
       None \<Rightarrow> []
     | Some s \<Rightarrow> levels_below (\<lambda>i. get_summary i (cd_tree db)) (\<lambda>i. Chunk_Store.get_chunk i db) max_depth (sn_child_ids s))"
  using walk_levels_eq [OF assms]
  by (cases "max_depth = 0") (auto simp: drill_down_def walk_with_embeddings_def comp_def split: option.splits)

subsection \<open>Vectors of summaries are never used\<close>

lemma visit_no_summary_vector:
  assumes "\<forall>i s. wl_summaries st i = Some s \<longrightarrow> sn_embedding s = None"
    and "\<forall>he\<in>set (wl_out st). rh_node_kind (fst he) = Summary \<longrightarrow> snd he = None"
  shows "\<forall>he\<in>set (wl_out (fold (visit_child env trees embs newest sc deeper) level st)). rh_node_kind (fst he) = Summary \<longrightarrow> snd he = None"
  using assms
proof (induction level arbitrary: st)
  case (Cons i level)
  let ?st = "visit_child env trees embs newest sc deeper i st"
  have "\<forall>j s. wl_summaries ?st j = Some s \<longrightarrow> sn_embedding s = None"
    using Cons.prems(1) by (auto simp: visit_child_def emit_summary_def Let_def split: option.splits if_splits)
  moreover have "\<forall>he\<in>set (wl_out ?st). rh_node_kind (fst he) = Summary \<longrightarrow> snd he = None"
    using Cons.prems by (auto simp: visit_child_def emit_summary_def Let_def split: option.splits)
  ultimately show ?case using Cons.IH [of ?st] by simp
qed simp

lemma walk_no_summary_vector:
  assumes "summaries_ok (db_summaries (cd_tree db))" and "\<forall>r\<in>set (db_summaries (cd_tree db)). sn_embedding (sr_node r) = None"
  shows "\<forall>he\<in>set (walk_levels env db sc k newest docs level). rh_node_kind (fst he) = Summary \<longrightarrow> snd he = None"
proof (induction k arbitrary: newest docs level)
  case (Suc k)
  have "\<forall>i s. get_summaries_batch level (cd_tree db) i = Some s \<longrightarrow> sn_embedding s = None"
    using assms(2) by (auto simp: summaries_batch [OF assms(1)] get_summary_def dest: sql_find_SomeD split: if_splits)
  then have out: "\<forall>he\<in>set (wl_out (fold (visit_child env T E newest sc deeper) level
      \<lparr>wl_out = [], wl_next = [], wl_docs = docs, wl_summaries = get_summaries_batch level (cd_tree db), wl_chunks = C\<rparr>)).
      rh_node_kind (fst he) = Summary \<longrightarrow> snd he = None" for T E newest deeper C
    by (intro visit_no_summary_vector) simp_all
  show ?case unfolding walk_levels.simps(2) Let_def using out Suc.IH by (simp add: ball_Un)
qed simp

lemma walk_with_no_summary_vector:
  assumes "summaries_ok (db_summaries (cd_tree db))" and "\<forall>r\<in>set (db_summaries (cd_tree db)). sn_embedding (sr_node r) = None"
  shows "\<forall>he\<in>set (walk_with_embeddings env db i k). rh_node_kind (fst he) = Summary \<longrightarrow> snd he = None"
proof (cases "get_summary i (cd_tree db)")
  case (Some s)
  then show ?thesis unfolding walk_with_embeddings_def using walk_no_summary_vector [OF assms] by simp
qed (simp add: walk_with_embeddings_def)

text \<open>
  The vectors of summaries live in the sidecar, and the column the walk reads is empty in every row
  an insert writes. So whatever the query and whatever vectors are stored, summaries keep the order of
  the walk, behind all chunks that have a vector.
\<close>
theorem drill_down_ignores_summary_vectors:
  assumes "summaries_ok (db_summaries (cd_tree db))" and "\<forall>r\<in>set (db_summaries (cd_tree db)). sn_embedding (sr_node r) = None"
  shows "\<exists>ranked rest. drill_down env embedder cosine db i max_depth (Some query) None = ranked @ rest \<and>
    (\<forall>h\<in>set ranked. rh_node_kind h = Leaf) \<and>
    filter (\<lambda>h. rh_node_kind h = Summary) rest =
      filter (\<lambda>h. rh_node_kind h = Summary) (drill_down env embedder cosine db i max_depth None None)"
proof (cases "max_depth = 0")
  case False
  let ?scored = "walk_with_embeddings env db i max_depth"
  show ?thesis
  proof (cases "embedder query")
    case (Inl e)
    then show ?thesis using False
      by (intro exI [of _ "[]"] exI [of _ "map fst ?scored"]) (simp add: drill_down_def rerank_by_semantic_similarity_def)
  next
    case (Inr query_vec)
    let ?key = "rerank_key cosine query_vec" and ?emb = "\<lambda>he. similarity cosine query_vec (snd he) \<noteq> None"
    let ?rest = "filter (\<lambda>he. \<not> ?emb he) ?scored"
    have v: "\<forall>he\<in>set ?scored. rh_node_kind (fst he) = Summary \<longrightarrow> \<not> ?emb he"
      using walk_with_no_summary_vector [OF assms] by (auto simp: similarity_def)
    have "drill_down env embedder cosine db i max_depth (Some query) None =
        map fst (sort_key ?key (filter ?emb ?scored)) @ map fst ?rest"
      using False rerank_split [of cosine query_vec ?scored]
      by (simp add: drill_down_def rerank_by_semantic_similarity_def Inr)
    moreover have "\<forall>h\<in>set (map fst (sort_key ?key (filter ?emb ?scored))). rh_node_kind h = Leaf"
    proof -
      have "rh_node_kind (fst he) = Leaf" if "he \<in> set ?scored" "?emb he" for he
        using v that by (cases "rh_node_kind (fst he)") auto
      then show ?thesis by auto
    qed
    moreover have "filter (\<lambda>h. rh_node_kind h = Summary) (map fst ?rest) =
        filter (\<lambda>h. rh_node_kind h = Summary) (drill_down env embedder cosine db i max_depth None None)"
      using False v by (auto simp: drill_down_def filter_map comp_def intro!: arg_cong [of _ _ "map fst"] filter_cong)
    ultimately show ?thesis by blast
  qed
qed (simp add: drill_down_def)

subsection \<open>Documents sealed in several batches stop the walk\<close>

lemma visit_known_document:
  assumes "\<forall>c\<in>set level. wl_chunks st c = None \<and> (\<forall>n. wl_summaries st c = Some n \<longrightarrow> sn_doc_id n = Some doc)"
    and "doc \<in> wl_docs st"
  shows "wl_out (fold (visit_child env trees embs newest sc deeper) level st) = wl_out st \<and>
    wl_next (fold (visit_child env trees embs newest sc deeper) level st) = wl_next st"
  using assms
proof (induction level arbitrary: st)
  case (Cons c level)
  let ?st = "visit_child env trees embs newest sc deeper c st"
  have step: "wl_out ?st = wl_out st" "wl_next ?st = wl_next st" "wl_docs ?st = wl_docs st" "wl_chunks ?st = wl_chunks st"
    "wl_summaries ?st = (wl_summaries st)(c := None)"
    using Cons.prems by (auto simp: visit_child_def Let_def fun_upd_idem split: option.splits)
  show ?case using Cons.IH [of ?st] Cons.prems by (simp add: step)
qed simp

lemma walk_known_document:
  assumes "summaries_ok (db_summaries (cd_tree db))" and "doc \<in> docs"
    and "\<forall>c\<in>set level. \<exists>n. get_summary c (cd_tree db) = Some n \<and> sn_doc_id n = Some doc"
  shows "walk_levels env db sc k newest docs level = []"
proof (cases k)
  case (Suc j)
  let ?S = "get_summaries_batch level (cd_tree db)"
  have S: "?S c = get_summary c (cd_tree db)" if "c \<in> set level" for c using that by (simp add: summaries_batch [OF assms(1)])
  then have none: "filter (\<lambda>c. ?S c = None) level = []" using assms(3) by (auto simp: filter_empty_conv)
  have no_chunks: "get_full_chunks_batch [] db c = None" for c
    by (simp add: get_full_chunks_batch_def fetch_batch_def windows.simps [of _ "[]"])
  let ?st = "\<lparr>wl_out = [], wl_next = [], wl_docs = docs, wl_summaries = ?S, wl_chunks = get_full_chunks_batch [] db\<rparr>"
  have "wl_out (fold (visit_child env T E newest' sc deeper) level ?st) = wl_out ?st \<and>
      wl_next (fold (visit_child env T E newest' sc deeper) level ?st) = wl_next ?st" for T E newest' deeper
    by (rule visit_known_document) (use assms(2,3) S no_chunks in auto)
  then show ?thesis unfolding Suc walk_levels.simps(2) Let_def none
    by (cases j) (simp_all add: walk_levels.simps(2))
qed simp

text \<open>
  Below a document that was sealed in more than one batch the walk finds nothing. The document's
  root claims the document's id, and its batches carry the same id, so they are taken for duplicates
  and neither shown nor followed, at any depth.
\<close>
theorem drill_down_stops_at_batched_documents:
  assumes "summaries_ok (db_summaries (cd_tree db))" and "0 < max_depth"
    and "get_summary i (cd_tree db) = Some top_node" and "sn_child_ids top_node = [sn_id r]"
    and "get_summary (sn_id r) (cd_tree db) = Some r" and "\<not> sn_deleted r" and "sn_doc_id r = Some doc"
    and "\<forall>c\<in>set (sn_child_ids r). \<exists>n. get_summary c (cd_tree db) = Some n \<and> sn_doc_id n = Some doc"
  shows "map rh_node_id (drill_down env embedder cosine db i max_depth None limit) =
    (case limit of Some n \<Rightarrow> take n [sn_id r] | None \<Rightarrow> [sn_id r])"
proof -
  obtain k where k: "max_depth = Suc k" using assms(2) by (cases max_depth) auto
  let ?S = "get_summaries_batch [sn_id r] (cd_tree db)"
  have S: "?S (sn_id r) = Some r" by (simp add: summaries_batch [OF assms(1)] assms(5))
  have le: "version_le v v" for v by (simp add: version_le_def)
  have newest: "fold (walk_versions ?S) [sn_id r] Map.empty doc = Some (sn_version_ms r)"
    using assms(6,7) by (simp add: walk_versions_def S raise_version_def)
  have deep: "walk_levels env db sc k newest' {doc} (sn_child_ids r) = []" for sc newest'
    by (rule walk_known_document [OF assms(1) _ assms(8)]) simp
  have "hit_ids (walk_levels env db sc (Suc k) Map.empty {} [sn_id r]) = [sn_id r]" for sc
    using assms(6,7) newest deep
    by (cases "k = 0") (simp_all add: walk_levels.simps(2) Let_def visit_child_def S emit_summary_def outdated_def le)
  then have "map rh_node_id (map fst (walk_with_embeddings env db i max_depth)) = [sn_id r]"
    by (simp add: walk_with_embeddings_def assms(3,4) k comp_def)
  then show ?thesis using assms(2) by (cases limit) (simp_all add: drill_down_def take_map [symmetric])
qed

definition sample_drill_env :: retrieval_env where
  "sample_drill_env = \<lparr>re_fmt = sample_fmt, re_embedding = sample_embedding_config, re_summary_body = (\<lambda>_. Inr []),
     re_chunk_body = (\<lambda>_. Inr [])\<rparr>"

text \<open>A merge node above the root of a document with two batches.\<close>

definition sample_drill_db :: "string option \<Rightarrow> chunk_db" where
  "sample_drill_db doc = \<lparr>cd_tree = (sample_db [])\<lparr>db_summaries := map (\<lambda>n. \<lparr>sr_node = n, sr_content_path = None, sr_content_sha256 = None\<rparr>)
       (sample_level doc @ [sample_parent doc, sample_node\<lparr>sn_id := ''top'', sn_level := 3, sn_child_ids := [''s3'']\<rparr>])\<rparr>,
     cd_rows = [], cd_embeddings = [], cd_skipped = [], cd_gates = []\<rparr>"

lemma sample_drill_ok:
  "summaries_ok (db_summaries (cd_tree (sample_drill_db doc)))" "Chunk_Store.chunks_ok (cd_rows (sample_drill_db doc))"
  "\<forall>r\<in>set (db_summaries (cd_tree (sample_drill_db doc))). sn_embedding (sr_node r) = None"
  by (simp_all add: summaries_ok_def Chunk_Store.chunks_ok_def sample_drill_db_def sample_level_def sample_parent_def sample_node_def)

lemma sample_drill_get:
  "get_summary ''top'' (cd_tree (sample_drill_db doc)) = Some (sample_node\<lparr>sn_id := ''top'', sn_level := 3, sn_child_ids := [''s3'']\<rparr>)"
  "get_summary ''s3'' (cd_tree (sample_drill_db doc)) = Some (sample_parent doc)"
  "get_summary ''s1'' (cd_tree (sample_drill_db doc)) = Some (hd (sample_level doc))"
  "get_summary ''s2'' (cd_tree (sample_drill_db doc)) = Some (last (sample_level doc))"
  by (simp_all add: get_summary_def sql_find_def sample_drill_db_def sample_level_def sample_parent_def sample_node_def)

theorem drill_down_is_breadth_first_witness:
  "map rh_node_id (drill_down sample_drill_env (\<lambda>_. Inr []) (\<lambda>_ _. 0) (sample_drill_db None) ''top'' 2 None None) =
    [''s3'', ''s1'', ''s2'']"
proof -
  have "\<forall>r\<in>set (db_summaries (cd_tree (sample_drill_db None))). sn_doc_id (sr_node r) = None"
    by (simp add: sample_drill_db_def sample_level_def sample_parent_def sample_node_def)
  note search = drill_down_is_breadth_first [OF sample_drill_ok(1,2) this]
  show ?thesis
    unfolding search sample_drill_get
    by (simp add: numeral_2_eq_2 levels_below.simps(2) shown_def live_children_def sample_drill_get
        sample_parent_def sample_node_def sample_level_def)
qed

theorem drill_down_ignores_summary_vectors_witness:
  "\<exists>ranked rest. drill_down sample_drill_env (\<lambda>_. Inr [1]) (\<lambda>_ _. 0) (sample_drill_db None) ''top'' 1 (Some [65]) None = ranked @ rest \<and>
    filter (\<lambda>h. rh_node_kind h = Summary) rest =
      filter (\<lambda>h. rh_node_kind h = Summary) (drill_down sample_drill_env (\<lambda>_. Inr [1]) (\<lambda>_ _. 0) (sample_drill_db None) ''top'' 1 None None)"
  using drill_down_ignores_summary_vectors [OF sample_drill_ok(1,3), of sample_drill_env "\<lambda>_. Inr [1]" "\<lambda>_ _. 0" None "''top''" 1 "[65]"]
  by blast

theorem drill_down_stops_at_batched_documents_witness:
  "map rh_node_id (drill_down sample_drill_env (\<lambda>_. Inr []) (\<lambda>_ _. 0) (sample_drill_db (Some ''d'')) ''top'' 9 None None) = [''s3'']"
proof -
  have r: "sn_id (sample_parent (Some ''d'')) = ''s3''" "\<not> sn_deleted (sample_parent (Some ''d''))"
    "sn_doc_id (sample_parent (Some ''d'')) = Some ''d''" "sn_child_ids (sample_parent (Some ''d'')) = [''s1'', ''s2'']"
    by (simp_all add: sample_parent_def sample_node_def)
  have kids: "\<forall>c\<in>set (sn_child_ids (sample_parent (Some ''d''))).
      \<exists>n. get_summary c (cd_tree (sample_drill_db (Some ''d''))) = Some n \<and> sn_doc_id n = Some ''d''"
    by (simp add: r sample_drill_get sample_level_def)
  show ?thesis
    using drill_down_stops_at_batched_documents [OF sample_drill_ok(1) _ sample_drill_get(1) _ _ r(2,3) kids, of 9 sample_drill_env]
    by (simp add: r sample_drill_get)
qed

end
