(* ===== verification/Query.thy ===== *)
theory Query
  imports Drill_Down
begin

section \<open>Queries (src/memory/retrieval: source.rs, global.rs, fetch.rs, fast.rs)\<close>

text \<open>
  The read side of the trees: by source, by time, by topic, by id, and by the graph of the entities a
  query names. The clock, the calendar subtraction, Unicode lc-casing and the embedder are
  parameters. \<^verbatim>\<open>usize::MAX\<close> as a limit means no limit, for callers that narrow the result themselves.
\<close>

record query_env = retrieval_env +
  qe_limits :: retrieval_limits
  qe_lower :: "string \<Rightarrow> string"
  qe_embedder :: "utext \<Rightarrow> rat list result"
  qe_cosine :: "rat list \<Rightarrow> rat list \<Rightarrow> rat"
  qe_now :: int
  qe_sub_days :: "int \<Rightarrow> nat \<Rightarrow> int option"

definition usize_max :: nat where "usize_max = 2 ^ 64 - 1"

definition capped_limit :: "query_env \<Rightarrow> nat \<Rightarrow> nat" where
  "capped_limit env limit =
    (if limit = 0 then rl_default_limit (qe_limits env) else min limit (rl_max_limit (qe_limits env)))"

subsection \<open>By source (source.rs)\<close>

fun kind_str :: "source_kind \<Rightarrow> string" where
  "kind_str Kind_Chat = ''chat''"
| "kind_str Kind_Email = ''email''"
| "kind_str Kind_Document = ''document''"

definition PLATFORM_KINDS :: "(string \<times> string) list" where
  "PLATFORM_KINDS =
    map (\<lambda>p. (p, ''chat'')) [''slack'', ''discord'', ''telegram'', ''whatsapp'', ''irc'', ''matrix'', ''mattermost'',
      ''lark'', ''signal'', ''imessage'', ''teams''] @
    map (\<lambda>p. (p, ''email'')) [''gmail'', ''imap'', ''outlook'', ''fastmail'', ''protonmail''] @
    map (\<lambda>p. (p, ''document'')) [''notion'', ''linear'', ''drive'', ''googledoc'', ''doc'', ''dropbox'', ''confluence'']"

definition starts_with :: "string \<Rightarrow> string \<Rightarrow> bool" where
  "starts_with s pre \<longleftrightarrow> take (length pre) s = pre"

definition scope_matches_kind :: "(string \<Rightarrow> string) \<Rightarrow> string \<Rightarrow> string \<Rightarrow> bool" where
  "scope_matches_kind lc scope kind_prefix \<longleftrightarrow>
    (let l = lc scope in
     starts_with l (kind_prefix @ '':'') \<or>
     (kind_prefix = kind_str Kind_Document \<and> starts_with l ''mem_src:'') \<or>
     (\<exists>(platform, kind)\<in>set PLATFORM_KINDS. kind = kind_prefix \<and> starts_with l (platform @ '':'')))"

definition select_trees :: "(string \<Rightarrow> string) \<Rightarrow> string option \<Rightarrow> source_kind option \<Rightarrow> tree_db \<Rightarrow> tree list" where
  "select_trees lc source_id kind db =
    (case source_id of
       Some i \<Rightarrow> (case get_tree_by_scope Source i db of Some t \<Rightarrow> [t] | None \<Rightarrow> [])
     | None \<Rightarrow>
        (let trees = list_trees_by_kind Source db in
         case kind of Some k \<Rightarrow> filter (\<lambda>t. scope_matches_kind lc (tr_scope t) (kind_str k)) trees | None \<Rightarrow> trees))"

definition tree_nodes :: "(int \<times> int) option \<Rightarrow> tree_db \<Rightarrow> tree \<Rightarrow> (summary_node \<times> string) list" where
  "tree_nodes window_ms db t =
    (if tr_max_level t = 0 \<and> tr_root_id t = None then []
     else map (\<lambda>n. (n, tr_scope t)) (filter (\<lambda>n. \<not> sn_deleted n)
       (case window_ms of
          Some (since_ms, until_ms) \<Rightarrow> list_summaries_overlapping_window (tr_id t) since_ms until_ms db
        | None \<Rightarrow> concat (map (\<lambda>l. list_summaries_at_level (tr_id t) l db) [1..<Suc (tr_max_level t)]))))"

definition collect_source_hits :: "query_env \<Rightarrow> string option \<Rightarrow> source_kind option \<Rightarrow> (int \<times> int) option \<Rightarrow> tree_db \<Rightarrow>
    scored_hit list" where
  "collect_source_hits env source_id kind window_ms db =
    (let nodes = concat (map (tree_nodes window_ms db) (select_trees (qe_lower env) source_id kind db));
         unembedded = map (\<lambda>(n, _). sn_id n) (filter (\<lambda>(n, _). sn_embedding n = None) nodes);
         by_id = get_summary_embeddings_batch (re_fmt env) (re_embedding env) unembedded db
     in map (\<lambda>(n, scope). (hydrated (re_summary_body env) (hit_from_summary n scope),
          case sn_embedding n of Some v \<Rightarrow> Some v | None \<Rightarrow> by_id (sn_id n))) nodes)"

definition order_hits :: "query_env \<Rightarrow> utext option \<Rightarrow> scored_hit list \<Rightarrow> retrieval_hit list" where
  "order_hits env query scored =
    (case query of
       Some q \<Rightarrow> rerank_by_semantic_similarity (qe_embedder env) (qe_cosine env) q scored
     | None \<Rightarrow> sort_key (\<lambda>h. - rh_time_range_end h) (map fst scored))"

definition source_window :: "query_env \<Rightarrow> nat option \<Rightarrow> (int \<times> int) option result" where
  "source_window env days =
    (case days of
       None \<Rightarrow> Inr None
     | Some d \<Rightarrow>
        (case qe_sub_days env (qe_now env) d of
           None \<Rightarrow> Inl (plain_error ''retrieval time window exceeds supported timestamp range'')
         | Some start \<Rightarrow> Inr (Some (start, qe_now env))))"

definition query_source :: "query_env \<Rightarrow> string option \<Rightarrow> source_kind option \<Rightarrow> nat option \<Rightarrow> utext option \<Rightarrow> nat \<Rightarrow>
    tree_db \<Rightarrow> query_response result" where
  "query_source env source_id kind days query limit db =
    (let limit = (if limit = usize_max then usize_max else capped_limit env limit) in
     case source_window env days of
       Inl e \<Rightarrow> Inl e
     | Inr window \<Rightarrow>
        (let scored = collect_source_hits env source_id kind window db
         in Inr (query_response_new (take limit (order_hits env query scored)) (length scored))))"

subsection \<open>By time and by topic (global.rs)\<close>

definition query_global :: "query_env \<Rightarrow> int \<Rightarrow> int \<Rightarrow> source_kind option \<Rightarrow> utext option \<Rightarrow> nat \<Rightarrow> tree_db \<Rightarrow>
    query_response result" where
  "query_global env since_ms until_ms kind query limit db =
    (if until_ms < since_ms
     then Inl (plain_error (''query_global: until_ms ('' @ show_int until_ms @ '') precedes since_ms ('' @ show_int since_ms @ '')''))
     else let scored = collect_source_hits env None kind (Some (since_ms, until_ms)) db
       in Inr (query_response_new (take (capped_limit env limit) (order_hits env query scored)) (length scored)))"

definition topic_hit :: "query_env \<Rightarrow> (string \<rightharpoonup> summary_node) \<Rightarrow> (string \<rightharpoonup> rat list) \<Rightarrow> (string \<rightharpoonup> tree) \<Rightarrow> (string \<rightharpoonup> chunk) \<Rightarrow>
    (string \<rightharpoonup> rat list) \<Rightarrow> string set \<Rightarrow> entity_hit \<Rightarrow> scored_hit option" where
  "topic_hit env summaries summary_embs trees chunks chunk_embs dropped eh =
    (case summaries (hit_node_id eh) of
       Some n \<Rightarrow>
        (if sn_deleted n then None
         else Some (hit_from_summary n (case trees (sn_tree_id n) of Some t \<Rightarrow> tr_scope t | None \<Rightarrow> []),
           case sn_embedding n of Some v \<Rightarrow> Some v | None \<Rightarrow> summary_embs (sn_id n)))
     | None \<Rightarrow>
        (case chunks (hit_node_id eh) of
           Some c \<Rightarrow> (if ch_id c \<in> dropped then None
             else Some (hit_from_chunk c [] (ch_source_id c) 0, chunk_embs (ch_id c)))
         | None \<Rightarrow> None))"

definition resolve_topic_hits :: "query_env \<Rightarrow> string \<Rightarrow> int option \<Rightarrow> int option \<Rightarrow> chunk_db \<Rightarrow> scored_hit list result" where
  "resolve_topic_hits env entity_id since_ms until_ms db =
    (case lookup_entity_in_window entity_id since_ms until_ms (Some (rl_topic_lookup_limit (qe_limits env)))
       (db_entity_index (cd_tree db)) of
       Inl e \<Rightarrow> Inl e
     | Inr entity_hits \<Rightarrow>
        (let summary_ids = map hit_node_id (filter (\<lambda>h. hit_node_kind h = ''summary'') entity_hits);
             leaf_ids = map hit_node_id (filter (\<lambda>h. hit_node_kind h \<noteq> ''summary'') entity_hits);
             summaries = get_summaries_batch summary_ids (cd_tree db);
             trees = get_trees_batch (remdups (map sn_tree_id (List.map_filter summaries summary_ids))) (cd_tree db)
         in Inr (List.map_filter
              (topic_hit env summaries (get_summary_embeddings_batch (re_fmt env) (re_embedding env) summary_ids (cd_tree db)) trees
                (get_full_chunks_batch leaf_ids db) (get_chunk_embeddings_batch (re_fmt env) (re_embedding env) leaf_ids db)
                (get_dropped_chunk_ids_batch leaf_ids (db_scores (cd_tree db)))) entity_hits)))"

definition in_window :: "int option \<Rightarrow> int option \<Rightarrow> retrieval_hit \<Rightarrow> bool" where
  "in_window since_ms until_ms h \<longleftrightarrow>
    passes since_ms (\<lambda>s. s \<le> rh_time_range_end h) \<and> passes until_ms (\<lambda>u. rh_time_range_start h \<le> u)"

definition query_topic :: "query_env \<Rightarrow> string \<Rightarrow> int option \<Rightarrow> int option \<Rightarrow> utext option \<Rightarrow> nat \<Rightarrow> chunk_db \<Rightarrow>
    query_response result" where
  "query_topic env entity_id since_ms until_ms query limit db =
    (let entity_id = trim_str entity_id in
     if entity_id = [] then Inr (query_response_new [] 0)
     else case resolve_topic_hits env entity_id since_ms until_ms db of
       Inl e \<Rightarrow> Inl e
     | Inr found \<Rightarrow>
        (let scored = filter (\<lambda>he. in_window since_ms until_ms (fst he)) found
         in Inr (query_response_new (take (capped_limit env limit) (order_hits env query scored)) (length scored))))"

subsection \<open>By id (fetch.rs)\<close>

definition fetch_leaf :: "query_env \<Rightarrow> (string \<rightharpoonup> chunk) \<Rightarrow> (string \<rightharpoonup> rat) \<Rightarrow> string \<Rightarrow> retrieval_hit option" where
  "fetch_leaf env chunks scores i =
    map_option (\<lambda>c. hydrated (re_chunk_body env)
      (hit_from_chunk c [] (ch_source_id c) (case scores i of Some s \<Rightarrow> s | None \<Rightarrow> 0))) (chunks i)"

definition fetch_leaves :: "query_env \<Rightarrow> string list \<Rightarrow> chunk_db \<Rightarrow> retrieval_hit list" where
  "fetch_leaves env chunk_ids db =
    (let ids = take (rl_fetch_batch_limit (qe_limits env)) chunk_ids
     in List.map_filter (fetch_leaf env (get_full_chunks_batch ids db) (get_scores_batch ids (db_scores (cd_tree db)))) ids)"

subsection \<open>By graph (fast.rs)\<close>

definition has_mem_src :: "string \<Rightarrow> bool" where
  "has_mem_src v \<longleftrightarrow> map ascii_lower (utext_of (take 8 v)) = utext_of ''mem_src:''"

definition extract_mem_src_id :: "string \<Rightarrow> string option" where
  "extract_mem_src_id v =
    (if has_mem_src v
     then (case split_once_str CHR '':'' (drop 8 v) of Some (i, _) \<Rightarrow> (if i \<noteq> [] then Some i else None) | None \<Rightarrow> None)
     else None)"

definition mem_src_scope_selects_id :: "string \<Rightarrow> string \<Rightarrow> bool" where
  "mem_src_scope_selects_id v expected \<longleftrightarrow>
    has_mem_src v \<and>
    (let i = (case split_once_str CHR '':'' (drop 8 v) of Some (i, _) \<Rightarrow> i | None \<Rightarrow> drop 8 v) in i \<noteq> [] \<and> i = expected)"

definition source_scope_allows :: "string set \<Rightarrow> string \<Rightarrow> bool" where
  "source_scope_allows scope tree_scope \<longleftrightarrow>
    tree_scope \<in> scope \<or>
    (case extract_mem_src_id tree_scope of
       None \<Rightarrow> False
     | Some i \<Rightarrow> i \<in> scope \<or> (\<exists>allowed\<in>scope. mem_src_scope_selects_id allowed i))"

record candidate =
  ca_node_kind :: string
  ca_matched :: "string set"
  ca_latest_ts :: int

text \<open>The candidates by node id; a list stands for the hash map, which is sorted before use.\<close>

definition add_candidate :: "pair_distance \<Rightarrow> (string \<rightharpoonup> int) \<Rightarrow> entity_hit \<Rightarrow> (string \<times> candidate) list \<Rightarrow>
    (string \<times> candidate) list" where
  "add_candidate pair right_nodes h out =
    (case right_nodes (hit_node_id h) of
       None \<Rightarrow> out
     | Some right_ts \<Rightarrow>
        (let grow = (\<lambda>c. c\<lparr>ca_matched := ca_matched c \<union> {pd_a pair, pd_b pair},
                 ca_latest_ts := max (max (ca_latest_ts c) (hit_timestamp_ms h)) right_ts\<rparr>)
         in sql_upsert (\<lambda>e. fst e = hit_node_id h) (\<lambda>e. (fst e, grow (snd e)))
              (hit_node_id h, grow \<lparr>ca_node_kind = hit_node_kind h, ca_matched = {}, ca_latest_ts = 0\<rparr>) out))"

fun local_candidates :: "nat \<Rightarrow> entity_index \<Rightarrow> pair_distance list \<Rightarrow> (string \<times> candidate) list \<Rightarrow>
    (string \<times> candidate) list result" where
  "local_candidates occurrence_limit ix [] out = Inr out"
| "local_candidates occurrence_limit ix (pair # pairs) out =
    (case lookup_entity (pd_a pair) (Some occurrence_limit) ix of
       Inl e \<Rightarrow> Inl e
     | Inr left \<Rightarrow>
        (case lookup_entity (pd_b pair) (Some occurrence_limit) ix of
           Inl e \<Rightarrow> Inl e
         | Inr right \<Rightarrow>
            (let right_nodes = fold (\<lambda>h m. m(hit_node_id h \<mapsto> hit_timestamp_ms h)) right Map.empty
             in local_candidates occurrence_limit ix pairs (fold (add_candidate pair right_nodes) left out))))"

text \<open>The loop that lowers the hop bound while there are more candidates than the limit.\<close>

fun narrow :: "(nat \<Rightarrow> 'a list result) \<Rightarrow> nat \<Rightarrow> nat \<Rightarrow> 'a list \<Rightarrow> 'a list result" where
  "narrow cand limit 0 cs = Inr cs"
| "narrow cand limit (Suc hops) cs =
    (if length cs > limit \<and> Suc hops > 1
     then (case cand hops of
             Inl e \<Rightarrow> Inl e
           | Inr next_cs \<Rightarrow> (if next_cs = [] then Inr cs else narrow cand limit hops next_cs))
     else Inr cs)"

definition candidate_key :: "string \<times> candidate \<Rightarrow> int \<times> int \<times> string" where
  "candidate_key e = (- int (card (ca_matched (snd e))), - ca_latest_ts (snd e), fst e)"

definition summary_hit_of :: "query_env \<Rightarrow> tree_db \<Rightarrow> summary_node \<Rightarrow> retrieval_hit" where
  "summary_hit_of env db n = hydrated (re_summary_body env)
    (hit_from_summary n (case get_tree (sn_tree_id n) db of Some t \<Rightarrow> tr_scope t | None \<Rightarrow> []))"

definition resolve_local :: "query_env \<Rightarrow> (string \<times> candidate) list \<Rightarrow> string set option \<Rightarrow> nat \<Rightarrow> chunk_db \<Rightarrow> query_response" where
  "resolve_local env candidates source_scope limit db =
    (let ordered = sort_key candidate_key candidates;
         leaf_ids = map fst (filter (\<lambda>e. ca_node_kind (snd e) = ''leaf'') ordered);
         summary_ids = map fst (filter (\<lambda>e. ca_node_kind (snd e) \<noteq> ''leaf'') ordered);
         leaves = concat (map (\<lambda>ids. fetch_leaves env ids db) (windows (rl_fetch_batch_limit (qe_limits env)) leaf_ids));
         by_id = fold (\<lambda>h m. m(rh_node_id h \<mapsto> h)) leaves Map.empty;
         summaries = get_summaries_batch summary_ids (cd_tree db);
         by_id' = by_id ++ (\<lambda>i. map_option (summary_hit_of env (cd_tree db)) (summaries i));
         hits = List.map_filter (\<lambda>(i, c). case by_id' i of
             None \<Rightarrow> None
           | Some h \<Rightarrow> (if passes source_scope (\<lambda>s. source_scope_allows s (rh_tree_scope h))
               then Some (h\<lparr>rh_score := of_nat (card (ca_matched c))\<rparr>) else None)) ordered
     in query_response_new (take limit hits) (length hits))"

definition dense :: "query_env \<Rightarrow> utext \<Rightarrow> string set option \<Rightarrow> nat \<Rightarrow> nat option \<Rightarrow> tree_db \<Rightarrow> query_response result" where
  "dense env query source_scope limit window db =
    (case query_source env None None window (Some query) usize_max db of
       Inl e \<Rightarrow> Inl e
     | Inr r \<Rightarrow>
        (let hits = filter (\<lambda>h. passes source_scope (\<lambda>s. source_scope_allows s (rh_tree_scope h))) (qr_hits r)
         in Inr (query_response_new (take limit hits) (length hits))))"

definition global_occurrence :: "query_env \<Rightarrow> utext \<Rightarrow> string list \<Rightarrow> string set option \<Rightarrow> nat \<Rightarrow> nat option \<Rightarrow> tree_db \<Rightarrow>
    query_response result" where
  "global_occurrence env query entity_ids source_scope limit window db =
    (case dense env query source_scope (min (limit * 2) usize_max) window db of
       Inl e \<Rightarrow> Inl e
     | Inr r \<Rightarrow>
        (let hits = sort_key (\<lambda>h. - int (length (filter (\<lambda>e. e \<in> set entity_ids) (rh_entities h)))) (qr_hits r)
         in Inr (query_response_new (take limit hits) (qr_total r))))"

record fast_retrieve_options =
  fo_limit :: nat
  fo_max_hops :: nat
  fo_time_window_days :: "nat option"

definition fast_retrieve :: "query_env \<Rightarrow> utext \<Rightarrow> string list \<Rightarrow> string set option \<Rightarrow> fast_retrieve_options \<Rightarrow> chunk_db \<Rightarrow>
    query_response result" where
  "fast_retrieve env query query_entity_ids source_scope options db =
    (let limits = qe_limits env; limit = capped_limit env (fo_limit options);
         max_hops = (if fo_max_hops options = 0 then rl_default_graph_hops limits
           else min (fo_max_hops options) (rl_max_graph_hops limits));
         query = trim query; entity_ids = distinct_firsts [] query_entity_ids;
         t = cd_tree db; occ = rl_occurrence_lookup_limit limits;
         cand = (\<lambda>hops. local_candidates occ (db_entity_index t) (pair_distances (db_edges t) entity_ids hops) []);
         fallback = global_occurrence env query entity_ids source_scope limit (fo_time_window_days options) t
     in if query = [] then Inr (query_response_new [] 0)
        else if entity_ids = [] then dense env query source_scope limit (fo_time_window_days options) t
        else if pair_distances (db_edges t) entity_ids max_hops = [] then fallback
        else case cand max_hops of
          Inl e \<Rightarrow> Inl e
        | Inr first \<Rightarrow>
           (case narrow cand limit max_hops first of
              Inl e \<Rightarrow> Inl e
            | Inr candidates \<Rightarrow>
               (if candidates = [] then fallback
                else Inr (resolve_local env candidates source_scope limit db))))"

subsection \<open>The hop bound is lowered as little as needed\<close>

text \<open>
  The candidates kept are those of one hop bound, the largest under which they fit the limit: under
  every larger bound there were too many, and it is lowered no further than to the last bound that
  still had any candidate, or to one hop.
\<close>
theorem narrowing_keeps_largest_fit:
  assumes "cand hops = Inr first" and "0 < hops" and "narrow cand limit hops first = Inr cs"
  shows "\<exists>h. 0 < h \<and> h \<le> hops \<and> cand h = Inr cs \<and>
    (\<forall>k. h < k \<and> k \<le> hops \<longrightarrow> (\<exists>xs. cand k = Inr xs \<and> length xs > limit)) \<and>
    (length cs \<le> limit \<or> h = 1 \<or> cand (h - 1) = Inr []) \<and> (cs = [] \<longleftrightarrow> first = [])"
  using assms
proof (induction hops arbitrary: first)
  case (Suc hops)
  show ?case
  proof (cases "length first > limit \<and> hops > 0")
    case False
    then show ?thesis using Suc.prems by (intro exI [of _ "Suc hops"]) auto
  next
    case True
    then obtain next_cs where n: "cand hops = Inr next_cs" using Suc.prems(3) by (auto split: sum.splits)
    show ?thesis
    proof (cases "next_cs = []")
      case True
      then show ?thesis using n Suc.prems \<open>length first > limit \<and> hops > 0\<close> by (intro exI [of _ "Suc hops"]) auto
    next
      case False
      then have r: "narrow cand limit hops next_cs = Inr cs" using Suc.prems(3) True n by simp
      have "0 < hops" using True by simp
      from Suc.IH [OF n this r]
      obtain h where h: "0 < h" "h \<le> hops" "cand h = Inr cs"
          "\<forall>k. h < k \<and> k \<le> hops \<longrightarrow> (\<exists>xs. cand k = Inr xs \<and> length xs > limit)"
          "length cs \<le> limit \<or> h = 1 \<or> cand (h - 1) = Inr []" "cs = [] \<longleftrightarrow> next_cs = []"
        by (elim exE conjE) (rule that)
      have up: "\<exists>xs. cand k = Inr xs \<and> length xs > limit" if "h < k" "k \<le> Suc hops" for k
        using h(4) that True Suc.prems(1) by (cases "k = Suc hops") auto
      have "first \<noteq> []" using True by force
      have "cs \<noteq> []" using False h(6) by blast
      show ?thesis
      proof (intro exI [of _ h] conjI allI impI)
        show "h \<le> Suc hops" using h(2) by simp
        show "\<exists>xs. cand k = Inr xs \<and> limit < length xs" if "h < k \<and> k \<le> Suc hops" for k using up that by blast
        show "(cs = []) = (first = [])" using \<open>first \<noteq> []\<close> \<open>cs \<noteq> []\<close> by blast
      qed (fact h)+
    qed
  qed
qed simp

theorem narrowing_keeps_largest_fit_witness:
  "\<exists>h. 0 < h \<and> (\<lambda>k. Inr [1..<k + 1] :: nat list result) h = Inr [1..<2]"
  using narrowing_keeps_largest_fit [of "\<lambda>k. Inr [1..<k + 1] :: nat list result" 3 "[1..<4]" 1 "[1..<2]"]
  by (auto simp: numeral_3_eq_3 upt_rec)

subsection \<open>Every candidate with a row is returned\<close>

lemma fetch_leaves_ids:
  assumes "Chunk_Store.chunks_ok (cd_rows db)" and "length ids \<le> rl_fetch_batch_limit (qe_limits env)"
  shows "set (fetch_leaves env ids db) =
    {h. \<exists>i\<in>set ids. fetch_leaf env (\<lambda>i. Chunk_Store.get_chunk i db) (get_scores_batch ids (db_scores (cd_tree db))) i = Some h}"
  using assms(2) by (auto simp: fetch_leaves_def set_map_filter_Some fetch_leaf_def full_chunks_batch [OF assms(1)])

lemma fold_by_id:
  "fold (\<lambda>h m. m(rh_node_id h \<mapsto> h)) hs m i = m i \<and> i \<notin> rh_node_id ` set hs \<or>
   (\<exists>h\<in>set hs. rh_node_id h = i \<and> fold (\<lambda>h m. m(rh_node_id h \<mapsto> h)) hs m i = Some h)"
  by (induction hs rule: rev_induct) auto

lemma get_chunk_id: "Chunk_Store.get_chunk i db = Some c \<Longrightarrow> ch_id c = i"
  by (auto simp: Chunk_Store.get_chunk_def row_to_chunk_def dest: sql_find_SomeD)

lemma fetch_leaf_id:
  "fetch_leaf env (\<lambda>i. Chunk_Store.get_chunk i db) scores i = Some h \<Longrightarrow> rh_node_id h = i"
  by (auto simp: fetch_leaf_def get_chunk_id)

lemma fetch_leaf_Some:
  "(\<exists>h. fetch_leaf env (\<lambda>i. Chunk_Store.get_chunk i db) scores i = Some h) \<longleftrightarrow> Chunk_Store.get_chunk i db \<noteq> None"
  by (auto simp: fetch_leaf_def)

lemma fetched_leaves:
  assumes "Chunk_Store.chunks_ok (cd_rows db)" and "0 < rl_fetch_batch_limit (qe_limits env)"
  shows "rh_node_id ` set (concat (map (\<lambda>ids. fetch_leaves env ids db) (windows (rl_fetch_batch_limit (qe_limits env)) leaf_ids))) =
    {i \<in> set leaf_ids. Chunk_Store.get_chunk i db \<noteq> None}"
proof -
  have ids: "rh_node_id ` set (fetch_leaves env ids db) = {i \<in> set ids. Chunk_Store.get_chunk i db \<noteq> None}"
    if "ids \<in> set (windows (rl_fetch_batch_limit (qe_limits env)) leaf_ids)" for ids
    unfolding fetch_leaves_ids [OF assms(1) windows_bounded [OF that]]
    using fetch_leaf_id fetch_leaf_Some by (fastforce simp: image_iff)
  have "rh_node_id ` set (concat (map (\<lambda>ids. fetch_leaves env ids db) (windows (rl_fetch_batch_limit (qe_limits env)) leaf_ids))) =
      (\<Union>ids\<in>set (windows (rl_fetch_batch_limit (qe_limits env)) leaf_ids). rh_node_id ` set (fetch_leaves env ids db))"
    by auto
  also have "\<dots> = {i \<in> set (concat (windows (rl_fetch_batch_limit (qe_limits env)) leaf_ids)). Chunk_Store.get_chunk i db \<noteq> None}"
    using ids by auto
  finally show ?thesis by (simp add: concat_windows [OF assms(2)])
qed

definition candidate_found :: "chunk_db \<Rightarrow> string \<times> candidate \<Rightarrow> bool" where
  "candidate_found db e =
    (if ca_node_kind (snd e) = ''leaf'' then Chunk_Store.get_chunk (fst e) db \<noteq> None
     else get_summary (fst e) (cd_tree db) \<noteq> None)"

text \<open>
  C21: with no filter on sources, the graph route returns exactly the candidates that have a row, by
  falling number of query entities they mention, then by recency, then by id, and scores each with
  that number. Batching and the caps on it lose none. Tombstones are not looked at: a deleted summary
  or a chunk dropped at admission is returned, which the topic query never does.
\<close>
theorem fast_resolves_every_candidate:
  assumes "summaries_ok (db_summaries (cd_tree db))" and "Chunk_Store.chunks_ok (cd_rows db)"
    and "distinct (map fst candidates)" and "0 < rl_fetch_batch_limit (qe_limits env)"
  shows "map (\<lambda>h. (rh_node_id h, rh_score h)) (qr_hits (resolve_local env candidates None limit db)) =
    take limit (map (\<lambda>e. (fst e, of_nat (card (ca_matched (snd e)))))
      (filter (candidate_found db) (sort_key candidate_key candidates)))"
proof -
  let ?ordered = "sort_key candidate_key candidates"
  let ?leaf = "map fst (filter (\<lambda>e. ca_node_kind (snd e) = ''leaf'') ?ordered)"
  let ?summ = "map fst (filter (\<lambda>e. ca_node_kind (snd e) \<noteq> ''leaf'') ?ordered)"
  let ?leaves = "concat (map (\<lambda>ids. fetch_leaves env ids db) (windows (rl_fetch_batch_limit (qe_limits env)) ?leaf))"
  define by_id where "by_id = fold (\<lambda>h m. m(rh_node_id h \<mapsto> h)) ?leaves Map.empty ++
      (\<lambda>i. map_option (summary_hit_of env (cd_tree db)) (get_summaries_batch ?summ (cd_tree db) i))"
  define f where "f = (\<lambda>(i, c :: candidate). case by_id i of None \<Rightarrow> None | Some h \<Rightarrow> Some (h\<lparr>rh_score := of_nat (card (ca_matched c))\<rparr> :: retrieval_hit))"
  have hits: "resolve_local env candidates None limit db =
      query_response_new (take limit (List.map_filter f ?ordered)) (length (List.map_filter f ?ordered))"
    by (simp add: resolve_local_def Let_def by_id_def [symmetric] f_def passes_def cong: option.case_cong)
  have lookup: "(by_id i \<noteq> None \<longleftrightarrow> candidate_found db (i, c)) \<and> (\<forall>h. by_id i = Some h \<longrightarrow> rh_node_id h = i)"
    if e: "(i, c) \<in> set ?ordered" for i c
  proof (cases "ca_node_kind c = ''leaf''")
    case True
    have "i \<notin> set ?summ" using e True by (auto dest: eq_key_imp_eq_value [OF assms(3)])
    then have "by_id i = fold (\<lambda>h m. m(rh_node_id h \<mapsto> h)) ?leaves Map.empty i"
      by (simp add: by_id_def map_add_def summaries_batch [OF assms(1)])
    moreover have "i \<in> set ?leaf" using e True by (auto intro: image_eqI [of _ fst "(i, c)"])
    then have "i \<in> rh_node_id ` set ?leaves \<longleftrightarrow> Chunk_Store.get_chunk i db \<noteq> None"
      unfolding fetched_leaves [OF assms(2,4)] by simp
    ultimately show ?thesis
      using fold_by_id [of ?leaves Map.empty i] unfolding candidate_found_def by (auto simp: True)
  next
    case False
    then have s: "i \<in> set ?summ" using e by (auto intro: image_eqI [of _ fst "(i, c)"])
    have "i \<notin> set ?leaf" using e False by (auto dest: eq_key_imp_eq_value [OF assms(3)])
    then have s2: "i \<notin> rh_node_id ` set ?leaves" unfolding fetched_leaves [OF assms(2,4)] by simp
    have "fold (\<lambda>h m. m(rh_node_id h \<mapsto> h)) ?leaves Map.empty i = None"
      using fold_by_id [of ?leaves Map.empty i] s2 by auto
    then have "by_id i = map_option (summary_hit_of env (cd_tree db)) (get_summary i (cd_tree db))"
      using s by (simp add: by_id_def map_add_def summaries_batch [OF assms(1)] split: option.split)
    then show ?thesis using False
      by (auto simp: candidate_found_def summary_hit_of_def get_summary_def dest: sql_find_SomeD)
  qed
  have "map (\<lambda>h. (rh_node_id h, rh_score h)) (List.map_filter f ?ordered) =
      map (\<lambda>e. (fst e, of_nat (card (ca_matched (snd e))))) (filter (candidate_found db) ?ordered)"
  proof -
    have "f e \<noteq> None \<longleftrightarrow> candidate_found db e" if "e \<in> set ?ordered" for e
      using lookup [of "fst e" "snd e"] that by (auto simp: f_def split: prod.splits option.splits)
    then have "filter (\<lambda>e. f e \<noteq> None) ?ordered = filter (candidate_found db) ?ordered" by (rule filter_cong [OF refl])
    moreover have "(rh_node_id (the (f e)), rh_score (the (f e))) = (fst e, of_nat (card (ca_matched (snd e))))"
      if "e \<in> set ?ordered" "candidate_found db e" for e
      using lookup [of "fst e" "snd e"] that by (auto simp: f_def split: prod.splits option.splits)
    ultimately show ?thesis by (auto simp: List.map_filter_def)
  qed
  then show ?thesis by (simp add: hits query_response_new_def take_map [symmetric])
qed

lemma topic_hits_live:
  "topic_hit env summaries summary_embs trees chunks chunk_embs dropped eh = Some he \<Longrightarrow>
    (\<exists>n. summaries (hit_node_id eh) = Some n \<and> \<not> sn_deleted n) \<or>
    (\<exists>c. chunks (hit_node_id eh) = Some c \<and> ch_id c \<notin> dropped)"
  by (auto simp: topic_hit_def split: option.splits if_splits)

definition sample_query_env :: query_env where
  "sample_query_env = \<lparr>re_fmt = sample_fmt, re_embedding = sample_embedding_config, re_summary_body = (\<lambda>_. Inr []),
     re_chunk_body = (\<lambda>_. Inr []), qe_limits = retrieval_limits_default, qe_lower = id, qe_embedder = (\<lambda>_. Inr []),
     qe_cosine = (\<lambda>_ _. 0), qe_now = 0, qe_sub_days = (\<lambda>_ _. None)\<rparr>"

text \<open>One summary, deleted.\<close>

definition sample_tombstone_db :: chunk_db where
  "sample_tombstone_db = \<lparr>cd_tree = (sample_db [])\<lparr>db_summaries :=
       [\<lparr>sr_node = sample_node\<lparr>sn_deleted := True\<rparr>, sr_content_path = None, sr_content_sha256 = None\<rparr>]\<rparr>,
     cd_rows = [], cd_embeddings = [], cd_skipped = [], cd_gates = []\<rparr>"

theorem fast_resolves_every_candidate_witness:
  "map (\<lambda>h. (rh_node_id h, rh_score h)) (qr_hits (resolve_local sample_query_env
      [(''summary:1'', \<lparr>ca_node_kind = ''summary'', ca_matched = {''x'', ''y''}, ca_latest_ts = 3\<rparr>)] None 5 sample_tombstone_db)) =
    [(''summary:1'', 2)]"
proof -
  have found: "get_summary ''summary:1'' (cd_tree sample_tombstone_db) = Some (sample_node\<lparr>sn_deleted := True\<rparr>)"
    by (simp add: get_summary_def sql_find_def sample_tombstone_db_def sample_node_def)
  have ok: "summaries_ok (db_summaries (cd_tree sample_tombstone_db))" "Chunk_Store.chunks_ok (cd_rows sample_tombstone_db)"
    "0 < rl_fetch_batch_limit (qe_limits sample_query_env)"
    by (simp_all add: summaries_ok_def Chunk_Store.chunks_ok_def sample_tombstone_db_def sample_query_env_def
        retrieval_limits_default_def)
  note f = fast_resolves_every_candidate [OF ok(1,2) _ ok(3), of
      "[(''summary:1'', \<lparr>ca_node_kind = ''summary'', ca_matched = {''x'', ''y''}, ca_latest_ts = 3\<rparr>)]" 5]
  show ?thesis by (subst f) (simp_all add: candidate_found_def found)
qed

end
