(* ===== verification/Rank.thy ===== *)
theory Rank
  imports Query
begin

section \<open>Ranking and entity search (src/memory/retrieval: mmr.rs, scoring.rs, search.rs)\<close>

text \<open>
  Diverse selection of vectors, the hybrid score, and the free-text lookup of entities. The similarity
  of two vectors and the decay of a half-life are parameters; scores are numbers, NaN and rounding are
  not modelled.
\<close>

subsection \<open>Maximal marginal relevance (mmr.rs)\<close>

record mmr_candidate =
  mc_index :: nat
  mc_embedding :: "rat list"
  mc_relevance :: rat

record mmr_result =
  mr_index :: nat
  mr_score :: rat

definition max_sim :: "(rat list \<Rightarrow> rat list \<Rightarrow> rat) \<Rightarrow> rat list list \<Rightarrow> mmr_candidate \<Rightarrow> rat" where
  "max_sim sim selected c = fold (\<lambda>s m. max m (sim (mc_embedding c) s)) selected 0"

definition mmr_score :: "(rat list \<Rightarrow> rat list \<Rightarrow> rat) \<Rightarrow> rat \<Rightarrow> rat list list \<Rightarrow> mmr_candidate \<Rightarrow> rat" where
  "mmr_score sim lam selected c = lam * mc_relevance c - (1 - lam) * max_sim sim selected c"

text \<open>The inner loop over the candidates still available: the first of the best.\<close>

definition better :: "(nat \<Rightarrow> rat) \<Rightarrow> nat set \<Rightarrow> nat \<Rightarrow> nat option \<Rightarrow> nat option" where
  "better score available i best =
    (if i \<notin> available then best
     else case best of None \<Rightarrow> Some i | Some j \<Rightarrow> (if score i > score j then Some i else best))"

definition best_index :: "(nat \<Rightarrow> rat) \<Rightarrow> nat set \<Rightarrow> nat \<Rightarrow> nat option" where
  "best_index score available n = fold (better score available) [0..<n] None"

primrec mmr_loop :: "nat \<Rightarrow> (rat list \<Rightarrow> rat list \<Rightarrow> rat) \<Rightarrow> rat \<Rightarrow> mmr_candidate list \<Rightarrow> nat set \<Rightarrow> rat list list \<Rightarrow>
    mmr_result list" where
  "mmr_loop 0 sim lam cs available selected = []"
| "mmr_loop (Suc k) sim lam cs available selected =
    (case best_index (\<lambda>i. mmr_score sim lam selected (cs ! i)) available (length cs) of
       None \<Rightarrow> []
     | Some i \<Rightarrow> \<lparr>mr_index = mc_index (cs ! i), mr_score = mmr_score sim lam selected (cs ! i)\<rparr> #
         mmr_loop k sim lam cs (available - {i}) (selected @ [mc_embedding (cs ! i)]))"

definition mmr_select :: "(rat list \<Rightarrow> rat list \<Rightarrow> rat) \<Rightarrow> mmr_candidate list \<Rightarrow> nat \<Rightarrow> rat \<Rightarrow> mmr_result list" where
  "mmr_select sim cs limit lam =
    (if cs = [] \<or> limit = 0 then []
     else mmr_loop (min limit (length cs)) sim (max 0 (min 1 lam)) cs {0..<length cs} [])"

text \<open>A pick of the greedy selection: no candidate still available scores more, and of the equal ones it is
  the first.\<close>

definition first_best :: "(nat \<Rightarrow> rat) \<Rightarrow> nat set \<Rightarrow> nat \<Rightarrow> bool" where
  "first_best score available i \<longleftrightarrow>
    i \<in> available \<and> (\<forall>j\<in>available. score j < score i \<or> score j = score i \<and> i \<le> j)"

lemma first_best_Suc_iff:
  assumes "first_best score A i" "\<forall>j\<in>A. j < m"
  shows "first_best score (insert m A) i \<longleftrightarrow> score m \<le> score i"
    "score i < score m \<Longrightarrow> first_best score (insert m A) m"
  using assms unfolding first_best_def by (auto simp: order.strict_iff_order)

lemma best_index_step:
  "best_index score A (Suc n) = better score A n (best_index score A n)"
  by (simp add: best_index_def)

lemma best_index_spec:
  "case best_index score A n of None \<Rightarrow> A \<inter> {..<n} = {} | Some i \<Rightarrow> first_best score (A \<inter> {..<n}) i"
proof (induction n)
  case 0
  then show ?case by (simp add: best_index_def)
next
  case (Suc n)
  have cut: "A \<inter> {..<Suc n} = (if n \<in> A then insert n (A \<inter> {..<n}) else A \<inter> {..<n})"
    by (auto simp: lessThan_Suc)
  show ?case
  proof (cases "best_index score A n")
    case None
    with Suc show ?thesis by (auto simp: best_index_step better_def cut first_best_def)
  next
    case (Some i)
    with Suc have i: "first_best score (A \<inter> {..<n}) i" by simp
    have below: "\<forall>j\<in>A \<inter> {..<n}. j < n" by simp
    show ?thesis
      using i first_best_Suc_iff[OF i below] by (auto simp: best_index_step better_def cut Some not_less)
  qed
qed

lemma best_index_available:
  assumes "A \<subseteq> {..<n}" "A \<noteq> {}"
  obtains i where "best_index score A n = Some i" "first_best score A i" "i \<in> A"
proof -
  have A: "A \<inter> {..<n} = A" using assms(1) by auto
  show ?thesis
    using best_index_spec[of A n score] assms(2) that
    by (cases "best_index score A n") (auto simp: A first_best_def)
qed

text \<open>What the loop returns for the positions it picks, in the order it picks them.\<close>

fun mmr_results :: "(rat list \<Rightarrow> rat list \<Rightarrow> rat) \<Rightarrow> rat \<Rightarrow> mmr_candidate list \<Rightarrow> rat list list \<Rightarrow> nat list \<Rightarrow>
    mmr_result list" where
  "mmr_results sim lam cs selected [] = []"
| "mmr_results sim lam cs selected (p # ps) =
    \<lparr>mr_index = mc_index (cs ! p), mr_score = mmr_score sim lam selected (cs ! p)\<rparr> #
    mmr_results sim lam cs (selected @ [mc_embedding (cs ! p)]) ps"

fun greedy :: "(rat list \<Rightarrow> rat list \<Rightarrow> rat) \<Rightarrow> rat \<Rightarrow> mmr_candidate list \<Rightarrow> nat set \<Rightarrow> rat list list \<Rightarrow> nat list \<Rightarrow> bool" where
  "greedy sim lam cs available selected [] \<longleftrightarrow> True"
| "greedy sim lam cs available selected (p # ps) \<longleftrightarrow>
    first_best (\<lambda>i. mmr_score sim lam selected (cs ! i)) available p \<and>
    greedy sim lam cs (available - {p}) (selected @ [mc_embedding (cs ! p)]) ps"

lemma mmr_loop_greedy:
  assumes "A \<subseteq> {..<length cs}" "k \<le> card A"
  shows "\<exists>ps. mmr_loop k sim lam cs A sel = mmr_results sim lam cs sel ps \<and> length ps = k \<and> distinct ps \<and>
    set ps \<subseteq> A \<and> greedy sim lam cs A sel ps"
  using assms
proof (induction k arbitrary: A sel)
  case 0
  then show ?case by (intro exI[of _ "[]"]) simp
next
  case (Suc k)
  have fin: "finite A" using Suc.prems(1) finite_subset by blast
  have "A \<noteq> {}" using Suc.prems(2) by auto
  then obtain i where i: "best_index (\<lambda>i. mmr_score sim lam sel (cs ! i)) A (length cs) = Some i"
      "first_best (\<lambda>i. mmr_score sim lam sel (cs ! i)) A i" "i \<in> A"
    using best_index_available[OF Suc.prems(1)] by blast
  have "A - {i} \<subseteq> {..<length cs}" "k \<le> card (A - {i})" using Suc.prems i(3) fin by auto
  from Suc.IH[OF this, of "sel @ [mc_embedding (cs ! i)]"] obtain ps where ps:
      "mmr_loop k sim lam cs (A - {i}) (sel @ [mc_embedding (cs ! i)]) =
         mmr_results sim lam cs (sel @ [mc_embedding (cs ! i)]) ps" "length ps = k" "distinct ps"
      "set ps \<subseteq> A - {i}" "greedy sim lam cs (A - {i}) (sel @ [mc_embedding (cs ! i)]) ps"
    by blast
  then show ?case using i by (intro exI[of _ "i # ps"]) auto
qed

text \<open>
  Diverse selection is greedy and never repeats itself: it returns as many results as asked for, or all
  candidates if there are fewer, for pairwise different positions, and each pick has the highest
  marginal relevance of the candidates still available against the ones picked before it, the earliest
  position among equals. The balance is first clamped to the unit interval.
\<close>

theorem mmr_selection_is_greedy:
  "\<exists>ps. mmr_select sim cs limit lam = mmr_results sim (max 0 (min 1 lam)) cs [] ps \<and>
    length ps = min limit (length cs) \<and> distinct ps \<and> set ps \<subseteq> {0..<length cs} \<and>
    greedy sim (max 0 (min 1 lam)) cs {0..<length cs} [] ps"
proof (cases "cs = [] \<or> limit = 0")
  case True
  then show ?thesis by (intro exI[of _ "[]"]) (auto simp: mmr_select_def)
next
  case False
  then have "mmr_select sim cs limit lam =
      mmr_loop (min limit (length cs)) sim (max 0 (min 1 lam)) cs {0..<length cs} []"
    by (auto simp: mmr_select_def)
  then show ?thesis
    using mmr_loop_greedy[of "{0..<length cs}" cs "min limit (length cs)" sim "max 0 (min 1 lam)" "[]"]
    by (simp add: lessThan_atLeast0)
qed

subsection \<open>The hybrid score (scoring.rs)\<close>

record weight_profile =
  wp_graph :: rat
  wp_vector :: rat
  wp_keyword :: rat
  wp_freshness :: rat

record score_breakdown =
  sb_keyword_relevance :: rat
  sb_vector_similarity :: rat
  sb_graph_relevance :: rat
  sb_episodic_relevance :: rat
  sb_freshness :: rat
  sb_final_score :: rat

text \<open>\<^verbatim>\<open>alnum\<close> and \<^verbatim>\<open>lc\<close> are Unicode's letter test and lower-casing.\<close>

fun split_if :: "(nat \<Rightarrow> bool) \<Rightarrow> utext \<Rightarrow> utext list" where
  "split_if p [] = [[]]"
| "split_if p (c # cs) =
    (if p c then [] # split_if p cs else case split_if p cs of [] \<Rightarrow> [[c]] | w # ws \<Rightarrow> (c # w) # ws)"

definition tokenize :: "(nat \<Rightarrow> bool) \<Rightarrow> (utext \<Rightarrow> utext) \<Rightarrow> utext \<Rightarrow> utext list" where
  "tokenize alnum lc text = map lc (filter (\<lambda>t. t \<noteq> []) (split_if (\<lambda>c. \<not> alnum c) text))"

definition keyword_relevance :: "(nat \<Rightarrow> bool) \<Rightarrow> (utext \<Rightarrow> utext) \<Rightarrow> utext \<Rightarrow> utext \<Rightarrow> rat" where
  "keyword_relevance alnum lc query content =
    (let q = set (tokenize alnum lc query); c = set (tokenize alnum lc content) in
     if q = {} then 0 else if c = {} then 0 else of_nat (card {t \<in> q. t \<in> c}) / of_nat (card q))"

definition freshness :: "(rat \<Rightarrow> rat) \<Rightarrow> int \<Rightarrow> int \<Rightarrow> rat \<Rightarrow> rat" where
  "freshness half_pow updated_at_ms now_ms half_life_days =
    (if half_life_days \<le> 0 then 1
     else let age_days = of_int (now_ms - updated_at_ms) / 86400000 in
       if age_days \<le> 0 then 1 else half_pow (age_days / half_life_days))"

definition hybrid_score :: "weight_profile \<Rightarrow> rat \<Rightarrow> rat \<Rightarrow> rat \<Rightarrow> rat \<Rightarrow> score_breakdown" where
  "hybrid_score p graph_relevance vector_similarity keyword fresh =
    \<lparr>sb_keyword_relevance = keyword, sb_vector_similarity = vector_similarity, sb_graph_relevance = graph_relevance,
     sb_episodic_relevance = 0, sb_freshness = fresh,
     sb_final_score = wp_graph p * graph_relevance + wp_vector p * vector_similarity + wp_keyword p * keyword +
       wp_freshness p * fresh\<rparr>"

subsection \<open>Entity search (search.rs)\<close>

record entity_match =
  et_canonical_id :: string
  et_kind :: entity_kind
  et_surface :: string
  et_mention_count :: nat
  et_last_seen_ms :: int

definition replace_char :: "nat \<Rightarrow> utext \<Rightarrow> utext \<Rightarrow> utext" where
  "replace_char c r s = concat (map (\<lambda>x. if x = c then r else [x]) s)"

definition escape_like_literal :: "utext \<Rightarrow> utext" where
  "escape_like_literal q = replace_char 95 [92, 95] (replace_char 37 [92, 37] (replace_char 92 [92, 92] q))"

definition normalise_limit :: "retrieval_limits \<Rightarrow> nat \<Rightarrow> nat" where
  "normalise_limit l limit = (if limit = 0 then rl_search_default_limit l else min limit (rl_max_limit l))"

text \<open>SQLite's \<^verbatim>\<open>LOWER\<close> folds ASCII letters only.\<close>

definition sql_lower :: "string \<Rightarrow> utext" where
  "sql_lower s = map ascii_lower (utext_of s)"

definition search_row :: "utext \<Rightarrow> entity_kind list option \<Rightarrow> index_row \<Rightarrow> bool" where
  "search_row pattern kinds r \<longleftrightarrow>
    (like_match pattern (sql_lower (ix_entity_id r)) \<or> like_match pattern (sql_lower (ix_surface r))) \<and>
    (case kinds of None \<Rightarrow> True | Some ks \<Rightarrow> ks = [] \<or> ix_entity_kind r \<in> entity_kind_as_str ` set ks)"

definition row_to_match :: "index_row list \<Rightarrow> string \<times> string \<Rightarrow> entity_match result" where
  "row_to_match rows g =
    (let mine = filter (\<lambda>r. (ix_entity_id r, ix_entity_kind r) = g) rows in
     case entity_kind_parse (snd g) of
       Inl m \<Rightarrow> Inl (with_context ''search_entities: failed to collect rows'' (plain_error m))
     | Inr k \<Rightarrow> Inr \<lparr>et_canonical_id = fst g, et_kind = k, et_surface = Max (ix_surface ` set mine),
         et_mention_count = length mine, et_last_seen_ms = Max (ix_timestamp_ms ` set mine)\<rparr>)"

definition group_key :: "index_row list \<Rightarrow> string \<times> string \<Rightarrow> int \<times> int" where
  "group_key rows g =
    (let mine = filter (\<lambda>r. (ix_entity_id r, ix_entity_kind r) = g) rows
     in (- int (length mine), - Max (ix_timestamp_ms ` set mine)))"

definition search_entities :: "(utext \<Rightarrow> utext) \<Rightarrow> retrieval_limits \<Rightarrow> utext \<Rightarrow> entity_kind list option \<Rightarrow> nat \<Rightarrow> entity_index \<Rightarrow>
    entity_match list result" where
  "search_entities lc limits query kinds limit ix =
    (let query = trim query in
     if query = [] then Inr []
     else
       (let pattern = [37] @ escape_like_literal (lc query) @ [37];
            rows = filter (search_row pattern kinds) ix;
            groups = remdups (map (\<lambda>r. (ix_entity_id r, ix_entity_kind r)) rows)
        in collect_rows (row_to_match rows) (take (normalise_limit limits limit) (sort_key (group_key rows) groups))))"

text \<open>The escaping of the query is that of the chunk listing, so a row matches exactly when its id or its
  surface contains the query, wildcards and all, up to ASCII case.\<close>

lemma escape_like_literal_eq: "escape_like_literal q = concat (map escape_like q)"
  by (induction q) (auto simp: escape_like_literal_def replace_char_def escape_like_def)

definition contains_folded :: "utext \<Rightarrow> utext \<Rightarrow> bool" where
  "contains_folded q s \<longleftrightarrow> (\<exists>a m b. s = a @ m @ b \<and> map ascii_lower m = map ascii_lower q)"

lemma search_row_contains:
  "search_row ([37] @ escape_like_literal q @ [37]) kinds r \<longleftrightarrow>
    (contains_folded q (sql_lower (ix_entity_id r)) \<or> contains_folded q (sql_lower (ix_surface r))) \<and>
    (case kinds of None \<Rightarrow> True | Some ks \<Rightarrow> ks = [] \<or> ix_entity_kind r \<in> entity_kind_as_str ` set ks)"
  unfolding search_row_def escape_like_literal_eq contains_folded_def
  using like_contains_iff[of q] by (simp only: like_contains_pattern_def append_Cons append_Nil)

lemma collect_rows_length: "collect_rows f rs = Inr xs \<Longrightarrow> length xs = length rs"
  by (induction rs arbitrary: xs) (auto split: sum.splits)

lemma search_entities_bound:
  assumes "search_entities lc limits query kinds limit ix = Inr ms" "limit \<noteq> 0"
  shows "length ms \<le> min limit (rl_max_limit limits)"
  using assms
  by (auto simp: search_entities_def Let_def normalise_limit_def dest!: collect_rows_length split: if_splits)

end
