(* ===== verification/Chunker.thy ===== *)
theory Chunker
  imports Chunk_Store
begin

section \<open>Cutting text into chunks (src/memory/chunks: produce.rs, produce_split.rs, semantic.rs)\<close>

text \<open>
  The two chunkers. Token estimates, the truncation to an estimate and the chunk id are functions of
  an external crate and parameters here: \<^verbatim>\<open>tok\<close> and \<^verbatim>\<open>trunc\<close> are the conservative estimate and cut,
  \<^verbatim>\<open>approx\<close> the approximate count, \<^verbatim>\<open>cid\<close> the id. Text is a list of code points; the code cuts bytes,
  always at ASCII boundaries or where a code point begins. Estimates are naturals: sums stay below the
  32-bit bound because every sum is compared to the budget before it grows.
\<close>

subsection \<open>Cutting at separators (produce_split.rs)\<close>

fun separator_pieces :: "utext \<Rightarrow> utext \<Rightarrow> utext list" where
  "separator_pieces cur (a # b # cs) =
    (if a = 10 \<and> b = 10 then (cur @ [a, b]) # separator_pieces [] cs else separator_pieces (cur @ [a]) (b # cs))"
| "separator_pieces cur [a] = [cur @ [a]]"
| "separator_pieces cur [] = (if cur = [] then [] else [cur])"

definition sentence_end :: "nat \<Rightarrow> utext \<Rightarrow> bool" where
  "sentence_end c rest \<longleftrightarrow> c = 10 \<or> (c = 46 \<or> c = 33 \<or> c = 63) \<and> take 1 rest = [32]"

fun boundary_pieces :: "(nat \<Rightarrow> utext \<Rightarrow> bool) \<Rightarrow> utext \<Rightarrow> utext \<Rightarrow> utext list" where
  "boundary_pieces p cur (c # cs) =
    (if p c cs then (cur @ [c]) # boundary_pieces p [] cs else boundary_pieces p (cur @ [c]) cs)"
| "boundary_pieces p cur [] = (if cur = [] then [] else [cur])"

definition split_on_separator :: "utext \<Rightarrow> utext list" where
  "split_on_separator text = separator_pieces [] text"

definition split_on_sentences :: "utext \<Rightarrow> utext list" where
  "split_on_sentences text = boundary_pieces sentence_end [] text"

definition split_on_whitespace :: "utext \<Rightarrow> utext list" where
  "split_on_whitespace text = boundary_pieces (\<lambda>c _. c = 32) [] text"

text \<open>What the recursion needs of a splitter: its pieces tile the text and none is empty.\<close>

locale tiling =
  fixes pieces :: "utext \<Rightarrow> utext list"
  assumes concat_pieces: "concat (pieces text) = text"
    and pieces_nonempty: "p \<in> set (pieces text) \<Longrightarrow> p \<noteq> []"
begin

lemma piece_shorter:
  assumes "p \<in> set (pieces text)" and "length (pieces text) > 1"
  shows "length p < length text"
proof -
  obtain as bs where s: "pieces text = as @ p # bs" using assms(1) by (meson split_list)
  then have "as @ bs \<noteq> []" using assms(2) by auto
  then obtain q where "q \<in> set (as @ bs)" by (meson list.set_sel(1))
  then have "q \<noteq> []" "concat (as @ bs) \<noteq> []" using pieces_nonempty[of q "text"] s by auto
  have "length text = length p + length (concat (as @ bs))"
    using arg_cong[OF concat_pieces[of "text"], of length] by (simp add: s)
  then show ?thesis using \<open>concat (as @ bs) \<noteq> []\<close> by (simp del: concat_append)
qed

end

lemma separator_pieces_tile:
  "concat (separator_pieces cur cs) = cur @ cs" "p \<in> set (separator_pieces cur cs) \<Longrightarrow> p \<noteq> []"
  by (induction cur cs rule: separator_pieces.induct) (auto split: if_splits)

lemma boundary_pieces_tile:
  "concat (boundary_pieces f cur cs) = cur @ cs" "p \<in> set (boundary_pieces f cur cs) \<Longrightarrow> p \<noteq> []"
  by (induction f cur cs rule: boundary_pieces.induct) (auto split: if_splits)

interpretation separators: tiling split_on_separator
  by unfold_locales (simp_all add: split_on_separator_def separator_pieces_tile)

interpretation sentences: tiling split_on_sentences
  by unfold_locales (simp_all add: split_on_sentences_def boundary_pieces_tile)

interpretation wsp: tiling split_on_whitespace
  by unfold_locales (simp_all add: split_on_whitespace_def boundary_pieces_tile)

text \<open>The last resort: cut by estimate, a code point at least.\<close>

function hard_split :: "(utext \<Rightarrow> nat \<Rightarrow> utext) \<Rightarrow> nat \<Rightarrow> utext \<Rightarrow> utext list" where
  "hard_split trunc budget text =
    (if text = [] then []
     else
       (let piece = trunc text budget;
            n = (if piece = [] then 1 else length piece)
        in take n text # hard_split trunc budget (drop n text)))"
  by pat_completeness auto
termination by (relation "measure (\<lambda>(_, _, text). length text)") auto

declare hard_split.simps [simp del]

lemma concat_hard_split: "concat (hard_split trunc budget text) = text"
  by (induction trunc budget "text" rule: hard_split.induct) (simp add: hard_split.simps Let_def)

lemma hard_split_nonempty: "p \<in> set (hard_split trunc budget text) \<Longrightarrow> p \<noteq> []"
proof (induction trunc budget "text" rule: hard_split.induct)
  case (1 trunc budget "text")
  then show ?case
    by (subst (asm) hard_split.simps) (auto simp: Let_def split: if_splits)
qed

interpretation hard: tiling "hard_split trunc budget"
  by unfold_locales (simp_all add: concat_hard_split hard_split_nonempty)

text \<open>Each finer splitter is tried when the coarser one makes no progress.\<close>

function push_atomic_segments :: "(utext \<Rightarrow> nat) \<Rightarrow> (utext \<Rightarrow> nat \<Rightarrow> utext) \<Rightarrow> nat \<Rightarrow> utext \<Rightarrow> utext list" where
  "push_atomic_segments tok trunc budget text =
    (if text = [] then []
     else if tok text \<le> budget then [text]
     else if length (split_on_separator text) > 1
     then concat (map (push_atomic_segments tok trunc budget) (split_on_separator text))
     else if length (split_on_sentences text) > 1
     then concat (map (push_atomic_segments tok trunc budget) (split_on_sentences text))
     else if length (split_on_whitespace text) > 1
     then concat (map (push_atomic_segments tok trunc budget) (split_on_whitespace text))
     else hard_split trunc budget text)"
  by pat_completeness auto
termination
  by (relation "measure (\<lambda>(_, _, _, text). length text)")
    (auto dest: separators.piece_shorter sentences.piece_shorter wsp.piece_shorter)

declare push_atomic_segments.simps [simp del]

subsection \<open>Packing segments (produce_split.rs)\<close>

text \<open>Token counts are \<^verbatim>\<open>u32\<close>: the product wraps for budgets above a hundred million.\<close>

definition overlap_budget_of :: "nat \<Rightarrow> nat" where
  "overlap_budget_of budget = max (budget * 12 mod 2 ^ 32 div 100) 1"

definition overlap_cap_of :: "nat \<Rightarrow> nat" where
  "overlap_cap_of budget = max (budget * 40 mod 2 ^ 32 div 100) (overlap_budget_of budget)"

definition seg_budget_of :: "nat \<Rightarrow> nat" where "seg_budget_of budget = max (budget - overlap_cap_of budget) 1"

fun take_tail :: "(utext \<Rightarrow> nat) \<Rightarrow> nat \<Rightarrow> nat \<Rightarrow> nat \<Rightarrow> utext list \<Rightarrow> nat" where
  "take_tail tok overlap_budget overlap_cap acc [] = 0"
| "take_tail tok overlap_budget overlap_cap acc (s # ss) =
    (if acc + tok s > overlap_cap then 0
     else if acc + tok s \<ge> overlap_budget then 1
     else Suc (take_tail tok overlap_budget overlap_cap (acc + tok s) ss))"

definition tail_overlap :: "(utext \<Rightarrow> nat) \<Rightarrow> nat \<Rightarrow> nat \<Rightarrow> utext list \<Rightarrow> utext list" where
  "tail_overlap tok overlap_budget overlap_cap cur =
    (if length cur \<le> 1 then []
     else
       (let n = take_tail tok overlap_budget overlap_cap 0 (rev cur);
            n = (if n \<ge> length cur then length cur - 1 else n)
        in drop (length cur - n) cur))"

fun pack :: "(utext \<Rightarrow> nat) \<Rightarrow> nat \<Rightarrow> nat \<Rightarrow> nat \<Rightarrow> utext list \<Rightarrow> nat \<Rightarrow> utext list \<Rightarrow> utext list list" where
  "pack tok budget ob cap cur cur_tokens [] = (if cur = [] then [] else [cur])"
| "pack tok budget ob cap cur cur_tokens (seg # segs) =
    (if cur \<noteq> [] \<and> cur_tokens + tok seg > budget
     then (let overlap = tail_overlap tok ob cap cur
       in cur # pack tok budget ob cap (overlap @ [seg]) (sum_list (map tok overlap) + tok seg) segs)
     else pack tok budget ob cap (cur @ [seg]) (cur_tokens + tok seg) segs)"

definition split_by_token_budget :: "(utext \<Rightarrow> nat) \<Rightarrow> (utext \<Rightarrow> nat \<Rightarrow> utext) \<Rightarrow> utext \<Rightarrow> nat \<Rightarrow> utext list" where
  "split_by_token_budget tok trunc text max_tokens =
    (let budget = max max_tokens 1 in
     if text = [] then [[]]
     else if tok text \<le> budget then [text]
     else
       (let segments = push_atomic_segments tok trunc (seg_budget_of budget) text in
        if length segments \<le> 1 then [text]
        else
          (let chunks = map concat
             (pack tok budget (overlap_budget_of budget) (overlap_cap_of budget) [] 0 segments)
           in if chunks = [] then [[]] else chunks)))"

subsection \<open>Units of a source (produce.rs)\<close>

definition trim_end :: "utext \<Rightarrow> utext" where
  "trim_end s = rev (dropWhile is_white (rev s))"

fun split_inclusive :: "utext \<Rightarrow> utext list" where
  "split_inclusive [] = []"
| "split_inclusive (c # cs) =
    (if c = 10 then [c] # split_inclusive cs
     else case split_inclusive cs of [] \<Rightarrow> [[c]] | l # ls \<Rightarrow> (c # l) # ls)"

definition message_start :: "utext \<Rightarrow> bool" where
  "message_start line \<longleftrightarrow> take 3 line = [35, 35, 32]"

definition push_unit :: "utext option \<Rightarrow> utext list \<Rightarrow> utext list" where
  "push_unit current pieces =
    (case current of
       None \<Rightarrow> pieces
     | Some prev \<Rightarrow> (let trimmed = trim_end prev in if trimmed \<noteq> [] then pieces @ [trimmed] else pieces))"

definition chat_line :: "utext \<Rightarrow> utext list \<times> utext option \<Rightarrow> utext list \<times> utext option" where
  "chat_line line st =
    (case st of (pieces, current) \<Rightarrow>
      (if message_start line then (push_unit current pieces, Some line)
       else (pieces, map_option (\<lambda>buf. buf @ line) current)))"

definition split_chat_messages :: "utext \<Rightarrow> utext list" where
  "split_chat_messages md =
    (case fold chat_line (split_inclusive md) ([], None) of (pieces, current) \<Rightarrow>
      (let pieces = push_unit current pieces in
       if pieces = [] \<and> trim md \<noteq> [] then [trim_end md] else pieces))"

text \<open>Does one of the next eight lines start with \<^verbatim>\<open>From:\<close>, with blank lines only before it?\<close>

fun from_follows :: "utext list \<Rightarrow> bool" where
  "from_follows [] = False"
| "from_follows (l # ls) =
    (if take 5 l = utext_of ''From:'' then True else if trim l \<noteq> [] then False else from_follows ls)"

definition email_starts :: "utext list \<Rightarrow> nat list" where
  "email_starts ls =
    filter (\<lambda>i. trim_end (ls ! i) = [45, 45, 45] \<and> from_follows (take 8 (drop (i + 1) ls))) [0..<length ls]"

definition email_piece :: "utext list \<Rightarrow> nat \<times> nat \<Rightarrow> utext" where
  "email_piece ls se = (case se of (start, stop) \<Rightarrow> trim_end (join [10] (take (stop - start) (drop start ls))))"

definition split_email_messages :: "utext \<Rightarrow> utext list" where
  "split_email_messages md =
    (let ls = split_at 10 md; starts = email_starts ls in
     if starts = [] then (let trimmed = trim_end md in if trimmed = [] then [] else [trimmed])
     else filter (\<lambda>p. p \<noteq> []) (map (email_piece ls) (zip starts (tl starts @ [length ls]))))"

subsection \<open>The ingest chunker (produce.rs)\<close>

definition DEFAULT_CHUNK_MAX_TOKENS :: nat where "DEFAULT_CHUNK_MAX_TOKENS = 3000"

record source_metadata =
  mt_source_kind :: source_kind
  mt_source_id :: string
  mt_owner :: string
  mt_timestamp :: int
  mt_time_range :: "int \<times> int"
  mt_tags :: "string list"
  mt_source_ref :: "string option"
  mt_path_scope :: "string option"

record chunker_input =
  ci_source_kind :: source_kind
  ci_source_id :: string
  ci_markdown :: utext
  ci_metadata :: source_metadata

record produced_chunk = chunk +
  pc_partial_message :: bool

record chunk_env =
  ce_tok :: "utext \<Rightarrow> nat"
  ce_trunc :: "utext \<Rightarrow> nat \<Rightarrow> utext"
  ce_approx :: "utext \<Rightarrow> nat"
  ce_cid :: "source_kind \<Rightarrow> string \<Rightarrow> nat \<Rightarrow> utext \<Rightarrow> string"
  ce_now :: int

definition produced :: "chunk_env \<Rightarrow> chunker_input \<Rightarrow> nat \<Rightarrow> utext \<Rightarrow> nat \<Rightarrow> bool \<Rightarrow> produced_chunk" where
  "produced env input part content seq partial =
    (let m = ci_metadata input in
     \<lparr>ch_id = ce_cid env (ci_source_kind input) (ci_source_id input) part content, ch_content = content,
      ch_source_kind = mt_source_kind m, ch_source_id = mt_source_id m, ch_owner = mt_owner m,
      ch_timestamp = mt_timestamp m, ch_time_range = mt_time_range m, ch_tags = mt_tags m,
      ch_source_ref = mt_source_ref m, ch_path_scope = mt_path_scope m, ch_token_count = ce_approx env content,
      ch_seq_in_source = seq, ch_created_at = ce_now env, pc_partial_message = partial\<rparr>)"

definition unit_chunks :: "chunk_env \<Rightarrow> chunker_input \<Rightarrow> nat \<Rightarrow> utext \<Rightarrow> produced_chunk list \<Rightarrow> produced_chunk list" where
  "unit_chunks env input max_tokens unit out =
    (if length unit > max_tokens * 4
     then out @ map (\<lambda>(part, piece). produced env input part piece (length out + part) True)
       (enumerate 0 (split_by_token_budget (ce_tok env) (ce_trunc env) unit max_tokens))
     else out @ [produced env input 0 unit (length out) False])"

definition chunk_markdown :: "chunk_env \<Rightarrow> chunker_input \<Rightarrow> nat \<Rightarrow> produced_chunk list" where
  "chunk_markdown env input opt_max_tokens =
    (let max_tokens = max opt_max_tokens 1 in
     case ci_source_kind input of
       Kind_Document \<Rightarrow> map (\<lambda>(i, content). produced env input i content i False)
         (enumerate 0 (split_by_token_budget (ce_tok env) (ce_trunc env) (ci_markdown input) max_tokens))
     | kind \<Rightarrow>
        (let units = (if kind = Kind_Chat then split_chat_messages (ci_markdown input)
               else split_email_messages (ci_markdown input));
             out = fold (unit_chunks env input max_tokens) units []
         in if out = []
            then [(produced env input 0 [] 0 False)\<lparr>ch_token_count := 0\<rparr>]
            else out))"

subsection \<open>The pieces tile the text\<close>

lemma concat_tiles: "(\<And>p. p \<in> set ps \<Longrightarrow> concat (f p) = p) \<Longrightarrow> concat (concat (map f ps)) = concat ps"
  by (induction ps) auto

lemma concat_atomic: "concat (push_atomic_segments tok trunc budget text) = text"
proof (induction tok trunc budget "text" rule: push_atomic_segments.induct)
  case (1 tok trunc budget "text")
  note IH = "1.IH"
  show ?case
    by (subst push_atomic_segments.simps)
      (auto simp: concat_hard_split IH concat_tiles[OF IH(1)] concat_tiles[OF IH(2)] concat_tiles[OF IH(3)]
        separators.concat_pieces sentences.concat_pieces wsp.concat_pieces)
qed

lemma atomic_nonempty: "p \<in> set (push_atomic_segments tok trunc budget text) \<Longrightarrow> p \<noteq> []"
proof (induction tok trunc budget "text" rule: push_atomic_segments.induct)
  case (1 tok trunc budget "text")
  show ?case
    using "1.prems" "1.IH" by (subst (asm) push_atomic_segments.simps) (auto dest: hard_split_nonempty split: if_splits)
qed

text \<open>A chunk is what it repeats of the chunk before and what it adds.\<close>

fun linked :: "('a list \<times> 'a list) list \<Rightarrow> bool" where
  "linked (x # y # ps) \<longleftrightarrow> (\<exists>a. a \<noteq> [] \<and> fst x @ snd x = a @ fst y) \<and> linked (y # ps)"
| "linked ps \<longleftrightarrow> True"

lemma tail_overlap_suffix:
  assumes "cur \<noteq> []"
  shows "\<exists>a. a \<noteq> [] \<and> cur = a @ tail_overlap tok ob cap cur"
proof (cases "length cur \<le> 1")
  case True
  then show ?thesis using assms by (simp add: tail_overlap_def)
next
  case False
  define n where "n = take_tail tok ob cap 0 (rev cur)"
  define k where "k = length cur - (if n \<ge> length cur then length cur - 1 else n)"
  have "tail_overlap tok ob cap cur = drop k cur" using False by (simp add: tail_overlap_def n_def k_def Let_def)
  moreover have "0 < k" using assms by (auto simp: k_def)
  ultimately
  have "cur = take k cur @ tail_overlap tok ob cap cur" "take k cur \<noteq> []" using assms by simp_all
  then show ?thesis by blast
qed

lemma pack_tiles:
  assumes "f \<noteq> []"
  shows "\<exists>g ps. pack tok budget ob cap (p @ f) n segs = map (\<lambda>(x, y). x @ y) ((p, f @ g) # ps) \<and>
    f @ segs = concat (map snd ((p, f @ g) # ps)) \<and> (\<forall>x\<in>set ps. snd x \<noteq> []) \<and> linked ((p, f @ g) # ps)"
  using assms
proof (induction segs arbitrary: p f n)
  case Nil
  then show ?case by (intro exI[of _ "[]"]) simp
next
  case (Cons seg segs)
  show ?case
  proof (cases "n + tok seg > budget")
    case True
    let ?o = "tail_overlap tok ob cap (p @ f)"
    obtain a where a: "a \<noteq> []" "p @ f = a @ ?o" using tail_overlap_suffix[of "p @ f"] Cons.prems by blast
    from Cons.IH[of "[seg]" ?o "sum_list (map tok ?o) + tok seg"] obtain g ps where ps:
      "pack tok budget ob cap (?o @ [seg]) (sum_list (map tok ?o) + tok seg) segs = map (\<lambda>(x, y). x @ y) ((?o, [seg] @ g) # ps)"
      "[seg] @ segs = concat (map snd ((?o, [seg] @ g) # ps))" "\<forall>x\<in>set ps. snd x \<noteq> []" "linked ((?o, [seg] @ g) # ps)"
      by blast
    show ?thesis
      using True Cons.prems ps a by (intro exI[of _ "[]"] exI[of _ "(?o, [seg] @ g) # ps"]) (auto simp: Let_def)
  next
    case False
    from Cons.IH[of "f @ [seg]" p "n + tok seg"] obtain g ps where ps:
      "pack tok budget ob cap (p @ f @ [seg]) (n + tok seg) segs = map (\<lambda>(x, y). x @ y) ((p, (f @ [seg]) @ g) # ps)"
      "(f @ [seg]) @ segs = concat (map snd ((p, (f @ [seg]) @ g) # ps))" "\<forall>x\<in>set ps. snd x \<noteq> []"
      "linked ((p, (f @ [seg]) @ g) # ps)"
      by auto
    then show ?thesis using False Cons.prems by (intro exI[of _ "seg # g"] exI[of _ ps]) auto
  qed
qed

lemma linked_concat:
  assumes "linked ps" and "\<forall>x\<in>set ps. \<forall>s\<in>set (fst x @ snd x). s \<noteq> []"
  shows "linked (map (\<lambda>(x, y). (concat x, concat y)) ps)"
  using assms
proof (induction ps rule: linked.induct)
  case (1 x y ps)
  obtain a where a: "a \<noteq> []" "fst x @ snd x = a @ fst y" using "1.prems"(1) by auto
  have "set a \<subseteq> set (fst x @ snd x)" unfolding a(2) by simp
  then have "\<forall>s\<in>set a. s \<noteq> []" using "1.prems"(2) by (meson list.set_intros(1) subsetD)
  then have "concat a \<noteq> []" using a(1) by (cases a) simp_all
  moreover have "concat (fst x) @ concat (snd x) = concat a @ concat (fst y)"
    using a(2) by (metis concat_append)
  moreover have "linked (map (\<lambda>(x, y). (concat x, concat y)) (y # ps))" using "1.IH" "1.prems" by simp
  ultimately show ?case by (auto simp: case_prod_unfold)
qed auto

lemma linked_nth: "linked ps \<Longrightarrow> Suc i < length ps \<Longrightarrow> \<exists>a. a \<noteq> [] \<and> fst (ps ! i) @ snd (ps ! i) = a @ fst (ps ! Suc i)"
proof (induction ps arbitrary: i rule: linked.induct)
  case (1 x y ps)
  then show ?case by (cases i) auto
qed auto

lemma linked_segs:
  assumes "linked ps" and "\<forall>x\<in>set ps. \<forall>s\<in>set (snd x). P s" and "ps \<noteq> [] \<longrightarrow> (\<forall>s\<in>set (fst (hd ps)). P s)"
  shows "\<forall>x\<in>set ps. \<forall>s\<in>set (fst x @ snd x). P s"
  using assms
proof (induction ps rule: linked.induct)
  case (1 x y ps)
  from "1.prems"(1) obtain a where a: "fst x @ snd x = a @ fst y" and l: "linked (y # ps)"
    by (simp only: linked.simps) blast
  have x: "\<forall>s\<in>set (fst x @ snd x). P s" using "1.prems"(2,3) by (simp add: ball_Un)
  have "\<forall>s\<in>set (fst y). P s" using x unfolding a by (simp add: ball_Un)
  then have "\<forall>z\<in>set (y # ps). \<forall>s\<in>set (fst z @ snd z). P s" using "1.prems"(2) by (intro "1.IH" l) simp_all
  with x show ?case by (simp only: set_simps ball_simps(7) simp_thms)
qed auto

lemma concat_snds: "concat (map snd (map (\<lambda>(x, y). (concat x, concat y)) ps)) = concat (concat (map snd ps))"
  by (induction ps) auto

text \<open>
  C22: the pieces of a text tile it: each is a part repeated from the end of the piece before, never all
  of it, followed by a part that is new, and the new parts in order are the text, nothing lost,
  nothing added. Only an empty text has an empty piece.
\<close>
theorem split_tiles_text:
  "\<exists>ps. split_by_token_budget tok trunc text max_tokens = map (\<lambda>(x, y). x @ y) ps \<and> concat (map snd ps) = text \<and>
    fst (hd ps) = [] \<and> (text = [] \<or> (\<forall>x\<in>set ps. snd x \<noteq> [])) \<and>
    (\<forall>i. Suc i < length ps \<longrightarrow> (\<exists>a. a \<noteq> [] \<and> fst (ps ! i) @ snd (ps ! i) = a @ fst (ps ! Suc i)))"
proof -
  let ?b = "max max_tokens 1"
  define segs where "segs = push_atomic_segments tok trunc (seg_budget_of ?b) text"
  have tile: "concat segs = text" "\<forall>s\<in>set segs. s \<noteq> []"
    by (auto simp: segs_def concat_atomic dest: atomic_nonempty)
  show ?thesis
  proof (cases "text = [] \<or> tok text \<le> ?b \<or> length segs \<le> 1")
    case True
    then have "split_by_token_budget tok trunc text max_tokens = [text]"
      by (auto simp: split_by_token_budget_def Let_def segs_def)
    then show ?thesis by (intro exI[of _ "[([], text)]"]) auto
  next
    case False
    then obtain s ss where s: "segs = s # ss" "ss \<noteq> []" by (cases segs) auto
    from pack_tiles[of "[s]" tok ?b "overlap_budget_of ?b" "overlap_cap_of ?b" "[]" "tok s" ss] obtain g ps where ps:
      "pack tok ?b (overlap_budget_of ?b) (overlap_cap_of ?b) [s] (tok s) ss = map (\<lambda>(x, y). x @ y) (([], s # g) # ps)"
      "segs = concat (map snd (([], s # g) # ps))" "\<forall>x\<in>set ps. snd x \<noteq> []" "linked (([], s # g) # ps)"
      by (auto simp: s)
    let ?ps = "([], s # g) # ps"
    let ?qs = "map (\<lambda>(x, y). (concat x, concat y)) ?ps"
    have in_segs: "\<forall>x\<in>set ?ps. \<forall>s\<in>set (snd x). s \<noteq> []" using tile(2) unfolding ps(2) by auto
    have all: "\<forall>x\<in>set ?ps. \<forall>s\<in>set (fst x @ snd x). s \<noteq> []" by (rule linked_segs[OF ps(4) in_segs]) simp
    have "split_by_token_budget tok trunc text max_tokens = map (\<lambda>(x, y). x @ y) ?qs"
    proof -
      have "pack tok ?b (overlap_budget_of ?b) (overlap_cap_of ?b) [] 0 segs = map (\<lambda>(x, y). x @ y) ?ps"
        using ps(1) by (simp add: s)
      moreover have "map concat (map (\<lambda>(x, y). x @ y) ?ps) = map (\<lambda>(x, y). x @ y) ?qs"
        by (simp add: case_prod_unfold)
      ultimately show ?thesis
        using False unfolding split_by_token_budget_def Let_def segs_def [symmetric] by (simp del: map_map)
    qed
    moreover have "concat (map snd ?qs) = text"
      using ps(2) tile(1) concat_snds[of ?ps] by simp
    moreover have "\<forall>x\<in>set ?qs. snd x \<noteq> []"
    proof
      fix x assume "x \<in> set ?qs"
      then obtain y where y: "y \<in> set ?ps" "x = (concat (fst y), concat (snd y))"
        by (auto simp only: set_map image_iff case_prod_unfold)
      have "snd y \<noteq> []" using ps(3) y(1) by auto
      moreover have "\<forall>s\<in>set (snd y). s \<noteq> []" using in_segs y(1) by blast
      ultimately show "snd x \<noteq> []" using y(2) by (cases "snd y") auto
    qed
    moreover have "\<forall>i. Suc i < length ?qs \<longrightarrow> (\<exists>a. a \<noteq> [] \<and> fst (?qs ! i) @ snd (?qs ! i) = a @ fst (?qs ! Suc i))"
      using linked_nth[OF linked_concat[OF ps(4) all]] by blast
    ultimately show ?thesis by (intro exI[of _ ?qs] conjI disjI2) simp_all
  qed
qed

subsection \<open>The pieces keep to the budget\<close>

text \<open>What the external estimate promises: a cut is a prefix within the budget, and no text costs more than
  its parts.\<close>

definition estimate_ok :: "(utext \<Rightarrow> nat) \<Rightarrow> (utext \<Rightarrow> nat \<Rightarrow> utext) \<Rightarrow> bool" where
  "estimate_ok tok trunc \<longleftrightarrow>
    (\<forall>t b. tok (trunc t b) \<le> b \<and> (\<exists>r. t = trunc t b @ r)) \<and> tok [] = 0 \<and> (\<forall>a b. tok (a @ b) \<le> tok a + tok b)"

lemma hard_split_bound:
  assumes "estimate_ok tok trunc" and "\<forall>c. tok [c] \<le> budget" and "p \<in> set (hard_split trunc budget text)"
  shows "tok p \<le> budget"
  using assms
proof (induction trunc budget "text" rule: hard_split.induct)
  case (1 trunc budget "text")
  have first: "tok (take (if trunc text budget = [] then 1 else length (trunc text budget)) text) \<le> budget" if "text \<noteq> []"
  proof (cases "trunc text budget = []")
    case True
    with that show ?thesis using "1.prems"(2) by (cases "text") simp_all
  next
    case False
    from "1.prems"(1) obtain r where r: "text = trunc text budget @ r" "tok (trunc text budget) \<le> budget"
      unfolding estimate_ok_def by blast
    have "take (length (trunc text budget)) text = trunc text budget"
      using arg_cong[OF r(1), of "take (length (trunc text budget))"] by simp
    then show ?thesis using False r(2) by simp
  qed
  show ?case
    using "1.prems"(3) "1.IH"[OF _ refl refl "1.prems"(1,2)] first
    by (subst (asm) hard_split.simps) (auto simp: Let_def split: if_splits)
qed

lemma atomic_bound:
  assumes "estimate_ok tok trunc" and "\<forall>c. tok [c] \<le> budget" and "p \<in> set (push_atomic_segments tok trunc budget text)"
  shows "tok p \<le> budget"
  using assms
proof (induction tok trunc budget "text" rule: push_atomic_segments.induct)
  case (1 tok trunc budget "text")
  show ?case
    using "1.prems"(3) "1.IH"(1)[OF _ _ _ _ "1.prems"(1,2)] "1.IH"(2)[OF _ _ _ _ _ "1.prems"(1,2)]
      "1.IH"(3)[OF _ _ _ _ _ _ "1.prems"(1,2)] hard_split_bound[OF "1.prems"(1,2)]
    by (subst (asm) push_atomic_segments.simps) (auto split: if_splits)
qed

lemma take_tail_bound:
  "acc \<le> cap \<Longrightarrow> acc + sum_list (map tok (take (take_tail tok ob cap acc ss) ss)) \<le> cap"
  by (induction tok ob cap acc ss rule: take_tail.induct) (auto simp: add.assoc)

lemma sum_take_le: "sum_list (take k xs) \<le> sum_list (take n xs)" if "k \<le> n" for xs :: "nat list"
  using that by (metis le_add1 min.absorb1 append_take_drop_id sum_list_append take_take)

lemma tail_overlap_bound: "sum_list (map tok (tail_overlap tok ob cap cur)) \<le> cap"
proof (cases "length cur \<le> 1")
  case False
  define n where "n = take_tail tok ob cap 0 (rev cur)"
  define k where "k = (if n \<ge> length cur then length cur - 1 else n)"
  have "tail_overlap tok ob cap cur = drop (length cur - k) cur"
    using False by (simp add: tail_overlap_def n_def k_def Let_def)
  also have "\<dots> = rev (take k (rev cur))" by (simp add: take_rev)
  finally have "sum_list (map tok (tail_overlap tok ob cap cur)) = sum_list (take k (map tok (rev cur)))"
    by (metis rev_map sum_list_rev take_map)
  also have "\<dots> \<le> sum_list (take n (map tok (rev cur)))" by (rule sum_take_le) (auto simp: k_def)
  also have "\<dots> \<le> cap" using take_tail_bound[of 0 cap tok ob "rev cur"] by (simp add: n_def take_map)
  finally show ?thesis .
qed (simp add: tail_overlap_def)

lemma pack_bound:
  assumes "\<forall>s\<in>set segs. tok s + cap \<le> budget" and "n = sum_list (map tok cur)" and "n \<le> budget"
    and "c \<in> set (pack tok budget ob cap cur n segs)"
  shows "sum_list (map tok c) \<le> budget"
  using assms
proof (induction segs arbitrary: cur n)
  case (Cons seg segs)
  show ?case
  proof (cases "cur \<noteq> [] \<and> n + tok seg > budget")
    case True
    let ?o = "tail_overlap tok ob cap cur"
    have "sum_list (map tok ?o) + tok seg \<le> budget"
      using tail_overlap_bound[of tok ob cap cur] Cons.prems(1) by (simp add: add_mono le_trans add.commute)
    then show ?thesis
      using Cons.IH[of "sum_list (map tok ?o) + tok seg" "?o @ [seg]"] Cons.prems True by (auto simp: Let_def)
  next
    case False
    have "n + tok seg \<le> budget"
      using False Cons.prems by (cases cur) (auto simp: not_less intro: le_trans[OF le_add1])
    then show ?thesis using Cons.IH[of "n + tok seg" "cur @ [seg]"] Cons.prems False by auto
  qed
qed (auto split: if_splits)

lemma tok_concat: "estimate_ok tok trunc \<Longrightarrow> tok (concat ss) \<le> sum_list (map tok ss)"
proof (induction ss)
  case (Cons s ss)
  have "tok (s @ concat ss) \<le> tok s + tok (concat ss)" using Cons.prems unfolding estimate_ok_def by blast
  then show ?case using Cons by simp
qed (simp add: estimate_ok_def)

text \<open>
  C23: no piece costs more than the budget, repeated part included, when the budget is at least two and no
  single code point costs more than a segment may: the repeated part is capped by what the budget
  leaves over a segment.
\<close>
theorem split_keeps_budget:
  assumes "estimate_ok tok trunc" and "2 \<le> max_tokens" and "\<forall>c. tok [c] \<le> seg_budget_of max_tokens"
    and "piece \<in> set (split_by_token_budget tok trunc text max_tokens)"
  shows "tok piece \<le> max_tokens"
proof -
  define segs where "segs = push_atomic_segments tok trunc (seg_budget_of max_tokens) text"
  have wrap: "max_tokens * k mod 2 ^ 32 div 100 \<le> max_tokens * k div 100" for k by (simp add: div_le_mono)
  have "seg_budget_of max_tokens + overlap_cap_of max_tokens \<le> max_tokens"
    if "a \<le> max_tokens * 12 div 100" "b \<le> max_tokens * 40 div 100" "overlap_budget_of max_tokens = max a 1"
      "overlap_cap_of max_tokens = max b (overlap_budget_of max_tokens)" for a b
    using assms(2) that unfolding seg_budget_of_def by linarith
  then have cap: "seg_budget_of max_tokens + overlap_cap_of max_tokens \<le> max_tokens"
    using wrap [of 12] wrap [of 40] unfolding overlap_cap_of_def overlap_budget_of_def by blast
  have bound: "tok s \<le> seg_budget_of max_tokens" if "s \<in> set segs" for s
    using atomic_bound[OF assms(1,3)] that unfolding segs_def .
  have seg: "\<forall>s\<in>set segs. tok s + overlap_cap_of max_tokens \<le> max_tokens" using bound cap by fastforce
  have one: "tok text \<le> max_tokens" if "length segs \<le> 1" "text \<noteq> []"
  proof -
    have "concat segs = text" by (simp add: segs_def concat_atomic)
    then have "segs = [text]" using that by (cases segs) auto
    then show ?thesis using bound[of "text"] cap by simp
  qed
  have empty: "tok [] = 0" using assms(1) by (simp add: estimate_ok_def)
  have b: "max max_tokens 1 = max_tokens" using assms(2) by simp
  show ?thesis
    using assms(4) one seg empty unfolding split_by_token_budget_def Let_def b segs_def [symmetric]
    by (auto split: if_splits intro!: le_trans[OF tok_concat[OF assms(1)]] pack_bound[where cur = "[]" and n = 0])
qed

theorem split_keeps_budget_witness:
  "length (hd (split_by_token_budget length (\<lambda>t b. take b t) (replicate 9 97) 5)) \<le> 5"
proof (rule split_keeps_budget[of length "\<lambda>t b. take b t" 5 _ "replicate 9 97"])
  show "estimate_ok length (\<lambda>t b. take b t)" by (auto simp: estimate_ok_def intro: append_take_drop_id[symmetric])
  show "\<forall>c::nat. length [c] \<le> seg_budget_of 5" by (simp add: seg_budget_of_def)
  show "hd (split_by_token_budget length (\<lambda>t b. take b t) (replicate 9 97) 5)
      \<in> set (split_by_token_budget length (\<lambda>t b. take b t) (replicate 9 97) 5)"
    by (rule hd_in_set) (simp add: split_by_token_budget_def Let_def)
qed simp

theorem split_tiles_text_witness:
  "\<exists>ps. split_by_token_budget length (\<lambda>t b. take b t) (replicate 9 97) 5 = map (\<lambda>(x, y). x @ y) ps \<and>
    concat (map snd ps) = replicate 9 97"
  using split_tiles_text[of length "\<lambda>t b. take b t" "replicate 9 97" 5] by blast

subsection \<open>Chat chunks do not depend on the batch\<close>

lemma split_inclusive_append:
  "md1 = [] \<or> last md1 = 10 \<Longrightarrow> split_inclusive (md1 @ md2) = split_inclusive md1 @ split_inclusive md2"
proof (induction md1)
  case (Cons c cs)
  show ?case
  proof (cases "cs = []")
    case True
    then show ?thesis using Cons.prems by simp
  next
    case False
    then have "split_inclusive (cs @ md2) = split_inclusive cs @ split_inclusive md2" using Cons by simp
    moreover have "split_inclusive cs \<noteq> []" using False by (cases cs) (auto split: list.splits)
    ultimately show ?thesis by (auto split: list.splits)
  qed
qed simp

lemma push_unit_append: "push_unit c (p @ q) = p @ push_unit c q"
  by (simp add: push_unit_def Let_def split: option.splits)

lemma fold_chat_append:
  "fold chat_line ls (p @ q, c) = (p @ fst (fold chat_line ls (q, c)), snd (fold chat_line ls (q, c)))"
proof (induction ls arbitrary: q c)
  case (Cons l ls)
  have "chat_line l (p @ q, c) = (p @ fst (chat_line l (q, c)), snd (chat_line l (q, c)))"
    by (simp add: chat_line_def push_unit_append)
  then show ?case using Cons.IH[of "fst (chat_line l (q, c))" "snd (chat_line l (q, c))"] by simp
qed simp

lemma message_start_iff: "message_start md \<longleftrightarrow> (\<exists>r. md = 35 # 35 # 32 # r)"
proof
  assume "message_start md"
  then have "md = [35, 35, 32] @ drop 3 md" unfolding message_start_def by (metis append_take_drop_id)
  then show "\<exists>r. md = 35 # 35 # 32 # r" by (intro exI[of _ "drop 3 md"]) simp
qed (auto simp: message_start_def)

lemma fold_chat_current:
  assumes "c \<noteq> []" and "hd c = 35"
  shows "\<exists>d. snd (fold chat_line ls (p, Some c)) = Some d \<and> d \<noteq> [] \<and> hd d = 35"
  using assms
proof (induction ls arbitrary: p c)
  case (Cons l ls)
  have "message_start l \<Longrightarrow> l \<noteq> [] \<and> hd l = 35" by (cases l) (auto simp: message_start_def)
  then show ?case using Cons.IH[of l] Cons.IH[of "c @ l"] Cons.prems by (auto simp: chat_line_def)
qed simp

lemma trim_end_hash: "c \<noteq> [] \<Longrightarrow> hd c = 35 \<Longrightarrow> trim_end c \<noteq> []"
  by (cases c) (auto simp: trim_end_def is_white_def dropWhile_eq_Nil_conv)

lemma message_first:
  assumes "message_start md"
  obtains l ls where "split_inclusive md = l # ls" "message_start l" "l \<noteq> []" "hd l = 35"
proof -
  from assms obtain r where "md = 35 # 35 # 32 # r" by (auto simp: message_start_iff)
  then have "split_inclusive md = (case split_inclusive r of [] \<Rightarrow> [[35, 35, 32]] | l # ls \<Rightarrow> (35 # 35 # 32 # l) # ls)"
    by (simp split: list.splits)
  then show thesis
    by (cases "split_inclusive r") (simp_all add: that[of "[35, 35, 32]" "[]"] that[of "35 # 35 # 32 # _"] message_start_iff)
qed

lemma split_chat_messages_message:
  assumes "message_start md"
  shows "split_chat_messages md =
    (case fold chat_line (split_inclusive md) ([], None) of (pieces, current) \<Rightarrow> push_unit current pieces)"
    "split_chat_messages md \<noteq> []"
    "\<exists>d. snd (fold chat_line (split_inclusive md) ([], None)) = Some d \<and> d \<noteq> [] \<and> hd d = 35"
proof -
  obtain l ls where l: "split_inclusive md = l # ls" "message_start l" "l \<noteq> []" "hd l = 35"
    by (rule message_first[OF assms])
  have fold: "fold chat_line (split_inclusive md) ([], None) = fold chat_line ls ([], Some l)"
    using l by (simp add: chat_line_def push_unit_def)
  show cur: "\<exists>d. snd (fold chat_line (split_inclusive md) ([], None)) = Some d \<and> d \<noteq> [] \<and> hd d = 35"
    unfolding fold by (rule fold_chat_current[OF l(3,4)])
  then have "(case fold chat_line (split_inclusive md) ([], None) of (pieces, current) \<Rightarrow> push_unit current pieces) \<noteq> []"
    by (auto simp: push_unit_def Let_def trim_end_hash split: prod.splits)
  then show "split_chat_messages md =
    (case fold chat_line (split_inclusive md) ([], None) of (pieces, current) \<Rightarrow> push_unit current pieces)"
    "split_chat_messages md \<noteq> []"
    by (auto simp: split_chat_messages_def Let_def split: prod.splits)
qed

lemma split_chat_messages_append:
  assumes "message_start md1" and "last md1 = 10" and "message_start md2"
  shows "split_chat_messages (md1 @ md2) = split_chat_messages md1 @ split_chat_messages md2"
proof -
  have m: "message_start (md1 @ md2)" using assms(1) by (auto simp: message_start_iff)
  obtain l ls where l: "split_inclusive md2 = l # ls" "message_start l" by (rule message_first[OF assms(3)])
  obtain p c where pc: "fold chat_line (split_inclusive md1) ([], None) = (p, c)" by fastforce
  have lines: "split_inclusive (md1 @ md2) = split_inclusive md1 @ l # ls"
    using split_inclusive_append[of md1 md2] assms(2) l(1) by simp
  have "fold chat_line (l # ls) (p, c) = fold chat_line ls (push_unit c p @ [], Some l)"
    using l(2) by (simp add: chat_line_def)
  moreover have "fold chat_line (l # ls) ([], None) = fold chat_line ls ([], Some l)"
    using l(2) by (simp add: chat_line_def push_unit_def)
  ultimately show ?thesis
    unfolding split_chat_messages_message(1)[OF m] split_chat_messages_message(1)[OF assms(1)]
      split_chat_messages_message(1)[OF assms(3)] lines l(1)
    by (simp add: pc fold_chat_append push_unit_append del: append_Nil2 split: prod.splits)
qed

definition chunk_key :: "produced_chunk \<Rightarrow> string \<times> utext \<times> bool" where
  "chunk_key c = (ch_id c, ch_content c, pc_partial_message c)"

lemma chunk_key_produced [simp]:
  "chunk_key (produced env input part content seq partial) =
    (ce_cid env (ci_source_kind input) (ci_source_id input) part content, content, partial)"
  by (simp add: chunk_key_def produced_def Let_def)

lemma split_not_empty: "split_by_token_budget tok trunc text n \<noteq> []"
  by (simp add: split_by_token_budget_def Let_def)

lemma unit_chunks_keys:
  "map chunk_key (unit_chunks env input n unit out) = map chunk_key out @ map chunk_key (unit_chunks env input n unit [])"
  by (simp add: unit_chunks_def case_prod_unfold comp_def)

lemma fold_units_keys:
  "map chunk_key (fold (unit_chunks env input n) units out) =
    map chunk_key out @ concat (map (\<lambda>u. map chunk_key (unit_chunks env input n u [])) units)"
proof (induction units arbitrary: out)
  case (Cons u units)
  show ?case
    using Cons.IH[of "unit_chunks env input n u out"] unit_chunks_keys[of env input n u out] by simp
qed simp

lemma fold_units_not_empty: "units \<noteq> [] \<Longrightarrow> fold (unit_chunks env input n) units out \<noteq> []"
proof -
  assume "units \<noteq> []"
  moreover have "unit_chunks env input n u out \<noteq> []" for u out
    by (simp add: unit_chunks_def enumerate_eq_zip split_not_empty)
  ultimately show ?thesis by (cases units rule: rev_cases) simp_all
qed

lemma chat_chunk_keys:
  assumes "ci_source_kind input = Kind_Chat" and "message_start (ci_markdown input)"
  shows "map chunk_key (chunk_markdown env input n) =
    concat (map (\<lambda>u. map chunk_key (unit_chunks env input (max n 1) u [])) (split_chat_messages (ci_markdown input)))"
  using assms fold_units_not_empty[OF split_chat_messages_message(2)[OF assms(2)], of env input "max n 1" "[]"]
  by (simp add: chunk_markdown_def Let_def fold_units_keys)

lemma unit_chunks_markdown: "map chunk_key (unit_chunks env (input\<lparr>ci_markdown := md\<rparr>) n u []) = map chunk_key (unit_chunks env input n u [])"
  by (simp add: unit_chunks_def case_prod_unfold comp_def)

text \<open>
  The chunks of a chat do not depend on how its messages were batched: chunking two batches together
  gives the chunks of the first and then those of the second, with the same ids, bodies and partial marks, so
  delivering messages again, in another batch, only rewrites the rows they already have.
\<close>
theorem chat_chunks_batch_independent:
  assumes "ci_source_kind input = Kind_Chat" and "message_start md1" and "last md1 = 10" and "message_start md2"
  shows "map chunk_key (chunk_markdown env (input\<lparr>ci_markdown := md1 @ md2\<rparr>) n) =
    map chunk_key (chunk_markdown env (input\<lparr>ci_markdown := md1\<rparr>) n) @
    map chunk_key (chunk_markdown env (input\<lparr>ci_markdown := md2\<rparr>) n)"
proof -
  have m: "message_start (md1 @ md2)" using assms(2) by (auto simp: message_start_iff)
  show ?thesis
    using assms m by (simp add: chat_chunk_keys split_chat_messages_append unit_chunks_markdown)
qed

definition sample_chunk_env :: chunk_env where
  "sample_chunk_env = \<lparr>ce_tok = length, ce_trunc = (\<lambda>t b. take b t), ce_approx = length,
     ce_cid = (\<lambda>k s part content. show_nat (part + sum_list content)), ce_now = 0\<rparr>"

definition sample_input :: chunker_input where
  "sample_input = \<lparr>ci_source_kind = Kind_Chat, ci_source_id = ''c'', ci_markdown = [],
     ci_metadata = \<lparr>mt_source_kind = Kind_Chat, mt_source_id = ''c'', mt_owner = ''o'', mt_timestamp = 0,
       mt_time_range = (0, 0), mt_tags = [], mt_source_ref = None, mt_path_scope = None\<rparr>\<rparr>"

theorem chat_chunks_batch_independent_witness:
  "map chunk_key (chunk_markdown sample_chunk_env (sample_input\<lparr>ci_markdown := utext_of ''## a'' @ [10] @ utext_of ''## b''\<rparr>) 3) =
    map chunk_key (chunk_markdown sample_chunk_env (sample_input\<lparr>ci_markdown := utext_of ''## a'' @ [10]\<rparr>) 3) @
    map chunk_key (chunk_markdown sample_chunk_env (sample_input\<lparr>ci_markdown := utext_of ''## b''\<rparr>) 3)"
  using chat_chunks_batch_independent[of sample_input "utext_of ''## a'' @ [10]" "utext_of ''## b''" sample_chunk_env 3]
  by (simp add: sample_input_def message_start_def utext_of_def)

end
