(* ===== verification/Canonical.thy ===== *)
theory Canonical
  imports Chunker Embeddings
begin

section \<open>Payloads as canonical text (src/memory/ingest/canonicalize)\<close>

text \<open>
  What a source delivers becomes one text whose boundaries the chunker finds again: a line \<^verbatim>\<open>## ..\<close>
  before each chat message, a line \<^verbatim>\<open>---\<close> before each email. The payloads come from outside, so what
  they hold must not be read as a boundary. \<^verbatim>\<open>rfc\<close> formats a time by RFC 3339 (external crate).
\<close>

type_synonym canonical_source = "utext \<times> source_metadata"

definition normalize_source_ref :: "string option \<Rightarrow> string option" where
  "normalize_source_ref r =
    (case r of None \<Rightarrow> None | Some v \<Rightarrow> (let trimmed = trim_str v in if trimmed = [] then None else Some trimmed))"

definition metadata_of :: "source_kind \<Rightarrow> string \<Rightarrow> string \<Rightarrow> string list \<Rightarrow> int \<times> int \<Rightarrow> string option \<Rightarrow> string option \<Rightarrow>
    source_metadata" where
  "metadata_of kind source_id owner tags time_range source_ref path_scope =
    \<lparr>mt_source_kind = kind, mt_source_id = source_id, mt_owner = owner, mt_timestamp = fst time_range,
     mt_time_range = time_range, mt_tags = tags, mt_source_ref = source_ref, mt_path_scope = path_scope\<rparr>"

subsection \<open>Chats (chat.rs)\<close>

record chat_message =
  cg_author :: utext
  cg_timestamp :: int
  cg_text :: utext
  cg_source_ref :: "string option"

definition one_line_text :: "utext \<Rightarrow> utext" where
  "one_line_text s = map (\<lambda>c. if c = 10 \<or> c = 13 then 32 else c) s"

definition escape_message_line :: "utext \<Rightarrow> utext" where
  "escape_message_line line = (if message_start line then 92 # line else line)"

definition chat_unit :: "(int \<Rightarrow> utext) \<Rightarrow> chat_message \<Rightarrow> utext" where
  "chat_unit rfc m =
    [35, 35, 32] @ rfc (cg_timestamp m) @ [32, 8212, 32] @ one_line_text (cg_author m) @ [10] @
    join [10] (map escape_message_line (lines_of (trim (cg_text m)))) @ [10, 10]"

definition canonicalise_chat :: "(int \<Rightarrow> utext) \<Rightarrow> string \<Rightarrow> string \<Rightarrow> string list \<Rightarrow> chat_message list \<Rightarrow>
    canonical_source option" where
  "canonicalise_chat rfc source_id owner tags messages =
    (if messages = [] then None
     else
       (let ms = sort_key cg_timestamp messages in
        Some (concat (map (chat_unit rfc) ms),
          metadata_of Kind_Chat source_id owner tags (cg_timestamp (hd ms), cg_timestamp (last ms))
            (normalize_source_ref (cg_source_ref (hd ms))) None)))"

subsection \<open>Documents (document.rs)\<close>

record document_input =
  di_title :: utext
  di_body :: utext
  di_modified_at :: int
  di_source_ref :: "string option"

definition canonicalise_document :: "string \<Rightarrow> string \<Rightarrow> string list \<Rightarrow> document_input \<Rightarrow> string option \<Rightarrow>
    canonical_source option" where
  "canonicalise_document source_id owner tags doc path_scope =
    (if trim (di_body doc) = [] \<and> trim (di_title doc) = [] then None
     else Some (trim (di_body doc) @ [10],
       metadata_of Kind_Document source_id owner tags (di_modified_at doc, di_modified_at doc)
         (normalize_source_ref (di_source_ref doc)) path_scope))"

subsection \<open>Cleaning email bodies (email_clean.rs)\<close>

definition occurs_in :: "utext \<Rightarrow> utext \<Rightarrow> bool" where
  "occurs_in pat s \<longleftrightarrow> find_sub pat s \<noteq> None"

definition FOOTER_TRIGGERS :: "utext list" where
  "FOOTER_TRIGGERS =
    map utext_of [''unsubscribe'', ''view in browser'', ''view this email in your browser'',
      ''view it in your browser'', ''update your email settings'', ''manage your subscription'',
      ''manage preferences'', ''email preferences'', ''you are receiving this email because'',
      ''you received this email because'', ''you'' @ [CHR 0x27] @ ''re receiving this email because'',
      ''to stop receiving'', ''all rights reserved''] @
    [169 # utext_of '' 20''] @
    map utext_of [''(c) 20'', ''copyright 20'', ''powered by mailchimp'', ''sent via sendgrid'',
      ''this email and any files'', ''confidentiality notice'', ''if you are not the intended recipient'',
      ''this communication may contain'']"

definition is_preamble :: "utext \<Rightarrow> bool" where
  "is_preamble l \<longleftrightarrow>
    (take 3 l = utext_of ''on '' \<and> occurs_in (utext_of '' wrote:'') l) \<or>
    occurs_in (utext_of ''---------- forwarded message'') l \<or>
    occurs_in (utext_of ''----- original message'') l \<or>
    occurs_in (utext_of ''--------- original message'') l \<or>
    occurs_in (utext_of ''--- forwarded by'') l"

text \<open>Where the reply chain starts: the offset, the start of the open run of quoted lines, its length.\<close>

fun reply_cut :: "nat \<Rightarrow> nat option \<Rightarrow> nat \<Rightarrow> utext list \<Rightarrow> nat option" where
  "reply_cut offset run_start run_len [] = None"
| "reply_cut offset run_start run_len (line # ls) =
    (let trimmed = trim line in
     if is_preamble (map ascii_lower trimmed) then Some offset
     else if take 1 trimmed = [62]
     then (let start = (case run_start of None \<Rightarrow> offset | Some s \<Rightarrow> s);
               n = (case run_start of None \<Rightarrow> 1 | Some _ \<Rightarrow> run_len + 1)
           in if n \<ge> 3 then Some start else reply_cut (offset + length line) (Some start) n ls)
     else if trimmed \<noteq> [] then reply_cut (offset + length line) None 0 ls
     else reply_cut (offset + length line) run_start run_len ls)"

definition drop_reply_chain :: "utext \<Rightarrow> utext" where
  "drop_reply_chain s =
    (case reply_cut 0 None 0 (split_inclusive s) of None \<Rightarrow> s | Some n \<Rightarrow> trim_end (take n s))"

fun footer_cut :: "nat \<Rightarrow> utext list \<Rightarrow> nat option" where
  "footer_cut offset [] = None"
| "footer_cut offset (line # ls) =
    (if \<exists>t\<in>set FOOTER_TRIGGERS. occurs_in t (map ascii_lower line) then Some offset
     else footer_cut (offset + length line) ls)"

definition drop_footer_noise :: "utext \<Rightarrow> utext" where
  "drop_footer_noise s = (case footer_cut 0 (split_inclusive s) of None \<Rightarrow> s | Some n \<Rightarrow> trim_end (take n s))"

definition collapse_line :: "utext \<Rightarrow> utext \<times> nat \<Rightarrow> utext \<times> nat" where
  "collapse_line line st =
    (case st of (out, blank) \<Rightarrow>
      (if trim line = [] then ((if blank + 1 \<le> 1 then out @ [10] else out), blank + 1)
       else (out @ line @ [10], 0)))"

definition collapse_blank_runs :: "utext \<Rightarrow> utext" where
  "collapse_blank_runs s = rev (dropWhile (\<lambda>c. c = 10) (rev (fst (fold collapse_line (lines_of s) ([], 0)))))"

definition clean_body :: "utext \<Rightarrow> utext" where
  "clean_body raw = collapse_blank_runs (trim (drop_footer_noise (drop_reply_chain raw)))"

definition md_escape :: "utext \<Rightarrow> utext" where
  "md_escape s = concat (map (\<lambda>c. if c \<in> {92, 96, 42, 95, 124} then [92, c] else if c = 10 \<or> c = 13 then [32] else [c]) s)"

definition truncate_body :: "utext \<Rightarrow> nat \<Rightarrow> utext" where
  "truncate_body body max_chars =
    (let trimmed = trim body in if length trimmed \<le> max_chars then trimmed else take max_chars trimmed @ [8230])"

definition rfind :: "nat \<Rightarrow> utext \<Rightarrow> nat option" where
  "rfind c s = (if c \<in> set s then Some (length s - 1 - length (takeWhile (\<lambda>d. d \<noteq> c) (rev s))) else None)"

definition extract_email :: "utext \<Rightarrow> utext option" where
  "extract_email sender =
    (let s = trim sender;
         bracketed = (case (rfind 60 s, rfind 62 s) of
             (Some start, Some stop) \<Rightarrow>
               (if start < stop
                then (let inner = trim (take (stop - (start + 1)) (drop (start + 1) s))
                      in if 64 \<in> set inner then Some inner else None)
                else None)
           | _ \<Rightarrow> None)
     in case bracketed of
          Some inner \<Rightarrow> Some inner
        | None \<Rightarrow> (if 64 \<in> set s \<and> 32 \<notin> set s then Some s else None))"

subsection \<open>Emails (email.rs)\<close>

record email_message =
  eg_from :: utext
  eg_to :: "utext list"
  eg_cc :: "utext list"
  eg_subject :: utext
  eg_sent_at :: int
  eg_body :: utext
  eg_source_ref :: "string option"
  eg_list_unsubscribe :: "utext option"

definition rule_line :: utext where "rule_line = [45, 45, 45]"

definition escape_rule_line :: "utext \<Rightarrow> utext" where
  "escape_rule_line line = (if trim_end line = rule_line then 92 # line else line)"

definition header_line :: "string \<Rightarrow> utext \<Rightarrow> utext" where
  "header_line name v = utext_of name @ utext_of '': '' @ v @ [10]"

definition email_unit :: "(int \<Rightarrow> utext) \<Rightarrow> email_message \<Rightarrow> utext" where
  "email_unit rfc m =
    rule_line @ [10] @ header_line ''From'' (md_escape (eg_from m)) @
    (if eg_to m \<noteq> [] then header_line ''To'' (md_escape (join [44, 32] (eg_to m))) else []) @
    (if eg_cc m \<noteq> [] then header_line ''Cc'' (md_escape (join [44, 32] (eg_cc m))) else []) @
    header_line ''Subject'' (md_escape (eg_subject m)) @ header_line ''Date'' (rfc (eg_sent_at m)) @
    (case eg_list_unsubscribe m of Some u \<Rightarrow> header_line ''List-Unsubscribe'' (md_escape u) | None \<Rightarrow> []) @ [10] @
    (let cleaned = clean_body (trim (eg_body m)) in
     if cleaned = [] then [10] else join [10] (map escape_rule_line (lines_of cleaned))) @ [10, 10]"

definition canonicalise_email :: "(int \<Rightarrow> utext) \<Rightarrow> string \<Rightarrow> string \<Rightarrow> string list \<Rightarrow> email_message list \<Rightarrow>
    canonical_source option" where
  "canonicalise_email rfc source_id owner tags messages =
    (if messages = [] then None
     else
       (let ms = sort_key eg_sent_at messages in
        Some (concat (map (email_unit rfc) ms),
          metadata_of Kind_Email source_id owner tags (eg_sent_at (hd ms), eg_sent_at (last ms))
            (normalize_source_ref (eg_source_ref (hd ms))) None)))"

subsection \<open>A chat splits back into its messages\<close>

lemma concat_split_inclusive: "concat (split_inclusive s) = s"
  by (induction s) (auto split: list.splits)

lemma split_inclusive_line: "10 \<notin> set l \<Longrightarrow> split_inclusive (l @ 10 # s) = (l @ [10]) # split_inclusive s"
  by (induction l) (auto split: list.splits)

lemma split_inclusive_unlines: "\<forall>l\<in>set ls. 10 \<notin> set l \<Longrightarrow> split_inclusive (unlines ls) = map (\<lambda>l. l @ [10]) ls"
  by (induction ls) (auto simp: unlines_def split_inclusive_line)

lemma split_at_not_Nil: "split_at d s \<noteq> []"
  by (induction s) (auto split: list.splits)

lemma lines_no_lf: "l \<in> set (lines_of s) \<Longrightarrow> 10 \<notin> set l"
proof -
  let ?ps = "split_at 10 s"
  have free: "\<forall>w\<in>set ?ps. 10 \<notin> set w" by (rule split_at_free)
  assume "l \<in> set (lines_of s)"
  then consider "l \<in> strip_cr ` set (butlast ?ps)" | "l = last ?ps"
    by (auto simp: lines_of_def Let_def split: if_splits)
  then show ?thesis
  proof cases
    case 1
    then obtain w where "w \<in> set ?ps" "l = strip_cr w" by (auto dest: in_set_butlastD)
    then show ?thesis using free by (auto simp: strip_cr_def dest: in_set_butlastD)
  next
    case 2
    then show ?thesis using free last_in_set[OF split_at_not_Nil[of 10 s]] by simp
  qed
qed

lemma unlines_join: "join [10] ls @ [10] = unlines (if ls = [] then [[]] else ls)"
  by (induction "[10::nat]" ls rule: join.induct) (simp_all add: unlines_def)

lemma fold_chat_body: "\<forall>l\<in>set ls. \<not> message_start l \<Longrightarrow> fold chat_line ls (p, Some c) = (p, Some (c @ concat ls))"
  by (induction ls arbitrary: c) (simp_all add: chat_line_def)

lemma message_start_snoc: "message_start (l @ [10]) \<longleftrightarrow> message_start l"
  by (cases "length l \<ge> 3") (auto simp: message_start_def take_Cons' numeral_eq_Suc not_le less_Suc_eq length_Suc_conv)

lemma chat_unit_lines:
  fixes rfc m
  defines "body \<equiv> map escape_message_line (lines_of (trim (cg_text m)))"
  assumes "10 \<notin> set (rfc (cg_timestamp m))"
  shows "\<exists>ls. split_inclusive (chat_unit rfc m) =
      ([35, 35, 32] @ rfc (cg_timestamp m) @ [32, 8212, 32] @ one_line_text (cg_author m) @ [10]) # ls \<and>
    (\<forall>l\<in>set ls. \<not> message_start l)"
proof -
  let ?h = "[35, 35, 32] @ rfc (cg_timestamp m) @ [32, 8212, 32] @ one_line_text (cg_author m)"
  let ?rest = "(if body = [] then [[]] else body) @ [[]]"
  have h: "10 \<notin> set ?h" using assms(2) by (auto simp: one_line_text_def)
  have body: "\<forall>l\<in>set body. 10 \<notin> set l \<and> \<not> message_start l"
    by (auto simp: body_def escape_message_line_def message_start_def dest!: lines_no_lf)
  have "chat_unit rfc m = ?h @ 10 # unlines ?rest"
    using unlines_join[of body] by (auto simp: chat_unit_def body_def [symmetric] unlines_def)
  moreover have "split_inclusive (unlines ?rest) = map (\<lambda>l. l @ [10]) ?rest"
    by (rule split_inclusive_unlines) (use body in auto)
  moreover have "\<forall>l\<in>set (map (\<lambda>l. l @ [10]) ?rest). \<not> message_start l"
    using body by (auto simp: message_start_snoc) (simp_all add: message_start_def)
  ultimately show ?thesis using split_inclusive_line[OF h, of "unlines ?rest"] by auto
qed

lemma split_chat_unit:
  assumes "10 \<notin> set (rfc (cg_timestamp m))"
  shows "split_chat_messages (chat_unit rfc m) = [trim_end (chat_unit rfc m)]"
proof -
  have start: "message_start (chat_unit rfc m)" by (simp add: chat_unit_def message_start_def)
  obtain l ls where ls: "split_inclusive (chat_unit rfc m) = l # ls" "message_start l" "\<forall>l\<in>set ls. \<not> message_start l"
    using chat_unit_lines[of rfc m, OF assms] by (auto simp: message_start_def)
  have "fold chat_line (split_inclusive (chat_unit rfc m)) ([], None) = ([], Some (chat_unit rfc m))"
    using ls concat_split_inclusive[of "chat_unit rfc m"]
    by (simp add: chat_line_def push_unit_def fold_chat_body)
  moreover have "trim_end (chat_unit rfc m) \<noteq> []" by (rule trim_end_hash) (simp_all add: chat_unit_def)
  ultimately show ?thesis
    unfolding split_chat_messages_message(1)[OF start] by (simp add: push_unit_def)
qed

lemma chat_units_shape: "message_start (chat_unit rfc m)" "chat_unit rfc m \<noteq> []" "last (chat_unit rfc m) = 10"
  by (simp_all add: chat_unit_def message_start_def)

lemma message_start_append: "message_start a \<Longrightarrow> message_start (a @ b)"
  by (auto simp: message_start_iff)

text \<open>
  C24: the chunker finds exactly the messages of a chat batch again, in order of time: no line of a body and no
  author can begin a message or end one, whatever they hold.
\<close>
theorem chat_messages_recovered:
  assumes "\<forall>t. 10 \<notin> set (rfc t)" and "canonicalise_chat rfc source_id owner tags messages = Some (md, meta)"
  shows "split_chat_messages md = map (\<lambda>m. trim_end (chat_unit rfc m)) (sort_key cg_timestamp messages)"
proof -
  have units: "split_chat_messages (concat (map (chat_unit rfc) ms)) = map (\<lambda>m. trim_end (chat_unit rfc m)) ms"
    if "ms \<noteq> []" for ms
    using that
  proof (induction ms rule: rev_induct)
    case (snoc m ms)
    show ?case
    proof (cases "ms = []")
      case True
      then show ?thesis using split_chat_unit assms(1) by simp
    next
      case False
      then obtain k ks where ks: "ms = k # ks" by (cases ms) auto
      then have "message_start (concat (map (chat_unit rfc) ms))"
        by (simp add: message_start_append chat_units_shape)
      moreover have "last (concat (map (chat_unit rfc) ms)) = 10"
        using False by (cases ms rule: rev_cases) (simp_all add: chat_units_shape)
      ultimately show ?thesis
        using snoc.IH False split_chat_unit assms(1) by (simp add: split_chat_messages_append chat_units_shape)
    qed
  qed simp
  have "sort_key cg_timestamp messages = [] \<longleftrightarrow> messages = []" by (metis length_0_conv length_sort)
  then show ?thesis using assms(2) units[of "sort_key cg_timestamp messages"]
    by (auto simp: canonicalise_chat_def Let_def split: if_splits)
qed

subsection \<open>A thread splits back into its emails\<close>

text \<open>The start lines of a list of lines, from an index on.\<close>

fun starts_from :: "nat \<Rightarrow> utext list \<Rightarrow> nat list" where
  "starts_from k [] = []"
| "starts_from k (l # ls) =
    (if trim_end l = rule_line \<and> from_follows (take 8 ls) then k # starts_from (Suc k) ls else starts_from (Suc k) ls)"

lemma starts_from_filter:
  "starts_from k ls = map ((+) k) (filter (\<lambda>i. trim_end (ls ! i) = rule_line \<and> from_follows (take 8 (drop (i + 1) ls))) [0..<length ls])"
proof (induction ls arbitrary: k)
  case (Cons l ls)
  have "[0..<length (l # ls)] = 0 # map Suc [0..<length ls]"
    by (simp add: map_Suc_upt upt_conv_Cons del: upt_Suc)
  then show ?case
    using Cons.IH[of "Suc k"] by (simp add: filter_map comp_def)
qed simp

lemma email_starts_from: "email_starts ls = starts_from 0 ls"
  unfolding email_starts_def starts_from_filter by (simp add: rule_line_def map_idI)

lemma starts_from_skip:
  "\<forall>l\<in>set ls. trim_end l \<noteq> rule_line \<Longrightarrow> starts_from k (ls @ rest) = starts_from (k + length ls) rest"
  by (induction ls arbitrary: k) simp_all

text \<open>A block of lines that starts an email and holds no other rule.\<close>

definition email_block :: "utext list \<Rightarrow> bool" where
  "email_block ls \<longleftrightarrow> (\<exists>v rest. ls = rule_line # (utext_of ''From:'' @ v) # rest \<and> (\<forall>l\<in>set rest. trim_end l \<noteq> rule_line))"

fun block_starts :: "nat \<Rightarrow> utext list list \<Rightarrow> nat list" where
  "block_starts k [] = []"
| "block_starts k (b # bs) = k # block_starts (k + length b) bs"

lemma trim_end_head: "trim_end l = rule_line \<Longrightarrow> take 1 l = [45]"
proof -
  assume "trim_end l = rule_line"
  then have "rev (dropWhile is_white (rev l)) = rule_line" by (simp add: trim_end_def)
  moreover have "rev l = takeWhile is_white (rev l) @ dropWhile is_white (rev l)" by simp
  ultimately have "l = rule_line @ rev (takeWhile is_white (rev l))" by (metis rev_append rev_rev_ident)
  then show "take 1 l = [45]" by (metis rule_line_def append_Cons take0 take_Suc_Cons One_nat_def)
qed

lemma starts_from_blocks:
  assumes "\<forall>b\<in>set bs. email_block b" and "\<forall>l\<in>set rest. trim_end l \<noteq> rule_line"
  shows "starts_from k (concat bs @ rest) = block_starts k bs"
  using assms(1)
proof (induction bs arbitrary: k)
  case Nil
  then show ?case using starts_from_skip[OF assms(2), of k "[]"] by simp
next
  case (Cons b bs)
  then obtain v r where b: "b = rule_line # (utext_of ''From:'' @ v) # r" "\<forall>l\<in>set r. trim_end l \<noteq> rule_line"
    by (auto simp: email_block_def)
  have f: "trim_end (utext_of ''From:'' @ v) \<noteq> rule_line"
    using trim_end_head[of "utext_of ''From:'' @ v"] by (auto simp: utext_of_def)
  have r: "trim_end rule_line = rule_line" by (simp add: trim_end_def rule_line_def is_white_def)
  have "starts_from k (b @ concat bs @ rest) = k # starts_from (Suc k) (((utext_of ''From:'' @ v) # r) @ concat bs @ rest)"
    using r by (simp add: b utext_of_def take_Cons')
  also have "\<dots> = k # starts_from (Suc k + length ((utext_of ''From:'' @ v) # r)) (concat bs @ rest)"
    by (subst starts_from_skip) (use b(2) f in auto)
  finally show ?case using Cons by (simp add: b)
qed

lemma block_pieces:
  assumes "bs \<noteq> []"
  shows "map (\<lambda>(a, z). take (z - a) (drop a (pre @ concat bs @ rest)))
      (zip (block_starts (length pre) bs) (tl (block_starts (length pre) bs) @ [length (pre @ concat bs @ rest)])) =
    butlast bs @ [last bs @ rest]"
  using assms
proof (induction bs arbitrary: pre)
  case (Cons b bs)
  show ?case
  proof (cases bs)
    case Nil
    then show ?thesis by simp
  next
    case (Cons c cs)
    then show ?thesis using Cons.IH[of "pre @ b"] by simp
  qed
qed simp

definition message_lines :: "(int \<Rightarrow> utext) \<Rightarrow> email_message \<Rightarrow> utext list" where
  "message_lines rfc m =
    (let hdr = (\<lambda>name v. utext_of name @ utext_of '': '' @ v); cleaned = clean_body (trim (eg_body m));
         body = map escape_rule_line (lines_of cleaned) in
     [rule_line, hdr ''From'' (md_escape (eg_from m))] @
     (if eg_to m \<noteq> [] then [hdr ''To'' (md_escape (join [44, 32] (eg_to m)))] else []) @
     (if eg_cc m \<noteq> [] then [hdr ''Cc'' (md_escape (join [44, 32] (eg_cc m)))] else []) @
     [hdr ''Subject'' (md_escape (eg_subject m)), hdr ''Date'' (rfc (eg_sent_at m))] @
     (case eg_list_unsubscribe m of Some u \<Rightarrow> [hdr ''List-Unsubscribe'' (md_escape u)] | None \<Rightarrow> []) @ [[]] @
     (if cleaned = [] then [[], []] else if body = [] then [[]] else body) @ [[]])"

lemma unlines_append [simp]: "unlines (a @ b) = unlines a @ unlines b"
  by (simp add: unlines_def)

lemma unlines_Cons [simp]: "unlines (l # ls) = l @ 10 # unlines ls" "unlines [] = []"
  by (simp_all add: unlines_def)

lemma email_unit_lines: "email_unit rfc m = unlines (message_lines rfc m)"
proof -
  let ?body = "map escape_rule_line (lines_of (clean_body (trim (eg_body m))))"
  have "join [10] ?body @ [10, 10] = unlines (if ?body = [] then [[]] else ?body) @ [10]"
    using unlines_join[of ?body] by (metis append.assoc append_Cons append_Nil)
  then show ?thesis
    by (simp add: email_unit_def message_lines_def Let_def header_line_def split: option.splits)
qed

lemma md_escape_no_lf [simp]: "10 \<notin> set (md_escape s)"
  by (auto simp: md_escape_def split: if_splits)

lemma message_lines_no_lf:
  assumes "10 \<notin> set (rfc (eg_sent_at m))" and "l \<in> set (message_lines rfc m)"
  shows "10 \<notin> set l"
proof -
  have "10 \<notin> set (escape_rule_line b)" if "b \<in> set (lines_of t)" for b t
    using lines_no_lf[OF that] by (simp add: escape_rule_line_def)
  then show ?thesis
    using assms by (auto simp: message_lines_def Let_def rule_line_def utext_of_def split: if_splits option.splits)
qed

lemma not_rule: "take 1 l \<noteq> [45] \<Longrightarrow> trim_end l \<noteq> rule_line"
  using trim_end_head by blast

lemma message_lines_block: "email_block (message_lines rfc m)"
proof -
  have body: "trim_end (escape_rule_line b) \<noteq> rule_line" for b
    by (simp add: escape_rule_line_def not_rule)
  have hdr: "trim_end (utext_of name @ utext_of '': '' @ v) \<noteq> rule_line"
    if "name \<in> {''To'', ''Cc'', ''Subject'', ''Date'', ''List-Unsubscribe''}" for name v
    using that by (auto simp: utext_of_def intro!: not_rule)
  have blank: "trim_end [] \<noteq> rule_line" by (simp add: not_rule)
  have "message_lines rfc m = rule_line # (utext_of ''From:'' @ 32 # md_escape (eg_from m)) # tl (tl (message_lines rfc m))"
    by (simp add: message_lines_def Let_def utext_of_def)
  moreover have "\<forall>l\<in>set (tl (tl (message_lines rfc m))). trim_end l \<noteq> rule_line"
    unfolding message_lines_def Let_def
    by (auto simp: hdr body blank split: option.splits if_splits simp del: utext_of_def)
  ultimately show ?thesis
    unfolding email_block_def by blast
qed

lemma trim_end_lf: "trim_end (x @ [10]) = trim_end x"
  by (simp add: trim_end_def is_white_def)

lemma unlines_concat: "unlines (concat lss) = concat (map unlines lss)"
  by (induction lss) simp_all

text \<open>
  C25: the chunker finds exactly the emails of a thread again, in order of time: no header value and no body
  line can begin an email or end one, whatever they hold.
\<close>
theorem emails_recovered:
  assumes "\<forall>t. 10 \<notin> set (rfc t)" and "canonicalise_email rfc source_id owner tags messages = Some (md, meta)"
  shows "split_email_messages md = map (\<lambda>m. trim_end (email_unit rfc m)) (sort_key eg_sent_at messages)"
proof -
  let ?ms = "sort_key eg_sent_at messages"
  let ?bs = "map (message_lines rfc) ?ms"
  have ms: "?ms \<noteq> []" using assms(2) by (metis canonicalise_email_def length_0_conv length_sort option.distinct(1))
  have unit: "email_unit rfc = (\<lambda>m. unlines (message_lines rfc m))" by (rule ext) (rule email_unit_lines)
  have md: "md = unlines (concat ?bs)"
    using assms(2) by (auto simp: canonicalise_email_def Let_def unlines_concat unit comp_def split: if_splits)
  have blocks: "\<forall>b\<in>set ?bs. email_block b" by (simp add: message_lines_block)
  have "\<forall>l\<in>set (concat ?bs). 10 \<notin> set l" using message_lines_no_lf assms(1) by fastforce
  then have ls: "split_at 10 md = concat ?bs @ [[]]" unfolding md by (rule split_unlines)
  have starts: "email_starts (split_at 10 md) = block_starts 0 ?bs"
    unfolding ls email_starts_from by (rule starts_from_blocks[OF blocks]) (simp add: not_rule)
  have "block_starts 0 ?bs \<noteq> []" using ms by (cases ?ms) simp_all
  have piece: "trim_end (join [10] b) = trim_end (unlines b)" if "b \<noteq> []" for b
    using trim_end_lf[of "join [10] b"] unlines_join[of b] that by simp
  have last_piece: "trim_end (join [10] (b @ [[]])) = trim_end (unlines b)" if "b \<noteq> []" for b
  proof -
    have "join [10] (b @ [[]]) = unlines b" using that by (induction "[10::nat]" b rule: join.induct) simp_all
    then show ?thesis by simp
  qed
  have not_empty: "b \<noteq> []" "trim_end (unlines b) \<noteq> []" if b: "b \<in> set ?bs" for b
  proof -
    have "email_block b" using blocks b by blast
    then show "b \<noteq> []" by (auto simp: email_block_def)
    from \<open>email_block b\<close> have "45 \<in> set (unlines b)" by (auto simp: email_block_def rule_line_def)
    then have "\<exists>x\<in>set (unlines b). \<not> is_white x" by (intro bexI[of _ 45]) (simp_all add: is_white_def)
    then show "trim_end (unlines b) \<noteq> []" by (auto simp: trim_end_def)
  qed
  let ?ls = "split_at 10 md"
  let ?zs = "zip (block_starts 0 ?bs) (tl (block_starts 0 ?bs) @ [length ?ls])"
  have tiles: "map (\<lambda>(a, z). take (z - a) (drop a ?ls)) ?zs = butlast ?bs @ [last ?bs @ [[]]]"
    using block_pieces[of ?bs "[]" "[[]]"] ms unfolding ls by simp
  have "map (email_piece ?ls) ?zs = map (\<lambda>p. trim_end (join [10] p)) (map (\<lambda>(a, z). take (z - a) (drop a ?ls)) ?zs)"
    unfolding map_map by (rule map_cong[OF refl]) (simp add: email_piece_def case_prod_unfold)
  also have "\<dots> = map (\<lambda>b. trim_end (join [10] b)) (butlast ?bs @ [last ?bs @ [[]]])" unfolding tiles ..
  also have "\<dots> = map (\<lambda>b. trim_end (unlines b)) (butlast ?bs @ [last ?bs])"
  proof -
    have "map (\<lambda>b. trim_end (join [10] b)) (butlast ?bs) = map (\<lambda>b. trim_end (unlines b)) (butlast ?bs)"
      by (rule map_cong[OF refl], rule piece, rule not_empty(1)) (erule in_set_butlastD)
    moreover have "trim_end (join [10] (last ?bs @ [[]])) = trim_end (unlines (last ?bs))"
      by (rule last_piece, rule not_empty(1), rule last_in_set) (simp add: ms)
    ultimately show ?thesis by (simp only: map_append list.map)
  qed
  also have "\<dots> = map (\<lambda>b. trim_end (unlines b)) ?bs" by (subst append_butlast_last_id) (simp_all add: ms)
  finally have pieces: "split_email_messages md = filter (\<lambda>p. p \<noteq> []) (map (\<lambda>b. trim_end (unlines b)) ?bs)"
    using \<open>block_starts 0 ?bs \<noteq> []\<close> by (simp add: split_email_messages_def Let_def starts)
  also have "\<dots> = map (\<lambda>b. trim_end (unlines b)) ?bs" using not_empty(2) by (simp add: filter_id_conv)
  finally show ?thesis by (simp add: email_unit_lines comp_def)
qed

subsection \<open>Two samples\<close>

definition sample_rfc :: "int \<Rightarrow> utext" where "sample_rfc t = utext_of (show_int t)"

lemma sample_rfc_no_lf: "10 \<notin> set (sample_rfc t)"
  using show_nat_no_char[of "CHR 0x0A"] by (simp add: sample_rfc_def utext_lf show_int_def)

definition sample_chat :: "chat_message list" where
  "sample_chat = [\<lparr>cg_author = [65, 10, 35, 35, 32, 66], cg_timestamp = 2, cg_text = utext_of ''x'' @ [10] @ utext_of ''## y'',
     cg_source_ref = None\<rparr>]"

theorem chat_messages_recovered_witness:
  "length (split_chat_messages (fst (the (canonicalise_chat sample_rfc ''c'' ''o'' [] sample_chat)))) = 1"
proof -
  obtain md meta where c: "canonicalise_chat sample_rfc ''c'' ''o'' [] sample_chat = Some (md, meta)"
    by (simp add: canonicalise_chat_def sample_chat_def Let_def)
  have "length (split_chat_messages md) = length sample_chat"
    by (subst chat_messages_recovered[OF _ c]) (simp_all add: sample_rfc_no_lf)
  then show ?thesis unfolding c by (simp add: sample_chat_def)
qed

definition sample_thread :: "email_message list" where
  "sample_thread = [\<lparr>eg_from = [65], eg_to = [], eg_cc = [], eg_subject = [66], eg_sent_at = 2,
     eg_body = rule_line @ [10] @ utext_of ''From: evil'', eg_source_ref = None, eg_list_unsubscribe = None\<rparr>]"

theorem emails_recovered_witness:
  "length (split_email_messages (fst (the (canonicalise_email sample_rfc ''c'' ''o'' [] sample_thread)))) = 1"
proof -
  obtain md meta where c: "canonicalise_email sample_rfc ''c'' ''o'' [] sample_thread = Some (md, meta)"
    by (simp add: canonicalise_email_def sample_thread_def Let_def)
  have "length (split_email_messages md) = length sample_thread"
    by (subst emails_recovered[OF _ c]) (simp_all add: sample_rfc_no_lf)
  then show ?thesis unfolding c by (simp add: sample_thread_def)
qed

end
