(* ===== verification/Scoring.thy ===== *)
theory Scoring
  imports Rank Canonical
begin

section \<open>Scoring and admission (src/memory/score: mod.rs, signals, resolver.rs, extract)\<close>

text \<open>
  Extraction, the cheap signals, the band in which the LLM extractor is consulted, the admission gate and
  what is persisted. Scores are rationals: the \<^verbatim>\<open>f32\<close> arithmetic is read without its rounding.
  Extractors are host code, hence arguments; so are Unicode's tables (\<^verbatim>\<open>tv_alnum\<close>, \<^verbatim>\<open>tv_lower\<close>) and the
  API crate's token estimate and provider names.
\<close>

subsection \<open>What extractors return (extract/types.rs)\<close>

record extracted_entity =
  xe_kind :: entity_kind
  xe_text :: utext
  xe_span_start :: nat
  xe_span_end :: nat
  xe_score :: rat

record extracted_topic =
  xt_label :: utext
  xt_score :: rat

record extracted =
  xs_entities :: "extracted_entity list"
  xs_topics :: "extracted_topic list"
  xs_importance :: "rat option"
  xs_reason :: "utext option"

type_synonym extractor = "utext \<Rightarrow> extracted result"

definition extracted_default :: extracted where
  "extracted_default = \<lparr>xs_entities = [], xs_topics = [], xs_importance = None, xs_reason = None\<rparr>"

definition extracted_is_empty :: "extracted \<Rightarrow> bool" where
  "extracted_is_empty x \<longleftrightarrow> xs_entities x = [] \<and> xs_topics x = []"

definition unique_entity_count :: "(utext \<Rightarrow> utext) \<Rightarrow> extracted \<Rightarrow> nat" where
  "unique_entity_count lower_u x = card (set (map (\<lambda>e. (xe_kind e, lower_u (xe_text e))) (xs_entities x)))"

text \<open>The keys seen are those of the list itself, which grows by what is not seen yet.\<close>

definition push_unseen :: "('a \<Rightarrow> 'k) \<Rightarrow> 'a list \<Rightarrow> 'a list \<Rightarrow> 'a list" where
  "push_unseen key = fold (\<lambda>e acc. if key e \<in> set (map key acc) then acc else acc @ [e])"

definition merge_importance :: "rat option \<times> utext option \<Rightarrow> rat option \<times> utext option \<Rightarrow> rat option \<times> utext option" where
  "merge_importance mine theirs =
    (let keep = (fst mine, if snd mine = None then snd theirs else snd mine) in
     case (fst mine, fst theirs) of
       (Some a, Some b) \<Rightarrow> (if b > a then (Some b, snd theirs) else keep)
     | (None, Some b) \<Rightarrow> (Some b, snd theirs)
     | _ \<Rightarrow> keep)"

definition merge_extracted :: "(utext \<Rightarrow> utext) \<Rightarrow> extracted \<Rightarrow> extracted \<Rightarrow> extracted" where
  "merge_extracted lower_u mine theirs =
    (let imp = merge_importance (xs_importance mine, xs_reason mine) (xs_importance theirs, xs_reason theirs) in
     \<lparr>xs_entities = push_unseen (\<lambda>e. (xe_kind e, lower_u (xe_text e), xe_span_start e)) (xs_entities theirs) (xs_entities mine),
      xs_topics = push_unseen xt_label (xs_topics theirs) (xs_topics mine),
      xs_importance = fst imp, xs_reason = snd imp\<rparr>)"

definition composite_extract :: "(utext \<Rightarrow> utext) \<Rightarrow> extractor list \<Rightarrow> extractor" where
  "composite_extract lower_u inner content =
    Inr (fold (\<lambda>ex acc. case ex content of Inr batch \<Rightarrow> merge_extracted lower_u acc batch | Inl _ \<Rightarrow> acc)
      inner extracted_default)"

subsection \<open>Signals (signals)\<close>

record signal_weights =
  sw_token_count :: rat
  sw_unique_words :: rat
  sw_metadata_weight :: rat
  sw_source_weight :: rat
  sw_interaction :: rat
  sw_entity_density :: rat
  sw_llm_importance :: rat

definition default_weights :: signal_weights where
  "default_weights = \<lparr>sw_token_count = 1, sw_unique_words = 1, sw_metadata_weight = 3 / 2, sw_source_weight = 3 / 2,
     sw_interaction = 3, sw_entity_density = 1, sw_llm_importance = 0\<rparr>"

definition weights_with_llm_enabled :: signal_weights where
  "weights_with_llm_enabled = default_weights\<lparr>sw_llm_importance := 2\<rparr>"

definition clamp_unit :: "rat \<Rightarrow> rat" where "clamp_unit x = (if x < 0 then 0 else if x > 1 then 1 else x)"

definition TOKEN_MIN :: nat where "TOKEN_MIN = 10"
definition TOKEN_RAMP_LOW :: nat where "TOKEN_RAMP_LOW = 30"
definition TOKEN_RAMP_HIGH :: nat where "TOKEN_RAMP_HIGH = 3000"
definition TOKEN_MAX :: nat where "TOKEN_MAX = 8000"

definition token_count_score :: "nat \<Rightarrow> rat" where
  "token_count_score n =
    (if n < TOKEN_MIN then 0
     else if n \<le> TOKEN_RAMP_LOW then of_nat (n - TOKEN_MIN) / of_nat (TOKEN_RAMP_LOW - TOKEN_MIN)
     else if n \<le> TOKEN_RAMP_HIGH then 1
     else if n \<le> TOKEN_MAX then 1 - 1 / 2 * (of_nat (n - TOKEN_RAMP_HIGH) / of_nat (TOKEN_MAX - TOKEN_RAMP_HIGH))
     else 1 / 2)"

definition MIN_TOTAL_WORDS :: nat where "MIN_TOTAL_WORDS = 5"

definition trim_matches :: "(nat \<Rightarrow> bool) \<Rightarrow> utext \<Rightarrow> utext" where
  "trim_matches p s = rev (dropWhile p (rev (dropWhile p s)))"

definition split_words :: "utext \<Rightarrow> utext list" where
  "split_words s = filter (\<lambda>w. w \<noteq> []) (split_if is_white s)"

definition unique_words_score :: "(nat \<Rightarrow> bool) \<Rightarrow> (utext \<Rightarrow> utext) \<Rightarrow> utext \<Rightarrow> rat" where
  "unique_words_score alnum lower_u s =
    (let words = filter (\<lambda>w. w \<noteq> []) (map (\<lambda>raw. lower_u (trim_matches (\<lambda>c. \<not> alnum c) raw)) (split_words s)) in
     if length words < MIN_TOTAL_WORDS then 1 / 2
     else (let ratio = of_nat (card (set words)) / of_nat (length words) in
       if ratio \<le> 3 / 10 then 0 else if ratio \<ge> 7 / 10 then 1 else (ratio - 3 / 10) / (4 / 10)))"

fun metadata_weight_score :: "source_kind \<Rightarrow> rat" where
  "metadata_weight_score Kind_Email = 8 / 10"
| "metadata_weight_score Kind_Document = 9 / 10"
| "metadata_weight_score Kind_Chat = 5 / 10"

datatype data_source = Gmail | OtherEmail | Whatsapp | Telegram | Discord | Conversation | Notion | DriveDocs
  | MeetingNotes | Upload | WebPage | Unlisted_Source string

fun weight_for_explicit :: "data_source \<Rightarrow> rat option" where
  "weight_for_explicit Gmail = Some (8 / 10)"
| "weight_for_explicit OtherEmail = Some (7 / 10)"
| "weight_for_explicit Whatsapp = Some (75 / 100)"
| "weight_for_explicit Telegram = Some (6 / 10)"
| "weight_for_explicit Discord = Some (5 / 10)"
| "weight_for_explicit Conversation = Some (9 / 10)"
| "weight_for_explicit Notion = Some (75 / 100)"
| "weight_for_explicit DriveDocs = Some (6 / 10)"
| "weight_for_explicit MeetingNotes = Some (85 / 100)"
| "weight_for_explicit Upload = Some (7 / 10)"
| "weight_for_explicit WebPage = Some (6 / 10)"
| "weight_for_explicit (Unlisted_Source _) = None"

fun kind_default :: "source_kind \<Rightarrow> rat" where
  "kind_default Kind_Email = 75 / 100"
| "kind_default Kind_Document = 7 / 10"
| "kind_default Kind_Chat = 5 / 10"

record text_env =
  tv_alnum :: "nat \<Rightarrow> bool"
  tv_lower :: "utext \<Rightarrow> utext"
  tv_approx :: "utext \<Rightarrow> nat"
  tv_parse_source :: "string \<Rightarrow> data_source option"
  tv_source_kind :: "data_source \<Rightarrow> source_kind"
  tv_fixed3 :: "rat \<Rightarrow> string"

definition PROVIDER_PREFIX :: string where "PROVIDER_PREFIX = ''provider:''"

fun infer_data_source :: "(string \<Rightarrow> data_source option) \<Rightarrow> string list \<Rightarrow> data_source option" where
  "infer_data_source parse [] = None"
| "infer_data_source parse (tag # tags) =
    (if take (length PROVIDER_PREFIX) tag = PROVIDER_PREFIX
     then (case parse (drop (length PROVIDER_PREFIX) tag) of Some ds \<Rightarrow> Some ds | None \<Rightarrow> infer_data_source parse tags)
     else infer_data_source parse tags)"

definition weight_for :: "text_env \<Rightarrow> data_source \<Rightarrow> rat" where
  "weight_for env ds = (case weight_for_explicit ds of Some w \<Rightarrow> w | None \<Rightarrow> kind_default (tv_source_kind env ds))"

definition source_weight_score :: "text_env \<Rightarrow> source_kind \<Rightarrow> string list \<Rightarrow> rat" where
  "source_weight_score env kind tags =
    (case infer_data_source (tv_parse_source env) tags of Some ds \<Rightarrow> weight_for env ds | None \<Rightarrow> kind_default kind)"

definition interaction_weights :: "(string \<times> rat) list" where
  "interaction_weights = [(''sent'', 6 / 10), (''reply'', 5 / 10), (''dm'', 3 / 10), (''mention'', 2 / 10)]"

definition interaction_score :: "string list \<Rightarrow> rat" where
  "interaction_score tags =
    (let hits = List.map_filter (map_of interaction_weights) tags in
     if hits = [] then 1 / 2 else clamp_unit (sum_list hits))"

definition entity_density_score :: "(utext \<Rightarrow> utext) \<Rightarrow> nat \<Rightarrow> extracted \<Rightarrow> rat" where
  "entity_density_score lower_u token_count x =
    (if token_count = 0 then 0
     else min (of_nat (unique_entity_count lower_u x) / of_nat token_count / (1 / 100)) 1)"

definition compute_signals :: "text_env \<Rightarrow> chunk \<Rightarrow> utext \<Rightarrow> nat \<Rightarrow> extracted \<Rightarrow> score_signals" where
  "compute_signals env c content token_count x =
    \<lparr>sg_token_count = token_count_score token_count,
     sg_unique_words = unique_words_score (tv_alnum env) (tv_lower env) content,
     sg_metadata_weight = metadata_weight_score (ch_source_kind c),
     sg_source_weight = source_weight_score env (ch_source_kind c) (ch_tags c),
     sg_interaction = interaction_score (ch_tags c),
     sg_entity_density = entity_density_score (tv_lower env) token_count x,
     sg_llm_importance = clamp_unit (case xs_importance x of Some v \<Rightarrow> v | None \<Rightarrow> 0)\<rparr>"

definition cheap_weight :: "signal_weights \<Rightarrow> rat" where
  "cheap_weight w = sw_token_count w + sw_unique_words w + sw_metadata_weight w + sw_source_weight w +
     sw_interaction w + sw_entity_density w"

definition cheap_sum :: "score_signals \<Rightarrow> signal_weights \<Rightarrow> rat" where
  "cheap_sum g w = sg_token_count g * sw_token_count w + sg_unique_words g * sw_unique_words w +
     sg_metadata_weight g * sw_metadata_weight w + sg_source_weight g * sw_source_weight w +
     sg_interaction g * sw_interaction w + sg_entity_density g * sw_entity_density w"

definition combine_cheap_only :: "score_signals \<Rightarrow> signal_weights \<Rightarrow> rat" where
  "combine_cheap_only g w = (if cheap_weight w \<le> 0 then 0 else clamp_unit (cheap_sum g w / cheap_weight w))"

definition combine :: "score_signals \<Rightarrow> signal_weights \<Rightarrow> rat" where
  "combine g w =
    (let full_weight = cheap_weight w + sw_llm_importance w in
     if full_weight \<le> 0 then 0
     else clamp_unit ((cheap_sum g w + sg_llm_importance g * sw_llm_importance w) / full_weight))"

subsection \<open>Canonical entities (resolver.rs)\<close>

text \<open>UTF-8, in which the entity tables hold the text of an entity.\<close>

definition utf8_bytes :: "nat \<Rightarrow> nat list" where
  "utf8_bytes c =
    (if c < 128 then [c]
     else if c < 2048 then [192 + c div 64, 128 + c mod 64]
     else if c < 65536 then [224 + c div 4096, 128 + c div 64 mod 64, 128 + c mod 64]
     else [240 + c div 262144, 128 + c div 4096 mod 64, 128 + c div 64 mod 64, 128 + c mod 64])"

definition utf8_encode :: "utext \<Rightarrow> string" where
  "utf8_encode s = map char_of (concat (map utf8_bytes s))"

definition canonical_id_for :: "(utext \<Rightarrow> utext) \<Rightarrow> entity_kind \<Rightarrow> utext \<Rightarrow> string" where
  "canonical_id_for lower_u kind surface =
    (let trimmed = trim surface;
         clean = (if kind = Url then trimmed
           else dropWhile (\<lambda>c. c = 35) (dropWhile (\<lambda>c. c = 64) (lower_u trimmed)))
     in entity_kind_as_str kind @ '':'' @ utf8_encode clean)"

definition canonical_of_entity :: "(utext \<Rightarrow> utext) \<Rightarrow> extracted_entity \<Rightarrow> canonical_entity" where
  "canonical_of_entity lower_u e =
    \<lparr>ce_canonical_id = canonical_id_for lower_u (xe_kind e) (xe_text e), ce_kind = xe_kind e,
     ce_surface = utf8_encode (xe_text e), ce_span_start = xe_span_start e, ce_span_end = xe_span_end e,
     ce_score = xe_score e\<rparr>"

definition promote_topic :: "(utext \<Rightarrow> utext) \<Rightarrow> extracted_topic \<Rightarrow> canonical_entity list \<Rightarrow> canonical_entity list" where
  "promote_topic lower_u t out =
    (let canonical_id = canonical_id_for lower_u Topic_Entity (xt_label t) in
     if list_ex (\<lambda>e. ce_kind e = Topic_Entity \<and> ce_canonical_id e = canonical_id) out then out
     else out @ [\<lparr>ce_canonical_id = canonical_id, ce_kind = Topic_Entity, ce_surface = utf8_encode (xt_label t),
       ce_span_start = 0, ce_span_end = 0, ce_score = xt_score t\<rparr>])"

definition canonicalise_entities :: "(utext \<Rightarrow> utext) \<Rightarrow> extracted \<Rightarrow> canonical_entity list" where
  "canonicalise_entities lower_u x =
    fold (promote_topic lower_u) (xs_topics x) (map (canonical_of_entity lower_u) (xs_entities x))"

subsection \<open>Scoring a chunk (mod.rs)\<close>

definition DEFAULT_DROP_THRESHOLD :: rat where "DEFAULT_DROP_THRESHOLD = 3 / 10"
definition DEFAULT_DEFINITE_KEEP :: rat where "DEFAULT_DEFINITE_KEEP = 85 / 100"
definition DEFAULT_DEFINITE_DROP :: rat where "DEFAULT_DEFINITE_DROP = 15 / 100"
definition PRIORITY_TAG :: string where "PRIORITY_TAG = ''priority_high''"
definition PRIORITY_BOOST :: rat where "PRIORITY_BOOST = 1 / 4"

record score_result =
  re_chunk_id :: string
  re_total :: rat
  re_signals :: score_signals
  re_kept :: bool
  re_drop_reason :: "string option"
  re_extracted :: extracted
  re_canonical_entities :: "canonical_entity list"

record scoring_config =
  sf_extractor :: extractor
  sf_weights :: signal_weights
  sf_drop_threshold :: rat
  sf_llm_extractor :: "extractor option"
  sf_definite_keep_threshold :: rat
  sf_definite_drop_threshold :: rat

record scoring_policy =
  py_weights :: signal_weights
  py_drop_threshold :: rat
  py_definite_keep_threshold :: rat
  py_definite_drop_threshold :: rat

definition default_scoring_policy :: scoring_policy where
  "default_scoring_policy = \<lparr>py_weights = default_weights, py_drop_threshold = DEFAULT_DROP_THRESHOLD,
     py_definite_keep_threshold = DEFAULT_DEFINITE_KEEP, py_definite_drop_threshold = DEFAULT_DEFINITE_DROP\<rparr>"

definition validate_scoring :: "scoring_policy \<Rightarrow> unit result" where
  "validate_scoring p =
    (if \<not> (0 \<le> py_drop_threshold p \<and> py_drop_threshold p \<le> 1)
     then Inl (plain_error ''scoring.drop_threshold must be between zero and one'')
     else if \<not> py_definite_drop_threshold p \<le> py_definite_keep_threshold p
     then Inl (plain_error ''scoring definite thresholds are invalid'')
     else Inr ())"

definition scoring_from_policy :: "(utext \<Rightarrow> utext) \<Rightarrow> extractor \<Rightarrow> scoring_policy \<Rightarrow> scoring_config" where
  "scoring_from_policy lower_u regex p =
    \<lparr>sf_extractor = composite_extract lower_u [regex], sf_weights = py_weights p,
     sf_drop_threshold = py_drop_threshold p, sf_llm_extractor = None,
     sf_definite_keep_threshold = py_definite_keep_threshold p,
     sf_definite_drop_threshold = py_definite_drop_threshold p\<rparr>"

definition default_regex_only :: "(utext \<Rightarrow> utext) \<Rightarrow> extractor \<Rightarrow> scoring_config" where
  "default_regex_only lower_u regex =
    \<lparr>sf_extractor = composite_extract lower_u [regex], sf_weights = default_weights,
     sf_drop_threshold = DEFAULT_DROP_THRESHOLD, sf_llm_extractor = None,
     sf_definite_keep_threshold = DEFAULT_DEFINITE_KEEP, sf_definite_drop_threshold = DEFAULT_DEFINITE_DROP\<rparr>"

definition with_llm_extractor :: "(utext \<Rightarrow> utext) \<Rightarrow> extractor \<Rightarrow> extractor \<Rightarrow> scoring_config" where
  "with_llm_extractor lower_u regex llm =
    \<lparr>sf_extractor = composite_extract lower_u [regex], sf_weights = weights_with_llm_enabled,
     sf_drop_threshold = DEFAULT_DROP_THRESHOLD, sf_llm_extractor = Some llm,
     sf_definite_keep_threshold = DEFAULT_DEFINITE_KEEP, sf_definite_drop_threshold = DEFAULT_DEFINITE_DROP\<rparr>"

definition scoring_content :: "chunk \<Rightarrow> utext" where
  "scoring_content c =
    (if ch_source_kind c \<noteq> Kind_Chat then ch_content c
     else join [10] (filter (\<lambda>line. let trimmed = dropWhile is_white line in
       take 17 trimmed \<noteq> utext_of ''# Chat transcript'' \<and> take 3 trimmed \<noteq> utext_of ''## '')
       (lines_of (ch_content c))))"

text \<open>The extraction the total is computed from, and whether the LLM rated the chunk.\<close>

definition consult :: "text_env \<Rightarrow> scoring_config \<Rightarrow> utext \<Rightarrow> rat \<Rightarrow> extracted \<Rightarrow> extracted \<times> bool" where
  "consult env cfg content cheap_total x =
    (if sf_definite_drop_threshold cfg < cheap_total \<and> cheap_total < sf_definite_keep_threshold cfg
     then (case sf_llm_extractor cfg of
         Some llm \<Rightarrow> (case llm content of
             Inr found \<Rightarrow> (let m = merge_extracted (tv_lower env) x found in (m, xs_importance m \<noteq> None))
           | Inl _ \<Rightarrow> (x, False))
       | None \<Rightarrow> (x, False))
     else (x, False))"

definition is_priority :: "chunk \<Rightarrow> bool" where
  "is_priority c \<longleftrightarrow> list_ex (\<lambda>t. t = PRIORITY_TAG) (ch_tags c)"

definition boost_priority :: "bool \<Rightarrow> rat \<Rightarrow> rat" where
  "boost_priority priority t =
    (if priority then (let boosted = min (t + PRIORITY_BOOST) 1 in if boosted > t then boosted else t) else t)"

definition score_chunk :: "text_env \<Rightarrow> scoring_config \<Rightarrow> chunk \<Rightarrow> score_result result" where
  "score_chunk env cfg c =
    (let content = scoring_content c; token_count = tv_approx env content in
     case sf_extractor cfg content of
       Inl e \<Rightarrow> Inl e
     | Inr x \<Rightarrow>
       (let cheap_total = combine_cheap_only (compute_signals env c content token_count x) (sf_weights cfg) in
        case consult env cfg content cheap_total x of
          (x', llm_consulted) \<Rightarrow>
           (let signals = compute_signals env c content token_count x';
                combined = (if llm_consulted then combine signals (sf_weights cfg)
                  else combine_cheap_only signals (sf_weights cfg));
                priority = is_priority c;
                final = boost_priority priority combined;
                tiny_entity_free = (\<not> priority \<and> token_count < TOKEN_MIN \<and> extracted_is_empty x');
                kept = (\<not> tiny_entity_free \<and> final \<ge> sf_drop_threshold cfg)
            in Inr \<lparr>re_chunk_id = ch_id c, re_total = final, re_signals = signals, re_kept = kept,
                 re_drop_reason = (if kept then None
                   else if tiny_entity_free
                   then Some (''token_count '' @ show_nat token_count @ '' < minimum '' @ show_nat TOKEN_MIN @
                     '' and no entities extracted'')
                   else Some (''total '' @ tv_fixed3 env final @ '' < threshold '' @
                     tv_fixed3 env (sf_drop_threshold cfg))),
                 re_extracted = x', re_canonical_entities = canonicalise_entities (tv_lower env) x'\<rparr>)))"

fun score_chunks :: "text_env \<Rightarrow> scoring_config \<Rightarrow> chunk list \<Rightarrow> score_result list result" where
  "score_chunks env cfg [] = Inr []"
| "score_chunks env cfg (c # cs) = (case score_chunk env cfg c of Inl e \<Rightarrow> Inl e
     | Inr r \<Rightarrow> (case score_chunks env cfg cs of Inl e \<Rightarrow> Inl e | Inr rs \<Rightarrow> Inr (r # rs)))"

definition score_chunks_fast :: "text_env \<Rightarrow> scoring_config \<Rightarrow> chunk list \<Rightarrow> score_result list result" where
  "score_chunks_fast env cfg cs = score_chunks env (cfg\<lparr>sf_llm_extractor := None\<rparr>) cs"

subsection \<open>Persisting a score (mod.rs)\<close>

definition score_row_of :: "int \<Rightarrow> score_result \<Rightarrow> score_row" where
  "score_row_of now_ms r =
    \<lparr>sc_chunk_id = re_chunk_id r, sc_total = re_total r, sc_signals = re_signals r, sc_dropped = (\<not> re_kept r),
     sc_reason = re_drop_reason r, sc_computed_at_ms = now_ms,
     sc_llm_importance_reason = map_option utf8_encode (xs_reason (re_extracted r))\<rparr>"

definition persist_score_tx :: "int \<Rightarrow> score_result \<Rightarrow> int \<Rightarrow> string option \<Rightarrow> tree_db \<Rightarrow> tree_db" where
  "persist_score_tx now_ms r timestamp_ms tree_id db =
    (let scores = upsert_score_tx (score_row_of now_ms r) (db_scores db);
         cleared = snd (clear_entity_index_for_node_tx (re_chunk_id r) (db_entity_index db));
         db' = db\<lparr>db_scores := scores, db_entity_index := cleared\<rparr> in
     if re_kept r \<and> re_canonical_entities r \<noteq> []
     then (case index_entities_tx (re_canonical_entities r) (re_chunk_id r) ''leaf'' timestamp_ms tree_id
             (db_entity_index db', db_edges db') of
         (_, ix, es) \<Rightarrow> db'\<lparr>db_entity_index := ix, db_edges := es\<rparr>)
     else db')"

subsection \<open>Signals lie in the unit interval\<close>

definition in_unit :: "rat \<Rightarrow> bool" where "in_unit x \<longleftrightarrow> 0 \<le> x \<and> x \<le> 1"

lemma clamp_in_unit [simp]: "in_unit (clamp_unit x)"
  by (simp add: in_unit_def clamp_unit_def)

lemma clamp_mono: "x \<le> y \<Longrightarrow> clamp_unit x \<le> clamp_unit y"
  by (simp add: clamp_unit_def)

lemma token_count_in_unit [simp]: "in_unit (token_count_score n)"
  by (auto simp: in_unit_def token_count_score_def TOKEN_MIN_def TOKEN_RAMP_LOW_def TOKEN_RAMP_HIGH_def TOKEN_MAX_def
      divide_simps)

lemma unique_words_in_unit [simp]: "in_unit (unique_words_score alnum lower_u s)"
proof -
  have "in_unit (if r \<le> 3 / 10 then 0 else if r \<ge> 7 / 10 then 1 else (r - 3 / 10) / (4 / 10))" for r
    by (simp add: in_unit_def)
  moreover have "in_unit (1 / 2)" by (simp add: in_unit_def)
  ultimately have "in_unit (if b then 1 / 2 else if r \<le> 3 / 10 then 0 else if r \<ge> 7 / 10 then 1 else (r - 3 / 10) / (4 / 10))" for b r
    by presburger
  then show ?thesis unfolding unique_words_score_def Let_def .
qed

lemma metadata_weight_in_unit [simp]: "in_unit (metadata_weight_score k)"
  by (cases k) (simp_all add: in_unit_def)

lemma kind_default_in_unit [simp]: "in_unit (kind_default k)"
  by (cases k) (simp_all add: in_unit_def)

lemma source_weight_in_unit [simp]: "in_unit (source_weight_score env k tags)"
proof -
  have "in_unit w" if "weight_for_explicit ds = Some w" for ds w
    using that by (cases ds) (auto simp: in_unit_def)
  then show ?thesis by (auto simp: source_weight_score_def weight_for_def split: option.split)
qed

lemma interaction_in_unit [simp]: "in_unit (interaction_score tags)"
  using clamp_in_unit by (auto simp: interaction_score_def Let_def in_unit_def)

lemma density_in_unit [simp]: "in_unit (entity_density_score lower_u n x)"
  by (simp add: in_unit_def entity_density_score_def)

lemma combine_in_unit [simp]: "in_unit (combine g w)"
  using clamp_in_unit by (auto simp: combine_def Let_def in_unit_def)

lemma combine_cheap_in_unit [simp]: "in_unit (combine_cheap_only g w)"
  using clamp_in_unit by (auto simp: combine_cheap_only_def in_unit_def)

lemma boost_in_unit [simp]: "in_unit t \<Longrightarrow> in_unit (boost_priority priority t)"
  by (simp add: boost_priority_def in_unit_def Let_def)

lemma signals_in_unit [simp]:
  "in_unit (sg_token_count (compute_signals env c s n x))" "in_unit (sg_unique_words (compute_signals env c s n x))"
  "in_unit (sg_metadata_weight (compute_signals env c s n x))" "in_unit (sg_source_weight (compute_signals env c s n x))"
  "in_unit (sg_interaction (compute_signals env c s n x))" "in_unit (sg_entity_density (compute_signals env c s n x))"
  "in_unit (sg_llm_importance (compute_signals env c s n x))"
  by (simp_all add: compute_signals_def)

lemma boost_mono: "t \<le> u \<Longrightarrow> u \<le> 1 \<Longrightarrow> boost_priority priority t \<le> boost_priority priority u"
  by (simp add: boost_priority_def Let_def PRIORITY_BOOST_def min_def)

lemma boost_le: "t \<le> boost_priority priority t"
  by (simp add: boost_priority_def Let_def)

subsection \<open>Merging extractions\<close>

lemma push_unseen_keys: "set (map key (push_unseen key ys xs)) = key ` set xs \<union> key ` set ys"
  unfolding push_unseen_def by (induction ys arbitrary: xs) auto

lemma push_unseen_prefix: "\<exists>zs. push_unseen key ys xs = xs @ zs"
proof (induction ys arbitrary: xs)
  case (Cons y ys)
  show ?case using Cons.IH[of xs] Cons.IH[of "xs @ [y]"] by (auto simp: push_unseen_def)
qed (simp add: push_unseen_def)

lemma merge_entities_sub: "set (xs_entities x) \<subseteq> set (xs_entities (merge_extracted l x y))"
  using push_unseen_prefix[of "\<lambda>e. (xe_kind e, l (xe_text e), xe_span_start e)" "xs_entities y" "xs_entities x"]
  by (auto simp: merge_extracted_def Let_def)

lemma merge_count_mono: "unique_entity_count l x \<le> unique_entity_count l (merge_extracted l x y)"
  unfolding unique_entity_count_def set_map by (rule card_mono, simp) (rule image_mono[OF merge_entities_sub])

lemma merge_not_empty: "\<not> extracted_is_empty x \<Longrightarrow> \<not> extracted_is_empty (merge_extracted l x y)"
  using push_unseen_prefix[of "\<lambda>e. (xe_kind e, l (xe_text e), xe_span_start e)" "xs_entities y" "xs_entities x"]
    push_unseen_prefix[of xt_label "xs_topics y" "xs_topics x"]
  by (auto simp: extracted_is_empty_def merge_extracted_def Let_def)

lemma merge_importance_None:
  "xs_importance (merge_extracted l x y) = None \<longleftrightarrow> xs_importance x = None \<and> xs_importance y = None"
  by (simp add: merge_extracted_def merge_importance_def Let_def split: option.split)

lemma density_mono: "unique_entity_count l x \<le> unique_entity_count l y \<Longrightarrow> entity_density_score l n x \<le> entity_density_score l n y"
proof -
  assume "unique_entity_count l x \<le> unique_entity_count l y"
  then have "rat_of_nat (unique_entity_count l x) / of_nat n / (1 / 100) \<le> of_nat (unique_entity_count l y) / of_nat n / (1 / 100)"
    by (intro divide_right_mono) simp_all
  then show ?thesis unfolding entity_density_score_def by (simp only: min.mono order_refl if_True if_False split: if_split) simp
qed

lemma cheap_mono:
  assumes "0 \<le> sw_entity_density w" and "unique_entity_count (tv_lower env) x \<le> unique_entity_count (tv_lower env) y"
  shows "combine_cheap_only (compute_signals env c s n x) w \<le> combine_cheap_only (compute_signals env c s n y) w"
proof -
  have "cheap_sum (compute_signals env c s n x) w \<le> cheap_sum (compute_signals env c s n y) w"
    using mult_right_mono[OF density_mono[OF assms(2)] assms(1)] by (simp add: cheap_sum_def compute_signals_def)
  then show ?thesis by (auto simp: combine_cheap_only_def intro!: clamp_mono divide_right_mono)
qed

subsection \<open>Canonical ids\<close>

lemma kind_no_colon: "CHR '':'' \<notin> set (entity_kind_as_str k)"
  by (cases k) simp_all

lemma canonical_id_kind: "canonical_id_for l k s = canonical_id_for l' k' s' \<Longrightarrow> k = k'"
proof -
  have before: "takeWhile (\<lambda>c. c \<noteq> CHR '':'') (entity_kind_as_str k @ '':'' @ w) = entity_kind_as_str k" for k w
    using kind_no_colon[of k] by (subst takeWhile_append2) auto
  assume "canonical_id_for l k s = canonical_id_for l' k' s'"
  then have "entity_kind_as_str k = entity_kind_as_str k'"
    unfolding canonical_id_for_def Let_def by (metis before)
  then show ?thesis using entity_kind_parse_as_str by (metis sum.inject(2))
qed

definition topic_ids :: "canonical_entity list \<Rightarrow> string list" where
  "topic_ids es = map ce_canonical_id (filter (\<lambda>e. ce_kind e = Topic_Entity) es)"

lemma promote_topic_ids: "topic_ids (promote_topic l t out) =
    topic_ids out @ (if canonical_id_for l Topic_Entity (xt_label t) \<in> set (topic_ids out) then []
      else [canonical_id_for l Topic_Entity (xt_label t)])"
  by (auto simp: promote_topic_def Let_def list_ex_iff topic_ids_def intro: rev_image_eqI)

lemma promote_topics_ids: "set (topic_ids (fold (promote_topic l) ts out)) =
    set (topic_ids out) \<union> (\<lambda>t. canonical_id_for l Topic_Entity (xt_label t)) ` set ts"
  by (induction ts arbitrary: out) (auto simp: promote_topic_ids)

lemma promote_topics_distinct: "distinct (topic_ids out) \<Longrightarrow> distinct (topic_ids (fold (promote_topic l) ts out))"
  by (induction ts arbitrary: out) (auto simp: promote_topic_ids)

lemma promote_topics_others: "filter (\<lambda>e. ce_kind e \<noteq> Topic_Entity) (fold (promote_topic l) ts out) =
    filter (\<lambda>e. ce_kind e \<noteq> Topic_Entity) out"
  by (induction ts arbitrary: out) (auto simp: promote_topic_def Let_def)

text \<open>
  Canonicalisation keeps every extracted entity that is no topic, in order and one row per occurrence; every
  topic label is found under its canonical id, and when the extractors call no entity a topic no topic is
  listed twice.
\<close>
theorem topics_promoted_once:
  "filter (\<lambda>e. ce_kind e \<noteq> Topic_Entity) (canonicalise_entities l x) =
      map (canonical_of_entity l) (filter (\<lambda>e. xe_kind e \<noteq> Topic_Entity) (xs_entities x)) \<and>
   (\<lambda>t. canonical_id_for l Topic_Entity (xt_label t)) ` set (xs_topics x) \<subseteq> set (topic_ids (canonicalise_entities l x)) \<and>
   distinct (topic_ids (canonicalise_entities l (x\<lparr>xs_entities := filter (\<lambda>e. xe_kind e \<noteq> Topic_Entity) (xs_entities x)\<rparr>)))"
proof -
  have "topic_ids (map (canonical_of_entity l) (filter (\<lambda>e. xe_kind e \<noteq> Topic_Entity) es)) = []" for es
    by (induction es) (simp_all add: topic_ids_def canonical_of_entity_def)
  moreover have "filter (\<lambda>e. ce_kind e \<noteq> Topic_Entity) (map (canonical_of_entity l) es) =
      map (canonical_of_entity l) (filter (\<lambda>e. xe_kind e \<noteq> Topic_Entity) es)" for es
    by (induction es) (simp_all add: canonical_of_entity_def)
  ultimately show ?thesis
    unfolding canonicalise_entities_def
    by (auto simp: promote_topics_others promote_topics_ids intro: promote_topics_distinct)
qed

subsection \<open>A persisted score replaces what the chunk had\<close>

lemma index_rows_other:
  "filter (\<lambda>q. ix_node_id q \<noteq> n) (fold (\<lambda>e. index_upsert (entity_row n k ts tid e)) es t) = filter (\<lambda>q. ix_node_id q \<noteq> n) t"
proof (induction es arbitrary: t)
  case (Cons e es)
  have "filter (\<lambda>q. ix_node_id q \<noteq> n) (index_upsert (entity_row n k ts tid e) t) = filter (\<lambda>q. ix_node_id q \<noteq> n) t"
    unfolding index_upsert_def sql_replace_def sql_delete_def entity_row_def by (induction t) auto
  then show ?case using Cons by simp
qed simp

lemma index_upsert_own:
  "ix_entity_id ` {q \<in> set (index_upsert row t). ix_node_id q = ix_node_id row} =
    insert (ix_entity_id row) (ix_entity_id ` {q \<in> set t. ix_node_id q = ix_node_id row})"
  by (auto simp: index_upsert_def sql_replace_def intro: rev_image_eqI)

lemma index_rows_own:
  "ix_entity_id ` {q \<in> set (fold (\<lambda>e. index_upsert (entity_row n k ts tid e)) es t). ix_node_id q = n} =
    ix_entity_id ` {q \<in> set t. ix_node_id q = n} \<union> ce_canonical_id ` set es"
proof (induction es arbitrary: t)
  case (Cons e es)
  have "ix_entity_id ` {q \<in> set (index_upsert (entity_row n k ts tid e) t). ix_node_id q = n} =
      insert (ce_canonical_id e) (ix_entity_id ` {q \<in> set t. ix_node_id q = n})"
    using index_upsert_own[of "entity_row n k ts tid e" t] by (simp add: entity_row_def)
  then show ?case using Cons.IH[of "index_upsert (entity_row n k ts tid e) t"] by auto
qed simp

lemma persist_index_cases:
  "db_entity_index (persist_score_tx now r ts tid db) =
    (let cleared = sql_delete (\<lambda>q. ix_node_id q = re_chunk_id r) (db_entity_index db) in
     if re_kept r then fold (\<lambda>e. index_upsert (entity_row (re_chunk_id r) ''leaf'' ts tid e)) (re_canonical_entities r) cleared
     else cleared)"
  by (simp add: persist_score_tx_def clear_entity_index_for_node_tx_def index_entities_tx_def Let_def)

text \<open>
  C27: persisting a score replaces all the index says of the chunk: afterwards the chunk is listed under exactly
  its canonical entities if it is kept and under none if it is dropped, no other node's rows are touched,
  the score row reads back, and both tables stay well-formed.
\<close>
theorem persist_replaces_index:
  assumes "scores_ok (db_scores db)" and "index_ok (db_entity_index db)"
  shows "let db' = persist_score_tx now r ts tid db in
    ix_entity_id ` {q \<in> set (db_entity_index db'). ix_node_id q = re_chunk_id r} =
      (if re_kept r then ce_canonical_id ` set (re_canonical_entities r) else {}) \<and>
    filter (\<lambda>q. ix_node_id q \<noteq> re_chunk_id r) (db_entity_index db') =
      filter (\<lambda>q. ix_node_id q \<noteq> re_chunk_id r) (db_entity_index db) \<and>
    map_option (\<lambda>s. (sc_total s, sc_dropped s)) (get_score (re_chunk_id r) (db_scores db')) = Some (re_total r, \<not> re_kept r) \<and>
    scores_ok (db_scores db') \<and> index_ok (db_entity_index db')"
proof -
  let ?t = "sql_delete (\<lambda>q. ix_node_id q = re_chunk_id r) (db_entity_index db)"
  have rest: "filter (\<lambda>q. ix_node_id q \<noteq> re_chunk_id r) ?t = filter (\<lambda>q. ix_node_id q \<noteq> re_chunk_id r) (db_entity_index db)"
    unfolding sql_delete_def by simp
  have ok: "index_ok ?t" using assms(2) unfolding index_ok_def by (rule distinct_map_delete)
  have "db_scores (persist_score_tx now r ts tid db) = upsert_score_tx (score_row_of now r) (db_scores db)"
    by (simp add: persist_score_tx_def index_entities_tx_def Let_def)
  then show ?thesis
    using assms(1) rest ok
    by (auto simp: persist_index_cases Let_def index_rows_own index_rows_other get_score_upsert score_of_db_def
        score_to_db_def score_row_of_def intro!: upsert_score_ok fold_ok[of index_ok] index_upsert_ok)
qed

subsection \<open>The score is a fraction\<close>

text \<open>
  Whatever the weights and thresholds, a score and every signal it is combined from lie between 0 and 1,
  and the reason a chunk is dropped is recorded exactly when it is dropped.
\<close>
theorem scores_in_unit_interval:
  assumes "score_chunk env cfg c = Inr r"
  shows "in_unit (re_total r) \<and> in_unit (sg_token_count (re_signals r)) \<and> in_unit (sg_unique_words (re_signals r))
    \<and> in_unit (sg_metadata_weight (re_signals r)) \<and> in_unit (sg_source_weight (re_signals r))
    \<and> in_unit (sg_interaction (re_signals r)) \<and> in_unit (sg_entity_density (re_signals r))
    \<and> in_unit (sg_llm_importance (re_signals r)) \<and> (re_kept r \<longleftrightarrow> re_drop_reason r = None)"
  using assms signals_in_unit
  by (auto simp: score_chunk_def Let_def split: sum.splits prod.splits if_splits)

subsection \<open>What the LLM can do\<close>

text \<open>A decision, with the parts the proofs below speak of.\<close>

definition cheap_total_of :: "text_env \<Rightarrow> scoring_config \<Rightarrow> chunk \<Rightarrow> extracted \<Rightarrow> rat" where
  "cheap_total_of env cfg c x =
    combine_cheap_only (compute_signals env c (scoring_content c) (tv_approx env (scoring_content c)) x) (sf_weights cfg)"

definition too_thin :: "text_env \<Rightarrow> chunk \<Rightarrow> extracted \<Rightarrow> bool" where
  "too_thin env c x \<longleftrightarrow> \<not> is_priority c \<and> tv_approx env (scoring_content c) < TOKEN_MIN \<and> extracted_is_empty x"

lemma score_chunk_unrated:
  assumes "sf_extractor cfg (scoring_content c) = Inr x"
    and "consult env cfg (scoring_content c) (cheap_total_of env cfg c x) x = (y, False)"
  shows "\<exists>r. score_chunk env cfg c = Inr r \<and> re_total r = boost_priority (is_priority c) (cheap_total_of env cfg c y)
    \<and> (re_kept r \<longleftrightarrow> \<not> too_thin env c y \<and> sf_drop_threshold cfg \<le> re_total r)"
  using assms by (simp add: score_chunk_def cheap_total_of_def too_thin_def Let_def)

text \<open>An extractor that never rates: it fails, or finds entities at most.\<close>

definition unrated :: "extractor \<Rightarrow> utext \<Rightarrow> bool" where
  "unrated ex content \<longleftrightarrow> (case ex content of Inr x \<Rightarrow> xs_importance x = None | Inl _ \<Rightarrow> True)"

lemma consult_unrated:
  assumes "xs_importance x = None" and "case sf_llm_extractor cfg of Some llm \<Rightarrow> unrated llm content | None \<Rightarrow> True"
  shows "\<exists>y. consult env cfg content t x = (y, False) \<and>
    (y = x \<or> (\<exists>z. y = merge_extracted (tv_lower env) x z))"
  using assms merge_importance_None[of "tv_lower env" x]
  by (auto simp: consult_def unrated_def Let_def split: option.splits sum.splits)

text \<open>
  C26: an LLM that fails, or answers without a rating, never costs a chunk its place: the chunk scores at
  least what it scores with no LLM configured, and it is kept if it is kept there.
\<close>
theorem unrated_llm_never_drops:
  assumes "0 \<le> sw_entity_density (sf_weights cfg)"
    and "sf_extractor cfg (scoring_content c) = Inr x" and "xs_importance x = None"
    and "sf_llm_extractor cfg = Some llm" and "unrated llm (scoring_content c)"
  shows "\<exists>fast slow. score_chunk env (cfg\<lparr>sf_llm_extractor := None\<rparr>) c = Inr fast \<and> score_chunk env cfg c = Inr slow \<and>
    re_total fast \<le> re_total slow \<and> (re_kept fast \<longrightarrow> re_kept slow)"
proof -
  let ?fast = "cfg\<lparr>sf_llm_extractor := None\<rparr>" and ?b = "boost_priority (is_priority c)"
  have same: "cheap_total_of env ?fast c = cheap_total_of env cfg c" by (rule ext) (simp add: cheap_total_of_def)
  have f: "sf_extractor ?fast (scoring_content c) = Inr x" "sf_drop_threshold ?fast = sf_drop_threshold cfg"
    using assms(2) by simp_all
  have "consult env ?fast (scoring_content c) (cheap_total_of env ?fast c x) x = (x, False)" by (simp add: consult_def)
  note unrated = score_chunk_unrated[OF f(1) this, unfolded same f(2)]
  obtain fast where fast: "score_chunk env ?fast c = Inr fast" "re_total fast = ?b (cheap_total_of env cfg c x)"
      "re_kept fast \<longleftrightarrow> \<not> too_thin env c x \<and> sf_drop_threshold cfg \<le> re_total fast"
    using unrated by blast
  obtain y where y: "consult env cfg (scoring_content c) (cheap_total_of env cfg c x) x = (y, False)"
      "y = x \<or> (\<exists>z. y = merge_extracted (tv_lower env) x z)"
    using consult_unrated[OF assms(3), of "scoring_content c" cfg env] assms(4,5) by auto
  obtain slow where slow: "score_chunk env cfg c = Inr slow" "re_total slow = ?b (cheap_total_of env cfg c y)"
      "re_kept slow \<longleftrightarrow> \<not> too_thin env c y \<and> sf_drop_threshold cfg \<le> re_total slow"
    using score_chunk_unrated[OF assms(2) y(1)] by blast
  have "cheap_total_of env cfg c x \<le> cheap_total_of env cfg c y"
    unfolding cheap_total_of_def using y(2) by (auto intro!: cheap_mono assms(1) merge_count_mono)
  moreover have "cheap_total_of env cfg c y \<le> 1"
    using combine_cheap_in_unit unfolding cheap_total_of_def in_unit_def by blast
  ultimately have "re_total fast \<le> re_total slow" unfolding fast(2) slow(2) by (rule boost_mono)
  moreover have "too_thin env c y \<Longrightarrow> too_thin env c x"
    using y(2) merge_not_empty by (auto simp: too_thin_def)
  ultimately show ?thesis using fast slow by auto
qed

text \<open>
  With thresholds in their order, the two short circuits are the final word: at or below the definite-drop
  threshold a chunk without the priority tag is dropped, at or above the definite-keep threshold a chunk is kept
  unless it is tiny and holds no entity; the LLM is not asked in either case.
\<close>
theorem short_circuits_are_final:
  assumes "sf_definite_drop_threshold cfg < sf_drop_threshold cfg"
    and "sf_drop_threshold cfg \<le> sf_definite_keep_threshold cfg"
    and "sf_extractor cfg (scoring_content c) = Inr x"
    and "cheap_total_of env cfg c x \<le> sf_definite_drop_threshold cfg \<or> sf_definite_keep_threshold cfg \<le> cheap_total_of env cfg c x"
  shows "\<exists>r. score_chunk env cfg c = Inr r \<and> score_chunk env (cfg\<lparr>sf_llm_extractor := other\<rparr>) c = Inr r \<and>
    (if cheap_total_of env cfg c x \<le> sf_definite_drop_threshold cfg then \<not> is_priority c \<longrightarrow> \<not> re_kept r
     else re_kept r \<longleftrightarrow> \<not> too_thin env c x)"
proof -
  have skip: "consult env cfg (scoring_content c) (cheap_total_of env cfg c x) x = (x, False)"
    "consult env (cfg\<lparr>sf_llm_extractor := other\<rparr>) (scoring_content c) (cheap_total_of env cfg c x) x = (x, False)"
    using assms(4) by (auto simp: consult_def)
  then have same: "score_chunk env cfg c = score_chunk env (cfg\<lparr>sf_llm_extractor := other\<rparr>) c"
    using assms(3) by (simp add: score_chunk_def cheap_total_of_def Let_def)
  obtain r where r: "score_chunk env cfg c = Inr r" "re_total r = boost_priority (is_priority c) (cheap_total_of env cfg c x)"
      "re_kept r \<longleftrightarrow> \<not> too_thin env c x \<and> sf_drop_threshold cfg \<le> re_total r"
    using score_chunk_unrated[OF assms(3) skip(1)] by blast
  have "cheap_total_of env cfg c x \<le> re_total r" unfolding r(2) by (rule boost_le)
  then show ?thesis
    using r same assms(1,2,4) by (auto simp: boost_priority_def)
qed

text \<open>
  A validated policy may break that order, and then the words are reversed: this policy validates, the
  cheap total of the chunk is at most its definite-drop threshold, and the chunk is kept.
\<close>

definition plain_env :: text_env where
  "plain_env = \<lparr>tv_alnum = (\<lambda>c. True), tv_lower = (\<lambda>s. s), tv_approx = (\<lambda>s. 20), tv_parse_source = (\<lambda>s. None),
     tv_source_kind = (\<lambda>d. Kind_Document), tv_fixed3 = (\<lambda>r. ''r'')\<rparr>"

definition nothing_found :: extractor where "nothing_found content = Inr extracted_default"

definition sample_chunk_text :: "utext \<Rightarrow> chunk" where
  "sample_chunk_text s = \<lparr>ch_id = ''c'', ch_content = s, ch_source_kind = Kind_Document, ch_source_id = ''s'', ch_owner = ''o'',
     ch_timestamp = 1, ch_time_range = (1, 1), ch_tags = [], ch_source_ref = None, ch_path_scope = None,
     ch_token_count = 20, ch_seq_in_source = 0, ch_created_at = 1\<rparr>"

definition words_only :: signal_weights where
  "words_only = \<lparr>sw_token_count = 0, sw_unique_words = 1, sw_metadata_weight = 0, sw_source_weight = 0,
     sw_interaction = 0, sw_entity_density = 0, sw_llm_importance = 0\<rparr>"

definition crossed_policy :: scoring_policy where
  "crossed_policy = \<lparr>py_weights = words_only, py_drop_threshold = 1 / 4, py_definite_keep_threshold = 1,
     py_definite_drop_threshold = 3 / 4\<rparr>"

lemmas scoring_sample = plain_env_def nothing_found_def sample_chunk_text_def words_only_def crossed_policy_def
  extracted_default_def scoring_content_def unique_words_score_def split_words_def combine_cheap_only_def cheap_weight_def
  cheap_sum_def compute_signals_def clamp_unit_def MIN_TOTAL_WORDS_def

text \<open>
  The validation of the scoring policy does not relate the definite thresholds to the drop threshold, so a
  chunk that scores at most the threshold "for unconditional rejection" can be admitted.
\<close>
theorem definite_drop_admits:
  "validate_scoring crossed_policy = Inr () \<and>
   (let cfg = scoring_from_policy (\<lambda>s. s) nothing_found crossed_policy; c = sample_chunk_text (utext_of ''a b'') in
    cheap_total_of plain_env cfg c extracted_default \<le> sf_definite_drop_threshold cfg \<and>
    map_sum id re_kept (score_chunk plain_env cfg c) = Inr True)"
proof -
  let ?cfg = "scoring_from_policy (\<lambda>s. s) nothing_found crossed_policy"
  let ?c = "sample_chunk_text (utext_of ''a b'')"
  have x: "sf_extractor ?cfg (scoring_content ?c) = Inr extracted_default"
    by (simp add: scoring_from_policy_def composite_extract_def nothing_found_def merge_extracted_def push_unseen_def
        merge_importance_def extracted_default_def)
  have v: "validate_scoring crossed_policy = Inr ()" by (simp add: validate_scoring_def crossed_policy_def)
  have t: "cheap_total_of plain_env ?cfg ?c extracted_default = 1 / 2"
    by (simp add: cheap_total_of_def scoring_from_policy_def scoring_sample utext_of_def is_white_def trim_matches_def Let_def)
  have "consult plain_env ?cfg (scoring_content ?c) (1 / 2) extracted_default = (extracted_default, False)"
    by (simp add: consult_def scoring_from_policy_def)
  note decided = score_chunk_unrated[OF x, of plain_env, unfolded t, OF this]
  obtain r where r: "score_chunk plain_env ?cfg ?c = Inr r"
      "re_total r = boost_priority (is_priority ?c) (cheap_total_of plain_env ?cfg ?c extracted_default)"
      "re_kept r \<longleftrightarrow> \<not> too_thin plain_env ?c extracted_default \<and> sf_drop_threshold ?cfg \<le> re_total r"
    unfolding t using decided by (elim exE conjE) (rule that)
  have "re_kept r"
    using r(3) unfolding r(2) t
    by (simp add: too_thin_def plain_env_def TOKEN_MIN_def is_priority_def sample_chunk_text_def boost_priority_def
        scoring_from_policy_def crossed_policy_def)
  then show ?thesis
    unfolding Let_def r(1) t v by (simp add: scoring_from_policy_def crossed_policy_def)
qed

definition words_cfg :: "extractor option \<Rightarrow> scoring_config" where
  "words_cfg llm = \<lparr>sf_extractor = nothing_found, sf_weights = words_only, sf_drop_threshold = 1 / 4,
     sf_llm_extractor = llm, sf_definite_keep_threshold = 3 / 4, sf_definite_drop_threshold = 1 / 8\<rparr>"

theorem scores_in_unit_interval_witness:
  "in_unit (re_total (projr (score_chunk plain_env (words_cfg None) (sample_chunk_text []))))"
proof -
  have "\<exists>r. score_chunk plain_env (words_cfg None) (sample_chunk_text []) = Inr r"
    by (auto simp: score_chunk_def words_cfg_def nothing_found_def Let_def split: prod.split)
  then obtain r where r: "score_chunk plain_env (words_cfg None) (sample_chunk_text []) = Inr r" by blast
  show ?thesis using scores_in_unit_interval[OF r] unfolding r by simp
qed

theorem unrated_llm_never_drops_witness:
  "\<exists>fast slow. score_chunk plain_env (words_cfg None) (sample_chunk_text []) = Inr fast \<and>
    score_chunk plain_env (words_cfg (Some (\<lambda>s. Inl (plain_error ''down'')))) (sample_chunk_text []) = Inr slow \<and>
    re_total fast \<le> re_total slow"
  using unrated_llm_never_drops[of "words_cfg (Some (\<lambda>s. Inl (plain_error ''down'')))" "sample_chunk_text []"
      extracted_default "\<lambda>s. Inl (plain_error ''down'')" plain_env]
  by (auto simp: words_cfg_def words_only_def nothing_found_def extracted_default_def unrated_def)

theorem short_circuits_are_final_witness:
  "\<exists>r. score_chunk plain_env ((words_cfg None)\<lparr>sf_definite_keep_threshold := 1 / 3\<rparr>) (sample_chunk_text []) = Inr r \<and> re_kept r"
proof -
  let ?cfg = "(words_cfg None)\<lparr>sf_definite_keep_threshold := 1 / 3\<rparr>" and ?c = "sample_chunk_text []"
  have t: "cheap_total_of plain_env ?cfg ?c extracted_default = 1 / 2"
    by (simp add: cheap_total_of_def words_cfg_def scoring_sample Let_def)
  have "\<not> too_thin plain_env ?c extracted_default" by (simp add: too_thin_def plain_env_def TOKEN_MIN_def)
  then show ?thesis
    using short_circuits_are_final[of ?cfg ?c extracted_default plain_env None] unfolding t
    by (auto simp: words_cfg_def nothing_found_def)
qed

definition empty_tree_db :: tree_db where
  "empty_tree_db = \<lparr>db_trees = [], db_buffers = [], db_summaries = [], db_summary_embeddings = [], db_reembed_skipped = [],
     db_chunks = [], db_scores = [], db_entity_index = [], db_edges = [], db_hotness = [], db_jobs = []\<rparr>"

definition sample_result :: score_result where
  "sample_result = \<lparr>re_chunk_id = ''c'', re_total = 1 / 2,
     re_signals = compute_signals plain_env (sample_chunk_text []) [] 20 extracted_default, re_kept = True, re_drop_reason = None,
     re_extracted = extracted_default, re_canonical_entities = [canonical_of_entity (\<lambda>s. s)
       \<lparr>xe_kind = Person, xe_text = [65], xe_span_start = 0, xe_span_end = 1, xe_score = 1\<rparr>]\<rparr>"

theorem persist_replaces_index_witness:
  "ix_entity_id ` {q \<in> set (db_entity_index (persist_score_tx 5 sample_result 5 None empty_tree_db)). ix_node_id q = ''c''} =
    {''person:A''}"
proof -
  have "scores_ok (db_scores empty_tree_db)" "index_ok (db_entity_index empty_tree_db)"
    by (simp_all add: empty_tree_db_def scores_ok_def index_ok_def)
  note after = persist_replaces_index[OF this, of 5 sample_result 5 None, unfolded Let_def, THEN conjunct1]
  have c: "re_chunk_id sample_result = ''c''" "re_kept sample_result" by (simp_all add: sample_result_def)
  have "ce_canonical_id ` set (re_canonical_entities sample_result) = {''person:A''}"
    by (simp add: sample_result_def canonical_of_entity_def canonical_id_for_def trim_def is_white_def utf8_encode_def
        utf8_bytes_def) code_simp
  then show ?thesis using after c by simp
qed

end
