(* ===== verification/Semantic_Chunker.thy ===== *)
theory Semantic_Chunker
  imports Chunker
begin

section \<open>Cutting by headings (src/memory/chunks/semantic.rs)\<close>

text \<open>
  The second chunker cuts one document at headings, then paragraphs, then lines. Sizes are UTF-8 bytes;
  text is a list of code points, and the code cuts only where one begins.
\<close>

definition utf8_len :: "nat \<Rightarrow> nat" where
  "utf8_len c = (if c < 128 then 1 else if c < 2048 then 2 else if c < 65536 then 3 else 4)"

definition blen :: "utext \<Rightarrow> nat" where "blen s = sum_list (map utf8_len s)"

record semantic_chunk =
  sk_index :: nat
  sk_content :: utext
  sk_heading :: "utext option"

definition is_atx_heading :: "utext \<Rightarrow> bool" where
  "is_atx_heading line \<longleftrightarrow> (\<exists>k\<in>set [1..<7]. take (k + 1) line = replicate k 35 @ [32])"

definition heading_step :: "utext \<Rightarrow> (utext option \<times> utext) list \<times> utext option \<times> utext \<Rightarrow>
    (utext option \<times> utext) list \<times> utext option \<times> utext" where
  "heading_step line st =
    (case st of (sections, heading, body) \<Rightarrow>
      (if is_atx_heading line
       then (if trim body \<noteq> [] \<or> heading \<noteq> None then (sections @ [(heading, body)], Some line, [])
             else (sections, Some line, body))
       else (sections, heading, body @ line @ [10])))"

definition split_on_headings :: "utext \<Rightarrow> (utext option \<times> utext) list" where
  "split_on_headings text =
    (case fold heading_step (lines_of text) ([], None, []) of (sections, heading, body) \<Rightarrow>
      (if trim body \<noteq> [] \<or> heading \<noteq> None then sections @ [(heading, body)] else sections))"

definition blank_step :: "utext \<Rightarrow> utext list \<times> utext \<Rightarrow> utext list \<times> utext" where
  "blank_step line st =
    (case st of (paragraphs, current) \<Rightarrow>
      (if trim line = [] then (if trim current \<noteq> [] then (paragraphs @ [current], []) else (paragraphs, current))
       else (paragraphs, current @ line @ [10])))"

definition split_on_blank_lines :: "utext \<Rightarrow> utext list" where
  "split_on_blank_lines text =
    (case fold blank_step (lines_of text) ([], []) of (paragraphs, current) \<Rightarrow>
      (if trim current \<noteq> [] then paragraphs @ [current] else paragraphs))"

text \<open>How many code points fit, one at least; then back to after the last space among them, if any.\<close>

fun fitting :: "nat \<Rightarrow> utext \<Rightarrow> nat" where
  "fitting room [] = 0"
| "fitting room (c # cs) = (if utf8_len c \<le> room then Suc (fitting (room - utf8_len c) cs) else 0)"

definition cut_at :: "utext \<Rightarrow> nat \<Rightarrow> nat" where
  "cut_at line max_chars =
    (let last_end = max 1 (fitting max_chars line);
         split_at = last_end - length (takeWhile (\<lambda>c. c \<noteq> 32) (rev (take last_end line)))
     in if split_at = 0 then last_end else split_at)"

lemma cut_at_pos: "0 < cut_at line max_chars"
  by (auto simp: cut_at_def Let_def max_def)

function split_within_line :: "utext \<Rightarrow> nat \<Rightarrow> utext list" where
  "split_within_line line max_chars =
    (if line = [] then []
     else if blen line \<le> max_chars then [line @ [10]]
     else
       (let n = cut_at line max_chars; rest = drop n line
        in (take n line @ [10]) # split_within_line (if take 1 rest = [32] then drop 1 rest else rest) max_chars))"
  by pat_completeness auto
termination by (relation "measure (\<lambda>(line, _). length line)") (auto simp: cut_at_pos)

declare split_within_line.simps [simp del]

definition lines_step :: "nat \<Rightarrow> utext \<Rightarrow> utext list \<times> utext \<Rightarrow> utext list \<times> utext" where
  "lines_step effective_max line st =
    (case st of (chunks, current) \<Rightarrow>
      (if blen line > effective_max
       then ((if current \<noteq> [] then chunks @ [current] else chunks) @ split_within_line line effective_max, [])
       else if blen current + blen line + 1 > effective_max \<and> current \<noteq> []
       then (chunks @ [current], line @ [10])
       else (chunks, current @ line @ [10])))"

definition split_on_lines :: "utext \<Rightarrow> nat \<Rightarrow> utext list" where
  "split_on_lines text max_chars =
    (case fold (lines_step (max max_chars 1)) (lines_of text) ([], []) of (chunks, current) \<Rightarrow>
      (if current \<noteq> [] then chunks @ [current] else chunks))"

text \<open>A paragraph of a section that does not fit: the contents emitted so far and the open buffer.\<close>

definition emit_open :: "utext \<Rightarrow> utext list \<times> utext \<Rightarrow> utext list \<times> utext" where
  "emit_open heading_prefix st =
    (case st of (out, current) \<Rightarrow> if trim current \<noteq> [] then (out @ [trim current], heading_prefix) else (out, current))"

definition paragraph_step :: "utext \<Rightarrow> nat \<Rightarrow> utext \<Rightarrow> utext list \<times> utext \<Rightarrow> utext list \<times> utext" where
  "paragraph_step heading_prefix max_chars para st =
    (let st1 = (if blen (snd st) + blen para > max_chars then emit_open heading_prefix st else st) in
     if blen para > max_chars
     then (case emit_open heading_prefix st1 of (out, current) \<Rightarrow>
            (out @ map trim (split_on_lines para max_chars), current))
     else (fst st1, snd st1 @ para @ [10]))"

definition section_contents :: "nat \<Rightarrow> utext option \<times> utext \<Rightarrow> utext list" where
  "section_contents max_chars sec =
    (case sec of (heading, body) \<Rightarrow>
      (let heading_prefix = (case heading of Some h \<Rightarrow> h @ [10] | None \<Rightarrow> []) in
       if blen body + blen heading_prefix \<le> max_chars then [trim (heading_prefix @ body)]
       else
         (case fold (paragraph_step heading_prefix max_chars) (split_on_blank_lines body) ([], heading_prefix) of
            (out, current) \<Rightarrow> (if trim current \<noteq> [] then out @ [trim current] else out))))"

definition chunk_semantic :: "utext \<Rightarrow> nat \<Rightarrow> semantic_chunk list" where
  "chunk_semantic text max_tokens =
    (if trim text = [] then []
     else
       (let contents = concat (map (\<lambda>sec. map (\<lambda>c. (c, fst sec)) (section_contents (max_tokens * 4) sec))
              (split_on_headings text))
        in map (\<lambda>(i, c, h). \<lparr>sk_index = i, sk_content = c, sk_heading = h\<rparr>)
             (enumerate 0 (filter (\<lambda>(c, _). c \<noteq> []) contents))))"

subsection \<open>Lines are cut between words and nothing else is dropped\<close>

lemma split_within_line_tile:
  "filter (\<lambda>c. c \<noteq> 32 \<and> c \<noteq> 10) (concat (split_within_line line max_chars)) = filter (\<lambda>c. c \<noteq> 32 \<and> c \<noteq> 10) line"
proof (induction line max_chars rule: split_within_line.induct)
  case (1 line max_chars)
  let ?P = "\<lambda>c :: nat. c \<noteq> 32 \<and> c \<noteq> 10"
  let ?n = "cut_at line max_chars"
  have "filter ?P (if take 1 (drop ?n line) = [32] then drop 1 (drop ?n line) else drop ?n line) = filter ?P (drop ?n line)"
    by (cases "drop ?n line") auto
  moreover have "filter ?P (take ?n line) @ filter ?P (drop ?n line) = filter ?P line"
    by (metis append_take_drop_id filter_append)
  ultimately show ?case
    using "1.IH"[OF _ _ refl refl] by (subst split_within_line.simps) (simp add: Let_def)
qed

lemma fitting_blen: "blen (take (fitting room cs) cs) \<le> room"
  by (induction room cs rule: fitting.induct) (auto simp: blen_def)

lemma blen_take_mono: "k \<le> n \<Longrightarrow> blen (take k cs) \<le> blen (take n cs)"
  by (metis blen_def le_add1 min.absorb1 append_take_drop_id map_append sum_list_append take_take)

lemma split_within_line_bound:
  assumes "p \<in> set (split_within_line line max_chars)"
  shows "blen p \<le> max max_chars 4 + 1"
  using assms
proof (induction line max_chars rule: split_within_line.induct)
  case (1 line max_chars)
  have "blen (take (cut_at line max_chars) line) \<le> max max_chars 4"
  proof -
    have "cut_at line max_chars \<le> max 1 (fitting max_chars line)" by (auto simp: cut_at_def Let_def)
    then have "blen (take (cut_at line max_chars) line) \<le> blen (take (max 1 (fitting max_chars line)) line)"
      by (rule blen_take_mono)
    also have "\<dots> \<le> max max_chars 4"
    proof (cases "fitting max_chars line")
      case 0
      then show ?thesis by (cases line) (auto simp: blen_def utf8_len_def)
    next
      case (Suc n)
      then show ?thesis using fitting_blen[of max_chars line] by (simp add: max_def)
    qed
    finally show ?thesis .
  qed
  then show ?case
    using "1.prems" "1.IH"[OF _ _ refl refl] by (subst (asm) split_within_line.simps) (auto simp: Let_def blen_def utf8_len_def split: if_splits)
qed

subsection \<open>A long paragraph leaves its heading behind\<close>

lemma trim_line: "h \<noteq> [] \<Longrightarrow> \<not> is_white (hd h) \<Longrightarrow> \<not> is_white (last h) \<Longrightarrow> trim (h @ [10]) = h"
proof -
  assume h: "h \<noteq> []" "\<not> is_white (hd h)" "\<not> is_white (last h)"
  have "dropWhile is_white (h @ [10]) = h @ [10]" using h(1,2) by (cases h) simp_all
  moreover have "dropWhile is_white (rev h) = rev h" using h(1,3) by (cases h rule: rev_cases) simp_all
  moreover have "is_white 10" by (simp add: is_white_def)
  ultimately show ?thesis by (simp add: trim_def)
qed

lemma chunk_semantic_contents:
  "map sk_content (chunk_semantic text max_tokens) =
    (if trim text = [] then []
     else filter (\<lambda>c. c \<noteq> []) (concat (map (section_contents (max_tokens * 4)) (split_on_headings text))))"
proof -
  have one: "map (\<lambda>(i, c, h). c) (enumerate n xs) = map fst xs" for n and xs :: "(utext \<times> utext option) list"
    by (induction xs arbitrary: n) auto
  have two: "map fst (filter (\<lambda>(c, _). c \<noteq> []) (concat (map (\<lambda>sec. map (\<lambda>c. (c, f sec)) (g sec)) secs))) =
      filter (\<lambda>c. c \<noteq> []) (concat (map g secs))" for f :: "'s \<Rightarrow> 'h" and g :: "'s \<Rightarrow> utext list" and secs
    by (induction secs) (simp_all add: filter_map comp_def)
  show ?thesis
    using one[of 0] two[of fst "section_contents (max_tokens * 4)" "split_on_headings text"]
    by (simp add: chunk_semantic_def Let_def comp_def case_prod_unfold)
qed

lemma atx_first:
  assumes "is_atx_heading h"
  shows "h \<noteq> [] \<and> hd h = 35"
proof -
  obtain k where k: "k \<in> set [1..<7]" "take (k + 1) h = replicate k 35 @ [32]"
    using assms by (auto simp only: is_atx_heading_def)
  then have "0 < k" by simp
  then obtain j where "k = Suc j" by (cases k) simp_all
  with k(2) show ?thesis by (cases h) auto
qed

text \<open>
  A section whose one paragraph is too long to fit comes out with its heading alone as a chunk twice
  before the paragraph's pieces and once after them: every time the buffer is reset it holds the
  heading again, and a buffer that holds only the heading counts as content.
\<close>
theorem long_paragraph_repeats_heading:
  assumes "is_atx_heading h" and "10 \<notin> set h" and "13 \<notin> set h" and "\<not> is_white (last h)"
    and "10 \<notin> set p" and "13 \<notin> set p" and "trim p \<noteq> []" and "\<not> is_atx_heading p"
    and "max_tokens * 4 < blen p" and "1 \<le> max_tokens"
  shows "map sk_content (chunk_semantic (h @ [10] @ p) max_tokens) =
    [h, h] @ filter (\<lambda>c. c \<noteq> []) (map trim (split_within_line p (max_tokens * 4))) @ [h]"
proof -
  note atx = atx_first[OF assms(1)]
  have h: "h \<noteq> []" "trim (h @ [10]) = h" using atx assms(4) by (simp_all add: trim_line is_white_def)
  have p: "p \<noteq> []" using assms(7) by (auto simp: trim_def)
  have split: "split_at 10 (h @ 10 # p) = [h, p]" "split_at 10 (p @ [10]) = [p, []]"
    using assms(2,5) by (simp_all add: split_at_append split_at_none)
  have lines: "lines_of (h @ 10 # p) = [h, p]" "lines_of (p @ [10]) = [p]"
    using p assms(3,6) by (simp_all add: lines_of_def split Let_def)
  have para: "trim (p @ [10]) \<noteq> []" using assms(7) by (simp add: trim_eq_Nil)
  have sections: "split_on_headings (h @ 10 # p) = [(Some h, p @ [10])]"
    using assms(1,8) by (simp add: split_on_headings_def lines heading_step_def trim_eq_Nil)
  have paras: "split_on_blank_lines (p @ [10]) = [p @ [10]]"
    using assms(7) para by (simp add: split_on_blank_lines_def lines blank_step_def)
  have size: "blen (p @ [10]) = blen p + 1" by (simp add: blen_def utf8_len_def)
  have m: "max (max_tokens * 4) (Suc 0) = max_tokens * 4" using assms(10) by simp
  have pieces: "split_on_lines (p @ [10]) (max_tokens * 4) = split_within_line p (max_tokens * 4)"
    using assms(9) m by (simp add: split_on_lines_def lines lines_step_def)
  have contents: "section_contents (max_tokens * 4) (Some h, p @ [10]) =
      [h, h] @ map trim (split_within_line p (max_tokens * 4)) @ [h]"
    using assms(9) h
    by (simp add: section_contents_def Let_def paras size paragraph_step_def emit_open_def pieces)
  have "trim (h @ 10 # p) \<noteq> []" using assms(7) by (auto simp: trim_eq_Nil)
  then show ?thesis
    using h(1) by (simp add: chunk_semantic_contents sections contents)
qed

theorem long_paragraph_repeats_heading_witness:
  "map sk_content (chunk_semantic (utext_of ''# H'' @ [10] @ utext_of ''ab cde'') 1) =
    [utext_of ''# H'', utext_of ''# H'', utext_of ''ab'', utext_of ''cde'', utext_of ''# H'']"
proof -
  have cut: "cut_at (utext_of ''ab cde'') 4 = 3"
    by (simp add: cut_at_def utext_of_def utf8_len_def numeral_eq_Suc)
  have "split_within_line (utext_of ''ab cde'') 4 = [utext_of ''ab '' @ [10], utext_of ''cde'' @ [10]]"
    by (subst split_within_line.simps, subst split_within_line.simps)
      (simp add: cut Let_def blen_def, simp add: utext_of_def utf8_len_def)
  moreover have "is_atx_heading (utext_of ''# H'')" "\<not> is_atx_heading (utext_of ''ab cde'')"
    unfolding is_atx_heading_def by (simp_all add: utext_of_def upt_rec)
  ultimately show ?thesis
    using long_paragraph_repeats_heading[of "utext_of ''# H''" "utext_of ''ab cde''" 1]
    by (simp add: utext_of_def is_white_def trim_def blen_def utf8_len_def)
qed

end
