(* ===== verification/Extractors.thy ===== *)
theory Extractors
  imports Scoring Semantic_Chunker
begin

section \<open>The extractors (src/memory/score/extract: regex.rs, llm.rs)\<close>

text \<open>
  The regex extractor turns matches into entities with character spans; the LLM extractor asks a chat
  provider for JSON and finds every surface it names again in the text. The matches of the regex crate, the
  provider and the parse of the JSON are arguments. A text is its list of code
  points; byte offsets are those of its UTF-8 form (\<^verbatim>\<open>blen\<close>).
\<close>

subsection \<open>Byte offsets\<close>

text \<open>The number of characters of the first \<^verbatim>\<open>b\<close> bytes; \<^verbatim>\<open>b\<close> is a boundary in every use.\<close>

fun char_index :: "utext \<Rightarrow> nat \<Rightarrow> nat" where
  "char_index [] b = 0"
| "char_index (c # cs) b = (if utf8_len c \<le> b then Suc (char_index cs (b - utf8_len c)) else 0)"

definition byte_slice :: "utext \<Rightarrow> nat \<Rightarrow> nat \<Rightarrow> utext" where
  "byte_slice s start stop = take (char_index s stop - char_index s start) (drop (char_index s start) s)"

fun is_char_boundary :: "utext \<Rightarrow> nat \<Rightarrow> bool" where
  "is_char_boundary s 0 = True"
| "is_char_boundary [] (Suc b) = False"
| "is_char_boundary (c # cs) (Suc b) = (utf8_len c \<le> Suc b \<and> is_char_boundary cs (Suc b - utf8_len c))"

subsection \<open>The regex extractor (regex.rs)\<close>

record regex_matches =
  rx_email :: "utext \<Rightarrow> (nat \<times> nat) list"
  rx_url :: "utext \<Rightarrow> (nat \<times> nat) list"
  rx_handle :: "utext \<Rightarrow> (nat \<times> nat) list"
  rx_discrim :: "utext \<Rightarrow> (nat \<times> nat) list"
  rx_hashtag :: "utext \<Rightarrow> (nat \<times> nat) list"

definition to_entity :: "utext \<Rightarrow> entity_kind \<Rightarrow> nat \<times> nat \<Rightarrow> extracted_entity" where
  "to_entity s kind m = (case m of (start, stop) \<Rightarrow>
    \<lparr>xe_kind = kind, xe_text = byte_slice s start stop, xe_span_start = char_index s start,
     xe_span_end = char_index s stop, xe_score = 1\<rparr>)"

definition regex_extract :: "(utext \<Rightarrow> utext) \<Rightarrow> regex_matches \<Rightarrow> utext \<Rightarrow> extracted" where
  "regex_extract lower_u rx s =
    \<lparr>xs_entities = map (to_entity s entity_kind.Email) (rx_email rx s) @ map (to_entity s Url) (rx_url rx s) @
       map (to_entity s Handle) (rx_handle rx s) @ map (to_entity s Handle) (rx_discrim rx s) @
       map (to_entity s Hashtag) (rx_hashtag rx s),
     xs_topics = map (\<lambda>(start, stop). \<lparr>xt_label = lower_u (byte_slice s start stop), xt_score = 1\<rparr>) (rx_hashtag rx s),
     xs_importance = None, xs_reason = None\<rparr>"

definition regex_extractor :: "(utext \<Rightarrow> utext) \<Rightarrow> regex_matches \<Rightarrow> extractor" where
  "regex_extractor lower_u rx s = Inr (regex_extract lower_u rx s)"

subsection \<open>The system prompt (llm_prompt.rs)\<close>

definition language_display_name :: "(utext \<Rightarrow> utext) \<Rightarrow> utext \<Rightarrow> utext" where
  "language_display_name lower_u lang =
    (let l = lower_u lang in
     if l \<in> set (map utext_of [''zh-cn'', ''zh-hans'', ''zh'']) then utext_of ''Simplified Chinese''
     else if l \<in> set (map utext_of [''zh-tw'', ''zh-hant'']) then utext_of ''Traditional Chinese''
     else if l \<in> set (map utext_of [''en'', ''en-us'', ''en-gb'']) then utext_of ''English''
     else if l = utext_of ''es'' then utext_of ''Spanish''
     else if l = utext_of ''fr'' then utext_of ''French''
     else if l = utext_of ''de'' then utext_of ''German''
     else if l = utext_of ''ja'' then utext_of ''Japanese''
     else l)"

definition output_language_directive :: "(utext \<Rightarrow> utext) \<Rightarrow> utext option \<Rightarrow> utext option" where
  \<open>output_language_directive lower_u lang =
    (case lang of None \<Rightarrow> None
     | Some l \<Rightarrow> (if trim l = [] then None
        else Some (utext_of ''Write all natural-language field values (such as "importance_reason" and topic labels) in '' @
          language_display_name lower_u l @
          utext_of ''. Keep JSON keys and enum values (the "kind" names) in English.'')))\<close>

definition build_system_prompt :: "(utext \<Rightarrow> utext) \<Rightarrow> bool \<Rightarrow> utext option \<Rightarrow> utext" where
  \<open>build_system_prompt lower_u emit_topics output_language =
   (let topics_schema_line = (if emit_topics then utext_of ''  "topics": ["<short theme label>"],'' @ [10] else []);
        topics_required = (if emit_topics then utext_of ''topics, '' else []);
        fields_count = (if emit_topics then utext_of ''four'' else utext_of ''three'');
        topics_guide = (if emit_topics then
            utext_of ''Topics are short free-form theme labels for what the text is ABOUT (e.g. "rate limiting", "memory tree", "auth flow"). They are distinct from entities '' @ [8212] @
            utext_of '' entities are specific named things mentioned in the text; topics are the abstract themes those things relate to.'' @ [10] else []);
        example1_topics = (if emit_topics then utext_of '',"topics":["shipping","auth"]'' else []);
        example2_topics = (if emit_topics then utext_of '',"topics":["product launch","revenue"]'' else []);
        language_directive = (case output_language_directive lower_u output_language of
            Some d \<Rightarrow> d @ [10, 10] | None \<Rightarrow> [])
    in concat (map (\<lambda>l. l @ [10]) [
     language_directive @ utext_of ''You are a named-entity extractor and importance rater. Return JSON only '' @ [8212] @ utext_of '' no prose, no markdown, no commentary. Do not summarize. Extract every named entity mention you find, including duplicates, and rate the chunk's overall importance as a float in [0.0, 1.0].'',
     [],
     utext_of ''Schema:'',
     utext_of ''{'',
     utext_of ''  "entities": ['',
     utext_of ''    { "kind": "person|organization|location|event|product|datetime|technology|artifact|quantity",'',
     utext_of ''      "text": "<exact surface form as it appears in the text>" }'',
     utext_of ''  ],'',
     topics_schema_line @ utext_of ''  "importance": 0.0,'',
     utext_of ''  "importance_reason": "<one short sentence explaining the rating>"'',
     utext_of ''}'',
     [],
     utext_of ''Kinds guide:'',
     utext_of ''  person       named human                            ("Alice", "Steven Enamakel")'',
     utext_of ''  organization company / team / project               ("Anthropic", "TinyHumans")'',
     utext_of ''  location     place                                  ("SF office", "London")'',
     utext_of ''  event        scheduled occurrence                   ("Q2 launch", "design review")'',
     utext_of ''  product      commercial offering                    ("Claude Code", "OpenHuman")'',
     utext_of ''  datetime     temporal expression                    ("Friday", "Q2 2026", "EOD tomorrow")'',
     utext_of ''  technology   tool / framework / language / service  ("Rust", "OAuth", "Slack API")'',
     utext_of ''  artifact     code / ticket / doc reference          ("PR #934", "src/foo.rs", "OH-42")'',
     utext_of ''  quantity     amount / metric / money                ("$5K", "20/min", "10k tokens")'',
     [],
     topics_guide,
     utext_of ''If a mention doesn't clearly fit a kind above, omit it rather than guessing.'',
     utext_of ''Always emit ALL '' @ fields_count @ utext_of '' top-level fields (entities, '' @ topics_required @ utext_of ''importance, importance_reason),'',
     utext_of ''even when entities is empty.'',
     [],
     utext_of ''Examples:'',
     [],
     utext_of ''Input: alice and bob shipped the auth migration friday. PR #42 ships OAuth refactor in src/auth/.'',
     utext_of ''Output: {"entities":[{"kind":"person","text":"alice"},{"kind":"person","text":"bob"},{"kind":"event","text":"auth migration"},{"kind":"datetime","text":"friday"},{"kind":"artifact","text":"PR #42"},{"kind":"technology","text":"OAuth"},{"kind":"artifact","text":"src/auth/"}]'' @ example1_topics @ utext_of '',"importance":0.9,"importance_reason":"explicit shipping commitment"}'',
     [],
     utext_of ''Input: Anthropic shipped Claude Code in SF '' @ [8212] @ utext_of '' $20M ARR target by Q2.'',
     utext_of ''Output: {"entities":[{"kind":"organization","text":"Anthropic"},{"kind":"product","text":"Claude Code"},{"kind":"location","text":"SF"},{"kind":"quantity","text":"$20M ARR"},{"kind":"datetime","text":"Q2"}]'' @ example2_topics @ utext_of '',"importance":0.85,"importance_reason":"factual content with key business metric"}'',
     [],
     utext_of ''Importance guide:'',
     utext_of ''  0.9+  actionable decisions, key information, explicit commitments'',
     utext_of ''  0.6+  substantive discussion, factual content, named entities'',
     utext_of ''  0.3+  ambient context, low-density prose'',
     utext_of ''  <0.3  reactions, acknowledgments, bots, trivial exchanges''
    ]))\<close>

subsection \<open>What the model answers (llm.rs)\<close>

record chat_prompt =
  cp_system :: utext
  cp_user :: utext
  cp_temperature :: rat
  cp_kind :: string
  cp_max_tokens :: "nat option"

definition EXTRACTION_MAX_OUTPUT_TOKENS :: nat where "EXTRACTION_MAX_OUTPUT_TOKENS = 8192"

record llm_extractor_config =
  lx_allowed_kinds :: "entity_kind list"
  lx_strict_kinds :: bool
  lx_emit_topics :: bool
  lx_output_language :: "utext option"

definition default_llm_config :: llm_extractor_config where
  "default_llm_config = \<lparr>lx_allowed_kinds = [Person, Organization, Location, Event, Product, Datetime, Technology,
     Artifact, Quantity], lx_strict_kinds = False, lx_emit_topics = False, lx_output_language = None\<rparr>"

record llm_entity =
  le_kind :: utext
  le_text :: utext

record llm_output =
  lo_entities :: "llm_entity list"
  lo_topics :: "utext list"
  lo_importance :: "rat option"
  lo_importance_reason :: "utext option"

datatype parsed = Parsed llm_output | Truncated_Json | Wrong_Shape

definition kind_synonyms :: "(string \<times> entity_kind) list" where
  "kind_synonyms =
    [(''person'', Person), (''people'', Person),
     (''organization'', Organization), (''organisation'', Organization), (''org'', Organization),
     (''location'', Location), (''place'', Location), (''loc'', Location),
     (''event'', Event), (''product'', Product),
     (''datetime'', Datetime), (''date'', Datetime), (''time'', Datetime), (''timestamp'', Datetime),
     (''technology'', Technology), (''tech'', Technology), (''tool'', Technology), (''framework'', Technology),
     (''library'', Technology), (''language'', Technology), (''service'', Technology),
     (''artifact'', Artifact), (''reference'', Artifact), (''ref'', Artifact), (''pr'', Artifact),
     (''ticket'', Artifact), (''file'', Artifact), (''commit'', Artifact),
     (''quantity'', Quantity), (''amount'', Quantity), (''metric'', Quantity), (''number'', Quantity),
     (''money'', Quantity), (''misc'', Misc), (''miscellaneous'', Misc), (''other'', Misc)]"

definition parse_kind :: "(utext \<Rightarrow> utext) \<Rightarrow> utext \<Rightarrow> entity_kind option" where
  "parse_kind lower_u s = map_of (map (\<lambda>(w, k). (utext_of w, k)) kind_synonyms) (lower_u (trim s))"

definition find_char_span_from :: "utext \<Rightarrow> utext \<Rightarrow> nat \<Rightarrow> nat \<Rightarrow> (nat \<times> nat \<times> nat) option" where
  "find_char_span_from haystack needle byte_from char_from =
    (if needle = [] \<or> byte_from > blen haystack \<or> \<not> is_char_boundary haystack byte_from then None
     else
       (let rest = drop (char_index haystack byte_from) haystack in
        case find_sub needle rest of
          None \<Rightarrow> None
        | Some rel \<Rightarrow>
           (let byte_start = byte_from + blen (take rel rest); char_start = char_from + rel in
            Some (char_start, char_start + length needle, byte_start + blen needle))))"

definition chosen_kind :: "(utext \<Rightarrow> utext) \<Rightarrow> llm_extractor_config \<Rightarrow> utext \<Rightarrow> entity_kind option" where
  "chosen_kind lower_u cfg raw =
    (case parse_kind lower_u raw of
       Some k \<Rightarrow> (if k \<in> set (lx_allowed_kinds cfg) then Some k else if lx_strict_kinds cfg then None else Some Misc)
     | None \<Rightarrow> (if lx_strict_kinds cfg then None else Some Misc))"

type_synonym cursors = "utext \<rightharpoonup> nat \<times> nat"

definition recover_entity :: "(utext \<Rightarrow> utext) \<Rightarrow> utext \<Rightarrow> llm_extractor_config \<Rightarrow> llm_entity \<Rightarrow>
    extracted_entity list \<times> cursors \<Rightarrow> extracted_entity list \<times> cursors" where
  "recover_entity lower_u source cfg raw = (\<lambda>(out, cursors).
    (let surface = trim (le_text raw) in
     if surface = [] then (out, cursors)
     else case chosen_kind lower_u cfg (le_kind raw) of
       None \<Rightarrow> (out, cursors)
     | Some kind \<Rightarrow>
        (case (case cursors surface of Some p \<Rightarrow> p | None \<Rightarrow> (0, 0)) of (byte_from, char_from) \<Rightarrow>
          (case find_char_span_from source surface byte_from char_from of
             None \<Rightarrow> (out, cursors)
           | Some (span_start, span_end, byte_after) \<Rightarrow>
              (out @ [\<lparr>xe_kind = kind, xe_text = surface, xe_span_start = span_start, xe_span_end = span_end,
                 xe_score = 85 / 100\<rparr>], cursors(surface \<mapsto> (byte_after, span_end)))))))"

definition recover_entities :: "(utext \<Rightarrow> utext) \<Rightarrow> utext \<Rightarrow> llm_extractor_config \<Rightarrow> llm_entity list \<Rightarrow> extracted_entity list" where
  "recover_entities lower_u source cfg raws = fst (fold (recover_entity lower_u source cfg) raws ([], Map.empty))"

definition into_extracted :: "(utext \<Rightarrow> utext) \<Rightarrow> utext \<Rightarrow> llm_extractor_config \<Rightarrow> llm_output \<Rightarrow> extracted" where
  "into_extracted lower_u source cfg ans =
    \<lparr>xs_entities = recover_entities lower_u source cfg (lo_entities ans),
     xs_topics = map (\<lambda>l. \<lparr>xt_label = l, xt_score = 85 / 100\<rparr>) (filter (\<lambda>l. l \<noteq> []) (map trim (lo_topics ans))),
     xs_importance = map_option clamp_unit (lo_importance ans), xs_reason = lo_importance_reason ans\<rparr>"

subsection \<open>Asking the model (llm.rs)\<close>

datatype attempt = Attempt_Done extracted | Attempt_Retryable | Attempt_Permanent

definition NON_RETRYABLE :: "string list" where
  "NON_RETRYABLE = [''402'', ''payment required'', ''requires more credits'', ''insufficient'', ''monthly_request_count'',
     ''monthly request'', ''quota'', ''401'', ''403'', ''unauthorized'', ''forbidden'', ''invalid api key'', ''incorrect api key'']"

record chat_env =
  ct_lower :: "utext \<Rightarrow> utext"
  ct_error_lower :: "string \<Rightarrow> string"
  ct_parse :: "string \<Rightarrow> parsed"

definition is_non_retryable :: "chat_env \<Rightarrow> anyhow_error \<Rightarrow> bool" where
  "is_non_retryable env e \<longleftrightarrow> list_ex (\<lambda>p. sublist p (ct_error_lower env (err_msg e))) NON_RETRYABLE"

definition build_prompt :: "chat_env \<Rightarrow> llm_extractor_config \<Rightarrow> utext \<Rightarrow> chat_prompt" where
  "build_prompt env cfg s =
    \<lparr>cp_system = build_system_prompt (ct_lower env) (lx_emit_topics cfg) (lx_output_language cfg),
     cp_user = utext_of ''Text:'' @ [10] @ s @ [10, 10] @ utext_of ''Return JSON only.'', cp_temperature = 0,
     cp_kind = ''memory_tree::extract'', cp_max_tokens = Some EXTRACTION_MAX_OUTPUT_TOKENS\<rparr>"

definition try_extract :: "chat_env \<Rightarrow> llm_extractor_config \<Rightarrow> (chat_prompt \<Rightarrow> string result) \<Rightarrow> utext \<Rightarrow> attempt" where
  "try_extract env cfg provider s =
    (case provider (build_prompt env cfg s) of
       Inl e \<Rightarrow> (if is_non_retryable env e then Attempt_Permanent else Attempt_Retryable)
     | Inr raw \<Rightarrow> (case ct_parse env raw of
          Parsed ans \<Rightarrow> Attempt_Done (into_extracted (ct_lower env) s cfg ans)
        | Truncated_Json \<Rightarrow> Attempt_Retryable
        | Wrong_Shape \<Rightarrow> Attempt_Done extracted_default))"

definition MAX_ATTEMPTS :: nat where "MAX_ATTEMPTS = 3"

text \<open>The provider may answer each call differently: \<^verbatim>\<open>provider i\<close> is its \<^verbatim>\<open>i\<close>-th call.\<close>

fun llm_attempts :: "chat_env \<Rightarrow> llm_extractor_config \<Rightarrow> (nat \<Rightarrow> chat_prompt \<Rightarrow> string result) \<Rightarrow> utext \<Rightarrow> nat \<Rightarrow> nat \<Rightarrow>
    extracted \<times> nat" where
  "llm_attempts env cfg provider s 0 made = (extracted_default, made)"
| "llm_attempts env cfg provider s (Suc n) made =
    (case try_extract env cfg (provider made) s of
       Attempt_Done x \<Rightarrow> (x, Suc made)
     | Attempt_Permanent \<Rightarrow> (extracted_default, Suc made)
     | Attempt_Retryable \<Rightarrow> llm_attempts env cfg provider s n (Suc made))"

definition llm_extract :: "chat_env \<Rightarrow> llm_extractor_config \<Rightarrow> (nat \<Rightarrow> chat_prompt \<Rightarrow> string result) \<Rightarrow> extractor" where
  "llm_extract env cfg provider s = Inr (fst (llm_attempts env cfg provider s MAX_ATTEMPTS 0))"


subsection \<open>Spans\<close>

lemma utf8_len_pos [simp]: "0 < utf8_len c"
  by (simp add: utf8_len_def)

lemma blen_simps [simp]: "blen [] = 0" "blen (c # cs) = utf8_len c + blen cs" "blen (xs @ ys) = blen xs + blen ys"
  by (simp_all add: blen_def)

lemma char_index_0 [simp]: "char_index s 0 = 0"
  by (cases s) (simp_all add: not_le)

lemma char_index_le: "char_index s b \<le> length s"
  by (induction s b rule: char_index.induct) simp_all

lemma char_index_prefix: "k \<le> length s \<Longrightarrow> char_index s (blen (take k s)) = k"
proof (induction s arbitrary: k)
  case (Cons c s)
  then show ?case by (cases k) (simp_all add: not_le)
qed simp

lemma boundary_prefix: "is_char_boundary s (blen (take k s))"
proof (induction s arbitrary: k)
  case (Cons c s)
  show ?case
  proof (cases k)
    case (Suc j)
    obtain n where n: "utf8_len c = Suc n" using utf8_len_pos[of c] gr0_implies_Suc by blast
    show ?thesis using Suc Cons.IH[of j] n by simp
  qed simp
qed simp

lemma boundary_blen: "is_char_boundary s b \<Longrightarrow> blen (take (char_index s b) s) = b"
  by (induction s b rule: is_char_boundary.induct) (auto simp: not_le)

lemma blen_take_add: "blen (take k s) + blen (take r (drop k s)) = blen (take (k + r) s)"
  by (simp add: take_add)

lemma find_sub_Some: "find_sub needle s = Some r \<Longrightarrow> r + length needle \<le> length s \<and> take (length needle) (drop r s) = needle"
proof (induction needle s arbitrary: r rule: find_sub.induct)
  case (2 needle c cs)
  then show ?case
    by (auto split: if_splits dest!: arg_cong[of _ _ length])
qed (auto split: if_splits)

lemma find_char_span_Some:
  assumes "find_char_span_from s needle b c = Some (start, stop, after)" and "char_index s b = c"
  shows "c \<le> start \<and> stop = start + length needle \<and> stop \<le> length s \<and> take (stop - start) (drop start s) = needle \<and>
    needle \<noteq> [] \<and> is_char_boundary s after \<and> char_index s after = stop"
proof -
  obtain rel where rel: "find_sub needle (drop c s) = Some rel" and start: "start = c + rel" and stop: "stop = start + length needle"
      and after: "after = b + blen (take rel (drop c s)) + blen needle" and ok: "needle \<noteq> []" "is_char_boundary s b"
    using assms by (auto simp: find_char_span_from_def Let_def split: if_splits option.splits)
  have c: "c \<le> length s" using assms(2) char_index_le by blast
  have hit: "rel + length needle \<le> length s - c" "take (length needle) (drop (c + rel) s) = needle"
    using find_sub_Some[OF rel] by (simp_all add: add.commute)
  have "b = blen (take c s)" using boundary_blen[OF ok(2)] assms(2) by simp
  then have "after = blen (take (c + rel) s) + blen (take (length needle) (drop (c + rel) s))"
    using after blen_take_add[of c s rel] hit(2) by simp
  then have a: "after = blen (take stop s)"
    using blen_take_add[of "c + rel" s "length needle"] start stop by (simp add: add.assoc)
  have "stop \<le> length s" using hit(1) c start stop by linarith
  then show ?thesis
    using a start stop hit(2) ok(1) boundary_prefix char_index_prefix by simp
qed

definition real_span :: "utext \<Rightarrow> extracted_entity \<Rightarrow> bool" where
  "real_span s e \<longleftrightarrow> xe_text e \<noteq> [] \<and> xe_span_end e \<le> length s \<and>
    take (xe_span_end e - xe_span_start e) (drop (xe_span_start e) s) = xe_text e"

definition mentions :: "utext \<Rightarrow> extracted_entity list \<Rightarrow> extracted_entity list" where
  "mentions surface es = filter (\<lambda>e. xe_text e = surface) es"

definition cursors_ok :: "utext \<Rightarrow> extracted_entity list \<Rightarrow> cursors \<Rightarrow> bool" where
  "cursors_ok s es cursors \<longleftrightarrow> (\<forall>surface.
    sorted_wrt (\<lambda>a b. xe_span_end a \<le> xe_span_start b) (mentions surface es) \<and>
    (case cursors surface of
       None \<Rightarrow> mentions surface es = []
     | Some (b, c) \<Rightarrow> char_index s b = c \<and> (\<forall>e\<in>set (mentions surface es). xe_span_end e \<le> c)))"

lemma recover_entity_ok:
  assumes "cursors_ok s es cursors" and "list_all (real_span s) es" and "recover_entity l s cfg raw (es, cursors) = (es', cursors')"
  shows "cursors_ok s es' cursors' \<and> list_all (real_span s) es'"
proof (cases "(es', cursors') = (es, cursors)")
  case False
  let ?f = "trim (le_text raw)"
  obtain b c where cur: "(case cursors ?f of Some p \<Rightarrow> p | None \<Rightarrow> (0, 0)) = (b, c)" by fastforce
  obtain kind where kind: "?f \<noteq> []" "chosen_kind l cfg (le_kind raw) = Some kind"
    using assms(3) False by (cases "chosen_kind l cfg (le_kind raw)") (auto simp: recover_entity_def Let_def split: if_splits)
  have step: "recover_entity l s cfg raw (es, cursors) = (case find_char_span_from s ?f b c of
       None \<Rightarrow> (es, cursors)
     | Some (start, stop, after) \<Rightarrow>
        (es @ [\<lparr>xe_kind = kind, xe_text = ?f, xe_span_start = start, xe_span_end = stop, xe_score = 85 / 100\<rparr>],
         cursors(?f \<mapsto> (after, stop))))"
    using kind cur by (simp add: recover_entity_def Let_def)
  obtain start stop after where span: "find_char_span_from s ?f b c = Some (start, stop, after)"
    and es': "es' = es @ [\<lparr>xe_kind = kind, xe_text = ?f, xe_span_start = start, xe_span_end = stop, xe_score = 85 / 100\<rparr>]"
    and cs': "cursors' = cursors(?f \<mapsto> (after, stop))"
    using assms(3) False unfolding step by (cases "find_char_span_from s ?f b c") auto
  have c: "char_index s b = c" "\<forall>e\<in>set (mentions ?f es). xe_span_end e \<le> c"
    using assms(1)[unfolded cursors_ok_def, rule_format, of ?f] cur by (auto split: option.splits)
  note f = find_char_span_Some[OF span c(1)]
  have "list_all (real_span s) es'" using assms(2) f by (auto simp: es' real_span_def)
  moreover have "cursors_ok s es' cursors'"
    unfolding cursors_ok_def
  proof
    fix g
    have old: "sorted_wrt (\<lambda>a b. xe_span_end a \<le> xe_span_start b) (mentions g es)"
      and cur_g: "case cursors g of None \<Rightarrow> mentions g es = []
        | Some (b, c) \<Rightarrow> char_index s b = c \<and> (\<forall>e\<in>set (mentions g es). xe_span_end e \<le> c)"
      using assms(1) unfolding cursors_ok_def by blast+
    show "sorted_wrt (\<lambda>a b. xe_span_end a \<le> xe_span_start b) (mentions g es') \<and> (case cursors' g of
        None \<Rightarrow> mentions g es' = [] | Some (b, c) \<Rightarrow> char_index s b = c \<and> (\<forall>e\<in>set (mentions g es'). xe_span_end e \<le> c))"
    proof (cases "g = ?f")
      case True
      then show ?thesis using old c(2) f by (fastforce simp: es' cs' mentions_def sorted_wrt_append)
    next
      case False
      have same: "mentions g es' = mentions g es" using False by (simp add: es' mentions_def)
      show ?thesis unfolding same using old cur_g False by (simp add: cs')
    qed
  qed
  ultimately show ?thesis by blast
qed (use assms in simp)

lemma recover_entity_kinds:
  "list_all (\<lambda>e. xe_kind e \<in> ks) es \<Longrightarrow> set (lx_allowed_kinds cfg) \<subseteq> ks \<Longrightarrow> (\<not> lx_strict_kinds cfg \<Longrightarrow> Misc \<in> ks) \<Longrightarrow>
    list_all (\<lambda>e. xe_kind e \<in> ks) (fst (recover_entity l s cfg raw (es, cursors)))"
  by (auto simp: recover_entity_def Let_def chosen_kind_def split: option.splits if_splits prod.splits)

lemma recover_fold_ok:
  assumes "cursors_ok s es cursors" "list_all (real_span s) es"
  shows "cursors_ok s (fst (fold (recover_entity l s cfg) raws (es, cursors))) (snd (fold (recover_entity l s cfg) raws (es, cursors)))
    \<and> list_all (real_span s) (fst (fold (recover_entity l s cfg) raws (es, cursors)))"
  using assms
proof (induction raws arbitrary: es cursors)
  case (Cons raw raws)
  obtain es' cursors' where step: "recover_entity l s cfg raw (es, cursors) = (es', cursors')" by fastforce
  show ?case using Cons.IH[of es' cursors'] recover_entity_ok[OF Cons.prems step] by (simp add: step)
qed simp

lemma recover_fold_kinds:
  assumes "set (lx_allowed_kinds cfg) \<subseteq> ks" "\<not> lx_strict_kinds cfg \<Longrightarrow> Misc \<in> ks" "list_all (\<lambda>e. xe_kind e \<in> ks) es"
  shows "list_all (\<lambda>e. xe_kind e \<in> ks) (fst (fold (recover_entity l s cfg) raws (es, cursors)))"
  using assms(3)
proof (induction raws arbitrary: es cursors)
  case (Cons raw raws)
  obtain es' cursors' where step: "recover_entity l s cfg raw (es, cursors) = (es', cursors')" by fastforce
  have "list_all (\<lambda>e. xe_kind e \<in> ks) es'"
    using recover_entity_kinds[OF Cons.prems assms(1,2), of l s raw cursors] by (simp add: step)
  then show ?case using Cons.IH by (simp add: step)
qed simp


subsection \<open>Attempts\<close>

lemma llm_attempts_spec:
  assumes "llm_attempts env cfg provider s n made = (x, made')"
  shows "made \<le> made' \<and> made' \<le> made + n \<and>
    (\<forall>i. made \<le> i \<and> Suc i < made' \<longrightarrow> try_extract env cfg (provider i) s = Attempt_Retryable) \<and>
    (made' = made \<and> n = 0 \<and> x = extracted_default \<or>
     made < made' \<and> (case try_extract env cfg (provider (made' - 1)) s of
       Attempt_Done y \<Rightarrow> x = y | Attempt_Permanent \<Rightarrow> x = extracted_default
     | Attempt_Retryable \<Rightarrow> x = extracted_default \<and> made' = made + n))"
  using assms
proof (induction n arbitrary: made)
  case (Suc n)
  show ?case
  proof (cases "try_extract env cfg (provider made) s")
    case Attempt_Retryable
    then have "llm_attempts env cfg provider s n (Suc made) = (x, made')" using Suc.prems by simp
    note IH = Suc.IH[OF this]
    have "try_extract env cfg (provider i) s = Attempt_Retryable" if "made \<le> i" "Suc i < made'" for i
      using that IH Attempt_Retryable by (cases "i = made") auto
    then show ?thesis using IH Attempt_Retryable by (auto split: attempt.splits)
  qed (use Suc.prems in auto)
qed auto

text \<open>
  The LLM extractor never fails; it asks at most three times, asks again only after an answer worth a retry,
  and returns what the last answer holds: nothing unless it parsed.
\<close>
theorem llm_extract_retries:
  "let (x, made) = llm_attempts env cfg provider s MAX_ATTEMPTS 0 in
   llm_extract env cfg provider s = Inr x \<and> 1 \<le> made \<and> made \<le> 3 \<and>
   list_all (\<lambda>i. try_extract env cfg (provider i) s = Attempt_Retryable) [0..<made - 1] \<and>
   (case try_extract env cfg (provider (made - 1)) s of
      Attempt_Done y \<Rightarrow> x = y
    | Attempt_Permanent \<Rightarrow> x = extracted_default
    | Attempt_Retryable \<Rightarrow> x = extracted_default \<and> made = 3)"
proof -
  obtain x made where a: "llm_attempts env cfg provider s MAX_ATTEMPTS 0 = (x, made)" by fastforce
  show ?thesis
    using llm_attempts_spec[OF a] a
    by (auto simp: llm_extract_def MAX_ATTEMPTS_def list_all_iff split: attempt.splits)
qed

text \<open>A provider that is down leaves every chunk at least where it is without an LLM.\<close>

lemma provider_down_unrated:
  assumes "\<forall>i p. \<exists>e. provider i p = Inl e"
  shows "unrated (llm_extract env cfg provider) s"
proof -
  have "try_extract env cfg (provider i) s \<noteq> Attempt_Done y" for i y
    using assms[rule_format, of i "build_prompt env cfg s"] by (auto simp: try_extract_def split: if_splits)
  then have "fst (llm_attempts env cfg provider s n made) = extracted_default" for n made
    by (induction n arbitrary: made) (auto split: attempt.split)
  then show ?thesis by (simp add: unrated_def llm_extract_def extracted_default_def)
qed

end
