(* ===== verification/Ingest.thy ===== *)
theory Ingest
  imports Extractors Chunk_Delete Queue_Handlers
begin

section \<open>Ingest (src/memory/ingest: pipeline.rs, types.rs; store/content: mod.rs, atomic.rs)\<close>

text \<open>
  A payload becomes canonical text, chunks, files, scores, and at last one transaction on the chunk
  database: the gate of a document, the chunk rows, and for each chunk no worker has taken further its score, its
  status and its extract job. A failed transaction leaves the database as it was (\<^verbatim>\<open>tx\<close>); the files staged
  before it stay. Ids of jobs, SHA-256, the writes that fail and the clock are arguments; the clock is read
  once. \<^verbatim>\<open>ie_chars\<close> are the characters of a string's UTF-8.
\<close>

subsection \<open>Content files (store/content)\<close>

type_synonym files = "string \<rightharpoonup> file_bytes"

record ingest_env =
  ie_chunk :: chunk_env
  ie_text :: text_env
  ie_sha :: "utext \<Rightarrow> string"
  ie_chars :: "string \<Rightarrow> utext"
  ie_kind :: "source_kind \<Rightarrow> utext"
  ie_rfc :: "int \<Rightarrow> utext"
  ie_write_error :: "string \<Rightarrow> anyhow_error option"
  ie_canonicalize :: "files \<Rightarrow> string \<Rightarrow> string list option"
  ie_canonical_root :: "string list option"
  ie_now :: int

definition read_body_sha256 :: "ingest_env \<Rightarrow> files \<Rightarrow> string \<Rightarrow> string option" where
  "read_body_sha256 env fs path =
    (case fs path of None \<Rightarrow> None | Some bytes \<Rightarrow> map_option (ie_sha env) (body_of bytes))"

definition write_or_replace_body :: "ingest_env \<Rightarrow> string \<Rightarrow> utext \<Rightarrow> string \<Rightarrow> files \<Rightarrow> unit result \<times> files" where
  "write_or_replace_body env path full_bytes body_sha256 fs =
    (if fs path \<noteq> None \<and> (case read_body_sha256 env fs path of Some s \<Rightarrow> s | None \<Rightarrow> []) = body_sha256
     then (Inr (), fs)
     else case ie_write_error env path of
       Some e \<Rightarrow> (Inl e, fs)
     | None \<Rightarrow> (Inr (), fs(path \<mapsto> Utf8 full_bytes)))"

definition content_chunk_of :: "ingest_env \<Rightarrow> chunk \<Rightarrow> content_chunk" where
  "content_chunk_of env c =
    \<lparr>cc_metadata = \<lparr>cm_source_kind = ch_source_kind c, cm_source_id = ie_chars env (ch_source_id c),
       cm_path_scope = map_option (ie_chars env) (ch_path_scope c), cm_owner = ie_chars env (ch_owner c),
       cm_timestamp = ch_timestamp c, cm_time_range = ch_time_range c, cm_tags = map (ie_chars env) (ch_tags c),
       cm_source_ref = map_option (ie_chars env) (ch_source_ref c)\<rparr>,
     cc_content = ch_content c, cc_seq_in_source = ch_seq_in_source c\<rparr>"

definition chunk_path :: "ingest_env \<Rightarrow> chunk \<Rightarrow> string" where
  "chunk_path env c =
    utf8_encode (chunk_rel_path (tv_lower (ie_text env)) (ie_kind env (ch_source_kind c))
      (ie_chars env (case ch_path_scope c of Some p \<Rightarrow> p | None \<Rightarrow> ch_source_id c)) (ie_chars env (ch_id c)))"

fun stage_chunks :: "ingest_env \<Rightarrow> chunk list \<Rightarrow> files \<Rightarrow> staged_chunk list result \<times> files" where
  "stage_chunks env [] fs = (Inr [], fs)"
| "stage_chunks env (c # cs) fs =
    (if ch_source_kind c = Kind_Email
     then (case stage_chunks env cs fs of
         (Inr staged, fs') \<Rightarrow> (Inr (\<lparr>sg_chunk = c, sg_content_path = [], sg_content_sha256 = []\<rparr> # staged), fs')
       | (Inl e, fs') \<Rightarrow> (Inl e, fs'))
     else
       (case compose_chunk_file (ie_kind env) (ie_rfc env) (tv_lower (ie_text env)) (content_chunk_of env c) of
          (full_bytes, body_bytes) \<Rightarrow>
            (let sha256 = ie_sha env body_bytes in
             case write_or_replace_body env (chunk_path env c) full_bytes sha256 fs of
               (Inl e, fs1) \<Rightarrow> (Inl e, fs1)
             | (Inr _, fs1) \<Rightarrow>
                (case stage_chunks env cs fs1 of
                   (Inr staged, fs') \<Rightarrow>
                     (Inr (\<lparr>sg_chunk = c, sg_content_path = chunk_path env c, sg_content_sha256 = sha256\<rparr> # staged), fs')
                 | (Inl e, fs') \<Rightarrow> (Inl e, fs')))))"

subsection \<open>Options, summaries and sinks (types.rs)\<close>

record ingest_options =
  io_gate_version_ms :: "int option"
  io_raw_refs :: "raw_ref list option"

definition default_ingest_options :: ingest_options where
  "default_ingest_options = \<lparr>io_gate_version_ms = None, io_raw_refs = None\<rparr>"

record ingest_summary =
  iy_source_id :: string
  iy_chunks_written :: nat
  iy_chunks_dropped :: nat
  iy_chunk_ids :: "string list"
  iy_extract_jobs_enqueued :: nat
  iy_already_ingested :: bool

definition summary_empty :: "string \<Rightarrow> ingest_summary" where
  "summary_empty source_id = \<lparr>iy_source_id = source_id, iy_chunks_written = 0, iy_chunks_dropped = 0, iy_chunk_ids = [],
     iy_extract_jobs_enqueued = 0, iy_already_ingested = False\<rparr>"

definition summary_already_ingested :: "string \<Rightarrow> ingest_summary" where
  "summary_already_ingested source_id = \<lparr>iy_source_id = source_id, iy_chunks_written = 0, iy_chunks_dropped = 0,
     iy_chunk_ids = [], iy_extract_jobs_enqueued = 0, iy_already_ingested = True\<rparr>"

text \<open>A sink gets the number of the call, from which the id of a new job is made.\<close>

type_synonym job_sink = "nat \<Rightarrow> string \<Rightarrow> nat \<Rightarrow> (bool, tree_db) tx"

definition null_job_sink :: job_sink where
  "null_job_sink i chunk_id default_max_attempts db = Inr (False, db)"

definition queue_job_sink :: "json_codec \<Rightarrow> (nat \<Rightarrow> string) \<Rightarrow> int \<Rightarrow> job_sink" where
  "queue_job_sink js uuid now_ms i chunk_id default_max_attempts db =
    (case enqueue_conn (uuid i) now_ms (new_extract_chunk js \<lparr>ec_chunk_id = chunk_id\<rparr>) default_max_attempts (db_jobs db) of
       (created, t) \<Rightarrow> Inr (created \<noteq> None, db\<lparr>db_jobs := t\<rparr>))"

subsection \<open>The transaction (pipeline.rs)\<close>

definition document_gate :: "string \<Rightarrow> int option \<Rightarrow> string" where
  "document_gate source_id version =
    (case version of Some v \<Rightarrow> source_id @ ''@'' @ show_int v | None \<Rightarrow> source_id)"

definition needs_processing :: "string option \<Rightarrow> bool" where
  "needs_processing pre \<longleftrightarrow> pre = None \<or> pre = Some CHUNK_STATUS_PENDING_EXTRACTION"

fun process_chunks :: "int \<Rightarrow> job_sink \<Rightarrow> nat \<Rightarrow> (chunk \<times> score_result \<times> string option) list \<Rightarrow> nat \<Rightarrow> nat \<Rightarrow> (nat, chunk_db) tx" where
  "process_chunks now_ms sink max_attempts [] i jobs db = Inr (jobs, db)"
| "process_chunks now_ms sink max_attempts ((c, r, pre) # rest) i jobs db =
    (if \<not> needs_processing pre then process_chunks now_ms sink max_attempts rest i jobs db
     else
       (let db1 = db\<lparr>cd_tree := persist_score_tx now_ms r (ch_timestamp c) None (cd_tree db)\<rparr> in
        case set_chunk_lifecycle_status (ch_id c) CHUNK_STATUS_PENDING_EXTRACTION db1 of
          Inl e \<Rightarrow> Inl e
        | Inr (_, db2) \<Rightarrow>
           (case sink i (ch_id c) max_attempts (cd_tree db2) of
              Inl e \<Rightarrow> Inl e
            | Inr (created, t) \<Rightarrow>
                process_chunks now_ms sink max_attempts rest (Suc i) (jobs + (if created then 1 else 0)) (db2\<lparr>cd_tree := t\<rparr>))))"

definition persist_tail :: "int \<Rightarrow> job_sink \<Rightarrow> nat \<Rightarrow> ingest_options \<Rightarrow> string \<Rightarrow> source_kind \<Rightarrow> chunk list \<Rightarrow> staged_chunk list \<Rightarrow>
    score_result list \<Rightarrow> ((nat \<times> nat) option, chunk_db) tx" where
  "persist_tail now_ms sink max_attempts opts source_id kind cs staged scores db =
    (case (if kind = Kind_Document
        then claim_source_ingest_tx kind (document_gate source_id (io_gate_version_ms opts)) now_ms db
        else (True, db)) of
       (claimed, db1) \<Rightarrow>
        (if \<not> claimed then Inr (None, db)
         else
           (let prior = map (\<lambda>c. get_chunk_lifecycle_status (ch_id c) db1) cs in
            case upsert_staged_chunks_tx staged db1 of
              (chunks_written, db2) \<Rightarrow>
               (let db3 = (case io_raw_refs opts of
                     Some refs \<Rightarrow> fold (\<lambda>c. set_chunk_raw_refs (ch_id c) refs) cs db2 | None \<Rightarrow> db2) in
                case process_chunks now_ms sink max_attempts (zip cs (zip scores prior)) 0 0 db3 of
                  Inl e \<Rightarrow> Inl e
                | Inr (jobs, db4) \<Rightarrow> Inr (Some (chunks_written, jobs), db4)))))"

subsection \<open>The pipeline (pipeline.rs)\<close>

type_synonym ingest_state = "chunk_db \<times> files"

definition persist_score_enqueue :: "ingest_env \<Rightarrow> scoring_config \<Rightarrow> job_sink \<Rightarrow> nat \<Rightarrow> ingest_options \<Rightarrow> string \<Rightarrow> source_kind \<Rightarrow>
    chunk list \<Rightarrow> ingest_state \<Rightarrow> ingest_summary result \<times> ingest_state" where
  "persist_score_enqueue env scoring sink max_attempts opts source_id kind cs = (\<lambda>(db, fs).
    case stage_chunks env cs fs of
      (Inl e, fs1) \<Rightarrow> (Inl (plain_error (''stage_chunks failed: '' @ err_msg e)), db, fs1)
    | (Inr staged, fs1) \<Rightarrow>
       (case score_chunks_fast (ie_text env) scoring cs of
          Inl e \<Rightarrow> (Inl e, db, fs1)
        | Inr scores \<Rightarrow>
           (if length scores \<noteq> length cs
            then (Inl (plain_error (''scorer length mismatch: chunks='' @ show_nat (length cs) @ '' scores='' @
              show_nat (length scores))), db, fs1)
            else case persist_tail (ie_now env) sink max_attempts opts source_id kind cs staged scores db of
              Inl e \<Rightarrow> (Inl e, db, fs1)
            | Inr (None, db') \<Rightarrow>
               (Inr (summary_already_ingested source_id), db',
                remove_chunk_content_files (ie_canonicalize env) (\<lambda>p fs. fs(p := None)) (ie_canonical_root env)
                  (unreferenced_content_files (map sg_content_path staged) db') fs1)
            | Inr (Some (chunks_written, jobs), db') \<Rightarrow>
               (Inr \<lparr>iy_source_id = source_id, iy_chunks_written = chunks_written,
                  iy_chunks_dropped = length (filter (\<lambda>r. \<not> re_kept r) scores), iy_chunk_ids = map ch_id cs,
                  iy_extract_jobs_enqueued = jobs, iy_already_ingested = False\<rparr>, db', fs1))))"

definition ingest_canonical :: "ingest_env \<Rightarrow> scoring_config \<Rightarrow> job_sink \<Rightarrow> nat \<Rightarrow> ingest_options \<Rightarrow> string \<Rightarrow> canonical_source \<Rightarrow>
    ingest_state \<Rightarrow> ingest_summary result \<times> ingest_state" where
  "ingest_canonical env scoring sink max_attempts opts source_id canonical s =
    (case canonical of (markdown, meta) \<Rightarrow>
      (let kind = mt_source_kind meta;
           cs = map chunk.truncate (chunk_markdown (ie_chunk env)
             \<lparr>ci_source_kind = kind, ci_source_id = source_id, ci_markdown = markdown, ci_metadata = meta\<rparr>
             DEFAULT_CHUNK_MAX_TOKENS)
       in if cs = [] then (Inr (summary_empty source_id), s)
          else persist_score_enqueue env scoring sink max_attempts opts source_id kind cs s))"

definition ingest_opt :: "ingest_env \<Rightarrow> scoring_config \<Rightarrow> job_sink \<Rightarrow> nat \<Rightarrow> ingest_options \<Rightarrow> string \<Rightarrow> canonical_source option \<Rightarrow>
    ingest_state \<Rightarrow> ingest_summary result \<times> ingest_state" where
  "ingest_opt env scoring sink max_attempts opts source_id canonical s =
    (case canonical of None \<Rightarrow> (Inr (summary_empty source_id), s)
     | Some c \<Rightarrow> ingest_canonical env scoring sink max_attempts opts source_id c s)"

definition ingest_chat :: "ingest_env \<Rightarrow> scoring_config \<Rightarrow> job_sink \<Rightarrow> nat \<Rightarrow> string \<Rightarrow> string \<Rightarrow> string list \<Rightarrow> chat_message list \<Rightarrow>
    ingest_state \<Rightarrow> ingest_summary result \<times> ingest_state" where
  "ingest_chat env scoring sink max_attempts source_id owner tags batch =
    ingest_opt env scoring sink max_attempts default_ingest_options source_id
      (canonicalise_chat (ie_rfc env) source_id owner tags batch)"

definition ingest_email :: "ingest_env \<Rightarrow> scoring_config \<Rightarrow> job_sink \<Rightarrow> nat \<Rightarrow> string \<Rightarrow> string \<Rightarrow> string list \<Rightarrow>
    email_message list \<Rightarrow> ingest_state \<Rightarrow> ingest_summary result \<times> ingest_state" where
  "ingest_email env scoring sink max_attempts source_id owner tags thread =
    ingest_opt env scoring sink max_attempts default_ingest_options source_id
      (canonicalise_email (ie_rfc env) source_id owner tags thread)"

definition ingest_email_with_raw_refs :: "ingest_env \<Rightarrow> scoring_config \<Rightarrow> job_sink \<Rightarrow> nat \<Rightarrow> string \<Rightarrow> string \<Rightarrow> string list \<Rightarrow>
    email_message list \<Rightarrow> raw_ref list \<Rightarrow> ingest_state \<Rightarrow> ingest_summary result \<times> ingest_state" where
  "ingest_email_with_raw_refs env scoring sink max_attempts source_id owner tags thread raw_refs =
    ingest_opt env scoring sink max_attempts \<lparr>io_gate_version_ms = None, io_raw_refs = Some raw_refs\<rparr> source_id
      (canonicalise_email (ie_rfc env) source_id owner tags thread)"

definition ingest_document_versioned :: "ingest_env \<Rightarrow> scoring_config \<Rightarrow> job_sink \<Rightarrow> nat \<Rightarrow> string \<Rightarrow> string \<Rightarrow> string list \<Rightarrow>
    document_input \<Rightarrow> string option \<Rightarrow> int option \<Rightarrow> ingest_state \<Rightarrow> ingest_summary result \<times> ingest_state" where
  "ingest_document_versioned env scoring sink max_attempts source_id owner tags doc path_scope version_ms s =
    (if is_source_ingested Kind_Document (document_gate source_id version_ms) (fst s)
     then (Inr (summary_already_ingested source_id), s)
     else ingest_opt env scoring sink max_attempts \<lparr>io_gate_version_ms = version_ms, io_raw_refs = None\<rparr> source_id
       (canonicalise_document source_id owner tags doc path_scope) s)"

definition ingest_document_with_scope :: "ingest_env \<Rightarrow> scoring_config \<Rightarrow> job_sink \<Rightarrow> nat \<Rightarrow> string \<Rightarrow> string \<Rightarrow> string list \<Rightarrow>
    document_input \<Rightarrow> string option \<Rightarrow> ingest_state \<Rightarrow> ingest_summary result \<times> ingest_state" where
  "ingest_document_with_scope env scoring sink max_attempts source_id owner tags doc path_scope =
    ingest_document_versioned env scoring sink max_attempts source_id owner tags doc path_scope None"

definition ingest_document :: "ingest_env \<Rightarrow> scoring_config \<Rightarrow> job_sink \<Rightarrow> nat \<Rightarrow> string \<Rightarrow> string \<Rightarrow> string list \<Rightarrow>
    document_input \<Rightarrow> ingest_state \<Rightarrow> ingest_summary result \<times> ingest_state" where
  "ingest_document env scoring sink max_attempts source_id owner tags doc =
    ingest_document_versioned env scoring sink max_attempts source_id owner tags doc None None"


subsection \<open>Staged files hold what their digests say\<close>

lemma chunk_body:
  assumes "\<forall>k. one_line (ie_kind env k)" and "\<forall>t. one_line (ie_rfc env t)"
    and "compose_chunk_file (ie_kind env) (ie_rfc env) l (content_chunk_of env c) = (full, body)"
  shows "body_of (Utf8 full) = Some (ch_content c)" and "body = ch_content c"
proof -
  let ?c = "content_chunk_of env c"
  let ?ls = "tag_lines (with_source_tag l (chunk_scope ?c) (cm_tags (cc_metadata ?c))) @ tail_lines ?c"
  have content: "cc_content ?c = ch_content c" by (simp add: content_chunk_of_def)
  have "last_lines ?c (with_source_tag l (chunk_scope ?c) (cm_tags (cc_metadata ?c))) ?ls" by (simp add: last_lines_def)
  note split = chunk_fm_split[OF assms(1,2) this, of "ch_content c"]
  have full: "full = chunk_fm (ie_kind env) (ie_rfc env) ?c ?ls @ ch_content c" "body = ch_content c"
    using assms(3) unfolding compose_chunk_file_def compose_chunk_fm content by auto
  show "body_of (Utf8 full) = Some (ch_content c)" unfolding full(1) body_of_def by (simp only: file_bytes.case split) simp
  show "body = ch_content c" by (rule full(2))
qed

definition paths_ok :: "ingest_env \<Rightarrow> chunk list \<Rightarrow> bool" where
  "paths_ok env cs \<longleftrightarrow> (\<forall>c\<in>set cs. \<forall>d\<in>set cs. chunk_path env c = chunk_path env d \<longrightarrow> ch_content c = ch_content d)"

definition verifies :: "ingest_env \<Rightarrow> files \<Rightarrow> staged_chunk \<Rightarrow> bool" where
  "verifies env fs s \<longleftrightarrow> sg_content_path s = [] \<or>
    (sg_content_path s = chunk_path env (sg_chunk s) \<and> sg_content_sha256 s = ie_sha env (ch_content (sg_chunk s)) \<and>
     read_body_sha256 env fs (sg_content_path s) = Some (sg_content_sha256 s))"

lemma write_body:
  assumes "write_or_replace_body env p full (ie_sha env body) fs = (Inr u, fs')" and "body_of (Utf8 full) = Some body"
    and "\<forall>s. ie_sha env s \<noteq> []"
  shows "read_body_sha256 env fs' p = Some (ie_sha env body)" and "q \<noteq> p \<Longrightarrow> fs' q = fs q"
  using assms(1,2) assms(3)[rule_format, of body] assms(3)[rule_format, of body, symmetric] by (auto simp: write_or_replace_body_def read_body_sha256_def split: if_splits option.splits)

lemma verifies_write:
  assumes "verifies env fs s" and "write_or_replace_body env p full (ie_sha env body) fs = (Inr u, fs')"
    and "body_of (Utf8 full) = Some body" and "\<forall>s. ie_sha env s \<noteq> []"
    and "sg_content_path s = p \<Longrightarrow> ch_content (sg_chunk s) = body"
  shows "verifies env fs' s"
proof (cases "sg_content_path s = p")
  case True
  then show ?thesis using assms(1,5) write_body(1)[OF assms(2-4)] by (auto simp: verifies_def)
next
  case False
  then have "read_body_sha256 env fs' (sg_content_path s) = read_body_sha256 env fs (sg_content_path s)"
    using write_body(2)[OF assms(2-4)] by (simp add: read_body_sha256_def)
  then show ?thesis using assms(1) by (simp add: verifies_def)
qed

lemma stage_run:
  assumes "\<forall>k. one_line (ie_kind env k)" and "\<forall>t. one_line (ie_rfc env t)" and "\<forall>s. ie_sha env s \<noteq> []"
    and "paths_ok env cs0" and "set cs \<subseteq> set cs0"
    and "stage_chunks env cs fs = (Inr staged, fs')"
  shows "map sg_chunk staged = cs \<and> list_all (verifies env fs') staged \<and>
    (\<forall>s. sg_chunk s \<in> set cs0 \<longrightarrow> verifies env fs s \<longrightarrow> verifies env fs' s)"
  using assms(5,6)
proof (induction cs arbitrary: fs staged)
  case (Cons c cs)
  show ?case
  proof (cases "ch_source_kind c = Kind_Email")
    case True
    then obtain rest where rest: "stage_chunks env cs fs = (Inr rest, fs')"
        "staged = \<lparr>sg_chunk = c, sg_content_path = [], sg_content_sha256 = []\<rparr> # rest"
      using Cons.prems(2) by (auto split: prod.splits sum.splits)
    show ?thesis using Cons.IH[OF _ rest(1)] Cons.prems(1) by (auto simp: rest(2) verifies_def)
  next
    case False
    obtain full body where f: "compose_chunk_file (ie_kind env) (ie_rfc env) (tv_lower (ie_text env)) (content_chunk_of env c) = (full, body)"
      by fastforce
    note content = chunk_body[OF assms(1,2) f]
    obtain u fs1 rest where w: "write_or_replace_body env (chunk_path env c) full (ie_sha env (ch_content c)) fs = (Inr u, fs1)"
      and rest: "stage_chunks env cs fs1 = (Inr rest, fs')"
      and staged: "staged = \<lparr>sg_chunk = c, sg_content_path = chunk_path env c, sg_content_sha256 = ie_sha env (ch_content c)\<rparr> # rest"
      using Cons.prems(2) False f content(2) by (auto simp: Let_def split: prod.splits sum.splits)
    note IH = Cons.IH[OF _ rest]
    have keep: "verifies env fs1 s" if "sg_chunk s \<in> set cs0" "verifies env fs s" for s
    proof (cases "sg_content_path s = []")
      case False
      have "ch_content (sg_chunk s) = ch_content c" if "sg_content_path s = chunk_path env c"
        using assms(4) \<open>verifies env fs s\<close> False that \<open>sg_chunk s \<in> set cs0\<close> Cons.prems(1)
        unfolding paths_ok_def verifies_def by (metis list.set_intros(1) subsetD)
      then show ?thesis by (rule verifies_write[OF that(2) w content(1) assms(3)])
    qed (simp add: verifies_def)
    have "verifies env fs1 \<lparr>sg_chunk = c, sg_content_path = chunk_path env c, sg_content_sha256 = ie_sha env (ch_content c)\<rparr>"
      using write_body(1)[OF w content(1) assms(3)] by (simp add: verifies_def)
    then show ?thesis using IH keep Cons.prems(1) by (auto simp: staged)
  qed
qed simp

text \<open>
  After staging, every staged row's digest is the digest of the body its file holds now: a file that was there
  with another body has been replaced, and a later chunk of the batch does not spoil an earlier one's file.
\<close>
theorem staged_files_verify:
  assumes "\<forall>k. one_line (ie_kind env k)" and "\<forall>t. one_line (ie_rfc env t)" and "\<forall>s. ie_sha env s \<noteq> []"
    and "paths_ok env cs" and "stage_chunks env cs fs = (Inr staged, fs')"
  shows "map sg_chunk staged = cs \<and> list_all (verifies env fs') staged"
  using stage_run[OF assms(1-4) order_refl assms(5)] by blast

lemma staging_succeeds:
  "ie_write_error env = (\<lambda>p. None) \<Longrightarrow> \<exists>staged fs'. stage_chunks env cs fs = (Inr staged, fs')"
proof (induction cs arbitrary: fs)
  case (Cons c cs)
  obtain full body where f: "compose_chunk_file (ie_kind env) (ie_rfc env) (tv_lower (ie_text env)) (content_chunk_of env c) = (full, body)"
    by fastforce
  have "\<exists>fs1. write_or_replace_body env (chunk_path env c) full (ie_sha env body) fs = (Inr (), fs1)"
    using Cons.prems by (simp add: write_or_replace_body_def)
  then obtain fs1 where w: "write_or_replace_body env (chunk_path env c) full (ie_sha env body) fs = (Inr (), fs1)" ..
  obtain s1 f1 s2 f2 where "stage_chunks env cs fs = (Inr s1, f1)" "stage_chunks env cs fs1 = (Inr s2, f2)"
    using Cons.IH[OF Cons.prems, of fs] Cons.IH[OF Cons.prems, of fs1] by blast
  then show ?case using f w by (simp add: Let_def)
qed simp

definition sample_ingest_env :: ingest_env where
  "sample_ingest_env = \<lparr>ie_chunk = sample_chunk_env, ie_text = plain_env, ie_sha = (\<lambda>s. show_nat (length s)),
     ie_chars = utext_of, ie_kind = (\<lambda>k. utext_of ''document''), ie_rfc = (\<lambda>t. utext_of ''now''), ie_write_error = (\<lambda>p. None),
     ie_canonicalize = (\<lambda>fs p. None), ie_canonical_root = None, ie_now = 7\<rparr>"

theorem staged_files_verify_witness:
  "list_all (verifies sample_ingest_env (snd (stage_chunks sample_ingest_env [sample_chunk_text [97]] Map.empty)))
    (projr (fst (stage_chunks sample_ingest_env [sample_chunk_text [97]] Map.empty)))"
proof -
  have "\<forall>s. ie_sha sample_ingest_env s \<noteq> []" by (simp add: sample_ingest_env_def)
  moreover obtain staged fs' where s: "stage_chunks sample_ingest_env [sample_chunk_text [97]] Map.empty = (Inr staged, fs')"
    using staging_succeeds[of sample_ingest_env "[sample_chunk_text [97]]" Map.empty] by (auto simp: sample_ingest_env_def)
  ultimately show ?thesis
    using staged_files_verify[of sample_ingest_env "[sample_chunk_text [97]]" Map.empty staged fs']
    by (simp add: s paths_ok_def sample_ingest_env_def one_line_utext)
qed

subsection \<open>What an ingest leaves alone\<close>

lemma find_update_key:
  assumes "\<And>r. ck_id (f r) = ck_id r"
  shows "sql_find (\<lambda>r. ck_id r = i) (sql_update q f t) =
    map_option (\<lambda>r. if q r then f r else r) (sql_find (\<lambda>r. ck_id r = i) t)"
  by (induction t) (simp_all add: sql_find_def sql_update_def assms)

definition status_of :: "string \<Rightarrow> stored_chunk list \<Rightarrow> string option" where
  "status_of i t = map_option st_lifecycle (sql_find (\<lambda>r. ck_id r = i) t)"

lemma status_update:
  "(\<And>r. ck_id (f r) = ck_id r) \<Longrightarrow> (\<And>r. st_lifecycle (f r) = st_lifecycle r) \<Longrightarrow> status_of i (sql_update q f t) = status_of i t"
  by (simp add: status_of_def find_update_key option.map_comp comp_def if_distrib[of st_lifecycle] cong: if_cong)

lemma find_snoc: "sql_find p (t @ [r]) = (case sql_find p t of Some x \<Rightarrow> Some x | None \<Rightarrow> if p r then Some r else None)"
  by (induction t) (simp_all add: sql_find_def)

lemma status_upsert:
  "status_of i (upsert_staged_chunk s t) = (case status_of i t of Some st \<Rightarrow> Some st
     | None \<Rightarrow> if i = ch_id (sg_chunk s) then Some CHUNK_STATUS_ADMITTED else None)"
proof -
  define new where "new = (chunk_to_row (sg_chunk s))\<lparr>ck_content := take CONTENT_PREVIEW_CHARS (ch_content (sg_chunk s)),
    st_content_path := Some (sg_content_path s), st_content_sha256 := Some (sg_content_sha256 s)\<rparr>"
  define f where "f = (\<lambda>old. overwrite_row new old\<lparr>st_content_path := st_content_path new, st_content_sha256 := st_content_sha256 new\<rparr>)"
  have new: "ck_id new = ch_id (sg_chunk s)" "st_lifecycle new = CHUNK_STATUS_ADMITTED" by (simp_all add: new_def chunk_to_row_def)
  have f: "ck_id (f r) = ck_id r" "st_lifecycle (f r) = st_lifecycle r" for r by (simp_all add: f_def overwrite_row_def)
  have up: "upsert_staged_chunk s t = sql_upsert (\<lambda>r. ck_id r = ck_id new) f new t"
    by (simp add: upsert_staged_chunk_def upsert_row_def new_def f_def Let_def)
  have none: "status_of i t = None \<longleftrightarrow> (\<forall>r\<in>set t. ck_id r \<noteq> i)"
    by (auto simp: status_of_def sql_find_def find_None_iff)
  show ?thesis
  proof (cases "sql_count (\<lambda>r. ck_id r = ck_id new) t = 0")
    case True
    then show ?thesis using new by (auto simp: up sql_upsert_def status_of_def find_snoc split: option.split)
  next
    case False
    then have "status_of i t \<noteq> None" if "i = ch_id (sg_chunk s)" using that new(1) none by (auto simp: sql_count_0_iff)
    then show ?thesis using False by (auto simp: up sql_upsert_def status_update[OF f] split: option.split)
  qed
qed

lemma status_upserts:
  "status_of i (fold upsert_staged_chunk ss t) = (case status_of i t of Some st \<Rightarrow> Some st
     | None \<Rightarrow> if i \<in> ch_id ` sg_chunk ` set ss then Some CHUNK_STATUS_ADMITTED else None)"
  by (induction ss arbitrary: t) (auto simp: status_upsert split: option.splits)

definition extract_key :: "string \<Rightarrow> string" where "extract_key i = extract_chunk_dedupe_key \<lparr>ec_chunk_id = i\<rparr>"

lemma extract_key_inj [simp]: "extract_key i = extract_key j \<longleftrightarrow> i = j"
  by (simp add: extract_key_def extract_chunk_dedupe_key_def)

text \<open>All the database says of a chunk's processing: its status, its score, its index rows and its extract jobs.\<close>

definition processing_state :: "string \<Rightarrow> chunk_db \<Rightarrow> string option \<times> score_row option \<times> index_row list \<times> job_row list" where
  "processing_state i db =
    (get_chunk_lifecycle_status i db, get_score i (db_scores (cd_tree db)),
     filter (\<lambda>r. ix_node_id r = i) (db_entity_index (cd_tree db)),
     filter (\<lambda>r. row_dedupe_key r = Some (extract_key i)) (db_jobs (cd_tree db)))"

lemma status_of_rows: "get_chunk_lifecycle_status i db = status_of i (cd_rows db)"
  by (simp add: get_chunk_lifecycle_status_def status_of_def)

lemma set_rows_tables [simp]:
  "db_scores (cd_tree (set_rows rows db)) = db_scores (cd_tree db)"
  "db_entity_index (cd_tree (set_rows rows db)) = db_entity_index (cd_tree db)"
  "db_jobs (cd_tree (set_rows rows db)) = db_jobs (cd_tree db)"
  by (simp_all add: set_rows_def)

lemma state_upsert:
  "get_chunk_lifecycle_status i db \<noteq> None \<Longrightarrow> processing_state i (snd (upsert_staged_chunks_tx ss db)) = processing_state i db"
  by (auto simp: processing_state_def upsert_staged_chunks_tx_def status_of_rows status_upserts)

lemma status_raw_refs: "get_chunk_lifecycle_status i (set_chunk_raw_refs j refs db) = get_chunk_lifecycle_status i db"
  by (simp add: status_of_rows set_chunk_raw_refs_def update_rows_def status_update)

lemma state_raw_refs: "processing_state i (set_chunk_raw_refs j refs db) = processing_state i db"
  by (simp add: processing_state_def status_raw_refs) (simp add: set_chunk_raw_refs_def update_rows_def)

lemma state_all_raw_refs: "processing_state i (fold (\<lambda>c. set_chunk_raw_refs (ch_id c) refs) cs db) = processing_state i db"
  by (induction cs arbitrary: db) (simp_all add: state_raw_refs)

lemma status_set:
  "set_chunk_lifecycle_status j st db = Inr (u, db') \<Longrightarrow>
    get_chunk_lifecycle_status i db' = (if i = j then Some st else get_chunk_lifecycle_status i db)"
proof -
  assume a: "set_chunk_lifecycle_status j st db = Inr (u, db')"
  let ?f = "\<lambda>r. r\<lparr>st_lifecycle := st\<rparr>"
  have found: "sql_find (\<lambda>r. ck_id r = j) (cd_rows db) \<noteq> None"
    using a by (auto simp: set_chunk_lifecycle_status_def sql_count_0_iff sql_find_def find_None_iff split: if_splits)
  have rows: "cd_rows db' = sql_update (\<lambda>r. ck_id r = j) ?f (cd_rows db)"
    using a by (auto simp: set_chunk_lifecycle_status_def update_rows_def split: if_splits)
  have "sql_find (\<lambda>r. ck_id r = i) (cd_rows db') =
      map_option (\<lambda>r. if ck_id r = j then ?f r else r) (sql_find (\<lambda>r. ck_id r = i) (cd_rows db))"
    unfolding rows by (rule find_update_key) simp
  note e = this
  show ?thesis
  proof (cases "sql_find (\<lambda>r. ck_id r = i) (cd_rows db)")
    case None
    then have "i \<noteq> j" using found by metis
    then show ?thesis using e None by (simp add: get_chunk_lifecycle_status_def)
  next
    case (Some r)
    have "ck_id r = i" using sql_find_SomeD[OF Some] by simp
    then show ?thesis using e Some by (simp add: get_chunk_lifecycle_status_def)
  qed
qed

lemma state_set:
  "set_chunk_lifecycle_status j st db = Inr (u, db') \<Longrightarrow> i \<noteq> j \<Longrightarrow> processing_state i db' = processing_state i db"
  using status_set[of j st db u db' i]
  by (auto simp: processing_state_def) (auto simp: set_chunk_lifecycle_status_def update_rows_def split: if_splits)

lemma filter_eq_other: "filter (\<lambda>r. g r \<noteq> n) xs = filter (\<lambda>r. g r \<noteq> n) ys \<Longrightarrow> i \<noteq> n \<Longrightarrow>
    filter (\<lambda>r. g r = i) xs = filter (\<lambda>r. g r = i) ys"
proof -
  assume e: "filter (\<lambda>r. g r \<noteq> n) xs = filter (\<lambda>r. g r \<noteq> n) ys" "i \<noteq> n"
  have "filter (\<lambda>r. g r = i) zs = filter (\<lambda>r. g r = i) (filter (\<lambda>r. g r \<noteq> n) zs)" for zs
    using e(2) by (induction zs) auto
  then show ?thesis using e(1) by metis
qed

lemma state_score:
  assumes "re_chunk_id r \<noteq> i"
  shows "processing_state i (db\<lparr>cd_tree := persist_score_tx now r ts tid (cd_tree db)\<rparr>) = processing_state i db"
proof -
  have jobs: "db_jobs (persist_score_tx now r ts tid (cd_tree db)) = db_jobs (cd_tree db)"
    and scores: "db_scores (persist_score_tx now r ts tid (cd_tree db)) = upsert_score_tx (score_row_of now r) (db_scores (cd_tree db))"
    by (simp_all add: persist_score_tx_def index_entities_tx_def Let_def)
  have "filter (\<lambda>q. ix_node_id q \<noteq> re_chunk_id r) (db_entity_index (persist_score_tx now r ts tid (cd_tree db))) =
      filter (\<lambda>q. ix_node_id q \<noteq> re_chunk_id r) (db_entity_index (cd_tree db))"
    unfolding persist_index_cases Let_def by (simp add: index_rows_other sql_delete_def)
  then have "filter (\<lambda>q. ix_node_id q = i) (db_entity_index (persist_score_tx now r ts tid (cd_tree db))) =
      filter (\<lambda>q. ix_node_id q = i) (db_entity_index (cd_tree db))"
    by (rule filter_eq_other) (use assms in simp)
  then show ?thesis
    using assms by (simp add: processing_state_def jobs scores get_score_upsert score_row_of_def get_chunk_lifecycle_status_def)
qed

lemma state_sink:
  assumes "queue_job_sink js uuid now k j d (cd_tree db) = Inr (b, t)" and "i \<noteq> j"
  shows "processing_state i (db\<lparr>cd_tree := t\<rparr>) = processing_state i db"
  using assms
  by (auto simp: queue_job_sink_def enqueue_conn_def Let_def processing_state_def get_chunk_lifecycle_status_def new_row_def
      new_extract_chunk_def extract_key_def extract_chunk_dedupe_key_def split: if_splits)

lemma process_state:
  assumes "process_chunks now (queue_job_sink js uuid n) m xs k jobs db = Inr (total_jobs, db')"
    and "\<forall>(c, r, pre)\<in>set xs. re_chunk_id r = ch_id c \<and> (ch_id c = i \<longrightarrow> \<not> needs_processing pre)"
  shows "processing_state i db' = processing_state i db"
  using assms
proof (induction now "queue_job_sink js uuid n" m xs k jobs db rule: process_chunks.induct)
  case (2 now m c r pre rest k jobs db)
  show ?case
  proof (cases "needs_processing pre")
    case True
    then have i: "ch_id c \<noteq> i" "re_chunk_id r \<noteq> i" using "2.prems"(2) by auto
    let ?db1 = "db\<lparr>cd_tree := persist_score_tx now r (ch_timestamp c) None (cd_tree db)\<rparr>"
    obtain u db2 where s: "set_chunk_lifecycle_status (ch_id c) CHUNK_STATUS_PENDING_EXTRACTION ?db1 = Inr (u, db2)"
      using "2.prems"(1) True by (auto simp: Let_def split: sum.splits)
    obtain b t where j: "queue_job_sink js uuid n k (ch_id c) m (cd_tree db2) = Inr (b, t)"
      using "2.prems"(1) True s by (auto simp: Let_def split: sum.splits)
    have "processing_state i db' = processing_state i (db2\<lparr>cd_tree := t\<rparr>)"
      using "2.hyps"(2)[OF _ refl s refl j] "2.prems" True s j by (auto simp: Let_def)
    then show ?thesis using state_sink[OF j] state_set[OF s] state_score[OF i(2)] i(1) by simp
  qed (use "2.hyps"(1) "2.prems" in auto)
qed auto

lemma score_chunks_ids: "score_chunks env cfg cs = Inr rs \<Longrightarrow> map re_chunk_id rs = map ch_id cs"
proof (induction cs arbitrary: rs)
  case (Cons c cs)
  have "re_chunk_id r = ch_id c" if "score_chunk env cfg c = Inr r" for r
    using that by (auto simp: score_chunk_def Let_def split: sum.splits prod.splits)
  then show ?case using Cons by (auto split: sum.splits)
qed simp

lemma stage_ids: "stage_chunks env cs fs = (Inr staged, fs') \<Longrightarrow> map sg_chunk staged = cs"
  by (induction cs arbitrary: fs staged) (auto simp: Let_def split: if_splits prod.splits sum.splits)

lemma scores_fast_ids: "score_chunks_fast env cfg cs = Inr rs \<Longrightarrow> map re_chunk_id rs = map ch_id cs"
  by (simp add: score_chunks_fast_def score_chunks_ids)

lemma zip3_ids:
  assumes "map re_chunk_id rs = map ch_id cs" and "(c, r, pre) \<in> set (zip cs (zip rs (map (\<lambda>c. f (ch_id c)) cs)))"
  shows "re_chunk_id r = ch_id c \<and> pre = f (ch_id c)"
  using assms
proof (induction cs arbitrary: rs)
  case (Cons d cs)
  then show ?case by (cases rs) auto
qed simp

lemma status_claim [simp]: "get_chunk_lifecycle_status i (db\<lparr>cd_gates := g\<rparr>) = get_chunk_lifecycle_status i db"
  by (simp add: get_chunk_lifecycle_status_def)

lemma state_claim [simp]: "processing_state i (db\<lparr>cd_gates := g\<rparr>) = processing_state i db"
  by (simp add: processing_state_def)

text \<open>The database a transaction starts its chunk loop from, and what it has read before.\<close>

definition claimed_db :: "int \<Rightarrow> ingest_options \<Rightarrow> string \<Rightarrow> source_kind \<Rightarrow> chunk_db \<Rightarrow> bool \<times> chunk_db" where
  "claimed_db now_ms opts source_id kind db =
    (if kind = Kind_Document
     then claim_source_ingest_tx kind (document_gate source_id (io_gate_version_ms opts)) now_ms db
     else (True, db))"

definition with_rows :: "ingest_options \<Rightarrow> chunk list \<Rightarrow> staged_chunk list \<Rightarrow> chunk_db \<Rightarrow> chunk_db" where
  "with_rows opts cs staged db =
    (case io_raw_refs opts of
       Some refs \<Rightarrow> fold (\<lambda>c. set_chunk_raw_refs (ch_id c) refs) cs (snd (upsert_staged_chunks_tx staged db))
     | None \<Rightarrow> snd (upsert_staged_chunks_tx staged db))"

lemma claimed_status: "get_chunk_lifecycle_status i (snd (claimed_db now opts sid kind db)) = get_chunk_lifecycle_status i db"
  and claimed_state: "processing_state i (snd (claimed_db now opts sid kind db)) = processing_state i db"
  by (simp_all add: claimed_db_def claim_source_ingest_tx_def split: prod.split)

lemma persist_tail_cases:
  assumes "persist_tail now sink m opts sid kind cs staged scores db = Inr (y, db')"
  obtains (already) "y = None" "db' = db" "\<not> fst (claimed_db now opts sid kind db)"
  | (written) jobs db1 where "claimed_db now opts sid kind db = (True, db1)"
      "process_chunks now sink m (zip cs (zip scores (map (\<lambda>c. get_chunk_lifecycle_status (ch_id c) db) cs))) 0 0
        (with_rows opts cs staged db1) = Inr (jobs, db')"
      "y = Some (fst (upsert_staged_chunks_tx staged db1), jobs)"
proof (cases "claimed_db now opts sid kind db")
  case (Pair claimed db1)
  have prior: "map (\<lambda>c. get_chunk_lifecycle_status (ch_id c) db1) cs = map (\<lambda>c. get_chunk_lifecycle_status (ch_id c) db) cs"
    using claimed_status[of _ now opts sid kind db] by (simp add: Pair)
  show ?thesis
  proof (cases claimed)
    case True
    obtain n db2 where u: "upsert_staged_chunks_tx staged db1 = (n, db2)" by fastforce
    have "\<exists>jobs. process_chunks now sink m (zip cs (zip scores (map (\<lambda>c. get_chunk_lifecycle_status (ch_id c) db) cs))) 0 0
        (with_rows opts cs staged db1) = Inr (jobs, db') \<and> y = Some (n, jobs)"
      using assms Pair True u unfolding persist_tail_def claimed_db_def[symmetric] with_rows_def prior[symmetric]
      by (auto simp: Let_def split: sum.splits cong: option.case_cong)
    then show ?thesis using written Pair True u by auto
  next
    case False
    then show ?thesis using assms Pair already unfolding persist_tail_def claimed_db_def[symmetric] by auto
  qed
qed

lemma rows_status:
  assumes "map sg_chunk staged = cs"
  shows "get_chunk_lifecycle_status i (with_rows opts cs staged db) = (case get_chunk_lifecycle_status i db of Some st \<Rightarrow> Some st
    | None \<Rightarrow> if i \<in> ch_id ` set cs then Some CHUNK_STATUS_ADMITTED else None)"
proof -
  have refs: "get_chunk_lifecycle_status i (fold (\<lambda>c. set_chunk_raw_refs (ch_id c) refs) ds d) = get_chunk_lifecycle_status i d" for refs ds d
    by (induction ds arbitrary: d) (simp_all add: status_raw_refs)
  have "get_chunk_lifecycle_status i (snd (upsert_staged_chunks_tx staged db)) = (case get_chunk_lifecycle_status i db of Some st \<Rightarrow> Some st
    | None \<Rightarrow> if i \<in> ch_id ` set cs then Some CHUNK_STATUS_ADMITTED else None)"
    unfolding assms[symmetric] by (auto simp: upsert_staged_chunks_tx_def status_of_rows status_upserts set_rows_def split: option.split)
  then show ?thesis by (simp add: with_rows_def refs split: option.split)
qed

lemma rows_state:
  "get_chunk_lifecycle_status i db \<noteq> None \<Longrightarrow> processing_state i (with_rows opts cs staged db) = processing_state i db"
  by (simp add: with_rows_def state_all_raw_refs state_upsert split: option.split)

lemma tail_state:
  assumes "persist_tail now (queue_job_sink js uuid n) m opts sid kind cs staged scores db = Inr (y, db')"
    and "map re_chunk_id scores = map ch_id cs"
    and "get_chunk_lifecycle_status i db = Some st" and "st \<noteq> CHUNK_STATUS_PENDING_EXTRACTION"
  shows "processing_state i db' = processing_state i db"
  using assms(1)
proof (cases rule: persist_tail_cases)
  case (written jobs db1)
  have "processing_state i db' = processing_state i (with_rows opts cs staged db1)"
  proof (rule process_state[OF written(2)], clarify)
    fix c r pre
    assume "(c, r, pre) \<in> set (zip cs (zip scores (map (\<lambda>c. get_chunk_lifecycle_status (ch_id c) db) cs)))"
    note X = zip3_ids[OF assms(2) this]
    then show "re_chunk_id r = ch_id c \<and> (ch_id c = i \<longrightarrow> \<not> needs_processing pre)"
      using assms(3,4) by (simp add: needs_processing_def)
  qed
  moreover have "get_chunk_lifecycle_status i db1 = Some st" "processing_state i db1 = processing_state i db"
    using claimed_status[of i now opts sid kind db] claimed_state[of i now opts sid kind db] written(1) assms(3) by simp_all
  ultimately show ?thesis by (simp add: rows_state)
qed simp

text \<open>
  The entry points share one way through: nothing to write, a failure with the database as it was, or one
  transaction over chunks whose files are staged and whose scores are known.
\<close>

lemma ingest_opt_cases:
  assumes "ingest_opt env scoring sink m opts sid canonical s = (res, s')"
  obtains (same) "fst s' = fst s" "(\<exists>e. res = Inl e) \<or> res = Inr (summary_empty sid) \<and> s' = s"
  | (tail) markdown meta cs staged scores fs1 y where "canonical = Some (markdown, meta)" "cs \<noteq> []"
      "cs = map chunk.truncate (chunk_markdown (ie_chunk env) \<lparr>ci_source_kind = mt_source_kind meta, ci_source_id = sid,
         ci_markdown = markdown, ci_metadata = meta\<rparr> DEFAULT_CHUNK_MAX_TOKENS)"
      "stage_chunks env cs (snd s) = (Inr staged, fs1)" "score_chunks_fast (ie_text env) scoring cs = Inr scores"
      "persist_tail (ie_now env) sink m opts sid (mt_source_kind meta) cs staged scores (fst s) = Inr (y, fst s')"
      "res = Inr (case y of None \<Rightarrow> summary_already_ingested sid | Some (written, jobs) \<Rightarrow>
         \<lparr>iy_source_id = sid, iy_chunks_written = written, iy_chunks_dropped = length (filter (\<lambda>r. \<not> re_kept r) scores),
          iy_chunk_ids = map ch_id cs, iy_extract_jobs_enqueued = jobs, iy_already_ingested = False\<rparr>)"
proof (cases canonical)
  case None
  then show ?thesis using assms same by (simp add: ingest_opt_def)
next
  case (Some c)
  obtain markdown meta where c: "c = (markdown, meta)" by fastforce
  obtain db fs where s: "s = (db, fs)" by fastforce
  define cs where "cs = map chunk.truncate (chunk_markdown (ie_chunk env) \<lparr>ci_source_kind = mt_source_kind meta, ci_source_id = sid,
         ci_markdown = markdown, ci_metadata = meta\<rparr> DEFAULT_CHUNK_MAX_TOKENS)"
  have run: "(if cs = [] then (Inr (summary_empty sid), s) else persist_score_enqueue env scoring sink m opts sid (mt_source_kind meta) cs s) = (res, s')"
    using assms unfolding Some ingest_opt_def option.case ingest_canonical_def c prod.case Let_def cs_def .
  show ?thesis
  proof (cases "cs = []")
    case True
    then show ?thesis using run same by simp
  next
    case ne: False
    show ?thesis
    proof (cases "\<exists>e. res = Inl e")
      case True
      then have "fst s' = fst s" using run ne by (auto simp: persist_score_enqueue_def s split: prod.splits sum.splits if_splits option.splits)
      then show ?thesis using True same by blast
    next
      case False
      have "\<exists>staged scores fs1 y. stage_chunks env cs fs = (Inr staged, fs1) \<and> score_chunks_fast (ie_text env) scoring cs = Inr scores \<and>
          persist_tail (ie_now env) sink m opts sid (mt_source_kind meta) cs staged scores db = Inr (y, fst s') \<and>
          res = Inr (case y of None \<Rightarrow> summary_already_ingested sid | Some (written, jobs) \<Rightarrow>
           \<lparr>iy_source_id = sid, iy_chunks_written = written, iy_chunks_dropped = length (filter (\<lambda>r. \<not> re_kept r) scores),
            iy_chunk_ids = map ch_id cs, iy_extract_jobs_enqueued = jobs, iy_already_ingested = False\<rparr>)"
        using run ne False by (auto simp: persist_score_enqueue_def s split: prod.splits sum.splits if_splits option.splits)
      then show ?thesis using tail[of markdown meta cs] Some c ne s unfolding cs_def by auto
    qed
  qed
qed

text \<open>
  C30: whatever an ingest does, a chunk a worker has taken further than waiting for extraction keeps its status, its score,
  its index rows and its extract jobs as they were: the same content arriving again starts nothing anew.
\<close>
theorem processed_chunks_untouched:
  assumes "ingest_opt env scoring (queue_job_sink js uuid n) m opts sid canonical s = (res, s')"
    and "get_chunk_lifecycle_status i (fst s) = Some st" and "st \<noteq> CHUNK_STATUS_PENDING_EXTRACTION"
  shows "processing_state i (fst s') = processing_state i (fst s)"
  using assms(1)
proof (cases rule: ingest_opt_cases)
  case (tail markdown meta cs staged scores fs1 y)
  show ?thesis by (rule tail_state[OF tail(6) scores_fast_ids[OF tail(5)] assms(2,3)])
qed simp

subsection \<open>New chunks are scheduled\<close>

definition scheduled :: "string \<Rightarrow> chunk_db \<Rightarrow> bool" where
  "scheduled i db \<longleftrightarrow> get_chunk_lifecycle_status i db = Some CHUNK_STATUS_PENDING_EXTRACTION \<and>
    edge_live (extract_key i) (db_jobs (cd_tree db))"

lemma jobs_score [simp]: "db_jobs (persist_score_tx now r ts tid t) = db_jobs t"
  by (simp add: persist_score_tx_def index_entities_tx_def Let_def)

lemma jobs_set: "set_chunk_lifecycle_status j st db = Inr (u, db') \<Longrightarrow> db_jobs (cd_tree db') = db_jobs (cd_tree db)"
  by (auto simp: set_chunk_lifecycle_status_def update_rows_def split: if_splits)

lemma status_tree [simp]: "get_chunk_lifecycle_status i (db\<lparr>cd_tree := t\<rparr>) = get_chunk_lifecycle_status i db"
  by (simp add: get_chunk_lifecycle_status_def)

lemma sink_jobs:
  assumes "queue_job_sink js uuid now k j d t = Inr (b, t')"
  shows "db_jobs t' = snd (enqueue_conn (uuid k) now (new_extract_chunk js \<lparr>ec_chunk_id = j\<rparr>) d (db_jobs t))"
  using assms by (auto simp: queue_job_sink_def split: prod.splits)

lemma process_scheduled:
  assumes "process_chunks now (queue_job_sink js uuid n) m xs k jobs db = Inr (total_jobs, db')"
    and "\<forall>l. k \<le> l \<longrightarrow> fresh_uuid (uuid l) (db_jobs (cd_tree db))" and "inj uuid"
  shows "(\<forall>i. scheduled i db \<longrightarrow> scheduled i db') \<and> (\<forall>(c, r, pre)\<in>set xs. needs_processing pre \<longrightarrow> scheduled (ch_id c) db')"
  using assms
proof (induction now "queue_job_sink js uuid n" m xs k jobs db rule: process_chunks.induct)
  case (2 now m c r pre rest k jobs db)
  show ?case
  proof (cases "needs_processing pre")
    case True
    let ?db1 = "db\<lparr>cd_tree := persist_score_tx now r (ch_timestamp c) None (cd_tree db)\<rparr>"
    obtain u db2 where s: "set_chunk_lifecycle_status (ch_id c) CHUNK_STATUS_PENDING_EXTRACTION ?db1 = Inr (u, db2)"
      using "2.prems"(1) True by (auto simp: Let_def split: sum.splits)
    obtain b t where j: "queue_job_sink js uuid n k (ch_id c) m (cd_tree db2) = Inr (b, t)"
      using "2.prems"(1) True s by (auto simp: Let_def split: sum.splits)
    have before: "db_jobs (cd_tree db2) = db_jobs (cd_tree db)" using jobs_set[OF s] by simp
    note after = sink_jobs[OF j, unfolded before]
    have fresh: "\<forall>l. Suc k \<le> l \<longrightarrow> fresh_uuid (uuid l) (db_jobs (cd_tree (db2\<lparr>cd_tree := t\<rparr>)))"
    proof (intro allI impI)
      fix l assume l: "Suc k \<le> l"
      then have "uuid k \<noteq> uuid l" using "2.prems"(3) by (auto dest: injD)
      then show "fresh_uuid (uuid l) (db_jobs (cd_tree (db2\<lparr>cd_tree := t\<rparr>)))"
        using "2.prems"(2) l by (simp add: after fresh_after_enqueue)
    qed
    have rest: "process_chunks now (queue_job_sink js uuid n) m rest (Suc k) (jobs + (if b then 1 else 0)) (db2\<lparr>cd_tree := t\<rparr>) = Inr (total_jobs, db')"
      using "2.prems"(1) True s j by (simp add: Let_def)
    note IH = "2.hyps"(2)[OF _ refl s refl j refl rest fresh "2.prems"(3)]
    have c: "scheduled (ch_id c) (db2\<lparr>cd_tree := t\<rparr>)"
      using enqueue_conn_live[of "uuid k" "db_jobs (cd_tree db)" "new_extract_chunk js \<lparr>ec_chunk_id = ch_id c\<rparr>" "extract_key (ch_id c)" n m]
        "2.prems"(2) status_set[OF s] by (simp add: scheduled_def after new_extract_chunk_def extract_key_def)
    have keep: "scheduled i (db2\<lparr>cd_tree := t\<rparr>)" if "scheduled i db" for i
      using that status_set[OF s, of i] edge_live_mono[OF _ enqueue_conn_mono] by (simp add: scheduled_def after)
    show ?thesis using IH c keep True by auto
  next
    case False
    then show ?thesis using "2.hyps"(1)[OF _ _ "2.prems"(2,3)] "2.prems"(1) by auto
  qed
qed auto

text \<open>
  C29: an ingest that writes leaves no chunk of its payload behind: each is waiting for extraction with a live job that will
  extract it, or a worker had already taken it further.
\<close>
theorem ingested_chunks_scheduled:
  assumes "ingest_opt env scoring (queue_job_sink js uuid n) m opts sid canonical s = (Inr y, s')"
    and "\<forall>l. fresh_uuid (uuid l) (db_jobs (cd_tree (fst s)))" and "inj uuid"
  shows "list_all (\<lambda>i. needs_processing (get_chunk_lifecycle_status i (fst s)) \<longrightarrow> scheduled i (fst s')) (iy_chunk_ids y)"
  using assms(1)
proof (cases rule: ingest_opt_cases)
  case same
  then show ?thesis by (auto simp: summary_empty_def)
next
  case (tail markdown meta cs staged scores fs1 z)
  note ids = scores_fast_ids[OF tail(5)]
  show ?thesis using tail(6)
  proof (cases rule: persist_tail_cases)
    case already
    then show ?thesis using tail(7) by (simp add: summary_already_ingested_def)
  next
    case (written jobs db1)
    let ?prior = "map (\<lambda>c. get_chunk_lifecycle_status (ch_id c) (fst s)) cs"
    have jobs_refs: "db_jobs (cd_tree (fold (\<lambda>c. set_chunk_raw_refs (ch_id c) refs) ds d)) = db_jobs (cd_tree d)" for refs ds d
      by (induction ds arbitrary: d) (simp_all add: set_chunk_raw_refs_def update_rows_def)
    have "cd_tree db1 = cd_tree (fst s)" using written(1)
      by (auto simp: claimed_db_def claim_source_ingest_tx_def split: if_splits prod.splits)
    then have "db_jobs (cd_tree (with_rows opts cs staged db1)) = db_jobs (cd_tree (fst s))"
      by (simp add: with_rows_def jobs_refs upsert_staged_chunks_tx_def split: option.split)
    then have fresh: "\<forall>l. 0 \<le> l \<longrightarrow> fresh_uuid (uuid l) (db_jobs (cd_tree (with_rows opts cs staged db1)))"
      using assms(2) by simp
    note sched = process_scheduled[OF written(2) fresh assms(3), THEN conjunct2]
    have "scheduled (ch_id c) (fst s')" if c: "c \<in> set cs" and n: "needs_processing (get_chunk_lifecycle_status (ch_id c) (fst s))" for c
    proof -
      have len: "length scores = length cs" using ids by (metis length_map)
      obtain k where k: "k < length cs" "cs ! k = c" using c by (auto simp: in_set_conv_nth)
      then have "(c, scores ! k, get_chunk_lifecycle_status (ch_id c) (fst s)) \<in> set (zip cs (zip scores ?prior))"
        using len by (auto simp: set_zip intro!: exI[of _ k])
      then show ?thesis using sched n by blast
    qed
    then show ?thesis using tail(7) written(3) by (auto simp: list_all_iff)
  qed
qed

subsection \<open>A document is ingested once\<close>

lemma gates_process:
  "process_chunks now (queue_job_sink js uuid n) m xs k jobs db = Inr (total_jobs, db') \<Longrightarrow> cd_gates db' = cd_gates db"
proof (induction now "queue_job_sink js uuid n" m xs k jobs db rule: process_chunks.induct)
  case (2 now m c r pre rest k jobs db)
  show ?case
  proof (cases "needs_processing pre")
    case True
    let ?db1 = "db\<lparr>cd_tree := persist_score_tx now r (ch_timestamp c) None (cd_tree db)\<rparr>"
    obtain u db2 where s: "set_chunk_lifecycle_status (ch_id c) CHUNK_STATUS_PENDING_EXTRACTION ?db1 = Inr (u, db2)"
      using 2(3) True by (auto simp: Let_def split: sum.splits)
    obtain b t where j: "queue_job_sink js uuid n k (ch_id c) m (cd_tree db2) = Inr (b, t)"
      using 2(3) True s by (auto simp: Let_def split: sum.splits)
    have "cd_gates db2 = cd_gates db" using s
      by (auto simp: set_chunk_lifecycle_status_def update_rows_def set_rows_def split: if_splits)
    then show ?thesis using 2(2)[OF _ refl s refl j refl] 2(3) True s j by (auto simp: Let_def)
  next
    case False
    then show ?thesis using 2(1,3) by auto
  qed
qed auto

lemma gates_rows: "cd_gates (with_rows opts cs staged db) = cd_gates db"
proof -
  have refs: "cd_gates (fold (\<lambda>c. set_chunk_raw_refs (ch_id c) refs) ds d) = cd_gates d" for refs and ds :: "chunk list" and d
    by (induction ds arbitrary: d) (simp_all add: set_chunk_raw_refs_def update_rows_def set_rows_def)
  show ?thesis by (simp add: refs with_rows_def upsert_staged_chunks_tx_def set_rows_def split: option.split)
qed

lemma claimed_gate:
  "claimed_db now opts sid Kind_Document db = (b, db1) \<Longrightarrow> is_source_ingested Kind_Document (document_gate sid (io_gate_version_ms opts)) db1"
  by (auto simp: claimed_db_def claim_source_ingest_tx_def insert_gate_def is_source_ingested_def has_gate_def
      sql_count_def gate_key_def split: if_splits)

lemma document_kind: "canonicalise_document sid owner tags doc scope = Some (markdown, meta) \<Longrightarrow> mt_source_kind meta = Kind_Document"
  by (auto simp: canonicalise_document_def metadata_of_def Let_def split: if_splits)

text \<open>
  C31: a document that was written, or found to be there already, is not ingested a second time under its source id and
  version, whatever the second call carries: that call returns at once and changes neither database nor files. A document
  with nothing to write leaves everything as it was.
\<close>
theorem document_ingested_once:
  assumes "ingest_document_versioned env scoring (queue_job_sink js uuid n) m sid owner tags doc scope version s = (Inr y, s')"
  shows "if iy_already_ingested y \<or> iy_chunk_ids y \<noteq> []
    then ingest_document_versioned env2 scoring2 sink2 m2 sid owner2 tags2 doc2 scope2 version s' =
      (Inr (summary_already_ingested sid), s')
    else s' = s"
proof (cases "is_source_ingested Kind_Document (document_gate sid version) (fst s)")
  case True
  then show ?thesis using assms by (auto simp: ingest_document_versioned_def summary_already_ingested_def)
next
  case False
  let ?opts = "\<lparr>io_gate_version_ms = version, io_raw_refs = None\<rparr>"
  have run: "ingest_opt env scoring (queue_job_sink js uuid n) m ?opts sid (canonicalise_document sid owner tags doc scope) s = (Inr y, s')"
    using assms False by (simp add: ingest_document_versioned_def)
  then show ?thesis
  proof (cases rule: ingest_opt_cases)
    case same
    then show ?thesis by (auto simp: summary_empty_def)
  next
    case (tail markdown meta cs staged scores fs1 z)
    have "is_source_ingested Kind_Document (document_gate sid version) (fst s')"
      using tail(6)
    proof (cases rule: persist_tail_cases)
      case already
      then show ?thesis using False
        by (simp add: document_kind[OF tail(1)] claimed_db_def claim_source_ingest_tx_def insert_gate_def is_source_ingested_def)
    next
      case (written jobs db1)
      have "cd_gates (fst s') = cd_gates db1" using gates_process[OF written(2)] gates_rows by metis
      then show ?thesis using claimed_gate[of _ ?opts sid] written(1) by (simp add: document_kind[OF tail(1)] is_source_ingested_def)
    qed
    then have "ingest_document_versioned env2 scoring2 sink2 m2 sid owner2 tags2 doc2 scope2 version s' =
      (Inr (summary_already_ingested sid), s')"
      by (simp add: ingest_document_versioned_def)
    moreover have "iy_already_ingested y \<or> iy_chunk_ids y \<noteq> []"
      using tail(2,7) by (auto simp: summary_already_ingested_def split: option.splits)
    ultimately show ?thesis by simp
  qed
qed

subsection \<open>An ingest returns\<close>

text \<open>With files that can be written and an extractor that answers, an ingest comes back with a summary.\<close>

lemma process_returns:
  assumes "\<forall>(c, r, pre)\<in>set xs. get_chunk_lifecycle_status (ch_id c) db \<noteq> None"
  shows "\<exists>k' db'. process_chunks now (queue_job_sink js uuid n) m xs k jobs db = Inr (k', db')"
  using assms
proof (induction xs arbitrary: k jobs db)
  case (Cons x rest)
  obtain c r pre where x: "x = (c, r, pre)" by (metis prod_cases3)
  let ?db1 = "db\<lparr>cd_tree := persist_score_tx now r (ch_timestamp c) None (cd_tree db)\<rparr>"
  obtain u db2 where s: "set_chunk_lifecycle_status (ch_id c) CHUNK_STATUS_PENDING_EXTRACTION ?db1 = Inr (u, db2)"
  proof -
    have "sql_count (\<lambda>r. ck_id r = ch_id c) (cd_rows db) \<noteq> 0"
      using Cons.prems by (auto simp: x get_chunk_lifecycle_status_def sql_count_0_iff sql_find_def find_None_iff)
    then show thesis using that by (simp add: set_chunk_lifecycle_status_def)
  qed
  obtain b t where j: "queue_job_sink js uuid n k (ch_id c) m (cd_tree db2) = Inr (b, t)"
    by (cases "enqueue_conn (uuid k) n (new_extract_chunk js \<lparr>ec_chunk_id = ch_id c\<rparr>) m (db_jobs (cd_tree db2))")
      (simp add: queue_job_sink_def)
  have "\<forall>(d, r, pre)\<in>set rest. get_chunk_lifecycle_status (ch_id d) (db2\<lparr>cd_tree := t\<rparr>) \<noteq> None"
    using Cons.prems status_set[OF s] by (auto simp: x)
  note next2 = Cons.IH[OF this]
  have "\<forall>(d, r, pre)\<in>set rest. get_chunk_lifecycle_status (ch_id d) db \<noteq> None" using Cons.prems by auto
  note next1 = Cons.IH[OF this]
  show ?case using next1 next2 by (cases "needs_processing pre") (simp_all add: x s j Let_def)
qed simp

lemma tail_returns:
  assumes "map sg_chunk staged = cs"
  shows "\<exists>y db'. persist_tail now (queue_job_sink js uuid n) m opts sid kind cs staged scores db = Inr (y, db')"
proof -
  obtain claimed db1 where c: "claimed_db now opts sid kind db = (claimed, db1)" by fastforce
  let ?xs = "zip cs (zip scores (map (\<lambda>c. get_chunk_lifecycle_status (ch_id c) db1) cs))"
  have "\<forall>(c, r, pre)\<in>set ?xs. get_chunk_lifecycle_status (ch_id c) (with_rows opts cs staged db1) \<noteq> None"
    by (auto simp: rows_status[OF assms] dest: set_zip_leftD split: option.split)
  note process_returns[OF this, of now js uuid n m 0 0]
  then obtain k' db' where "process_chunks now (queue_job_sink js uuid n) m ?xs 0 0 (with_rows opts cs staged db1) = Inr (k', db')" by blast
  then show ?thesis unfolding persist_tail_def claimed_db_def[symmetric] c with_rows_def
    by (cases claimed) (auto simp: Let_def split: prod.splits cong: option.case_cong)
qed

lemma scores_return:
  "(\<And>c. \<exists>r. score_chunk te cfg c = Inr r) \<Longrightarrow> \<exists>rs. score_chunks te cfg cs = Inr rs \<and> length rs = length cs"
proof (induction cs)
  case (Cons c cs)
  obtain r where "score_chunk te cfg c = Inr r" using Cons.prems by blast
  moreover obtain rs where "score_chunks te cfg cs = Inr rs" "length rs = length cs" using Cons by blast
  ultimately show ?case by simp
qed simp

lemma ingest_returns:
  assumes "ie_write_error env = (\<lambda>p. None)" and "\<And>c. \<exists>r. score_chunk (ie_text env) (scoring\<lparr>sf_llm_extractor := None\<rparr>) c = Inr r"
  shows "\<exists>y s'. ingest_opt env scoring (queue_job_sink js uuid n) m opts sid canonical s = (Inr y, s')"
proof -
  obtain db fs where s: "s = (db, fs)" by fastforce
  have "\<exists>y s'. persist_score_enqueue env scoring (queue_job_sink js uuid n) m opts sid kind cs s = (Inr y, s')" for kind cs
  proof -
    obtain staged fs' where st: "stage_chunks env cs fs = (Inr staged, fs')" using staging_succeeds[OF assms(1), of cs fs] by blast
    obtain rs where rs: "score_chunks_fast (ie_text env) scoring cs = Inr rs" "length rs = length cs"
      using scores_return[OF assms(2), of cs] by (auto simp: score_chunks_fast_def)
    obtain y db' where t: "persist_tail (ie_now env) (queue_job_sink js uuid n) m opts sid kind cs staged rs db = Inr (y, db')"
      using tail_returns[OF stage_ids[OF st]] by blast
    show ?thesis using st rs t by (cases y) (auto simp: persist_score_enqueue_def s)
  qed
  then show ?thesis by (auto simp: ingest_opt_def ingest_canonical_def Let_def split: option.split prod.split)
qed

text \<open>The gate of a version is the source id with the version behind an at sign: two documents can share one.\<close>

lemma gate_key_ambiguous: "document_gate ''a@1'' None = document_gate ''a'' (Some 1)"
  by code_simp

subsection \<open>Witnesses\<close>

definition empty_chunk_db :: chunk_db where
  "empty_chunk_db = \<lparr>cd_tree = empty_tree_db, cd_rows = [], cd_embeddings = [], cd_skipped = [], cd_gates = []\<rparr>"

definition sample_document :: document_input where
  "sample_document = \<lparr>di_title = [], di_body = utext_of ''hi'', di_modified_at = 3, di_source_ref = None\<rparr>"

definition numbered :: "nat \<Rightarrow> string" where "numbered k = show_nat k"

lemma inj_numbered: "inj numbered"
  by (simp add: inj_def numbered_def)

lemma document_chunks: "ci_source_kind inp = Kind_Document \<Longrightarrow> chunk_markdown env inp n \<noteq> []"
  by (simp add: chunk_markdown_def Let_def flip: length_greater_0_conv) (simp add: split_not_empty)

lemma document_run:
  "\<exists>y s'. ingest_document_versioned sample_ingest_env (words_cfg None) (queue_job_sink sample_codec numbered 9) 3 ''d'' [] []
      sample_document None (Some 4) (empty_chunk_db, Map.empty) = (Inr y, s') \<and>
    ingest_opt sample_ingest_env (words_cfg None) (queue_job_sink sample_codec numbered 9) 3
      \<lparr>io_gate_version_ms = Some 4, io_raw_refs = None\<rparr> ''d'' (canonicalise_document ''d'' [] [] sample_document None)
      (empty_chunk_db, Map.empty) = (Inr y, s') \<and> iy_chunk_ids y \<noteq> []"
proof -
  let ?sink = "queue_job_sink sample_codec numbered 9" and ?opts = "\<lparr>io_gate_version_ms = Some 4, io_raw_refs = None\<rparr>"
    and ?c = "canonicalise_document ''d'' [] [] sample_document None" and ?s = "(empty_chunk_db, Map.empty)"
  have some: "?c \<noteq> None"
    by (simp add: canonicalise_document_def sample_document_def utext_of_def trim_def is_white_def)
  have "\<exists>r. score_chunk (ie_text sample_ingest_env) ((words_cfg None)\<lparr>sf_llm_extractor := None\<rparr>) c = Inr r" for c
    by (auto simp: score_chunk_def words_cfg_def nothing_found_def sample_ingest_env_def Let_def split: prod.split)
  note X = ingest_returns[OF _ this, of sample_codec numbered 9 3 ?opts "''d''" ?c ?s]
  obtain y s' where run: "ingest_opt sample_ingest_env (words_cfg None) ?sink 3 ?opts ''d'' ?c ?s = (Inr y, s')"
    using X by (auto simp: sample_ingest_env_def)
  then have "iy_chunk_ids y \<noteq> []"
  proof (cases rule: ingest_opt_cases)
    case same
    obtain md meta where c: "?c = Some (md, meta)" using some by (cases ?c) auto
    have "y = summary_empty ''d''" using same by auto
    then show ?thesis using run unfolding c
      by (auto simp: ingest_opt_def ingest_canonical_def Let_def document_chunks document_kind[OF c] persist_score_enqueue_def
        summary_empty_def summary_already_ingested_def split: if_splits sum.splits prod.splits option.splits)
  next
    case (tail markdown meta cs staged scores fs1 z)
    show ?thesis using tail(6)
    proof (cases rule: persist_tail_cases)
      case already
      then show ?thesis
        by (simp add: document_kind[OF tail(1)] claimed_db_def claim_source_ingest_tx_def insert_gate_def has_gate_def
            empty_chunk_db_def sql_count_def)
    next
      case written
      then show ?thesis using tail(2,7) by auto
    qed
  qed
  then show ?thesis using run
    by (auto simp: ingest_document_versioned_def is_source_ingested_def has_gate_def empty_chunk_db_def sql_count_def)
qed

theorem document_ingested_once_witness:
  "\<exists>y s'. ingest_document_versioned sample_ingest_env (words_cfg None) (queue_job_sink sample_codec numbered 9) 3 ''d'' [] []
      sample_document None (Some 4) (empty_chunk_db, Map.empty) = (Inr y, s') \<and>
    ingest_document_versioned sample_ingest_env (words_cfg None) (queue_job_sink sample_codec numbered 9) 3 ''d'' [] []
      sample_document None (Some 4) s' = (Inr (summary_already_ingested ''d''), s')"
proof -
  note X = document_run
  obtain y s' where run: "ingest_document_versioned sample_ingest_env (words_cfg None) (queue_job_sink sample_codec numbered 9) 3
      ''d'' [] [] sample_document None (Some 4) (empty_chunk_db, Map.empty) = (Inr y, s')" "iy_chunk_ids y \<noteq> []"
    using X by blast
  show ?thesis using document_ingested_once[OF run(1), of sample_ingest_env "words_cfg None"
      "queue_job_sink sample_codec numbered 9" 3 "[]" "[]" sample_document None] run by simp
qed

theorem ingested_chunks_scheduled_witness:
  "\<exists>y s'. ingest_opt sample_ingest_env (words_cfg None) (queue_job_sink sample_codec numbered 9) 3
      \<lparr>io_gate_version_ms = Some 4, io_raw_refs = None\<rparr> ''d'' (canonicalise_document ''d'' [] [] sample_document None)
      (empty_chunk_db, Map.empty) = (Inr y, s') \<and> iy_chunk_ids y \<noteq> [] \<and> list_all (\<lambda>i. scheduled i (fst s')) (iy_chunk_ids y)"
proof -
  note X = document_run
  obtain y s' where run: "ingest_opt sample_ingest_env (words_cfg None) (queue_job_sink sample_codec numbered 9) 3
      \<lparr>io_gate_version_ms = Some 4, io_raw_refs = None\<rparr> ''d'' (canonicalise_document ''d'' [] [] sample_document None)
      (empty_chunk_db, Map.empty) = (Inr y, s')" "iy_chunk_ids y \<noteq> []"
    using X by blast
  show ?thesis using ingested_chunks_scheduled[OF run(1) _ inj_numbered] run
    by (auto simp: empty_chunk_db_def empty_tree_db_def fresh_uuid_def get_chunk_lifecycle_status_def sql_find_def needs_processing_def)
qed

definition sealed_chunk_db :: chunk_db where
  "sealed_chunk_db = set_rows [(chunk_to_row ((sample_chunk_text [97])\<lparr>ch_id := ''219''\<rparr>))\<lparr>st_lifecycle := CHUNK_STATUS_SEALED\<rparr>] empty_chunk_db"

theorem processed_chunks_untouched_witness:
  "processing_state ''219'' (fst (snd (ingest_document sample_ingest_env (words_cfg None) (queue_job_sink sample_codec numbered 9) 3
      ''d'' [] [] sample_document (sealed_chunk_db, Map.empty)))) = processing_state ''219'' sealed_chunk_db"
proof -
  have "get_chunk_lifecycle_status ''219'' sealed_chunk_db = Some CHUNK_STATUS_SEALED"
    by (simp add: sealed_chunk_db_def set_rows_def get_chunk_lifecycle_status_def sql_find_def chunk_to_row_def)
  note keep = processed_chunks_untouched[of sample_ingest_env "words_cfg None" sample_codec numbered 9 3 _ "''d''" _
    "(sealed_chunk_db, Map.empty)", unfolded fst_conv, OF _ this]
  show ?thesis
    by (auto simp: ingest_document_def ingest_document_versioned_def CHUNK_STATUS_SEALED_def CHUNK_STATUS_PENDING_EXTRACTION_def
        intro!: keep prod.collapse[symmetric])
qed

end
