(* ===== verification/People.thy ===== *)
theory People
  imports Ingest "HOL-Library.Option_ord"
begin

section \<open>People (src/memory/people: types.rs, store.rs, resolver.rs, scorer.rs, address_book.rs)\<close>

text \<open>
  A person is known under handles: an iMessage address, an email address, a display name. The store keeps the
  people, the handles as a table keyed by kind and canonical value, and the interactions; the resolver maps a handle to
  its person and mints one when there is none. Times are nanoseconds, rows hold seconds. UUIDs, lower case, the range of
  \<^verbatim>\<open>chrono\<close> and whether the SQLite build enforces foreign keys (this connection does not set the pragma) are arguments.
\<close>

subsection \<open>Handles and people (types.rs)\<close>

datatype handle = IMessage_Handle utext | Email_Handle utext | Name_Handle utext

record people_env =
  pe_lower :: "utext \<Rightarrow> utext"
  pe_parse_uuid :: "string \<Rightarrow> string option"
  pe_ts_ok :: "int \<Rightarrow> bool"
  pe_foreign_keys :: bool

fun canonicalize :: "people_env \<Rightarrow> handle \<Rightarrow> handle" where
  "canonicalize env (IMessage_Handle s) = IMessage_Handle (pe_lower env (trim s))"
| "canonicalize env (Email_Handle s) = Email_Handle (pe_lower env (trim s))"
| "canonicalize env (Name_Handle s) = Name_Handle (join [32] (split_words s))"

fun as_key :: "handle \<Rightarrow> string \<times> utext" where
  "as_key (IMessage_Handle s) = (''imessage'', s)"
| "as_key (Email_Handle s) = (''email'', s)"
| "as_key (Name_Handle s) = (''display_name'', s)"

record person =
  ps_id :: string
  ps_display_name :: "utext option"
  ps_primary_email :: "utext option"
  ps_primary_phone :: "utext option"
  ps_handles :: "handle list"
  ps_created_at :: int
  ps_updated_at :: int

record interaction =
  ia_person_id :: string
  ia_ts :: int
  ia_is_outbound :: bool
  ia_length :: nat

record address_book_contact =
  ab_display_name :: "utext option"
  ab_emails :: "utext list"
  ab_phones :: "utext list"

text \<open>\<^verbatim>\<open>DateTime::timestamp\<close> floors; \<^verbatim>\<open>Duration::num_seconds\<close> rounds towards zero.\<close>

definition dt_seconds :: "int \<Rightarrow> int" where "dt_seconds t = t div 10 ^ 9"

definition num_seconds :: "int \<Rightarrow> int" where
  "num_seconds d = (if d < 0 then - ((- d) div 10 ^ 9) else d div 10 ^ 9)"

definition ts_to_dt :: "people_env \<Rightarrow> int \<Rightarrow> int" where
  "ts_to_dt env ts = (if pe_ts_ok env ts then ts * 10 ^ 9 else 0)"

subsection \<open>Tables (migrations/0001_init.sql)\<close>

record person_row =
  pr_id :: string
  pr_display_name :: "utext option"
  pr_primary_email :: "utext option"
  pr_primary_phone :: "utext option"
  pr_created_at :: int
  pr_updated_at :: int

record alias_row =
  al_kind :: string
  al_value :: utext
  al_person_id :: string
  al_created_at :: int

record interaction_row =
  ir_person_id :: string
  ir_ts :: int
  ir_is_outbound :: int
  ir_length :: int

record people_db =
  pb_people :: "person_row list"
  pb_aliases :: "alias_row list"
  pb_interactions :: "interaction_row list"

definition alias_key :: "alias_row \<Rightarrow> string \<times> utext" where
  "alias_key r = (al_kind r, al_value r)"

definition references_ok :: "people_env \<Rightarrow> string \<Rightarrow> people_db \<Rightarrow> bool" where
  "references_ok env person_id db \<longleftrightarrow>
    (pe_foreign_keys env \<longrightarrow> sql_count (\<lambda>r. pr_id r = person_id) (pb_people db) > 0)"

definition foreign_key_error :: anyhow_error where
  "foreign_key_error = sqlite_error ConstraintViolation 787 ''FOREIGN KEY constraint failed''"

definition insert_person_row :: "person \<Rightarrow> (unit, people_db) tx" where
  "insert_person_row p db =
    (if sql_count (\<lambda>r. pr_id r = ps_id p) (pb_people db) > 0
     then Inl (sqlite_error ConstraintViolation 1555 ''UNIQUE constraint failed: people.id'')
     else Inr ((), db\<lparr>pb_people := pb_people db @
       [\<lparr>pr_id = ps_id p, pr_display_name = ps_display_name p, pr_primary_email = ps_primary_email p,
         pr_primary_phone = ps_primary_phone p, pr_created_at = dt_seconds (ps_created_at p),
         pr_updated_at = dt_seconds (ps_updated_at p)\<rparr>]\<rparr>))"

definition find_alias :: "handle \<Rightarrow> people_db \<Rightarrow> string option" where
  "find_alias h db = map_option al_person_id (sql_find (\<lambda>r. alias_key r = as_key h) (pb_aliases db))"

text \<open>\<^verbatim>\<open>INSERT OR IGNORE\<close>: a row whose key is taken is skipped before its reference is looked at.\<close>

definition insert_alias_or_ignore :: "people_env \<Rightarrow> int \<Rightarrow> string \<Rightarrow> handle \<Rightarrow> (unit, people_db) tx" where
  "insert_alias_or_ignore env now_s person_id h db =
    (if sql_count (\<lambda>r. alias_key r = as_key h) (pb_aliases db) > 0 then Inr ((), db)
     else if \<not> references_ok env person_id db then Inl foreign_key_error
     else Inr ((), db\<lparr>pb_aliases := pb_aliases db @
       [\<lparr>al_kind = fst (as_key h), al_value = snd (as_key h), al_person_id = person_id, al_created_at = now_s\<rparr>]\<rparr>))"

fun insert_aliases :: "people_env \<Rightarrow> int \<Rightarrow> string \<Rightarrow> handle list \<Rightarrow> (unit, people_db) tx" where
  "insert_aliases env now_s person_id [] db = Inr ((), db)"
| "insert_aliases env now_s person_id (h # hs) db =
    tx_bind (insert_alias_or_ignore env now_s person_id h) (\<lambda>_. insert_aliases env now_s person_id hs) db"

subsection \<open>The store (store.rs)\<close>

text \<open>Each operation runs under the lock of the one connection.\<close>

definition insert_person :: "people_env \<Rightarrow> int \<Rightarrow> person \<Rightarrow> handle list \<Rightarrow> people_db \<Rightarrow> unit result \<times> people_db" where
  "insert_person env now_s p handles =
    run_tx (tx_bind (insert_person_row p) (\<lambda>_. insert_aliases env now_s (ps_id p) (map (canonicalize env) handles)))"

definition parse_id :: "people_env \<Rightarrow> string \<Rightarrow> string result" where
  "parse_id env i = (case pe_parse_uuid env i of
     Some u \<Rightarrow> Inr u | None \<Rightarrow> Inl (plain_error ''Invalid column name: invalid uuid''))"

definition resolve_or_insert_person :: "people_env \<Rightarrow> int \<Rightarrow> person \<Rightarrow> handle \<Rightarrow> people_db \<Rightarrow>
    (string \<times> bool) result \<times> people_db" where
  "resolve_or_insert_person env now_s p h0 db =
    (let h = canonicalize env h0 in
     case find_alias h db of
       Some i \<Rightarrow> (case parse_id env i of Inl e \<Rightarrow> (Inl e, db) | Inr u \<Rightarrow> (Inr (u, False), db))
     | None \<Rightarrow>
        run_tx (tx_bind (insert_person_row p) (\<lambda>_ db1.
          if \<not> references_ok env (ps_id p) db1 then Inl foreign_key_error
          else Inr ((ps_id p, True), db1\<lparr>pb_aliases := pb_aliases db1 @
            [\<lparr>al_kind = fst (as_key h), al_value = snd (as_key h), al_person_id = ps_id p, al_created_at = now_s\<rparr>]\<rparr>))) db)"

definition add_alias :: "people_env \<Rightarrow> int \<Rightarrow> string \<Rightarrow> handle \<Rightarrow> people_db \<Rightarrow> unit result \<times> people_db" where
  "add_alias env now_s person_id h = run_tx (insert_alias_or_ignore env now_s person_id (canonicalize env h))"

definition people_lookup :: "people_env \<Rightarrow> handle \<Rightarrow> people_db \<Rightarrow> string option" where
  "people_lookup env h db = Option.bind (find_alias (canonicalize env h) db) (pe_parse_uuid env)"

fun handle_of_row :: "alias_row \<Rightarrow> handle result" where
  "handle_of_row r =
    (if al_kind r = ''imessage'' then Inr (IMessage_Handle (al_value r))
     else if al_kind r = ''email'' then Inr (Email_Handle (al_value r))
     else if al_kind r = ''display_name'' then Inr (Name_Handle (al_value r))
     else Inl (plain_error (''Invalid column name: unknown handle kind: '' @ al_kind r)))"

fun collect :: "('a \<Rightarrow> 'b result) \<Rightarrow> 'a list \<Rightarrow> 'b list result" where
  "collect f [] = Inr []"
| "collect f (x # xs) = (case f x of Inl e \<Rightarrow> Inl e | Inr y \<Rightarrow> (case collect f xs of Inl e \<Rightarrow> Inl e | Inr ys \<Rightarrow> Inr (y # ys)))"

definition load_handles :: "string \<Rightarrow> people_db \<Rightarrow> handle list result" where
  "load_handles person_id db =
    collect handle_of_row (sort_key alias_key (filter (\<lambda>r. al_person_id r = person_id) (pb_aliases db)))"

definition person_of_row :: "people_env \<Rightarrow> people_db \<Rightarrow> person_row \<Rightarrow> person result" where
  "person_of_row env db r =
    (case parse_id env (pr_id r) of Inl e \<Rightarrow> Inl e
     | Inr i \<Rightarrow> (case load_handles i db of Inl e \<Rightarrow> Inl e
       | Inr hs \<Rightarrow> Inr \<lparr>ps_id = i, ps_display_name = pr_display_name r, ps_primary_email = pr_primary_email r,
           ps_primary_phone = pr_primary_phone r, ps_handles = hs, ps_created_at = ts_to_dt env (pr_created_at r),
           ps_updated_at = ts_to_dt env (pr_updated_at r)\<rparr>))"

definition get_person :: "people_env \<Rightarrow> string \<Rightarrow> people_db \<Rightarrow> person option result" where
  "get_person env person_id db =
    (case sql_find (\<lambda>r. pr_id r = person_id) (pb_people db) of
       None \<Rightarrow> Inr None
     | Some r \<Rightarrow> (case person_of_row env db r of Inl e \<Rightarrow> Inl e | Inr p \<Rightarrow> Inr (Some p)))"

definition list_people :: "people_env \<Rightarrow> people_db \<Rightarrow> person list result" where
  "list_people env db = collect (person_of_row env db) (sort_key pr_display_name (pb_people db))"

definition record_interaction :: "people_env \<Rightarrow> interaction \<Rightarrow> people_db \<Rightarrow> unit result \<times> people_db" where
  "record_interaction env i = run_tx (\<lambda>db.
    if \<not> references_ok env (ia_person_id i) db then Inl foreign_key_error
    else Inr ((), db\<lparr>pb_interactions := pb_interactions db @
      [\<lparr>ir_person_id = ia_person_id i, ir_ts = dt_seconds (ia_ts i),
        ir_is_outbound = (if ia_is_outbound i then 1 else 0), ir_length = int (ia_length i)\<rparr>]\<rparr>))"

definition interaction_of_row :: "people_env \<Rightarrow> string \<Rightarrow> interaction_row \<Rightarrow> interaction" where
  "interaction_of_row env person_id r =
    \<lparr>ia_person_id = person_id, ia_ts = ts_to_dt env (ir_ts r), ia_is_outbound = (ir_is_outbound r \<noteq> 0),
     ia_length = as_u32 (max (ir_length r) 0)\<rparr>"

definition interactions_for :: "people_env \<Rightarrow> string \<Rightarrow> people_db \<Rightarrow> interaction list" where
  "interactions_for env person_id db =
    map (interaction_of_row env person_id)
      (sort_key (\<lambda>r. - ir_ts r) (filter (\<lambda>r. ir_person_id r = person_id) (pb_interactions db)))"

fun group_interactions :: "people_env \<Rightarrow> interaction_row list \<Rightarrow> (string \<rightharpoonup> interaction list) \<Rightarrow>
    (string \<rightharpoonup> interaction list) result" where
  "group_interactions env [] m = Inr m"
| "group_interactions env (r # rs) m =
    (case parse_id env (ir_person_id r) of Inl e \<Rightarrow> Inl e
     | Inr i \<Rightarrow> group_interactions env rs
         (m(i \<mapsto> (case m i of Some xs \<Rightarrow> xs | None \<Rightarrow> []) @ [interaction_of_row env i r])))"

definition batch_interactions_for :: "people_env \<Rightarrow> string list \<Rightarrow> people_db \<Rightarrow> (string \<rightharpoonup> interaction list) result" where
  "batch_interactions_for env person_ids db =
    (if person_ids = [] then Inr Map.empty
     else group_interactions env
       (sort_key (\<lambda>r. (ir_person_id r, - ir_ts r)) (filter (\<lambda>r. ir_person_id r \<in> set person_ids) (pb_interactions db)))
       Map.empty)"

subsection \<open>Opening stores (store.rs)\<close>

text \<open>
  Two process-wide tables hold open stores: the slot of the active user's workspace and a cache per workspace. A
  caller reads under the read lock, opens a store without any lock, and takes the write lock to publish it,
  looking again first. A store is the number of its connection. A panic under a lock, which would poison it, is
  not modelled.
\<close>

type_synonym store_id = nat
type_synonym workspace = string

record registry =
  rg_global :: "(workspace \<times> store_id) option"
  rg_cache :: "workspace \<rightharpoonup> store_id"
  rg_next :: store_id

definition open_store :: "registry \<Rightarrow> store_id \<times> registry" where
  "open_store g = (rg_next g, g\<lparr>rg_next := Suc (rg_next g)\<rparr>)"

definition init_fast_path :: "workspace \<Rightarrow> registry \<Rightarrow> store_id option" where
  "init_fast_path ws g = (case rg_global g of Some (w, s) \<Rightarrow> if w = ws then Some s else None | None \<Rightarrow> None)"

definition init_publish :: "workspace \<Rightarrow> store_id \<Rightarrow> registry \<Rightarrow> store_id \<times> registry" where
  "init_publish ws store g =
    (case init_fast_path ws g of Some s \<Rightarrow> (s, g) | None \<Rightarrow> (store, g\<lparr>rg_global := Some (ws, store)\<rparr>))"

definition get_store :: "registry \<Rightarrow> string + store_id" where
  "get_store g = (case rg_global g of
     Some (w, s) \<Rightarrow> Inr s | None \<Rightarrow> Inl (''people store not initialised '' @ [CHR 0xE2, CHR 0x80, CHR 0x94] @ '' core startup hasn'' @ [CHR 0x27] @ ''t completed''))"

definition cache_fast_path :: "workspace \<Rightarrow> registry \<Rightarrow> store_id option" where
  "cache_fast_path ws g = rg_cache g ws"

definition cache_publish :: "workspace \<Rightarrow> store_id \<Rightarrow> registry \<Rightarrow> store_id \<times> registry" where
  "cache_publish ws store g =
    (case rg_cache g ws of Some s \<Rightarrow> (s, g) | None \<Rightarrow> (store, g\<lparr>rg_cache := (rg_cache g)(ws \<mapsto> store)\<rparr>))"

definition init_from_workspace :: "workspace \<Rightarrow> registry \<Rightarrow> store_id \<times> registry" where
  "init_from_workspace ws g =
    (case init_fast_path ws g of Some s \<Rightarrow> (s, g)
     | None \<Rightarrow> (case open_store g of (s, g') \<Rightarrow> init_publish ws s g'))"

definition for_workspace :: "workspace \<Rightarrow> registry \<Rightarrow> store_id \<times> registry" where
  "for_workspace ws g =
    (case cache_fast_path ws g of Some s \<Rightarrow> (s, g)
     | None \<Rightarrow> (case open_store g of (s, g') \<Rightarrow> cache_publish ws s g'))"

text \<open>
  Callers of the two functions that run at the same time: each step holds at most one lock, and between
  opening a store and publishing it any other caller may run. A failed open ends the caller.
\<close>

datatype entry = Via_Cache | Via_Init

datatype caller_pc = Calling | Opened store_id | Returned store_id | Failed_Open

definition fast_path :: "entry \<Rightarrow> workspace \<Rightarrow> registry \<Rightarrow> store_id option" where
  "fast_path e = (case e of Via_Cache \<Rightarrow> cache_fast_path | Via_Init \<Rightarrow> init_fast_path)"

definition publish_store :: "entry \<Rightarrow> workspace \<Rightarrow> store_id \<Rightarrow> registry \<Rightarrow> store_id \<times> registry" where
  "publish_store e = (case e of Via_Cache \<Rightarrow> cache_publish | Via_Init \<Rightarrow> init_publish)"

record callers =
  cl_registry :: registry
  cl_pc :: "nat \<Rightarrow> (entry \<times> workspace \<times> caller_pc) option"

inductive call_step :: "callers \<Rightarrow> callers \<Rightarrow> bool" where
  call_begin: "cl_pc s c = None \<Longrightarrow> call_step s (s\<lparr>cl_pc := (cl_pc s)(c \<mapsto> (e, ws, Calling))\<rparr>)"
| call_found: "cl_pc s c = Some (e, ws, Calling) \<Longrightarrow> fast_path e ws (cl_registry s) = Some st \<Longrightarrow>
    call_step s (s\<lparr>cl_pc := (cl_pc s)(c \<mapsto> (e, ws, Returned st))\<rparr>)"
| call_open: "cl_pc s c = Some (e, ws, Calling) \<Longrightarrow> fast_path e ws (cl_registry s) = None \<Longrightarrow>
    open_store (cl_registry s) = (st, g) \<Longrightarrow>
    call_step s (s\<lparr>cl_registry := g, cl_pc := (cl_pc s)(c \<mapsto> (e, ws, Opened st))\<rparr>)"
| call_failed: "cl_pc s c = Some (e, ws, Calling) \<Longrightarrow> fast_path e ws (cl_registry s) = None \<Longrightarrow>
    call_step s (s\<lparr>cl_pc := (cl_pc s)(c \<mapsto> (e, ws, Failed_Open))\<rparr>)"
| call_publish: "cl_pc s c = Some (e, ws, Opened st) \<Longrightarrow> publish_store e ws st (cl_registry s) = (st', g) \<Longrightarrow>
    call_step s (s\<lparr>cl_registry := g, cl_pc := (cl_pc s)(c \<mapsto> (e, ws, Returned st'))\<rparr>)"

inductive_cases call_stepE: "call_step s t"

definition callers_init :: "callers \<Rightarrow> bool" where
  "callers_init s \<longleftrightarrow> cl_pc s = Map.empty \<and> rg_cache (cl_registry s) = Map.empty \<and> rg_global (cl_registry s) = None"

text \<open>A step during which \<^verbatim>\<open>ws\<close> stays the active workspace.\<close>

definition active_workspace :: "callers \<Rightarrow> workspace option" where
  "active_workspace s = map_option fst (rg_global (cl_registry s))"

definition bound_step :: "workspace \<Rightarrow> callers \<Rightarrow> callers \<Rightarrow> bool" where
  "bound_step ws s t \<longleftrightarrow> call_step s t \<and> active_workspace s = Some ws \<and> active_workspace t = Some ws"

subsection \<open>The resolver (resolver.rs)\<close>

text \<open>A minted id is an argument: \<^verbatim>\<open>PersonId::new\<close> is called whether or not the handle is known.\<close>

definition in_context :: "string \<Rightarrow> 'a result \<times> 's \<Rightarrow> 'a result \<times> 's" where
  "in_context what x = (case x of (Inl e, s) \<Rightarrow> (Inl (plain_error (what @ '': '' @ err_msg e)), s) | (Inr a, s) \<Rightarrow> (Inr a, s))"

definition resolve :: "people_env \<Rightarrow> handle \<Rightarrow> people_db \<Rightarrow> string option" where
  "resolve env h db = people_lookup env (canonicalize env h) db"

definition person_skeleton :: "string \<Rightarrow> int \<Rightarrow> handle \<Rightarrow> person" where
  "person_skeleton i now h =
    (case (case h of
        Name_Handle s \<Rightarrow> (Some s, None, None)
      | Email_Handle s \<Rightarrow> (None, Some s, None)
      | IMessage_Handle s \<Rightarrow> if 64 \<in> set s then (None, Some s, None) else (None, None, Some s)) of
      (display_name, primary_email, primary_phone) \<Rightarrow>
        \<lparr>ps_id = i, ps_display_name = display_name, ps_primary_email = primary_email, ps_primary_phone = primary_phone,
         ps_handles = [h], ps_created_at = now, ps_updated_at = now\<rparr>)"

definition resolve_or_create_with_status :: "people_env \<Rightarrow> string \<Rightarrow> int \<Rightarrow> handle \<Rightarrow> people_db \<Rightarrow>
    (string \<times> bool) result \<times> people_db" where
  "resolve_or_create_with_status env i now h db =
    (let canonical = canonicalize env h in
     in_context ''resolve_or_insert_person''
       (resolve_or_insert_person env (dt_seconds now) (person_skeleton i now canonical) canonical db))"

definition resolve_or_create :: "people_env \<Rightarrow> string \<Rightarrow> int \<Rightarrow> handle \<Rightarrow> people_db \<Rightarrow> string result \<times> people_db" where
  "resolve_or_create env i now h db =
    (case resolve_or_create_with_status env i now h db of (Inl e, db') \<Rightarrow> (Inl e, db') | (Inr (u, created), db') \<Rightarrow> (Inr u, db'))"

definition link :: "people_env \<Rightarrow> string \<Rightarrow> int \<Rightarrow> handle \<Rightarrow> handle \<Rightarrow> people_db \<Rightarrow> string result \<times> people_db" where
  "link env i now primary other db =
    (case resolve_or_create env i now primary db of
       (Inl e, db1) \<Rightarrow> (Inl e, db1)
     | (Inr pid, db1) \<Rightarrow>
        (case in_context ''add_alias'' (add_alias env (dt_seconds now) pid (canonicalize env other) db1) of
           (Inl e, db2) \<Rightarrow> (Inl e, db2)
         | (Inr _, db2) \<Rightarrow> (Inr pid, db2)))"

subsection \<open>Seeding from the address book (resolver.rs, address_book.rs)\<close>

datatype address_book_error = Permission_Denied | Other_Error string

fun read_with :: "address_book_error + address_book_contact list \<Rightarrow> address_book_error + address_book_contact list" where
  "read_with (Inr v) = Inr v"
| "read_with (Inl Permission_Denied) = Inl Permission_Denied"
| "read_with (Inl (Other_Error e)) = Inl (Other_Error e)"

definition nonblank :: "(utext \<Rightarrow> handle) \<Rightarrow> utext \<Rightarrow> handle list" where
  "nonblank mk s = (let trimmed = trim s in if trimmed = [] then [] else [mk trimmed])"

definition contact_handles :: "address_book_contact \<Rightarrow> handle list" where
  "contact_handles c =
    concat (map (nonblank Email_Handle) (ab_emails c)) @ concat (map (nonblank IMessage_Handle) (ab_phones c)) @
    (case ab_display_name c of Some n \<Rightarrow> nonblank Name_Handle n | None \<Rightarrow> [])"

fun add_aliases :: "people_env \<Rightarrow> int \<Rightarrow> string \<Rightarrow> handle list \<Rightarrow> people_db \<Rightarrow> people_db" where
  "add_aliases env now_s pid [] db = db"
| "add_aliases env now_s pid (h # hs) db = add_aliases env now_s pid hs (snd (add_alias env now_s pid (canonicalize env h) db))"

fun seed_contacts :: "people_env \<Rightarrow> (nat \<Rightarrow> string) \<Rightarrow> int \<Rightarrow> address_book_contact list \<Rightarrow> nat \<Rightarrow> nat \<times> nat \<Rightarrow> people_db \<Rightarrow>
    (nat \<times> nat) \<times> people_db" where
  "seed_contacts env uuid now [] i counts db = (counts, db)"
| "seed_contacts env uuid now (c # cs) i (seeded, skipped) db =
    (case contact_handles c of
       [] \<Rightarrow> seed_contacts env uuid now cs i (seeded, Suc skipped) db
     | primary # others \<Rightarrow>
        (case resolve_or_create env (uuid i) now primary db of
           (Inl e, db1) \<Rightarrow> seed_contacts env uuid now cs (Suc i) (seeded, Suc skipped) db1
         | (Inr pid, db1) \<Rightarrow>
            seed_contacts env uuid now cs (Suc i) (Suc seeded, skipped) (add_aliases env (dt_seconds now) pid others db1)))"

definition seed_from_address_book :: "people_env \<Rightarrow> (nat \<Rightarrow> string) \<Rightarrow> int \<Rightarrow>
    address_book_error + address_book_contact list \<Rightarrow> people_db \<Rightarrow> (address_book_error + nat \<times> nat) \<times> people_db" where
  "seed_from_address_book env uuid now source db =
    (case read_with source of
       Inl e \<Rightarrow> (Inl e, db)
     | Inr contacts \<Rightarrow> (case seed_contacts env uuid now contacts 0 (0, 0) db of (counts, db') \<Rightarrow> (Inr counts, db')))"

subsection \<open>Scores (scorer.rs)\<close>

definition RECENCY_HALF_LIFE_DAYS :: real where "RECENCY_HALF_LIFE_DAYS = 14"
definition FREQUENCY_WINDOW_DAYS :: nat where "FREQUENCY_WINDOW_DAYS = 30"
definition FREQUENCY_CAP :: real where "FREQUENCY_CAP = 50"
definition DEPTH_CAP_CHARS :: real where "DEPTH_CAP_CHARS = 500"

record score_components =
  so_recency :: real
  so_frequency :: real
  so_reciprocity :: real
  so_depth :: real
  so_score :: real

definition clamp01 :: "real \<Rightarrow> real" where "clamp01 x = max 0 (min 1 x)"

definition recency_of :: "interaction list \<Rightarrow> int \<Rightarrow> real" where
  "recency_of xs now =
    (let newest = Max (ia_ts ` set xs);
         age_days = max (real_of_int (num_seconds (now - newest)) / 86400) 0
     in clamp01 (exp (- (age_days * ln 2 / RECENCY_HALF_LIFE_DAYS))))"

definition frequency_of :: "interaction list \<Rightarrow> int \<Rightarrow> real" where
  "frequency_of xs now =
    (let window_cutoff = now - int FREQUENCY_WINDOW_DAYS * 86400 * 10 ^ 9
     in clamp01 (real (length (filter (\<lambda>i. window_cutoff \<le> ia_ts i) xs)) / FREQUENCY_CAP))"

definition reciprocity_of :: "interaction list \<Rightarrow> real" where
  "reciprocity_of xs =
    (let out_n = length (filter ia_is_outbound xs); in_n = length (filter (\<lambda>i. \<not> ia_is_outbound i) xs)
     in if out_n + in_n = 0 then 0 else clamp01 (min (real out_n) (real in_n) / max (real out_n) (real in_n)))"

definition depth_of :: "interaction list \<Rightarrow> real" where
  "depth_of xs =
    (let mean_len = real (sum_list (map ia_length xs)) / max (real (length xs)) 1
     in clamp01 (mean_len / DEPTH_CAP_CHARS))"

definition score_person :: "interaction list \<Rightarrow> int \<Rightarrow> score_components" where
  "score_person xs now =
    (if xs = [] then \<lparr>so_recency = 0, so_frequency = 0, so_reciprocity = 0, so_depth = 0, so_score = 0\<rparr>
     else
       (let recency = recency_of xs now; frequency = frequency_of xs now; reciprocity = reciprocity_of xs; depth = depth_of xs
        in \<lparr>so_recency = recency, so_frequency = frequency, so_reciprocity = reciprocity, so_depth = depth,
            so_score = clamp01 (recency * frequency * reciprocity * depth)\<rparr>))"

subsection \<open>Canonical handles\<close>

definition lower_ok :: "people_env \<Rightarrow> bool" where
  "lower_ok env \<longleftrightarrow> (\<forall>s. pe_lower env (pe_lower env s) = pe_lower env s \<and>
    trim (pe_lower env (trim s)) = pe_lower env (trim s))"

lemma split_if_word: "\<forall>c\<in>set w. \<not> p c \<Longrightarrow> split_if p w = [w]"
  by (induction w) auto

lemma split_if_sep: "\<forall>c\<in>set w. \<not> p c \<Longrightarrow> p d \<Longrightarrow> split_if p (w @ d # r) = w # split_if p r"
  by (induction w) auto

lemma split_if_parts: "w \<in> set (split_if p s) \<Longrightarrow> c \<in> set w \<Longrightarrow> \<not> p c"
proof (induction s arbitrary: w)
  case (Cons a s)
  then show ?case by (cases "split_if p s") (fastforce split: if_splits)+
qed simp

lemma split_words_join:
  assumes "\<forall>w\<in>set ws. w \<noteq> [] \<and> (\<forall>c\<in>set w. \<not> is_white c)"
  shows "split_words (join [32] ws) = ws"
  using assms
proof (induction ws rule: induct_list012)
  case 1
  show ?case by (simp add: split_words_def)
next
  case (2 w)
  then show ?case by (simp add: split_words_def split_if_word)
next
  case (3 w v ws)
  have "is_white 32" by (simp add: is_white_def)
  then show ?case using 3(2) 3(3) by (simp add: split_words_def split_if_sep)
qed

lemma canonicalize_idem: "lower_ok env \<Longrightarrow> canonicalize env (canonicalize env h) = canonicalize env h"
proof (cases h)
  case (Name_Handle s)
  have "\<forall>w\<in>set (split_words s). w \<noteq> [] \<and> (\<forall>c\<in>set w. \<not> is_white c)"
    by (auto simp: split_words_def dest: split_if_parts)
  then show ?thesis by (simp add: Name_Handle split_words_join)
qed (simp_all add: lower_ok_def)

lemma as_key_inj [simp]: "as_key h = as_key k \<longleftrightarrow> h = k"
  by (cases h; cases k) auto

subsection \<open>The tables keep their constraints\<close>

definition has_person :: "string \<Rightarrow> people_db \<Rightarrow> bool" where
  "has_person i db \<longleftrightarrow> list_ex (\<lambda>r. pr_id r = i) (pb_people db)"

definition people_ok :: "people_env \<Rightarrow> people_db \<Rightarrow> bool" where
  "people_ok env db \<longleftrightarrow> distinct (map pr_id (pb_people db)) \<and> distinct (map alias_key (pb_aliases db)) \<and>
    (pe_foreign_keys env \<longrightarrow> list_all (\<lambda>r. has_person (al_person_id r) db) (pb_aliases db) \<and>
      list_all (\<lambda>r. has_person (ir_person_id r) db) (pb_interactions db))"

lemma has_person_simps [simp]:
  "has_person i (db\<lparr>pb_people := pb_people db @ [r]\<rparr>) \<longleftrightarrow> has_person i db \<or> pr_id r = i"
  "has_person i (db\<lparr>pb_aliases := as\<rparr>) \<longleftrightarrow> has_person i db"
  "has_person i (db\<lparr>pb_interactions := xs\<rparr>) \<longleftrightarrow> has_person i db"
  by (auto simp: has_person_def)

text \<open>Everything that changes a store, in any order and with any arguments.\<close>

inductive people_step :: "people_env \<Rightarrow> people_db \<Rightarrow> people_db \<Rightarrow> bool" for env where
  ps_insert: "people_step env db (snd (insert_person env now_s p hs db))"
| ps_resolve: "people_step env db (snd (resolve_or_insert_person env now_s p h db))"
| ps_alias: "people_step env db (snd (add_alias env now_s i h db))"
| ps_record: "people_step env db (snd (record_interaction env x db))"

inductive_cases people_stepE: "people_step env db db'"

definition people_init :: "people_db \<Rightarrow> bool" where
  "people_init db \<longleftrightarrow> pb_people db = [] \<and> pb_aliases db = [] \<and> pb_interactions db = []"

lemma run_tx_keeps: "P s \<Longrightarrow> (\<And>a s'. f s = Inr (a, s') \<Longrightarrow> P s') \<Longrightarrow> P (snd (run_tx f s))"
  by (cases f s rule: run_tx_cases) simp_all

lemma insert_person_row_ok:
  assumes "insert_person_row p db = Inr (u, db')" and "people_ok env db"
  shows "people_ok env db'"
proof -
  have "\<exists>r. pr_id r = ps_id p \<and> db' = db\<lparr>pb_people := pb_people db @ [r]\<rparr> \<and> (\<forall>q\<in>set (pb_people db). pr_id q \<noteq> ps_id p)"
    using assms(1) by (auto simp: insert_person_row_def sql_count_0_iff split: if_splits intro!: exI[where P = "\<lambda>r. pr_id r = _ \<and> _ r"])
  then obtain r where r: "pr_id r = ps_id p" "db' = db\<lparr>pb_people := pb_people db @ [r]\<rparr>" "\<forall>q\<in>set (pb_people db). pr_id q \<noteq> ps_id p"
    by blast
  show ?thesis using assms(2) r(1,3) unfolding r(2)
    by (auto simp: people_ok_def list_all_iff)
qed

lemma insert_person_row_alias: "insert_person_row p db = Inr (u, db') \<Longrightarrow> pb_aliases db' = pb_aliases db"
  by (auto simp: insert_person_row_def split: if_splits)

lemma references_in: "references_ok env i db \<longleftrightarrow> (pe_foreign_keys env \<longrightarrow> has_person i db)"
  by (auto simp: references_ok_def has_person_def sql_count_def filter_empty_conv list_ex_iff)

lemma append_alias_ok:
  assumes "people_ok env db" and "\<forall>q\<in>set (pb_aliases db). alias_key q \<noteq> as_key h" and "references_ok env i db"
  shows "people_ok env (db\<lparr>pb_aliases := pb_aliases db @
    [\<lparr>al_kind = fst (as_key h), al_value = snd (as_key h), al_person_id = i, al_created_at = now_s\<rparr>]\<rparr>)"
proof -
  have "alias_key \<lparr>al_kind = fst (as_key h), al_value = snd (as_key h), al_person_id = i, al_created_at = now_s\<rparr> = as_key h"
    by (simp add: alias_key_def)
  then show ?thesis using assms by (auto simp: people_ok_def references_in list_all_iff)
qed

lemma insert_alias_ok:
  "insert_alias_or_ignore env now_s i h db = Inr (u, db') \<Longrightarrow> people_ok env db \<Longrightarrow> people_ok env db'"
  using append_alias_ok[of env db h i now_s]
  by (simp add: insert_alias_or_ignore_def sql_count_0_iff split: if_splits)

lemma insert_aliases_ok:
  "insert_aliases env now_s i hs db = Inr (u, db') \<Longrightarrow> people_ok env db \<Longrightarrow> people_ok env db'"
  by (induction hs arbitrary: db) (auto simp: tx_bind_Inr_iff intro: insert_alias_ok)

lemma find_alias_None: "find_alias h db = None \<longleftrightarrow> (\<forall>r\<in>set (pb_aliases db). alias_key r \<noteq> as_key h)"
  by (auto simp: find_alias_def sql_find_def find_None_iff)

lemma find_alias_snoc:
  "find_alias h (db\<lparr>pb_aliases := pb_aliases db @ [r]\<rparr>) =
    (case find_alias h db of Some i \<Rightarrow> Some i | None \<Rightarrow> if alias_key r = as_key h then Some (al_person_id r) else None)"
proof -
  have "sql_find p (t @ [r]) = (case sql_find p t of Some x \<Rightarrow> Some x | None \<Rightarrow> if p r then Some r else None)" for p and t :: "alias_row list"
    by (induction t) (simp_all add: sql_find_def)
  then show ?thesis by (simp add: find_alias_def split: option.split)
qed

lemma insert_alias_find:
  assumes "insert_alias_or_ignore env now_s i h db = Inr (u, db')"
  shows "find_alias k db' = (case find_alias k db of Some j \<Rightarrow> Some j | None \<Rightarrow> if k = h then Some i else None)"
proof (cases "find_alias h db")
  case None
  then have "sql_count (\<lambda>r. alias_key r = as_key h) (pb_aliases db) = 0" by (simp add: sql_count_0_iff find_alias_None)
  then show ?thesis using assms
    by (auto simp: insert_alias_or_ignore_def find_alias_snoc alias_key_def eq_commute[of h k] split: if_splits option.split)
next
  case (Some j)
  then have "sql_count (\<lambda>r. alias_key r = as_key h) (pb_aliases db) \<noteq> 0"
    using find_alias_None[of h db] by (auto simp: sql_count_0_iff)
  then have "db' = db" using assms by (simp add: insert_alias_or_ignore_def)
  then show ?thesis using Some by (auto split: option.split)
qed

lemma insert_aliases_keep:
  "insert_aliases env now_s i hs db = Inr (u, db') \<Longrightarrow> find_alias k db = Some j \<Longrightarrow> find_alias k db' = Some j"
  by (induction hs arbitrary: db) (auto simp: tx_bind_Inr_iff insert_alias_find)

lemma find_alias_people:
  "pb_aliases db' = pb_aliases db \<Longrightarrow> find_alias k db' = find_alias k db"
  by (simp add: find_alias_def)

text \<open>What the two ways of minting a person commit.\<close>

lemma resolve_or_insert_cases:
  obtains (known) i where "find_alias (canonicalize env h) db = Some i"
      "resolve_or_insert_person env now_s p h db = (case parse_id env i of Inl e \<Rightarrow> (Inl e, db) | Inr u \<Rightarrow> (Inr (u, False), db))"
  | (failed) e where "find_alias (canonicalize env h) db = None" "resolve_or_insert_person env now_s p h db = (Inl e, db)"
  | (minted) db1 where "find_alias (canonicalize env h) db = None" "insert_person_row p db = Inr ((), db1)"
      "references_ok env (ps_id p) db1"
      "resolve_or_insert_person env now_s p h db = (Inr (ps_id p, True), db1\<lparr>pb_aliases := pb_aliases db1 @
        [\<lparr>al_kind = fst (as_key (canonicalize env h)), al_value = snd (as_key (canonicalize env h)),
          al_person_id = ps_id p, al_created_at = now_s\<rparr>]\<rparr>)"
proof (cases "find_alias (canonicalize env h) db")
  case None
  show ?thesis
  proof (cases "insert_person_row p db")
    case (Inl e)
    then show ?thesis using None failed by (simp add: resolve_or_insert_person_def)
  next
    case (Inr x)
    obtain db1 where x: "x = ((), db1)" by (cases x) auto
    show ?thesis
      using None Inr failed minted[of db1] by (cases "references_ok env (ps_id p) db1") (simp_all add: x resolve_or_insert_person_def Let_def)
  qed
next
  case (Some i)
  then show ?thesis using known by (simp add: resolve_or_insert_person_def)
qed

lemma resolve_insert_ok:
  assumes "people_ok env db"
  shows "people_ok env (snd (resolve_or_insert_person env now_s p h db))"
proof (cases rule: resolve_or_insert_cases[of env h db now_s p])
  case (minted db1)
  then have "\<forall>q\<in>set (pb_aliases db1). alias_key q \<noteq> as_key (canonicalize env h)"
    by (simp add: find_alias_None insert_person_row_alias[OF minted(2)])
  then show ?thesis
    using append_alias_ok[OF insert_person_row_ok[OF minted(2) assms] _ minted(3)] by (simp add: minted(4))
qed (use assms in \<open>simp_all split: sum.split\<close>)

lemma people_step_ok: "people_step env db db' \<Longrightarrow> people_ok env db \<Longrightarrow> people_ok env db'"
proof (induction rule: people_step.induct)
  case (ps_insert db now_s p hs)
  show ?case unfolding insert_person_def
    by (rule run_tx_keeps, rule ps_insert) (use ps_insert in \<open>auto simp: tx_bind_Inr_iff dest!: insert_person_row_ok intro: insert_aliases_ok\<close>)
next
  case (ps_resolve db now_s p h)
  then show ?case by (rule resolve_insert_ok)
next
  case (ps_alias db now_s i h)
  show ?case unfolding add_alias_def
    by (rule run_tx_keeps, rule ps_alias) (auto intro: insert_alias_ok ps_alias)
next
  case (ps_record db x)
  show ?case unfolding record_interaction_def
    by (rule run_tx_keeps, rule ps_record)
      (use ps_record in \<open>auto simp: people_ok_def references_in split: if_splits\<close>)
qed

interpretation people_store: invariant_system people_init "people_step env" "people_ok env" for env
  by unfold_locales (simp add: people_init_def people_ok_def, erule people_step_ok)

lemma insert_person_row_find: "insert_person_row p db = Inr (u, db') \<Longrightarrow> find_alias k db' = find_alias k db"
  by (simp add: find_alias_def insert_person_row_alias)

lemma people_step_keeps:
  "people_step env db db' \<Longrightarrow> find_alias k db = Some j \<Longrightarrow> find_alias k db' = Some j"
proof (induction rule: people_step.induct)
  case (ps_insert db now_s p hs)
  have "find_alias k s' = Some j" if "tx_bind (insert_person_row p) (\<lambda>_. insert_aliases env now_s (ps_id p) (map (canonicalize env) hs)) db = Inr (a, s')" for a s'
    using that ps_insert insert_person_row_find[of p db] by (auto simp: tx_bind_Inr_iff intro: insert_aliases_keep)
  then show ?case unfolding insert_person_def by (rule run_tx_keeps[where P = "\<lambda>d. find_alias k d = Some j", OF ps_insert])
next
  case (ps_resolve db now_s p h)
  then show ?case
  proof (cases rule: resolve_or_insert_cases[of env h db now_s p])
    case (minted db1)
    then show ?thesis using ps_resolve by (simp add: find_alias_snoc insert_person_row_find[OF minted(2)])
  qed (auto split: sum.split)
next
  case (ps_alias db now_s i h)
  show ?case unfolding add_alias_def
    by (rule run_tx_keeps, rule ps_alias) (simp add: insert_alias_find ps_alias)
next
  case (ps_record db x)
  have "find_alias k (db\<lparr>pb_interactions := xs\<rparr>) = find_alias k db" for xs by (simp add: find_alias_def)
  then show ?case using ps_record by (simp add: record_interaction_def run_tx_def)
qed

lemma people_steps_keep: "(people_step env)\<^sup>*\<^sup>* db db' \<Longrightarrow> find_alias k db = Some j \<Longrightarrow> find_alias k db' = Some j"
  by (induction rule: rtranclp_induct) (auto intro: people_step_keeps)

subsection \<open>A handle keeps its person\<close>

lemma skeleton_id [simp]: "ps_id (person_skeleton i now h) = i"
  by (simp add: person_skeleton_def split: handle.split)

lemma resolve_find:
  "lower_ok env \<Longrightarrow> resolve env h db = Option.bind (find_alias (canonicalize env h) db) (pe_parse_uuid env)"
  by (simp add: resolve_def people_lookup_def canonicalize_idem)

lemma create_known:
  assumes "lower_ok env" and "find_alias (canonicalize env h) db = Some i" and "pe_parse_uuid env i = Some u"
  shows "resolve_or_create_with_status env j now h db = (Inr (u, False), db)"
  using assms
  by (simp add: resolve_or_create_with_status_def resolve_or_insert_person_def canonicalize_idem parse_id_def in_context_def Let_def)

lemma create_Inr:
  assumes "lower_ok env" and "resolve_or_create env i now h db = (Inr u, db')"
  shows "\<exists>j. find_alias (canonicalize env h) db' = Some j \<and> (j = i \<and> u = i \<or> pe_parse_uuid env j = Some u \<and> db' = db)"
proof -
  let ?c = "canonicalize env h"
  have run: "\<exists>b. resolve_or_insert_person env (dt_seconds now) (person_skeleton i now ?c) ?c db = (Inr (u, b), db')"
    using assms(2) by (auto simp: resolve_or_create_def resolve_or_create_with_status_def in_context_def Let_def split: prod.splits sum.splits)
  have c: "canonicalize env ?c = ?c" by (rule canonicalize_idem[OF assms(1)])
  show ?thesis
  proof (cases rule: resolve_or_insert_cases[of env ?c db "dt_seconds now" "person_skeleton i now ?c"])
    case (known j)
    then show ?thesis using run c by (auto simp: parse_id_def split: sum.splits option.splits)
  next
    case (failed e)
    then show ?thesis using run by simp
  next
    case (minted db1)
    then show ?thesis using run c by (auto simp: find_alias_snoc insert_person_row_find[OF minted(2)] alias_key_def split: option.split)
  qed
qed

text \<open>
  C32: once a handle has been resolved or minted, every spelling with the same canonical form resolves to that person and
  mints nobody, after whatever else the store is used for.
\<close>
theorem handle_keeps_person:
  assumes "lower_ok env" and "pe_parse_uuid env i = Some i"
    and "resolve_or_create env i now h db = (Inr u, db1)" and "(people_step env)\<^sup>*\<^sup>* db1 db2"
    and "canonicalize env k = canonicalize env h"
  shows "resolve env k db2 = Some u \<and> resolve_or_create_with_status env j t k db2 = (Inr (u, False), db2)"
proof -
  note X = create_Inr[OF assms(1,3)]
  then obtain v where v: "find_alias (canonicalize env h) db1 = Some v" "pe_parse_uuid env v = Some u"
    using assms(2) by auto
  have "find_alias (canonicalize env k) db2 = Some v"
    using people_steps_keep[OF assms(4) v(1)] assms(5) by simp
  then show ?thesis using v(2) by (simp add: resolve_find[OF assms(1)] create_known[OF assms(1)])
qed

lemma add_alias_known:
  assumes "lower_ok env" and "find_alias (canonicalize env h) db \<noteq> None"
  shows "add_alias env now_s pid (canonicalize env h) db = (Inr (), db)"
proof -
  have "sql_count (\<lambda>r. alias_key r = as_key (canonicalize env h)) (pb_aliases db) \<noteq> 0"
    using assms(2) by (auto simp: find_alias_None sql_count_0_iff)
  then show ?thesis by (simp add: add_alias_def insert_alias_or_ignore_def canonicalize_idem[OF assms(1)])
qed

text \<open>
  Linking a handle that already names somebody else succeeds and changes nothing: the handle keeps its person and the
  caller is told the link was made.
\<close>

lemma link_taken_handle:
  assumes "lower_ok env" and "find_alias (canonicalize env primary) db = Some pid" and "pe_parse_uuid env pid = Some pid"
    and "find_alias (canonicalize env other) db = Some j" and "pe_parse_uuid env j = Some j"
  shows "link env i now primary other db = (Inr pid, db) \<and> resolve env other db = Some j"
  using assms
  by (simp add: link_def resolve_or_create_def create_known[OF assms(1-3)] add_alias_known in_context_def resolve_find)

subsection \<open>Seeding twice\<close>

definition known :: "people_env \<Rightarrow> handle list \<Rightarrow> people_db \<Rightarrow> bool" where
  "known env hs db \<longleftrightarrow> list_all (\<lambda>h. find_alias (canonicalize env h) db \<noteq> None) hs"

definition ids_parse :: "people_env \<Rightarrow> people_db \<Rightarrow> bool" where
  "ids_parse env db \<longleftrightarrow> list_all (\<lambda>r. pe_parse_uuid env (al_person_id r) = Some (al_person_id r)) (pb_aliases db)"

lemma find_alias_parses: "ids_parse env db \<Longrightarrow> find_alias h db = Some i \<Longrightarrow> pe_parse_uuid env i = Some i"
  by (auto simp: find_alias_def ids_parse_def list_all_iff dest!: sql_find_SomeD)

lemma find_alias_person: "people_ok env db \<Longrightarrow> find_alias h db = Some i \<Longrightarrow> references_ok env i db"
  by (auto simp: find_alias_def people_ok_def references_in list_all_iff dest!: sql_find_SomeD)

lemma aliases_known: "lower_ok env \<Longrightarrow> known env hs db \<Longrightarrow> add_aliases env now_s pid hs db = db"
  by (induction hs) (auto simp: known_def add_alias_known)

text \<open>What minting and linking keep while a person exists.\<close>

definition seed_ok :: "people_env \<Rightarrow> people_db \<Rightarrow> bool" where
  "seed_ok env db \<longleftrightarrow> people_ok env db \<and> ids_parse env db"

lemma add_alias_new:
  assumes "lower_ok env" and "seed_ok env db" and "references_ok env pid db" and "pe_parse_uuid env pid = Some pid"
    and "db' = snd (add_alias env now_s pid (canonicalize env h) db)"
  shows "seed_ok env db' \<and> references_ok env pid db' \<and> find_alias (canonicalize env h) db' \<noteq> None \<and>
    (\<forall>k. find_alias k db \<noteq> None \<longrightarrow> find_alias k db' = find_alias k db) \<and> pb_people db' = pb_people db"
proof (cases "find_alias (canonicalize env h) db")
  case None
  let ?r = "\<lparr>al_kind = fst (as_key (canonicalize env h)), al_value = snd (as_key (canonicalize env h)), al_person_id = pid, al_created_at = now_s\<rparr>"
  have "sql_count (\<lambda>r. alias_key r = as_key (canonicalize env h)) (pb_aliases db) = 0"
    using None by (simp add: find_alias_None sql_count_0_iff)
  then have db': "db' = db\<lparr>pb_aliases := pb_aliases db @ [?r]\<rparr>"
    using assms(3) by (simp add: assms(5) add_alias_def insert_alias_or_ignore_def canonicalize_idem[OF assms(1)])
  have "people_ok env db'" unfolding db' using append_alias_ok assms(2,3) None by (simp add: seed_ok_def find_alias_None)
  moreover have "find_alias (canonicalize env h) db' \<noteq> None" unfolding db' find_alias_snoc None by (simp add: alias_key_def)
  ultimately show ?thesis using assms(2-4) unfolding db'
    by (auto simp: seed_ok_def ids_parse_def references_in find_alias_snoc)
next
  case (Some i)
  then have "db' = db" by (simp add: assms(5) add_alias_known[OF assms(1)])
  then show ?thesis using assms(2,3) Some by simp
qed

lemma add_aliases_run:
  assumes "lower_ok env" and "seed_ok env db" and "references_ok env pid db" and "pe_parse_uuid env pid = Some pid"
    and "db' = add_aliases env now_s pid hs db"
  shows "seed_ok env db' \<and> known env hs db' \<and> (\<forall>k. find_alias k db \<noteq> None \<longrightarrow> find_alias k db' = find_alias k db) \<and>
    pb_people db' = pb_people db"
  using assms(2,3) unfolding assms(5)
proof (induction hs arbitrary: db)
  case Nil
  then show ?case by (simp add: known_def)
next
  case (Cons h hs)
  let ?db1 = "snd (add_alias env now_s pid (canonicalize env h) db)"
  note new = add_alias_new[OF assms(1) Cons.prems assms(4) refl, of now_s h]
  note IH = Cons.IH[of ?db1]
  show ?case using IH new by (auto simp: known_def)
qed

lemma create_run:
  assumes "lower_ok env" and "seed_ok env db" and "\<not> has_person i db" and "pe_parse_uuid env i = Some i"
  shows "\<exists>u db'. resolve_or_create env i now h db = (Inr u, db') \<and> seed_ok env db' \<and> references_ok env u db' \<and>
    pe_parse_uuid env u = Some u \<and> known env [h] db' \<and> (\<forall>k. find_alias k db \<noteq> None \<longrightarrow> find_alias k db' = find_alias k db) \<and>
    (\<forall>j. has_person j db' \<longrightarrow> has_person j db \<or> j = i)"
proof (cases "find_alias (canonicalize env h) db")
  case None
  let ?c = "canonicalize env h"
  let ?r = "\<lparr>al_kind = fst (as_key ?c), al_value = snd (as_key ?c), al_person_id = i, al_created_at = dt_seconds now\<rparr>"
  have c: "canonicalize env ?c = ?c" by (rule canonicalize_idem[OF assms(1)])
  have "sql_count (\<lambda>r. pr_id r = i) (pb_people db) = 0" using assms(3) by (auto simp: has_person_def sql_count_0_iff list_ex_iff)
  then have "\<exists>row. pr_id row = i \<and> insert_person_row (person_skeleton i now ?c) db = Inr ((), db\<lparr>pb_people := pb_people db @ [row]\<rparr>)"
    by (simp add: insert_person_row_def) (metis person_row.select_convs(1))
  then obtain row where row: "pr_id row = i" "insert_person_row (person_skeleton i now ?c) db = Inr ((), db\<lparr>pb_people := pb_people db @ [row]\<rparr>)"
    by blast
  let ?db1 = "db\<lparr>pb_people := pb_people db @ [row]\<rparr>"
  have ref: "references_ok env i ?db1" using row(1) by (simp add: references_in)
  have ok: "people_ok env ?db1" using insert_person_row_ok[OF row(2)] assms(2) by (simp add: seed_ok_def)
  let ?db2 = "?db1\<lparr>pb_aliases := pb_aliases ?db1 @ [?r]\<rparr>"
  have run: "resolve_or_create env i now h db = (Inr i, ?db2)"
    using None row ref by (simp add: resolve_or_create_def resolve_or_create_with_status_def resolve_or_insert_person_def c in_context_def Let_def)
  have same: "find_alias k ?db1 = find_alias k db" for k by (rule insert_person_row_find[OF row(2)])
  have find: "find_alias k ?db2 = (case find_alias k db of Some j \<Rightarrow> Some j | None \<Rightarrow> if ?c = k then Some i else None)" for k
    using find_alias_snoc[of k ?db1 ?r] same[of k] by (simp add: alias_key_def cong: option.case_cong)
  have "people_ok env ?db2" using append_alias_ok[OF ok _ ref] None by (simp add: find_alias_None)
  moreover have "ids_parse env ?db2" using assms(2,4) by (simp add: seed_ok_def ids_parse_def)
  moreover have "references_ok env i ?db2" using ref by (simp add: references_in)
  moreover have "\<forall>j. has_person j ?db2 \<longrightarrow> has_person j db \<or> j = i" using row(1) by auto
  moreover have "known env [h] ?db2" "\<forall>k. find_alias k db \<noteq> None \<longrightarrow> find_alias k ?db2 = find_alias k db"
    unfolding known_def find using None by auto
  ultimately show ?thesis unfolding run using assms(4) by (simp only: seed_ok_def) blast
next
  case (Some j)
  have "pe_parse_uuid env j = Some j" "references_ok env j db"
    using Some assms(2) find_alias_parses find_alias_person by (auto simp: seed_ok_def)
  then show ?thesis using Some assms(2) create_known[OF assms(1) Some, of j]
    by (auto simp: resolve_or_create_def known_def)
qed

lemma has_person_cong: "pb_people db' = pb_people db \<Longrightarrow> has_person i db' = has_person i db"
  by (simp add: has_person_def)

definition found_counts :: "address_book_contact list \<Rightarrow> nat \<times> nat" where
  "found_counts cs = (length (filter (\<lambda>c. contact_handles c \<noteq> []) cs), length (filter (\<lambda>c. contact_handles c = []) cs))"

lemma seed_run:
  assumes "lower_ok env" and "inj uuid" and "\<forall>n. pe_parse_uuid env (uuid n) = Some (uuid n)"
    and "seed_ok env db" and "\<forall>n\<ge>i. \<not> has_person (uuid n) db"
    and "seed_contacts env uuid now cs i counts db = (counts', db')"
  shows "counts' = (fst counts + fst (found_counts cs), snd counts + snd (found_counts cs)) \<and> seed_ok env db' \<and>
    list_all (\<lambda>c. known env (contact_handles c) db') cs \<and> (\<forall>k. find_alias k db \<noteq> None \<longrightarrow> find_alias k db' = find_alias k db)"
  using assms(4-6)
proof (induction cs arbitrary: i counts db)
  case Nil
  then show ?case by (cases counts) (simp add: found_counts_def)
next
  case (Cons c cs)
  obtain a b where counts: "counts = (a, b)" by fastforce
  show ?case
  proof (cases "contact_handles c")
    case Nil
    have run: "seed_contacts env uuid now cs i (a, Suc b) db = (counts', db')" using Cons.prems(3) Nil counts by simp
    show ?thesis using Cons.IH[OF Cons.prems(1,2) run] Nil counts by (simp add: found_counts_def known_def)
  next
    case (Cons h hs)
    have new: "\<not> has_person (uuid i) db" using Cons.prems(2) by simp
    note X = create_run[OF assms(1) Cons.prems(1) new assms(3)[rule_format], of now h]
    obtain u db1 where u: "resolve_or_create env (uuid i) now h db = (Inr u, db1)" "seed_ok env db1" "references_ok env u db1"
        "pe_parse_uuid env u = Some u" "known env [h] db1" "\<forall>k. find_alias k db \<noteq> None \<longrightarrow> find_alias k db1 = find_alias k db"
        "\<forall>j. has_person j db1 \<longrightarrow> has_person j db \<or> j = uuid i"
      using X by (elim exE conjE) (rule that)
    let ?db2 = "add_aliases env (dt_seconds now) u hs db1"
    note al = add_aliases_run[OF assms(1) u(2-4) refl, of "dt_seconds now" hs]
    have run: "seed_contacts env uuid now cs (Suc i) (Suc a, b) ?db2 = (counts', db')"
      using Cons.prems(3) Cons u(1) counts by simp
    have fresh: "\<forall>n\<ge>Suc i. \<not> has_person (uuid n) ?db2"
    proof (intro allI impI notI)
      fix n assume n: "Suc i \<le> n" "has_person (uuid n) ?db2"
      then have "has_person (uuid n) db1" using al has_person_cong by blast
      then have "has_person (uuid n) db \<or> uuid n = uuid i" using u(7) by blast
      then show False using n(1) Cons.prems(2) injD[OF assms(2), of n i] by auto
    qed
    note IH = Cons.IH[OF al[THEN conjunct1] fresh run]
    have "known env (h # hs) db'"
      using u(5) al IH by (auto simp: known_def list_all_iff)
    then show ?thesis using IH al u(6) Cons counts by (auto simp: found_counts_def)
  qed
qed

lemma reseed_run:
  assumes "lower_ok env" and "ids_parse env db" and "list_all (\<lambda>c. known env (contact_handles c) db) cs"
  shows "seed_contacts env uuid now cs i counts db = ((fst counts + fst (found_counts cs), snd counts + snd (found_counts cs)), db)"
  using assms(3)
proof (induction cs arbitrary: i counts)
  case Nil
  then show ?case by (cases counts) (simp add: found_counts_def)
next
  case (Cons c cs)
  obtain a b where counts: "counts = (a, b)" by fastforce
  show ?case
  proof (cases "contact_handles c")
    case Nil
    then show ?thesis using Cons by (simp add: counts found_counts_def)
  next
    case (Cons h hs)
    obtain j where j: "find_alias (canonicalize env h) db = Some j" using Cons.prems Cons by (auto simp: known_def)
    note create = create_known[OF assms(1) j find_alias_parses[OF assms(2) j]]
    have "known env hs db" using Cons.prems Cons by (simp add: known_def)
    then show ?thesis using Cons.IH Cons.prems Cons
      by (simp add: counts resolve_or_create_def create aliases_known[OF assms(1)] found_counts_def)
  qed
qed

text \<open>
  C33: with fresh ids, seeding counts every contact that has a handle, leaves every handle of the book known without
  changing one that was, and running it again on the same book, with whatever ids and at whatever time, reports the same
  counts and changes nothing.
\<close>
theorem seeding_is_idempotent:
  assumes "lower_ok env" and "inj uuid" and "\<forall>n. pe_parse_uuid env (uuid n) = Some (uuid n)"
    and "people_ok env db" and "ids_parse env db" and "\<forall>n. \<not> has_person (uuid n) db"
    and "seed_from_address_book env uuid now (Inr contacts) db = (res, db')"
  shows "res = Inr (found_counts contacts) \<and> list_all (\<lambda>c. known env (contact_handles c) db') contacts \<and>
    (\<forall>k. find_alias k db \<noteq> None \<longrightarrow> find_alias k db' = find_alias k db) \<and>
    seed_from_address_book env uuid2 now2 (Inr contacts) db' = (res, db')"
proof -
  obtain counts where run: "seed_contacts env uuid now contacts 0 (0, 0) db = (counts, db')" "res = Inr counts"
    using assms(7) by (auto simp: seed_from_address_book_def split: prod.splits)
  have fresh: "\<forall>n\<ge>0. \<not> has_person (uuid n) db" using assms(6) by simp
  have "seed_ok env db" using assms(4,5) by (simp add: seed_ok_def)
  note first = seed_run[OF assms(1-3) this fresh run(1)]
  have parse: "ids_parse env db'" "list_all (\<lambda>c. known env (contact_handles c) db') contacts"
    using first by (simp_all add: seed_ok_def)
  show ?thesis using first reseed_run[OF assms(1) parse, of uuid2 now2 0 "(0, 0)"] run(2)
    by (simp add: seed_from_address_book_def)
qed

subsection \<open>One store per workspace\<close>

text \<open>The stores in use, each with the workspace it was opened for.\<close>

definition store_uses :: "callers \<Rightarrow> (workspace \<times> store_id) set" where
  "store_uses s = {(ws, st). (\<exists>c e. cl_pc s c = Some (e, ws, Opened st) \<or> cl_pc s c = Some (e, ws, Returned st)) \<or>
     rg_cache (cl_registry s) ws = Some st \<or> rg_global (cl_registry s) = Some (ws, st)}"

definition callers_inv :: "callers \<Rightarrow> bool" where
  "callers_inv s \<longleftrightarrow> (\<forall>c ws st. cl_pc s c = Some (Via_Cache, ws, Returned st) \<longrightarrow> rg_cache (cl_registry s) ws = Some st) \<and>
     (\<forall>(ws, st)\<in>store_uses s. st < rg_next (cl_registry s)) \<and>
     (\<forall>(ws, st)\<in>store_uses s. \<forall>(ws', st')\<in>store_uses s. st = st' \<longrightarrow> ws = ws')"

lemmas path_defs = fast_path_def cache_fast_path_def init_fast_path_def publish_store_def cache_publish_def
  init_publish_def open_store_def

lemma store_uses_step:
  "call_step s t \<Longrightarrow> rg_next (cl_registry s) \<le> rg_next (cl_registry t) \<and> (store_uses t \<subseteq> store_uses s \<or>
    (\<exists>ws. store_uses t \<subseteq> insert (ws, rg_next (cl_registry s)) (store_uses s) \<and>
      rg_next (cl_registry s) < rg_next (cl_registry t)))"
proof (induction rule: call_step.induct)
  case (call_open s c e ws st g)
  then have "st = rg_next (cl_registry s)" "g = (cl_registry s)\<lparr>rg_next := Suc (rg_next (cl_registry s))\<rparr>"
    by (auto simp: open_store_def)
  then show ?case by (auto simp: store_uses_def intro!: exI [of _ ws] split: if_splits)
next
  case (call_publish s c e ws st st' g)
  have own: "(ws, st) \<in> store_uses s" using call_publish(1) by (auto simp: store_uses_def)
  have "(ws, st') \<in> store_uses s" "rg_next g = rg_next (cl_registry s)"
    "\<forall>w x. rg_cache g w = Some x \<or> rg_global g = Some (w, x) \<longrightarrow> (w, x) \<in> store_uses s"
    using call_publish(2) own
    by (auto simp: path_defs store_uses_def split: entry.splits option.splits if_splits prod.splits) blast+
  then show ?case by (auto simp: store_uses_def split: if_splits)
next
  case (call_found s c e ws st)
  then have "(ws, st) \<in> store_uses s"
    by (auto simp: path_defs store_uses_def split: entry.splits option.splits if_splits)
  then show ?case by (auto simp: store_uses_def split: if_splits)
qed (auto simp: store_uses_def split: if_splits)

lemma cache_kept: "call_step s t \<Longrightarrow> rg_cache (cl_registry s) ws = Some st \<Longrightarrow> rg_cache (cl_registry t) ws = Some st"
  by (erule call_stepE) (auto simp: path_defs split: entry.splits option.splits if_splits)

lemma returned_from:
  assumes "call_step s t" and "cl_pc t c = Some (e, ws, Returned st)"
  shows "cl_pc s c = cl_pc t c \<or> (e = Via_Cache \<and> rg_cache (cl_registry t) ws = Some st) \<or>
    (e = Via_Init \<and> rg_global (cl_registry t) = Some (ws, st))"
  using assms
  by (cases rule: call_stepE)
    (auto simp: path_defs split: entry.splits option.splits if_splits prod.splits)

lemma callers_inv_step:
  assumes "callers_inv s" and "call_step s t" shows "callers_inv t"
proof -
  have "rg_cache (cl_registry t) ws = Some st" if "cl_pc t c = Some (Via_Cache, ws, Returned st)" for c ws st
    using returned_from [OF assms(2) that] cache_kept [OF assms(2)] assms(1) that by (auto simp: callers_inv_def)
  moreover have "st < rg_next (cl_registry t)" if "(ws, st) \<in> store_uses t" for ws st
    using that store_uses_step [OF assms(2)] assms(1) by (fastforce simp: callers_inv_def)
  moreover have "ws = ws'" if "(ws, st) \<in> store_uses t" "(ws', st) \<in> store_uses t" for ws ws' st
  proof -
    have fresh: "(w, rg_next (cl_registry s)) \<notin> store_uses s" for w using assms(1) by (auto simp: callers_inv_def)
    have "ws = ws'" if "(ws, st) \<in> store_uses s" "(ws', st) \<in> store_uses s"
      using that assms(1) by (fastforce simp: callers_inv_def)
    then show ?thesis using that store_uses_step [OF assms(2)] fresh by blast
  qed
  ultimately show ?thesis unfolding callers_inv_def by blast
qed

interpretation store_cache: invariant_system callers_init call_step callers_inv
  by unfold_locales (simp add: callers_init_def callers_inv_def store_uses_def, blast intro: callers_inv_step)

lemma cache_permanent: "call_step\<^sup>*\<^sup>* s t \<Longrightarrow> rg_cache (cl_registry s) ws = Some st \<Longrightarrow> rg_cache (cl_registry t) ws = Some st"
  by (induction rule: rtranclp_induct) (auto intro: cache_kept)

text \<open>While the active workspace stays, so does its store, and every init call that returns gets it.\<close>

lemma bound_global:
  assumes "bound_step ws s t" shows "rg_global (cl_registry t) = rg_global (cl_registry s)"
proof -
  obtain st where "rg_global (cl_registry s) = Some (ws, st)" "rg_global (cl_registry t) \<noteq> None"
    "fst (the (rg_global (cl_registry t))) = ws" "call_step s t"
    using assms by (auto simp: bound_step_def active_workspace_def)
  then show ?thesis
    by (elim call_stepE) (auto simp: path_defs split: entry.splits option.splits if_splits prod.splits)
qed

lemma bound_returned:
  assumes "(bound_step ws)\<^sup>*\<^sup>* s t"
  shows "rg_global (cl_registry t) = rg_global (cl_registry s) \<and>
    (\<forall>d st. cl_pc t d = Some (Via_Init, ws, Returned st) \<and> cl_pc s d \<noteq> cl_pc t d \<longrightarrow>
       rg_global (cl_registry t) = Some (ws, st))"
  using assms
proof (induction rule: rtranclp_induct)
  case (step t u)
  have "rg_global (cl_registry u) = rg_global (cl_registry t)" by (rule bound_global [OF step(2)])
  moreover have "call_step t u" using step(2) by (simp add: bound_step_def)
  ultimately show ?case using step.IH returned_from [of t u] by fastforce
qed simp

text \<open>
  C34: however callers interleave, three things hold. All that come back from \<^verbatim>\<open>for_workspace\<close> with a store
  for one workspace hold the same store, and so does every later one. While a workspace stays the active
  one, every \<^verbatim>\<open>init_from_workspace\<close> of it that returns gets the store \<^verbatim>\<open>get\<close> gives. And no store is handed out
  for two workspaces. (The two functions keep separate tables, so they may open a store each.)
\<close>
theorem callers_share_one_store:
  assumes "reach callers_init call_step s" and "call_step\<^sup>*\<^sup>* s t"
  shows "(\<forall>c d ws st st2. cl_pc s c = Some (Via_Cache, ws, Returned st) \<and>
        cl_pc t d = Some (Via_Cache, ws, Returned st2) \<longrightarrow> st2 = st) \<and>
    (\<forall>d ws st. (bound_step ws)\<^sup>*\<^sup>* s t \<and> cl_pc t d = Some (Via_Init, ws, Returned st) \<and> cl_pc s d \<noteq> cl_pc t d \<longrightarrow>
        get_store (cl_registry s) = Inr st \<and> get_store (cl_registry t) = Inr st) \<and>
    (\<forall>c d e e2 ws ws2 st. cl_pc t c = Some (e, ws, Returned st) \<and> cl_pc t d = Some (e2, ws2, Returned st) \<longrightarrow> ws = ws2)"
proof (intro conjI allI impI)
  have inv: "callers_inv s" by (rule store_cache.reach_inv [OF assms(1)])
  have inv_t: "callers_inv t" by (rule store_cache.steps_inv [OF assms(2) inv])
  fix c d ws st st2
  assume r: "cl_pc s c = Some (Via_Cache, ws, Returned st) \<and> cl_pc t d = Some (Via_Cache, ws, Returned st2)"
  then have "rg_cache (cl_registry s) ws = Some st" using inv unfolding callers_inv_def by blast
  then have "rg_cache (cl_registry t) ws = Some st" by (rule cache_permanent [OF assms(2)])
  moreover have "rg_cache (cl_registry t) ws = Some st2" using inv_t r unfolding callers_inv_def by blast
  ultimately show "st2 = st" by simp
next
  fix d ws st
  assume r: "(bound_step ws)\<^sup>*\<^sup>* s t \<and> cl_pc t d = Some (Via_Init, ws, Returned st) \<and> cl_pc s d \<noteq> cl_pc t d"
  then have "rg_global (cl_registry t) = Some (ws, st)" "rg_global (cl_registry s) = Some (ws, st)"
    using bound_returned [of ws s t] by metis+
  then show "get_store (cl_registry s) = Inr st" "get_store (cl_registry t) = Inr st" by (simp_all add: get_store_def)
next
  fix c d e e2 ws ws2 st
  assume "cl_pc t c = Some (e, ws, Returned st) \<and> cl_pc t d = Some (e2, ws2, Returned st)"
  then have "(ws, st) \<in> store_uses t" "(ws2, st) \<in> store_uses t" by (auto simp: store_uses_def)
  moreover have "callers_inv t" by (rule store_cache.steps_inv [OF assms(2) store_cache.reach_inv [OF assms(1)]])
  ultimately show "ws = ws2" unfolding callers_inv_def by fast
qed

subsection \<open>One query for many people\<close>

lemma insort_fst:
  fixes f :: "'a \<Rightarrow> 'k::linorder" and g :: "'a \<Rightarrow> 'l::linorder"
  shows "\<forall>x\<in>set (a # xs). f x = k \<Longrightarrow> insort_key (\<lambda>x. (f x, g x)) a xs = insort_key g a xs"
  by (induction xs) auto

lemma sort_fst:
  fixes f :: "'a \<Rightarrow> 'k::linorder" and g :: "'a \<Rightarrow> 'l::linorder"
  shows "\<forall>x\<in>set xs. f x = k \<Longrightarrow> sort_key (\<lambda>x. (f x, g x)) xs = sort_key g xs"
  by (induction xs) (simp_all add: insort_fst[where k = k])

lemma filter_sort_fst:
  fixes f :: "'a \<Rightarrow> 'k::linorder" and g :: "'a \<Rightarrow> 'l::linorder"
  shows "filter (\<lambda>x. f x = k) (sort_key (\<lambda>x. (f x, g x)) xs) = sort_key g (filter (\<lambda>x. f x = k) xs)"
  by (simp add: filter_sort sort_fst[where k = k])

lemma group_run:
  assumes "\<forall>r\<in>set rs. pe_parse_uuid env (ir_person_id r) = Some (ir_person_id r)"
  shows "\<exists>m'. group_interactions env rs m = Inr m' \<and> (\<forall>i. m' i =
    (if filter (\<lambda>r. ir_person_id r = i) rs = [] then m i
     else Some ((case m i of Some xs \<Rightarrow> xs | None \<Rightarrow> []) @ map (interaction_of_row env i) (filter (\<lambda>r. ir_person_id r = i) rs))))"
  using assms
proof (induction rs arbitrary: m)
  case (Cons r rs)
  let ?i = "ir_person_id r"
  let ?m = "m(?i \<mapsto> (case m ?i of Some xs \<Rightarrow> xs | None \<Rightarrow> []) @ [interaction_of_row env ?i r])"
  have "\<forall>r\<in>set rs. pe_parse_uuid env (ir_person_id r) = Some (ir_person_id r)" using Cons.prems by simp
  note X = Cons.IH[OF this, of ?m]
  obtain m' where m': "group_interactions env rs ?m = Inr m'" "\<forall>i. m' i = (if filter (\<lambda>r. ir_person_id r = i) rs = [] then ?m i
     else Some ((case ?m i of Some xs \<Rightarrow> xs | None \<Rightarrow> []) @ map (interaction_of_row env i) (filter (\<lambda>r. ir_person_id r = i) rs)))"
    using X by (elim exE conjE) (rule that)
  have "group_interactions env (r # rs) m = Inr m'" using m'(1) Cons.prems by (simp add: parse_id_def)
  moreover have "m' i = (if filter (\<lambda>r. ir_person_id r = i) (r # rs) = [] then m i
     else Some ((case m i of Some xs \<Rightarrow> xs | None \<Rightarrow> []) @ map (interaction_of_row env i) (filter (\<lambda>r. ir_person_id r = i) (r # rs))))" for i
    using m'(2) by (cases "?i = i"; cases "m ?i") auto
  ultimately show ?case by blast
qed simp

text \<open>
  The batched query answers for each person asked for exactly what the query for that person alone answers, newest
  first, and has no entry for a person without interactions or one not asked for.
\<close>
theorem batch_is_one_by_one:
  assumes "list_all (\<lambda>r. pe_parse_uuid env (ir_person_id r) = Some (ir_person_id r)) (pb_interactions db)"
  shows "\<exists>m. batch_interactions_for env ids db = Inr m \<and>
    (\<forall>i. m i = (if i \<in> set ids \<and> interactions_for env i db \<noteq> [] then Some (interactions_for env i db) else None))"
proof (cases "ids = []")
  case True
  then show ?thesis by (simp add: batch_interactions_for_def)
next
  case False
  let ?rs = "sort_key (\<lambda>r. (ir_person_id r, - ir_ts r)) (filter (\<lambda>r. ir_person_id r \<in> set ids) (pb_interactions db))"
  have "\<forall>r\<in>set ?rs. pe_parse_uuid env (ir_person_id r) = Some (ir_person_id r)" using assms by (simp add: list_all_iff)
  note X = group_run[OF this, of Map.empty]
  obtain m where m: "group_interactions env ?rs Map.empty = Inr m" "\<forall>i. m i =
    (if filter (\<lambda>r. ir_person_id r = i) ?rs = [] then None else Some (map (interaction_of_row env i) (filter (\<lambda>r. ir_person_id r = i) ?rs)))"
    using X by auto
  have mine: "filter (\<lambda>r. ir_person_id r = i) ?rs =
      (if i \<in> set ids then sort_key (\<lambda>r. - ir_ts r) (filter (\<lambda>r. ir_person_id r = i) (pb_interactions db)) else [])" for i
    unfolding filter_sort_fst by (auto simp: filter_filter conj_commute intro!: arg_cong[where f = "sort_key _"] filter_cong)
  show ?thesis using m False unfolding mine by (auto simp: batch_interactions_for_def interactions_for_def)
qed

subsection \<open>What a score says\<close>

lemma clamp01_bounds [simp]: "0 \<le> clamp01 x" "clamp01 x \<le> 1"
  by (simp_all add: clamp01_def)

lemma clamp01_id: "0 \<le> x \<Longrightarrow> x \<le> 1 \<Longrightarrow> clamp01 x = x"
  by (simp add: clamp01_def)

lemma clamp01_pos: "0 < clamp01 x \<longleftrightarrow> 0 < x"
  by (auto simp: clamp01_def)

lemma recency_pos: "0 < recency_of xs now"
  by (simp add: recency_of_def clamp01_pos Let_def)

lemma frequency_pos: "0 < frequency_of xs now \<longleftrightarrow> (\<exists>x\<in>set xs. now - int FREQUENCY_WINDOW_DAYS * 86400 * 10 ^ 9 \<le> ia_ts x)"
proof -
  have "0 < length (filter p xs) \<longleftrightarrow> (\<exists>x\<in>set xs. p x)" for p by (auto simp: filter_empty_conv)
  then show ?thesis by (simp add: frequency_of_def clamp01_pos Let_def FREQUENCY_CAP_def)
qed

lemma reciprocity_pos: "0 < reciprocity_of xs \<longleftrightarrow> (\<exists>x\<in>set xs. ia_is_outbound x) \<and> (\<exists>x\<in>set xs. \<not> ia_is_outbound x)"
proof -
  have "0 < length (filter p xs) \<longleftrightarrow> (\<exists>x\<in>set xs. p x)" for p by (auto simp: filter_empty_conv)
  note count = this[symmetric]
  show ?thesis unfolding count
    by (auto simp: reciprocity_of_def clamp01_pos Let_def zero_less_divide_iff min_def max_def)
qed

lemma depth_pos: "0 < depth_of xs \<longleftrightarrow> (\<exists>x\<in>set xs. 0 < ia_length x)"
proof -
  have "0 < sum_list (map ia_length xs) \<longleftrightarrow> (\<exists>x\<in>set xs. 0 < ia_length x)" by (induction xs) auto
  then show ?thesis by (auto simp: depth_of_def clamp01_pos Let_def DEPTH_CAP_CHARS_def zero_less_divide_iff max_def)
qed

lemma components_unit:
  "0 \<le> recency_of xs now \<and> recency_of xs now \<le> 1 \<and> 0 \<le> frequency_of xs now \<and> frequency_of xs now \<le> 1 \<and>
   0 \<le> reciprocity_of xs \<and> reciprocity_of xs \<le> 1 \<and> 0 \<le> depth_of xs \<and> depth_of xs \<le> 1"
  by (simp add: recency_of_def frequency_of_def reciprocity_of_def depth_of_def Let_def)

text \<open>
  C35: a person's score lies between 0 and 1 and is never above any of its four components; it is positive exactly if
  some interaction falls into the window (or later), each side has written, and something has a length.
\<close>
theorem score_breakdown:
  "let s = score_person xs now in
    0 \<le> so_score s \<and> so_score s \<le> 1 \<and> so_score s \<le> so_recency s \<and> so_score s \<le> so_frequency s \<and>
    so_score s \<le> so_reciprocity s \<and> so_score s \<le> so_depth s \<and>
    (0 < so_score s \<longleftrightarrow> (\<exists>x\<in>set xs. now - int FREQUENCY_WINDOW_DAYS * 86400 * 10 ^ 9 \<le> ia_ts x) \<and>
      (\<exists>x\<in>set xs. ia_is_outbound x) \<and> (\<exists>x\<in>set xs. \<not> ia_is_outbound x) \<and> (\<exists>x\<in>set xs. 0 < ia_length x))"
proof (cases "xs = []")
  case True
  then show ?thesis by (simp add: score_person_def)
next
  case False
  let ?r = "recency_of xs now" and ?f = "frequency_of xs now" and ?c = "reciprocity_of xs" and ?d = "depth_of xs"
  have u: "0 \<le> ?r" "?r \<le> 1" "0 \<le> ?f" "?f \<le> 1" "0 \<le> ?c" "?c \<le> 1" "0 \<le> ?d" "?d \<le> 1" using components_unit by blast+
  have le: "x * y \<le> x \<and> x * y \<le> y \<and> 0 \<le> x * y \<and> x * y \<le> 1" if "0 \<le> x" "x \<le> 1" "0 \<le> y" "y \<le> 1" for x y :: real
    using that mult_left_le[of y x] mult_left_le[of x y] mult_le_one[of x y] by (simp add: mult.commute)
  note rf = le[OF u(1-4)]
  note rfc = le[of "?r * ?f" ?c] 
  note rfcd = le[of "?r * ?f * ?c" ?d]
  have b: "?r * ?f * ?c * ?d \<le> ?r" "?r * ?f * ?c * ?d \<le> ?f" "?r * ?f * ?c * ?d \<le> ?c" "?r * ?f * ?c * ?d \<le> ?d"
      "0 \<le> ?r * ?f * ?c * ?d" "?r * ?f * ?c * ?d \<le> 1"
    using rf rfc rfcd u by linarith+
  have pos: "0 < ?r * ?f * ?c * ?d \<longleftrightarrow> 0 < ?f \<and> 0 < ?c \<and> 0 < ?d"
    using u recency_pos[of xs now] by (auto simp: zero_less_mult_iff)
  show ?thesis using False b pos
    by (simp add: score_person_def Let_def clamp01_id frequency_pos reciprocity_pos depth_pos)
qed

text \<open>The score depends on the interactions as a multiset only, and halves its recency in 14 days.\<close>

lemma score_order: "mset xs = mset ys \<Longrightarrow> score_person xs now = score_person ys now"
proof -
  assume m: "mset xs = mset ys"
  have "set xs = set ys" by (rule mset_eq_setD[OF m])
  moreover have "length (filter p xs) = length (filter p ys)" for p by (metis m mset_filter size_mset)
  moreover have "length xs = length ys" by (rule mset_eq_length[OF m])
  moreover have "sum_list (map ia_length xs) = sum_list (map ia_length ys)" by (metis m mset_map sum_mset_sum_list)
  moreover have "xs = [] \<longleftrightarrow> ys = []" using m by auto
  ultimately show ?thesis by (simp add: score_person_def recency_of_def frequency_of_def reciprocity_of_def depth_of_def)
qed

lemma half_life: "xs \<noteq> [] \<Longrightarrow> Max (ia_ts ` set xs) = now - 14 * 86400 * 10 ^ 9 \<Longrightarrow> recency_of xs now = 1 / 2"
  by (simp add: recency_of_def num_seconds_def RECENCY_HALF_LIFE_DAYS_def exp_minus clamp01_def)

subsection \<open>Witnesses\<close>

lemma trim_idem: "trim (trim s) = trim s"
proof (cases "trim s = []")
  case True
  show ?thesis unfolding True by (simp add: trim_def)
next
  case False
  let ?d = "dropWhile is_white s"
  have ne: "dropWhile is_white (rev ?d) \<noteq> []" using False by (simp add: trim_def)
  have "last (trim s) = hd (dropWhile is_white (rev ?d))" using ne by (simp add: trim_def last_rev)
  then have last: "\<not> is_white (last (trim s))" using hd_dropWhile[OF ne] by simp
  have "?d = trim s @ rev (takeWhile is_white (rev ?d))"
    unfolding trim_def by (metis rev_append rev_rev_ident takeWhile_dropWhile_id)
  then have "hd ?d = hd (trim s)" "?d \<noteq> []" using False by (metis hd_append2, metis append_is_Nil_conv)
  then have "\<not> is_white (hd (trim s))" using hd_dropWhile[of is_white s] by simp
  then show ?thesis using False last by (simp add: trim_id)
qed

definition sample_people_env :: people_env where
  "sample_people_env = \<lparr>pe_lower = (\<lambda>s. s), pe_parse_uuid = Some, pe_ts_ok = (\<lambda>t. True), pe_foreign_keys = True\<rparr>"

definition empty_people :: people_db where
  "empty_people = \<lparr>pb_people = [], pb_aliases = [], pb_interactions = []\<rparr>"

lemma sample_lower_ok: "lower_ok sample_people_env"
  by (simp add: lower_ok_def sample_people_env_def trim_idem)

lemma empty_seed_ok: "seed_ok sample_people_env empty_people" "\<not> has_person i empty_people"
  by (simp_all add: seed_ok_def people_ok_def empty_people_def ids_parse_def has_person_def)

lemma sample_parse: "pe_parse_uuid sample_people_env i = Some i"
  by (simp add: sample_people_env_def)

theorem handle_keeps_person_witness:
  "\<exists>u db. resolve_or_create sample_people_env ''u'' 5 (Email_Handle [97, 64, 98, 10]) empty_people = (Inr u, db) \<and>
    resolve sample_people_env (Email_Handle [32, 97, 64, 98]) db = Some u"
proof -
  note X = create_run[OF sample_lower_ok empty_seed_ok sample_parse, of "''u''" 5 "Email_Handle [97, 64, 98, 10]"]
  obtain u db where run: "resolve_or_create sample_people_env ''u'' 5 (Email_Handle [97, 64, 98, 10]) empty_people = (Inr u, db)"
    using X by (elim exE conjE) (rule that)
  have "canonicalize sample_people_env (Email_Handle [32, 97, 64, 98]) = canonicalize sample_people_env (Email_Handle [97, 64, 98, 10])"
    by (simp add: sample_people_env_def trim_def is_white_def)
  note keep = handle_keeps_person[OF sample_lower_ok sample_parse run rtranclp.rtrancl_refl this, THEN conjunct1]
  show ?thesis by (intro exI conjI) (rule run, rule keep)
qed

definition sample_contacts :: "address_book_contact list" where
  "sample_contacts = [\<lparr>ab_display_name = Some [65], ab_emails = [[97, 64, 98], [32]], ab_phones = [[43, 49]]\<rparr>,
     \<lparr>ab_display_name = Some [32], ab_emails = [], ab_phones = []\<rparr>, \<lparr>ab_display_name = Some [65], ab_emails = [], ab_phones = [[43, 49]]\<rparr>]"

theorem seeding_is_idempotent_witness:
  "\<exists>db. seed_from_address_book sample_people_env numbered 5 (Inr sample_contacts) empty_people = (Inr (found_counts sample_contacts), db) \<and>
    seed_from_address_book sample_people_env numbered 9 (Inr sample_contacts) db = (Inr (found_counts sample_contacts), db) \<and>
    found_counts sample_contacts = (2, 1)"
proof -
  obtain res db where run: "seed_from_address_book sample_people_env numbered 5 (Inr sample_contacts) empty_people = (res, db)"
    by fastforce
  have counts: "found_counts sample_contacts = (2, 1)"
    by (simp add: found_counts_def sample_contacts_def contact_handles_def nonblank_def trim_def is_white_def)
  have ok: "people_ok sample_people_env empty_people" "ids_parse sample_people_env empty_people"
    using empty_seed_ok(1) by (simp_all add: seed_ok_def)
  note X = seeding_is_idempotent[OF sample_lower_ok inj_numbered allI[OF sample_parse] ok allI[OF empty_seed_ok(2)] run, of numbered 9]
  have res: "res = Inr (found_counts sample_contacts)" by (rule X[THEN conjunct1])
  note again = X[THEN conjunct2, THEN conjunct2, THEN conjunct2, unfolded res]
  show ?thesis by (intro exI conjI) (rule run[unfolded res], rule again, rule counts)
qed

definition no_callers :: callers where
  "no_callers = \<lparr>cl_registry = \<lparr>rg_global = None, rg_cache = Map.empty, rg_next = 0\<rparr>, cl_pc = Map.empty\<rparr>"

theorem callers_share_one_store_witness:
  "\<exists>s t. reach callers_init call_step s \<and> call_step\<^sup>*\<^sup>* s t \<and> cl_pc s 0 = Some (Via_Init, ''w'', Returned 0) \<and>
    cl_pc s 1 = Some (Via_Cache, ''w'', Returned 1) \<and> cl_pc s 2 = Some (Via_Cache, ''w'', Opened 2) \<and>
    cl_pc s 3 = Some (Via_Init, ''w'', Opened 3) \<and> cl_pc t 2 = Some (Via_Cache, ''w'', Returned 1) \<and>
    cl_pc t 3 = Some (Via_Init, ''w'', Returned 0)"
proof -
  define s0 where "s0 = no_callers"
  have f0: "cl_registry s0 = \<lparr>rg_global = None, rg_cache = Map.empty, rg_next = 0\<rparr>" "cl_pc s0 = Map.empty"
    by (simp_all add: s0_def no_callers_def)
  define s1 where "s1 = s0\<lparr>cl_pc := (cl_pc s0)(0 \<mapsto> (Via_Init, ''w'', Calling))\<rparr>"
  have f1: "cl_registry s1 = \<lparr>rg_global = None, rg_cache = Map.empty, rg_next = 0\<rparr>"
    "cl_pc s1 = (cl_pc s0)(0 \<mapsto> (Via_Init, ''w'', Calling))" by (simp_all add: s1_def f0)
  have t1: "call_step s0 s1" unfolding s1_def by (rule call_begin) (simp_all add: f0 path_defs)
  define s2 where "s2 = s1\<lparr>cl_pc := (cl_pc s1)(1 \<mapsto> (Via_Cache, ''w'', Calling))\<rparr>"
  have f2: "cl_registry s2 = \<lparr>rg_global = None, rg_cache = Map.empty, rg_next = 0\<rparr>"
    "cl_pc s2 = (cl_pc s1)(1 \<mapsto> (Via_Cache, ''w'', Calling))" by (simp_all add: s2_def f1)
  have t2: "call_step s1 s2" unfolding s2_def by (rule call_begin) (simp_all add: f0 f1 path_defs)
  define s3 where "s3 = s2\<lparr>cl_pc := (cl_pc s2)(2 \<mapsto> (Via_Cache, ''w'', Calling))\<rparr>"
  have f3: "cl_registry s3 = \<lparr>rg_global = None, rg_cache = Map.empty, rg_next = 0\<rparr>"
    "cl_pc s3 = (cl_pc s2)(2 \<mapsto> (Via_Cache, ''w'', Calling))" by (simp_all add: s3_def f2)
  have t3: "call_step s2 s3" unfolding s3_def by (rule call_begin) (simp_all add: f0 f1 f2 path_defs)
  define s4 where "s4 = s3\<lparr>cl_pc := (cl_pc s3)(3 \<mapsto> (Via_Init, ''w'', Calling))\<rparr>"
  have f4: "cl_registry s4 = \<lparr>rg_global = None, rg_cache = Map.empty, rg_next = 0\<rparr>"
    "cl_pc s4 = (cl_pc s3)(3 \<mapsto> (Via_Init, ''w'', Calling))" by (simp_all add: s4_def f3)
  have t4: "call_step s3 s4" unfolding s4_def by (rule call_begin) (simp_all add: f0 f1 f2 f3 path_defs)
  define s5 where "s5 = s4\<lparr>cl_registry := \<lparr>rg_global = None, rg_cache = Map.empty, rg_next = 1\<rparr>, cl_pc := (cl_pc s4)(0 \<mapsto> (Via_Init, ''w'', Opened 0))\<rparr>"
  have f5: "cl_registry s5 = \<lparr>rg_global = None, rg_cache = Map.empty, rg_next = 1\<rparr>"
    "cl_pc s5 = (cl_pc s4)(0 \<mapsto> (Via_Init, ''w'', Opened 0))" by (simp_all add: s5_def)
  have t5: "call_step s4 s5" unfolding s5_def by (rule call_open) (simp_all add: f0 f1 f2 f3 f4 path_defs)
  define s6 where "s6 = s5\<lparr>cl_registry := \<lparr>rg_global = None, rg_cache = Map.empty, rg_next = 2\<rparr>, cl_pc := (cl_pc s5)(1 \<mapsto> (Via_Cache, ''w'', Opened 1))\<rparr>"
  have f6: "cl_registry s6 = \<lparr>rg_global = None, rg_cache = Map.empty, rg_next = 2\<rparr>"
    "cl_pc s6 = (cl_pc s5)(1 \<mapsto> (Via_Cache, ''w'', Opened 1))" by (simp_all add: s6_def)
  have t6: "call_step s5 s6" unfolding s6_def by (rule call_open) (simp_all add: f0 f1 f2 f3 f4 f5 path_defs)
  define s7 where "s7 = s6\<lparr>cl_registry := \<lparr>rg_global = None, rg_cache = Map.empty, rg_next = 3\<rparr>, cl_pc := (cl_pc s6)(2 \<mapsto> (Via_Cache, ''w'', Opened 2))\<rparr>"
  have f7: "cl_registry s7 = \<lparr>rg_global = None, rg_cache = Map.empty, rg_next = 3\<rparr>"
    "cl_pc s7 = (cl_pc s6)(2 \<mapsto> (Via_Cache, ''w'', Opened 2))" by (simp_all add: s7_def)
  have t7: "call_step s6 s7" unfolding s7_def by (rule call_open) (simp_all add: f0 f1 f2 f3 f4 f5 f6 path_defs)
  define s8 where "s8 = s7\<lparr>cl_registry := \<lparr>rg_global = None, rg_cache = Map.empty, rg_next = 4\<rparr>, cl_pc := (cl_pc s7)(3 \<mapsto> (Via_Init, ''w'', Opened 3))\<rparr>"
  have f8: "cl_registry s8 = \<lparr>rg_global = None, rg_cache = Map.empty, rg_next = 4\<rparr>"
    "cl_pc s8 = (cl_pc s7)(3 \<mapsto> (Via_Init, ''w'', Opened 3))" by (simp_all add: s8_def)
  have t8: "call_step s7 s8" unfolding s8_def by (rule call_open) (simp_all add: f0 f1 f2 f3 f4 f5 f6 f7 path_defs)
  define s9 where "s9 = s8\<lparr>cl_registry := \<lparr>rg_global = Some (''w'', 0), rg_cache = Map.empty, rg_next = 4\<rparr>, cl_pc := (cl_pc s8)(0 \<mapsto> (Via_Init, ''w'', Returned 0))\<rparr>"
  have f9: "cl_registry s9 = \<lparr>rg_global = Some (''w'', 0), rg_cache = Map.empty, rg_next = 4\<rparr>"
    "cl_pc s9 = (cl_pc s8)(0 \<mapsto> (Via_Init, ''w'', Returned 0))" by (simp_all add: s9_def)
  have t9: "call_step s8 s9" unfolding s9_def by (rule call_publish [where st = 0]) (simp_all add: f0 f1 f2 f3 f4 f5 f6 f7 f8 path_defs)
  define s10 where "s10 = s9\<lparr>cl_registry := \<lparr>rg_global = Some (''w'', 0), rg_cache = [''w'' \<mapsto> 1], rg_next = 4\<rparr>, cl_pc := (cl_pc s9)(1 \<mapsto> (Via_Cache, ''w'', Returned 1))\<rparr>"
  have f10: "cl_registry s10 = \<lparr>rg_global = Some (''w'', 0), rg_cache = [''w'' \<mapsto> 1], rg_next = 4\<rparr>"
    "cl_pc s10 = (cl_pc s9)(1 \<mapsto> (Via_Cache, ''w'', Returned 1))" by (simp_all add: s10_def)
  have t10: "call_step s9 s10" unfolding s10_def by (rule call_publish [where st = 1]) (simp_all add: f0 f1 f2 f3 f4 f5 f6 f7 f8 f9 path_defs)
  define s11 where "s11 = s10\<lparr>cl_registry := \<lparr>rg_global = Some (''w'', 0), rg_cache = [''w'' \<mapsto> 1], rg_next = 4\<rparr>, cl_pc := (cl_pc s10)(2 \<mapsto> (Via_Cache, ''w'', Returned 1))\<rparr>"
  have f11: "cl_registry s11 = \<lparr>rg_global = Some (''w'', 0), rg_cache = [''w'' \<mapsto> 1], rg_next = 4\<rparr>"
    "cl_pc s11 = (cl_pc s10)(2 \<mapsto> (Via_Cache, ''w'', Returned 1))" by (simp_all add: s11_def)
  have t11: "call_step s10 s11" unfolding s11_def by (rule call_publish [where st = 2]) (simp_all add: f0 f1 f2 f3 f4 f5 f6 f7 f8 f9 f10 path_defs)
  define s12 where "s12 = s11\<lparr>cl_registry := \<lparr>rg_global = Some (''w'', 0), rg_cache = [''w'' \<mapsto> 1], rg_next = 4\<rparr>, cl_pc := (cl_pc s11)(3 \<mapsto> (Via_Init, ''w'', Returned 0))\<rparr>"
  have f12: "cl_registry s12 = \<lparr>rg_global = Some (''w'', 0), rg_cache = [''w'' \<mapsto> 1], rg_next = 4\<rparr>"
    "cl_pc s12 = (cl_pc s11)(3 \<mapsto> (Via_Init, ''w'', Returned 0))" by (simp_all add: s12_def)
  have t12: "call_step s11 s12" unfolding s12_def by (rule call_publish [where st = 3]) (simp_all add: f0 f1 f2 f3 f4 f5 f6 f7 f8 f9 f10 f11 path_defs)
  note all_facts = f0 f1 f2 f3 f4 f5 f6 f7 f8 f9 f10 f11 f12
  have "reach callers_init call_step s0" by (rule reach.reach_init) (simp add: callers_init_def f0)
  then have r: "reach callers_init call_step s10"
    using t1 t2 t3 t4 t5 t6 t7 t8 t9 t10 by (meson reach.reach_step)
  have "bound_step ''w'' s10 s11" "bound_step ''w'' s11 s12"
    using t11 t12 by (simp_all add: bound_step_def active_workspace_def all_facts)
  then have b: "(bound_step ''w'')\<^sup>*\<^sup>* s10 s12" by simp
  have steps: "call_step\<^sup>*\<^sup>* s10 s12" using t11 t12 by simp
  obtain st2 st3 where st: "cl_pc s12 2 = Some (Via_Cache, ''w'', Returned st2)" "cl_pc s12 3 = Some (Via_Init, ''w'', Returned st3)"
    by (simp add: all_facts)
  have first: "cl_pc s10 0 = Some (Via_Init, ''w'', Returned 0)" "cl_pc s10 1 = Some (Via_Cache, ''w'', Returned 1)"
    "cl_pc s10 2 = Some (Via_Cache, ''w'', Opened 2)" "cl_pc s10 3 = Some (Via_Init, ''w'', Opened 3)"
    "get_store (cl_registry s10) = Inr 0" by (simp_all add: all_facts get_store_def)
  note share = callers_share_one_store [OF r steps]
  have "st2 = 1" using share first(2) st(1) by blast
  moreover have "get_store (cl_registry s10) = Inr st3" using share b st(2) first(4) by fastforce
  then have "st3 = 0" using first(5) by simp
  ultimately show ?thesis using r steps first st by blast
qed

definition two_interactions :: people_db where
  "two_interactions = empty_people\<lparr>pb_interactions := [\<lparr>ir_person_id = ''p'', ir_ts = 3, ir_is_outbound = 1, ir_length = 7\<rparr>,
     \<lparr>ir_person_id = ''p'', ir_ts = 8, ir_is_outbound = 0, ir_length = 1\<rparr>]\<rparr>"

theorem batch_is_one_by_one_witness:
  "\<exists>m. batch_interactions_for sample_people_env [''q'', ''p''] two_interactions = Inr m \<and> m ''q'' = None \<and>
    map_option (map ia_ts) (m ''p'') = Some [8 * 10 ^ 9, 3 * 10 ^ 9]"
proof -
  have "list_all (\<lambda>r. pe_parse_uuid sample_people_env (ir_person_id r) = Some (ir_person_id r)) (pb_interactions two_interactions)"
    by (simp add: sample_people_env_def two_interactions_def)
  note X = batch_is_one_by_one[OF this, of "[''q'', ''p'']"]
  have "interactions_for sample_people_env ''q'' two_interactions = []"
    "map ia_ts (interactions_for sample_people_env ''p'' two_interactions) = [8 * 10 ^ 9, 3 * 10 ^ 9]"
    by (simp_all add: interactions_for_def two_interactions_def interaction_of_row_def ts_to_dt_def sample_people_env_def)
  then show ?thesis using X by auto
qed

end
