(* ===== verification/Tokenize.thy ===== *)
theory Tokenize
  imports Ingest
begin

section \<open>Normalised text and its n-grams (src/memory/conversations/tokenize.rs)\<close>

text \<open>
  Text is normalised before it is indexed or looked up, and cut into n-grams: pairs of CJK characters, triples
  of others. \<^verbatim>\<open>lower\<close> is \<^verbatim>\<open>char::to_lowercase\<close>, which may give several characters; what Unicode
  says of it is the hypothesis \<^verbatim>\<open>lowercase_ok\<close>.
\<close>

subsection \<open>Folding tables\<close>

definition in_ranges :: "nat \<Rightarrow> (nat \<times> nat) list \<Rightarrow> bool" where
  "in_ranges c rs \<longleftrightarrow> list_ex (\<lambda>(a, b). a \<le> c \<and> c \<le> b) rs"

definition is_combining_mark :: "nat \<Rightarrow> bool" where
  "is_combining_mark c = in_ranges c
    [(0x0300, 0x036F), (0x0483, 0x0489), (0x0591, 0x05BD), (0x05BF, 0x05BF), (0x05C1, 0x05C2), (0x05C4, 0x05C5),
     (0x05C7, 0x05C7), (0x0610, 0x061A), (0x064B, 0x065F), (0x0670, 0x0670), (0x06D6, 0x06DC), (0x06DF, 0x06E4),
     (0x06E7, 0x06E8), (0x06EA, 0x06ED), (0xFE20, 0xFE2F)]"

definition folds :: "(nat \<times> string) list" where
  "folds = [(0x142, ''l''), (0xF8, ''o''), (0xDF, ''ss''), (0xE6, ''ae''), (0x153, ''oe''), (0xFE, ''th''), (0xF0, ''d''),
     (0x111, ''d''), (0x127, ''h''), (0x131, ''i''), (0x14B, ''n'')]"

definition fold_non_decomposing :: "nat \<Rightarrow> utext option" where
  "fold_non_decomposing c = map_option utext_of (map_of folds c)"

definition diacritics :: "(nat list \<times> char) list" where
  "diacritics =
    [([0xE0, 0xE1, 0xE2, 0xE3, 0xE4, 0xE5], CHR ''a''), ([0xE7], CHR ''c''), ([0xE8, 0xE9, 0xEA, 0xEB], CHR ''e''),
     ([0xEC, 0xED, 0xEE, 0xEF], CHR ''i''), ([0xF1], CHR ''n''), ([0xF2, 0xF3, 0xF4, 0xF5, 0xF6], CHR ''o''),
     ([0xF9, 0xFA, 0xFB, 0xFC], CHR ''u''), ([0xFD, 0xFF], CHR ''y''),
     ([0x101, 0x103, 0x105], CHR ''a''), ([0x107, 0x109, 0x10B, 0x10D], CHR ''c''), ([0x10F], CHR ''d''),
     ([0x113, 0x115, 0x117, 0x119, 0x11B], CHR ''e''), ([0x11D, 0x11F, 0x121, 0x123], CHR ''g''), ([0x125], CHR ''h''),
     ([0x129, 0x12B, 0x12D, 0x12F], CHR ''i''), ([0x135], CHR ''j''), ([0x137], CHR ''k''),
     ([0x13A, 0x13C, 0x13E, 0x140], CHR ''l''), ([0x144, 0x146, 0x148], CHR ''n''), ([0x14D, 0x14F, 0x151], CHR ''o''),
     ([0x155, 0x157, 0x159], CHR ''r''), ([0x15B, 0x15D, 0x15F, 0x161], CHR ''s''), ([0x163, 0x165, 0x167], CHR ''t''),
     ([0x169, 0x16B, 0x16D, 0x16F, 0x171, 0x173], CHR ''u''), ([0x175], CHR ''w''), ([0x177], CHR ''y''),
     ([0x17A, 0x17C, 0x17E], CHR ''z'')]"

definition strip_latin_diacritic :: "nat \<Rightarrow> nat option" where
  "strip_latin_diacritic c = map_option (of_char \<circ> snd) (List.find (\<lambda>(cs, b). c \<in> set cs) diacritics)"

definition fullwidth_to_ascii :: "nat \<Rightarrow> nat option" where
  "fullwidth_to_ascii c =
    (if 0xFF01 \<le> c \<and> c \<le> 0xFF5E then Some (c - 0xFEE0) else if c = 0x3000 then Some 32 else None)"

definition HW_KATAKANA :: "nat list" where
  "HW_KATAKANA =
    [0x30F2, 0x30A1, 0x30A3, 0x30A5, 0x30A7, 0x30A9, 0x30E3, 0x30E5, 0x30E7, 0x30C3, 0x30FC,
     0x30A2, 0x30A4, 0x30A6, 0x30A8, 0x30AA, 0x30AB, 0x30AD, 0x30AF, 0x30B1, 0x30B3, 0x30B5,
     0x30B7, 0x30B9, 0x30BB, 0x30BD, 0x30BF, 0x30C1, 0x30C4, 0x30C6, 0x30C8, 0x30CA, 0x30CB,
     0x30CC, 0x30CD, 0x30CE, 0x30CF, 0x30D2, 0x30D5, 0x30D8, 0x30DB, 0x30DE, 0x30DF, 0x30E0,
     0x30E1, 0x30E2, 0x30E4, 0x30E6, 0x30E8, 0x30E9, 0x30EA, 0x30EB, 0x30EC, 0x30ED, 0x30EF,
     0x30F3]"

definition halfwidth_to_fullwidth :: "nat \<Rightarrow> nat option" where
  "halfwidth_to_fullwidth c =
    (if 0xFF66 \<le> c \<and> c \<le> 0xFF9D then Some (HW_KATAKANA ! (c - 0xFF66)) else None)"

definition normalize_char :: "nat \<Rightarrow> utext" where
  "normalize_char c =
    (if is_combining_mark c then []
     else case fold_non_decomposing c of Some folded \<Rightarrow> folded
     | None \<Rightarrow> (case strip_latin_diacritic c of Some base \<Rightarrow> [base]
     | None \<Rightarrow> (case fullwidth_to_ascii c of Some ascii \<Rightarrow> [ascii]
     | None \<Rightarrow> (case halfwidth_to_fullwidth c of Some full \<Rightarrow> [full] | None \<Rightarrow> [c]))))"

definition normalize :: "(nat \<Rightarrow> utext) \<Rightarrow> utext \<Rightarrow> utext" where
  "normalize lower_c text = concat (map normalize_char (concat (map lower_c text)))"

definition is_cjk :: "nat \<Rightarrow> bool" where
  "is_cjk c = in_ranges c
    [(0x3040, 0x309F), (0x30A0, 0x30FF), (0x3400, 0x4DBF), (0x4E00, 0x9FFF), (0xF900, 0xFAFF), (0x1100, 0x11FF), (0xAC00, 0xD7AF)]"

subsection \<open>n-grams\<close>

definition gram_size :: "bool \<Rightarrow> nat" where "gram_size cjk = (if cjk then 2 else 3)"

definition run_ngrams :: "nat \<Rightarrow> utext \<Rightarrow> utext list" where
  "run_ngrams n run = (if n \<le> length run then map (\<lambda>k. take n (drop k run)) [0..<Suc (length run - n)] else [])"

function ngrams :: "utext \<Rightarrow> utext list" where
  "ngrams [] = []"
| "ngrams (c # cs) =
    run_ngrams (gram_size (is_cjk c)) (takeWhile (\<lambda>d. is_cjk d = is_cjk c) (c # cs)) @
    ngrams (dropWhile (\<lambda>d. is_cjk d = is_cjk c) (c # cs))"
  by pat_completeness auto
termination
  by (relation "measure length") (auto simp: le_imp_less_Suc length_dropWhile_le)

subsection \<open>The n-grams of a text are the grams that occur in it\<close>

definition gram :: "utext \<Rightarrow> bool" where
  "gram g \<longleftrightarrow> (\<exists>b. length g = gram_size b \<and> (\<forall>c\<in>set g. is_cjk c = b))"

lemma set_run_ngrams:
  "set (run_ngrams n run) = {g. length g = n \<and> sublist g run}"
proof (intro set_eqI iffI)
  fix g assume "g \<in> set (run_ngrams n run)"
  then obtain k where k: "n \<le> length run" "k \<le> length run - n" "g = take n (drop k run)"
    by (auto simp: run_ngrams_def less_Suc_eq_le simp del: upt_Suc split: if_splits)
  have "run = take k run @ g @ drop n (drop k run)" unfolding k(3) by (simp only: append_take_drop_id)
  then have "sublist g run" unfolding sublist_def by blast
  then show "g \<in> {g. length g = n \<and> sublist g run}" using k by simp
next
  fix g assume "g \<in> {g. length g = n \<and> sublist g run}"
  then obtain p s where g: "length g = n" "run = p @ g @ s" by (auto simp: sublist_def)
  then have "g = take n (drop (length p) run)" "n \<le> length run" "length p < Suc (length run - n)" by simp_all
  then show "g \<in> set (run_ngrams n run)" by (auto simp: run_ngrams_def less_Suc_eq_le simp del: upt_Suc intro!: image_eqI[of _ _ "length p"])
qed

lemma sublist_takeWhile:
  assumes "g \<noteq> []" and "\<forall>c\<in>set g. P c" and "sublist g (takeWhile P t @ dropWhile P t)"
  shows "sublist g (takeWhile P t) \<or> sublist g (dropWhile P t)"
proof -
  obtain p s where t: "takeWhile P t @ dropWhile P t = p @ g @ s" using assms(3) by (auto simp: sublist_def)
  show ?thesis
  proof (cases "length p < length (takeWhile P t)")
    case True
    note X = t[THEN append_eq_append_conv2[THEN iffD1]]
    have "\<not> (\<exists>us. takeWhile P t @ us = p)" using True by (metis length_append not_add_less1)
    then obtain q where q: "takeWhile P t = p @ q" "q @ dropWhile P t = g @ s" using X by blast
    have "takeWhile P (q @ dropWhile P t) = q"
    proof -
      have "takeWhile P (dropWhile P t) = []" by (metis hd_dropWhile takeWhile_eq_Nil_iff)
      moreover have "\<forall>x\<in>set q. P x" using q(1) set_takeWhileD[of _ P t] by auto
      ultimately show ?thesis by simp
    qed
    moreover have "takeWhile P (g @ s) = g @ takeWhile P s" using assms(2) by (simp add: takeWhile_append2)
    ultimately have "q = g @ takeWhile P s" using q(2) by simp
    then show ?thesis using q(1) by (auto simp: sublist_def)
  next
    case False
    note X = t[THEN append_eq_append_conv2[THEN iffD1]]
    have "us = []" if "takeWhile P t = p @ us" for us using False that by (metis add.right_neutral le_add1 le_antisym length_0_conv length_append linorder_not_less nat_add_left_cancel_le)
    then obtain r where "dropWhile P t = r @ g @ s" using X by (metis append_Nil)
    then show ?thesis by (auto simp: sublist_def)
  qed
qed

lemma gram_nonempty: "gram g \<Longrightarrow> g \<noteq> []"
proof -
  have "gram_size b \<noteq> 0" for b by (simp add: gram_size_def)
  then show "gram g \<Longrightarrow> g \<noteq> []" unfolding gram_def by (metis list.size(3))
qed

lemma gram_same: "gram g \<Longrightarrow> g \<noteq> [] \<Longrightarrow> \<forall>c\<in>set g. is_cjk c = is_cjk (hd g)"
  by (auto simp: gram_def)

lemma sublist_run_gram:
  assumes "\<forall>c\<in>set run. is_cjk c = b"
  shows "length g = gram_size b \<and> sublist g run \<longleftrightarrow> gram g \<and> sublist g run"
proof -
  have sub: "set g \<subseteq> set run" if "sublist g run" using that by (auto simp: sublist_def)
  show ?thesis
  proof (intro iffI conjI; elim conjE)
    assume g: "length g = gram_size b" "sublist g run"
    then show "gram g" using assms sub unfolding gram_def by blast
  next
    assume g: "gram g" "sublist g run"
    then obtain d where d: "length g = gram_size d" "\<forall>c\<in>set g. is_cjk c = d" by (auto simp: gram_def)
    then have "g \<noteq> []" by (cases d) (auto simp: gram_size_def)
    then have "hd g \<in> set g" by simp
    then have "is_cjk (hd g) = d" "is_cjk (hd g) = b" using d(2) assms sub[OF g(2)] by blast+
    then show "length g = gram_size b" using d(1) by simp
  qed
qed

text \<open>
  The n-grams of a text are exactly the pairs of CJK characters and the triples of other characters that stand next to
  each other in it, wherever the scripts change.
\<close>
theorem ngrams_exact: "set (ngrams t) = {g. gram g \<and> sublist g t}"
proof (induction t rule: ngrams.induct)
  case 1
  show ?case using gram_nonempty by auto
next
  case (2 c cs)
  let ?t = "c # cs" and ?P = "\<lambda>d. is_cjk d = is_cjk c"
  let ?run = "takeWhile ?P ?t" and ?rest = "dropWhile ?P ?t"
  have run: "\<forall>d\<in>set ?run. is_cjk d = is_cjk c" by (auto dest: set_takeWhileD)
  have "set (ngrams ?t) = {g. gram g \<and> sublist g ?run} \<union> {g. gram g \<and> sublist g ?rest}"
    unfolding ngrams.simps set_append set_run_ngrams 2 using sublist_run_gram[OF run] by blast
  also have "\<dots> = {g. gram g \<and> sublist g ?t}"
  proof (intro set_eqI iffI)
    fix g assume "g \<in> {g. gram g \<and> sublist g ?run} \<union> {g. gram g \<and> sublist g ?rest}"
    moreover have "sublist ?run ?t" "sublist ?rest ?t"
      by (metis sublist_appendI append_Nil takeWhile_dropWhile_id, metis append_Nil2 sublist_appendI takeWhile_dropWhile_id)
    ultimately show "g \<in> {g. gram g \<and> sublist g ?t}" by (blast intro: sublist_order.order_trans)
  next
    fix g assume g: "g \<in> {g. gram g \<and> sublist g ?t}"
    then have ne: "g \<noteq> []" using gram_nonempty by blast
    have same: "\<forall>d\<in>set g. is_cjk d = is_cjk (hd g)" using gram_same g ne by blast
    show "g \<in> {g. gram g \<and> sublist g ?run} \<union> {g. gram g \<and> sublist g ?rest}"
    proof (cases "is_cjk (hd g) = is_cjk c")
      case True
      then have "\<forall>d\<in>set g. ?P d" using same by auto
      then show ?thesis using sublist_takeWhile[OF ne, of ?P ?t] g by auto
    next
      case False
      have s: "sublist g (?run @ ?rest)" using g by simp
      then obtain p q where pq: "?run @ ?rest = p @ g @ q" by (auto simp: sublist_def)
      have "length ?run \<le> length p"
      proof (rule ccontr)
        assume "\<not> length ?run \<le> length p"
        then have lt: "length p < length ?run" by simp
        have "?t = p @ g @ q" using pq takeWhile_dropWhile_id[of ?P ?t] by metis
        then have "?t ! length p = hd g" using ne by (metis nth_append_length hd_Cons_tl append_Cons)
        then have "hd g \<in> set ?run" using takeWhile_nth[OF lt] nth_mem[OF lt] by metis
        then show False using run False by blast
      qed
      moreover note X = pq[THEN append_eq_append_conv2[THEN iffD1]]
      ultimately have "\<exists>us. ?rest = us @ g @ q"
      proof (elim exE disjE conjE)
        fix us assume us: "?run = p @ us" "us @ ?rest = g @ q" and "length ?run \<le> length p"
        then have "us = []" by (metis add_le_same_cancel1 le_zero_eq length_0_conv length_append)
        then show ?thesis using us(2) by (intro exI[of _ "[]"]) simp
      qed blast
      then show ?thesis using g by (auto simp: sublist_def)
    qed
  qed
  finally show ?case .
qed

lemma ngrams_mono: "sublist s t \<Longrightarrow> set (ngrams s) \<subseteq> set (ngrams t)"
  unfolding ngrams_exact using sublist_order.order_trans by blast

subsection \<open>Normalising twice\<close>

definition lowercase_ok :: "(nat \<Rightarrow> utext) \<Rightarrow> bool" where
  "lowercase_ok lc \<longleftrightarrow> (\<forall>c. \<forall>d\<in>set (lc c). lc d = [d]) \<and>
    (\<forall>d. 32 \<le> d \<and> d \<le> 126 \<and> \<not> (65 \<le> d \<and> d \<le> 90) \<longrightarrow> lc d = [d]) \<and>
    (\<forall>d. 0x30A0 \<le> d \<and> d \<le> 0x30FF \<longrightarrow> lc d = [d]) \<and> (\<forall>d. 0xFF21 \<le> d \<and> d \<le> 0xFF3A \<longrightarrow> lc d \<noteq> [d])"

lemma ascii_kept: "c < 128 \<Longrightarrow> normalize_char c = [c]"
  by (simp add: normalize_char_def is_combining_mark_def in_ranges_def fold_non_decomposing_def folds_def
      strip_latin_diacritic_def diacritics_def fullwidth_to_ascii_def halfwidth_to_fullwidth_def)

lemma katakana_kept:
  "list_all (\<lambda>k. normalize_char k = [k] \<and> 0x30A0 \<le> k \<and> k \<le> 0x30FF) HW_KATAKANA"
  by (simp add: HW_KATAKANA_def normalize_char_def is_combining_mark_def in_ranges_def fold_non_decomposing_def folds_def
      strip_latin_diacritic_def diacritics_def fullwidth_to_ascii_def halfwidth_to_fullwidth_def)

lemma folded_ascii: "fold_non_decomposing c = Some w \<Longrightarrow> \<forall>d\<in>set w. 97 \<le> d \<and> d \<le> 122"
  by (auto simp: fold_non_decomposing_def folds_def utext_of_def split: if_splits)

lemma base_ascii: "strip_latin_diacritic c = Some d \<Longrightarrow> 97 \<le> d \<and> d \<le> 122"
  by (auto simp: strip_latin_diacritic_def diacritics_def split: if_splits)

lemma halfwidth_katakana: "halfwidth_to_fullwidth c = Some d \<Longrightarrow> d \<in> set HW_KATAKANA"
proof -
  have "length HW_KATAKANA = 56" by (simp add: HW_KATAKANA_def)
  then show "halfwidth_to_fullwidth c = Some d \<Longrightarrow> d \<in> set HW_KATAKANA"
    by (auto simp: halfwidth_to_fullwidth_def intro!: nth_mem split: if_splits)
qed

lemma normalized_stable:
  assumes "lowercase_ok lc" and "lc c = [c]" and "d \<in> set (normalize_char c)"
  shows "lc d = [d] \<and> normalize_char d = [d]"
proof -
  have ascii: "lc x = [x] \<and> normalize_char x = [x]" if "32 \<le> x" "x \<le> 126" "\<not> (65 \<le> x \<and> x \<le> 90)" for x
    using assms(1) that ascii_kept[of x] by (simp add: lowercase_ok_def)
  show ?thesis
  proof (cases "is_combining_mark c")
    case True
    then show ?thesis using assms(3) by (simp add: normalize_char_def)
  next
    case mark: False
    consider (fold) w where "fold_non_decomposing c = Some w"
      | (strip) b where "fold_non_decomposing c = None" "strip_latin_diacritic c = Some b"
      | (wide) a where "fold_non_decomposing c = None" "strip_latin_diacritic c = None" "fullwidth_to_ascii c = Some a"
      | (half) f where "fold_non_decomposing c = None" "strip_latin_diacritic c = None" "fullwidth_to_ascii c = None"
          "halfwidth_to_fullwidth c = Some f"
      | (same) "fold_non_decomposing c = None" "strip_latin_diacritic c = None" "fullwidth_to_ascii c = None"
          "halfwidth_to_fullwidth c = None"
      by (meson not_Some_eq)
    then show ?thesis
    proof cases
      case (fold w)
      then have "97 \<le> d \<and> d \<le> 122" using assms(3) mark folded_ascii[of c w] by (simp add: normalize_char_def)
      then show ?thesis using ascii[of d] by simp
    next
      case (strip b)
      then have "97 \<le> d \<and> d \<le> 122" using assms(3) mark base_ascii[of c b] by (simp add: normalize_char_def)
      then show ?thesis using ascii[of d] by simp
    next
      case (wide a)
      then have d: "d = a" using assms(3) mark by (simp add: normalize_char_def)
      have "\<not> (0xFF21 \<le> c \<and> c \<le> 0xFF3A)" using assms(1,2) by (auto simp: lowercase_ok_def)
      then have "d = 32 \<or> 33 \<le> d \<and> d \<le> 126 \<and> \<not> (65 \<le> d \<and> d \<le> 90)"
        using wide(3) unfolding d fullwidth_to_ascii_def by (auto split: if_splits)
      then show ?thesis using ascii[of d] by auto
    next
      case (half f)
      then have "d \<in> set HW_KATAKANA" using assms(3) mark halfwidth_katakana[of c f] by (simp add: normalize_char_def)
      then show ?thesis using katakana_kept assms(1) by (simp add: list_all_iff lowercase_ok_def)
    next
      case same
      then have "normalize_char c = [c]" using mark by (simp add: normalize_char_def)
      then show ?thesis using assms(2,3) by simp
    qed
  qed
qed

text \<open>Normalised text is normal: a query term and the text it came from are compared in one form.\<close>

theorem normalize_idempotent:
  assumes "lowercase_ok lc"
  shows "normalize lc (normalize lc t) = normalize lc t"
proof -
  have stable: "\<forall>d\<in>set (normalize lc t). lc d = [d] \<and> normalize_char d = [d]"
  proof
    fix d assume "d \<in> set (normalize lc t)"
    then obtain b c where "b \<in> set t" "c \<in> set (lc b)" "d \<in> set (normalize_char c)" by (auto simp: normalize_def)
    moreover have "lc c = [c]" using calculation(2) assms by (simp only: lowercase_ok_def)
    ultimately show "lc d = [d] \<and> normalize_char d = [d]" using normalized_stable[OF assms] by blast
  qed
  have "concat (map f s) = s" if "\<forall>d\<in>set s. f d = [d]" for f :: "nat \<Rightarrow> utext" and s
    using that by (induction s) auto
  then have "concat (map lc (normalize lc t)) = normalize lc t" "concat (map normalize_char (normalize lc t)) = normalize lc t"
    using stable by blast+
  then show ?thesis by (simp only: normalize_def[of lc "normalize lc t"])
qed

end
