(* ===== verification/Inverted_Index.thy ===== *)
theory Inverted_Index
  imports Tokenize People
begin

section \<open>The message index (src/memory/conversations/inverted_index.rs, types.rs)\<close>

text \<open>
  Messages are documents numbered in the order of insertion; a removed one leaves a tombstone. Every n-gram of a
  document's normalised text has a posting list of the documents that hold it, ascending. A search looks each term up
  by its n-grams, checks the candidates by substring, and ranks. \<^verbatim>\<open>xe_hash_order\<close> is the order a hash
  map hands out the ids it holds, \<^verbatim>\<open>xe_millis\<close> parses a timestamp (chrono). Document numbers are
  naturals: an index with more messages than \<^verbatim>\<open>u32\<close> numbers is out of reach. The interner pools only share strings.
\<close>

record conversation_message =
  cv_id :: string
  cv_content :: utext
  cv_type :: string
  cv_extra_metadata :: string
  cv_sender :: string
  cv_created_at :: string

record cross_thread_hit =
  ht_thread_id :: string
  ht_message_id :: string
  ht_role :: string
  ht_content :: utext
  ht_created_at :: string
  ht_score :: rat

record index_env =
  xe_lower :: "nat \<Rightarrow> utext"
  xe_millis :: "string \<Rightarrow> int option"
  xe_hash_order :: "nat list \<Rightarrow> nat list"

record doc_entry =
  de_thread_id :: string
  de_message_id :: string
  de_role :: string
  de_content :: utext
  de_content_normalized :: utext
  de_created_at :: string
  de_created_at_ms :: int

record inverted_index =
  ix_postings :: "utext \<rightharpoonup> nat list"
  ix_docs :: "doc_entry option list"
  ix_by_message :: "((string \<times> string) \<times> nat) list"

definition MIN_TERM_BYTES :: nat where "MIN_TERM_BYTES = 3"
definition LARGE_CANDIDATE_LIMIT :: nat where "LARGE_CANDIDATE_LIMIT = 10000"

definition new_index :: inverted_index where
  "new_index = \<lparr>ix_postings = Map.empty, ix_docs = [], ix_by_message = []\<rparr>"

subsection \<open>Insertion and removal\<close>

definition created_ms :: "index_env \<Rightarrow> string \<Rightarrow> int" where
  "created_ms env s = (case xe_millis env s of Some t \<Rightarrow> t | None \<Rightarrow> i64_min)"

definition doc_of :: "index_env \<Rightarrow> string \<Rightarrow> conversation_message \<Rightarrow> doc_entry" where
  "doc_of env thread_id m =
    \<lparr>de_thread_id = thread_id, de_message_id = cv_id m, de_role = cv_sender m, de_content = cv_content m,
     de_content_normalized = normalize (xe_lower env) (cv_content m), de_created_at = cv_created_at m,
     de_created_at_ms = created_ms env (cv_created_at m)\<rparr>"

definition add_posting :: "nat \<Rightarrow> utext \<Rightarrow> (utext \<rightharpoonup> nat list) \<Rightarrow> (utext \<rightharpoonup> nat list)" where
  "add_posting d g p = (case p g of Some ps \<Rightarrow> p(g \<mapsto> insort_insert d ps) | None \<Rightarrow> p(g \<mapsto> [d]))"

definition index_insert :: "index_env \<Rightarrow> string \<Rightarrow> conversation_message \<Rightarrow> inverted_index \<Rightarrow> inverted_index" where
  "index_insert env thread_id m ix =
    (let key = (thread_id, cv_id m) in
     if map_of (ix_by_message ix) key \<noteq> None then ix
     else
       (let e = doc_of env thread_id m; doc_id = length (ix_docs ix) in
        \<lparr>ix_postings = fold (add_posting doc_id) (ngrams (de_content_normalized e)) (ix_postings ix),
         ix_docs = ix_docs ix @ [Some e],
         ix_by_message = (key, doc_id) # ix_by_message ix\<rparr>))"

definition drop_posting :: "nat \<Rightarrow> utext \<Rightarrow> (utext \<rightharpoonup> nat list) \<Rightarrow> (utext \<rightharpoonup> nat list)" where
  "drop_posting d g p =
    (case p g of
       Some ps \<Rightarrow> (let ps' = removeAll d ps in if ps' = [] then p(g := None) else p(g \<mapsto> ps'))
     | None \<Rightarrow> p)"

definition remove_doc :: "nat \<Rightarrow> inverted_index \<Rightarrow> inverted_index" where
  "remove_doc doc_id ix =
    (if length (ix_docs ix) \<le> doc_id then ix
     else case ix_docs ix ! doc_id of
       None \<Rightarrow> ix
     | Some e \<Rightarrow>
        \<lparr>ix_postings = fold (drop_posting doc_id) (ngrams (de_content_normalized e)) (ix_postings ix),
         ix_docs = (ix_docs ix)[doc_id := None],
         ix_by_message = filter (\<lambda>(k, i). k \<noteq> (de_thread_id e, de_message_id e)) (ix_by_message ix)\<rparr>)"

definition index_remove_thread :: "string \<Rightarrow> inverted_index \<Rightarrow> inverted_index" where
  "index_remove_thread thread_id ix =
    fold remove_doc (map snd (filter (\<lambda>((t, m), i). t = thread_id) (ix_by_message ix))) ix"

definition index_clear :: "inverted_index \<Rightarrow> inverted_index" where
  "index_clear ix = \<lparr>ix_postings = Map.empty, ix_docs = [], ix_by_message = []\<rparr>"

subsection \<open>Search\<close>

text \<open>Both lists ascend; each step drops what is below the candidate.\<close>

fun intersect_sorted :: "nat list \<Rightarrow> nat list \<Rightarrow> nat list" where
  "intersect_sorted [] other = []"
| "intersect_sorted (target # acc) other =
    (case dropWhile (\<lambda>x. x < target) other of
       [] \<Rightarrow> intersect_sorted acc []
     | x # rest \<Rightarrow> if x = target then target # intersect_sorted acc rest else intersect_sorted acc (x # rest))"

fun narrow :: "(utext \<rightharpoonup> nat list) \<Rightarrow> utext list \<Rightarrow> nat list \<Rightarrow> nat list" where
  "narrow postings [] acc = acc"
| "narrow postings (g # gs) acc =
    (if acc = [] then acc
     else case postings g of Some p \<Rightarrow> narrow postings gs (intersect_sorted acc p) | None \<Rightarrow> [])"

definition candidates_for_term :: "(utext \<rightharpoonup> nat list) \<Rightarrow> utext \<Rightarrow> nat list option" where
  "candidates_for_term postings t =
    (case ngrams t of [] \<Rightarrow> None
     | g # gs \<Rightarrow> (case postings g of Some p \<Rightarrow> Some (narrow postings gs p) | None \<Rightarrow> Some []))"

definition live_ids :: "inverted_index \<Rightarrow> nat list" where
  "live_ids ix = filter (\<lambda>i. ix_docs ix ! i \<noteq> None) [0..<length (ix_docs ix)]"

definition search_terms :: "index_env \<Rightarrow> utext \<Rightarrow> utext list" where
  "search_terms env query =
    List.map_filter (\<lambda>w. let n = normalize (xe_lower env) w in
        if MIN_TERM_BYTES \<le> blen w \<or> MIN_TERM_BYTES \<le> blen n then Some n else None)
      (split_words query)"

fun gather_candidates :: "inverted_index \<Rightarrow> utext list \<Rightarrow> nat list list option" where
  "gather_candidates ix [] = Some []"
| "gather_candidates ix (t # ts) =
    (case (case candidates_for_term (ix_postings ix) t of
         Some v \<Rightarrow> if LARGE_CANDIDATE_LIMIT < length v then None else Some v
       | None \<Rightarrow> Some (live_ids ix)) of
       None \<Rightarrow> None
     | Some v \<Rightarrow> map_option (Cons v) (gather_candidates ix ts))"

definition excluded :: "string option \<Rightarrow> doc_entry \<Rightarrow> bool" where
  "excluded exclude e \<longleftrightarrow> exclude = Some (de_thread_id e)"

definition count_hit :: "inverted_index \<Rightarrow> string option \<Rightarrow> utext \<Rightarrow> nat \<Rightarrow> (nat \<rightharpoonup> nat) \<Rightarrow> (nat \<rightharpoonup> nat)" where
  "count_hit ix exclude t d counts =
    (case ix_docs ix ! d of
       None \<Rightarrow> counts
     | Some e \<Rightarrow>
        (if excluded exclude e \<or> \<not> sublist t (de_content_normalized e) then counts
         else counts(d \<mapsto> (case counts d of Some n \<Rightarrow> n | None \<Rightarrow> 0) + 1)))"

definition hit_counts :: "inverted_index \<Rightarrow> string option \<Rightarrow> (utext \<times> nat list) list \<Rightarrow> (nat \<rightharpoonup> nat)" where
  "hit_counts ix exclude per_term =
    fold (\<lambda>(t, ds). fold (count_hit ix exclude t) ds) per_term Map.empty"

definition hit_of :: "doc_entry \<Rightarrow> rat \<Rightarrow> cross_thread_hit" where
  "hit_of e score =
    \<lparr>ht_thread_id = de_thread_id e, ht_message_id = de_message_id e, ht_role = de_role e, ht_content = de_content e,
     ht_created_at = de_created_at e, ht_score = score\<rparr>"

definition recency_fallback :: "inverted_index \<Rightarrow> string option \<Rightarrow> nat \<Rightarrow> cross_thread_hit list" where
  "recency_fallback ix exclude limit =
    (let entries = filter (\<lambda>e. \<not> excluded exclude e) (List.map_filter id (ix_docs ix))
     in map (\<lambda>e. hit_of e 0) (take limit (sort_key (\<lambda>e. - de_created_at_ms e) entries)))"

definition rank_hits :: "inverted_index \<Rightarrow> nat \<Rightarrow> nat \<Rightarrow> (nat \<times> nat) list \<Rightarrow> cross_thread_hit list" where
  "rank_hits ix limit total_terms hits =
    (let ranked = sort_key (\<lambda>(d, matched, ms). (- int matched, - ms))
           (map (\<lambda>(d, matched). (d, matched, de_created_at_ms (the (ix_docs ix ! d)))) hits)
     in map (\<lambda>(d, matched, ms). hit_of (the (ix_docs ix ! d)) (of_nat matched / of_nat total_terms)) (take limit ranked))"

definition index_search :: "index_env \<Rightarrow> utext \<Rightarrow> nat \<Rightarrow> string option \<Rightarrow> inverted_index \<Rightarrow> cross_thread_hit list" where
  "index_search env query limit exclude ix =
    (if limit = 0 then []
     else
       (let terms = search_terms env query in
        if terms = [] then []
        else case gather_candidates ix terms of
          None \<Rightarrow> recency_fallback ix exclude limit
        | Some per_term \<Rightarrow>
           (let counts = hit_counts ix exclude (zip terms per_term);
                ids = xe_hash_order env (filter (\<lambda>d. counts d \<noteq> None) [0..<length (ix_docs ix)])
            in rank_hits ix limit (length terms) (map (\<lambda>d. (d, the (counts d))) ids))))"

subsection \<open>What the index holds\<close>

definition holds_gram :: "doc_entry option list \<Rightarrow> utext \<Rightarrow> nat \<Rightarrow> bool" where
  "holds_gram docs g d \<longleftrightarrow> (case docs ! d of None \<Rightarrow> False | Some e \<Rightarrow> g \<in> set (ngrams (de_content_normalized e)))"

definition postings_of :: "doc_entry option list \<Rightarrow> utext \<Rightarrow> nat list option" where
  "postings_of docs g =
    (let ds = filter (holds_gram docs g) [0..<length docs] in if ds = [] then None else Some ds)"

definition doc_key :: "doc_entry \<Rightarrow> string \<times> string" where
  "doc_key e = (de_thread_id e, de_message_id e)"

definition index_ok :: "inverted_index \<Rightarrow> bool" where
  "index_ok ix \<longleftrightarrow> ix_postings ix = postings_of (ix_docs ix) \<and> distinct (map fst (ix_by_message ix)) \<and>
    (\<forall>k d. (k, d) \<in> set (ix_by_message ix) \<longleftrightarrow> d < length (ix_docs ix) \<and> map_option doc_key (ix_docs ix ! d) = Some k)"

definition live :: "inverted_index \<Rightarrow> doc_entry list" where
  "live ix = List.map_filter id (ix_docs ix)"

lemma add_posting_apply:
  "add_posting d g p h = (if h = g then Some (case p g of Some ps \<Rightarrow> insort_insert d ps | None \<Rightarrow> [d]) else p h)"
  by (simp add: add_posting_def split: option.split)

lemma fold_add_posting:
  "fold (add_posting d) gs p h =
    (if h \<in> set gs then Some (case p h of Some ps \<Rightarrow> insort_insert d ps | None \<Rightarrow> [d]) else p h)"
proof (induction gs arbitrary: p)
  case (Cons g gs)
  have "insort_insert d (insort_insert d ps) = insort_insert d ps" for ps :: "nat list"
    by (simp add: insort_insert_triv set_insort_insert)
  moreover have "insort_insert d [d] = [d]" by (simp add: insort_insert_triv)
  ultimately show ?case by (auto simp: Cons.IH add_posting_apply[of d g p h] add_posting_apply[of d g p g] split: option.split)
qed simp

lemma drop_posting_apply:
  "drop_posting d g p h =
    (if h = g then (case p g of Some ps \<Rightarrow> if removeAll d ps = [] then None else Some (removeAll d ps) | None \<Rightarrow> None) else p h)"
  by (simp add: drop_posting_def Let_def split: option.split)

lemma fold_drop_posting:
  "fold (drop_posting d) gs p h =
    (if h \<in> set gs then (case p h of Some ps \<Rightarrow> if removeAll d ps = [] then None else Some (removeAll d ps) | None \<Rightarrow> None)
     else p h)"
proof (induction gs arbitrary: p)
  case (Cons g gs)
  have "removeAll d (removeAll d ps) = removeAll d ps" for ps :: "nat list" by (simp add: removeAll_id)
  then show ?case by (auto simp: Cons.IH drop_posting_apply[of d g p h] drop_posting_apply[of d g p g] split: option.split)
qed simp

lemma postings_snoc:
  "postings_of (docs @ [Some e]) g =
    (if g \<in> set (ngrams (de_content_normalized e))
     then Some (case postings_of docs g of Some ps \<Rightarrow> insort_insert (length docs) ps | None \<Rightarrow> [length docs])
     else postings_of docs g)"
proof -
  let ?ds = "filter (holds_gram docs g) [0..<length docs]"
  have "filter (holds_gram (docs @ [Some e]) g) [0..<length docs] = ?ds"
    by (rule filter_cong) (simp_all add: holds_gram_def nth_append)
  then have ds: "filter (holds_gram (docs @ [Some e]) g) [0..<length (docs @ [Some e])] =
      ?ds @ (if g \<in> set (ngrams (de_content_normalized e)) then [length docs] else [])"
    by (simp add: holds_gram_def)
  have "insort_insert (length docs) ?ds = insort (length docs) ?ds" by (rule insort_insert_insort) auto
  also have "\<dots> = ?ds @ [length docs]" by (rule sorted_insort_is_snoc) (auto simp: sorted_wrt_filter)
  finally show ?thesis unfolding postings_of_def ds Let_def by auto
qed

lemma postings_tombstone:
  assumes "d < length docs" and "docs ! d = Some e"
  shows "postings_of (docs[d := None]) g =
    (if g \<in> set (ngrams (de_content_normalized e))
     then (case postings_of docs g of Some ps \<Rightarrow> if removeAll d ps = [] then None else Some (removeAll d ps) | None \<Rightarrow> None)
     else postings_of docs g)"
proof -
  let ?ds = "filter (holds_gram docs g) [0..<length docs]"
  have "filter (holds_gram (docs[d := None]) g) [0..<length docs] = filter (\<lambda>i. holds_gram docs g i \<and> i \<noteq> d) [0..<length docs]"
    using assms(1) by (intro filter_cong) (auto simp: holds_gram_def nth_list_update)
  also have "\<dots> = removeAll d ?ds" unfolding removeAll_filter_not_eq filter_filter by (rule filter_cong) auto
  finally have ds: "filter (holds_gram (docs[d := None]) g) [0..<length (docs[d := None])] = removeAll d ?ds" by simp
  have "d \<notin> set ?ds" if "g \<notin> set (ngrams (de_content_normalized e))" using that assms(2) by (simp add: holds_gram_def)
  then have "removeAll d ?ds = ?ds" if "g \<notin> set (ngrams (de_content_normalized e))" using that by (simp add: removeAll_id)
  then show ?thesis unfolding postings_of_def ds Let_def by auto
qed

lemma by_message_find:
  assumes "index_ok ix"
  shows "map_of (ix_by_message ix) k = Some d \<longleftrightarrow> d < length (ix_docs ix) \<and> map_option doc_key (ix_docs ix ! d) = Some k"
  using assms by (simp add: index_ok_def map_of_eq_Some_iff del: split_paired_All)

lemma live_iff: "e \<in> set (live ix) \<longleftrightarrow> (\<exists>d<length (ix_docs ix). ix_docs ix ! d = Some e)"
  by (auto simp: live_def set_map_filter_Some in_set_conv_nth)

lemma live_keys:
  assumes "index_ok ix"
  shows "map_of (ix_by_message ix) k = None \<longleftrightarrow> k \<notin> doc_key ` set (live ix)"
proof -
  have "map_of (ix_by_message ix) k \<noteq> None \<longleftrightarrow> (\<exists>d<length (ix_docs ix). map_option doc_key (ix_docs ix ! d) = Some k)"
    using by_message_find[OF assms, of k] by auto
  also have "\<dots> \<longleftrightarrow> k \<in> doc_key ` set (live ix)" unfolding image_iff Bex_def live_iff by auto
  finally show ?thesis by blast
qed

lemma index_insert_ok:
  assumes "index_ok ix"
  shows "index_ok (index_insert env th m ix)"
proof (cases "map_of (ix_by_message ix) (th, cv_id m)")
  case None
  let ?e = "doc_of env th m"
  have key: "doc_key ?e = (th, cv_id m)" by (simp add: doc_key_def doc_of_def)
  have "fold (add_posting (length (ix_docs ix))) (ngrams (de_content_normalized ?e)) (postings_of (ix_docs ix)) =
      postings_of (ix_docs ix @ [Some ?e])"
    by (rule ext) (simp only: fold_add_posting postings_snoc)
  moreover have "(th, cv_id m) \<notin> fst ` set (ix_by_message ix)" using None by (simp add: map_of_eq_None_iff)
  ultimately show ?thesis using assms None key unfolding index_ok_def
    by (auto simp: index_insert_def Let_def nth_append less_Suc_eq simp del: split_paired_All)
qed (use assms in \<open>simp add: index_insert_def\<close>)

lemma live_insert:
  "index_ok ix \<Longrightarrow> live (index_insert env th m ix) =
    (if (th, cv_id m) \<in> doc_key ` set (live ix) then live ix else live ix @ [doc_of env th m])"
  using live_keys[of ix "(th, cv_id m)"]
  by (auto simp: index_insert_def Let_def live_def List.map_filter_def)

lemma remove_doc_ok:
  assumes "index_ok ix"
  shows "index_ok (remove_doc d ix)"
proof (cases "d < length (ix_docs ix) \<and> ix_docs ix ! d \<noteq> None")
  case True
  then obtain e where e: "d < length (ix_docs ix)" "ix_docs ix ! d = Some e" by auto
  have "fold (drop_posting d) (ngrams (de_content_normalized e)) (postings_of (ix_docs ix)) = postings_of ((ix_docs ix)[d := None])"
    by (rule ext) (simp only: fold_drop_posting postings_tombstone[OF e])
  moreover have "(k, i) \<in> set (filter (\<lambda>(k, i). k \<noteq> doc_key e) (ix_by_message ix)) \<longleftrightarrow>
      i < length ((ix_docs ix)[d := None]) \<and> map_option doc_key ((ix_docs ix)[d := None] ! i) = Some k" for k i
  proof -
    have "i = d" if "i < length (ix_docs ix)" "map_option doc_key (ix_docs ix ! i) = Some (doc_key e)"
      using that e by_message_find[OF assms, of "doc_key e"] by (metis option.inject option.map(2))
    then show ?thesis using assms e unfolding index_ok_def by (cases "i = d") (auto simp del: split_paired_All)
  qed
  moreover have "distinct (map fst (filter (\<lambda>(k, i). k \<noteq> doc_key e) (ix_by_message ix)))"
    using assms by (simp add: index_ok_def distinct_map_filter)
  moreover have "remove_doc d ix = \<lparr>ix_postings = fold (drop_posting d) (ngrams (de_content_normalized e)) (ix_postings ix),
      ix_docs = (ix_docs ix)[d := None], ix_by_message = filter (\<lambda>(k, i). k \<noteq> doc_key e) (ix_by_message ix)\<rparr>"
    using e by (simp add: remove_doc_def doc_key_def)
  ultimately show ?thesis using assms unfolding index_ok_def by (simp del: split_paired_All set_filter)
qed (use assms in \<open>auto simp: remove_doc_def\<close>)

lemma docs_remove_doc: "ix_docs (remove_doc d ix) = (ix_docs ix)[d := None]"
proof (cases "d < length (ix_docs ix) \<and> ix_docs ix ! d \<noteq> None")
  case True
  then show ?thesis by (auto simp: remove_doc_def)
next
  case False
  then have "remove_doc d ix = ix" by (auto simp: remove_doc_def)
  moreover have "(ix_docs ix)[d := None] = ix_docs ix" using False by (metis list_update_beyond list_update_id not_less)
  ultimately show ?thesis by simp
qed

lemma length_remove_all: "length (ix_docs (fold remove_doc ds ix)) = length (ix_docs ix)"
  by (induction ds arbitrary: ix) (simp_all add: docs_remove_doc)

lemma docs_remove_all: "i < length (ix_docs ix) \<Longrightarrow>
    ix_docs (fold remove_doc ds ix) ! i = (if i \<in> set ds then None else ix_docs ix ! i)"
  by (induction ds arbitrary: ix) (auto simp: docs_remove_doc nth_list_update)

lemma remove_all_ok: "index_ok ix \<Longrightarrow> index_ok (fold remove_doc ds ix)"
  by (induction ds arbitrary: ix) (auto intro: remove_doc_ok)

lemma index_remove_thread_ok: "index_ok ix \<Longrightarrow> index_ok (index_remove_thread th ix)"
  by (simp add: index_remove_thread_def remove_all_ok)

lemma docs_remove_thread:
  assumes "index_ok ix"
  shows "ix_docs (index_remove_thread th ix) =
    map (\<lambda>x. case x of Some e \<Rightarrow> if de_thread_id e = th then None else Some e | None \<Rightarrow> None) (ix_docs ix)"
proof (rule nth_equalityI)
  let ?ds = "map snd (filter (\<lambda>((t, m), i). t = th) (ix_by_message ix))"
  have ids: "i \<in> set ?ds \<longleftrightarrow> i < length (ix_docs ix) \<and> (\<exists>e. ix_docs ix ! i = Some e \<and> de_thread_id e = th)" for i
  proof -
    have "i \<in> set ?ds \<longleftrightarrow> (\<exists>m. ((th, m), i) \<in> set (ix_by_message ix))" by force
    then show ?thesis using assms by (auto simp: index_ok_def doc_key_def)
  qed
  show "length (ix_docs (index_remove_thread th ix)) = length (map (\<lambda>x. case x of Some e \<Rightarrow> if de_thread_id e = th then None else Some e
      | None \<Rightarrow> None) (ix_docs ix))"
    by (simp add: index_remove_thread_def length_remove_all)
  fix i assume "i < length (ix_docs (index_remove_thread th ix))"
  then have i: "i < length (ix_docs ix)" by (simp add: index_remove_thread_def length_remove_all)
  have "ix_docs (index_remove_thread th ix) ! i = (if i \<in> set ?ds then None else ix_docs ix ! i)"
    using docs_remove_all[OF i, of ?ds] by (simp add: index_remove_thread_def)
  then show "ix_docs (index_remove_thread th ix) ! i = map (\<lambda>x. case x of Some e \<Rightarrow> if de_thread_id e = th then None else Some e
      | None \<Rightarrow> None) (ix_docs ix) ! i"
    unfolding ids using i by (auto split: option.split)
qed

lemma live_remove_thread:
  "index_ok ix \<Longrightarrow> live (index_remove_thread th ix) = filter (\<lambda>e. de_thread_id e \<noteq> th) (live ix)"
proof -
  have "List.map_filter id (map (\<lambda>x. case x of Some e \<Rightarrow> if de_thread_id e = th then None else Some e | None \<Rightarrow> None) os) =
    filter (\<lambda>e. de_thread_id e \<noteq> th) (List.map_filter id os)" for os
    by (induction os) (auto simp: List.map_filter_simps split: option.split)
  then show "index_ok ix \<Longrightarrow> live (index_remove_thread th ix) = filter (\<lambda>e. de_thread_id e \<noteq> th) (live ix)"
    by (simp add: live_def docs_remove_thread)
qed

lemma new_index_ok [simp]: "index_ok new_index" and live_new [simp]: "live new_index = []"
  by (auto simp: index_ok_def new_index_def postings_of_def fun_eq_iff live_def List.map_filter_simps)

lemma clear_is_new: "index_clear ix = new_index"
  by (simp add: index_clear_def new_index_def)

subsection \<open>Searching the index is scanning the messages\<close>

lemma intersect_filter:
  "sorted_wrt (<) acc \<Longrightarrow> sorted_wrt (<) other \<Longrightarrow> intersect_sorted acc other = filter (\<lambda>x. x \<in> set other) acc"
proof (induction acc other rule: intersect_sorted.induct)
  case (2 target acc other)
  let ?o = "dropWhile (\<lambda>x. x < target) other"
  have sorted: "sorted_wrt (<) ?o" "sorted_wrt (<) acc" "\<forall>x\<in>set acc. target < x"
    using 2(4,5) by (simp_all add: sorted_wrt_dropWhile)
  have keep: "x \<in> set other \<longleftrightarrow> x \<in> set ?o" if "target \<le> x" for x
  proof -
    have "x \<notin> set (takeWhile (\<lambda>x. x < target) other)" using that by (auto dest: set_takeWhileD)
    then show ?thesis by (metis Un_iff set_append takeWhile_dropWhile_id)
  qed
  then have acc: "filter (\<lambda>x. x \<in> set other) acc = filter (\<lambda>x. x \<in> set ?o) acc"
    using sorted(3) by (intro filter_cong) (auto simp: less_imp_le)
  show ?case
  proof (cases ?o)
    case Nil
    have "target \<notin> set other" "filter (\<lambda>x. x \<in> set other) acc = []" using keep[of target] acc Nil by simp_all
    then show ?thesis using 2(1)[OF Nil sorted(2)] Nil by (simp del: dropWhile_eq_Nil_conv)
  next
    case (Cons x rest)
    have rest: "\<forall>y\<in>set rest. x < y" "sorted_wrt (<) rest" using sorted(1) Cons by simp_all
    have "\<not> x < target" using hd_dropWhile[of "\<lambda>x. x < target" other] Cons by simp
    show ?thesis
    proof (cases "x = target")
      case True
      have "filter (\<lambda>y. y \<in> set rest) acc = filter (\<lambda>y. y \<in> set ?o) acc"
        using sorted(3) True Cons by (intro filter_cong) auto
      then show ?thesis using 2(2)[OF Cons True sorted(2) rest(2)] keep[of target] acc Cons True by simp
    next
      case False
      then have "target \<notin> set ?o" using Cons rest(1) \<open>\<not> x < target\<close> by auto
      then show ?thesis using 2(3)[OF Cons False sorted(2)] sorted(1) keep[of target] acc Cons False by simp
    qed
  qed
qed simp

lemma postings_sorted: "postings_of docs g = Some p \<Longrightarrow> sorted_wrt (<) p \<and> set p = {d. d < length docs \<and> holds_gram docs g d}"
  by (auto simp: postings_of_def Let_def sorted_wrt_filter split: if_splits)

lemma postings_None: "postings_of docs g = None \<Longrightarrow> d < length docs \<Longrightarrow> \<not> holds_gram docs g d"
  by (auto simp: postings_of_def Let_def filter_empty_conv split: if_splits)

lemma narrow_filter:
  assumes "sorted_wrt (<) acc" and "set acc \<subseteq> {..<length docs}"
  shows "narrow (postings_of docs) gs acc = filter (\<lambda>d. \<forall>g\<in>set gs. holds_gram docs g d) acc"
  using assms
proof (induction gs arbitrary: acc)
  case (Cons g gs)
  show ?case
  proof (cases "acc = []")
    case ne: False
    show ?thesis
    proof (cases "postings_of docs g")
      case None
      have "\<forall>d\<in>set acc. \<not> holds_gram docs g d" using postings_None[OF None] Cons.prems(2) by auto
      then show ?thesis using None ne by (auto simp: filter_empty_conv)
    next
      case (Some p)
      note p = postings_sorted[OF Some]
      have "intersect_sorted acc p = filter (\<lambda>d. holds_gram docs g d) acc"
        unfolding intersect_filter[OF Cons.prems(1) p[THEN conjunct1]]
        using Cons.prems(2) p by (intro filter_cong) auto
      then show ?thesis using Cons.IH[of "filter (holds_gram docs g) acc"] Cons.prems ne Some
        by (auto simp: sorted_wrt_filter filter_filter)
    qed
  qed simp
qed simp

lemma candidates_exact:
  "candidates_for_term (postings_of docs) t =
    (if ngrams t = [] then None else Some (filter (\<lambda>d. \<forall>g\<in>set (ngrams t). holds_gram docs g d) [0..<length docs]))"
proof (cases "ngrams t")
  case Nil
  then show ?thesis by (simp add: candidates_for_term_def)
next
  case (Cons g gs)
  show ?thesis
  proof (cases "postings_of docs g")
    case None
    then show ?thesis using Cons postings_None[OF None] by (auto simp: candidates_for_term_def filter_empty_conv)
  next
    case (Some p)
    note p = postings_sorted[OF Some]
    have eq: "p = filter (holds_gram docs g) [0..<length docs]" using Some by (auto simp: postings_of_def Let_def split: if_splits)
    have "narrow (postings_of docs) gs p = filter (\<lambda>d. \<forall>g\<in>set gs. holds_gram docs g d) p"
      using p by (intro narrow_filter) auto
    then show ?thesis using Some Cons unfolding eq by (auto simp: candidates_for_term_def filter_filter intro!: filter_cong)
  qed
qed


definition matches :: "inverted_index \<Rightarrow> string option \<Rightarrow> utext \<Rightarrow> nat \<Rightarrow> bool" where
  "matches ix exclude t d \<longleftrightarrow>
    (case ix_docs ix ! d of None \<Rightarrow> False | Some e \<Rightarrow> \<not> excluded exclude e \<and> sublist t (de_content_normalized e))"

lemma count_hit_apply:
  "count_hit ix ex t d counts =
    (if matches ix ex t d then counts(d \<mapsto> (case counts d of Some n \<Rightarrow> n | None \<Rightarrow> 0) + 1) else counts)"
  by (auto simp: count_hit_def matches_def split: option.split)

lemma count_hits_of_term:
  "distinct ds \<Longrightarrow> fold (count_hit ix ex t) ds counts d =
    (if d \<in> set ds \<and> matches ix ex t d then Some ((case counts d of Some n \<Rightarrow> n | None \<Rightarrow> 0) + 1) else counts d)"
  by (induction ds arbitrary: counts) (auto simp: count_hit_apply)

lemma hit_counts_found:
  assumes "\<forall>(t, ds)\<in>set tds. distinct ds"
  shows "fold (\<lambda>(t, ds). fold (count_hit ix ex t) ds) tds counts d =
    (let n = length (filter (\<lambda>(t, ds). d \<in> set ds \<and> matches ix ex t d) tds) in
     if n = 0 then counts d else Some ((case counts d of Some n \<Rightarrow> n | None \<Rightarrow> 0) + n))"
  using assms
proof (induction tds arbitrary: counts)
  case (Cons td tds)
  obtain t ds where td: "td = (t, ds)" by (cases td)
  have ds: "distinct ds" using Cons.prems td by simp
  show ?case using Cons.IH Cons.prems
    by (simp add: td count_hits_of_term[OF ds] Let_def split: option.split)
qed simp

lemma candidates_complete:
  assumes "index_ok ix" and "d < length (ix_docs ix)" and "matches ix ex t d"
    and "candidates_for_term (ix_postings ix) t = Some ds"
  shows "d \<in> set ds"
proof -
  obtain e where e: "ix_docs ix ! d = Some e" "sublist t (de_content_normalized e)"
    using assms(3) by (auto simp: matches_def split: option.splits)
  have "\<forall>g\<in>set (ngrams t). holds_gram (ix_docs ix) g d" using ngrams_mono[OF e(2)] e(1) by (auto simp: holds_gram_def)
  then show ?thesis using assms(1,2,4) by (auto simp: index_ok_def candidates_exact split: if_splits)
qed

lemma gathered:
  assumes "index_ok ix" and "gather_candidates ix ts = Some per_term"
  shows "length per_term = length ts \<and> (\<forall>(t, ds)\<in>set (zip ts per_term). distinct ds \<and>
    (\<forall>d<length (ix_docs ix). matches ix ex t d \<longrightarrow> d \<in> set ds))"
  using assms(2)
proof (induction ts arbitrary: per_term)
  case (Cons t ts)
  obtain v rest where v: "per_term = v # rest" "gather_candidates ix ts = Some rest"
    "candidates_for_term (ix_postings ix) t = Some v \<or> candidates_for_term (ix_postings ix) t = None \<and> v = live_ids ix"
    using Cons.prems by (auto split: option.splits if_splits)
  have "distinct v \<and> (\<forall>d<length (ix_docs ix). matches ix ex t d \<longrightarrow> d \<in> set v)"
    using v(3)
  proof
    assume c: "candidates_for_term (ix_postings ix) t = Some v"
    have "distinct v" using c assms(1) by (auto simp: index_ok_def candidates_exact split: if_splits)
    then show ?thesis using candidates_complete[OF assms(1) _ _ c] by blast
  qed (auto simp: live_ids_def matches_def split: option.splits)
  then show ?case using Cons.IH[OF v(2)] v(1) by simp
qed simp

lemma filter_zip_fst:
  "length xs = length ys \<Longrightarrow> (\<forall>(x, y)\<in>set (zip xs ys). Q x y \<longleftrightarrow> P x) \<Longrightarrow>
    length (filter (\<lambda>(x, y). Q x y) (zip xs ys)) = length (filter P xs)"
  by (induction xs ys rule: list_induct2) auto

lemma hit_counts_exact:
  assumes "index_ok ix" and "gather_candidates ix ts = Some per_term" and "d < length (ix_docs ix)"
  shows "hit_counts ix ex (zip ts per_term) d =
    (let n = length (filter (\<lambda>t. matches ix ex t d) ts) in if n = 0 then None else Some n)"
proof -
  note g = gathered[OF assms(1,2), of ex]
  have "length (filter (\<lambda>(t, ds). d \<in> set ds \<and> matches ix ex t d) (zip ts per_term)) = length (filter (\<lambda>t. matches ix ex t d) ts)"
    using g assms(3) by (intro filter_zip_fst) auto
  moreover have "\<forall>(t, ds)\<in>set (zip ts per_term). distinct ds" using g by auto
  ultimately show ?thesis by (simp add: hit_counts_def hit_counts_found Let_def)
qed

text \<open>What a scan of the messages finds: every one with a term in its normalised text, and how many terms.\<close>

definition scan_hits :: "utext list \<Rightarrow> string option \<Rightarrow> doc_entry list \<Rightarrow> (doc_entry \<times> nat) list" where
  "scan_hits terms exclude es =
    filter (\<lambda>(e, n). \<not> excluded exclude e \<and> n \<noteq> 0)
      (map (\<lambda>e. (e, length (filter (\<lambda>t. sublist t (de_content_normalized e)) terms))) es)"

definition better_hit :: "doc_entry \<times> nat \<Rightarrow> doc_entry \<times> nat \<Rightarrow> bool" where
  "better_hit x y \<longleftrightarrow> snd y < snd x \<or> snd y = snd x \<and> de_created_at_ms (fst y) \<le> de_created_at_ms (fst x)"

lemma scan_no_terms: "scan_hits [] exclude es = []"
  by (simp add: scan_hits_def filter_empty_conv)

lemma live_by_ids: "live ix = map (\<lambda>d. the (ix_docs ix ! d)) (live_ids ix)"
proof -
  have "List.map_filter id (map f ds) = map (\<lambda>d. the (f d)) (filter (\<lambda>d. f d \<noteq> None) ds)" for f :: "nat \<Rightarrow> doc_entry option" and ds
    by (induction ds) (auto simp: List.map_filter_simps)
  from this[of "nth (ix_docs ix)" "[0..<length (ix_docs ix)]"] show ?thesis by (simp add: live_def live_ids_def map_nth)
qed

lemma scan_by_ids:
  "scan_hits terms ex (live ix) =
    map (\<lambda>d. (the (ix_docs ix ! d), length (filter (\<lambda>t. matches ix ex t d) terms)))
      (filter (\<lambda>d. length (filter (\<lambda>t. matches ix ex t d) terms) \<noteq> 0) [0..<length (ix_docs ix)])"
proof -
  let ?m = "\<lambda>d. length (filter (\<lambda>t. matches ix ex t d) terms)"
  let ?s = "\<lambda>d. length (filter (\<lambda>t. sublist t (de_content_normalized (the (ix_docs ix ! d)))) terms)"
  have eq: "?m d = (if excluded ex (the (ix_docs ix ! d)) then 0 else ?s d)" if "ix_docs ix ! d \<noteq> None" for d
    using that by (auto simp: matches_def)
  have none: "?m d = 0" if "ix_docs ix ! d = None" for d using that by (simp add: matches_def)
  have "scan_hits terms ex (live ix) = map (\<lambda>d. (the (ix_docs ix ! d), ?s d))
      (filter (\<lambda>d. \<not> excluded ex (the (ix_docs ix ! d)) \<and> ?s d \<noteq> 0) (live_ids ix))"
    by (simp add: scan_hits_def live_by_ids filter_map o_def)
  also have "filter (\<lambda>d. \<not> excluded ex (the (ix_docs ix ! d)) \<and> ?s d \<noteq> 0) (live_ids ix) = filter (\<lambda>d. ?m d \<noteq> 0) [0..<length (ix_docs ix)]"
    unfolding live_ids_def filter_filter
  proof (rule filter_cong[OF refl])
    fix d
    show "(ix_docs ix ! d \<noteq> None \<and> \<not> excluded ex (the (ix_docs ix ! d)) \<and> ?s d \<noteq> 0) = (?m d \<noteq> 0)"
      using eq[of d] none[of d] by (cases "ix_docs ix ! d = None") auto
  qed
  also have "map (\<lambda>d. (the (ix_docs ix ! d), ?s d)) (filter (\<lambda>d. ?m d \<noteq> 0) [0..<length (ix_docs ix)]) =
      map (\<lambda>d. (the (ix_docs ix ! d), ?m d)) (filter (\<lambda>d. ?m d \<noteq> 0) [0..<length (ix_docs ix)])"
  proof (rule map_cong[OF refl])
    fix d assume "d \<in> set (filter (\<lambda>d. ?m d \<noteq> 0) [0..<length (ix_docs ix)])"
    then have "?m d \<noteq> 0" by simp
    then show "(the (ix_docs ix ! d), ?s d) = (the (ix_docs ix ! d), ?m d)" using eq[of d] none[of d] by (metis (full_types))
  qed
  finally show ?thesis .
qed

lemma ranked_hits:
  "\<exists>L. mset L = mset (map (\<lambda>(d, n). (the (ix_docs ix ! d), n)) hits) \<and> sorted_wrt better_hit L \<and>
    rank_hits ix limit total_terms hits = map (\<lambda>(e, n). hit_of e (of_nat n / of_nat total_terms)) (take limit L)"
proof -
  define R where "R = sort_key (\<lambda>(d :: nat, matched :: nat, ms). (- int matched, - ms))
    (map (\<lambda>(d, matched). (d, matched, de_created_at_ms (the (ix_docs ix ! d)))) hits)"
  define L where "L = map (\<lambda>(d, n, ms :: int). (the (ix_docs ix ! d), n)) R"
  have R: "set R = (\<lambda>(d, matched). (d, matched, de_created_at_ms (the (ix_docs ix ! d)))) ` set hits" by (simp add: R_def)
  have "mset L = mset (map (\<lambda>(d, n). (the (ix_docs ix ! d), n)) hits)"
    by (simp add: L_def R_def image_mset.compositionality o_def case_prod_beta')
  moreover have "sorted_wrt better_hit L"
  proof -
    have "sorted (map (\<lambda>(d, matched, ms). (- int matched, - ms)) R)" unfolding R_def by (rule sorted_sort_key)
    then have "sorted_wrt (\<lambda>x y. (\<lambda>(d, matched, ms). (- int matched, - ms)) x \<le> (\<lambda>(d, matched, ms). (- int matched, - ms)) y) R"
      by (simp add: sorted_map)
    then have "sorted_wrt (\<lambda>x y. better_hit ((\<lambda>(d, n, ms). (the (ix_docs ix ! d), n)) x) ((\<lambda>(d, n, ms). (the (ix_docs ix ! d), n)) y)) R"
      by (rule sorted_wrt_mono_rel[rotated]) (auto simp: R better_hit_def less_eq_prod_def)
    then show ?thesis by (simp add: L_def sorted_wrt_map)
  qed
  moreover have "rank_hits ix limit total_terms hits = map (\<lambda>(e, n). hit_of e (of_nat n / of_nat total_terms)) (take limit L)"
    by (simp add: rank_hits_def R_def[symmetric] L_def take_map o_def case_prod_beta)
  ultimately show ?thesis by blast
qed

lemma small_index_gathers:
  assumes "index_ok ix" and "length (ix_docs ix) \<le> LARGE_CANDIDATE_LIMIT"
  shows "gather_candidates ix ts \<noteq> None"
proof (induction ts)
  case (Cons t ts)
  have "length v \<le> LARGE_CANDIDATE_LIMIT" if "candidates_for_term (ix_postings ix) t = Some v" for v
  proof -
    have "length v \<le> length [0..<length (ix_docs ix)]"
      using that assms(1) by (auto simp: index_ok_def candidates_exact simp del: length_upt split: if_splits)
    then show ?thesis using assms(2) by simp
  qed
  then show ?case using Cons by (fastforce split: option.splits)
qed simp

lemma search_scan:
  assumes "index_ok ix" and "\<forall>xs. mset (xe_hash_order env xs) = mset xs"
    and "gather_candidates ix (search_terms env query) \<noteq> None"
  shows "\<exists>L. mset L = mset (scan_hits (search_terms env query) exclude (live ix)) \<and> sorted_wrt better_hit L \<and>
    index_search env query limit exclude ix =
      map (\<lambda>(e, n). hit_of e (of_nat n / of_nat (length (search_terms env query)))) (take limit L)"
proof -
  let ?ts = "search_terms env query"
  obtain per_term where p: "gather_candidates ix ?ts = Some per_term" using assms(3) by auto
  let ?c = "hit_counts ix exclude (zip ?ts per_term)"
  let ?m = "\<lambda>d. length (filter (\<lambda>t. matches ix exclude t d) ?ts)"
  let ?ids = "filter (\<lambda>d. ?m d \<noteq> 0) [0..<length (ix_docs ix)]"
  have c: "?c d = (if ?m d = 0 then None else Some (?m d))" if "d < length (ix_docs ix)" for d
    using hit_counts_exact[OF assms(1) p that] by (simp add: Let_def)
  have ids: "filter (\<lambda>d. ?c d \<noteq> None) [0..<length (ix_docs ix)] = ?ids" by (rule filter_cong) (auto simp: c)
  let ?hits = "map (\<lambda>d. (d, the (?c d))) (xe_hash_order env ?ids)"
  have order: "mset (xe_hash_order env ?ids) = mset ?ids" using assms(2) by blast
  have "mset (map (\<lambda>(d, n). (the (ix_docs ix ! d), n)) ?hits) =
      image_mset (\<lambda>d. (the (ix_docs ix ! d), the (?c d))) (mset (xe_hash_order env ?ids))"
    by (simp add: image_mset.compositionality o_def del: mset_filter mset_upt)
  also have "\<dots> = image_mset (\<lambda>d. (the (ix_docs ix ! d), the (?c d))) (mset ?ids)" by (simp only: order)
  also have "\<dots> = image_mset (\<lambda>d. (the (ix_docs ix ! d), ?m d)) (mset ?ids)"
    by (rule image_mset_cong) (auto simp: c)
  also have "\<dots> = mset (scan_hits ?ts exclude (live ix))" unfolding scan_by_ids by simp
  finally have scan: "mset (map (\<lambda>(d, n). (the (ix_docs ix ! d), n)) ?hits) = mset (scan_hits ?ts exclude (live ix))" .
  note r = ranked_hits[of ix ?hits limit "length ?ts"]
  show ?thesis
  proof (cases "?ts = [] \<or> limit = 0")
    case True
    obtain L where L: "mset L = mset (scan_hits ?ts exclude (live ix))" "sorted_wrt better_hit L"
      using r unfolding scan by (elim exE conjE) (rule that)
    have "L = []" if "?ts = []" using L(1) that scan_no_terms by simp
    moreover have "index_search env query limit exclude ix = []" using True by (auto simp: index_search_def)
    ultimately show ?thesis using L True by (intro exI[of _ L]) auto
  next
    case False
    then have "index_search env query limit exclude ix = rank_hits ix limit (length ?ts)
        (map (\<lambda>d. (d, the (?c d))) (xe_hash_order env (filter (\<lambda>d. ?c d \<noteq> None) [0..<length (ix_docs ix)])))"
      by (simp add: index_search_def p Let_def)
    then show ?thesis using r unfolding scan ids by simp
  qed
qed


text \<open>
  C39: Searching the index gives what scanning every message gives: with an index in order and no term with
  more than 10,000 candidates, the hits are the messages outside the excluded thread that hold a term of the query, each scored by
  the share of the terms it holds, most terms first, newest first among equals, and no more than the limit.
\<close>

theorem search_is_exact_scan:
  assumes "index_ok ix" and "\<forall>xs. mset (xe_hash_order env xs) = mset xs"
    and "gather_candidates ix (search_terms env query) \<noteq> None"
  shows "\<exists>L. mset L = mset (scan_hits (search_terms env query) exclude (live ix)) \<and> sorted_wrt better_hit L \<and>
    index_search env query limit exclude ix =
      map (\<lambda>(e, n). hit_of e (of_nat n / of_nat (length (search_terms env query)))) (take limit L)"
  using assms by (rule search_scan)

subsection \<open>Witness\<close>

text \<open>Two threads; ``cat'' is in both messages, once written with diacritics, and ``dog'' in the second.\<close>

definition toy_index_env :: index_env where
  "toy_index_env = \<lparr>xe_lower = (\<lambda>c. if 65 \<le> c \<and> c \<le> 90 then [c + 32] else [c]), xe_millis = (\<lambda>s. Some (int (length s))),
    xe_hash_order = rev\<rparr>"

definition toy_message :: "string \<Rightarrow> utext \<Rightarrow> string \<Rightarrow> conversation_message" where
  "toy_message i content created = \<lparr>cv_id = i, cv_content = content, cv_type = ''text'', cv_extra_metadata = ''null'',
    cv_sender = ''user'', cv_created_at = created\<rparr>"

definition toy_index :: inverted_index where
  "toy_index = index_insert toy_index_env ''t2'' (toy_message ''m'' (utext_of ''Dog and cat'') ''z'')
    (index_insert toy_index_env ''t1'' (toy_message ''m'' [0x43, 0xE1, 0x54, 0x21] ''zz'') new_index)"

lemma toy_index_ok: "index_ok toy_index"
  by (simp add: toy_index_def index_insert_ok)

lemma ascii_not_cjk: "c < 128 \<Longrightarrow> \<not> is_cjk c"
  by (simp add: is_cjk_def in_ranges_def)

lemma normalize_a_acute: "normalize_char 225 = [97]"
  by (simp add: normalize_char_def is_combining_mark_def in_ranges_def fold_non_decomposing_def folds_def
      strip_latin_diacritic_def diacritics_def)

lemmas toy_text_simps = utext_of_def normalize_def ascii_kept normalize_a_acute ascii_not_cjk blen_def utf8_len_def
  MIN_TERM_BYTES_def run_ngrams_def gram_size_def

lemma toy_terms: "search_terms toy_index_env (utext_of ''DOG is cat'') = [[100, 111, 103], [99, 97, 116]]"
  by (simp add: search_terms_def toy_index_env_def split_words_def is_white_def List.map_filter_simps Let_def toy_text_simps)


lemma toy_live:
  "live toy_index =
    [doc_of toy_index_env ''t1'' (toy_message ''m'' [0x43, 0xE1, 0x54, 0x21] ''zz''),
     doc_of toy_index_env ''t2'' (toy_message ''m'' (utext_of ''Dog and cat'') ''z'')]"
  by (simp add: toy_index_def live_insert index_insert_ok doc_key_def doc_of_def toy_message_def)

lemma toy_scan:
  "map (\<lambda>(e, n). (de_thread_id e, n)) (scan_hits [[100, 111, 103], [99, 97, 116]] None (live toy_index)) =
    [(''t1'', 1), (''t2'', 2)]"
  by (simp add: toy_live scan_hits_def excluded_def doc_of_def toy_message_def toy_index_env_def toy_text_simps sublist_code)

theorem search_is_exact_scan_witness:
  "\<exists>L. mset L = mset (scan_hits [[100, 111, 103], [99, 97, 116]] None (live toy_index)) \<and> sorted_wrt better_hit L \<and>
    index_search toy_index_env (utext_of ''DOG is cat'') 5 None toy_index =
      map (\<lambda>(e, n). hit_of e (of_nat n / 2)) (take 5 L) \<and>
    map (\<lambda>(e, n). (de_thread_id e, n)) (scan_hits [[100, 111, 103], [99, 97, 116]] None (live toy_index)) =
      [(''t1'', 1), (''t2'', 2)]"
proof -
  have hash: "\<forall>xs. mset (xe_hash_order toy_index_env xs) = mset xs" by (simp add: toy_index_env_def)
  have "length (ix_docs toy_index) \<le> LARGE_CANDIDATE_LIMIT"
    by (simp add: toy_index_def index_insert_def Let_def new_index_def LARGE_CANDIDATE_LIMIT_def)
  then have g: "gather_candidates toy_index (search_terms toy_index_env (utext_of ''DOG is cat'')) \<noteq> None"
    by (rule small_index_gathers[OF toy_index_ok])
  have two: "of_nat (length [[100, 111, 103 :: nat], [99, 97, 116]]) = (2 :: rat)" by simp
  note found = search_is_exact_scan[OF toy_index_ok hash g, of None 5, unfolded toy_terms two]
  then obtain L where "mset L = mset (scan_hits [[100, 111, 103], [99, 97, 116]] None (live toy_index))" "sorted_wrt better_hit L"
    "index_search toy_index_env (utext_of ''DOG is cat'') 5 None toy_index = map (\<lambda>(e, n). hit_of e (of_nat n / 2)) (take 5 L)"
    by (elim exE conjE) (rule that)
  then show ?thesis using toy_scan by (intro exI[of _ L]) blast
qed

subsection \<open>A term that folds away\<close>

text \<open>
  The length test is on the word as typed or on its folded form. A word of combining marks is long enough
  as typed and folds to nothing, which every message contains.
\<close>

theorem mark_only_term_matches_all:
  assumes "is_combining_mark c" and "xe_lower env c = [c]" and "2048 \<le> c"
  shows "[] \<in> set (search_terms env [c]) \<and>
    (exclude \<noteq> Some (de_thread_id e) \<longrightarrow> (e, 1) \<in> set (scan_hits [[]] exclude [e]))"
proof -
  have "\<not> is_white c" using assms(1,3) by (auto simp: is_combining_mark_def in_ranges_def is_white_def)
  then have "split_words [c] = [[c]]" by (simp add: split_words_def split_if_word)
  then show ?thesis using assms
    by (auto simp: search_terms_def List.map_filter_simps normalize_def normalize_char_def blen_def utf8_len_def MIN_TERM_BYTES_def
        scan_hits_def excluded_def)
qed

end
