(* ===== verification/Conversation_Store.thy ===== *)
theory Conversation_Store
  imports Inverted_Index
begin

section \<open>The conversation store (src/memory/conversations/store.rs, store_ops.rs, store_index.rs)\<close>

text \<open>
  A workspace keeps \<^verbatim>\<open>threads.jsonl\<close>, an append-only log folded into the metadata of its threads, and one
  JSONL transcript per thread under a file named by the hex of the thread's id. Next to the files the process keeps a search
  index of the messages and, while that index is being built, a journal of the appends made meanwhile. Operations
  here run under their locks and are atomic but for the append, whose two halves are definitions of their own. JSON
  (serde), and what a file operation reports, are parameters; a failing file operation leaves the file as it was.
\<close>

type_synonym line = utext

record create_thread =
  cr_id :: string
  cr_title :: string
  cr_created_at :: string
  cr_parent_thread_id :: "string option"
  cr_labels :: "string list option"
  cr_personality_id :: "string option"

record message_patch =
  mp_extra_metadata :: "string option"

record conversation_thread =
  ct_id :: string
  ct_title :: string
  ct_chat_id :: "int option"
  ct_is_active :: bool
  ct_message_count :: nat
  ct_last_message_at :: string
  ct_created_at :: string
  ct_parent_thread_id :: "string option"
  ct_labels :: "string list"
  ct_personality_id :: "string option"

datatype thread_log_entry =
    Upsert string string string string "string option" "string list option" "string option"
  | Delete_Thread string string
  | Message_Appended string string
  | Stats string nat string

record thread_index_entry =
  ti_title :: string
  ti_created_at :: string
  ti_parent_thread_id :: "string option"
  ti_labels :: "string list"
  ti_message_count :: "nat option"
  ti_last_message_at :: "string option"
  ti_personality_id :: "string option"

record purge_stats =
  pu_thread_count :: nat
  pu_message_count :: nat

record conv_env =
  ve_show_message :: "conversation_message \<Rightarrow> line"
  ve_parse_message :: "line \<Rightarrow> conversation_message option"
  ve_show_entry :: "thread_log_entry \<Rightarrow> line"
  ve_parse_entry :: "line \<Rightarrow> thread_log_entry option"
  ve_quote :: "string \<Rightarrow> utext"
  ve_index :: index_env

text \<open>What the file system answers during one operation: for each path the error of a call on it, if it fails.\<close>

record file_io =
  fi_root :: "string option"
  fi_read :: "string \<Rightarrow> string option"
  fi_append :: "string \<Rightarrow> string option"
  fi_rewrite :: "string \<Rightarrow> string option"
  fi_remove :: "string \<Rightarrow> string option"
  fi_remove_dir :: "string option"

record conv_state =
  vs_files :: "string \<rightharpoonup> line list"
  vs_cache :: "inverted_index option"
  vs_pending :: "(string \<times> conversation_message) list option"

type_synonym 'a conv_op = "conv_state \<Rightarrow> (string + 'a) \<times> conv_state"

definition op_bind :: "'a conv_op \<Rightarrow> ('a \<Rightarrow> 'b conv_op) \<Rightarrow> 'b conv_op" where
  "op_bind m f s = (case m s of (Inl e, s') \<Rightarrow> (Inl e, s') | (Inr a, s') \<Rightarrow> f a s')"

definition op_return :: "'a \<Rightarrow> 'a conv_op" where "op_return a s = (Inr a, s)"
definition op_fail :: "string \<Rightarrow> 'a conv_op" where "op_fail e s = (Inl e, s)"
definition op_get :: "(conv_state \<Rightarrow> string + 'a) \<Rightarrow> 'a conv_op" where "op_get f s = (f s, s)"
definition op_modify :: "(conv_state \<Rightarrow> conv_state) \<Rightarrow> unit conv_op" where "op_modify f s = (Inr (), f s)"

subsection \<open>Paths\<close>

definition THREADS_FILENAME :: string where "THREADS_FILENAME = ''threads.jsonl''"
definition THREAD_MESSAGES_DIR :: string where "THREAD_MESSAGES_DIR = ''threads''"

definition hex_digit :: "nat \<Rightarrow> char" where
  "hex_digit n = ''0123456789abcdef'' ! n"

definition hex_encode :: "string \<Rightarrow> string" where
  "hex_encode bytes = concat (map (\<lambda>b. [hex_digit (of_char b div 16), hex_digit (of_char b mod 16)]) bytes)"

definition thread_messages_path :: "string \<Rightarrow> string" where
  "thread_messages_path thread_id = THREAD_MESSAGES_DIR @ ''/'' @ hex_encode thread_id @ ''.jsonl''"

subsection \<open>JSONL files\<close>

definition read_jsonl :: "file_io \<Rightarrow> (line \<Rightarrow> 'a option) \<Rightarrow> string \<Rightarrow> conv_state \<Rightarrow> string + 'a list" where
  "read_jsonl io parse path s =
    (case vs_files s path of
       None \<Rightarrow> Inr []
     | Some ls \<Rightarrow>
        (case fi_read io path of
           Some e \<Rightarrow> Inl e
         | None \<Rightarrow> Inr (List.map_filter (\<lambda>l. let trimmed = trim l in if trimmed = [] then None else parse trimmed) ls)))"

definition find_message_by_id :: "file_io \<Rightarrow> conv_env \<Rightarrow> string \<Rightarrow> string \<Rightarrow> conv_state \<Rightarrow> string + conversation_message option" where
  "find_message_by_id io env path i s =
    (case vs_files s path of
       None \<Rightarrow> Inr None
     | Some ls \<Rightarrow>
        (case fi_read io path of
           Some e \<Rightarrow> Inl e
         | None \<Rightarrow> Inr (List.find (\<lambda>m. cv_id m = i)
             (List.map_filter (\<lambda>l. if sublist (ve_quote env i) l then ve_parse_message env l else None) ls))))"

definition append_jsonl :: "file_io \<Rightarrow> string \<Rightarrow> line \<Rightarrow> unit conv_op" where
  "append_jsonl io path l s =
    (case fi_append io path of
       Some e \<Rightarrow> (Inl e, s)
     | None \<Rightarrow> (Inr (), s\<lparr>vs_files := (vs_files s)(path \<mapsto> (case vs_files s path of Some ls \<Rightarrow> ls | None \<Rightarrow> []) @ [l])\<rparr>))"

definition rewrite_jsonl :: "file_io \<Rightarrow> string \<Rightarrow> line list \<Rightarrow> unit conv_op" where
  "rewrite_jsonl io path ls s =
    (case fi_rewrite io path of Some e \<Rightarrow> (Inl e, s) | None \<Rightarrow> (Inr (), s\<lparr>vs_files := (vs_files s)(path \<mapsto> ls)\<rparr>))"

definition ensure_root :: "file_io \<Rightarrow> unit conv_op" where
  "ensure_root io s =
    (case fi_root io of
       Some e \<Rightarrow> (Inl e, s)
     | None \<Rightarrow> (Inr (), if vs_files s THREADS_FILENAME = None then s\<lparr>vs_files := (vs_files s)(THREADS_FILENAME \<mapsto> [])\<rparr> else s))"

definition log_append :: "file_io \<Rightarrow> conv_env \<Rightarrow> thread_log_entry \<Rightarrow> unit conv_op" where
  "log_append io env e = append_jsonl io THREADS_FILENAME (ve_show_entry env e)"

subsection \<open>Labels and the fold of the log\<close>

definition infer_labels :: "string \<Rightarrow> string list" where
  "infer_labels thread_id =
    (if thread_id = ''proactive:morning_briefing'' then [''briefing'']
     else if take 10 thread_id = ''proactive:'' then [''notification'']
     else [''general''])"

definition canonical_label :: "string \<Rightarrow> string" where
  "canonical_label label =
    (if label = ''work'' then ''general''
     else if label = ''from_reflection'' \<or> label = ''subconscious_tick'' then ''subconscious''
     else if label = ''agent-task'' \<or> label = ''worker'' then ''tasks''
     else label)"

definition normalize_labels :: "string list \<Rightarrow> string list" where
  "normalize_labels labels =
    fold (\<lambda>label normalized. let n = canonical_label label in if n \<in> set normalized then normalized else normalized @ [n]) labels []"

text \<open>\<^verbatim>\<open>BTreeMap\<close>: an association list with ascending keys.\<close>

type_synonym thread_index = "(string \<times> thread_index_entry) list"

definition bt_put :: "string \<Rightarrow> 'v \<Rightarrow> (string \<times> 'v) list \<Rightarrow> (string \<times> 'v) list" where
  "bt_put k v m = insort_key fst (k, v) (filter (\<lambda>(k', w). k' \<noteq> k) m)"

definition bt_remove :: "string \<Rightarrow> (string \<times> 'v) list \<Rightarrow> (string \<times> 'v) list" where
  "bt_remove k m = filter (\<lambda>(k', w). k' \<noteq> k) m"

definition or_else :: "'a option \<Rightarrow> 'a option \<Rightarrow> 'a option" where
  "or_else a b = (case a of Some x \<Rightarrow> Some x | None \<Rightarrow> b)"

fun fold_entry :: "thread_log_entry \<Rightarrow> thread_index \<Rightarrow> thread_index" where
  "fold_entry (Upsert thread_id title created_at updated_at parent labels personality) index =
    bt_put thread_id
      (case map_of index thread_id of
         Some existing \<Rightarrow>
           \<lparr>ti_title = title, ti_created_at = ti_created_at existing,
            ti_parent_thread_id = or_else parent (ti_parent_thread_id existing),
            ti_labels = (case labels of Some ls \<Rightarrow> normalize_labels ls | None \<Rightarrow> ti_labels existing),
            ti_message_count = ti_message_count existing, ti_last_message_at = ti_last_message_at existing,
            ti_personality_id = or_else personality (ti_personality_id existing)\<rparr>
       | None \<Rightarrow>
           \<lparr>ti_title = title, ti_created_at = created_at, ti_parent_thread_id = parent,
            ti_labels = (case labels of Some ls \<Rightarrow> normalize_labels ls | None \<Rightarrow> infer_labels thread_id),
            ti_message_count = None, ti_last_message_at = None, ti_personality_id = personality\<rparr>) index"
| "fold_entry (Delete_Thread thread_id deleted_at) index = bt_remove thread_id index"
| "fold_entry (Message_Appended thread_id last_message_at) index =
    (case map_of index thread_id of
       Some entry \<Rightarrow> bt_put thread_id
         (entry\<lparr>ti_message_count := map_option Suc (ti_message_count entry), ti_last_message_at := Some last_message_at\<rparr>) index
     | None \<Rightarrow> index)"
| "fold_entry (Stats thread_id message_count last_message_at) index =
    (case map_of index thread_id of
       Some entry \<Rightarrow> bt_put thread_id
         (entry\<lparr>ti_message_count := Some message_count, ti_last_message_at := Some last_message_at\<rparr>) index
     | None \<Rightarrow> index)"

definition thread_index_of :: "file_io \<Rightarrow> conv_env \<Rightarrow> thread_index conv_op" where
  "thread_index_of io env =
    op_bind (ensure_root io) (\<lambda>_.
      op_get (\<lambda>s. map_sum id (\<lambda>es. fold fold_entry es []) (read_jsonl io (ve_parse_entry env) THREADS_FILENAME s)))"

definition thread_exists :: "file_io \<Rightarrow> conv_env \<Rightarrow> string \<Rightarrow> bool conv_op" where
  "thread_exists io env thread_id = op_bind (thread_index_of io env) (\<lambda>index. op_return (map_of index thread_id \<noteq> None))"

subsection \<open>Summaries\<close>

definition read_messages :: "file_io \<Rightarrow> conv_env \<Rightarrow> string \<Rightarrow> conv_state \<Rightarrow> string + conversation_message list" where
  "read_messages io env thread_id = read_jsonl io (ve_parse_message env) (thread_messages_path thread_id)"

definition measure_messages :: "file_io \<Rightarrow> conv_env \<Rightarrow> string \<Rightarrow> conv_state \<Rightarrow> string + (nat \<times> string option)" where
  "measure_messages io env thread_id s =
    map_sum id (\<lambda>ms. (length ms, if ms = [] then None else Some (cv_created_at (last ms)))) (read_messages io env thread_id s)"

definition thread_of_entry :: "string \<Rightarrow> thread_index_entry \<Rightarrow> nat \<Rightarrow> string \<Rightarrow> conversation_thread" where
  "thread_of_entry thread_id entry n last_at =
    \<lparr>ct_id = thread_id, ct_title = ti_title entry, ct_chat_id = None, ct_is_active = True, ct_message_count = n,
     ct_last_message_at = last_at, ct_created_at = ti_created_at entry, ct_parent_thread_id = ti_parent_thread_id entry,
     ct_labels = normalize_labels (ti_labels entry), ct_personality_id = ti_personality_id entry\<rparr>"

definition or_default :: "'a option \<Rightarrow> 'a \<Rightarrow> 'a" where
  "or_default a d = (case a of Some x \<Rightarrow> x | None \<Rightarrow> d)"

definition threads_from_index :: "conv_env \<Rightarrow> thread_index \<Rightarrow> conversation_thread list" where
  "threads_from_index env index =
    sort_key (\<lambda>t. (- created_ms (ve_index env) (ct_last_message_at t), - created_ms (ve_index env) (ct_created_at t)))
      (map (\<lambda>(thread_id, entry). thread_of_entry thread_id entry (or_default (ti_message_count entry) 0)
          (or_default (ti_last_message_at entry) (ti_created_at entry))) index)"

definition summary_stats :: "file_io \<Rightarrow> conv_env \<Rightarrow> string \<Rightarrow> thread_index_entry \<Rightarrow> conv_state \<Rightarrow> nat \<times> string" where
  "summary_stats io env thread_id entry s =
    (case (ti_message_count entry, ti_last_message_at entry) of
       (Some n, Some last_at) \<Rightarrow> (n, last_at)
     | _ \<Rightarrow>
        (case measure_messages io env thread_id s of
           Inr (n, last_at) \<Rightarrow> (n, or_default last_at (ti_created_at entry))
         | Inl e \<Rightarrow> (or_default (ti_message_count entry) 0, or_default (ti_last_message_at entry) (ti_created_at entry))))"

definition thread_summary :: "file_io \<Rightarrow> conv_env \<Rightarrow> string \<Rightarrow> conversation_thread option conv_op" where
  "thread_summary io env thread_id =
    op_bind (thread_index_of io env) (\<lambda>index.
      op_get (\<lambda>s. Inr (map_option (\<lambda>entry.
          let (n, last_at) = summary_stats io env thread_id entry s in thread_of_entry thread_id entry n last_at)
        (map_of index thread_id))))"

subsection \<open>Listing threads\<close>

definition missing_stats :: "thread_index_entry \<Rightarrow> bool" where
  "missing_stats entry \<longleftrightarrow> ti_message_count entry = None \<or> ti_last_message_at entry = None"

fun reconcile_threads :: "file_io \<Rightarrow> conv_env \<Rightarrow> string list \<Rightarrow> thread_index \<Rightarrow> thread_index conv_op" where
  "reconcile_threads io env [] index s = (Inr index, s)"
| "reconcile_threads io env (thread_id # rest) index s =
    (case measure_messages io env thread_id s of
       Inl e \<Rightarrow> reconcile_threads io env rest index s
     | Inr (n, last_message_at) \<Rightarrow>
        (let resolved_last = or_default last_message_at (case map_of index thread_id of Some e \<Rightarrow> ti_created_at e | None \<Rightarrow> []);
             differs = (case map_of index thread_id of None \<Rightarrow> True
               | Some entry \<Rightarrow> ti_message_count entry \<noteq> Some n \<or> ti_last_message_at entry \<noteq> Some resolved_last);
             index' = (case map_of index thread_id of None \<Rightarrow> index
               | Some entry \<Rightarrow> bt_put thread_id
                   (entry\<lparr>ti_message_count := Some n, ti_last_message_at := Some resolved_last\<rparr>) index)
         in op_bind (if differs then log_append io env (Stats thread_id n resolved_last) else op_return ())
              (\<lambda>_. reconcile_threads io env rest index') s))"

definition list_threads_unlocked :: "file_io \<Rightarrow> conv_env \<Rightarrow> conversation_thread list conv_op" where
  "list_threads_unlocked io env =
    op_bind (thread_index_of io env) (\<lambda>index.
      let thread_ids = map fst (filter (\<lambda>(t, entry). missing_stats entry) index) in
      op_bind (if thread_ids = [] then op_return index
               else op_bind (ensure_root io) (\<lambda>_. reconcile_threads io env thread_ids index))
        (\<lambda>index'. op_return (threads_from_index env index')))"

definition repair_thread :: "file_io \<Rightarrow> conv_env \<Rightarrow> string \<Rightarrow> string list \<Rightarrow> string list conv_op" where
  "repair_thread io env thread_id unreadable =
    op_bind (thread_index_of io env) (\<lambda>index s.
      case map_of index thread_id of
        None \<Rightarrow> (Inr unreadable, s)
      | Some entry \<Rightarrow>
         (if \<not> missing_stats entry then (Inr unreadable, s)
          else case measure_messages io env thread_id s of
            Inl e \<Rightarrow> (Inr (thread_id # unreadable), s)
          | Inr (n, last_message_at) \<Rightarrow>
             op_bind (ensure_root io) (\<lambda>_.
               op_bind (log_append io env (Stats thread_id n (or_default last_message_at (ti_created_at entry))))
                 (\<lambda>_. op_return unreadable)) s))"

fun repair_threads :: "file_io \<Rightarrow> conv_env \<Rightarrow> string list \<Rightarrow> string list \<Rightarrow> string list conv_op" where
  "repair_threads io env [] unreadable = op_return unreadable"
| "repair_threads io env (t # ts) unreadable = op_bind (repair_thread io env t unreadable) (repair_threads io env ts)"

partial_function (option) list_threads_loop ::
  "file_io \<Rightarrow> conv_env \<Rightarrow> string list \<Rightarrow> conv_state \<Rightarrow> ((string + conversation_thread list) \<times> conv_state) option" where
  "list_threads_loop io env unreadable s =
    (case thread_index_of io env s of
       (Inl e, s1) \<Rightarrow> Some (Inl e, s1)
     | (Inr index, s1) \<Rightarrow>
        (let missing = map fst (filter (\<lambda>(t, entry). missing_stats entry \<and> t \<notin> set unreadable) index) in
         if missing = [] then Some (Inr (threads_from_index env index), s1)
         else case repair_threads io env missing unreadable s1 of
           (Inl e, s2) \<Rightarrow> Some (Inl e, s2)
         | (Inr unreadable', s2) \<Rightarrow> list_threads_loop io env unreadable' s2))"

definition list_threads :: "file_io \<Rightarrow> conv_env \<Rightarrow> conv_state \<Rightarrow> ((string + conversation_thread list) \<times> conv_state) option" where
  "list_threads io env = list_threads_loop io env []"

subsection \<open>Threads and messages\<close>

definition ensure_thread :: "file_io \<Rightarrow> conv_env \<Rightarrow> create_thread \<Rightarrow> conversation_thread conv_op" where
  "ensure_thread io env request =
    op_bind (ensure_root io) (\<lambda>_.
    op_bind (log_append io env (Upsert (cr_id request) (cr_title request) (cr_created_at request) (cr_created_at request)
      (cr_parent_thread_id request) (map_option normalize_labels (cr_labels request)) (cr_personality_id request))) (\<lambda>_.
    op_bind (thread_summary io env (cr_id request)) (\<lambda>t.
      case t of Some t \<Rightarrow> op_return t | None \<Rightarrow> op_fail (''thread '' @ cr_id request @ '' missing after ensure''))))"

definition get_messages :: "file_io \<Rightarrow> conv_env \<Rightarrow> string \<Rightarrow> conversation_message list conv_op" where
  "get_messages io env thread_id =
    op_bind (thread_exists io env thread_id) (\<lambda>e.
      if \<not> e then op_return [] else op_get (read_messages io env thread_id))"

definition DETERMINISTIC_MESSAGE_ID_PREFIX :: string where "DETERMINISTIC_MESSAGE_ID_PREFIX = ''agent:''"

definition run_reply_message_id :: "string \<Rightarrow> string" where
  "run_reply_message_id run_id = DETERMINISTIC_MESSAGE_ID_PREFIX @ run_id"

definition is_deterministic_message_id :: "string \<Rightarrow> bool" where
  "is_deterministic_message_id i \<longleftrightarrow> Sublist.prefix DETERMINISTIC_MESSAGE_ID_PREFIX i"

definition reply_run_id :: "string \<Rightarrow> string option" where
  "reply_run_id i = (if Sublist.prefix DETERMINISTIC_MESSAGE_ID_PREFIX i then Some (drop (length DETERMINISTIC_MESSAGE_ID_PREFIX) i) else None)"

text \<open>
  The first half of an append, up to the message's row: \<^verbatim>\<open>Some\<close> is the row the thread already holds under
  a deterministic id. The second half publishes the row to the journal, the index and the log.
\<close>

definition append_write :: "file_io \<Rightarrow> conv_env \<Rightarrow> string \<Rightarrow> conversation_message \<Rightarrow> conversation_message option conv_op" where
  "append_write io env thread_id m =
    op_bind (thread_exists io env thread_id) (\<lambda>e.
      if \<not> e then op_fail (''thread '' @ thread_id @ '' not found'')
      else op_bind (if is_deterministic_message_id (cv_id m)
               then op_get (find_message_by_id io env (thread_messages_path thread_id) (cv_id m)) else op_return None)
        (\<lambda>found. case found of
             Some existing \<Rightarrow> op_return (Some existing)
           | None \<Rightarrow> op_bind (append_jsonl io (thread_messages_path thread_id) (ve_show_message env m)) (\<lambda>_. op_return None)))"

definition record_index_append :: "string \<Rightarrow> conversation_message \<Rightarrow> conv_state \<Rightarrow> conv_state" where
  "record_index_append thread_id m s =
    (case vs_pending s of Some pending \<Rightarrow> s\<lparr>vs_pending := Some (pending @ [(thread_id, m)])\<rparr> | None \<Rightarrow> s)"

definition cache_update :: "(inverted_index \<Rightarrow> inverted_index) \<Rightarrow> conv_state \<Rightarrow> conv_state" where
  "cache_update f s = s\<lparr>vs_cache := map_option f (vs_cache s)\<rparr>"

definition append_publish :: "file_io \<Rightarrow> conv_env \<Rightarrow> string \<Rightarrow> conversation_message \<Rightarrow> conversation_message conv_op" where
  "append_publish io env thread_id m =
    op_bind (op_modify (record_index_append thread_id m)) (\<lambda>_.
    op_bind (op_modify (cache_update (index_insert (ve_index env) thread_id m))) (\<lambda>_.
    op_bind (log_append io env (Message_Appended thread_id (cv_created_at m))) (\<lambda>_. op_return m)))"

definition append_message :: "file_io \<Rightarrow> conv_env \<Rightarrow> string \<Rightarrow> conversation_message \<Rightarrow> conversation_message conv_op" where
  "append_message io env thread_id m =
    op_bind (append_write io env thread_id m) (\<lambda>found.
      case found of Some existing \<Rightarrow> op_return existing | None \<Rightarrow> append_publish io env thread_id m)"

definition update_thread :: "file_io \<Rightarrow> conv_env \<Rightarrow> string \<Rightarrow> string \<Rightarrow> (thread_index_entry \<Rightarrow> string \<times> string list) \<Rightarrow> string \<Rightarrow>
    conversation_thread conv_op" where
  "update_thread io env thread_id what new updated_at =
    op_bind (thread_index_of io env) (\<lambda>index.
      case map_of index thread_id of
        None \<Rightarrow> op_fail (''thread '' @ thread_id @ '' not found'')
      | Some entry \<Rightarrow>
         op_bind (ensure_root io) (\<lambda>_.
         op_bind (log_append io env (Upsert thread_id (fst (new entry)) (ti_created_at entry) updated_at
           (ti_parent_thread_id entry) (Some (snd (new entry))) (ti_personality_id entry))) (\<lambda>_.
         op_bind (thread_summary io env thread_id) (\<lambda>t.
           case t of Some t \<Rightarrow> op_return t
           | None \<Rightarrow> op_fail (''thread '' @ thread_id @ '' missing after '' @ what @ '' update'')))))"

definition update_thread_title :: "file_io \<Rightarrow> conv_env \<Rightarrow> string \<Rightarrow> string \<Rightarrow> string \<Rightarrow> conversation_thread conv_op" where
  "update_thread_title io env thread_id title updated_at =
    update_thread io env thread_id ''title'' (\<lambda>entry. (title, ti_labels entry)) updated_at"

definition update_thread_labels :: "file_io \<Rightarrow> conv_env \<Rightarrow> string \<Rightarrow> string list \<Rightarrow> string \<Rightarrow> conversation_thread conv_op" where
  "update_thread_labels io env thread_id labels updated_at =
    update_thread io env thread_id ''labels'' (\<lambda>entry. (ti_title entry, normalize_labels labels)) updated_at"

fun patch_message :: "string \<Rightarrow> message_patch \<Rightarrow> conversation_message list \<Rightarrow> conversation_message list \<times> conversation_message option" where
  "patch_message i patch [] = ([], None)"
| "patch_message i patch (m # ms) =
    (if cv_id m = i
     then (let m' = (case mp_extra_metadata patch of Some x \<Rightarrow> m\<lparr>cv_extra_metadata := x\<rparr> | None \<Rightarrow> m) in (m' # ms, Some m'))
     else (let (ms', u) = patch_message i patch ms in (m # ms', u)))"

definition update_message :: "file_io \<Rightarrow> conv_env \<Rightarrow> string \<Rightarrow> string \<Rightarrow> message_patch \<Rightarrow> conversation_message conv_op" where
  "update_message io env thread_id message_id patch =
    op_bind (op_get (read_messages io env thread_id)) (\<lambda>ms.
      case patch_message message_id patch ms of
        (ms', None) \<Rightarrow> op_fail (''message '' @ message_id @ '' not found in thread '' @ thread_id)
      | (ms', Some updated) \<Rightarrow>
         op_bind (rewrite_jsonl io (thread_messages_path thread_id) (map (ve_show_message env) ms')) (\<lambda>_. op_return updated))"

definition reindex_thread :: "conv_env \<Rightarrow> string \<Rightarrow> conversation_message list \<Rightarrow> inverted_index \<Rightarrow> inverted_index" where
  "reindex_thread env thread_id kept ix =
    fold (index_insert (ve_index env) thread_id) kept (index_remove_thread thread_id ix)"

text \<open>
  Truncation holds the thread's lock throughout, but not the cache's and the metadata lock: it rewrites the
  transcript, then takes the rows out of a warm index, then logs the new count. \<^verbatim>\<open>Some\<close> has the
  number of rows removed and those kept.
\<close>

definition truncate_write :: "file_io \<Rightarrow> conv_env \<Rightarrow> string \<Rightarrow> string \<Rightarrow> (nat \<times> conversation_message list) option conv_op" where
  "truncate_write io env thread_id message_id =
    op_bind (op_get (read_messages io env thread_id)) (\<lambda>ms.
      let kept = takeWhile (\<lambda>m. cv_id m \<noteq> message_id) ms in
      if length kept = length ms then op_return None
      else
        op_bind (rewrite_jsonl io (thread_messages_path thread_id) (map (ve_show_message env) kept)) (\<lambda>_.
          op_return (Some (length ms - length kept, kept))))"

definition truncate_reindex :: "conv_env \<Rightarrow> string \<Rightarrow> conversation_message list \<Rightarrow> conv_state \<Rightarrow> conv_state" where
  "truncate_reindex env thread_id kept = cache_update (reindex_thread env thread_id kept)"

definition truncate_stats :: "file_io \<Rightarrow> conv_env \<Rightarrow> string \<Rightarrow> conversation_message list \<Rightarrow> unit conv_op" where
  "truncate_stats io env thread_id kept =
    op_bind (if kept \<noteq> [] then op_return (cv_created_at (last kept))
             else op_bind (thread_summary io env thread_id) (\<lambda>t. op_return (case t of Some t \<Rightarrow> ct_created_at t | None \<Rightarrow> []))) (\<lambda>last_at.
    op_bind (ensure_root io) (\<lambda>_. log_append io env (Stats thread_id (length kept) last_at)))"

definition delete_messages_from :: "file_io \<Rightarrow> conv_env \<Rightarrow> string \<Rightarrow> string \<Rightarrow> nat option conv_op" where
  "delete_messages_from io env thread_id message_id =
    op_bind (truncate_write io env thread_id message_id) (\<lambda>cut.
      case cut of
        None \<Rightarrow> op_return None
      | Some (removed, kept) \<Rightarrow>
         op_bind (op_modify (truncate_reindex env thread_id kept)) (\<lambda>_.
         op_bind (truncate_stats io env thread_id kept) (\<lambda>_. op_return (Some removed))))"

definition remove_file :: "file_io \<Rightarrow> string \<Rightarrow> unit conv_op" where
  "remove_file io path s =
    (if vs_files s path = None then (Inr (), s)
     else case fi_remove io path of Some e \<Rightarrow> (Inl e, s) | None \<Rightarrow> (Inr (), s\<lparr>vs_files := (vs_files s)(path := None)\<rparr>))"

definition delete_thread :: "file_io \<Rightarrow> conv_env \<Rightarrow> string \<Rightarrow> string \<Rightarrow> bool conv_op" where
  "delete_thread io env thread_id deleted_at =
    op_bind (thread_exists io env thread_id) (\<lambda>e.
      if \<not> e then op_return False
      else
        op_bind (ensure_root io) (\<lambda>_.
        op_bind (log_append io env (Delete_Thread thread_id deleted_at)) (\<lambda>_ s.
          case remove_file io (thread_messages_path thread_id) s of
            (removed, s') \<Rightarrow> (map_sum id (\<lambda>_. True) removed, cache_update (index_remove_thread thread_id) s'))))"

definition purge_threads :: "file_io \<Rightarrow> conv_env \<Rightarrow> purge_stats conv_op" where
  "purge_threads io env =
    op_bind (list_threads_unlocked io env) (\<lambda>threads.
      let stats = \<lparr>pu_thread_count = length threads, pu_message_count = sum_list (map ct_message_count threads)\<rparr> in
      op_bind (\<lambda>s. case fi_remove_dir io of Some e \<Rightarrow> (Inl e, s) | None \<Rightarrow> (Inr (), s\<lparr>vs_files := Map.empty\<rparr>)) (\<lambda>_.
      op_bind (ensure_root io) (\<lambda>_.
      op_bind (op_modify (\<lambda>s. s\<lparr>vs_cache := None\<rparr>)) (\<lambda>_. op_return stats))))"

subsection \<open>Building the index\<close>

definition begin_index_build :: "conv_state \<Rightarrow> conv_state" where
  "begin_index_build s = s\<lparr>vs_pending := Some []\<rparr>"

definition snapshot_threads :: "file_io \<Rightarrow> conv_env \<Rightarrow> string list conv_op" where
  "snapshot_threads io env s =
    (case thread_index_of io env s of
       (Inr index, s') \<Rightarrow> (Inr (map fst index), s')
     | (Inl e, s') \<Rightarrow> (Inl e, s'\<lparr>vs_pending := None\<rparr>))"

definition scan_thread :: "file_io \<Rightarrow> conv_env \<Rightarrow> conv_state \<Rightarrow> string \<Rightarrow> inverted_index \<Rightarrow> inverted_index" where
  "scan_thread io env s thread_id ix =
    (case read_messages io env thread_id s of
       Inr ms \<Rightarrow> fold (index_insert (ve_index env) thread_id) ms ix
     | Inl e \<Rightarrow> ix)"

definition publish_index :: "conv_env \<Rightarrow> inverted_index \<Rightarrow> conv_state \<Rightarrow> conv_state" where
  "publish_index env ix s =
    s\<lparr>vs_pending := None,
      vs_cache := Some (fold (\<lambda>(t, m). index_insert (ve_index env) t m)
        (case vs_pending s of Some pending \<Rightarrow> pending | None \<Rightarrow> []) ix)\<rparr>"

definition prime_index_if_cold :: "file_io \<Rightarrow> conv_env \<Rightarrow> unit conv_op" where
  "prime_index_if_cold io env s =
    (if vs_cache s \<noteq> None then (Inr (), s)
     else op_bind (snapshot_threads io env)
       (\<lambda>thread_ids s'. (Inr (), publish_index env (fold (scan_thread io env s') thread_ids new_index) s')) (begin_index_build s))"

definition search_cross_thread_messages :: "file_io \<Rightarrow> conv_env \<Rightarrow> utext \<Rightarrow> nat \<Rightarrow> string option \<Rightarrow> cross_thread_hit list conv_op" where
  "search_cross_thread_messages io env query limit exclude =
    op_bind (prime_index_if_cold io env) (\<lambda>_.
      op_get (\<lambda>s. case vs_cache s of
          Some ix \<Rightarrow> Inr (index_search (ve_index env) query limit exclude ix)
        | None \<Rightarrow> Inl ''conversation index missing after required prime''))"

section \<open>Paths and files\<close>

lemma hex_digit_inj: "a < 16 \<Longrightarrow> b < 16 \<Longrightarrow> hex_digit a = hex_digit b \<Longrightarrow> a = b"
proof -
  have "distinct ''0123456789abcdef''" and "length ''0123456789abcdef'' = 16" by simp_all
  then show "a < 16 \<Longrightarrow> b < 16 \<Longrightarrow> hex_digit a = hex_digit b \<Longrightarrow> a = b"
    unfolding hex_digit_def using nth_eq_iff_index_eq by metis
qed

lemma hex_encode_Nil: "hex_encode [] = []"
  by (simp add: hex_encode_def)

lemma hex_encode_Cons: "hex_encode (b # bs) = hex_digit (of_char b div 16) # hex_digit (of_char b mod 16) # hex_encode bs"
  by (simp add: hex_encode_def)

lemma hex_byte_inj:
  assumes "hex_digit (of_char a div 16) = hex_digit (of_char b div 16)" and "hex_digit (of_char a mod 16) = hex_digit (of_char b mod 16)"
  shows "a = b"
proof -
  have less: "of_char c < (256 :: nat)" for c :: char by simp
  then have "of_char c div 16 < (16 :: nat)" for c :: char by (simp add: less_mult_imp_div_less)
  then have "of_char a div 16 = (of_char b div 16 :: nat)" using assms(1) hex_digit_inj by blast
  moreover have "of_char a mod 16 = (of_char b mod 16 :: nat)" using assms(2) by (intro hex_digit_inj) simp_all
  ultimately have "of_char a = (of_char b :: nat)" by (metis div_mult_mod_eq)
  then show ?thesis by simp
qed

lemma transcripts_unique:
  "(thread_messages_path a = thread_messages_path b \<longleftrightarrow> a = b) \<and> thread_messages_path a \<noteq> THREADS_FILENAME"
proof
  have "hex_encode x = hex_encode y \<Longrightarrow> x = y" for x y
  proof (induction x arbitrary: y)
    case Nil
    then show ?case by (cases y) (simp_all add: hex_encode_Cons hex_encode_Nil)
  next
    case (Cons c x)
    then obtain d y' where y: "y = d # y'" by (cases y) (simp_all add: hex_encode_Cons hex_encode_Nil)
    have "hex_digit (of_char c div 16) = hex_digit (of_char d div 16)" "hex_digit (of_char c mod 16) = hex_digit (of_char d mod 16)"
      "hex_encode x = hex_encode y'"
      using Cons.prems y by (simp_all add: hex_encode_Cons)
    then show ?case using Cons.IH hex_byte_inj[of c d] y by blast
  qed
  then show "thread_messages_path a = thread_messages_path b \<longleftrightarrow> a = b" by (auto simp: thread_messages_path_def)
  show "thread_messages_path a \<noteq> THREADS_FILENAME"
    by (simp add: thread_messages_path_def THREADS_FILENAME_def THREAD_MESSAGES_DIR_def)
qed

text \<open>
  Transcripts never share a file: the file name determines the thread id, whatever bytes the id holds, and no
  transcript is the thread log.
\<close>

theorem transcripts_do_not_collide:
  "(thread_messages_path a = thread_messages_path b \<longleftrightarrow> a = b) \<and> thread_messages_path a \<noteq> THREADS_FILENAME"
  by (rule transcripts_unique)

end
