(* ===== verification/Conversation_Log.thy ===== *)
theory Conversation_Log
  imports Conversation_Store
begin

section \<open>What the files say: the log, the transcripts and the effect of each operation on them\<close>

text \<open>
  The views of a state (its log entries, the threads folded from them, the messages of a thread) and what every
  operation does to them, for a JSON codec that reads back what it wrote; then listing: it returns, and every
  thread it repairs gets its true count.
\<close>

definition codec_ok :: "conv_env \<Rightarrow> bool" where
  "codec_ok env \<longleftrightarrow>
    (\<forall>m. ve_parse_message env (ve_show_message env m) = Some m \<and> trim (ve_show_message env m) = ve_show_message env m \<and>
      ve_show_message env m \<noteq> [] \<and> sublist (ve_quote env (cv_id m)) (ve_show_message env m)) \<and>
    (\<forall>e. ve_parse_entry env (ve_show_entry env e) = Some e \<and> trim (ve_show_entry env e) = ve_show_entry env e \<and>
      ve_show_entry env e \<noteq> [])"

definition reads_ok :: "file_io \<Rightarrow> bool" where "reads_ok io \<longleftrightarrow> (\<forall>p. fi_read io p = None)"

definition parsed :: "(line \<Rightarrow> 'a option) \<Rightarrow> string \<Rightarrow> conv_state \<Rightarrow> 'a list" where
  "parsed parse path s =
    (case vs_files s path of None \<Rightarrow> []
     | Some ls \<Rightarrow> List.map_filter (\<lambda>l. let trimmed = trim l in if trimmed = [] then None else parse trimmed) ls)"

definition log_entries :: "conv_env \<Rightarrow> conv_state \<Rightarrow> thread_log_entry list" where
  "log_entries env s = parsed (ve_parse_entry env) THREADS_FILENAME s"

definition threads_of :: "conv_env \<Rightarrow> conv_state \<Rightarrow> thread_index" where
  "threads_of env s = fold fold_entry (log_entries env s) []"

definition thread_at :: "conv_env \<Rightarrow> conv_state \<Rightarrow> string \<Rightarrow> thread_index_entry option" where
  "thread_at env s = map_of (threads_of env s)"

definition messages :: "conv_env \<Rightarrow> conv_state \<Rightarrow> string \<Rightarrow> conversation_message list" where
  "messages env s th = parsed (ve_parse_message env) (thread_messages_path th) s"

lemma read_jsonl_ok: "fi_read io path = None \<Longrightarrow> read_jsonl io parse path s = Inr (parsed parse path s)"
  by (simp add: read_jsonl_def parsed_def split: option.split)

lemma read_messages_ok [simp]: "reads_ok io \<Longrightarrow> read_messages io env th s = Inr (messages env s th)"
  by (simp add: read_messages_def messages_def read_jsonl_ok reads_ok_def)

subsection \<open>The folded log\<close>

definition ascending :: "(string \<times> 'v) list \<Rightarrow> bool" where
  "ascending m \<longleftrightarrow> sorted (map fst m) \<and> distinct (map fst m)"

lemma map_of_insort: "k \<notin> fst ` set m \<Longrightarrow> map_of (insort_key fst (k, v) m) = (map_of m)(k \<mapsto> v)"
  by (induction m) (auto simp: fun_eq_iff)

lemma map_of_bt_remove: "map_of (bt_remove k m) = (map_of m)(k := None)"
  by (induction m) (auto simp: bt_remove_def)

lemma map_of_bt_put: "map_of (bt_put k v m) = (map_of m)(k \<mapsto> v)"
proof -
  have "k \<notin> fst ` set (filter (\<lambda>(k', w). k' \<noteq> k) m)" by auto
  from map_of_insort[OF this] show ?thesis
    using map_of_bt_remove[of k m] by (simp add: bt_put_def bt_remove_def)
qed

lemma ascending_bt_remove: "ascending m \<Longrightarrow> ascending (bt_remove k m)"
  by (simp add: ascending_def bt_remove_def sorted_filter distinct_map_filter)

lemma ascending_bt_put: "ascending m \<Longrightarrow> ascending (bt_put k v m)"
proof -
  have "k \<notin> fst ` set (filter (\<lambda>(k', w). k' \<noteq> k) m)" by auto
  moreover have "distinct (map fst (insort_key fst (k, v) m))" if "k \<notin> fst ` set m" "distinct (map fst m)" for m :: "(string \<times> 'a) list"
    using that by (induction m) (auto simp: set_insort_key)
  ultimately show "ascending m \<Longrightarrow> ascending (bt_put k v m)"
    by (simp add: ascending_def bt_put_def sorted_insort_key sorted_filter distinct_map_filter)
qed

lemma ascending_fold_entry: "ascending index \<Longrightarrow> ascending (fold_entry e index)"
  by (cases e) (simp_all add: ascending_bt_put ascending_bt_remove split: option.split)

lemma ascending_fold: "ascending index \<Longrightarrow> ascending (fold fold_entry es index)"
  by (induction es arbitrary: index) (simp_all add: ascending_fold_entry)

lemma ascending_threads [simp]: "ascending (threads_of env s)"
  unfolding threads_of_def by (rule ascending_fold) (simp add: ascending_def)

lemma thread_at_member: "(th, entry) \<in> set (threads_of env s) \<longleftrightarrow> thread_at env s th = Some entry"
  using ascending_threads[of env s] by (simp add: thread_at_def ascending_def)

definition entry_thread :: "thread_log_entry \<Rightarrow> string" where
  "entry_thread e = (case e of Upsert t _ _ _ _ _ _ \<Rightarrow> t | Delete_Thread t _ \<Rightarrow> t | Message_Appended t _ \<Rightarrow> t | Stats t _ _ \<Rightarrow> t)"

lemma fold_entry_other: "t \<noteq> entry_thread e \<Longrightarrow> map_of (fold_entry e index) t = map_of index t"
  by (cases e) (auto simp: entry_thread_def map_of_bt_put map_of_bt_remove split: option.split)

subsection \<open>States that differ in the log only\<close>

definition logged :: "conv_env \<Rightarrow> thread_log_entry list \<Rightarrow> conv_state \<Rightarrow> conv_state \<Rightarrow> bool" where
  "logged env es s s' \<longleftrightarrow> (\<forall>p. p \<noteq> THREADS_FILENAME \<longrightarrow> vs_files s' p = vs_files s p) \<and> vs_cache s' = vs_cache s \<and>
    vs_pending s' = vs_pending s \<and> log_entries env s' = log_entries env s @ es"

lemma logged_refl [simp]: "logged env [] s s"
  by (simp add: logged_def)

lemma logged_trans: "logged env es s t \<Longrightarrow> logged env fs t u \<Longrightarrow> logged env (es @ fs) s u"
  by (simp add: logged_def)

lemma logged_messages: "logged env es s s' \<Longrightarrow> messages env s' = messages env s"
  using transcripts_unique by (auto simp: logged_def messages_def parsed_def fun_eq_iff)

lemma logged_threads: "logged env es s s' \<Longrightarrow> threads_of env s' = fold fold_entry es (threads_of env s)"
  by (simp add: logged_def threads_of_def)

lemma logged_thread_at: "logged env [] s s' \<Longrightarrow> thread_at env s' = thread_at env s"
  by (simp add: logged_def thread_at_def threads_of_def)

lemma logged_one: "logged env [e] s s' \<Longrightarrow> thread_at env s' = map_of (fold_entry e (threads_of env s))"
  by (simp add: thread_at_def logged_threads)

lemma logged_state: "logged env es s s' \<Longrightarrow> vs_cache s' = vs_cache s \<and> vs_pending s' = vs_pending s \<and>
    (\<forall>th. vs_files s' (thread_messages_path th) = vs_files s (thread_messages_path th))"
  using transcripts_unique by (auto simp: logged_def)

lemma parsed_upd: "path \<noteq> p \<Longrightarrow> parsed f p (s\<lparr>vs_files := (vs_files s)(path := x)\<rparr>) = parsed f p s"
  by (simp add: parsed_def)

text \<open>The two ways an operation touches the log, as functions of the state.\<close>

definition rooted :: "conv_state \<Rightarrow> conv_state" where
  "rooted s = (if vs_files s THREADS_FILENAME = None then s\<lparr>vs_files := (vs_files s)(THREADS_FILENAME \<mapsto> [])\<rparr> else s)"

definition log_put :: "conv_env \<Rightarrow> thread_log_entry \<Rightarrow> conv_state \<Rightarrow> conv_state" where
  "log_put env e s = s\<lparr>vs_files := (vs_files s)(THREADS_FILENAME \<mapsto>
    (case vs_files s THREADS_FILENAME of Some ls \<Rightarrow> ls | None \<Rightarrow> []) @ [ve_show_entry env e])\<rparr>"

lemma ensure_root_eq: "ensure_root io s = (case fi_root io of Some x \<Rightarrow> (Inl x, s) | None \<Rightarrow> (Inr (), rooted s))"
  by (simp add: ensure_root_def rooted_def split: option.split)

lemma log_append_eq:
  "log_append io env e s = (case fi_append io THREADS_FILENAME of Some x \<Rightarrow> (Inl x, s) | None \<Rightarrow> (Inr (), log_put env e s))"
  by (simp add: log_append_def append_jsonl_def log_put_def split: option.split)

lemma rooted_logged [simp]: "logged env es s (rooted t) \<longleftrightarrow> logged env es s t"
  by (simp add: rooted_def logged_def log_entries_def parsed_def List.map_filter_simps)

lemma log_put_logged [simp]:
  assumes "codec_ok env"
  shows "logged env [e'] s (log_put env e t) \<longleftrightarrow> e' = e \<and> logged env [] s t"
    "logged env [] (log_put env e t) u \<Longrightarrow> logged env [] t s \<Longrightarrow> logged env [e] s u"
proof -
  have "ve_parse_entry env (ve_show_entry env e) = Some e" "trim (ve_show_entry env e) = ve_show_entry env e" "ve_show_entry env e \<noteq> []"
    using assms by (simp_all add: codec_ok_def)
  then have put: "log_entries env (log_put env e t) = log_entries env t @ [e]"
    by (simp add: log_put_def log_entries_def parsed_def List.map_filter_def split: option.split)
  then show "logged env [e'] s (log_put env e t) \<longleftrightarrow> e' = e \<and> logged env [] s t" by (auto simp: logged_def) (simp_all add: log_put_def)
  show "logged env [] (log_put env e t) u \<Longrightarrow> logged env [] t s \<Longrightarrow> logged env [e] s u"
    using put by (auto simp: logged_def) (simp_all add: log_put_def)
qed

lemma rooted_views [simp]:
  "threads_of env (rooted s) = threads_of env s" "thread_at env (rooted s) = thread_at env s"
  "messages env (rooted s) = messages env s"
  using logged_messages[of env "[]" s "rooted s"] logged_threads[of env "[]" s "rooted s"] logged_thread_at[of env s "rooted s"]
  by (simp_all add: thread_at_def)

lemma log_put_views [simp]:
  assumes "codec_ok env"
  shows "threads_of env (log_put env e s) = fold_entry e (threads_of env s)" "messages env (log_put env e s) = messages env s"
  using logged_messages[of env "[e]" s "log_put env e s"] logged_threads[of env "[e]" s "log_put env e s"] assms by simp_all

lemma reads_ok_at [simp]: "reads_ok io \<Longrightarrow> fi_read io p = None"
  by (simp add: reads_ok_def)

lemma thread_index_eq:
  "fi_read io THREADS_FILENAME = None \<Longrightarrow> thread_index_of io env s =
    (case fi_root io of Some x \<Rightarrow> (Inl x, s) | None \<Rightarrow> (Inr (threads_of env s), rooted s))"
  using rooted_views(1)[of env s]
  by (simp add: thread_index_of_def op_bind_def op_get_def ensure_root_eq read_jsonl_ok threads_of_def log_entries_def
      split: option.split)

lemma thread_exists_eq:
  "fi_read io THREADS_FILENAME = None \<Longrightarrow> thread_exists io env th s =
    (case fi_root io of Some x \<Rightarrow> (Inl x, s) | None \<Rightarrow> (Inr (thread_at env s th \<noteq> None), rooted s))"
  by (simp add: thread_exists_def op_bind_def op_return_def thread_index_eq thread_at_def split: option.split)

definition stats_of :: "conv_env \<Rightarrow> string \<Rightarrow> thread_index_entry \<Rightarrow> conv_state \<Rightarrow> nat \<times> string" where
  "stats_of env th entry s =
    (case (ti_message_count entry, ti_last_message_at entry) of
       (Some n, Some last_at) \<Rightarrow> (n, last_at)
     | _ \<Rightarrow> (let ms = messages env s th in
         (length ms, if ms = [] then ti_created_at entry else cv_created_at (last ms))))"

lemma summary_stats_eq: "reads_ok io \<Longrightarrow> summary_stats io env th entry s = stats_of env th entry s"
  by (auto simp: summary_stats_def stats_of_def measure_messages_def or_default_def Let_def split: option.split)

definition summary_of :: "conv_env \<Rightarrow> string \<Rightarrow> conv_state \<Rightarrow> conversation_thread option" where
  "summary_of env th s =
    map_option (\<lambda>entry. thread_of_entry th entry (fst (stats_of env th entry s)) (snd (stats_of env th entry s))) (thread_at env s th)"

lemma stats_rooted [simp]: "stats_of env th entry (rooted s) = stats_of env th entry s"
  by (simp add: stats_of_def split: option.split)

lemma thread_summary_eq:
  "reads_ok io \<Longrightarrow> thread_summary io env th s =
    (case fi_root io of Some x \<Rightarrow> (Inl x, s) | None \<Rightarrow> (Inr (summary_of env th s), rooted s))"
  by (simp add: thread_summary_def op_bind_def op_get_def thread_index_eq summary_stats_eq summary_of_def thread_at_def
      case_prod_beta Let_def split: option.split)

lemmas op_simps = op_bind_def op_return_def op_fail_def op_get_def op_modify_def ensure_root_eq log_append_eq thread_index_eq
  thread_exists_eq thread_summary_eq

subsection \<open>Effects\<close>

definition upsert_of :: "create_thread \<Rightarrow> thread_log_entry" where
  "upsert_of request = Upsert (cr_id request) (cr_title request) (cr_created_at request) (cr_created_at request)
    (cr_parent_thread_id request) (map_option normalize_labels (cr_labels request)) (cr_personality_id request)"

lemma ensure_thread_effect:
  assumes "codec_ok env" and "reads_ok io"
  shows "logged env [] s (snd (ensure_thread io env request s)) \<or> logged env [upsert_of request] s (snd (ensure_thread io env request s))"
  using assms by (simp add: ensure_thread_def op_simps upsert_of_def split: option.split)

lemma update_thread_effect:
  assumes "codec_ok env" and "reads_ok io"
  shows "logged env [] s (snd (update_thread io env th what new at' s)) \<or>
    (\<exists>entry. thread_at env s th = Some entry \<and> logged env
      [Upsert th (fst (new entry)) (ti_created_at entry) at' (ti_parent_thread_id entry) (Some (snd (new entry))) (ti_personality_id entry)]
      s (snd (update_thread io env th what new at' s)))"
  using assms by (auto simp: update_thread_def op_simps thread_at_def split: option.split)

subsection \<open>Listing\<close>

definition todo :: "conv_env \<Rightarrow> string list \<Rightarrow> conv_state \<Rightarrow> string set" where
  "todo env unreadable s = {t. t \<notin> set unreadable \<and> (\<exists>entry. thread_at env s t = Some entry \<and> missing_stats entry)}"

lemma thread_at_log_put: "codec_ok env \<Longrightarrow> thread_at env (log_put env e s) = map_of (fold_entry e (threads_of env s))"
  by (simp add: thread_at_def)

lemma rooted_twice [simp]: "rooted (rooted s) = rooted s"
  by (simp add: rooted_def)

lemma repair_thread_eq:
  assumes "fi_read io THREADS_FILENAME = None"
  shows "repair_thread io env t u s =
    (case fi_root io of Some x \<Rightarrow> (Inl x, s)
     | None \<Rightarrow>
        (case thread_at env s t of
           None \<Rightarrow> (Inr u, rooted s)
         | Some entry \<Rightarrow>
            (if \<not> missing_stats entry then (Inr u, rooted s)
             else case measure_messages io env t (rooted s) of
               Inl e \<Rightarrow> (Inr (t # u), rooted s)
             | Inr (n, last_at) \<Rightarrow>
                (case fi_append io THREADS_FILENAME of
                   Some x \<Rightarrow> (Inl x, rooted s)
                 | None \<Rightarrow> (Inr u, log_put env (Stats t n (or_default last_at (ti_created_at entry))) (rooted s))))))"
  using assms by (simp add: repair_thread_def op_simps thread_at_def case_prod_beta split: option.split sum.split)

lemma repair_thread_todo:
  assumes "codec_ok env" and "fi_read io THREADS_FILENAME = None" and "repair_thread io env t u s = (Inr u', s')"
  shows "todo env u' s' \<subseteq> todo env u s - {t}"
proof -
  have stats: "todo env u (log_put env (Stats t n at') (rooted s)) \<subseteq> todo env u s - {t}" for n at' u
    using assms(1) by (auto simp: todo_def thread_at_log_put map_of_bt_put missing_stats_def thread_at_def split: option.splits if_splits)
  have rest: "todo env u (rooted s) = todo env u s" for u by (simp add: todo_def)
  have one: "thread_at env s t = Some entry \<Longrightarrow> \<not> missing_stats entry \<Longrightarrow> t \<notin> todo env u s" for entry u by (simp add: todo_def)
  have none: "thread_at env s t = None \<Longrightarrow> t \<notin> todo env u s" for u by (simp add: todo_def)
  have set_aside: "todo env (t # u) s = todo env u s - {t}" by (auto simp: todo_def)
  show ?thesis
    using assms(3) unfolding repair_thread_eq[OF assms(2)]
    by (auto simp: rest set_aside split: option.splits if_splits sum.splits prod.splits dest: one none dest!: subsetD[OF stats])
qed

lemma repair_threads_todo:
  assumes "codec_ok env" and "fi_read io THREADS_FILENAME = None"
  shows "repair_threads io env ts u s = (Inr u', s') \<Longrightarrow> todo env u' s' \<subseteq> todo env u s - set ts"
proof (induction ts arbitrary: u s)
  case (Cons t ts)
  obtain v s1 where v: "repair_thread io env t u s = (Inr v, s1)" "repair_threads io env ts v s1 = (Inr u', s')"
    using Cons.prems by (auto simp: op_bind_def split: prod.splits sum.splits)
  show ?case using Cons.IH[OF v(2)] repair_thread_todo[OF assms v(1)] by auto
qed (simp add: op_return_def)

lemma missing_is_todo:
  "set (map fst (filter (\<lambda>(t, entry). missing_stats entry \<and> t \<notin> set u) (threads_of env s))) = todo env u s"
  by (force simp: todo_def thread_at_member)

lemma list_loop_step:
  assumes "fi_root io = None" and "fi_read io THREADS_FILENAME = None"
    and "repair_threads io env (map fst (filter (\<lambda>(t, entry). missing_stats entry \<and> t \<notin> set u) (threads_of env s))) u (rooted s) = (r, s1)"
  shows "list_threads_loop io env u s =
    (if filter (\<lambda>(t, entry). missing_stats entry \<and> t \<notin> set u) (threads_of env s) = []
     then Some (Inr (threads_from_index env (threads_of env s)), rooted s)
     else case r of Inl e \<Rightarrow> Some (Inl e, s1) | Inr u' \<Rightarrow> list_threads_loop io env u' s1)"
  using assms by (subst list_threads_loop.simps) (simp add: thread_index_eq Let_def)

lemma list_loop_done:
  assumes "fi_read io THREADS_FILENAME = None" and "fi_root io = None" and "todo env u s = {}"
  shows "list_threads_loop io env u s = Some (Inr (threads_from_index env (threads_of env s)), rooted s)"
proof -
  have "filter (\<lambda>(t, entry). missing_stats entry \<and> t \<notin> set u) (threads_of env s) = []"
    using missing_is_todo[of u env s] assms(3) by (auto simp: filter_empty_conv)
  then show ?thesis using assms by (subst list_threads_loop.simps) (simp add: thread_index_eq)
qed

text \<open>
  C40: Listing threads always returns: every thread without statistics is repaired or set aside in one pass, so
  the loop ends whatever the files hold and whichever file calls fail.
\<close>

theorem listing_returns:
  assumes "codec_ok env"
  shows "\<exists>r s'. list_threads io env s = Some (r, s')"
proof (cases "fi_root io = None \<and> fi_read io THREADS_FILENAME = None")
  case True
  let ?m = "map fst (filter (\<lambda>(t, entry). missing_stats entry \<and> t \<notin> set []) (threads_of env s))"
  note todo = missing_is_todo[of "[]" env s]
  show ?thesis
  proof (cases "repair_threads io env ?m [] (rooted s)")
    case (Pair r s1)
    note unfold = list_loop_step[OF True[THEN conjunct1] True[THEN conjunct2] Pair]
    show ?thesis
    proof (cases r)
      case (Inr u)
      have "todo env u s1 \<subseteq> todo env [] (rooted s) - set ?m"
        using True by (intro repair_threads_todo[OF assms _ Pair[unfolded Inr]]) simp
      also have "\<dots> = {}" unfolding todo by (simp add: todo_def)
      finally have "todo env u s1 = {}" by simp
      then have "list_threads_loop io env u s1 = Some (Inr (threads_from_index env (threads_of env s1)), rooted s1)"
        using True by (intro list_loop_done) simp_all
      then show ?thesis unfolding list_threads_def unfold Inr by simp
    qed (simp add: list_threads_def unfold)
  qed
next
  case False
  have "\<exists>x s'. thread_index_of io env s = (Inl x, s')"
  proof (cases "fi_root io")
    case None
    then show ?thesis using False
      by (auto simp: thread_index_of_def op_bind_def op_get_def ensure_root_def read_jsonl_def split: option.splits)
  qed (simp add: thread_index_of_def op_bind_def ensure_root_def)
  then show ?thesis unfolding list_threads_def by (subst list_threads_loop.simps) auto
qed

subsection \<open>The listed counts\<close>

lemma repair_effect:
  assumes "codec_ok env" and "reads_ok io" and "repair_thread io env t u s = (r, s')"
  shows "(logged env [] s s' \<or> (\<exists>entry. thread_at env s t = Some entry \<and> missing_stats entry \<and>
      (let ms = messages env s t in
       logged env [Stats t (length ms) (if ms = [] then ti_created_at entry else cv_created_at (last ms))] s s'))) \<and>
    (\<forall>u'. r = Inr u' \<longrightarrow> u' = u)"
proof -
  have measure: "measure_messages io env t (rooted s) =
      Inr (let ms = messages env s t in (length ms, if ms = [] then None else Some (cv_created_at (last ms))))"
    using assms(2) by (simp add: measure_messages_def Let_def)
  have log: "fi_read io THREADS_FILENAME = None" using assms(2) by simp
  show ?thesis
    using assms(3) assms(1) unfolding repair_thread_eq[OF log] measure
    by (auto simp: Let_def or_default_def split: option.splits if_splits)
qed

lemma no_set_aside:
  assumes "codec_ok env" and "reads_ok io"
  shows "repair_threads io env ts u s = (Inr u', s') \<Longrightarrow> u' = u"
proof (induction ts arbitrary: u s)
  case (Cons t ts)
  obtain v s1 where v: "repair_thread io env t u s = (Inr v, s1)" "repair_threads io env ts v s1 = (Inr u', s')"
    using Cons.prems by (auto simp: op_bind_def split: prod.splits sum.splits)
  show ?case using Cons.IH[OF v(2)] repair_effect[OF assms v(1)] by simp
qed (simp add: op_return_def)

definition counted :: "conv_env \<Rightarrow> conv_state \<Rightarrow> bool" where
  "counted env s \<longleftrightarrow> (\<forall>t entry. thread_at env s t = Some entry \<longrightarrow>
    ti_message_count entry = None \<or> ti_message_count entry = Some (length (messages env s t)))"

lemma counted_repair:
  assumes "codec_ok env" and "reads_ok io" and "counted env s" and "repair_thread io env t u s = (r, s')"
  shows "counted env s' \<and> messages env s' = messages env s \<and> dom (thread_at env s') = dom (thread_at env s)"
  using repair_effect[OF assms(1,2,4)]
proof (elim conjE disjE exE)
  assume l: "logged env [] s s'"
  show ?thesis using assms(3) logged_messages[OF l] logged_thread_at[OF l] by (simp add: counted_def)
next
  fix entry
  assume e: "thread_at env s t = Some entry" and l: "let ms = messages env s t in
       logged env [Stats t (length ms) (if ms = [] then ti_created_at entry else cv_created_at (last ms))] s s'"
  have m: "messages env s' = messages env s" using logged_messages l by (simp add: Let_def)
  have at: "thread_at env s' = map_of (fold_entry (Stats t (length (messages env s t))
      (if messages env s t = [] then ti_created_at entry else cv_created_at (last (messages env s t)))) (threads_of env s))"
    using logged_one l by (simp add: Let_def)
  show ?thesis using assms(3) e unfolding counted_def at m by (auto simp: map_of_bt_put thread_at_def)
qed

lemma counted_repairs:
  assumes "codec_ok env" and "reads_ok io"
  shows "counted env s \<Longrightarrow> repair_threads io env ts u s = (r, s') \<Longrightarrow>
    counted env s' \<and> messages env s' = messages env s \<and> dom (thread_at env s') = dom (thread_at env s)"
proof (induction ts arbitrary: u s)
  case (Cons t ts)
  obtain x s1 where x: "repair_thread io env t u s = (x, s1)" by (cases "repair_thread io env t u s")
  note c = counted_repair[OF assms Cons.prems(1) x]
  show ?case
  proof (cases x)
    case (Inl e)
    then show ?thesis using Cons.prems(2) x c by (simp add: op_bind_def)
  next
    case (Inr v)
    then have "repair_threads io env ts v s1 = (r, s')" using Cons.prems(2) x by (simp add: op_bind_def)
    then show ?thesis using Cons.IH[of s1 v] c by simp
  qed
qed (simp add: op_return_def)

lemma counted_rooted [simp]: "counted env (rooted s) \<longleftrightarrow> counted env s"
  by (simp add: counted_def)

lemma threads_listed:
  assumes "\<forall>t entry. thread_at env s t = Some entry \<longrightarrow> \<not> missing_stats entry" and "counted env s"
  shows "ct_id ` set (threads_from_index env (threads_of env s)) = dom (thread_at env s) \<and>
    (\<forall>t\<in>set (threads_from_index env (threads_of env s)). ct_message_count t = length (messages env s (ct_id t)))"
proof
  have set: "set (threads_from_index env (threads_of env s)) =
    (\<lambda>(th, entry). thread_of_entry th entry (or_default (ti_message_count entry) 0)
      (or_default (ti_last_message_at entry) (ti_created_at entry))) ` set (threads_of env s)"
    by (simp add: threads_from_index_def)
  show "ct_id ` set (threads_from_index env (threads_of env s)) = dom (thread_at env s)"
    unfolding set by (force simp: thread_of_entry_def dom_def thread_at_member[symmetric] image_iff)
  have n: "or_default (ti_message_count entry) 0 = length (messages env s th)" if "(th, entry) \<in> set (threads_of env s)" for th entry
    using that assms unfolding thread_at_member counted_def missing_stats_def by (fastforce simp: or_default_def)
  show "\<forall>t\<in>set (threads_from_index env (threads_of env s)). ct_message_count t = length (messages env s (ct_id t))"
    unfolding set by (auto simp: thread_of_entry_def n)
qed

lemma listing_counts:
  assumes "codec_ok env" and "reads_ok io" and "counted env s" and "list_threads io env s = Some (Inr ts, s')"
  shows "ct_id ` set ts = dom (thread_at env s) \<and> (\<forall>t\<in>set ts. ct_message_count t = length (messages env s (ct_id t)))"
proof -
  let ?m = "map fst (filter (\<lambda>(t, entry). missing_stats entry \<and> t \<notin> set []) (threads_of env s))"
  have log: "fi_read io THREADS_FILENAME = None" using assms(2) by simp
  have root: "fi_root io = None"
    using assms(4) unfolding list_threads_def by (subst (asm) list_threads_loop.simps) (auto simp: thread_index_eq log split: option.splits)
  have done_case: "todo env [] t = {} \<Longrightarrow> \<forall>th entry. thread_at env t th = Some entry \<longrightarrow> \<not> missing_stats entry" for t
    by (auto simp: todo_def)
  obtain r s1 where r: "repair_threads io env ?m [] (rooted s) = (r, s1)" by (cases "repair_threads io env ?m [] (rooted s)")
  note c = counted_repairs[OF assms(1,2) _ r]
  note loop = list_loop_step[OF root log r] assms(4)[unfolded list_threads_def]
  show ?thesis
  proof (cases "?m = []")
    case True
    then have "todo env [] s = {}" using missing_is_todo[of "[]" env s] by simp
    then show ?thesis using loop True threads_listed[OF done_case assms(3)] by simp
  next
    case False
    then obtain u where u: "r = Inr u" "list_threads_loop io env u s1 = Some (Inr ts, s')"
      using loop by (cases r) auto
    have e: "u = []" using no_set_aside[OF assms(1,2)] r u(1) by blast
    have t: "todo env [] s1 = {}"
      using repair_threads_todo[OF assms(1) log r[unfolded u(1) e]] missing_is_todo[of "[]" env s] by (auto simp: todo_def)
    have ts: "ts = threads_from_index env (threads_of env s1)"
      using u(2) list_loop_done[OF log root t] unfolding e by simp
    show ?thesis using threads_listed[OF done_case[OF t]] c assms(3) by (simp add: ts)
  qed
qed

subsection \<open>A codec\<close>

text \<open>
  A line format with the properties asked of the JSON codec, for the witnesses: fields of code points shifted by one,
  each ended by a zero, between two bells.
\<close>

definition bell_line :: "nat list list \<Rightarrow> line" where
  "bell_line fs = 7 # concat (map (\<lambda>f. map Suc f @ [0]) fs) @ [7]"

fun bell_fields :: "nat list \<Rightarrow> nat list \<Rightarrow> nat list list" where
  "bell_fields acc [] = []"
| "bell_fields acc (0 # xs) = rev acc # bell_fields [] xs"
| "bell_fields acc (Suc n # xs) = bell_fields (n # acc) xs"

definition bell_parse :: "line \<Rightarrow> nat list list" where
  "bell_parse l = bell_fields [] (butlast (tl l))"

lemma bell_field: "bell_fields acc (map Suc f @ 0 # xs) = (rev acc @ f) # bell_fields [] xs"
  by (induction f arbitrary: acc) auto

lemma bell_roundtrip: "bell_parse (bell_line fs) = fs"
proof -
  have "bell_fields [] (concat (map (\<lambda>f. map Suc f @ [0]) fs)) = fs"
    by (induction fs) (simp_all add: bell_field)
  then show ?thesis by (simp add: bell_parse_def bell_line_def)
qed

lemma bell_trim: "trim (bell_line fs) = bell_line fs \<and> bell_line fs \<noteq> []"
  by (simp add: bell_line_def trim_def is_white_def)

definition str_out :: "string \<Rightarrow> nat list" where "str_out s = map of_char s"
definition str_in :: "nat list \<Rightarrow> string" where "str_in f = map char_of f"
definition opt_out :: "string option \<Rightarrow> nat list" where "opt_out x = (case x of None \<Rightarrow> [] | Some s \<Rightarrow> 1 # str_out s)"
definition opt_in :: "nat list \<Rightarrow> string option" where "opt_in f = (case f of [] \<Rightarrow> None | _ # s \<Rightarrow> Some (str_in s))"

lemma str_roundtrip [simp]: "str_in (str_out s) = s" and opt_roundtrip [simp]: "opt_in (opt_out x) = x"
proof -
  show s: "str_in (str_out s) = s" for s by (simp add: str_in_def str_out_def o_def)
  show "opt_in (opt_out x) = x" by (simp add: opt_in_def opt_out_def s split: option.split)
qed

definition bell_message :: "conversation_message \<Rightarrow> line" where
  "bell_message m = bell_line [str_out (cv_id m), cv_content m, str_out (cv_type m), str_out (cv_extra_metadata m),
    str_out (cv_sender m), str_out (cv_created_at m)]"

definition message_of_bell :: "line \<Rightarrow> conversation_message option" where
  "message_of_bell l = (let f = bell_parse l in
     if length f = 6 then Some \<lparr>cv_id = str_in (f ! 0), cv_content = f ! 1, cv_type = str_in (f ! 2),
       cv_extra_metadata = str_in (f ! 3), cv_sender = str_in (f ! 4), cv_created_at = str_in (f ! 5)\<rparr> else None)"

fun bell_entry :: "thread_log_entry \<Rightarrow> line" where
  "bell_entry (Upsert i t c u p ls q) = bell_line ([[0], str_out i, str_out t, str_out c, str_out u, opt_out p, opt_out q] @
     (case ls of None \<Rightarrow> [] | Some xs \<Rightarrow> [1] # map str_out xs))"
| "bell_entry (Delete_Thread i d) = bell_line [[1], str_out i, str_out d]"
| "bell_entry (Message_Appended i d) = bell_line [[2], str_out i, str_out d]"
| "bell_entry (Stats i n d) = bell_line [[3], str_out i, [n], str_out d]"

definition entry_of_bell :: "line \<Rightarrow> thread_log_entry option" where
  "entry_of_bell l = (let f = bell_parse l; k = f ! 0 ! 0 in
     if f = [] then None
     else if k = 0 then Some (Upsert (str_in (f ! 1)) (str_in (f ! 2)) (str_in (f ! 3)) (str_in (f ! 4)) (opt_in (f ! 5))
       (if drop 7 f = [] then None else Some (map str_in (drop 8 f))) (opt_in (f ! 6)))
     else if k = 1 then Some (Delete_Thread (str_in (f ! 1)) (str_in (f ! 2)))
     else if k = 2 then Some (Message_Appended (str_in (f ! 1)) (str_in (f ! 2)))
     else Some (Stats (str_in (f ! 1)) (f ! 2 ! 0) (str_in (f ! 3))))"

definition bell_env :: conv_env where
  "bell_env = \<lparr>ve_show_message = bell_message, ve_parse_message = message_of_bell, ve_show_entry = bell_entry,
    ve_parse_entry = entry_of_bell, ve_quote = (\<lambda>i. map Suc (str_out i) @ [0]), ve_index = toy_index_env\<rparr>"

lemma bell_message_back: "message_of_bell (bell_message m) = Some m"
  by (simp add: message_of_bell_def bell_message_def bell_roundtrip)

lemma bell_entry_back: "entry_of_bell (bell_entry e) = Some e"
  by (cases e) (simp_all add: entry_of_bell_def bell_roundtrip o_def split: option.split)

lemma bell_codec: "codec_ok bell_env"
proof -
  have "sublist (map Suc (str_out (cv_id m)) @ [0]) (bell_message m)" for m
  proof -
    have "bell_message m = [7] @ (map Suc (str_out (cv_id m)) @ [0]) @ (concat (map (\<lambda>f. map Suc f @ [0]) [cv_content m, str_out (cv_type m),
        str_out (cv_extra_metadata m), str_out (cv_sender m), str_out (cv_created_at m)]) @ [7])"
      by (simp add: bell_message_def bell_line_def)
    then show ?thesis unfolding sublist_def by blast
  qed
  moreover have "trim (bell_entry e) = bell_entry e \<and> bell_entry e \<noteq> []" for e
    using bell_trim by (cases e) simp_all
  ultimately show ?thesis using bell_trim bell_message_back bell_entry_back
    by (simp add: codec_ok_def bell_env_def bell_message_def)
qed

definition quiet_io :: file_io where
  "quiet_io = \<lparr>fi_root = None, fi_read = (\<lambda>p. None), fi_append = (\<lambda>p. None), fi_rewrite = (\<lambda>p. None),
    fi_remove = (\<lambda>p. None), fi_remove_dir = None\<rparr>"

definition empty_files :: conv_state where
  "empty_files = \<lparr>vs_files = Map.empty, vs_cache = None, vs_pending = None\<rparr>"

theorem listing_returns_witness:
  "\<exists>r s'. list_threads (quiet_io\<lparr>fi_read := (\<lambda>p. if p = thread_messages_path ''a'' then Some ''unreadable'' else None)\<rparr>) bell_env
    (log_put bell_env (Upsert ''a'' ''title'' ''t'' ''t'' None None None) empty_files) = Some (r, s')"
  by (rule listing_returns[OF bell_codec])

end
