(* ===== verification/Conversation_Protocol.thy ===== *)
theory Conversation_Protocol
  imports Conversation_Log
begin

section \<open>Concurrent use of the conversation store\<close>

text \<open>
  Callers interleave: an append writes its row under the thread's lock and publishes it later under the metadata
  lock; a truncation rewrites the transcript, later takes the rows out of a warm index, and later still logs the
  new count; a cold build of the index snapshots the threads, reads the transcripts one by one and publishes.
  \<^verbatim>\<open>cg_flight\<close> has the appends and truncations between their parts (their thread's lock is held),
  \<^verbatim>\<open>cg_build\<close> the build's progress. The locks are the guards of the steps: an operation on a thread waits for
  the one in flight on it, a truncation and a build hold the build lock in turn, deletion and purge wait for
  everything. A truncation in flight also records the rows there were before, which no step reads.
\<close>

datatype build_phase = Idle | Begun | Scanning "string list" inverted_index

datatype flight =
    Appending conversation_message
  | Rewritten "conversation_message list" "conversation_message list"
  | Reindexed "conversation_message list" "conversation_message list"

record conv_config =
  cg_state :: conv_state
  cg_flight :: "string \<rightharpoonup> flight"
  cg_build :: build_phase

definition truncating :: "conv_config \<Rightarrow> bool" where
  "truncating c \<longleftrightarrow> (\<exists>th old kept. cg_flight c th = Some (Rewritten old kept) \<or> cg_flight c th = Some (Reindexed old kept))"

definition effects_ok :: "file_io \<Rightarrow> bool" where
  "effects_ok io \<longleftrightarrow> reads_ok io \<and> (\<forall>p. fi_remove io p = None)"

inductive conv_step :: "(file_io \<Rightarrow> bool) \<Rightarrow> conv_env \<Rightarrow> conv_config \<Rightarrow> conv_config \<Rightarrow> bool" for good env where
  ensure: "good io \<Longrightarrow> cg_flight c (cr_id request) = None \<Longrightarrow>
    conv_step good env c (c\<lparr>cg_state := snd (ensure_thread io env request (cg_state c))\<rparr>)"
| retitle: "good io \<Longrightarrow> cg_flight c th = None \<Longrightarrow>
    conv_step good env c (c\<lparr>cg_state := snd (update_thread_title io env th title now (cg_state c))\<rparr>)"
| relabel: "good io \<Longrightarrow> cg_flight c th = None \<Longrightarrow>
    conv_step good env c (c\<lparr>cg_state := snd (update_thread_labels io env th labels now (cg_state c))\<rparr>)"
| append_begin: "good io \<Longrightarrow> cg_flight c th = None \<Longrightarrow> append_write io env th m (cg_state c) = (Inr None, s') \<Longrightarrow>
    conv_step good env c (c\<lparr>cg_state := s', cg_flight := (cg_flight c)(th \<mapsto> Appending m)\<rparr>)"
| append_stop: "good io \<Longrightarrow> cg_flight c th = None \<Longrightarrow> append_write io env th m (cg_state c) = (r, s') \<Longrightarrow> r \<noteq> Inr None \<Longrightarrow>
    conv_step good env c (c\<lparr>cg_state := s'\<rparr>)"
| append_end: "good io \<Longrightarrow> cg_flight c th = Some (Appending m) \<Longrightarrow>
    conv_step good env c (c\<lparr>cg_state := snd (append_publish io env th m (cg_state c)), cg_flight := (cg_flight c)(th := None)\<rparr>)"
| patch: "good io \<Longrightarrow> cg_flight c th = None \<Longrightarrow>
    conv_step good env c (c\<lparr>cg_state := snd (update_message io env th i p (cg_state c))\<rparr>)"
| truncate_begin: "good io \<Longrightarrow> cg_flight c th = None \<Longrightarrow> cg_build c = Idle \<Longrightarrow> \<not> truncating c \<Longrightarrow>
    truncate_write io env th i (cg_state c) = (Inr (Some (n, kept)), s') \<Longrightarrow>
    conv_step good env c (c\<lparr>cg_state := s', cg_flight := (cg_flight c)(th \<mapsto> Rewritten (messages env (cg_state c) th) kept)\<rparr>)"
| truncate_stop: "good io \<Longrightarrow> cg_flight c th = None \<Longrightarrow> cg_build c = Idle \<Longrightarrow> \<not> truncating c \<Longrightarrow>
    truncate_write io env th i (cg_state c) = (r, s') \<Longrightarrow> \<forall>x. r \<noteq> Inr (Some x) \<Longrightarrow> conv_step good env c (c\<lparr>cg_state := s'\<rparr>)"
| truncate_index: "cg_flight c th = Some (Rewritten old kept) \<Longrightarrow>
    conv_step good env c (c\<lparr>cg_state := truncate_reindex env th kept (cg_state c),
      cg_flight := (cg_flight c)(th \<mapsto> Reindexed old kept)\<rparr>)"
| truncate_end: "good io \<Longrightarrow> cg_flight c th = Some (Reindexed old kept) \<Longrightarrow>
    conv_step good env c (c\<lparr>cg_state := snd (truncate_stats io env th kept (cg_state c)), cg_flight := (cg_flight c)(th := None)\<rparr>)"
| delete: "good io \<Longrightarrow> cg_flight c = Map.empty \<Longrightarrow> cg_build c = Idle \<Longrightarrow>
    conv_step good env c (c\<lparr>cg_state := snd (delete_thread io env th now (cg_state c))\<rparr>)"
| purge: "good io \<Longrightarrow> cg_flight c = Map.empty \<Longrightarrow> cg_build c = Idle \<Longrightarrow>
    conv_step good env c (c\<lparr>cg_state := snd (purge_threads io env (cg_state c))\<rparr>)"
| repair: "good io \<Longrightarrow> cg_flight c th = None \<Longrightarrow>
    conv_step good env c (c\<lparr>cg_state := snd (repair_thread io env th unreadable (cg_state c))\<rparr>)"
| build_begin: "cg_build c = Idle \<Longrightarrow> \<not> truncating c \<Longrightarrow> vs_cache (cg_state c) = None \<Longrightarrow>
    conv_step good env c (c\<lparr>cg_state := begin_index_build (cg_state c), cg_build := Begun\<rparr>)"
| build_snapshot: "good io \<Longrightarrow> cg_build c = Begun \<Longrightarrow> snapshot_threads io env (cg_state c) = (r, s') \<Longrightarrow>
    conv_step good env c (c\<lparr>cg_state := s', cg_build := (case r of Inr ids \<Rightarrow> Scanning ids new_index | Inl e \<Rightarrow> Idle)\<rparr>)"
| build_scan: "good io \<Longrightarrow> cg_build c = Scanning (th # rest) ix \<Longrightarrow> cg_flight c th = None \<Longrightarrow>
    conv_step good env c (c\<lparr>cg_build := Scanning rest (scan_thread io env (cg_state c) th ix)\<rparr>)"
| build_publish: "cg_build c = Scanning [] ix \<Longrightarrow>
    conv_step good env c (c\<lparr>cg_state := publish_index env ix (cg_state c), cg_build := Idle\<rparr>)"

text \<open>
  The process dies and another starts: the files stay, and what was in flight stays undone. A line that was being
  written is taken to be in the file or not: a crash that leaves part of a line, or a line with no line feed, which
  the next append would then run into, is not modelled.
\<close>

definition restart :: "conv_config \<Rightarrow> conv_config" where
  "restart c = \<lparr>cg_state = (cg_state c)\<lparr>vs_cache := None, vs_pending := None\<rparr>, cg_flight = Map.empty, cg_build = Idle\<rparr>"

definition conv_or_crash :: "(file_io \<Rightarrow> bool) \<Rightarrow> conv_env \<Rightarrow> conv_config \<Rightarrow> conv_config \<Rightarrow> bool" where
  "conv_or_crash good env c c' \<longleftrightarrow> conv_step good env c c' \<or> c' = restart c"

definition empty_store :: conv_config where
  "empty_store = \<lparr>cg_state = \<lparr>vs_files = Map.empty, vs_cache = None, vs_pending = None\<rparr>, cg_flight = Map.empty, cg_build = Idle\<rparr>"

subsection \<open>Documents of a thread\<close>

definition of_thread :: "inverted_index \<Rightarrow> string \<Rightarrow> doc_entry list" where
  "of_thread ix th = filter (\<lambda>e. de_thread_id e = th) (live ix)"

definition add_doc :: "doc_entry \<Rightarrow> doc_entry list \<Rightarrow> doc_entry list" where
  "add_doc d ds = (if de_message_id d \<in> de_message_id ` set ds then ds else ds @ [d])"

definition docs_of :: "conv_env \<Rightarrow> string \<Rightarrow> conversation_message list \<Rightarrow> doc_entry list" where
  "docs_of env th ms = fold add_doc (map (doc_of (ve_index env) th) ms) []"

definition journal_of :: "(string \<times> conversation_message) list \<Rightarrow> string \<Rightarrow> conversation_message list" where
  "journal_of J th = map snd (filter (\<lambda>(t, m). t = th) J)"

lemma of_thread_insert:
  assumes "index_ok ix"
  shows "of_thread (index_insert E th m ix) t = (if t = th then add_doc (doc_of E th m) (of_thread ix th) else of_thread ix t)"
proof -
  have "(th, cv_id m) \<in> doc_key ` set (live ix) \<longleftrightarrow> cv_id m \<in> de_message_id ` set (of_thread ix th)"
    by (force simp: of_thread_def doc_key_def image_iff)
  then show ?thesis
    unfolding of_thread_def live_insert[OF assms] by (auto simp: add_doc_def doc_of_def)
qed

lemma insert_all_ok: "index_ok ix \<Longrightarrow> index_ok (fold (index_insert E th) ms ix)"
  by (induction ms arbitrary: ix) (simp_all add: index_insert_ok)

lemma of_thread_insert_all:
  "index_ok ix \<Longrightarrow> of_thread (fold (index_insert E th) ms ix) t =
    (if t = th then fold add_doc (map (doc_of E th) ms) (of_thread ix th) else of_thread ix t)"
  by (induction ms arbitrary: ix) (simp_all add: index_insert_ok of_thread_insert)

lemma insert_journal_ok: "index_ok ix \<Longrightarrow> index_ok (fold (\<lambda>(t, m). index_insert E t m) J ix)"
  by (induction J arbitrary: ix) (simp_all add: index_insert_ok case_prod_beta)

lemma of_thread_journal:
  "index_ok ix \<Longrightarrow> of_thread (fold (\<lambda>(t, m). index_insert E t m) J ix) th =
    fold add_doc (map (doc_of E th) (journal_of J th)) (of_thread ix th)"
  by (induction J arbitrary: ix) (auto simp: index_insert_ok of_thread_insert journal_of_def)

lemma add_docs_ids: "de_message_id ` set (fold add_doc ds es) = de_message_id ` set es \<union> de_message_id ` set ds"
  by (induction ds arbitrary: es) (auto simp: add_doc_def)

lemma add_docs_known: "de_message_id ` set ds \<subseteq> de_message_id ` set es \<Longrightarrow> fold add_doc ds es = es"
  by (induction ds arbitrary: es) (auto simp: add_doc_def)

lemma of_thread_remove: "index_ok ix \<Longrightarrow> of_thread (index_remove_thread th ix) t = (if t = th then [] else of_thread ix t)"
  by (auto simp: of_thread_def live_remove_thread filter_empty_conv intro!: filter_cong)

lemma of_thread_new [simp]: "of_thread new_index th = []"
  by (simp add: of_thread_def)

lemma docs_of_snoc: "docs_of env th (ms @ [m]) = add_doc (doc_of (ve_index env) th m) (docs_of env th ms)"
  by (simp add: docs_of_def)

lemma docs_of_ids: "de_message_id ` set (docs_of env th ms) = cv_id ` set ms"
  by (simp add: docs_of_def add_docs_ids image_image doc_of_def)

lemma doc_id [simp]: "de_message_id (doc_of E th m) = cv_id m"
  by (simp add: doc_of_def)

subsection \<open>Transcripts under the operations\<close>

definition transcript_set :: "conv_env \<Rightarrow> string \<Rightarrow> conversation_message list \<Rightarrow> conv_state \<Rightarrow> conv_state" where
  "transcript_set env th ms s = s\<lparr>vs_files := (vs_files s)(thread_messages_path th \<mapsto> map (ve_show_message env) ms)\<rparr>"

definition canonical :: "conv_env \<Rightarrow> conv_state \<Rightarrow> bool" where
  "canonical env s \<longleftrightarrow> (\<forall>th. vs_files s (thread_messages_path th) = None \<or>
    vs_files s (thread_messages_path th) = Some (map (ve_show_message env) (messages env s th)))"

lemma parse_shown:
  "codec_ok env \<Longrightarrow> List.map_filter (\<lambda>l. let trimmed = trim l in if trimmed = [] then None else ve_parse_message env trimmed)
    (map (ve_show_message env) ms) = ms"
proof (induction ms)
  case (Cons m ms)
  have "ve_parse_message env (ve_show_message env m) = Some m" "trim (ve_show_message env m) = ve_show_message env m"
    "ve_show_message env m \<noteq> []"
    using Cons.prems by (simp_all add: codec_ok_def)
  then show ?case using Cons by (simp add: List.map_filter_simps)
qed (simp add: List.map_filter_simps)

lemmas path_facts [simp] = transcripts_unique[THEN conjunct1] transcripts_unique[THEN conjunct2]
  transcripts_unique[THEN conjunct2, symmetric]

lemma log_untouched:
  "vs_files s' THREADS_FILENAME = vs_files s THREADS_FILENAME \<Longrightarrow> threads_of env s' = threads_of env s \<and> thread_at env s' = thread_at env s"
  by (simp add: thread_at_def threads_of_def log_entries_def parsed_def)

lemma transcript_views [simp]:
  assumes "codec_ok env"
  shows "messages env (transcript_set env th ms s) = (messages env s)(th := ms)"
    "thread_at env (transcript_set env th ms s) = thread_at env s"
    "vs_cache (transcript_set env th ms s) = vs_cache s" "vs_pending (transcript_set env th ms s) = vs_pending s"
    "canonical env s \<Longrightarrow> canonical env (transcript_set env th ms s)"
proof -
  show m: "messages env (transcript_set env th ms s) = (messages env s)(th := ms)"
    using parse_shown[OF assms, of ms] by (auto simp: messages_def transcript_set_def parsed_def fun_eq_iff)
  show "thread_at env (transcript_set env th ms s) = thread_at env s"
    using log_untouched[of "transcript_set env th ms s" s env] by (simp add: transcript_set_def)
  show "vs_cache (transcript_set env th ms s) = vs_cache s" "vs_pending (transcript_set env th ms s) = vs_pending s"
    by (simp_all add: transcript_set_def)
  show "canonical env s \<Longrightarrow> canonical env (transcript_set env th ms s)"
    unfolding canonical_def m by (auto simp: transcript_set_def)
qed

lemma append_transcript:
  assumes "canonical env s"
  shows "append_jsonl io (thread_messages_path th) (ve_show_message env m) s =
    (case fi_append io (thread_messages_path th) of
       Some x \<Rightarrow> (Inl x, s)
     | None \<Rightarrow> (Inr (), transcript_set env th (messages env s th @ [m]) s))"
proof -
  have "vs_files s (thread_messages_path th) = None \<Longrightarrow> messages env s th = []" by (simp add: messages_def parsed_def)
  moreover have "vs_files s (thread_messages_path th) = None \<or>
      vs_files s (thread_messages_path th) = Some (map (ve_show_message env) (messages env s th))"
    using assms unfolding canonical_def by blast
  ultimately show ?thesis by (auto simp: append_jsonl_def transcript_set_def split: option.split)
qed

lemma find_in_transcript:
  assumes "codec_ok env" and "reads_ok io" and "canonical env s"
  shows "find_message_by_id io env (thread_messages_path th) i s = Inr (List.find (\<lambda>m. cv_id m = i) (messages env s th))"
proof -
  have find: "List.find (\<lambda>m. cv_id m = i)
      (List.map_filter (\<lambda>l. if sublist (ve_quote env i) l then ve_parse_message env l else None) (map (ve_show_message env) ms)) =
    List.find (\<lambda>m. cv_id m = i) ms" for ms
  proof (induction ms)
    case (Cons m ms)
    have "sublist (ve_quote env (cv_id m)) (ve_show_message env m)" "ve_parse_message env (ve_show_message env m) = Some m"
      using assms(1) by (simp_all add: codec_ok_def)
    then show ?case using Cons by (cases "cv_id m = i") (auto simp: List.map_filter_simps)
  qed (simp add: List.map_filter_simps)
  have "vs_files s (thread_messages_path th) = None \<Longrightarrow> messages env s th = []" by (simp add: messages_def parsed_def)
  moreover have "vs_files s (thread_messages_path th) = None \<or>
      vs_files s (thread_messages_path th) = Some (map (ve_show_message env) (messages env s th))"
    using assms unfolding canonical_def by blast
  ultimately show ?thesis using assms(2) find by (auto simp: find_message_by_id_def)
qed

lemma logged_canonical: "logged env es s s' \<Longrightarrow> canonical env s' \<longleftrightarrow> canonical env s"
  using logged_messages[of env es s s'] logged_state[of env es s s'] by (simp add: canonical_def)

lemma canonical_rooted [simp]: "canonical env (rooted s) \<longleftrightarrow> canonical env s"
  using logged_canonical[of env "[]" s "rooted s"] by simp

lemma find_member: "List.find P xs = Some x \<Longrightarrow> x \<in> set xs \<and> P x"
  by (induction xs) (auto split: if_splits)

lemma append_write_cases:
  assumes "codec_ok env" and "reads_ok io" and "canonical env s" and "append_write io env th m s = (r, s')"
  obtains (kept) "s' = s \<or> s' = rooted s" "r \<noteq> Inr None"
      "\<forall>e. r = Inr (Some e) \<longrightarrow> e \<in> set (messages env s th) \<and> cv_id e = cv_id m"
    | (row) "r = Inr None" "s' = transcript_set env th (messages env s th @ [m]) (rooted s)" "thread_at env s th \<noteq> None"
      "is_deterministic_message_id (cv_id m) \<longrightarrow> cv_id m \<notin> cv_id ` set (messages env s th)"
proof -
  have c: "canonical env (rooted s)" using assms(3) by simp
  have *: "(s' = s \<or> s' = rooted s) \<and> r \<noteq> Inr None \<and> (\<forall>e. r = Inr (Some e) \<longrightarrow> e \<in> set (messages env s th) \<and> cv_id e = cv_id m) \<or>
    r = Inr None \<and> s' = transcript_set env th (messages env s th @ [m]) (rooted s) \<and> thread_at env s th \<noteq> None \<and>
      (is_deterministic_message_id (cv_id m) \<longrightarrow> cv_id m \<notin> cv_id ` set (messages env s th))"
    using assms(4,1,2)
    by (auto simp: append_write_def op_simps append_transcript[OF c] find_in_transcript[OF assms(1,2) c] find_None_iff
        split: option.splits if_splits dest!: find_member)
  then show thesis
  proof (cases "r = Inr None")
    case True
    from * True show thesis by (intro row) simp_all
  next
    case False
    from * False have k: "(s' = s \<or> s' = rooted s) \<and> (\<forall>e. r = Inr (Some e) \<longrightarrow> e \<in> set (messages env s th) \<and> cv_id e = cv_id m)"
      by blast
    show thesis by (rule kept[OF k[THEN conjunct1] False k[THEN conjunct2]])
  qed
qed

lemma views_cache_update [simp]:
  "messages env (cache_update f s) = messages env s" "thread_at env (cache_update f s) = thread_at env s"
  "canonical env (cache_update f s) \<longleftrightarrow> canonical env s" "counted env (cache_update f s) \<longleftrightarrow> counted env s"
  "threads_of env (cache_update f s) = threads_of env s"
  "vs_pending (cache_update f s) = vs_pending s" "vs_cache (cache_update f s) = map_option f (vs_cache s)"
  by (simp_all add: cache_update_def messages_def thread_at_def threads_of_def log_entries_def parsed_def canonical_def counted_def fun_eq_iff)

lemma views_record [simp]:
  "messages env (record_index_append th m s) = messages env s" "thread_at env (record_index_append th m s) = thread_at env s"
  "canonical env (record_index_append th m s) \<longleftrightarrow> canonical env s" "threads_of env (record_index_append th m s) = threads_of env s"
  "vs_pending (record_index_append th m s) = map_option (\<lambda>J. J @ [(th, m)]) (vs_pending s)"
  "vs_cache (record_index_append th m s) = vs_cache s"
  by (simp_all add: record_index_append_def messages_def thread_at_def threads_of_def log_entries_def parsed_def canonical_def
      fun_eq_iff split: option.split)

definition published :: "conv_env \<Rightarrow> string \<Rightarrow> conversation_message \<Rightarrow> conv_state \<Rightarrow> conv_state" where
  "published env th m s = cache_update (index_insert (ve_index env) th m) (record_index_append th m s)"

lemma append_publish_effect:
  "snd (append_publish io env th m s) =
    (case fi_append io THREADS_FILENAME of
       Some x \<Rightarrow> published env th m s
     | None \<Rightarrow> log_put env (Message_Appended th (cv_created_at m)) (published env th m s))"
  by (simp add: append_publish_def op_simps published_def split: option.split)

lemma published_views [simp]:
  "messages env (published env th m s) = messages env s" "thread_at env (published env th m s) = thread_at env s"
  "canonical env (published env th m s) \<longleftrightarrow> canonical env s" "threads_of env (published env th m s) = threads_of env s"
  "vs_pending (published env th m s) = map_option (\<lambda>J. J @ [(th, m)]) (vs_pending s)"
  "vs_cache (published env th m s) = map_option (index_insert (ve_index env) th m) (vs_cache s)"
  by (simp_all add: published_def)

lemma patched_docs:
  "patch_message i p ms = (ms', u) \<Longrightarrow> map (doc_of E th) ms' = map (doc_of E th) ms \<and> map cv_id ms' = map cv_id ms \<and>
    map cv_created_at ms' = map cv_created_at ms"
  by (induction ms arbitrary: ms' u) (auto simp: doc_of_def Let_def split: if_splits prod.splits option.splits)

lemma update_message_effect:
  assumes "codec_ok env" and "reads_ok io"
  shows "snd (update_message io env th i p s) = s \<or>
    (\<exists>ms'. snd (update_message io env th i p s) = transcript_set env th ms' s \<and>
      map (doc_of (ve_index env) th) ms' = map (doc_of (ve_index env) th) (messages env s th) \<and>
      map cv_id ms' = map cv_id (messages env s th))"
proof (cases "patch_message i p (messages env s th)")
  case (Pair ms' u)
  show ?thesis using assms(2) Pair patched_docs[OF Pair]
    by (auto simp: update_message_def op_simps rewrite_jsonl_def transcript_set_def split: option.split)
qed

lemma truncate_write_cases:
  assumes "codec_ok env" and "reads_ok io" and "truncate_write io env th i s = (r, s')"
  obtains (kept) "s' = s" "\<forall>x. r \<noteq> Inr (Some x)"
    | (cut) n ks rest where "r = Inr (Some (n, ks))" "s' = transcript_set env th ks s" "messages env s th = ks @ rest" "rest \<noteq> []"
proof (cases "length (takeWhile (\<lambda>m. cv_id m \<noteq> i) (messages env s th)) = length (messages env s th) \<or>
    fi_rewrite io (thread_messages_path th) \<noteq> None")
  case True
  then show ?thesis
    using assms by (intro kept) (auto simp: truncate_write_def op_simps rewrite_jsonl_def Let_def split: if_splits)
next
  case False
  let ?kept = "takeWhile (\<lambda>m. cv_id m \<noteq> i) (messages env s th)"
  have split: "messages env s th = ?kept @ dropWhile (\<lambda>m. cv_id m \<noteq> i) (messages env s th)" by simp
  moreover have "dropWhile (\<lambda>m. cv_id m \<noteq> i) (messages env s th) \<noteq> []"
    using False split by (metis append_Nil2)
  moreover have "r = Inr (Some (length (messages env s th) - length ?kept, ?kept))" "s' = transcript_set env th ?kept s"
    using False assms by (auto simp: truncate_write_def op_simps rewrite_jsonl_def transcript_set_def Let_def)
  ultimately show ?thesis by (intro cut)
qed

lemma truncate_stats_effect:
  assumes "codec_ok env" and "reads_ok io"
  obtains (failed) "logged env [] s (snd (truncate_stats io env th kept s))" "fi_append io THREADS_FILENAME \<noteq> None \<or> fi_root io \<noteq> None"
    | (counted) l where "logged env [Stats th (length kept) l] s (snd (truncate_stats io env th kept s))"
proof -
  have "logged env [] s (snd (truncate_stats io env th kept s)) \<and> (fi_append io THREADS_FILENAME \<noteq> None \<or> fi_root io \<noteq> None) \<or>
      (\<exists>l. logged env [Stats th (length kept) l] s (snd (truncate_stats io env th kept s)))"
    using assms by (auto simp: truncate_stats_def op_simps split: option.split)
  then show thesis using failed counted by blast
qed

lemma views_reindex [simp]:
  "messages env (truncate_reindex env th kept s) = messages env s" "thread_at env (truncate_reindex env th kept s) = thread_at env s"
  "canonical env (truncate_reindex env th kept s) \<longleftrightarrow> canonical env s" "threads_of env (truncate_reindex env th kept s) = threads_of env s"
  "vs_pending (truncate_reindex env th kept s) = vs_pending s"
  "vs_cache (truncate_reindex env th kept s) = map_option (reindex_thread env th kept) (vs_cache s)"
  by (simp_all add: truncate_reindex_def)

definition forgotten :: "conv_env \<Rightarrow> string \<Rightarrow> conv_state \<Rightarrow> conv_state" where
  "forgotten env th s = cache_update (index_remove_thread th)
    (if vs_files s (thread_messages_path th) = None then s else s\<lparr>vs_files := (vs_files s)(thread_messages_path th := None)\<rparr>)"

lemma forgotten_views [simp]:
  "messages env (forgotten env th s) = (messages env s)(th := [])" "thread_at env (forgotten env th s) = thread_at env s"
  "vs_pending (forgotten env th s) = vs_pending s" "vs_cache (forgotten env th s) = map_option (index_remove_thread th) (vs_cache s)"
  "canonical env s \<Longrightarrow> canonical env (forgotten env th s)"
proof -
  show m: "messages env (forgotten env th s) = (messages env s)(th := [])"
    by (auto simp: forgotten_def messages_def parsed_def fun_eq_iff cache_update_def)
  show "thread_at env (forgotten env th s) = thread_at env s"
    using log_untouched[of "forgotten env th s" s env] by (simp add: forgotten_def cache_update_def)
  show "vs_pending (forgotten env th s) = vs_pending s" "vs_cache (forgotten env th s) = map_option (index_remove_thread th) (vs_cache s)"
    by (simp_all add: forgotten_def)
  show "canonical env s \<Longrightarrow> canonical env (forgotten env th s)"
    unfolding canonical_def m by (auto simp: forgotten_def cache_update_def)
qed

lemma delete_effect:
  assumes "codec_ok env" and "effects_ok io"
  shows "logged env [] s (snd (delete_thread io env th at' s)) \<or>
    (\<exists>s1. logged env [Delete_Thread th at'] s s1 \<and> snd (delete_thread io env th at' s) = forgotten env th s1)"
proof -
  let ?s1 = "log_put env (Delete_Thread th at') (rooted s)"
  have "logged env [Delete_Thread th at'] s ?s1" using assms(1) by simp
  moreover have "logged env [] s (snd (delete_thread io env th at' s)) \<or> snd (delete_thread io env th at' s) = forgotten env th ?s1"
    using assms by (auto simp: effects_ok_def delete_thread_def op_simps remove_file_def forgotten_def split: option.split)
  ultimately show ?thesis by blast
qed

lemma reconcile_effect:
  assumes "codec_ok env" and "reads_ok io"
  shows "\<exists>es. logged env es s (snd (reconcile_threads io env ts index s)) \<and> (\<forall>e\<in>set es. \<exists>t l. e = Stats t (length (messages env s t)) l)"
proof (induction ts arbitrary: index s)
  case (Cons t ts)
  have measure: "measure_messages io env t s =
      Inr (let ms = messages env s t in (length ms, if ms = [] then None else Some (cv_created_at (last ms))))"
    using assms(2) by (simp add: measure_messages_def Let_def)
  obtain l d index' where eq: "reconcile_threads io env (t # ts) index s =
      op_bind (if d then log_append io env (Stats t (length (messages env s t)) l) else op_return ())
        (\<lambda>_. reconcile_threads io env ts index') s"
    by (simp add: measure Let_def)
  show ?case
  proof (cases "d \<and> fi_append io THREADS_FILENAME = None")
    case True
    let ?e = "Stats t (length (messages env s t)) l" and ?s = "log_put env (Stats t (length (messages env s t)) l) s"
    obtain es where es: "logged env es ?s (snd (reconcile_threads io env ts index' ?s))"
      "\<forall>e\<in>set es. \<exists>t l. e = Stats t (length (messages env ?s t)) l"
      using Cons.IH[of ?s index'] by blast
    have "logged env [?e] s ?s" using assms(1) by simp
    from logged_trans[OF this es(1)] show ?thesis
      using True es(2) assms(1) unfolding eq by (intro exI[of _ "?e # es"]) (simp add: op_bind_def log_append_eq)
  next
    case False
    then show ?thesis using Cons.IH[of s index'] unfolding eq
      by (cases d) (auto simp: op_bind_def log_append_eq op_return_def intro: exI[of _ "[]"])
  qed
qed (auto intro: exI[of _ "[]"])

definition stat_entries :: "conv_env \<Rightarrow> conv_state \<Rightarrow> thread_log_entry list \<Rightarrow> bool" where
  "stat_entries env s es \<longleftrightarrow> (\<forall>e\<in>set es. \<exists>t l. e = Stats t (length (messages env s t)) l)"

lemma listing_effect:
  assumes "codec_ok env" and "reads_ok io"
  shows "\<exists>es. logged env es s (snd (list_threads_unlocked io env s)) \<and> stat_entries env s es"
proof (cases "fi_root io")
  case None
  let ?ids = "map fst (filter (\<lambda>(t, entry). missing_stats entry) (threads_of env s))"
  show ?thesis
  proof (cases "?ids = []")
    case True
    then show ?thesis using None assms
      by (intro exI[of _ "[]"]) (simp add: list_threads_unlocked_def op_simps stat_entries_def)
  next
    case False
    obtain es where es: "logged env es (rooted s) (snd (reconcile_threads io env ?ids (threads_of env s) (rooted s)))"
      "\<forall>e\<in>set es. \<exists>t l. e = Stats t (length (messages env (rooted s) t)) l"
      using reconcile_effect[OF assms] by blast
    have "snd (list_threads_unlocked io env s) = snd (reconcile_threads io env ?ids (threads_of env s) (rooted s))"
      using None False assms
      by (auto simp: list_threads_unlocked_def op_simps Let_def split: prod.split sum.split)
    moreover have "logged env es s (snd (reconcile_threads io env ?ids (threads_of env s) (rooted s)))"
      using logged_trans[of env "[]" s "rooted s", OF _ es(1)] by simp
    ultimately show ?thesis using es(2) by (intro exI[of _ es]) (simp add: stat_entries_def)
  qed
next
  case (Some x)
  then show ?thesis using assms
    by (intro exI[of _ "[]"]) (simp add: list_threads_unlocked_def op_simps stat_entries_def)
qed

lemma purge_effect:
  assumes "codec_ok env" and "reads_ok io"
  shows "(\<exists>es. logged env es s (snd (purge_threads io env s)) \<and> stat_entries env s es) \<or>
    vs_files (snd (purge_threads io env s)) = [THREADS_FILENAME \<mapsto> []] \<and> vs_cache (snd (purge_threads io env s)) = None \<and>
      vs_pending (snd (purge_threads io env s)) = vs_pending s"
proof -
  obtain es where es: "logged env es s (snd (list_threads_unlocked io env s))" "stat_entries env s es"
    using listing_effect[OF assms] by blast
  obtain r s1 where l: "list_threads_unlocked io env s = (r, s1)" by (cases "list_threads_unlocked io env s")
  have p: "vs_pending s1 = vs_pending s" using logged_state[OF es(1)] l by simp
  show ?thesis
  proof (cases "(\<exists>x. r = Inl x) \<or> fi_remove_dir io \<noteq> None")
    case True
    then have "snd (purge_threads io env s) = s1" using l by (auto simp: purge_threads_def op_bind_def Let_def split: option.split sum.split)
    then show ?thesis using es l by auto
  next
    case False
    then obtain ts where ts: "r = Inr ts" by (cases r) auto
    have root: "fi_root io = None"
      using l ts assms by (cases "fi_root io") (simp_all add: list_threads_unlocked_def op_simps)
    then show ?thesis using False ts l p by (simp add: purge_threads_def op_simps Let_def rooted_def)
  qed
qed

lemma snapshot_effect:
  assumes "reads_ok io" and "snapshot_threads io env s = (r, s')"
  obtains (failed) x where "r = Inl x" "s' = s\<lparr>vs_pending := None\<rparr>"
    | (taken) "r = Inr (map fst (threads_of env s))" "s' = rooted s"
  using assms by (auto simp: snapshot_threads_def op_simps split: option.splits)

subsection \<open>The invariant\<close>

text \<open>
  What the index must hold: the row of an append in flight is not yet in, and the rows a truncation in flight has
  taken out of the transcript are still in until it reaches the index.
\<close>

definition settled :: "conv_env \<Rightarrow> conv_config \<Rightarrow> string \<Rightarrow> conversation_message list" where
  "settled env c th =
    (case cg_flight c th of
       None \<Rightarrow> messages env (cg_state c) th
     | Some (Appending m) \<Rightarrow> butlast (messages env (cg_state c) th)
     | Some (Rewritten old kept) \<Rightarrow> old
     | Some (Reindexed old kept) \<Rightarrow> messages env (cg_state c) th)"

definition index_agrees :: "conv_env \<Rightarrow> (string \<Rightarrow> conversation_message list) \<Rightarrow> inverted_index \<Rightarrow> bool" where
  "index_agrees env S ix \<longleftrightarrow> index_ok ix \<and> (\<forall>th. of_thread ix th = docs_of env th (S th))"

definition journaled_ids :: "(string \<times> conversation_message) list \<Rightarrow> string \<Rightarrow> string set" where
  "journaled_ids J th = cv_id ` set (journal_of J th)"

definition build_inv :: "conv_env \<Rightarrow> (string \<Rightarrow> conversation_message list) \<Rightarrow> conv_state \<Rightarrow> build_phase \<Rightarrow> bool" where
  "build_inv env S s b \<longleftrightarrow>
    (case b of
       Idle \<Rightarrow> vs_pending s = None \<and> (\<forall>ix. vs_cache s = Some ix \<longrightarrow> index_agrees env S ix)
     | Begun \<Rightarrow> vs_cache s = None \<and> (\<exists>J. vs_pending s = Some J \<and> (\<forall>th. journaled_ids J th \<subseteq> cv_id ` set (S th)))
     | Scanning R ix \<Rightarrow> vs_cache s = None \<and> distinct R \<and> index_ok ix \<and>
         (\<exists>J. vs_pending s = Some J \<and>
           (\<forall>th\<in>set R. of_thread ix th = [] \<and> journaled_ids J th \<subseteq> cv_id ` set (S th)) \<and>
           (\<forall>th. th \<notin> set R \<longrightarrow>
             fold add_doc (map (doc_of (ve_index env) th) (journal_of J th)) (of_thread ix th) = docs_of env th (S th))))"

definition store_inv :: "conv_env \<Rightarrow> conv_state \<Rightarrow> bool" where
  "store_inv env s \<longleftrightarrow> canonical env s \<and>
    (\<forall>th. distinct (filter is_deterministic_message_id (map cv_id (messages env s th))) \<and>
      (messages env s th \<noteq> [] \<longrightarrow> thread_at env s th \<noteq> None))"

text \<open>What is known of an operation in flight on a live thread, whose rows are \<^verbatim>\<open>ms\<close>.\<close>

fun flight_ok :: "conversation_message list \<Rightarrow> build_phase \<Rightarrow> flight \<Rightarrow> bool" where
  "flight_ok ms b (Appending m) \<longleftrightarrow> (\<exists>before. ms = before @ [m])"
| "flight_ok ms b (Rewritten old kept) \<longleftrightarrow> ms = kept \<and> length kept < length old \<and> b = Idle"
| "flight_ok ms b (Reindexed old kept) \<longleftrightarrow> ms = kept \<and> length kept < length old \<and> b = Idle"

definition flight_inv :: "conv_env \<Rightarrow> conv_config \<Rightarrow> bool" where
  "flight_inv env c \<longleftrightarrow> (\<forall>th f. cg_flight c th = Some f \<longrightarrow> thread_at env (cg_state c) th \<noteq> None \<and>
    flight_ok (messages env (cg_state c) th) (cg_build c) f)"

lemma flight_at:
  "flight_inv env c \<Longrightarrow> cg_flight c th = Some f \<Longrightarrow>
    thread_at env (cg_state c) th \<noteq> None \<and> flight_ok (messages env (cg_state c) th) (cg_build c) f"
  by (simp add: flight_inv_def)

lemma settled_cong:
  assumes "cg_flight c' = cg_flight c" and "messages env (cg_state c') = messages env (cg_state c)"
  shows "settled env c' = settled env c"
  by (rule ext) (simp add: settled_def assms split: option.split flight.split)

lemma flight_ok_phase:
  "flight_ok ms b f \<Longrightarrow> cg_flight c th = Some f \<Longrightarrow> b' = Idle \<or> b \<noteq> Idle \<or> \<not> truncating c \<Longrightarrow> flight_ok ms b' f"
  by (cases f) (auto simp: truncating_def)

lemma flight_phase:
  assumes "flight_inv env c" and "vs_files s' = vs_files (cg_state c)" and "b = Idle \<or> cg_build c \<noteq> Idle \<or> \<not> truncating c"
  shows "flight_inv env (c\<lparr>cg_state := s', cg_build := b\<rparr>)"
proof -
  have "messages env s' = messages env (cg_state c)" "thread_at env s' = thread_at env (cg_state c)"
    using assms(2) by (simp_all add: messages_def thread_at_def threads_of_def log_entries_def parsed_def fun_eq_iff)
  then show ?thesis
    using assms(1) flight_ok_phase[OF _ _ assms(3)] by (simp add: flight_inv_def)
qed

definition conv_inv :: "conv_env \<Rightarrow> conv_config \<Rightarrow> bool" where
  "conv_inv env c \<longleftrightarrow> store_inv env (cg_state c) \<and> flight_inv env c \<and> build_inv env (settled env c) (cg_state c) (cg_build c)"

lemma build_inv_docs:
  assumes "\<forall>th. map (doc_of (ve_index env) th) (S' th) = map (doc_of (ve_index env) th) (S th)"
    and "vs_cache s' = vs_cache s" and "vs_pending s' = vs_pending s" and "build_inv env S s b"
  shows "build_inv env S' s' b"
proof -
  have docs: "docs_of env th (S' th) = docs_of env th (S th)" for th using assms(1) by (simp add: docs_of_def)
  have ids: "cv_id ` set (S' th) = cv_id ` set (S th)" for th using docs[of th] docs_of_ids by metis
  show ?thesis using assms(2,3,4) unfolding build_inv_def index_agrees_def docs ids by (cases b) auto
qed

lemma inv_same_state:
  assumes "conv_inv env c" and "messages env s' = messages env (cg_state c)" and "canonical env s'"
    and "vs_cache s' = vs_cache (cg_state c)" and "vs_pending s' = vs_pending (cg_state c)"
    and "\<forall>th. thread_at env (cg_state c) th \<noteq> None \<longrightarrow> thread_at env s' th \<noteq> None"
  shows "conv_inv env (c\<lparr>cg_state := s'\<rparr>)"
proof -
  have settled: "settled env (c\<lparr>cg_state := s'\<rparr>) = settled env c" by (rule settled_cong) (simp_all add: assms(2))
  have "build_inv env (settled env c) s' (cg_build c)"
    by (rule build_inv_docs[of _ _ "settled env c" _ "cg_state c"]) (use assms in \<open>simp_all add: conv_inv_def\<close>)
  moreover have "store_inv env s'" using assms(1,2,3,6) by (simp add: conv_inv_def store_inv_def)
  moreover have "flight_inv env (c\<lparr>cg_state := s'\<rparr>)" using assms(1,2,6) by (auto simp: conv_inv_def flight_inv_def)
  ultimately show ?thesis by (simp add: conv_inv_def settled)
qed

lemma inv_logged:
  assumes "conv_inv env c" and "logged env es (cg_state c) s'"
    and "\<forall>e\<in>set es. \<forall>t d. e \<noteq> Delete_Thread t d"
  shows "conv_inv env (c\<lparr>cg_state := s'\<rparr>)"
proof -
  have grows: "map_of index th \<noteq> None \<Longrightarrow> map_of (fold_entry e index) th \<noteq> None" if "\<forall>t d. e \<noteq> Delete_Thread t d" for e index th
    using that by (cases e) (auto simp: map_of_bt_put split: option.split)
  have "map_of index th \<noteq> None \<Longrightarrow> map_of (fold fold_entry es index) th \<noteq> None" for index th
    using assms(3)
  proof (induction es arbitrary: index)
    case (Cons e es)
    then show ?case using grows[of e index th] by (simp del: not_None_eq)
  qed simp
  then have "\<forall>th. thread_at env (cg_state c) th \<noteq> None \<longrightarrow> thread_at env s' th \<noteq> None"
    unfolding thread_at_def logged_threads[OF assms(2)] by blast
  then show ?thesis
    using assms(1) logged_messages[OF assms(2)] logged_state[OF assms(2)] logged_canonical[OF assms(2)]
    by (intro inv_same_state) (simp_all add: conv_inv_def store_inv_def)
qed

lemma inv_logged_at:
  assumes "conv_inv env c" and "logged env es (cg_state c) (cg_state c')" and "\<forall>e\<in>set es. \<forall>t d. e \<noteq> Delete_Thread t d"
    and "cg_flight c' = cg_flight c" and "cg_build c' = cg_build c"
  shows "conv_inv env c'"
proof -
  have "c' = c\<lparr>cg_state := cg_state c'\<rparr>" using assms(4,5) by (cases c; cases c') simp
  then show ?thesis using inv_logged[OF assms(1-3)] by simp
qed

lemma journal_snoc: "journal_of (J @ [(t, m)]) th = (if t = th then journal_of J th @ [m] else journal_of J th)"
  by (simp add: journal_of_def)

lemma build_publish_inv:
  assumes "build_inv env S s b"
    and "vs_cache s' = map_option (index_insert (ve_index env) th m) (vs_cache s)"
    and "vs_pending s' = map_option (\<lambda>J. J @ [(th, m)]) (vs_pending s)"
  shows "build_inv env (S(th := S th @ [m])) s' b"
proof (cases b)
  case Idle
  show ?thesis
    using assms unfolding Idle
    by (auto simp: build_inv_def index_agrees_def index_insert_ok of_thread_insert docs_of_snoc)
next
  case Begun
  then obtain J where J: "vs_pending s = Some J" "vs_cache s = None" "\<forall>th. journaled_ids J th \<subseteq> cv_id ` set (S th)"
    using assms(1) by (auto simp: build_inv_def)
  have "journaled_ids (J @ [(th, m)]) t \<subseteq> cv_id ` set ((S(th := S th @ [m])) t)" for t
    using J(3)[THEN spec, of t] by (auto simp: journaled_ids_def journal_snoc)
  then show ?thesis using J assms Begun by (simp add: build_inv_def)
next
  case (Scanning R ix)
  then obtain J where J: "vs_pending s = Some J" "vs_cache s = None" "\<forall>t\<in>set R. of_thread ix t = [] \<and> journaled_ids J t \<subseteq> cv_id ` set (S t)"
    "\<forall>t. t \<notin> set R \<longrightarrow> fold add_doc (map (doc_of (ve_index env) t) (journal_of J t)) (of_thread ix t) = docs_of env t (S t)"
    "distinct R" "index_ok ix"
    using assms(1) by (auto simp: build_inv_def)
  have "of_thread ix t = [] \<and> journaled_ids (J @ [(th, m)]) t \<subseteq> cv_id ` set ((S(th := S th @ [m])) t)" if "t \<in> set R" for t
    using J(3) that by (auto simp: journaled_ids_def journal_snoc)
  moreover have "fold add_doc (map (doc_of (ve_index env) t) (journal_of (J @ [(th, m)]) t)) (of_thread ix t) =
      docs_of env t ((S(th := S th @ [m])) t)" if "t \<notin> set R" for t
    using J(4)[THEN spec, of t] that by (auto simp: journal_snoc docs_of_snoc)
  ultimately show ?thesis using J assms Scanning by (simp add: build_inv_def)
qed

lemma append_end_inv:
  assumes "codec_ok env" and "conv_inv env c" and "cg_flight c th = Some (Appending m)"
  shows "conv_inv env (c\<lparr>cg_state := snd (append_publish io env th m (cg_state c)), cg_flight := (cg_flight c)(th := None)\<rparr>)"
proof -
  let ?s = "cg_state c" and ?c = "c\<lparr>cg_state := published env th m (cg_state c), cg_flight := (cg_flight c)(th := None)\<rparr>"
  obtain ms where ms: "messages env ?s th = ms @ [m]" using assms(2,3) flight_at[of env c th] by (auto simp: conv_inv_def)
  have "settled env ?c = (settled env c)(th := settled env c th @ [m])"
    using ms assms(3) by (auto simp: settled_def fun_eq_iff split: option.split flight.split)
  moreover have "build_inv env ((settled env c)(th := settled env c th @ [m])) (published env th m ?s) (cg_build c)"
    using assms(2) by (intro build_publish_inv[of _ _ ?s]) (simp_all add: conv_inv_def)
  ultimately have "conv_inv env ?c"
    using assms(2) by (auto simp: conv_inv_def store_inv_def flight_inv_def)
  then show ?thesis
  proof (cases "fi_append io THREADS_FILENAME")
    case None
    show ?thesis
      by (rule inv_logged_at[OF \<open>conv_inv env ?c\<close>, of "[Message_Appended th (cv_created_at m)]"])
        (use None assms(1) in \<open>simp_all add: append_publish_effect\<close>)
  qed (simp add: append_publish_effect)
qed

lemma append_begin_inv:
  assumes "codec_ok env" and "reads_ok io" and "conv_inv env c" and "cg_flight c th = None"
    and "append_write io env th m (cg_state c) = (Inr None, s')"
  shows "conv_inv env (c\<lparr>cg_state := s', cg_flight := (cg_flight c)(th \<mapsto> Appending m)\<rparr>)"
proof -
  let ?s = "cg_state c"
  have can: "canonical env ?s" using assms(3) by (simp add: conv_inv_def store_inv_def)
  have s': "s' = transcript_set env th (messages env ?s th @ [m]) (rooted ?s)" and live: "thread_at env ?s th \<noteq> None"
    and det: "is_deterministic_message_id (cv_id m) \<longrightarrow> cv_id m \<notin> cv_id ` set (messages env ?s th)"
    using append_write_cases[OF assms(1,2) can assms(5)] by simp_all
  have views: "messages env s' = (messages env ?s)(th := messages env ?s th @ [m])" "thread_at env s' = thread_at env ?s"
    "vs_cache s' = vs_cache ?s" "vs_pending s' = vs_pending ?s" "canonical env s'"
    using assms(1) can logged_state[of env "[]" ?s "rooted ?s"] by (simp_all add: s')
  let ?c = "c\<lparr>cg_state := s', cg_flight := (cg_flight c)(th \<mapsto> Appending m)\<rparr>"
  have settled: "settled env ?c = settled env c"
    using assms(4) views(1) by (auto simp: settled_def fun_eq_iff split: option.split flight.split)
  have "build_inv env (settled env c) s' (cg_build c)"
    by (rule build_inv_docs[of _ _ "settled env c" _ ?s]) (use assms(3) views in \<open>simp_all add: conv_inv_def\<close>)
  moreover have "store_inv env s'"
    using assms(3) views live det by (auto simp: conv_inv_def store_inv_def)
  moreover have "flight_inv env ?c" using assms(3) views live by (auto simp: conv_inv_def flight_inv_def)
  ultimately show ?thesis by (simp add: conv_inv_def settled)
qed

lemma settled_at: "cg_flight c th = None \<Longrightarrow> settled env c th = messages env (cg_state c) th"
  by (simp add: settled_def)

lemma store_inv_upd:
  assumes "store_inv env s" and "canonical env s'" and "messages env s' = (messages env s)(th := ms)"
    and "thread_at env s' = thread_at env s" and "map cv_id ms @ rest = map cv_id (messages env s th)"
  shows "store_inv env s'"
proof -
  have "distinct (filter is_deterministic_message_id (map cv_id ms @ rest))" using assms(1,5) by (simp add: store_inv_def)
  moreover have "messages env s th \<noteq> []" if "ms \<noteq> []" using that assms(5) by auto
  ultimately show ?thesis using assms(1-4) by (auto simp: store_inv_def)
qed

lemma patch_inv:
  assumes "codec_ok env" and "reads_ok io" and "conv_inv env c" and "cg_flight c th = None"
  shows "conv_inv env (c\<lparr>cg_state := snd (update_message io env th i p (cg_state c))\<rparr>)"
  using update_message_effect[OF assms(1,2), of th i p "cg_state c"]
proof (elim disjE exE conjE)
  let ?s = "cg_state c"
  fix ms'
  assume s': "snd (update_message io env th i p ?s) = transcript_set env th ms' ?s"
    and docs: "map (doc_of (ve_index env) th) ms' = map (doc_of (ve_index env) th) (messages env ?s th)"
    and ids: "map cv_id ms' = map cv_id (messages env ?s th)"
  let ?c = "c\<lparr>cg_state := transcript_set env th ms' ?s\<rparr>"
  have can: "canonical env ?s" using assms(3) by (simp add: conv_inv_def store_inv_def)
  have settled: "settled env ?c = (settled env c)(th := ms')"
    using assms(1,4) by (auto simp: settled_def fun_eq_iff split: option.split flight.split)
  have "build_inv env (settled env ?c) (transcript_set env th ms' ?s) (cg_build c)"
    by (rule build_inv_docs[of _ _ "settled env c" _ ?s])
      (use assms(1,3,4) docs in \<open>simp_all add: conv_inv_def settled settled_at\<close>)
  moreover have "store_inv env (transcript_set env th ms' ?s)"
    by (rule store_inv_upd[of _ ?s _ th ms' "[]"]) (use assms(1,3) can ids in \<open>simp_all add: conv_inv_def\<close>)
  moreover have "flight_inv env ?c" using assms(1,3,4) by (auto simp: conv_inv_def flight_inv_def)
  ultimately show ?thesis by (simp add: conv_inv_def s')
qed (use assms(3) in simp)

lemma truncate_begin_inv:
  assumes "codec_ok env" and "conv_inv env c" and "cg_flight c th = None" and "cg_build c = Idle"
    and "messages env (cg_state c) th = kept @ rest" and "rest \<noteq> []"
  shows "conv_inv env (c\<lparr>cg_state := transcript_set env th kept (cg_state c),
    cg_flight := (cg_flight c)(th \<mapsto> Rewritten (messages env (cg_state c) th) kept)\<rparr>)"
proof -
  let ?s = "cg_state c" and ?s' = "transcript_set env th kept (cg_state c)"
  let ?c = "c\<lparr>cg_state := ?s', cg_flight := (cg_flight c)(th \<mapsto> Rewritten (messages env ?s th) kept)\<rparr>"
  have can: "canonical env ?s" using assms(2) by (simp add: conv_inv_def store_inv_def)
  have settled: "settled env ?c = settled env c"
    using assms(1,3) by (auto simp: settled_def fun_eq_iff split: option.split flight.split)
  have "build_inv env (settled env c) ?s' (cg_build c)"
    by (rule build_inv_docs[of _ _ "settled env c" _ ?s]) (use assms(1,2) in \<open>simp_all add: conv_inv_def\<close>)
  moreover have "store_inv env ?s'"
    by (rule store_inv_upd[of _ ?s _ th kept "map cv_id rest"]) (use assms(1,2,5) can in \<open>simp_all add: conv_inv_def\<close>)
  moreover have live: "thread_at env ?s th \<noteq> None" using assms(2,5,6) by (auto simp: conv_inv_def store_inv_def)
  moreover have "flight_inv env ?c"
    using assms(1-6) live by (auto simp: conv_inv_def flight_inv_def)
  ultimately show ?thesis by (simp add: conv_inv_def settled)
qed

lemma truncate_index_inv:
  assumes "conv_inv env c" and "cg_flight c th = Some (Rewritten old kept)"
  shows "conv_inv env (c\<lparr>cg_state := truncate_reindex env th kept (cg_state c),
    cg_flight := (cg_flight c)(th \<mapsto> Reindexed old kept)\<rparr>)"
proof -
  let ?s = "cg_state c"
  let ?c = "c\<lparr>cg_state := truncate_reindex env th kept ?s, cg_flight := (cg_flight c)(th \<mapsto> Reindexed old kept)\<rparr>"
  have f: "messages env ?s th = kept" "cg_build c = Idle" "thread_at env ?s th \<noteq> None" "length kept < length old"
    using assms flight_at[of env c th] by (auto simp: conv_inv_def)
  have settled: "settled env ?c = (settled env c)(th := kept)"
    using f(1) by (auto simp: settled_def fun_eq_iff split: option.split flight.split)
  have "index_agrees env ((settled env c)(th := kept)) (reindex_thread env th kept ix)" if "index_agrees env (settled env c) ix" for ix
    using that by (auto simp: index_agrees_def reindex_thread_def index_remove_thread_ok insert_all_ok of_thread_insert_all of_thread_remove
        docs_of_def)
  then have "build_inv env (settled env ?c) (truncate_reindex env th kept ?s) Idle"
    using assms(1) f(2) unfolding settled by (auto simp: conv_inv_def build_inv_def)
  moreover have "store_inv env (truncate_reindex env th kept ?s)" using assms(1) by (simp add: conv_inv_def store_inv_def)
  moreover have "flight_inv env ?c" using assms(1) f by (auto simp: conv_inv_def flight_inv_def)
  ultimately show ?thesis using f(2) by (simp add: conv_inv_def)
qed

lemma truncate_end_inv:
  assumes "codec_ok env" and "reads_ok io" and "conv_inv env c" and "cg_flight c th = Some (Reindexed old kept)"
  shows "conv_inv env (c\<lparr>cg_state := snd (truncate_stats io env th kept (cg_state c)), cg_flight := (cg_flight c)(th := None)\<rparr>)"
proof -
  let ?c = "c\<lparr>cg_flight := (cg_flight c)(th := None)\<rparr>"
  have "settled env ?c = settled env c"
    using assms(4) by (auto simp: settled_def fun_eq_iff split: option.split flight.split)
  then have c: "conv_inv env ?c" using assms(3) by (auto simp: conv_inv_def flight_inv_def)
  show ?thesis
  proof (rule truncate_stats_effect[OF assms(1,2), of "cg_state c" th kept])
    assume l: "logged env [] (cg_state c) (snd (truncate_stats io env th kept (cg_state c)))"
    show ?thesis by (rule inv_logged_at[OF c, of "[]"]) (use l in simp_all)
  next
    fix l assume l: "logged env [Stats th (length kept) l] (cg_state c) (snd (truncate_stats io env th kept (cg_state c)))"
    show ?thesis by (rule inv_logged_at[OF c, of "[Stats th (length kept) l]"]) (use l in simp_all)
  qed
qed

lemma delete_inv:
  assumes "codec_ok env" and "effects_ok io" and "conv_inv env c" and "cg_flight c = Map.empty" and "cg_build c = Idle"
  shows "conv_inv env (c\<lparr>cg_state := snd (delete_thread io env th at' (cg_state c))\<rparr>)"
  using delete_effect[OF assms(1,2), of "cg_state c" th at']
proof (elim disjE exE conjE)
  let ?s = "cg_state c"
  assume "logged env [] ?s (snd (delete_thread io env th at' ?s))"
  then show ?thesis using inv_logged[OF assms(3)] by simp
next
  let ?s = "cg_state c"
  fix s1
  assume l: "logged env [Delete_Thread th at'] ?s s1" and f: "snd (delete_thread io env th at' ?s) = forgotten env th s1"
  have m: "messages env s1 = messages env ?s" and st: "vs_cache s1 = vs_cache ?s" "vs_pending s1 = vs_pending ?s"
    and can: "canonical env s1"
    using logged_messages[OF l] logged_state[OF l] logged_canonical[OF l] assms(3) by (auto simp: conv_inv_def store_inv_def)
  have at: "thread_at env s1 = (thread_at env ?s)(th := None)" unfolding logged_one[OF l] by (simp add: map_of_bt_remove thread_at_def)
  let ?c = "c\<lparr>cg_state := forgotten env th s1\<rparr>"
  have settled: "settled env ?c = (settled env c)(th := [])" using assms(4) by (simp add: settled_def fun_eq_iff m)
  have "index_agrees env ((settled env c)(th := [])) (index_remove_thread th ix)" if "index_agrees env (settled env c) ix" for ix
    using that by (auto simp: index_agrees_def index_remove_thread_ok of_thread_remove docs_of_def)
  then have "build_inv env (settled env ?c) (forgotten env th s1) Idle"
    using assms(3,5) st unfolding settled by (auto simp: conv_inv_def build_inv_def)
  moreover have "store_inv env (forgotten env th s1)"
    using assms(3) can by (auto simp: conv_inv_def store_inv_def m at)
  moreover have "flight_inv env ?c" using assms(4) by (simp add: flight_inv_def)
  ultimately show ?thesis using assms(5) f by (simp add: conv_inv_def)
qed

lemma wiped_views:
  assumes "vs_files s = [THREADS_FILENAME \<mapsto> []]"
  shows "messages env s th = []" "canonical env s" "thread_at env s = Map.empty"
  using assms by (simp_all add: messages_def parsed_def canonical_def thread_at_def threads_of_def log_entries_def List.map_filter_simps)

lemma purge_inv:
  assumes "codec_ok env" and "reads_ok io" and "conv_inv env c" and "cg_flight c = Map.empty" and "cg_build c = Idle"
  shows "conv_inv env (c\<lparr>cg_state := snd (purge_threads io env (cg_state c))\<rparr>)"
  using purge_effect[OF assms(1,2), of "cg_state c"]
proof (elim disjE exE conjE)
  fix es assume l: "logged env es (cg_state c) (snd (purge_threads io env (cg_state c)))" and e: "stat_entries env (cg_state c) es"
  show ?thesis by (rule inv_logged[OF assms(3) l]) (use e in \<open>auto simp: stat_entries_def\<close>)
next
  let ?s' = "snd (purge_threads io env (cg_state c))"
  assume w: "vs_files ?s' = [THREADS_FILENAME \<mapsto> []]" and "vs_cache ?s' = None" "vs_pending ?s' = vs_pending (cg_state c)"
  then show ?thesis using assms(3,4,5)
    by (auto simp: conv_inv_def store_inv_def flight_inv_def build_inv_def wiped_views[OF w])
qed

lemma repair_inv:
  assumes "codec_ok env" and "reads_ok io" and "conv_inv env c"
  shows "conv_inv env (c\<lparr>cg_state := snd (repair_thread io env th u (cg_state c))\<rparr>)"
proof -
  obtain r s' where r: "repair_thread io env th u (cg_state c) = (r, s')" by (cases "repair_thread io env th u (cg_state c)")
  show ?thesis using repair_effect[OF assms(1,2) r] inv_logged[OF assms(3)] r by (auto simp: Let_def)
qed

lemma scan_inv:
  assumes "reads_ok io" and "conv_inv env c" and "cg_build c = Scanning (th # rest) ix" and "cg_flight c th = None"
  shows "conv_inv env (c\<lparr>cg_build := Scanning rest (scan_thread io env (cg_state c) th ix)\<rparr>)"
proof -
  let ?s = "cg_state c" and ?ix = "scan_thread io env (cg_state c) th ix"
  have b: "build_inv env (settled env c) ?s (Scanning (th # rest) ix)" using assms(2,3) by (simp add: conv_inv_def)
  then obtain J where J: "vs_pending ?s = Some J" "vs_cache ?s = None" "distinct (th # rest)" "index_ok ix"
    "\<forall>t\<in>set (th # rest). of_thread ix t = [] \<and> journaled_ids J t \<subseteq> cv_id ` set (settled env c t)"
    "\<forall>t. t \<notin> set (th # rest) \<longrightarrow> fold add_doc (map (doc_of (ve_index env) t) (journal_of J t)) (of_thread ix t) = docs_of env t (settled env c t)"
    by (auto simp: build_inv_def)
  have ix: "?ix = fold (index_insert (ve_index env) th) (messages env ?s th) ix" using assms(1) by (simp add: scan_thread_def)
  have ok: "index_ok ?ix" unfolding ix using J(4) by (rule insert_all_ok)
  have at: "of_thread ?ix t = (if t = th then docs_of env th (settled env c th) else of_thread ix t)" for t
    unfolding ix of_thread_insert_all[OF J(4)] using J(5) assms(4) by (simp add: docs_of_def settled_at)
  have "fold add_doc (map (doc_of (ve_index env) th) (journal_of J th)) (docs_of env th (settled env c th)) = docs_of env th (settled env c th)"
    using J(5) by (intro add_docs_known) (simp add: journaled_ids_def docs_of_ids image_image)
  then have "build_inv env (settled env c) ?s (Scanning rest ?ix)"
    using J ok at by (auto simp: build_inv_def)
  moreover have "settled env (c\<lparr>cg_build := Scanning rest ?ix\<rparr>) = settled env c" by (rule settled_cong) simp_all
  moreover have "flight_inv env (c\<lparr>cg_build := Scanning rest ?ix\<rparr>)"
    using flight_phase[of env c ?s "Scanning rest ?ix"] assms(2,3) by (cases c) (simp add: conv_inv_def)
  ultimately show ?thesis using assms(2) by (simp add: conv_inv_def)
qed

lemma same_files:
  assumes "vs_files s' = vs_files s"
  shows "messages env s' = messages env s" "thread_at env s' = thread_at env s" "canonical env s' \<longleftrightarrow> canonical env s"
    "store_inv env s' \<longleftrightarrow> store_inv env s"
  using assms by (simp_all add: messages_def thread_at_def threads_of_def log_entries_def parsed_def canonical_def store_inv_def fun_eq_iff)

lemma inv_same_files:
  assumes "conv_inv env c" and "vs_files s' = vs_files (cg_state c)" and "b = Idle \<or> cg_build c \<noteq> Idle \<or> \<not> truncating c"
    and "build_inv env (settled env c) s' b"
  shows "conv_inv env (c\<lparr>cg_state := s', cg_build := b\<rparr>)"
proof -
  have "settled env (c\<lparr>cg_state := s', cg_build := b\<rparr>) = settled env c"
    by (rule settled_cong) (use same_files(1)[OF assms(2), of env] in simp_all)
  then show ?thesis
    using assms(1,4) flight_phase[OF _ assms(2,3)] same_files[OF assms(2), of env] by (simp add: conv_inv_def)
qed

lemma begin_inv:
  assumes "conv_inv env c" and "cg_build c = Idle" and "\<not> truncating c" and "vs_cache (cg_state c) = None"
  shows "conv_inv env (c\<lparr>cg_state := begin_index_build (cg_state c), cg_build := Begun\<rparr>)"
  by (rule inv_same_files[OF assms(1)]) (use assms in \<open>simp_all add: begin_index_build_def build_inv_def journaled_ids_def journal_of_def\<close>)

lemma settled_live:
  assumes "conv_inv env c" and "thread_at env (cg_state c) th = None"
  shows "settled env c th = []"
proof (cases "cg_flight c th")
  case None
  then show ?thesis using assms by (auto simp: settled_def conv_inv_def store_inv_def)
next
  case (Some f)
  then have "thread_at env (cg_state c) th \<noteq> None" using assms(1) unfolding conv_inv_def flight_inv_def by blast
  then show ?thesis using assms(2) by simp
qed

lemma snapshot_inv:
  assumes "codec_ok env" and "reads_ok io" and "conv_inv env c" and "cg_build c = Begun"
    and "snapshot_threads io env (cg_state c) = (r, s')"
  shows "conv_inv env (c\<lparr>cg_state := s', cg_build := (case r of Inr ids \<Rightarrow> Scanning ids new_index | Inl e \<Rightarrow> Idle)\<rparr>)"
  using assms(2,5)
proof (cases rule: snapshot_effect)
  case (failed x)
  show ?thesis by (rule inv_same_files[OF assms(3)]) (use failed assms(3,4) in \<open>simp_all add: conv_inv_def build_inv_def\<close>)
next
  case taken
  let ?s = "cg_state c" and ?R = "map fst (threads_of env (cg_state c))"
  have c': "conv_inv env (c\<lparr>cg_state := rooted ?s\<rparr>)" by (rule inv_logged[OF assms(3), of "[]"]) simp_all
  have settled: "settled env (c\<lparr>cg_state := rooted ?s\<rparr>) = settled env c" by (rule settled_cong) simp_all
  obtain J where J: "vs_pending ?s = Some J" "vs_cache ?s = None" "\<forall>th. journaled_ids J th \<subseteq> cv_id ` set (settled env c th)"
    using assms(3,4) by (auto simp: conv_inv_def build_inv_def)
  have unlisted: "journal_of J th = [] \<and> settled env c th = []" if "th \<notin> set ?R" for th
  proof -
    have "thread_at env ?s th = None" using that by (simp add: thread_at_def map_of_eq_None_iff)
    then have e: "settled env c th = []" by (rule settled_live[OF assms(3)])
    show ?thesis using J(3)[THEN spec, of th] unfolding e by (simp add: journaled_ids_def)
  qed
  have "build_inv env (settled env c) (rooted ?s) (Scanning ?R new_index)"
    using J unlisted ascending_threads[of env ?s] logged_state[of env "[]" ?s "rooted ?s"]
    by (auto simp: build_inv_def docs_of_def ascending_def simp del: set_map)
  then have "conv_inv env (c\<lparr>cg_state := rooted ?s, cg_build := Scanning ?R new_index\<rparr>)"
    using inv_same_files[OF c', of "rooted ?s" "Scanning ?R new_index"] settled assms(4) by simp
  then show ?thesis using taken by simp
qed

lemma publish_inv:
  assumes "conv_inv env c" and "cg_build c = Scanning [] ix"
  shows "conv_inv env (c\<lparr>cg_state := publish_index env ix (cg_state c), cg_build := Idle\<rparr>)"
proof (rule inv_same_files[OF assms(1)])
  obtain J where J: "vs_pending (cg_state c) = Some J" "index_ok ix"
    "\<forall>th. fold add_doc (map (doc_of (ve_index env) th) (journal_of J th)) (of_thread ix th) = docs_of env th (settled env c th)"
    using assms by (auto simp: conv_inv_def build_inv_def)
  show "build_inv env (settled env c) (publish_index env ix (cg_state c)) Idle"
    using J by (simp add: build_inv_def publish_index_def index_agrees_def insert_journal_ok of_thread_journal)
qed (simp_all add: publish_index_def)

lemma restart_inv: "conv_inv env c \<Longrightarrow> conv_inv env (restart c)"
  using same_files[of "(cg_state c)\<lparr>vs_cache := None, vs_pending := None\<rparr>" "cg_state c" env]
  by (simp add: conv_inv_def restart_def flight_inv_def build_inv_def)

lemma conv_step_inv:
  assumes "codec_ok env" and "\<And>io. good io \<Longrightarrow> effects_ok io" and "conv_inv env c" and "conv_step good env c c'"
  shows "conv_inv env c'"
  using assms(4,3)
proof cases
  case (ensure io request)
  have "reads_ok io" using ensure assms(2) by (simp add: effects_ok_def)
  from ensure_thread_effect[OF assms(1) this, of "cg_state c" request] show ?thesis
    using ensure inv_logged[OF assms(3)] by (auto simp: upsert_of_def)
next
  case (retitle io th title now)
  have "reads_ok io" using retitle assms(2) by (simp add: effects_ok_def)
  from update_thread_effect[OF assms(1) this, of "cg_state c" th "''title''" "\<lambda>entry. (title, ti_labels entry)" now] show ?thesis
    using retitle inv_logged[OF assms(3)] by (auto simp: update_thread_title_def)
next
  case (relabel io th labels now)
  have "reads_ok io" using relabel assms(2) by (simp add: effects_ok_def)
  from update_thread_effect[OF assms(1) this, of "cg_state c" th "''labels''" "\<lambda>entry. (ti_title entry, normalize_labels labels)" now] show ?thesis
    using relabel inv_logged[OF assms(3)] by (auto simp: update_thread_labels_def)
next
  case (append_begin io th m s')
  have "reads_ok io" using append_begin assms(2) by (simp add: effects_ok_def)
  from append_begin_inv[OF assms(1) this assms(3) append_begin(3,4)] show ?thesis using append_begin(1) by simp
next
  case (append_stop io th m r s')
  have reads: "reads_ok io" using append_stop assms(2) by (simp add: effects_ok_def)
  have can: "canonical env (cg_state c)" using assms(3) by (simp add: conv_inv_def store_inv_def)
  have "s' = cg_state c \<or> s' = rooted (cg_state c)"
    using append_write_cases[OF assms(1) reads can append_stop(4)] append_stop(5) by blast
  then show ?thesis using append_stop assms(3) inv_logged[OF assms(3), of "[]" "rooted (cg_state c)"] by auto
next
  case (append_end io th m)
  then show ?thesis using append_end_inv[OF assms(1,3)] by simp
next
  case (patch io th i p)
  then show ?thesis using patch_inv[OF assms(1) _ assms(3)] assms(2) by (simp add: effects_ok_def)
next
  case (truncate_begin io th i n kept s')
  have reads: "reads_ok io" using truncate_begin assms(2) by (simp add: effects_ok_def)
  from truncate_begin(6) show ?thesis
    by (rule truncate_write_cases[OF assms(1) reads])
      (use truncate_begin(1) truncate_begin_inv[OF assms(1,3) truncate_begin(3,4)] in auto)
next
  case (truncate_stop io th i r s')
  have reads: "reads_ok io" using truncate_stop assms(2) by (simp add: effects_ok_def)
  from truncate_stop(6) show ?thesis
    by (rule truncate_write_cases[OF assms(1) reads]) (use truncate_stop assms(3) in auto)
next
  case (truncate_index th old kept)
  then show ?thesis using truncate_index_inv[OF assms(3)] by simp
next
  case (truncate_end io th old kept)
  then show ?thesis using truncate_end_inv[OF assms(1) _ assms(3)] assms(2) by (simp add: effects_ok_def)
next
  case (delete io th now)
  then show ?thesis using delete_inv[OF assms(1) _ assms(3)] assms(2) by simp
next
  case (purge io)
  then show ?thesis using purge_inv[OF assms(1) _ assms(3)] assms(2) by (simp add: effects_ok_def)
next
  case (repair io th unreadable)
  then show ?thesis using repair_inv[OF assms(1) _ assms(3)] assms(2) by (simp add: effects_ok_def)
next
  case build_begin
  then show ?thesis using begin_inv[OF assms(3)] by simp
next
  case (build_snapshot io r s')
  have "reads_ok io" using build_snapshot assms(2) by (simp add: effects_ok_def)
  from snapshot_inv[OF assms(1) this assms(3) build_snapshot(3,4)] show ?thesis using build_snapshot(1) by simp
next
  case (build_scan io th rest ix)
  then show ?thesis using scan_inv[OF _ assms(3)] assms(2) by (simp add: effects_ok_def)
next
  case (build_publish ix)
  then show ?thesis using publish_inv[OF assms(3)] by simp
qed

definition conv_init :: "conv_config \<Rightarrow> bool" where "conv_init c \<longleftrightarrow> c = empty_store"

lemma empty_inv: "conv_inv env empty_store"
  by (simp add: conv_inv_def store_inv_def flight_inv_def build_inv_def empty_store_def messages_def parsed_def canonical_def)

definition conv_system_inv :: "conv_env \<Rightarrow> conv_config \<Rightarrow> bool" where
  "conv_system_inv env c \<longleftrightarrow> (codec_ok env \<longrightarrow> conv_inv env c)"

interpretation conv: invariant_system conv_init "conv_or_crash effects_ok env" "conv_system_inv env" for env
proof
  show "conv_init s \<Longrightarrow> conv_system_inv env s" for s by (simp add: conv_init_def conv_system_inv_def empty_inv)
  show "conv_system_inv env s \<Longrightarrow> conv_or_crash effects_ok env s t \<Longrightarrow> conv_system_inv env t" for s t
    using conv_step_inv[of env effects_ok s t] restart_inv[of env s] by (auto simp: conv_or_crash_def conv_system_inv_def)
qed

lemma reached_inv: "codec_ok env \<Longrightarrow> reach conv_init (conv_or_crash effects_ok env) c \<Longrightarrow> conv_inv env c"
  using conv.reach_inv[of env c] by (simp add: conv_system_inv_def)

subsection \<open>A search sees every settled message\<close>

lemma scans_inv:
  assumes "reads_ok io" and "cg_flight c = Map.empty"
  shows "conv_inv env c \<Longrightarrow> cg_build c = Scanning R ix \<Longrightarrow>
    conv_inv env (c\<lparr>cg_build := Scanning [] (fold (scan_thread io env (cg_state c)) R ix)\<rparr>)"
  using assms(2)
proof (induction R arbitrary: ix c)
  case Nil
  have "c\<lparr>cg_build := Scanning [] ix\<rparr> = c" using Nil.prems(2) by (cases c) simp
  then show ?case using Nil.prems(1) by simp
next
  case (Cons th R)
  have "conv_inv env (c\<lparr>cg_build := Scanning R (scan_thread io env (cg_state c) th ix)\<rparr>)"
    using scan_inv[OF assms(1) Cons.prems(1,2)] Cons.prems(3) by simp
  from Cons.IH[OF this] show ?case using Cons.prems(3) by simp
qed

lemma prime_inv:
  assumes "codec_ok env" and "reads_ok io" and "conv_inv env c"
    and "vs_cache (cg_state c) \<noteq> None \<or> cg_build c = Idle \<and> cg_flight c = Map.empty"
    and "prime_index_if_cold io env (cg_state c) = (Inr (), s')"
  shows "\<exists>ix. vs_cache s' = Some ix \<and> index_agrees env (settled env c) ix"
proof (cases "vs_cache (cg_state c)")
  case (Some ix)
  then have "s' = cg_state c" using assms(5) by (simp add: prime_index_if_cold_def)
  moreover have "cg_build c = Idle" using assms(3) Some by (auto simp: conv_inv_def build_inv_def split: build_phase.splits)
  ultimately show ?thesis using assms(3) Some by (auto simp: conv_inv_def build_inv_def)
next
  case None
  then have idle: "cg_build c = Idle" "cg_flight c = Map.empty" using assms(4) by simp_all
  let ?s1 = "begin_index_build (cg_state c)"
  define c1 where "c1 = c\<lparr>cg_state := ?s1, cg_build := Begun\<rparr>"
  have quiet: "\<not> truncating c" using idle(2) by (simp add: truncating_def)
  have c1: "conv_inv env c1" unfolding c1_def using begin_inv[OF assms(3) idle(1) quiet None] .
  obtain ids s2 where s2: "snapshot_threads io env ?s1 = (Inr ids, s2)"
    "s' = publish_index env (fold (scan_thread io env s2) ids new_index) s2"
    using assms(5) None by (auto simp: prime_index_if_cold_def op_bind_def split: prod.splits sum.splits)
  define c2 where "c2 = c1\<lparr>cg_state := s2, cg_build := Scanning ids new_index\<rparr>"
  have c2: "conv_inv env c2"
    using snapshot_inv[OF assms(1,2) c1, of "Inr ids" s2] s2(1) by (simp add: c1_def c2_def)
  have c3: "conv_inv env (c2\<lparr>cg_build := Scanning [] (fold (scan_thread io env s2) ids new_index)\<rparr>)"
    using scans_inv[OF assms(2) _ c2, of ids new_index] idle(2) by (simp add: c1_def c2_def)
  have c4: "conv_inv env (c\<lparr>cg_state := s', cg_build := Idle\<rparr>)"
    using publish_inv[OF c3] by (simp add: c1_def c2_def s2(2))
  have "s2 = rooted ?s1" using s2(1) assms(2) by (auto simp: snapshot_threads_def op_simps split: option.splits)
  then have m: "messages env s' = messages env (cg_state c)"
    using same_files(1)[of s' s2 env] same_files(1)[of ?s1 "cg_state c" env] by (simp add: s2(2) publish_index_def begin_index_build_def)
  have "settled env (c\<lparr>cg_state := s', cg_build := Idle\<rparr>) = settled env c" using idle(2) by (simp add: settled_def fun_eq_iff m)
  moreover obtain ix where "vs_cache s' = Some ix" by (simp add: s2(2) publish_index_def)
  ultimately show ?thesis using c4 by (simp add: conv_inv_def build_inv_def)
qed

text \<open>
  C36: A search misses no message and finds none that is gone. After any run of callers, index builds and crashes (none of them
  inside a deletion or a purge, none leaving part of a line) in which no read and no removal of a file failed, take
  a search none of whose terms reaches the candidate cap of \<^const>\<open>LARGE_CANDIDATE_LIMIT\<close>, and that answers from a warm
  index, or builds it with nobody writing meanwhile. It returns what a scan of all settled messages of all threads returns.
  Settled are the rows of the transcripts, but for the row of an append that has not returned, and with the rows a
  truncation that has not reached the index is taking away; of rows under one id the first counts.
\<close>

theorem search_sees_settled_messages:
  assumes "codec_ok env" and "reach conv_init (conv_or_crash effects_ok env) c" and "effects_ok io"
    and "vs_cache (cg_state c) \<noteq> None \<or> cg_build c = Idle \<and> cg_flight c = Map.empty"
    and "search_cross_thread_messages io env query limit exclude (cg_state c) = (Inr hits, s')"
    and "\<forall>xs. mset (xe_hash_order (ve_index env) xs) = mset xs"
    and "\<forall>ix. vs_cache s' = Some ix \<longrightarrow> gather_candidates ix (search_terms (ve_index env) query) \<noteq> None"
  shows "\<exists>es L. (\<forall>th. filter (\<lambda>e. de_thread_id e = th) es = docs_of env th (settled env c th)) \<and>
    mset L = mset (scan_hits (search_terms (ve_index env) query) exclude es) \<and> sorted_wrt better_hit L \<and>
    hits = map (\<lambda>(e, n). hit_of e (of_nat n / of_nat (length (search_terms (ve_index env) query)))) (take limit L)"
proof -
  have inv: "conv_inv env c" using reached_inv[OF assms(1,2)] .
  have prime: "prime_index_if_cold io env (cg_state c) = (Inr (), s')"
    using assms(5) by (auto simp: search_cross_thread_messages_def op_bind_def op_get_def split: prod.splits sum.splits)
  have reads: "reads_ok io" using assms(3) by (simp add: effects_ok_def)
  obtain ix where ix: "vs_cache s' = Some ix" "index_agrees env (settled env c) ix"
    using prime_inv[OF assms(1) reads inv assms(4) prime] by blast
  have hits: "hits = index_search (ve_index env) query limit exclude ix"
    using assms(5) prime ix(1) by (simp add: search_cross_thread_messages_def op_bind_def op_get_def)
  have ok: "index_ok ix" "filter (\<lambda>e. de_thread_id e = th) (live ix) = docs_of env th (settled env c th)" for th
    using ix(2) by (simp_all add: index_agrees_def of_thread_def)
  note found = search_scan[OF ok(1) assms(6), of query exclude limit]
  then show ?thesis using ok(2) assms(7) ix(1) unfolding hits by blast
qed

lemma distinct_find:
  "distinct (filter P (map f xs)) \<Longrightarrow> e \<in> set xs \<Longrightarrow> f e = k \<Longrightarrow> P k \<Longrightarrow> List.find (\<lambda>x. f x = k) xs = Some e"
  by (induction xs) (auto split: if_splits simp: image_iff)

text \<open>
  C37: No thread carries two messages under one deterministic id, and an append that meets such an id returns the row the
  thread holds and changes nothing but to create an absent log: a reply persisted by two writers is stored once, whatever came
  before.
\<close>

theorem reply_stored_once:
  assumes "codec_ok env" and "reach conv_init (conv_or_crash effects_ok env) c" and "reads_ok io"
    and "is_deterministic_message_id (cv_id m)"
  shows "distinct (filter is_deterministic_message_id (map cv_id (messages env (cg_state c) th))) \<and>
    (\<forall>e \<in> set (messages env (cg_state c) th). cv_id e = cv_id m \<longrightarrow> fi_root io = None \<longrightarrow>
      append_message io env th m (cg_state c) = (Inr e, rooted (cg_state c)))"
proof
  let ?s = "cg_state c" and ?ms = "messages env (cg_state c) th"
  have inv: "store_inv env ?s" using reached_inv[OF assms(1,2)] by (simp add: conv_inv_def)
  then show d: "distinct (filter is_deterministic_message_id (map cv_id ?ms))" by (simp add: store_inv_def)
  have can: "canonical env (rooted ?s)" using inv by (simp add: store_inv_def)
  show "\<forall>e\<in>set ?ms. cv_id e = cv_id m \<longrightarrow> fi_root io = None \<longrightarrow> append_message io env th m ?s = (Inr e, rooted ?s)"
  proof (intro ballI impI)
    fix e assume e: "e \<in> set ?ms" "cv_id e = cv_id m" and root: "fi_root io = None"
    have "List.find (\<lambda>x. cv_id x = cv_id m) ?ms = Some e"
      using distinct_find[OF d e] assms(4) by simp
    have "?ms \<noteq> []" using e(1) by auto
    then have live: "thread_at env ?s th \<noteq> None" using inv unfolding store_inv_def by blast
    show "append_message io env th m ?s = (Inr e, rooted ?s)"
      using assms(1,3,4) root live \<open>List.find _ _ = Some e\<close>
      by (auto simp: append_message_def append_write_def op_simps find_in_transcript[OF assms(1,3) can])
  qed
qed

subsection \<open>Counts\<close>

definition io_fine :: "file_io \<Rightarrow> bool" where
  "io_fine io \<longleftrightarrow> effects_ok io \<and> fi_root io = None \<and> fi_remove_dir io = None \<and> (\<forall>p. fi_append io p = None \<and> fi_rewrite io p = None)"

definition counts_fit :: "(string \<Rightarrow> nat) \<Rightarrow> thread_index \<Rightarrow> bool" where
  "counts_fit N index \<longleftrightarrow> (\<forall>t entry. map_of index t = Some entry \<longrightarrow> ti_message_count entry \<in> {None, Some (N t)})"

text \<open>The rows the log has counted: those of a truncation in flight are counted until its \<^verbatim>\<open>Stats\<close>.\<close>

definition accounted :: "conv_env \<Rightarrow> conv_config \<Rightarrow> string \<Rightarrow> conversation_message list" where
  "accounted env c th = (case cg_flight c th of Some (Reindexed old kept) \<Rightarrow> old | _ \<Rightarrow> settled env c th)"

definition count_inv :: "conv_env \<Rightarrow> conv_config \<Rightarrow> bool" where
  "count_inv env c \<longleftrightarrow> counts_fit (\<lambda>t. length (accounted env c t)) (threads_of env (cg_state c))"

lemma accounted_cong:
  assumes "cg_flight c' = cg_flight c" and "messages env (cg_state c') = messages env (cg_state c)"
  shows "accounted env c' = accounted env c"
  by (rule ext) (simp add: accounted_def assms settled_cong[OF assms] split: option.split flight.split)

lemmas accounted_defs = accounted_def settled_def fun_eq_iff
lemmas flight_splits = option.split flight.split

lemma accounted_at: "cg_flight c th = None \<Longrightarrow> accounted env c th = messages env (cg_state c) th"
  by (simp add: accounted_defs)

lemma fit_lookup: "counts_fit N index \<Longrightarrow> map_of index t = Some entry \<Longrightarrow> ti_message_count entry \<in> {None, Some (N t)}"
  by (simp add: counts_fit_def)

lemma fit_put: "counts_fit N index \<Longrightarrow> ti_message_count v \<in> {None, Some (N' k)} \<Longrightarrow> \<forall>t. t \<noteq> k \<longrightarrow> N' t = N t \<Longrightarrow> counts_fit N' (bt_put k v index)"
  by (simp add: counts_fit_def map_of_bt_put)

lemma fit_upsert: "counts_fit N index \<Longrightarrow> counts_fit N (fold_entry (Upsert t a b d p ls q) index)"
  using fit_lookup[of N index t] by (auto intro!: fit_put[of N] split: option.split)

lemma fit_stats: "counts_fit N index \<Longrightarrow> \<forall>k. k \<noteq> t \<longrightarrow> N' k = N k \<Longrightarrow> N' t = n \<Longrightarrow> counts_fit N' (fold_entry (Stats t n l) index)"
proof (cases "map_of index t")
  case None
  then show "counts_fit N index \<Longrightarrow> \<forall>k. k \<noteq> t \<longrightarrow> N' k = N k \<Longrightarrow> N' t = n \<Longrightarrow> ?thesis"
    unfolding counts_fit_def by (simp, metis option.distinct(1))
qed (auto intro: fit_put)

lemma fit_appended: "counts_fit N index \<Longrightarrow> counts_fit (N(t := Suc (N t))) (fold_entry (Message_Appended t l) index)"
  by (auto simp: counts_fit_def map_of_bt_put split: option.split)

lemma fit_deleted: "counts_fit N index \<Longrightarrow> counts_fit (N(t := n)) (fold_entry (Delete_Thread t l) index)"
  by (simp add: counts_fit_def map_of_bt_remove)

lemma fit_same: "counts_fit N index \<Longrightarrow> N = N' \<Longrightarrow> counts_fit N' index"
  by simp

lemma fit_fold:
  assumes "\<forall>e\<in>set es. (\<exists>t a b d p ls q. e = Upsert t a b d p ls q) \<or> (\<exists>t l. e = Stats t (N t) l)"
  shows "counts_fit N index \<Longrightarrow> counts_fit N (fold fold_entry es index)"
  using assms
proof (induction es arbitrary: index)
  case (Cons e es)
  have "counts_fit N (fold_entry e index)" using Cons.prems by (auto intro: fit_upsert fit_stats simp del: fold_entry.simps)
  then show ?case using Cons by simp
qed simp

lemma count_logged:
  assumes "count_inv env c" and "logged env es (cg_state c) s'"
    and "\<forall>e\<in>set es. (\<exists>t a b d p ls q. e = Upsert t a b d p ls q) \<or> (\<exists>t l. e = Stats t (length (accounted env c t)) l)"
  shows "count_inv env (c\<lparr>cg_state := s'\<rparr>)"
  using fit_fold[OF assms(3)] assms(1)
    accounted_cong[of "c\<lparr>cg_state := s'\<rparr>" c env] logged_messages[OF assms(2)]
  by (simp add: count_inv_def logged_threads[OF assms(2)])

lemma count_rooted: "count_inv env c \<Longrightarrow> count_inv env (c\<lparr>cg_state := rooted (cg_state c)\<rparr>)"
  by (rule count_logged[of _ _ "[]"]) simp_all

lemma count_build:
  assumes "count_inv env c" and "vs_files s' = vs_files (cg_state c)"
  shows "count_inv env (c\<lparr>cg_state := s', cg_build := b\<rparr>)"
  using assms same_files[OF assms(2), of env] accounted_cong[of "c\<lparr>cg_state := s', cg_build := b\<rparr>" c env]
  by (simp add: count_inv_def threads_of_def log_entries_def parsed_def)

lemma fine_reads [simp]: "io_fine io \<Longrightarrow> reads_ok io" and fine_effects [simp]: "io_fine io \<Longrightarrow> effects_ok io"
  and fine_calls [simp]: "io_fine io \<Longrightarrow> fi_root io = None" "io_fine io \<Longrightarrow> fi_append io p = None" "io_fine io \<Longrightarrow> fi_rewrite io p = None"
  by (simp_all add: io_fine_def effects_ok_def)

lemma append_end_count:
  assumes "codec_ok env" and "conv_inv env c" and "count_inv env c" and "io_fine io" and "cg_flight c th = Some (Appending m)"
  shows "count_inv env (c\<lparr>cg_state := snd (append_publish io env th m (cg_state c)), cg_flight := (cg_flight c)(th := None)\<rparr>)"
proof -
  obtain ms where ms: "messages env (cg_state c) th = ms @ [m]" using assms(2,5) flight_at[of env c th] by (auto simp: conv_inv_def)
  let ?N = "\<lambda>t. length (accounted env c t)"
  have "length (accounted env (c\<lparr>cg_state := snd (append_publish io env th m (cg_state c)), cg_flight := (cg_flight c)(th := None)\<rparr>) t) =
      (?N(th := Suc (?N th))) t" for t
    using ms assms(1,4,5) by (simp add: accounted_defs append_publish_effect split: flight_splits)
  then show ?thesis
    using fit_appended[of ?N "threads_of env (cg_state c)" th "cv_created_at m"] assms(1,3,4)
    by (simp add: count_inv_def append_publish_effect del: fold_entry.simps fun_upd_apply)
qed

lemma append_begin_count:
  assumes "codec_ok env" and "conv_inv env c" and "count_inv env c" and "reads_ok io" and "cg_flight c th = None"
    and "append_write io env th m (cg_state c) = (Inr None, s')"
  shows "count_inv env (c\<lparr>cg_state := s', cg_flight := (cg_flight c)(th \<mapsto> Appending m)\<rparr>)"
proof -
  have can: "canonical env (cg_state c)" using assms(2) by (simp add: conv_inv_def store_inv_def)
  have s': "s' = transcript_set env th (messages env (cg_state c) th @ [m]) (rooted (cg_state c))"
    using append_write_cases[OF assms(1,4) can assms(6)] by simp
  have "accounted env (c\<lparr>cg_state := s', cg_flight := (cg_flight c)(th \<mapsto> Appending m)\<rparr>) = accounted env c"
    using assms(1,5) by (auto simp: accounted_defs s' split: flight_splits)
  moreover have "threads_of env s' = threads_of env (cg_state c)"
    using log_untouched[of s' "rooted (cg_state c)" env] by (simp add: s' transcript_set_def)
  ultimately show ?thesis using assms(3) by (simp add: count_inv_def)
qed

lemma patch_count:
  assumes "codec_ok env" and "count_inv env c" and "reads_ok io" and "cg_flight c th = None"
  shows "count_inv env (c\<lparr>cg_state := snd (update_message io env th i p (cg_state c))\<rparr>)"
  using update_message_effect[OF assms(1,3), of th i p "cg_state c"]
proof (elim disjE exE conjE)
  let ?s = "cg_state c"
  fix ms' assume s': "snd (update_message io env th i p ?s) = transcript_set env th ms' ?s"
    and "map cv_id ms' = map cv_id (messages env ?s th)"
  then have "length ms' = length (messages env ?s th)" using map_eq_imp_length_eq by blast
  then have "(\<lambda>t. length (accounted env (c\<lparr>cg_state := transcript_set env th ms' ?s\<rparr>) t)) = (\<lambda>t. length (accounted env c t))"
    using assms(1,4) by (auto simp: accounted_defs split: flight_splits)
  moreover have "threads_of env (transcript_set env th ms' ?s) = threads_of env ?s"
    using log_untouched[of "transcript_set env th ms' ?s" ?s env] by (simp add: transcript_set_def)
  ultimately show ?thesis using assms(2) s' by (simp add: count_inv_def)
qed (use assms(2) in simp)

lemma truncate_begin_count:
  assumes "codec_ok env" and "count_inv env c" and "cg_flight c th = None"
  shows "count_inv env (c\<lparr>cg_state := transcript_set env th kept (cg_state c),
    cg_flight := (cg_flight c)(th \<mapsto> Rewritten (messages env (cg_state c) th) kept)\<rparr>)"
proof -
  have "accounted env (c\<lparr>cg_state := transcript_set env th kept (cg_state c),
      cg_flight := (cg_flight c)(th \<mapsto> Rewritten (messages env (cg_state c) th) kept)\<rparr>) = accounted env c"
    using assms(1,3) by (auto simp: accounted_defs split: flight_splits)
  moreover have "threads_of env (transcript_set env th kept (cg_state c)) = threads_of env (cg_state c)"
    using log_untouched[of "transcript_set env th kept (cg_state c)" "cg_state c" env] by (simp add: transcript_set_def)
  ultimately show ?thesis using assms(2) by (simp add: count_inv_def)
qed

lemma truncate_index_count:
  assumes "count_inv env c" and "cg_flight c th = Some (Rewritten old kept)"
  shows "count_inv env (c\<lparr>cg_state := truncate_reindex env th kept (cg_state c),
    cg_flight := (cg_flight c)(th \<mapsto> Reindexed old kept)\<rparr>)"
proof -
  have "accounted env (c\<lparr>cg_state := truncate_reindex env th kept (cg_state c),
      cg_flight := (cg_flight c)(th \<mapsto> Reindexed old kept)\<rparr>) = accounted env c"
    using assms(2) by (auto simp: accounted_defs split: flight_splits)
  then show ?thesis using assms(1) by (simp add: count_inv_def)
qed

lemma truncate_end_count:
  assumes "codec_ok env" and "conv_inv env c" and "count_inv env c" and "io_fine io"
    and "cg_flight c th = Some (Reindexed old kept)"
  shows "count_inv env (c\<lparr>cg_state := snd (truncate_stats io env th kept (cg_state c)), cg_flight := (cg_flight c)(th := None)\<rparr>)"
proof (rule truncate_stats_effect[OF assms(1) fine_reads[OF assms(4)], of "cg_state c" th kept])
  let ?s' = "snd (truncate_stats io env th kept (cg_state c))" and ?N = "\<lambda>t. length (accounted env c t)"
  fix l assume l: "logged env [Stats th (length kept) l] (cg_state c) ?s'"
  have k: "messages env (cg_state c) th = kept" using assms(2,5) flight_at[of env c th] by (auto simp: conv_inv_def)
  have n: "(\<lambda>t. length (accounted env (c\<lparr>cg_state := ?s', cg_flight := (cg_flight c)(th := None)\<rparr>) t)) = ?N(th := length kept)"
    using k logged_messages[OF l] by (auto simp: accounted_defs split: flight_splits)
  show ?thesis
    using assms(3) n logged_threads[OF l] fit_stats[of ?N "threads_of env (cg_state c)" th "?N(th := length kept)" "length kept" l]
    by (simp add: count_inv_def del: fold_entry.simps)
qed (use assms(4) in simp_all)

lemma delete_count:
  assumes "codec_ok env" and "count_inv env c" and "effects_ok io" and "cg_flight c = Map.empty"
  shows "count_inv env (c\<lparr>cg_state := snd (delete_thread io env th at' (cg_state c))\<rparr>)"
  using delete_effect[OF assms(1,3), of "cg_state c" th at']
proof (elim disjE exE conjE)
  let ?s = "cg_state c" and ?N = "\<lambda>t. length (accounted env c t)"
  fix s1 assume l: "logged env [Delete_Thread th at'] ?s s1" and f: "snd (delete_thread io env th at' ?s) = forgotten env th s1"
  have n: "(\<lambda>t. length (accounted env (c\<lparr>cg_state := forgotten env th s1\<rparr>) t)) = ?N(th := 0)"
    using assms(4) logged_messages[OF l] by (simp add: accounted_defs)
  have "threads_of env (forgotten env th s1) = threads_of env s1"
    using log_untouched[of "forgotten env th s1" s1 env] by (simp add: forgotten_def cache_update_def)
  then show ?thesis
    using assms(2) n f logged_threads[OF l] fit_deleted[of ?N "threads_of env ?s" th 0 at']
    by (simp add: count_inv_def del: fold_entry.simps)
qed (use count_logged[OF assms(2), of "[]"] in simp)

lemma stats_accounted:
  assumes "cg_flight c = Map.empty" and "stat_entries env (cg_state c) es"
  shows "\<forall>e\<in>set es. (\<exists>t a b d p ls q. e = Upsert t a b d p ls q) \<or> (\<exists>t l. e = Stats t (length (accounted env c t)) l)"
  using assms by (simp add: stat_entries_def accounted_defs)

lemma purge_count:
  assumes "codec_ok env" and "count_inv env c" and "reads_ok io" and "cg_flight c = Map.empty"
  shows "count_inv env (c\<lparr>cg_state := snd (purge_threads io env (cg_state c))\<rparr>)"
  using purge_effect[OF assms(1,3), of "cg_state c"]
proof (elim disjE exE conjE)
  fix es assume "logged env es (cg_state c) (snd (purge_threads io env (cg_state c)))" and "stat_entries env (cg_state c) es"
  then show ?thesis using count_logged[OF assms(2)] stats_accounted[OF assms(4)] by blast
next
  assume "vs_files (snd (purge_threads io env (cg_state c))) = [THREADS_FILENAME \<mapsto> []]"
  then show ?thesis
    by (simp add: count_inv_def counts_fit_def threads_of_def log_entries_def parsed_def List.map_filter_simps)
qed

lemma repair_count:
  assumes "codec_ok env" and "count_inv env c" and "reads_ok io" and "cg_flight c th = None"
  shows "count_inv env (c\<lparr>cg_state := snd (repair_thread io env th u (cg_state c))\<rparr>)"
proof -
  obtain r s' where r: "repair_thread io env th u (cg_state c) = (r, s')" by (cases "repair_thread io env th u (cg_state c)")
  show ?thesis
    using repair_effect[OF assms(1,3) r] count_logged[OF assms(2), of "[]" s'] count_logged[OF assms(2), of "[Stats th _ _]" s'] r
      accounted_at[of c th env] assms(4)
    by (auto simp: Let_def)
qed

lemma count_step_inv:
  assumes "codec_ok env" and "conv_inv env c" and "count_inv env c" and "conv_step io_fine env c c'"
  shows "count_inv env c'"
  using assms(4)
proof cases
  case (ensure io request)
  from ensure_thread_effect[OF assms(1) fine_reads, of io "cg_state c" request] show ?thesis
    using ensure count_logged[OF assms(3), of "[]"] count_logged[OF assms(3), of "[upsert_of request]"] by (auto simp: upsert_of_def)
next
  case (retitle io th title now)
  from update_thread_effect[OF assms(1) fine_reads, of io "cg_state c" th "''title''" "\<lambda>entry. (title, ti_labels entry)" now] show ?thesis
    using retitle count_logged[OF assms(3), of "[]"] count_logged[OF assms(3), of "[Upsert _ _ _ _ _ _ _]"]
    by (auto simp: update_thread_title_def)
next
  case (relabel io th labels now)
  from update_thread_effect[OF assms(1) fine_reads, of io "cg_state c" th "''labels''" "\<lambda>entry. (ti_title entry, normalize_labels labels)" now]
  show ?thesis
    using relabel count_logged[OF assms(3), of "[]"] count_logged[OF assms(3), of "[Upsert _ _ _ _ _ _ _]"]
    by (auto simp: update_thread_labels_def)
next
  case (append_begin io th m s')
  from append_begin_count[OF assms(1,2,3) fine_reads append_begin(3,4)] show ?thesis using append_begin(1,2) by simp
next
  case (append_stop io th m r s')
  have can: "canonical env (cg_state c)" using assms(2) by (simp add: conv_inv_def store_inv_def)
  have "s' = cg_state c \<or> s' = rooted (cg_state c)"
    using append_write_cases[OF assms(1) fine_reads can append_stop(4)] append_stop(2,5) by blast
  then show ?thesis using append_stop assms(3) count_rooted[OF assms(3)] by auto
next
  case (append_end io th m)
  then show ?thesis using append_end_count[OF assms(1,2,3)] by simp
next
  case (patch io th i p)
  then show ?thesis using patch_count[OF assms(1,3)] by simp
next
  case (truncate_begin io th i n kept s')
  from truncate_begin(6) show ?thesis
    by (rule truncate_write_cases[OF assms(1) fine_reads[OF truncate_begin(2)]])
      (use truncate_begin(1) truncate_begin_count[OF assms(1,3) truncate_begin(3)] in auto)
next
  case (truncate_stop io th i r s')
  from truncate_stop(6) show ?thesis
    by (rule truncate_write_cases[OF assms(1) fine_reads[OF truncate_stop(2)]]) (use truncate_stop assms(3) in auto)
next
  case (truncate_index th old kept)
  then show ?thesis using truncate_index_count[OF assms(3)] by simp
next
  case (truncate_end io th old kept)
  then show ?thesis using truncate_end_count[OF assms(1,2,3)] by simp
next
  case (delete io th now)
  then show ?thesis using delete_count[OF assms(1,3)] by simp
next
  case (purge io)
  then show ?thesis using purge_count[OF assms(1,3)] by simp
next
  case (repair io th unreadable)
  then show ?thesis using repair_count[OF assms(1,3)] by simp
next
  case build_begin
  then show ?thesis using count_build[OF assms(3), of "begin_index_build (cg_state c)"] by (simp add: begin_index_build_def)
next
  case (build_snapshot io r s')
  then have "r = Inr (map fst (threads_of env (cg_state c)))" "s' = rooted (cg_state c)"
    by (auto simp: snapshot_threads_def op_simps)
  then show ?thesis using build_snapshot count_build[OF count_rooted[OF assms(3)], of "rooted (cg_state c)"] by simp
next
  case (build_scan io th rest ix)
  have "c\<lparr>cg_build := b\<rparr> = c\<lparr>cg_state := cg_state c, cg_build := b\<rparr>" for b by (cases c) simp
  then show ?thesis using build_scan count_build[OF assms(3), of "cg_state c"] by simp
next
  case (build_publish ix)
  then show ?thesis using count_build[OF assms(3), of "publish_index env ix (cg_state c)"] by (simp add: publish_index_def)
qed

definition conv_counts_inv :: "conv_env \<Rightarrow> conv_config \<Rightarrow> bool" where
  "conv_counts_inv env c \<longleftrightarrow> (codec_ok env \<longrightarrow> conv_inv env c \<and> count_inv env c)"

lemma empty_counts: "count_inv env empty_store"
  by (simp add: count_inv_def counts_fit_def empty_store_def threads_of_def log_entries_def parsed_def)

text \<open>Crashes that hit no operation on its way.\<close>

definition conv_or_idle_crash :: "conv_env \<Rightarrow> conv_config \<Rightarrow> conv_config \<Rightarrow> bool" where
  "conv_or_idle_crash env c c' \<longleftrightarrow> conv_step io_fine env c c' \<or> cg_flight c = Map.empty \<and> c' = restart c"

lemma restart_count: "count_inv env c \<Longrightarrow> cg_flight c = Map.empty \<Longrightarrow> count_inv env (restart c)"
proof -
  assume c: "count_inv env c" "cg_flight c = Map.empty"
  have f: "vs_files (cg_state (restart c)) = vs_files (cg_state c)" "cg_flight (restart c) = cg_flight c"
    using c(2) by (simp_all add: restart_def)
  have "accounted env (restart c) = accounted env c" by (rule accounted_cong) (use f same_files(1)[OF f(1), of env] in simp_all)
  moreover have "threads_of env (cg_state (restart c)) = threads_of env (cg_state c)"
    using f(1) by (simp add: threads_of_def log_entries_def parsed_def)
  ultimately show "count_inv env (restart c)" using c(1) by (simp add: count_inv_def)
qed

interpretation conv_counts: invariant_system conv_init "conv_or_idle_crash env" "conv_counts_inv env" for env
proof
  show "conv_init s \<Longrightarrow> conv_counts_inv env s" for s
    by (simp add: conv_init_def conv_counts_inv_def empty_inv empty_counts)
  show "conv_counts_inv env s \<Longrightarrow> conv_or_idle_crash env s t \<Longrightarrow> conv_counts_inv env t" for s t
    using conv_step_inv[of env io_fine s t] count_step_inv[of env s t] restart_inv[of env s] restart_count[of env s]
    by (auto simp: conv_counts_inv_def conv_or_idle_crash_def)
qed

text \<open>
  C38: The listed counts are true: as long as no file call fails and the process only dies with no append, truncation, deletion
  or purge on its way, a listing made while none of them is on its way shows every thread, and no other, each with the
  number of messages its transcript holds, though it reads no transcript whose count it has.
\<close>

theorem listed_counts_true:
  assumes "codec_ok env" and "reach conv_init (conv_or_idle_crash env) c" and "reads_ok io" and "cg_flight c = Map.empty"
    and "list_threads io env (cg_state c) = Some (Inr ts, s')"
  shows "ct_id ` set ts = dom (thread_at env (cg_state c)) \<and>
    (\<forall>t\<in>set ts. ct_message_count t = length (messages env (cg_state c) (ct_id t)))"
proof -
  have "count_inv env c" using conv_counts.reach_inv[OF assms(2)] assms(1) by (simp add: conv_counts_inv_def)
  then have "counted env (cg_state c)"
    using assms(4) by (auto simp: counted_def count_inv_def counts_fit_def thread_at_def accounted_at)
  from listing_counts[OF assms(1,3) this assms(5)] show ?thesis .
qed

text \<open>
  What a crash inside an append or a truncation leaves: with statistics in the log the count stays that of before, one
  short of the transcript or above it, in every later listing.
\<close>

lemma crash_listing:
  assumes "thread_at env (cg_state c) th = Some entry" and "ti_message_count entry = Some n"
    and "\<forall>t e. thread_at env (cg_state c) t = Some e \<longrightarrow> \<not> missing_stats e" and "reads_ok io" and "fi_root io = None"
  shows "\<exists>ts t s'. list_threads io env (cg_state (restart c)) = Some (Inr ts, s') \<and> t \<in> set ts \<and> ct_id t = th \<and>
    ct_message_count t = n"
proof -
  let ?s = "cg_state (restart c)"
  have same: "thread_at env ?s = thread_at env (cg_state c)"
    using same_files[of ?s "cg_state c" env] by (simp add: restart_def)
  have "todo env [] ?s = {}" using assms(3) by (auto simp: todo_def same)
  then have l: "list_threads io env ?s = Some (Inr (threads_from_index env (threads_of env ?s)), rooted ?s)"
    using assms(4,5) by (simp add: list_threads_def list_loop_done)
  have e: "(th, entry) \<in> set (threads_of env ?s)" using assms(1) by (simp add: thread_at_member same)
  let ?t = "thread_of_entry th entry (or_default (ti_message_count entry) 0) (or_default (ti_last_message_at entry) (ti_created_at entry))"
  have "?t \<in> set (threads_from_index env (threads_of env ?s))"
    using e by (force simp: threads_from_index_def)
  moreover have "ct_id ?t = th" "ct_message_count ?t = n" using assms(2) by (simp_all add: thread_of_entry_def or_default_def)
  ultimately show ?thesis using l by blast
qed

lemma restart_messages: "messages env (cg_state (restart c)) = messages env (cg_state c)"
  using same_files(1)[of "cg_state (restart c)" "cg_state c" env] by (simp add: restart_def)

theorem crash_leaves_count_short:
  assumes "conv_inv env c" and "cg_flight c th = Some (Appending m)" and "thread_at env (cg_state c) th = Some entry"
    and "ti_message_count entry = Some (length (settled env c th))"
    and "\<forall>t e. thread_at env (cg_state c) t = Some e \<longrightarrow> \<not> missing_stats e" and "reads_ok io" and "fi_root io = None"
  shows "\<exists>ts t s'. list_threads io env (cg_state (restart c)) = Some (Inr ts, s') \<and> t \<in> set ts \<and> ct_id t = th \<and>
    Suc (ct_message_count t) = length (messages env (cg_state (restart c)) th)"
proof -
  obtain ms where "messages env (cg_state c) th = ms @ [m]" using assms(1,2) flight_at[of env c th] by (auto simp: conv_inv_def)
  then have "Suc (length (settled env c th)) = length (messages env (cg_state (restart c)) th)"
    using assms(2) by (simp add: settled_def restart_messages)
  then show ?thesis using crash_listing[OF assms(3-7)] by metis
qed

theorem crash_leaves_count_long:
  assumes "conv_inv env c" and "cg_flight c th = Some (Rewritten old kept)" and "thread_at env (cg_state c) th = Some entry"
    and "ti_message_count entry = Some (length (settled env c th))"
    and "\<forall>t e. thread_at env (cg_state c) t = Some e \<longrightarrow> \<not> missing_stats e" and "reads_ok io" and "fi_root io = None"
  shows "\<exists>ts t s'. list_threads io env (cg_state (restart c)) = Some (Inr ts, s') \<and> t \<in> set ts \<and> ct_id t = th \<and>
    length (messages env (cg_state (restart c)) th) < ct_message_count t"
proof -
  have "length (messages env (cg_state (restart c)) th) < length (settled env c th)"
    using assms(1,2) flight_at[of env c th] by (auto simp: conv_inv_def settled_def restart_messages)
  then show ?thesis using crash_listing[OF assms(3-7)] by metis
qed

subsection \<open>Witnesses\<close>

text \<open>A thread with one message, stored by the operations.\<close>

definition one_thread :: create_thread where
  "one_thread = \<lparr>cr_id = ''a'', cr_title = ''t'', cr_created_at = ''z'', cr_parent_thread_id = None, cr_labels = None,
    cr_personality_id = None\<rparr>"

definition one_message :: conversation_message where
  "one_message = toy_message ''agent:1'' (utext_of ''cat'') ''z''"

definition one_log :: conv_state where
  "one_log = log_put bell_env (upsert_of one_thread) (rooted empty_files)"

definition one_row :: conv_state where
  "one_row = transcript_set bell_env ''a'' [one_message] one_log"

definition one_stored :: conv_state where
  "one_stored = log_put bell_env (Message_Appended ''a'' ''z'') (published bell_env ''a'' one_message one_row)"

definition one_store :: conv_config where
  "one_store = \<lparr>cg_state = one_stored, cg_flight = Map.empty, cg_build = Idle\<rparr>"

lemma quiet_fine [simp]: "io_fine quiet_io"
  by (simp add: io_fine_def effects_ok_def reads_ok_def quiet_io_def)

lemma empty_files_facts: "canonical bell_env empty_files" "messages bell_env empty_files = (\<lambda>_. [])" "threads_of bell_env empty_files = []"
  "vs_cache empty_files = None" "vs_pending empty_files = None" "vs_files empty_files = Map.empty"
  by (simp_all add: empty_files_def canonical_def messages_def threads_of_def log_entries_def parsed_def fun_eq_iff)

lemma one_log_rooted: "rooted one_log = one_log"
  by (simp add: one_log_def rooted_def log_put_def)

lemma one_log_facts: "canonical bell_env one_log" "messages bell_env one_log = (\<lambda>_. [])" "thread_at bell_env one_log ''a'' \<noteq> None"
  "vs_cache one_log = None" "vs_pending one_log = None" "map fst (threads_of bell_env one_log) = [''a'']"
proof -
  have l: "logged bell_env [upsert_of one_thread] empty_files one_log" using bell_codec by (simp add: one_log_def)
  show "canonical bell_env one_log" using logged_canonical[OF l] empty_files_facts(1) by simp
  show "messages bell_env one_log = (\<lambda>_. [])" using logged_messages[OF l] empty_files_facts(2) by simp
  show "vs_cache one_log = None" "vs_pending one_log = None" using logged_state[OF l] empty_files_facts by simp_all
  show "map fst (threads_of bell_env one_log) = [''a'']"
    using logged_threads[OF l] empty_files_facts(3) by (simp add: upsert_of_def one_thread_def bt_put_def)
  then show "thread_at bell_env one_log ''a'' \<noteq> None" by (simp add: thread_at_def map_of_eq_None_iff del: set_map flip: set_map)
qed

lemma one_ensured: "snd (ensure_thread quiet_io bell_env one_thread empty_files) = one_log"
  using one_log_rooted by (simp add: ensure_thread_def op_simps upsert_of_def[symmetric] one_log_def[symmetric] split: option.split)

lemma one_written: "append_write quiet_io bell_env ''a'' one_message one_log = (Inr None, one_row)"
  using one_log_facts one_log_rooted find_in_transcript[OF bell_codec fine_reads one_log_facts(1), of quiet_io "''a''" "cv_id one_message"]
    append_transcript[OF one_log_facts(1), of quiet_io "''a''" one_message]
  by (auto simp: append_write_def op_simps one_row_def)

lemma one_published: "snd (append_publish quiet_io bell_env ''a'' one_message one_row) = one_stored"
  by (simp add: append_publish_effect one_stored_def one_message_def toy_message_def)

lemma no_flight: "Map.empty(k := None) = Map.empty"
  by auto

lemma one_reached: "reach conv_init (conv_step io_fine bell_env) one_store"
proof -
  let ?c1 = "empty_store\<lparr>cg_state := one_log\<rparr>" and ?c2 = "empty_store\<lparr>cg_state := one_row, cg_flight := [''a'' \<mapsto> Appending one_message]\<rparr>"
  have e: "cg_state empty_store = empty_files" by (simp add: empty_store_def empty_files_def)
  have "reach conv_init (conv_step io_fine bell_env) empty_store" by (rule reach_init) (simp add: conv_init_def)
  moreover have "conv_step io_fine bell_env empty_store ?c1"
    using conv_step.ensure[of io_fine quiet_io empty_store one_thread bell_env] one_ensured e by (simp add: empty_store_def)
  ultimately have c1: "reach conv_init (conv_step io_fine bell_env) ?c1" by (rule reach_step)
  have "conv_step io_fine bell_env ?c1 ?c2"
    using conv_step.append_begin[of io_fine quiet_io ?c1 "''a''" bell_env one_message one_row] one_written by (simp add: empty_store_def)
  with c1 have c2: "reach conv_init (conv_step io_fine bell_env) ?c2" by (rule reach_step)
  have "conv_step io_fine bell_env ?c2 one_store"
    using conv_step.append_end[of io_fine quiet_io ?c2 "''a''" one_message bell_env] one_published
    by (simp add: empty_store_def one_store_def no_flight)
  with c2 show ?thesis by (rule reach_step)
qed

lemma fine_or_crash: "conv_step io_fine env c c' \<Longrightarrow> conv_or_crash effects_ok env c c'"
proof -
  have "conv_step io_fine env c c' \<Longrightarrow> conv_step effects_ok env c c'"
    by (induction rule: conv_step.induct) (blast intro: conv_step.intros fine_effects)+
  then show "conv_step io_fine env c c' \<Longrightarrow> conv_or_crash effects_ok env c c'" by (simp add: conv_or_crash_def)
qed

lemma fine_or_idle: "reach conv_init (conv_step io_fine env) c \<Longrightarrow> reach conv_init (conv_or_idle_crash env) c"
proof (induction rule: reach.induct)
  case (reach_step s t)
  have "conv_or_idle_crash env s t" using reach_step by (simp add: conv_or_idle_crash_def)
  then show ?case using reach_step by (blast intro: reach.reach_step)
qed (rule reach.reach_init)

lemma reached_or_crash: "reach conv_init (conv_step io_fine env) c \<Longrightarrow> reach conv_init (conv_or_crash effects_ok env) c"
  by (induction rule: reach.induct) (blast intro: reach.intros fine_or_crash)+

lemma one_stored_facts: "messages bell_env one_stored = (\<lambda>_. [])(''a'' := [one_message])" "vs_cache one_stored = None"
  "map fst (threads_of bell_env one_stored) = [''a'']"
proof -
  have t: "threads_of bell_env one_row = threads_of bell_env one_log"
    using log_untouched[of one_row one_log bell_env] by (simp add: one_row_def transcript_set_def)
  have l: "logged bell_env [Message_Appended ''a'' ''z''] (published bell_env ''a'' one_message one_row) one_stored"
    using bell_codec by (simp add: one_stored_def)
  show "messages bell_env one_stored = (\<lambda>_. [])(''a'' := [one_message])"
    using logged_messages[OF l] one_log_facts(2) bell_codec by (simp add: one_row_def)
  show "vs_cache one_stored = None" using logged_state[OF l] one_log_facts(4) bell_codec by (simp add: one_row_def)
  obtain entry where e: "threads_of bell_env one_log = [(''a'', entry)]"
    using one_log_facts(6) by (cases "threads_of bell_env one_log") auto
  show "map fst (threads_of bell_env one_stored) = [''a'']"
    using logged_threads[OF l] by (simp add: t e bt_put_def)
qed

lemma one_search:
  "\<exists>hits s'. search_cross_thread_messages quiet_io bell_env (utext_of ''cat'') 5 None one_stored = (Inr hits, s') \<and>
    (\<forall>ix. vs_cache s' = Some ix \<longrightarrow> gather_candidates ix (search_terms toy_index_env (utext_of ''cat'')) \<noteq> None)"
proof -
  let ?b = "begin_index_build one_stored"
  have f: "threads_of bell_env ?b = threads_of bell_env one_stored" "messages bell_env ?b = messages bell_env one_stored"
    using same_files[of ?b one_stored bell_env]
    by (simp_all add: begin_index_build_def threads_of_def log_entries_def parsed_def)
  have snap: "snapshot_threads quiet_io bell_env ?b = (Inr [''a''], rooted ?b)"
    by (simp add: snapshot_threads_def op_simps f one_stored_facts(3))
  let ?ix = "index_insert toy_index_env ''a'' one_message new_index"
  have scan: "scan_thread quiet_io bell_env (rooted ?b) ''a'' new_index = ?ix"
    by (simp add: scan_thread_def f one_stored_facts(1)) (simp add: bell_env_def)
  have pend: "vs_pending (rooted ?b) = Some []"
    using logged_state[of bell_env "[]" ?b "rooted ?b"] by (simp add: begin_index_build_def)
  have prime: "prime_index_if_cold quiet_io bell_env one_stored = (Inr (), publish_index bell_env ?ix (rooted ?b))"
    using snap scan one_stored_facts(2) by (simp add: prime_index_if_cold_def op_bind_def)
  have cache: "vs_cache (publish_index bell_env ?ix (rooted ?b)) = Some ?ix" using pend by (simp add: publish_index_def)
  have "length (ix_docs ?ix) \<le> LARGE_CANDIDATE_LIMIT"
    by (simp add: index_insert_def new_index_def Let_def LARGE_CANDIDATE_LIMIT_def)
  then have "gather_candidates ?ix ts \<noteq> None" for ts by (intro small_index_gathers index_insert_ok) simp_all
  then show ?thesis using prime cache by (simp add: search_cross_thread_messages_def op_bind_def op_get_def)
qed

theorem search_sees_settled_messages_witness:
  "\<exists>hits s' es L. search_cross_thread_messages quiet_io bell_env (utext_of ''cat'') 5 None one_stored = (Inr hits, s') \<and>
    filter (\<lambda>e. de_thread_id e = ''a'') es = [doc_of toy_index_env ''a'' one_message] \<and>
    mset L = mset (scan_hits (search_terms toy_index_env (utext_of ''cat'')) None es) \<and> sorted_wrt better_hit L \<and>
    hits = map (\<lambda>(e, n). hit_of e (of_nat n / of_nat (length (search_terms toy_index_env (utext_of ''cat''))))) (take 5 L)"
proof -
  obtain hits s' where s: "search_cross_thread_messages quiet_io bell_env (utext_of ''cat'') 5 None one_stored = (Inr hits, s')"
    "\<forall>ix. vs_cache s' = Some ix \<longrightarrow> gather_candidates ix (search_terms toy_index_env (utext_of ''cat'')) \<noteq> None"
    using one_search by blast
  have e: "ve_index bell_env = toy_index_env" by (simp add: bell_env_def)
  have hash: "\<forall>xs. mset (xe_hash_order (ve_index bell_env) xs) = mset xs" by (simp add: bell_env_def toy_index_env_def)
  have c: "cg_state one_store = one_stored" "cg_build one_store = Idle" "cg_flight one_store = Map.empty" by (simp_all add: one_store_def)
  have docs: "docs_of bell_env ''a'' (settled bell_env one_store ''a'') = [doc_of toy_index_env ''a'' one_message]"
    by (simp add: docs_of_def settled_def c one_stored_facts(1) add_doc_def e)
  obtain es L where "\<forall>th. filter (\<lambda>e. de_thread_id e = th) es = docs_of bell_env th (settled bell_env one_store th)"
    "mset L = mset (scan_hits (search_terms (ve_index bell_env) (utext_of ''cat'')) None es)" "sorted_wrt better_hit L"
    "hits = map (\<lambda>(e, n). hit_of e (of_nat n / of_nat (length (search_terms (ve_index bell_env) (utext_of ''cat''))))) (take 5 L)"
    using search_sees_settled_messages[OF bell_codec reached_or_crash[OF one_reached] fine_effects[OF quiet_fine] _ _ hash,
        of "utext_of ''cat''" 5 None hits s'] s by (auto simp: c e)
  then show ?thesis using s(1) docs e by metis
qed

theorem reply_stored_once_witness:
  "distinct (filter is_deterministic_message_id (map cv_id (messages bell_env one_stored ''a''))) \<and>
    append_message quiet_io bell_env ''a'' (one_message\<lparr>cv_content := []\<rparr>) one_stored = (Inr one_message, rooted one_stored) \<and>
    messages bell_env one_stored ''a'' = [one_message]"
proof -
  have "is_deterministic_message_id (cv_id (one_message\<lparr>cv_content := []\<rparr>))"
    by (simp add: is_deterministic_message_id_def DETERMINISTIC_MESSAGE_ID_PREFIX_def one_message_def toy_message_def)
  from reply_stored_once[OF bell_codec reached_or_crash[OF one_reached] fine_reads[OF quiet_fine] this, of "''a''"]
  show ?thesis using one_stored_facts(1) by (simp add: one_store_def)
qed

lemma fine_repairs: "io_fine io \<Longrightarrow> \<exists>u' s'. repair_threads io env ts u s = (Inr u', s')"
proof (induction ts arbitrary: u s)
  case (Cons t ts)
  have "\<exists>x. measure_messages io env t (rooted s) = Inr x" using Cons.prems by (simp add: measure_messages_def)
  then have "\<exists>v s1. repair_thread io env t u s = (Inr v, s1)"
    using Cons.prems by (auto simp: repair_thread_eq split: option.split)
  then show ?case using Cons by (auto simp: op_bind_def)
qed (simp add: op_return_def)

lemma listing_succeeds:
  assumes "codec_ok env" and "io_fine io"
  shows "\<exists>ts s'. list_threads io env s = Some (Inr ts, s')"
proof -
  let ?m = "map fst (filter (\<lambda>(t, entry). missing_stats entry \<and> t \<notin> set []) (threads_of env s))"
  have log: "fi_root io = None" "fi_read io THREADS_FILENAME = None" using assms(2) by simp_all
  obtain u s1 where r: "repair_threads io env ?m [] (rooted s) = (Inr u, s1)" using fine_repairs[OF assms(2)] by blast
  have "todo env u s1 \<subseteq> todo env [] (rooted s) - set ?m" using repair_threads_todo[OF assms(1) log(2) r] .
  also have "\<dots> = {}" using missing_is_todo[of "[]" env s] by (simp add: todo_def)
  finally have t: "todo env u s1 = {}" by simp
  show ?thesis
    using list_loop_step[OF log r] list_loop_done[OF log(2,1) t] unfolding list_threads_def
    by (cases "filter (\<lambda>(t, entry). missing_stats entry \<and> t \<notin> set []) (threads_of env s) = []") simp_all
qed

theorem listed_counts_true_witness:
  "\<exists>ts s'. list_threads quiet_io bell_env one_stored = Some (Inr ts, s') \<and>
    map ct_message_count ts = replicate (length ts) 1 \<and> ct_id ` set ts = {''a''}"
proof -
  obtain ts s' where l: "list_threads quiet_io bell_env one_stored = Some (Inr ts, s')"
    using listing_succeeds[OF bell_codec quiet_fine] by blast
  have c: "cg_state one_store = one_stored" "cg_flight one_store = Map.empty" by (simp_all add: one_store_def)
  have dom: "dom (thread_at bell_env one_stored) = {''a''}"
    using one_stored_facts(3) by (simp add: thread_at_def dom_map_of_conv_image_fst flip: set_map)
  note listed = listed_counts_true[OF bell_codec fine_or_idle[OF one_reached] fine_reads[OF quiet_fine] c(2), unfolded c(1), OF l]
  have "ct_message_count t = 1" if "t \<in> set ts" for t
  proof -
    have "ct_id t \<in> ct_id ` set ts" using that by (rule imageI)
    then have "ct_id t = ''a''" unfolding listed[THEN conjunct1] dom by simp
    then show ?thesis using listed[THEN conjunct2, rule_format, OF that] one_stored_facts(1) by simp
  qed
  then have ones: "map ct_message_count ts = replicate (length ts) 1" by (intro replicate_eqI) auto
  have ids: "ct_id ` set ts = {''a''}" using listed[THEN conjunct1] unfolding dom .
  show ?thesis by (intro exI[of _ ts] exI[of _ s'] conjI l ones ids)
qed

end
