(* ===== verification/Spec2Isabelle.thy ===== *)
theory Spec2Isabelle
  imports Queue_Worker Queue_Protocol Seal_Protocol Flush Document_Seal Flavoured Summary_File
    Cover Chunk_Delete Rank Ingest People Conversation_Protocol
begin

text \<open>
  TinyCortex is a local-first memory engine: ingested content is cut into chunks, chunks are scored
  and indexed, and every source's chunks are folded into a tree of summaries. This development
  models its core, the crate under src/src/memory, as functions on explicit tables.

  How the parts interact. The job queue (queue/) is a table of jobs that workers claim under a lease,
  run and settle. A job appends a chunk to the level-0 buffer of a tree, or seals a buffer: the
  buffered items are folded by an injected summariser into one summary a level up, the summary's id
  goes to the parent buffer, and a parent over its gate is sealed in turn (tree/). Sealing indexes
  the summary's entities (score/store.rs) and counts the pairs that occur together (graph/). A
  periodic flush seals level-0 buffers that stayed below their gate for too long.

  The theories.

  \<^item> \<^verbatim>\<open>Prelude\<close>: 64-bit integers, errors, transactions, decimal printing, step systems and the
    invariant principle as a locale.
  \<^item> \<^verbatim>\<open>Sql_Table\<close>: tables as lists of rows, the SQL statements the program uses on them, unique indexes,
    batched reads, and the contract of a table with a key as a locale, interpreted on every table.
  \<^item> \<^verbatim>\<open>Config\<close>: the settings and their validation (config.rs, config/policy.rs).
  \<^item> \<^verbatim>\<open>Queue_Types\<close>, \<^verbatim>\<open>Queue_Store\<close>, \<^verbatim>\<open>Queue_Settle\<close>: kinds, payloads and deduplication keys (queue/types.rs,
    queue/payloads.rs), the job table with enqueue and claim (queue/store.rs), and the settles, lease
    recovery and requeue (queue/store_settle.rs).
  \<^item> \<^verbatim>\<open>Queue_Handlers\<close>, \<^verbatim>\<open>Queue_Worker\<close>: the handlers and their plans (queue/handlers.rs, queue/ops.rs,
    queue/scheduler.rs), one turn of a worker with the permit gate and the settlement of its result,
    the error classifiers, the worker loop and its waits (queue/worker.rs, queue/gate.rs,
    queue/runtime). The host's delegates are a record of functions on the database.
  \<^item> \<^verbatim>\<open>Queue_Protocol\<close>: many workers, producers and the scheduler on one job table, every interleaving
    of their transactions, as a step relation; leases exclude and fence, settled rows are final.
  \<^item> \<^verbatim>\<open>Graph\<close>, \<^verbatim>\<open>Entity_Index\<close>: co-occurrence edges, shortest paths and the self-join (graph/), score rows
    and the inverted entity index (score/store.rs, score/store_query.rs).
  \<^item> \<^verbatim>\<open>Tree_Types\<close>, \<^verbatim>\<open>Summarise\<close>, \<^verbatim>\<open>Tree_Store\<close>: the rows of trees, summaries and buffers (tree/store), the
    prompt, the deterministic fold and label resolution (tree/summarise.rs, tree/label_resolver.rs),
    the operations of the tree store and get-or-create (tree/registry.rs). The contract of a
    buffer store is a locale, interpreted on the buffer table.
  \<^item> \<^verbatim>\<open>Bucket_Seal\<close>, \<^verbatim>\<open>Seal_Protocol\<close>, \<^verbatim>\<open>Cascade\<close>, \<^verbatim>\<open>Flush\<close>: append, seal and cascade (tree/bucket_seal.rs,
    tree/hydrate.rs) with all interleavings of appends and seals as a step relation, what an
    undisturbed cascade achieves, and the flush (tree/flush.rs).
  \<^item> \<^verbatim>\<open>Document_Seal\<close>: per-document subtrees and the merge tier (tree/document_seal.rs). The batches of a
    level run one after the other; the code overlaps up to eight, which write different rows. What a stored
    subtree covers is a relation that also bounds the children of each node.
  \<^item> \<^verbatim>\<open>Content_Paths\<close>, \<^verbatim>\<open>Front_Matter\<close>, \<^verbatim>\<open>Summary_File\<close>, \<^verbatim>\<open>Flavoured\<close>: names of content files and the check
    on stored paths (store/content/paths.rs, raw.rs, read.rs), front matter, chunk files and tag
    rewriting (store/content/compose, tags.rs), summary files (compose/summary.rs) and the artifact of
    a flavoured tree with its hook in the cascade (tree/flavoured.rs). Text is a list of code points;
    Unicode case mapping, dates and the file system's answers are parameters.

  \<^item> \<^verbatim>\<open>Chunk_Store\<close>, \<^verbatim>\<open>Chunk_List\<close>: the chunk rows with their upserts, lifecycle, ingest gates, raw
    references and content pointers (chunks/store.rs, store_sources.rs, raw_refs.rs), and the filtered
    listings (chunks/store_list.rs).
  \<^item> \<^verbatim>\<open>Chunk_Delete\<close>: the scoped deletes with what they cascade into, the purge, and the removal of files
    (chunks/store_delete.rs).
  \<^item> \<^verbatim>\<open>Embeddings\<close>: the two spellings of a signature, the byte codec of vectors, the vector tables with
    their tombstones and reads (chunks/signature.rs, embeddings.rs, embeddings_query.rs).
  \<^item> \<^verbatim>\<open>Cover\<close>, \<^verbatim>\<open>Drill_Down\<close>: the nodes that answer a time window (retrieval/cover.rs, types.rs), the walk
    down a tree against its plain enumeration, and the semantic reranking (drill_down.rs, rerank.rs).
  \<^item> \<^verbatim>\<open>Query\<close>, \<^verbatim>\<open>Rank\<close>: retrieval by source, time, topic, id and graph (retrieval/source.rs, global.rs,
    fetch.rs, fast.rs), diverse selection, the hybrid score and the lookup of entities (mmr.rs,
    scoring.rs, search.rs). The embedder, the cosine, the decay and Unicode's case mapping are
    parameters.

  \<^item> \<^verbatim>\<open>Chunker\<close>, \<^verbatim>\<open>Semantic_Chunker\<close>: the ingest chunker with its budget splitter (chunks/produce.rs,
    produce_split.rs) and the heading-based one (semantic.rs). The contract of a splitter whose pieces
    tile the text is a locale, interpreted on the four splitters.
  \<^item> \<^verbatim>\<open>Canonical\<close>: chats, documents and email threads as canonical text (ingest/canonicalize).
  \<^item> \<^verbatim>\<open>Scoring\<close>, \<^verbatim>\<open>Extractors\<close>: the signals, the band in which the LLM is asked, admission, canonical
    entities and the persisted score (score/mod.rs, signals, resolver.rs, extract/types.rs), the regex
    and the LLM extractor with span recovery and retries (extract/regex.rs, llm.rs, llm_prompt.rs).
  \<^item> \<^verbatim>\<open>Ingest\<close>: staging of chunk files, the ingest transaction and the entry points (ingest/pipeline.rs,
    store/content/mod.rs, atomic.rs): an ingest schedules the chunks that need work, leaves processed ones alone and takes
    a document once.
  \<^item> \<^verbatim>\<open>People\<close>: handles and their canonical forms, the store with its tables and constraints, the registry of
    open stores with interleaving callers of \<^verbatim>\<open>init_from_workspace\<close> and \<^verbatim>\<open>for_workspace\<close>, the resolver, seeding
    from an address book and the score (people/).

  \<^item> \<^verbatim>\<open>Tokenize\<close>, \<^verbatim>\<open>Inverted_Index\<close>: normalised text and its n-grams, and the message index
    (conversations/tokenize.rs, inverted_index.rs); its search is shown equal to a scan of the messages.
  \<^item> \<^verbatim>\<open>Conversation_Store\<close>, \<^verbatim>\<open>Conversation_Log\<close>, \<^verbatim>\<open>Conversation_Protocol\<close>: the thread log,
    the transcripts and every operation of the store with its file calls (conversations/store.rs, store_ops.rs,
    store_index.rs, types.rs), the views of the files with the effect of each operation and of listing, and the
    store under concurrent callers, index builds and crashes as a step relation. An append is two steps and a truncation
    three (transcript, index, count), each under the locks the code holds there; the locks (store_locks.rs) are the
    guards of the steps. A failing file call leaves its file as it was, and a crash leaves whole lines.

  Conventions. A table is a list of records, in rowid order. A transaction is a function from the
  state to a failure or a result with the new state, and a failed one leaves the state as it was. An
  \<^verbatim>\<open>i64\<close> is an integer with its range and its saturation written out, \<^verbatim>\<open>u32\<close> and \<^verbatim>\<open>usize\<close> are naturals
  with the range where it matters, an \<^verbatim>\<open>f32\<close> score is a rational (the stored values are compared and
  copied only; NaN and rounding are not modelled). Where the code iterates a hash map or set, or reads
  rows SQLite gives no order to, the model takes the order of insertion; texts say where a result
  depends on it. Time, UUIDs and random tails are arguments. The
  summariser, embedder, observer, token counter, JSON codec and content store are parameters.

  Bounds and fuel. A cascade seals at most \<^verbatim>\<open>MAX_CASCADE_DEPTH\<close> (32) levels as in the code. The worker
  loop may run forever: \<^verbatim>\<open>run_worker\<close> takes the number of passes to follow and is \<^verbatim>\<open>None\<close> when it is
  still running after them, and \<^verbatim>\<open>drain_until_idle\<close> is a partial function, as is the listing of threads, which is proved to return. The walks of
  \<^verbatim>\<open>Cover\<close> over child ids take the number of eligible summaries as fuel, enough when every link goes
  down a level, which seals keep. The other loops are proved to end. A turn of \<^verbatim>\<open>Queue_Worker\<close> runs its transactions with nothing in between, as one worker sees
  it; what others do in between is the subject of \<^verbatim>\<open>Queue_Protocol\<close>.

  Not modelled. Log redaction and every rule that is a regular expression (the regex crate is not
  part of the repository); opening, migrating and recovering the SQLite file; threads waiting for a
  permit in \<^verbatim>\<open>acquire\<close>; the network clients; the registries of lock objects of the conversation
  store and its event bus; and the parts PROJECT.json lists as not modelled.
\<close>

end
